(* ===== verification/Prelude.thy ===== *)
theory Prelude
  imports Main "HOL-Library.Word" "HOL-Library.Monad_Syntax"
begin

text \<open>
  The shared vocabulary of the development: names for the machine integers of the C code,
  the loop combinators the models are written with, and the generic lemmas on words, bits,
  lists and bounded searches that the component theories rely on.

  C's \<^verbatim>\<open>uint8_t\<close>, \<^verbatim>\<open>uint16_t\<close>, \<^verbatim>\<open>uint32_t\<close> and \<^verbatim>\<open>uint64_t\<close> are words of that width, so
  \<open>+\<close>, \<open>-\<close> and \<open>*\<close> wrap as in C; \<^verbatim>\<open>int\<close> status codes are HOL \<open>int\<close>. An array that is
  too long to be written down as a list (the frame bitmap, the ramdisk, a block of memory) is a
  function from its index; a short one is a list.
\<close>

unbundle bit_operations_syntax

type_synonym u8 = "8 word"
type_synonym u16 = "16 word"
type_synonym u32 = "32 word"
type_synonym u64 = "64 word"

named_theorems unat_simps \<open>reading word arithmetic as natural numbers\<close>
named_theorems bitmap_simps \<open>reading and writing one bit of a byte array\<close>
named_theorems loop_simps \<open>the bounded loop combinators\<close>

section \<open>Bounded loops\<close>

text \<open>
  \<^verbatim>\<open>for (i = a; i < b; i++) body\<close> without an early exit, and the search loop
  \<^verbatim>\<open>for (i = a; i < b; i++) if (P(i)) return i;\<close>.
\<close>

definition for_loop :: "nat \<Rightarrow> nat \<Rightarrow> (nat \<Rightarrow> 's \<Rightarrow> 's) \<Rightarrow> 's \<Rightarrow> 's" where
  "for_loop a b body s = fold body [a..<b] s"

definition first_index :: "(nat \<Rightarrow> bool) \<Rightarrow> nat \<Rightarrow> nat \<Rightarrow> nat option" where
  "first_index P a b = List.find P [a..<b]"

lemma for_loop_done [loop_simps]: "b \<le> a \<Longrightarrow> for_loop a b body s = s"
  by (simp add: for_loop_def)

lemma for_loop_step [loop_simps]:
  "a < b \<Longrightarrow> for_loop a b body s = for_loop (Suc a) b body (body a s)"
  by (simp add: for_loop_def upt_rec)

lemma for_loop_last: "a \<le> b \<Longrightarrow> for_loop a (Suc b) body s = body b (for_loop a b body s)"
  by (simp add: for_loop_def)

lemma for_loop_invariant:
  assumes "P s" and "\<And>i t. a \<le> i \<Longrightarrow> i < b \<Longrightarrow> P t \<Longrightarrow> P (body i t)"
  shows "P (for_loop a b body s)"
proof -
  have "\<forall>i \<in> set xs. a \<le> i \<and> i < b \<Longrightarrow> P t \<Longrightarrow> P (fold body xs t)" for xs t
    by (induction xs arbitrary: t) (auto intro: assms(2))
  then show ?thesis using assms(1) by (simp add: for_loop_def)
qed

lemma for_loop_same:
  assumes "\<And>i t. a \<le> i \<Longrightarrow> i < b \<Longrightarrow> f (body i t) = f t"
  shows "f (for_loop a b body s) = f s"
  by (rule for_loop_invariant [where P = "\<lambda>t. f t = f s"]) (simp_all add: assms)

lemma first_index_Some_iff:
  "first_index P a b = Some i \<longleftrightarrow> a \<le> i \<and> i < b \<and> P i \<and> (\<forall>j. a \<le> j \<and> j < i \<longrightarrow> \<not> P j)"
proof -
  have "List.find P xs = Some i \<longleftrightarrow>
      (\<exists>k < length xs. xs ! k = i \<and> P i \<and> (\<forall>j < k. \<not> P (xs ! j)))" for xs
    by (auto simp: find_Some_iff)
  note this [of "[a..<b]"]
  also have "(\<exists>k < length [a..<b]. [a..<b] ! k = i \<and> P i \<and> (\<forall>j < k. \<not> P ([a..<b] ! j))) \<longleftrightarrow>
      a \<le> i \<and> i < b \<and> P i \<and> (\<forall>j. a \<le> j \<and> j < i \<longrightarrow> \<not> P j)" (is "?L \<longleftrightarrow> ?R")
  proof
    assume ?L
    then obtain k where k: "k < b - a" "a + k = i" "P i" and before: "\<forall>j < k. \<not> P (a + j)"
      by auto
    have "\<not> P j" if "a \<le> j" "j < i" for j
      using before [rule_format, of "j - a"] that k by simp
    with k show ?R by auto
  next
    assume ?R
    then show ?L by (intro exI [of _ "i - a"]) auto
  qed
  finally show ?thesis by (simp add: first_index_def)
qed

lemma first_index_None_iff: "first_index P a b = None \<longleftrightarrow> (\<forall>i. a \<le> i \<and> i < b \<longrightarrow> \<not> P i)"
  by (auto simp: first_index_def find_None_iff)

lemmas first_index_iffs = first_index_Some_iff first_index_None_iff

lemma first_index_empty [loop_simps]: "b \<le> a \<Longrightarrow> first_index P a b = None"
  by (simp add: first_index_def)

lemma first_index_step [loop_simps]:
  "a < b \<Longrightarrow> first_index P a b = (if P a then Some a else first_index P (Suc a) b)"
  by (simp add: first_index_def upt_rec)

section \<open>Words as natural numbers\<close>

lemma nth_list_update_if: "xs[i := x] ! j = (if j = i \<and> j < length xs then x else xs ! j)"
  by (cases "i < length xs") (auto simp: nth_list_update list_update_beyond)

lemma unat_add_no_wrap:
  "unat x + unat y < 2 ^ LENGTH('a) \<Longrightarrow> unat (x + y) = unat x + unat (y :: 'a::len word)"
  by (simp add: unat_word_ariths)

lemma unat_mult_no_wrap:
  "unat x * unat y < 2 ^ LENGTH('a) \<Longrightarrow> unat (x * y) = unat x * unat (y :: 'a::len word)"
  by (simp add: unat_word_ariths)

lemma unat_sub_no_wrap:
  assumes "unat y \<le> unat x"
  shows "unat (x - y) = unat x - unat (y :: 'a::len word)"
  using assms by (simp add: unat_sub word_le_nat_alt)

lemma unat_of_nat_small:
  "n < 2 ^ LENGTH('a) \<Longrightarrow> unat (of_nat n :: 'a::len word) = n"
  by (simp add: unat_of_nat)

lemma uint_eq_iff [simp]: "uint x = uint y \<longleftrightarrow> x = (y :: 'a::len word)"
  by (auto simp: word_uint_eq_iff)

declare uint_0_iff [simp]

lemma u32_unat_lt [simp]: "unat (x :: u32) < 4294967296"
  using unsigned_less [of x, where 'a = nat] by simp

lemma u16_unat_lt [simp]: "unat (x :: u16) < 65536"
  using unsigned_less [of x, where 'a = nat] by simp

lemma u8_unat_lt [simp]: "unat (x :: u8) < 256"
  using unsigned_less [of x, where 'a = nat] by simp

lemma u32_inc: "(c :: u32) \<noteq> 0xFFFFFFFF \<Longrightarrow> unat (c + 1) = Suc (unat c)" "(c :: u32) \<noteq> 0xFFFFFFFF \<Longrightarrow> c + 1 \<noteq> 0"
proof -
  assume c: "c \<noteq> 0xFFFFFFFF"
  have "(0xFFFFFFFF :: u32) = - 1" by simp
  then show nz: "c + 1 \<noteq> 0" using c by (metis add_eq_0_iff2)
  then have "1 + c \<noteq> 0" by (simp add: add.commute)
  then show "unat (c + 1) = Suc (unat c)" using unatSuc [of c] by (simp add: add.commute)
qed

lemma unat_dec: "(c :: 'a::len word) \<noteq> 0 \<Longrightarrow> unat (c - 1) = unat c - 1"
  by (rule unat_minus_one)

lemma of_nat_eq_small_iff:
  "m < 2 ^ LENGTH('a) \<Longrightarrow> n < 2 ^ LENGTH('a) \<Longrightarrow> (of_nat m :: 'a::len word) = of_nat n \<longleftrightarrow> m = n"
  by (metis unat_of_nat_small)

lemma add_of_nat_eq_iff:
  fixes p :: "'a::len word"
  assumes "m < 2 ^ LENGTH('a)" and "n < 2 ^ LENGTH('a)"
  shows "p + of_nat m = p + of_nat n \<longleftrightarrow> m = n"
  using of_nat_eq_small_iff [OF assms] by simp

lemma unat_and_mask: "unat (a AND mask n) = unat (a :: 'a::len word) mod 2 ^ n"
proof -
  have "unat (take_bit n a) = take_bit n (unat a)" by (rule unsigned_take_bit_eq)
  also have "take_bit n (unat a) = unat a mod 2 ^ n" by (rule take_bit_nat_def)
  finally show ?thesis by (simp only: take_bit_eq_mask)
qed

lemma and_not_eq_minus_and: "a AND NOT b = a - (a AND b)" for a b :: "'a::len word"
proof -
  have "a - (a AND b) = a AND NOT (a AND b)"
    by (rule disjunctive_diff_eq_and_not) (simp flip: and.assoc)
  also have "\<dots> = a AND NOT b"
    by (rule bit_word_eqI) (auto simp: bit_and_iff bit_or_iff bit_not_iff)
  finally show ?thesis by simp
qed

lemmas [unat_simps] =
  word_less_nat_alt word_le_nat_alt unat_div unat_mod unat_add_no_wrap unat_sub_no_wrap

section \<open>One bit of a byte array\<close>

text \<open>
  Both bitmaps of the kernel (free frames, free sectors) keep bit \<open>n\<close> in bit \<open>n mod 8\<close> of
  byte \<open>n div 8\<close>; these are the three expressions the C code uses on them.
\<close>

definition bit_test :: "(nat \<Rightarrow> u8) \<Rightarrow> nat \<Rightarrow> bool" where
  "bit_test arr n \<longleftrightarrow> drop_bit (n mod 8) (arr (n div 8)) AND 1 \<noteq> 0"

definition bit_set :: "(nat \<Rightarrow> u8) \<Rightarrow> nat \<Rightarrow> (nat \<Rightarrow> u8)" where
  "bit_set arr n = arr(n div 8 := arr (n div 8) OR push_bit (n mod 8) 1)"

definition bit_clear :: "(nat \<Rightarrow> u8) \<Rightarrow> nat \<Rightarrow> (nat \<Rightarrow> u8)" where
  "bit_clear arr n = arr(n div 8 := arr (n div 8) AND NOT (push_bit (n mod 8) 1))"

lemma word_and_1_neq_0: "(w :: u8) AND 1 \<noteq> 0 \<longleftrightarrow> bit w 0"
  by (simp add: and_one_eq mod_2_eq_odd bit_0)

lemma bit_test_iff: "bit_test arr n \<longleftrightarrow> bit (arr (n div 8)) (n mod 8)"
  by (simp add: bit_test_def word_and_1_neq_0 bit_drop_bit_eq)

lemma div_mod_8_eq_iff: "(m::nat) div 8 = n div 8 \<and> m mod 8 = n mod 8 \<longleftrightarrow> m = n"
  by (metis div_mult_mod_eq)

lemma bit_push_one_u8: "k < 8 \<Longrightarrow> bit (2 ^ k :: u8) j \<longleftrightarrow> j = k"
  by (auto simp: bit_exp_iff)

lemma bit_test_set [bitmap_simps]: "bit_test (bit_set arr n) m \<longleftrightarrow> m = n \<or> bit_test arr m"
  using div_mod_8_eq_iff [of m n]
  by (auto simp: bit_test_iff bit_set_def bit_or_iff bit_push_one_u8)

lemma bit_test_clear [bitmap_simps]: "bit_test (bit_clear arr n) m \<longleftrightarrow> m \<noteq> n \<and> bit_test arr m"
  using div_mod_8_eq_iff [of m n]
  by (auto simp: bit_test_iff bit_clear_def bit_and_iff bit_not_iff bit_push_one_u8)

lemma bit_test_all_ones [bitmap_simps]:
  "arr (n div 8) = (0xFF :: u8) \<Longrightarrow> bit_test arr n"
proof -
  assume "arr (n div 8) = 0xFF"
  moreover have "(0xFF :: u8) = - 1" by simp
  ultimately show ?thesis by (simp add: bit_test_iff)
qed

lemma bit_test_zero [bitmap_simps]: "arr (n div 8) = (0 :: u8) \<Longrightarrow> \<not> bit_test arr n"
  by (simp add: bit_test_iff)

section \<open>Arrays of bytes\<close>

text \<open>A C string as the list of its characters: reading at or behind the end gives the NUL.\<close>

definition cstr_at :: "u8 list \<Rightarrow> nat \<Rightarrow> u8" where
  "cstr_at xs i = (if i < length xs then xs ! i else 0)"

text \<open>\<^verbatim>\<open>memcpy(dst + off, src, length src)\<close> on byte buffers.\<close>

definition blit :: "'a list \<Rightarrow> nat \<Rightarrow> 'a list \<Rightarrow> 'a list" where
  "blit dst off src = take off dst @ src @ drop (off + length src) dst"

lemma length_blit [simp]: "off + length src \<le> length dst \<Longrightarrow> length (blit dst off src) = length dst"
  by (simp add: blit_def)

lemma nth_blit:
  assumes "off + length src \<le> length dst" and "i < length dst"
  shows "blit dst off src ! i =
    (if off \<le> i \<and> i < off + length src then src ! (i - off) else dst ! i)"
  using assms by (auto simp: blit_def nth_append)

lemma take_drop_blit_same [simp]:
  "off + length src \<le> length dst \<Longrightarrow> take (length src) (drop off (blit dst off src)) = src"
  by (simp add: blit_def)

text \<open>A little-endian field of a packed struct.\<close>

definition le16 :: "u16 \<Rightarrow> u8 list" where
  "le16 w = [ucast w, ucast (drop_bit 8 w)]"

definition le32 :: "u32 \<Rightarrow> u8 list" where
  "le32 w = [ucast w, ucast (drop_bit 8 w), ucast (drop_bit 16 w), ucast (drop_bit 24 w)]"

definition of_le16 :: "u8 list \<Rightarrow> u16" where
  "of_le16 bs = ucast (bs ! 0) OR push_bit 8 (ucast (bs ! 1))"

definition of_le32 :: "u8 list \<Rightarrow> u32" where
  "of_le32 bs = ucast (bs ! 0) OR push_bit 8 (ucast (bs ! 1)) OR
     push_bit 16 (ucast (bs ! 2)) OR push_bit 24 (ucast (bs ! 3))"

lemma length_le32 [simp]: "length (le32 w) = 4"
  by (simp add: le32_def)

lemma length_le16 [simp]: "length (le16 w) = 2"
  by (simp add: le16_def)

lemma of_le32_le32 [simp]: "of_le32 (le32 w @ xs) = w"
proof (rule bit_word_eqI)
  fix n
  assume "n < LENGTH(32)"
  then consider "n < 8" | "8 \<le> n" "n < 16" | "16 \<le> n" "n < 24" | "24 \<le> n" "n < 32"
    by fastforce
  then show "bit (of_le32 (le32 w @ xs)) n = bit w n"
    by cases
      (simp_all add: of_le32_def le32_def bit_or_iff bit_push_bit_iff bit_ucast_iff bit_drop_bit_eq
        less_diff_conv2)
qed

lemma of_le16_le16 [simp]: "of_le16 (le16 w @ xs) = w"
proof (rule bit_word_eqI)
  fix n
  assume "n < LENGTH(16)"
  then show "bit (of_le16 (le16 w @ xs)) n = bit w n"
    by (auto simp: of_le16_def le16_def bit_or_iff bit_push_bit_iff bit_ucast_iff bit_drop_bit_eq)
qed

lemma of_le32_append [simp]: "length bs = 4 \<Longrightarrow> of_le32 (bs @ xs) = of_le32 bs"
  by (simp add: of_le32_def nth_append)

lemma of_le32_take [simp]: "4 \<le> n \<Longrightarrow> of_le32 (take n bs) = of_le32 bs"
  by (simp add: of_le32_def)

end
