(* ===== verification/CString.thy ===== *)
theory CString
  imports Prelude
begin

text \<open>
  The freestanding C library of the kernel, \<^verbatim>\<open>src/kernel/string.c\<close>. Memory is a function from
  32-bit addresses to bytes; a pointer is an address and pointer arithmetic wraps. The routines
  that count \<^verbatim>\<open>n\<close> down to zero recurse on \<open>unat n\<close>. The routines that run until a NUL are
  partial functions: \<open>None\<close> is a loop that never ends, and the lemmas show that they return for
  every NUL-terminated string. They take a reader (offset to byte), so that the same definition
  serves strings in memory and strings in a buffer.

  Main results: \<^verbatim>\<open>memmove\<close> copies correctly for every overlap of the two regions, while
  \<^verbatim>\<open>memcpy\<close> does so unless the destination starts inside the source; \<^verbatim>\<open>memcmp\<close>,
  \<^verbatim>\<open>strcmp\<close> and \<^verbatim>\<open>strncmp\<close> return 0 exactly on equal contents.
\<close>

type_synonym memory = "u32 \<Rightarrow> u8"

section \<open>Copying and filling\<close>

fun memcpy_loop :: "memory \<Rightarrow> u32 \<Rightarrow> u32 \<Rightarrow> nat \<Rightarrow> memory" where
  "memcpy_loop m d s 0 = m"
| "memcpy_loop m d s (Suc n) = memcpy_loop (m(d := m s)) (d + 1) (s + 1) n"

definition memcpy :: "memory \<Rightarrow> u32 \<Rightarrow> u32 \<Rightarrow> u32 \<Rightarrow> memory" where
  "memcpy m dest src n = memcpy_loop m dest src (unat n)"

fun memset_loop :: "memory \<Rightarrow> u32 \<Rightarrow> u8 \<Rightarrow> nat \<Rightarrow> memory" where
  "memset_loop m p c 0 = m"
| "memset_loop m p c (Suc n) = memset_loop (m(p := c)) (p + 1) c n"

definition memset :: "memory \<Rightarrow> u32 \<Rightarrow> int \<Rightarrow> u32 \<Rightarrow> memory" where
  "memset m s c n = memset_loop m s (word_of_int c) (unat n)"

fun memmove_back :: "memory \<Rightarrow> u32 \<Rightarrow> u32 \<Rightarrow> nat \<Rightarrow> memory" where
  "memmove_back m d s 0 = m"
| "memmove_back m d s (Suc n) = memmove_back (m(d - 1 := m (s - 1))) (d - 1) (s - 1) n"

definition memmove :: "memory \<Rightarrow> u32 \<Rightarrow> u32 \<Rightarrow> u32 \<Rightarrow> memory" where
  "memmove m dest src n =
     (if dest < src then memcpy_loop m dest src (unat n)
      else memmove_back m (dest + n) (src + n) (unat n))"

section \<open>Comparing\<close>

fun memcmp_loop :: "(nat \<Rightarrow> u8) \<Rightarrow> (nat \<Rightarrow> u8) \<Rightarrow> nat \<Rightarrow> nat \<Rightarrow> int" where
  "memcmp_loop a b i 0 = 0"
| "memcmp_loop a b i (Suc n) =
     (if a i \<noteq> b i then uint (a i) - uint (b i) else memcmp_loop a b (Suc i) n)"

definition memcmp :: "memory \<Rightarrow> u32 \<Rightarrow> u32 \<Rightarrow> u32 \<Rightarrow> int" where
  "memcmp m s1 s2 n =
     memcmp_loop (\<lambda>i. m (s1 + of_nat i)) (\<lambda>i. m (s2 + of_nat i)) 0 (unat n)"

partial_function (option) strcmp_from :: "(nat \<Rightarrow> u8) \<Rightarrow> (nat \<Rightarrow> u8) \<Rightarrow> nat \<Rightarrow> int option" where
  "strcmp_from s1 s2 i =
     (if s1 i \<noteq> 0 \<and> s1 i = s2 i then strcmp_from s1 s2 (Suc i)
      else Some (uint (s1 i) - uint (s2 i)))"

definition strcmp :: "(nat \<Rightarrow> u8) \<Rightarrow> (nat \<Rightarrow> u8) \<Rightarrow> int option" where
  "strcmp s1 s2 = strcmp_from s1 s2 0"

fun strncmp_from :: "(nat \<Rightarrow> u8) \<Rightarrow> (nat \<Rightarrow> u8) \<Rightarrow> nat \<Rightarrow> nat \<Rightarrow> int" where
  "strncmp_from s1 s2 i 0 = 0"
| "strncmp_from s1 s2 i (Suc n) =
     (if s1 i \<noteq> 0 \<and> s1 i = s2 i then strncmp_from s1 s2 (Suc i) n
      else uint (s1 i) - uint (s2 i))"

definition strncmp :: "(nat \<Rightarrow> u8) \<Rightarrow> (nat \<Rightarrow> u8) \<Rightarrow> u32 \<Rightarrow> int" where
  "strncmp s1 s2 n = strncmp_from s1 s2 0 (unat n)"

partial_function (option) strlen_from :: "(nat \<Rightarrow> u8) \<Rightarrow> nat \<Rightarrow> u32 \<Rightarrow> u32 option" where
  "strlen_from s i len = (if s i \<noteq> 0 then strlen_from s (Suc i) (len + 1) else Some len)"

definition strlen :: "(nat \<Rightarrow> u8) \<Rightarrow> u32 option" where
  "strlen s = strlen_from s 0 0"

section \<open>Lemmas\<close>

text \<open>\<open>in_region p n a\<close>: the address \<open>a\<close> is one of the \<open>n\<close> bytes at \<open>p\<close>.\<close>

definition in_region :: "u32 \<Rightarrow> nat \<Rightarrow> u32 \<Rightarrow> bool" where
  "in_region p n a \<longleftrightarrow> (\<exists>i < n. a = p + of_nat i)"

definition no_wrap :: "u32 \<Rightarrow> nat \<Rightarrow> bool" where
  "no_wrap p n \<longleftrightarrow> unat p + n \<le> 2 ^ 32"

lemma unat_plus_of_nat:
  "no_wrap p n \<Longrightarrow> i < n \<Longrightarrow> unat (p + of_nat i) = unat p + i"
proof -
  assume "no_wrap p n" "i < n"
  then have "unat p + i < 2 ^ 32" by (simp add: no_wrap_def)
  moreover then have "unat (of_nat i :: u32) = i"
    by (intro unat_of_nat_small) simp
  ultimately show ?thesis by (simp add: unat_add_no_wrap)
qed

lemma no_wrap_Suc: "no_wrap p (Suc n) \<Longrightarrow> 0 < n \<Longrightarrow> no_wrap (p + 1) n"
  using unat_plus_of_nat [of p "Suc n" 1] by (simp add: no_wrap_def)

lemma memcpy_loop_other:
  "\<not> in_region d n a \<Longrightarrow> memcpy_loop m d s n a = m a"
proof (induction n arbitrary: m d s)
  case 0
  then show ?case by simp
next
  case (Suc n)
  have "a \<noteq> d"
    using Suc.prems by (auto simp: in_region_def intro!: exI [of _ "0::nat"])
  moreover have "\<not> in_region (d + 1) n a"
  proof
    assume "in_region (d + 1) n a"
    then obtain i where "i < n" "a = d + 1 + of_nat i" by (auto simp: in_region_def)
    then have "Suc i < Suc n" "a = d + of_nat (Suc i)" by (simp_all add: add.assoc)
    with Suc.prems show False unfolding in_region_def by blast
  qed
  ultimately show ?case by (simp add: Suc.IH)
qed

text \<open>
  A forward copy reads each source byte before any store can have changed it, provided the
  destination does not start strictly inside the source.
\<close>

lemma memcpy_loop_copies:
  assumes "no_wrap d n" and "no_wrap s n" and "unat d \<le> unat s \<or> unat s + n \<le> unat d"
    and "i < n"
  shows "memcpy_loop m d s n (d + of_nat i) = m (s + of_nat i)"
  using assms
proof (induction n arbitrary: m d s i)
  case 0
  then show ?case by simp
next
  case (Suc n)
  let ?m = "m(d := m s)"
  show ?case
  proof (cases i)
    case 0
    have "\<not> in_region (d + 1) n d"
    proof
      assume "in_region (d + 1) n d"
      then obtain j where j: "j < n" "d = d + 1 + of_nat j" by (auto simp: in_region_def)
      then have "d + of_nat 0 = d + of_nat (Suc j)" by (simp add: add.assoc)
      moreover have "Suc j < 2 ^ 32"
        using j Suc.prems(1) by (simp add: no_wrap_def)
      ultimately show False using add_of_nat_eq_iff [of 0 "Suc j" d] by simp
    qed
    then show ?thesis using 0 by (simp add: memcpy_loop_other)
  next
    case (Suc k)
    with Suc.prems have k: "k < n" by simp
    then have nw: "no_wrap (d + 1) n" "no_wrap (s + 1) n"
      using Suc.prems no_wrap_Suc by auto
    have step: "unat (d + 1) = unat d + 1" "unat (s + 1) = unat s + 1"
      using unat_plus_of_nat [of d "Suc n" 1] unat_plus_of_nat [of s "Suc n" 1] Suc.prems k
      by auto
    have far: "unat (d + 1) \<le> unat (s + 1) \<or> unat (s + 1) + n \<le> unat (d + 1)"
      using Suc.prems(3) step by auto
    have "memcpy_loop ?m (d + 1) (s + 1) n (d + 1 + of_nat k) = ?m (s + 1 + of_nat k)"
      using Suc.IH [OF nw far k] .
    moreover have "s + 1 + of_nat k \<noteq> d"
    proof
      assume "s + 1 + of_nat k = d"
      then have "unat d = unat s + Suc k"
        using unat_plus_of_nat [of s "Suc n" "Suc k"] Suc.prems(2) k by (simp add: add.assoc)
      with Suc.prems(3) k show False by simp
    qed
    ultimately show ?thesis using \<open>i = Suc k\<close> by (simp add: add.assoc)
  qed
qed

lemma memmove_back_other:
  "\<not> in_region d n a \<Longrightarrow> memmove_back m (d + of_nat n) (s + of_nat n) n a = m a"
proof (induction n arbitrary: m)
  case 0
  then show ?case by simp
next
  case (Suc n)
  have "a \<noteq> d + of_nat n" "\<not> in_region d n a"
    using Suc.prems by (auto simp: in_region_def less_Suc_eq)
  then show ?case using Suc.IH by simp
qed

lemma memmove_back_copies:
  assumes "no_wrap d n" and "no_wrap s n" and "unat s \<le> unat d" and "i < n"
  shows "memmove_back m (d + of_nat n) (s + of_nat n) n (d + of_nat i) = m (s + of_nat i)"
  using assms
proof (induction n arbitrary: m)
  case 0
  then show ?case by simp
next
  case (Suc n)
  let ?m = "m(d + of_nat n := m (s + of_nat n))"
  have unfold: "memmove_back m (d + of_nat (Suc n)) (s + of_nat (Suc n)) (Suc n)
      = memmove_back ?m (d + of_nat n) (s + of_nat n) n"
    by simp
  have smaller: "no_wrap d n" "no_wrap s n" using Suc.prems by (auto simp: no_wrap_def)
  show ?case
  proof (cases "i = n")
    case True
    have "\<not> in_region d n (d + of_nat n)"
    proof
      assume "in_region d n (d + of_nat n)"
      then obtain j where "j < n" "d + of_nat n = d + of_nat j" by (auto simp: in_region_def)
      moreover have "n < 2 ^ 32" using Suc.prems(1) by (simp add: no_wrap_def)
      ultimately show False using add_of_nat_eq_iff [of n j d] by simp
    qed
    then show ?thesis unfolding unfold using True by (simp add: memmove_back_other)
  next
    case False
    with Suc.prems have i: "i < n" by simp
    have "s + of_nat i \<noteq> d + of_nat n"
    proof
      assume "s + of_nat i = d + of_nat n"
      then have "unat s + i = unat d + n"
        using unat_plus_of_nat [of s "Suc n" i] unat_plus_of_nat [of d "Suc n" n] Suc.prems i
        by simp
      with Suc.prems(3) i show False by simp
    qed
    then show ?thesis
      unfolding unfold using Suc.IH [OF smaller Suc.prems(3) i] by simp
  qed
qed

lemma memset_loop_at:
  "n \<le> 2 ^ 32 \<Longrightarrow> memset_loop m p c n a = (if in_region p n a then c else m a)"
proof (induction n arbitrary: m p)
  case 0
  then show ?case by (simp add: in_region_def)
next
  case (Suc n)
  have shift: "in_region p (Suc n) a \<longleftrightarrow> a = p \<or> in_region (p + 1) n a"
  proof
    assume "in_region p (Suc n) a"
    then obtain i where "i < Suc n" "a = p + of_nat i" by (auto simp: in_region_def)
    then show "a = p \<or> in_region (p + 1) n a"
      by (cases i) (auto simp: in_region_def add.assoc)
  next
    assume "a = p \<or> in_region (p + 1) n a"
    then show "in_region p (Suc n) a"
      by (auto simp: in_region_def add.assoc intro: exI [of _ "0::nat"] exI [of _ "Suc i" for i])
  qed
  show ?case using Suc by (auto simp: shift)
qed

lemma memcmp_loop_zero_iff:
  "memcmp_loop a b i n = 0 \<longleftrightarrow> (\<forall>j. i \<le> j \<and> j < i + n \<longrightarrow> a j = b j)"
proof (induction n arbitrary: i)
  case 0
  then show ?case by auto
next
  case (Suc n)
  have "i \<le> j \<longleftrightarrow> j = i \<or> Suc i \<le> j" for j by auto
  then have "(\<forall>j. i \<le> j \<and> j < i + Suc n \<longrightarrow> a j = b j) \<longleftrightarrow>
      a i = b i \<and> (\<forall>j. Suc i \<le> j \<and> j < Suc i + n \<longrightarrow> a j = b j)"
    by auto
  then show ?case using Suc.IH [of "Suc i"] by simp
qed

text \<open>The contents of a string reader: the characters before the first NUL.\<close>

definition is_cstring :: "(nat \<Rightarrow> u8) \<Rightarrow> u8 list \<Rightarrow> bool" where
  "is_cstring s xs \<longleftrightarrow> (\<forall>i < length xs. s i = xs ! i \<and> xs ! i \<noteq> 0) \<and> s (length xs) = 0"

lemma is_cstring_cstr_at: "0 \<notin> set xs \<Longrightarrow> is_cstring (cstr_at xs) xs"
  by (auto simp: is_cstring_def cstr_at_def in_set_conv_nth)

lemma is_cstring_shift: "is_cstring s (x # xs) \<Longrightarrow> is_cstring (\<lambda>i. s (Suc i)) xs"
  by (fastforce simp: is_cstring_def)

lemma is_cstring_hd: "is_cstring s (x # xs) \<Longrightarrow> s 0 = x \<and> x \<noteq> 0"
  by (force simp: is_cstring_def)

lemma is_cstring_Nil: "is_cstring s [] \<longleftrightarrow> s 0 = 0"
  by (simp add: is_cstring_def)

lemma strlen_from_cstring:
  "is_cstring (\<lambda>j. s (i + j)) xs \<Longrightarrow> strlen_from s i len = Some (len + of_nat (length xs))"
proof (induction xs arbitrary: i len)
  case Nil
  then show ?case by (simp add: is_cstring_Nil strlen_from.simps)
next
  case (Cons x xs)
  have "s i \<noteq> 0" using is_cstring_hd [OF Cons.prems] by auto
  moreover have "is_cstring (\<lambda>j. s (Suc i + j)) xs"
    using is_cstring_shift [OF Cons.prems] by simp
  ultimately show ?case
    using Cons.IH [of "Suc i" "len + 1"] by (simp add: strlen_from.simps [of s i] add.assoc)
qed

lemma strcmp_from_cstrings:
  assumes "is_cstring (\<lambda>j. s1 (i + j)) xs" and "is_cstring (\<lambda>j. s2 (i + j)) ys"
  shows "\<exists>r. strcmp_from s1 s2 i = Some r \<and> (r = 0 \<longleftrightarrow> xs = ys)"
  using assms
proof (induction xs arbitrary: i ys)
  case Nil
  then have "s1 i = 0" by (simp add: is_cstring_Nil)
  moreover have "s2 i = 0 \<longleftrightarrow> ys = []"
    using Nil.prems(2) is_cstring_hd [of "\<lambda>j. s2 (i + j)"]
    by (cases ys) (auto simp: is_cstring_Nil)
  ultimately show ?case
    by (auto simp: strcmp_from.simps [of s1 s2 i] uint_0_iff)
next
  case (Cons x xs)
  have s1: "s1 i = x" "x \<noteq> 0" using is_cstring_hd [OF Cons.prems(1)] by auto
  show ?case
  proof (cases ys)
    case Nil
    then show ?thesis
      using s1 Cons.prems(2) by (simp add: strcmp_from.simps [of s1 s2 i] is_cstring_Nil)
  next
    case (Cons y ys')
    have s2: "s2 i = y" "y \<noteq> 0" using is_cstring_hd [of "\<lambda>j. s2 (i + j)" y ys'] Cons.prems(2) \<open>ys = y # ys'\<close> by auto
    show ?thesis
    proof (cases "x = y")
      case True
      have "is_cstring (\<lambda>j. s1 (Suc i + j)) xs" "is_cstring (\<lambda>j. s2 (Suc i + j)) ys'"
        using is_cstring_shift [OF Cons.prems(1)] is_cstring_shift [of "\<lambda>j. s2 (i + j)" y ys'] Cons.prems(2) \<open>ys = y # ys'\<close>
        by auto
      from Cons.IH [OF this] show ?thesis
        using s1 s2 True \<open>ys = y # ys'\<close> by (auto simp: strcmp_from.simps [of s1 s2 i])
    next
      case False
      then show ?thesis
        using s1 s2 \<open>ys = y # ys'\<close> by (simp add: strcmp_from.simps [of s1 s2 i])
    qed
  qed
qed

lemma strcmp_cstrings:
  assumes "is_cstring s1 xs" and "is_cstring s2 ys"
  shows "\<exists>r. strcmp s1 s2 = Some r \<and> (r = 0 \<longleftrightarrow> xs = ys)"
  using strcmp_from_cstrings [of s1 0 xs s2 ys] assms by (simp add: strcmp_def)

section \<open>Moving a region\<close>

text \<open>
  What moving \<open>n\<close> bytes from \<open>src\<close> to \<open>dest\<close> means, with no order of stores in it: every byte
  of the destination is read from the memory as it was before the call.
\<close>

definition moved :: "memory \<Rightarrow> u32 \<Rightarrow> u32 \<Rightarrow> u32 \<Rightarrow> memory" where
  "moved m dest src n = (\<lambda>a. if unat (a - dest) < unat n then m (src + (a - dest)) else m a)"

lemma in_region_iff: "in_region p n a \<longleftrightarrow> unat (a - p) < n" if "n \<le> 2 ^ 32"
proof
  assume "in_region p n a"
  then obtain i where "i < n" "a = p + of_nat i" by (auto simp: in_region_def)
  with that show "unat (a - p) < n" by (simp add: unat_of_nat_small)
next
  assume "unat (a - p) < n"
  then show "in_region p n a"
    unfolding in_region_def by (intro exI [of _ "unat (a - p)"]) simp
qed

lemma eq_movedI:
  assumes "\<And>a. \<not> in_region dest (unat n) a \<Longrightarrow> f a = m a"
    and "\<And>i. i < unat n \<Longrightarrow> f (dest + of_nat i) = m (src + of_nat i)"
  shows "f = moved m dest src n"
proof
  fix a
  have small: "unat n \<le> 2 ^ 32" using less_imp_le [OF u32_unat_lt [of n]] by simp
  show "f a = moved m dest src n a"
    using assms(1) [of a] assms(2) [of "unat (a - dest)"] in_region_iff [OF small, of dest a]
    by (auto simp: moved_def)
qed

text \<open>C38: memmove is equivalent to copying through a snapshot of the source, for every overlap of
  the two regions; memcpy is equivalent to memmove unless the destination starts inside
  the source.
\<close>

theorem memmove_equals_snapshot:
  assumes "no_wrap dest (unat n)" and "no_wrap src (unat n)"
  shows "memmove m dest src n = moved m dest src n \<and>
    (dest \<le> src \<or> unat src + unat n \<le> unat dest \<longrightarrow>
       memcpy m dest src n = memmove m dest src n)"
proof -
  have forward: "memcpy_loop m dest src (unat n) = moved m dest src n"
    if "unat dest \<le> unat src \<or> unat src + unat n \<le> unat dest"
    by (rule eq_movedI) (simp_all add: memcpy_loop_other memcpy_loop_copies assms that)
  have backward: "memmove_back m (dest + n) (src + n) (unat n) = moved m dest src n"
    if "unat src \<le> unat dest"
    using memmove_back_other [of dest "unat n" _ m src] memmove_back_copies [OF assms that, of _ m]
    by (intro eq_movedI) simp_all
  have "memmove m dest src n = moved m dest src n"
    using forward backward by (auto simp: memmove_def word_less_nat_alt)
  then show ?thesis using forward by (auto simp: memcpy_def word_le_nat_alt)
qed

text \<open>Moving five bytes two addresses up, where \<^verbatim>\<open>memcpy\<close> would repeat the first two.\<close>

theorem memmove_equals_snapshot_witness:
  "memmove (\<lambda>a. ucast a) 0x1002 0x1000 5 = moved (\<lambda>a. ucast a) 0x1002 0x1000 5 \<and>
   memmove (\<lambda>a. ucast a) 0x1002 0x1000 5 0x1006 = (4 :: u8) \<and>
   memcpy (\<lambda>a. ucast a) 0x0FFE 0x1000 5 = memmove (\<lambda>a. ucast a) 0x0FFE 0x1000 5"
  using memmove_equals_snapshot [of "0x1002" 5 "0x1000" "\<lambda>a. ucast a"]
    memmove_equals_snapshot [of "0x0FFE" 5 "0x1000" "\<lambda>a. ucast a"]
  by (simp add: no_wrap_def moved_def)

end
