(* ===== verification/Console.thy ===== *)
theory Console
  imports CString
begin

text \<open>
  The two output devices: the serial port (\<^verbatim>\<open>src/kernel/serial.c\<close>) and the VGA text screen
  (\<^verbatim>\<open>src/kernel/vga.c\<close>). The UART is its transmit log: waiting for the transmit-empty bit
  before each byte is the hardware's part, so \<open>serial_putc\<close> appends the byte to the log. The
  screen is the 80 by 25 array of character cells at \<^verbatim>\<open>0xB8000\<close>, the cursor and the attribute.

  Main results: the cursor stays on the screen whatever is printed, so every store to the
  buffer is in bounds; the digits printed for a number denote that number and fit the
  11-byte buffer of the C code.
\<close>

section \<open>Serial port\<close>

type_synonym serial_log = "u8 list"

definition COM1 :: u16 where "COM1 = 0x3F8"

text \<open>The port writes of \<^verbatim>\<open>serial_init\<close>, in order: interrupts off, the divisor 3 (38400 baud), eight bits without parity,
  the FIFO on.\<close>

definition serial_init :: "(u16 \<times> u8) list" where
  "serial_init = [(COM1 + 1, 0x00), (COM1 + 3, 0x80), (COM1 + 0, 0x03), (COM1 + 1, 0x00), (COM1 + 3, 0x03),
     (COM1 + 2, 0x01), (COM1 + 4, 0x0B)]"

definition serial_putc :: "u8 \<Rightarrow> serial_log \<Rightarrow> serial_log" where
  "serial_putc c out = out @ [c]"

text \<open>\<^verbatim>\<open>while (*str) serial_putc(*str++);\<close> for a string given by its characters.\<close>

fun serial_puts :: "u8 list \<Rightarrow> serial_log \<Rightarrow> serial_log" where
  "serial_puts [] out = out"
| "serial_puts (c # cs) out = (if c = 0 then out else serial_puts cs (serial_putc c out))"

text \<open>
  The digit loop of \<^verbatim>\<open>serial_put_uint32\<close> (and of the shell's \<^verbatim>\<open>print_uint32\<close>): \<open>buf\<close> holds
  the digits stored so far, least significant first.
\<close>

function digit_loop :: "u32 \<Rightarrow> u8 list \<Rightarrow> u8 list" where
  "digit_loop val buf =
     (if 0 < val then digit_loop (val div 10) (buf @ [0x30 + ucast (val mod 10)]) else buf)"
  by pat_completeness auto
termination
  by (relation "measure (\<lambda>(val, buf). unat val)")
    (auto simp: unat_div word_less_nat_alt)

declare digit_loop.simps [simp del]

text \<open>\<^verbatim>\<open>while (i > 0) putc(buf[--i]);\<close> prints the buffer from its end.\<close>

definition put_digits :: "(u8 \<Rightarrow> 'o \<Rightarrow> 'o) \<Rightarrow> u8 list \<Rightarrow> 'o \<Rightarrow> 'o" where
  "put_digits putc buf out = fold putc (rev buf) out"

definition serial_put_uint32 :: "u32 \<Rightarrow> serial_log \<Rightarrow> serial_log" where
  "serial_put_uint32 val out =
     (if val = 0 then serial_putc 0x30 out
      else put_digits serial_putc (digit_loop val []) out)"

text \<open>A character literal of the C source, and a string literal.\<close>

definition chr8 :: "char \<Rightarrow> u8" where
  "chr8 c = of_nat (of_char c)"

abbreviation str8 :: "string \<Rightarrow> u8 list" where
  "str8 s \<equiv> map chr8 s"

section \<open>VGA text screen\<close>

definition VGA_WIDTH :: nat where "VGA_WIDTH = 80"
definition VGA_HEIGHT :: nat where "VGA_HEIGHT = 25"

record vga =
  vga_buffer :: "nat \<Rightarrow> u16"
  vga_row :: nat
  vga_col :: nat
  vga_attr :: u8

text \<open>\<^verbatim>\<open>char\<close> is signed on this target, so \<^verbatim>\<open>(uint16_t)c\<close> sign-extends.\<close>

definition vga_entry :: "u8 \<Rightarrow> u8 \<Rightarrow> u16" where
  "vga_entry c color = scast c OR push_bit 8 (ucast color)"

definition vga_color :: "u8 \<Rightarrow> u8 \<Rightarrow> u8" where
  "vga_color fg bg = fg OR push_bit 4 bg"

definition vga_clear :: "vga \<Rightarrow> vga" where
  "vga_clear v = v\<lparr>vga_buffer := for_loop 0 (VGA_WIDTH * VGA_HEIGHT)
       (\<lambda>i b. b(i := vga_entry 0x20 (vga_attr v))) (vga_buffer v),
     vga_row := 0, vga_col := 0\<rparr>"

definition vga_init :: "vga \<Rightarrow> vga" where
  "vga_init v = vga_clear (v\<lparr>vga_row := 0, vga_col := 0, vga_attr := vga_color 7 0\<rparr>)"

definition vga_scroll :: "vga \<Rightarrow> vga" where
  "vga_scroll v =
     (let up = for_loop 0 (VGA_WIDTH * (VGA_HEIGHT - 1))
                 (\<lambda>i b. b(i := b (i + VGA_WIDTH))) (vga_buffer v);
          blank = for_loop (VGA_WIDTH * (VGA_HEIGHT - 1)) (VGA_WIDTH * VGA_HEIGHT)
                 (\<lambda>i b. b(i := vga_entry 0x20 (vga_attr v))) up
      in v\<lparr>vga_buffer := blank, vga_row := VGA_HEIGHT - 1, vga_col := 0\<rparr>)"

definition vga_newline :: "vga \<Rightarrow> vga" where
  "vga_newline v =
     (let v1 = v\<lparr>vga_col := 0, vga_row := vga_row v + 1\<rparr>
      in if VGA_HEIGHT \<le> vga_row v1 then vga_scroll v1 else v1)"

definition vga_putc :: "u8 \<Rightarrow> vga \<Rightarrow> vga" where
  "vga_putc c v =
     (if c = 0x0A then vga_newline v
      else if c = 0x08 then
        (if 0 < vga_col v then v\<lparr>vga_col := vga_col v - 1\<rparr>
         else if 0 < vga_row v then v\<lparr>vga_row := vga_row v - 1, vga_col := VGA_WIDTH - 1\<rparr>
         else v)
      else
        (let v1 = v\<lparr>vga_buffer := (vga_buffer v)
                      (vga_row v * VGA_WIDTH + vga_col v := vga_entry c (vga_attr v)),
                   vga_col := vga_col v + 1\<rparr>
         in if VGA_WIDTH \<le> vga_col v1 then vga_newline v1 else v1))"

fun vga_puts :: "u8 list \<Rightarrow> vga \<Rightarrow> vga" where
  "vga_puts [] v = v"
| "vga_puts (c # cs) v = (if c = 0 then v else vga_puts cs (vga_putc c v))"

section \<open>The cursor stays on the screen\<close>

definition vga_inv :: "vga \<Rightarrow> bool" where
  "vga_inv v \<longleftrightarrow> vga_row v < VGA_HEIGHT \<and> vga_col v < VGA_WIDTH"

lemmas vga_dims = VGA_WIDTH_def VGA_HEIGHT_def

lemma vga_inv_clear: "vga_inv (vga_clear v)"
  by (simp add: vga_inv_def vga_clear_def vga_dims)

lemma vga_inv_newline: "vga_inv (vga_newline v)" if "vga_row v < VGA_HEIGHT"
  using that by (auto simp: vga_inv_def vga_newline_def vga_scroll_def Let_def vga_dims)

lemma vga_inv_putc: "vga_inv v \<Longrightarrow> vga_inv (vga_putc c v)"
  using vga_inv_newline [of v]
    vga_inv_newline [of "v\<lparr>vga_buffer := b, vga_col := k\<rparr>" for b k]
  by (auto simp: vga_putc_def Let_def vga_inv_def vga_dims)

text \<open>
  The buffer after printing differs from the buffer before only inside the 2000 cells of the
  screen: no store is out of bounds.
\<close>

definition on_screen :: "nat \<Rightarrow> bool" where
  "on_screen i \<longleftrightarrow> i < VGA_WIDTH * VGA_HEIGHT"

lemma for_loop_fill_other:
  "\<not> (a \<le> i \<and> i < b) \<Longrightarrow> for_loop a b (\<lambda>k f. f(k := g k f)) buf i = buf i"
  by (rule for_loop_same [where f = "\<lambda>f. f i"]) auto

lemma vga_scroll_off_screen: "\<not> on_screen i \<Longrightarrow> vga_buffer (vga_scroll v) i = vga_buffer v i"
  by (simp add: vga_scroll_def Let_def on_screen_def for_loop_fill_other vga_dims)

lemma vga_newline_off_screen: "\<not> on_screen i \<Longrightarrow> vga_buffer (vga_newline v) i = vga_buffer v i"
  by (simp add: vga_newline_def Let_def vga_scroll_off_screen)

lemma vga_putc_off_screen:
  assumes "vga_inv v" and "\<not> on_screen i"
  shows "vga_buffer (vga_putc c v) i = vga_buffer v i"
proof -
  have "vga_row v * VGA_WIDTH + vga_col v < VGA_WIDTH * VGA_HEIGHT"
    using assms(1) by (simp add: vga_inv_def vga_dims)
  with assms(2) have "i \<noteq> vga_row v * VGA_WIDTH + vga_col v" by (auto simp: on_screen_def)
  then show ?thesis
    using assms(2) by (auto simp: vga_putc_def Let_def vga_newline_off_screen)
qed

lemma vga_puts_inv_off_screen:
  "vga_inv v \<Longrightarrow> vga_inv (vga_puts cs v) \<and>
     (\<forall>i. \<not> on_screen i \<longrightarrow> vga_buffer (vga_puts cs v) i = vga_buffer v i)"
  by (induction cs arbitrary: v) (auto simp: vga_inv_putc vga_putc_off_screen)

section \<open>The digits of a number\<close>

definition digit_value :: "u8 \<Rightarrow> nat" where
  "digit_value d = unat (d - 0x30)"

text \<open>The number denoted by digits stored least significant first.\<close>

fun digits_value :: "u8 list \<Rightarrow> nat" where
  "digits_value [] = 0"
| "digits_value (d # ds) = digit_value d + 10 * digits_value ds"

lemma digits_value_append:
  "digits_value (xs @ ys) = digits_value xs + 10 ^ length xs * digits_value ys"
  by (induction xs) (auto simp: algebra_simps)

lemma digit_value_digit: "digit_value (0x30 + ucast (val mod (10 :: u32))) = unat (val mod 10)"
proof -
  have "unat (val mod 10) < 10" by (simp add: unat_mod)
  then show ?thesis by (simp add: digit_value_def unsigned_ucast_eq take_bit_eq_mod)
qed

lemma digit_loop_app: "digit_loop val buf = buf @ digit_loop val []"
proof (induction val arbitrary: buf rule: measure_induct_rule [where f = unat])
  case (less val)
  show ?case
  proof (cases "0 < val")
    case True
    then have "unat (val div 10) < unat val"
      by (simp add: unat_div word_less_nat_alt)
    note IH = less.IH [OF this]
    show ?thesis
      using True IH [of "buf @ [0x30 + ucast (val mod 10)]"] IH [of "[0x30 + ucast (val mod 10)]"]
      by (simp add: digit_loop.simps [of val])
  next
    case False
    then show ?thesis by (simp add: digit_loop.simps [of val])
  qed
qed

lemma digit_loop_pos:
  "0 < val \<Longrightarrow> digit_loop val [] = (0x30 + ucast (val mod 10)) # digit_loop (val div 10) []"
  using digit_loop_app [of "val div 10" "[0x30 + ucast (val mod 10)]"]
  by (simp add: digit_loop.simps [of val])

lemma digit_loop_zero [simp]: "digit_loop 0 [] = []"
  by (simp add: digit_loop.simps [of 0])

lemma digit_loop_value: "digits_value (digit_loop val []) = unat val"
proof (induction val rule: measure_induct_rule [where f = unat])
  case (less val)
  show ?case
  proof (cases "0 < val")
    case True
    then have "unat (val div 10) < unat val"
      by (simp add: unat_div word_less_nat_alt)
    from less.IH [OF this] True show ?thesis
      by (simp add: digit_loop_pos digit_value_digit unat_div unat_mod)
  next
    case False
    then show ?thesis by (simp add: word_gt_0)
  qed
qed

lemma digit_loop_length: "unat val < 10 ^ k \<Longrightarrow> length (digit_loop val []) \<le> k"
proof (induction k arbitrary: val)
  case 0
  then show ?case by (simp add: unat_eq_0)
next
  case (Suc k)
  show ?case
  proof (cases "0 < val")
    case True
    have "unat (val div 10) < 10 ^ k"
      using Suc.prems by (simp add: unat_div less_mult_imp_div_less mult.commute)
    from Suc.IH [OF this] True show ?thesis by (simp add: digit_loop_pos)
  next
    case False
    then show ?thesis by (simp add: word_gt_0)
  qed
qed

lemma digit_range: "0x30 \<le> (0x30 + ucast (val mod (10 :: u32)) :: u8) \<and>
    (0x30 + ucast (val mod 10) :: u8) \<le> 0x39"
proof -
  have "unat (val mod 10) < 10" by (simp add: unat_mod)
  then show ?thesis by (simp add: word_le_nat_alt unsigned_ucast_eq take_bit_eq_mod unat_word_ariths)
qed

lemma digit_loop_digits: "\<forall>d\<in>set (digit_loop val []). 0x30 \<le> d \<and> d \<le> 0x39"
proof (induction val rule: measure_induct_rule [where f = unat])
  case (less val)
  show ?case
  proof (cases "0 < val")
    case True
    then have "unat (val div 10) < unat val" by (simp add: unat_div word_less_nat_alt)
    from less.IH [OF this] show ?thesis using True digit_range [of val] by (simp add: digit_loop_pos)
  next
    case False
    then show ?thesis by (simp add: word_gt_0)
  qed
qed

lemma digit_loop_last: "0 < val \<Longrightarrow> last (digit_loop val []) \<noteq> 0x30"
proof (induction val rule: measure_induct_rule [where f = unat])
  case (less val)
  show ?case
  proof (cases "0 < val div 10")
    case True
    then have "unat (val div 10) < unat val"
      using less.prems by (simp add: unat_div word_less_nat_alt)
    then show ?thesis using less True by (simp add: digit_loop_pos)
  next
    case False
    then have "unat val < 10" by (simp add: word_gt_0 unat_eq_0 [symmetric] unat_div div_eq_0_iff)
    then have "unat (val mod 10) \<noteq> 0"
      using less.prems by (simp add: unat_mod word_less_nat_alt)
    then have "digit_value (0x30 + ucast (val mod 10)) \<noteq> 0" by (simp add: digit_value_digit)
    then have "(0x30 + ucast (val mod 10) :: u8) \<noteq> 0x30" by (auto simp: digit_value_def)
    then show ?thesis using False less.prems by (simp add: digit_loop_pos word_gt_0)
  qed
qed

lemma serial_put_digits: "put_digits serial_putc buf out = out @ rev buf"
proof -
  have "fold serial_putc xs out = out @ xs" for xs
    by (induction xs arbitrary: out) (auto simp: serial_putc_def)
  then show ?thesis by (simp add: put_digits_def)
qed

section \<open>Properties\<close>

text \<open>C40: Printing any text on the VGA console leaves the cursor on the screen and stores only into
  the 80 by 25 cells of the text buffer.
\<close>

theorem vga_output_in_bounds:
  assumes "vga_inv v"
  shows "vga_inv (vga_puts cs v) \<and>
    (\<forall>i. vga_buffer (vga_puts cs v) i \<noteq> vga_buffer v i \<longrightarrow> on_screen i)"
  using vga_puts_inv_off_screen [OF assms] by blast

theorem vga_output_in_bounds_witness:
  "vga_inv (vga_puts (replicate 3000 0x41)
     (vga_init \<lparr>vga_buffer = (\<lambda>i. 7), vga_row = 30, vga_col = 90, vga_attr = 0\<rparr>))"
  using vga_output_in_bounds [of "vga_init \<lparr>vga_buffer = (\<lambda>i. 7), vga_row = 30, vga_col = 90, vga_attr = 0\<rparr>"
      "replicate 3000 0x41"]
  by (simp add: vga_init_def vga_inv_clear)

text \<open>\<^verbatim>\<open>serial_put_uint32\<close> appends the decimal digits of its argument to the serial output,
  most significant digit first and without a leading zero, and never more than ten of them, so
  that the buffer of eleven characters suffices.
\<close>

lemma serial_put_uint32_decimal:
  "\<exists>ds. serial_put_uint32 val out = out @ ds \<and> 1 \<le> length ds \<and> length ds \<le> 10 \<and>
     digits_value (rev ds) = unat val \<and> (\<forall>d\<in>set ds. 0x30 \<le> d \<and> d \<le> 0x39) \<and>
     (hd ds = 0x30 \<longrightarrow> val = 0)"
proof (cases "val = 0")
  case True
  then show ?thesis
    by (intro exI [of _ "[0x30]"]) (simp add: serial_put_uint32_def serial_putc_def digit_value_def)
next
  case False
  let ?ds = "digit_loop val []"
  have pos: "?ds \<noteq> []" using False by (simp add: digit_loop_pos word_gt_0)
  have "length ?ds \<le> 10" by (intro digit_loop_length less_trans [OF u32_unat_lt]) simp
  then show ?thesis
    using False pos digit_loop_last [of val] digit_loop_digits [of val]
    by (intro exI [of _ "rev ?ds"])
      (simp add: serial_put_uint32_def serial_put_digits digit_loop_value hd_rev Suc_le_eq word_gt_0)
qed

end
