(* ===== verification/Frame.thy ===== *)
theory Frame
  imports Memory_Map
begin

text \<open>
  The physical frame allocator, \<^verbatim>\<open>src/kernel/frame.c\<close>: a bitmap of allocated frames, a
  16-bit reference count per frame and the number of frames in use. Frame numbers are natural
  numbers (the C code only forms them by dividing a 32-bit address by 4096), addresses are
  32-bit words. The allocation-failure hook of the self-test builds is the field
  \<open>frame_fail_after\<close>; in the default build it is \<open>-1\<close> for ever.

  The interface that the paging code relies on is the locale \<open>frame_allocator\<close>, stated over
  abstract reference counts and interpreted here on the model of the C functions.
\<close>

section \<open>State and constants\<close>

definition FRAME_SIZE :: u32 where "FRAME_SIZE = 4096"
definition MAX_TRACKED_MEMORY :: u32 where "MAX_TRACKED_MEMORY = 0x20000000"
definition MAX_FRAMES :: u32 where "MAX_FRAMES = MAX_TRACKED_MEMORY div FRAME_SIZE"
definition RESERVED_LOW_END :: u32 where "RESERVED_LOW_END = 0x00300000"

record frame_state =
  frame_bitmap :: "nat \<Rightarrow> u8"
  frame_refcounts :: "nat \<Rightarrow> u16"
  total_frames :: u32
  used_frames :: u32
  frame_initialized :: bool
  frame_fail_after :: int

definition align_down :: "u32 \<Rightarrow> u32" where
  "align_down value = value AND NOT (FRAME_SIZE - 1)"

definition align_up :: "u32 \<Rightarrow> u32" where
  "align_up value = (value + FRAME_SIZE - 1) AND NOT (FRAME_SIZE - 1)"

definition bitmap_set :: "nat \<Rightarrow> frame_state \<Rightarrow> frame_state" where
  "bitmap_set frame s = s\<lparr>frame_bitmap := bit_set (frame_bitmap s) frame\<rparr>"

definition bitmap_clear :: "nat \<Rightarrow> frame_state \<Rightarrow> frame_state" where
  "bitmap_clear frame s = s\<lparr>frame_bitmap := bit_clear (frame_bitmap s) frame\<rparr>"

definition bitmap_test :: "frame_state \<Rightarrow> nat \<Rightarrow> bool" where
  "bitmap_test s frame \<longleftrightarrow> bit_test (frame_bitmap s) frame"

section \<open>Marking ranges\<close>

definition mark_allocated_step :: "nat \<Rightarrow> frame_state \<Rightarrow> frame_state" where
  "mark_allocated_step frame s =
     (let s = (if \<not> bitmap_test s frame
               then (bitmap_set frame s)\<lparr>used_frames := used_frames s + 1\<rparr> else s)
      in if frame_refcounts s frame = 0
         then s\<lparr>frame_refcounts := (frame_refcounts s)(frame := 1)\<rparr> else s)"

definition mark_allocated :: "u32 \<Rightarrow> u32 \<Rightarrow> frame_state \<Rightarrow> frame_state" where
  "mark_allocated start_addr end_addr s =
     (let start = align_down start_addr div FRAME_SIZE;
          end' = align_up end_addr div FRAME_SIZE;
          end' = (if total_frames s < end' then total_frames s else end')
      in for_loop (unat start) (unat end') mark_allocated_step s)"

definition mark_free_step :: "nat \<Rightarrow> frame_state \<Rightarrow> frame_state" where
  "mark_free_step frame s =
     (if bitmap_test s frame then
        let s = bitmap_clear frame s;
            s = (if 0 < used_frames s then s\<lparr>used_frames := used_frames s - 1\<rparr> else s)
        in s\<lparr>frame_refcounts := (frame_refcounts s)(frame := 0)\<rparr>
      else s)"

definition mark_free :: "u32 \<Rightarrow> u32 \<Rightarrow> frame_state \<Rightarrow> frame_state" where
  "mark_free start_addr end_addr s =
     (let start = align_up start_addr div FRAME_SIZE;
          end' = align_down end_addr div FRAME_SIZE;
          end' = (if total_frames s < end' then total_frames s else end')
      in for_loop (unat start) (unat end') mark_free_step s)"

section \<open>Initialisation\<close>

definition clamp_end :: "u64 \<Rightarrow> u32" where
  "clamp_end end64 = (if ucast MAX_TRACKED_MEMORY < end64 then MAX_TRACKED_MEMORY else ucast end64)"

definition highest_memory_from_e820 :: "e820_state \<Rightarrow> u32" where
  "highest_memory_from_e820 e =
     for_loop 0 (unat (map_count e))
       (\<lambda>i highest.
          if e_type (map_entries e i) \<noteq> E820_USABLE then highest
          else let end' = clamp_end (e_base (map_entries e i) + e_length (map_entries e i))
               in if highest < end' then end' else highest) 0"

definition frame_init_free :: "e820_state \<Rightarrow> frame_state \<Rightarrow> frame_state" where
  "frame_init_free e s =
     (if e820_is_available e then
        for_loop 0 (unat (map_count e))
          (\<lambda>i s.
             let entry = map_entries e i in
             if e_type entry \<noteq> E820_USABLE then s
             else if ucast MAX_TRACKED_MEMORY < e_base entry then s
             else mark_free (ucast (e_base entry)) (clamp_end (e_base entry + e_length entry)) s) s
      else mark_free 0 (total_frames s * FRAME_SIZE) s)"

definition frame_reset :: "u32 \<Rightarrow> frame_state \<Rightarrow> frame_state" where
  "frame_reset n s =
     s\<lparr>total_frames := n,
       frame_bitmap := (\<lambda>i. if i < unat MAX_FRAMES div 8 then 0xFF else frame_bitmap s i),
       frame_refcounts := (\<lambda>i. if i < unat MAX_FRAMES then (if i < unat n then 1 else 0)
                              else frame_refcounts s i),
       used_frames := n,
       frame_fail_after := -1\<rparr>"

definition frame_reserve_fixed :: "u32 \<Rightarrow> frame_state \<Rightarrow> frame_state" where
  "frame_reserve_fixed kernel_end s =
     (let s = mark_allocated 0 RESERVED_LOW_END s;
          s = mark_allocated 0x00080000 0x00081000 s;
          s = mark_allocated 0x00100000 0x00102000 s;
          s = mark_allocated 0x00200000 0x00300000 s
      in mark_allocated 0x00001000 (align_up kernel_end) s)"

definition frame_init :: "e820_state \<Rightarrow> mem_info \<Rightarrow> u32 \<Rightarrow> frame_state \<Rightarrow> frame_state" where
  "frame_init e mi kernel_end s =
     (let highest = highest_memory_from_e820 e;
          highest = (if highest < 16 * 1024 * 1024 then
                       let h = total_memory_kb mi * 1024
                       in if MAX_TRACKED_MEMORY < h then MAX_TRACKED_MEMORY else h
                     else highest);
          n = highest div FRAME_SIZE;
          n = (if MAX_FRAMES < n then MAX_FRAMES else n);
          s = frame_reset n s;
          s = frame_init_free e s;
          s = frame_reserve_fixed kernel_end s
      in s\<lparr>frame_initialized := True\<rparr>)"

section \<open>Allocation and reference counts\<close>

definition frame_take :: "nat \<Rightarrow> frame_state \<Rightarrow> frame_state" where
  "frame_take frame s =
     (bitmap_set frame s)\<lparr>used_frames := used_frames s + 1,
        frame_refcounts := (frame_refcounts s)(frame := 1)\<rparr>"

definition frame_alloc_below :: "u32 \<Rightarrow> frame_state \<Rightarrow> u32 \<times> frame_state" where
  "frame_alloc_below limit s =
     (if \<not> frame_initialized s \<or> limit = 0 then (0, s)
      else if frame_fail_after s = 0 then (0, s)
      else
        let s = (if 0 < frame_fail_after s
                 then s\<lparr>frame_fail_after := frame_fail_after s - 1\<rparr> else s);
            max_frame = limit div FRAME_SIZE;
            max_frame = (if total_frames s < max_frame then total_frames s else max_frame);
            start_frame = RESERVED_LOW_END div FRAME_SIZE
        in case first_index (\<lambda>frame. \<not> bitmap_test s frame) (unat start_frame) (unat max_frame) of
             Some frame \<Rightarrow> (of_nat frame * FRAME_SIZE, frame_take frame s)
           | None \<Rightarrow> (0, s))"

definition frame_alloc :: "frame_state \<Rightarrow> u32 \<times> frame_state" where
  "frame_alloc s = frame_alloc_below (total_frames s * FRAME_SIZE) s"

definition frame_retain :: "u32 \<Rightarrow> frame_state \<Rightarrow> bool \<times> frame_state" where
  "frame_retain phys_addr s =
     (let frame = unat (phys_addr div FRAME_SIZE) in
      if \<not> frame_initialized s \<or> phys_addr AND (FRAME_SIZE - 1) \<noteq> 0 then (False, s)
      else if frame \<ge> unat (total_frames s) \<or> \<not> bitmap_test s frame \<or>
              frame_refcounts s frame = 0 \<or> frame_refcounts s frame = 0xFFFF then (False, s)
      else (True, s\<lparr>frame_refcounts := (frame_refcounts s)(frame := frame_refcounts s frame + 1)\<rparr>))"

definition frame_release :: "u32 \<Rightarrow> frame_state \<Rightarrow> bool \<times> frame_state" where
  "frame_release phys_addr s =
     (let frame = unat (phys_addr div FRAME_SIZE) in
      if \<not> frame_initialized s \<or> phys_addr AND (FRAME_SIZE - 1) \<noteq> 0 then (False, s)
      else if frame \<ge> unat (total_frames s) \<or> \<not> bitmap_test s frame \<or>
              frame_refcounts s frame = 0 then (False, s)
      else if phys_addr < RESERVED_LOW_END then
        (if frame_refcounts s frame \<le> 1 then (False, s)
         else (True, s\<lparr>frame_refcounts := (frame_refcounts s)(frame := frame_refcounts s frame - 1)\<rparr>))
      else
        let s = s\<lparr>frame_refcounts := (frame_refcounts s)(frame := frame_refcounts s frame - 1)\<rparr>
        in if frame_refcounts s frame = 0 then
             let s = bitmap_clear frame s
             in (True, if 0 < used_frames s then s\<lparr>used_frames := used_frames s - 1\<rparr> else s)
           else (True, s))"

definition frame_free :: "u32 \<Rightarrow> frame_state \<Rightarrow> frame_state" where
  "frame_free phys_addr s = snd (frame_release phys_addr s)"

definition frame_reserve_range :: "u32 \<Rightarrow> u32 \<Rightarrow> frame_state \<Rightarrow> bool \<times> frame_state" where
  "frame_reserve_range start_addr end_addr s =
     (if \<not> frame_initialized s \<or> end_addr \<le> start_addr then (False, s)
      else
        let max_addr = total_frames s * FRAME_SIZE in
        if max_addr \<le> start_addr then (False, s)
        else (True, mark_allocated start_addr
                      (if max_addr < end_addr then max_addr else end_addr) s))"

definition frame_is_allocated :: "u32 \<Rightarrow> frame_state \<Rightarrow> bool" where
  "frame_is_allocated phys_addr s \<longleftrightarrow>
     (let frame = unat (phys_addr div FRAME_SIZE) in
      if \<not> frame_initialized s \<or> frame \<ge> unat (total_frames s) then True
      else bitmap_test s frame)"

definition frame_get_refcount :: "u32 \<Rightarrow> frame_state \<Rightarrow> u32" where
  "frame_get_refcount phys_addr s =
     (let frame = unat (phys_addr div FRAME_SIZE) in
      if \<not> frame_initialized s \<or> phys_addr AND (FRAME_SIZE - 1) \<noteq> 0 \<or>
         frame \<ge> unat (total_frames s) \<or> \<not> bitmap_test s frame then 0
      else ucast (frame_refcounts s frame))"

definition frame_get_free_count :: "frame_state \<Rightarrow> u32" where
  "frame_get_free_count s =
     (if total_frames s < used_frames s then 0 else total_frames s - used_frames s)"

definition frame_test_fail_after :: "int \<Rightarrow> frame_state \<Rightarrow> frame_state" where
  "frame_test_fail_after n s = s\<lparr>frame_fail_after := n\<rparr>"

section \<open>Addresses and frame numbers\<close>

definition page_aligned :: "u32 \<Rightarrow> bool" where
  "page_aligned a \<longleftrightarrow> a AND (FRAME_SIZE - 1) = 0"

lemma unat_and_page_mask: "unat ((a :: u32) AND 0xFFF) = unat a mod 4096"
  using unat_and_mask [of a 12] by (simp add: mask_eq_exp_minus_1)

lemma page_aligned_iff: "page_aligned a \<longleftrightarrow> unat a mod 4096 = 0"
  using unat_and_page_mask [of a]
  by (simp add: page_aligned_def FRAME_SIZE_def unat_eq_0 [symmetric])

lemma unat_div_page: "unat (a div FRAME_SIZE) = unat a div 4096"
  by (simp add: FRAME_SIZE_def unat_div)

lemma unat_align_down: "unat (align_down a) = unat a div 4096 * 4096"
proof -
  have "align_down a = a - (a AND 0xFFF)"
    using and_not_eq_minus_and [of a "0xFFF"] by (simp add: align_down_def FRAME_SIZE_def)
  then have "unat (align_down a) = unat a - unat a mod 4096"
    by (simp add: unat_sub_no_wrap unat_and_page_mask)
  then show ?thesis by (simp add: minus_mod_eq_div_mult)
qed

lemma align_up_align_down: "align_up a = align_down (a + 4095)"
  by (simp add: align_up_def align_down_def FRAME_SIZE_def add_diff_eq [symmetric])

lemma unat_frame_addr:
  "frame \<le> 131072 \<Longrightarrow> unat (of_nat frame * FRAME_SIZE) = frame * 4096"
  by (simp add: FRAME_SIZE_def unat_word_ariths unat_of_nat)

lemma page_aligned_eqI:
  "page_aligned a \<Longrightarrow> page_aligned b \<Longrightarrow> unat a div 4096 = unat b div 4096 \<Longrightarrow> a = b"
  by (metis page_aligned_iff div_mult_mod_eq word_unat_eq_iff)

section \<open>The allocator invariant\<close>

definition allocated :: "frame_state \<Rightarrow> nat set" where
  "allocated s = {frame. frame < unat (total_frames s) \<and> bitmap_test s frame}"

text \<open>
  The bitmap and the reference counts agree, and \<open>used_frames\<close> counts the allocated frames.
\<close>

definition frame_inv :: "frame_state \<Rightarrow> bool" where
  "frame_inv s \<longleftrightarrow> unat (total_frames s) \<le> 131072 \<and>
     (\<forall>frame < unat (total_frames s). bitmap_test s frame \<longleftrightarrow> frame_refcounts s frame \<noteq> 0) \<and>
     unat (used_frames s) = card (allocated s)"

text \<open>The frames below 3 MiB (kernel image, heap, first page tables) are never free.\<close>

definition low_reserved :: "frame_state \<Rightarrow> bool" where
  "low_reserved s \<longleftrightarrow>
     (\<forall>frame < unat (total_frames s). frame < 768 \<longrightarrow> frame_refcounts s frame \<noteq> 0)"

lemma finite_allocated [simp]: "finite (allocated s)"
  by (simp add: allocated_def)

lemma card_allocated_le: "card (allocated s) \<le> unat (total_frames s)"
  using card_mono [of "{..< unat (total_frames s)}" "allocated s"]
  by (auto simp: allocated_def)

lemmas frame_bits = bitmap_test_def bitmap_set_def bitmap_clear_def bitmap_simps

text \<open>The three ways in which an operation changes one frame.\<close>

lemma frame_inv_take:
  assumes "frame_inv s" and "frame < unat (total_frames s)" and "\<not> bitmap_test s frame"
    and "c \<noteq> 0"
  shows "frame_inv ((bitmap_set frame s)\<lparr>used_frames := used_frames s + 1,
           frame_refcounts := (frame_refcounts s)(frame := c)\<rparr>)" (is "frame_inv ?s")
proof -
  have new: "allocated ?s = insert frame (allocated s)"
    using assms by (auto simp: allocated_def frame_bits)
  have fresh: "frame \<notin> allocated s" using assms(3) by (simp add: allocated_def)
  have "card (allocated ?s) = card (allocated s) + 1"
    unfolding new using fresh by simp
  moreover have "card (allocated ?s) \<le> 131072"
    using card_allocated_le [of ?s] assms(1) by (simp add: frame_inv_def bitmap_set_def)
  moreover have "unat (used_frames s) = card (allocated s)"
    using assms(1) by (simp add: frame_inv_def)
  ultimately have "unat (used_frames s + 1) = card (allocated ?s)"
    by (subst unat_add_no_wrap) auto
  then show ?thesis
    using assms by (auto simp: frame_inv_def frame_bits)
qed

lemma frame_inv_drop:
  assumes "frame_inv s" and "frame < unat (total_frames s)" and "bitmap_test s frame"
  shows "0 < used_frames s \<and>
    frame_inv ((bitmap_clear frame s)\<lparr>used_frames := used_frames s - 1,
           frame_refcounts := (frame_refcounts s)(frame := 0)\<rparr>)" (is "_ \<and> frame_inv ?s")
proof -
  have old: "allocated ?s = allocated s - {frame}"
    using assms by (auto simp: allocated_def frame_bits)
  have mem: "frame \<in> allocated s" using assms by (simp add: allocated_def)
  then have pos: "0 < card (allocated s)" by (auto simp: card_gt_0_iff)
  have used: "unat (used_frames s) = card (allocated s)"
    using assms(1) by (simp add: frame_inv_def)
  have "card (allocated ?s) = card (allocated s) - 1"
    unfolding old using mem by simp
  moreover have "unat (used_frames s - 1) = unat (used_frames s) - 1"
    using used pos unat_sub_no_wrap [of 1 "used_frames s"] by simp
  ultimately have "unat (used_frames s - 1) = card (allocated ?s)"
    using used by simp
  moreover have "0 < used_frames s" using used pos by (simp add: word_less_nat_alt)
  ultimately show ?thesis
    using assms by (auto simp: frame_inv_def frame_bits)
qed

lemma frame_inv_recount:
  assumes "frame_inv s" and "bitmap_test s frame" and "c \<noteq> 0"
  shows "frame_inv (s\<lparr>frame_refcounts := (frame_refcounts s)(frame := c)\<rparr>)" (is "frame_inv ?s")
proof -
  have "allocated ?s = allocated s" by (auto simp: allocated_def frame_bits)
  then show ?thesis using assms by (auto simp: frame_inv_def frame_bits)
qed

lemma frame_inv_other_fields [simp]:
  "frame_inv (s\<lparr>frame_fail_after := n\<rparr>) = frame_inv s"
  "frame_inv (s\<lparr>frame_initialized := b\<rparr>) = frame_inv s"
  "low_reserved (s\<lparr>frame_fail_after := n\<rparr>) = low_reserved s"
  "low_reserved (s\<lparr>frame_initialized := b\<rparr>) = low_reserved s"
  by (simp_all add: frame_inv_def low_reserved_def allocated_def bitmap_test_def)

section \<open>Initialisation establishes the invariant\<close>

lemma total_frames_steps [simp]:
  "total_frames (mark_allocated_step frame s) = total_frames s"
  "total_frames (mark_free_step frame s) = total_frames s"
  by (simp_all add: mark_allocated_step_def mark_free_step_def Let_def frame_bits)

lemma mark_allocated_step_inv:
  assumes "frame_inv s" and "frame < unat (total_frames s)"
  shows "frame_inv (mark_allocated_step frame s)"
proof (cases "bitmap_test s frame")
  case True
  then have "frame_refcounts s frame \<noteq> 0" using assms by (simp add: frame_inv_def)
  with True show ?thesis using assms by (simp add: mark_allocated_step_def)
next
  case False
  then have "frame_refcounts s frame = 0" using assms by (simp add: frame_inv_def)
  with False show ?thesis
    using frame_inv_take [OF assms False, of 1]
    by (simp add: mark_allocated_step_def Let_def bitmap_set_def)
qed

lemma mark_free_step_inv:
  assumes "frame_inv s" and "frame < unat (total_frames s)"
  shows "frame_inv (mark_free_step frame s)"
proof (cases "bitmap_test s frame")
  case True
  from frame_inv_drop [OF assms True] show ?thesis
    using True by (simp add: mark_free_step_def Let_def bitmap_clear_def)
next
  case False
  then show ?thesis using assms by (simp add: mark_free_step_def)
qed

lemma mark_allocated_step_refs:
  "frame_refcounts (mark_allocated_step frame s) f =
     (if f = frame \<and> frame_refcounts s f = 0 then 1 else frame_refcounts s f)"
  by (auto simp: mark_allocated_step_def Let_def bitmap_set_def)

lemma mark_range_inv:
  assumes "\<And>frame s. frame_inv s \<Longrightarrow> frame < unat (total_frames s) \<Longrightarrow>
      frame_inv (step frame s) \<and> total_frames (step frame s) = total_frames s"
    and "frame_inv s" and "b \<le> unat (total_frames s)"
  shows "frame_inv (for_loop a b step s) \<and>
    total_frames (for_loop a b step s) = total_frames s"
  by (rule for_loop_invariant
      [where P = "\<lambda>t. frame_inv t \<and> total_frames t = total_frames s"])
    (use assms in auto)

lemma mark_allocated_inv:
  "frame_inv s \<Longrightarrow> frame_inv (mark_allocated a b s) \<and>
     total_frames (mark_allocated a b s) = total_frames s"
  unfolding mark_allocated_def Let_def
  by (rule mark_range_inv) (auto simp: mark_allocated_step_inv word_less_nat_alt)

lemma mark_free_inv:
  "frame_inv s \<Longrightarrow> frame_inv (mark_free a b s) \<and> total_frames (mark_free a b s) = total_frames s"
  unfolding mark_free_def Let_def
  by (rule mark_range_inv) (auto simp: mark_free_step_inv word_less_nat_alt)

lemma mark_allocated_refs_mono:
  "frame_refcounts s f \<noteq> 0 \<Longrightarrow> frame_refcounts (mark_allocated a b s) f \<noteq> 0"
  unfolding mark_allocated_def Let_def
  by (rule for_loop_invariant [where P = "\<lambda>t. frame_refcounts t f \<noteq> 0"])
    (auto simp: mark_allocated_step_refs)

lemma low_reserved_mark_allocated:
  "low_reserved s \<Longrightarrow> frame_inv s \<Longrightarrow> low_reserved (mark_allocated a b s)"
  using mark_allocated_inv mark_allocated_refs_mono by (auto simp: low_reserved_def)

lemma for_loop_mark_refs:
  "a \<le> f \<Longrightarrow> f < b \<Longrightarrow> frame_refcounts (for_loop a b mark_allocated_step s) f \<noteq> 0"
proof (induction b)
  case 0
  then show ?case by simp
next
  case (Suc b)
  then show ?case
    by (cases "f = b") (auto simp: for_loop_last mark_allocated_step_refs)
qed

lemma low_reserved_init: "frame_inv s \<Longrightarrow> low_reserved (mark_allocated 0 RESERVED_LOW_END s)"
proof -
  assume inv: "frame_inv s"
  have start: "unat (align_down 0 div FRAME_SIZE) = 0"
    by (simp add: unat_div_page unat_align_down)
  have stop: "unat (align_up RESERVED_LOW_END div FRAME_SIZE) = 768"
    by (simp add: unat_div_page align_up_align_down unat_align_down RESERVED_LOW_END_def)
  show ?thesis
    unfolding low_reserved_def
    using mark_allocated_inv [OF inv, of 0 RESERVED_LOW_END]
    by (auto simp: mark_allocated_def Let_def start stop word_less_nat_alt for_loop_mark_refs)
qed

lemma frame_init_free_inv: "frame_inv s \<Longrightarrow> frame_inv (frame_init_free e s)"
proof -
  assume inv: "frame_inv s"
  show ?thesis
  proof (cases "e820_is_available e")
    case True
    show ?thesis
      unfolding frame_init_free_def if_P [OF True] Let_def
      by (rule for_loop_invariant [where P = frame_inv]) (simp_all add: inv mark_free_inv)
  next
    case False
    then show ?thesis using inv by (simp add: frame_init_free_def mark_free_inv)
  qed
qed

lemma unat_MAX_FRAMES: "unat MAX_FRAMES = 131072"
  by (simp add: MAX_FRAMES_def MAX_TRACKED_MEMORY_def FRAME_SIZE_def)

lemma frame_reset_inv:
  assumes "n \<le> MAX_FRAMES"
  shows "frame_inv (frame_reset n s)" (is "frame_inv ?s")
proof -
  have n: "unat n \<le> 131072" using assms by (simp add: word_le_nat_alt unat_MAX_FRAMES)
  have set: "bitmap_test ?s f" if "f < unat n" for f
  proof -
    have "f div 8 < 131072 div 8" using that n by simp
    then show ?thesis
      by (simp add: bitmap_test_def bit_test_all_ones frame_reset_def unat_MAX_FRAMES)
  qed
  then have "allocated ?s = {..< unat n}" by (auto simp: allocated_def frame_reset_def)
  then show ?thesis
    using n set by (auto simp: frame_inv_def frame_reset_def unat_MAX_FRAMES)
qed

lemma frame_reserve_fixed_inv:
  "frame_inv s \<Longrightarrow> frame_inv (frame_reserve_fixed kernel_end s) \<and>
     low_reserved (frame_reserve_fixed kernel_end s)"
  unfolding frame_reserve_fixed_def Let_def
  by (simp add: mark_allocated_inv low_reserved_mark_allocated low_reserved_init)

lemma frame_init_inv:
  "frame_inv (frame_init e mi kernel_end s) \<and> low_reserved (frame_init e mi kernel_end s)"
  unfolding frame_init_def Let_def
  by (simp add: frame_reserve_fixed_inv frame_init_free_inv frame_reset_inv)

section \<open>Operations on one frame\<close>

definition frame_ok :: "frame_state \<Rightarrow> bool" where
  "frame_ok s \<longleftrightarrow> frame_inv s \<and> low_reserved s \<and> frame_initialized s"

definition frame_refs :: "frame_state \<Rightarrow> u32 \<Rightarrow> nat" where
  "frame_refs s a = unat (frame_get_refcount a s)"

lemma frame_refs_eq:
  assumes "frame_ok s"
  shows "frame_refs s a = (if page_aligned a \<and> unat a div 4096 < unat (total_frames s)
    then unat (frame_refcounts s (unat a div 4096)) else 0)"
proof -
  have "unat (ucast (c :: u16) :: u32) = unat c" for c
    by (simp add: unsigned_ucast_eq take_bit_nat_eq_self less_trans [OF u16_unat_lt])
  then show ?thesis
    using assms
    by (auto simp: frame_refs_def frame_get_refcount_def Let_def frame_ok_def frame_inv_def
        page_aligned_def unat_div_page)
qed

text \<open>A search limit as a bound on frame numbers.\<close>

definition frame_bound :: "frame_state \<Rightarrow> u32 \<Rightarrow> nat" where
  "frame_bound s limit = min (unat limit div 4096) (unat (total_frames s))"

lemma frame_bound_eq:
  "unat (if total_frames s < limit div FRAME_SIZE then total_frames s else limit div FRAME_SIZE)
     = frame_bound s limit"
  by (auto simp: frame_bound_def word_less_nat_alt unat_div_page min_def)

lemma reserved_start: "unat (RESERVED_LOW_END div FRAME_SIZE) = 768"
  by (simp add: RESERVED_LOW_END_def FRAME_SIZE_def)

text \<open>
  The allocator takes the lowest free frame at or above 3 MiB and below the limit, and fails
  exactly when there is none (or when the failure hook of the self-test builds is armed).
\<close>

lemma frame_alloc_below_cases:
  assumes "frame_initialized s" and "frame_fail_after s \<noteq> 0"
  obtains (found) frame s1 where
      "frame_alloc_below limit s = (of_nat frame * FRAME_SIZE, frame_take frame s1)"
      "s1 = s \<or> s1 = s\<lparr>frame_fail_after := frame_fail_after s - 1\<rparr>"
      "768 \<le> frame" "frame < frame_bound s limit" "\<not> bitmap_test s frame"
      "\<forall>f. 768 \<le> f \<and> f < frame \<longrightarrow> bitmap_test s f"
    | (full) s1 where
      "frame_alloc_below limit s = (0, s1)"
      "s1 = s \<or> s1 = s\<lparr>frame_fail_after := frame_fail_after s - 1\<rparr>"
      "\<forall>f. 768 \<le> f \<and> f < frame_bound s limit \<longrightarrow> bitmap_test s f"
proof (cases "limit = 0")
  case True
  then show ?thesis using full [of s] assms by (simp add: frame_alloc_below_def frame_bound_def)
next
  case False
  define s1 where "s1 = (if 0 < frame_fail_after s
      then s\<lparr>frame_fail_after := frame_fail_after s - 1\<rparr> else s)"
  have same: "bitmap_test s1 = bitmap_test s" "frame_bound s1 limit = frame_bound s limit"
    by (auto simp: s1_def bitmap_test_def frame_bound_def fun_eq_iff)
  have eq: "frame_alloc_below limit s =
      (case first_index (\<lambda>frame. \<not> bitmap_test s frame) 768 (frame_bound s limit) of
         Some frame \<Rightarrow> (of_nat frame * FRAME_SIZE, frame_take frame s1) | None \<Rightarrow> (0, s1))"
    using assms False same
    by (simp add: frame_alloc_below_def Let_def reserved_start frame_bound_eq s1_def [symmetric])
  have s1: "s1 = s \<or> s1 = s\<lparr>frame_fail_after := frame_fail_after s - 1\<rparr>"
    by (auto simp: s1_def)
  show ?thesis
  proof (cases "first_index (\<lambda>frame. \<not> bitmap_test s frame) 768 (frame_bound s limit)")
    case None
    then have "frame_alloc_below limit s = (0, s1)" using eq by simp
    from full [OF this s1] None show ?thesis by (simp add: first_index_None_iff)
  next
    case (Some frame)
    then have "frame_alloc_below limit s = (of_nat frame * FRAME_SIZE, frame_take frame s1)"
      using eq by simp
    from found [OF this s1] Some show ?thesis by (simp add: first_index_Some_iff)
  qed
qed

lemma frame_bound_le: "frame_bound s limit \<le> unat (total_frames s)"
  by (simp add: frame_bound_def)

lemma frame_take_ok:
  assumes "frame_ok s" and "frame < unat (total_frames s)" and "\<not> bitmap_test s frame"
  shows "frame_ok (frame_take frame s)"
  using assms frame_inv_take [of s frame 1]
  by (auto simp: frame_ok_def frame_take_def low_reserved_def bitmap_set_def)

lemma frame_ok_fail_after [simp]: "frame_ok (s\<lparr>frame_fail_after := n\<rparr>) = frame_ok s"
  by (simp add: frame_ok_def)

lemma frame_refs_fail_after [simp]: "frame_refs (s\<lparr>frame_fail_after := n\<rparr>) = frame_refs s"
  by (simp add: fun_eq_iff frame_refs_def frame_get_refcount_def Let_def bitmap_test_def)

lemma frame_addr_facts:
  assumes "768 \<le> frame" and "frame < 131072"
  shows "page_aligned (of_nat frame * FRAME_SIZE)" "of_nat frame * FRAME_SIZE \<noteq> 0"
    "unat (of_nat frame * FRAME_SIZE) div 4096 = frame"
  using unat_frame_addr [of frame] assms
  by (auto simp: page_aligned_iff simp flip: unat_eq_0)

lemma frame_refs_take:
  assumes "frame_ok s" and "768 \<le> frame" and "frame < unat (total_frames s)"
    and "\<not> bitmap_test s frame"
  shows "frame_refs s (of_nat frame * FRAME_SIZE) = 0"
    and "frame_refs (frame_take frame s) = (frame_refs s)(of_nat frame * FRAME_SIZE := 1)"
proof -
  have "unat (total_frames s) \<le> 131072" using assms(1) by (simp add: frame_ok_def frame_inv_def)
  then have "frame < 131072" using assms(3) by simp
  note addr = frame_addr_facts [OF assms(2) this]
  have "frame_refcounts s frame = 0"
    using assms by (simp add: frame_ok_def frame_inv_def)
  then show "frame_refs s (of_nat frame * FRAME_SIZE) = 0"
    using assms(1) addr by (simp add: frame_refs_eq)
  note ok = frame_take_ok [OF assms(1,3,4)]
  have "frame_refs (frame_take frame s) a = ((frame_refs s)(of_nat frame * FRAME_SIZE := 1)) a" for a
  proof (cases "a = of_nat frame * FRAME_SIZE")
    case True
    then show ?thesis
      using addr assms(3)
      by (subst frame_refs_eq [OF ok]) (simp add: frame_take_def bitmap_set_def)
  next
    case False
    then have "\<not> (page_aligned a \<and> unat a div 4096 = frame)"
      using page_aligned_eqI addr by metis
    then show ?thesis
      using False
      by (subst frame_refs_eq [OF ok])
        (auto simp: frame_refs_eq [OF assms(1)] frame_take_def bitmap_set_def)
  qed
  then show "frame_refs (frame_take frame s) = (frame_refs s)(of_nat frame * FRAME_SIZE := 1)"
    by auto
qed

lemma frame_alloc_below_spec:
  assumes "frame_ok s" and "frame_alloc_below limit s = (a, s')"
  shows "frame_ok s' \<and>
    (if a = 0 then frame_refs s' = frame_refs s
     else page_aligned a \<and> RESERVED_LOW_END \<le> a \<and> unat a div 4096 < frame_bound s limit \<and>
       frame_refs s a = 0 \<and> frame_refs s' = (frame_refs s)(a := 1))"
proof (cases "frame_fail_after s = 0")
  case True
  then have "frame_alloc_below limit s = (0, s)" by (simp add: frame_alloc_below_def)
  then show ?thesis using assms by simp
next
  case False
  have "frame_initialized s" using assms(1) by (simp add: frame_ok_def)
  from this False show ?thesis
  proof (cases rule: frame_alloc_below_cases [where limit = limit])
    case (found frame s1)
    have bound: "frame < unat (total_frames s)"
      using found(4) frame_bound_le [of s limit] by simp
    have s1: "frame_ok s1" "frame < unat (total_frames s1)" "\<not> bitmap_test s1 frame"
      "frame_refs s1 = frame_refs s"
      using found(2,5) assms(1) bound by (auto simp: bitmap_test_def)
    have "unat (total_frames s) \<le> 131072" using assms(1) by (simp add: frame_ok_def frame_inv_def)
    then have "frame < 131072" using bound by simp
    note addr = frame_addr_facts [OF found(3) this]
    have "RESERVED_LOW_END \<le> of_nat frame * FRAME_SIZE"
      using found(3) \<open>frame < 131072\<close>
      by (simp add: word_le_nat_alt unat_frame_addr RESERVED_LOW_END_def)
    then show ?thesis
      using found(1,4) assms(2) addr frame_refs_take [OF s1(1) found(3) s1(2,3)] s1(4)
        frame_take_ok [OF s1(1-3)]
      by auto
  next
    case (full s1)
    then show ?thesis using assms by auto
  qed
qed

text \<open>Changing the count of one frame, seen through the abstract reference counts.\<close>

lemma frame_refs_recount:
  assumes "frame_ok s" and "frame_ok s'" and "page_aligned a"
    and "unat a div 4096 < unat (total_frames s)" and "total_frames s' = total_frames s"
    and "frame_refcounts s' = (frame_refcounts s)(unat a div 4096 := c)"
  shows "frame_refs s' = (frame_refs s)(a := unat c)"
proof
  fix b
  show "frame_refs s' b = ((frame_refs s)(a := unat c)) b"
  proof (cases "b = a")
    case True
    then show ?thesis using assms(3-6) by (simp add: frame_refs_eq [OF assms(2)])
  next
    case False
    then have "\<not> (page_aligned b \<and> unat b div 4096 = unat a div 4096)"
      using page_aligned_eqI assms(3) by metis
    then show ?thesis
      using False assms(5,6) by (auto simp: frame_refs_eq [OF assms(1)] frame_refs_eq [OF assms(2)])
  qed
qed

lemma unat_u16_minus_1: "(c :: u16) \<noteq> 0 \<Longrightarrow> unat (c - 1) = unat c - 1"
  by (intro unat_minus_one) simp

lemma unat_u16_plus_1: "(c :: u16) \<noteq> 0xFFFF \<Longrightarrow> unat (c + 1) = Suc (unat c)"
proof -
  assume "c \<noteq> 0xFFFF"
  then have "unat c \<noteq> unat (0xFFFF :: u16)" using word_unat_eq_iff by blast
  then have "unat c < 65535" using u16_unat_lt [of c] by (simp del: u16_unat_lt)
  then show ?thesis by (subst unat_add_no_wrap) auto
qed

lemma unat_u16_le_1: "(c :: u16) \<le> 1 \<longleftrightarrow> c = 0 \<or> c = 1"
proof -
  have "c \<le> 1 \<longleftrightarrow> unat c = unat (0 :: u16) \<or> unat c = unat (1 :: u16)"
    by (auto simp: word_le_nat_alt)
  then show ?thesis using word_unat_eq_iff by blast
qed

lemma unat_u16_eq_1: "unat (c :: u16) = Suc 0 \<longleftrightarrow> c = 1"
  by (metis One_nat_def unat_1 word_unat_eq_iff)

lemma frame_inv_count:
  "frame_inv s \<Longrightarrow> frame < unat (total_frames s) \<Longrightarrow>
     bitmap_test s frame \<longleftrightarrow> frame_refcounts s frame \<noteq> 0"
  unfolding frame_inv_def by blast

lemma frame_retain_cases:
  assumes "frame_ok s"
  obtains (ok) s' where "frame_retain a s = (True, s')" "frame_ok s'" "0 < frame_refs s a"
      "frame_refs s a < 65535" "frame_refs s' = (frame_refs s)(a := Suc (frame_refs s a))"
    | (fail) "frame_retain a s = (False, s)" "frame_refs s a = 0 \<or> frame_refs s a = 65535"
proof (cases "page_aligned a \<and> unat a div 4096 < unat (total_frames s) \<and>
    bitmap_test s (unat a div 4096) \<and> frame_refcounts s (unat a div 4096) \<noteq> 0xFFFF")
  case True
  let ?c = "frame_refcounts s (unat a div 4096)"
  let ?s = "s\<lparr>frame_refcounts := (frame_refcounts s)(unat a div 4096 := ?c + 1)\<rparr>"
  have refs: "frame_refs s a = unat ?c" using True assms by (simp add: frame_refs_eq)
  have nz: "?c \<noteq> 0" using True assms frame_inv_count by (auto simp: frame_ok_def)
  have "unat (?c + 1) = Suc (unat ?c)" using True by (simp add: unat_u16_plus_1)
  moreover then have "?c + 1 \<noteq> 0" by (metis unat_0 nat.distinct(1))
  moreover then have "frame_inv ?s"
    using frame_inv_recount [of s "unat a div 4096" "?c + 1"] True assms by (simp add: frame_ok_def)
  then have "frame_ok ?s"
    using assms \<open>?c + 1 \<noteq> 0\<close> by (auto simp: frame_ok_def low_reserved_def)
  moreover have "frame_retain a s = (True, ?s)"
    using True nz assms
    by (simp add: frame_retain_def Let_def unat_div_page frame_ok_def page_aligned_def)
  moreover have "unat ?c < 65535"
    using u16_unat_lt [of "?c + 1"] calculation(1) by simp
  ultimately show ?thesis
    using ok [of ?s] frame_refs_recount [OF assms, of ?s a] True refs nz
    by (simp add: unat_gt_0)
next
  case False
  then have "frame_retain a s = (False, s)"
    by (auto simp: frame_retain_def Let_def unat_div_page page_aligned_def)
  moreover have "frame_refs s a = 0 \<or> frame_refs s a = 65535"
    using False assms by (auto simp: frame_refs_eq frame_ok_def frame_inv_def)
  ultimately show ?thesis by (rule fail)
qed

lemma frame_release_cases:
  assumes "frame_ok s"
  obtains (ok) s' where "frame_release a s = (True, s')" "frame_ok s'" "0 < frame_refs s a"
      "frame_refs s' = (frame_refs s)(a := frame_refs s a - 1)"
    | (fail) "frame_release a s = (False, s)"
        "frame_refs s a = 0 \<or> frame_refs s a = 1 \<and> a < RESERVED_LOW_END"
proof -
  let ?f = "unat a div 4096"
  let ?c = "frame_refcounts s ?f"
  let ?s = "s\<lparr>frame_refcounts := (frame_refcounts s)(?f := ?c - 1)\<rparr>"
  have inv: "frame_inv s" "low_reserved s" "frame_initialized s"
    using assms by (simp_all add: frame_ok_def)
  show ?thesis
  proof (cases "page_aligned a \<and> ?f < unat (total_frames s) \<and> bitmap_test s ?f")
    case False
    then have "frame_release a s = (False, s)"
      by (auto simp: frame_release_def Let_def unat_div_page page_aligned_def)
    moreover have "frame_refs s a = 0"
      using False inv assms by (auto simp: frame_refs_eq frame_inv_def)
    ultimately show ?thesis using fail by simp
  next
    case True
    then have nz: "?c \<noteq> 0" using inv frame_inv_count by auto
    have refs: "frame_refs s a = unat ?c" using True assms by (simp add: frame_refs_eq)
    have guards: "frame_release a s =
        (if a < RESERVED_LOW_END then (if ?c \<le> 1 then (False, s) else (True, ?s))
         else if ?c - 1 = 0 then
           (True, let t = bitmap_clear ?f ?s
                  in if 0 < used_frames t then t\<lparr>used_frames := used_frames t - 1\<rparr> else t)
         else (True, ?s))"
      using True nz inv by (simp add: frame_release_def Let_def unat_div_page page_aligned_def)
    have low: "a < RESERVED_LOW_END \<longleftrightarrow> ?f < 768"
      using True by (auto simp: word_less_nat_alt RESERVED_LOW_END_def page_aligned_iff)
    show ?thesis
    proof (cases "?c = 1")
      case c1: True
      show ?thesis
      proof (cases "a < RESERVED_LOW_END")
        case True
        then show ?thesis using fail guards c1 refs by simp
      next
        case high: False
        let ?t = "(bitmap_clear ?f s)\<lparr>used_frames := used_frames s - 1,
           frame_refcounts := (frame_refcounts s)(?f := 0)\<rparr>"
        have drop: "0 < used_frames s" "frame_inv ?t"
          using frame_inv_drop [OF inv(1)] True by auto
        have "frame_release a s = (True, ?t)"
          using guards high c1 drop(1) by (simp add: bitmap_clear_def Let_def)
        moreover have "frame_ok ?t"
          using drop inv high low by (auto simp: frame_ok_def low_reserved_def bitmap_clear_def)
        ultimately show ?thesis
          using ok [of ?t] frame_refs_recount [OF assms, of ?t a 0] True refs c1
          by (simp add: bitmap_clear_def)
      qed
    next
      case more: False
      have "\<not> ?c \<le> 1" "?c - 1 \<noteq> 0"
        using nz more by (auto simp: unat_u16_le_1)
      then have "frame_release a s = (True, ?s)" using guards by simp
      moreover have "frame_ok ?s"
        using frame_inv_recount [OF inv(1)] True inv \<open>?c - 1 \<noteq> 0\<close>
        by (auto simp: frame_ok_def low_reserved_def)
      ultimately show ?thesis
        using ok [of ?s] frame_refs_recount [OF assms, of ?s a] True refs nz
        by (simp add: unat_u16_minus_1 unat_gt_0)
    qed
  qed
qed


section \<open>The interface the paging code relies on\<close>

text \<open>
  An allocator of reference-counted frames over an abstract count per address. Pinned frames
  (the low 3 MiB) can be shared but never go back to the free pool.
\<close>

locale frame_allocator =
  fixes alloc :: "'s \<Rightarrow> u32 \<times> 's"
    and retain :: "u32 \<Rightarrow> 's \<Rightarrow> bool \<times> 's"
    and release :: "u32 \<Rightarrow> 's \<Rightarrow> bool \<times> 's"
    and refs :: "'s \<Rightarrow> u32 \<Rightarrow> nat"
    and pinned :: "u32 \<Rightarrow> bool"
    and inv :: "'s \<Rightarrow> bool"
  assumes alloc_inv: "inv s \<Longrightarrow> alloc s = (a, s') \<Longrightarrow> inv s'"
    and alloc_none: "inv s \<Longrightarrow> alloc s = (0, s') \<Longrightarrow> refs s' = refs s"
    and alloc_some: "inv s \<Longrightarrow> alloc s = (a, s') \<Longrightarrow> a \<noteq> 0 \<Longrightarrow>
      page_aligned a \<and> \<not> pinned a \<and> refs s a = 0 \<and> refs s' = (refs s)(a := 1)"
    and retain_inv: "inv s \<Longrightarrow> retain a s = (r, s') \<Longrightarrow> inv s'"
    and retain_true: "inv s \<Longrightarrow> retain a s = (True, s') \<Longrightarrow>
      0 < refs s a \<and> refs s' = (refs s)(a := Suc (refs s a))"
    and retain_false: "inv s \<Longrightarrow> retain a s = (False, s') \<Longrightarrow> s' = s"
    and release_inv: "inv s \<Longrightarrow> release a s = (r, s') \<Longrightarrow> inv s'"
    and release_true: "inv s \<Longrightarrow> release a s = (True, s') \<Longrightarrow>
      0 < refs s a \<and> refs s' = (refs s)(a := refs s a - 1)"
    and release_false: "inv s \<Longrightarrow> release a s = (False, s') \<Longrightarrow>
      s' = s \<and> (refs s a = 0 \<or> pinned a \<and> refs s a = 1)"
begin

lemma live_frame_not_reallocated:
  assumes "inv s" and "alloc s = (a, s')" and "a \<noteq> 0" and "0 < refs s b"
  shows "a \<noteq> b \<and> refs s' b = refs s b"
  using alloc_some [OF assms(1-3)] assms(4) by auto

lemma successive_allocs_distinct:
  assumes "inv s" and "alloc s = (a, s')" and "alloc s' = (b, s'')" and "a \<noteq> 0" and "b \<noteq> 0"
  shows "a \<noteq> b"
  using live_frame_not_reallocated [OF alloc_inv [OF assms(1,2)] assms(3,5), of a]
    alloc_some [OF assms(1,2,4)] by auto

lemma release_shared_frame:
  assumes "inv s" and "1 < refs s a \<or> \<not> pinned a \<and> refs s a = 1"
  shows "\<exists>s'. release a s = (True, s') \<and> inv s' \<and> refs s' = (refs s)(a := refs s a - 1)"
proof -
  obtain r s' where rel: "release a s = (r, s')" by force
  then have "r" using release_false [OF assms(1), of a s'] assms(2) by (cases r) auto
  then show ?thesis
    using rel release_true [OF assms(1), of a s'] release_inv [OF assms(1) rel] by auto
qed

lemma retain_release_cancel:
  assumes "inv s" and "retain a s = (True, s1)"
  shows "\<exists>s2. release a s1 = (True, s2) \<and> inv s2 \<and> refs s2 = refs s"
proof -
  have *: "inv s1" "0 < refs s a" "refs s1 = (refs s)(a := Suc (refs s a))"
    using retain_inv [OF assms] retain_true [OF assms] by auto
  then have "1 < refs s1 a" by simp
  from release_shared_frame [OF *(1)] this * show ?thesis by fastforce
qed

lemma alloc_release_cancel:
  assumes "inv s" and "alloc s = (a, s1)" and "a \<noteq> 0"
  shows "\<exists>s2. release a s1 = (True, s2) \<and> inv s2 \<and> refs s2 = refs s"
proof -
  have *: "inv s1" "\<not> pinned a" "refs s a = 0" "refs s1 = (refs s)(a := 1)"
    using alloc_inv [OF assms(1,2)] alloc_some [OF assms] by auto
  then show ?thesis using release_shared_frame [OF *(1), of a] by (auto simp: fun_upd_idem)
qed

lemma release_twice_refused:
  assumes "inv s" and "refs s a = 1" and "release a s = (True, s1)"
  shows "release a s1 = (False, s1)"
proof -
  have *: "inv s1" "refs s1 a = 0"
    using release_inv [OF assms(1,3)] release_true [OF assms(1,3)] assms(2) by auto
  obtain r s2 where rel: "release a s1 = (r, s2)" by force
  then show ?thesis
    using release_true [OF *(1), of a s2] release_false [OF *(1), of a s2] *(2) by (cases r) auto
qed

end

interpretation frames: frame_allocator frame_alloc frame_retain frame_release frame_refs
  "\<lambda>a. a < RESERVED_LOW_END" frame_ok
proof unfold_locales
  fix s a s'
  assume ok: "frame_ok s"
  {
    assume al: "frame_alloc s = (a, s')"
    then show "frame_ok s'" using frame_alloc_below_spec [OF ok] by (simp add: frame_alloc_def)
    assume "a \<noteq> 0"
    then show "page_aligned a \<and> \<not> a < RESERVED_LOW_END \<and> frame_refs s a = 0 \<and>
        frame_refs s' = (frame_refs s)(a := 1)"
      using frame_alloc_below_spec [OF ok al [unfolded frame_alloc_def]] by auto
  }
  show "frame_refs s' = frame_refs s" if "frame_alloc s = (0, s')"
    using frame_alloc_below_spec [OF ok that [unfolded frame_alloc_def]] by simp
  show "0 < frame_refs s a \<and> frame_refs s' = (frame_refs s)(a := Suc (frame_refs s a))"
    if "frame_retain a s = (True, s')"
    using that by (rule_tac frame_retain_cases [OF ok, of a]) auto
  show "s' = s" if "frame_retain a s = (False, s')"
    using that by (rule_tac frame_retain_cases [OF ok, of a]) auto
  show "0 < frame_refs s a \<and> frame_refs s' = (frame_refs s)(a := frame_refs s a - 1)"
    if "frame_release a s = (True, s')"
    using that by (rule_tac frame_release_cases [OF ok, of a]) auto
  show "s' = s \<and> (frame_refs s a = 0 \<or> a < RESERVED_LOW_END \<and> frame_refs s a = 1)"
    if "frame_release a s = (False, s')"
    using that by (rule_tac frame_release_cases [OF ok, of a]) auto
  fix r
  show "frame_ok s'" if "frame_retain a s = (r, s')"
    using that ok by (rule_tac frame_retain_cases [OF ok, of a]) auto
  show "frame_ok s'" if "frame_release a s = (r, s')"
    using that ok by (rule_tac frame_release_cases [OF ok, of a]) auto
qed

section \<open>Runs of the allocator\<close>

text \<open>Every call the rest of the kernel can make on the allocator, as one step.\<close>

inductive frame_step :: "frame_state \<Rightarrow> frame_state \<Rightarrow> bool" where
  step_alloc: "frame_alloc s = (a, s') \<Longrightarrow> frame_step s s'"
| step_alloc_below: "frame_alloc_below limit s = (a, s') \<Longrightarrow> frame_step s s'"
| step_retain: "frame_retain a s = (r, s') \<Longrightarrow> frame_step s s'"
| step_release: "frame_release a s = (r, s') \<Longrightarrow> frame_step s s'"
| step_free: "frame_step s (frame_free a s)"
| step_reserve: "frame_reserve_range a b s = (r, s') \<Longrightarrow> frame_step s s'"
| step_fail_after: "frame_step s (frame_test_fail_after n s)"

lemma frame_initialized_mark_allocated [simp]:
  "frame_initialized (mark_allocated a b s) = frame_initialized s"
  unfolding mark_allocated_def Let_def
  by (rule for_loop_same) (simp add: mark_allocated_step_def Let_def bitmap_set_def)

lemma frame_reserve_range_ok:
  "frame_ok s \<Longrightarrow> frame_reserve_range a b s = (r, s') \<Longrightarrow> frame_ok s'"
  by (auto simp: frame_reserve_range_def Let_def frame_ok_def mark_allocated_inv
      low_reserved_mark_allocated split: if_splits)

lemma frame_step_ok: "frame_step s s' \<Longrightarrow> frame_ok s \<Longrightarrow> frame_ok s'"
proof (induction rule: frame_step.induct)
  case (step_free s a)
  then show ?case
    using frames.release_inv [of s a] by (cases "frame_release a s") (simp add: frame_free_def)
qed (auto dest: frames.alloc_inv frames.retain_inv frames.release_inv frame_alloc_below_spec
    frame_reserve_range_ok simp: frame_test_fail_after_def)

lemma frame_steps_ok: "frame_step\<^sup>*\<^sup>* s s' \<Longrightarrow> frame_ok s \<Longrightarrow> frame_ok s'"
  by (induction rule: rtranclp_induct) (auto dest: frame_step_ok)

lemma frame_init_frame_ok: "frame_ok (frame_init e mi kernel_end s)"
  using frame_init_inv [of e mi kernel_end s] by (simp add: frame_ok_def frame_init_def Let_def)

lemma frame_release_low:
  assumes "frame_ok s" and "a < RESERVED_LOW_END" and "frame_refs s a = 1"
  shows "frame_release a s = (False, s)"
proof (cases "frame_release a s")
  case (Pair r s')
  have "frame_ok s'" using frames.release_inv [OF assms(1) Pair] .
  moreover have "page_aligned a \<and> unat a div 4096 < unat (total_frames s)"
    using assms(3) frame_refs_eq [OF assms(1), of a] by (simp split: if_splits)
  ultimately show ?thesis
    using assms Pair frame_refs_eq [OF assms(1), of a]
    by (auto simp: frame_release_def Let_def unat_div_page unat_u16_le_1 unat_u16_eq_1
        split: if_splits)
qed

lemma frame_last_release_frees:
  assumes "frame_ok s" and "frame_refs s a = 1" and "frame_release a s = (True, s1)"
  shows "\<not> frame_is_allocated a s1"
proof -
  have "frame_ok s1" "frame_refs s1 a = 0"
    using frames.release_inv [OF assms(1,3)] frames.release_true [OF assms(1,3)] assms(2) by auto
  moreover have al: "page_aligned a \<and> unat a div 4096 < unat (total_frames s)"
    using assms(2) frame_refs_eq [OF assms(1), of a] by (simp split: if_splits)
  moreover have "total_frames s1 = total_frames s"
    using assms(3) by (auto simp: frame_release_def Let_def bitmap_clear_def split: if_splits)
  ultimately show ?thesis
    using frame_inv_count [of s1 "unat a div 4096"] frame_refs_eq [of s1 a]
    by (auto simp: frame_is_allocated_def Let_def unat_div_page frame_ok_def unat_eq_0)
qed

text \<open>A three-frame machine state, with frames 768 and 770 in use, for concrete runs.\<close>

definition frame_demo :: frame_state where
  "frame_demo = \<lparr>frame_bitmap = (\<lambda>i. if i < 96 then 0xFF else 5),
     frame_refcounts = (\<lambda>i. if i < 768 then 1 else if i = 768 \<or> i = 770 then 1 else 0),
     total_frames = 771, used_frames = 770, frame_initialized = True, frame_fail_after = -1\<rparr>"

lemma frame_demo_bits: "f < 771 \<Longrightarrow> bitmap_test frame_demo f \<longleftrightarrow> f \<noteq> 769"
proof -
  assume f: "f < 771"
  show ?thesis
  proof (cases "f < 768")
    case True
    then have "f div 8 < 96" by simp
    then show ?thesis using True by (simp add: bitmap_test_def frame_demo_def bit_test_all_ones)
  next
    case False
    then consider "f = 768" | "f = 769" | "f = 770" using f by fastforce
    then show ?thesis by cases (simp_all add: bitmap_test_def frame_demo_def bit_test_def)
  qed
qed

lemma frame_demo_ok: "frame_ok frame_demo"
proof -
  have n: "unat (total_frames frame_demo) = 771" by (simp add: frame_demo_def)
  have "allocated frame_demo = {..<771} - {769}"
    using n frame_demo_bits by (auto simp: allocated_def)
  moreover have "bitmap_test frame_demo f \<longleftrightarrow> frame_refcounts frame_demo f \<noteq> 0" if "f < 771" for f
    using frame_demo_bits [OF that] that by (auto simp: frame_demo_def)
  ultimately show ?thesis
    using n by (auto simp: frame_ok_def frame_inv_def low_reserved_def frame_demo_def)
qed

section \<open>Properties\<close>

text \<open>C25: Whatever the memory map handed over by the boot loader, after frame_init every state
  the kernel can reach through the allocator's operations, in any order, has a bitmap that
  agrees with the reference counts, an exact count of the frames in use, and no free frame
  below 3 MiB.\<close>

theorem frame_runs_ok:
  assumes "frame_step\<^sup>*\<^sup>* (frame_init e mi kernel_end s0) s"
  shows "frame_ok s \<and> unat (used_frames s) = card (allocated s) \<and>
    (\<forall>f < unat (total_frames s). frame_get_refcount (of_nat f * FRAME_SIZE) s = 0 \<longleftrightarrow>
       \<not> frame_is_allocated (of_nat f * FRAME_SIZE) s)"
proof -
  have ok: "frame_ok s" using frame_steps_ok [OF assms frame_init_frame_ok] .
  then have inv: "frame_inv s" "frame_initialized s" by (simp_all add: frame_ok_def)
  have "frame_get_refcount (of_nat f * FRAME_SIZE) s = 0 \<longleftrightarrow>
      \<not> frame_is_allocated (of_nat f * FRAME_SIZE) s" if f: "f < unat (total_frames s)" for f
  proof -
    have "f \<le> 131072" using f inv by (simp add: frame_inv_def)
    note addr = unat_frame_addr [OF this]
    then have "frame_refs s (of_nat f * FRAME_SIZE) = unat (frame_refcounts s f)"
      using f by (simp add: frame_refs_eq [OF ok] page_aligned_iff)
    then show ?thesis
      using frame_inv_count [OF inv(1) f] addr f inv(2)
      by (auto simp: frame_refs_def frame_is_allocated_def Let_def unat_div_page
          simp flip: unat_eq_0)
  qed
  then show ?thesis using ok inv by (simp add: frame_inv_def)
qed

definition e820_no_map :: e820_state where
  "e820_no_map = \<lparr>map_count = 0,
     map_entries = (\<lambda>_. \<lparr>e_base = 0, e_length = 0, e_type = 0, e_attributes = 0\<rparr>),
     e820_initialized = True, e820_available = False\<rparr>"

theorem frame_runs_ok_witness:
  "frame_ok (snd (frame_alloc (frame_init e820_no_map
     \<lparr>total_memory_kb = 65536, detected_from_hardware = True\<rparr> 0x20000 frame_demo)))"
  using frame_runs_ok r_into_rtranclp [where r = frame_step, OF step_alloc [OF surjective_pairing]]
  by blast

text \<open>In the default build (no injected failures) frame_alloc returns the lowest free frame
  at or above 3 MiB, page aligned and with no other reference, and only that frame changes: its
  count goes from 0 to 1. It returns 0, and changes no count, exactly when every frame from
  3 MiB up is taken.\<close>

lemma frame_alloc_lowest:
  assumes "frame_ok s" and "frame_fail_after s = -1" and "frame_alloc s = (a, s')"
  shows "frame_ok s' \<and>
    (case first_index (\<lambda>f. frame_refcounts s f = 0) 768 (unat (total_frames s)) of
       None \<Rightarrow> a = 0 \<and> frame_refs s' = frame_refs s
     | Some f \<Rightarrow> a = of_nat f * FRAME_SIZE \<and> page_aligned a \<and> RESERVED_LOW_END \<le> a \<and>
         frame_refs s a = 0 \<and> frame_refs s' = (frame_refs s)(a := 1))"
proof -
  let ?n = "unat (total_frames s)"
  have n: "?n \<le> 131072" and inv: "frame_inv s" and init: "frame_initialized s"
    using assms(1) by (simp_all add: frame_ok_def frame_inv_def)
  have al: "frame_alloc_below (total_frames s * FRAME_SIZE) s = (a, s')"
    using assms(3) by (simp add: frame_alloc_def)
  have bound: "frame_bound s (total_frames s * FRAME_SIZE) = ?n"
    using unat_frame_addr [OF n] by (simp add: frame_bound_def)
  note spec = frame_alloc_below_spec [OF assms(1) al]
  have free: "frame_refcounts s f = 0 \<longleftrightarrow> \<not> bitmap_test s f" if "f < ?n" for f
    using frame_inv_count [OF inv that] by simp
  from assms(2) have "frame_fail_after s \<noteq> 0" by simp
  with init show ?thesis
  proof (cases rule: frame_alloc_below_cases [where limit = "total_frames s * FRAME_SIZE"])
    case (found frame s1)
    then have "first_index (\<lambda>f. frame_refcounts s f = 0) 768 ?n = Some frame"
      using free by (auto simp: first_index_Some_iff bound)
    moreover have "frame < 131072" using found(4) n bound by simp
    ultimately show ?thesis
      using spec found(1) al frame_addr_facts [OF found(3)] by auto
  next
    case (full s1)
    then have "first_index (\<lambda>f. frame_refcounts s f = 0) 768 ?n = None"
      using free by (auto simp: first_index_None_iff bound)
    then show ?thesis using spec full(1) al by auto
  qed
qed

lemma frame_demo_alloc: "frame_alloc frame_demo = (0x301000, frame_take 769 frame_demo)"
proof -
  have fields: "frame_initialized frame_demo" "frame_fail_after frame_demo = -1"
    "total_frames frame_demo = 771"
    by (simp_all add: frame_demo_def)
  have "first_index (\<lambda>f. \<not> bitmap_test frame_demo f) 768 771 = Some 769"
    by (simp add: first_index_step frame_demo_bits)
  then show ?thesis
    by (simp add: frame_alloc_def frame_alloc_below_def Let_def fields RESERVED_LOW_END_def
        FRAME_SIZE_def)
qed

text \<open>C26: Sharing a frame and giving the share back leaves every reference count as it was; a
  frame goes back to the free pool only at its last release, after which a further release is
  refused and changes nothing; and a frame below 3 MiB never loses its last reference.\<close>

theorem frame_sharing:
  assumes "frame_ok s"
  shows "(\<forall>s1. frame_retain a s = (True, s1) \<longrightarrow>
        (\<exists>s2. frame_release a s1 = (True, s2) \<and> frame_ok s2 \<and> frame_refs s2 = frame_refs s)) \<and>
    (\<forall>s1. frame_refs s a = 1 \<and> frame_release a s = (True, s1) \<longrightarrow>
        \<not> frame_is_allocated a s1 \<and> frame_release a s1 = (False, s1)) \<and>
    (a < RESERVED_LOW_END \<and> frame_refs s a = 1 \<longrightarrow> frame_release a s = (False, s))"
  using frames.retain_release_cancel [OF assms] frames.release_twice_refused [OF assms]
    frame_last_release_frees [OF assms] frame_release_low [OF assms]
  by blast

theorem frame_sharing_witness:
  "frame_release 0x1000 frame_demo = (False, frame_demo) \<and>
   \<not> frame_is_allocated 0x300000 (snd (frame_release 0x300000 frame_demo))"
proof -
  have "frame_refs frame_demo 0x1000 = 1" "frame_refs frame_demo 0x300000 = 1"
    by (simp_all add: frame_refs_eq [OF frame_demo_ok] page_aligned_iff) (simp_all add: frame_demo_def)
  moreover have "fst (frame_release 0x300000 frame_demo)"
    by (simp add: frame_release_def Let_def FRAME_SIZE_def RESERVED_LOW_END_def frame_demo_bits)
      (simp add: frame_demo_def)
  ultimately show ?thesis
    using frame_sharing [OF frame_demo_ok, of "0x1000"] frame_sharing [OF frame_demo_ok, of "0x300000"]
    by (cases "frame_release 0x300000 frame_demo") (auto simp: RESERVED_LOW_END_def)
qed

end
