(* ===== verification/Paging.thy ===== *)
theory Paging
  imports Frame
begin

text \<open>
  Paging, \<^verbatim>\<open>src/kernel/paging.c\<close>. Physical memory is a function from the base address of a page
  and the index of a 32-bit word in it to the word: page directories and page tables are pages, and
  \<^verbatim>\<open>table[i]\<close> for a table at a page-aligned address is the word \<open>i\<close> of that page. The kernel reaches
  directories and tables through the identity mapping of the first 4 MiB, which every address space
  has, and copies frames through two pages of a scratch table; both are accesses to physical memory
  here. The translation lookaside buffer is not modelled: an \<^verbatim>\<open>invlpg\<close> has no effect on the model.
  The flag \<open>mmu_fault\<close> records that the kernel touched a virtual address that is not mapped (or not
  writable), which halts the machine; see \<open>Virtual_Memory\<close>.
\<close>

section \<open>Constants and page table entries\<close>

definition PAGE_SIZE :: u32 where "PAGE_SIZE = 4096"
definition PAGES_PER_TABLE :: nat where "PAGES_PER_TABLE = 1024"
definition TABLES_PER_DIR :: nat where "TABLES_PER_DIR = 1024"
definition PAGE_DIRECTORY_PHYSICAL :: u32 where "PAGE_DIRECTORY_PHYSICAL = 0x00100000"
definition FIRST_PAGE_TABLE_PHYSICAL :: u32 where "FIRST_PAGE_TABLE_PHYSICAL = 0x00101000"
definition IDENTITY_MAPPED_LIMIT :: u32 where "IDENTITY_MAPPED_LIMIT = 0x00400000"
definition SCRATCH_DIRECTORY_INDEX :: nat where "SCRATCH_DIRECTORY_INDEX = 1023"

definition PAGE_PRESENT :: u32 where "PAGE_PRESENT = 0x01"
definition PAGE_WRITABLE :: u32 where "PAGE_WRITABLE = 0x02"
definition PAGE_USER :: u32 where "PAGE_USER = 0x04"
definition PAGE_COW :: u32 where "PAGE_COW = 0x200"

lemmas page_flags = PAGE_PRESENT_def PAGE_WRITABLE_def PAGE_USER_def PAGE_COW_def

definition page_base :: "u32 \<Rightarrow> u32" where
  "page_base e = e AND 0xFFFFF000"

definition dir_index :: "u32 \<Rightarrow> nat" where
  "dir_index virtual_addr = unat (drop_bit 22 virtual_addr AND 0x3FF)"

definition table_index :: "u32 \<Rightarrow> nat" where
  "table_index virtual_addr = unat (drop_bit 12 virtual_addr AND 0x3FF)"

text \<open>The flags of a mapping that belongs to a process.\<close>

definition user_page :: "u32 \<Rightarrow> bool" where
  "user_page e \<longleftrightarrow> e AND (PAGE_PRESENT OR PAGE_USER) = PAGE_PRESENT OR PAGE_USER"

section \<open>State\<close>

record mmu =
  phys :: "u32 \<Rightarrow> nat \<Rightarrow> u32"
  mmu_frames :: frame_state
  active_page_directory :: u32
  kernel_scratch_table :: u32
  paging_on :: bool
  mmu_fault :: bool

definition put_word :: "u32 \<Rightarrow> nat \<Rightarrow> u32 \<Rightarrow> mmu \<Rightarrow> mmu" where
  "put_word page i w m = m\<lparr>phys := (phys m)(page := (phys m page)(i := w))\<rparr>"

definition mmu_release :: "u32 \<Rightarrow> mmu \<Rightarrow> mmu" where
  "mmu_release a m = m\<lparr>mmu_frames := snd (frame_release a (mmu_frames m))\<rparr>"

definition mmu_free :: "u32 \<Rightarrow> mmu \<Rightarrow> mmu" where
  "mmu_free a m = m\<lparr>mmu_frames := frame_free a (mmu_frames m)\<rparr>"

definition mmu_alloc :: "mmu \<Rightarrow> u32 \<times> mmu" where
  "mmu_alloc m = (let (a, fr) = frame_alloc (mmu_frames m) in (a, m\<lparr>mmu_frames := fr\<rparr>))"

definition mmu_retain :: "u32 \<Rightarrow> mmu \<Rightarrow> bool \<times> mmu" where
  "mmu_retain a m = (let (ok, fr) = frame_retain a (mmu_frames m) in (ok, m\<lparr>mmu_frames := fr\<rparr>))"

text \<open>Loops that stop at the first failing step.\<close>

fun try_all :: "(nat \<Rightarrow> 's \<Rightarrow> bool \<times> 's) \<Rightarrow> nat list \<Rightarrow> 's \<Rightarrow> bool \<times> 's" where
  "try_all f [] s = (True, s)"
| "try_all f (i # is) s = (let (ok, s) = f i s in if ok then try_all f is s else (False, s))"

section \<open>Page tables and frames\<close>

definition paging_alloc_frame :: "mmu \<Rightarrow> u32 \<times> mmu" where
  "paging_alloc_frame m =
     (let (a, fr) = frame_alloc_below IDENTITY_MAPPED_LIMIT (mmu_frames m) in (a, m\<lparr>mmu_frames := fr\<rparr>))"

definition allocator_alloc_page_table :: "mmu \<Rightarrow> u32 \<times> mmu" where
  "allocator_alloc_page_table m =
     (let (physical, m) = paging_alloc_frame m in
      if physical = 0 then (0, m)
      else (physical, for_loop 0 1024 (\<lambda>i. put_word physical i 0x02) m))"

definition copy_physical_page :: "u32 \<Rightarrow> u32 \<Rightarrow> mmu \<Rightarrow> bool \<times> mmu" where
  "copy_physical_page source destination m =
     (if kernel_scratch_table m = 0 \<or> source AND (PAGE_SIZE - 1) \<noteq> 0 \<or> destination AND (PAGE_SIZE - 1) \<noteq> 0
      then (False, m)
      else
        let scratch = kernel_scratch_table m;
            m = put_word scratch 0 (source OR PAGE_PRESENT OR PAGE_WRITABLE) m;
            m = put_word scratch 1 (destination OR PAGE_PRESENT OR PAGE_WRITABLE) m;
            from = page_base (phys m scratch 0); to = page_base (phys m scratch 1);
            m = for_loop 0 1024 (\<lambda>i m. put_word to i (phys m from i) m) m;
            m = put_word scratch 0 PAGE_WRITABLE m;
            m = put_word scratch 1 PAGE_WRITABLE m
        in (True, m))"

definition identity_table :: "u32 \<Rightarrow> mmu \<Rightarrow> mmu" where
  "identity_table table = for_loop 0 1024
     (\<lambda>i. put_word table i (of_nat i * PAGE_SIZE OR PAGE_PRESENT OR PAGE_WRITABLE))"

definition paging_init :: "mmu \<Rightarrow> mmu" where
  "paging_init m =
     (let m = for_loop 0 1024 (\<lambda>i. put_word PAGE_DIRECTORY_PHYSICAL i 0x02) m;
          m = identity_table FIRST_PAGE_TABLE_PHYSICAL m;
          m = put_word PAGE_DIRECTORY_PHYSICAL 0 (FIRST_PAGE_TABLE_PHYSICAL OR PAGE_PRESENT OR PAGE_WRITABLE) m;
          (scratch, m) = allocator_alloc_page_table m;
          m = m\<lparr>kernel_scratch_table := scratch\<rparr>;
          m = (if scratch \<noteq> 0
               then put_word PAGE_DIRECTORY_PHYSICAL SCRATCH_DIRECTORY_INDEX
                      (scratch OR PAGE_PRESENT OR PAGE_WRITABLE) m
               else m)
      in m\<lparr>active_page_directory := PAGE_DIRECTORY_PHYSICAL, paging_on := True\<rparr>)"

section \<open>Mappings\<close>

definition paging_map_page_in_directory :: "u32 \<Rightarrow> u32 \<Rightarrow> u32 \<Rightarrow> u32 \<Rightarrow> mmu \<Rightarrow> bool \<times> mmu" where
  "paging_map_page_in_directory cr3 virtual_addr physical_addr flags m =
     (let directory = page_base cr3; d = dir_index virtual_addr; t = table_index virtual_addr in
      if cr3 = 0 \<or> physical_addr AND (PAGE_SIZE - 1) \<noteq> 0 then (False, m)
      else
        let (ok, m) =
              (if phys m directory d AND PAGE_PRESENT = 0 then
                 let (page_table, m) = allocator_alloc_page_table m in
                 if page_table = 0 then (False, m)
                 else (True, put_word directory d
                         (page_table OR PAGE_PRESENT OR PAGE_WRITABLE OR (flags AND PAGE_USER)) m)
               else if flags AND PAGE_USER \<noteq> 0
               then (True, put_word directory d (phys m directory d OR PAGE_USER) m)
               else (True, m))
        in if \<not> ok then (False, m)
           else
             let page_table = page_base (phys m directory d)
             in (True, put_word page_table t (page_base physical_addr OR (flags AND 0xFFF) OR PAGE_PRESENT) m))"

definition paging_map_page :: "u32 \<Rightarrow> u32 \<Rightarrow> u32 \<Rightarrow> mmu \<Rightarrow> mmu" where
  "paging_map_page virtual_addr physical_addr flags m =
     snd (paging_map_page_in_directory (active_page_directory m) virtual_addr physical_addr flags m)"

definition paging_unmap_page_in_directory :: "u32 \<Rightarrow> u32 \<Rightarrow> mmu \<Rightarrow> u32 \<times> mmu" where
  "paging_unmap_page_in_directory cr3 virtual_addr m =
     (let directory = page_base cr3; d = dir_index virtual_addr; t = table_index virtual_addr in
      if cr3 = 0 \<or> phys m directory d AND PAGE_PRESENT = 0 then (0, m)
      else
        let page_table = page_base (phys m directory d); old_entry = phys m page_table t
        in (page_base old_entry, put_word page_table t PAGE_WRITABLE m))"

definition paging_unmap_page :: "u32 \<Rightarrow> mmu \<Rightarrow> mmu" where
  "paging_unmap_page virtual_addr m =
     snd (paging_unmap_page_in_directory (active_page_directory m) virtual_addr m)"

definition paging_is_mapped :: "u32 \<Rightarrow> mmu \<Rightarrow> bool" where
  "paging_is_mapped virtual_addr m \<longleftrightarrow>
     (let e = phys m (active_page_directory m) (dir_index virtual_addr) in
      if e AND PAGE_PRESENT = 0 then False
      else phys m (page_base e) (table_index virtual_addr) AND PAGE_PRESENT \<noteq> 0)"

definition paging_is_user_accessible :: "u32 \<Rightarrow> mmu \<Rightarrow> bool" where
  "paging_is_user_accessible virtual_addr m \<longleftrightarrow>
     (let e = phys m (active_page_directory m) (dir_index virtual_addr); need = PAGE_PRESENT OR PAGE_USER in
      if e AND need \<noteq> need then False
      else phys m (page_base e) (table_index virtual_addr) AND need = need)"

definition paging_is_user_writable :: "u32 \<Rightarrow> mmu \<Rightarrow> bool" where
  "paging_is_user_writable virtual_addr m \<longleftrightarrow>
     (let e = phys m (active_page_directory m) (dir_index virtual_addr);
          need = PAGE_PRESENT OR PAGE_USER OR PAGE_WRITABLE in
      if e AND need \<noteq> need then False
      else phys m (page_base e) (table_index virtual_addr) AND need = need)"

definition paging_get_physical_address_in_directory :: "u32 \<Rightarrow> u32 \<Rightarrow> mmu \<Rightarrow> u32" where
  "paging_get_physical_address_in_directory cr3 virtual_addr m =
     (let e = phys m (page_base cr3) (dir_index virtual_addr) in
      if cr3 = 0 \<or> e AND PAGE_PRESENT = 0 then 0
      else
        let p = phys m (page_base e) (table_index virtual_addr) in
        if p AND PAGE_PRESENT = 0 then 0
        else page_base p OR (virtual_addr AND 0xFFF))"

definition paging_get_page_flags_in_directory :: "u32 \<Rightarrow> u32 \<Rightarrow> mmu \<Rightarrow> u32" where
  "paging_get_page_flags_in_directory cr3 virtual_addr m =
     (let e = phys m (page_base cr3) (dir_index virtual_addr) in
      if cr3 = 0 \<or> e AND PAGE_PRESENT = 0 then 0
      else phys m (page_base e) (table_index virtual_addr) AND 0xFFF)"

definition paging_set_page_flags_in_directory :: "u32 \<Rightarrow> u32 \<Rightarrow> u32 \<Rightarrow> mmu \<Rightarrow> bool \<times> mmu" where
  "paging_set_page_flags_in_directory cr3 virtual_addr flags m =
     (let directory = page_base cr3; d = dir_index virtual_addr; t = table_index virtual_addr in
      if cr3 = 0 \<or> phys m directory d AND PAGE_PRESENT = 0 then (False, m)
      else
        let table = page_base (phys m directory d) in
        if phys m table t AND PAGE_PRESENT = 0 then (False, m)
        else
          let physical = page_base (phys m table t);
              m = put_word table t (physical OR (flags AND 0xFFF) OR PAGE_PRESENT) m;
              m = (if flags AND PAGE_USER \<noteq> 0
                   then put_word directory d (phys m directory d OR PAGE_USER) m else m)
          in (True, m))"

definition paging_get_physical_address :: "u32 \<Rightarrow> mmu \<Rightarrow> u32" where
  "paging_get_physical_address virtual_addr m =
     paging_get_physical_address_in_directory (active_page_directory m) virtual_addr m"

definition paging_get_current_directory :: "mmu \<Rightarrow> u32" where
  "paging_get_current_directory m = active_page_directory m"

definition paging_switch_directory :: "u32 \<Rightarrow> mmu \<Rightarrow> mmu" where
  "paging_switch_directory cr3 m =
     (if cr3 = 0 then m else m\<lparr>active_page_directory := page_base cr3\<rparr>)"

section \<open>Address spaces\<close>

definition share_supervisor :: "u32 \<Rightarrow> nat \<Rightarrow> mmu \<Rightarrow> mmu" where
  "share_supervisor directory i m =
     (let e = phys m (active_page_directory m) i in
      if e AND PAGE_PRESENT \<noteq> 0 \<and> e AND PAGE_USER = 0
      then put_word directory i (e AND NOT PAGE_USER) m else m)"

definition paging_create_address_space :: "mmu \<Rightarrow> u32 \<times> mmu" where
  "paging_create_address_space m =
     (let (directory, m) = allocator_alloc_page_table m in
      if directory = 0 then (0, m)
      else
        let (low_table, m) = allocator_alloc_page_table m in
        if low_table = 0 then (0, mmu_free directory m)
        else
          let m = identity_table low_table m;
              m = put_word directory 0 (low_table OR PAGE_PRESENT OR PAGE_WRITABLE) m;
              m = for_loop 1 1024 (share_supervisor directory) m
          in (directory, m))"

definition destroy_page :: "u32 \<Rightarrow> nat \<Rightarrow> mmu \<Rightarrow> mmu" where
  "destroy_page table j m =
     (let e = phys m table j in
      if user_page e then put_word table j 0x02 (mmu_free (page_base e) m) else m)"

definition destroy_table :: "u32 \<Rightarrow> nat \<Rightarrow> mmu \<Rightarrow> mmu" where
  "destroy_table directory i m =
     (let e = phys m directory i in
      if e AND PAGE_PRESENT = 0 then m
      else
        let table = page_base e in
        if table = FIRST_PAGE_TABLE_PHYSICAL \<or> i \<noteq> 0 \<and> e AND PAGE_USER = 0 then m
        else
          let m = for_loop 0 1024 (destroy_page table) m;
              m = mmu_free table m
          in put_word directory i 0x02 m)"

definition paging_destroy_address_space :: "u32 \<Rightarrow> mmu \<Rightarrow> mmu" where
  "paging_destroy_address_space cr3 m =
     (let directory = page_base cr3 in
      if cr3 = 0 \<or> directory = PAGE_DIRECTORY_PHYSICAL \<or> directory = active_page_directory m then m
      else mmu_free directory (for_loop 0 1024 (destroy_table directory) m))"

section \<open>Copy on write\<close>

definition private_table :: "nat \<Rightarrow> u32 \<Rightarrow> bool" where
  "private_table i e \<longleftrightarrow> \<not> (e AND PAGE_PRESENT = 0) \<and> \<not> (i \<noteq> 0 \<and> e AND PAGE_USER = 0)"

definition skeleton_table :: "u32 \<Rightarrow> nat \<Rightarrow> mmu \<Rightarrow> mmu" where
  "skeleton_table directory i m =
     (let e = phys m directory i in
      if \<not> private_table i e then m
      else put_word directory i PAGE_WRITABLE (mmu_release (page_base e) m))"

definition paging_destroy_clone_skeleton :: "u32 \<Rightarrow> mmu \<Rightarrow> mmu" where
  "paging_destroy_clone_skeleton directory m =
     (if directory = 0 then m
      else mmu_release directory (for_loop 0 TABLES_PER_DIR (skeleton_table directory) m))"

definition unref_page :: "u32 \<Rightarrow> nat \<Rightarrow> mmu \<Rightarrow> mmu" where
  "unref_page table j m =
     (let e = phys m table j in
      if user_page e then put_word table j PAGE_WRITABLE (mmu_release (page_base e) m) else m)"

definition unref_table :: "u32 \<Rightarrow> nat \<Rightarrow> mmu \<Rightarrow> mmu" where
  "unref_table directory i m =
     (let e = phys m directory i in
      if \<not> private_table i e then m
      else
        let table = page_base e;
            m = for_loop 0 PAGES_PER_TABLE (unref_page table) m;
            m = mmu_release table m
        in put_word directory i PAGE_WRITABLE m)"

definition paging_destroy_clone_with_refs :: "u32 \<Rightarrow> mmu \<Rightarrow> mmu" where
  "paging_destroy_clone_with_refs directory m =
     (if directory = 0 then m
      else mmu_release directory (for_loop 0 TABLES_PER_DIR (unref_table directory) m))"

text \<open>Phase 1: the step for one directory entry allocates the table of the child and checks that
  every frame the source table maps for the user can be shared once more.\<close>

definition shareable :: "mmu \<Rightarrow> u32 \<Rightarrow> bool" where
  "shareable m e \<longleftrightarrow>
     (user_page e \<longrightarrow>
       (let refs = frame_get_refcount (page_base e) (mmu_frames m) in \<not> (refs = 0 \<or> refs = 0xFFFF)))"

definition clone_table :: "u32 \<Rightarrow> u32 \<Rightarrow> nat \<Rightarrow> mmu \<Rightarrow> bool \<times> mmu" where
  "clone_table src_dir new_dir i m =
     (let e = phys m src_dir i in
      if e AND PAGE_PRESENT = 0 then (True, m)
      else if i \<noteq> 0 \<and> e AND PAGE_USER = 0 then (True, put_word new_dir i e m)
      else
        let src_table = page_base e; (new_table, m) = allocator_alloc_page_table m in
        if new_table = 0 then (False, m)
        else
          let m = put_word new_dir i (page_base new_table OR (phys m src_dir i AND 0xFFF)) m
          in (\<forall>j \<in> set [0..<PAGES_PER_TABLE]. shareable m (phys m src_table j), m))"

text \<open>Phase 2a: retain the shared frames and copy the entries. Phase 2b: make the writable user
  entries of both tables read-only copy-on-write entries.\<close>

definition retain_page :: "u32 \<Rightarrow> u32 \<Rightarrow> nat \<Rightarrow> mmu \<Rightarrow> bool \<times> mmu" where
  "retain_page src_table new_table j m =
     (let e = phys m src_table j in
      if e AND PAGE_PRESENT = 0 then (True, m)
      else if e AND PAGE_USER = 0 then (True, put_word new_table j e m)
      else
        let (ok, m) = mmu_retain (page_base e) m in
        if \<not> ok then (False, m) else (True, put_word new_table j (phys m src_table j) m))"

definition retain_table :: "u32 \<Rightarrow> u32 \<Rightarrow> nat \<Rightarrow> mmu \<Rightarrow> bool \<times> mmu" where
  "retain_table src_dir new_dir i m =
     (if \<not> private_table i (phys m new_dir i) then (True, m)
      else try_all (retain_page (page_base (phys m src_dir i)) (page_base (phys m new_dir i)))
             [0..<PAGES_PER_TABLE] m)"

definition commit_page :: "u32 \<Rightarrow> u32 \<Rightarrow> nat \<Rightarrow> mmu \<Rightarrow> mmu" where
  "commit_page src_table new_table j m =
     (let entry = phys m src_table j in
      if \<not> user_page entry then m
      else if entry AND (PAGE_WRITABLE OR PAGE_COW) \<noteq> 0 then
        let entry = (entry AND NOT PAGE_WRITABLE) OR PAGE_COW
        in put_word new_table j entry (put_word src_table j entry m)
      else m)"

definition commit_table :: "u32 \<Rightarrow> u32 \<Rightarrow> nat \<Rightarrow> mmu \<Rightarrow> mmu" where
  "commit_table src_dir new_dir i m =
     (if \<not> private_table i (phys m new_dir i) then m
      else for_loop 0 PAGES_PER_TABLE
             (commit_page (page_base (phys m src_dir i)) (page_base (phys m new_dir i))) m)"

definition paging_clone_directory :: "u32 \<Rightarrow> mmu \<Rightarrow> u32 \<times> mmu" where
  "paging_clone_directory src_cr3 m =
     (let src_dir = page_base src_cr3 in
      if src_cr3 = 0 \<or> kernel_scratch_table m = 0 then (0, m)
      else
        let (new_dir, m) = allocator_alloc_page_table m in
        if new_dir = 0 then (0, m)
        else
          let (ok, m) = try_all (clone_table src_dir new_dir) [0..<TABLES_PER_DIR] m in
          if \<not> ok then (0, paging_destroy_clone_skeleton new_dir m)
          else
            let (ok, m) = try_all (retain_table src_dir new_dir) [0..<TABLES_PER_DIR] m in
            if \<not> ok then (0, paging_destroy_clone_with_refs new_dir m)
            else (new_dir, for_loop 0 TABLES_PER_DIR (commit_table src_dir new_dir) m))"

definition paging_resolve_cow_fault :: "u32 \<Rightarrow> u32 \<Rightarrow> mmu \<Rightarrow> bool \<times> mmu" where
  "paging_resolve_cow_fault cr3 virtual_addr m =
     (let directory = page_base cr3; d = dir_index virtual_addr; t = table_index virtual_addr in
      if cr3 = 0 \<or> phys m directory d AND PAGE_PRESENT = 0 then (False, m)
      else
        let table = page_base (phys m directory d); entry = phys m table t;
            need = PAGE_PRESENT OR PAGE_USER OR PAGE_COW in
        if entry AND need \<noteq> need \<or> entry AND PAGE_WRITABLE \<noteq> 0 then (False, m)
        else
          let old_phys = page_base entry; refs = frame_get_refcount old_phys (mmu_frames m) in
          if refs = 0 then (False, m)
          else if refs = 1 then (True, put_word table t ((entry OR PAGE_WRITABLE) AND NOT PAGE_COW) m)
          else
            let (new_phys, m) = mmu_alloc m in
            if new_phys = 0 then (False, m)
            else
              let (ok, m) = copy_physical_page old_phys new_phys m in
              if \<not> ok then (False, mmu_release new_phys m)
              else
                let m = put_word table t
                          (new_phys OR (((entry AND 0xFFF) OR PAGE_WRITABLE) AND NOT PAGE_COW)) m
                in (True, mmu_release old_phys m))"

end
