(* ===== verification/Virtual_Memory.thy ===== *)
theory Virtual_Memory
  imports Paging
begin

text \<open>
  Byte accesses of the kernel to virtual addresses of the active page directory: the \<^verbatim>\<open>memset\<close> and
  \<^verbatim>\<open>memcpy\<close> calls of \<^verbatim>\<open>vm.c\<close>, \<^verbatim>\<open>uaccess.c\<close>, \<^verbatim>\<open>elf.c\<close> and \<^verbatim>\<open>syscall.c\<close> on user memory. The
  processor walks the two levels of the directory; write protection applies to the kernel too
  (\<^verbatim>\<open>enable_paging\<close> sets the WP bit of \<^verbatim>\<open>cr0\<close>). An access that the walk refuses sets
  \<open>mmu_fault\<close>: it is a page fault in kernel mode, which halts the machine.
\<close>

section \<open>The page walk\<close>

definition walk_entry :: "u32 \<Rightarrow> u32 \<Rightarrow> mmu \<Rightarrow> u32 option" where
  "walk_entry directory virtual_addr m =
     (let e = phys m directory (dir_index virtual_addr) in
      if e AND PAGE_PRESENT = 0 then None
      else let p = phys m (page_base e) (table_index virtual_addr) in
           if p AND PAGE_PRESENT = 0 then None else Some p)"

definition readable_at :: "u32 \<Rightarrow> mmu \<Rightarrow> bool" where
  "readable_at virtual_addr m \<longleftrightarrow> walk_entry (active_page_directory m) virtual_addr m \<noteq> None"

definition writable_at :: "u32 \<Rightarrow> mmu \<Rightarrow> bool" where
  "writable_at virtual_addr m \<longleftrightarrow>
     phys m (active_page_directory m) (dir_index virtual_addr) AND PAGE_WRITABLE \<noteq> 0 \<and>
     (case walk_entry (active_page_directory m) virtual_addr m of
        None \<Rightarrow> False | Some p \<Rightarrow> p AND PAGE_WRITABLE \<noteq> 0)"

definition frame_at :: "u32 \<Rightarrow> mmu \<Rightarrow> u32" where
  "frame_at virtual_addr m =
     (case walk_entry (active_page_directory m) virtual_addr m of None \<Rightarrow> 0 | Some p \<Rightarrow> page_base p)"

section \<open>Bytes of words\<close>

definition byte_of :: "u32 \<Rightarrow> nat \<Rightarrow> u8" where
  "byte_of w k = ucast (drop_bit (8 * k) w)"

definition set_byte :: "u32 \<Rightarrow> nat \<Rightarrow> u8 \<Rightarrow> u32" where
  "set_byte w k b = (w AND NOT (push_bit (8 * k) 0xFF)) OR push_bit (8 * k) (ucast b)"

definition page_offset :: "u32 \<Rightarrow> nat" where
  "page_offset virtual_addr = unat (virtual_addr AND 0xFFF)"

section \<open>Loads and stores\<close>

definition load_byte :: "u32 \<Rightarrow> mmu \<Rightarrow> u8" where
  "load_byte virtual_addr m =
     (let off = page_offset virtual_addr
      in byte_of (phys m (frame_at virtual_addr m) (off div 4)) (off mod 4))"

definition store_byte :: "u32 \<Rightarrow> u8 \<Rightarrow> mmu \<Rightarrow> mmu" where
  "store_byte virtual_addr b m =
     (if writable_at virtual_addr m then
        let off = page_offset virtual_addr; page = frame_at virtual_addr m
        in put_word page (off div 4) (set_byte (phys m page (off div 4)) (off mod 4) b) m
      else m\<lparr>mmu_fault := True\<rparr>)"

fun store_bytes :: "u32 \<Rightarrow> u8 list \<Rightarrow> mmu \<Rightarrow> mmu" where
  "store_bytes virtual_addr [] m = m"
| "store_bytes virtual_addr (b # bs) m = store_bytes (virtual_addr + 1) bs (store_byte virtual_addr b m)"

text \<open>A read of \<open>n\<close> bytes: the values, and the state, which records a fault.\<close>

definition reader_at :: "u32 \<Rightarrow> mmu \<Rightarrow> nat \<Rightarrow> u8" where
  "reader_at virtual_addr m i = load_byte (virtual_addr + of_nat i) m"

definition touch_read :: "u32 \<Rightarrow> nat \<Rightarrow> mmu \<Rightarrow> mmu" where
  "touch_read virtual_addr n m =
     (if list_all (\<lambda>i. readable_at (virtual_addr + of_nat i) m) [0..<n] then m
      else m\<lparr>mmu_fault := True\<rparr>)"

definition load_bytes :: "u32 \<Rightarrow> nat \<Rightarrow> mmu \<Rightarrow> u8 list \<times> mmu" where
  "load_bytes virtual_addr n m =
     (map (reader_at virtual_addr m) [0..<n], touch_read virtual_addr n m)"

definition store_word :: "u32 \<Rightarrow> u32 \<Rightarrow> mmu \<Rightarrow> mmu" where
  "store_word virtual_addr w m = store_bytes virtual_addr (le32 w) m"

definition set_bytes :: "u32 \<Rightarrow> u8 \<Rightarrow> nat \<Rightarrow> mmu \<Rightarrow> mmu" where
  "set_bytes virtual_addr b n m = store_bytes virtual_addr (replicate n b) m"

end
