(* ===== verification/Descriptors.thy ===== *)
theory Descriptors
  imports Console
begin

text \<open>
  The descriptor tables of the processor: the global descriptor table (\<^verbatim>\<open>src/kernel/gdt.c\<close>), the
  interrupt descriptor table (\<^verbatim>\<open>src/kernel/idt.c\<close>) and the task state segment
  (\<^verbatim>\<open>src/kernel/tss.c\<close>). Loading the tables into the processor is not modelled; the accesses to the
  interrupt controllers are the lists of port writes; the addresses of the
  interrupt stubs and of the task state segment are arguments.
\<close>

section \<open>Global descriptor table\<close>

record gdt_entry =
  limit_low :: u16
  base_low :: u16
  base_middle :: u8
  gdt_access :: u8
  granularity :: u8
  base_high :: u8

definition zero_gdt_entry :: gdt_entry where
  "zero_gdt_entry = \<lparr>limit_low = 0, base_low = 0, base_middle = 0, gdt_access = 0, granularity = 0, base_high = 0\<rparr>"

definition gdt_set_gate :: "nat \<Rightarrow> u32 \<Rightarrow> u32 \<Rightarrow> u8 \<Rightarrow> u8 \<Rightarrow> gdt_entry list \<Rightarrow> gdt_entry list" where
  "gdt_set_gate num base limit access gran gdt = gdt[num :=
     \<lparr>limit_low = ucast (limit AND 0xFFFF), base_low = ucast (base AND 0xFFFF),
      base_middle = ucast (drop_bit 16 base AND 0xFF), gdt_access = access,
      granularity = ucast (drop_bit 16 limit AND 0x0F) OR (gran AND 0xF0),
      base_high = ucast (drop_bit 24 base AND 0xFF)\<rparr>]"

definition gdt_init :: "gdt_entry list \<Rightarrow> gdt_entry list" where
  "gdt_init gdt =
     (let gdt = gdt_set_gate 0 0 0 0 0 gdt;
          gdt = gdt_set_gate 1 0 0xFFFFFFFF 0x9A 0xCF gdt;
          gdt = gdt_set_gate 2 0 0xFFFFFFFF 0x92 0xCF gdt;
          gdt = gdt_set_gate 3 0 0xFFFFFFFF 0xFA 0xCF gdt;
          gdt = gdt_set_gate 4 0 0xFFFFFFFF 0xF2 0xCF gdt
      in gdt_set_gate 5 0 0 0 0 gdt)"

section \<open>Interrupt descriptor table\<close>

definition IDT_ENTRIES :: nat where "IDT_ENTRIES = 256"

record idt_entry =
  base_lo :: u16
  idt_sel :: u16
  always0 :: u8
  idt_flags :: u8
  base_hi :: u16

definition idt_set_gate :: "nat \<Rightarrow> u32 \<Rightarrow> u16 \<Rightarrow> u8 \<Rightarrow> idt_entry list \<Rightarrow> idt_entry list" where
  "idt_set_gate num base sel flags idt = idt[num :=
     \<lparr>base_lo = ucast (base AND 0xFFFF), idt_sel = sel, always0 = 0, idt_flags = flags,
      base_hi = ucast (drop_bit 16 base AND 0xFFFF)\<rparr>]"

definition idt_init :: "(nat \<Rightarrow> u32) \<Rightarrow> idt_entry list \<Rightarrow> idt_entry list" where
  "idt_init isr_stub idt =
     (let idt = for_loop 0 IDT_ENTRIES (\<lambda>i. idt_set_gate i 0 0 0) idt;
          idt = idt_set_gate 0 (isr_stub 0) 0x08 0x8E idt;
          idt = idt_set_gate 6 (isr_stub 6) 0x08 0x8E idt;
          idt = idt_set_gate 13 (isr_stub 13) 0x08 0x8E idt;
          idt = idt_set_gate 14 (isr_stub 14) 0x08 0x8E idt;
          idt = idt_set_gate 32 (isr_stub 32) 0x08 0x8E idt
      in idt_set_gate 33 (isr_stub 33) 0x08 0x8E idt)"

definition syscall_init :: "(nat \<Rightarrow> u32) \<Rightarrow> idt_entry list \<Rightarrow> idt_entry list" where
  "syscall_init isr_stub idt = idt_set_gate 0x80 (isr_stub 128) 0x08 0xEE idt"

text \<open>The port writes that move the interrupts of the two controllers to the vectors 32 to 47 and leave the
  timer and the keyboard unmasked, and those that acknowledge an interrupt.\<close>

definition pic_remap :: "(u16 \<times> u8) list" where
  "pic_remap = [(0x20, 0x11), (0xA0, 0x11), (0x21, 0x20), (0xA1, 0x28), (0x21, 0x04), (0xA1, 0x02), (0x21, 0x01), (0xA1, 0x01),
     (0x21, 0xFC), (0xA1, 0xFF)]"

definition isr_handler :: "u32 \<Rightarrow> (u16 \<times> u8) list" where
  "isr_handler interrupt = (if interrupt \<ge> 40 then [(0xA0, 0x20)] else []) @ [(0x20, 0x20)]"

section \<open>Task state segment\<close>

record tss_entry =
  tss_prev_tss :: u32
  tss_esp0 :: u32
  tss_ss0 :: u32
  tss_esp1 :: u32
  tss_ss1 :: u32
  tss_esp2 :: u32
  tss_ss2 :: u32
  tss_cr3 :: u32
  tss_eip :: u32
  tss_eflags :: u32
  tss_eax :: u32
  tss_ecx :: u32
  tss_edx :: u32
  tss_ebx :: u32
  tss_esp :: u32
  tss_ebp :: u32
  tss_esi :: u32
  tss_edi :: u32
  tss_es :: u32
  tss_cs :: u32
  tss_ss :: u32
  tss_ds :: u32
  tss_fs :: u32
  tss_gs :: u32
  tss_ldt :: u32
  tss_trap :: u16
  tss_iomap_base :: u16

definition zero_tss :: tss_entry where
    "zero_tss = \<lparr>tss_prev_tss = 0, tss_esp0 = 0, tss_ss0 = 0, tss_esp1 = 0, tss_ss1 = 0,
     tss_esp2 = 0, tss_ss2 = 0, tss_cr3 = 0, tss_eip = 0, tss_eflags = 0, tss_eax = 0, tss_ecx = 0,
     tss_edx = 0, tss_ebx = 0, tss_esp = 0, tss_ebp = 0, tss_esi = 0, tss_edi = 0, tss_es = 0,
     tss_cs = 0, tss_ss = 0, tss_ds = 0, tss_fs = 0, tss_gs = 0, tss_ldt = 0, tss_trap = 0,
     tss_iomap_base = 0\<rparr>"

definition TSS_SIZE :: u32 where "TSS_SIZE = 104"

definition tss_init :: "u32 \<Rightarrow> gdt_entry list \<Rightarrow> tss_entry \<times> gdt_entry list" where
  "tss_init tss_address gdt =
     (zero_tss\<lparr>tss_ss0 := 0x10, tss_esp0 := 0x90000, tss_cs := 0x1B, tss_ss := 0x23, tss_ds := 0x23,
       tss_es := 0x23, tss_fs := 0x23, tss_gs := 0x23, tss_iomap_base := ucast TSS_SIZE\<rparr>,
      gdt_set_gate 5 tss_address TSS_SIZE 0xE9 0x00 gdt)"

definition tss_set_kernel_stack :: "u32 \<Rightarrow> tss_entry \<Rightarrow> tss_entry" where
  "tss_set_kernel_stack stack tss = tss\<lparr>tss_esp0 := stack\<rparr>"

section \<open>Panic output\<close>

definition panic_puthex :: "u32 \<Rightarrow> serial_log \<Rightarrow> serial_log" where
  "panic_puthex val out =
     fold (\<lambda>i. serial_putc (str8 ''0123456789ABCDEF'' ! unat (drop_bit i val AND 0xF)))
       [28, 24, 20, 16, 12, 8, 4, 0] out"

definition exception_handler :: "u32 \<Rightarrow> u32 \<Rightarrow> u32 \<Rightarrow> serial_log \<Rightarrow> serial_log" where
  "exception_handler vector error_code fault_addr out =
     (let out = serial_puts (str8 ''KERNEL_PANIC:0x'') out;
          out = panic_puthex vector out;
          out = serial_puts (str8 '':0x'') out;
          out = panic_puthex error_code out;
          out = (if vector = 14 then panic_puthex fault_addr (serial_puts (str8 '':0x'') out) else out)
      in serial_puts [0x0A] out)"

section \<open>What the processor reads\<close>

text \<open>The fields of a descriptor as the processor decodes them: bits 5 and 6 of the access byte are the privilege
  level of a segment or the level from which a gate can be called, bit 7 says that it is present. The upper half of the granularity byte has the
  flags of a segment: with bit 7 its limit counts pages of 4 KiB, the last of which belongs to the segment as a whole.\<close>

definition gdt_base :: "gdt_entry \<Rightarrow> u32" where
  "gdt_base e = ucast (base_low e) OR push_bit 16 (ucast (base_middle e)) OR push_bit 24 (ucast (base_high e))"

definition gdt_limit :: "gdt_entry \<Rightarrow> u32" where
  "gdt_limit e =
     (let raw = ucast (limit_low e) OR push_bit 16 (ucast (granularity e AND 0x0F))
      in if bit (granularity e) 7 then push_bit 12 raw OR 0xFFF else raw)"

definition gdt_level :: "gdt_entry \<Rightarrow> u8" where
  "gdt_level e = drop_bit 5 (gdt_access e) AND 3"

definition idt_base :: "idt_entry \<Rightarrow> u32" where
  "idt_base e = ucast (base_lo e) OR push_bit 16 (ucast (base_hi e))"

definition idt_callable :: "u8 \<Rightarrow> idt_entry \<Rightarrow> bool" where
  "idt_callable ring e \<longleftrightarrow> bit (idt_flags e) 7 \<and> ring \<le> drop_bit 5 (idt_flags e) AND 3"

lemma low_masks:
  "(0xFFFF :: u32) = mask 16" "(0xFF :: u32) = mask 8" "(0x0F :: u32) = mask 4" "(0x0F :: u8) = mask 4"
  "(0xFFFFF :: u32) = mask 20" "(0xF0 :: u8) = push_bit 4 (mask 4)"
  by (simp_all add: mask_eq_exp_minus_1 push_bit_eq_mult)

lemma split_base24:
  fixes base :: u32
  shows "ucast (ucast (base AND 0xFFFF) :: u16) OR push_bit 16 (ucast (ucast (drop_bit 16 base AND 0xFF) :: u8)) OR
      push_bit 24 (ucast (ucast (drop_bit 24 base AND 0xFF) :: u8)) = base"
  unfolding low_masks
proof (rule bit_word_eqI)
  fix n assume "n < LENGTH(32)"
  then show "bit (ucast (ucast (base AND mask 16) :: u16) OR push_bit 16 (ucast (ucast (drop_bit 16 base AND mask 8) :: u8)) OR
      push_bit 24 (ucast (ucast (drop_bit 24 base AND mask 8) :: u8)) :: u32) n = bit base n"
    by (cases "n < 24") (auto simp: bit_simps)
qed

lemma split_base16:
  fixes base :: u32
  shows "ucast (ucast (base AND 0xFFFF) :: u16) OR push_bit 16 (ucast (ucast (drop_bit 16 base AND 0xFFFF) :: u16)) = base"
  unfolding low_masks by (rule bit_word_eqI) (auto simp: bit_simps)

lemma split_limit:
  fixes limit :: u32
  shows "ucast (ucast (limit AND 0xFFFF) :: u16) OR
      push_bit 16 (ucast ((ucast (drop_bit 16 limit AND 0x0F) OR (gran AND 0xF0) :: u8) AND 0x0F)) = limit AND 0xFFFFF"
  unfolding low_masks by (rule bit_word_eqI) (auto simp: bit_simps)

lemma idt_set_gate_nth:
  "i < length idt \<Longrightarrow> idt_set_gate num base sel flags idt ! i =
    (if i = num then \<lparr>base_lo = ucast (base AND 0xFFFF), idt_sel = sel, always0 = 0, idt_flags = flags,
       base_hi = ucast (drop_bit 16 base AND 0xFFFF)\<rparr> else idt ! i)"
  by (simp add: idt_set_gate_def nth_list_update_if)

lemma idt_set_gate_length [simp]: "length (idt_set_gate num base sel flags idt) = length idt"
  by (simp add: idt_set_gate_def)

lemma idt_clear:
  "length (for_loop 0 n (\<lambda>i. idt_set_gate i 0 0 0) idt) = length idt \<and>
   (\<forall>i < length idt. i < n \<longrightarrow> idt_flags (for_loop 0 n (\<lambda>i. idt_set_gate i 0 0 0) idt ! i) = 0)"
  by (induction n) (auto simp: for_loop_done for_loop_last idt_set_gate_nth less_Suc_eq)

lemma split_flags:
  fixes limit :: u32 and gran :: u8
  shows "(ucast (drop_bit 16 limit AND 0x0F) OR (gran AND 0xF0)) AND 0xF0 = gran AND 0xF0"
    "bit (ucast (drop_bit 16 limit AND 0x0F) OR (gran AND 0xF0)) 7 \<longleftrightarrow> bit gran 7"
  unfolding low_masks by (rule bit_word_eqI) (auto simp: bit_simps)

lemma gate_decodes:
  assumes "num < length gdt"
  shows "gdt_base (gdt_set_gate num base limit access gran gdt ! num) = base"
    "gdt_limit (gdt_set_gate num base limit access gran gdt ! num) =
      (if bit gran 7 then push_bit 12 (limit AND 0xFFFFF) OR 0xFFF else limit AND 0xFFFFF)"
    "gdt_access (gdt_set_gate num base limit access gran gdt ! num) = access"
    "granularity (gdt_set_gate num base limit access gran gdt ! num) AND 0xF0 = gran AND 0xF0"
  using assms by (simp_all add: gdt_set_gate_def gdt_base_def gdt_limit_def split_base24 split_limit split_flags Let_def)

text \<open>The segments of the kernel and of the user, code and data, cover all 4 GiB.\<close>

lemma boot_segments:
  assumes "length gdt = 6" and "i \<in> {1, 2, 3, 4}"
  shows "let e = gdt_init gdt ! i in gdt_base e = 0 \<and> gdt_limit e = 0xFFFFFFFF \<and> bit (gdt_access e) 7 \<and>
    gdt_level e = (if i \<le> 2 then 0 else 3) \<and> (bit (gdt_access e) 3 \<longleftrightarrow> i = 1 \<or> i = 3)"
  using assms
  by (auto simp: gdt_init_def gdt_set_gate_def gdt_base_def gdt_limit_def gdt_level_def Let_def bit_numeral_rec push_bit_eq_mult drop_bit_eq_div)

lemma boot_gates:
  assumes "length idt = IDT_ENTRIES" "v < IDT_ENTRIES"
  shows "let e = syscall_init stub (idt_init stub idt) ! v in
    (idt_callable 3 e \<longleftrightarrow> v = 0x80) \<and> (idt_callable 0 e \<longleftrightarrow> v \<in> {0, 6, 13, 14, 32, 33, 0x80}) \<and>
    (idt_callable 0 e \<longrightarrow> idt_base e = stub v \<and> idt_sel e = 0x08)"
proof -
  let ?z = "for_loop 0 IDT_ENTRIES (\<lambda>i. idt_set_gate i 0 0 0) idt"
  have z: "length ?z = 256" "idt_flags (?z ! v) = 0"
    using idt_clear [of IDT_ENTRIES idt] assms by (simp_all add: IDT_ENTRIES_def)
  have "v < 256" using assms(2) by (simp add: IDT_ENTRIES_def)
  then show ?thesis
    using z by (simp add: syscall_init_def idt_init_def idt_set_gate_nth idt_callable_def idt_base_def split_base16 Let_def)
qed

section \<open>Properties\<close>

text \<open>C39: The descriptor tables say what the code means. A segment descriptor decodes to the base, the access byte and the flags it was set with,
  and its limit is the low 20 bits of the one it was set with, counted in bytes or, with the granularity flag, in pages of 4 KiB; no other descriptor changes. So the task state segment is found
  where it lies, and the four segments that gdt_init makes are present, start at 0 and end at 4 GiB, the first two for the kernel and the others for user code. After
  initialisation the vectors with a handler lead to their stubs in the kernel code segment, and the only gate that user code can call is the
  system call gate.
\<close>

theorem descriptor_tables_decode:
  assumes "length idt = IDT_ENTRIES" and "num < length gdt" and "v < IDT_ENTRIES"
  shows "gdt_base (gdt_set_gate num base limit access gran gdt ! num) = base \<and>
    gdt_limit (gdt_set_gate num base limit access gran gdt ! num) =
      (if bit gran 7 then push_bit 12 (limit AND 0xFFFFF) OR 0xFFF else limit AND 0xFFFFF) \<and>
    gdt_access (gdt_set_gate num base limit access gran gdt ! num) = access \<and>
    granularity (gdt_set_gate num base limit access gran gdt ! num) AND 0xF0 = gran AND 0xF0 \<and>
    (\<forall>i. i \<noteq> num \<longrightarrow> gdt_set_gate num base limit access gran gdt ! i = gdt ! i) \<and>
    (length gdt = 6 \<longrightarrow> (\<forall>i\<in>{1, 2, 3, 4}. let e = gdt_init gdt ! i in
      gdt_base e = 0 \<and> gdt_limit e = 0xFFFFFFFF \<and> bit (gdt_access e) 7 \<and>
      gdt_level e = (if i \<le> 2 then 0 else 3) \<and> (bit (gdt_access e) 3 \<longleftrightarrow> i = 1 \<or> i = 3))) \<and>
    (let e = syscall_init stub (idt_init stub idt) ! v in
      (idt_callable 3 e \<longleftrightarrow> v = 0x80) \<and>
      (idt_callable 0 e \<longleftrightarrow> v \<in> {0, 6, 13, 14, 32, 33, 0x80}) \<and>
      (idt_callable 0 e \<longrightarrow> idt_base e = stub v \<and> idt_sel e = 0x08))"
  using gate_decodes [OF assms(2)] boot_gates [OF assms(1,3)] boot_segments [of gdt] by (simp add: gdt_set_gate_def)

theorem descriptor_tables_decode_witness:
  "idt_callable 3 (syscall_init (\<lambda>n. 0x12345678) (idt_init (\<lambda>n. 0x12345678) (replicate 256
     \<lparr>base_lo = 0, idt_sel = 0, always0 = 0, idt_flags = 0, base_hi = 0\<rparr>)) ! 0x80) \<and>
   gdt_base (snd (tss_init 0x23456789 (replicate 6 zero_gdt_entry)) ! 5) = 0x23456789 \<and>
   gdt_limit (snd (tss_init 0x23456789 (replicate 6 zero_gdt_entry)) ! 5) = TSS_SIZE \<and>
   gdt_limit (gdt_init (replicate 6 zero_gdt_entry) ! 3) = 0xFFFFFFFF \<and> gdt_level (gdt_init (replicate 6 zero_gdt_entry) ! 3) = 3"
  using descriptor_tables_decode [of "replicate 256 \<lparr>base_lo = 0, idt_sel = 0, always0 = 0, idt_flags = 0, base_hi = 0\<rparr>"
      5 "replicate 6 zero_gdt_entry" "0x80" "0x23456789" TSS_SIZE "0xE9" 0 "\<lambda>n. 0x12345678"]
  by (simp add: IDT_ENTRIES_def tss_init_def Let_def TSS_SIZE_def)

end
