(* ===== verification/Allocator.thy ===== *)
theory Allocator
  imports Prelude
begin

text \<open>
  The kernel heap, \<^verbatim>\<open>src/kernel/allocator.c\<close>: a doubly linked list of blocks that tile the
  megabyte from 2 MiB to 3 MiB, each with a 16-byte header in front of its payload. The headers
  are a map from the address of the header; a pointer is a 32-bit address and 0 is NULL. The
  walks along \<open>next\<close> are option-valued, \<open>None\<close> being a walk that never ends; the invariant
  rules that out.
\<close>

section \<open>State and operations\<close>

definition HEAP_START :: u32 where "HEAP_START = 0x00200000"
definition HEAP_SIZE :: u32 where "HEAP_SIZE = 0x00100000"
definition ALIGNMENT :: u32 where "ALIGNMENT = 16"
definition MIN_SPLIT :: u32 where "MIN_SPLIT = 32"

record heap_block =
  hb_size :: u32
  hb_free :: u32
  hb_next :: u32
  hb_prev :: u32

definition HEADER :: u32 where "HEADER = 16"

record heap_state =
  heap_blocks :: "u32 \<Rightarrow> heap_block"
  heap_head :: u32
  heap_used :: u32

definition heap_align_up :: "u32 \<Rightarrow> u32" where
  "heap_align_up value = (value + (ALIGNMENT - 1)) AND NOT (ALIGNMENT - 1)"

definition allocator_init :: "heap_state \<Rightarrow> heap_state" where
  "allocator_init s =
     \<lparr>heap_blocks = (heap_blocks s)(HEAP_START :=
        \<lparr>hb_size = HEAP_SIZE - HEADER, hb_free = 1, hb_next = 0, hb_prev = 0\<rparr>),
      heap_head = HEAP_START, heap_used = 0\<rparr>"

definition set_prev :: "u32 \<Rightarrow> u32 \<Rightarrow> (u32 \<Rightarrow> heap_block) \<Rightarrow> (u32 \<Rightarrow> heap_block)" where
  "set_prev block p h = (if block = 0 then h else h(block := (h block)\<lparr>hb_prev := p\<rparr>))"

definition split_block :: "u32 \<Rightarrow> u32 \<Rightarrow> (u32 \<Rightarrow> heap_block) \<Rightarrow> (u32 \<Rightarrow> heap_block)" where
  "split_block block sz h =
     (let remaining = hb_size (h block) - sz in
      if remaining \<le> HEADER + MIN_SPLIT then h
      else
        let next = block + HEADER + sz;
            h = h(next := \<lparr>hb_size = remaining - HEADER, hb_free = 1,
                           hb_next = hb_next (h block), hb_prev = block\<rparr>);
            h = set_prev (hb_next (h next)) next h
        in h(block := (h block)\<lparr>hb_size := sz, hb_next := next\<rparr>))"

partial_function (option) heap_search ::
    "(u32 \<Rightarrow> heap_block) \<Rightarrow> u32 \<Rightarrow> u32 \<Rightarrow> u32 option" where
  "heap_search h needed block =
     (if block = 0 then Some 0
      else if hb_free (h block) \<noteq> 0 \<and> needed \<le> hb_size (h block) then Some block
      else heap_search h needed (hb_next (h block)))"

definition kmalloc :: "u32 \<Rightarrow> heap_state \<Rightarrow> (u32 \<times> heap_state) option" where
  "kmalloc sz s =
     (if heap_head s = 0 \<or> sz = 0 then Some (0, s)
      else
        let needed = heap_align_up sz in
        do {
          block \<leftarrow> heap_search (heap_blocks s) needed (heap_head s);
          if block = 0 then Some (0, s)
          else
            let h = split_block block needed (heap_blocks s);
                h = h(block := (h block)\<lparr>hb_free := 0\<rparr>)
            in Some (block + HEADER,
                     s\<lparr>heap_blocks := h, heap_used := heap_used s + hb_size (h block)\<rparr>)
        })"

definition coalesce_next :: "u32 \<Rightarrow> (u32 \<Rightarrow> heap_block) \<Rightarrow> (u32 \<Rightarrow> heap_block)" where
  "coalesce_next block h =
     (let next = hb_next (h block) in
      if next \<noteq> 0 \<and> hb_free (h next) \<noteq> 0 then
        let h = h(block := (h block)\<lparr>hb_size := hb_size (h block) + (HEADER + hb_size (h next)),
                                     hb_next := hb_next (h next)\<rparr>)
        in set_prev (hb_next (h block)) block h
      else h)"

definition coalesce_prev :: "u32 \<Rightarrow> (u32 \<Rightarrow> heap_block) \<Rightarrow> (u32 \<Rightarrow> heap_block)" where
  "coalesce_prev block h =
     (let prev = hb_prev (h block) in
      if prev \<noteq> 0 \<and> hb_free (h prev) \<noteq> 0 then
        let h = h(prev := (h prev)\<lparr>hb_size := hb_size (h prev) + (HEADER + hb_size (h block)),
                                   hb_next := hb_next (h block)\<rparr>)
        in set_prev (hb_next (h block)) prev h
      else h)"

definition coalesce :: "u32 \<Rightarrow> (u32 \<Rightarrow> heap_block) \<Rightarrow> (u32 \<Rightarrow> heap_block)" where
  "coalesce block h = coalesce_prev block (coalesce_next block h)"

definition kfree :: "u32 \<Rightarrow> heap_state \<Rightarrow> heap_state" where
  "kfree ptr s =
     (if ptr = 0 then s
      else
        let block = ptr - HEADER; h = heap_blocks s in
        if hb_free (h block) \<noteq> 0 then s
        else
          let h = h(block := (h block)\<lparr>hb_free := 1\<rparr>);
              used = (if hb_size (h block) \<le> heap_used s then heap_used s - hb_size (h block) else 0)
          in s\<lparr>heap_blocks := coalesce block h, heap_used := used\<rparr>)"

partial_function (option) heap_free_from :: "(u32 \<Rightarrow> heap_block) \<Rightarrow> u32 \<Rightarrow> u32 \<Rightarrow> u32 option" where
  "heap_free_from h block acc =
     (if block = 0 then Some acc
      else heap_free_from h (hb_next (h block))
             (if hb_free (h block) \<noteq> 0 then acc + hb_size (h block) else acc))"

definition allocator_get_free_bytes :: "heap_state \<Rightarrow> u32 option" where
  "allocator_get_free_bytes s = heap_free_from (heap_blocks s) (heap_head s) 0"

definition allocator_get_used_bytes :: "heap_state \<Rightarrow> u32" where
  "allocator_get_used_bytes s = heap_used s"

lemmas heap_consts = HEAP_START_def HEAP_SIZE_def ALIGNMENT_def MIN_SPLIT_def HEADER_def

section \<open>The block list\<close>

text \<open>
  \<open>chain h p xs n\<close>: the blocks \<open>xs\<close> are linked both ways, with \<open>p\<close> in front of them and
  \<open>n\<close> behind them.
\<close>

fun chain :: "(u32 \<Rightarrow> heap_block) \<Rightarrow> u32 \<Rightarrow> u32 list \<Rightarrow> u32 \<Rightarrow> bool" where
  "chain h p [] n \<longleftrightarrow> True"
| "chain h p (x # xs) n \<longleftrightarrow> hb_prev (h x) = p \<and> hb_next (h x) = hd (xs @ [n]) \<and> chain h x xs n"

lemma chain_append:
  "chain h p (xs @ ys) n \<longleftrightarrow> chain h p xs (hd (ys @ [n])) \<and> chain h (last (p # xs)) ys n"
  by (induction xs arbitrary: p) (auto simp: hd_append)

lemma chain_cong:
  assumes "chain h p xs n"
    and "\<And>x. x \<in> set xs \<Longrightarrow> hb_prev (h' x) = hb_prev (h x) \<and> hb_next (h' x) = hb_next (h x)"
  shows "chain h' p xs n"
  using assms by (induction xs arbitrary: p) auto

definition heap_end :: nat where "heap_end = 0x300000"

definition block_end :: "(u32 \<Rightarrow> heap_block) \<Rightarrow> u32 \<Rightarrow> nat" where
  "block_end h x = unat x + 16 + unat (hb_size (h x))"

text \<open>A block lies in the heap on a 16-byte boundary and ends where the next one starts.\<close>

definition block_ok :: "(u32 \<Rightarrow> heap_block) \<Rightarrow> u32 \<Rightarrow> bool" where
  "block_ok h x \<longleftrightarrow> unat HEAP_START \<le> unat x \<and> unat x mod 16 = 0 \<and> block_end h x \<le> heap_end \<and>
     block_end h x = (if hb_next (h x) = 0 then heap_end else unat (hb_next (h x)))"

definition used_size :: "(u32 \<Rightarrow> heap_block) \<Rightarrow> u32 list \<Rightarrow> nat" where
  "used_size h xs = sum_list (map (\<lambda>x. if hb_free (h x) \<noteq> 0 then 0 else unat (hb_size (h x))) xs)"

text \<open>No two neighbouring blocks are both free.\<close>

definition no_free_pair :: "(u32 \<Rightarrow> heap_block) \<Rightarrow> u32 list \<Rightarrow> bool" where
  "no_free_pair h xs \<longleftrightarrow> successively (\<lambda>x y. hb_free (h x) = 0 \<or> hb_free (h y) = 0) xs"

definition heap_inv :: "heap_state \<Rightarrow> u32 list \<Rightarrow> bool" where
  "heap_inv s xs \<longleftrightarrow> xs \<noteq> [] \<and> hd xs = HEAP_START \<and> heap_head s = HEAP_START \<and>
     chain (heap_blocks s) 0 xs 0 \<and> (\<forall>x \<in> set xs. block_ok (heap_blocks s) x) \<and>
     unat (heap_used s) = used_size (heap_blocks s) xs \<and> no_free_pair (heap_blocks s) xs"

lemma block_ok_nonzero: "block_ok h x \<Longrightarrow> x \<noteq> 0"
  by (auto simp: block_ok_def HEAP_START_def)

lemma block_ok_cong:
  "hb_size (h' x) = hb_size (h x) \<Longrightarrow> hb_next (h' x) = hb_next (h x) \<Longrightarrow> block_ok h' x = block_ok h x"
  by (simp add: block_ok_def block_end_def)

lemma chain_ordered:
  assumes "chain h p xs 0" and "\<forall>x \<in> set xs. block_ok h x"
  shows "sorted_wrt (\<lambda>x y. block_end h x \<le> unat y) xs"
  using assms
proof (induction xs arbitrary: p)
  case Nil
  then show ?case by simp
next
  case (Cons x xs)
  then have IH: "sorted_wrt (\<lambda>x y. block_end h x \<le> unat y) xs"
    using Cons.IH [of x] by simp
  show ?case
  proof (cases xs)
    case (Cons y ys)
    have "block_end h x = unat y"
      using Cons.prems Cons block_ok_nonzero [of h y] by (auto simp: block_ok_def)
    moreover have "unat y \<le> block_end h y" by (simp add: block_end_def)
    ultimately show ?thesis using IH Cons by (auto intro: order_trans)
  qed simp
qed

lemma heap_inv_ordered:
  "heap_inv s xs \<Longrightarrow> sorted_wrt (\<lambda>x y. block_end (heap_blocks s) x \<le> unat y) xs"
  unfolding heap_inv_def using chain_ordered by blast

lemma ordered_distinct:
  "sorted_wrt (\<lambda>x y. block_end h x \<le> unat y) xs \<Longrightarrow> distinct xs"
  by (induction xs) (auto simp: block_end_def)

lemma allocator_init_inv: "heap_inv (allocator_init s) [HEAP_START]"
  by (simp add: heap_inv_def allocator_init_def block_ok_def block_end_def heap_end_def heap_consts
      used_size_def no_free_pair_def)

section \<open>The search\<close>

lemma heap_search_chain:
  assumes "chain h p xs 0" and "0 \<notin> set xs"
  shows "heap_search h needed (hd (xs @ [0])) =
    Some (case List.find (\<lambda>b. hb_free (h b) \<noteq> 0 \<and> needed \<le> hb_size (h b)) xs of
            Some b \<Rightarrow> b | None \<Rightarrow> 0)"
  using assms
proof (induction xs arbitrary: p)
  case Nil
  then show ?case by (simp add: heap_search.simps)
next
  case (Cons x xs)
  then show ?case by (subst heap_search.simps) auto
qed

lemma heap_free_chain:
  assumes "chain h p xs 0" and "0 \<notin> set xs"
  shows "heap_free_from h (hd (xs @ [0])) acc =
    Some (acc + sum_list (map (\<lambda>x. if hb_free (h x) \<noteq> 0 then hb_size (h x) else 0) xs))"
  using assms
proof (induction xs arbitrary: p acc)
  case Nil
  then show ?case by (simp add: heap_free_from.simps)
next
  case (Cons x xs)
  then show ?case by (subst heap_free_from.simps) (auto simp: add.assoc)
qed

lemma unat_heap_align_up:
  assumes "unat sz \<le> 0xFFFFFFF0"
  shows "unat (heap_align_up sz) = (unat sz + 15) div 16 * 16"
proof -
  let ?v = "sz + 15"
  have v: "unat ?v = unat sz + 15" using assms by (subst unat_add_no_wrap) auto
  have "heap_align_up sz = ?v - (?v AND 15)"
    using and_not_eq_minus_and [of ?v 15] by (simp add: heap_align_up_def ALIGNMENT_def)
  moreover have "unat (?v AND 15) = unat ?v mod 16"
    using unat_and_mask [of ?v 4] by (simp add: mask_eq_exp_minus_1)
  ultimately have "unat (heap_align_up sz) = unat ?v - unat ?v mod 16"
    by (simp add: unat_sub_no_wrap)
  then show ?thesis using v by (simp add: minus_mod_eq_div_mult)
qed

section \<open>Splitting a block\<close>

lemma set_prev_simps [simp]:
  "hb_size (set_prev b p h x) = hb_size (h x)"
  "hb_free (set_prev b p h x) = hb_free (h x)"
  "hb_next (set_prev b p h x) = hb_next (h x)"
  "hb_prev (set_prev b p h x) = (if x = b \<and> b \<noteq> 0 then p else hb_prev (h x))"
  by (auto simp: set_prev_def)

lemma chain_relink_prev:
  assumes "chain h q bs 0" and "0 \<notin> set bs" and "distinct bs"
    and "\<And>x. x \<in> set bs \<Longrightarrow> hb_next (h' x) = hb_next (h x) \<and>
       hb_prev (h' x) = (if x = hd bs then p else hb_prev (h x))"
  shows "chain h' p bs 0"
proof (cases bs)
  case (Cons c cs)
  have "hb_prev (h' x) = hb_prev (h x)" if "x \<in> set cs" for x
    using assms(3) assms(4) [of x] that Cons by auto
  then show ?thesis
    using assms Cons by (auto intro!: chain_cong [of h c cs 0 h'])
qed simp

text \<open>Where the blocks around one block lie.\<close>

lemma block_neighbours:
  assumes "chain h 0 (as @ b # bs) 0" and "\<forall>x \<in> set (as @ b # bs). block_ok h x"
  shows "\<forall>x \<in> set as. block_end h x \<le> unat b" and "\<forall>x \<in> set bs. block_end h b \<le> unat x"
    and "distinct (as @ b # bs)" and "0 \<notin> set (as @ b # bs)"
    and "hb_next (h b) = hd (bs @ [0])" and "hb_prev (h b) = last (0 # as)"
proof -
  note order = chain_ordered [OF assms]
  then show "\<forall>x \<in> set as. block_end h x \<le> unat b" "\<forall>x \<in> set bs. block_end h b \<le> unat x"
    by (auto simp: sorted_wrt_append)
  show "distinct (as @ b # bs)" using ordered_distinct [OF order] .
  show "0 \<notin> set (as @ b # bs)" using assms(2) block_ok_nonzero by metis
  show "hb_next (h b) = hd (bs @ [0])" "hb_prev (h b) = last (0 # as)"
    using assms(1) by (simp_all add: chain_append)
qed

lemma split_block_chain:
  assumes ch: "chain h 0 (as @ b # bs) 0" and ok: "\<forall>x \<in> set (as @ b # bs). block_ok h x"
    and fits: "sz \<le> hb_size (h b)" and al: "unat sz mod 16 = 0"
    and big: "\<not> hb_size (h b) - sz \<le> HEADER + MIN_SPLIT"
  defines "n \<equiv> b + HEADER + sz" and "h' \<equiv> split_block b sz h"
  shows "chain h' 0 (as @ b # n # bs) 0" and "\<forall>x \<in> set (as @ b # n # bs). block_ok h' x"
    and "hb_size (h' b) = sz" and "hb_free (h' b) = hb_free (h b)" and "hb_free (h' n) = 1"
    and "\<forall>x \<in> set as \<union> set bs. hb_size (h' x) = hb_size (h x) \<and> hb_free (h' x) = hb_free (h x)"
proof -
  note nb = block_neighbours [OF ch ok]
  have okb: "block_ok h b" using ok by simp
  have sz: "unat (hb_size (h b) - sz) = unat (hb_size (h b)) - unat sz"
    and fits': "unat sz \<le> unat (hb_size (h b))"
    using fits by (simp_all add: unat_sub_no_wrap word_le_nat_alt)
  have big': "unat sz + 48 < unat (hb_size (h b))"
    using big fits' by (simp add: word_le_nat_alt sz heap_consts)
  have endb: "unat b + 16 + unat (hb_size (h b)) \<le> heap_end"
    using okb by (simp add: block_ok_def block_end_def)
  have n: "unat n = unat b + 16 + unat sz"
    using endb big' unfolding n_def
    by (simp add: unat_add_no_wrap HEADER_def heap_end_def)
  have n_notin: "n \<notin> set (as @ b # bs)"
    using nb(1,2) n big' by (fastforce simp: block_end_def)
  have n0: "n \<noteq> 0" using n by (auto simp: unat_eq_0 [symmetric])
  have rem: "unat (hb_size (h b) - sz - HEADER) = unat (hb_size (h b)) - unat sz - 16"
    using big' sz by (subst unat_sub_no_wrap) (simp_all add: HEADER_def)
  let ?nb = "hb_next (h b)"
  have h'_def': "h' = (let g = set_prev ?nb n (h(n := \<lparr>hb_size = hb_size (h b) - sz - HEADER,
      hb_free = 1, hb_next = ?nb, hb_prev = b\<rparr>)) in g(b := (g b)\<lparr>hb_size := sz, hb_next := n\<rparr>))"
    using big by (simp add: h'_def split_block_def Let_def n_def)
  have bn: "b \<noteq> n" "?nb \<noteq> n \<or> ?nb = 0" "?nb \<noteq> b"
    using n_notin nb(3-5) n0 by (cases bs; auto)+
  have other: "hb_size (h' x) = hb_size (h x) \<and> hb_free (h' x) = hb_free (h x) \<and>
      hb_next (h' x) = hb_next (h x) \<and>
      hb_prev (h' x) = (if x = ?nb \<and> ?nb \<noteq> 0 then n else hb_prev (h x))"
    if "x \<noteq> b" "x \<noteq> n" for x
    using that by (auto simp: h'_def' Let_def)
  have hb: "hb_size (h' b) = sz" "hb_free (h' b) = hb_free (h b)" "hb_next (h' b) = n"
    "hb_prev (h' b) = hb_prev (h b)"
    using bn by (auto simp: h'_def' Let_def)
  have hn: "hb_size (h' n) = hb_size (h b) - sz - HEADER" "hb_free (h' n) = 1"
    "hb_next (h' n) = ?nb" "hb_prev (h' n) = b"
    using bn n0 by (auto simp: h'_def' Let_def)
  show "hb_size (h' b) = sz" "hb_free (h' b) = hb_free (h b)" "hb_free (h' n) = 1"
    by (fact hb hn)+
  have members: "x \<noteq> b" "x \<noteq> n" if "x \<in> set as \<union> set bs" for x
    using that n_notin nb(3) by auto
  then show "\<forall>x \<in> set as \<union> set bs. hb_size (h' x) = hb_size (h x) \<and> hb_free (h' x) = hb_free (h x)"
    using other by blast
  have "chain h' 0 as b"
  proof (rule chain_cong)
    show "chain h 0 as b" using ch by (simp add: chain_append)
    fix x assume "x \<in> set as"
    moreover then have "x \<noteq> ?nb \<or> ?nb = 0" using nb(3,5) by (cases bs) auto
    ultimately show "hb_prev (h' x) = hb_prev (h x) \<and> hb_next (h' x) = hb_next (h x)"
      using other [of x] members [of x] by auto
  qed
  moreover have "chain h' n bs 0"
  proof (rule chain_relink_prev)
    show "chain h b bs 0" using ch by (simp add: chain_append)
    show "0 \<notin> set bs" "distinct bs" using nb(3,4) by auto
    fix x assume x: "x \<in> set bs"
    then have "?nb = hd bs" using nb(5) by (cases bs) auto
    then show "hb_next (h' x) = hb_next (h x) \<and>
        hb_prev (h' x) = (if x = hd bs then n else hb_prev (h x))"
      using other [of x] members [of x] x nb(4) by auto
  qed
  ultimately show "chain h' 0 (as @ b # n # bs) 0"
    using hb hn nb(5,6) by (simp add: chain_append)
  have "block_ok h' x" if "x \<in> set as \<union> set bs" for x
    using block_ok_cong [of h' x h] other [OF members [OF that]] ok that by auto
  moreover have "block_ok h' b"
    using okb n hb n0 al big' endb by (simp add: block_ok_def block_end_def)
  moreover have "block_ok h' n"
    using okb hn n rem al big' by (auto simp: block_ok_def block_end_def mod_add_eq [symmetric] split: if_splits)
  ultimately show "\<forall>x \<in> set (as @ b # n # bs). block_ok h' x" by auto
qed

section \<open>Allocation\<close>

lemma used_size_simps [simp]:
  "used_size h [] = 0"
  "used_size h (x # xs) = (if hb_free (h x) \<noteq> 0 then 0 else unat (hb_size (h x))) + used_size h xs"
  "used_size h (xs @ ys) = used_size h xs + used_size h ys"
  by (simp_all add: used_size_def)

lemma used_size_cong:
  "(\<And>x. x \<in> set xs \<Longrightarrow> hb_size (h' x) = hb_size (h x) \<and> hb_free (h' x) = hb_free (h x)) \<Longrightarrow>
     used_size h' xs = used_size h xs"
  by (induction xs) auto

lemma no_free_pair_cong:
  "no_free_pair h xs \<Longrightarrow> (\<And>x. x \<in> set xs \<Longrightarrow> hb_free (h' x) = hb_free (h x)) \<Longrightarrow> no_free_pair h' xs"
  unfolding no_free_pair_def by (erule successively_mono) auto

lemma no_free_pair_append:
  "no_free_pair h (xs @ ys) \<longleftrightarrow> no_free_pair h xs \<and> no_free_pair h ys \<and>
     (xs = [] \<or> ys = [] \<or> hb_free (h (last xs)) = 0 \<or> hb_free (h (hd ys)) = 0)"
  by (simp add: no_free_pair_def successively_append_iff)

lemma no_free_pair_Cons:
  "no_free_pair h (x # xs) \<longleftrightarrow> no_free_pair h xs \<and>
     (xs = [] \<or> hb_free (h x) = 0 \<or> hb_free (h (hd xs)) = 0)"
  by (cases xs) (auto simp: no_free_pair_def)

lemma blocks_tile:
  assumes "chain h p (x # xs) 0" and "\<forall>y \<in> set (x # xs). block_ok h y"
  shows "unat x + sum_list (map (\<lambda>y. 16 + unat (hb_size (h y))) (x # xs)) = heap_end"
  using assms
proof (induction xs arbitrary: x p)
  case Nil
  then show ?case by (simp add: block_ok_def block_end_def)
next
  case (Cons y ys)
  have "unat y + sum_list (map (\<lambda>y. 16 + unat (hb_size (h y))) (y # ys)) = heap_end"
    using Cons.IH [of x y] Cons.prems by simp
  moreover have "unat x + 16 + unat (hb_size (h x)) = unat y"
    using Cons.prems block_ok_nonzero [of h y] by (auto simp: block_ok_def block_end_def)
  ultimately show ?case by simp
qed

lemma used_size_le: "used_size h xs \<le> sum_list (map (\<lambda>y. 16 + unat (hb_size (h y))) xs)"
  by (induction xs) auto

lemma used_size_bound:
  assumes "chain h 0 xs 0" and "\<forall>y \<in> set xs. block_ok h y" and "xs \<noteq> []" and "hd xs = HEAP_START"
  shows "used_size h xs \<le> 0x100000"
proof -
  obtain ys where xs: "xs = HEAP_START # ys" using assms(3,4) by (cases xs) auto
  have "unat HEAP_START + sum_list (map (\<lambda>y. 16 + unat (hb_size (h y))) xs) = heap_end"
    using blocks_tile [of h 0 HEAP_START ys] assms xs by simp
  then show ?thesis
    using used_size_le [of h xs] by (simp add: heap_end_def HEAP_START_def)
qed

text \<open>
  The effect of giving out the free block \<open>b\<close>: either whole, or cut after \<open>sz\<close> bytes with a new
  free block behind it.
\<close>

lemma take_block:
  assumes inv: "heap_inv s (as @ b # bs)" and free: "hb_free (heap_blocks s b) \<noteq> 0"
    and fits: "sz \<le> hb_size (heap_blocks s b)" and al: "unat sz mod 16 = 0"
  defines "h \<equiv> split_block b sz (heap_blocks s)"
  defines "h' \<equiv> h(b := (h b)\<lparr>hb_free := 0\<rparr>)"
  defines "s' \<equiv> s\<lparr>heap_blocks := h', heap_used := heap_used s + hb_size (h' b)\<rparr>"
  obtains cs where "heap_inv s' (as @ b # cs @ bs)" and "sz \<le> hb_size (h' b)"
    and "\<forall>x \<in> set as \<union> set bs. hb_size (h' x) = hb_size (heap_blocks s x) \<and>
           hb_free (h' x) = hb_free (heap_blocks s x)"
    and "\<forall>x \<in> set cs. hb_free (h' x) \<noteq> 0"
proof -
  let ?h = "heap_blocks s"
  have ch: "chain ?h 0 (as @ b # bs) 0" and ok: "\<forall>x \<in> set (as @ b # bs). block_ok ?h x"
    and hds: "hd (as @ b # bs) = HEAP_START" "heap_head s = HEAP_START"
    and used: "unat (heap_used s) = used_size ?h (as @ b # bs)"
    and nfp: "no_free_pair ?h (as @ b # bs)"
    using inv by (simp_all add: heap_inv_def)
  note nb = block_neighbours [OF ch ok]
  obtain cs where cs: "chain h 0 (as @ b # cs @ bs) 0" "\<forall>x \<in> set (as @ b # cs @ bs). block_ok h x"
      "sz \<le> hb_size (h b)" "\<forall>x \<in> set cs. hb_free (h x) = 1" "length cs \<le> 1"
      "\<forall>x \<in> set as \<union> set bs. hb_size (h x) = hb_size (?h x) \<and> hb_free (h x) = hb_free (?h x)"
  proof (cases "hb_size (?h b) - sz \<le> HEADER + MIN_SPLIT")
    case True
    then have "h = ?h" by (simp add: h_def split_block_def)
    then show ?thesis using that [of "[]"] ch ok fits by simp
  next
    case False
    note split_block_chain [OF ch ok fits al False, folded h_def]
    then show ?thesis using that [of "[b + HEADER + sz]"] by simp
  qed
  have dist: "distinct (as @ b # cs @ bs)"
    using block_neighbours(3) [OF cs(1,2)] .
  have fld: "hb_size (h' x) = hb_size (h x)" "hb_next (h' x) = hb_next (h x)"
    "hb_prev (h' x) = hb_prev (h x)" "hb_free (h' x) = (if x = b then 0 else hb_free (h x))" for x
    by (simp_all add: h'_def)
  have ch': "chain h' 0 (as @ b # cs @ bs) 0" by (rule chain_cong [OF cs(1)]) (simp add: fld)
  have ok': "\<forall>x \<in> set (as @ b # cs @ bs). block_ok h' x"
    using cs(2) block_ok_cong [of h' _ h] fld by blast
  have rest: "\<forall>x \<in> set as \<union> set bs. hb_size (h' x) = hb_size (?h x) \<and> hb_free (h' x) = hb_free (?h x)"
    using cs(6) dist fld by auto
  have csf: "\<forall>x \<in> set cs. hb_free (h' x) = 1" using cs(4) dist fld by auto
  have "used_size h' as = used_size ?h as" "used_size h' bs = used_size ?h bs"
    using rest by (auto intro: used_size_cong)
  moreover have "used_size h' cs = 0" using csf by (induction cs) auto
  ultimately have sum: "used_size h' (as @ b # cs @ bs) = unat (heap_used s) + unat (hb_size (h' b))"
    using used free fld(4) [of b] by simp
  moreover have "used_size h' (as @ b # cs @ bs) \<le> 0x100000"
    using used_size_bound [OF ch' ok'] hds(1) by (cases as) auto
  ultimately have used': "unat (heap_used s') = used_size h' (as @ b # cs @ bs)"
    unfolding s'_def by (simp add: unat_add_no_wrap)
  have "no_free_pair ?h as" "no_free_pair ?h bs" "bs = [] \<or> hb_free (?h (hd bs)) = 0"
    using nfp free by (auto simp: no_free_pair_append no_free_pair_Cons)
  moreover have "bs = [] \<or> hb_free (h' (hd bs)) = hb_free (?h (hd bs))"
    using rest by (cases bs) auto
  ultimately have "no_free_pair h' as" "no_free_pair h' bs" "bs = [] \<or> hb_free (h' (hd bs)) = 0"
    using rest no_free_pair_cong [of ?h as h'] no_free_pair_cong [of ?h bs h'] by auto
  then have nfp': "no_free_pair h' (as @ b # cs @ bs)"
    using cs(5) fld(4) [of b]
    by (cases cs) (auto simp: no_free_pair_append no_free_pair_Cons)
  have "heap_inv s' (as @ b # cs @ bs)"
    using ch' ok' used' nfp' hds unfolding heap_inv_def by (cases as) (auto simp: s'_def)
  then show ?thesis using that cs(3) fld(1) rest csf by auto
qed

section \<open>Freeing\<close>

definition merge_blocks :: "u32 \<Rightarrow> u32 \<Rightarrow> (u32 \<Rightarrow> heap_block) \<Rightarrow> (u32 \<Rightarrow> heap_block)" where
  "merge_blocks a b h = set_prev (hb_next (h b)) a
     (h(a := (h a)\<lparr>hb_size := hb_size (h a) + (HEADER + hb_size (h b)), hb_next := hb_next (h b)\<rparr>))"

lemma merge_blocks_chain:
  assumes ch: "chain h 0 (as @ a # b # bs) 0" and ok: "\<forall>x \<in> set (as @ a # b # bs). block_ok h x"
  defines "h' \<equiv> merge_blocks a b h"
  shows "chain h' 0 (as @ a # bs) 0" and "\<forall>x \<in> set (as @ a # bs). block_ok h' x"
    and "hb_free (h' a) = hb_free (h a)"
    and "\<forall>x \<in> set as \<union> set bs. hb_size (h' x) = hb_size (h x) \<and> hb_free (h' x) = hb_free (h x)"
proof -
  note na = block_neighbours [OF ch ok]
  have ch2: "chain h 0 ((as @ [a]) @ b # bs) 0" and ok2: "\<forall>x \<in> set ((as @ [a]) @ b # bs). block_ok h x"
    using ch ok by simp_all
  note nb = block_neighbours [OF ch2 ok2]
  let ?nb = "hb_next (h b)"
  have oka: "block_ok h a" "block_ok h b" using ok by auto
  have nexta: "hb_next (h a) = b" "b \<noteq> 0" using na(4,5) by auto
  have size: "unat (hb_size (h a) + (HEADER + hb_size (h b))) =
      unat (hb_size (h a)) + 16 + unat (hb_size (h b))"
    using oka nexta by (simp add: block_ok_def block_end_def unat_add_no_wrap HEADER_def heap_end_def)
  have fields: "hb_size (h' x) = (if x = a then hb_size (h a) + (HEADER + hb_size (h b)) else hb_size (h x))"
    "hb_free (h' x) = hb_free (h x)" "hb_next (h' x) = (if x = a then ?nb else hb_next (h x))"
    "hb_prev (h' x) = (if x = ?nb \<and> ?nb \<noteq> 0 then a else hb_prev (h x))" for x
    by (auto simp: h'_def merge_blocks_def)
  show "hb_free (h' a) = hb_free (h a)" by (simp add: fields)
  have mem: "x \<noteq> a" if "x \<in> set as \<union> set bs" for x using that na(3) by auto
  then show "\<forall>x \<in> set as \<union> set bs. hb_size (h' x) = hb_size (h x) \<and> hb_free (h' x) = hb_free (h x)"
    by (simp add: fields)
  have nb_cases: "?nb = 0 \<and> bs = [] \<or> ?nb \<noteq> 0 \<and> bs \<noteq> [] \<and> ?nb = hd bs"
    using nb(4,5) by (cases bs) auto
  have not_next: "x \<noteq> ?nb \<or> ?nb = 0" if "x \<in> insert a (set as)" for x
    using that na(3) nb_cases by (cases bs) auto
  have "chain h' 0 as a"
  proof (rule chain_cong)
    show "chain h 0 as a" using ch by (simp add: chain_append)
    fix x assume "x \<in> set as"
    then show "hb_prev (h' x) = hb_prev (h x) \<and> hb_next (h' x) = hb_next (h x)"
      using not_next [of x] mem [of x] by (auto simp: fields)
  qed
  moreover have "chain h' a bs 0"
  proof (rule chain_relink_prev)
    show "chain h b bs 0" using ch by (simp add: chain_append)
    show "0 \<notin> set bs" "distinct bs" using na(3,4) by auto
    fix x assume "x \<in> set bs"
    then show "hb_next (h' x) = hb_next (h x) \<and>
        hb_prev (h' x) = (if x = hd bs then a else hb_prev (h x))"
      using mem [of x] nb_cases by (auto simp: fields)
  qed
  ultimately show "chain h' 0 (as @ a # bs) 0"
    using na(6) nb(5) not_next [of a] by (auto simp: chain_append fields)
  have "block_ok h' x" if "x \<in> set as \<union> set bs" for x
    using block_ok_cong [of h' x h] mem [OF that] ok that by (auto simp: fields)
  moreover have "block_ok h' a"
    using oka nexta size by (auto simp: block_ok_def block_end_def fields split: if_splits)
  ultimately show "\<forall>x \<in> set (as @ a # bs). block_ok h' x" by auto
qed

lemma coalesce_next_eq:
  "coalesce_next b h = (if hb_next (h b) \<noteq> 0 \<and> hb_free (h (hb_next (h b))) \<noteq> 0
     then merge_blocks b (hb_next (h b)) h else h)"
  by (simp add: coalesce_next_def merge_blocks_def Let_def)

lemma coalesce_prev_eq:
  "hb_prev (h b) \<noteq> b \<Longrightarrow> coalesce_prev b h =
     (if hb_prev (h b) \<noteq> 0 \<and> hb_free (h (hb_prev (h b))) \<noteq> 0
      then merge_blocks (hb_prev (h b)) b h else h)"
  by (simp add: coalesce_prev_def merge_blocks_def Let_def)

text \<open>The part of the invariant that does not depend on the byte count.\<close>

definition blocks_inv :: "(u32 \<Rightarrow> heap_block) \<Rightarrow> u32 list \<Rightarrow> bool" where
  "blocks_inv h xs \<longleftrightarrow> chain h 0 xs 0 \<and> (\<forall>x \<in> set xs. block_ok h x)"

lemma coalesce_next_inv:
  assumes "blocks_inv h (as @ b # bs)" and "hb_free (h b) \<noteq> 0"
    and "no_free_pair h as" and "no_free_pair h bs"
  obtains cs where "blocks_inv (coalesce_next b h) (as @ b # cs)"
    "hb_free (coalesce_next b h b) \<noteq> 0" "set cs \<subseteq> set bs"
    "\<forall>x \<in> set as \<union> set cs. hb_size (coalesce_next b h x) = hb_size (h x) \<and>
       hb_free (coalesce_next b h x) = hb_free (h x)"
    "no_free_pair (coalesce_next b h) as" "no_free_pair (coalesce_next b h) (b # cs)"
    "used_size h cs = used_size h bs" "\<forall>x \<in> set bs - set cs. hb_free (h x) \<noteq> 0"
proof -
  have ch: "chain h 0 (as @ b # bs) 0" and ok: "\<forall>x \<in> set (as @ b # bs). block_ok h x"
    using assms(1) by (simp_all add: blocks_inv_def)
  note nb = block_neighbours [OF ch ok]
  show ?thesis
  proof (cases "bs \<noteq> [] \<and> hb_free (h (hd bs)) \<noteq> 0")
    case True
    then obtain c cs where bs: "bs = c # cs" by (cases bs) auto
    have eq: "coalesce_next b h = merge_blocks b c h"
      using True nb(4,5) bs by (simp add: coalesce_next_eq)
    have fr: "hb_free (merge_blocks b c h x) = hb_free (h x)" for x
      by (simp add: merge_blocks_def)
    have "no_free_pair (merge_blocks b c h) as" "no_free_pair (merge_blocks b c h) cs"
      using assms(3,4) bs no_free_pair_cong fr by (auto simp: no_free_pair_Cons)
    then show ?thesis
      using that [of cs, unfolded eq] merge_blocks_chain [of h as b c cs] ch ok bs assms(2,4) True fr
      by (auto simp: blocks_inv_def no_free_pair_Cons)
  next
    case False
    then have eq: "coalesce_next b h = h"
      using nb(5) by (cases bs) (auto simp: coalesce_next_eq)
    show ?thesis
      using that [of bs, unfolded eq] assms False by (auto simp: no_free_pair_Cons)
  qed
qed

lemma coalesce_prev_inv:
  assumes "blocks_inv h (as @ b # bs)" and "hb_free (h b) \<noteq> 0"
    and "no_free_pair h as" and "no_free_pair h (b # bs)"
  obtains cs where "blocks_inv (coalesce_prev b h) cs" "hd cs = hd (as @ b # bs)" "cs \<noteq> []"
    "set cs \<subseteq> set (as @ b # bs)"
    "\<forall>x \<in> set as \<union> set bs. hb_free (h x) = 0 \<longrightarrow>
       x \<in> set cs \<and> hb_size (coalesce_prev b h x) = hb_size (h x)"
    "\<forall>x. hb_free (coalesce_prev b h x) = hb_free (h x)"
    "no_free_pair (coalesce_prev b h) cs" "used_size (coalesce_prev b h) cs = used_size h (as @ b # bs)"
proof -
  have ch: "chain h 0 (as @ b # bs) 0" and ok: "\<forall>x \<in> set (as @ b # bs). block_ok h x"
    using assms(1) by (simp_all add: blocks_inv_def)
  note nb = block_neighbours [OF ch ok]
  have notself: "hb_prev (h b) \<noteq> b"
    using nb(3,4,6) by (cases as rule: rev_cases) auto
  show ?thesis
  proof (cases "as \<noteq> [] \<and> hb_free (h (last as)) \<noteq> 0")
    case True
    then obtain a ds where as: "as = ds @ [a]" by (cases as rule: rev_cases) auto
    have a0: "a \<noteq> 0" using nb(4) as by auto
    have eq: "coalesce_prev b h = merge_blocks a b h"
      using True nb(6) as notself a0 by (simp add: coalesce_prev_eq)
    have fr: "hb_free (merge_blocks a b h x) = hb_free (h x)" for x
      by (simp add: merge_blocks_def)
    have m: "chain (merge_blocks a b h) 0 (ds @ a # bs) 0"
      "\<forall>x \<in> set (ds @ a # bs). block_ok (merge_blocks a b h) x"
      "\<forall>x \<in> set ds \<union> set bs. hb_size (merge_blocks a b h x) = hb_size (h x) \<and>
         hb_free (merge_blocks a b h x) = hb_free (h x)"
      using merge_blocks_chain [of h ds a b bs] ch ok as by simp_all
    have "no_free_pair h (ds @ a # bs)"
      using assms(3,4) assms(2) as by (auto simp: no_free_pair_append no_free_pair_Cons)
    then have nfp: "no_free_pair (merge_blocks a b h) (ds @ a # bs)"
      by (rule no_free_pair_cong) (simp add: fr)
    have "used_size (merge_blocks a b h) ds = used_size h ds"
      "used_size (merge_blocks a b h) bs = used_size h bs"
      using m(3) by (auto intro: used_size_cong)
    then have us: "used_size (merge_blocks a b h) (ds @ a # bs) = used_size h (as @ b # bs)"
      using True assms(2) as fr by simp
    have "hd (ds @ a # bs) = hd (as @ b # bs)" using as by (cases ds) auto
    moreover have "set (ds @ a # bs) \<subseteq> set (as @ b # bs)" using as by auto
    ultimately show ?thesis
      using that [of "ds @ a # bs", unfolded eq] m nfp us fr as True
      by (auto simp: blocks_inv_def)
  next
    case False
    then have eq: "coalesce_prev b h = h"
      using nb(6) notself by (cases as rule: rev_cases) (auto simp: coalesce_prev_eq)
    show ?thesis
      using that [of "as @ b # bs", unfolded eq] assms False by (auto simp: no_free_pair_append)
  qed
qed

lemma kfree_live:
  assumes inv: "heap_inv s (as @ b # bs)" and live: "hb_free (heap_blocks s b) = 0"
  obtains ds where "heap_inv (kfree (b + HEADER) s) ds"
    and "\<forall>x \<in> set as \<union> set bs. hb_free (heap_blocks s x) = 0 \<longrightarrow> x \<in> set ds \<and>
      hb_free (heap_blocks (kfree (b + HEADER) s) x) = 0 \<and>
      hb_size (heap_blocks (kfree (b + HEADER) s) x) = hb_size (heap_blocks s x)"
    and "hb_free (heap_blocks (kfree (b + HEADER) s) b) \<noteq> 0"
    and "heap_used (kfree (b + HEADER) s) = heap_used s - hb_size (heap_blocks s b)"
proof -
  let ?h = "heap_blocks s" and ?s = "kfree (b + HEADER) s"
  define h1 where "h1 = ?h(b := (?h b)\<lparr>hb_free := 1\<rparr>)"
  have ch: "chain ?h 0 (as @ b # bs) 0" and ok: "\<forall>x \<in> set (as @ b # bs). block_ok ?h x"
    and hds: "hd (as @ b # bs) = HEAP_START" "heap_head s = HEAP_START"
    and used: "unat (heap_used s) = used_size ?h (as @ b # bs)"
    and nfp: "no_free_pair ?h (as @ b # bs)"
    using inv by (simp_all add: heap_inv_def)
  have dist: "distinct (as @ b # bs)" using block_neighbours(3) [OF ch ok] .
  have b0: "b + HEADER \<noteq> 0"
  proof -
    have "unat b + 16 < 2 ^ 32"
      using ok by (simp add: block_ok_def block_end_def heap_end_def)
    then have "unat (b + HEADER) = unat b + 16" by (simp add: unat_add_no_wrap HEADER_def)
    then show ?thesis by (auto simp: unat_eq_0 [symmetric])
  qed
  have fld: "hb_size (h1 x) = hb_size (?h x)" "hb_next (h1 x) = hb_next (?h x)"
    "hb_prev (h1 x) = hb_prev (?h x)" "hb_free (h1 x) = (if x = b then 1 else hb_free (?h x))" for x
    by (simp_all add: h1_def)
  have bi: "blocks_inv h1 (as @ b # bs)"
    unfolding blocks_inv_def using chain_cong [OF ch] block_ok_cong [of h1 _ ?h] ok fld by blast
  have same: "used_size h1 as = used_size ?h as" "used_size h1 bs = used_size ?h bs"
    "no_free_pair h1 as" "no_free_pair h1 bs"
    using dist nfp fld
    by (auto intro!: used_size_cong intro: no_free_pair_cong simp: no_free_pair_append no_free_pair_Cons)
  have "hb_size (?h b) \<le> heap_used s" using used live by (simp add: word_le_nat_alt)
  then have res: "heap_blocks ?s = coalesce b h1" "heap_used ?s = heap_used s - hb_size (?h b)"
    "heap_head ?s = heap_head s"
    using b0 live by (simp_all add: kfree_def Let_def h1_def)
  have rem: "unat (heap_used ?s) = used_size ?h as + used_size ?h bs"
    using used live \<open>hb_size (?h b) \<le> heap_used s\<close>
    by (simp add: res unat_sub_no_wrap word_le_nat_alt)
  obtain cs where cs: "blocks_inv (coalesce_next b h1) (as @ b # cs)"
      "hb_free (coalesce_next b h1 b) \<noteq> 0" "set cs \<subseteq> set bs"
      "\<forall>x \<in> set as \<union> set cs. hb_size (coalesce_next b h1 x) = hb_size (h1 x) \<and>
         hb_free (coalesce_next b h1 x) = hb_free (h1 x)"
      "no_free_pair (coalesce_next b h1) as" "no_free_pair (coalesce_next b h1) (b # cs)"
      "used_size h1 cs = used_size h1 bs" "\<forall>x \<in> set bs - set cs. hb_free (h1 x) \<noteq> 0"
    using coalesce_next_inv [OF bi _ same(3,4)] fld(4) [of b] by auto
  obtain ds where ds: "blocks_inv (coalesce b h1) ds" "hd ds = hd (as @ b # cs)" "ds \<noteq> []"
      "\<forall>x \<in> set as \<union> set cs. hb_free (coalesce_next b h1 x) = 0 \<longrightarrow>
         x \<in> set ds \<and> hb_size (coalesce b h1 x) = hb_size (coalesce_next b h1 x)"
      "\<forall>x. hb_free (coalesce b h1 x) = hb_free (coalesce_next b h1 x)"
      "no_free_pair (coalesce b h1) ds"
      "used_size (coalesce b h1) ds = used_size (coalesce_next b h1) (as @ b # cs)"
    using coalesce_prev_inv [OF cs(1,2,5,6)] unfolding coalesce_def by metis
  have "used_size (coalesce_next b h1) as = used_size h1 as"
    "used_size (coalesce_next b h1) cs = used_size h1 cs"
    using cs(4) by (auto intro: used_size_cong)
  then have "unat (heap_used ?s) = used_size (coalesce b h1) ds"
    using ds(7) cs(2,7) same rem by simp
  then have hinv: "heap_inv ?s ds"
    using ds hds res by (cases as) (auto simp: heap_inv_def blocks_inv_def)
  have keep: "x \<in> set ds \<and> hb_free (coalesce b h1 x) = 0 \<and> hb_size (coalesce b h1 x) = hb_size (?h x)"
    if "x \<in> set as \<union> set bs" "hb_free (?h x) = 0" for x
  proof -
    have "x \<noteq> b" using that dist by auto
    then have "x \<in> set as \<union> set cs" using that cs(8) fld(4) [of x] by auto
    then show ?thesis using ds(4,5) cs(4) fld [of x] that \<open>x \<noteq> b\<close> by simp
  qed
  show ?thesis
    using that [OF hinv] keep res ds(5) cs(2) by simp
qed

section \<open>Properties\<close>

definition live_block :: "heap_state \<Rightarrow> u32 list \<Rightarrow> u32 \<Rightarrow> bool" where
  "live_block s xs x \<longleftrightarrow> x \<in> set xs \<and> hb_free (heap_blocks s x) = 0"

lemma ordered_disjoint:
  assumes "sorted_wrt (\<lambda>x y. block_end h x \<le> unat y) xs" and "x \<in> set xs" and "y \<in> set xs" and "x \<noteq> y"
  shows "block_end h x \<le> unat y \<or> block_end h y \<le> unat x"
  using assms by (induction xs) auto

lemma heap_inv_disjoint:
  assumes "heap_inv s xs" and "x \<in> set xs" and "y \<in> set xs" and "x \<noteq> y"
  shows "{unat x ..< block_end (heap_blocks s) x} \<inter> {unat y ..< block_end (heap_blocks s) y} = {}"
  using ordered_disjoint [OF heap_inv_ordered [OF assms(1)] assms(2-4)] by auto

lemma heap_inv_search:
  assumes "heap_inv s xs"
  shows "heap_search (heap_blocks s) needed (heap_head s) =
    Some (case List.find (\<lambda>b. hb_free (heap_blocks s b) \<noteq> 0 \<and> needed \<le> hb_size (heap_blocks s b)) xs of
            Some b \<Rightarrow> b | None \<Rightarrow> 0)"
proof -
  have "0 \<notin> set xs" using assms block_ok_nonzero by (auto simp: heap_inv_def)
  then show ?thesis
    using heap_search_chain [of "heap_blocks s" 0 xs needed] assms by (cases xs) (auto simp: heap_inv_def)
qed

lemma kmalloc_found:
  assumes "heap_inv s xs" and "sz \<noteq> 0" and "unat sz \<le> 0xFFFFFFF0"
    and "List.find (\<lambda>b. hb_free (heap_blocks s b) \<noteq> 0 \<and>
      heap_align_up sz \<le> hb_size (heap_blocks s b)) xs = Some b"
  obtains s' xs' where "kmalloc sz s = Some (b + HEADER, s')" "heap_inv s' xs'" "b \<in> set xs"
    "live_block s' xs' b" "\<not> live_block s xs b" "heap_align_up sz \<le> hb_size (heap_blocks s' b)"
    "\<forall>x. live_block s xs x \<longrightarrow> live_block s' xs' x \<and>
       hb_size (heap_blocks s' x) = hb_size (heap_blocks s x)"
    "\<forall>x. live_block s' xs' x \<longrightarrow> x = b \<or> live_block s xs x"
proof -
  have b: "b \<in> set xs" "hb_free (heap_blocks s b) \<noteq> 0" "heap_align_up sz \<le> hb_size (heap_blocks s b)"
    using assms(4) by (auto simp: find_Some_iff)
  obtain as bs where xs: "xs = as @ b # bs" using b(1) split_list by fast
  have "block_ok (heap_blocks s) b" using assms(1) b(1) by (simp add: heap_inv_def)
  then have b0: "b \<noteq> 0" by (rule block_ok_nonzero)
  have al: "unat (heap_align_up sz) mod 16 = 0"
    using unat_heap_align_up [OF assms(3)] by simp
  define h where "h = split_block b (heap_align_up sz) (heap_blocks s)"
  define h' where "h' = h(b := (h b)\<lparr>hb_free := 0\<rparr>)"
  define s' where "s' = s\<lparr>heap_blocks := h', heap_used := heap_used s + hb_size (h' b)\<rparr>"
  have km: "kmalloc sz s = Some (b + HEADER, s')"
    using assms(1,2,4) b0 heap_inv_search [OF assms(1)]
    by (simp add: kmalloc_def Let_def s'_def h'_def h_def) (auto simp: heap_inv_def HEAP_START_def)
  have dist: "distinct xs" using ordered_distinct [OF heap_inv_ordered [OF assms(1)]] .
  obtain cs where cs: "heap_inv s' (as @ b # cs @ bs)" "heap_align_up sz \<le> hb_size (h' b)"
      "\<forall>x \<in> set as \<union> set bs. hb_size (h' x) = hb_size (heap_blocks s x) \<and>
         hb_free (h' x) = hb_free (heap_blocks s x)" "\<forall>x \<in> set cs. hb_free (h' x) \<noteq> 0"
    using take_block [OF assms(1) [unfolded xs] b(2,3) al] unfolding h_def [symmetric] h'_def [symmetric]
      s'_def [symmetric] by metis
  have h': "heap_blocks s' = h'" "hb_free (h' b) = 0" by (simp_all add: s'_def h'_def)
  have keep: "\<forall>x. live_block s xs x \<longrightarrow> live_block s' (as @ b # cs @ bs) x \<and>
      hb_size (heap_blocks s' x) = hb_size (heap_blocks s x)"
    using cs(3) b(2) xs h' by (auto simp: live_block_def)
  have new: "\<forall>x. live_block s' (as @ b # cs @ bs) x \<longrightarrow> x = b \<or> live_block s xs x"
    using cs(3,4) xs h' by (auto simp: live_block_def)
  show ?thesis
    using that [OF km cs(1) b(1) _ _ _ keep new] cs(2) b(2) h' by (auto simp: live_block_def)
qed

text \<open>A request whose size can be rounded up to the alignment.\<close>

lemma kmalloc_fits:
  assumes "heap_inv s xs" and "sz \<noteq> 0" and "unat sz \<le> 0xFFFFFFF0"
  shows "\<exists>p s' xs'. kmalloc sz s = Some (p, s') \<and> heap_inv s' xs' \<and>
    (if \<exists>b \<in> set xs. \<not> live_block s xs b \<and> heap_align_up sz \<le> hb_size (heap_blocks s b)
     then unat p mod 16 = 0 \<and> live_block s' xs' (p - HEADER) \<and> \<not> live_block s xs (p - HEADER) \<and>
       unat HEAP_START < unat p \<and> unat p + unat sz \<le> block_end (heap_blocks s') (p - HEADER) \<and>
       block_end (heap_blocks s') (p - HEADER) \<le> heap_end \<and>
       (\<forall>x. live_block s xs x \<longrightarrow> live_block s' xs' x \<and>
          hb_size (heap_blocks s' x) = hb_size (heap_blocks s x) \<and>
          {unat x ..< block_end (heap_blocks s') x} \<inter>
          {unat (p - HEADER) ..< block_end (heap_blocks s') (p - HEADER)} = {})
     else p = 0 \<and> s' = s \<and> xs' = xs)"
proof (cases "List.find (\<lambda>b. hb_free (heap_blocks s b) \<noteq> 0 \<and>
      heap_align_up sz \<le> hb_size (heap_blocks s b)) xs")
  case None
  then have "\<not> (\<exists>b \<in> set xs. \<not> live_block s xs b \<and> heap_align_up sz \<le> hb_size (heap_blocks s b))"
    by (auto simp: find_None_iff live_block_def)
  moreover have "kmalloc sz s = Some (0, s)"
    using None heap_inv_search [OF assms(1)] by (simp add: kmalloc_def Let_def)
  ultimately show ?thesis using assms(1) by auto
next
  case (Some b)
  from kmalloc_found [OF assms Some] obtain s' xs' where km: "kmalloc sz s = Some (b + HEADER, s')"
    and inv': "heap_inv s' xs'" and b: "b \<in> set xs" "live_block s' xs' b" "\<not> live_block s xs b"
      "heap_align_up sz \<le> hb_size (heap_blocks s' b)"
    and keep: "\<forall>x. live_block s xs x \<longrightarrow> live_block s' xs' x \<and>
       hb_size (heap_blocks s' x) = hb_size (heap_blocks s x)"
    by metis
  have ok: "block_ok (heap_blocks s') b" using inv' b(2) by (auto simp: heap_inv_def live_block_def)
  then have p: "unat (b + HEADER) = unat b + 16"
    by (simp add: block_ok_def block_end_def heap_end_def unat_add_no_wrap HEADER_def)
  have "unat sz \<le> unat (heap_align_up sz)"
    using unat_heap_align_up [OF assms(3)] by simp
  then have fit: "unat (b + HEADER) + unat sz \<le> block_end (heap_blocks s') b"
    using b(4) p by (simp add: block_end_def word_le_nat_alt)
  have disj: "{unat x ..< block_end (heap_blocks s') x} \<inter> {unat b ..< block_end (heap_blocks s') b} = {}"
    if "live_block s xs x" for x
    using heap_inv_disjoint [OF inv', of x b] keep that b(2,3) by (auto simp: live_block_def)
  have exist: "\<exists>b \<in> set xs. \<not> live_block s xs b \<and> heap_align_up sz \<le> hb_size (heap_blocks s b)"
    using Some b(3) by (auto simp: find_Some_iff live_block_def)
  have "unat (b + HEADER) mod 16 = 0" "unat HEAP_START < unat (b + HEADER)"
    "block_end (heap_blocks s') b \<le> heap_end"
    using ok p by (auto simp: block_ok_def)
  then show ?thesis
    using km inv' b keep fit disj exist
    by (intro exI [of _ "b + HEADER"] exI [of _ s'] exI [of _ xs']) simp
qed

text \<open>A request of more than 0xFFFFFFF0 bytes wraps around in the rounding to the alignment:
  the rounded size is 0, so kmalloc takes the first free block and hands out a pointer as if the
  request had been met.\<close>

lemma kmalloc_huge_request_wraps:
  assumes "unat sz > 0xFFFFFFF0" and "heap_inv s xs"
  shows "heap_align_up sz = 0 \<and>
    (if \<exists>b \<in> set xs. \<not> live_block s xs b then \<exists>p s'. kmalloc sz s = Some (p, s') \<and> p \<noteq> 0
     else kmalloc sz s = Some (0, s))"
proof -
  have zero: "heap_align_up sz = 0"
  proof -
    have lt: "unat sz < 0x100000000" by simp
    have "unat (sz + 15) = (unat sz + 15) mod 0x100000000" by (simp add: unat_word_ariths)
    also have "\<dots> = (unat sz + 15 - 0x100000000) mod 0x100000000"
      by (rule le_mod_geq) (use assms(1) in linarith)
    also have "\<dots> \<le> unat sz + 15 - 0x100000000" by (rule mod_less_eq_dividend)
    also have "\<dots> < 16" using lt by linarith
    finally have small: "unat (sz + 15) < 16" .
    have "(sz + 15) AND 15 = sz + 15"
      using unat_and_mask [of "sz + 15" 4] small
      by (simp add: mask_eq_exp_minus_1 word_unat_eq_iff)
    then show ?thesis
      using and_not_eq_minus_and [of "sz + 15" 15] by (simp add: heap_align_up_def ALIGNMENT_def)
  qed
  have sz0: "sz \<noteq> 0" using assms(1) by auto
  have "\<exists>p s'. kmalloc sz s = Some (p, s') \<and> p \<noteq> 0" if "\<exists>b \<in> set xs. \<not> live_block s xs b"
  proof -
    let ?find = "List.find (\<lambda>b. hb_free (heap_blocks s b) \<noteq> 0 \<and> 0 \<le> hb_size (heap_blocks s b)) xs"
    have "?find \<noteq> None" using that by (auto simp: find_None_iff live_block_def)
    then obtain b where b: "?find = Some b" by auto
    then have "b \<in> set xs" by (auto simp: find_Some_iff)
    then have ok: "block_ok (heap_blocks s) b" using assms(2) by (simp add: heap_inv_def)
    then have "unat (b + HEADER) = unat b + 16"
      by (simp add: block_ok_def block_end_def heap_end_def unat_add_no_wrap HEADER_def)
    then have "b + HEADER \<noteq> 0" by (auto simp: unat_eq_0 [symmetric])
    then show ?thesis
      using b zero sz0 block_ok_nonzero [OF ok] heap_inv_search [OF assms(2), of 0] assms(2)
      by (auto simp: kmalloc_def Let_def heap_inv_def HEAP_START_def)
  qed
  moreover have "kmalloc sz s = Some (0, s)" if "\<not> (\<exists>b \<in> set xs. \<not> live_block s xs b)"
  proof -
    have "List.find (\<lambda>b. hb_free (heap_blocks s b) \<noteq> 0 \<and> 0 \<le> hb_size (heap_blocks s b)) xs = None"
      using that by (auto simp: find_None_iff live_block_def)
    then show ?thesis using heap_inv_search [OF assms(2), of 0] zero by (simp add: kmalloc_def Let_def)
  qed
  ultimately show ?thesis using zero by simp
qed

text \<open>C17: A kmalloc request always returns. A request for no bytes fails. A request of at most 0xFFFFFFF0 bytes succeeds exactly when
  some free block is large enough; then the pointer is 16-byte aligned, the payload of at least
  the requested size lies inside the heap, no byte of the block belongs to another live block,
  and every block that was live stays live at its size. A request that fails changes nothing. A request of more than 0xFFFFFFF0 bytes, which no heap could meet, wraps around to
  one for 0 bytes when it is rounded up: it succeeds whenever any block is free.\<close>

theorem kmalloc_spec:
  assumes "heap_inv s xs"
  shows "(sz = 0 \<longrightarrow> kmalloc sz s = Some (0, s)) \<and>
    (sz \<noteq> 0 \<and> unat sz \<le> 0xFFFFFFF0 \<longrightarrow> (\<exists>p s' xs'. kmalloc sz s = Some (p, s') \<and> heap_inv s' xs' \<and>
      (if \<exists>b \<in> set xs. \<not> live_block s xs b \<and> heap_align_up sz \<le> hb_size (heap_blocks s b)
       then unat p mod 16 = 0 \<and> live_block s' xs' (p - HEADER) \<and> \<not> live_block s xs (p - HEADER) \<and>
         unat HEAP_START < unat p \<and> unat p + unat sz \<le> block_end (heap_blocks s') (p - HEADER) \<and>
         block_end (heap_blocks s') (p - HEADER) \<le> heap_end \<and>
         (\<forall>x. live_block s xs x \<longrightarrow> live_block s' xs' x \<and>
            hb_size (heap_blocks s' x) = hb_size (heap_blocks s x) \<and>
            {unat x ..< block_end (heap_blocks s') x} \<inter>
            {unat (p - HEADER) ..< block_end (heap_blocks s') (p - HEADER)} = {})
       else p = 0 \<and> s' = s \<and> xs' = xs))) \<and>
    (0xFFFFFFF0 < unat sz \<longrightarrow> heap_align_up sz = 0 \<and>
      (if \<exists>b \<in> set xs. \<not> live_block s xs b then \<exists>p s'. kmalloc sz s = Some (p, s') \<and> p \<noteq> 0
       else kmalloc sz s = Some (0, s)))"
proof (intro conjI)
  show "sz = 0 \<longrightarrow> kmalloc sz s = Some (0, s)" by (simp add: kmalloc_def)
qed (intro impI, elim conjE, erule (1) kmalloc_fits [OF assms], intro impI, erule kmalloc_huge_request_wraps [OF _ assms])

definition heap_demo :: heap_state where
  "heap_demo = allocator_init \<lparr>heap_blocks = (\<lambda>_. \<lparr>hb_size = 0, hb_free = 0, hb_next = 0, hb_prev = 0\<rparr>),
     heap_head = 0, heap_used = 0\<rparr>"

theorem kmalloc_spec_witness:
  "\<exists>p s' xs'. kmalloc 24 heap_demo = Some (p, s') \<and> heap_inv s' xs' \<and> unat p mod 16 = 0 \<and>
     live_block s' xs' (p - HEADER)"
proof -
  have inv: "heap_inv heap_demo [HEAP_START]" by (simp add: heap_demo_def allocator_init_inv)
  have "\<exists>b \<in> set [HEAP_START]. \<not> live_block heap_demo [HEAP_START] b \<and>
      heap_align_up 24 \<le> hb_size (heap_blocks heap_demo b)"
    by (simp add: live_block_def heap_demo_def allocator_init_def heap_align_up_def heap_consts)
  then show ?thesis using kmalloc_spec [OF inv, of 24] by auto
qed

text \<open>C18: Freeing a live block keeps the heap well formed (the blocks still tile it, free
  neighbours are merged, the byte count stays exact), gives exactly that block back, and leaves
  every other live block in place at its size.\<close>

theorem kfree_spec:
  assumes "heap_inv s xs" and "live_block s xs b"
  shows "\<exists>xs'. heap_inv (kfree (b + HEADER) s) xs' \<and> \<not> live_block (kfree (b + HEADER) s) xs' b \<and>
    heap_used (kfree (b + HEADER) s) = heap_used s - hb_size (heap_blocks s b) \<and>
    (\<forall>x. live_block s xs x \<and> x \<noteq> b \<longrightarrow> live_block (kfree (b + HEADER) s) xs' x \<and>
       hb_size (heap_blocks (kfree (b + HEADER) s) x) = hb_size (heap_blocks s x))"
proof -
  have "b \<in> set xs" "hb_free (heap_blocks s b) = 0" using assms(2) by (auto simp: live_block_def)
  then obtain as bs where xs: "xs = as @ b # bs" using split_list by fast
  from kfree_live [of s as b bs] assms(1) xs \<open>hb_free (heap_blocks s b) = 0\<close>
  obtain ds where ds: "heap_inv (kfree (b + HEADER) s) ds"
    "\<forall>x \<in> set as \<union> set bs. hb_free (heap_blocks s x) = 0 \<longrightarrow> x \<in> set ds \<and>
      hb_free (heap_blocks (kfree (b + HEADER) s) x) = 0 \<and>
      hb_size (heap_blocks (kfree (b + HEADER) s) x) = hb_size (heap_blocks s x)"
    "hb_free (heap_blocks (kfree (b + HEADER) s) b) \<noteq> 0"
    "heap_used (kfree (b + HEADER) s) = heap_used s - hb_size (heap_blocks s b)"
    by blast
  show ?thesis
    by (rule exI [of _ ds]) (use ds xs in \<open>auto simp: live_block_def\<close>)
qed

lemma heap_demo_malloc:
  "kmalloc 24 heap_demo = Some (0x200010, snd (the (kmalloc 24 heap_demo)))"
  by (simp add: kmalloc_def heap_demo_def allocator_init_def heap_align_up_def heap_consts
      heap_search.simps Let_def)

theorem kfree_spec_witness:
  "\<exists>xs xs'. live_block (snd (the (kmalloc 24 heap_demo))) xs HEAP_START \<and>
     heap_inv (kfree 0x200010 (snd (the (kmalloc 24 heap_demo)))) xs'"
proof -
  have inv: "heap_inv heap_demo [HEAP_START]" by (simp add: heap_demo_def allocator_init_inv)
  have found: "List.find (\<lambda>b. hb_free (heap_blocks heap_demo b) \<noteq> 0 \<and>
      heap_align_up 24 \<le> hb_size (heap_blocks heap_demo b)) [HEAP_START] = Some HEAP_START"
    by (simp add: heap_demo_def allocator_init_def heap_align_up_def heap_consts)
  obtain s' xs' where s': "kmalloc 24 heap_demo = Some (HEAP_START + HEADER, s')"
      "heap_inv s' xs'" "live_block s' xs' HEAP_START"
    by (rule kmalloc_found [OF inv _ _ found]) simp_all
  then show ?thesis
    using kfree_spec [OF s'(2,3)] heap_demo_malloc by (auto simp: heap_consts)
qed

end
