(* ===== verification/Channel.thy ===== *)
theory Channel
  imports Prelude
begin

text \<open>
  The contract shared by the two byte queues of the kernel, the keyboard buffer and the pipe:
  bytes come out in the order they went in, none is lost, invented or duplicated. The contract
  is the locale \<open>byte_channel\<close>; its client lemma \<open>stream_conserved\<close> follows the channel through
  any sequence of sends and receives. The second part is the arithmetic of a ring buffer that
  both implementations use.
\<close>

section \<open>The contract\<close>

datatype channel_op = Send "u8 list" | Recv nat

text \<open>
  Running a sequence of operations, collecting the bytes that were accepted and the bytes that
  were delivered.
\<close>

fun channel_run :: "(u8 list \<Rightarrow> 's \<Rightarrow> nat \<times> 's) \<Rightarrow> (nat \<Rightarrow> 's \<Rightarrow> u8 list \<times> 's) \<Rightarrow>
    channel_op list \<Rightarrow> 's \<Rightarrow> u8 list \<times> u8 list \<times> 's" where
  "channel_run send recv [] s = ([], [], s)"
| "channel_run send recv (Send xs # ops) s =
     (let (k, s') = send xs s; (acc, del, s'') = channel_run send recv ops s'
      in (take k xs @ acc, del, s''))"
| "channel_run send recv (Recv n # ops) s =
     (let (ys, s') = recv n s; (acc, del, s'') = channel_run send recv ops s'
      in (acc, ys @ del, s''))"

locale byte_channel =
  fixes send :: "u8 list \<Rightarrow> 's \<Rightarrow> nat \<times> 's"
    and recv :: "nat \<Rightarrow> 's \<Rightarrow> u8 list \<times> 's"
    and contents :: "'s \<Rightarrow> u8 list"
    and capacity :: nat
    and inv :: "'s \<Rightarrow> bool"
  assumes send_law: "inv s \<Longrightarrow> send xs s = (k, s') \<Longrightarrow>
      inv s' \<and> k \<le> length xs \<and> contents s' = contents s @ take k xs"
    and recv_law: "inv s \<Longrightarrow> recv n s = (ys, s') \<Longrightarrow>
      inv s' \<and> (\<exists>m \<le> n. ys = take m (contents s) \<and> contents s' = drop m (contents s))"
    and bounded: "inv s \<Longrightarrow> length (contents s) \<le> capacity"
begin

lemma stream_conserved:
  assumes "inv s" and "channel_run send recv ops s = (acc, del, s')"
  shows "inv s' \<and> contents s @ acc = del @ contents s'"
  using assms
proof (induction ops arbitrary: s acc del)
  case Nil
  then show ?case by simp
next
  case (Cons op ops)
  show ?case
  proof (cases op)
    case (Send xs)
    obtain k s1 where s1: "send xs s = (k, s1)" by force
    obtain acc1 del1 where run: "channel_run send recv ops s1 = (acc1, del1, s')"
      and "acc = take k xs @ acc1" "del = del1"
      using Cons.prems(2) Send s1 by (auto split: prod.splits)
    with Cons.IH [OF _ run] send_law [OF Cons.prems(1) s1] show ?thesis by simp
  next
    case (Recv n)
    obtain ys s1 where s1: "recv n s = (ys, s1)" by force
    obtain acc1 del1 where run: "channel_run send recv ops s1 = (acc1, del1, s')"
      and "acc = acc1" "del = ys @ del1"
      using Cons.prems(2) Recv s1 by (auto split: prod.splits)
    moreover obtain m where "inv s1" "ys = take m (contents s)" "contents s1 = drop m (contents s)"
      using recv_law [OF Cons.prems(1) s1] by blast
    moreover have "inv s' \<and> contents s1 @ acc1 = del1 @ contents s'"
      using Cons.IH [OF \<open>inv s1\<close> run] .
    ultimately show ?thesis by (metis append.assoc append_take_drop_id)
  qed
qed

lemma undelivered_bounded:
  assumes "inv s" and "contents s = []" and "channel_run send recv ops s = (acc, del, s')"
  shows "length del \<le> length acc \<and> length acc \<le> length del + capacity"
  using stream_conserved [OF assms(1,3)] bounded [of s'] assms(2)
  by (auto dest: arg_cong [where f = length])

end

section \<open>Ring buffers\<close>

text \<open>The \<open>n\<close> bytes of a ring of \<open>cap\<close> bytes that start at \<open>pos\<close>.\<close>

definition ring :: "(nat \<Rightarrow> 'a) \<Rightarrow> nat \<Rightarrow> nat \<Rightarrow> nat \<Rightarrow> 'a list" where
  "ring buf cap pos n = map (\<lambda>i. buf ((pos + i) mod cap)) [0..<n]"

lemma length_ring [simp]: "length (ring buf cap pos n) = n"
  by (simp add: ring_def)

lemma ring_0 [simp]: "ring buf cap pos 0 = []"
  by (simp add: ring_def)

lemma ring_Suc: "ring buf cap pos (Suc n) = ring buf cap pos n @ [buf ((pos + n) mod cap)]"
  by (simp add: ring_def)

lemma ring_mod: "ring buf cap (pos mod cap) n = ring buf cap pos n"
  by (simp add: ring_def mod_add_left_eq)

lemma ring_take: "m \<le> n \<Longrightarrow> take m (ring buf cap pos n) = ring buf cap pos m"
  by (simp add: ring_def take_map)

lemma ring_drop: "m \<le> n \<Longrightarrow> drop m (ring buf cap pos n) = ring buf cap (pos + m) (n - m)"
  by (rule nth_equalityI) (auto simp: ring_def add.assoc nth_append)

lemma ring_add:
  "ring buf cap pos (m + n) = ring buf cap pos m @ ring buf cap (pos + m) n"
  using append_take_drop_id [of m "ring buf cap pos (m + n)"]
  by (simp add: ring_take ring_drop)

lemma mod_inj_window:
  assumes "(pos + i) mod cap = (pos + j) mod cap" and "i < cap" and "j < (cap :: nat)"
  shows "i = j"
proof -
  have le: "a = b" if "(pos + a) mod cap = (pos + b) mod cap" "a \<le> b" "b < cap" for a b
  proof -
    have "cap dvd b - a"
      using that mod_eq_dvd_iff_nat [of "pos + a" "pos + b" cap] by auto
    moreover have "b - a < cap" using that by simp
    ultimately show ?thesis using that(2) by (auto dest: nat_dvd_not_less)
  qed
  show ?thesis using le [of i j] le [of j i] assms by (cases "i \<le> j") auto
qed

lemma ring_upd_outside:
  assumes "n \<le> i" and "i < cap"
  shows "ring (buf((pos + i) mod cap := c)) cap pos n = ring buf cap pos n"
proof -
  have "(pos + j) mod cap \<noteq> (pos + i) mod cap" if "j < n" for j
    using mod_inj_window [of pos j cap i] assms that by auto
  then show ?thesis by (simp add: ring_def)
qed

lemma ring_push:
  assumes "n < cap"
  shows "ring (buf((pos + n) mod cap := c)) cap pos (Suc n) = ring buf cap pos n @ [c]"
  using assms by (simp add: ring_Suc ring_upd_outside)

end
