(* ===== verification/Keyboard.thy ===== *)
theory Keyboard
  imports Channel
begin

text \<open>
  The keyboard driver, \<^verbatim>\<open>src/kernel/keyboard.c\<close>: a 256-byte ring between the interrupt
  handler and the reader, which is full at 255 bytes. The scancode read from port 0x60 is an
  argument of the handler. \<open>keyboard_getchar\<close> halts the CPU while the ring is empty: that is
  the value \<open>None\<close>, after which the call is made again in the state an interrupt has left.
\<close>

definition KEYBOARD_BUFFER_SIZE :: nat where "KEYBOARD_BUFFER_SIZE = 256"

record keyboard =
  key_buffer :: "nat \<Rightarrow> u8"
  buffer_head :: nat
  buffer_tail :: nat

definition scancode_table :: "u8 list" where
  "scancode_table =
    [0, 27, 49, 50, 51, 52, 53, 54, 55, 56, 57, 48, 45, 61, 8, 9,
     113, 119, 101, 114, 116, 121, 117, 105, 111, 112, 91, 93, 10, 0, 97, 115,
     100, 102, 103, 104, 106, 107, 108, 59, 39, 96, 0, 92, 122, 120, 99, 118,
     98, 110, 109, 44, 46, 47, 0, 42, 0, 32] @ replicate 70 0"

definition buffer_put :: "u8 \<Rightarrow> keyboard \<Rightarrow> keyboard" where
  "buffer_put c s =
     (let next = (buffer_head s + 1) mod KEYBOARD_BUFFER_SIZE in
      if next \<noteq> buffer_tail s
      then s\<lparr>key_buffer := (key_buffer s)(buffer_head s := c), buffer_head := next\<rparr>
      else s)"

definition keyboard_handler :: "u8 \<Rightarrow> keyboard \<Rightarrow> keyboard" where
  "keyboard_handler scancode s =
     (if scancode AND 0x80 \<noteq> 0 then s
      else let c = scancode_table ! unat scancode in if c \<noteq> 0 then buffer_put c s else s)"

text \<open>
  \<open>keyboard_init\<close> also reads the controller's configuration byte and writes it back with the
  interrupt enabled and the clock line released; the port writes are returned in order.
\<close>

definition keyboard_init :: "u8 \<Rightarrow> keyboard \<Rightarrow> (u16 \<times> u8) list \<times> keyboard" where
  "keyboard_init status s =
     ([(0x64, 0xAE), (0x64, 0x20), (0x64, 0x60), (0x60, (status OR 0x01) AND NOT 0x10)],
      s\<lparr>buffer_head := 0, buffer_tail := 0\<rparr>)"

definition keyboard_getchar :: "keyboard \<Rightarrow> (u8 \<times> keyboard) option" where
  "keyboard_getchar s =
     (if buffer_head s = buffer_tail s then None
      else Some (key_buffer s (buffer_tail s),
                 s\<lparr>buffer_tail := (buffer_tail s + 1) mod KEYBOARD_BUFFER_SIZE\<rparr>))"

section \<open>The ring as a queue\<close>

definition kb_inv :: "keyboard \<Rightarrow> bool" where
  "kb_inv s \<longleftrightarrow> buffer_head s < 256 \<and> buffer_tail s < 256"

definition kb_count :: "keyboard \<Rightarrow> nat" where
  "kb_count s = (if buffer_tail s \<le> buffer_head s then buffer_head s - buffer_tail s
     else buffer_head s + 256 - buffer_tail s)"

lemma mod_256_next: "n < 256 \<Longrightarrow> Suc n mod 256 = (if n = 255 then 0 else Suc n)" for n :: nat
  by auto

definition kb_contents :: "keyboard \<Rightarrow> u8 list" where
  "kb_contents s = ring (key_buffer s) 256 (buffer_tail s) (kb_count s)"

lemma kb_head: "kb_inv s \<Longrightarrow> (buffer_tail s + kb_count s) mod 256 = buffer_head s"
  by (simp add: kb_inv_def kb_count_def)

lemma kb_count_lt: "kb_inv s \<Longrightarrow> kb_count s < 256"
  by (auto simp: kb_inv_def kb_count_def)

lemma kb_full_iff:
  assumes "kb_inv s"
  shows "(buffer_head s + 1) mod 256 = buffer_tail s \<longleftrightarrow> kb_count s = 255"
  using assms by (auto simp: kb_inv_def kb_count_def mod_256_next)

lemma kb_empty_iff: "kb_inv s \<Longrightarrow> buffer_head s = buffer_tail s \<longleftrightarrow> kb_count s = 0"
  by (auto simp: kb_inv_def kb_count_def)

lemma buffer_put_contents:
  assumes "kb_inv s"
  shows "kb_inv (buffer_put c s) \<and> kb_contents (buffer_put c s) =
    (if length (kb_contents s) < 255 then kb_contents s @ [c] else kb_contents s)"
proof (cases "kb_count s = 255")
  case True
  then show ?thesis
    using assms kb_full_iff [OF assms]
    by (simp add: buffer_put_def KEYBOARD_BUFFER_SIZE_def kb_contents_def)
next
  case False
  let ?s = "buffer_put c s"
  have lt: "kb_count s < 255" using False kb_count_lt [OF assms] by simp
  have s': "?s = s\<lparr>key_buffer := (key_buffer s)(buffer_head s := c),
      buffer_head := (buffer_head s + 1) mod 256\<rparr>"
    using False kb_full_iff [OF assms] by (simp add: buffer_put_def KEYBOARD_BUFFER_SIZE_def Let_def)
  have "kb_count ?s = Suc (kb_count s)"
    using assms lt by (auto simp: s' kb_inv_def kb_count_def mod_256_next split: if_splits)
  then have "kb_contents ?s =
      ring ((key_buffer s)((buffer_tail s + kb_count s) mod 256 := c)) 256 (buffer_tail s) (Suc (kb_count s))"
    unfolding kb_contents_def kb_head [OF assms] by (simp add: s')
  then show ?thesis
    using lt assms ring_push [of "kb_count s" 256 "key_buffer s" "buffer_tail s" c]
    by (simp add: kb_contents_def kb_inv_def s')
qed

lemma keyboard_getchar_contents:
  assumes "kb_inv s"
  shows "case keyboard_getchar s of
      None \<Rightarrow> kb_contents s = []
    | Some (c, s') \<Rightarrow> kb_inv s' \<and> kb_contents s = c # kb_contents s'"
proof (cases "kb_count s")
  case 0
  then show ?thesis
    using kb_empty_iff [OF assms] by (simp add: keyboard_getchar_def kb_contents_def)
next
  case (Suc n)
  let ?s = "s\<lparr>buffer_tail := (buffer_tail s + 1) mod 256\<rparr>"
  have get: "keyboard_getchar s = Some (key_buffer s (buffer_tail s), ?s)"
    using Suc kb_empty_iff [OF assms] by (simp add: keyboard_getchar_def KEYBOARD_BUFFER_SIZE_def)
  have n: "kb_count ?s = n"
    using assms Suc by (auto simp: kb_inv_def kb_count_def mod_256_next split: if_splits)
  have "kb_contents s = ring (key_buffer s) 256 (buffer_tail s) (1 + n)"
    by (simp add: kb_contents_def Suc)
  also have "\<dots> = key_buffer s (buffer_tail s) # ring (key_buffer s) 256 (buffer_tail s + 1) n"
    unfolding ring_add using assms by (simp add: ring_def kb_inv_def)
  also have "ring (key_buffer s) 256 (buffer_tail s + 1) n = kb_contents ?s"
    using ring_mod [of "key_buffer s" 256 "buffer_tail s + 1" n] n by (simp add: kb_contents_def)
  finally show ?thesis using get assms by (simp add: kb_inv_def)
qed

section \<open>The keyboard as a byte channel\<close>

definition kb_send :: "u8 list \<Rightarrow> keyboard \<Rightarrow> nat \<times> keyboard" where
  "kb_send xs s = (case xs of [] \<Rightarrow> (0, s)
     | c # _ \<Rightarrow> (if (buffer_head s + 1) mod 256 = buffer_tail s then 0 else 1, buffer_put c s))"

definition kb_recv :: "nat \<Rightarrow> keyboard \<Rightarrow> u8 list \<times> keyboard" where
  "kb_recv n s = (if n = 0 then ([], s)
     else case keyboard_getchar s of None \<Rightarrow> ([], s) | Some (c, s') \<Rightarrow> ([c], s'))"

interpretation kb: byte_channel kb_send kb_recv kb_contents 255 kb_inv
proof unfold_locales
  fix s xs k s'
  assume "kb_inv s" and "kb_send xs s = (k, s')"
  then show "kb_inv s' \<and> k \<le> length xs \<and> kb_contents s' = kb_contents s @ take k xs"
    using buffer_put_contents [of s "hd xs"] kb_full_iff [of s] kb_count_lt [of s]
    by (cases xs) (auto simp: kb_send_def kb_contents_def split: if_splits)
next
  fix s n ys s'
  assume "kb_inv s" and "kb_recv n s = (ys, s')"
  then show "kb_inv s' \<and>
      (\<exists>m \<le> n. ys = take m (kb_contents s) \<and> kb_contents s' = drop m (kb_contents s))"
    using keyboard_getchar_contents [of s]
    by (cases n) (auto simp: kb_recv_def intro: exI [of _ 0] exI [of _ 1] split: option.splits)
next
  show "length (kb_contents s) \<le> 255" if "kb_inv s" for s
    using kb_count_lt [OF that] by (simp add: kb_contents_def)
qed

section \<open>Properties\<close>

text \<open>
  The handler as an event on the ring: a key press that has a character queues it, everything
  else (key releases, unmapped keys) does not touch the ring.
\<close>

definition key_char :: "u8 \<Rightarrow> u8 list" where
  "key_char scancode = (if unat scancode < 128 \<and> scancode_table ! unat scancode \<noteq> 0
     then [scancode_table ! unat scancode] else [])"

lemma scancode_release_iff: "(scancode :: u8) AND 0x80 \<noteq> 0 \<longleftrightarrow> 128 \<le> unat scancode"
proof -
  have "scancode AND 0x80 \<noteq> 0 \<longleftrightarrow> bit scancode 7"
    using and_exp_eq_0_iff_not_bit [of scancode 7] by simp
  also have "\<dots> \<longleftrightarrow> bit (unat scancode) 7"
    by (simp add: bit_unsigned_iff)
  also have "\<dots> \<longleftrightarrow> odd (unat scancode div 128)"
    by (simp add: bit_iff_odd)
  also have "\<dots> \<longleftrightarrow> 128 \<le> unat scancode"
  proof -
    have "unat scancode div 128 < 2" by (simp add: less_mult_imp_div_less)
    then consider "unat scancode div 128 = 0" | "unat scancode div 128 = 1" by fastforce
    then show ?thesis by cases (auto simp: div_eq_0_iff)
  qed
  finally show ?thesis .
qed

lemma keyboard_handler_contents:
  assumes "kb_inv t"
  shows "kb_inv (keyboard_handler c t) \<and> kb_contents (keyboard_handler c t) = take 255 (kb_contents t @ key_char c)"
  using buffer_put_contents [OF assms, of "scancode_table ! unat c"] assms kb.bounded [OF assms] scancode_release_iff [of c]
  by (auto simp: keyboard_handler_def key_char_def Let_def)

text \<open>
  What happens to the driver: an interrupt delivers a scancode, or a reader calls \<^verbatim>\<open>keyboard_getchar\<close>. A reader that finds the ring empty
  waits, and its call is repeated later. \<open>kb_run\<close> collects the characters that the readers got, \<open>queue_run\<close> is the same on a list of at most 255
  characters.
\<close>

datatype kb_event = Scancode u8 | Getchar

fun kb_run :: "kb_event list \<Rightarrow> keyboard \<Rightarrow> u8 list \<times> keyboard" where
  "kb_run [] s = ([], s)"
| "kb_run (Scancode code # es) s = kb_run es (keyboard_handler code s)"
| "kb_run (Getchar # es) s =
     (case keyboard_getchar s of None \<Rightarrow> kb_run es s
      | Some (c, s') \<Rightarrow> let (cs, s'') = kb_run es s' in (c # cs, s''))"

fun queue_run :: "kb_event list \<Rightarrow> u8 list \<Rightarrow> u8 list \<times> u8 list" where
  "queue_run [] q = ([], q)"
| "queue_run (Scancode code # es) q = queue_run es (take 255 (q @ key_char code))"
| "queue_run (Getchar # es) [] = queue_run es []"
| "queue_run (Getchar # es) (c # q) = (let (cs, q') = queue_run es q in (c # cs, q'))"

lemma kb_run_refines:
  "kb_inv s \<Longrightarrow> kb_run es s = (cs, s') \<Longrightarrow> kb_inv s' \<and> queue_run es (kb_contents s) = (cs, kb_contents s')"
proof (induction es s arbitrary: cs s' rule: kb_run.induct)
  case (2 code es s)
  then show ?case using keyboard_handler_contents [OF 2(2), of code] by simp
next
  case (3 es s)
  note get = keyboard_getchar_contents [OF 3(3)]
  show ?case
  proof (cases "keyboard_getchar s")
    case None
    then show ?thesis using 3 get by simp
  next
    case (Some r)
    obtain c t where r: "r = (c, t)" by force
    obtain ds u where run: "kb_run es t = (ds, u)" by force
    have t: "kb_inv t" "kb_contents s = c # kb_contents t" using get Some r by simp_all
    have "kb_inv u \<and> queue_run es (kb_contents t) = (ds, kb_contents u)"
      using 3(2) [OF Some r [symmetric] t(1) run] by simp
    then show ?thesis using 3(4) Some r run t(2) by simp
  qed
qed simp

text \<open>C33: The keyboard is a first-in first-out queue of the characters of the key presses. Whatever the sequence of scancode interrupts and
  of calls of keyboard_getchar, starting from the initialised driver, the calls return, and the ring keeps, exactly what a queue on a plain list would: every press of a
  key with a character appends that character unless 255 are waiting, a release or an unmapped key adds nothing, and every call takes the oldest
  waiting character, once. Without overflow nothing is lost either: if at most 255 characters were typed, those delivered followed by those waiting are the characters typed, in order.\<close>

theorem keyboard_fifo:
  "let (cs, s') = kb_run es (snd (keyboard_init status s));
       typed = concat (map (\<lambda>e. case e of Scancode code \<Rightarrow> key_char code | Getchar \<Rightarrow> []) es)
   in kb_inv s' \<and> queue_run es [] = (cs, kb_contents s') \<and> (255 < length typed \<or> cs @ kb_contents s' = typed)"
proof -
  let ?typed = "\<lambda>es. concat (map (\<lambda>e. case e of Scancode code \<Rightarrow> key_char code | Getchar \<Rightarrow> []) es)"
  obtain cs s' where run: "kb_run es (snd (keyboard_init status s)) = (cs, s')" by force
  have "kb_inv (snd (keyboard_init status s))" "kb_contents (snd (keyboard_init status s)) = []"
    by (simp_all add: keyboard_init_def kb_inv_def kb_contents_def kb_count_def)
  then have r: "kb_inv s' \<and> queue_run es [] = (cs, kb_contents s')" using kb_run_refines [OF _ run] by simp
  have "ds @ q' = q @ ?typed es" if "queue_run es q = (ds, q')" "length q + length (?typed es) \<le> 255" for es q ds q'
    using that
    by (induction es q arbitrary: ds q' rule: queue_run.induct) (auto split: prod.splits)
  from this [of es "[]" cs "kb_contents s'"] show ?thesis using r run by (cases "255 < length (?typed es)") (simp_all add: Let_def)
qed

end
