(* ===== verification/Handles.thy ===== *)
theory Handles
  imports Prelude
begin

text \<open>
  Reference-counted handles. A process refers to an open file or to one end of a pipe by a small
  integer that may be shared (between a process and the children it forks), so both modules count the references
  to a handle. This is the contract the process descriptor tables rely on; it is interpreted on
  the file table and on the pipe table.
\<close>

fun close_times :: "(int \<Rightarrow> 's \<Rightarrow> int \<times> 's) \<Rightarrow> nat \<Rightarrow> int \<Rightarrow> 's \<Rightarrow> 's" where
  "close_times close 0 h s = s"
| "close_times close (Suc n) h s = close_times close n h (snd (close h s))"

locale counted_handles =
  fixes retain :: "int \<Rightarrow> 's \<Rightarrow> int \<times> 's"
    and close :: "int \<Rightarrow> 's \<Rightarrow> int \<times> 's"
    and refs :: "'s \<Rightarrow> int \<Rightarrow> nat"
    and inv :: "'s \<Rightarrow> bool"
  assumes retain_ok: "inv s \<Longrightarrow> retain h s = (0, s') \<Longrightarrow>
      inv s' \<and> refs s' = (refs s)(h := Suc (refs s h))"
    and retain_fail: "inv s \<Longrightarrow> retain h s = (r, s') \<Longrightarrow> r \<noteq> 0 \<Longrightarrow> s' = s"
    and close_ok: "inv s \<Longrightarrow> close h s = (0, s') \<Longrightarrow>
      0 < refs s h \<and> inv s' \<and> refs s' = (refs s)(h := refs s h - 1)"
    and close_fail: "inv s \<Longrightarrow> close h s = (r, s') \<Longrightarrow> r \<noteq> 0 \<Longrightarrow> s' = s \<and> refs s h = 0"
begin

lemma close_referenced:
  assumes "inv s" and "0 < refs s h"
  shows "\<exists>s'. close h s = (0, s') \<and> inv s' \<and> refs s' = (refs s)(h := refs s h - 1)"
proof -
  obtain r s' where cl: "close h s = (r, s')" by force
  have "r = 0" using close_fail [OF assms(1) cl] assms(2) by auto
  then show ?thesis using close_ok [OF assms(1), of h s'] cl by auto
qed

lemma retain_close_cancel:
  assumes "inv s" and "retain h s = (0, s1)"
  shows "\<exists>s2. close h s1 = (0, s2) \<and> inv s2 \<and> refs s2 = refs s"
proof -
  have "inv s1" "refs s1 = (refs s)(h := Suc (refs s h))"
    using retain_ok [OF assms] by auto
  then show ?thesis using close_referenced [of s1 h] by auto
qed

lemma close_times_refs:
  assumes "inv s" and "n \<le> refs s h"
  shows "inv (close_times close n h s) \<and>
    refs (close_times close n h s) = (refs s)(h := refs s h - n)"
  using assms
proof (induction n arbitrary: s)
  case 0
  then show ?case by simp
next
  case (Suc n)
  then obtain s' where s': "close h s = (0, s')" "inv s'" "refs s' = (refs s)(h := refs s h - 1)"
    using close_referenced [of s h] by auto
  then show ?case using Suc.IH [of s'] Suc.prems by auto
qed

lemma closed_handle_refused:
  assumes "inv s"
  shows "fst (close h (close_times close (refs s h) h s)) \<noteq> 0"
proof -
  let ?s = "close_times close (refs s h) h s"
  have s: "inv ?s" "refs ?s h = 0" using close_times_refs [OF assms, of "refs s h" h] by auto
  then show ?thesis using close_ok [OF s(1), of h] by (cases "close h ?s") auto
qed

end

end
