(* ===== verification/Pipe.thy ===== *)
theory Pipe
  imports Channel Handles
begin

text \<open>
  Pipes, \<^verbatim>\<open>src/kernel/pipe.c\<close>: a table of eight ring buffers of 4096 bytes, each with a count
  of its readers and writers. A handle is 256 + 2 * index for the read end and one more for the
  write end. The call \<^verbatim>\<open>process_wake_pipe_waiter\<close> into the process table is the argument
  \<open>wake\<close>; the process component supplies it, and the state of that component is the second part
  of the state of the operations that call it. A buffer argument of the C code is a flag that it
  is not NULL together with the bytes read from or written to it.
\<close>

section \<open>State and operations\<close>

definition MAX_PIPES :: nat where "MAX_PIPES = 8"
definition PIPE_CAPACITY :: u32 where "PIPE_CAPACITY = 4096"
definition PIPE_BUF :: u32 where "PIPE_BUF = 512"
definition PIPE_SUCCESS :: int where "PIPE_SUCCESS = 0"
definition PIPE_EBADF :: int where "PIPE_EBADF = -1"
definition PIPE_WOULD_BLOCK :: int where "PIPE_WOULD_BLOCK = -2"
definition PIPE_BROKEN :: int where "PIPE_BROKEN = -3"
definition PIPE_HANDLE_BASE :: int where "PIPE_HANDLE_BASE = 256"
definition PIPE_READ_END :: int where "PIPE_READ_END = 0"
definition PIPE_WRITE_END :: int where "PIPE_WRITE_END = 1"

lemmas pipe_consts = MAX_PIPES_def PIPE_CAPACITY_def PIPE_BUF_def PIPE_SUCCESS_def PIPE_EBADF_def
  PIPE_WOULD_BLOCK_def PIPE_BROKEN_def PIPE_HANDLE_BASE_def PIPE_READ_END_def PIPE_WRITE_END_def

datatype block_reason = BLOCK_NONE | BLOCK_WAIT_CHILD | BLOCK_PIPE_READ | BLOCK_PIPE_WRITE

record pipe =
  pipe_buffer :: "nat \<Rightarrow> u8"
  read_pos :: u32
  write_pos :: u32
  pipe_count :: u32
  readers :: u32
  writers :: u32
  pipe_used :: bool

definition zero_pipe :: pipe where
  "zero_pipe = \<lparr>pipe_buffer = (\<lambda>_. 0), read_pos = 0, write_pos = 0, pipe_count = 0,
     readers = 0, writers = 0, pipe_used = False\<rparr>"

type_synonym pipes = "pipe list"
type_synonym 'p wake = "nat \<Rightarrow> block_reason \<Rightarrow> 'p \<Rightarrow> 'p"

definition pipe_init :: pipes where
  "pipe_init = replicate MAX_PIPES zero_pipe"

definition pipe_handle_index :: "int \<Rightarrow> pipes \<Rightarrow> nat option" where
  "pipe_handle_index handle ps =
     (if handle < PIPE_HANDLE_BASE then None
      else let index = (handle - PIPE_HANDLE_BASE) div 2 in
           if index < 0 \<or> index \<ge> int MAX_PIPES \<or> \<not> pipe_used (ps ! nat index) then None
           else Some (nat index))"

definition pipe_handle_is_read :: "int \<Rightarrow> bool" where
  "pipe_handle_is_read handle \<longleftrightarrow>
     handle \<ge> PIPE_HANDLE_BASE \<and> (handle - PIPE_HANDLE_BASE) mod 2 = PIPE_READ_END"

definition pipe_create :: "bool \<Rightarrow> pipes \<Rightarrow> int \<times> (int \<times> int) option \<times> pipes" where
  "pipe_create handles_ok ps =
     (if \<not> handles_ok then (PIPE_EBADF, None, ps)
      else case first_index (\<lambda>i. \<not> pipe_used (ps ! i)) 0 MAX_PIPES of
        Some i \<Rightarrow>
          (PIPE_SUCCESS,
           Some (PIPE_HANDLE_BASE + int i * 2 + PIPE_READ_END,
                 PIPE_HANDLE_BASE + int i * 2 + PIPE_WRITE_END),
           ps[i := zero_pipe\<lparr>pipe_used := True, readers := 1, writers := 1\<rparr>])
      | None \<Rightarrow> (PIPE_EBADF, None, ps))"

definition pipe_copy_out :: "nat \<Rightarrow> pipe \<Rightarrow> u8 list \<times> u32" where
  "pipe_copy_out n p =
     for_loop 0 n (\<lambda>i (out, pos). (out @ [pipe_buffer p (unat pos)], (pos + 1) mod PIPE_CAPACITY))
       ([], read_pos p)"

definition pipe_read ::
    "'p wake \<Rightarrow> int \<Rightarrow> bool \<Rightarrow> u32 \<Rightarrow> pipes \<times> 'p \<Rightarrow> int \<times> u8 list \<times> (pipes \<times> 'p)" where
  "pipe_read wake handle buffer_ok count = (\<lambda>(ps, pr).
     case pipe_handle_index handle ps of
       None \<Rightarrow> (PIPE_EBADF, [], (ps, pr))
     | Some index \<Rightarrow>
         if \<not> pipe_handle_is_read handle \<or> (\<not> buffer_ok \<and> 0 < count)
         then (PIPE_EBADF, [], (ps, pr))
         else if count = 0 then (0, [], (ps, pr))
         else
           let pipe = ps ! index in
           if pipe_count pipe = 0
           then (if writers pipe = 0 then 0 else PIPE_WOULD_BLOCK, [], (ps, pr))
           else
             let copied = (if count < pipe_count pipe then count else pipe_count pipe);
                 (out, pos) = pipe_copy_out (unat copied) pipe;
                 ps = ps[index := pipe\<lparr>read_pos := pos, pipe_count := pipe_count pipe - copied\<rparr>]
             in (int (unat copied), out, (ps, wake index BLOCK_PIPE_WRITE pr)))"

definition pipe_copy_in :: "nat \<Rightarrow> (nat \<Rightarrow> u8) \<Rightarrow> pipe \<Rightarrow> (nat \<Rightarrow> u8) \<times> u32" where
  "pipe_copy_in n src p =
     for_loop 0 n (\<lambda>i (buf, pos). (buf(unat pos := src i), (pos + 1) mod PIPE_CAPACITY))
       (pipe_buffer p, write_pos p)"

definition pipe_write ::
    "'p wake \<Rightarrow> int \<Rightarrow> (nat \<Rightarrow> u8) option \<Rightarrow> u32 \<Rightarrow> pipes \<times> 'p \<Rightarrow> int \<times> (pipes \<times> 'p)" where
  "pipe_write wake handle buffer count = (\<lambda>(ps, pr).
     case pipe_handle_index handle ps of
       None \<Rightarrow> (PIPE_EBADF, (ps, pr))
     | Some index \<Rightarrow>
         if pipe_handle_is_read handle \<or> (buffer = None \<and> 0 < count) then (PIPE_EBADF, (ps, pr))
         else if count = 0 then (0, (ps, pr))
         else
           let pipe = ps ! index in
           if readers pipe = 0 then (PIPE_BROKEN, (ps, pr))
           else
             let space = PIPE_CAPACITY - pipe_count pipe in
             if space = 0 \<or> (count \<le> PIPE_BUF \<and> space < count) then (PIPE_WOULD_BLOCK, (ps, pr))
             else
               let copied = (if count < space then count else space);
                   (buf, pos) = pipe_copy_in (unat copied) (the buffer) pipe;
                   ps = ps[index := pipe\<lparr>pipe_buffer := buf, write_pos := pos,
                             pipe_count := pipe_count pipe + copied\<rparr>]
               in (int (unat copied), (ps, wake index BLOCK_PIPE_READ pr)))"

definition pipe_reap :: "nat \<Rightarrow> pipes \<Rightarrow> pipes" where
  "pipe_reap index ps =
     (if readers (ps ! index) = 0 \<and> writers (ps ! index) = 0 then ps[index := zero_pipe] else ps)"

definition pipe_close :: "'p wake \<Rightarrow> int \<Rightarrow> pipes \<times> 'p \<Rightarrow> int \<times> (pipes \<times> 'p)" where
  "pipe_close wake handle = (\<lambda>(ps, pr).
     case pipe_handle_index handle ps of
       None \<Rightarrow> (PIPE_EBADF, (ps, pr))
     | Some index \<Rightarrow>
         let pipe = ps ! index in
         if pipe_handle_is_read handle then
           if readers pipe = 0 then (PIPE_EBADF, (ps, pr))
           else
             let pipe = pipe\<lparr>readers := readers pipe - 1\<rparr>;
                 pr = (if readers pipe = 0 then wake index BLOCK_PIPE_WRITE pr else pr)
             in (PIPE_SUCCESS, (pipe_reap index (ps[index := pipe]), pr))
         else
           if writers pipe = 0 then (PIPE_EBADF, (ps, pr))
           else
             let pipe = pipe\<lparr>writers := writers pipe - 1\<rparr>;
                 pr = (if writers pipe = 0 then wake index BLOCK_PIPE_READ pr else pr)
             in (PIPE_SUCCESS, (pipe_reap index (ps[index := pipe]), pr)))"

definition pipe_retain :: "int \<Rightarrow> pipes \<Rightarrow> int \<times> pipes" where
  "pipe_retain handle ps =
     (case pipe_handle_index handle ps of
        None \<Rightarrow> (PIPE_EBADF, ps)
      | Some index \<Rightarrow>
          let pipe = ps ! index in
          if pipe_handle_is_read handle then
            if readers pipe = 0xFFFFFFFF then (PIPE_EBADF, ps)
            else (PIPE_SUCCESS, ps[index := pipe\<lparr>readers := readers pipe + 1\<rparr>])
          else
            if writers pipe = 0xFFFFFFFF then (PIPE_EBADF, ps)
            else (PIPE_SUCCESS, ps[index := pipe\<lparr>writers := writers pipe + 1\<rparr>]))"

section \<open>The invariant\<close>

definition pipe_ok :: "pipe \<Rightarrow> bool" where
  "pipe_ok p \<longleftrightarrow> unat (read_pos p) < 4096 \<and> unat (pipe_count p) \<le> 4096 \<and>
     unat (write_pos p) = (unat (read_pos p) + unat (pipe_count p)) mod 4096 \<and>
     (pipe_used p \<longleftrightarrow> readers p \<noteq> 0 \<or> writers p \<noteq> 0)"

definition pipes_ok :: "pipes \<Rightarrow> bool" where
  "pipes_ok ps \<longleftrightarrow> length ps = 8 \<and> (\<forall>p \<in> set ps. pipe_ok p)"

definition pipe_contents :: "pipe \<Rightarrow> u8 list" where
  "pipe_contents p = ring (pipe_buffer p) 4096 (unat (read_pos p)) (unat (pipe_count p))"

lemma pipes_ok_nth: "pipes_ok ps \<Longrightarrow> i < 8 \<Longrightarrow> pipe_ok (ps ! i)"
  by (simp add: pipes_ok_def)

lemma pipes_ok_update: "pipes_ok ps \<Longrightarrow> pipe_ok p \<Longrightarrow> pipes_ok (ps[i := p])"
  by (auto simp: pipes_ok_def dest: set_update_subset_insert [THEN subsetD])

lemma pipe_ok_zero: "pipe_ok zero_pipe"
  by (simp add: pipe_ok_def zero_pipe_def)

lemma pipe_handle_index_lt: "pipe_handle_index h ps = Some i \<Longrightarrow> i < 8"
  by (auto simp: pipe_handle_index_def Let_def pipe_consts split: if_splits)

lemma pipe_handle_index_used: "pipe_handle_index h ps = Some i \<Longrightarrow> pipe_used (ps ! i)"
  by (auto simp: pipe_handle_index_def Let_def split: if_splits)

lemma unat_next_pos: "unat ((pos + 1) mod PIPE_CAPACITY) = (unat pos + 1) mod 4096"
proof (cases "unat pos + 1 < 4294967296")
  case True
  then show ?thesis by (simp add: unat_mod unat_add_no_wrap PIPE_CAPACITY_def)
next
  case False
  then have "unat pos = 4294967295" using u32_unat_lt [of pos] by (simp del: u32_unat_lt)
  then show ?thesis by (simp add: unat_mod unat_word_ariths PIPE_CAPACITY_def)
qed

lemma pipe_copy_out_eq:
  assumes "unat (read_pos p) < 4096"
  shows "fst (pipe_copy_out n p) = ring (pipe_buffer p) 4096 (unat (read_pos p)) n \<and>
    unat (snd (pipe_copy_out n p)) = (unat (read_pos p) + n) mod 4096"
proof (induction n)
  case 0
  then show ?case using assms by (simp add: pipe_copy_out_def for_loop_done)
next
  case (Suc n)
  then show ?case
    by (simp add: pipe_copy_out_def for_loop_last ring_Suc unat_next_pos split_beta mod_Suc_eq)
qed

lemma pipe_copy_in_eq:
  assumes "unat (write_pos p) = (r + c) mod 4096" and "c + n \<le> 4096"
  shows "ring (fst (pipe_copy_in n src p)) 4096 r (c + n) = ring (pipe_buffer p) 4096 r c @ map src [0..<n] \<and>
    unat (snd (pipe_copy_in n src p)) = (r + c + n) mod 4096"
  using assms(2)
proof (induction n)
  case 0
  then show ?case using assms(1) by (simp add: pipe_copy_in_def for_loop_done)
next
  case (Suc n)
  let ?b = "fst (pipe_copy_in n src p)" and ?q = "snd (pipe_copy_in n src p)"
  have IH: "ring ?b 4096 r (c + n) = ring (pipe_buffer p) 4096 r c @ map src [0..<n]"
    "unat ?q = (r + (c + n)) mod 4096"
    using Suc by (simp_all add: add.assoc)
  have step: "pipe_copy_in (Suc n) src p = (?b(unat ?q := src n), (?q + 1) mod PIPE_CAPACITY)"
    by (simp add: pipe_copy_in_def for_loop_last split_beta)
  have "ring (?b(unat ?q := src n)) 4096 r (Suc (c + n)) = ring ?b 4096 r (c + n) @ [src n]"
    unfolding IH(2) by (rule ring_push) (use Suc.prems in simp)
  moreover have "unat ((?q + 1) mod PIPE_CAPACITY) = (r + c + Suc n) mod 4096"
    unfolding unat_next_pos IH(2) by (simp add: mod_Suc_eq add.assoc)
  ultimately show ?case unfolding step fst_conv snd_conv IH(1) by (simp add: fun_upd_def)
qed


section \<open>Reading, writing and closing one pipe\<close>

lemma pipe_read_ok:
  assumes "pipe_ok p" and "unat copied \<le> unat (pipe_count p)" and "pipe_copy_out (unat copied) p = (out, pos)"
  defines "p' \<equiv> p\<lparr>read_pos := pos, pipe_count := pipe_count p - copied\<rparr>"
  shows "pipe_ok p' \<and> out = take (unat copied) (pipe_contents p) \<and>
    pipe_contents p' = drop (unat copied) (pipe_contents p)"
proof -
  have lt: "unat (read_pos p) < 4096" using assms(1) by (simp add: pipe_ok_def)
  have co: "out = ring (pipe_buffer p) 4096 (unat (read_pos p)) (unat copied)"
    "unat pos = (unat (read_pos p) + unat copied) mod 4096"
    using pipe_copy_out_eq [OF lt, of "unat copied"] assms(3) by simp_all
  have cnt: "unat (pipe_count p - copied) = unat (pipe_count p) - unat copied"
    using assms(2) by (rule unat_sub_no_wrap)
  have "pipe_contents p' = ring (pipe_buffer p) 4096 (unat (read_pos p) + unat copied)
      (unat (pipe_count p) - unat copied)"
    by (simp add: p'_def pipe_contents_def co(2) cnt ring_mod)
  moreover have "((unat (read_pos p) + unat copied) mod 4096 + (unat (pipe_count p) - unat copied)) mod 4096
      = (unat (read_pos p) + unat (pipe_count p)) mod 4096"
    using assms(2) by (simp only: mod_add_left_eq) simp
  then have "pipe_ok p'"
    using assms(1) by (auto simp: p'_def pipe_ok_def co(2) cnt)
  ultimately show ?thesis
    using assms(2) co(1) by (simp add: pipe_contents_def ring_take ring_drop)
qed

lemma pipe_write_ok:
  assumes "pipe_ok p" and "unat (pipe_count p) + unat copied \<le> 4096"
    and "pipe_copy_in (unat copied) src p = (buf, pos)"
  defines "p' \<equiv> p\<lparr>pipe_buffer := buf, write_pos := pos, pipe_count := pipe_count p + copied\<rparr>"
  shows "pipe_ok p' \<and> pipe_contents p' = pipe_contents p @ map src [0..<unat copied]"
proof -
  have wp: "unat (write_pos p) = (unat (read_pos p) + unat (pipe_count p)) mod 4096"
    using assms(1) by (simp add: pipe_ok_def)
  have cnt: "unat (pipe_count p + copied) = unat (pipe_count p) + unat copied"
    using assms(2) by (simp add: unat_add_no_wrap)
  show ?thesis
    using pipe_copy_in_eq [OF wp assms(2), of src] assms(1-3)
    by (simp add: p'_def pipe_contents_def pipe_ok_def cnt add.assoc)
qed

text \<open>What a call can return, by the state of the pipe.\<close>

definition read_size :: "u32 \<Rightarrow> pipe \<Rightarrow> u32" where
  "read_size count p = (if count < pipe_count p then count else pipe_count p)"

definition write_size :: "u32 \<Rightarrow> pipe \<Rightarrow> u32" where
  "write_size count p =
     (if count < PIPE_CAPACITY - pipe_count p then count else PIPE_CAPACITY - pipe_count p)"

lemma unat_read_size: "unat (read_size count p) = min (unat count) (length (pipe_contents p))"
  by (auto simp: read_size_def pipe_contents_def word_less_nat_alt)

lemma unat_pipe_space:
  "pipe_ok p \<Longrightarrow> unat (PIPE_CAPACITY - pipe_count p) = 4096 - length (pipe_contents p)"
  by (simp add: PIPE_CAPACITY_def unat_sub_no_wrap pipe_contents_def pipe_ok_def)

lemma unat_write_size:
  "pipe_ok p \<Longrightarrow> unat (write_size count p) = min (unat count) (4096 - length (pipe_contents p))"
  by (auto simp: write_size_def word_less_nat_alt unat_pipe_space)

lemma pipe_count_0_iff: "pipe_count p = 0 \<longleftrightarrow> pipe_contents p = []"
  by (simp add: pipe_contents_def ring_def unat_eq_0)

lemma pipe_read_cases:
  assumes "pipe_handle_index h ps = Some i" and "pipe_handle_is_read h" and "0 < count"
  shows "pipe_read wake h True count (ps, pr) =
    (if pipe_contents (ps ! i) = []
     then (if writers (ps ! i) = 0 then 0 else PIPE_WOULD_BLOCK, [], (ps, pr))
     else let n = read_size count (ps ! i); (out, pos) = pipe_copy_out (unat n) (ps ! i)
          in (int (unat n), out, (ps[i := (ps ! i)\<lparr>read_pos := pos, pipe_count := pipe_count (ps ! i) - n\<rparr>],
              wake i BLOCK_PIPE_WRITE pr)))"
  using assms unfolding pipe_read_def read_size_def
  by (auto simp: pipe_count_0_iff Let_def split_beta)

lemma pipe_write_cases:
  assumes "pipes_ok ps" and "pipe_handle_index h ps = Some i" and "\<not> pipe_handle_is_read h" and "0 < count"
  shows "pipe_write wake h (Some src) count (ps, pr) =
    (let space = 4096 - length (pipe_contents (ps ! i)) in
     if readers (ps ! i) = 0 then (PIPE_BROKEN, (ps, pr))
     else if space = 0 \<or> unat count \<le> 512 \<and> space < unat count then (PIPE_WOULD_BLOCK, (ps, pr))
     else let n = write_size count (ps ! i); (buf, pos) = pipe_copy_in (unat n) src (ps ! i)
          in (int (unat n), (ps[i := (ps ! i)\<lparr>pipe_buffer := buf, write_pos := pos,
                pipe_count := pipe_count (ps ! i) + n\<rparr>], wake i BLOCK_PIPE_READ pr)))"
proof -
  let ?c = "pipe_count (ps ! i)" and ?space = "4096 - length (pipe_contents (ps ! i))"
  have "pipe_ok (ps ! i)" using assms(1,2) pipes_ok_nth pipe_handle_index_lt by blast
  note sp = unat_pipe_space [OF this]
  have "PIPE_CAPACITY - ?c = 0 \<longleftrightarrow> ?space = 0" using sp by (metis unat_eq_0)
  moreover have "count \<le> PIPE_BUF \<and> PIPE_CAPACITY - ?c < count \<longleftrightarrow> unat count \<le> 512 \<and> ?space < unat count"
    using sp by (simp add: word_le_nat_alt word_less_nat_alt PIPE_BUF_def)
  ultimately have full: "PIPE_CAPACITY - ?c = 0 \<or> count \<le> PIPE_BUF \<and> PIPE_CAPACITY - ?c < count \<longleftrightarrow>
      ?space = 0 \<or> unat count \<le> 512 \<and> ?space < unat count"
    by blast
  show ?thesis
    unfolding pipe_write_def Let_def prod.case assms(2) option.case full write_size_def [symmetric]
    using assms(3,4) by auto
qed

section \<open>A pipe as a byte channel\<close>

definition pipe_send :: "'p wake \<Rightarrow> nat \<Rightarrow> u8 list \<Rightarrow> pipes \<times> 'p \<Rightarrow> nat \<times> (pipes \<times> 'p)" where
  "pipe_send wake i xs s =
     (let (r, s') = pipe_write wake (257 + 2 * int i) (Some (cstr_at xs))
                      (of_nat (min (length xs) 0xFFFFFFFF)) s
      in (nat r, s'))"

definition pipe_recv :: "'p wake \<Rightarrow> nat \<Rightarrow> nat \<Rightarrow> pipes \<times> 'p \<Rightarrow> u8 list \<times> (pipes \<times> 'p)" where
  "pipe_recv wake i n s =
     (let (r, ys, s') = pipe_read wake (256 + 2 * int i) True (of_nat (min n 0xFFFFFFFF)) s in (ys, s'))"

definition pipe_open :: "nat \<Rightarrow> pipes \<times> 'p \<Rightarrow> bool" where
  "pipe_open i s \<longleftrightarrow> pipes_ok (fst s) \<and> i < 8 \<and> pipe_used (fst s ! i)"

definition pipe_queue :: "nat \<Rightarrow> pipes \<times> 'p \<Rightarrow> u8 list" where
  "pipe_queue i s = pipe_contents (fst s ! i)"

lemma pipe_handles:
  assumes "pipe_open i (ps, pr)"
  shows "pipe_handle_index (256 + 2 * int i) ps = Some i" "pipe_handle_index (257 + 2 * int i) ps = Some i"
    "pipe_handle_is_read (256 + 2 * int i)" "\<not> pipe_handle_is_read (257 + 2 * int i)"
  using assms by (auto simp: pipe_open_def pipe_handle_index_def pipe_handle_is_read_def pipe_consts Let_def)

lemma map_cstr_at: "n \<le> length xs \<Longrightarrow> map (cstr_at xs) [0..<n] = take n xs"
  by (rule nth_equalityI) (auto simp: cstr_at_def)

lemma unat_u32_min: "unat (of_nat (min n 0xFFFFFFFF) :: u32) = min n 0xFFFFFFFF"
  by (rule unat_of_nat_small) (simp add: min_less_iff_disj)

lemma pipe_send_law:
  assumes "pipe_open i s" and "pipe_send wake i xs s = (k, s')"
  shows "pipe_open i s' \<and> k \<le> length xs \<and> pipe_queue i s' = pipe_queue i s @ take k xs"
proof (cases s)
  case (Pair ps pr)
  let ?n = "of_nat (min (length xs) 0xFFFFFFFF) :: u32"
  have ok: "pipes_ok ps" "i < 8" "pipe_used (ps ! i)" using assms(1) Pair by (auto simp: pipe_open_def)
  note h = pipe_handles [OF assms(1) [unfolded Pair]]
  have pok: "pipe_ok (ps ! i)" using pipes_ok_nth [OF ok(1,2)] .
  let ?m = "write_size ?n (ps ! i)"
  have m: "unat ?m = min (min (length xs) 0xFFFFFFFF) (4096 - length (pipe_contents (ps ! i)))"
    by (simp add: unat_write_size [OF pok] unat_u32_min)
  obtain buf pos where cp: "pipe_copy_in (unat ?m) (cstr_at xs) (ps ! i) = (buf, pos)" by force
  let ?p = "(ps ! i)\<lparr>pipe_buffer := buf, write_pos := pos, pipe_count := pipe_count (ps ! i) + ?m\<rparr>"
  have "unat ?m \<le> 4096 - unat (pipe_count (ps ! i))" using m by (simp add: pipe_contents_def)
  moreover have "unat (pipe_count (ps ! i)) \<le> 4096" using pok by (simp add: pipe_ok_def)
  ultimately have "unat (pipe_count (ps ! i)) + unat ?m \<le> 4096" by linarith
  from pipe_write_ok [OF pok this cp] m
  have new: "pipe_ok ?p" "pipe_contents ?p = pipe_contents (ps ! i) @ take (unat ?m) xs"
    by (simp_all add: map_cstr_at)
  show ?thesis
  proof (cases "0 < ?n")
    case True
    have eq: "pipe_send wake i xs s = (k, s') \<longleftrightarrow>
        (if readers (ps ! i) = 0 \<or> 4096 - length (pipe_contents (ps ! i)) = 0 \<or>
            unat ?n \<le> 512 \<and> 4096 - length (pipe_contents (ps ! i)) < unat ?n
         then k = 0 \<and> s' = s
         else k = unat ?m \<and> s' = (ps[i := ?p], wake i BLOCK_PIPE_READ pr))"
      unfolding pipe_send_def Pair pipe_write_cases [OF ok(1) h(2,4) True] cp Let_def prod.case
      by (auto simp: pipe_consts)
    show ?thesis
      using assms(1,2) eq Pair new ok m pipes_ok_update [OF ok(1) new(1)]
      by (auto simp: pipe_open_def pipe_queue_def pipes_ok_def split: if_splits)
  next
    case False
    then have "?n = 0" by (simp only: word_neq_0_conv [symmetric] not_not)
    then have "pipe_send wake i xs s = (0, s)"
      using h by (simp add: pipe_send_def Pair pipe_write_def)
    then show ?thesis using assms by simp
  qed
qed

lemma pipe_recv_law:
  assumes "pipe_open i s" and "pipe_recv wake i n s = (ys, s')"
  shows "pipe_open i s' \<and>
    (\<exists>m \<le> n. ys = take m (pipe_queue i s) \<and> pipe_queue i s' = drop m (pipe_queue i s))"
proof (cases s)
  case (Pair ps pr)
  let ?n = "of_nat (min n 0xFFFFFFFF) :: u32" and ?p = "ps ! i"
  have ok: "pipes_ok ps" "i < 8" "pipe_used ?p" using assms(1) Pair by (auto simp: pipe_open_def)
  note h = pipe_handles [OF assms(1) [unfolded Pair]]
  show ?thesis
  proof (cases "0 < ?n \<and> pipe_contents ?p \<noteq> []")
    case True
    let ?m = "read_size ?n ?p"
    obtain out pos where cp: "pipe_copy_out (unat ?m) ?p = (out, pos)" by force
    let ?q = "?p\<lparr>read_pos := pos, pipe_count := pipe_count ?p - ?m\<rparr>"
    have m: "unat ?m \<le> n" "unat ?m \<le> unat (pipe_count ?p)"
      using unat_read_size [of ?n ?p] by (simp_all add: unat_u32_min pipe_contents_def)
    note new = pipe_read_ok [OF pipes_ok_nth [OF ok(1,2)] m(2) cp]
    have "pipe_recv wake i n s = (out, (ps[i := ?q], wake i BLOCK_PIPE_WRITE pr))"
      unfolding pipe_recv_def Pair pipe_read_cases [OF h(1,3) True [THEN conjunct1]]
      using True cp by (simp add: Let_def)
    then show ?thesis
      using assms(2) new m(1) ok pipes_ok_update [OF ok(1), of ?q i]
      by (auto simp: Pair pipe_open_def pipe_queue_def pipes_ok_def)
  next
    case False
    have "pipe_recv wake i n s = ([], s)"
    proof (cases "0 < ?n")
      case True
      then show ?thesis
        unfolding pipe_recv_def Pair pipe_read_cases [OF h(1,3) True] using False by simp
    next
      case False
      then have "?n = 0" by (simp only: word_neq_0_conv [symmetric] not_not)
      then show ?thesis using h by (simp add: pipe_recv_def Pair pipe_read_def)
    qed
    then show ?thesis using assms by (auto intro: exI [of _ 0])
  qed
qed

interpretation pipe_ch: byte_channel "pipe_send wake i" "pipe_recv wake i" "pipe_queue i" 4096 "pipe_open i"
  for wake :: "'p wake" and i
proof unfold_locales
  show "length (pipe_queue i s) \<le> 4096" if "pipe_open i s" for s :: "pipes \<times> 'p"
    using pipes_ok_nth [of "fst s" i] that by (simp add: pipe_open_def pipe_queue_def pipe_contents_def pipe_ok_def)
qed (use pipe_send_law pipe_recv_law in blast)+

section \<open>Pipe ends as counted handles\<close>

definition end_count :: "pipe \<Rightarrow> int \<Rightarrow> nat" where
  "end_count p h = (if pipe_handle_is_read h then unat (readers p) else unat (writers p))"

definition pipe_refs :: "pipes \<times> 'p \<Rightarrow> int \<Rightarrow> nat" where
  "pipe_refs s h = (case pipe_handle_index h (fst s) of None \<Rightarrow> 0 | Some i \<Rightarrow> end_count (fst s ! i) h)"

definition handle_slot :: "int \<Rightarrow> nat" where
  "handle_slot h = nat ((h - 256) div 2)"

definition pipe_retain_on :: "int \<Rightarrow> pipes \<times> 'p \<Rightarrow> int \<times> (pipes \<times> 'p)" where
  "pipe_retain_on h s = (let (r, ps) = pipe_retain h (fst s) in (r, (ps, snd s)))"

lemma pipe_refs_eq:
  assumes "pipes_ok (fst s)"
  shows "pipe_refs s h =
    (if 256 \<le> h \<and> handle_slot h < 8 then end_count (fst s ! handle_slot h) h else 0)"
proof (cases "256 \<le> h \<and> handle_slot h < 8")
  case True
  then have "pipe_ok (fst s ! handle_slot h)" using assms pipes_ok_nth by blast
  then show ?thesis
    using True
    by (auto simp: pipe_refs_def pipe_handle_index_def Let_def pipe_consts handle_slot_def end_count_def pipe_ok_def)
next
  case False
  then show ?thesis
    by (auto simp: pipe_refs_def pipe_handle_index_def Let_def pipe_consts handle_slot_def)
qed

lemma pipe_handle_slot:
  "pipe_handle_index h ps = Some i \<Longrightarrow> 256 \<le> h \<and> i = handle_slot h \<and> i < 8 \<and> pipe_used (ps ! i)"
  by (auto simp: pipe_handle_index_def Let_def pipe_consts handle_slot_def split: if_splits)

lemma same_slot_same_end:
  assumes "256 \<le> h" and "256 \<le> h'" and "handle_slot h = handle_slot h'"
    and "pipe_handle_is_read h = pipe_handle_is_read h'"
  shows "h = h'"
proof -
  have "(h - 256) div 2 = (h' - 256) div 2" using assms(1-3) by (simp add: handle_slot_def)
  moreover have "(h - 256) mod 2 = (h' - 256) mod 2"
    using assms by (auto simp: pipe_handle_is_read_def pipe_consts)
  ultimately show ?thesis by (metis diff_add_cancel div_mult_mod_eq)
qed

lemma pipe_refs_update:
  assumes "pipes_ok ps" and "pipe_handle_index h ps = Some i" and "pipe_ok p"
    and "pipe_handle_is_read h \<Longrightarrow> writers p = writers (ps ! i)"
    and "\<not> pipe_handle_is_read h \<Longrightarrow> readers p = readers (ps ! i)"
  shows "pipe_refs (ps[i := p], pr) = (pipe_refs (ps, pr'))(h := end_count p h)"
proof
  fix h'
  note slot = pipe_handle_slot [OF assms(2)]
  have len: "length ps = 8" using assms(1) by (simp add: pipes_ok_def)
  have ok: "pipes_ok (fst (ps[i := p], pr))" "pipes_ok (fst (ps, pr'))"
    using assms(1,3) pipes_ok_update by auto
  note refs = pipe_refs_eq [OF ok(1), of h'] pipe_refs_eq [OF ok(2), of h']
  show "pipe_refs (ps[i := p], pr) h' = ((pipe_refs (ps, pr'))(h := end_count p h)) h'"
  proof (cases "256 \<le> h' \<and> handle_slot h' = i")
    case True
    show ?thesis
    proof (cases "h' = h")
      case False
      then have "pipe_handle_is_read h' \<noteq> pipe_handle_is_read h"
        using same_slot_same_end [of h' h] True slot by auto
      then show ?thesis
        using False True slot len assms(4,5) refs by (auto simp: end_count_def)
    qed (use True slot len refs in simp)
  next
    case False
    then show ?thesis using slot refs by auto
  qed
qed

lemma pipe_retain_cases:
  assumes "pipes_ok ps" and "pipe_retain h ps = (r, ps')"
  obtains (fail) "r = PIPE_EBADF" "ps' = ps"
  | (ok) i p where "pipe_handle_index h ps = Some i" "r = 0" "ps' = ps[i := p]" "pipe_ok p"
      "end_count p h = Suc (end_count (ps ! i) h)"
      "pipe_handle_is_read h \<Longrightarrow> writers p = writers (ps ! i)"
      "\<not> pipe_handle_is_read h \<Longrightarrow> readers p = readers (ps ! i)"
proof (cases "pipe_handle_index h ps")
  case None
  then show ?thesis using fail assms(2) by (simp add: pipe_retain_def)
next
  case (Some i)
  have p: "pipe_ok (ps ! i)" "pipe_used (ps ! i)"
    using pipes_ok_nth [OF assms(1)] pipe_handle_slot [OF Some] by auto
  show ?thesis
  proof (cases "r = 0")
    case False
    then show ?thesis
      using fail assms(2) Some by (auto simp: pipe_retain_def Let_def pipe_consts split: if_splits)
  next
    case True
    show ?thesis
    proof (cases "pipe_handle_is_read h")
      case rd: True
      then show ?thesis
        using ok [of i "(ps ! i)\<lparr>readers := readers (ps ! i) + 1\<rparr>"] True assms(2) Some p
          u32_inc [of "readers (ps ! i)"]
        by (auto simp: pipe_retain_def Let_def pipe_consts pipe_ok_def end_count_def split: if_splits)
    next
      case wr: False
      then show ?thesis
        using ok [of i "(ps ! i)\<lparr>writers := writers (ps ! i) + 1\<rparr>"] True assms(2) Some p
          u32_inc [of "writers (ps ! i)"]
        by (auto simp: pipe_retain_def Let_def pipe_consts pipe_ok_def end_count_def split: if_splits)
    qed
  qed
qed

lemma pipe_close_cases:
  assumes "pipes_ok ps" and "pipe_close wake h (ps, pr) = (r, s')"
  obtains (fail) "r = PIPE_EBADF" "s' = (ps, pr)" "pipe_refs (ps, pr) h = 0"
  | (ok) i p pr' where "pipe_handle_index h ps = Some i" "r = 0" "s' = (ps[i := p], pr')" "pipe_ok p"
      "0 < end_count (ps ! i) h" "end_count p h = end_count (ps ! i) h - 1"
      "pipe_handle_is_read h \<Longrightarrow> writers p = writers (ps ! i)"
      "\<not> pipe_handle_is_read h \<Longrightarrow> readers p = readers (ps ! i)"
proof (cases "pipe_handle_index h ps")
  case None
  then show ?thesis using fail assms(2) by (simp add: pipe_close_def pipe_refs_def)
next
  case (Some i)
  have i: "i < 8" "pipe_ok (ps ! i)" "i < length ps"
    using pipes_ok_nth [OF assms(1)] pipe_handle_slot [OF Some] assms(1) by (auto simp: pipes_ok_def)
  have refs: "pipe_refs (ps, pr) h = end_count (ps ! i) h" using Some by (simp add: pipe_refs_def)
  have reap: "\<exists>q. pipe_reap i (ps[i := p]) = ps[i := q] \<and> pipe_ok q \<and> readers q = readers p \<and> writers q = writers p"
    if "pipe_used p" "pipe_ok (p\<lparr>pipe_used := readers p \<noteq> 0 \<or> writers p \<noteq> 0\<rparr>)" for p
    using that i(3) pipe_ok_zero
    by (cases "readers p = 0 \<and> writers p = 0")
      (auto simp: pipe_reap_def pipe_ok_def zero_pipe_def intro!: exI)
  show ?thesis
  proof (cases "end_count (ps ! i) h = 0")
    case True
    then show ?thesis
      using fail assms(2) Some refs
      by (auto simp: pipe_close_def Let_def end_count_def unat_eq_0 split: if_splits)
  next
    case False
    show ?thesis
    proof (cases "pipe_handle_is_read h")
      case rd: True
      let ?p = "(ps ! i)\<lparr>readers := readers (ps ! i) - 1\<rparr>"
      have "pipe_used ?p" "pipe_ok (?p\<lparr>pipe_used := readers ?p \<noteq> 0 \<or> writers ?p \<noteq> 0\<rparr>)"
        using i(2) pipe_handle_slot [OF Some] by (auto simp: pipe_ok_def)
      from reap [OF this] obtain q where q: "pipe_reap i (ps[i := ?p]) = ps[i := q]" "pipe_ok q"
          "readers q = readers ?p" "writers q = writers ?p"
        by blast
      then show ?thesis
        using ok [of i q "snd s'"] rd False assms(2) Some
        by (auto simp: pipe_close_def Let_def end_count_def unat_dec pipe_consts split: if_splits)
    next
      case wr: False
      let ?p = "(ps ! i)\<lparr>writers := writers (ps ! i) - 1\<rparr>"
      have "pipe_used ?p" "pipe_ok (?p\<lparr>pipe_used := readers ?p \<noteq> 0 \<or> writers ?p \<noteq> 0\<rparr>)"
        using i(2) pipe_handle_slot [OF Some] by (auto simp: pipe_ok_def)
      from reap [OF this] obtain q where q: "pipe_reap i (ps[i := ?p]) = ps[i := q]" "pipe_ok q"
          "readers q = readers ?p" "writers q = writers ?p"
        by blast
      then show ?thesis
        using ok [of i q "snd s'"] wr False assms(2) Some
        by (auto simp: pipe_close_def Let_def end_count_def unat_dec pipe_consts split: if_splits)
    qed
  qed
qed

interpretation pipe_ends: counted_handles pipe_retain_on "pipe_close wake" pipe_refs "\<lambda>s. pipes_ok (fst s)"
  for wake :: "'p wake"
proof unfold_locales
  fix s :: "pipes \<times> 'p" and h s'
  assume inv: "pipes_ok (fst s)" and ret: "pipe_retain_on h s = (0, s')"
  have ret': "pipe_retain h (fst s) = (0, fst s')" "snd s' = snd s"
    using ret by (auto simp: pipe_retain_on_def split: prod.splits)
  show "pipes_ok (fst s') \<and> pipe_refs s' = (pipe_refs s)(h := Suc (pipe_refs s h))"
    using inv ret'(1)
  proof (cases rule: pipe_retain_cases)
    case (ok i p)
    then show ?thesis
      using pipes_ok_update [OF inv ok(4), of i] pipe_refs_update [OF inv ok(1,4,6,7), of "snd s'" "snd s"]
      by (cases s, cases s') (simp add: pipe_refs_def)
  qed (simp add: pipe_consts)
next
  fix s :: "pipes \<times> 'p" and h r s'
  assume inv: "pipes_ok (fst s)" and ret: "pipe_retain_on h s = (r, s')" "r \<noteq> 0"
  have ret': "pipe_retain h (fst s) = (r, fst s')" "snd s' = snd s"
    using ret by (auto simp: pipe_retain_on_def split: prod.splits)
  show "s' = s"
    using inv ret'(1) by (cases rule: pipe_retain_cases) (use ret ret' in \<open>auto simp: prod_eq_iff\<close>)
next
  fix s :: "pipes \<times> 'p" and h s'
  assume inv: "pipes_ok (fst s)" and cl: "pipe_close wake h s = (0, s')"
  have cl': "pipe_close wake h (fst s, snd s) = (0, s')" using cl by simp
  show "0 < pipe_refs s h \<and> pipes_ok (fst s') \<and> pipe_refs s' = (pipe_refs s)(h := pipe_refs s h - 1)"
    using inv cl'
  proof (cases rule: pipe_close_cases)
    case (ok i p pr')
    then show ?thesis
      using pipes_ok_update [OF inv ok(4), of i] pipe_refs_update [OF inv ok(1,4,7,8), of pr' "snd s"]
      by (cases s) (simp add: pipe_refs_def)
  qed (simp add: pipe_consts)
next
  fix s :: "pipes \<times> 'p" and h r s'
  assume inv: "pipes_ok (fst s)" and cl: "pipe_close wake h s = (r, s')" "r \<noteq> 0"
  have cl': "pipe_close wake h (fst s, snd s) = (r, s')" using cl by simp
  show "s' = s \<and> pipe_refs s h = 0"
    using inv cl' by (cases rule: pipe_close_cases) (use cl in auto)
qed

section \<open>Properties\<close>

text \<open>Two open pipes with no process state, for concrete runs.\<close>

definition pipe_demo :: "pipes \<times> unit" where
  "pipe_demo = (snd (snd (pipe_create True pipe_init)), ())"

lemma pipe_init_ok: "pipes_ok pipe_init"
  by (simp add: pipes_ok_def pipe_init_def MAX_PIPES_def pipe_ok_zero)

lemma pipe_create_ok:
  assumes "pipes_ok ps" and "pipe_create True ps = (0, Some (rh, wh), ps')"
  obtains i where "i < 8" "rh = 256 + 2 * int i" "wh = 257 + 2 * int i" "pipe_open i (ps', pr)"
    "pipe_queue i (ps', pr) = []" "readers (ps' ! i) = 1" "writers (ps' ! i) = 1"
    "\<not> pipe_used (ps ! i)" "\<forall>j. j \<noteq> i \<longrightarrow> ps' ! j = ps ! j"
proof -
  obtain i where i: "first_index (\<lambda>i. \<not> pipe_used (ps ! i)) 0 8 = Some i"
    using assms(2) by (auto simp: pipe_create_def pipe_consts split: option.splits)
  let ?p = "zero_pipe\<lparr>pipe_used := True, readers := 1, writers := 1\<rparr>"
  have lt: "i < 8" "\<not> pipe_used (ps ! i)" using i by (auto simp: first_index_Some_iff)
  have "pipe_ok ?p" by (simp add: pipe_ok_def zero_pipe_def)
  then have "pipes_ok (ps[i := ?p])" using assms(1) pipes_ok_update by blast
  moreover have "ps' = ps[i := ?p]" "rh = 256 + 2 * int i" "wh = 257 + 2 * int i"
    using assms(2) i by (auto simp: pipe_create_def pipe_consts)
  moreover have "length ps = 8" using assms(1) by (simp add: pipes_ok_def)
  ultimately show ?thesis
    using that [of i] lt by (simp add: pipe_open_def pipe_queue_def pipe_contents_def zero_pipe_def)
qed

lemma pipe_demo_open: "pipe_open 0 pipe_demo" "pipe_queue 0 pipe_demo = []"
  "readers (fst pipe_demo ! 0) = 1"
proof -
  have "pipe_create True pipe_init = (0, Some (256, 257), fst pipe_demo)"
    by (simp add: pipe_demo_def pipe_create_def pipe_init_def pipe_consts zero_pipe_def first_index_step)
  from pipe_create_ok [OF pipe_init_ok this, of "()"]
  show "pipe_open 0 pipe_demo" "pipe_queue 0 pipe_demo = []" "readers (fst pipe_demo ! 0) = 1"
    by (auto simp: pipe_demo_def)
qed

text \<open>C31: Through any interleaving of writes to and reads from one pipe, the bytes that readers
  received followed by the bytes still queued are exactly the bytes that were queued before
  followed by the bytes that writers had accepted: nothing is lost, duplicated or reordered, and
  at most 4096 bytes are ever queued.\<close>

theorem pipe_stream_conserved:
  assumes "pipe_open i s" and "channel_run (pipe_send wake i) (pipe_recv wake i) ops s = (acc, del, s')"
  shows "pipe_queue i s @ acc = del @ pipe_queue i s' \<and> pipe_open i s' \<and> length (pipe_queue i s') \<le> 4096"
  using pipe_ch.stream_conserved [OF assms] pipe_ch.bounded [of i s'] by blast

theorem pipe_stream_conserved_witness:
  "\<exists>acc del s'. channel_run (pipe_send (\<lambda>_ _ u. u) 0) (pipe_recv (\<lambda>_ _ u. u) 0)
      [Send [1, 2, 3], Recv 2, Send [4]] pipe_demo = (acc, del, s') \<and>
     acc = del @ pipe_queue 0 s'"
  using pipe_stream_conserved [OF pipe_demo_open(1), of "\<lambda>_ _ u. u" "[Send [1, 2, 3], Recv 2, Send [4]]"]
    pipe_demo_open(2)
  by (metis append_Nil prod_cases3)

text \<open>C30: A write of at most PIPE_BUF bytes to a pipe is atomic: either all its bytes are appended
  to the queue, or none is and the pipe and every process stay as they were; it is refused as
  broken exactly when no reader is left, and as blocking exactly when the free space is too
  small.\<close>

theorem pipe_write_atomic:
  assumes "pipe_open i (ps, pr)" and "0 < count" and "count \<le> PIPE_BUF"
    and "pipe_write wake (257 + 2 * int i) (Some src) count (ps, pr) = (r, (ps', pr'))"
  shows "if readers (ps ! i) = 0 then r = PIPE_BROKEN \<and> ps' = ps \<and> pr' = pr
    else if 4096 - length (pipe_contents (ps ! i)) < unat count
    then r = PIPE_WOULD_BLOCK \<and> ps' = ps \<and> pr' = pr
    else r = int (unat count) \<and> pr' = wake i BLOCK_PIPE_READ pr \<and> pipe_open i (ps', pr') \<and>
      pipe_contents (ps' ! i) = pipe_contents (ps ! i) @ map src [0..<unat count] \<and>
      (\<forall>j. j \<noteq> i \<longrightarrow> ps' ! j = ps ! j)"
proof -
  note h = pipe_handles [OF assms(1)]
  have ok: "pipes_ok ps" "i < 8" "pipe_used (ps ! i)" "pipe_ok (ps ! i)" "length ps = 8"
    using assms(1) pipes_ok_nth by (auto simp: pipe_open_def pipes_ok_def)
  let ?space = "4096 - length (pipe_contents (ps ! i))"
  have cnt: "0 < unat count" "unat count \<le> 512"
    using assms(2,3) by (auto simp: PIPE_BUF_def word_le_nat_alt word_less_nat_alt)
  note wr = assms(4) [unfolded pipe_write_cases [OF ok(1) h(2,4) assms(2)] Let_def]
  show ?thesis
  proof (cases "readers (ps ! i) = 0 \<or> ?space < unat count")
    case True
    then show ?thesis using wr cnt by auto
  next
    case False
    let ?n = "write_size count (ps ! i)"
    have n: "unat ?n = unat count" using False by (simp add: unat_write_size [OF ok(4)])
    obtain buf pos where cp: "pipe_copy_in (unat ?n) src (ps ! i) = (buf, pos)" by force
    let ?p = "(ps ! i)\<lparr>pipe_buffer := buf, write_pos := pos, pipe_count := pipe_count (ps ! i) + ?n\<rparr>"
    have "unat (pipe_count (ps ! i)) + unat ?n \<le> 4096"
      using False n cnt by (simp add: pipe_contents_def) linarith
    note new = pipe_write_ok [OF ok(4) this cp]
    have "\<not> 4096 \<le> length (pipe_contents (ps ! i))" using False cnt by linarith
    then have "r = int (unat count)" "ps' = ps[i := ?p]" "pr' = wake i BLOCK_PIPE_READ pr"
      using wr False cnt cp n by auto
    then show ?thesis
      using False new n ok pipes_ok_update [OF ok(1), of ?p i] by (auto simp: pipe_open_def)
  qed
qed

theorem pipe_write_atomic_witness:
  "\<exists>ps. pipe_write (\<lambda>_ _ u. u) 257 (Some (cstr_at [7, 8])) 2 pipe_demo = (2, (ps, ())) \<and>
     pipe_contents (ps ! 0) = [7, 8]"
proof -
  obtain r ps where w: "pipe_write (\<lambda>_ _ u. u) 257 (Some (cstr_at [7, 8])) 2 pipe_demo = (r, (ps, ()))"
    by (cases "pipe_write (\<lambda>_ _ u. u) 257 (Some (cstr_at [7, 8])) 2 pipe_demo") auto
  obtain ps0 where d: "pipe_demo = (ps0, ())" by (cases pipe_demo) auto
  have m: "map (cstr_at [7, 8]) [0..<2] = [7, 8 :: u8]" by (simp add: map_cstr_at)
  have f: "pipe_open 0 (ps0, ())" "pipe_contents (ps0 ! 0) = []" "readers (ps0 ! 0) = 1"
    using pipe_demo_open unfolding d by (simp_all add: pipe_queue_def)
  have "pipe_write (\<lambda>_ _ u. u) (257 + 2 * int 0) (Some (cstr_at [7, 8])) 2 (ps0, ()) = (r, (ps, ()))"
    using w d by simp
  from pipe_write_atomic [OF f(1) _ _ this] have "r = 2" "pipe_contents (ps ! 0) = [7, 8]"
    using f(2,3) m by (simp_all add: PIPE_BUF_def)
  then show ?thesis using w by auto
qed

text \<open>C32: The ends of a pipe are counted handles: a retained end that is closed again leaves
  every count as it was, an end is usable until it has been closed as often as it was handed out,
  and closing it once more is refused.\<close>

theorem pipe_ends_counted:
  assumes "pipes_ok (fst s)"
  shows "(\<forall>s1. pipe_retain_on h s = (0, s1) \<longrightarrow>
        (\<exists>s2. pipe_close wake h s1 = (0, s2) \<and> pipes_ok (fst s2) \<and> pipe_refs s2 = pipe_refs s)) \<and>
    (\<forall>n < pipe_refs s h. fst (pipe_close wake h (close_times (pipe_close wake) n h s)) = PIPE_SUCCESS) \<and>
    fst (pipe_close wake h (close_times (pipe_close wake) (pipe_refs s h) h s)) \<noteq> PIPE_SUCCESS"
proof -
  have "fst (pipe_close wake h (close_times (pipe_close wake) n h s)) = PIPE_SUCCESS"
    if "n < pipe_refs s h" for n
    using pipe_ends.close_times_refs [OF assms, of n h wake] that
      pipe_ends.close_referenced [of "close_times (pipe_close wake) n h s" h wake]
    by (auto simp: PIPE_SUCCESS_def)
  then show ?thesis
    using pipe_ends.retain_close_cancel [OF assms] pipe_ends.closed_handle_refused [OF assms]
    by (simp add: PIPE_SUCCESS_def)
qed

theorem pipe_ends_counted_witness:
  "fst (pipe_close (\<lambda>_ _ u. u) 257 (snd (pipe_close (\<lambda>_ _ u. u) 257 pipe_demo))) \<noteq> PIPE_SUCCESS"
proof -
  have "pipe_refs pipe_demo 257 = 1"
    by (simp add: pipe_refs_def pipe_demo_def pipe_create_def pipe_init_def pipe_consts zero_pipe_def
        first_index_step pipe_handle_index_def pipe_handle_is_read_def end_count_def)
  then show ?thesis
    using pipe_ends_counted [of pipe_demo 257 "\<lambda>_ _ u. u"] pipe_demo_open(1)
    by (simp add: pipe_open_def)
qed

end
