(* ===== verification/Blkdev.thy ===== *)
theory Blkdev
  imports Prelude
begin

text \<open>
  The block-device interface of \<^verbatim>\<open>src/include/blkdev.h\<close>. The struct of function pointers is a
  record, polymorphic in the state \<open>'d\<close> behind the device; a function pointer is an option, as
  the file system checks two of them for NULL. A sector buffer is a list of 512 bytes; reading
  returns the bytes written to it, and the flag says that the buffer pointer is not NULL.

  The locale \<open>block_dev\<close> is what the file system needs of a device: a sector reads back as it
  was last written, and writing one leaves the others alone.
\<close>

definition SECTOR_SIZE :: u32 where "SECTOR_SIZE = 512"
definition BLKDEV_SUCCESS :: int where "BLKDEV_SUCCESS = 0"
definition BLKDEV_ERROR :: int where "BLKDEV_ERROR = -1"
definition BLKDEV_EINVAL :: int where "BLKDEV_EINVAL = -2"
definition BLKDEV_EIO :: int where "BLKDEV_EIO = -3"

lemmas blkdev_consts = SECTOR_SIZE_def BLKDEV_SUCCESS_def BLKDEV_ERROR_def BLKDEV_EINVAL_def BLKDEV_EIO_def

datatype blkdev_type = BLKDEV_TYPE_RAMDISK | BLKDEV_TYPE_ATA | BLKDEV_TYPE_VIRTIO

record 'd block_device =
  bd_name :: "u8 list"
  bd_type :: blkdev_type
  sector_count :: u32
  sector_size :: u32
  read_sector :: "(bool \<Rightarrow> u32 \<Rightarrow> 'd \<Rightarrow> int \<times> u8 list) option"
  write_sector :: "(u32 \<Rightarrow> u8 list option \<Rightarrow> 'd \<Rightarrow> int \<times> 'd) option"
  read_sectors :: "(bool \<Rightarrow> u32 \<Rightarrow> u32 \<Rightarrow> 'd \<Rightarrow> int \<times> u8 list) option"
  write_sectors :: "(u32 \<Rightarrow> u32 \<Rightarrow> u8 list option \<Rightarrow> 'd \<Rightarrow> int \<times> 'd) option"

locale block_dev =
  fixes dev :: "'d block_device"
    and rd :: "bool \<Rightarrow> u32 \<Rightarrow> 'd \<Rightarrow> int \<times> u8 list"
    and wr :: "u32 \<Rightarrow> u8 list option \<Rightarrow> 'd \<Rightarrow> int \<times> 'd"
    and sectors :: "'d \<Rightarrow> nat \<Rightarrow> u8 list"
    and dinv :: "'d \<Rightarrow> bool"
  assumes dev_ops: "read_sector dev = Some rd" "write_sector dev = Some wr"
    and dev_size: "sector_size dev = SECTOR_SIZE" "5 < unat (sector_count dev)" "unat (sector_count dev) \<le> 4096"
    and sector_length: "dinv d \<Longrightarrow> i < unat (sector_count dev) \<Longrightarrow> length (sectors d i) = 512"
    and rd_ok: "dinv d \<Longrightarrow> unat lba < unat (sector_count dev) \<Longrightarrow> rd True lba d = (BLKDEV_SUCCESS, sectors d (unat lba))"
    and wr_ok: "dinv d \<Longrightarrow> unat lba < unat (sector_count dev) \<Longrightarrow> length buf = 512 \<Longrightarrow>
      \<exists>d'. wr lba (Some buf) d = (BLKDEV_SUCCESS, d') \<and> dinv d' \<and> sectors d' = (sectors d)(unat lba := buf)"
    and rd_bad: "dinv d \<Longrightarrow> \<not> unat lba < unat (sector_count dev) \<Longrightarrow> fst (rd True lba d) \<noteq> BLKDEV_SUCCESS"
    and wr_bad: "dinv d \<Longrightarrow> \<not> unat lba < unat (sector_count dev) \<Longrightarrow>
      fst (wr lba (Some buf) d) \<noteq> BLKDEV_SUCCESS \<and> snd (wr lba (Some buf) d) = d"
begin

lemma write_then_read:
  assumes "dinv d" and "unat lba < unat (sector_count dev)" and "length buf = 512"
    and "wr lba (Some buf) d = (r, d')"
  shows "rd True lba d' = (BLKDEV_SUCCESS, buf)" and
    "unat lba' < unat (sector_count dev) \<Longrightarrow> lba' \<noteq> lba \<Longrightarrow> rd True lba' d' = rd True lba' d"
  using wr_ok [OF assms(1-3)] assms(1,2,4) by (auto simp: rd_ok word_unat_eq_iff)

end

end
