(* ===== verification/SimpleFS.thy ===== *)
theory SimpleFS
  imports CString Blkdev
begin

text \<open>
  SimpleFS, \<^verbatim>\<open>src/kernel/simplefs.c\<close>: a flat directory of 32 entries in sectors 1 to 4, a
  superblock in sector 0, and files as contiguous runs of sectors found through an in-memory
  bitmap. This theory holds the model: the on-disk structures with their encodings, and every
  function of the source, polymorphic in the state of the block device underneath. The
  static variables of the C file are the record \<open>fs\<close>. Sector numbers in loops are natural
  numbers; what goes to the device and into the on-disk structures is 32 bits wide.
\<close>

section \<open>Constants and on-disk structures\<close>

definition VFS_O_RDONLY :: u32 where "VFS_O_RDONLY = 0x0001"
definition VFS_O_WRONLY :: u32 where "VFS_O_WRONLY = 0x0002"
definition VFS_O_RDWR :: u32 where "VFS_O_RDWR = VFS_O_RDONLY OR VFS_O_WRONLY"
definition VFS_O_CREAT :: u32 where "VFS_O_CREAT = 0x0100"
definition VFS_O_TRUNC :: u32 where "VFS_O_TRUNC = 0x0200"
definition VFS_SUCCESS :: int where "VFS_SUCCESS = 0"
definition VFS_EINVAL :: int where "VFS_EINVAL = -1"
definition VFS_ENOENT :: int where "VFS_ENOENT = -2"
definition VFS_ENOSPC :: int where "VFS_ENOSPC = -3"
definition VFS_EIO :: int where "VFS_EIO = -4"
definition VFS_EMFILE :: int where "VFS_EMFILE = -5"
definition VFS_EBADF :: int where "VFS_EBADF = -6"

lemmas vfs_errors = VFS_SUCCESS_def VFS_EINVAL_def VFS_ENOENT_def VFS_ENOSPC_def VFS_EIO_def
  VFS_EMFILE_def VFS_EBADF_def

definition SIMPLEFS_MAGIC :: u32 where "SIMPLEFS_MAGIC = 0x31534653"
definition SIMPLEFS_VERSION :: u32 where "SIMPLEFS_VERSION = 1"
definition SIMPLEFS_DIR_START :: u32 where "SIMPLEFS_DIR_START = 1"
definition SIMPLEFS_DIR_SECTORS :: u32 where "SIMPLEFS_DIR_SECTORS = 4"
definition SIMPLEFS_MAX_FILES :: u32 where "SIMPLEFS_MAX_FILES = 32"
definition SIMPLEFS_NAME_MAX :: nat where "SIMPLEFS_NAME_MAX = 32"
definition SIMPLEFS_DATA_START :: u32 where "SIMPLEFS_DATA_START = SIMPLEFS_DIR_START + SIMPLEFS_DIR_SECTORS"
definition SIMPLEFS_MAX_TRACKED_SECTORS :: u32 where "SIMPLEFS_MAX_TRACKED_SECTORS = 4096"

lemmas simplefs_consts = SIMPLEFS_MAGIC_def SIMPLEFS_VERSION_def SIMPLEFS_DIR_START_def
  SIMPLEFS_DIR_SECTORS_def SIMPLEFS_MAX_FILES_def SIMPLEFS_NAME_MAX_def SIMPLEFS_DATA_START_def
  SIMPLEFS_MAX_TRACKED_SECTORS_def SECTOR_SIZE_def

record superblock =
  sb_magic :: u32
  sb_version :: u32
  sb_sector_size :: u32
  sb_total_sectors :: u32
  sb_dir_start :: u32
  sb_dir_sectors :: u32
  sb_data_start :: u32
  sb_next_free :: u32
  sb_max_files :: u32

record dir_entry =
  de_used :: u32
  de_name :: "u8 list"
  de_start :: u32
  de_size :: u32
  de_alloc :: u32
  de_flags :: u32
  de_reserved :: "u32 list"

text \<open>
  The structs as the bytes that \<^verbatim>\<open>memcpy\<close> moves: 36 bytes and 64 bytes, little endian, with no
  padding (every member is 32 bits wide or an array whose length is a multiple of four).
\<close>

definition sb_bytes :: "superblock \<Rightarrow> u8 list" where
  "sb_bytes sb = le32 (sb_magic sb) @ le32 (sb_version sb) @ le32 (sb_sector_size sb) @
     le32 (sb_total_sectors sb) @ le32 (sb_dir_start sb) @ le32 (sb_dir_sectors sb) @
     le32 (sb_data_start sb) @ le32 (sb_next_free sb) @ le32 (sb_max_files sb)"

definition sb_of_bytes :: "u8 list \<Rightarrow> superblock" where
  "sb_of_bytes bs = \<lparr>sb_magic = of_le32 bs, sb_version = of_le32 (drop 4 bs),
     sb_sector_size = of_le32 (drop 8 bs), sb_total_sectors = of_le32 (drop 12 bs),
     sb_dir_start = of_le32 (drop 16 bs), sb_dir_sectors = of_le32 (drop 20 bs),
     sb_data_start = of_le32 (drop 24 bs), sb_next_free = of_le32 (drop 28 bs),
     sb_max_files = of_le32 (drop 32 bs)\<rparr>"

definition entry_bytes :: "dir_entry \<Rightarrow> u8 list" where
  "entry_bytes e = le32 (de_used e) @ de_name e @ le32 (de_start e) @ le32 (de_size e) @
     le32 (de_alloc e) @ le32 (de_flags e) @ concat (map le32 (de_reserved e))"

definition entry_of_bytes :: "u8 list \<Rightarrow> dir_entry" where
  "entry_of_bytes bs = \<lparr>de_used = of_le32 bs, de_name = take 32 (drop 4 bs),
     de_start = of_le32 (drop 36 bs), de_size = of_le32 (drop 40 bs),
     de_alloc = of_le32 (drop 44 bs), de_flags = of_le32 (drop 48 bs),
     de_reserved = [of_le32 (drop 52 bs), of_le32 (drop 56 bs), of_le32 (drop 60 bs)]\<rparr>"

definition zero_entry :: dir_entry where
  "zero_entry = \<lparr>de_used = 0, de_name = replicate 32 0, de_start = 0, de_size = 0, de_alloc = 0,
     de_flags = 0, de_reserved = [0, 0, 0]\<rparr>"

record 'd fs =
  fs_dev :: "'d block_device option"
  fs_disk :: 'd
  fs_sb :: superblock
  fs_mounted :: bool
  fs_sector_used :: "nat \<Rightarrow> u8"

definition dev_read :: "u32 \<Rightarrow> 'd fs \<Rightarrow> int \<times> u8 list" where
  "dev_read lba s = the (read_sector (the (fs_dev s))) True lba (fs_disk s)"

definition dev_write :: "u32 \<Rightarrow> u8 list \<Rightarrow> 'd fs \<Rightarrow> int \<times> 'd fs" where
  "dev_write lba buf s =
     (let (r, d) = the (write_sector (the (fs_dev s))) lba (Some buf) (fs_disk s)
      in (r, s\<lparr>fs_disk := d\<rparr>))"

section \<open>Sectors and the bitmap\<close>

definition simplefs_min_u32 :: "u32 \<Rightarrow> u32 \<Rightarrow> u32" where
  "simplefs_min_u32 a b = (if a < b then a else b)"

definition simplefs_sectors_for_bytes :: "u32 \<Rightarrow> u32" where
  "simplefs_sectors_for_bytes bytes =
     (if bytes = 0 then 0 else (bytes + SECTOR_SIZE - 1) div SECTOR_SIZE)"

definition simplefs_validate_dev :: "'d block_device option \<Rightarrow> int" where
  "simplefs_validate_dev dev =
     (case dev of None \<Rightarrow> VFS_EINVAL
      | Some dev \<Rightarrow>
          if read_sector dev = None \<or> write_sector dev = None then VFS_EINVAL
          else if sector_size dev \<noteq> SECTOR_SIZE \<or> sector_count dev \<le> SIMPLEFS_DATA_START \<or>
                  SIMPLEFS_MAX_TRACKED_SECTORS < sector_count dev then VFS_EINVAL
          else VFS_SUCCESS)"

definition simplefs_bitmap_clear_all :: "'d fs \<Rightarrow> 'd fs" where
  "simplefs_bitmap_clear_all s = s\<lparr>fs_sector_used := (\<lambda>_. 0)\<rparr>"

definition simplefs_sector_is_used :: "nat \<Rightarrow> 'd fs \<Rightarrow> bool" where
  "simplefs_sector_is_used sector s = bit_test (fs_sector_used s) sector"

definition simplefs_sector_set :: "nat \<Rightarrow> 'd fs \<Rightarrow> 'd fs" where
  "simplefs_sector_set sector s = s\<lparr>fs_sector_used := bit_set (fs_sector_used s) sector\<rparr>"

definition simplefs_sector_clear :: "nat \<Rightarrow> 'd fs \<Rightarrow> 'd fs" where
  "simplefs_sector_clear sector s = s\<lparr>fs_sector_used := bit_clear (fs_sector_used s) sector\<rparr>"

definition run_outside :: "u32 \<Rightarrow> u32 \<Rightarrow> 'd fs \<Rightarrow> bool" where
  "run_outside start count s \<longleftrightarrow> start < SIMPLEFS_DATA_START \<or> start \<ge> sb_total_sectors (fs_sb s) \<or>
     count > sb_total_sectors (fs_sb s) - start"

fun mark_used_loop :: "nat list \<Rightarrow> 'd fs \<Rightarrow> int \<times> 'd fs" where
  "mark_used_loop [] s = (VFS_SUCCESS, s)"
| "mark_used_loop (sector # rest) s =
     (if simplefs_sector_is_used sector s then (VFS_EIO, s)
      else mark_used_loop rest (simplefs_sector_set sector s))"

definition simplefs_mark_run_used :: "u32 \<Rightarrow> u32 \<Rightarrow> 'd fs \<Rightarrow> int \<times> 'd fs" where
  "simplefs_mark_run_used start count s =
     (if count = 0 then (VFS_SUCCESS, s)
      else if run_outside start count s then (VFS_EIO, s)
      else mark_used_loop [unat start ..< unat start + unat count] s)"

definition simplefs_mark_run_free :: "u32 \<Rightarrow> u32 \<Rightarrow> 'd fs \<Rightarrow> 'd fs" where
  "simplefs_mark_run_free start count s =
     (if count = 0 \<or> run_outside start count s then s
      else for_loop (unat start) (unat start + unat count) simplefs_sector_clear s)"

definition simplefs_write_superblock :: "'d fs \<Rightarrow> int \<times> 'd fs" where
  "simplefs_write_superblock s =
     (let sector = blit (replicate 512 0) 0 (sb_bytes (fs_sb s));
          (r, s) = dev_write 0 sector s
      in if r \<noteq> BLKDEV_SUCCESS then (VFS_EIO, s) else (VFS_SUCCESS, s))"

section \<open>Directory entries\<close>

definition simplefs_read_entry :: "nat \<Rightarrow> 'd fs \<Rightarrow> int \<times> dir_entry" where
  "simplefs_read_entry index s =
     (let entries_per_sector = 512 div 64;
          sector_lba = sb_dir_start (fs_sb s) + of_nat (index div entries_per_sector);
          sector_offset = index mod entries_per_sector * 64
      in if index \<ge> unat SIMPLEFS_MAX_FILES then (VFS_EINVAL, zero_entry)
         else let (r, sector) = dev_read sector_lba s
              in if r \<noteq> BLKDEV_SUCCESS then (VFS_EIO, zero_entry)
                 else (VFS_SUCCESS, entry_of_bytes (take 64 (drop sector_offset sector))))"

definition simplefs_write_entry :: "nat \<Rightarrow> dir_entry \<Rightarrow> 'd fs \<Rightarrow> int \<times> 'd fs" where
  "simplefs_write_entry index entry s =
     (let entries_per_sector = 512 div 64;
          sector_lba = sb_dir_start (fs_sb s) + of_nat (index div entries_per_sector);
          sector_offset = index mod entries_per_sector * 64
      in if index \<ge> unat SIMPLEFS_MAX_FILES then (VFS_EINVAL, s)
         else let (r, sector) = dev_read sector_lba s
              in if r \<noteq> BLKDEV_SUCCESS then (VFS_EIO, s)
                 else let (r, s) = dev_write sector_lba (blit sector sector_offset (entry_bytes entry)) s
                      in if r \<noteq> BLKDEV_SUCCESS then (VFS_EIO, s) else (VFS_SUCCESS, s))"

fun find_entry_in :: "nat list \<Rightarrow> u8 list \<Rightarrow> 'd fs \<Rightarrow> int \<times> nat \<times> dir_entry" where
  "find_entry_in [] name s = (VFS_ENOENT, 0, zero_entry)"
| "find_entry_in (i # is) name s =
     (let (status, entry) = simplefs_read_entry i s in
      if status \<noteq> VFS_SUCCESS then (status, 0, zero_entry)
      else if de_used entry \<noteq> 0 \<and> strcmp (cstr_at (de_name entry)) (cstr_at name) = Some 0
      then (VFS_SUCCESS, i, entry)
      else find_entry_in is name s)"

definition simplefs_find_entry :: "u8 list \<Rightarrow> 'd fs \<Rightarrow> int \<times> nat \<times> dir_entry" where
  "simplefs_find_entry name s = find_entry_in [0..<unat SIMPLEFS_MAX_FILES] name s"

fun find_free_in :: "nat list \<Rightarrow> 'd fs \<Rightarrow> int \<times> nat" where
  "find_free_in [] s = (VFS_ENOSPC, 0)"
| "find_free_in (i # is) s =
     (let (status, entry) = simplefs_read_entry i s in
      if status \<noteq> VFS_SUCCESS then (status, 0)
      else if de_used entry = 0 then (VFS_SUCCESS, i)
      else find_free_in is s)"

definition simplefs_find_free_entry :: "'d fs \<Rightarrow> int \<times> nat" where
  "simplefs_find_free_entry s = find_free_in [0..<unat SIMPLEFS_MAX_FILES] s"

fun rebuild_entries :: "nat list \<Rightarrow> u32 \<Rightarrow> 'd fs \<Rightarrow> int \<times> u32 \<times> 'd fs" where
  "rebuild_entries [] high_water s = (VFS_SUCCESS, high_water, s)"
| "rebuild_entries (i # is) high_water s =
     (let (status, entry) = simplefs_read_entry i s in
      if status \<noteq> VFS_SUCCESS then (status, high_water, s)
      else if de_used entry = 0 \<or> de_alloc entry = 0 then rebuild_entries is high_water s
      else if run_outside (de_start entry) (de_alloc entry) s then (VFS_EIO, high_water, s)
      else let (status, s) = simplefs_mark_run_used (de_start entry) (de_alloc entry) s in
           if status \<noteq> VFS_SUCCESS then (status, high_water, s)
           else rebuild_entries is
                  (if high_water < de_start entry + de_alloc entry
                   then de_start entry + de_alloc entry else high_water) s)"

definition simplefs_rebuild_allocation_map :: "'d fs \<Rightarrow> int \<times> 'd fs" where
  "simplefs_rebuild_allocation_map s =
     (let s = simplefs_bitmap_clear_all s;
          s = for_loop 0 (unat SIMPLEFS_DATA_START) simplefs_sector_set s;
          (status, high_water, s) =
            rebuild_entries [0..<unat SIMPLEFS_MAX_FILES] SIMPLEFS_DATA_START s
      in if status \<noteq> VFS_SUCCESS then (status, s)
         else simplefs_write_superblock (s\<lparr>fs_sb := (fs_sb s)\<lparr>sb_next_free := high_water\<rparr>\<rparr>))"

section \<open>Paths\<close>

function normalize_loop :: "(nat \<Rightarrow> u8) \<Rightarrow> nat \<Rightarrow> u8 list \<Rightarrow> int \<times> u8 list" where
  "normalize_loop name len name_out =
     (if name len = 0 then (VFS_SUCCESS, name_out)
      else if name len = 0x2F then (VFS_EINVAL, name_out)
      else if len \<ge> SIMPLEFS_NAME_MAX - 1 then (VFS_EINVAL, name_out)
      else normalize_loop name (len + 1) (name_out @ [name len]))"
  by pat_completeness auto
termination
  by (relation "measure (\<lambda>(name, len, out). SIMPLEFS_NAME_MAX - len)") (auto simp: SIMPLEFS_NAME_MAX_def)

declare normalize_loop.simps [simp del]

definition simplefs_normalize_path :: "(nat \<Rightarrow> u8) option \<Rightarrow> int \<times> u8 list" where
  "simplefs_normalize_path path =
     (case path of None \<Rightarrow> (VFS_EINVAL, [])
      | Some path \<Rightarrow>
          if path 0 \<noteq> 0x2F then (VFS_EINVAL, [])
          else let name = (\<lambda>i. path (i + 1)) in
               if name 0 = 0 then (VFS_EINVAL, [])
               else let (status, name_out) = normalize_loop name 0 [] in
                    if status \<noteq> VFS_SUCCESS then (status, name_out)
                    else if length name_out = 1 \<and> name_out ! 0 = 0x2E \<or>
                            length name_out = 2 \<and> name_out ! 0 = 0x2E \<and> name_out ! 1 = 0x2E
                    then (VFS_EINVAL, name_out)
                    else (VFS_SUCCESS, name_out))"

fun copy_name_loop :: "u8 list \<Rightarrow> nat \<Rightarrow> nat \<Rightarrow> u8 list \<Rightarrow> u8 list" where
  "copy_name_loop src i 0 dest = dest[i := 0]"
| "copy_name_loop src i (Suc n) dest =
     (if cstr_at src i = 0 then dest[i := 0]
      else copy_name_loop src (i + 1) n (dest[i := cstr_at src i]))"

definition simplefs_copy_name :: "u8 list \<Rightarrow> u8 list \<Rightarrow> u8 list" where
  "simplefs_copy_name dest src = copy_name_loop src 0 (SIMPLEFS_NAME_MAX - 1) dest"

section \<open>Allocation\<close>

function free_run :: "nat \<Rightarrow> nat \<Rightarrow> nat \<Rightarrow> 'd fs \<Rightarrow> nat" where
  "free_run start run count s =
     (if run < count \<and> \<not> simplefs_sector_is_used (start + run) s
      then free_run start (run + 1) count s else run)"
  by pat_completeness auto
termination
  by (relation "measure (\<lambda>(start, run, count, s). count - run)") auto

declare free_run.simps [simp del]

function find_run :: "nat \<Rightarrow> nat \<Rightarrow> nat \<Rightarrow> 'd fs \<Rightarrow> nat option" where
  "find_run start stop count s =
     (if start \<le> stop then
        let run = free_run start 0 count s in
        if run = count then Some start else find_run (start + run + 1) stop count s
      else None)"
  by pat_completeness auto
termination
  by (relation "measure (\<lambda>(start, stop, count, s). Suc stop - start)") auto

declare find_run.simps [simp del]

definition simplefs_allocate_sectors :: "u32 \<Rightarrow> 'd fs \<Rightarrow> int \<times> u32 \<times> 'd fs" where
  "simplefs_allocate_sectors count s =
     (if count = 0 then (VFS_SUCCESS, 0, s)
      else if sb_total_sectors (fs_sb s) - SIMPLEFS_DATA_START < count then (VFS_ENOSPC, 0, s)
      else case find_run (unat SIMPLEFS_DATA_START) (unat (sb_total_sectors (fs_sb s) - count)) (unat count) s of
        None \<Rightarrow> (VFS_ENOSPC, 0, s)
      | Some start \<Rightarrow>
          let start = of_nat start :: u32; (status, s) = simplefs_mark_run_used start count s in
          if status \<noteq> VFS_SUCCESS then (status, 0, s)
          else
            let s = (if sb_next_free (fs_sb s) < start + count
                     then s\<lparr>fs_sb := (fs_sb s)\<lparr>sb_next_free := start + count\<rparr>\<rparr> else s);
                (status, s) = simplefs_write_superblock s
            in (status, start, s))"

fun zero_run_loop :: "u32 \<Rightarrow> nat list \<Rightarrow> 'd fs \<Rightarrow> int \<times> 'd fs" where
  "zero_run_loop start [] s = (VFS_SUCCESS, s)"
| "zero_run_loop start (i # is) s =
     (let (r, s) = dev_write (start + of_nat i) (replicate 512 0) s in
      if r \<noteq> BLKDEV_SUCCESS then (VFS_EIO, s) else zero_run_loop start is s)"

definition simplefs_zero_run :: "u32 \<Rightarrow> u32 \<Rightarrow> 'd fs \<Rightarrow> int \<times> 'd fs" where
  "simplefs_zero_run start_sector count s = zero_run_loop start_sector [0..<unat count] s"

fun copy_data_loop :: "u32 \<Rightarrow> u32 \<Rightarrow> nat list \<Rightarrow> 'd fs \<Rightarrow> int \<times> 'd fs" where
  "copy_data_loop old_start new_start [] s = (VFS_SUCCESS, s)"
| "copy_data_loop old_start new_start (i # is) s =
     (let (r, sector) = dev_read (old_start + of_nat i) s in
      if r \<noteq> BLKDEV_SUCCESS then (VFS_EIO, s)
      else let (r, s) = dev_write (new_start + of_nat i) sector s in
           if r \<noteq> BLKDEV_SUCCESS then (VFS_EIO, s) else copy_data_loop old_start new_start is s)"

definition simplefs_copy_file_data :: "dir_entry \<Rightarrow> u32 \<Rightarrow> 'd fs \<Rightarrow> int \<times> 'd fs" where
  "simplefs_copy_file_data entry new_start s =
     copy_data_loop (de_start entry) new_start [0..<unat (simplefs_sectors_for_bytes (de_size entry))] s"

definition simplefs_ensure_capacity :: "dir_entry \<Rightarrow> u32 \<Rightarrow> 'd fs \<Rightarrow> int \<times> dir_entry \<times> 'd fs" where
  "simplefs_ensure_capacity entry required_sectors s =
     (if required_sectors \<le> de_alloc entry then (VFS_SUCCESS, entry, s)
      else
        let (status, new_start, s) = simplefs_allocate_sectors required_sectors s in
        if status \<noteq> VFS_SUCCESS then (status, entry, s)
        else
          let (status, s) = simplefs_zero_run new_start required_sectors s in
          if status \<noteq> VFS_SUCCESS then (status, entry, s)
          else
            let (status, s) = (if 0 < de_size entry \<and> 0 < de_alloc entry
                               then simplefs_copy_file_data entry new_start s else (VFS_SUCCESS, s)) in
            if status \<noteq> VFS_SUCCESS then (status, entry, s)
            else (VFS_SUCCESS, entry\<lparr>de_start := new_start, de_alloc := required_sectors\<rparr>, s))"

section \<open>Format and mount\<close>

definition fresh_superblock :: "u32 \<Rightarrow> superblock" where
  "fresh_superblock n = \<lparr>sb_magic = SIMPLEFS_MAGIC, sb_version = SIMPLEFS_VERSION,
     sb_sector_size = SECTOR_SIZE, sb_total_sectors = n, sb_dir_start = SIMPLEFS_DIR_START,
     sb_dir_sectors = SIMPLEFS_DIR_SECTORS, sb_data_start = SIMPLEFS_DATA_START,
     sb_next_free = SIMPLEFS_DATA_START, sb_max_files = SIMPLEFS_MAX_FILES\<rparr>"

definition simplefs_format :: "'d block_device option \<Rightarrow> 'd fs \<Rightarrow> int \<times> 'd fs" where
  "simplefs_format dev s =
     (if simplefs_validate_dev dev \<noteq> VFS_SUCCESS then (VFS_EINVAL, s)
      else
        let s = s\<lparr>fs_dev := dev, fs_sb := fresh_superblock (sector_count (the dev))\<rparr>;
            (r, s) = dev_write 0 (blit (replicate 512 0) 0 (sb_bytes (fs_sb s))) s in
        if r \<noteq> BLKDEV_SUCCESS then (VFS_EIO, s)
        else
          let (status, s) = zero_run_loop SIMPLEFS_DIR_START [0..<unat SIMPLEFS_DIR_SECTORS] s in
          if status \<noteq> VFS_SUCCESS then (VFS_EIO, s)
          else
            let (status, s) = simplefs_rebuild_allocation_map s in
            if status \<noteq> VFS_SUCCESS then (status, s\<lparr>fs_mounted := False\<rparr>)
            else (VFS_SUCCESS, s\<lparr>fs_mounted := True\<rparr>))"

definition superblock_bad :: "u32 \<Rightarrow> superblock \<Rightarrow> bool" where
  "superblock_bad count sb \<longleftrightarrow>
     sb_magic sb \<noteq> SIMPLEFS_MAGIC \<or> sb_version sb \<noteq> SIMPLEFS_VERSION \<or>
     sb_sector_size sb \<noteq> SECTOR_SIZE \<or> sb_total_sectors sb \<noteq> count \<or>
     sb_dir_start sb \<noteq> SIMPLEFS_DIR_START \<or> sb_dir_sectors sb \<noteq> SIMPLEFS_DIR_SECTORS \<or>
     sb_data_start sb \<noteq> SIMPLEFS_DATA_START \<or> sb_max_files sb \<noteq> SIMPLEFS_MAX_FILES \<or>
     sb_next_free sb < SIMPLEFS_DATA_START \<or> count < sb_next_free sb"

text \<open>
  The first read goes through the device that is being mounted, before it becomes the file
  system's device; the superblock variable is overwritten before it is checked.
\<close>

definition simplefs_mount :: "'d block_device option \<Rightarrow> 'd fs \<Rightarrow> int \<times> 'd fs" where
  "simplefs_mount dev s =
     (if simplefs_validate_dev dev \<noteq> VFS_SUCCESS then (VFS_EINVAL, s)
      else
        let (r, sector) = dev_read 0 (s\<lparr>fs_dev := dev\<rparr>) in
        if r \<noteq> BLKDEV_SUCCESS then (VFS_EIO, s)
        else
          let s = s\<lparr>fs_sb := sb_of_bytes (take 36 sector)\<rparr> in
          if superblock_bad (sector_count (the dev)) (fs_sb s) then (VFS_EIO, s)
          else
            let (status, s) = simplefs_rebuild_allocation_map (s\<lparr>fs_dev := dev\<rparr>) in
            if status \<noteq> VFS_SUCCESS then (status, s\<lparr>fs_mounted := False\<rparr>)
            else (VFS_SUCCESS, s\<lparr>fs_mounted := True\<rparr>))"

section \<open>Files\<close>

record file_info =
  fi_start :: u32
  fi_size :: u32
  fi_alloc :: u32
  fi_flags :: u32

definition info_of :: "dir_entry \<Rightarrow> file_info" where
  "info_of e = \<lparr>fi_start = de_start e, fi_size = de_size e, fi_alloc = de_alloc e, fi_flags = de_flags e\<rparr>"

definition simplefs_open ::
    "(nat \<Rightarrow> u8) option \<Rightarrow> u32 \<Rightarrow> 'd fs \<Rightarrow> int \<times> file_info option \<times> 'd fs" where
  "simplefs_open path flags s =
     (if \<not> fs_mounted s then (VFS_EIO, None, s)
      else
        let (status, name) = simplefs_normalize_path path in
        if status \<noteq> VFS_SUCCESS then (status, None, s)
        else
          let (status, index, entry) = simplefs_find_entry name s in
          if status = VFS_ENOENT then
            if flags AND VFS_O_CREAT = 0 then (VFS_ENOENT, None, s)
            else
              let (status, index) = simplefs_find_free_entry s in
              if status \<noteq> VFS_SUCCESS then (status, None, s)
              else
                let entry = zero_entry\<lparr>de_used := 1, de_name := simplefs_copy_name (de_name zero_entry) name\<rparr>;
                    (status, s) = simplefs_write_entry index entry s
                in if status \<noteq> VFS_SUCCESS then (status, None, s)
                   else (VFS_SUCCESS, Some (info_of entry), s)
          else if status \<noteq> VFS_SUCCESS then (status, None, s)
          else if flags AND VFS_O_TRUNC \<noteq> 0 then
            let s = simplefs_mark_run_free (de_start entry) (de_alloc entry) s;
                entry = entry\<lparr>de_start := 0, de_size := 0, de_alloc := 0\<rparr>;
                (status, s) = simplefs_write_entry index entry s
            in if status \<noteq> VFS_SUCCESS then (status, None, s)
               else (VFS_SUCCESS, Some (info_of entry), s)
          else (VFS_SUCCESS, Some (info_of entry), s))"

text \<open>The transfer loops: \<open>done\<close> counts the bytes moved so far.\<close>

definition chunk_size :: "u32 \<Rightarrow> u32 \<Rightarrow> nat \<Rightarrow> u32" where
  "chunk_size offset count n =
     simplefs_min_u32 (count - of_nat n) (SECTOR_SIZE - (offset + of_nat n) mod SECTOR_SIZE)"

lemma chunk_size_pos: "n < unat count \<Longrightarrow> 0 < unat (chunk_size offset count n)"
proof -
  assume n: "n < unat count"
  have "n < 2 ^ 32" using less_trans [OF n u32_unat_lt [of count]] by simp
  then have "unat (of_nat n :: u32) = n" by (simp add: unat_of_nat)
  then have "0 < unat (count - of_nat n)"
    using n unat_sub_no_wrap [of "of_nat n" count] by simp
  moreover have "0 < unat (SECTOR_SIZE - (offset + of_nat n) mod SECTOR_SIZE)"
  proof -
    have "unat ((offset + of_nat n) mod SECTOR_SIZE) < 512" by (simp add: unat_mod SECTOR_SIZE_def)
    then show ?thesis by (simp add: unat_sub_no_wrap SECTOR_SIZE_def)
  qed
  ultimately show ?thesis by (simp add: chunk_size_def simplefs_min_u32_def)
qed

function read_loop :: "u32 \<Rightarrow> u32 \<Rightarrow> u32 \<Rightarrow> nat \<Rightarrow> u8 list \<Rightarrow> 'd fs \<Rightarrow> int \<times> u8 list" where
  "read_loop start offset count n out s =
     (if n < unat count then
        let absolute = offset + of_nat n;
            sector_index = absolute div SECTOR_SIZE;
            sector_offset = absolute mod SECTOR_SIZE;
            chunk = chunk_size offset count n;
            (r, sector) = dev_read (start + sector_index) s
        in if r \<noteq> BLKDEV_SUCCESS then (VFS_EIO, out)
           else read_loop start offset count (n + unat chunk)
                  (out @ take (unat chunk) (drop (unat sector_offset) sector)) s
      else (int n, out))"
  by pat_completeness auto
termination
  by (relation "measure (\<lambda>(start, offset, count, n, out, s). unat count - n)")
    (auto simp: diff_less_mono2 chunk_size_pos)

declare read_loop.simps [simp del]

definition simplefs_read ::
    "(nat \<Rightarrow> u8) option \<Rightarrow> u32 \<Rightarrow> bool \<Rightarrow> u32 \<Rightarrow> 'd fs \<Rightarrow> int \<times> u8 list" where
  "simplefs_read path offset buffer_ok count s =
     (if \<not> fs_mounted s then (VFS_EIO, [])
      else if \<not> buffer_ok \<and> 0 < count then (VFS_EINVAL, [])
      else
        let (status, name) = simplefs_normalize_path path in
        if status \<noteq> VFS_SUCCESS then (status, [])
        else
          let (status, index, entry) = simplefs_find_entry name s in
          if status \<noteq> VFS_SUCCESS then (status, [])
          else if offset \<ge> de_size entry \<or> count = 0 then (0, [])
          else read_loop (de_start entry) offset
                 (simplefs_min_u32 count (de_size entry - offset)) 0 [] s)"

function write_loop ::
    "u32 \<Rightarrow> u32 \<Rightarrow> u32 \<Rightarrow> (nat \<Rightarrow> u8) \<Rightarrow> nat \<Rightarrow> u8 list \<Rightarrow> 'd fs \<Rightarrow> int \<times> 'd fs" where
  "write_loop start offset count src n sector s =
     (if n < unat count then
        let absolute = offset + of_nat n;
            sector_index = absolute div SECTOR_SIZE;
            sector_offset = absolute mod SECTOR_SIZE;
            chunk = chunk_size offset count n;
            (r, sector) = (if chunk \<noteq> SECTOR_SIZE then dev_read (start + sector_index) s
                           else (BLKDEV_SUCCESS, sector))
        in if r \<noteq> BLKDEV_SUCCESS then (VFS_EIO, s)
           else
             let sector = blit sector (unat sector_offset) (map src [n ..< n + unat chunk]);
                 (r, s) = dev_write (start + sector_index) sector s
             in if r \<noteq> BLKDEV_SUCCESS then (VFS_EIO, s)
                else write_loop start offset count src (n + unat chunk) sector s
      else (int n, s))"
  by pat_completeness auto
termination
  by (relation "measure (\<lambda>(start, offset, count, src, n, sector, s). unat count - n)")
    (auto simp: diff_less_mono2 chunk_size_pos)

declare write_loop.simps [simp del]

definition simplefs_write ::
    "(nat \<Rightarrow> u8) option \<Rightarrow> u32 \<Rightarrow> (nat \<Rightarrow> u8) option \<Rightarrow> u32 \<Rightarrow> 'd fs \<Rightarrow> int \<times> 'd fs" where
  "simplefs_write path offset buffer count s =
     (if \<not> fs_mounted s then (VFS_EIO, s)
      else if buffer = None \<and> 0 < count then (VFS_EINVAL, s)
      else if count = 0 then (0, s)
      else if offset + count < offset then (VFS_EINVAL, s)
      else
        let (status, name) = simplefs_normalize_path path in
        if status \<noteq> VFS_SUCCESS then (status, s)
        else
          let (status, index, entry) = simplefs_find_entry name s in
          if status \<noteq> VFS_SUCCESS then (status, s)
          else
            let old_start_sector = de_start entry;
                old_allocated_sectors = de_alloc entry;
                new_size = (if offset + count < de_size entry then de_size entry else offset + count);
                required_sectors = simplefs_sectors_for_bytes new_size;
                (status, entry, s) = simplefs_ensure_capacity entry required_sectors s
            in if status \<noteq> VFS_SUCCESS then (status, s)
               else
                 let (r, s) = write_loop (de_start entry) offset count (the buffer) 0 (replicate 512 0) s in
                 if r < 0 then (r, s)
                 else
                   let entry = entry\<lparr>de_size := new_size\<rparr>;
                       (status, s) = simplefs_write_entry index entry s
                   in if status \<noteq> VFS_SUCCESS then (status, s)
                      else
                        let s = (if 0 < old_allocated_sectors \<and> de_start entry \<noteq> old_start_sector
                                 then simplefs_mark_run_free old_start_sector old_allocated_sectors s
                                 else s)
                        in (r, s))"

definition simplefs_stat :: "(nat \<Rightarrow> u8) option \<Rightarrow> bool \<Rightarrow> 'd fs \<Rightarrow> int \<times> file_info option" where
  "simplefs_stat path out_ok s =
     (if \<not> fs_mounted s then (VFS_EIO, None)
      else if \<not> out_ok then (VFS_EINVAL, None)
      else
        let (status, name) = simplefs_normalize_path path in
        if status \<noteq> VFS_SUCCESS then (status, None)
        else
          let (status, index, entry) = simplefs_find_entry name s in
          if status \<noteq> VFS_SUCCESS then (status, None) else (VFS_SUCCESS, Some (info_of entry)))"

end
