(* ===== verification/SimpleFS_Base.thy ===== *)
theory SimpleFS_Base
  imports SimpleFS
begin

text \<open>
  Facts on the parts of SimpleFS that do not depend on the device: the on-disk encodings and
  their round trips, path names, the padded names in directory entries, and the search for a run
  of free sectors.
\<close>

section \<open>Encodings\<close>

definition entry_wf :: "dir_entry \<Rightarrow> bool" where
  "entry_wf e \<longleftrightarrow> length (de_name e) = 32 \<and> length (de_reserved e) = 3"

lemma length_sb_bytes [simp]: "length (sb_bytes sb) = 36"
  by (simp add: sb_bytes_def)

lemma sb_round_trip: "sb_of_bytes (sb_bytes sb @ xs) = sb"
  by (simp add: sb_of_bytes_def sb_bytes_def)

lemma length_entry_bytes: "entry_wf e \<Longrightarrow> length (entry_bytes e) = 64"
  by (auto simp: entry_wf_def entry_bytes_def numeral_3_eq_3 length_Suc_conv)

lemma entry_round_trip: "entry_wf e \<Longrightarrow> entry_of_bytes (entry_bytes e @ xs) = e"
  by (cases e) (auto simp: entry_wf_def entry_of_bytes_def entry_bytes_def numeral_3_eq_3 length_Suc_conv)

lemma entry_wf_of_bytes: "64 \<le> length bs \<Longrightarrow> entry_wf (entry_of_bytes bs)"
  by (simp add: entry_wf_def entry_of_bytes_def)

section \<open>Names\<close>

definition valid_name :: "u8 list \<Rightarrow> bool" where
  "valid_name n \<longleftrightarrow> n \<noteq> [] \<and> length n \<le> 31 \<and> 0 \<notin> set n \<and> 0x2F \<notin> set n \<and>
     n \<noteq> [0x2E] \<and> n \<noteq> [0x2E, 0x2E]"

definition pad_name :: "u8 list \<Rightarrow> u8 list" where
  "pad_name n = n @ replicate (32 - length n) 0"

lemma length_pad_name: "length n \<le> 32 \<Longrightarrow> length (pad_name n) = 32"
  by (simp add: pad_name_def)

lemma is_cstring_pad: "0 \<notin> set n \<Longrightarrow> length n \<le> 31 \<Longrightarrow> is_cstring (cstr_at (pad_name n)) n"
  by (auto simp: is_cstring_def cstr_at_def pad_name_def nth_append in_set_conv_nth)

lemma strcmp_names:
  assumes "valid_name n" and "valid_name m"
  shows "strcmp (cstr_at (pad_name n)) (cstr_at m) = Some 0 \<longleftrightarrow> n = m"
proof -
  have "is_cstring (cstr_at (pad_name n)) n" "is_cstring (cstr_at m) m"
    using assms by (auto simp: valid_name_def is_cstring_pad is_cstring_cstr_at)
  from strcmp_cstrings [OF this] show ?thesis by auto
qed

lemma pad_name_inj:
  assumes "valid_name n" and "valid_name m" and "pad_name n = pad_name m"
  shows "n = m"
  using strcmp_names [OF assms(1,2)] strcmp_names [OF assms(2,2)] assms(3) by simp

lemma copy_name_loop_eq:
  assumes "0 \<notin> set src" and "i \<le> length src" and "length src \<le> i + n" and "length src < length dest"
    and "take i dest = take i src" and "drop (length src) dest = replicate (length dest - length src) 0"
  shows "copy_name_loop src i n dest = src @ replicate (length dest - length src) 0"
  using assms
proof (induction n arbitrary: i dest)
  case 0
  then have i: "i = length src" by simp
  have "dest = take i dest @ drop i dest" by simp
  then have "dest = src @ replicate (length dest - length src) 0" using 0 i by simp
  then show ?case using i 0(4)
    by (metis (no_types, lifting) copy_name_loop.simps(1) diff_is_0_eq length_append length_replicate
        list_update_id not_le nth_append_length_plus nth_replicate add_0_right zero_less_diff)
next
  case (Suc n)
  show ?case
  proof (cases "i = length src")
    case True
    have "dest = take i dest @ drop i dest" by simp
    then have eq: "dest = src @ replicate (length dest - length src) 0" using Suc.prems True by simp
    have "dest ! i = 0"
      using Suc.prems(4) True by (subst eq) (simp add: nth_append)
    then have "dest[i := 0] = dest" by (metis list_update_id)
    then show ?thesis using True eq by (simp add: cstr_at_def)
  next
    case False
    then have i: "i < length src" using Suc.prems(2) by simp
    have nz: "cstr_at src i = src ! i" "src ! i \<noteq> 0"
      using i Suc.prems(1) by (auto simp: cstr_at_def in_set_conv_nth)
    let ?d = "dest[i := src ! i]"
    have "take (Suc i) ?d = take (Suc i) src"
      using Suc.prems(4,5) i by (simp add: take_Suc_conv_app_nth take_update_swap list_update_append)
    moreover have "drop (length src) ?d = replicate (length ?d - length src) 0"
      using Suc.prems(6) i by simp
    ultimately show ?thesis
      using Suc.IH [of "Suc i" ?d] Suc.prems i nz by simp
  qed
qed

lemma copy_name_zero:
  "0 \<notin> set n \<Longrightarrow> length n \<le> 31 \<Longrightarrow> simplefs_copy_name (replicate 32 0) n = pad_name n"
  unfolding simplefs_copy_name_def SIMPLEFS_NAME_MAX_def pad_name_def
  by (subst copy_name_loop_eq) (auto simp: drop_replicate)

lemma is_cstring_Cons:
  "is_cstring s (x # xs) \<longleftrightarrow> s 0 = x \<and> x \<noteq> 0 \<and> is_cstring (\<lambda>i. s (Suc i)) xs"
  by (auto simp: is_cstring_def less_Suc_eq_0_disj)

lemma normalize_loop_ok:
  "is_cstring (\<lambda>i. name (len + i)) xs \<Longrightarrow> 0x2F \<notin> set xs \<Longrightarrow> len + length xs \<le> 31 \<Longrightarrow>
     normalize_loop name len out = (VFS_SUCCESS, out @ xs)"
proof (induction xs arbitrary: len out)
  case Nil
  then show ?case by (simp add: is_cstring_Nil normalize_loop.simps)
next
  case (Cons x xs)
  then have "is_cstring (\<lambda>i. name (Suc len + i)) xs" "name len = x" "x \<noteq> 0"
    by (auto simp: is_cstring_Cons)
  then show ?case
    using Cons.IH [of "Suc len" "out @ [x]"] Cons.prems
    by (subst normalize_loop.simps) (simp add: SIMPLEFS_NAME_MAX_def)
qed

lemma normalize_loop_cases:
  assumes "normalize_loop name len out = (st, n)" and "len \<le> 31"
  shows "st = VFS_EINVAL \<or> st = VFS_SUCCESS \<and> (\<exists>xs. n = out @ xs \<and>
    is_cstring (\<lambda>i. name (len + i)) xs \<and> 0x2F \<notin> set xs \<and> len + length xs \<le> 31)"
  using assms
proof (induction name len out rule: normalize_loop.induct)
  case (1 name len out)
  show ?case
  proof (cases "name len = 0 \<or> name len = 0x2F \<or> len \<ge> 31")
    case True
    then show ?thesis
      using 1(2,3) by (subst (asm) normalize_loop.simps)
        (auto simp: SIMPLEFS_NAME_MAX_def is_cstring_Nil split: if_splits intro!: exI [of _ "[]"])
  next
    case False
    then have rec: "normalize_loop name (len + 1) (out @ [name len]) = (st, n)"
      using 1(2) by (subst (asm) normalize_loop.simps) (simp add: SIMPLEFS_NAME_MAX_def)
    have "st = VFS_EINVAL \<or> st = VFS_SUCCESS \<and> (\<exists>xs. n = (out @ [name len]) @ xs \<and>
        is_cstring (\<lambda>i. name (len + 1 + i)) xs \<and> 0x2F \<notin> set xs \<and> len + 1 + length xs \<le> 31)"
      by (rule 1(1) [OF _ _ _ rec]) (use False in \<open>simp_all add: SIMPLEFS_NAME_MAX_def\<close>)
    then show ?thesis
      using False by (auto simp: is_cstring_Cons intro!: exI [of _ "name len # _"])
  qed
qed

lemma normalize_path_cases:
  assumes "simplefs_normalize_path path = (st, n)"
  shows "st = VFS_EINVAL \<or> st = VFS_SUCCESS \<and> valid_name n \<and> (\<exists>p. path = Some p \<and> is_cstring p (0x2F # n))"
proof (cases path)
  case None
  then show ?thesis using assms by (simp add: simplefs_normalize_path_def)
next
  case (Some p)
  obtain st1 n1 where lp: "normalize_loop (\<lambda>i. p (i + 1)) 0 [] = (st1, n1)" by force
  show ?thesis
  proof (cases "p 0 = 0x2F \<and> p 1 \<noteq> 0")
    case False
    then show ?thesis using assms Some by (auto simp: simplefs_normalize_path_def Let_def split: if_splits)
  next
    case True
    from normalize_loop_cases [OF lp zero_le] show ?thesis
    proof (elim disjE conjE exE)
      assume "st1 = VFS_EINVAL"
      then show ?thesis
        using assms Some True lp by (simp add: simplefs_normalize_path_def Let_def vfs_errors)
    next
      fix xs assume st1: "st1 = VFS_SUCCESS" and n1: "n1 = [] @ xs" and cs: "is_cstring (\<lambda>i. p (0 + i + 1)) xs"
        and ok: "0x2F \<notin> set xs" "0 + length xs \<le> 31"
      have "0 \<notin> set xs" using cs by (auto simp: is_cstring_def in_set_conv_nth)
      moreover have "xs \<noteq> []" using cs True by (auto simp: is_cstring_Nil)
      moreover have "length xs = 1 \<and> xs ! 0 = c \<longleftrightarrow> xs = [c]"
        "length xs = 2 \<and> xs ! 0 = c \<and> xs ! 1 = d \<longleftrightarrow> xs = [c, d]" for c d
        by (auto simp: length_Suc_conv numeral_2_eq_2)
      moreover have "is_cstring p (0x2F # xs)" using True cs by (simp add: is_cstring_Cons)
      ultimately show ?thesis
        using assms Some True lp st1 n1 ok
        by (auto simp: simplefs_normalize_path_def Let_def valid_name_def split: if_splits)
    qed
  qed
qed

lemma normalize_path_ok:
  assumes "is_cstring p (0x2F # n)" and "valid_name n"
  shows "simplefs_normalize_path (Some p) = (VFS_SUCCESS, n)"
proof -
  have p: "p 0 = 0x2F" "is_cstring (\<lambda>i. p (Suc i)) n" using assms(1) by (auto simp: is_cstring_Cons)
  then have "normalize_loop (\<lambda>i. p (i + 1)) 0 [] = (VFS_SUCCESS, n)"
    using normalize_loop_ok [of "\<lambda>i. p (i + 1)" 0 n "[]"] assms(2) by (simp add: valid_name_def)
  moreover have "p 1 \<noteq> 0"
    using p(2) assms(2) by (cases n) (auto simp: is_cstring_Cons valid_name_def)
  moreover have "\<not> (length n = 1 \<and> n ! 0 = 0x2E \<or> length n = 2 \<and> n ! 0 = 0x2E \<and> n ! 1 = 0x2E)"
    using assms(2) by (auto simp: valid_name_def length_Suc_conv numeral_2_eq_2)
  ultimately show ?thesis
    using p(1) by (auto simp: simplefs_normalize_path_def Let_def)
qed

section \<open>Searching for free sectors\<close>

lemma free_run_spec:
  assumes "run \<le> count"
  shows "run \<le> free_run start run count s \<and> free_run start run count s \<le> count \<and>
    (\<forall>i. run \<le> i \<and> i < free_run start run count s \<longrightarrow> \<not> simplefs_sector_is_used (start + i) s) \<and>
    (free_run start run count s < count \<longrightarrow>
       simplefs_sector_is_used (start + free_run start run count s) s)"
  using assms
proof (induction start run count s rule: free_run.induct)
  case (1 start run count s)
  show ?case
  proof (cases "run < count \<and> \<not> simplefs_sector_is_used (start + run) s")
    case True
    then have eq: "free_run start run count s = free_run start (run + 1) count s"
      by (simp add: free_run.simps [of start run])
    have le: "run + 1 \<le> count" using True by simp
    have "\<not> simplefs_sector_is_used (start + i) s"
      if "run \<le> i" "i < free_run start (run + 1) count s" for i
      using 1(1) [OF True le] True that by (cases "i = run") auto
    then show ?thesis
      unfolding eq using 1(1) [OF True le] by auto
  next
    case False
    then have "free_run start run count s = run" by (auto simp: free_run.simps [of start run])
    then show ?thesis using 1(2) False by auto
  qed
qed

definition run_free :: "nat \<Rightarrow> nat \<Rightarrow> 'd fs \<Rightarrow> bool" where
  "run_free start count s \<longleftrightarrow> (\<forall>i. start \<le> i \<and> i < start + count \<longrightarrow> \<not> simplefs_sector_is_used i s)"

lemma find_run_spec:
  assumes "0 < count"
  shows "case find_run start stop count s of
      Some st \<Rightarrow> start \<le> st \<and> st \<le> stop \<and> run_free st count s \<and>
        (\<forall>j. start \<le> j \<and> j < st \<longrightarrow> \<not> run_free j count s)
    | None \<Rightarrow> \<forall>j. start \<le> j \<and> j \<le> stop \<longrightarrow> \<not> run_free j count s"
  using assms
proof (induction start stop count s rule: find_run.induct)
  case (1 start stop count s)
  let ?run = "free_run start 0 count s"
  note run = free_run_spec [of 0 count start s]
  show ?case
  proof (cases "start \<le> stop")
    case False
    then show ?thesis by (auto simp: find_run.simps [of start])
  next
    case le: True
    show ?thesis
    proof (cases "?run = count")
      case True
      have "run_free start count s"
        unfolding run_free_def
      proof (intro allI impI)
        fix i assume "start \<le> i \<and> i < start + count"
        then show "\<not> simplefs_sector_is_used i s"
          using run True by (auto dest!: spec [of _ "i - start"])
      qed
      then show ?thesis using le True by (auto simp: find_run.simps [of start])
    next
      case False
      then have used: "simplefs_sector_is_used (start + ?run) s" "?run < count" using run by auto
      have skip: "\<not> run_free j count s" if "start \<le> j" "j \<le> start + ?run" for j
        using that used unfolding run_free_def by (auto intro!: exI [of _ "start + ?run"])
      have eq: "find_run start stop count s = find_run (start + ?run + 1) stop count s"
        using le False by (simp add: find_run.simps [of start] Let_def)
      have IH: "case find_run (start + ?run + 1) stop count s of
          Some st \<Rightarrow> start + ?run + 1 \<le> st \<and> st \<le> stop \<and> run_free st count s \<and>
            (\<forall>j. start + ?run + 1 \<le> j \<and> j < st \<longrightarrow> \<not> run_free j count s)
        | None \<Rightarrow> \<forall>j. start + ?run + 1 \<le> j \<and> j \<le> stop \<longrightarrow> \<not> run_free j count s"
        using 1(1) [OF le refl False] 1(2) by blast
      have "start + ?run + 1 \<le> j \<or> j \<le> start + ?run" for j by linarith
      then show ?thesis
        unfolding eq using IH skip by (auto split: option.splits)
    qed
  qed
qed

end
