(* ===== verification/Ramdisk.thy ===== *)
theory Ramdisk
  imports Blkdev
begin

text \<open>
  The ramdisk, \<^verbatim>\<open>src/kernel/ramdisk.c\<close>: two megabytes of memory as 4096 sectors. The bytes
  are a function from their offset; the four transfer functions are modelled here, the
  reservation and mapping of the memory with the paging component. The last section interprets
  the block-device contract on the driver.
\<close>

definition RAMDISK_BASE :: u32 where "RAMDISK_BASE = 0x00C00000"
definition RAMDISK_SIZE :: u32 where "RAMDISK_SIZE = 2 * 1024 * 1024"
definition RAMDISK_END :: u32 where "RAMDISK_END = RAMDISK_BASE + RAMDISK_SIZE"
definition RAMDISK_SECTORS :: u32 where "RAMDISK_SECTORS = RAMDISK_SIZE div SECTOR_SIZE"

lemmas ramdisk_consts = RAMDISK_BASE_def RAMDISK_SIZE_def RAMDISK_END_def RAMDISK_SECTORS_def
  SECTOR_SIZE_def

type_synonym ramdisk_data = "nat \<Rightarrow> u8"

definition ramdisk_range_valid :: "u32 \<Rightarrow> u32 \<Rightarrow> bool" where
  "ramdisk_range_valid lba count \<longleftrightarrow>
     (if count = 0 \<or> lba \<ge> RAMDISK_SECTORS then False else count \<le> RAMDISK_SECTORS - lba)"

definition ramdisk_bytes :: "u32 \<Rightarrow> u32 \<Rightarrow> ramdisk_data \<Rightarrow> u8 list" where
  "ramdisk_bytes off n d = map (\<lambda>j. d (unat off + j)) [0..<unat n]"

definition ramdisk_store :: "u32 \<Rightarrow> u32 \<Rightarrow> u8 list \<Rightarrow> ramdisk_data \<Rightarrow> ramdisk_data" where
  "ramdisk_store off n buf d =
     (\<lambda>a. if unat off \<le> a \<and> a < unat off + unat n then buf ! (a - unat off) else d a)"

definition ramdisk_read_sector :: "bool \<Rightarrow> u32 \<Rightarrow> ramdisk_data \<Rightarrow> int \<times> u8 list" where
  "ramdisk_read_sector buffer_ok lba d =
     (if \<not> buffer_ok then (BLKDEV_EINVAL, [])
      else if \<not> ramdisk_range_valid lba 1 then (BLKDEV_EINVAL, [])
      else (BLKDEV_SUCCESS, ramdisk_bytes (lba * SECTOR_SIZE) SECTOR_SIZE d))"

definition ramdisk_write_sector :: "u32 \<Rightarrow> u8 list option \<Rightarrow> ramdisk_data \<Rightarrow> int \<times> ramdisk_data" where
  "ramdisk_write_sector lba buffer d =
     (case buffer of None \<Rightarrow> (BLKDEV_EINVAL, d)
      | Some buf \<Rightarrow>
          if \<not> ramdisk_range_valid lba 1 then (BLKDEV_EINVAL, d)
          else (BLKDEV_SUCCESS, ramdisk_store (lba * SECTOR_SIZE) SECTOR_SIZE buf d))"

definition ramdisk_read_sectors :: "bool \<Rightarrow> u32 \<Rightarrow> u32 \<Rightarrow> ramdisk_data \<Rightarrow> int \<times> u8 list" where
  "ramdisk_read_sectors buffer_ok lba count d =
     (if \<not> buffer_ok \<or> count = 0 then (BLKDEV_EINVAL, [])
      else if \<not> ramdisk_range_valid lba count then (BLKDEV_EINVAL, [])
      else (BLKDEV_SUCCESS, ramdisk_bytes (lba * SECTOR_SIZE) (count * SECTOR_SIZE) d))"

definition ramdisk_write_sectors ::
    "u32 \<Rightarrow> u32 \<Rightarrow> u8 list option \<Rightarrow> ramdisk_data \<Rightarrow> int \<times> ramdisk_data" where
  "ramdisk_write_sectors lba count buffer d =
     (case buffer of None \<Rightarrow> (BLKDEV_EINVAL, d)
      | Some buf \<Rightarrow>
          if count = 0 then (BLKDEV_EINVAL, d)
          else if \<not> ramdisk_range_valid lba count then (BLKDEV_EINVAL, d)
          else (BLKDEV_SUCCESS, ramdisk_store (lba * SECTOR_SIZE) (count * SECTOR_SIZE) buf d))"

text \<open>The device that \<^verbatim>\<open>ramdisk_init\<close> sets up.\<close>

definition ramdisk_name :: "u8 list" where
  "ramdisk_name = map (\<lambda>c. of_nat (of_char c)) ''ramdisk0'' @ [0]"

definition ramdisk_dev :: "ramdisk_data block_device" where
  "ramdisk_dev = \<lparr>bd_name = ramdisk_name @ replicate (32 - length ramdisk_name) 0,
     bd_type = BLKDEV_TYPE_RAMDISK, sector_count = RAMDISK_SECTORS, sector_size = SECTOR_SIZE,
     read_sector = Some ramdisk_read_sector, write_sector = Some ramdisk_write_sector,
     read_sectors = Some ramdisk_read_sectors, write_sectors = Some ramdisk_write_sectors\<rparr>"

section \<open>The ramdisk is a block device\<close>

definition ramdisk_sector :: "ramdisk_data \<Rightarrow> nat \<Rightarrow> u8 list" where
  "ramdisk_sector d i = map (\<lambda>j. d (i * 512 + j)) [0..<512]"

lemma ramdisk_range_valid_iff:
  "ramdisk_range_valid lba count \<longleftrightarrow> 0 < unat count \<and> unat lba + unat count \<le> 4096"
proof (cases "unat lba < 4096")
  case True
  then have "unat (RAMDISK_SECTORS - lba) = 4096 - unat lba"
    by (simp add: ramdisk_consts unat_sub_no_wrap)
  then show ?thesis
    using True by (auto simp: ramdisk_range_valid_def word_le_nat_alt unat_gt_0) (auto simp: ramdisk_consts)
next
  case False
  then have "\<not> ramdisk_range_valid lba count"
    by (simp add: ramdisk_range_valid_def word_le_nat_alt ramdisk_consts)
  then show ?thesis using False by linarith
qed

lemma unat_SECTOR_SIZE: "unat SECTOR_SIZE = 512"
  by (simp add: SECTOR_SIZE_def)

lemma unat_sector_base: "unat lba < 4096 \<Longrightarrow> unat (lba * SECTOR_SIZE) = unat lba * 512"
  by (simp add: SECTOR_SIZE_def unat_mult_no_wrap)

lemma ramdisk_store_sector:
  assumes "length buf = 512" and "unat lba < 4096"
  shows "ramdisk_sector (ramdisk_store (lba * SECTOR_SIZE) SECTOR_SIZE buf d) =
    (ramdisk_sector d)(unat lba := buf)"
proof
  fix i
  show "ramdisk_sector (ramdisk_store (lba * SECTOR_SIZE) SECTOR_SIZE buf d) i =
      ((ramdisk_sector d)(unat lba := buf)) i"
  proof (cases "i = unat lba")
    case True
    then show ?thesis
      using assms by (auto simp: ramdisk_sector_def ramdisk_store_def unat_sector_base unat_SECTOR_SIZE
          intro!: nth_equalityI)
  next
    case False
    have "\<not> (unat lba * 512 \<le> i * 512 + j \<and> i * 512 + j < unat lba * 512 + 512)" if "j < 512" for j
      using that False by (cases "i < unat lba") (auto simp: not_less)
    then show ?thesis
      using False assms(2)
      by (auto simp: ramdisk_sector_def ramdisk_store_def unat_sector_base unat_SECTOR_SIZE
          simp del: not_le not_less)
  qed
qed

interpretation rdisk: block_dev ramdisk_dev ramdisk_read_sector ramdisk_write_sector ramdisk_sector "\<lambda>_. True"
proof unfold_locales
  have n: "unat (sector_count ramdisk_dev) = 4096" by (simp add: ramdisk_dev_def ramdisk_consts)
  show "5 < unat (sector_count ramdisk_dev)" "unat (sector_count ramdisk_dev) \<le> 4096" by (simp_all add: n)
  fix lba :: u32 and d :: ramdisk_data and buf :: "u8 list"
  {
    assume "unat lba < unat (sector_count ramdisk_dev)"
    then have lt: "unat lba < 4096" by (simp add: n)
    then have valid: "ramdisk_range_valid lba 1" by (simp add: ramdisk_range_valid_iff)
    show "ramdisk_read_sector True lba d = (BLKDEV_SUCCESS, ramdisk_sector d (unat lba))"
      using valid lt
      by (simp add: ramdisk_read_sector_def ramdisk_bytes_def ramdisk_sector_def unat_sector_base
          unat_SECTOR_SIZE)
    assume "length buf = 512"
    then show "\<exists>d'. ramdisk_write_sector lba (Some buf) d = (BLKDEV_SUCCESS, d') \<and> True \<and>
        ramdisk_sector d' = (ramdisk_sector d)(unat lba := buf)"
      using valid lt ramdisk_store_sector by (simp add: ramdisk_write_sector_def)
  }
  assume "\<not> unat lba < unat (sector_count ramdisk_dev)"
  then have "\<not> ramdisk_range_valid lba 1" by (simp add: ramdisk_range_valid_iff n)
  then show "fst (ramdisk_read_sector True lba d) \<noteq> BLKDEV_SUCCESS"
    "fst (ramdisk_write_sector lba (Some buf) d) \<noteq> BLKDEV_SUCCESS \<and> snd (ramdisk_write_sector lba (Some buf) d) = d"
    by (simp_all add: ramdisk_read_sector_def ramdisk_write_sector_def blkdev_consts)
qed (simp_all add: ramdisk_dev_def ramdisk_sector_def)

end
