(* ===== verification/SimpleFS_Spec.thy ===== *)
theory SimpleFS_Spec
  imports SimpleFS_Base Ramdisk
begin

text \<open>
  The correctness of SimpleFS over any block device that keeps the contract \<open>block_dev\<close>, and so,
  by the interpretation in \<open>Ramdisk\<close>, over the ramdisk. The abstract view of a mounted file
  system is a map from names to contents; the invariant ties it to the sectors, the directory and
  the allocation bitmap.
\<close>

section \<open>The disk as bytes, entries and files\<close>

definition byte_at :: "(nat \<Rightarrow> u8 list) \<Rightarrow> nat \<Rightarrow> u8" where
  "byte_at D a = D (a div 512) ! (a mod 512)"

definition ent :: "(nat \<Rightarrow> u8 list) \<Rightarrow> nat \<Rightarrow> dir_entry" where
  "ent D i = entry_of_bytes (take 64 (drop (i mod 8 * 64) (D (1 + i div 8))))"

definition run_of :: "dir_entry \<Rightarrow> nat set" where
  "run_of e = (if de_used e = 0 then {} else {unat (de_start e) ..< unat (de_start e) + unat (de_alloc e)})"

definition content :: "(nat \<Rightarrow> u8 list) \<Rightarrow> dir_entry \<Rightarrow> u8 list" where
  "content D e = map (\<lambda>j. byte_at D (512 * unat (de_start e) + j)) [0..<unat (de_size e)]"

definition entry_ok :: "nat \<Rightarrow> dir_entry \<Rightarrow> bool" where
  "entry_ok N e \<longleftrightarrow> entry_wf e \<and> (de_used e \<noteq> 0 \<longrightarrow>
     (\<exists>n. valid_name n \<and> de_name e = pad_name n) \<and>
     unat (de_alloc e) = (unat (de_size e) + 511) div 512 \<and>
     (de_alloc e \<noteq> 0 \<longrightarrow> 5 \<le> unat (de_start e) \<and> unat (de_start e) + unat (de_alloc e) \<le> N))"

definition dir_ok :: "nat \<Rightarrow> (nat \<Rightarrow> dir_entry) \<Rightarrow> bool" where
  "dir_ok N E \<longleftrightarrow> (\<forall>i < 32. entry_ok N (E i)) \<and>
     (\<forall>i < 32. \<forall>j < 32. i \<noteq> j \<and> de_used (E i) \<noteq> 0 \<and> de_used (E j) \<noteq> 0 \<longrightarrow> de_name (E i) \<noteq> de_name (E j)) \<and>
     (\<forall>i < 32. \<forall>j < 32. i \<noteq> j \<longrightarrow> run_of (E i) \<inter> run_of (E j) = {})"

definition map_ok :: "nat \<Rightarrow> (nat \<Rightarrow> u8) \<Rightarrow> (nat \<Rightarrow> dir_entry) \<Rightarrow> bool" where
  "map_ok N U E \<longleftrightarrow> (\<forall>k < N. bit_test U k \<longleftrightarrow> k < 5 \<or> (\<exists>i < 32. k \<in> run_of (E i)))"

text \<open>The bytes of a run behind the end of its file are zero.\<close>

definition tail_zero :: "(nat \<Rightarrow> u8 list) \<Rightarrow> dir_entry \<Rightarrow> bool" where
  "tail_zero D e \<longleftrightarrow> de_used e \<noteq> 0 \<longrightarrow>
     (\<forall>j. unat (de_size e) \<le> j \<and> j < 512 * unat (de_alloc e) \<longrightarrow> byte_at D (512 * unat (de_start e) + j) = 0)"

definition fs_inv :: "'d block_device \<Rightarrow> ('d \<Rightarrow> nat \<Rightarrow> u8 list) \<Rightarrow> ('d \<Rightarrow> bool) \<Rightarrow> 'd fs \<Rightarrow> bool" where
  "fs_inv dev sectors dinv s \<longleftrightarrow>
     (let D = sectors (fs_disk s); N = unat (sector_count dev) in
      fs_dev s = Some dev \<and> dinv (fs_disk s) \<and> fs_mounted s \<and>
      \<not> superblock_bad (sector_count dev) (fs_sb s) \<and>
      D 0 = blit (replicate 512 0) 0 (sb_bytes (fs_sb s)) \<and>
      dir_ok N (ent D) \<and> map_ok N (fs_sector_used s) (ent D) \<and> (\<forall>i < 32. tail_zero D (ent D i)))"

text \<open>The abstract file system: the contents of the file with a given name.\<close>

definition slot_of :: "(nat \<Rightarrow> dir_entry) \<Rightarrow> u8 list \<Rightarrow> nat option" where
  "slot_of E n = first_index (\<lambda>i. de_used (E i) \<noteq> 0 \<and> de_name (E i) = pad_name n) 0 32"

definition files :: "('d \<Rightarrow> nat \<Rightarrow> u8 list) \<Rightarrow> 'd fs \<Rightarrow> u8 list \<rightharpoonup> u8 list" where
  "files sectors s n =
     (if valid_name n
      then map_option (\<lambda>i. content (sectors (fs_disk s)) (ent (sectors (fs_disk s)) i))
             (slot_of (ent (sectors (fs_disk s))) n)
      else None)"

lemma ent_sector: "i < 32 \<Longrightarrow> 1 + i div 8 < 5" for i :: nat
  by auto

lemma ent_cong: "(\<And>k. 0 < k \<Longrightarrow> k < 5 \<Longrightarrow> D' k = D k) \<Longrightarrow> i < 32 \<Longrightarrow> ent D' i = ent D i"
  using ent_sector [of i] by (simp add: ent_def)

lemma byte_at_upd: "byte_at (D(k := buf)) a = (if a div 512 = k then buf ! (a mod 512) else byte_at D a)"
  by (simp add: byte_at_def)

lemma byte_at_sector: "j < 512 \<Longrightarrow> byte_at D (512 * k + j) = D k ! j"
  by (simp add: byte_at_def)

text \<open>Writing one entry into its sector changes that entry and no other.\<close>

lemma ent_write:
  assumes "\<And>k. k < 5 \<Longrightarrow> length (D k) = 512" and "entry_wf e" and "i < 32" and "j < 32"
  shows "ent (D(1 + i div 8 := blit (D (1 + i div 8)) (i mod 8 * 64) (entry_bytes e))) j =
    (if j = i then e else ent D j)"
proof -
  let ?D = "D(1 + i div 8 := blit (D (1 + i div 8)) (i mod 8 * 64) (entry_bytes e))"
  have len: "length (entry_bytes e) = 64" using assms(2) by (rule length_entry_bytes)
  have sec: "length (D (1 + i div 8)) = 512" using assms(1,3) by auto
  have fits: "i mod 8 * 64 + 64 \<le> 512" by simp
  show ?thesis
  proof (cases "j div 8 = i div 8")
    case False
    then show ?thesis by (auto simp: ent_def)
  next
    case same: True
    show ?thesis
    proof (cases "j = i")
      case True
      have "take 64 (drop (i mod 8 * 64) (blit (D (1 + i div 8)) (i mod 8 * 64) (entry_bytes e))) = entry_bytes e"
        using take_drop_blit_same [of "i mod 8 * 64" "entry_bytes e" "D (1 + i div 8)"] len sec fits by simp
      then show ?thesis
        using True entry_round_trip [OF assms(2), of "[]"] by (simp add: ent_def)
    next
      case False
      have ne: "j mod 8 \<noteq> i mod 8" using False same div_mod_8_eq_iff [of j i] by auto
      have "take 64 (drop (j mod 8 * 64) (blit (D (1 + i div 8)) (i mod 8 * 64) (entry_bytes e))) =
          take 64 (drop (j mod 8 * 64) (D (1 + i div 8)))"
      proof (rule nth_equalityI)
        have jlt: "j mod 8 * 64 + 64 \<le> 512" by simp
        show "length (take 64 (drop (j mod 8 * 64) (blit (D (1 + i div 8)) (i mod 8 * 64) (entry_bytes e)))) =
            length (take 64 (drop (j mod 8 * 64) (D (1 + i div 8))))"
          using sec len fits by simp
        fix m assume "m < length (take 64 (drop (j mod 8 * 64) (blit (D (1 + i div 8)) (i mod 8 * 64) (entry_bytes e))))"
        then have m: "m < 64" by simp
        have "\<not> (i mod 8 * 64 \<le> j mod 8 * 64 + m \<and> j mod 8 * 64 + m < i mod 8 * 64 + 64)"
          using ne m by (cases "j mod 8 < i mod 8") (auto simp: not_less)
        then show "take 64 (drop (j mod 8 * 64) (blit (D (1 + i div 8)) (i mod 8 * 64) (entry_bytes e))) ! m =
            take 64 (drop (j mod 8 * 64) (D (1 + i div 8))) ! m"
          using m sec len fits jlt by (auto simp: nth_blit)
      qed
      then show ?thesis using False same by (simp add: ent_def)
    qed
  qed
qed

section \<open>Device operations\<close>

context block_dev
begin

lemma dev_read_ok:
  "fs_dev s = Some dev \<Longrightarrow> dinv (fs_disk s) \<Longrightarrow> unat lba < unat (sector_count dev) \<Longrightarrow>
     dev_read lba s = (BLKDEV_SUCCESS, sectors (fs_disk s) (unat lba))"
  by (simp add: dev_read_def dev_ops rd_ok)

lemma dev_write_ok:
  assumes "fs_dev s = Some dev" and "dinv (fs_disk s)" and "unat lba < unat (sector_count dev)"
    and "length buf = 512"
  obtains d' where "dev_write lba buf s = (BLKDEV_SUCCESS, s\<lparr>fs_disk := d'\<rparr>)" and "dinv d'"
    and "sectors d' = (sectors (fs_disk s))(unat lba := buf)"
  using wr_ok [OF assms(2-4)] assms(1) that by (auto simp: dev_write_def dev_ops)

lemma sector_length_5: "dinv d \<Longrightarrow> k < 5 \<Longrightarrow> length (sectors d k) = 512"
  using dev_size(2) by (intro sector_length) auto

lemma entry_lba:
  assumes "i < 32" and "sb_dir_start (fs_sb s) = SIMPLEFS_DIR_START"
  shows "unat (sb_dir_start (fs_sb s) + of_nat (i div 8)) = 1 + i div 8"
proof -
  have "i div 8 < 4" using assms(1) by auto
  then show ?thesis
    using assms(2) by (subst unat_add_no_wrap) (simp_all add: simplefs_consts unat_of_nat)
qed

lemma read_entry_ok:
  assumes "fs_dev s = Some dev" and "dinv (fs_disk s)" and "sb_dir_start (fs_sb s) = SIMPLEFS_DIR_START" and "i < 32"
  shows "simplefs_read_entry i s = (VFS_SUCCESS, ent (sectors (fs_disk s)) i)"
proof -
  have "dev_read (sb_dir_start (fs_sb s) + of_nat (i div 8)) s =
      (BLKDEV_SUCCESS, sectors (fs_disk s) (1 + i div 8))"
    using dev_read_ok [OF assms(1,2)] entry_lba [OF assms(4,3)] ent_sector [OF assms(4)] dev_size(2) by simp
  then show ?thesis
    using assms(4) by (simp add: simplefs_read_entry_def ent_def Let_def SIMPLEFS_MAX_FILES_def)
qed

lemma write_entry_ok:
  assumes "fs_dev s = Some dev" and "dinv (fs_disk s)" and "sb_dir_start (fs_sb s) = SIMPLEFS_DIR_START"
    and "i < 32" and "entry_wf e"
  obtains d' where "simplefs_write_entry i e s = (VFS_SUCCESS, s\<lparr>fs_disk := d'\<rparr>)" and "dinv d'"
    and "\<forall>j < 32. ent (sectors d') j = (if j = i then e else ent (sectors (fs_disk s)) j)"
    and "sectors d' 0 = sectors (fs_disk s) 0" and "\<forall>k \<ge> 5. sectors d' k = sectors (fs_disk s) k"
proof -
  let ?D = "sectors (fs_disk s)" and ?lba = "sb_dir_start (fs_sb s) + of_nat (i div 8) :: u32"
  let ?buf = "blit (?D (1 + i div 8)) (i mod 8 * 64) (entry_bytes e)"
  note lba = entry_lba [OF assms(4,3)]
  have lt: "unat ?lba < unat (sector_count dev)"
    using lba ent_sector [OF assms(4)] dev_size(2) by simp
  have "length (?D (1 + i div 8)) = 512"
    using sector_length_5 [OF assms(2)] ent_sector [OF assms(4)] by blast
  moreover have "i mod 8 * 64 + 64 \<le> 512" by simp
  ultimately have "length ?buf = 512" using length_entry_bytes [OF assms(5)] by simp
  from dev_write_ok [OF assms(1,2) lt this] lba obtain d' where
    d': "dev_write ?lba ?buf s = (BLKDEV_SUCCESS, s\<lparr>fs_disk := d'\<rparr>)" "dinv d'" "sectors d' = ?D(1 + i div 8 := ?buf)"
    by metis
  show ?thesis
  proof
    show "simplefs_write_entry i e s = (VFS_SUCCESS, s\<lparr>fs_disk := d'\<rparr>)"
      using d'(1) dev_read_ok [OF assms(1,2) lt] lba assms(4)
      by (simp add: simplefs_write_entry_def Let_def SIMPLEFS_MAX_FILES_def)
    show "dinv d'" by (fact d')
    show "\<forall>j < 32. ent (sectors d') j = (if j = i then e else ent ?D j)"
      unfolding d'(3)
      by (intro allI impI ent_write sector_length_5) (use assms in auto)
    show "sectors d' 0 = ?D 0" "\<forall>k \<ge> 5. sectors d' k = ?D k"
      using d'(3) ent_sector [OF assms(4)] by auto
  qed
qed

lemma find_entry_in_ok:
  assumes "fs_dev s = Some dev" and "dinv (fs_disk s)" and "sb_dir_start (fs_sb s) = SIMPLEFS_DIR_START"
    and "\<forall>i < 32. entry_ok N (ent (sectors (fs_disk s)) i)" and "valid_name n" and "\<forall>i \<in> set is. i < 32"
  shows "find_entry_in is n s =
    (case List.find (\<lambda>i. de_used (ent (sectors (fs_disk s)) i) \<noteq> 0 \<and>
        de_name (ent (sectors (fs_disk s)) i) = pad_name n) is of
      None \<Rightarrow> (VFS_ENOENT, 0, zero_entry)
    | Some i \<Rightarrow> (VFS_SUCCESS, i, ent (sectors (fs_disk s)) i))"
  using assms(6)
proof (induction "is")
  case Nil
  then show ?case by simp
next
  case (Cons i "is")
  let ?e = "ent (sectors (fs_disk s)) i"
  have rd: "simplefs_read_entry i s = (VFS_SUCCESS, ?e)"
    using read_entry_ok [OF assms(1-3)] Cons.prems by simp
  have "strcmp (cstr_at (de_name ?e)) (cstr_at n) = Some 0 \<longleftrightarrow> de_name ?e = pad_name n" if used: "de_used ?e \<noteq> 0"
  proof -
    have "entry_ok N ?e" using assms(4) Cons.prems by simp
    then obtain m where "valid_name m" "de_name ?e = pad_name m" using used by (auto simp: entry_ok_def)
    then show ?thesis using strcmp_names [OF _ assms(5)] pad_name_inj [OF _ assms(5)] by auto
  qed
  then show ?case using Cons rd by auto
qed

lemma find_entry_ok:
  assumes "fs_dev s = Some dev" and "dinv (fs_disk s)" and "sb_dir_start (fs_sb s) = SIMPLEFS_DIR_START"
    and "\<forall>i < 32. entry_ok N (ent (sectors (fs_disk s)) i)" and "valid_name n"
  shows "simplefs_find_entry n s = (case slot_of (ent (sectors (fs_disk s))) n of
      None \<Rightarrow> (VFS_ENOENT, 0, zero_entry) | Some i \<Rightarrow> (VFS_SUCCESS, i, ent (sectors (fs_disk s)) i))"
  unfolding simplefs_find_entry_def slot_of_def first_index_def
  by (subst find_entry_in_ok [OF assms]) (simp_all add: SIMPLEFS_MAX_FILES_def)

lemma find_free_ok:
  assumes "fs_dev s = Some dev" and "dinv (fs_disk s)" and "sb_dir_start (fs_sb s) = SIMPLEFS_DIR_START"
  shows "simplefs_find_free_entry s =
    (case first_index (\<lambda>i. de_used (ent (sectors (fs_disk s)) i) = 0) 0 32 of
      None \<Rightarrow> (VFS_ENOSPC, 0) | Some i \<Rightarrow> (VFS_SUCCESS, i))"
proof -
  have "find_free_in is s = (case List.find (\<lambda>i. de_used (ent (sectors (fs_disk s)) i) = 0) is of
      None \<Rightarrow> (VFS_ENOSPC, 0) | Some i \<Rightarrow> (VFS_SUCCESS, i))" if "\<forall>i \<in> set is. i < 32" for "is"
    using that
  proof (induction "is")
    case Nil
    then show ?case by simp
  next
    case (Cons i "is")
    then show ?case using read_entry_ok [OF assms, of i] by simp
  qed
  then show ?thesis
    by (simp add: simplefs_find_free_entry_def first_index_def SIMPLEFS_MAX_FILES_def)
qed

lemma write_superblock_ok:
  assumes "fs_dev s = Some dev" and "dinv (fs_disk s)"
  obtains d' where "simplefs_write_superblock s = (VFS_SUCCESS, s\<lparr>fs_disk := d'\<rparr>)" and "dinv d'"
    and "sectors d' = (sectors (fs_disk s))(0 := blit (replicate 512 0) 0 (sb_bytes (fs_sb s)))"
proof -
  have "unat (0 :: u32) < unat (sector_count dev)" using dev_size(2) by simp
  moreover have "length (blit (replicate 512 0) 0 (sb_bytes (fs_sb s))) = 512" by simp
  ultimately obtain d' where "dev_write 0 (blit (replicate 512 0) 0 (sb_bytes (fs_sb s))) s =
      (BLKDEV_SUCCESS, s\<lparr>fs_disk := d'\<rparr>)" "dinv d'"
      "sectors d' = (sectors (fs_disk s))(0 := blit (replicate 512 0) 0 (sb_bytes (fs_sb s)))"
    using dev_write_ok [OF assms] by (metis unat_0)
  then show ?thesis using that [of d'] by (simp add: simplefs_write_superblock_def Let_def)
qed

end

section \<open>The bitmap\<close>

lemma mark_used_loop_ok:
  assumes "distinct ks" and "\<forall>k \<in> set ks. \<not> simplefs_sector_is_used k s"
  obtains U where "mark_used_loop ks s = (VFS_SUCCESS, s\<lparr>fs_sector_used := U\<rparr>)"
    and "\<forall>k. bit_test U k \<longleftrightarrow> k \<in> set ks \<or> bit_test (fs_sector_used s) k"
proof -
  have "\<exists>U. mark_used_loop ks s = (VFS_SUCCESS, s\<lparr>fs_sector_used := U\<rparr>) \<and>
      (\<forall>k. bit_test U k \<longleftrightarrow> k \<in> set ks \<or> bit_test (fs_sector_used s) k)"
    using assms
  proof (induction ks arbitrary: s)
    case Nil
    then show ?case by (auto intro: exI [of _ "fs_sector_used s"])
  next
    case (Cons k ks)
    have "\<forall>j \<in> set ks. \<not> simplefs_sector_is_used j (simplefs_sector_set k s)"
      using Cons.prems by (auto simp: simplefs_sector_is_used_def simplefs_sector_set_def bitmap_simps)
    with Cons.IH [of "simplefs_sector_set k s"] Cons.prems show ?case
      by (auto simp: simplefs_sector_set_def bitmap_simps)
  qed
  then show ?thesis using that by blast
qed

lemma run_inside:
  assumes "5 \<le> unat start" and "unat start + unat count \<le> unat (sb_total_sectors (fs_sb s))" and "0 < unat count"
  shows "\<not> run_outside start count s"
proof -
  let ?n = "sb_total_sectors (fs_sb s)"
  have "unat (?n - start) = unat ?n - unat start" using assms by (intro unat_sub_no_wrap) simp
  then show ?thesis
    using assms by (simp add: run_outside_def word_le_nat_alt word_less_nat_alt simplefs_consts)
qed

lemma mark_run_used_ok:
  assumes "5 \<le> unat start" and "unat start + unat count \<le> unat (sb_total_sectors (fs_sb s))"
    and "run_free (unat start) (unat count) s"
  obtains U where "simplefs_mark_run_used start count s = (VFS_SUCCESS, s\<lparr>fs_sector_used := U\<rparr>)"
    and "\<forall>k. bit_test U k \<longleftrightarrow> (unat start \<le> k \<and> k < unat start + unat count) \<or> bit_test (fs_sector_used s) k"
proof (cases "count = 0")
  case True
  show ?thesis
    by (rule that [of "fs_sector_used s"]) (use True in \<open>auto simp: simplefs_mark_run_used_def\<close>)
next
  case False
  then have "\<not> run_outside start count s"
    using run_inside [OF assms(1,2)] by (simp add: unat_gt_0)
  then show ?thesis
    using mark_used_loop_ok [of "[unat start ..< unat start + unat count]" s] assms(3) False that
    by (auto simp: simplefs_mark_run_used_def run_free_def)
qed

lemma mark_run_free_ok:
  assumes "count \<noteq> 0 \<Longrightarrow> 5 \<le> unat start \<and> unat start + unat count \<le> unat (sb_total_sectors (fs_sb s))"
  obtains U where "simplefs_mark_run_free start count s = s\<lparr>fs_sector_used := U\<rparr>"
    and "\<forall>k. bit_test U k \<longleftrightarrow> \<not> (unat start \<le> k \<and> k < unat start + unat count) \<and> bit_test (fs_sector_used s) k"
proof (cases "count = 0")
  case True
  show ?thesis
    by (rule that [of "fs_sector_used s"]) (use True in \<open>auto simp: simplefs_mark_run_free_def\<close>)
next
  case False
  have loop: "\<exists>U. for_loop a b simplefs_sector_clear t = t\<lparr>fs_sector_used := U\<rparr> \<and>
      (\<forall>k. bit_test U k \<longleftrightarrow> \<not> (a \<le> k \<and> k < b) \<and> bit_test (fs_sector_used t) k)" for a b and t :: "'a fs"
  proof (induction b)
    case 0
    then show ?case by (intro exI [of _ "fs_sector_used t"]) (simp add: for_loop_done)
  next
    case (Suc b)
    then show ?case
    proof (cases "a \<le> b")
      case True
      obtain U where U: "for_loop a b simplefs_sector_clear t = t\<lparr>fs_sector_used := U\<rparr>"
        "\<forall>k. bit_test U k \<longleftrightarrow> \<not> (a \<le> k \<and> k < b) \<and> bit_test (fs_sector_used t) k"
        using Suc by blast
      have "for_loop a (Suc b) simplefs_sector_clear t = t\<lparr>fs_sector_used := bit_clear U b\<rparr>"
        using U(1) True by (simp add: for_loop_last simplefs_sector_clear_def)
      moreover have "bit_test (bit_clear U b) k \<longleftrightarrow>
          \<not> (a \<le> k \<and> k < Suc b) \<and> bit_test (fs_sector_used t) k" for k
        using U(2) [rule_format, of k] True
        by (cases "k = b") (simp_all add: bit_test_clear less_Suc_eq)
      ultimately show ?thesis by blast
    next
      case False
      then have "for_loop a (Suc b) simplefs_sector_clear t = t" "\<And>k. \<not> (a \<le> k \<and> k < Suc b)"
        by (simp_all add: for_loop_done)
      then show ?thesis by (intro exI [of _ "fs_sector_used t"]) simp
    qed
  qed
  have "\<not> run_outside start count s"
    using run_inside [of start count s] assms False by (simp add: unat_gt_0)
  then show ?thesis
    using loop [of "unat start" "unat start + unat count" s] False that
    by (auto simp: simplefs_mark_run_free_def)
qed

section \<open>Allocation and data transfer\<close>

lemma fs_disk_upd: "fs_disk (s\<lparr>fs_disk := d\<rparr>) = d"
  by simp

lemma upt_split: "i \<le> j \<Longrightarrow> j \<le> k \<Longrightarrow> [i..<j] @ [j..<k] = [i..<k]"
  by (metis upt_add_eq_append le_iff_add)

lemma superblock_good_fields:
  assumes "\<not> superblock_bad n sb"
  shows "sb_dir_start sb = SIMPLEFS_DIR_START" "sb_total_sectors sb = n"
    "5 \<le> unat (sb_next_free sb)" "unat (sb_next_free sb) \<le> unat n"
  using assms by (auto simp: superblock_bad_def simplefs_consts word_less_nat_alt)

lemma superblock_next_free:
  assumes "\<not> superblock_bad n sb" and "5 \<le> unat m" and "unat m \<le> unat n"
  shows "\<not> superblock_bad n (sb\<lparr>sb_next_free := m\<rparr>)"
  using assms by (auto simp: superblock_bad_def simplefs_consts word_less_nat_alt)

text \<open>A run of sectors as bytes.\<close>

lemma in_sector_run:
  fixes a :: nat
  assumes "so + c \<le> 512"
  shows "a div 512 = k \<and> so \<le> a mod 512 \<and> a mod 512 < so + c \<longleftrightarrow> 512 * k + so \<le> a \<and> a < 512 * k + so + c"
proof
  assume "a div 512 = k \<and> so \<le> a mod 512 \<and> a mod 512 < so + c"
  then show "512 * k + so \<le> a \<and> a < 512 * k + so + c"
    using div_mult_mod_eq [of a 512] by auto
next
  assume a: "512 * k + so \<le> a \<and> a < 512 * k + so + c"
  then have "a = 512 * k + (a - 512 * k)" "a - 512 * k < 512" using assms by auto
  then have "a div 512 = k" "a mod 512 = a - 512 * k" by (metis div_mult_self4 div_less add_0_right zero_neq_numeral, metis mod_mult_self4 mod_less)
  then show "a div 512 = k \<and> so \<le> a mod 512 \<and> a mod 512 < so + c" using a by auto
qed

lemma byte_at_blit:
  assumes "length (D k) = 512" and "so + length xs \<le> 512"
  shows "byte_at (D(k := blit (D k) so xs)) a =
    (if 512 * k + so \<le> a \<and> a < 512 * k + so + length xs then xs ! (a - (512 * k + so)) else byte_at D a)"
proof (cases "a div 512 = k")
  case True
  have "512 * k + a mod 512 = a" using True div_mult_mod_eq [of a 512] by (simp add: mult.commute)
  then have "a mod 512 - so = a - (512 * k + so)" by arith
  then show ?thesis
    using True assms in_sector_run [OF assms(2), of a k]
    by (simp add: byte_at_upd nth_blit byte_at_def)
next
  case False
  then show ?thesis using in_sector_run [OF assms(2), of a k] by (auto simp: byte_at_upd)
qed

lemma unat_chunk:
  assumes "n < unat count" and "unat offset + unat count < 2 ^ 32"
  shows "unat (chunk_size offset count n) = min (unat count - n) (512 - (unat offset + n) mod 512)"
    and "unat (offset + of_nat n) = unat offset + n"
proof -
  have n: "unat (of_nat n :: u32) = n"
    using assms by (intro unat_of_nat_small) simp
  show abs: "unat (offset + of_nat n) = unat offset + n"
    using assms n by (subst unat_add_no_wrap) auto
  have c: "unat (count - of_nat n) = unat count - n"
    using assms(1) n by (subst unat_sub_no_wrap) auto
  have m: "unat ((offset + of_nat n) mod SECTOR_SIZE) = (unat offset + n) mod 512"
    by (simp add: unat_mod abs SECTOR_SIZE_def)
  then have "unat (SECTOR_SIZE - (offset + of_nat n) mod SECTOR_SIZE) = 512 - (unat offset + n) mod 512"
    by (subst unat_sub_no_wrap) (simp_all add: SECTOR_SIZE_def)
  then show "unat (chunk_size offset count n) = min (unat count - n) (512 - (unat offset + n) mod 512)"
    using c by (auto simp: chunk_size_def simplefs_min_u32_def word_less_nat_alt)
qed

context block_dev
begin

lemma allocate_ok:
  assumes "fs_dev s = Some dev" and "dinv (fs_disk s)" and "\<not> superblock_bad (sector_count dev) (fs_sb s)"
    and "count \<noteq> 0"
  obtains (full) "simplefs_allocate_sectors count s = (VFS_ENOSPC, 0, s)"
      "\<forall>j. 5 \<le> j \<and> j + unat count \<le> unat (sector_count dev) \<longrightarrow> \<not> run_free j (unat count) s"
  | (ok) start U sb d' where
      "simplefs_allocate_sectors count s =
         (VFS_SUCCESS, start, s\<lparr>fs_sector_used := U, fs_sb := sb, fs_disk := d'\<rparr>)"
      "5 \<le> unat start" "unat start + unat count \<le> unat (sector_count dev)" "run_free (unat start) (unat count) s"
      "\<forall>k. bit_test U k \<longleftrightarrow> (unat start \<le> k \<and> k < unat start + unat count) \<or> bit_test (fs_sector_used s) k"
      "\<not> superblock_bad (sector_count dev) sb" "dinv d'"
      "sectors d' = (sectors (fs_disk s))(0 := blit (replicate 512 0) 0 (sb_bytes sb))"
proof -
  let ?N = "sector_count dev"
  note sb = superblock_good_fields [OF assms(3)]
  have c: "0 < unat count" using assms(4) by (simp add: unat_gt_0)
  have room: "unat (?N - SIMPLEFS_DATA_START) = unat ?N - 5"
    using dev_size(2) by (subst unat_sub_no_wrap) (simp_all add: simplefs_consts)
  show ?thesis
  proof (cases "?N - SIMPLEFS_DATA_START < count")
    case True
    then have "simplefs_allocate_sectors count s = (VFS_ENOSPC, 0, s)"
      using assms(4) sb by (simp add: simplefs_allocate_sectors_def)
    moreover have "unat ?N < 5 + unat count" using True room by (simp add: word_less_nat_alt)
    ultimately show ?thesis by (intro full) auto
  next
    case False
    then have fit: "5 + unat count \<le> unat ?N" using room dev_size(2) by (simp add: word_less_nat_alt)
    then have stop: "unat (?N - count) = unat ?N - unat count" by (intro unat_sub_no_wrap) simp
    have five: "unat SIMPLEFS_DATA_START = 5" by (simp add: simplefs_consts)
    note fr = find_run_spec [OF c, of 5 "unat ?N - unat count" s]
    show ?thesis
    proof (cases "find_run 5 (unat ?N - unat count) (unat count) s")
      case None
      then have "simplefs_allocate_sectors count s = (VFS_ENOSPC, 0, s)"
        using assms(4) sb False five stop by (simp add: simplefs_allocate_sectors_def)
      then show ?thesis using fr None by (intro full) auto
    next
      case (Some st)
      then have st: "5 \<le> st" "st + unat count \<le> unat ?N" "run_free st (unat count) s"
        using fr fit by auto
      then have ust: "unat (of_nat st :: u32) = st"
        using dev_size(3) by (intro unat_of_nat_small) simp
      obtain U where U: "simplefs_mark_run_used (of_nat st) count s = (VFS_SUCCESS, s\<lparr>fs_sector_used := U\<rparr>)"
        "\<forall>k. bit_test U k \<longleftrightarrow> (st \<le> k \<and> k < st + unat count) \<or> bit_test (fs_sector_used s) k"
        using mark_run_used_ok [of "of_nat st" count s] st ust sb by auto
      define s1 where "s1 = (if sb_next_free (fs_sb s) < of_nat st + count
          then s\<lparr>fs_sector_used := U, fs_sb := (fs_sb s)\<lparr>sb_next_free := of_nat st + count\<rparr>\<rparr>
          else s\<lparr>fs_sector_used := U\<rparr>)"
      have sum: "unat (of_nat st + count) = st + unat count"
        using st dev_size(3) ust by (subst unat_add_no_wrap) auto
      have s1: "s1 = s\<lparr>fs_sector_used := U, fs_sb := fs_sb s1\<rparr>" "fs_dev s1 = Some dev" "fs_disk s1 = fs_disk s"
        using assms(1) by (auto simp: s1_def)
      have sb1: "\<not> superblock_bad ?N (fs_sb s1)"
        using assms(3) superblock_next_free [OF assms(3), of "of_nat st + count"] st sum by (auto simp: s1_def)
      obtain d' where d': "simplefs_write_superblock s1 = (VFS_SUCCESS, s1\<lparr>fs_disk := d'\<rparr>)" "dinv d'"
        "sectors d' = (sectors (fs_disk s1))(0 := blit (replicate 512 0) 0 (sb_bytes (fs_sb s1)))"
        using write_superblock_ok [of s1] s1 assms(2) by metis
      have "simplefs_allocate_sectors count s =
          (let (status, s') = simplefs_write_superblock s1 in (status, of_nat st, s'))"
        using assms(4) sb False five stop Some U(1)
        by (simp add: simplefs_allocate_sectors_def Let_def s1_def)
      moreover have "s1\<lparr>fs_disk := d'\<rparr> = s\<lparr>fs_sector_used := U, fs_sb := fs_sb s1, fs_disk := d'\<rparr>"
        by (simp add: s1_def)
      ultimately have "simplefs_allocate_sectors count s =
          (VFS_SUCCESS, of_nat st, s\<lparr>fs_sector_used := U, fs_sb := fs_sb s1, fs_disk := d'\<rparr>)"
        using d'(1) by simp
      then show ?thesis
        using st ust U(2) sb1 d' s1(3) by (intro ok [where start = "of_nat st" and U = U and sb = "fs_sb s1" and d' = d']) auto
    qed
  qed
qed

lemma unat_lba:
  assumes "unat (start :: u32) + i < unat (sector_count dev)"
  shows "unat (start + of_nat i) = unat start + i"
proof -
  have "unat (of_nat i :: u32) = i" using assms dev_size(3) by (intro unat_of_nat_small) simp
  then show ?thesis using assms dev_size(3) by (subst unat_add_no_wrap) auto
qed

lemma zero_loop_ok:
  assumes "fs_dev s = Some dev" and "dinv (fs_disk s)" and "\<forall>i \<in> set is. unat start + i < unat (sector_count dev)"
  shows "\<exists>d'. zero_run_loop start is s = (VFS_SUCCESS, s\<lparr>fs_disk := d'\<rparr>) \<and> dinv d' \<and>
    sectors d' = (\<lambda>k. if \<exists>i \<in> set is. k = unat start + i then replicate 512 0 else sectors (fs_disk s) k)"
  using assms
proof (induction "is" arbitrary: s)
  case Nil
  then show ?case by (intro exI [of _ "fs_disk s"]) simp
next
  case (Cons i "is")
  have lba: "unat (start + of_nat i) = unat start + i" using Cons.prems by (intro unat_lba) simp
  obtain d1 where d1: "dev_write (start + of_nat i) (replicate 512 0) s = (BLKDEV_SUCCESS, s\<lparr>fs_disk := d1\<rparr>)"
    "dinv d1" "sectors d1 = (sectors (fs_disk s))(unat start + i := replicate 512 0)"
    using dev_write_ok [OF Cons.prems(1,2), of "start + of_nat i" "replicate 512 0"] Cons.prems(3) lba by auto
  from Cons.IH [of "s\<lparr>fs_disk := d1\<rparr>", unfolded fs_disk_upd] Cons.prems d1 obtain d2 where
    d2: "zero_run_loop start is (s\<lparr>fs_disk := d1\<rparr>) = (VFS_SUCCESS, s\<lparr>fs_disk := d2\<rparr>)" "dinv d2"
      "sectors d2 = (\<lambda>k. if \<exists>i \<in> set is. k = unat start + i then replicate 512 0 else sectors d1 k)"
    by auto
  show ?case
    by (rule exI [of _ d2]) (use d1 d2 in \<open>auto simp: Let_def fun_eq_iff\<close>)
qed

lemma copy_loop_ok:
  assumes "fs_dev s = Some dev" and "dinv (fs_disk s)"
    and "unat old + m \<le> unat (sector_count dev)" and "unat new + m \<le> unat (sector_count dev)"
    and "{unat old ..< unat old + m} \<inter> {unat new ..< unat new + m} = {}" and "i \<le> m"
  shows "\<exists>d'. copy_data_loop old new [i..<m] s = (VFS_SUCCESS, s\<lparr>fs_disk := d'\<rparr>) \<and> dinv d' \<and>
    sectors d' = (\<lambda>k. if unat new + i \<le> k \<and> k < unat new + m then sectors (fs_disk s) (unat old + (k - unat new))
                      else sectors (fs_disk s) k)"
  using assms(1,2,6)
proof (induction "m - i" arbitrary: i s)
  case 0
  then show ?case by (intro exI [of _ "fs_disk s"]) (auto simp: fun_eq_iff)
next
  case (Suc n)
  then have im: "i < m" by simp
  then have up: "[i..<m] = i # [Suc i..<m]" by (simp add: upt_conv_Cons)
  let ?D = "sectors (fs_disk s)"
  have lo: "unat (old + of_nat i) = unat old + i" and ln: "unat (new + of_nat i) = unat new + i"
    using assms(3,4) im by (auto intro!: unat_lba)
  have rd: "dev_read (old + of_nat i) s = (BLKDEV_SUCCESS, ?D (unat old + i))"
    using dev_read_ok [OF Suc.prems(1,2), of "old + of_nat i"] lo assms(3) im by simp
  have "length (?D (unat old + i)) = 512" using sector_length [OF Suc.prems(2)] assms(3) im by simp
  then obtain d1 where d1: "dev_write (new + of_nat i) (?D (unat old + i)) s = (BLKDEV_SUCCESS, s\<lparr>fs_disk := d1\<rparr>)"
    "dinv d1" "sectors d1 = ?D(unat new + i := ?D (unat old + i))"
    using dev_write_ok [OF Suc.prems(1,2), of "new + of_nat i"] ln assms(4) im by auto
  have "n = m - Suc i" using Suc.hyps(2) by simp
  from Suc.hyps(1) [OF this, of "s\<lparr>fs_disk := d1\<rparr>", unfolded fs_disk_upd] Suc.prems d1 im obtain d2 where
    d2: "copy_data_loop old new [Suc i..<m] (s\<lparr>fs_disk := d1\<rparr>) = (VFS_SUCCESS, s\<lparr>fs_disk := d2\<rparr>)" "dinv d2"
      "sectors d2 = (\<lambda>k. if unat new + Suc i \<le> k \<and> k < unat new + m then sectors d1 (unat old + (k - unat new))
                         else sectors d1 k)"
    by auto
  have apart: "unat old + j \<noteq> unat new + i" if "j < m" for j
  proof -
    have "unat old + j \<in> {unat old ..< unat old + m}" "unat new + i \<in> {unat new ..< unat new + m}"
      using that im by auto
    then show ?thesis using assms(5) by (metis IntI empty_iff)
  qed
  have "sectors d2 k = (if unat new + i \<le> k \<and> k < unat new + m then ?D (unat old + (k - unat new)) else ?D k)" for k
  proof (cases "k = unat new + i")
    case True
    then show ?thesis using im by (simp add: d2(3) d1(3))
  next
    case False
    moreover have "k - unat new < m" if "unat new + i \<le> k" "k < unat new + m" using that by arith
    ultimately show ?thesis using apart [of "k - unat new"] by (auto simp: d2(3) d1(3))
  qed
  then show ?case
    using d1(1) d2(1,2) rd by (intro exI [of _ d2]) (auto simp: up Let_def)
qed

lemma read_loop_ok:
  assumes "fs_dev s = Some dev" and "dinv (fs_disk s)" and "unat offset + unat count < 2 ^ 32"
    and "512 * unat start + unat offset + unat count \<le> 512 * unat (sector_count dev)" and "n \<le> unat count"
  shows "read_loop start offset count n out s =
    (int (unat count), out @ map (\<lambda>j. byte_at (sectors (fs_disk s)) (512 * unat start + unat offset + j)) [n..<unat count])"
  using assms(5)
proof (induction "unat count - n" arbitrary: n out rule: less_induct)
  case less
  let ?D = "sectors (fs_disk s)"
  show ?case
  proof (cases "n < unat count")
    case False
    then show ?thesis using less.prems by (simp add: read_loop.simps)
  next
    case True
    let ?a = "unat offset + n" and ?c = "unat (chunk_size offset count n)"
    note ch = unat_chunk [OF True assms(3)]
    have c0: "0 < ?c" using chunk_size_pos [OF True] .
    have abs: "unat ((offset + of_nat n) div SECTOR_SIZE) = ?a div 512" "unat ((offset + of_nat n) mod SECTOR_SIZE) = ?a mod 512"
      by (simp_all add: unat_div unat_mod ch(2) SECTOR_SIZE_def)
    have "512 * (?a div 512) \<le> ?a" by simp
    then have lt: "unat start + ?a div 512 < unat (sector_count dev)" using assms(4) True by linarith
    have "unat (start + (offset + of_nat n) div SECTOR_SIZE) = unat start + ?a div 512"
      using lt dev_size(3) abs by (subst unat_add_no_wrap) auto
    then have rd: "dev_read (start + (offset + of_nat n) div SECTOR_SIZE) s = (BLKDEV_SUCCESS, ?D (unat start + ?a div 512))"
      using dev_read_ok [OF assms(1,2)] lt by simp
    have len: "length (?D (unat start + ?a div 512)) = 512" using sector_length [OF assms(2) lt] .
    have cb: "?c \<le> unat count - n" "?a mod 512 + ?c \<le> 512" using ch(1) by auto
    have piece: "take ?c (drop (?a mod 512) (?D (unat start + ?a div 512))) =
        map (\<lambda>j. byte_at ?D (512 * unat start + unat offset + j)) [n..<n + ?c]"
    proof (rule nth_equalityI)
      fix i assume "i < length (take ?c (drop (?a mod 512) (?D (unat start + ?a div 512))))"
      then have i: "i < ?c" by simp
      have eq: "512 * unat start + unat offset + (n + i) = 512 * (unat start + ?a div 512) + (?a mod 512 + i)"
        using mult_div_mod_eq [of 512 ?a] by (simp add: algebra_simps)
      have "byte_at ?D (512 * unat start + unat offset + (n + i)) = ?D (unat start + ?a div 512) ! (?a mod 512 + i)"
        unfolding eq by (rule byte_at_sector) (use i cb in linarith)
      then show "take ?c (drop (?a mod 512) (?D (unat start + ?a div 512))) ! i =
          map (\<lambda>j. byte_at ?D (512 * unat start + unat offset + j)) [n..<n + ?c] ! i"
        using i cb len by simp
    qed (use len cb in simp)
    have step: "read_loop start offset count n out s = read_loop start offset count (n + ?c)
        (out @ map (\<lambda>j. byte_at ?D (512 * unat start + unat offset + j)) [n..<n + ?c]) s"
      using True rd abs piece by (subst read_loop.simps) (simp add: Let_def)
    have "read_loop start offset count (n + ?c) (out @ map (\<lambda>j. byte_at ?D (512 * unat start + unat offset + j)) [n..<n + ?c]) s =
        (int (unat count), (out @ map (\<lambda>j. byte_at ?D (512 * unat start + unat offset + j)) [n..<n + ?c]) @
           map (\<lambda>j. byte_at ?D (512 * unat start + unat offset + j)) [n + ?c..<unat count])"
      by (rule less.hyps) (use c0 cb True in auto)
    then show ?thesis
      unfolding step using cb True by (simp flip: map_append add: upt_split)
  qed
qed

lemma write_loop_ok:
  assumes "fs_dev s = Some dev" and "dinv (fs_disk s)" and "unat offset + unat count < 2 ^ 32"
    and "512 * unat start + unat offset + unat count \<le> 512 * unat (sector_count dev)" and "n \<le> unat count"
    and "length sector = 512"
  shows "\<exists>d'. write_loop start offset count src n sector s = (int (unat count), s\<lparr>fs_disk := d'\<rparr>) \<and> dinv d' \<and>
    (\<forall>a. byte_at (sectors d') a =
       (if 512 * unat start + unat offset + n \<le> a \<and> a < 512 * unat start + unat offset + unat count
        then src (a - (512 * unat start + unat offset)) else byte_at (sectors (fs_disk s)) a)) \<and>
    (\<forall>k. k < unat start \<longrightarrow> sectors d' k = sectors (fs_disk s) k)"
  using assms(1,2,5,6)
proof (induction "unat count - n" arbitrary: n sector s rule: less_induct)
  case less
  let ?D = "sectors (fs_disk s)" and ?b = "512 * unat start + unat offset"
  show ?case
  proof (cases "n < unat count")
    case False
    then have "write_loop start offset count src n sector s = (int (unat count), s)"
      using less.prems(3) by (simp add: write_loop.simps)
    then show ?thesis using False less.prems by (intro exI [of _ "fs_disk s"]) auto
  next
    case True
    let ?a = "unat offset + n" and ?c = "unat (chunk_size offset count n)"
    let ?k = "unat start + ?a div 512"
    note ch = unat_chunk [OF True assms(3)]
    have c0: "0 < ?c" using chunk_size_pos [OF True] .
    have cb: "?c \<le> unat count - n" "?a mod 512 + ?c \<le> 512" using ch(1) by auto
    have abs: "unat ((offset + of_nat n) div SECTOR_SIZE) = ?a div 512" "unat ((offset + of_nat n) mod SECTOR_SIZE) = ?a mod 512"
      by (simp_all add: unat_div unat_mod ch(2) SECTOR_SIZE_def)
    have "512 * (?a div 512) \<le> ?a" by simp
    then have lt: "?k < unat (sector_count dev)" using assms(4) True by linarith
    have lba: "unat (start + (offset + of_nat n) div SECTOR_SIZE) = ?k"
      using lt dev_size(3) abs by (subst unat_add_no_wrap) auto
    have len: "length (?D ?k) = 512" using sector_length [OF less.prems(2) lt] .
    let ?xs = "map src [n..<n + ?c]"
    obtain r0 sec where pre: "(if chunk_size offset count n \<noteq> SECTOR_SIZE
          then dev_read (start + (offset + of_nat n) div SECTOR_SIZE) s else (BLKDEV_SUCCESS, sector)) = (r0, sec)"
      by force
    have sec: "r0 = BLKDEV_SUCCESS" "blit sec (?a mod 512) ?xs = blit (?D ?k) (?a mod 512) ?xs"
    proof -
      have rd: "dev_read (start + (offset + of_nat n) div SECTOR_SIZE) s = (BLKDEV_SUCCESS, ?D ?k)"
        using dev_read_ok [OF less.prems(1,2)] lt lba by simp
      show "r0 = BLKDEV_SUCCESS" using pre rd by (auto split: if_splits)
      show "blit sec (?a mod 512) ?xs = blit (?D ?k) (?a mod 512) ?xs"
      proof (cases "chunk_size offset count n = SECTOR_SIZE")
        case True
        then have "?c = 512" by (simp add: SECTOR_SIZE_def)
        then have "?a mod 512 = 0" "length ?xs = 512" using cb(2) by simp_all
        then show ?thesis using less.prems(4) len pre True by (simp add: blit_def)
      next
        case False
        then show ?thesis using pre rd by simp
      qed
    qed
    let ?buf = "blit (?D ?k) (?a mod 512) ?xs"
    have blen: "length ?buf = 512" using len cb by simp
    obtain d1 where d1: "dev_write (start + (offset + of_nat n) div SECTOR_SIZE) ?buf s =
        (BLKDEV_SUCCESS, s\<lparr>fs_disk := d1\<rparr>)" "dinv d1" "sectors d1 = ?D(?k := ?buf)"
      using dev_write_ok [OF less.prems(1,2), of "start + (offset + of_nat n) div SECTOR_SIZE" ?buf] lba lt blen by auto
    have step: "write_loop start offset count src n sector s =
        write_loop start offset count src (n + ?c) ?buf (s\<lparr>fs_disk := d1\<rparr>)"
      using True pre sec abs d1(1) by (subst write_loop.simps) (simp add: Let_def)
    have "\<exists>d'. write_loop start offset count src (n + ?c) ?buf (s\<lparr>fs_disk := d1\<rparr>) =
          (int (unat count), (s\<lparr>fs_disk := d1\<rparr>)\<lparr>fs_disk := d'\<rparr>) \<and> dinv d' \<and>
        (\<forall>a. byte_at (sectors d') a = (if ?b + (n + ?c) \<le> a \<and> a < ?b + unat count
            then src (a - ?b) else byte_at (sectors (fs_disk (s\<lparr>fs_disk := d1\<rparr>))) a)) \<and>
        (\<forall>k. k < unat start \<longrightarrow> sectors d' k = sectors (fs_disk (s\<lparr>fs_disk := d1\<rparr>)) k)"
      by (rule less.hyps) (use c0 cb True less.prems d1(2) blen in auto)
    then obtain d2 where d2: "write_loop start offset count src (n + ?c) ?buf (s\<lparr>fs_disk := d1\<rparr>) =
          (int (unat count), s\<lparr>fs_disk := d2\<rparr>)" "dinv d2"
        "\<And>a. byte_at (sectors d2) a = (if ?b + (n + ?c) \<le> a \<and> a < ?b + unat count
            then src (a - ?b) else byte_at (sectors d1) a)"
        "\<forall>k. k < unat start \<longrightarrow> sectors d2 k = sectors d1 k"
      unfolding fs_disk_upd by auto
    have base: "512 * ?k + ?a mod 512 = ?b + n"
      using mult_div_mod_eq [of 512 ?a] by (simp add: algebra_simps)
    have b1: "byte_at (sectors d1) a = (if ?b + n \<le> a \<and> a < ?b + n + ?c then src (a - ?b) else byte_at ?D a)" for a
    proof -
      have "a - (?b + n) < ?c \<and> n + (a - (?b + n)) = a - ?b" if "?b + n \<le> a" "a < ?b + n + ?c"
        using that by arith
      then show ?thesis
        unfolding d1(3) using byte_at_blit [of ?D ?k "?a mod 512" ?xs a] len cb by (auto simp: base ac_simps)
    qed
    have "byte_at (sectors d2) a = (if ?b + n \<le> a \<and> a < ?b + unat count then src (a - ?b) else byte_at ?D a)" for a
      using cb True by (auto simp: d2(3) b1)
    then show ?thesis
      using step d2(1,2,4) d1(3) by (intro exI [of _ d2]) auto
  qed
qed

end

end
