(* ===== verification/SimpleFS_Files.thy ===== *)
theory SimpleFS_Files
  imports SimpleFS_Spec
begin

text \<open>
  SimpleFS as a map from names to contents: every public operation keeps the invariant \<open>fs_inv\<close>
  and acts on the abstract map \<open>files\<close> as its specification says. The lemmas are proved for any
  block device and then stated for the ramdisk, the device the kernel mounts.
\<close>

section \<open>Changing one directory entry\<close>

lemma entry_ok_size:
  assumes "entry_ok N e" and "de_used e \<noteq> 0"
  shows "unat (de_size e) \<le> 512 * unat (de_alloc e)"
  using assms by (simp add: entry_ok_def)

lemma dir_ok_runs:
  "dir_ok N E \<Longrightarrow> i < 32 \<Longrightarrow> j < 32 \<Longrightarrow> i \<noteq> j \<Longrightarrow> run_of (E i) \<inter> run_of (E j) = {}"
  by (simp add: dir_ok_def)

lemma byte_in_run:
  assumes "j < 512 * unat (de_alloc e)" and "de_used e \<noteq> 0" and "\<forall>k \<in> run_of e. D' k = D k"
  shows "byte_at D' (512 * unat (de_start e) + j) = byte_at D (512 * unat (de_start e) + j)"
proof -
  have "j div 512 < unat (de_alloc e)" using assms(1) by (simp add: less_mult_imp_div_less mult.commute)
  then have "unat (de_start e) + j div 512 \<in> run_of e" using assms(2) by (simp add: run_of_def)
  then show ?thesis using assms(3) by (simp add: byte_at_def)
qed

lemma content_cong:
  assumes "entry_ok N e" and "de_used e \<noteq> 0" and "\<forall>k \<in> run_of e. D' k = D k"
  shows "content D' e = content D e" and "tail_zero D e \<Longrightarrow> tail_zero D' e"
proof -
  have "byte_at D' (512 * unat (de_start e) + j) = byte_at D (512 * unat (de_start e) + j)"
    if "j < unat (de_size e)" for j
    using that entry_ok_size [OF assms(1,2)] by (intro byte_in_run [OF _ assms(2,3)]) simp
  then show "content D' e = content D e" by (simp add: content_def)
  show "tail_zero D' e" if "tail_zero D e"
    using that byte_in_run [OF _ assms(2,3)] by (simp add: tail_zero_def)
qed

lemma fs_inv_entry:
  assumes inv: "fs_inv dev sectors dinv s" and i: "i < 32"
    and s': "fs_dev s' = Some dev" "dinv (fs_disk s')" "fs_mounted s'"
      "\<not> superblock_bad (sector_count dev) (fs_sb s')"
      "sectors (fs_disk s') 0 = blit (replicate 512 0) 0 (sb_bytes (fs_sb s'))"
    and E': "\<forall>j < 32. ent (sectors (fs_disk s')) j = (if j = i then e else ent (sectors (fs_disk s)) j)"
    and e: "entry_ok (unat (sector_count dev)) e" "de_used e \<noteq> 0" "valid_name n" "de_name e = pad_name n"
      "tail_zero (sectors (fs_disk s')) e"
    and name: "\<forall>j < 32. de_used (ent (sectors (fs_disk s)) j) \<noteq> 0 \<longrightarrow>
      (de_name (ent (sectors (fs_disk s)) j) = pad_name n \<longleftrightarrow> j = i)"
    and apart: "\<forall>j < 32. j \<noteq> i \<longrightarrow> run_of e \<inter> run_of (ent (sectors (fs_disk s)) j) = {}"
    and keep: "\<forall>j < 32. j \<noteq> i \<longrightarrow> (\<forall>k \<in> run_of (ent (sectors (fs_disk s)) j).
      sectors (fs_disk s') k = sectors (fs_disk s) k)"
    and bits: "\<forall>k < unat (sector_count dev). bit_test (fs_sector_used s') k \<longleftrightarrow> k < 5 \<or> k \<in> run_of e \<or>
      (\<exists>j < 32. j \<noteq> i \<and> k \<in> run_of (ent (sectors (fs_disk s)) j))"
  shows "fs_inv dev sectors dinv s'"
    and "files sectors s' = (files sectors s)(n \<mapsto> content (sectors (fs_disk s')) e)"
proof -
  let ?D = "sectors (fs_disk s)" and ?D' = "sectors (fs_disk s')" and ?N = "unat (sector_count dev)"
  have dir: "\<And>j. j < 32 \<Longrightarrow> entry_ok ?N (ent ?D j)"
    "\<And>j k. j < 32 \<Longrightarrow> k < 32 \<Longrightarrow> j \<noteq> k \<Longrightarrow> de_used (ent ?D j) \<noteq> 0 \<Longrightarrow> de_used (ent ?D k) \<noteq> 0 \<Longrightarrow>
       de_name (ent ?D j) \<noteq> de_name (ent ?D k)"
    "\<And>j k. j < 32 \<Longrightarrow> k < 32 \<Longrightarrow> j \<noteq> k \<Longrightarrow> run_of (ent ?D j) \<inter> run_of (ent ?D k) = {}"
    and tails: "\<And>j. j < 32 \<Longrightarrow> tail_zero ?D (ent ?D j)"
    using inv unfolding fs_inv_def dir_ok_def Let_def by blast+
  have Ei: "ent ?D' i = e" and Ej: "\<And>j. j < 32 \<Longrightarrow> j \<noteq> i \<Longrightarrow> ent ?D' j = ent ?D j"
    using E' i by auto
  have ok: "entry_ok ?N (ent ?D' j)" if "j < 32" for j
    using that dir(1) e(1) Ei Ej by (cases "j = i") auto
  have names: "de_name (ent ?D' j) \<noteq> de_name (ent ?D' k)"
    if "j < 32" "k < 32" "j \<noteq> k" "de_used (ent ?D' j) \<noteq> 0" "de_used (ent ?D' k) \<noteq> 0" for j k
    using that dir(2) [OF that(1-3)] Ei Ej name e(4) by (cases "j = i"; cases "k = i") force+
  have runs: "run_of (ent ?D' j) \<inter> run_of (ent ?D' k) = {}" if "j < 32" "k < 32" "j \<noteq> k" for j k
    using that dir(3) [OF that] Ei Ej apart by (cases "j = i"; cases "k = i") auto
  have bits': "map_ok ?N (fs_sector_used s') (ent ?D')"
    unfolding map_ok_def using bits Ei Ej i by (metis (no_types, lifting))
  have cong: "content ?D' (ent ?D j) = content ?D (ent ?D j)" "tail_zero ?D' (ent ?D j)"
    if "j < 32" "j \<noteq> i" "de_used (ent ?D j) \<noteq> 0" for j
    using content_cong [OF dir(1) [OF that(1)] that(3), of ?D' ?D] keep tails that(1,2) by blast+
  have "tail_zero ?D' (ent ?D' j)" if "j < 32" for j
  proof (cases "j = i")
    case False
    then show ?thesis using cong(2) [OF that] Ej that by (cases "de_used (ent ?D j) = 0") (auto simp: tail_zero_def)
  qed (use e(5) Ei in simp)
  then show "fs_inv dev sectors dinv s'"
    unfolding fs_inv_def dir_ok_def Let_def using s' ok names runs bits' by blast
  show "files sectors s' = (files sectors s)(n \<mapsto> content ?D' e)"
  proof
    fix m
    show "files sectors s' m = ((files sectors s)(n \<mapsto> content ?D' e)) m"
    proof (cases "valid_name m")
      case False
      then show ?thesis using e(3) by (auto simp: files_def)
    next
      case m: True
      show ?thesis
      proof (cases "m = n")
        case True
        have "slot_of (ent ?D') n = Some i"
          unfolding slot_of_def first_index_Some_iff using i Ei Ej e(2,4) name by auto
        then show ?thesis using True m Ei by (simp add: files_def)
      next
        case False
        then have "pad_name m \<noteq> pad_name n" using pad_name_inj [OF m e(3)] by blast
        then have same: "(de_used (ent ?D' j) \<noteq> 0 \<and> de_name (ent ?D' j) = pad_name m) \<longleftrightarrow>
            (de_used (ent ?D j) \<noteq> 0 \<and> de_name (ent ?D j) = pad_name m)" if "j < 32" for j
          using that Ei Ej e(4) name i by (cases "j = i") auto
        have slot: "slot_of (ent ?D') m = slot_of (ent ?D) m"
          unfolding slot_of_def first_index_def by (rule find_cong [OF refl], rule same) simp
        have "content ?D' (ent ?D' j) = content ?D (ent ?D j)" if "slot_of (ent ?D) m = Some j" for j
        proof -
          have j: "j < 32" "de_used (ent ?D j) \<noteq> 0" "de_name (ent ?D j) = pad_name m"
            using that by (auto simp: slot_of_def first_index_Some_iff)
          then have "j \<noteq> i" using name \<open>pad_name m \<noteq> pad_name n\<close> by auto
          then show ?thesis using cong(1) [OF j(1) _ j(2)] Ej [OF j(1)] by simp
        qed
        then show ?thesis using False m slot by (auto simp: files_def split: option.splits intro!: option.map_cong)
      qed
    qed
  qed
qed

section \<open>The abstract operations\<close>

text \<open>
  Writing \<open>n\<close> bytes at an offset: bytes between the old end and the offset read as zero.
\<close>

definition patch :: "u8 list \<Rightarrow> nat \<Rightarrow> (nat \<Rightarrow> u8) \<Rightarrow> nat \<Rightarrow> u8 list" where
  "patch c off src n =
     map (\<lambda>j. if off \<le> j \<and> j < off + n then src (j - off) else cstr_at c j) [0..<max (length c) (off + n)]"

lemma length_content [simp]: "length (content D e) = unat (de_size e)"
  by (simp add: content_def)

section \<open>Growing a file\<close>

lemma unat_sectors_for_bytes:
  assumes "unat b + 511 < 2 ^ 32"
  shows "unat (simplefs_sectors_for_bytes b) = (unat b + 511) div 512"
proof (cases "b = 0")
  case False
  have "b + SECTOR_SIZE - 1 = b + 511" by (simp add: SECTOR_SIZE_def)
  moreover have "unat (b + 511) = unat b + 511" using assms by (subst unat_add_no_wrap) auto
  ultimately have "unat (b + SECTOR_SIZE - 1) = unat b + 511" by (simp only:)
  moreover have "unat SECTOR_SIZE = 512" by (simp add: SECTOR_SIZE_def)
  ultimately show ?thesis using False by (simp add: simplefs_sectors_for_bytes_def unat_div)
qed (simp add: simplefs_sectors_for_bytes_def)

lemma fs_disk_used: "fs_disk (s\<lparr>fs_sector_used := U\<rparr>) = fs_disk s"
  by simp


context block_dev
begin

lemma ensure_capacity_ok:
  assumes inv: "fs_inv dev sectors dinv s" and i: "i < 32"
  defines "D \<equiv> sectors (fs_disk s)"
  defines "e \<equiv> ent D i"
  assumes used: "de_used e \<noteq> 0"
  obtains (fits) "r \<le> de_alloc e" "simplefs_ensure_capacity e r s = (VFS_SUCCESS, e, s)"
  | (full) "simplefs_ensure_capacity e r s = (VFS_ENOSPC, e, s)"
      "\<forall>j. 5 \<le> j \<and> j + unat r \<le> unat (sector_count dev) \<longrightarrow> \<not> run_free j (unat r) s"
  | (moved) ns U sb d' where "de_alloc e < r"
      "simplefs_ensure_capacity e r s = (VFS_SUCCESS, e\<lparr>de_start := ns, de_alloc := r\<rparr>,
         s\<lparr>fs_sector_used := U, fs_sb := sb, fs_disk := d'\<rparr>)"
      "5 \<le> unat ns" "unat ns + unat r \<le> unat (sector_count dev)" "run_free (unat ns) (unat r) s"
      "\<forall>k. bit_test U k \<longleftrightarrow> (unat ns \<le> k \<and> k < unat ns + unat r) \<or> bit_test (fs_sector_used s) k"
      "\<not> superblock_bad (sector_count dev) sb" "dinv d'"
      "sectors d' 0 = blit (replicate 512 0) 0 (sb_bytes sb)"
      "\<forall>k. k \<noteq> 0 \<and> \<not> (unat ns \<le> k \<and> k < unat ns + unat r) \<longrightarrow> sectors d' k = D k"
      "\<forall>j < 512 * unat r. byte_at (sectors d') (512 * unat ns + j) =
         (if j < unat (de_size e) then byte_at D (512 * unat (de_start e) + j) else 0)"
proof (cases "r \<le> de_alloc e")
  case True
  then show ?thesis using fits by (simp add: simplefs_ensure_capacity_def)
next
  case False
  then have r: "r \<noteq> 0" "de_alloc e < r" "unat (de_alloc e) < unat r"
    by (auto simp: word_less_nat_alt word_le_nat_alt)
  have f: "fs_dev s = Some dev" "dinv (fs_disk s)" "\<not> superblock_bad (sector_count dev) (fs_sb s)"
    and eok: "entry_ok (unat (sector_count dev)) e" and tz: "tail_zero D e"
    and mok: "map_ok (unat (sector_count dev)) (fs_sector_used s) (ent D)"
    using inv i by (auto simp: fs_inv_def dir_ok_def Let_def D_def e_def)
  from f r(1) show ?thesis
  proof (cases rule: allocate_ok)
    case a: full
    then show ?thesis using full False by (simp add: simplefs_ensure_capacity_def vfs_errors)
  next
    case a: (ok ns U sb d1)
    let ?N = "unat (sector_count dev)" and ?m = "unat (de_alloc e)"
    let ?s1 = "s\<lparr>fs_sector_used := U, fs_sb := sb, fs_disk := d1\<rparr>"
    have s1: "fs_dev ?s1 = Some dev" "dinv (fs_disk ?s1)" using f(1) a(7) by simp_all
    have "\<forall>i \<in> set [0..<unat r]. unat ns + i < unat (sector_count dev)" using a(3) by auto
    from zero_loop_ok [OF s1 this, unfolded fs_disk_upd] obtain d2 where
      d2: "simplefs_zero_run ns r ?s1 = (VFS_SUCCESS, ?s1\<lparr>fs_disk := d2\<rparr>)" "dinv d2"
        "sectors d2 = (\<lambda>k. if \<exists>i \<in> set [0..<unat r]. k = unat ns + i then replicate 512 0 else sectors d1 k)"
      by (auto simp: simplefs_zero_run_def)
    have d2k: "sectors d2 k = (if unat ns \<le> k \<and> k < unat ns + unat r then replicate 512 0
        else if k = 0 then blit (replicate 512 0) 0 (sb_bytes sb) else D k)" for k
    proof -
      have "(\<exists>i \<in> set [0..<unat r]. k = unat ns + i) \<longleftrightarrow> unat ns \<le> k \<and> k < unat ns + unat r"
        by (auto intro: bexI [of _ "k - unat ns"])
      then show ?thesis using a(2) by (auto simp: d2(3) a(8) D_def)
    qed
    let ?s2 = "?s1\<lparr>fs_disk := d2\<rparr>"
    have old_used: "bit_test (fs_sector_used s) k" if "k \<in> run_of e" for k
    proof -
      have "k < ?N" using that eok used by (auto simp: run_of_def entry_ok_def split: if_splits)
      then show ?thesis using mok that i by (auto simp: map_ok_def e_def)
    qed
    have apart: "\<not> (unat ns \<le> k \<and> k < unat ns + unat r)" if "k \<in> run_of e" for k
      using old_used [OF that] a(4) by (auto simp: run_free_def simplefs_sector_is_used_def)
    have ns5: "k \<in> run_of e \<Longrightarrow> k \<noteq> 0" for k
      using eok used by (auto simp: run_of_def entry_ok_def)
    show ?thesis
    proof (cases "0 < de_size e \<and> 0 < de_alloc e")
      case True
      have sz: "unat (de_size e) \<le> 512 * ?m" using entry_ok_size [OF eok used] .
      have al: "5 \<le> unat (de_start e)" "unat (de_start e) + ?m \<le> ?N"
        using True eok used by (auto simp: entry_ok_def)
      then have "?m \<le> 4096" using dev_size(3) by simp
      then have secs: "unat (simplefs_sectors_for_bytes (de_size e)) = ?m"
        using unat_sectors_for_bytes [of "de_size e"] sz eok used by (simp add: entry_ok_def)
      have disj: "{unat (de_start e) ..< unat (de_start e) + ?m} \<inter> {unat ns ..< unat ns + ?m} = {}"
      proof (rule equals0I)
        fix k assume k: "k \<in> {unat (de_start e) ..< unat (de_start e) + ?m} \<inter> {unat ns ..< unat ns + ?m}"
        then have "k \<in> run_of e" using used by (simp add: run_of_def)
        then show False using apart [of k] k r(3) by auto
      qed
      have s2: "fs_dev ?s2 = Some dev" "dinv (fs_disk ?s2)" using f(1) d2(2) by simp_all
      have "unat ns + ?m \<le> ?N" using a(3) r(3) by simp
      from copy_loop_ok [OF s2 al(2) this disj, of 0, unfolded fs_disk_upd] obtain d3 where
        d3: "simplefs_copy_file_data e ns ?s2 = (VFS_SUCCESS, ?s2\<lparr>fs_disk := d3\<rparr>)" "dinv d3"
          "sectors d3 = (\<lambda>k. if unat ns + 0 \<le> k \<and> k < unat ns + ?m
             then sectors d2 (unat (de_start e) + (k - unat ns)) else sectors d2 k)"
        by (auto simp: simplefs_copy_file_data_def secs)
      have d3k: "sectors d3 k = (if unat ns \<le> k \<and> k < unat ns + ?m then D (unat (de_start e) + (k - unat ns)) else sectors d2 k)" for k
      proof -
        have old: "sectors d2 (unat (de_start e) + j) = D (unat (de_start e) + j)" if "j < ?m" for j
        proof -
          have "unat (de_start e) + j \<in> run_of e" using that used by (simp add: run_of_def)
          from apart [OF this] ns5 [OF this] show ?thesis by (simp only: d2k if_False)
        qed
        show ?thesis
        proof (cases "unat ns \<le> k \<and> k < unat ns + ?m")
          case True
          then have "k - unat ns < ?m" by arith
          from old [OF this] True show ?thesis by (simp only: d3(3) if_True add_0_right)
        qed (simp only: d3(3) if_False add_0_right)
      qed
      have b: "byte_at (sectors d3) (512 * unat ns + j) =
          (if j < unat (de_size e) then byte_at D (512 * unat (de_start e) + j) else 0)" if "j < 512 * unat r" for j
      proof -
        have jr: "j div 512 < unat r" using that by (simp add: less_mult_imp_div_less mult.commute)
        have "(512 * unat ns + j) div 512 = unat ns + j div 512" "(512 * unat ns + j) mod 512 = j mod 512" by simp_all
        then have "byte_at (sectors d3) (512 * unat ns + j) =
            (if j div 512 < ?m then byte_at D (512 * unat (de_start e) + j) else 0)"
          using jr by (simp add: byte_at_def d3k d2k)
        moreover have "j div 512 < ?m \<longleftrightarrow> j < 512 * ?m"
          by (auto simp: div_less_iff_less_mult mult.commute)
        ultimately show ?thesis using sz tz used by (auto simp: tail_zero_def)
      qed
      have zero: "sectors d3 0 = blit (replicate 512 0) 0 (sb_bytes sb)" using a(2) by (simp add: d3k d2k)
      have rest: "\<forall>k. k \<noteq> 0 \<and> \<not> (unat ns \<le> k \<and> k < unat ns + unat r) \<longrightarrow> sectors d3 k = D k"
        using r(3) by (auto simp: d3k d2k)
      have "simplefs_ensure_capacity e r s = (VFS_SUCCESS, e\<lparr>de_start := ns, de_alloc := r\<rparr>,
         s\<lparr>fs_sector_used := U, fs_sb := sb, fs_disk := d3\<rparr>)"
        using False a(1) d2(1) d3(1) True by (simp add: simplefs_ensure_capacity_def)
      then show ?thesis
        using moved [where ns = ns and U = U and sb = sb and d' = d3] r a d3(2) zero rest b by simp
    next
      case small: False
      then have sz0: "unat (de_size e) = 0"
        using eok used by (auto simp: entry_ok_def word_neq_0_conv [symmetric] div_eq_0_iff)
      have b: "byte_at (sectors d2) (512 * unat ns + j) = 0" if "j < 512 * unat r" for j
      proof -
        have "j div 512 < unat r" using that by (simp add: less_mult_imp_div_less mult.commute)
        then show ?thesis by (simp add: byte_at_def d2k)
      qed
      have zero: "sectors d2 0 = blit (replicate 512 0) 0 (sb_bytes sb)" using a(2) by (simp add: d2k)
      have rest: "\<forall>k. k \<noteq> 0 \<and> \<not> (unat ns \<le> k \<and> k < unat ns + unat r) \<longrightarrow> sectors d2 k = D k"
        by (simp add: d2k)
      have "simplefs_ensure_capacity e r s = (VFS_SUCCESS, e\<lparr>de_start := ns, de_alloc := r\<rparr>,
         s\<lparr>fs_sector_used := U, fs_sb := sb, fs_disk := d2\<rparr>)"
        using False a(1) d2(1) small by (auto simp: simplefs_ensure_capacity_def)
      then show ?thesis
        using moved [where ns = ns and U = U and sb = sb and d' = d2] r a d2(2) zero rest b sz0 by simp
    qed
  qed
qed

lemma fs_invD:
  assumes "fs_inv dev sectors dinv s"
  shows "fs_dev s = Some dev" "dinv (fs_disk s)" "fs_mounted s" "\<not> superblock_bad (sector_count dev) (fs_sb s)"
    "sb_dir_start (fs_sb s) = SIMPLEFS_DIR_START" "sb_total_sectors (fs_sb s) = sector_count dev"
    "sectors (fs_disk s) 0 = blit (replicate 512 0) 0 (sb_bytes (fs_sb s))"
    "\<forall>i < 32. entry_ok (unat (sector_count dev)) (ent (sectors (fs_disk s)) i)"
    "\<forall>i < 32. tail_zero (sectors (fs_disk s)) (ent (sectors (fs_disk s)) i)"
    "map_ok (unat (sector_count dev)) (fs_sector_used s) (ent (sectors (fs_disk s)))"
  using assms superblock_good_fields [of "sector_count dev" "fs_sb s"]
  by (auto simp: fs_inv_def dir_ok_def Let_def)

lemma fs_inv_runs:
  assumes "fs_inv dev sectors dinv s" and "i < 32" and "k \<in> run_of (ent (sectors (fs_disk s)) i)"
  shows "5 \<le> k" "k < unat (sector_count dev)" "bit_test (fs_sector_used s) k"
    "j < 32 \<Longrightarrow> j \<noteq> i \<Longrightarrow> k \<notin> run_of (ent (sectors (fs_disk s)) j)"
proof -
  have "entry_ok (unat (sector_count dev)) (ent (sectors (fs_disk s)) i)" using fs_invD(8) [OF assms(1)] assms(2) by blast
  then show *: "5 \<le> k" "k < unat (sector_count dev)"
    using assms(3) by (auto simp: run_of_def entry_ok_def split: if_splits)
  show "bit_test (fs_sector_used s) k" using fs_invD(10) [OF assms(1)] * assms(2,3) by (auto simp: map_ok_def)
  show "k \<notin> run_of (ent (sectors (fs_disk s)) j)" if "j < 32" "j \<noteq> i"
  proof -
    have "run_of (ent (sectors (fs_disk s)) i) \<inter> run_of (ent (sectors (fs_disk s)) j) = {}"
      using assms(1,2) that unfolding fs_inv_def dir_ok_def Let_def by (metis (no_types))
    then show ?thesis using assms(3) by blast
  qed
qed

lemma sector_eqI:
  assumes "dinv d" and "dinv d'" and "k < unat (sector_count dev)"
    and "\<And>j. j < 512 \<Longrightarrow> byte_at (sectors d') (512 * k + j) = byte_at (sectors d) (512 * k + j)"
  shows "sectors d' k = sectors d k"
  using assms sector_length [OF assms(1,3)] sector_length [OF assms(2,3)]
  by (intro nth_equalityI) (auto simp: byte_at_sector)

text \<open>Making room for a file, whether its run already is long enough or a new one is taken.\<close>

lemma capacity_cases:
  assumes inv: "fs_inv dev sectors dinv s" and i: "i < 32"
  defines "D \<equiv> sectors (fs_disk s)"
  defines "e \<equiv> ent D i"
  assumes used: "de_used e \<noteq> 0" and r: "unat r = (new_size + 511) div 512" "unat (de_size e) \<le> new_size" "0 < new_size"
  obtains (full) "simplefs_ensure_capacity e r s = (VFS_ENOSPC, e, s)" "de_alloc e < r"
      "\<forall>j. 5 \<le> j \<and> j + unat r \<le> unat (sector_count dev) \<longrightarrow> \<not> run_free j (unat r) s"
  | (room) ns s1 where "simplefs_ensure_capacity e r s = (VFS_SUCCESS, e\<lparr>de_start := ns, de_alloc := r\<rparr>, s1)"
      "fs_dev s1 = Some dev" "dinv (fs_disk s1)" "fs_mounted s1" "\<not> superblock_bad (sector_count dev) (fs_sb s1)"
      "sectors (fs_disk s1) 0 = blit (replicate 512 0) 0 (sb_bytes (fs_sb s1))"
      "5 \<le> unat ns" "unat ns + unat r \<le> unat (sector_count dev)"
      "\<forall>k. 0 < k \<and> k \<notin> {unat ns ..< unat ns + unat r} \<longrightarrow> sectors (fs_disk s1) k = D k"
      "\<forall>j < 512 * unat r. byte_at (sectors (fs_disk s1)) (512 * unat ns + j) =
         (if j < unat (de_size e) then byte_at D (512 * unat (de_start e) + j) else 0)"
      "\<forall>k. bit_test (fs_sector_used s1) k \<longleftrightarrow> k \<in> {unat ns ..< unat ns + unat r} \<or> bit_test (fs_sector_used s) k"
      "\<forall>j < 32. j \<noteq> i \<longrightarrow> {unat ns ..< unat ns + unat r} \<inter> run_of (ent D j) = {}"
      "ns = de_start e \<and> r = de_alloc e \<or> {unat ns ..< unat ns + unat r} \<inter> run_of e = {}"
proof -
  note I = fs_invD [OF inv]
  have eok: "entry_ok (unat (sector_count dev)) e" and tz: "tail_zero D e" using I(8,9) i by (auto simp: e_def D_def)
  from inv i used [unfolded e_def D_def] show ?thesis
  proof (cases rule: ensure_capacity_ok [where r = r])
    case fits
    then have le: "unat r \<le> unat (de_alloc e)" by (simp add: word_le_nat_alt e_def D_def)
    moreover have "unat (de_alloc e) \<le> unat r"
      using eok used r(1,2) by (auto simp: entry_ok_def intro: div_le_mono)
    ultimately have ra: "r = de_alloc e" by (simp add: word_unat_eq_iff)
    have r0: "0 < unat r" using r(1,3) by (simp add: div_greater_zero_iff)
    then have pos: "5 \<le> unat (de_start e)" "unat (de_start e) + unat r \<le> unat (sector_count dev)"
      using eok used ra by (auto simp: entry_ok_def)
    have run: "{unat (de_start e) ..< unat (de_start e) + unat r} = run_of e" using used ra by (simp add: run_of_def)
    show ?thesis
    proof (rule room [of "de_start e" s])
      show "simplefs_ensure_capacity e r s = (VFS_SUCCESS, e\<lparr>de_start := de_start e, de_alloc := r\<rparr>, s)"
        using fits ra by (simp add: e_def D_def)
      show "\<forall>j < 512 * unat r. byte_at (sectors (fs_disk s)) (512 * unat (de_start e) + j) =
         (if j < unat (de_size e) then byte_at D (512 * unat (de_start e) + j) else 0)"
        using tz used ra by (auto simp: tail_zero_def D_def)
      show "\<forall>k. bit_test (fs_sector_used s) k \<longleftrightarrow>
          k \<in> {unat (de_start e) ..< unat (de_start e) + unat r} \<or> bit_test (fs_sector_used s) k"
        unfolding run using fs_inv_runs(3) [OF inv i] by (auto simp: e_def D_def)
      show "\<forall>j < 32. j \<noteq> i \<longrightarrow> {unat (de_start e) ..< unat (de_start e) + unat r} \<inter> run_of (ent D j) = {}"
        unfolding run using fs_inv_runs(4) [OF inv i] by (auto simp: e_def D_def)
    qed (use I pos ra in \<open>auto simp: D_def\<close>)
  next
    case a: full
    have "\<not> r \<le> de_alloc e" using a by (auto simp: simplefs_ensure_capacity_def e_def D_def vfs_errors)
    then show ?thesis using full a by (simp add: e_def D_def)
  next
    case (moved ns U sb d')
    have free: "\<not> bit_test (fs_sector_used s) k" if "k \<in> {unat ns ..< unat ns + unat r}" for k
      using moved(5) that by (auto simp: run_free_def simplefs_sector_is_used_def)
    show ?thesis
    proof (rule room [of ns "s\<lparr>fs_sector_used := U, fs_sb := sb, fs_disk := d'\<rparr>"])
      show "\<forall>j < 32. j \<noteq> i \<longrightarrow> {unat ns ..< unat ns + unat r} \<inter> run_of (ent D j) = {}"
        unfolding D_def using free fs_inv_runs(3) [OF inv] by blast
      show "ns = de_start e \<and> r = de_alloc e \<or> {unat ns ..< unat ns + unat r} \<inter> run_of e = {}"
        unfolding e_def D_def using free fs_inv_runs(3) [OF inv i] by blast
    qed (use I moved in \<open>auto simp: e_def D_def\<close>)
  qed
qed

lemma slot_facts:
  assumes "slot_of E n = Some i"
  shows "i < 32" "de_used (E i) \<noteq> 0" "de_name (E i) = pad_name n"
  using assms by (auto simp: slot_of_def first_index_Some_iff)

lemma slot_unique:
  assumes "fs_inv dev sectors dinv s" and "slot_of (ent (sectors (fs_disk s))) n = Some i"
  shows "\<forall>j < 32. de_used (ent (sectors (fs_disk s)) j) \<noteq> 0 \<longrightarrow>
    (de_name (ent (sectors (fs_disk s)) j) = pad_name n \<longleftrightarrow> j = i)"
proof (intro allI impI)
  fix j assume j: "j < 32" "de_used (ent (sectors (fs_disk s)) j) \<noteq> 0"
  note i = slot_facts [OF assms(2)]
  have "de_name (ent (sectors (fs_disk s)) j) \<noteq> de_name (ent (sectors (fs_disk s)) i)" if "j \<noteq> i"
    using assms(1) i(1,2) j that unfolding fs_inv_def dir_ok_def Let_def by (metis (no_types))
  then show "de_name (ent (sectors (fs_disk s)) j) = pad_name n \<longleftrightarrow> j = i" using i(3) by auto
qed

lemma fs_read_ok:
  assumes inv: "fs_inv dev sectors dinv s" and path: "is_cstring p (0x2F # n)" and n: "valid_name n"
  shows "simplefs_read (Some p) offset True count s =
    (case files sectors s n of None \<Rightarrow> (VFS_ENOENT, [])
     | Some c \<Rightarrow> (int (length (take (unat count) (drop (unat offset) c))), take (unat count) (drop (unat offset) c)))"
proof -
  let ?D = "sectors (fs_disk s)" and ?N = "unat (sector_count dev)"
  note I = fs_invD [OF inv]
  have np: "simplefs_normalize_path (Some p) = (VFS_SUCCESS, n)" using normalize_path_ok [OF path n] .
  note fe = find_entry_ok [OF I(1,2,5,8) n]
  show ?thesis
  proof (cases "slot_of (ent ?D) n")
    case None
    then show ?thesis using np fe I(3) n by (simp add: simplefs_read_def files_def vfs_errors)
  next
    case (Some i)
    let ?e = "ent ?D i"
    note i = slot_facts [OF Some]
    have eok: "entry_ok ?N ?e" using I(8) i(1) by blast
    have rd: "simplefs_read (Some p) offset True count s =
        (if offset \<ge> de_size ?e \<or> count = 0 then (0, [])
         else read_loop (de_start ?e) offset (simplefs_min_u32 count (de_size ?e - offset)) 0 [] s)"
      using np fe Some I(3) by (simp add: simplefs_read_def vfs_errors)
    have fl: "files sectors s n = Some (content ?D ?e)" using Some n by (simp add: files_def)
    show ?thesis
    proof (cases "offset \<ge> de_size ?e \<or> count = 0")
      case True
      then have "take (unat count) (drop (unat offset) (content ?D ?e)) = []"
        by (auto simp: word_le_nat_alt)
      then show ?thesis using True rd fl by (simp only: if_True option.case list.size) simp
    next
      case False
      let ?c = "simplefs_min_u32 count (de_size ?e - offset)"
      have off: "unat offset < unat (de_size ?e)" using False by (simp add: word_le_nat_alt)
      then have "unat (de_size ?e - offset) = unat (de_size ?e) - unat offset" by (intro unat_sub_no_wrap) simp
      then have c: "unat ?c = min (unat count) (unat (de_size ?e) - unat offset)"
        by (auto simp: simplefs_min_u32_def word_less_nat_alt)
      then have le: "unat offset + unat ?c \<le> unat (de_size ?e)" using off by simp
      have "de_alloc ?e \<noteq> 0" using eok i(2) off by (auto simp: entry_ok_def)
      then have "unat (de_start ?e) + unat (de_alloc ?e) \<le> ?N" using eok i(2) by (auto simp: entry_ok_def)
      then have room: "512 * unat (de_start ?e) + unat offset + unat ?c \<le> 512 * ?N"
        using le entry_ok_size [OF eok i(2)] by simp
      have small: "unat offset + unat ?c < 2 ^ 32" using le u32_unat_lt [of "de_size ?e"] by (simp del: u32_unat_lt)
      have "take (unat count) (drop (unat offset) (content ?D ?e)) =
          map (\<lambda>j. byte_at ?D (512 * unat (de_start ?e) + unat offset + j)) [0..<unat ?c]"
        using c off by (auto simp: content_def add.assoc intro!: nth_equalityI)
      then show ?thesis
        using False rd fl read_loop_ok [OF I(1,2) small room, of 0 "[]"] by simp
    qed
  qed
qed

lemma fs_write_ok:
  assumes inv: "fs_inv dev sectors dinv s" and path: "is_cstring p (0x2F # n)" and n: "valid_name n"
    and c: "files sectors s n = Some c" and cnt: "0 < unat count" and small: "unat offset + unat count + 511 < 2 ^ 32"
    and res: "simplefs_write (Some p) offset (Some src) count s = (r, s')"
  shows "r = VFS_ENOSPC \<and> s' = s \<and> (length c + 511) div 512 < (unat offset + unat count + 511) div 512 \<and> (\<forall>j. 5 \<le> j \<and>
        j + (unat offset + unat count + 511) div 512 \<le> unat (sector_count dev) \<longrightarrow>
        \<not> run_free j ((unat offset + unat count + 511) div 512) s)
    \<or> r = int (unat count) \<and> fs_inv dev sectors dinv s' \<and>
      files sectors s' = (files sectors s)(n \<mapsto> patch c (unat offset) src (unat count))"
proof -
  let ?D = "sectors (fs_disk s)" and ?N = "unat (sector_count dev)"
  note I = fs_invD [OF inv]
  obtain i where slot: "slot_of (ent ?D) n = Some i" and c': "c = content ?D (ent ?D i)"
    using c n by (auto simp: files_def)
  let ?e = "ent ?D i"
  note i = slot_facts [OF slot]
  have eok: "entry_ok ?N ?e" using I(8) i(1) by blast
  have sum: "unat (offset + count) = unat offset + unat count" using small by (subst unat_add_no_wrap) auto
  define nsz where "nsz = (if offset + count < de_size ?e then de_size ?e else offset + count)"
  have nsz: "unat nsz = max (unat (de_size ?e)) (unat offset + unat count)"
    using sum by (auto simp: nsz_def word_less_nat_alt)
  have "512 * unat (de_alloc ?e) \<le> 512 * 4096"
    using eok i(2) dev_size(3) by (cases "de_alloc ?e = 0") (auto simp: entry_ok_def)
  then have "unat (de_size ?e) + 511 < 2 ^ 32" using entry_ok_size [OF eok i(2)] by simp
  then have big: "unat nsz + 511 < 2 ^ 32" using nsz small by simp
  define req where "req = simplefs_sectors_for_bytes nsz"
  have r: "unat req = (unat nsz + 511) div 512" "unat (de_size ?e) \<le> unat nsz" "0 < unat nsz"
    using unat_sectors_for_bytes [OF big] nsz cnt by (auto simp: req_def)
  have nowrap: "\<not> offset + count < offset" "count \<noteq> 0" using sum cnt by (auto simp: word_less_nat_alt)
  have wr: "simplefs_write (Some p) offset (Some src) count s =
      (let (status, entry, s1) = simplefs_ensure_capacity ?e req s in
       if status \<noteq> VFS_SUCCESS then (status, s1)
       else
         let (k, s2) = write_loop (de_start entry) offset count src 0 (replicate 512 0) s1 in
         if k < 0 then (k, s2)
         else
           let (status, s3) = simplefs_write_entry i (entry\<lparr>de_size := nsz\<rparr>) s2 in
           if status \<noteq> VFS_SUCCESS then (status, s3)
           else (k, if 0 < de_alloc ?e \<and> de_start entry \<noteq> de_start ?e
                    then simplefs_mark_run_free (de_start ?e) (de_alloc ?e) s3 else s3))"
    using normalize_path_ok [OF path n] find_entry_ok [OF I(1,2,5,8) n] slot I(3) nowrap
    by (simp add: simplefs_write_def nsz_def req_def Let_def cong: if_cong)
  from inv i(1,2) r show ?thesis
  proof (cases rule: capacity_cases)
    case full
    have "unat (de_alloc ?e) < unat req" using full(2) by (simp add: word_less_nat_alt)
    then have new: "unat nsz = unat offset + unat count"
      using r(1) nsz eok i(2) by (auto simp: entry_ok_def max_def split: if_splits)
    have "length c \<le> 512 * unat (de_alloc ?e)" using entry_ok_size [OF eok i(2)] by (simp add: c' content_def)
    then have "(length c + 511) div 512 \<le> unat (de_alloc ?e)" by simp
    also have "\<dots> < (unat offset + unat count + 511) div 512" using full(2) r(1) new by (simp add: word_less_nat_alt)
    finally show ?thesis using full(1,3) res wr r(1) new by (simp add: vfs_errors)
  next
    case (room ns s1)
    let ?run = "{unat ns ..< unat ns + unat req}"
    let ?e2 = "?e\<lparr>de_start := ns, de_alloc := req, de_size := nsz\<rparr>"
    have le: "unat nsz \<le> 512 * unat req" and req0: "0 < unat req"
      using r by (auto simp: div_greater_zero_iff)
    have off: "unat offset + unat count \<le> unat nsz" using nsz by simp
    have range: "512 * unat ns + unat offset + unat count \<le> 512 * ?N" using off le room(8) by simp
    have sm: "unat offset + unat count < 2 ^ 32" using small by simp
    have "length (replicate 512 (0 :: u8)) = 512" by simp
    from write_loop_ok [OF room(2,3) sm range _ this, of 0 src] obtain d2 where
      d2: "write_loop ns offset count src 0 (replicate 512 0) s1 = (int (unat count), s1\<lparr>fs_disk := d2\<rparr>)" "dinv d2"
        "\<And>a. byte_at (sectors d2) a = (if 512 * unat ns + unat offset \<le> a \<and> a < 512 * unat ns + unat offset + unat count
            then src (a - (512 * unat ns + unat offset)) else byte_at (sectors (fs_disk s1)) a)"
      by auto
    have keep2: "sectors d2 k = sectors (fs_disk s1) k" if k: "k < ?N" "k \<notin> ?run" for k
    proof (rule sector_eqI [OF room(3) d2(2) k(1)])
      fix j assume j: "j < (512 :: nat)"
      have "\<not> (512 * unat ns + unat offset \<le> 512 * k + j \<and> 512 * k + j < 512 * unat ns + unat offset + unat count)"
      proof (cases "k < unat ns")
        case False
        then have "512 * (unat ns + unat req) \<le> 512 * k" using k(2) by auto
        then show ?thesis using off le by simp
      qed (use j in simp)
      then show "byte_at (sectors d2) (512 * k + j) = byte_at (sectors (fs_disk s1)) (512 * k + j)" by (auto simp: d2(3))
    qed
    have low: "sectors d2 k = sectors (fs_disk s1) k" if "k < 5" for k
      using keep2 [of k] that room(7) dev_size(2) by simp
    have same_ent: "ent (sectors d2) j = ent ?D j" if "j < 32" for j
      using that by (intro ent_cong) (use low room(7,9) in auto)
    have wf: "entry_wf ?e2" using eok by (simp add: entry_ok_def entry_wf_def)
    let ?s2 = "s1\<lparr>fs_disk := d2\<rparr>"
    have s2: "fs_dev ?s2 = Some dev" "dinv (fs_disk ?s2)" "sb_dir_start (fs_sb ?s2) = SIMPLEFS_DIR_START"
      using room(2) d2(2) superblock_good_fields [OF room(5)] by simp_all
    obtain d3 where d3: "simplefs_write_entry i ?e2 ?s2 = (VFS_SUCCESS, s1\<lparr>fs_disk := d3\<rparr>)" "dinv d3"
        "\<forall>j < 32. ent (sectors d3) j = (if j = i then ?e2 else ent ?D j)" "sectors d3 0 = sectors d2 0"
        "\<forall>k \<ge> 5. sectors d3 k = sectors d2 k"
      by (rule write_entry_ok [OF s2 i(1) wf]) (use same_ent in auto)
    have run2: "run_of ?e2 = ?run" using i(2) by (simp add: run_of_def)
    have b3: "byte_at (sectors d3) (512 * unat ns + j) = (if unat offset \<le> j \<and> j < unat offset + unat count
        then src (j - unat offset) else if j < unat (de_size ?e) then byte_at ?D (512 * unat (de_start ?e) + j) else 0)"
      if "j < 512 * unat req" for j
    proof -
      have "byte_at (sectors d3) (512 * unat ns + j) = byte_at (sectors d2) (512 * unat ns + j)"
        using d3(5) room(7) by (simp add: byte_at_def)
      also have "\<dots> = (if unat offset \<le> j \<and> j < unat offset + unat count then src (j - unat offset)
          else byte_at (sectors (fs_disk s1)) (512 * unat ns + j))"
        by (simp add: d2(3))
      finally show ?thesis using room(10) that by simp
    qed
    have eok2: "entry_ok ?N ?e2" using eok i(2) r(1) room(7,8) by (simp add: entry_ok_def entry_wf_def)
    have tz2: "tail_zero (sectors d3) ?e2"
      unfolding tail_zero_def using b3 off r(2) by auto
    have content: "content (sectors d3) ?e2 = patch c (unat offset) src (unat count)"
      unfolding patch_def c' using b3 le nsz by (auto simp: content_def cstr_at_def)
    define s4 where "s4 = (if 0 < de_alloc ?e \<and> ns \<noteq> de_start ?e
        then simplefs_mark_run_free (de_start ?e) (de_alloc ?e) (s1\<lparr>fs_disk := d3\<rparr>) else s1\<lparr>fs_disk := d3\<rparr>)"
    have fin: "r = int (unat count)" "s' = s4"
      using res wr room(1) d2(1) d3(1) by (simp_all add: s4_def)
    obtain U where U: "s4 = s1\<lparr>fs_disk := d3, fs_sector_used := U\<rparr>"
      "\<forall>k < ?N. bit_test U k \<longleftrightarrow> k < 5 \<or> k \<in> ?run \<or> (\<exists>j < 32. j \<noteq> i \<and> k \<in> run_of (ent ?D j))"
    proof -
      have old: "bit_test (fs_sector_used s) k \<longleftrightarrow> k < 5 \<or> k \<in> run_of ?e \<or> (\<exists>j < 32. j \<noteq> i \<and> k \<in> run_of (ent ?D j))"
        if "k < ?N" for k
        using I(10) that i(1) unfolding map_ok_def by blast
      have bit1: "bit_test (fs_sector_used s1) k \<longleftrightarrow> k \<in> ?run \<or> bit_test (fs_sector_used s) k" for k
        using room(11) by blast
      show ?thesis
      proof (cases "0 < de_alloc ?e \<and> ns \<noteq> de_start ?e")
        case False
        have inside: "k \<in> run_of ?e \<Longrightarrow> k \<in> ?run" for k
          using False room(13) i(2) req0 by (auto simp: run_of_def word_neq_0_conv [symmetric])
        have "bit_test (fs_sector_used s1) k \<longleftrightarrow> k < 5 \<or> k \<in> ?run \<or> (\<exists>j < 32. j \<noteq> i \<and> k \<in> run_of (ent ?D j))"
          if "k < ?N" for k
          using bit1 [of k] old [OF that] inside [of k] by blast
        moreover have "s4 = s1\<lparr>fs_disk := d3, fs_sector_used := fs_sector_used s1\<rparr>"
          using False by (auto simp: s4_def)
        ultimately show ?thesis using that [of "fs_sector_used s1"] by blast
      next
        case True
        then have disj: "?run \<inter> run_of ?e = {}" using room(13) by auto
        have "5 \<le> unat (de_start ?e)" "unat (de_start ?e) + unat (de_alloc ?e) \<le> ?N"
          using True eok i(2) by (auto simp: entry_ok_def)
        then obtain U where U: "simplefs_mark_run_free (de_start ?e) (de_alloc ?e) (s1\<lparr>fs_disk := d3\<rparr>) =
            (s1\<lparr>fs_disk := d3\<rparr>)\<lparr>fs_sector_used := U\<rparr>"
          "\<forall>k. bit_test U k \<longleftrightarrow> \<not> (unat (de_start ?e) \<le> k \<and> k < unat (de_start ?e) + unat (de_alloc ?e)) \<and>
             bit_test (fs_sector_used s1) k"
          using mark_run_free_ok [of "de_alloc ?e" "de_start ?e" "s1\<lparr>fs_disk := d3\<rparr>"]
            superblock_good_fields(2) [OF room(5)] by auto
        have runE: "unat (de_start ?e) \<le> k \<and> k < unat (de_start ?e) + unat (de_alloc ?e) \<longleftrightarrow> k \<in> run_of ?e" for k
          using i(2) by (simp add: run_of_def)
        have "bit_test U k \<longleftrightarrow> k < 5 \<or> k \<in> ?run \<or> (\<exists>j < 32. j \<noteq> i \<and> k \<in> run_of (ent ?D j))" if "k < ?N" for k
          using U(2) bit1 [of k] old [OF that] disj fs_inv_runs(1,4) [OF inv i(1), of k]
          unfolding runE by (auto simp: not_le)
        then show ?thesis using that [of U] True U(1) by (simp add: s4_def)
      qed
    qed
    have s4: "fs_dev s4 = Some dev" "dinv (fs_disk s4)" "fs_mounted s4" "\<not> superblock_bad (sector_count dev) (fs_sb s4)"
      "sectors (fs_disk s4) 0 = blit (replicate 512 0) 0 (sb_bytes (fs_sb s4))"
      using room(2-6) d3(2,4) low [of 0] U(1) by simp_all
    have keep: "\<forall>j < 32. j \<noteq> i \<longrightarrow> (\<forall>k \<in> run_of (ent ?D j). sectors (fs_disk s4) k = ?D k)"
    proof (intro allI impI ballI)
      fix j k assume jk: "j < 32" "j \<noteq> i" "k \<in> run_of (ent ?D j)"
      note k = fs_inv_runs(1,2) [OF inv jk(1,3)]
      have "k \<notin> ?run" using room(12) jk by blast
      then show "sectors (fs_disk s4) k = ?D k" using k d3(5) keep2 [of k] room(9) U(1) by simp
    qed
    have "fs_inv dev sectors dinv s4" "files sectors s4 = (files sectors s)(n \<mapsto> content (sectors (fs_disk s4)) ?e2)"
      by (rule fs_inv_entry [OF inv i(1) s4, where e = ?e2 and n = n];
          use d3(3) U eok2 i n tz2 slot_unique [OF inv slot] room(12) keep run2 in auto)+
    then show ?thesis using fin content U(1) by simp
  qed
qed

lemma set_entry_empty:
  assumes inv: "fs_inv dev sectors dinv s" and i: "i < 32" and n: "valid_name n"
    and e: "entry_wf e" "de_used e \<noteq> 0" "de_name e = pad_name n" "de_size e = 0" "de_alloc e = 0"
    and name: "\<forall>j < 32. de_used (ent (sectors (fs_disk s)) j) \<noteq> 0 \<longrightarrow>
      (de_name (ent (sectors (fs_disk s)) j) = pad_name n \<longleftrightarrow> j = i)"
    and bits: "\<forall>k < unat (sector_count dev). bit_test U k \<longleftrightarrow> k < 5 \<or>
      (\<exists>j < 32. j \<noteq> i \<and> k \<in> run_of (ent (sectors (fs_disk s)) j))"
  obtains s' where "simplefs_write_entry i e (s\<lparr>fs_sector_used := U\<rparr>) = (VFS_SUCCESS, s')"
    and "fs_inv dev sectors dinv s'" and "files sectors s' = (files sectors s)(n \<mapsto> [])"
proof -
  note I = fs_invD [OF inv]
  let ?s = "s\<lparr>fs_sector_used := U\<rparr>"
  have "fs_dev ?s = Some dev" "dinv (fs_disk ?s)" "sb_dir_start (fs_sb ?s) = SIMPLEFS_DIR_START"
    using I by simp_all
  from write_entry_ok [OF this i e(1), unfolded fs_disk_used] obtain d' where
    d': "simplefs_write_entry i e ?s = (VFS_SUCCESS, ?s\<lparr>fs_disk := d'\<rparr>)" "dinv d'"
      "\<forall>j < 32. ent (sectors d') j = (if j = i then e else ent (sectors (fs_disk s)) j)"
      "sectors d' 0 = sectors (fs_disk s) 0" "\<forall>k \<ge> 5. sectors d' k = sectors (fs_disk s) k"
    by metis
  let ?t = "?s\<lparr>fs_disk := d'\<rparr>"
  have ok: "entry_ok (unat (sector_count dev)) e" using e n by (auto simp: entry_ok_def)
  have run: "run_of e = {}" using e by (simp add: run_of_def)
  have tz: "tail_zero (sectors d') e" using e by (simp add: tail_zero_def)
  have keep: "\<forall>j < 32. j \<noteq> i \<longrightarrow> (\<forall>k \<in> run_of (ent (sectors (fs_disk s)) j). sectors d' k = sectors (fs_disk s) k)"
    using d'(5) fs_inv_runs(1) [OF inv] by blast
  have "fs_inv dev sectors dinv ?t" "files sectors ?t = (files sectors s)(n \<mapsto> content (sectors (fs_disk ?t)) e)"
    by (rule fs_inv_entry [OF inv i, where e = e and n = n]; use I d' ok e n tz name keep bits run in simp)+
  then show ?thesis using that [OF d'(1)] e(4) by (simp add: content_def)
qed

lemma fs_open_ok:
  assumes inv: "fs_inv dev sectors dinv s" and path: "is_cstring p (0x2F # n)" and n: "valid_name n"
    and res: "simplefs_open (Some p) flags s = (st, info, s')"
  shows "case files sectors s n of
      None \<Rightarrow>
        if flags AND VFS_O_CREAT = 0 then st = VFS_ENOENT \<and> s' = s
        else if \<forall>i < 32. de_used (ent (sectors (fs_disk s)) i) \<noteq> 0 then st = VFS_ENOSPC \<and> s' = s
        else st = VFS_SUCCESS \<and> fs_inv dev sectors dinv s' \<and> files sectors s' = (files sectors s)(n \<mapsto> [])
    | Some c \<Rightarrow>
        st = VFS_SUCCESS \<and> fs_inv dev sectors dinv s' \<and>
        (if flags AND VFS_O_TRUNC = 0 then s' = s else files sectors s' = (files sectors s)(n \<mapsto> []))"
proof -
  let ?D = "sectors (fs_disk s)"
  note I = fs_invD [OF inv]
  note norm = normalize_path_ok [OF path n] and fe = find_entry_ok [OF I(1,2,5,8) n]
  show ?thesis
  proof (cases "slot_of (ent ?D) n")
    case None
    then have fl: "files sectors s n = None" by (simp add: files_def)
    have fresh: "\<forall>j < 32. de_used (ent ?D j) \<noteq> 0 \<longrightarrow> de_name (ent ?D j) \<noteq> pad_name n"
      using None by (auto simp: slot_of_def first_index_None_iff)
    show ?thesis
    proof (cases "flags AND VFS_O_CREAT = 0 \<or> (\<forall>i < 32. de_used (ent ?D i) \<noteq> 0)")
      case True
      then show ?thesis
        using res norm fe None fl I(3) find_free_ok [OF I(1,2,5)]
        by (auto simp: simplefs_open_def vfs_errors first_index_iffs split: if_splits option.splits)
    next
      case False
      then obtain i where i: "first_index (\<lambda>i. de_used (ent ?D i) = 0) 0 32 = Some i"
        by (cases "first_index (\<lambda>i. de_used (ent ?D i) = 0) 0 32") (auto simp: first_index_None_iff)
      then have i': "i < 32" "de_used (ent ?D i) = 0" by (auto simp: first_index_Some_iff)
      let ?e = "zero_entry\<lparr>de_used := 1, de_name := simplefs_copy_name (de_name zero_entry) n\<rparr>"
      have nm: "simplefs_copy_name (de_name zero_entry) n = pad_name n"
        using n by (simp add: zero_entry_def copy_name_zero valid_name_def)
      have e: "entry_wf ?e" "de_used ?e \<noteq> 0" "de_name ?e = pad_name n" "de_size ?e = 0" "de_alloc ?e = 0"
        using n nm by (auto simp: entry_wf_def zero_entry_def length_pad_name valid_name_def)
      have "run_of (ent ?D i) = {}" using i'(2) by (simp add: run_of_def)
      then have bits: "\<forall>k < unat (sector_count dev). bit_test (fs_sector_used s) k \<longleftrightarrow> k < 5 \<or>
          (\<exists>j < 32. j \<noteq> i \<and> k \<in> run_of (ent ?D j))"
        using I(10) unfolding map_ok_def by (metis empty_iff)
      have name: "\<forall>j < 32. de_used (ent ?D j) \<noteq> 0 \<longrightarrow> (de_name (ent ?D j) = pad_name n \<longleftrightarrow> j = i)"
        using fresh i' by auto
      obtain t where t: "simplefs_write_entry i ?e s = (VFS_SUCCESS, t)" "fs_inv dev sectors dinv t"
          "files sectors t = (files sectors s)(n \<mapsto> [])"
        using set_entry_empty [OF inv i'(1) n e name bits] by auto
      then show ?thesis
        using res norm fe None fl I(3) find_free_ok [OF I(1,2,5)] i False
        by (auto simp: simplefs_open_def vfs_errors Let_def)
    qed
  next
    case (Some i)
    let ?e = "ent ?D i"
    note i = slot_facts [OF Some]
    have fl: "files sectors s n = Some (content ?D ?e)" using Some n by (simp add: files_def)
    show ?thesis
    proof (cases "flags AND VFS_O_TRUNC = 0")
      case True
      then show ?thesis using res norm fe Some fl I(3) inv by (simp add: simplefs_open_def vfs_errors)
    next
      case False
      have eok: "entry_ok (unat (sector_count dev)) ?e" using I(8) i(1) by blast
      obtain U where U: "simplefs_mark_run_free (de_start ?e) (de_alloc ?e) s = s\<lparr>fs_sector_used := U\<rparr>"
        "\<forall>k. bit_test U k \<longleftrightarrow> \<not> (unat (de_start ?e) \<le> k \<and> k < unat (de_start ?e) + unat (de_alloc ?e)) \<and>
           bit_test (fs_sector_used s) k"
        by (rule mark_run_free_ok [of "de_alloc ?e" "de_start ?e" s])
          (use eok i(2) I(6) in \<open>auto simp: entry_ok_def\<close>)
      have runE: "unat (de_start ?e) \<le> k \<and> k < unat (de_start ?e) + unat (de_alloc ?e) \<longleftrightarrow> k \<in> run_of ?e" for k
        using i(2) by (simp add: run_of_def)
      have bits: "bit_test U k \<longleftrightarrow> k < 5 \<or> (\<exists>j < 32. j \<noteq> i \<and> k \<in> run_of (ent ?D j))"
        if "k < unat (sector_count dev)" for k
      proof -
        have "bit_test (fs_sector_used s) k \<longleftrightarrow> k < 5 \<or> (\<exists>j < 32. k \<in> run_of (ent ?D j))"
          using I(10) that by (simp add: map_ok_def)
        then show ?thesis
          using U(2) fs_inv_runs(1,4) [OF inv i(1), of k] unfolding runE by (auto simp: not_le)
      qed
      let ?e2 = "?e\<lparr>de_start := 0, de_size := 0, de_alloc := 0\<rparr>"
      have e2: "entry_wf ?e2" "de_used ?e2 \<noteq> 0" "de_name ?e2 = pad_name n" "de_size ?e2 = 0" "de_alloc ?e2 = 0"
        using eok i by (auto simp: entry_ok_def entry_wf_def)
      obtain t where t: "simplefs_write_entry i ?e2 (s\<lparr>fs_sector_used := U\<rparr>) = (VFS_SUCCESS, t)"
          "fs_inv dev sectors dinv t" "files sectors t = (files sectors s)(n \<mapsto> [])"
        using set_entry_empty [OF inv i(1) n e2 slot_unique [OF inv Some], of U] bits by blast
      then show ?thesis
        using res norm fe Some fl I(3) False U(1) by (simp add: simplefs_open_def vfs_errors Let_def)
    qed
  qed
qed

lemma rebuild_entries_ok:
  assumes "fs_dev s = Some dev" and "dinv (fs_disk s)" and "\<not> superblock_bad (sector_count dev) (fs_sb s)"
    and dir: "dir_ok (unat (sector_count dev)) (ent (sectors (fs_disk s)))"
    and "\<forall>k < unat (sector_count dev). bit_test (fs_sector_used s) k \<longleftrightarrow>
      k < 5 \<or> (\<exists>j < m. k \<in> run_of (ent (sectors (fs_disk s)) j))"
    and "5 \<le> unat hw" and "unat hw \<le> unat (sector_count dev)" and "m \<le> 32"
  shows "\<exists>U hw'. rebuild_entries [m..<32] hw s = (VFS_SUCCESS, hw', s\<lparr>fs_sector_used := U\<rparr>) \<and>
    map_ok (unat (sector_count dev)) U (ent (sectors (fs_disk s))) \<and>
    5 \<le> unat hw' \<and> unat hw' \<le> unat (sector_count dev)"
  using assms
proof (induction "32 - m" arbitrary: m hw s)
  case 0
  then show ?case by (intro exI [of _ "fs_sector_used s"] exI [of _ hw]) (simp add: map_ok_def)
next
  case (Suc n)
  let ?D = "sectors (fs_disk s)" and ?N = "unat (sector_count dev)"
  let ?e = "ent ?D m"
  have m: "m < 32" and up: "[m..<32] = m # [Suc m..<32]" and n: "n = 32 - Suc m"
    using Suc.hyps(2) by (auto simp: upt_conv_Cons)
  note sb = superblock_good_fields [OF Suc.prems(3)]
  have rd: "simplefs_read_entry m s = (VFS_SUCCESS, ?e)" using read_entry_ok [OF Suc.prems(1,2) sb(1) m] .
  have eok: "entry_ok ?N ?e" using Suc.prems(4) m by (simp add: dir_ok_def)
  show ?case
  proof (cases "de_used ?e = 0 \<or> de_alloc ?e = 0")
    case True
    then have "run_of ?e = {}" by (auto simp: run_of_def)
    then have "\<forall>k < ?N. bit_test (fs_sector_used s) k \<longleftrightarrow> k < 5 \<or> (\<exists>j < Suc m. k \<in> run_of (ent ?D j))"
      using Suc.prems(5) by (metis empty_iff less_Suc_eq)
    from Suc.hyps(1) [OF n Suc.prems(1-4) this Suc.prems(6,7)] m True rd show ?thesis by (simp add: up)
  next
    case False
    then have st: "5 \<le> unat (de_start ?e)" "unat (de_start ?e) + unat (de_alloc ?e) \<le> ?N"
      and run: "run_of ?e = {unat (de_start ?e) ..< unat (de_start ?e) + unat (de_alloc ?e)}"
      using eok by (auto simp: entry_ok_def run_of_def)
    have inside: "\<not> run_outside (de_start ?e) (de_alloc ?e) s"
      using run_inside [of "de_start ?e" "de_alloc ?e" s] st sb(2) False by (simp add: unat_gt_0)
    have "run_free (unat (de_start ?e)) (unat (de_alloc ?e)) s"
      unfolding run_free_def simplefs_sector_is_used_def
    proof (intro allI impI)
      fix k assume k: "unat (de_start ?e) \<le> k \<and> k < unat (de_start ?e) + unat (de_alloc ?e)"
      have "k \<notin> run_of (ent ?D j)" if "j < m" for j
      proof -
        have "run_of (ent ?D j) \<inter> run_of ?e = {}"
          using dir_ok_runs [OF Suc.prems(4), of j m] that m by simp
        moreover have "k \<in> run_of ?e" using k by (simp add: run)
        ultimately show ?thesis by blast
      qed
      moreover have "k < ?N" "\<not> k < 5" using k st by auto
      ultimately show "\<not> bit_test (fs_sector_used s) k" using Suc.prems(5) by blast
    qed
    then obtain U where U: "simplefs_mark_run_used (de_start ?e) (de_alloc ?e) s = (VFS_SUCCESS, s\<lparr>fs_sector_used := U\<rparr>)"
      "\<forall>k. bit_test U k \<longleftrightarrow> (unat (de_start ?e) \<le> k \<and> k < unat (de_start ?e) + unat (de_alloc ?e)) \<or> bit_test (fs_sector_used s) k"
      using mark_run_used_ok [of "de_start ?e" "de_alloc ?e" s] st sb(2) by metis
    let ?s = "s\<lparr>fs_sector_used := U\<rparr>"
    let ?hw = "if hw < de_start ?e + de_alloc ?e then de_start ?e + de_alloc ?e else hw"
    have "unat (de_start ?e + de_alloc ?e) = unat (de_start ?e) + unat (de_alloc ?e)"
      using st dev_size(3) by (subst unat_add_no_wrap) auto
    then have hw: "5 \<le> unat ?hw" "unat ?hw \<le> ?N" using st Suc.prems(6,7) by auto
    have "bit_test U k \<longleftrightarrow> k < 5 \<or> (\<exists>j < Suc m. k \<in> run_of (ent ?D j))" if "k < ?N" for k
    proof -
      have "(\<exists>j < Suc m. k \<in> run_of (ent ?D j)) \<longleftrightarrow> k \<in> run_of ?e \<or> (\<exists>j < m. k \<in> run_of (ent ?D j))"
        using less_Suc_eq by blast
      moreover have "bit_test U k \<longleftrightarrow> k \<in> run_of ?e \<or> bit_test (fs_sector_used s) k" using U(2) run by simp
      ultimately show ?thesis using Suc.prems(5) that by blast
    qed
    then have bits: "\<forall>k < ?N. bit_test (fs_sector_used ?s) k \<longleftrightarrow>
        k < 5 \<or> (\<exists>j < Suc m. k \<in> run_of (ent (sectors (fs_disk ?s)) j))" by simp
    have "\<exists>U hw'. rebuild_entries [Suc m..<32] ?hw ?s = (VFS_SUCCESS, hw', ?s\<lparr>fs_sector_used := U\<rparr>) \<and>
        map_ok ?N U (ent (sectors (fs_disk ?s))) \<and> 5 \<le> unat hw' \<and> unat hw' \<le> ?N"
      by (rule Suc.hyps(1) [OF n _ _ _ _ bits hw]) (use Suc.prems(1-4) m in simp_all)
    then show ?thesis using False rd U(1) inside by (auto simp: up)
  qed
qed

lemma rebuild_ok:
  assumes "fs_dev s = Some dev" and "dinv (fs_disk s)" and "\<not> superblock_bad (sector_count dev) (fs_sb s)"
    and "dir_ok (unat (sector_count dev)) (ent (sectors (fs_disk s)))"
    and tz: "\<forall>i < 32. tail_zero (sectors (fs_disk s)) (ent (sectors (fs_disk s)) i)"
  obtains s' where "simplefs_rebuild_allocation_map s = (VFS_SUCCESS, s')"
    and "fs_inv dev sectors dinv (s'\<lparr>fs_mounted := True\<rparr>)"
    and "files sectors (s'\<lparr>fs_mounted := True\<rparr>) = files sectors s"
proof -
  let ?D = "sectors (fs_disk s)" and ?N = "unat (sector_count dev)"
  define s0 where "s0 = for_loop 0 (unat SIMPLEFS_DATA_START) simplefs_sector_set (simplefs_bitmap_clear_all s)"
  have five: "unat SIMPLEFS_DATA_START = 5" by (simp add: simplefs_consts)
  obtain U0 where U0: "s0 = s\<lparr>fs_sector_used := U0\<rparr>" "\<forall>k. bit_test U0 k \<longleftrightarrow> k < 5"
  proof -
    have "\<exists>U. for_loop 0 b simplefs_sector_set (simplefs_bitmap_clear_all s) = s\<lparr>fs_sector_used := U\<rparr> \<and>
        (\<forall>k. bit_test U k \<longleftrightarrow> k < b)" for b
    proof (induction b)
      case 0
      then show ?case
        by (intro exI [of _ "\<lambda>_. 0"]) (simp add: for_loop_done simplefs_bitmap_clear_all_def bit_test_zero)
    next
      case (Suc b)
      then obtain U where U: "for_loop 0 b simplefs_sector_set (simplefs_bitmap_clear_all s) = s\<lparr>fs_sector_used := U\<rparr>"
        "\<forall>k. bit_test U k \<longleftrightarrow> k < b" by blast
      have "for_loop 0 (Suc b) simplefs_sector_set (simplefs_bitmap_clear_all s) = s\<lparr>fs_sector_used := bit_set U b\<rparr>"
        using U(1) by (simp add: for_loop_last simplefs_sector_set_def)
      moreover have "bit_test (bit_set U b) k \<longleftrightarrow> k < Suc b" for k
        using U(2) bit_test_set [of U b k] by (auto simp: less_Suc_eq)
      ultimately show ?case by blast
    qed
    from this [of 5] show ?thesis using that five by (auto simp: s0_def)
  qed
  have s0: "fs_dev s0 = Some dev" "dinv (fs_disk s0)" "\<not> superblock_bad (sector_count dev) (fs_sb s0)"
    "dir_ok ?N (ent (sectors (fs_disk s0)))"
    "\<forall>k < ?N. bit_test (fs_sector_used s0) k \<longleftrightarrow> k < 5 \<or> (\<exists>j < 0. k \<in> run_of (ent (sectors (fs_disk s0)) j))"
    using assms U0 by auto
  have "5 \<le> unat SIMPLEFS_DATA_START" "unat SIMPLEFS_DATA_START \<le> ?N" using dev_size(2) five by auto
  from rebuild_entries_ok [OF s0 this] obtain U hw where
    rb: "rebuild_entries [0..<32] SIMPLEFS_DATA_START s0 = (VFS_SUCCESS, hw, s0\<lparr>fs_sector_used := U\<rparr>)"
      "map_ok ?N U (ent (sectors (fs_disk s0)))" "5 \<le> unat hw" "unat hw \<le> ?N" by auto
  let ?s1 = "s0\<lparr>fs_sector_used := U, fs_sb := (fs_sb s)\<lparr>sb_next_free := hw\<rparr>\<rparr>"
  have s1: "fs_dev ?s1 = Some dev" "dinv (fs_disk ?s1)" using s0 by simp_all
  from write_superblock_ok [OF s1] obtain d' where
    d': "simplefs_write_superblock ?s1 = (VFS_SUCCESS, ?s1\<lparr>fs_disk := d'\<rparr>)" "dinv d'"
      "sectors d' = ?D(0 := blit (replicate 512 0) 0 (sb_bytes (fs_sb ?s1)))"
    using U0(1) by auto
  have "simplefs_rebuild_allocation_map s =
      (let (status, high_water, t) = rebuild_entries [0..<32] SIMPLEFS_DATA_START s0 in
       if status \<noteq> VFS_SUCCESS then (status, t)
       else simplefs_write_superblock (t\<lparr>fs_sb := (fs_sb t)\<lparr>sb_next_free := high_water\<rparr>\<rparr>))"
    unfolding simplefs_rebuild_allocation_map_def Let_def s0_def by (simp add: SIMPLEFS_MAX_FILES_def)
  also have "\<dots> = simplefs_write_superblock ?s1" using rb(1) U0(1) by simp
  finally have res: "simplefs_rebuild_allocation_map s = (VFS_SUCCESS, ?s1\<lparr>fs_disk := d'\<rparr>)" using d'(1) by simp
  let ?t = "?s1\<lparr>fs_disk := d', fs_mounted := True\<rparr>"
  have ent': "ent (sectors d') j = ent ?D j" if "j < 32" for j
    using that by (intro ent_cong) (simp_all add: d'(3))
  have eok: "\<forall>j < 32. entry_ok ?N (ent ?D j)" using assms(4) by (simp add: dir_ok_def)
  have runs: "sectors d' k = ?D k" if "j < 32" "k \<in> run_of (ent ?D j)" for j k
    using that eok by (auto simp: d'(3) run_of_def entry_ok_def split: if_splits)
  have cong: "content (sectors d') (ent ?D j) = content ?D (ent ?D j)" "tail_zero (sectors d') (ent ?D j)"
    if "j < 32" "de_used (ent ?D j) \<noteq> 0" for j
    using content_cong [of ?N "ent ?D j" "sectors d'" ?D] runs tz eok that by blast+
  have "map_ok ?N U (ent ?D)" using rb(2) U0(1) by simp
  moreover have "\<forall>i < 32. tail_zero (sectors d') (ent ?D i)"
    using cong(2) by (metis tail_zero_def)
  moreover have "dir_ok ?N (ent (sectors d')) = dir_ok ?N (ent ?D)" "map_ok ?N U (ent (sectors d')) = map_ok ?N U (ent ?D)"
    using ent' by (auto simp: dir_ok_def map_ok_def)
  ultimately have inv: "fs_inv dev sectors dinv ?t"
    using assms d' U0(1) ent' superblock_next_free [OF assms(3) rb(3,4)] by (simp add: fs_inv_def Let_def)
  have "files sectors ?t m = files sectors s m" for m
  proof -
    have "slot_of (ent (sectors d')) m = slot_of (ent ?D) m"
      unfolding slot_of_def first_index_def by (rule find_cong [OF refl]) (simp add: ent')
    moreover have "content (sectors d') (ent (sectors d') j) = content ?D (ent ?D j)" if "slot_of (ent ?D) m = Some j" for j
      using slot_facts [OF that] cong(1) ent' by simp
    ultimately show ?thesis by (auto simp: files_def split: option.splits intro!: option.map_cong)
  qed
  then show ?thesis using that [OF res] inv by auto
qed

lemma validate_dev_ok: "simplefs_validate_dev (Some dev) = VFS_SUCCESS"
  using dev_size by (simp add: simplefs_validate_dev_def dev_ops simplefs_consts word_le_nat_alt word_less_nat_alt)

lemma empty_dir_entry:
  assumes "D (1 + i div 8) = replicate 512 0"
  shows "de_used (ent D i) = 0" "entry_wf (ent D i)"
proof -
  have "length (drop (i mod 8 * 64) (replicate 512 (0 :: u8))) \<ge> 64" by simp
  then show "entry_wf (ent D i)" using assms by (simp add: ent_def entry_wf_of_bytes)
  have "of_le32 (replicate n 0) = 0" if "4 \<le> n" for n
    using that by (simp add: of_le32_def)
  then show "de_used (ent D i) = 0"
    using assms by (simp add: ent_def entry_of_bytes_def drop_replicate take_replicate)
qed

lemma fs_format_ok:
  assumes "dinv (fs_disk s)"
  obtains s' where "simplefs_format (Some dev) s = (VFS_SUCCESS, s')" and "fs_inv dev sectors dinv s'"
    and "files sectors s' = Map.empty"
proof -
  let ?N = "unat (sector_count dev)"
  define s1 where "s1 = s\<lparr>fs_dev := Some dev, fs_sb := fresh_superblock (sector_count dev)\<rparr>"
  have s1: "fs_dev s1 = Some dev" "dinv (fs_disk s1)" using assms by (simp_all add: s1_def)
  have zero: "unat (0 :: u32) < ?N" using dev_size(2) by simp
  obtain d1 where d1: "dev_write 0 (blit (replicate 512 0) 0 (sb_bytes (fs_sb s1))) s1 = (BLKDEV_SUCCESS, s1\<lparr>fs_disk := d1\<rparr>)"
      "dinv d1" "sectors d1 = (sectors (fs_disk s1))(0 := blit (replicate 512 0) 0 (sb_bytes (fs_sb s1)))"
    using dev_write_ok [OF s1 zero, of "blit (replicate 512 0) 0 (sb_bytes (fs_sb s1))"] by auto
  let ?s2 = "s1\<lparr>fs_disk := d1\<rparr>"
  have s2: "fs_dev ?s2 = Some dev" "dinv (fs_disk ?s2)" using s1 d1 by simp_all
  have "unat SIMPLEFS_DIR_START = 1" by (simp add: simplefs_consts)
  then have "\<forall>i \<in> set [0..<4]. unat SIMPLEFS_DIR_START + i < ?N" using dev_size(2) by auto
  from zero_loop_ok [OF s2 this, unfolded fs_disk_upd] obtain d2 where
    d2: "zero_run_loop SIMPLEFS_DIR_START [0..<4] ?s2 = (VFS_SUCCESS, s1\<lparr>fs_disk := d2\<rparr>)" "dinv d2"
      "sectors d2 = (\<lambda>k. if \<exists>i \<in> set [0..<4]. k = unat SIMPLEFS_DIR_START + i then replicate 512 0 else sectors d1 k)"
    by auto
  let ?s3 = "s1\<lparr>fs_disk := d2\<rparr>"
  have empty: "de_used (ent (sectors d2) i) = 0" "entry_wf (ent (sectors d2) i)" if "i < 32" for i
  proof -
    have "i div 8 < 4" using that by auto
    then have "sectors d2 (1 + i div 8) = replicate 512 0"
      using \<open>unat SIMPLEFS_DIR_START = 1\<close> by (auto simp: d2(3))
    then show "de_used (ent (sectors d2) i) = 0" "entry_wf (ent (sectors d2) i)"
      using empty_dir_entry by blast+
  qed
  have "\<not> superblock_bad (sector_count dev) (fs_sb ?s3)"
    using dev_size(2) by (simp add: s1_def superblock_bad_def fresh_superblock_def word_less_nat_alt simplefs_consts)
  moreover have "dir_ok ?N (ent (sectors (fs_disk ?s3)))"
    using empty by (auto simp: dir_ok_def entry_ok_def run_of_def)
  moreover have "\<forall>i < 32. tail_zero (sectors (fs_disk ?s3)) (ent (sectors (fs_disk ?s3)) i)"
    using empty by (auto simp: tail_zero_def)
  moreover have "fs_dev ?s3 = Some dev" "dinv (fs_disk ?s3)" using s1 d2(2) by simp_all
  ultimately obtain s4 where s4: "simplefs_rebuild_allocation_map ?s3 = (VFS_SUCCESS, s4)"
      "fs_inv dev sectors dinv (s4\<lparr>fs_mounted := True\<rparr>)" "files sectors (s4\<lparr>fs_mounted := True\<rparr>) = files sectors ?s3"
    using rebuild_ok by blast
  have "files sectors ?s3 = Map.empty"
    using empty by (auto simp: files_def slot_of_def first_index_None_iff fun_eq_iff)
  moreover have "simplefs_format (Some dev) s = (VFS_SUCCESS, s4\<lparr>fs_mounted := True\<rparr>)"
    using d1(1) d2(1) s4(1)
    by (simp add: simplefs_format_def validate_dev_ok Let_def s1_def [symmetric] SIMPLEFS_DIR_SECTORS_def)
  ultimately show ?thesis using that s4(2,3) by simp
qed

lemma fs_mount_ok:
  assumes inv: "fs_inv dev sectors dinv s" and disk: "fs_disk t = fs_disk s"
  obtains t' where "simplefs_mount (Some dev) t = (VFS_SUCCESS, t')" and "fs_inv dev sectors dinv t'"
    and "files sectors t' = files sectors s"
proof -
  note I = fs_invD [OF inv]
  define t1 where "t1 = t\<lparr>fs_dev := Some dev\<rparr>"
  have t1: "fs_dev t1 = Some dev" "dinv (fs_disk t1)" using I(2) disk by (simp_all add: t1_def)
  have zero: "unat (0 :: u32) < unat (sector_count dev)" using dev_size(2) by simp
  have rd: "dev_read 0 t1 = (BLKDEV_SUCCESS, blit (replicate 512 0) 0 (sb_bytes (fs_sb s)))"
    using dev_read_ok [OF t1 zero] I(7) disk by (simp add: t1_def)
  have sb: "sb_of_bytes (take 36 (blit (replicate 512 0) 0 (sb_bytes (fs_sb s)))) = fs_sb s"
    using sb_round_trip [of "fs_sb s" "[]"] by (simp add: blit_def)
  let ?t2 = "t\<lparr>fs_sb := fs_sb s, fs_dev := Some dev\<rparr>"
  have "fs_dev ?t2 = Some dev" "dinv (fs_disk ?t2)" "\<not> superblock_bad (sector_count dev) (fs_sb ?t2)"
    "dir_ok (unat (sector_count dev)) (ent (sectors (fs_disk ?t2)))"
    "\<forall>i < 32. tail_zero (sectors (fs_disk ?t2)) (ent (sectors (fs_disk ?t2)) i)"
    using I inv disk by (simp_all add: fs_inv_def Let_def)
  from rebuild_ok [OF this] obtain t3 where t3: "simplefs_rebuild_allocation_map ?t2 = (VFS_SUCCESS, t3)"
      "fs_inv dev sectors dinv (t3\<lparr>fs_mounted := True\<rparr>)" "files sectors (t3\<lparr>fs_mounted := True\<rparr>) = files sectors ?t2"
    by blast
  have "files sectors ?t2 = files sectors s" using disk by (simp add: files_def fun_eq_iff)
  moreover have "simplefs_mount (Some dev) t = (VFS_SUCCESS, t3\<lparr>fs_mounted := True\<rparr>)"
    using rd sb t3(1) I(4) by (simp add: simplefs_mount_def validate_dev_ok t1_def [symmetric])
  ultimately show ?thesis using that t3(2,3) by simp
qed

end

section \<open>SimpleFS on the ramdisk\<close>

text \<open>The instance the kernel runs: its invariant, its files, and its operations as steps.\<close>

abbreviation ramfs_inv :: "ramdisk_data fs \<Rightarrow> bool" where
  "ramfs_inv \<equiv> fs_inv ramdisk_dev ramdisk_sector (\<lambda>_. True)"

abbreviation ramfiles :: "ramdisk_data fs \<Rightarrow> u8 list \<rightharpoonup> u8 list" where
  "ramfiles \<equiv> files ramdisk_sector"

lemma bad_path_open:
  assumes "simplefs_normalize_path path = (st, n)" and "st \<noteq> VFS_SUCCESS"
  shows "snd (snd (simplefs_open path flags s)) = s" and "snd (simplefs_write path offset buffer count s) = s"
  using assms by (auto simp: simplefs_open_def simplefs_write_def)

lemma ramfs_open_inv:
  assumes "ramfs_inv s" and "simplefs_open path flags s = (st, info, s')"
  shows "ramfs_inv s'"
proof (cases "simplefs_normalize_path path")
  case (Pair st1 n)
  show ?thesis
  proof (cases "st1 = VFS_SUCCESS")
    case True
    then obtain p where p: "path = Some p" "is_cstring p (0x2F # n)" "valid_name n"
      using normalize_path_cases [OF Pair] by (auto simp: vfs_errors)
    show ?thesis
      using rdisk.fs_open_ok [OF assms(1) p(2,3), of flags st info s'] assms p(1)
      by (auto split: option.splits if_splits)
  next
    case False
    then show ?thesis using bad_path_open(1) [OF Pair False, of flags s] assms by simp
  qed
qed

lemma ramfs_write_missing:
  assumes "ramfs_inv s" and "is_cstring p (0x2F # n)" and "valid_name n" and "ramfiles s n = None"
  shows "snd (simplefs_write (Some p) offset buffer count s) = s"
    and "buffer \<noteq> None \<Longrightarrow> count \<noteq> 0 \<Longrightarrow> \<not> offset + count < offset \<Longrightarrow>
      fst (simplefs_write (Some p) offset buffer count s) = VFS_ENOENT"
proof -
  note I = rdisk.fs_invD [OF assms(1)]
  have "slot_of (ent (ramdisk_sector (fs_disk s))) n = None" using assms(3,4) by (simp add: files_def)
  then have w: "simplefs_write (Some p) offset buffer count s =
      (if buffer = None \<and> 0 < count then (VFS_EINVAL, s) else if count = 0 then (0, s)
       else if offset + count < offset then (VFS_EINVAL, s) else (VFS_ENOENT, s))"
    using rdisk.find_entry_ok [OF I(1,2,5,8) assms(3)] normalize_path_ok [OF assms(2,3)] I(3)
    by (simp add: simplefs_write_def vfs_errors)
  show "snd (simplefs_write (Some p) offset buffer count s) = s" unfolding w by simp
  show "fst (simplefs_write (Some p) offset buffer count s) = VFS_ENOENT"
    if "buffer \<noteq> None" "count \<noteq> 0" "\<not> offset + count < offset"
    unfolding w using that by (cases buffer) simp_all
qed

lemma write_no_bytes: "fs_mounted s \<Longrightarrow> simplefs_write path offset (Some src) 0 s = (0, s)"
  by (simp add: simplefs_write_def)

lemma write_past_range:
  assumes "fs_mounted s" and "2 ^ 32 \<le> unat offset + unat count" and "count \<noteq> 0"
  shows "simplefs_write path offset (Some src) count s = (VFS_EINVAL, s)"
proof -
  have "unat (offset + count) = unat offset + unat count - 2 ^ 32"
    using assms(2) by (simp add: unat_plus_if')
  moreover have "unat count < 2 ^ 32" by simp
  ultimately have "offset + count < offset" unfolding word_less_nat_alt using assms(2) by linarith
  then show ?thesis using assms(1,3) by (simp add: simplefs_write_def)
qed

text \<open>
  What a write does with the sizes that the 32 bit arithmetic of \<^verbatim>\<open>simplefs_sectors_for_bytes\<close> gets wrong left out:
  ends from \<open>2 ^ 32 - 511\<close> to \<open>2 ^ 32 - 1\<close>, which it rounds up to no sector at all.
\<close>

lemma ramfs_write_inv:
  assumes "ramfs_inv s" and "simplefs_write path offset buffer count s = (r, s')"
    and "unat offset + unat count + 511 < 2 ^ 32"
  shows "ramfs_inv s'"
proof (cases "simplefs_normalize_path path")
  case (Pair st1 n)
  show ?thesis
  proof (cases "st1 = VFS_SUCCESS \<and> buffer \<noteq> None \<and> count \<noteq> 0")
    case True
    then obtain p src where p: "path = Some p" "is_cstring p (0x2F # n)" "valid_name n" "buffer = Some src"
      using normalize_path_cases [OF Pair] by (auto simp: vfs_errors)
    show ?thesis
    proof (cases "ramfiles s n")
      case None
      then show ?thesis using ramfs_write_missing [OF assms(1) p(2,3) None] assms p(1) by (metis snd_conv)
    next
      case (Some c)
      then show ?thesis
        using rdisk.fs_write_ok [OF assms(1) p(2,3) Some _ assms(3), of src r s'] assms(1,2) p True
        by (auto simp: unat_gt_0)
    qed
  next
    case False
    then have "s' = s"
      using bad_path_open(2) [OF Pair, of offset buffer count s] assms(2)
      by (auto simp: simplefs_write_def word_neq_0_conv [symmetric] split: if_splits)
    then show ?thesis using assms(1) by simp
  qed
qed

definition ramfs_blank :: "ramdisk_data fs" where
  "ramfs_blank = \<lparr>fs_dev = None, fs_disk = (\<lambda>_. 0), fs_sb = fresh_superblock 0, fs_mounted = False,
     fs_sector_used = (\<lambda>_. 0)\<rparr>"

definition ramfs_demo :: "ramdisk_data fs" where
  "ramfs_demo = snd (snd (simplefs_open (Some (cstr_at [0x2F, 0x61])) VFS_O_CREAT
     (snd (simplefs_format (Some ramdisk_dev) ramfs_blank))))"

lemma demo_name: "is_cstring (cstr_at [0x2F, 0x61]) (0x2F # [0x61])" "valid_name [0x61]"
  by (rule is_cstring_cstr_at) (simp_all add: valid_name_def)

lemma ramfs_demo_ok: "ramfs_inv ramfs_demo" "ramfiles ramfs_demo = [[0x61] \<mapsto> []]"
proof -
  obtain s1 where s1: "simplefs_format (Some ramdisk_dev) ramfs_blank = (VFS_SUCCESS, s1)" "ramfs_inv s1" "ramfiles s1 = Map.empty"
    using rdisk.fs_format_ok [of ramfs_blank] by blast
  obtain st info s2 where s2: "simplefs_open (Some (cstr_at [0x2F, 0x61])) VFS_O_CREAT s1 = (st, info, s2)"
    using prod_cases3 by blast
  have "\<exists>i < 32. de_used (ent (ramdisk_sector (fs_disk s1)) i) = 0"
  proof (rule ccontr)
    assume "\<not> ?thesis"
    then have used: "de_used (ent (ramdisk_sector (fs_disk s1)) 0) \<noteq> 0" by auto
    have "entry_ok (unat (sector_count ramdisk_dev)) (ent (ramdisk_sector (fs_disk s1)) 0)"
      using rdisk.fs_invD(8) [OF s1(2)] by auto
    then obtain n where "valid_name n" "de_name (ent (ramdisk_sector (fs_disk s1)) 0) = pad_name n"
      using used by (auto simp: entry_ok_def)
    then have "slot_of (ent (ramdisk_sector (fs_disk s1))) n = Some 0"
      using used by (simp add: slot_of_def first_index_Some_iff)
    then have "ramfiles s1 n \<noteq> None" using \<open>valid_name n\<close> by (simp add: files_def)
    then show False using s1(3) by simp
  qed
  then have "ramfs_inv s2 \<and> ramfiles s2 = [[0x61] \<mapsto> []]"
    using rdisk.fs_open_ok [OF s1(2) demo_name s2] s1(3) by (auto simp: VFS_O_CREAT_def split: if_splits)
  then show "ramfs_inv ramfs_demo" "ramfiles ramfs_demo = [[0x61] \<mapsto> []]"
    using s1(1) s2 by (simp_all add: ramfs_demo_def)
qed

lemma ramfs_demo_room: "\<exists>j. 5 \<le> j \<and> j + 1 \<le> 4096 \<and> run_free j 1 ramfs_demo"
proof -
  note I = rdisk.fs_invD [OF ramfs_demo_ok(1)]
  let ?E = "ent (ramdisk_sector (fs_disk ramfs_demo))"
  have "run_of (?E i) = {}" if i: "i < 32" for i
  proof (cases "de_used (?E i) = 0")
    case False
    have ok: "entry_ok (unat (sector_count ramdisk_dev)) (?E i)" using I(8) i by blast
    then obtain n where n: "valid_name n" "de_name (?E i) = pad_name n" using False by (auto simp: entry_ok_def)
    then have "slot_of ?E n = Some i"
      using False i rdisk.slot_unique [OF ramfs_demo_ok(1)]
      by (cases "slot_of ?E n") (auto simp: slot_of_def first_index_None_iff)
    then have "ramfiles ramfs_demo n = Some (content (ramdisk_sector (fs_disk ramfs_demo)) (?E i))"
      using n(1) by (simp add: files_def)
    then have "length (content (ramdisk_sector (fs_disk ramfs_demo)) (?E i)) = 0"
      using ramfs_demo_ok(2) by (auto simp del: length_content split: if_splits)
    then show ?thesis using ok False by (simp add: entry_ok_def run_of_def)
  qed (simp add: run_of_def)
  then have "\<not> bit_test (fs_sector_used ramfs_demo) 5"
    using I(10) by (simp add: map_ok_def ramdisk_dev_def ramdisk_consts)
  then show ?thesis
    by (intro exI [of _ 5]) (auto simp: run_free_def simplefs_sector_is_used_def le_Suc_eq less_Suc_eq dest: le_antisym)
qed

section \<open>Properties\<close>

text \<open>C8: A write of no byte does nothing and returns 0; one whose end does not fit 32 bits is refused as invalid, one to a
  name that is not in the directory as missing, and both change nothing. Any other write either stores all its bytes at the offset, extending the
  file and filling a gap behind its old end with zeros, and leaves every other file as it was;
  or it changes nothing and reports that the disk is full, which only happens when the end lies in a sector behind the last one of the file and no run of
  sectors long enough for the new length is free. Ends from 2^32 - 511 to 2^32 - 1 are excluded: there the
  number of sectors wraps to 0 and the code overwrites other sectors; no system call reaches them (theory Kernel_Files).\<close>

theorem simplefs_write_spec:
  assumes "ramfs_inv s" and "is_cstring p (0x2F # n)" and "valid_name n"
    and "\<not> (2 ^ 32 - 511 \<le> unat offset + unat count \<and> unat offset + unat count < 2 ^ 32)"
    and "simplefs_write (Some p) offset (Some src) count s = (r, s')"
  shows "if count = 0 then r = 0 \<and> s' = s
    else if 2 ^ 32 \<le> unat offset + unat count then r = VFS_EINVAL \<and> s' = s
    else case ramfiles s n of None \<Rightarrow> r = VFS_ENOENT \<and> s' = s
    | Some c \<Rightarrow>
      r = VFS_ENOSPC \<and> s' = s \<and> (length c + 511) div 512 < (unat offset + unat count + 511) div 512 \<and> (\<forall>j. 5 \<le> j \<and> j + (unat offset + unat count + 511) div 512 \<le> 4096 \<longrightarrow>
        \<not> run_free j ((unat offset + unat count + 511) div 512) s)
      \<or> r = int (unat count) \<and> ramfs_inv s' \<and>
        ramfiles s' = (ramfiles s)(n \<mapsto> patch c (unat offset) src (unat count))"
proof -
  have N: "unat (sector_count ramdisk_dev) = 4096" by (simp add: ramdisk_dev_def ramdisk_consts)
  note mounted = rdisk.fs_invD(3) [OF assms(1)]
  consider "count = 0" | "count \<noteq> 0" "2 ^ 32 \<le> unat offset + unat count"
    | "count \<noteq> 0" "unat offset + unat count + 511 < 2 ^ 32"
    using assms(4) by (cases "count = 0") linarith+
  then show ?thesis
  proof cases
    case 1
    then show ?thesis using write_no_bytes [OF mounted] assms(5) by simp
  next
    case 2
    then show ?thesis using write_past_range [OF mounted 2(2,1)] assms(5) by simp
  next
    case 3
    then have range: "\<not> 2 ^ 32 \<le> unat offset + unat count" "0 < unat count" by (simp_all add: unat_gt_0)
    then have "unat (offset + count) = unat offset + unat count" by (subst unat_add_no_wrap) auto
    then have nowrap: "\<not> offset + count < offset" by (simp add: word_less_nat_alt)
    show ?thesis
    proof (cases "ramfiles s n")
      case None
      then show ?thesis
        using ramfs_write_missing [OF assms(1-3) None, where buffer = "Some src" and offset = offset and count = count] nowrap 3(1) range(1) assms(5) by simp
    next
      case (Some c)
      then show ?thesis
        using rdisk.fs_write_ok [OF assms(1-3) Some range(2) 3(2) assms(5)] 3(1) range(1) unfolding N
        by (simp only: if_False option.case)
    qed
  qed
qed

theorem simplefs_write_spec_witness:
  "(\<exists>s'. simplefs_write (Some (cstr_at [0x2F, 0x61])) 2 (Some (cstr_at [7, 8])) 2 ramfs_demo = (2, s') \<and>
     ramfiles s' [0x61] = Some [0, 0, 7, 8]) \<and>
   (\<exists>s'. simplefs_write (Some (cstr_at [0x2F, 0x61])) 0xFFFFFFFF (Some (cstr_at [7])) 1 ramfs_demo = (VFS_EINVAL, s'))"
proof -
  obtain r s' where w: "simplefs_write (Some (cstr_at [0x2F, 0x61])) 2 (Some (cstr_at [7, 8])) 2 ramfs_demo = (r, s')"
    by force
  obtain r2 s2 where w2: "simplefs_write (Some (cstr_at [0x2F, 0x61])) 0xFFFFFFFF (Some (cstr_at [7])) 1 ramfs_demo = (r2, s2)"
    by force
  have "patch [] 2 (cstr_at [7, 8]) 2 = [0, 0, 7, 8]"
    by (simp add: patch_def cstr_at_def upt_rec)
  then show ?thesis
    using simplefs_write_spec [OF ramfs_demo_ok(1) demo_name _ w] w ramfs_demo_room
      simplefs_write_spec [OF ramfs_demo_ok(1) demo_name _ w2] w2 ramfs_demo_ok(2) by auto
qed

text \<open>C27: Reading returns exactly the bytes of the file between the offset and the offset plus
  the count, cut off at the end of the file, and reports their number; a name that is not in the
  directory is reported as missing.\<close>

theorem simplefs_read_spec:
  assumes "ramfs_inv s" and "is_cstring p (0x2F # n)" and "valid_name n"
  shows "simplefs_read (Some p) offset True count s =
    (case ramfiles s n of None \<Rightarrow> (VFS_ENOENT, [])
     | Some c \<Rightarrow> (int (length (take (unat count) (drop (unat offset) c))), take (unat count) (drop (unat offset) c)))"
  using rdisk.fs_read_ok [OF assms] .

theorem simplefs_read_spec_witness:
  "simplefs_read (Some (cstr_at [0x2F, 0x61])) 0 True 10 ramfs_demo = (0, [])"
  using simplefs_read_spec [OF ramfs_demo_ok(1) demo_name] ramfs_demo_ok(2) by simp

text \<open>What a successful write stored is what a read at the same offset returns, and a read
  of any other file returns what it returned before the write.\<close>

lemma simplefs_write_read_round_trip:
  assumes "ramfs_inv s" and "is_cstring p (0x2F # n)" and "valid_name n" and "ramfiles s n = Some c"
    and "0 < unat count" and "unat offset + unat count + 511 < 2 ^ 32"
    and "simplefs_write (Some p) offset (Some src) count s = (r, s')" and "0 \<le> r"
  shows "simplefs_read (Some p) offset True count s' = (r, map src [0..<unat count]) \<and>
    (\<forall>q m off cnt. is_cstring q (0x2F # m) \<and> valid_name m \<and> m \<noteq> n \<longrightarrow>
       simplefs_read (Some q) off True cnt s' = simplefs_read (Some q) off True cnt s)"
proof -
  have w: "r = int (unat count)" "ramfs_inv s'" "ramfiles s' = (ramfiles s)(n \<mapsto> patch c (unat offset) src (unat count))"
    using rdisk.fs_write_ok [OF assms(1-7)] assms(8) by (auto simp: vfs_errors)
  have "take (unat count) (drop (unat offset) (patch c (unat offset) src (unat count))) = map src [0..<unat count]"
    by (rule nth_equalityI) (auto simp: patch_def)
  then have "simplefs_read (Some p) offset True count s' = (r, map src [0..<unat count])"
    using rdisk.fs_read_ok [OF w(2) assms(2,3), of offset count] w(1,3) by (simp del: length_take)
  moreover have "simplefs_read (Some q) off True cnt s' = simplefs_read (Some q) off True cnt s"
    if "is_cstring q (0x2F # m)" "valid_name m" "m \<noteq> n" for q m off cnt
    using rdisk.fs_read_ok [OF w(2) that(1,2)] rdisk.fs_read_ok [OF assms(1) that(1,2)] w(3) that(3) by simp
  ultimately show ?thesis by blast
qed

lemma ramfs_demo_write: "0 \<le> fst (simplefs_write (Some (cstr_at [0x2F, 0x61])) 0 (Some (cstr_at [9])) 1 ramfs_demo)"
proof -
  obtain r s' where w: "simplefs_write (Some (cstr_at [0x2F, 0x61])) 0 (Some (cstr_at [9])) 1 ramfs_demo = (r, s')"
    by force
  show ?thesis
    using rdisk.fs_write_ok [OF ramfs_demo_ok(1) demo_name _ _ _ w, of "[]"] ramfs_demo_ok(2) ramfs_demo_room w
    by (auto simp: ramdisk_dev_def ramdisk_consts)
qed

text \<open>Opening without the create flag never invents a file, with it an absent file appears
  empty unless all 32 directory slots are taken, and the truncate flag empties an existing file;
  no other file is touched.\<close>

lemma simplefs_open_spec:
  assumes "ramfs_inv s" and "is_cstring p (0x2F # n)" and "valid_name n"
    and "simplefs_open (Some p) flags s = (st, info, s')"
  shows "case ramfiles s n of
      None \<Rightarrow>
        if flags AND VFS_O_CREAT = 0 then st = VFS_ENOENT \<and> s' = s
        else if \<forall>i < 32. de_used (ent (ramdisk_sector (fs_disk s)) i) \<noteq> 0 then st = VFS_ENOSPC \<and> s' = s
        else st = VFS_SUCCESS \<and> ramfs_inv s' \<and> ramfiles s' = (ramfiles s)(n \<mapsto> [])
    | Some c \<Rightarrow>
        st = VFS_SUCCESS \<and> ramfs_inv s' \<and>
        (if flags AND VFS_O_TRUNC = 0 then s' = s else ramfiles s' = (ramfiles s)(n \<mapsto> []))"
  using rdisk.fs_open_ok [OF assms] .

text \<open>C10: Formatting always succeeds on the ramdisk and leaves no file; and files survive a
  reboot: mounting a disk that a consistent file system left behind, whatever is in the variables
  of the new kernel, succeeds, is consistent, and shows the same names with the same contents.\<close>

theorem simplefs_persistence:
  assumes "ramfs_inv s" and "fs_disk t = fs_disk s"
  shows "(\<exists>s'. simplefs_format (Some ramdisk_dev) t = (VFS_SUCCESS, s') \<and> ramfs_inv s' \<and> ramfiles s' = Map.empty) \<and>
    (\<exists>t'. simplefs_mount (Some ramdisk_dev) t = (VFS_SUCCESS, t') \<and> ramfs_inv t' \<and> ramfiles t' = ramfiles s)"
  using rdisk.fs_format_ok [of t] rdisk.fs_mount_ok [OF assms] by metis

theorem simplefs_persistence_witness:
  "\<exists>t'. simplefs_mount (Some ramdisk_dev) (ramfs_blank\<lparr>fs_disk := fs_disk ramfs_demo\<rparr>) = (VFS_SUCCESS, t') \<and>
     ramfiles t' = [[0x61] \<mapsto> []]"
  using simplefs_persistence [OF ramfs_demo_ok(1), of "ramfs_blank\<lparr>fs_disk := fs_disk ramfs_demo\<rparr>"] ramfs_demo_ok(2)
  by auto

text \<open>A path is accepted exactly when it is a slash followed by a name of 1 to 31
  characters that contains no further slash and is neither a dot nor two dots; the name is then
  what follows the slash. Every other path is refused as invalid.\<close>

lemma simplefs_normalize_path_spec:
  "simplefs_normalize_path (Some p) = (st, n) \<Longrightarrow>
     (st = VFS_SUCCESS \<longleftrightarrow> (\<exists>m. is_cstring p (0x2F # m) \<and> valid_name m)) \<and>
     (st = VFS_SUCCESS \<longrightarrow> is_cstring p (0x2F # n) \<and> valid_name n) \<and>
     (st \<noteq> VFS_SUCCESS \<longrightarrow> st = VFS_EINVAL)"
  using normalize_path_cases [of "Some p" st n] normalize_path_ok [of p] by (auto simp: vfs_errors)

text \<open>The on-disk encodings lose nothing: reading back a directory entry or a superblock
  from the bytes it was written as, whatever follows them in the sector, gives the same structure;
  an entry takes 64 bytes, so exactly eight fit a sector.\<close>

lemma simplefs_encoding_round_trip:
  assumes "entry_wf e"
  shows "entry_of_bytes (entry_bytes e @ xs) = e \<and> length (entry_bytes e) = 64 \<and>
    sb_of_bytes (sb_bytes sb @ ys) = sb \<and> length (sb_bytes sb) = 36"
  using entry_round_trip [OF assms] length_entry_bytes [OF assms] sb_round_trip by simp

end
