(* ===== verification/VFS.thy ===== *)
theory VFS
  imports SimpleFS_Files Handles
begin

text \<open>
  The virtual file system layer, \<^verbatim>\<open>src/kernel/vfs.c\<close>: a table of 16 open files, each with a
  reference count, the path it was opened with, its flags and its offset, on top of SimpleFS. The
  model is polymorphic in the device state like SimpleFS; the lemmas are about the ramdisk.
\<close>

section \<open>State and operations\<close>

definition VFS_MAX_OPEN_FILES :: nat where "VFS_MAX_OPEN_FILES = 16"
definition VFS_MAX_PATH :: nat where "VFS_MAX_PATH = 64"

record vfs_open_file =
  of_used :: bool
  of_refs :: u32
  of_path :: "u8 list"
  of_flags :: u32
  of_offset :: u32

definition zero_file :: vfs_open_file where
  "zero_file = \<lparr>of_used = False, of_refs = 0, of_path = [], of_flags = 0, of_offset = 0\<rparr>"

record 'd vfs =
  vfs_root_dev :: "'d block_device option"
  vfs_mounted :: bool
  vfs_open_files :: "vfs_open_file list"
  vfs_fs :: "'d fs"

definition vfs_flags_valid :: "u32 \<Rightarrow> bool" where
  "vfs_flags_valid flags \<longleftrightarrow>
     (let access = flags AND VFS_O_RDWR; allowed = VFS_O_RDWR OR VFS_O_CREAT OR VFS_O_TRUNC in
      if flags AND NOT allowed \<noteq> 0 then False
      else if access = 0 then False
      else if flags AND VFS_O_TRUNC \<noteq> 0 \<and> flags AND VFS_O_WRONLY = 0 then False
      else if flags AND VFS_O_CREAT \<noteq> 0 \<and> flags AND VFS_O_WRONLY = 0 then False
      else True)"

function copy_path_loop :: "(nat \<Rightarrow> u8) \<Rightarrow> nat \<Rightarrow> u8 list \<Rightarrow> int \<times> u8 list" where
  "copy_path_loop path i out =
     (if path i = 0 then (VFS_SUCCESS, out)
      else if i \<ge> VFS_MAX_PATH - 1 then (VFS_EINVAL, out)
      else copy_path_loop path (i + 1) (out @ [path i]))"
  by pat_completeness auto
termination
  by (relation "measure (\<lambda>(path, i, out). VFS_MAX_PATH - i)") (auto simp: VFS_MAX_PATH_def)

declare copy_path_loop.simps [simp del]

definition vfs_copy_path :: "(nat \<Rightarrow> u8) option \<Rightarrow> int \<times> u8 list" where
  "vfs_copy_path path = (case path of None \<Rightarrow> (VFS_EINVAL, []) | Some path \<Rightarrow> copy_path_loop path 0 [])"

definition vfs_alloc_fd :: "'d vfs \<Rightarrow> int" where
  "vfs_alloc_fd v =
     (case first_index (\<lambda>i. \<not> of_used (vfs_open_files v ! i)) 0 VFS_MAX_OPEN_FILES of
        Some i \<Rightarrow> int i | None \<Rightarrow> VFS_EMFILE)"

definition vfs_fd_valid :: "int \<Rightarrow> 'd vfs \<Rightarrow> bool" where
  "vfs_fd_valid fd v \<longleftrightarrow> 0 \<le> fd \<and> fd < int VFS_MAX_OPEN_FILES \<and> of_used (vfs_open_files v ! nat fd)"

definition vfs_clear_open_files :: "'d vfs \<Rightarrow> 'd vfs" where
  "vfs_clear_open_files v = v\<lparr>vfs_open_files := replicate VFS_MAX_OPEN_FILES zero_file\<rparr>"

definition vfs_init :: "'d block_device option \<Rightarrow> 'd vfs \<Rightarrow> int \<times> 'd vfs" where
  "vfs_init dev v =
     (if dev = None \<or> sector_size (the dev) \<noteq> SECTOR_SIZE then (VFS_EINVAL, v)
      else (VFS_SUCCESS, vfs_clear_open_files (v\<lparr>vfs_root_dev := dev, vfs_mounted := False\<rparr>)))"

definition vfs_format :: "'d vfs \<Rightarrow> int \<times> 'd vfs" where
  "vfs_format v =
     (if vfs_root_dev v = None then (VFS_EINVAL, v)
      else
        let v = (vfs_clear_open_files v)\<lparr>vfs_mounted := False\<rparr>;
            (status, s) = simplefs_format (vfs_root_dev v) (vfs_fs v)
        in (status, v\<lparr>vfs_fs := s\<rparr>))"

definition vfs_mount :: "'d vfs \<Rightarrow> int \<times> 'd vfs" where
  "vfs_mount v =
     (if vfs_root_dev v = None then (VFS_EINVAL, v)
      else
        let (status, s) = simplefs_mount (vfs_root_dev v) (vfs_fs v); v = v\<lparr>vfs_fs := s\<rparr> in
        if status \<noteq> VFS_SUCCESS then (status, v\<lparr>vfs_mounted := False\<rparr>)
        else (VFS_SUCCESS, v\<lparr>vfs_mounted := True\<rparr>))"

definition vfs_open :: "(nat \<Rightarrow> u8) option \<Rightarrow> u32 \<Rightarrow> 'd vfs \<Rightarrow> int \<times> 'd vfs" where
  "vfs_open path flags v =
     (if \<not> vfs_mounted v then (VFS_EIO, v)
      else if \<not> vfs_flags_valid flags then (VFS_EINVAL, v)
      else
        let (status, path_copy) = vfs_copy_path path in
        if status \<noteq> VFS_SUCCESS then (status, v)
        else
          let fd = vfs_alloc_fd v in
          if fd < 0 then (fd, v)
          else
            let (status, info, s) = simplefs_open (Some (cstr_at path_copy)) flags (vfs_fs v);
                v = v\<lparr>vfs_fs := s\<rparr>
            in if status \<noteq> VFS_SUCCESS then (status, v)
               else (fd, v\<lparr>vfs_open_files := (vfs_open_files v)[nat fd :=
                       \<lparr>of_used = True, of_refs = 1, of_path = path_copy, of_flags = flags, of_offset = 0\<rparr>]\<rparr>))"

definition advance_offset :: "int \<Rightarrow> int \<Rightarrow> 'd vfs \<Rightarrow> 'd vfs" where
  "advance_offset fd status v =
     (if 0 < status
      then let f = vfs_open_files v ! nat fd
           in v\<lparr>vfs_open_files := (vfs_open_files v)[nat fd := f\<lparr>of_offset := of_offset f + of_int status\<rparr>]\<rparr>
      else v)"

definition vfs_read :: "int \<Rightarrow> bool \<Rightarrow> u32 \<Rightarrow> 'd vfs \<Rightarrow> int \<times> u8 list \<times> 'd vfs" where
  "vfs_read fd buffer_ok count v =
     (if \<not> vfs_fd_valid fd v then (VFS_EBADF, [], v)
      else if \<not> buffer_ok \<and> 0 < count then (VFS_EINVAL, [], v)
      else
        let f = vfs_open_files v ! nat fd in
        if of_flags f AND VFS_O_RDONLY = 0 then (VFS_EBADF, [], v)
        else
          let (status, data) =
                simplefs_read (Some (cstr_at (of_path f))) (of_offset f) buffer_ok count (vfs_fs v)
          in (status, data, advance_offset fd status v))"

definition vfs_write :: "int \<Rightarrow> (nat \<Rightarrow> u8) option \<Rightarrow> u32 \<Rightarrow> 'd vfs \<Rightarrow> int \<times> 'd vfs" where
  "vfs_write fd buffer count v =
     (if \<not> vfs_fd_valid fd v then (VFS_EBADF, v)
      else if buffer = None \<and> 0 < count then (VFS_EINVAL, v)
      else
        let f = vfs_open_files v ! nat fd in
        if of_flags f AND VFS_O_WRONLY = 0 then (VFS_EBADF, v)
        else
          let (status, s) =
                simplefs_write (Some (cstr_at (of_path f))) (of_offset f) buffer count (vfs_fs v)
          in (status, advance_offset fd status (v\<lparr>vfs_fs := s\<rparr>)))"

definition vfs_close :: "int \<Rightarrow> 'd vfs \<Rightarrow> int \<times> 'd vfs" where
  "vfs_close fd v =
     (if \<not> vfs_fd_valid fd v then (VFS_EBADF, v)
      else
        let f = vfs_open_files v ! nat fd in
        if 1 < of_refs f
        then (VFS_SUCCESS, v\<lparr>vfs_open_files := (vfs_open_files v)[nat fd := f\<lparr>of_refs := of_refs f - 1\<rparr>]\<rparr>)
        else (VFS_SUCCESS, v\<lparr>vfs_open_files := (vfs_open_files v)[nat fd := zero_file]\<rparr>))"

definition vfs_retain :: "int \<Rightarrow> 'd vfs \<Rightarrow> int \<times> 'd vfs" where
  "vfs_retain fd v =
     (if \<not> vfs_fd_valid fd v \<or> of_refs (vfs_open_files v ! nat fd) = 0xFFFFFFFF then (VFS_EBADF, v)
      else
        let f = vfs_open_files v ! nat fd
        in (VFS_SUCCESS, v\<lparr>vfs_open_files := (vfs_open_files v)[nat fd := f\<lparr>of_refs := of_refs f + 1\<rparr>]\<rparr>))"

definition vfs_close_all :: "'d vfs \<Rightarrow> 'd vfs" where
  "vfs_close_all v = vfs_clear_open_files v"

definition vfs_stat :: "(nat \<Rightarrow> u8) option \<Rightarrow> bool \<Rightarrow> 'd vfs \<Rightarrow> int \<times> file_info option" where
  "vfs_stat path out_ok v =
     (if \<not> vfs_mounted v then (VFS_EIO, None)
      else if \<not> out_ok then (VFS_EINVAL, None)
      else simplefs_stat path True (vfs_fs v))"

section \<open>The table of open files\<close>

definition file_ok :: "vfs_open_file \<Rightarrow> bool" where
  "file_ok f \<longleftrightarrow> (of_used f \<longleftrightarrow> of_refs f \<noteq> 0)"

definition vfs_table_ok :: "'d vfs \<Rightarrow> bool" where
  "vfs_table_ok v \<longleftrightarrow> length (vfs_open_files v) = 16 \<and> (\<forall>f \<in> set (vfs_open_files v). file_ok f)"

definition vfs_refs :: "'d vfs \<Rightarrow> int \<Rightarrow> nat" where
  "vfs_refs v fd = (if vfs_fd_valid fd v then unat (of_refs (vfs_open_files v ! nat fd)) else 0)"

lemma vfs_table_nth: "vfs_table_ok v \<Longrightarrow> i < 16 \<Longrightarrow> file_ok (vfs_open_files v ! i)"
  by (simp add: vfs_table_ok_def)

lemma vfs_table_update:
  "vfs_table_ok v \<Longrightarrow> file_ok f \<Longrightarrow> vfs_table_ok (v\<lparr>vfs_open_files := (vfs_open_files v)[i := f]\<rparr>)"
  by (auto simp: vfs_table_ok_def dest: set_update_subset_insert [THEN subsetD])

lemma vfs_refs_eq:
  assumes "vfs_table_ok v"
  shows "vfs_refs v fd = (if 0 \<le> fd \<and> fd < 16 then unat (of_refs (vfs_open_files v ! nat fd)) else 0)"
proof -
  have "file_ok (vfs_open_files v ! nat fd)" if "0 \<le> fd" "fd < 16"
    using vfs_table_nth [OF assms, of "nat fd"] that by (simp add: nat_less_iff)
  then show ?thesis by (auto simp: vfs_refs_def vfs_fd_valid_def VFS_MAX_OPEN_FILES_def file_ok_def)
qed

lemma vfs_refs_update:
  assumes "vfs_table_ok v" and "vfs_fd_valid fd v" and "file_ok f"
  shows "vfs_refs (v\<lparr>vfs_open_files := (vfs_open_files v)[nat fd := f]\<rparr>) = (vfs_refs v)(fd := unat (of_refs f))"
proof
  fix h
  let ?v = "v\<lparr>vfs_open_files := (vfs_open_files v)[nat fd := f]\<rparr>"
  have fd: "0 \<le> fd" "fd < 16" using assms(2) by (auto simp: vfs_fd_valid_def VFS_MAX_OPEN_FILES_def)
  have "length (vfs_open_files v) = 16" using assms(1) by (simp add: vfs_table_ok_def)
  then show "vfs_refs ?v h = ((vfs_refs v)(fd := unat (of_refs f))) h"
    using vfs_refs_eq [OF vfs_table_update [OF assms(1,3), of "nat fd"], of h] vfs_refs_eq [OF assms(1), of h] fd
    by (auto simp: nth_list_update nat_eq_iff)
qed

interpretation vfs_files: counted_handles vfs_retain vfs_close vfs_refs "vfs_table_ok :: 'd vfs \<Rightarrow> bool"
proof unfold_locales
  fix v v' :: "'d vfs" and fd
  assume ok: "vfs_table_ok v"
  let ?f = "vfs_open_files v ! nat fd"
  have fok: "file_ok ?f" "of_refs ?f \<noteq> 0" if "vfs_fd_valid fd v"
    using that vfs_table_nth [OF ok, of "nat fd"]
    by (auto simp: vfs_fd_valid_def VFS_MAX_OPEN_FILES_def file_ok_def nat_less_iff)
  have refs: "vfs_refs v fd = unat (of_refs ?f)" if "vfs_fd_valid fd v" using that by (simp add: vfs_refs_def)
  {
    assume r: "vfs_retain fd v = (0, v')"
    then have valid: "vfs_fd_valid fd v" "of_refs ?f \<noteq> 0xFFFFFFFF"
      by (auto simp: vfs_retain_def vfs_errors split: if_splits)
    let ?g = "?f\<lparr>of_refs := of_refs ?f + 1\<rparr>"
    have g: "file_ok ?g" using fok [OF valid(1)] valid u32_inc(2) [OF valid(2)] by (simp add: file_ok_def)
    have "v' = v\<lparr>vfs_open_files := (vfs_open_files v)[nat fd := ?g]\<rparr>"
      using r valid by (simp add: vfs_retain_def Let_def)
    then show "vfs_table_ok v' \<and> vfs_refs v' = (vfs_refs v)(fd := Suc (vfs_refs v fd))"
      using vfs_table_update [OF ok g] vfs_refs_update [OF ok valid(1) g] u32_inc(1) [OF valid(2)] refs [OF valid(1)] by simp
  }
  {
    assume c: "vfs_close fd v = (0, v')"
    then have valid: "vfs_fd_valid fd v" by (auto simp: vfs_close_def vfs_errors split: if_splits)
    have z: "file_ok zero_file" by (simp add: file_ok_def zero_file_def)
    let ?g = "?f\<lparr>of_refs := of_refs ?f - 1\<rparr>"
    show "0 < vfs_refs v fd \<and> vfs_table_ok v' \<and> vfs_refs v' = (vfs_refs v)(fd := vfs_refs v fd - 1)"
    proof (cases "1 < of_refs ?f")
      case True
      then have "of_refs ?f - 1 \<noteq> 0" by auto
      then have g: "file_ok ?g" using fok [OF valid] valid by (simp add: file_ok_def)
      have "v' = v\<lparr>vfs_open_files := (vfs_open_files v)[nat fd := ?g]\<rparr>"
        using c valid True by (simp add: vfs_close_def Let_def)
      then show ?thesis
        using vfs_table_update [OF ok g] vfs_refs_update [OF ok valid g] fok(2) [OF valid] refs [OF valid]
        by (simp add: unat_dec unat_gt_0)
    next
      case False
      then have one: "unat (of_refs ?f) = 1" using fok(2) [OF valid] by (simp add: word_less_nat_alt unat_eq_0 [symmetric])
      have "v' = v\<lparr>vfs_open_files := (vfs_open_files v)[nat fd := zero_file]\<rparr>"
        using c valid False by (simp add: vfs_close_def Let_def)
      then show ?thesis
        using vfs_table_update [OF ok z] vfs_refs_update [OF ok valid z] refs [OF valid] one
        by (simp add: zero_file_def)
    qed
  }
  fix r :: int assume "r \<noteq> 0"
  then show "v' = v" if "vfs_retain fd v = (r, v')"
    using that by (auto simp: vfs_retain_def Let_def vfs_errors split: if_splits)
  show "v' = v \<and> vfs_refs v fd = 0" if "vfs_close fd v = (r, v')"
    using that \<open>r \<noteq> 0\<close> by (auto simp: vfs_close_def vfs_refs_def Let_def vfs_errors split: if_splits)
qed

section \<open>Open files as cursors over the files of the disk\<close>

text \<open>What an open descriptor stands for: a name, the position in the file and the access it was
  opened with.\<close>

definition fd_at :: "int \<Rightarrow> u8 list \<Rightarrow> nat \<Rightarrow> u32 \<Rightarrow> 'd vfs \<Rightarrow> bool" where
  "fd_at fd n off fl v \<longleftrightarrow> vfs_fd_valid fd v \<and> valid_name n \<and>
     (let f = vfs_open_files v ! nat fd
      in of_path f = 0x2F # n \<and> unat (of_offset f) = off \<and> of_flags f = fl)"

definition vfs_ok :: "ramdisk_data vfs \<Rightarrow> bool" where
  "vfs_ok v \<longleftrightarrow> vfs_table_ok v \<and> ramfs_inv (vfs_fs v)"

lemma fd_at_path: "fd_at fd n off fl v \<Longrightarrow> is_cstring (cstr_at (of_path (vfs_open_files v ! nat fd))) (0x2F # n)"
  using is_cstring_cstr_at [of "0x2F # n"] by (auto simp: fd_at_def Let_def valid_name_def)

lemma fd_at_range: "fd_at fd n off fl v \<Longrightarrow> 0 \<le> fd \<and> fd < 16"
  by (simp add: fd_at_def vfs_fd_valid_def VFS_MAX_OPEN_FILES_def)

lemma ramfile_length:
  assumes "ramfs_inv s" and "ramfiles s n = Some c"
  shows "length c < 2 ^ 32"
proof -
  obtain e where "c = content (ramdisk_sector (fs_disk s)) e"
    using assms(2) by (auto simp: files_def split: option.splits if_splits)
  then show ?thesis using u32_unat_lt [of "de_size e"] by simp
qed

lemma advance_offset_at:
  assumes "vfs_table_ok v" and "fd_at fd n off fl v" and "int off + status < 2 ^ 32" and "0 \<le> status"
  shows "fd_at fd n (off + nat status) fl (advance_offset fd status v) \<and>
    vfs_table_ok (advance_offset fd status v) \<and> vfs_fs (advance_offset fd status v) = vfs_fs v \<and>
    vfs_refs (advance_offset fd status v) = vfs_refs v \<and>
    (\<forall>g m o2 f2. g \<noteq> fd \<and> fd_at g m o2 f2 v \<longrightarrow> fd_at g m o2 f2 (advance_offset fd status v))"
proof (cases "0 < status")
  case True
  let ?f = "vfs_open_files v ! nat fd"
  let ?f' = "?f\<lparr>of_offset := of_offset ?f + of_int status\<rparr>"
  have fd: "vfs_fd_valid fd v" "0 \<le> fd" "nat fd < 16" "unat (of_offset ?f) = off"
    using assms(2) fd_at_range [OF assms(2)] by (auto simp: fd_at_def Let_def)
  have len: "length (vfs_open_files v) = 16" using assms(1) by (simp add: vfs_table_ok_def)
  have ok: "file_ok ?f'" using vfs_table_nth [OF assms(1) fd(3)] by (simp add: file_ok_def)
  have "unat (of_int status :: u32) = nat status" 
  proof -
    have "(of_int status :: u32) = of_nat (nat status)" using assms(4) by simp
    moreover have "nat status < 2 ^ 32" using assms(3,4) by (simp add: nat_less_iff)
    ultimately show ?thesis by (simp add: unat_of_nat_small)
  qed
  then have "unat (of_offset ?f + of_int status) = off + nat status"
    using assms(3,4) fd(4) by (subst unat_add_lem [THEN iffD1]) auto
  moreover have adv: "advance_offset fd status v = v\<lparr>vfs_open_files := (vfs_open_files v)[nat fd := ?f']\<rparr>"
    using True by (simp add: advance_offset_def Let_def)
  moreover have "vfs_refs (v\<lparr>vfs_open_files := (vfs_open_files v)[nat fd := ?f']\<rparr>) = vfs_refs v"
    using vfs_refs_update [OF assms(1) fd(1) ok] fd(1) by (auto simp: vfs_refs_def)
  ultimately show ?thesis
    using assms(1,2) vfs_table_update [OF assms(1) ok] len fd(2,3)
    by (auto simp: fd_at_def Let_def vfs_fd_valid_def nat_eq_iff)
qed (use assms in \<open>simp add: advance_offset_def\<close>)

lemma vfs_read_at:
  assumes ok: "vfs_ok v" and at: "fd_at fd n off fl v" and fl: "fl AND VFS_O_RDONLY \<noteq> 0"
    and c: "ramfiles (vfs_fs v) n = Some c"
    and rd: "vfs_read fd True count v = (r, d, v')"
  shows "r = int (length d) \<and> d = take (unat count) (drop off c) \<and> vfs_ok v' \<and> vfs_fs v' = vfs_fs v \<and>
    fd_at fd n (off + length d) fl v'"
proof -
  let ?d = "take (unat count) (drop off c)" and ?f = "vfs_open_files v ! nat fd"
  have f: "vfs_fd_valid fd v" "unat (of_offset ?f) = off" "of_flags ?f = fl" "valid_name n"
    using at by (auto simp: fd_at_def Let_def)
  have inv: "ramfs_inv (vfs_fs v)" "vfs_table_ok v" using ok by (auto simp: vfs_ok_def)
  have fsrd: "simplefs_read (Some (cstr_at (of_path ?f))) (of_offset ?f) True count (vfs_fs v) = (int (length ?d), ?d)"
    using rdisk.fs_read_ok [OF inv(1) fd_at_path [OF at] f(4), of "of_offset ?f" count] c f(2) by simp
  have "off < 2 ^ 32" using f(2) u32_unat_lt [of "of_offset ?f"] by simp
  then have "int off + int (length ?d) < 2 ^ 32" using ramfile_length [OF inv(1) c] by auto
  from advance_offset_at [OF inv(2) at this]
  have adv: "vfs_table_ok (advance_offset fd (int (length ?d)) v)"
      "vfs_fs (advance_offset fd (int (length ?d)) v) = vfs_fs v"
      "fd_at fd n (off + length ?d) fl (advance_offset fd (int (length ?d)) v)"
    unfolding nat_int by (simp_all only: of_nat_0_le_iff simp_thms)
  have "r = int (length ?d)" "d = ?d" "v' = advance_offset fd (int (length ?d)) v"
    using rd f(1,3) fl by (auto simp: vfs_read_def Let_def fsrd simp del: length_take length_drop)
  then show ?thesis using adv inv(1) by (simp add: vfs_ok_def)
qed

lemma vfs_write_at:
  assumes ok: "vfs_ok v" and at: "fd_at fd n off fl v" and fl: "fl AND VFS_O_WRONLY \<noteq> 0"
    and c: "ramfiles (vfs_fs v) n = Some c" and count: "0 < unat count" "off + unat count + 511 < 2 ^ 32"
    and w: "vfs_write fd (Some src) count v = (r, v')"
  shows "r = VFS_ENOSPC \<and> v' = v \<and> (length c + 511) div 512 < (off + unat count + 511) div 512 \<and> (\<forall>j. 5 \<le> j \<and> j + (off + unat count + 511) div 512 \<le> 4096 \<longrightarrow>
        \<not> run_free j ((off + unat count + 511) div 512) (vfs_fs v)) \<or>
    r = int (unat count) \<and> vfs_ok v' \<and> fd_at fd n (off + unat count) fl v' \<and> vfs_refs v' = vfs_refs v \<and>
    ramfiles (vfs_fs v') = (ramfiles (vfs_fs v))(n \<mapsto> patch c off src (unat count)) \<and>
    (\<forall>g m o2 f2. g \<noteq> fd \<and> fd_at g m o2 f2 v \<longrightarrow> fd_at g m o2 f2 v')"
proof -
  let ?f = "vfs_open_files v ! nat fd"
  have f: "vfs_fd_valid fd v" "unat (of_offset ?f) = off" "of_flags ?f = fl" "valid_name n"
    using at by (auto simp: fd_at_def Let_def)
  have inv: "ramfs_inv (vfs_fs v)" "vfs_table_ok v" using ok by (auto simp: vfs_ok_def)
  obtain s' where s': "simplefs_write (Some (cstr_at (of_path ?f))) (of_offset ?f) (Some src) count (vfs_fs v) = (r, s')"
      and v': "v' = advance_offset fd r (v\<lparr>vfs_fs := s'\<rparr>)"
    using w f fl by (auto simp: vfs_write_def Let_def split: prod.splits)
  have N: "unat (sector_count ramdisk_dev) = 4096" by (simp add: ramdisk_dev_def ramdisk_consts)
  have "r = VFS_ENOSPC \<and> s' = vfs_fs v \<and> (length c + 511) div 512 < (off + unat count + 511) div 512 \<and> (\<forall>j. 5 \<le> j \<and> j + (off + unat count + 511) div 512 \<le> 4096 \<longrightarrow>
        \<not> run_free j ((off + unat count + 511) div 512) (vfs_fs v)) \<or> r = int (unat count) \<and> ramfs_inv s' \<and>
      ramfiles s' = (ramfiles (vfs_fs v))(n \<mapsto> patch c off src (unat count))"
    using rdisk.fs_write_ok [OF inv(1) fd_at_path [OF at] f(4) c count(1) _ s'] count(2) f(2) unfolding N by (simp only: f(2))
  moreover have "fd_at g m o2 f2 (v\<lparr>vfs_fs := s'\<rparr>) = fd_at g m o2 f2 v" for g m o2 f2
    by (simp add: fd_at_def vfs_fd_valid_def)
  moreover have "vfs_refs (v\<lparr>vfs_fs := s'\<rparr>) = vfs_refs v"
    by (simp add: vfs_refs_def vfs_fd_valid_def fun_eq_iff)
  ultimately show ?thesis
  proof (elim disjE conjE)
    assume "r = VFS_ENOSPC" "s' = vfs_fs v" "(length c + 511) div 512 < (off + unat count + 511) div 512" "(\<forall>j. 5 \<le> j \<and> j + (off + unat count + 511) div 512 \<le> 4096 \<longrightarrow>
        \<not> run_free j ((off + unat count + 511) div 512) (vfs_fs v))"
    then show ?thesis using v' by (simp add: advance_offset_def vfs_errors)
  next
    assume r: "r = int (unat count)" "ramfs_inv s'"
      "ramfiles s' = (ramfiles (vfs_fs v))(n \<mapsto> patch c off src (unat count))"
      and eq: "\<And>g m o2 f2. fd_at g m o2 f2 (v\<lparr>vfs_fs := s'\<rparr>) = fd_at g m o2 f2 v"
        "vfs_refs (v\<lparr>vfs_fs := s'\<rparr>) = vfs_refs v"
    have "int (off + unat count + 511) < int (2 ^ 32)" using count(2) by (simp only: of_nat_less_iff)
    then have "int off + r < 2 ^ 32" unfolding r(1) by simp
    moreover have "0 \<le> r" "nat r = unat count" by (simp_all only: r(1) nat_int of_nat_0_le_iff)
    moreover have "vfs_table_ok (v\<lparr>vfs_fs := s'\<rparr>)" using inv(2) by (simp add: vfs_table_ok_def)
    ultimately show ?thesis
      using advance_offset_at [of "v\<lparr>vfs_fs := s'\<rparr>" fd n off fl r] at r eq unfolding v' [symmetric]
      by (simp add: vfs_ok_def)
  qed
qed

lemma alloc_fd_cases:
  obtains fd where "vfs_alloc_fd v = int fd" and "fd < 16" and "\<not> of_used (vfs_open_files v ! fd)"
      and "\<And>i. i < fd \<Longrightarrow> of_used (vfs_open_files v ! i)"
  | "vfs_alloc_fd v = VFS_EMFILE" and "\<And>i. i < 16 \<Longrightarrow> of_used (vfs_open_files v ! i)"
proof (cases "first_index (\<lambda>i. \<not> of_used (vfs_open_files v ! i)) 0 16")
  case (Some fd)
  moreover have "vfs_alloc_fd v = int fd" using Some by (simp add: vfs_alloc_fd_def VFS_MAX_OPEN_FILES_def)
  ultimately show ?thesis using that(1) [of fd] by (auto simp: first_index_iffs)
next
  case None
  moreover have "vfs_alloc_fd v = VFS_EMFILE" using None by (simp add: vfs_alloc_fd_def VFS_MAX_OPEN_FILES_def)
  ultimately show ?thesis using that(2) by (auto simp: first_index_iffs)
qed

lemma copy_path_loop_ok:
  "is_cstring (\<lambda>k. path (i + k)) xs \<Longrightarrow> i \<le> VFS_MAX_PATH - 1 \<Longrightarrow>
     copy_path_loop path i out =
       (if i + length xs \<le> VFS_MAX_PATH - 1 then (VFS_SUCCESS, out @ xs)
        else (VFS_EINVAL, out @ take (VFS_MAX_PATH - 1 - i) xs))"
proof (induction path i out arbitrary: xs rule: copy_path_loop.induct)
  case (1 path i out)
  show ?case
  proof (cases xs)
    case Nil
    then have "path i = 0" using 1(2) by (simp add: is_cstring_def)
    then show ?thesis using Nil 1(3)
      by (subst copy_path_loop.simps) simp
  next
    case (Cons x ys)
    then have x: "path i = x" "x \<noteq> 0" and ys: "is_cstring (\<lambda>k. path (i + 1 + k)) ys"
      using 1(2) by (auto simp: is_cstring_def dest: spec [of _ 0] spec [of _ "Suc _"])
    show ?thesis
    proof (cases "i \<ge> VFS_MAX_PATH - 1")
      case True
      then show ?thesis using Cons x by (subst copy_path_loop.simps) simp
    next
      case False
      then have "VFS_MAX_PATH - 1 - i = Suc (VFS_MAX_PATH - 1 - (i + 1))" by (simp add: VFS_MAX_PATH_def)
      then have "take (VFS_MAX_PATH - 1 - i) xs = x # take (VFS_MAX_PATH - 1 - (i + 1)) ys"
        by (simp only: Cons take_Suc_Cons)
      then show ?thesis using 1(1) [OF _ False ys] x Cons False
        by (subst copy_path_loop.simps) simp
    qed
  qed
qed

lemma vfs_open_ok:
  assumes ok: "vfs_ok v" and mounted: "vfs_mounted v" and flags: "vfs_flags_valid flags"
    and p: "is_cstring p (0x2F # n)" and n: "valid_name n" and opn: "vfs_open (Some p) flags v = (r, v')"
  shows "if \<forall>i < 16. of_used (vfs_open_files v ! i) then r = VFS_EMFILE \<and> v' = v
    else if ramfiles (vfs_fs v) n = None \<and> flags AND VFS_O_CREAT = 0 then r = VFS_ENOENT \<and> v' = v
    else if ramfiles (vfs_fs v) n = None \<and> (\<forall>i < 32. de_used (ent (ramdisk_sector (fs_disk (vfs_fs v))) i) \<noteq> 0)
      then r = VFS_ENOSPC \<and> v' = v
    else 0 \<le> r \<and> \<not> of_used (vfs_open_files v ! nat r) \<and> (\<forall>i < nat r. of_used (vfs_open_files v ! i)) \<and>
      vfs_ok v' \<and> fd_at r n 0 flags v' \<and> vfs_refs v' = (vfs_refs v)(r := 1) \<and>
      ramfiles (vfs_fs v') = (if ramfiles (vfs_fs v) n = None \<or> flags AND VFS_O_TRUNC \<noteq> 0
        then (ramfiles (vfs_fs v))(n \<mapsto> []) else ramfiles (vfs_fs v)) \<and>
      (\<forall>g m o2 f2. fd_at g m o2 f2 v \<longrightarrow> fd_at g m o2 f2 v')"
proof -
  have inv: "ramfs_inv (vfs_fs v)" "vfs_table_ok v" using ok by (auto simp: vfs_ok_def)
  have copy: "vfs_copy_path (Some p) = (VFS_SUCCESS, 0x2F # n)"
    using copy_path_loop_ok [of p 0 "0x2F # n" "[]"] p n by (simp add: vfs_copy_path_def valid_name_def VFS_MAX_PATH_def)
  have cs: "is_cstring (cstr_at (0x2F # n)) (0x2F # n)" using n by (intro is_cstring_cstr_at) (auto simp: valid_name_def)
  show ?thesis
  proof (cases v rule: alloc_fd_cases)
    case (1 fd)
    then have some: "\<not> (\<forall>i < 16. of_used (vfs_open_files v ! i))" by blast
    obtain st info s' where s': "simplefs_open (Some (cstr_at (0x2F # n))) flags (vfs_fs v) = (st, info, s')"
      using prod_cases3 by blast
    let ?f = "\<lparr>of_used = True, of_refs = 1, of_path = 0x2F # n, of_flags = flags, of_offset = 0\<rparr>"
    let ?v = "v\<lparr>vfs_fs := s', vfs_open_files := (vfs_open_files v)[fd := ?f]\<rparr>"
    have res: "(r, v') = (if st \<noteq> VFS_SUCCESS then (st, v\<lparr>vfs_fs := s'\<rparr>) else (int fd, ?v))"
      using opn mounted flags copy 1(1) s' by (auto simp: vfs_open_def Let_def)
    have len: "length (vfs_open_files v) = 16" using inv(2) by (simp add: vfs_table_ok_def)
    have "vfs_table_ok ?v"
      using vfs_table_update [OF inv(2), of ?f fd] by (simp add: file_ok_def vfs_table_ok_def)
    moreover have "vfs_refs ?v = (vfs_refs v)(int fd := 1)"
      using vfs_refs_eq [OF calculation] vfs_refs_eq [OF inv(2)] 1(2) len
      by (auto simp: fun_eq_iff nth_list_update nat_eq_iff)
    moreover have "fd_at (int fd) n 0 flags ?v"
      using len 1(2) n by (simp add: fd_at_def vfs_fd_valid_def VFS_MAX_OPEN_FILES_def)
    moreover have "fd_at g m o2 f2 ?v" if g: "fd_at g m o2 f2 v" for g m o2 f2
    proof -
      have "nat g \<noteq> fd" using g 1(3) by (auto simp: fd_at_def vfs_fd_valid_def)
      then show ?thesis using g by (simp add: fd_at_def vfs_fd_valid_def)
    qed
    moreover note rdisk.fs_open_ok [OF inv(1) cs n s']
    ultimately show ?thesis
      using res some 1(3,4) inv(1)
      by (cases "ramfiles (vfs_fs v) n")
        (auto simp: vfs_ok_def vfs_errors split: if_splits)
  next
    case 2
    then show ?thesis using opn mounted flags copy by (simp add: vfs_open_def vfs_errors)
  qed
qed

section \<open>Properties\<close>

definition vfs_demo :: "ramdisk_data vfs" where
  "vfs_demo = \<lparr>vfs_root_dev = Some ramdisk_dev, vfs_mounted = True,
     vfs_open_files = (replicate 16 zero_file)[0 := \<lparr>of_used = True, of_refs = 1, of_path = [0x2F, 0x61],
       of_flags = VFS_O_RDWR, of_offset = 0\<rparr>], vfs_fs = ramfs_demo\<rparr>"

lemma vfs_demo_ok: "vfs_ok vfs_demo" "vfs_table_ok vfs_demo" "fd_at 0 [0x61] 0 VFS_O_RDWR vfs_demo"
  "ramfiles (vfs_fs vfs_demo) [0x61] = Some []"
  using ramfs_demo_ok demo_name(2)
  by (auto simp: vfs_demo_def vfs_ok_def vfs_table_ok_def file_ok_def zero_file_def fd_at_def vfs_fd_valid_def
      VFS_MAX_OPEN_FILES_def dest: set_update_subset_insert [THEN subsetD])

text \<open>C29: Opening a file: with all 16 slots in use it fails, an absent file without the create flag
  is reported as missing, an absent file with a full directory reports no space, and none of these
  changes anything. Otherwise the lowest free descriptor is returned, with one reference, positioned
  at the start of the named file, which is created or truncated as the flags say; every other open
  descriptor is untouched.\<close>

theorem vfs_open_spec:
  assumes "vfs_ok v" and "vfs_mounted v" and "vfs_flags_valid flags"
    and "is_cstring p (0x2F # n)" and "valid_name n" and "vfs_open (Some p) flags v = (r, v')"
  shows "if \<forall>i < 16. of_used (vfs_open_files v ! i) then r = VFS_EMFILE \<and> v' = v
    else if ramfiles (vfs_fs v) n = None \<and> flags AND VFS_O_CREAT = 0 then r = VFS_ENOENT \<and> v' = v
    else if ramfiles (vfs_fs v) n = None \<and> (\<forall>i < 32. de_used (ent (ramdisk_sector (fs_disk (vfs_fs v))) i) \<noteq> 0)
      then r = VFS_ENOSPC \<and> v' = v
    else 0 \<le> r \<and> \<not> of_used (vfs_open_files v ! nat r) \<and> (\<forall>i < nat r. of_used (vfs_open_files v ! i)) \<and>
      vfs_ok v' \<and> fd_at r n 0 flags v' \<and> vfs_refs v' = (vfs_refs v)(r := 1) \<and>
      ramfiles (vfs_fs v') = (if ramfiles (vfs_fs v) n = None \<or> flags AND VFS_O_TRUNC \<noteq> 0
        then (ramfiles (vfs_fs v))(n \<mapsto> []) else ramfiles (vfs_fs v)) \<and>
      (\<forall>g m o2 f2. fd_at g m o2 f2 v \<longrightarrow> fd_at g m o2 f2 v')"
  using vfs_open_ok [OF assms] .

theorem vfs_open_spec_witness:
  "\<exists>v'. vfs_open (Some (cstr_at [0x2F, 0x61])) VFS_O_RDONLY vfs_demo = (1, v') \<and> fd_at 1 [0x61] 0 VFS_O_RDONLY v'"
proof -
  obtain r v' where o: "vfs_open (Some (cstr_at [0x2F, 0x61])) VFS_O_RDONLY vfs_demo = (r, v')" by force
  have fl: "vfs_flags_valid VFS_O_RDONLY" "vfs_mounted vfs_demo"
    by (simp_all add: vfs_flags_valid_def VFS_O_RDONLY_def VFS_O_RDWR_def VFS_O_WRONLY_def VFS_O_CREAT_def
        VFS_O_TRUNC_def vfs_demo_def)
  have used: "of_used (vfs_open_files vfs_demo ! i) \<longleftrightarrow> i = 0" if "i < 16" for i
    using that by (auto simp: vfs_demo_def nth_list_update zero_file_def)
  have r: "0 \<le> r \<and> \<not> of_used (vfs_open_files vfs_demo ! nat r) \<and> (\<forall>i < nat r. of_used (vfs_open_files vfs_demo ! i)) \<and>
      fd_at r [0x61] 0 VFS_O_RDONLY v'"
  proof -
    have "(\<forall>i < 16. of_used (vfs_open_files vfs_demo ! i)) = False" using used [of 1] by (simp del: One_nat_def) (intro exI [of _ 1], simp)
    from vfs_open_spec [OF vfs_demo_ok(1) fl(2,1) demo_name o, unfolded this vfs_demo_ok(4)]
    show ?thesis by (simp only: if_False option.distinct simp_thms) (elim conjE, assumption)
  qed
  have "r < 16" using fd_at_range [of r] r by blast
  moreover have "\<not> 1 < nat r" using r used [of 1] by fastforce
  moreover have "r \<noteq> 0" using r used [of 0] by auto
  ultimately have "r = 1" using r by linarith
  then show ?thesis using o r by simp
qed

text \<open>A descriptor is a cursor: a read returns the bytes of the file that follow the position
  and moves the position behind them, so two reads through the same descriptor return, together,
  what one read of both sizes would have returned; reading changes no file.\<close>

lemma vfs_reads_consecutive:
  assumes "vfs_ok v" and "fd_at fd n off fl v" and "fl AND VFS_O_RDONLY \<noteq> 0"
    and "ramfiles (vfs_fs v) n = Some c"
    and "vfs_read fd True a v = (r1, d1, v1)" and "vfs_read fd True b v1 = (r2, d2, v2)"
  shows "d1 = take (unat a) (drop off c) \<and> d1 @ d2 = take (unat a + unat b) (drop off c) \<and>
    r1 = int (length d1) \<and> r2 = int (length d2) \<and> fd_at fd n (off + length d1 + length d2) fl v2 \<and>
    vfs_ok v2 \<and> vfs_fs v2 = vfs_fs v"
proof -
  have v1: "r1 = int (length d1)" "d1 = take (unat a) (drop off c)" "vfs_ok v1" "vfs_fs v1 = vfs_fs v"
      "fd_at fd n (off + length d1) fl v1"
    using vfs_read_at [OF assms(1-5)] by blast+
  have v2: "r2 = int (length d2)" "d2 = take (unat b) (drop (off + length d1) c)" "vfs_ok v2" "vfs_fs v2 = vfs_fs v1"
      "fd_at fd n (off + length d1 + length d2) fl v2"
    using vfs_read_at [OF v1(3,5) assms(3) assms(4) [folded v1(4)] assms(6)] by blast+
  have "d1 @ d2 = take (unat a + unat b) (drop off c)"
    unfolding v2(2) using v1(2) by (cases "unat a \<le> length (drop off c)") (auto simp: take_add add.commute)
  then show ?thesis using v1 v2 by simp
qed

text \<open>C28: A write of no byte does nothing, and one whose end does not fit 32 bits is refused as invalid. Any other write through
  a descriptor stores all its bytes at the position, moves the position behind them and leaves every other file and every other
  descriptor alone; or it changes nothing and reports a full disk, which only happens when the end lies in a sector behind the last one of the file and no run of sectors long enough for the new
  length is free. Another descriptor of the same file, positioned where the write started, then reads
  the bytes that were written. Excluded are ends from 2^32 - 511 to 2^32 - 1, as for simplefs_write.\<close>

theorem vfs_write_spec:
  assumes "vfs_ok v" and "fd_at fd n off fl v" and "fl AND VFS_O_WRONLY \<noteq> 0"
    and "ramfiles (vfs_fs v) n = Some c"
    and "\<not> (2 ^ 32 - 511 \<le> off + unat count \<and> off + unat count < 2 ^ 32)"
    and "vfs_write fd (Some src) count v = (r, v')"
  shows "if count = 0 then r = 0 \<and> v' = v
    else if 2 ^ 32 \<le> off + unat count then r = VFS_EINVAL \<and> v' = v
    else r = VFS_ENOSPC \<and> v' = v \<and> (length c + 511) div 512 < (off + unat count + 511) div 512 \<and> (\<forall>j. 5 \<le> j \<and> j + (off + unat count + 511) div 512 \<le> 4096 \<longrightarrow>
        \<not> run_free j ((off + unat count + 511) div 512) (vfs_fs v)) \<or>
      r = int (unat count) \<and> vfs_ok v' \<and> fd_at fd n (off + unat count) fl v' \<and> vfs_refs v' = vfs_refs v \<and>
      ramfiles (vfs_fs v') = (ramfiles (vfs_fs v))(n \<mapsto> patch c off src (unat count)) \<and>
      (\<forall>g m o2 f2. g \<noteq> fd \<and> fd_at g m o2 f2 v \<longrightarrow> fd_at g m o2 f2 v' \<and>
        (m = n \<and> o2 = off \<and> f2 AND VFS_O_RDONLY \<noteq> 0 \<longrightarrow>
          fst (snd (vfs_read g True count v')) = map src [0..<unat count]))"
proof -
  let ?f = "vfs_open_files v ! nat fd"
  have f: "vfs_fd_valid fd v" "unat (of_offset ?f) = off" "of_flags ?f = fl" using assms(2) by (auto simp: fd_at_def Let_def)
  have mounted: "fs_mounted (vfs_fs v)" using assms(1) rdisk.fs_invD(3) by (auto simp: vfs_ok_def)
  have refused: "r = e \<and> v' = v"
    if "simplefs_write (Some (cstr_at (of_path ?f))) (of_offset ?f) (Some src) count (vfs_fs v) = (e, vfs_fs v)" "e \<le> 0" for e
    using assms(3,6) f that by (simp add: vfs_write_def Let_def advance_offset_def)
  consider "count = 0" | "count \<noteq> 0" "2 ^ 32 \<le> off + unat count" | "count \<noteq> 0" "off + unat count + 511 < 2 ^ 32"
    using assms(5) by (cases "count = 0") linarith+
  then show ?thesis
  proof cases
    case 1
    then show ?thesis using refused [of 0] write_no_bytes [OF mounted] by simp
  next
    case 2
    then show ?thesis using refused [of VFS_EINVAL] write_past_range [OF mounted] f(2) by (simp add: VFS_EINVAL_def)
  next
    case 3
    then have range: "\<not> 2 ^ 32 \<le> off + unat count" "0 < unat count" by (simp_all add: unat_gt_0)
    have "take (unat count) (drop off (patch c off src (unat count))) = map src [0..<unat count]"
      by (rule nth_equalityI) (auto simp: patch_def)
    then have reread: "fst (snd (vfs_read g True count v')) = map src [0..<unat count]"
      if "vfs_ok v'" "fd_at g n off f2 v'" "f2 AND VFS_O_RDONLY \<noteq> 0"
        "ramfiles (vfs_fs v') n = Some (patch c off src (unat count))" for g f2
      using vfs_read_at [OF that, of count] by (metis fst_conv prod.collapse snd_conv)
    show ?thesis
      unfolding if_not_P [OF 3(1)] if_not_P [OF range(1)]
      using vfs_write_at [OF assms(1-4) range(2) 3(2) assms(6)] reread by (metis fun_upd_same)
  qed
qed

text \<open>In the example the disk is nearly empty, so the write succeeds.\<close>

theorem vfs_write_spec_witness:
  "\<exists>v'. vfs_write 0 (Some (cstr_at [7])) 1 vfs_demo = (1, v') \<and>
     ramfiles (vfs_fs v') [0x61] = Some [7] \<and> fd_at 0 [0x61] 1 VFS_O_RDWR v'"
proof -
  obtain r v' where w: "vfs_write 0 (Some (cstr_at [7])) 1 vfs_demo = (r, v')" by force
  have fl: "VFS_O_RDWR AND VFS_O_WRONLY \<noteq> 0" by (simp add: VFS_O_RDWR_def VFS_O_RDONLY_def VFS_O_WRONLY_def)
  have "patch [] 0 (cstr_at [7]) 1 = [7]" by (simp add: patch_def cstr_at_def upt_rec)
  moreover have "\<exists>j. 5 \<le> j \<and> j + 1 \<le> 4096 \<and> run_free j 1 (vfs_fs vfs_demo)"
    using ramfs_demo_room by (simp add: vfs_demo_def)
  ultimately show ?thesis
    using vfs_write_spec [OF vfs_demo_ok(1,3) fl vfs_demo_ok(4) _ w] w by auto
qed

text \<open>Open files are counted handles: a retained descriptor that is closed again leaves every
  count as it was, a descriptor is usable until it has been closed as often as it was handed out, and
  closing it once more is refused.\<close>

lemma vfs_files_counted:
  fixes v :: "'d vfs"
  assumes "vfs_table_ok v"
  shows "(\<forall>v1. vfs_retain fd v = (0, v1) \<longrightarrow>
        (\<exists>v2. vfs_close fd v1 = (0, v2) \<and> vfs_table_ok v2 \<and> vfs_refs v2 = vfs_refs v)) \<and>
    (\<forall>k < vfs_refs v fd. fst (vfs_close fd (close_times vfs_close k fd v)) = 0) \<and>
    fst (vfs_close fd (close_times vfs_close (vfs_refs v fd) fd v)) \<noteq> 0"
proof -
  have "fst (vfs_close fd (close_times vfs_close k fd v)) = 0" if "k < vfs_refs v fd" for k
    using vfs_files.close_times_refs [OF assms, of k fd] that
      vfs_files.close_referenced [of "close_times vfs_close k fd v" fd] by auto
  then show ?thesis
    using vfs_files.retain_close_cancel [OF assms] vfs_files.closed_handle_refused [OF assms] by simp
qed

end
