(* ===== verification/Kernel_State.thy ===== *)
theory Kernel_State
  imports Virtual_Memory Descriptors Allocator Keyboard Pipe VFS
begin

text \<open>
  The data of \<^verbatim>\<open>src/include/process.h\<close> and the state of the kernel: the process table, the stack
  pool and the scheduler queue of \<^verbatim>\<open>process.c\<close> and \<^verbatim>\<open>scheduler.c\<close>, together with the state of the
  modules they call. A pointer to a process is an index into the process table, \<open>None\<close> is NULL; flags
  that the code keeps as 0 or 1 are Booleans. Kernel stacks are words of memory by address: the
  saved \<^verbatim>\<open>interrupt_frame\<close> of a process is the 17 words at its saved stack pointer.

  Two flags record what a C program cannot return from: \<open>mmu_fault\<close> (see \<open>Virtual_Memory\<close>) and
  \<open>k_hung\<close>, a loop over a list that does not end because its links form a cycle.
\<close>

section \<open>Processes\<close>

definition MAX_PROCESSES :: nat where "MAX_PROCESSES = 16"
definition KERNEL_STACK_SIZE :: u32 where "KERNEL_STACK_SIZE = 4096"
definition USER_STACK_SIZE :: u32 where "USER_STACK_SIZE = 4096"
definition USER_STACK_TOP :: u32 where "USER_STACK_TOP = 0xB0000000"
definition USER_STACK_BOTTOM :: u32 where "USER_STACK_BOTTOM = USER_STACK_TOP - USER_STACK_SIZE"
definition USER_STACK_GUARD_BOTTOM :: u32 where "USER_STACK_GUARD_BOTTOM = USER_STACK_BOTTOM - USER_STACK_SIZE"
definition PROCESS_DEFAULT_PRIORITY :: u32 where "PROCESS_DEFAULT_PRIORITY = 1"
definition PROCESS_MAX_PRIORITY :: u32 where "PROCESS_MAX_PRIORITY = 16"
definition PROCESS_HEAP_START :: u32 where "PROCESS_HEAP_START = 0x90000000"
definition PROCESS_HEAP_LIMIT :: u32 where "PROCESS_HEAP_LIMIT = 0xA0000000"
definition PROCESS_MAX_FDS :: nat where "PROCESS_MAX_FDS = 16"
definition PROCESS_FD_CLOEXEC :: u32 where "PROCESS_FD_CLOEXEC = 0x0001"
definition PROCESS_TEST_MARKER_WORDS :: nat where "PROCESS_TEST_MARKER_WORDS = 2"

datatype process_fd_kind = PROCESS_FD_NONE | PROCESS_FD_VFS | PROCESS_FD_PIPE_READ | PROCESS_FD_PIPE_WRITE

record process_fd =
  fd_kind :: process_fd_kind
  fd_handle :: int
  fd_flags :: u32

datatype process_state = PROCESS_DEAD | PROCESS_READY | PROCESS_RUNNING | PROCESS_BLOCKED | PROCESS_ZOMBIE

record process =
  p_pid :: u32
  p_esp :: u32
  p_ebp :: u32
  p_eip :: u32
  p_cr3 :: u32
  p_interrupt_frame :: bool
  p_priority :: u32
  p_dynamic_priority :: u32
  p_run_count :: u32
  p_test_marker_permissions :: "u64 list"
  p_state :: process_state
  p_kernel_stack :: u32
  p_user_stack :: u32
  p_next :: "nat option"
  p_parent_pid :: u32
  p_exit_code :: u32
  p_exited :: bool
  p_waited :: bool
  p_waiting_for_child :: bool
  p_wait_target_pid :: u32
  p_wait_status_ptr :: u32
  p_wait_result_status :: u32
  p_wait_completion_pending :: bool
  p_wait_is_waitpid :: bool
  p_block_reason :: block_reason
  p_blocked_fd :: int
  p_blocked_buffer :: u32
  p_blocked_count :: u32
  p_pending_signals :: u32
  p_killed_by_signal :: u32
  p_heap_start :: u32
  p_heap_end :: u32
  p_fds :: "process_fd list"

definition zero_fd :: process_fd where
  "zero_fd = \<lparr>fd_kind = PROCESS_FD_NONE, fd_handle = 0, fd_flags = 0\<rparr>"

definition zero_process :: process where
  "zero_process = \<lparr>p_pid = 0, p_esp = 0, p_ebp = 0, p_eip = 0, p_cr3 = 0, p_interrupt_frame = False,
     p_priority = 0, p_dynamic_priority = 0, p_run_count = 0, p_test_marker_permissions = [0, 0],
     p_state = PROCESS_DEAD, p_kernel_stack = 0, p_user_stack = 0, p_next = None, p_parent_pid = 0,
     p_exit_code = 0, p_exited = False, p_waited = False, p_waiting_for_child = False,
     p_wait_target_pid = 0, p_wait_status_ptr = 0, p_wait_result_status = 0,
     p_wait_completion_pending = False, p_wait_is_waitpid = False, p_block_reason = BLOCK_NONE,
     p_blocked_fd = 0, p_blocked_buffer = 0, p_blocked_count = 0, p_pending_signals = 0,
     p_killed_by_signal = 0, p_heap_start = 0, p_heap_end = 0, p_fds = replicate 16 zero_fd\<rparr>"

section \<open>The kernel\<close>

record 'd kernel =
  process_table :: "process list"
  next_pid :: u32
  process_count :: u32
  stack_pool :: u32
  stack_free_bitmap :: u16
  kstack :: "u32 \<Rightarrow> u32"
  ready_queue :: "nat option"
  current :: "nat option"
  schedule_count :: u32
  scheduler_initialized :: bool
  preemption_enabled :: bool
  k_hung :: bool
  k_mmu :: mmu
  k_tss :: tss_entry
  k_vfs :: "'d vfs"
  k_pipes :: pipes
  k_heap :: heap_state
  k_keyboard :: keyboard
  k_vga :: vga
  k_serial :: serial_log
  timer_ticks :: u32

abbreviation proc :: "'d kernel \<Rightarrow> nat \<Rightarrow> process" where
  "proc k i \<equiv> process_table k ! i"

definition set_proc :: "nat \<Rightarrow> (process \<Rightarrow> process) \<Rightarrow> 'd kernel \<Rightarrow> 'd kernel" where
  "set_proc i f k = k\<lparr>process_table := (process_table k)[i := f (proc k i)]\<rparr>"

definition set_mmu :: "(mmu \<Rightarrow> mmu) \<Rightarrow> 'd kernel \<Rightarrow> 'd kernel" where
  "set_mmu f k = k\<lparr>k_mmu := f (k_mmu k)\<rparr>"

lemma set_proc_fields [simp]:
  "process_table (set_proc i f k) = (process_table k)[i := f (proc k i)]"
  "next_pid (set_proc i f k) = next_pid k" "process_count (set_proc i f k) = process_count k"
  "stack_pool (set_proc i f k) = stack_pool k" "stack_free_bitmap (set_proc i f k) = stack_free_bitmap k"
  "kstack (set_proc i f k) = kstack k" "ready_queue (set_proc i f k) = ready_queue k"
  "current (set_proc i f k) = current k" "schedule_count (set_proc i f k) = schedule_count k"
  "scheduler_initialized (set_proc i f k) = scheduler_initialized k"
  "preemption_enabled (set_proc i f k) = preemption_enabled k" "k_hung (set_proc i f k) = k_hung k"
  "k_mmu (set_proc i f k) = k_mmu k" "k_tss (set_proc i f k) = k_tss k" "k_vfs (set_proc i f k) = k_vfs k"
  "k_pipes (set_proc i f k) = k_pipes k" "k_heap (set_proc i f k) = k_heap k"
  "k_keyboard (set_proc i f k) = k_keyboard k" "k_vga (set_proc i f k) = k_vga k"
  "k_serial (set_proc i f k) = k_serial k" "timer_ticks (set_proc i f k) = timer_ticks k"
  by (simp_all add: set_proc_def)

lemma set_mmu_fields [simp]:
  "process_table (set_mmu f k) = process_table k" "k_mmu (set_mmu f k) = f (k_mmu k)"
  "ready_queue (set_mmu f k) = ready_queue k" "current (set_mmu f k) = current k"
  "k_hung (set_mmu f k) = k_hung k" "k_tss (set_mmu f k) = k_tss k" "kstack (set_mmu f k) = kstack k"
  "k_vfs (set_mmu f k) = k_vfs k" "k_pipes (set_mmu f k) = k_pipes k"
  by (simp_all add: set_mmu_def)

section \<open>Interrupt frames\<close>

text \<open>The fields of \<^verbatim>\<open>struct interrupt_frame\<close> by their word index.\<close>

datatype frame_field = EDI | ESI | EBP | SAVED_ESP | EBX | EDX | ECX | EAX | GS | FS | ES | DS
  | EIP | CS | EFLAGS | USER_ESP | USER_SS

fun field_index :: "frame_field \<Rightarrow> u32" where
  "field_index EDI = 0" | "field_index ESI = 1" | "field_index EBP = 2" | "field_index SAVED_ESP = 3"
| "field_index EBX = 4" | "field_index EDX = 5" | "field_index ECX = 6" | "field_index EAX = 7"
| "field_index GS = 8" | "field_index FS = 9" | "field_index ES = 10" | "field_index DS = 11"
| "field_index EIP = 12" | "field_index CS = 13" | "field_index EFLAGS = 14"
| "field_index USER_ESP = 15" | "field_index USER_SS = 16"

definition FRAME_WORDS :: nat where "FRAME_WORDS = 17"

definition get_field :: "u32 \<Rightarrow> frame_field \<Rightarrow> 'd kernel \<Rightarrow> u32" where
  "get_field frame f k = kstack k (frame + 4 * field_index f)"

definition set_field :: "u32 \<Rightarrow> frame_field \<Rightarrow> u32 \<Rightarrow> 'd kernel \<Rightarrow> 'd kernel" where
  "set_field frame f w k = k\<lparr>kstack := (kstack k)(frame + 4 * field_index f := w)\<rparr>"

text \<open>\<^verbatim>\<open>*(--stack_top) = w\<close> for each word in turn: the new stack top and the memory.\<close>

fun push_words :: "u32 \<Rightarrow> u32 list \<Rightarrow> (u32 \<Rightarrow> u32) \<Rightarrow> u32 \<times> (u32 \<Rightarrow> u32)" where
  "push_words sp [] mem = (sp, mem)"
| "push_words sp (w # ws) mem = push_words (sp - 4) ws (mem(sp - 4 := w))"

section \<open>An example\<close>

text \<open>A kernel with an empty process table over the example states of its modules.\<close>

definition mmu_demo :: mmu where
  "mmu_demo = \<lparr>phys = (\<lambda>_ _. 0), mmu_frames = frame_demo, active_page_directory = PAGE_DIRECTORY_PHYSICAL,
     kernel_scratch_table = 0, paging_on = True, mmu_fault = False\<rparr>"

definition kernel_demo :: "ramdisk_data kernel" where
  "kernel_demo = \<lparr>process_table = replicate 16 zero_process, next_pid = 1, process_count = 0,
     stack_pool = 0, stack_free_bitmap = 0, kstack = (\<lambda>_. 0), ready_queue = None, current = None,
     schedule_count = 0, scheduler_initialized = True, preemption_enabled = True, k_hung = False,
     k_mmu = mmu_demo, k_tss = zero_tss, k_vfs = vfs_demo, k_pipes = pipe_init, k_heap = heap_demo,
     k_keyboard = \<lparr>key_buffer = (\<lambda>_. 0), buffer_head = 0, buffer_tail = 0\<rparr>,
     k_vga = \<lparr>vga_buffer = (\<lambda>_. 0), vga_row = 0, vga_col = 0, vga_attr = 7\<rparr>, k_serial = [], timer_ticks = 0\<rparr>"

end
