(* ===== verification/Scheduler.thy ===== *)
theory Scheduler
  imports Kernel_State
begin

text \<open>
  The scheduler, \<^verbatim>\<open>src/kernel/scheduler.c\<close>: a singly linked queue of ready processes, threaded through
  the process table by \<^verbatim>\<open>next\<close> pointers, from which the first process of the highest dynamic priority
  is taken; waiting processes age by one at each switch. The loops over the queue follow \<open>walk\<close>, which
  collects the chain of links: it gives \<open>None\<close> when the links do not reach NULL within the 16 slots of
  the process table, that is when they form a cycle and the loop of the code does not end.
  Saving and restoring the interrupt flag has no effect on the model.
\<close>

section \<open>The ready queue\<close>

fun walk :: "nat \<Rightarrow> process list \<Rightarrow> nat option \<Rightarrow> nat list option" where
  "walk n t None = Some []"
| "walk 0 t (Some p) = None"
| "walk (Suc n) t (Some p) = map_option (Cons p) (walk n t (p_next (t ! p)))"

definition queue :: "'d kernel \<Rightarrow> nat list option" where
  "queue k = walk MAX_PROCESSES (process_table k) (ready_queue k)"

definition with_queue :: "(nat list \<Rightarrow> 'd kernel \<Rightarrow> 'a \<times> 'd kernel) \<Rightarrow> 'a \<Rightarrow> 'd kernel \<Rightarrow> 'a \<times> 'd kernel" where
  "with_queue f stuck k =
     (case queue k of None \<Rightarrow> (stuck, k\<lparr>k_hung := True\<rparr>) | Some ps \<Rightarrow> f ps k)"

definition base_priority :: "process \<Rightarrow> u32" where
  "base_priority p = (if p_priority p \<noteq> 0 then p_priority p else PROCESS_DEFAULT_PRIORITY)"

definition switch_address_space :: "nat option \<Rightarrow> 'd kernel \<Rightarrow> 'd kernel" where
  "switch_address_space pr k =
     (case pr of None \<Rightarrow> k
      | Some i \<Rightarrow>
          let k = (if p_cr3 (proc k i) \<noteq> 0 \<and> p_cr3 (proc k i) \<noteq> paging_get_current_directory (k_mmu k)
                   then set_mmu (paging_switch_directory (p_cr3 (proc k i))) k else k)
          in if p_kernel_stack (proc k i) \<noteq> 0
             then k\<lparr>k_tss := tss_set_kernel_stack (p_kernel_stack (proc k i) + KERNEL_STACK_SIZE) (k_tss k)\<rparr>
             else k)"

definition enqueue :: "nat \<Rightarrow> 'd kernel \<Rightarrow> 'd kernel" where
  "enqueue i k =
     (let k = set_proc i (\<lambda>p. p\<lparr>p_next := None\<rparr>) k;
          k = (if p_dynamic_priority (proc k i) = 0
               then set_proc i (\<lambda>p. p\<lparr>p_dynamic_priority := base_priority p\<rparr>) k else k)
      in if ready_queue k = None then k\<lparr>ready_queue := Some i\<rparr>
         else snd (with_queue (\<lambda>ps k. ((), set_proc (last ps) (\<lambda>p. p\<lparr>p_next := Some i\<rparr>) k)) () k))"

text \<open>The scan of \<^verbatim>\<open>find_best_ready\<close>: a later process wins only with a strictly higher priority.\<close>

fun best_of :: "process list \<Rightarrow> nat \<Rightarrow> nat list \<Rightarrow> nat" where
  "best_of t best [] = best"
| "best_of t best (p # ps) =
     best_of t (if p_dynamic_priority (t ! best) < p_dynamic_priority (t ! p) then p else best) ps"

definition find_best_ready :: "'d kernel \<Rightarrow> nat option \<times> 'd kernel" where
  "find_best_ready k =
     with_queue (\<lambda>ps k. (case ready_queue k of None \<Rightarrow> None
                         | Some b \<Rightarrow> Some (best_of (process_table k) b ps), k)) None k"

definition dequeue_best :: "'d kernel \<Rightarrow> nat option \<times> 'd kernel" where
  "dequeue_best k =
     (let (best, k) = find_best_ready k in
      case best of None \<Rightarrow> (None, k)
      | Some b \<Rightarrow>
          let k = (if ready_queue k = Some b then k\<lparr>ready_queue := p_next (proc k b)\<rparr>
                   else snd (with_queue (\<lambda>ps k. ((),
                          case find (\<lambda>p. p_next (proc k p) = Some b) ps of None \<Rightarrow> k
                          | Some prev \<Rightarrow> set_proc prev (\<lambda>p. p\<lparr>p_next := p_next (proc k b)\<rparr>) k)) () k))
          in (Some b, set_proc b (\<lambda>p. p\<lparr>p_next := None\<rparr>) k))"

definition age :: "process \<Rightarrow> process" where
  "age p = (if p_dynamic_priority p < PROCESS_MAX_PRIORITY
            then p\<lparr>p_dynamic_priority := p_dynamic_priority p + 1\<rparr> else p)"

definition age_ready_queue :: "'d kernel \<Rightarrow> 'd kernel" where
  "age_ready_queue k = snd (with_queue (\<lambda>ps k. ((), fold (\<lambda>i. set_proc i age) ps k)) () k)"

section \<open>Switching\<close>

definition run_next :: "nat \<Rightarrow> 'd kernel \<Rightarrow> 'd kernel" where
  "run_next i k =
     (let k = age_ready_queue k;
          k = set_proc i (\<lambda>p. p\<lparr>p_dynamic_priority := base_priority p, p_state := PROCESS_RUNNING,
                                p_run_count := p_run_count p + 1\<rparr>) k;
          k = switch_address_space (Some i) (k\<lparr>current := Some i\<rparr>)
      in k\<lparr>schedule_count := schedule_count k + 1\<rparr>)"

definition scheduler_schedule_locked :: "'d kernel \<Rightarrow> 'd kernel" where
  "scheduler_schedule_locked k =
     (let (next, k) = dequeue_best k in
      case next of None \<Rightarrow> k
      | Some i \<Rightarrow>
          let k = (case current k of None \<Rightarrow> k
                   | Some c \<Rightarrow>
                       if p_state (proc k c) = PROCESS_RUNNING
                       then enqueue c (set_proc c (\<lambda>p. p\<lparr>p_state := PROCESS_READY\<rparr>) k) else k)
          in run_next i k)"

definition scheduler_init :: "'d kernel \<Rightarrow> 'd kernel" where
  "scheduler_init k = k\<lparr>ready_queue := None, current := None, schedule_count := 0,
     scheduler_initialized := True, preemption_enabled := False\<rparr>"

definition scheduler_add :: "nat option \<Rightarrow> 'd kernel \<Rightarrow> 'd kernel" where
  "scheduler_add pr k = (case pr of None \<Rightarrow> k | Some i \<Rightarrow> enqueue i k)"

definition scheduler_schedule :: "'d kernel \<Rightarrow> 'd kernel" where
  "scheduler_schedule k = scheduler_schedule_locked k"

definition scheduler_preempt :: "u32 \<Rightarrow> 'd kernel \<Rightarrow> u32 \<times> 'd kernel" where
  "scheduler_preempt interrupted_esp k =
     (if \<not> scheduler_initialized k \<or> \<not> preemption_enabled k \<or> ready_queue k = None then (interrupted_esp, k)
      else if (case current k of None \<Rightarrow> False | Some c \<Rightarrow> \<not> p_interrupt_frame (proc k c)) then (interrupted_esp, k)
      else
        let k = (case current k of None \<Rightarrow> k
                 | Some c \<Rightarrow> set_proc c (\<lambda>p. p\<lparr>p_esp := interrupted_esp\<rparr>) k);
            (next, k) = find_best_ready k
        in if (case next of None \<Rightarrow> True | Some i \<Rightarrow> \<not> p_interrupt_frame (proc k i)) then (interrupted_esp, k)
           else
             let k = scheduler_schedule_locked k in
             case current k of None \<Rightarrow> (interrupted_esp, k)
             | Some c \<Rightarrow>
                 if \<not> p_interrupt_frame (proc k c) \<or> p_esp (proc k c) = 0 then (interrupted_esp, k)
                 else (p_esp (proc k c), k))"

definition scheduler_stop_current_locked :: "u32 \<Rightarrow> process_state \<Rightarrow> bool \<Rightarrow> 'd kernel \<Rightarrow> u32 \<times> 'd kernel" where
  "scheduler_stop_current_locked interrupted_esp stopped_state resume_if_no_next k =
     (case current k of None \<Rightarrow> (0, k)
      | Some stopped \<Rightarrow>
          if interrupted_esp = 0 then (0, k)
          else
            let k = set_proc stopped (\<lambda>p. p\<lparr>p_esp := interrupted_esp, p_interrupt_frame := True,
                                            p_state := stopped_state\<rparr>) k;
                (next, k) = dequeue_best k
            in if (case next of None \<Rightarrow> True
                   | Some i \<Rightarrow> \<not> p_interrupt_frame (proc k i) \<or> p_esp (proc k i) = 0) then
                 let k = (case next of None \<Rightarrow> k | Some i \<Rightarrow> enqueue i k) in
                 if resume_if_no_next
                 then (interrupted_esp, set_proc stopped (\<lambda>p. p\<lparr>p_state := PROCESS_RUNNING\<rparr>) k)
                 else (0, k)
               else
                 let k = run_next (the next) k in (p_esp (proc k (the next)), k))"

definition scheduler_block_current :: "u32 \<Rightarrow> 'd kernel \<Rightarrow> u32 \<times> 'd kernel" where
  "scheduler_block_current interrupted_esp k =
     scheduler_stop_current_locked interrupted_esp PROCESS_BLOCKED True k"

definition scheduler_exit_current :: "u32 \<Rightarrow> 'd kernel \<Rightarrow> u32 \<times> 'd kernel" where
  "scheduler_exit_current interrupted_esp k =
     scheduler_stop_current_locked interrupted_esp PROCESS_ZOMBIE False k"

definition scheduler_set_preemption_enabled :: "bool \<Rightarrow> 'd kernel \<Rightarrow> 'd kernel" where
  "scheduler_set_preemption_enabled enabled k = k\<lparr>preemption_enabled := enabled\<rparr>"

definition scheduler_set_priority :: "nat option \<Rightarrow> u32 \<Rightarrow> 'd kernel \<Rightarrow> 'd kernel" where
  "scheduler_set_priority pr priority k =
     (case pr of None \<Rightarrow> k
      | Some i \<Rightarrow>
          let priority = (if priority = 0 then PROCESS_DEFAULT_PRIORITY else priority);
              priority = (if PROCESS_MAX_PRIORITY < priority then PROCESS_MAX_PRIORITY else priority)
          in set_proc i (\<lambda>p. p\<lparr>p_priority := priority, p_dynamic_priority := priority\<rparr>) k)"

definition scheduler_get_count :: "'d kernel \<Rightarrow> u32" where
  "scheduler_get_count k = schedule_count k"

definition scheduler_get_current :: "'d kernel \<Rightarrow> nat option" where
  "scheduler_get_current k = current k"

definition scheduler_set_current :: "nat option \<Rightarrow> 'd kernel \<Rightarrow> 'd kernel" where
  "scheduler_set_current pr k =
     (let k = k\<lparr>current := pr\<rparr> in
      case pr of None \<Rightarrow> k
      | Some i \<Rightarrow> switch_address_space pr (set_proc i (\<lambda>p. p\<lparr>p_state := PROCESS_RUNNING\<rparr>) k))"

text \<open>
  The loop of \<^verbatim>\<open>scheduler_remove\<close> stops at the process it looks for, so it is written out: \<open>prev\<close> is the
  item before \<open>item\<close>, and the first number bounds the links followed, as in \<open>walk\<close>.
\<close>

fun remove_from :: "nat \<Rightarrow> nat option \<Rightarrow> nat option \<Rightarrow> nat \<Rightarrow> 'd kernel \<Rightarrow> 'd kernel" where
  "remove_from n prev None i k = k"
| "remove_from 0 prev (Some item) i k = k\<lparr>k_hung := True\<rparr>"
| "remove_from (Suc n) prev (Some item) i k =
     (if item = i then
        let k = (case prev of Some q \<Rightarrow> set_proc q (\<lambda>p. p\<lparr>p_next := p_next (proc k item)\<rparr>) k
                 | None \<Rightarrow> k\<lparr>ready_queue := p_next (proc k item)\<rparr>)
        in set_proc item (\<lambda>p. p\<lparr>p_next := None\<rparr>) k
      else remove_from n (Some item) (p_next (proc k item)) i k)"

definition scheduler_remove :: "nat option \<Rightarrow> 'd kernel \<Rightarrow> 'd kernel" where
  "scheduler_remove pr k =
     (case pr of None \<Rightarrow> k
      | Some i \<Rightarrow> remove_from MAX_PROCESSES None (ready_queue k) i k)"

definition scheduler_wake :: "nat option \<Rightarrow> 'd kernel \<Rightarrow> 'd kernel" where
  "scheduler_wake pr k =
     (case pr of None \<Rightarrow> k
      | Some i \<Rightarrow>
          if p_state (proc k i) = PROCESS_BLOCKED
          then enqueue i (set_proc i (\<lambda>p. p\<lparr>p_state := PROCESS_READY\<rparr>) k) else k)"

text \<open>\<^verbatim>\<open>yield\<close> up to the stack switch: the result says whether \<^verbatim>\<open>context_switch\<close> is called.\<close>

definition yield :: "'d kernel \<Rightarrow> bool \<times> 'd kernel" where
  "yield k =
     (if \<not> scheduler_initialized k then (False, k)
      else case current k of
        Some prev \<Rightarrow>
          if p_interrupt_frame (proc k prev) then (False, k)
          else let k = scheduler_schedule k
               in (current k \<noteq> Some prev \<and> p_state (proc k prev) = PROCESS_READY, k)
      | None \<Rightarrow> (False, scheduler_schedule k))"

end
