(* ===== verification/Process_Table.thy ===== *)
theory Process_Table
  imports Scheduler
begin

text \<open>
  The parts of \<^verbatim>\<open>src/kernel/process.c\<close> that the memory modules rely on: lookups in the process table,
  the descriptor tables of the processes, the pool of kernel stacks, the wake-up of processes that wait
  for a pipe, and the one-shot permissions of the self tests.
\<close>

section \<open>Lookups\<close>

definition process_get_current :: "'d kernel \<Rightarrow> nat option" where
  "process_get_current k = first_index (\<lambda>i. p_state (proc k i) = PROCESS_RUNNING) 0 MAX_PROCESSES"

definition process_get_by_pid :: "u32 \<Rightarrow> 'd kernel \<Rightarrow> nat option" where
  "process_get_by_pid pid k =
     (if pid = 0 then None
      else first_index (\<lambda>i. p_pid (proc k i) = pid \<and> p_state (proc k i) \<noteq> PROCESS_DEAD) 0 MAX_PROCESSES)"

definition process_find_exited_child_by_pid :: "u32 \<Rightarrow> u32 \<Rightarrow> 'd kernel \<Rightarrow> nat option" where
  "process_find_exited_child_by_pid parent_pid target_pid k =
     (if parent_pid = 0 then None
      else first_index (\<lambda>i. let p = proc k i in
             p_pid p \<noteq> 0 \<and> p_parent_pid p = parent_pid \<and> p_state p = PROCESS_ZOMBIE \<and> p_exited p \<and>
             \<not> p_waited p \<and> \<not> (target_pid \<noteq> -1 \<and> p_pid p \<noteq> target_pid)) 0 MAX_PROCESSES)"

definition process_find_exited_child :: "u32 \<Rightarrow> 'd kernel \<Rightarrow> nat option" where
  "process_find_exited_child parent_pid k = process_find_exited_child_by_pid parent_pid (-1) k"

definition process_has_child_by_pid :: "u32 \<Rightarrow> u32 \<Rightarrow> 'd kernel \<Rightarrow> bool" where
  "process_has_child_by_pid parent_pid target_pid k =
     (if parent_pid = 0 then False
      else first_index (\<lambda>i. let p = proc k i in
             p_state p \<noteq> PROCESS_DEAD \<and> p_parent_pid p = parent_pid \<and> \<not> p_waited p \<and>
             (target_pid = -1 \<or> p_pid p = target_pid)) 0 MAX_PROCESSES \<noteq> None)"

definition process_has_child :: "u32 \<Rightarrow> 'd kernel \<Rightarrow> bool" where
  "process_has_child parent_pid k = process_has_child_by_pid parent_pid (-1) k"

definition process_has_exited_child :: "u32 \<Rightarrow> 'd kernel \<Rightarrow> bool" where
  "process_has_exited_child parent_pid k \<longleftrightarrow> process_find_exited_child parent_pid k \<noteq> None"

definition process_get_count :: "'d kernel \<Rightarrow> u32" where
  "process_get_count k = process_count k"

section \<open>Test markers\<close>

definition marker_valid :: "u32 \<Rightarrow> bool" where
  "marker_valid marker \<longleftrightarrow> \<not> (marker = 0 \<or> of_nat PROCESS_TEST_MARKER_WORDS * 64 < marker)"

definition marker_word :: "u32 \<Rightarrow> nat" where "marker_word marker = unat ((marker - 1) div 64)"
definition marker_bit :: "u32 \<Rightarrow> u64" where "marker_bit marker = push_bit (unat ((marker - 1) mod 64)) 1"

definition process_allow_test_marker :: "nat option \<Rightarrow> u32 \<Rightarrow> 'd kernel \<Rightarrow> bool \<times> 'd kernel" where
  "process_allow_test_marker pr marker k =
     (case pr of None \<Rightarrow> (False, k)
      | Some i \<Rightarrow>
          if \<not> marker_valid marker then (False, k)
          else let w = marker_word marker; perms = p_test_marker_permissions (proc k i)
               in (True, set_proc i (\<lambda>p. p\<lparr>p_test_marker_permissions :=
                     perms[w := perms ! w OR marker_bit marker]\<rparr>) k))"

definition process_consume_test_marker :: "nat option \<Rightarrow> u32 \<Rightarrow> 'd kernel \<Rightarrow> bool \<times> 'd kernel" where
  "process_consume_test_marker pr marker k =
     (case pr of None \<Rightarrow> (False, k)
      | Some i \<Rightarrow>
          if \<not> marker_valid marker then (False, k)
          else let w = marker_word marker; perms = p_test_marker_permissions (proc k i)
               in if perms ! w AND marker_bit marker = 0 then (False, k)
                  else (True, set_proc i (\<lambda>p. p\<lparr>p_test_marker_permissions :=
                          perms[w := perms ! w AND NOT (marker_bit marker)]\<rparr>) k))"

definition process_clear_test_markers :: "process \<Rightarrow> process" where
  "process_clear_test_markers p = p\<lparr>p_test_marker_permissions := replicate PROCESS_TEST_MARKER_WORDS 0\<rparr>"

section \<open>Descriptor tables\<close>

definition empty_fd :: process_fd where
  "empty_fd = \<lparr>fd_kind = PROCESS_FD_NONE, fd_handle = -1, fd_flags = 0\<rparr>"

definition process_fd_table_init :: "process \<Rightarrow> process" where
  "process_fd_table_init p = p\<lparr>p_fds := for_loop 0 PROCESS_MAX_FDS (\<lambda>i fds. fds[i := empty_fd]) (p_fds p)\<rparr>"

definition process_fd_install_typed ::
    "nat option \<Rightarrow> process_fd_kind \<Rightarrow> int \<Rightarrow> u32 \<Rightarrow> 'd kernel \<Rightarrow> int \<times> 'd kernel" where
  "process_fd_install_typed pr kind handle flags k =
     (case pr of None \<Rightarrow> (VFS_EINVAL, k)
      | Some i \<Rightarrow>
          if kind = PROCESS_FD_NONE \<or> handle < 0 \<or> flags AND NOT PROCESS_FD_CLOEXEC \<noteq> 0 then (VFS_EINVAL, k)
          else case first_index (\<lambda>fd. fd_kind (p_fds (proc k i) ! fd) = PROCESS_FD_NONE) 0 PROCESS_MAX_FDS of
            Some fd \<Rightarrow>
              (int fd, set_proc i (\<lambda>p. p\<lparr>p_fds := (p_fds p)[fd :=
                 \<lparr>fd_kind = kind, fd_handle = handle, fd_flags = flags\<rparr>]\<rparr>) k)
          | None \<Rightarrow> (VFS_EMFILE, k))"

definition process_fd_install :: "nat option \<Rightarrow> int \<Rightarrow> u32 \<Rightarrow> 'd kernel \<Rightarrow> int \<times> 'd kernel" where
  "process_fd_install pr handle flags k = process_fd_install_typed pr PROCESS_FD_VFS handle flags k"

text \<open>\<open>None\<close> is \<^verbatim>\<open>VFS_EBADF\<close>.\<close>

definition process_fd_get :: "nat option \<Rightarrow> int \<Rightarrow> 'd kernel \<Rightarrow> (process_fd_kind \<times> int) option" where
  "process_fd_get pr fd k =
     (case pr of None \<Rightarrow> None
      | Some i \<Rightarrow>
          let f = p_fds (proc k i) ! nat fd in
          if fd < 0 \<or> fd \<ge> int PROCESS_MAX_FDS \<or> fd_kind f = PROCESS_FD_NONE \<or> fd_handle f < 0 then None
          else Some (fd_kind f, fd_handle f))"

definition process_fd_resolve :: "nat option \<Rightarrow> int \<Rightarrow> 'd kernel \<Rightarrow> int" where
  "process_fd_resolve pr fd k = (case process_fd_get pr fd k of Some (kind, handle) \<Rightarrow> handle | None \<Rightarrow> VFS_EBADF)"

definition pipe_kind :: "process_fd_kind \<Rightarrow> bool" where
  "pipe_kind kind \<longleftrightarrow> kind = PROCESS_FD_PIPE_READ \<or> kind = PROCESS_FD_PIPE_WRITE"

section \<open>Pipes of the kernel\<close>

definition process_wake_pipe_waiter :: "nat \<Rightarrow> block_reason \<Rightarrow> 'd kernel \<Rightarrow> 'd kernel" where
  "process_wake_pipe_waiter pipe_index reason k =
     (case first_index (\<lambda>i. p_state (proc k i) = PROCESS_BLOCKED \<and> p_block_reason (proc k i) = reason \<and>
             (case process_fd_get (Some i) (p_blocked_fd (proc k i)) k of None \<Rightarrow> False
              | Some (kind, handle) \<Rightarrow> pipe_kind kind \<and> pipe_handle_index handle (k_pipes k) = Some pipe_index))
            0 MAX_PROCESSES of
        Some i \<Rightarrow> scheduler_wake (Some i) k
      | None \<Rightarrow> k)"

text \<open>The operations of \<^verbatim>\<open>pipe.c\<close> on the kernel state. A wake-up reads only the \<^verbatim>\<open>used\<close> flags of the
  pipes, which no pipe operation changes before it wakes a process, so the wake-up may be given the
  table from before the operation.\<close>

definition k_pipe_close :: "int \<Rightarrow> 'd kernel \<Rightarrow> int \<times> 'd kernel" where
  "k_pipe_close handle k =
     (let (r, ps, k) = pipe_close process_wake_pipe_waiter handle (k_pipes k, k) in (r, k\<lparr>k_pipes := ps\<rparr>))"

definition k_pipe_retain :: "int \<Rightarrow> 'd kernel \<Rightarrow> int \<times> 'd kernel" where
  "k_pipe_retain handle k = (let (r, ps) = pipe_retain handle (k_pipes k) in (r, k\<lparr>k_pipes := ps\<rparr>))"

definition k_vfs_close :: "int \<Rightarrow> 'd kernel \<Rightarrow> int \<times> 'd kernel" where
  "k_vfs_close handle k = (let (r, v) = vfs_close handle (k_vfs k) in (r, k\<lparr>k_vfs := v\<rparr>))"

definition k_vfs_retain :: "int \<Rightarrow> 'd kernel \<Rightarrow> int \<times> 'd kernel" where
  "k_vfs_retain handle k = (let (r, v) = vfs_retain handle (k_vfs k) in (r, k\<lparr>k_vfs := v\<rparr>))"

section \<open>Closing and inheriting descriptors\<close>

definition process_fd_close :: "nat option \<Rightarrow> int \<Rightarrow> 'd kernel \<Rightarrow> int \<times> 'd kernel" where
  "process_fd_close pr fd k =
     (case process_fd_get pr fd k of None \<Rightarrow> (VFS_EBADF, k)
      | Some (kind, handle) \<Rightarrow>
          let k = set_proc (the pr) (\<lambda>p. p\<lparr>p_fds := (p_fds p)[nat fd := empty_fd]\<rparr>) k in
          if pipe_kind kind
          then let (r, k) = k_pipe_close handle k in (if r = PIPE_SUCCESS then VFS_SUCCESS else VFS_EIO, k)
          else k_vfs_close handle k)"

definition process_fd_close_on_exec :: "nat option \<Rightarrow> 'd kernel \<Rightarrow> 'd kernel" where
  "process_fd_close_on_exec pr k =
     (case pr of None \<Rightarrow> k
      | Some i \<Rightarrow>
          for_loop 0 PROCESS_MAX_FDS (\<lambda>fd k.
            let f = p_fds (proc k i) ! fd in
            if fd_kind f \<noteq> PROCESS_FD_NONE \<and> fd_flags f AND PROCESS_FD_CLOEXEC \<noteq> 0
            then snd (process_fd_close pr (int fd) k) else k) k)"

definition process_fd_close_all :: "nat option \<Rightarrow> 'd kernel \<Rightarrow> 'd kernel" where
  "process_fd_close_all pr k =
     (case pr of None \<Rightarrow> k
      | Some i \<Rightarrow>
          for_loop 0 PROCESS_MAX_FDS (\<lambda>fd k.
            if fd_kind (p_fds (proc k i) ! fd) \<noteq> PROCESS_FD_NONE
            then snd (process_fd_close pr (int fd) k) else k) k)"

definition inherit_fd :: "nat \<Rightarrow> nat \<Rightarrow> nat \<Rightarrow> 'd kernel \<Rightarrow> bool \<times> 'd kernel" where
  "inherit_fd child parent fd k =
     (let f = p_fds (proc k parent) ! fd in
      if fd_kind f = PROCESS_FD_NONE then (True, k)
      else
        let (ok, k) = (if pipe_kind (fd_kind f)
                       then let (r, k) = k_pipe_retain (fd_handle f) k in (r = PIPE_SUCCESS, k)
                       else let (r, k) = k_vfs_retain (fd_handle f) k in (r = VFS_SUCCESS, k))
        in if \<not> ok then (False, k)
           else (True, set_proc child (\<lambda>p. p\<lparr>p_fds := (p_fds p)[fd := p_fds (proc k parent) ! fd]\<rparr>) k))"

definition process_fd_inherit :: "nat option \<Rightarrow> nat option \<Rightarrow> 'd kernel \<Rightarrow> int \<times> 'd kernel" where
  "process_fd_inherit child parent k =
     (case (child, parent) of
        (Some c, Some p) \<Rightarrow>
          let (ok, k) = try_all (inherit_fd c p) [0..<PROCESS_MAX_FDS] k in
          if ok then (VFS_SUCCESS, k) else (VFS_EBADF, process_fd_close_all child k)
      | _ \<Rightarrow> (VFS_EINVAL, k))"

section \<open>Kernel stacks\<close>

definition STACK_SLOTS :: nat where "STACK_SLOTS = 16"
definition STACK_SLOT_SIZE :: nat where "STACK_SLOT_SIZE = 1024"

definition allocate_stack :: "u32 \<Rightarrow> 'd kernel \<Rightarrow> u32 \<times> 'd kernel" where
  "allocate_stack sz k =
     (if sz \<noteq> KERNEL_STACK_SIZE then (0, k)
      else case first_index (\<lambda>i. stack_free_bitmap k AND push_bit i 1 \<noteq> 0) 0 STACK_SLOTS of
        Some i \<Rightarrow>
          (stack_pool k + of_nat (i * STACK_SLOT_SIZE) * 4,
           k\<lparr>stack_free_bitmap := stack_free_bitmap k AND NOT (push_bit i 1)\<rparr>)
      | None \<Rightarrow> (0, k))"

definition free_stack :: "u32 \<Rightarrow> 'd kernel \<Rightarrow> 'd kernel" where
  "free_stack stack k =
     (let off = (uint stack - uint (stack_pool k)) div 4; slot = nat off div STACK_SLOT_SIZE in
      if stack = 0 then k
      else if off < 0 \<or> nat off \<ge> STACK_SLOTS * STACK_SLOT_SIZE then k
      else if slot < STACK_SLOTS
      then k\<lparr>stack_free_bitmap := stack_free_bitmap k OR push_bit slot 1\<rparr> else k)"

end
