(* ===== verification/VM.thy ===== *)
theory VM
  imports Process_Table
begin

text \<open>
  Demand paging and copy-on-write faults, \<^verbatim>\<open>src/kernel/vm.c\<close>, on the process the fault belongs to and
  the paging state.
\<close>

definition VM_PAGE_SIZE :: u32 where "VM_PAGE_SIZE = 4096"
definition VM_FAULT_PRESENT :: u32 where "VM_FAULT_PRESENT = 0x01"
definition VM_FAULT_WRITE :: u32 where "VM_FAULT_WRITE = 0x02"
definition VM_FAULT_USER :: u32 where "VM_FAULT_USER = 0x04"
definition VM_EXIT_PAGE_FAULT :: u32 where "VM_EXIT_PAGE_FAULT = 0x8000000E"
definition VM_EXIT_GUARD_PAGE :: u32 where "VM_EXIT_GUARD_PAGE = 0x8000001E"
definition VM_EXIT_OOM :: u32 where "VM_EXIT_OOM = 0x8000002E"

definition USER_SPACE_START :: u32 where "USER_SPACE_START = 0x40000000"
definition USER_SPACE_END :: u32 where "USER_SPACE_END = 0xC0000000"

datatype vm_fault_result = VM_FAULT_FATAL | VM_FAULT_HANDLED | VM_FAULT_GUARD | VM_FAULT_OOM

definition page_align_down :: "u32 \<Rightarrow> u32" where
  "page_align_down value = value AND NOT (VM_PAGE_SIZE - 1)"

definition is_stack_guard_fault :: "u32 \<Rightarrow> bool" where
  "is_stack_guard_fault fault_addr \<longleftrightarrow> fault_addr \<ge> USER_STACK_GUARD_BOTTOM \<and> fault_addr < USER_STACK_BOTTOM"

definition demand_map_heap_page :: "process \<Rightarrow> u32 \<Rightarrow> mmu \<Rightarrow> vm_fault_result \<times> mmu" where
  "demand_map_heap_page p page m =
     (let (phys, m) = mmu_alloc m in
      if phys = 0 then (VM_FAULT_OOM, m)
      else
        let (ok, m) = paging_map_page_in_directory (p_cr3 p) page phys
                        (PAGE_PRESENT OR PAGE_WRITABLE OR PAGE_USER) m
        in if \<not> ok then (VM_FAULT_OOM, mmu_release phys m)
           else (VM_FAULT_HANDLED, set_bytes page 0 (unat VM_PAGE_SIZE) m))"

definition vm_prepare_user_write_page :: "process option \<Rightarrow> u32 \<Rightarrow> mmu \<Rightarrow> vm_fault_result \<times> mmu" where
  "vm_prepare_user_write_page pr page m =
     (case pr of None \<Rightarrow> (VM_FAULT_FATAL, m)
      | Some p \<Rightarrow>
          if p_cr3 p = 0 \<or> page AND (VM_PAGE_SIZE - 1) \<noteq> 0 \<or> page < USER_SPACE_START \<or>
             page \<ge> USER_SPACE_END \<or> is_stack_guard_fault page then (VM_FAULT_FATAL, m)
          else
            let flags = paging_get_page_flags_in_directory (p_cr3 p) page m in
            if flags AND (PAGE_PRESENT OR PAGE_USER OR PAGE_WRITABLE) = PAGE_PRESENT OR PAGE_USER OR PAGE_WRITABLE
            then (VM_FAULT_HANDLED, m)
            else if flags AND (PAGE_PRESENT OR PAGE_USER OR PAGE_COW) = PAGE_PRESENT OR PAGE_USER OR PAGE_COW
            then let (ok, m) = paging_resolve_cow_fault (p_cr3 p) page m
                 in (if ok then VM_FAULT_HANDLED else VM_FAULT_OOM, m)
            else if flags AND PAGE_PRESENT = 0 \<and> page \<ge> p_heap_start p \<and> page < p_heap_end p
            then demand_map_heap_page p page m
            else (VM_FAULT_FATAL, m))"

definition vm_handle_page_fault :: "process option \<Rightarrow> u32 \<Rightarrow> u32 \<Rightarrow> mmu \<Rightarrow> vm_fault_result \<times> mmu" where
  "vm_handle_page_fault pr fault_addr error_code m =
     (case pr of None \<Rightarrow> (VM_FAULT_FATAL, m)
      | Some p \<Rightarrow>
          if p_cr3 p = 0 \<or> error_code AND VM_FAULT_USER = 0 then (VM_FAULT_FATAL, m)
          else
            let page = page_align_down fault_addr in
            if error_code AND (VM_FAULT_PRESENT OR VM_FAULT_WRITE) = VM_FAULT_PRESENT OR VM_FAULT_WRITE then
              let (ok, m) = paging_resolve_cow_fault (p_cr3 p) page m in
              if ok then (VM_FAULT_HANDLED, m)
              else if paging_get_page_flags_in_directory (p_cr3 p) page m AND PAGE_COW \<noteq> 0
              then (VM_FAULT_OOM, m)
              else (VM_FAULT_FATAL, m)
            else if error_code AND VM_FAULT_PRESENT = 0 \<and> is_stack_guard_fault fault_addr then (VM_FAULT_GUARD, m)
            else if error_code AND VM_FAULT_PRESENT = 0 \<and> fault_addr \<ge> p_heap_start p \<and> fault_addr < p_heap_end p
            then demand_map_heap_page p page m
            else (VM_FAULT_FATAL, m))"

end
