(* ===== verification/Uaccess.thy ===== *)
theory Uaccess
  imports VM
begin

text \<open>
  Access to user memory, \<^verbatim>\<open>src/kernel/uaccess.c\<close>: range and page checks before the kernel reads or
  writes at a user address, with copy-on-write and demand-zero pages resolved before a write.
\<close>

definition UACCESS_SUCCESS :: int where "UACCESS_SUCCESS = 0"
definition UACCESS_EFAULT :: int where "UACCESS_EFAULT = -1"
definition UACCESS_ENOMEM :: int where "UACCESS_ENOMEM = -2"

definition PAGE_MASK :: u32 where "PAGE_MASK = 0xFFFFF000"

definition uaccess_range_valid :: "u32 \<Rightarrow> u32 \<Rightarrow> bool" where
  "uaccess_range_valid address sz \<longleftrightarrow>
     (if sz = 0 then address = 0 \<or> address \<ge> USER_SPACE_START \<and> address < USER_SPACE_END
      else if address < USER_SPACE_START \<or> address \<ge> USER_SPACE_END then False
      else let end' = address + sz in
           if end' < address \<or> USER_SPACE_END < end' then False else True)"

definition active_process_directory :: "'d kernel \<Rightarrow> nat option" where
  "active_process_directory k =
     (case process_get_current k of None \<Rightarrow> None
      | Some i \<Rightarrow>
          if p_cr3 (proc k i) = 0 \<or> p_cr3 (proc k i) \<noteq> paging_get_current_directory (k_mmu k) then None
          else Some i)"

text \<open>The pages visited by \<^verbatim>\<open>for (page = first;; page += PAGE_SIZE)\<close> up to \<^verbatim>\<open>page == last\<close>.\<close>

definition pages_between :: "u32 \<Rightarrow> u32 \<Rightarrow> u32 list" where
  "pages_between first_page last_page =
     map (\<lambda>i. first_page + of_nat i * PAGE_SIZE) [0..<Suc (unat ((last_page - first_page) div PAGE_SIZE))]"

definition range_pages :: "u32 \<Rightarrow> u32 \<Rightarrow> u32 list" where
  "range_pages address sz = pages_between (address AND PAGE_MASK) ((address + sz - 1) AND PAGE_MASK)"

definition uaccess_readable :: "u32 \<Rightarrow> u32 \<Rightarrow> 'd kernel \<Rightarrow> bool" where
  "uaccess_readable address sz k \<longleftrightarrow>
     (if \<not> uaccess_range_valid address sz then False
      else if sz = 0 then True
      else case active_process_directory k of None \<Rightarrow> False
      | Some i \<Rightarrow>
          list_all (\<lambda>page. paging_get_page_flags_in_directory (p_cr3 (proc k i)) page (k_mmu k) AND
                      (PAGE_PRESENT OR PAGE_USER) = PAGE_PRESENT OR PAGE_USER) (range_pages address sz))"

fun prepare_pages :: "process \<Rightarrow> u32 list \<Rightarrow> mmu \<Rightarrow> int \<times> mmu" where
  "prepare_pages p [] m = (UACCESS_SUCCESS, m)"
| "prepare_pages p (page # pages) m =
     (let (result, m) = vm_prepare_user_write_page (Some p) page m in
      if result = VM_FAULT_OOM then (UACCESS_ENOMEM, m)
      else if result \<noteq> VM_FAULT_HANDLED then (UACCESS_EFAULT, m)
      else prepare_pages p pages m)"

definition uaccess_prepare_write :: "u32 \<Rightarrow> u32 \<Rightarrow> 'd kernel \<Rightarrow> int \<times> 'd kernel" where
  "uaccess_prepare_write address sz k =
     (if \<not> uaccess_range_valid address sz then (UACCESS_EFAULT, k)
      else if sz = 0 then (UACCESS_SUCCESS, k)
      else case active_process_directory k of None \<Rightarrow> (UACCESS_EFAULT, k)
      | Some i \<Rightarrow>
          let (status, m) = prepare_pages (proc k i) (range_pages address sz) (k_mmu k)
          in (status, k\<lparr>k_mmu := m\<rparr>))"

definition copy_from_user :: "bool \<Rightarrow> u32 \<Rightarrow> u32 \<Rightarrow> 'd kernel \<Rightarrow> int \<times> u8 list \<times> 'd kernel" where
  "copy_from_user dest_ok source sz k =
     (if \<not> dest_ok \<and> 0 < sz \<or> \<not> uaccess_readable source sz k then (UACCESS_EFAULT, [], k)
      else let (data, m) = load_bytes source (unat sz) (k_mmu k)
           in (UACCESS_SUCCESS, data, k\<lparr>k_mmu := m\<rparr>))"

definition copy_to_user :: "u32 \<Rightarrow> u8 list option \<Rightarrow> u32 \<Rightarrow> 'd kernel \<Rightarrow> int \<times> 'd kernel" where
  "copy_to_user dest source sz k =
     (if source = None \<and> 0 < sz then (UACCESS_EFAULT, k)
      else
        let (status, k) = uaccess_prepare_write dest sz k in
        if status \<noteq> UACCESS_SUCCESS then (status, k)
        else if 0 < sz then (UACCESS_SUCCESS, set_mmu (store_bytes dest (take (unat sz) (the source))) k)
        else (UACCESS_SUCCESS, k))"

text \<open>\<open>n\<close> counts the bytes that may still be copied; the result is the string without its end.\<close>

fun copy_string_loop :: "nat \<Rightarrow> u32 \<Rightarrow> u8 list \<Rightarrow> 'd kernel \<Rightarrow> int \<times> u8 list \<times> 'd kernel" where
  "copy_string_loop 0 source dest k = (UACCESS_EFAULT, dest, k)"
| "copy_string_loop (Suc n) source dest k =
     (let (status, b, k) = copy_from_user True source 1 k in
      if status \<noteq> UACCESS_SUCCESS then (UACCESS_EFAULT, dest, k)
      else if hd b = 0 then (UACCESS_SUCCESS, dest, k)
      else copy_string_loop n (source + 1) (dest @ b) k)"

definition copy_string_from_user :: "bool \<Rightarrow> u32 \<Rightarrow> u32 \<Rightarrow> 'd kernel \<Rightarrow> int \<times> u8 list \<times> 'd kernel" where
  "copy_string_from_user dest_ok source max_size k =
     (if \<not> dest_ok \<or> max_size = 0 then (UACCESS_EFAULT, [], k)
      else copy_string_loop (unat max_size) source [] k)"

end
