(* ===== verification/Process.thy ===== *)
theory Process
  imports Uaccess
begin

text \<open>
  The life of a process, \<^verbatim>\<open>src/kernel/process.c\<close>: creation, fork, exit, waiting, signals and the
  reclaiming of exited processes at a context switch.
\<close>

section \<open>Constants\<close>

definition SIGKILL :: u32 where "SIGKILL = 9"
definition SIGTERM :: u32 where "SIGTERM = 15"
definition SIGCHLD :: u32 where "SIGCHLD = 17"
definition NSIG :: u32 where "NSIG = 32"

definition W_EXITCODE :: "u32 \<Rightarrow> u32 \<Rightarrow> u32" where
  "W_EXITCODE code sig = push_bit 8 (code AND 0xFF) OR (sig AND 0x7F)"

definition WIFEXITED :: "u32 \<Rightarrow> bool" where "WIFEXITED status \<longleftrightarrow> status AND 0x7F = 0"
definition WEXITSTATUS :: "u32 \<Rightarrow> u32" where "WEXITSTATUS status = drop_bit 8 status AND 0xFF"
definition WIFSIGNALED :: "u32 \<Rightarrow> bool" where "WIFSIGNALED status \<longleftrightarrow> status AND 0x7F \<noteq> 0"
definition WTERMSIG :: "u32 \<Rightarrow> u32" where "WTERMSIG status = status AND 0x7F"

definition SYSCALL_EFAULT :: u32 where "SYSCALL_EFAULT = -2"
definition SYSCALL_EBADF :: u32 where "SYSCALL_EBADF = -9"
definition SYSCALL_EAGAIN :: u32 where "SYSCALL_EAGAIN = -13"
definition SYSCALL_EPIPE :: u32 where "SYSCALL_EPIPE = -15"

definition signal_bit :: "u32 \<Rightarrow> u32" where "signal_bit signum = push_bit (unat signum) 1"

section \<open>Creation\<close>

definition process_signal_init :: "process \<Rightarrow> process" where
  "process_signal_init p = p\<lparr>p_pending_signals := 0, p_killed_by_signal := 0\<rparr>"

definition process_init :: "'d kernel \<Rightarrow> 'd kernel" where
  "process_init k = k\<lparr>process_table := replicate MAX_PROCESSES zero_process, next_pid := 1, process_count := 0,
     stack_free_bitmap := 0xFFFF\<rparr>"

text \<open>The fields both creation functions set before they allocate the stack.\<close>

definition init_fields :: "u32 \<Rightarrow> u32 \<Rightarrow> bool \<Rightarrow> process \<Rightarrow> process" where
  "init_fields pid dir interrupt_frame p =
     (let p = p\<lparr>p_pid := pid, p_state := PROCESS_READY, p_cr3 := dir, p_interrupt_frame := interrupt_frame,
                p_priority := PROCESS_DEFAULT_PRIORITY, p_dynamic_priority := PROCESS_DEFAULT_PRIORITY,
                p_run_count := 0\<rparr>;
          p = process_clear_test_markers p;
          p = p\<lparr>p_parent_pid := 0, p_exit_code := 0, p_exited := False, p_waited := False,
                p_waiting_for_child := False, p_wait_target_pid := 0, p_wait_status_ptr := 0,
                p_wait_result_status := 0, p_wait_completion_pending := False, p_wait_is_waitpid := False,
                p_block_reason := BLOCK_NONE, p_blocked_fd := -1, p_blocked_buffer := 0, p_blocked_count := 0\<rparr>;
          p = process_signal_init p;
          p = p\<lparr>p_heap_start := PROCESS_HEAP_START, p_heap_end := PROCESS_HEAP_START\<rparr>
      in process_fd_table_init p)"

definition free_slot :: "'d kernel \<Rightarrow> nat option" where
  "free_slot k = first_index (\<lambda>i. p_state (proc k i) = PROCESS_DEAD) 0 MAX_PROCESSES"

definition create_with :: "bool \<Rightarrow> u32 list \<Rightarrow> u32 \<Rightarrow> 'd kernel \<Rightarrow> nat option \<times> 'd kernel" where
  "create_with interrupt_frame stack_words entry_point k =
     (if process_count k \<ge> of_nat MAX_PROCESSES then (None, k)
      else case free_slot k of None \<Rightarrow> (None, k)
      | Some i \<Rightarrow>
          let k = set_proc i (init_fields (next_pid k) (paging_get_current_directory (k_mmu k)) interrupt_frame)
                    (k\<lparr>next_pid := next_pid k + 1\<rparr>);
              (stack, k) = allocate_stack KERNEL_STACK_SIZE k;
              k = set_proc i (\<lambda>p. p\<lparr>p_kernel_stack := stack\<rparr>) k
          in if stack = 0 then (None, set_proc i (\<lambda>p. p\<lparr>p_state := PROCESS_DEAD, p_pid := 0\<rparr>) k)
             else
               let (stack_top, mem) = push_words (stack + KERNEL_STACK_SIZE) stack_words (kstack k);
                   k = set_proc i (\<lambda>p. p\<lparr>p_esp := stack_top, p_ebp := 0, p_eip := entry_point\<rparr>)
                         (k\<lparr>kstack := mem\<rparr>)
               in (Some i, k\<lparr>process_count := process_count k + 1\<rparr>))"

definition process_create :: "u32 \<Rightarrow> bool \<Rightarrow> 'd kernel \<Rightarrow> nat option \<times> 'd kernel" where
  "process_create entry_point is_user k =
     create_with False
       (if is_user then [0x23, USER_STACK_TOP, 0x202, 0x1B, entry_point, 0, 0, 0, 0, 0, 0, 0, 0]
        else [entry_point, 0, 0, 0, 0]) entry_point k"

definition process_create_preemptive :: "u32 \<Rightarrow> 'd kernel \<Rightarrow> nat option \<times> 'd kernel" where
  "process_create_preemptive entry_point k =
     create_with True [0x202, 0x08, entry_point, 0x10, 0x10, 0x10, 0x10, 0, 0, 0, 0, 0, 0, 0, 0] entry_point k"

definition copy_frame :: "u32 \<Rightarrow> u32 \<Rightarrow> 'd kernel \<Rightarrow> 'd kernel" where
  "copy_frame dest src k = k\<lparr>kstack := for_loop 0 FRAME_WORDS
     (\<lambda>j mem. mem(dest + 4 * of_nat j := mem (src + 4 * of_nat j))) (kstack k)\<rparr>"

text \<open>The part of \<^verbatim>\<open>process_fork\<close> after the address space has been copied.\<close>

definition fork_finish :: "nat \<Rightarrow> nat \<Rightarrow> u32 \<Rightarrow> u32 \<Rightarrow> u32 \<Rightarrow> 'd kernel \<Rightarrow> nat option \<times> 'd kernel" where
  "fork_finish child parent parent_frame stack child_cr3 k =
     (let child_frame = stack + KERNEL_STACK_SIZE - 4 * of_nat FRAME_WORDS;
          k = copy_frame child_frame parent_frame k;
          k = set_field child_frame EAX 0 k;
          k = set_field child_frame EFLAGS (get_field child_frame EFLAGS k OR 0x200) k;
          pa = proc k parent;
          k = set_proc child (\<lambda>p. process_signal_init (p\<lparr>
                p_pid := next_pid k, p_esp := child_frame, p_ebp := get_field child_frame EBP k,
                p_eip := get_field child_frame EIP k, p_cr3 := child_cr3,
                p_interrupt_frame := True, p_priority := p_priority pa,
                p_dynamic_priority := p_priority pa, p_run_count := 0,
                p_test_marker_permissions := p_test_marker_permissions pa,
                p_state := PROCESS_READY, p_user_stack := get_field child_frame USER_ESP k,
                p_parent_pid := p_pid pa, p_block_reason := BLOCK_NONE, p_blocked_fd := -1,
                p_heap_start := p_heap_start pa, p_heap_end := p_heap_end pa, p_next := None\<rparr>))
                (k\<lparr>next_pid := next_pid k + 1\<rparr>);
          (status, k) = process_fd_inherit (Some child) (Some parent) k
      in if status \<noteq> VFS_SUCCESS
         then let k = set_mmu (paging_destroy_address_space child_cr3) k;
                  k = free_stack (p_kernel_stack (proc k child)) k
              in (None, set_proc child (\<lambda>_. zero_process) k)
         else let k = set_proc parent (\<lambda>p. p\<lparr>p_interrupt_frame := True\<rparr>) k
              in (Some child, k\<lparr>process_count := process_count k + 1\<rparr>))"

definition process_fork :: "nat option \<Rightarrow> u32 \<Rightarrow> 'd kernel \<Rightarrow> nat option \<times> 'd kernel" where
  "process_fork parent_ptr parent_frame k =
     (case parent_ptr of None \<Rightarrow> (None, k)
      | Some parent \<Rightarrow>
          if parent_frame = 0 \<or> get_field parent_frame CS k AND 0x03 \<noteq> 0x03 \<or> p_cr3 (proc k parent) = 0 \<or>
             process_count k \<ge> of_nat MAX_PROCESSES then (None, k)
          else case free_slot k of None \<Rightarrow> (None, k)
          | Some child \<Rightarrow>
              let k = set_proc child (\<lambda>_. process_fd_table_init zero_process) k;
                  (stack, k) = allocate_stack KERNEL_STACK_SIZE k;
                  k = set_proc child (\<lambda>p. p\<lparr>p_kernel_stack := stack\<rparr>) k
              in if stack = 0 then (None, k)
                 else
                   let (child_cr3, m) = paging_clone_directory (p_cr3 (proc k parent)) (k_mmu k);
                       k = k\<lparr>k_mmu := m\<rparr>
                   in if child_cr3 = 0
                      then (None, set_proc child (\<lambda>_. zero_process) (free_stack (p_kernel_stack (proc k child)) k))
                      else
                        fork_finish child parent parent_frame stack child_cr3 k)"

section \<open>Destruction\<close>

definition clear_fields :: "process \<Rightarrow> process" where
  "clear_fields p =
     (let p = p\<lparr>p_state := PROCESS_DEAD, p_pid := 0, p_kernel_stack := 0, p_esp := 0, p_ebp := 0, p_eip := 0,
                p_cr3 := 0, p_interrupt_frame := False, p_priority := 0, p_dynamic_priority := 0, p_run_count := 0\<rparr>;
          p = process_clear_test_markers p;
          p = p\<lparr>p_parent_pid := 0, p_exit_code := 0, p_exited := False, p_waited := False,
                p_waiting_for_child := False, p_wait_status_ptr := 0, p_wait_result_status := 0,
                p_wait_completion_pending := False, p_wait_target_pid := 0, p_block_reason := BLOCK_NONE,
                p_blocked_fd := -1, p_blocked_buffer := 0, p_blocked_count := 0\<rparr>;
          p = process_signal_init p;
          p = p\<lparr>p_heap_start := 0, p_heap_end := 0, p_user_stack := 0, p_next := None\<rparr>
      in process_fd_table_init p)"

definition process_destroy :: "nat option \<Rightarrow> 'd kernel \<Rightarrow> 'd kernel" where
  "process_destroy pr k =
     (case pr of None \<Rightarrow> k
      | Some i \<Rightarrow>
          if p_state (proc k i) = PROCESS_DEAD then k
          else
            let k = process_fd_close_all pr k;
                k = set_mmu (paging_destroy_address_space (p_cr3 (proc k i))) k;
                k = free_stack (p_kernel_stack (proc k i)) k;
                k = set_proc i clear_fields k
            in if 0 < process_count k then k\<lparr>process_count := process_count k - 1\<rparr> else k)"

definition process_set_address_space :: "nat option \<Rightarrow> u32 \<Rightarrow> 'd kernel \<Rightarrow> 'd kernel" where
  "process_set_address_space pr dir k =
     (case pr of None \<Rightarrow> k | Some i \<Rightarrow> set_proc i (\<lambda>p. p\<lparr>p_cr3 := dir\<rparr>) k)"

section \<open>Waiting\<close>

definition process_begin_waitpid :: "nat option \<Rightarrow> u32 \<Rightarrow> u32 \<Rightarrow> 'd kernel \<Rightarrow> 'd kernel" where
  "process_begin_waitpid pr status_ptr target_pid k =
     (case pr of None \<Rightarrow> k
      | Some i \<Rightarrow> set_proc i (\<lambda>p. p\<lparr>p_waiting_for_child := True, p_wait_target_pid := target_pid,
          p_wait_status_ptr := status_ptr, p_wait_result_status := 0, p_wait_completion_pending := False,
          p_wait_is_waitpid := False, p_block_reason := BLOCK_WAIT_CHILD\<rparr>) k)"

definition process_begin_wait :: "nat option \<Rightarrow> u32 \<Rightarrow> 'd kernel \<Rightarrow> 'd kernel" where
  "process_begin_wait pr status_ptr k = process_begin_waitpid pr status_ptr (-1) k"

definition process_cancel_wait :: "nat option \<Rightarrow> 'd kernel \<Rightarrow> 'd kernel" where
  "process_cancel_wait pr k =
     (case pr of None \<Rightarrow> k
      | Some i \<Rightarrow> set_proc i (\<lambda>p. p\<lparr>p_waiting_for_child := False, p_wait_target_pid := 0,
          p_wait_status_ptr := 0, p_wait_result_status := 0, p_wait_completion_pending := False,
          p_block_reason := BLOCK_NONE\<rparr>) k)"

definition process_begin_pipe_wait :: "nat option \<Rightarrow> block_reason \<Rightarrow> int \<Rightarrow> u32 \<Rightarrow> u32 \<Rightarrow> 'd kernel \<Rightarrow> 'd kernel" where
  "process_begin_pipe_wait pr reason fd buffer count k =
     (case pr of None \<Rightarrow> k
      | Some i \<Rightarrow>
          if reason \<noteq> BLOCK_PIPE_READ \<and> reason \<noteq> BLOCK_PIPE_WRITE then k
          else set_proc i (\<lambda>p. p\<lparr>p_block_reason := reason, p_blocked_fd := fd, p_blocked_buffer := buffer,
                 p_blocked_count := count\<rparr>) k)"

section \<open>Signals and exit\<close>

definition process_send_signal :: "nat option \<Rightarrow> u32 \<Rightarrow> 'd kernel \<Rightarrow> int \<times> 'd kernel" where
  "process_send_signal pr signum k =
     (case pr of None \<Rightarrow> (-1, k)
      | Some i \<Rightarrow>
          if signum \<noteq> SIGKILL \<and> signum \<noteq> SIGTERM \<and> signum \<noteq> SIGCHLD \<or>
             p_state (proc k i) = PROCESS_DEAD \<or> p_state (proc k i) = PROCESS_ZOMBIE then (-1, k)
          else (0, set_proc i (\<lambda>p. p\<lparr>p_pending_signals := p_pending_signals p OR signal_bit signum\<rparr>) k))"

definition orphan :: "u32 \<Rightarrow> nat \<Rightarrow> 'd kernel \<Rightarrow> 'd kernel" where
  "orphan pid i k =
     (if p_state (proc k i) \<noteq> PROCESS_DEAD \<and> p_parent_pid (proc k i) = pid
      then set_proc i (\<lambda>p. p\<lparr>p_parent_pid := 0, p_waited := p_waited p \<or> p_state p = PROCESS_ZOMBIE\<rparr>) k
      else k)"

definition exit_status :: "process \<Rightarrow> u32" where
  "exit_status p = (if p_killed_by_signal p \<noteq> 0 then W_EXITCODE 0 (p_killed_by_signal p)
     else W_EXITCODE (p_exit_code p) 0)"

text \<open>What \<^verbatim>\<open>process_mark_exit\<close> does once the descriptors are closed.\<close>

definition announce_exit :: "nat \<Rightarrow> 'd kernel \<Rightarrow> 'd kernel" where
  "announce_exit i k =
     (let k = set_proc i (\<lambda>p. p\<lparr>p_state := PROCESS_ZOMBIE, p_block_reason := BLOCK_NONE\<rparr>) k;
          encoded_status = exit_status (proc k i);
          k = for_loop 0 MAX_PROCESSES (\<lambda>j k. orphan (p_pid (proc k i)) j k) k
      in case process_get_by_pid (p_parent_pid (proc k i)) k of
           None \<Rightarrow> set_proc i (\<lambda>p. p\<lparr>p_waited := True\<rparr>) k
         | Some parent \<Rightarrow>
             if p_state (proc k parent) = PROCESS_ZOMBIE then set_proc i (\<lambda>p. p\<lparr>p_waited := True\<rparr>) k
             else
               let k = snd (process_send_signal (Some parent) SIGCHLD k); pa = proc k parent in
               if p_state pa = PROCESS_BLOCKED \<and> p_waiting_for_child pa \<and>
                  (p_wait_target_pid pa = -1 \<or> p_wait_target_pid pa = p_pid (proc k i)) then
                 let k = set_proc parent (\<lambda>p. p\<lparr>p_wait_result_status :=
                             (if p_wait_is_waitpid p then encoded_status else p_exit_code (proc k i)),
                           p_wait_completion_pending := True, p_waiting_for_child := False,
                           p_block_reason := BLOCK_NONE\<rparr>) k;
                     k = (if p_esp (proc k parent) \<noteq> 0
                          then set_field (p_esp (proc k parent)) EAX (p_pid (proc k i)) k else k);
                     k = set_proc i (\<lambda>p. p\<lparr>p_waited := True\<rparr>) k
                 in scheduler_wake (Some parent) k
               else k)"

definition process_mark_exit :: "nat option \<Rightarrow> u32 \<Rightarrow> 'd kernel \<Rightarrow> 'd kernel" where
  "process_mark_exit pr exit_code k =
     (case pr of None \<Rightarrow> k
      | Some i \<Rightarrow>
          if p_state (proc k i) = PROCESS_DEAD \<or> p_state (proc k i) = PROCESS_ZOMBIE then k
          else
            let k = scheduler_remove pr k;
                code = (if exit_code AND 0x80000000 \<noteq> 0 then exit_code else exit_code AND 0xFF);
                k = set_proc i (\<lambda>p. p\<lparr>p_exit_code := code, p_exited := True\<rparr>) k;
                k = process_fd_close_all pr k
            in announce_exit i k)"

definition process_mark_signal_exit :: "nat option \<Rightarrow> u32 \<Rightarrow> 'd kernel \<Rightarrow> 'd kernel" where
  "process_mark_signal_exit pr signum k =
     (case pr of None \<Rightarrow> k
      | Some i \<Rightarrow>
          if signum \<noteq> SIGKILL \<and> signum \<noteq> SIGTERM then k
          else process_mark_exit pr 0 (set_proc i (\<lambda>p. p\<lparr>
                 p_pending_signals := p_pending_signals p AND NOT (signal_bit signum),
                 p_killed_by_signal := signum\<rparr>) k))"

text \<open>The loop of \<^verbatim>\<open>process_deliver_signals\<close>: \<open>None\<close> when it does not end.\<close>

definition deliver_kill :: "nat \<Rightarrow> u32 \<Rightarrow> u32 \<Rightarrow> 'd kernel \<Rightarrow> u32 \<times> 'd kernel" where
  "deliver_kill i signum frame_esp k =
     (let k = set_proc i (\<lambda>p. p\<lparr>p_pending_signals := p_pending_signals p AND NOT (signal_bit signum),
                                p_killed_by_signal := signum\<rparr>) k
      in scheduler_exit_current frame_esp (process_mark_exit (Some i) 0 k))"

partial_function (option) process_deliver_signals :: "u32 \<Rightarrow> 'd kernel \<Rightarrow> (u32 \<times> 'd kernel) option" where
  "process_deliver_signals frame_esp k =
     (case process_get_current k of None \<Rightarrow> Some (frame_esp, k)
      | Some i \<Rightarrow>
          if p_state (proc k i) \<noteq> PROCESS_RUNNING then Some (frame_esp, k)
          else if frame_esp = 0 \<or> get_field frame_esp CS k AND 3 \<noteq> 3 then Some (frame_esp, k)
          else if p_pending_signals (proc k i) AND signal_bit SIGKILL \<noteq> 0 then
            let (esp, k) = deliver_kill i SIGKILL frame_esp k in process_deliver_signals esp k
          else if p_pending_signals (proc k i) AND signal_bit SIGTERM \<noteq> 0 then
            let (esp, k) = deliver_kill i SIGTERM frame_esp k in process_deliver_signals esp k
          else if p_pending_signals (proc k i) AND signal_bit SIGCHLD \<noteq> 0 then
            process_deliver_signals frame_esp
              (set_proc i (\<lambda>p. p\<lparr>p_pending_signals := p_pending_signals p AND NOT (signal_bit SIGCHLD)\<rparr>) k)
          else Some (frame_esp, k))"

section \<open>Completing a context switch\<close>

definition k_pipe_read :: "int \<Rightarrow> u32 \<Rightarrow> u32 \<Rightarrow> 'd kernel \<Rightarrow> int \<times> 'd kernel" where
  "k_pipe_read handle buffer count k =
     (let (r, data, ps, k) = pipe_read process_wake_pipe_waiter handle (buffer \<noteq> 0) count (k_pipes k, k)
      in (r, set_mmu (store_bytes buffer data) (k\<lparr>k_pipes := ps\<rparr>)))"

definition k_pipe_write :: "int \<Rightarrow> u32 \<Rightarrow> u32 \<Rightarrow> 'd kernel \<Rightarrow> int \<times> 'd kernel" where
  "k_pipe_write handle buffer count k =
     (let src = (if buffer = 0 then None else Some (reader_at buffer (k_mmu k)));
          (r, ps, k) = pipe_write process_wake_pipe_waiter handle src count (k_pipes k, k)
      in (r, set_mmu (touch_read buffer (nat r)) (k\<lparr>k_pipes := ps\<rparr>)))"

definition pipe_result :: "int \<Rightarrow> u32" where
  "pipe_result result =
     (if result = PIPE_BROKEN then SYSCALL_EPIPE
      else if result = PIPE_WOULD_BLOCK then SYSCALL_EAGAIN
      else if result < 0 then SYSCALL_EBADF
      else of_int result)"

definition process_complete_pipe_io :: "nat option \<Rightarrow> 'd kernel \<Rightarrow> 'd kernel" where
  "process_complete_pipe_io pr k =
     (case pr of None \<Rightarrow> k
      | Some i \<Rightarrow>
          let p = proc k i in
          if p_block_reason p \<noteq> BLOCK_PIPE_READ \<and> p_block_reason p \<noteq> BLOCK_PIPE_WRITE then k
          else
            let (result, k) =
                  (case process_fd_get pr (p_blocked_fd p) k of None \<Rightarrow> (PIPE_EBADF, k)
                   | Some (kind, handle) \<Rightarrow>
                       if p_block_reason p = BLOCK_PIPE_READ \<and> kind = PROCESS_FD_PIPE_READ
                       then k_pipe_read handle (p_blocked_buffer p) (p_blocked_count p) k
                       else if p_block_reason p = BLOCK_PIPE_WRITE \<and> kind = PROCESS_FD_PIPE_WRITE
                       then k_pipe_write handle (p_blocked_buffer p) (p_blocked_count p) k
                       else (PIPE_EBADF, k));
                k = (if p_esp (proc k i) \<noteq> 0 then set_field (p_esp (proc k i)) EAX (pipe_result result) k else k)
            in set_proc i (\<lambda>p. p\<lparr>p_block_reason := BLOCK_NONE, p_blocked_fd := -1, p_blocked_buffer := 0,
                 p_blocked_count := 0\<rparr>) k)"

definition complete_wait :: "nat \<Rightarrow> 'd kernel \<Rightarrow> 'd kernel" where
  "complete_wait i k =
     (if \<not> p_wait_completion_pending (proc k i) then k
      else
        let (failed, k) =
              (if p_wait_status_ptr (proc k i) = 0 then (False, k)
               else let (status, k) = copy_to_user (p_wait_status_ptr (proc k i))
                          (Some (le32 (p_wait_result_status (proc k i)))) 4 k
                    in (status \<noteq> UACCESS_SUCCESS, k));
            k = (if failed \<and> p_esp (proc k i) \<noteq> 0 then set_field (p_esp (proc k i)) EAX SYSCALL_EFAULT k else k)
        in set_proc i (\<lambda>p. p\<lparr>p_wait_status_ptr := 0, p_wait_result_status := 0,
             p_wait_completion_pending := False\<rparr>) k)"

definition reap :: "nat option \<Rightarrow> nat \<Rightarrow> 'd kernel \<Rightarrow> 'd kernel" where
  "reap cur i k =
     (if cur = Some i \<or> p_state (proc k i) \<noteq> PROCESS_ZOMBIE then k
      else
        let parent = process_get_by_pid (p_parent_pid (proc k i)) k in
        if p_waited (proc k i) \<or> p_parent_pid (proc k i) = 0 \<or>
           (case parent of None \<Rightarrow> True | Some pa \<Rightarrow> p_state (proc k pa) = PROCESS_ZOMBIE)
        then process_destroy (Some i) k else k)"

definition process_complete_context_switch :: "'d kernel \<Rightarrow> 'd kernel" where
  "process_complete_context_switch k =
     (let cur = process_get_current k;
          k = (case cur of None \<Rightarrow> k | Some i \<Rightarrow> process_complete_pipe_io cur (complete_wait i k))
      in for_loop 0 MAX_PROCESSES (reap cur) k)"

end
