(* ===== verification/Elf.thy ===== *)
theory Elf
  imports Process
begin

text \<open>
  The program loader, \<^verbatim>\<open>src/kernel/elf.c\<close>: the file is read into a buffer, its headers are validated,
  and each loadable segment is mapped, filled and protected in the active address space.
\<close>

section \<open>Headers\<close>

definition ELF_SUCCESS :: int where "ELF_SUCCESS = 0"
definition ELF_EINVAL :: int where "ELF_EINVAL = -1"
definition ELF_ENOENT :: int where "ELF_ENOENT = -2"
definition ELF_EIO :: int where "ELF_EIO = -3"
definition ELF_ENOSPC :: int where "ELF_ENOSPC = -4"
definition ELF_MAX_SEGMENTS :: u16 where "ELF_MAX_SEGMENTS = 8"
definition ELF_MAX_IMAGE_SIZE :: u32 where "ELF_MAX_IMAGE_SIZE = 8192"
definition ELF_MAX_LOAD_MEMORY_SIZE :: u32 where "ELF_MAX_LOAD_MEMORY_SIZE = 65536"
definition ELF_USER_LOAD_MIN :: u32 where "ELF_USER_LOAD_MIN = 0x40000000"
definition ELF_USER_LOAD_MAX :: u32 where "ELF_USER_LOAD_MAX = 0x90000000"
definition ELF_PT_LOAD :: u32 where "ELF_PT_LOAD = 1"
definition ELF_PF_W :: u32 where "ELF_PF_W = 0x02"

record elf32_header =
  eh_ident :: "u8 list"
  eh_type :: u16
  eh_machine :: u16
  eh_version :: u32
  eh_entry :: u32
  eh_phoff :: u32
  eh_shoff :: u32
  eh_flags :: u32
  eh_ehsize :: u16
  eh_phentsize :: u16
  eh_phnum :: u16
  eh_shentsize :: u16
  eh_shnum :: u16
  eh_shstrndx :: u16

record elf32_program_header =
  ph_type :: u32
  ph_offset :: u32
  ph_vaddr :: u32
  ph_paddr :: u32
  ph_filesz :: u32
  ph_memsz :: u32
  ph_flags :: u32
  ph_align :: u32

definition header_of_bytes :: "u8 list \<Rightarrow> elf32_header" where
  "header_of_bytes bs = \<lparr>eh_ident = take 16 bs, eh_type = of_le16 (drop 16 bs), eh_machine = of_le16 (drop 18 bs),
     eh_version = of_le32 (drop 20 bs), eh_entry = of_le32 (drop 24 bs), eh_phoff = of_le32 (drop 28 bs),
     eh_shoff = of_le32 (drop 32 bs), eh_flags = of_le32 (drop 36 bs), eh_ehsize = of_le16 (drop 40 bs),
     eh_phentsize = of_le16 (drop 42 bs), eh_phnum = of_le16 (drop 44 bs), eh_shentsize = of_le16 (drop 46 bs),
     eh_shnum = of_le16 (drop 48 bs), eh_shstrndx = of_le16 (drop 50 bs)\<rparr>"

definition ph_of_bytes :: "u8 list \<Rightarrow> elf32_program_header" where
  "ph_of_bytes bs = \<lparr>ph_type = of_le32 bs, ph_offset = of_le32 (drop 4 bs), ph_vaddr = of_le32 (drop 8 bs),
     ph_paddr = of_le32 (drop 12 bs), ph_filesz = of_le32 (drop 16 bs), ph_memsz = of_le32 (drop 20 bs),
     ph_flags = of_le32 (drop 24 bs), ph_align = of_le32 (drop 28 bs)\<rparr>"

definition elf_align_down :: "u32 \<Rightarrow> u32" where
  "elf_align_down value = value AND NOT (FRAME_SIZE - 1)"

definition elf_align_up :: "u32 \<Rightarrow> u32" where
  "elf_align_up value = (value + FRAME_SIZE - 1) AND NOT (FRAME_SIZE - 1)"

definition add_overflows :: "u32 \<Rightarrow> u32 \<Rightarrow> bool" where
  "add_overflows a b \<longleftrightarrow> a + b < a"

definition power_of_two_or_zero :: "u32 \<Rightarrow> bool" where
  "power_of_two_or_zero value \<longleftrightarrow> (if value = 0 then True else value AND (value - 1) = 0)"

definition range_inside_file :: "u32 \<Rightarrow> u32 \<Rightarrow> u32 \<Rightarrow> bool" where
  "range_inside_file offset sz file_size \<longleftrightarrow>
     (if add_overflows offset sz then False else offset + sz \<le> file_size)"

definition range_inside_user_space :: "u32 \<Rightarrow> u32 \<Rightarrow> bool" where
  "range_inside_user_space start sz \<longleftrightarrow>
     (if sz = 0 \<or> add_overflows start sz then False
      else if start < ELF_USER_LOAD_MIN then False
      else start + sz \<le> ELF_USER_LOAD_MAX)"

section \<open>Reading the file\<close>

function read_file_loop :: "int \<Rightarrow> nat \<Rightarrow> nat \<Rightarrow> u8 list \<Rightarrow> 'd vfs \<Rightarrow> int \<times> u8 list \<times> 'd vfs" where
  "read_file_loop fd sz n buf v =
     (if n < sz then
        let (count, data, v) = vfs_read fd True (of_nat (sz - n)) v in
        if count \<le> 0 then (ELF_EIO, buf, snd (vfs_close fd v))
        else read_file_loop fd sz (n + nat count) (buf @ data) v
      else
        let (r, v) = vfs_close fd v
        in (if r \<noteq> VFS_SUCCESS \<or> n \<noteq> sz then ELF_EIO else ELF_SUCCESS, buf, v))"
  by pat_completeness auto
termination
  by (relation "measure (\<lambda>(fd, sz, n, buf, v). sz - n)") (auto simp: diff_less_mono2)

declare read_file_loop.simps [simp del]

definition read_file_into_buffer :: "(nat \<Rightarrow> u8) option \<Rightarrow> 'd vfs \<Rightarrow> int \<times> u8 list \<times> 'd vfs" where
  "read_file_into_buffer path v =
     (if path = None then (ELF_EINVAL, [], v)
      else
        let (status, stat) = vfs_stat path True v in
        if status = VFS_ENOENT then (ELF_ENOENT, [], v)
        else if status \<noteq> VFS_SUCCESS then (ELF_EIO, [], v)
        else if fi_size (the stat) = 0 \<or> ELF_MAX_IMAGE_SIZE < fi_size (the stat) then (ELF_EINVAL, [], v)
        else
          let (fd, v) = vfs_open path VFS_O_RDONLY v in
          if fd < 0 then (if fd = VFS_ENOENT then ELF_ENOENT else ELF_EIO, [], v)
          else read_file_loop fd (unat (fi_size (the stat))) 0 [] v)"

section \<open>Validation\<close>

definition validate_header :: "elf32_header \<Rightarrow> u32 \<Rightarrow> int" where
  "validate_header header file_size =
     (if file_size < 52 then ELF_EINVAL
      else if eh_ident header ! 0 \<noteq> 0x7F \<or> eh_ident header ! 1 \<noteq> 0x45 \<or> eh_ident header ! 2 \<noteq> 0x4C \<or>
              eh_ident header ! 3 \<noteq> 0x46 \<or> eh_ident header ! 4 \<noteq> 1 \<or> eh_ident header ! 5 \<noteq> 1 \<or>
              eh_ident header ! 6 \<noteq> 1 then ELF_EINVAL
      else if eh_type header \<noteq> 2 \<or> eh_machine header \<noteq> 3 \<or> eh_version header \<noteq> 1 \<or> eh_ehsize header \<noteq> 52 \<or>
              eh_phentsize header \<noteq> 32 \<or> eh_phnum header = 0 \<or> ELF_MAX_SEGMENTS < eh_phnum header then ELF_EINVAL
      else if \<not> range_inside_file (eh_phoff header) (ucast (eh_phnum header) * 32) file_size then ELF_EINVAL
      else ELF_SUCCESS)"

definition validate_segment :: "elf32_program_header \<Rightarrow> u32 \<Rightarrow> int" where
  "validate_segment ph file_size =
     (if ph_type ph \<noteq> ELF_PT_LOAD then ELF_SUCCESS
      else if ph_memsz ph = 0 \<or> ph_memsz ph < ph_filesz ph then ELF_EINVAL
      else if ELF_MAX_LOAD_MEMORY_SIZE < ph_memsz ph then ELF_EINVAL
      else if \<not> range_inside_file (ph_offset ph) (ph_filesz ph) file_size then ELF_EINVAL
      else if \<not> range_inside_user_space (ph_vaddr ph) (ph_memsz ph) then ELF_EINVAL
      else if \<not> power_of_two_or_zero (ph_align ph) then ELF_EINVAL
      else if 1 < ph_align ph \<and> ph_vaddr ph AND (ph_align ph - 1) \<noteq> ph_offset ph AND (ph_align ph - 1)
      then ELF_EINVAL
      else ELF_SUCCESS)"

definition ranges_overlap :: "u32 \<Rightarrow> u32 \<Rightarrow> u32 \<Rightarrow> u32 \<Rightarrow> bool" where
  "ranges_overlap a_start a_end b_start b_end \<longleftrightarrow> a_start < b_end \<and> b_start < a_end"

text \<open>The first pass over the program headers: the page ranges of the segments seen so far, the memory
  they take, and the lowest and highest address.\<close>

record load_plan =
  lp_ranges :: "(u32 \<times> u32) list"
  lp_memory :: u32
  lp_start :: u32
  lp_end :: u32

fun check_segments :: "elf32_program_header list \<Rightarrow> u32 \<Rightarrow> load_plan \<Rightarrow> int \<times> load_plan" where
  "check_segments [] file_size pl = (ELF_SUCCESS, pl)"
| "check_segments (ph # phs) file_size pl =
     (let status = validate_segment ph file_size in
      if status \<noteq> ELF_SUCCESS then (status, pl)
      else if ph_type ph \<noteq> ELF_PT_LOAD then check_segments phs file_size pl
      else
        let page_start = elf_align_down (ph_vaddr ph); page_end = elf_align_up (ph_vaddr ph + ph_memsz ph) in
        if list_ex (\<lambda>(s, e). ranges_overlap page_start page_end s e) (lp_ranges pl) then (ELF_EINVAL, pl)
        else if ELF_MAX_LOAD_MEMORY_SIZE - lp_memory pl < ph_memsz ph then (ELF_EINVAL, pl)
        else check_segments phs file_size
               \<lparr>lp_ranges = lp_ranges pl @ [(page_start, page_end)], lp_memory = lp_memory pl + ph_memsz ph,
                lp_start = (if ph_vaddr ph < lp_start pl then ph_vaddr ph else lp_start pl),
                lp_end = (if lp_end pl < ph_vaddr ph + ph_memsz ph then ph_vaddr ph + ph_memsz ph
                          else lp_end pl)\<rparr>)"

section \<open>Mapping\<close>

definition segment_pages :: "u32 \<Rightarrow> u32 \<Rightarrow> u32 list" where
  "segment_pages vaddr memsz =
     (let start = elf_align_down vaddr; end' = elf_align_up (vaddr + memsz)
      in map (\<lambda>i. start + of_nat i * FRAME_SIZE) [0..<(unat end' - unat start) div unat FRAME_SIZE])"

definition unmap_all :: "(u32 \<times> u32) list \<Rightarrow> mmu \<Rightarrow> mmu" where
  "unmap_all mapped m = fold (\<lambda>(page, phys) m. mmu_free phys (paging_unmap_page page m)) mapped m"

fun map_pages :: "u32 list \<Rightarrow> (u32 \<times> u32) list \<Rightarrow> mmu \<Rightarrow> int \<times> mmu" where
  "map_pages [] mapped m = (ELF_SUCCESS, m)"
| "map_pages (page # pages) mapped m =
     (if paging_is_mapped page m then (ELF_EINVAL, m)
      else
        let (phys, m) = mmu_alloc m in
        if phys = 0 then (ELF_ENOSPC, unmap_all mapped m)
        else
          let (ok, m) = paging_map_page_in_directory (paging_get_current_directory m) page phys
                          (PAGE_PRESENT OR PAGE_WRITABLE OR PAGE_USER) m in
          if \<not> ok then (ELF_ENOSPC, unmap_all mapped (mmu_release phys m))
          else if \<not> paging_is_user_writable page m then (ELF_EIO, unmap_all mapped (mmu_free phys m))
          else map_pages pages (mapped @ [(page, phys)]) m)"

definition map_segment_pages :: "u32 \<Rightarrow> u32 \<Rightarrow> mmu \<Rightarrow> int \<times> mmu" where
  "map_segment_pages vaddr memsz m = map_pages (segment_pages vaddr memsz) [] m"

fun protect_pages :: "u32 list \<Rightarrow> u32 \<Rightarrow> mmu \<Rightarrow> int \<times> mmu" where
  "protect_pages [] flags m = (ELF_SUCCESS, m)"
| "protect_pages (page # pages) flags m =
     (let (ok, m) = paging_set_page_flags_in_directory (paging_get_current_directory m) page flags m in
      if \<not> ok then (ELF_EIO, m) else protect_pages pages flags m)"

definition protect_segment_pages :: "u32 \<Rightarrow> u32 \<Rightarrow> u32 \<Rightarrow> mmu \<Rightarrow> int \<times> mmu" where
  "protect_segment_pages vaddr memsz elf_flags m =
     (let flags = PAGE_PRESENT OR PAGE_USER;
          flags = (if elf_flags AND ELF_PF_W \<noteq> 0 then flags OR PAGE_WRITABLE else flags)
      in protect_pages (segment_pages vaddr memsz) flags m)"

fun load_segments :: "elf32_program_header list \<Rightarrow> u8 list \<Rightarrow> u32 \<Rightarrow> mmu \<Rightarrow> int \<times> u32 \<times> mmu" where
  "load_segments [] buf loaded_bytes m = (ELF_SUCCESS, loaded_bytes, m)"
| "load_segments (ph # phs) buf loaded_bytes m =
     (if ph_type ph \<noteq> ELF_PT_LOAD then load_segments phs buf loaded_bytes m
      else
        let (status, m) = map_segment_pages (ph_vaddr ph) (ph_memsz ph) m in
        if status \<noteq> ELF_SUCCESS then (status, loaded_bytes, m)
        else
          let m = set_bytes (ph_vaddr ph) 0 (unat (ph_memsz ph)) m;
              m = store_bytes (ph_vaddr ph) (take (unat (ph_filesz ph)) (drop (unat (ph_offset ph)) buf)) m;
              (status, m) = protect_segment_pages (ph_vaddr ph) (ph_memsz ph) (ph_flags ph) m
          in if status \<noteq> ELF_SUCCESS then (status, loaded_bytes, m)
             else load_segments phs buf (loaded_bytes + ph_filesz ph) m)"

section \<open>Loading\<close>

record elf_load_info =
  li_entry :: u32
  li_load_start :: u32
  li_load_end :: u32
  li_loaded_bytes :: u32
  li_segment_count :: u32

definition zero_load_info :: elf_load_info where
  "zero_load_info = \<lparr>li_entry = 0, li_load_start = 0, li_load_end = 0, li_loaded_bytes = 0, li_segment_count = 0\<rparr>"

definition program_headers :: "u8 list \<Rightarrow> elf32_header \<Rightarrow> elf32_program_header list" where
  "program_headers buf header =
     map (\<lambda>i. ph_of_bytes (drop (unat (eh_phoff header) + i * 32) buf)) [0..<unat (eh_phnum header)]"

definition elf_load_from_vfs ::
    "(nat \<Rightarrow> u8) option \<Rightarrow> bool \<Rightarrow> 'd kernel \<Rightarrow> int \<times> elf_load_info \<times> 'd kernel" where
  "elf_load_from_vfs path out_ok k =
     (if \<not> out_ok then (ELF_EINVAL, zero_load_info, k)
      else
        let (status, buf, v) = read_file_into_buffer path (k_vfs k); k = k\<lparr>k_vfs := v\<rparr> in
        if status \<noteq> ELF_SUCCESS then (status, zero_load_info, k)
        else
          let header = header_of_bytes buf; file_size = of_nat (length buf);
              status = validate_header header file_size
          in if status \<noteq> ELF_SUCCESS then (status, zero_load_info, k)
             else
               let phs = program_headers buf header;
                   (status, pl) = check_segments phs file_size
                     \<lparr>lp_ranges = [], lp_memory = 0, lp_start = 0xFFFFFFFF, lp_end = 0\<rparr>
               in if status \<noteq> ELF_SUCCESS then (status, zero_load_info, k)
                  else if lp_ranges pl = [] \<or> eh_entry header < lp_start pl \<or> lp_end pl \<le> eh_entry header
                  then (ELF_EINVAL, zero_load_info, k)
                  else
                    let (status, loaded_bytes, m) = load_segments phs buf 0 (k_mmu k); k = k\<lparr>k_mmu := m\<rparr> in
                    if status \<noteq> ELF_SUCCESS then (status, zero_load_info, k)
                    else (ELF_SUCCESS, \<lparr>li_entry = eh_entry header, li_load_start = lp_start pl,
                            li_load_end = lp_end pl, li_loaded_bytes = loaded_bytes,
                            li_segment_count = of_nat (length (lp_ranges pl))\<rparr>, k))"

definition elf_load_from_vfs_into ::
    "u32 \<Rightarrow> (nat \<Rightarrow> u8) option \<Rightarrow> bool \<Rightarrow> 'd kernel \<Rightarrow> int \<times> elf_load_info \<times> 'd kernel" where
  "elf_load_from_vfs_into dir path out_ok k =
     (if dir = 0 then (ELF_EINVAL, zero_load_info, k)
      else
        let old_cr3 = paging_get_current_directory (k_mmu k);
            k = set_mmu (paging_switch_directory dir) k;
            (status, info, k) = elf_load_from_vfs path out_ok k
        in (status, info, set_mmu (paging_switch_directory old_cr3) k))"

end
