(* ===== verification/Syscall.thy ===== *)
theory Syscall
  imports Elf
begin

text \<open>
  The system calls, \<^verbatim>\<open>src/kernel/syscall.c\<close>, in the configuration without the self tests (no
  \<^verbatim>\<open>ENABLE_...\<close> macro is defined, so the numbers 6, 7 and 8 fall to the default case). The dispatch
  control block is an argument and a result: \<open>control\<close> is the frame pointer the dispatcher passes
  (\<open>None\<close> is a NULL control block), and a call that requested a switch returns the stack pointer to
  resume. A call that waits for ever sets \<open>k_hung\<close>.
\<close>

section \<open>Numbers and error codes\<close>

definition SYS_PUTS :: u32 where "SYS_PUTS = 1"
definition SYS_GETCHAR :: u32 where "SYS_GETCHAR = 2"
definition SYS_CLEAR :: u32 where "SYS_CLEAR = 3"
definition SYS_UPTIME :: u32 where "SYS_UPTIME = 4"
definition SYS_ECHO :: u32 where "SYS_ECHO = 5"
definition SYS_OPEN :: u32 where "SYS_OPEN = 9"
definition SYS_READ :: u32 where "SYS_READ = 10"
definition SYS_WRITE :: u32 where "SYS_WRITE = 11"
definition SYS_CLOSE :: u32 where "SYS_CLOSE = 12"
definition SYS_STAT :: u32 where "SYS_STAT = 13"
definition SYS_GETPID :: u32 where "SYS_GETPID = 14"
definition SYS_EXIT :: u32 where "SYS_EXIT = 15"
definition SYS_WAIT :: u32 where "SYS_WAIT = 16"
definition SYS_FORK :: u32 where "SYS_FORK = 17"
definition SYS_EXEC :: u32 where "SYS_EXEC = 18"
definition SYS_BRK :: u32 where "SYS_BRK = 19"
definition SYS_WAITPID :: u32 where "SYS_WAITPID = 20"
definition SYS_KILL :: u32 where "SYS_KILL = 21"
definition SYS_SIGPENDING :: u32 where "SYS_SIGPENDING = 22"
definition SYS_PIPE :: u32 where "SYS_PIPE = 23"
definition SYS_MAX :: u32 where "SYS_MAX = 23"

definition WNOHANG :: u32 where "WNOHANG = 0x0001"
definition SYS_O_RDONLY :: u32 where "SYS_O_RDONLY = 0x0001"
definition SYS_O_WRONLY :: u32 where "SYS_O_WRONLY = 0x0002"
definition SYS_O_RDWR :: u32 where "SYS_O_RDWR = SYS_O_RDONLY OR SYS_O_WRONLY"
definition SYS_O_CREAT :: u32 where "SYS_O_CREAT = 0x0100"
definition SYS_O_TRUNC :: u32 where "SYS_O_TRUNC = 0x0200"
definition SYS_O_CLOEXEC :: u32 where "SYS_O_CLOEXEC = 0x0400"

definition SYSCALL_SUCCESS :: u32 where "SYSCALL_SUCCESS = 0"
definition SYSCALL_EINVAL :: u32 where "SYSCALL_EINVAL = -1"
definition SYSCALL_EPERM :: u32 where "SYSCALL_EPERM = -3"
definition SYSCALL_ENOSYS :: u32 where "SYSCALL_ENOSYS = -4"
definition SYSCALL_ENOENT :: u32 where "SYSCALL_ENOENT = -5"
definition SYSCALL_ENOSPC :: u32 where "SYSCALL_ENOSPC = -6"
definition SYSCALL_EIO :: u32 where "SYSCALL_EIO = -7"
definition SYSCALL_EMFILE :: u32 where "SYSCALL_EMFILE = -8"
definition SYSCALL_EEXIST :: u32 where "SYSCALL_EEXIST = -10"
definition SYSCALL_ECHILD :: u32 where "SYSCALL_ECHILD = -11"
definition SYSCALL_ENOMEM :: u32 where "SYSCALL_ENOMEM = -12"
definition SYSCALL_E2BIG :: u32 where "SYSCALL_E2BIG = -14"
definition SYSCALL_ESRCH :: u32 where "SYSCALL_ESRCH = -16"
definition VFS_EEXIST :: int where "VFS_EEXIST = -7"

definition EXEC_MAX_ARGS :: nat where "EXEC_MAX_ARGS = 16"
definition EXEC_MAX_ENVS :: nat where "EXEC_MAX_ENVS = 16"
definition EXEC_MAX_STRING_BYTES :: nat where "EXEC_MAX_STRING_BYTES = 256"
definition EXEC_MAX_VECTOR_BYTES :: u32 where "EXEC_MAX_VECTOR_BYTES = 3072"

lemmas syscall_errors = SYSCALL_SUCCESS_def SYSCALL_EINVAL_def SYSCALL_EFAULT_def SYSCALL_EPERM_def
  SYSCALL_ENOSYS_def SYSCALL_ENOENT_def SYSCALL_ENOSPC_def SYSCALL_EIO_def SYSCALL_EMFILE_def
  SYSCALL_EBADF_def SYSCALL_EEXIST_def SYSCALL_ECHILD_def SYSCALL_ENOMEM_def SYSCALL_EAGAIN_def
  SYSCALL_E2BIG_def SYSCALL_EPIPE_def SYSCALL_ESRCH_def

type_synonym 'd sysresult = "u32 \<times> u32 option \<times> 'd kernel"

definition no_frame :: "u32 option \<Rightarrow> bool" where
  "no_frame control \<longleftrightarrow> control = None \<or> control = Some 0"

section \<open>Helpers\<close>

definition is_ring3 :: "u32 \<Rightarrow> bool" where
  "is_ring3 caller_cs \<longleftrightarrow> caller_cs AND 0x03 = 0x03"

definition is_user_pointer_valid :: "u32 \<Rightarrow> u32 \<Rightarrow> 'd kernel \<Rightarrow> bool" where
  "is_user_pointer_valid ptr sz k = uaccess_readable ptr sz k"

definition is_user_pointer_writable :: "u32 \<Rightarrow> u32 \<Rightarrow> 'd kernel \<Rightarrow> bool \<times> 'd kernel" where
  "is_user_pointer_writable ptr sz k =
     (let (status, k) = uaccess_prepare_write ptr sz k in (status = UACCESS_SUCCESS, k))"

definition syscall_from_vfs_status :: "int \<Rightarrow> u32" where
  "syscall_from_vfs_status status =
     (if status = VFS_SUCCESS then SYSCALL_SUCCESS
      else if status = VFS_EINVAL then SYSCALL_EINVAL
      else if status = VFS_ENOENT then SYSCALL_ENOENT
      else if status = VFS_ENOSPC then SYSCALL_ENOSPC
      else if status = VFS_EIO then SYSCALL_EIO
      else if status = VFS_EMFILE then SYSCALL_EMFILE
      else if status = VFS_EBADF then SYSCALL_EBADF
      else if status = VFS_EEXIST then SYSCALL_EEXIST
      else SYSCALL_EIO)"

definition syscall_copy_user_string :: "u32 \<Rightarrow> u32 \<Rightarrow> 'd kernel \<Rightarrow> int \<times> u8 list \<times> 'd kernel" where
  "syscall_copy_user_string user_ptr max_len k =
     (let (status, s, k) = copy_string_from_user True user_ptr max_len k
      in (if status = UACCESS_SUCCESS then VFS_SUCCESS else VFS_EINVAL, s, k))"

section \<open>Replacing a program\<close>

record exec_vectors =
  ev_argc :: u32
  ev_envc :: u32
  ev_bytes_used :: u32
  ev_argv_offsets :: "u16 list"
  ev_env_offsets :: "u16 list"
  ev_data :: "u8 list"

definition zero_vectors :: exec_vectors where
  "zero_vectors = \<lparr>ev_argc = 0, ev_envc = 0, ev_bytes_used = 0, ev_argv_offsets = replicate EXEC_MAX_ARGS 0,
     ev_env_offsets = replicate EXEC_MAX_ENVS 0, ev_data = replicate (unat EXEC_MAX_VECTOR_BYTES) 0\<rparr>"

text \<open>The size of \<^verbatim>\<open>struct exec_vectors\<close>: three words, 32 offsets of two bytes and the data.\<close>

definition EXEC_VECTORS_SIZE :: u32 where "EXEC_VECTORS_SIZE = 12 + 64 + 3072"

text \<open>One string: \<open>n\<close> bytes may still be read before it is too long.\<close>

fun exec_copy_string :: "nat \<Rightarrow> u32 \<Rightarrow> exec_vectors \<Rightarrow> 'd kernel \<Rightarrow> u32 \<times> exec_vectors \<times> 'd kernel" where
  "exec_copy_string 0 ptr ev k = (SYSCALL_E2BIG, ev, k)"
| "exec_copy_string (Suc n) ptr ev k =
     (if ev_bytes_used ev \<ge> EXEC_MAX_VECTOR_BYTES then (SYSCALL_E2BIG, ev, k)
      else
        let (status, b, k) = copy_from_user True ptr 1 k in
        if status \<noteq> UACCESS_SUCCESS then (SYSCALL_EFAULT, ev, k)
        else
          let ev = ev\<lparr>ev_data := (ev_data ev)[unat (ev_bytes_used ev) := hd b],
                      ev_bytes_used := ev_bytes_used ev + 1\<rparr>
          in if hd b = 0 then (SYSCALL_SUCCESS, ev, k) else exec_copy_string n (ptr + 1) ev k)"

fun exec_copy_slots :: "nat list \<Rightarrow> u32 \<Rightarrow> bool \<Rightarrow> exec_vectors \<Rightarrow> 'd kernel \<Rightarrow> u32 \<times> exec_vectors \<times> 'd kernel" where
  "exec_copy_slots [] user_vector environment ev k = (SYSCALL_E2BIG, ev, k)"
| "exec_copy_slots (index # rest) user_vector environment ev k =
     (let (status, b, k) = copy_from_user True (user_vector + of_nat index * 4) 4 k; string_ptr = of_le32 b in
      if status \<noteq> UACCESS_SUCCESS then (SYSCALL_EFAULT, ev, k)
      else if string_ptr = 0 then
        (SYSCALL_SUCCESS, if environment then ev\<lparr>ev_envc := of_nat index\<rparr> else ev\<lparr>ev_argc := of_nat index\<rparr>, k)
      else if index = (if environment then EXEC_MAX_ENVS else EXEC_MAX_ARGS) then (SYSCALL_E2BIG, ev, k)
      else
        let off = ucast (ev_bytes_used ev);
            ev = (if environment then ev\<lparr>ev_env_offsets := (ev_env_offsets ev)[index := off]\<rparr>
                  else ev\<lparr>ev_argv_offsets := (ev_argv_offsets ev)[index := off]\<rparr>);
            (status, ev, k) = exec_copy_string EXEC_MAX_STRING_BYTES string_ptr ev k
        in if status \<noteq> SYSCALL_SUCCESS then (status, ev, k)
           else exec_copy_slots rest user_vector environment ev k)"

definition exec_copy_vector :: "exec_vectors \<Rightarrow> u32 \<Rightarrow> bool \<Rightarrow> 'd kernel \<Rightarrow> u32 \<times> exec_vectors \<times> 'd kernel" where
  "exec_copy_vector ev user_vector environment k =
     (let ev = (if environment then ev\<lparr>ev_envc := 0\<rparr> else ev\<lparr>ev_argc := 0\<rparr>);
          limit = (if environment then EXEC_MAX_ENVS else EXEC_MAX_ARGS)
      in if user_vector = 0 then (SYSCALL_SUCCESS, ev, k)
         else exec_copy_slots [0..<Suc limit] user_vector environment ev k)"

text \<open>The strings are pushed from the last to the first; the result has their addresses in order.\<close>

definition string_at :: "u8 list \<Rightarrow> u16 \<Rightarrow> u8 list" where
  "string_at data off = takeWhile (\<lambda>b. b \<noteq> 0) (drop (unat off) data)"

fun push_strings :: "u16 list \<Rightarrow> u8 list \<Rightarrow> u32 \<Rightarrow> u32 \<Rightarrow> u32 list \<Rightarrow> mmu \<Rightarrow> u32 option \<times> u32 list \<times> mmu" where
  "push_strings [] data stack_page sp ptrs m = (Some sp, ptrs, m)"
| "push_strings (off # offs) data stack_page sp ptrs m =
     (let value = string_at data off @ [0]; len = of_nat (length value) in
      if sp - stack_page < len then (None, ptrs, m)
      else push_strings offs data stack_page (sp - len) ((sp - len) # ptrs) (store_bytes (sp - len) value m))"

fun store_words :: "u32 \<Rightarrow> u32 list \<Rightarrow> mmu \<Rightarrow> mmu" where
  "store_words a [] m = m"
| "store_words a (w # ws) m = store_words (a + 4) ws (store_word a w m)"

definition exec_fill_stack :: "exec_vectors \<Rightarrow> u32 \<Rightarrow> mmu \<Rightarrow> u32 option \<times> mmu" where
  "exec_fill_stack ev stack_page m =
     (let m = set_bytes stack_page 0 (unat USER_STACK_SIZE) m;
          (sp, env_user, m) = push_strings (rev (take (unat (ev_envc ev)) (ev_env_offsets ev))) (ev_data ev)
                                stack_page USER_STACK_TOP [] m
      in if sp = None then (None, m)
         else
           let (sp, argv_user, m) = push_strings (rev (take (unat (ev_argc ev)) (ev_argv_offsets ev))) (ev_data ev)
                                      stack_page (the sp) [] m
           in if sp = None then (None, m)
              else
                let table_words = 1 + ev_argc ev + 1 + ev_envc ev + 1; table_bytes = table_words * 4 in
                if the sp - stack_page < table_bytes then (None, m)
                else
                  let table_sp = (the sp - table_bytes) AND NOT 0x0F in
                  if table_sp < stack_page then (None, m)
                  else (Some table_sp,
                        store_words table_sp ([ev_argc ev] @ argv_user @ [0] @ env_user @ [0]) m))"

definition exec_build_user_stack :: "u32 \<Rightarrow> exec_vectors \<Rightarrow> u32 \<Rightarrow> mmu \<Rightarrow> u32 option \<times> mmu" where
  "exec_build_user_stack new_cr3 ev stack_page m =
     (let old_cr3 = paging_get_current_directory m; m = paging_switch_directory new_cr3 m in
      if \<not> paging_is_user_writable stack_page m then (None, paging_switch_directory old_cr3 m)
      else let (sp, m) = exec_fill_stack ev stack_page m in (sp, paging_switch_directory old_cr3 m))"

definition exec_commit :: "nat \<Rightarrow> u32 \<Rightarrow> u32 \<Rightarrow> u32 \<Rightarrow> 'd kernel \<Rightarrow> 'd kernel" where
  "exec_commit i new_cr3 entry new_stack_pointer k =
     (let k = process_fd_close_on_exec (Some i) k
      in set_proc i (\<lambda>p. p\<lparr>p_cr3 := new_cr3, p_heap_start := PROCESS_HEAP_START, p_heap_end := PROCESS_HEAP_START,
           p_eip := entry, p_user_stack := new_stack_pointer, p_interrupt_frame := True\<rparr>) k)"

definition exec_set_frame :: "u32 option \<Rightarrow> u32 \<Rightarrow> u32 \<Rightarrow> u32 \<Rightarrow> 'd kernel \<Rightarrow> 'd kernel" where
  "exec_set_frame control frame_ptr entry new_stack_pointer k =
     (if no_frame control
      then k\<lparr>kstack := (kstack k)(frame_ptr := entry, frame_ptr + 12 := new_stack_pointer)\<rparr>
      else fold (\<lambda>(f, w). set_field (the control) f w)
             [(EDI, 0), (ESI, 0), (EBP, 0), (EBX, 0), (EDX, 0), (ECX, 0), (GS, 0x23), (FS, 0x23), (ES, 0x23),
              (DS, 0x23), (EIP, entry), (CS, 0x1B), (EFLAGS, 0x202), (USER_ESP, new_stack_pointer), (USER_SS, 0x23)] k)"

definition exec_log :: "u32 \<Rightarrow> serial_log \<Rightarrow> serial_log" where
  "exec_log entry out = serial_puts [0x0A] (serial_put_uint32 entry
     (serial_puts (str8 ''EXEC loaded entry='') (serial_puts (str8 ''PROCESS_EXEC_LOAD_OK'' @ [0x0A]) out)))"

definition exec_free :: "u32 \<Rightarrow> 'd kernel \<Rightarrow> 'd kernel" where
  "exec_free vectors k = k\<lparr>k_heap := kfree vectors (k_heap k)\<rparr>"

definition exec_elf_error :: "int \<Rightarrow> u32" where
  "exec_elf_error st = (if st = ELF_ENOENT then SYSCALL_ENOENT else if st = ELF_EINVAL then SYSCALL_EINVAL
     else if st = ELF_ENOSPC then SYSCALL_ENOSPC else SYSCALL_EIO)"

text \<open>The new address space: the program, the stack page and its contents; the result is the entry
  point and the stack pointer, or the error. On an error the address space is destroyed.\<close>

definition exec_build :: "exec_vectors \<Rightarrow> u8 list \<Rightarrow> 'd kernel \<Rightarrow> (u32 + u32 \<times> u32 \<times> u32) \<times> 'd kernel" where
  "exec_build ev kernel_path k =
     (let stack_page = USER_STACK_TOP - USER_STACK_SIZE;
          (new_cr3, m) = paging_create_address_space (k_mmu k); k = k\<lparr>k_mmu := m\<rparr>
      in if new_cr3 = 0 then (Inl SYSCALL_ENOMEM, k)
         else
           let (elf_status, info, k) = elf_load_from_vfs_into new_cr3 (Some (cstr_at kernel_path)) True k in
           if elf_status \<noteq> ELF_SUCCESS
           then (Inl (exec_elf_error elf_status), set_mmu (paging_destroy_address_space new_cr3) k)
           else
             let (stack_phys, m) = mmu_alloc (k_mmu k); k = k\<lparr>k_mmu := m\<rparr> in
             if stack_phys = 0 then (Inl SYSCALL_ENOMEM, set_mmu (paging_destroy_address_space new_cr3) k)
             else
               let (ok, m) =
                     (if paging_get_physical_address_in_directory new_cr3 stack_page (k_mmu k) \<noteq> 0
                      then (False, k_mmu k)
                      else paging_map_page_in_directory new_cr3 stack_page stack_phys
                             (PAGE_PRESENT OR PAGE_WRITABLE OR PAGE_USER) (k_mmu k));
                   k = k\<lparr>k_mmu := m\<rparr>
               in if \<not> ok
                  then (Inl SYSCALL_EIO,
                        set_mmu (\<lambda>m. paging_destroy_address_space new_cr3 (mmu_release stack_phys m)) k)
                  else
                    let (sp, m) = exec_build_user_stack new_cr3 ev stack_page (k_mmu k); k = k\<lparr>k_mmu := m\<rparr> in
                    case sp of
                      None \<Rightarrow> (Inl SYSCALL_E2BIG, set_mmu (paging_destroy_address_space new_cr3) k)
                    | Some sp \<Rightarrow> (Inr (new_cr3, li_entry info, sp), k))"

definition syscall_exec ::
    "u32 \<Rightarrow> u32 \<Rightarrow> u32 \<Rightarrow> u32 \<Rightarrow> u32 \<Rightarrow> u32 option \<Rightarrow> 'd kernel \<Rightarrow> u32 \<times> 'd kernel" where
  "syscall_exec path_ptr argv_ptr envp_ptr caller_cs frame_ptr control k =
     (if \<not> is_ring3 caller_cs then (SYSCALL_EPERM, k)
      else if frame_ptr = 0 then (SYSCALL_EINVAL, k)
      else case process_get_current k of None \<Rightarrow> (SYSCALL_EINVAL, k)
      | Some i \<Rightarrow>
          let (status, kernel_path, k) =
                (if \<not> is_user_pointer_valid path_ptr 1 k then (VFS_EINVAL, [], k)
                 else syscall_copy_user_string path_ptr (of_nat VFS_MAX_PATH) k)
          in if status \<noteq> VFS_SUCCESS then (SYSCALL_EFAULT, k)
             else case kmalloc EXEC_VECTORS_SIZE (k_heap k) of
               None \<Rightarrow> (SYSCALL_ENOMEM, k\<lparr>k_hung := True\<rparr>)
             | Some (vectors, h) \<Rightarrow>
                 let k = k\<lparr>k_heap := h\<rparr> in
                 if vectors = 0 then (SYSCALL_ENOMEM, k)
                 else
                   let (status, ev, k) = exec_copy_vector zero_vectors argv_ptr False k in
                   if status \<noteq> SYSCALL_SUCCESS then (status, exec_free vectors k)
                   else
                     let (status, ev, k) = exec_copy_vector ev envp_ptr True k in
                     if status \<noteq> SYSCALL_SUCCESS then (status, exec_free vectors k)
                     else case exec_build ev kernel_path k of
                       (Inl err, k) \<Rightarrow> (err, exec_free vectors k)
                     | (Inr (new_cr3, entry, sp), k) \<Rightarrow>
                         let k = k\<lparr>k_serial := exec_log entry (k_serial k)\<rparr>;
                             old_process_cr3 = p_cr3 (proc k i);
                             k = exec_commit i new_cr3 entry sp k;
                             k = exec_free vectors k;
                             k = set_mmu (\<lambda>m. paging_destroy_address_space old_process_cr3
                                            (paging_switch_directory new_cr3 m)) k
                         in (SYSCALL_SUCCESS, exec_set_frame control frame_ptr entry sp k))"

section \<open>Files and pipes\<close>

definition vfs_flags_of :: "u32 \<Rightarrow> u32" where
  "vfs_flags_of flags =
     (let f = 0;
          f = (if flags AND SYS_O_RDONLY \<noteq> 0 then f OR VFS_O_RDONLY else f);
          f = (if flags AND SYS_O_WRONLY \<noteq> 0 then f OR VFS_O_WRONLY else f);
          f = (if flags AND SYS_O_CREAT \<noteq> 0 then f OR VFS_O_CREAT else f)
      in if flags AND SYS_O_TRUNC \<noteq> 0 then f OR VFS_O_TRUNC else f)"

definition syscall_open :: "u32 \<Rightarrow> u32 \<Rightarrow> u32 \<Rightarrow> 'd kernel \<Rightarrow> u32 \<times> 'd kernel" where
  "syscall_open path_ptr flags caller_cs k =
     (if \<not> is_ring3 caller_cs then (SYSCALL_EPERM, k)
      else if flags AND NOT (SYS_O_RDWR OR SYS_O_CREAT OR SYS_O_TRUNC OR SYS_O_CLOEXEC) \<noteq> 0 then (SYSCALL_EINVAL, k)
      else case process_get_current k of None \<Rightarrow> (SYSCALL_EINVAL, k)
      | Some i \<Rightarrow>
          let (status, path, k) = syscall_copy_user_string path_ptr (of_nat VFS_MAX_PATH) k in
          if status \<noteq> VFS_SUCCESS then (SYSCALL_EFAULT, k)
          else
            let (status, v) = vfs_open (Some (cstr_at path)) (vfs_flags_of flags) (k_vfs k); k = k\<lparr>k_vfs := v\<rparr> in
            if status < 0 then (syscall_from_vfs_status status, k)
            else
              let (fd, k) = process_fd_install (Some i) status
                              (if flags AND SYS_O_CLOEXEC \<noteq> 0 then PROCESS_FD_CLOEXEC else 0) k in
              if fd < 0 then (syscall_from_vfs_status fd, snd (k_vfs_close status k))
              else (of_int fd, k))"

text \<open>The end of a read or write that has to wait: block, or give up when nothing else can run.\<close>

definition block_on_pipe :: "nat \<Rightarrow> block_reason \<Rightarrow> int \<Rightarrow> u32 \<Rightarrow> u32 \<Rightarrow> u32 option \<Rightarrow> 'd kernel \<Rightarrow> 'd sysresult" where
  "block_on_pipe i reason fd buffer count control k =
     (if no_frame control then (SYSCALL_EAGAIN, None, k)
      else
        let k = process_begin_pipe_wait (Some i) reason fd buffer count k;
            (resume_esp, k) = scheduler_block_current (the control) k
        in if resume_esp = the control
           then (SYSCALL_EAGAIN, None, set_proc i (\<lambda>p. p\<lparr>p_block_reason := BLOCK_NONE\<rparr>) k)
           else (SYSCALL_SUCCESS, Some resume_esp, k))"

definition k_vfs_read :: "int \<Rightarrow> u32 \<Rightarrow> u32 \<Rightarrow> 'd kernel \<Rightarrow> int \<times> 'd kernel" where
  "k_vfs_read handle buffer count k =
     (let (r, data, v) = vfs_read handle (buffer \<noteq> 0) count (k_vfs k)
      in (r, set_mmu (store_bytes buffer data) (k\<lparr>k_vfs := v\<rparr>)))"

definition k_vfs_write :: "int \<Rightarrow> u32 \<Rightarrow> u32 \<Rightarrow> 'd kernel \<Rightarrow> int \<times> 'd kernel" where
  "k_vfs_write handle buffer count k =
     (let src = (if buffer = 0 then None else Some (reader_at buffer (k_mmu k)));
          (r, v) = vfs_write handle src count (k_vfs k)
      in (r, set_mmu (touch_read buffer (nat r)) (k\<lparr>k_vfs := v\<rparr>)))"

definition vfs_result :: "int \<Rightarrow> u32" where
  "vfs_result status = (if status < 0 then syscall_from_vfs_status status else of_int status)"

text \<open>\<^verbatim>\<open>(int)fd\<close> for a descriptor passed in a register.\<close>

abbreviation int_of :: "u32 \<Rightarrow> int" where "int_of w \<equiv> sint w"

definition syscall_read :: "u32 \<Rightarrow> u32 \<Rightarrow> u32 \<Rightarrow> u32 \<Rightarrow> u32 option \<Rightarrow> 'd kernel \<Rightarrow> 'd sysresult" where
  "syscall_read fd buffer_ptr count caller_cs control k =
     (if \<not> is_ring3 caller_cs then (SYSCALL_EPERM, None, k)
      else
        let (ok, k) = (if 0 < count then is_user_pointer_writable buffer_ptr count k else (True, k)) in
        if \<not> ok then (SYSCALL_EFAULT, None, k)
        else
          let cur = process_get_current k in
          case process_fd_get cur (int_of fd) k of None \<Rightarrow> (SYSCALL_EBADF, None, k)
          | Some (kind, handle) \<Rightarrow>
              if kind = PROCESS_FD_VFS then
                let (status, k) = k_vfs_read handle buffer_ptr count k in (vfs_result status, None, k)
              else if kind \<noteq> PROCESS_FD_PIPE_READ then (SYSCALL_EBADF, None, k)
              else
                let (status, k) = k_pipe_read handle buffer_ptr count k in
                if status \<noteq> PIPE_WOULD_BLOCK
                then (if status < 0 then SYSCALL_EBADF else of_int status, None, k)
                else block_on_pipe (the cur) BLOCK_PIPE_READ (int_of fd) buffer_ptr count control k)"

definition syscall_write :: "u32 \<Rightarrow> u32 \<Rightarrow> u32 \<Rightarrow> u32 \<Rightarrow> u32 option \<Rightarrow> 'd kernel \<Rightarrow> 'd sysresult" where
  "syscall_write fd buffer_ptr count caller_cs control k =
     (if \<not> is_ring3 caller_cs then (SYSCALL_EPERM, None, k)
      else if 0 < count \<and> \<not> uaccess_readable buffer_ptr count k then (SYSCALL_EFAULT, None, k)
      else
        let cur = process_get_current k in
        case process_fd_get cur (int_of fd) k of None \<Rightarrow> (SYSCALL_EBADF, None, k)
        | Some (kind, handle) \<Rightarrow>
            if kind = PROCESS_FD_VFS then
              let (status, k) = k_vfs_write handle buffer_ptr count k in (vfs_result status, None, k)
            else if kind \<noteq> PROCESS_FD_PIPE_WRITE then (SYSCALL_EBADF, None, k)
            else
              let (status, k) = k_pipe_write handle buffer_ptr count k in
              if status = PIPE_BROKEN then (SYSCALL_EPIPE, None, k)
              else if status \<noteq> PIPE_WOULD_BLOCK
              then (if status < 0 then SYSCALL_EBADF else of_int status, None, k)
              else block_on_pipe (the cur) BLOCK_PIPE_WRITE (int_of fd) buffer_ptr count control k)"

definition syscall_close :: "u32 \<Rightarrow> u32 \<Rightarrow> 'd kernel \<Rightarrow> u32 \<times> 'd kernel" where
  "syscall_close fd caller_cs k =
     (if \<not> is_ring3 caller_cs then (SYSCALL_EPERM, k)
      else let (r, k) = process_fd_close (process_get_current k) (int_of fd) k
           in (syscall_from_vfs_status r, k))"

definition syscall_stat :: "u32 \<Rightarrow> u32 \<Rightarrow> u32 \<Rightarrow> 'd kernel \<Rightarrow> u32 \<times> 'd kernel" where
  "syscall_stat path_ptr stat_ptr caller_cs k =
     (if \<not> is_ring3 caller_cs then (SYSCALL_EPERM, k)
      else
        let (ok, k) = is_user_pointer_writable stat_ptr 16 k in
        if \<not> ok then (SYSCALL_EFAULT, k)
        else
          let (status, path, k) = syscall_copy_user_string path_ptr (of_nat VFS_MAX_PATH) k in
          if status \<noteq> VFS_SUCCESS then (SYSCALL_EFAULT, k)
          else
            let (status, stat) = vfs_stat (Some (cstr_at path)) True (k_vfs k) in
            if status \<noteq> VFS_SUCCESS then (syscall_from_vfs_status status, k)
            else
              let s = the stat;
                  (r, k) = copy_to_user stat_ptr (Some (le32 (fi_size s) @ le32 (fi_start s) @
                             le32 (fi_alloc s) @ le32 (fi_flags s))) 16 k
              in (if r \<noteq> UACCESS_SUCCESS then SYSCALL_EFAULT else SYSCALL_SUCCESS, k))"

end
