(* ===== verification/Syscall_Handle.thy ===== *)
theory Syscall_Handle
  imports Syscall
begin

text \<open>
  The cases of \<^verbatim>\<open>syscall_handle\<close> and the dispatcher, \<^verbatim>\<open>src/kernel/syscall.c\<close>, and the interrupt entry
  points that end in the scheduler: the page fault handler of \<^verbatim>\<open>src/kernel/idt.c\<close> and the timer
  interrupt of \<^verbatim>\<open>src/kernel/timer.c\<close>. One definition per case of the switch statement.
\<close>

section \<open>Console calls\<close>

text \<open>The scan of \<^verbatim>\<open>SYS_PUTS\<close>: \<open>n\<close> bytes may still be looked at; \<open>None\<close> is a bad address or a string
  that is too long.\<close>

fun puts_scan :: "nat \<Rightarrow> u32 \<Rightarrow> 'd kernel \<Rightarrow> u8 list option" where
  "puts_scan 0 str k = None"
| "puts_scan (Suc n) str k =
     (if \<not> is_user_pointer_valid str 1 k then None
      else let c = load_byte str (k_mmu k) in
           if c = 0 then Some [] else map_option (Cons c) (puts_scan n (str + 1) k))"

definition sys_puts :: "u32 \<Rightarrow> 'd kernel \<Rightarrow> u32 \<times> 'd kernel" where
  "sys_puts str k =
     (if \<not> is_user_pointer_valid str 1 k then (SYSCALL_EFAULT, k)
      else case puts_scan 4096 str k of
        None \<Rightarrow> (SYSCALL_EFAULT, k)
      | Some s \<Rightarrow> (SYSCALL_SUCCESS, k\<lparr>k_vga := vga_puts s (k_vga k)\<rparr>))"

text \<open>The system call gate disables interrupts, so \<^verbatim>\<open>hlt\<close> with an empty buffer waits for ever.\<close>

definition sys_getchar :: "'d kernel \<Rightarrow> u32 \<times> 'd kernel" where
  "sys_getchar k =
     (case keyboard_getchar (k_keyboard k) of
        None \<Rightarrow> (0, k\<lparr>k_hung := True\<rparr>)
      | Some (c, kb) \<Rightarrow> (scast c, k\<lparr>k_keyboard := kb\<rparr>))"

definition timer_get_ticks :: "'d kernel \<Rightarrow> u32" where
  "timer_get_ticks k = timer_ticks k"

definition timer_get_seconds :: "'d kernel \<Rightarrow> u32" where
  "timer_get_seconds k = timer_ticks k div 100"

section \<open>Process calls\<close>

definition sys_getpid :: "'d kernel \<Rightarrow> u32" where
  "sys_getpid k = (case process_get_current k of None \<Rightarrow> 0 | Some i \<Rightarrow> p_pid (proc k i))"

definition sys_exit :: "u32 \<Rightarrow> u32 option \<Rightarrow> 'd kernel \<Rightarrow> 'd sysresult" where
  "sys_exit exit_code control k =
     (case process_get_current k of None \<Rightarrow> (SYSCALL_EINVAL, None, k)
      | Some i \<Rightarrow>
          if no_frame control then (SYSCALL_EINVAL, None, k)
          else let k = process_mark_exit (Some i) exit_code k;
                   (resume_esp, k) = scheduler_exit_current (the control) k
               in (SYSCALL_SUCCESS, Some resume_esp, k))"

text \<open>The end of both wait calls: block until a child exits, or give up when nothing else can run.\<close>

definition block_for_child :: "nat \<Rightarrow> u32 option \<Rightarrow> 'd kernel \<Rightarrow> 'd sysresult" where
  "block_for_child i control k =
     (let (resume_esp, k) = scheduler_block_current (the control) k in
      if resume_esp = the control then (SYSCALL_EAGAIN, None, process_cancel_wait (Some i) k)
      else (SYSCALL_SUCCESS, Some resume_esp, k))"

definition reap_child :: "nat \<Rightarrow> 'd kernel \<Rightarrow> 'd sysresult" where
  "reap_child child k =
     (let k = set_proc child (\<lambda>p. p\<lparr>p_waited := True\<rparr>) k; child_pid = p_pid (proc k child)
      in (child_pid, None, process_destroy (Some child) k))"

definition sys_wait :: "u32 \<Rightarrow> u32 option \<Rightarrow> 'd kernel \<Rightarrow> 'd sysresult" where
  "sys_wait status_ptr control k =
     (case process_get_current k of None \<Rightarrow> (SYSCALL_EINVAL, None, k)
      | Some i \<Rightarrow>
          let (ok, k) = (if status_ptr \<noteq> 0 then is_user_pointer_writable status_ptr 4 k else (True, k)) in
          if \<not> ok then (SYSCALL_EFAULT, None, k)
          else case process_find_exited_child (p_pid (proc k i)) k of
            Some child \<Rightarrow>
              let k = (if status_ptr \<noteq> 0 then set_mmu (store_word status_ptr (p_exit_code (proc k child))) k else k)
              in reap_child child k
          | None \<Rightarrow>
              if \<not> process_has_child (p_pid (proc k i)) k then (SYSCALL_ECHILD, None, k)
              else if no_frame control then (SYSCALL_EAGAIN, None, k)
              else block_for_child i control (process_begin_wait (Some i) status_ptr k))"

definition sys_fork :: "u32 option \<Rightarrow> 'd kernel \<Rightarrow> 'd sysresult" where
  "sys_fork control k =
     (if no_frame control then (SYSCALL_EINVAL, None, k)
      else case process_get_current k of None \<Rightarrow> (SYSCALL_EINVAL, None, k)
      | Some i \<Rightarrow>
          let (child, k) = process_fork (Some i) (the control) k in
          case child of None \<Rightarrow> (SYSCALL_ENOMEM, None, k)
          | Some c \<Rightarrow> let k = scheduler_add child k in (p_pid (proc k c), None, k))"

definition brk_unmap :: "u32 \<Rightarrow> u32 \<Rightarrow> mmu \<Rightarrow> mmu" where
  "brk_unmap dir addr m =
     (let (phys, m) = paging_unmap_page_in_directory dir addr m
      in if phys \<noteq> 0 then mmu_release phys m else m)"

definition page_round_up :: "u32 \<Rightarrow> u32" where
  "page_round_up a = (a + 0xFFF) AND 0xFFFFF000"

text \<open>The pages of \<^verbatim>\<open>for (addr = new_end_page; addr < old_end_page; addr += 0x1000)\<close>; both ends are
  multiples of the page size.\<close>

definition brk_pages :: "u32 \<Rightarrow> u32 \<Rightarrow> u32 list" where
  "brk_pages new_end_page old_end_page =
     map (\<lambda>i. new_end_page + of_nat i * 0x1000) [0..<(unat old_end_page - unat new_end_page) div 4096]"

definition sys_brk :: "u32 \<Rightarrow> 'd kernel \<Rightarrow> u32 \<times> 'd kernel" where
  "sys_brk requested_brk k =
     (case process_get_current k of None \<Rightarrow> (SYSCALL_EINVAL, k)
      | Some i \<Rightarrow>
          if requested_brk = 0 then (p_heap_end (proc k i), k)
          else if requested_brk < p_heap_start (proc k i) \<or> PROCESS_HEAP_LIMIT < requested_brk
          then (p_heap_end (proc k i), k)
          else
            let old_end_page = page_round_up (p_heap_end (proc k i));
                new_end_page = page_round_up requested_brk;
                k = (if new_end_page < old_end_page
                     then set_mmu (fold (brk_unmap (p_cr3 (proc k i))) (brk_pages new_end_page old_end_page)) k
                     else k)
            in (requested_brk, set_proc i (\<lambda>p. p\<lparr>p_heap_end := requested_brk\<rparr>) k))"

definition sys_waitpid :: "u32 \<Rightarrow> u32 \<Rightarrow> u32 \<Rightarrow> u32 option \<Rightarrow> 'd kernel \<Rightarrow> 'd sysresult" where
  "sys_waitpid target_pid status_ptr options control k =
     (case process_get_current k of None \<Rightarrow> (SYSCALL_EINVAL, None, k)
      | Some i \<Rightarrow>
          if options AND NOT WNOHANG \<noteq> 0 then (SYSCALL_EINVAL, None, k)
          else
            let (ok, k) = (if status_ptr \<noteq> 0 then is_user_pointer_writable status_ptr 4 k else (True, k)) in
            if \<not> ok then (SYSCALL_EFAULT, None, k)
            else case process_find_exited_child_by_pid (p_pid (proc k i)) target_pid k of
              Some child \<Rightarrow>
                let (r, k) = (if status_ptr \<noteq> 0
                              then copy_to_user status_ptr (Some (le32 (exit_status (proc k child)))) 4 k
                              else (UACCESS_SUCCESS, k))
                in if r \<noteq> UACCESS_SUCCESS then (SYSCALL_EFAULT, None, k) else reap_child child k
            | None \<Rightarrow>
                let no_child =
                      (if target_pid \<noteq> -1 then
                         (case process_get_by_pid target_pid k of None \<Rightarrow> True
                          | Some t \<Rightarrow> p_parent_pid (proc k t) \<noteq> p_pid (proc k i))
                       else \<not> process_has_child (p_pid (proc k i)) k)
                in if no_child then (SYSCALL_ECHILD, None, k)
                   else if options AND WNOHANG \<noteq> 0 then (0, None, k)
                   else if no_frame control then (SYSCALL_EAGAIN, None, k)
                   else
                     let k = process_begin_waitpid (Some i) status_ptr target_pid k;
                         k = set_proc i (\<lambda>p. p\<lparr>p_wait_is_waitpid := True\<rparr>) k
                     in block_for_child i control k)"

text \<open>\<^verbatim>\<open>SYS_PIPE\<close> after the pipe has been made.\<close>

definition pipe_install :: "nat \<Rightarrow> u32 \<Rightarrow> u32 \<Rightarrow> int \<Rightarrow> int \<Rightarrow> 'd kernel \<Rightarrow> u32 \<times> 'd kernel" where
  "pipe_install i read_out write_out read_handle write_handle k =
     (let (read_fd, k) = process_fd_install_typed (Some i) PROCESS_FD_PIPE_READ read_handle 0 k
      in if read_fd < 0
         then (SYSCALL_EMFILE, snd (k_pipe_close write_handle (snd (k_pipe_close read_handle k))))
         else
           let (write_fd, k) = process_fd_install_typed (Some i) PROCESS_FD_PIPE_WRITE write_handle 0 k in
           if write_fd < 0
           then (SYSCALL_EMFILE, snd (k_pipe_close write_handle (snd (process_fd_close (Some i) read_fd k))))
           else
             let (r, k) = copy_to_user read_out (Some (le32 (of_int read_fd))) 4 k;
                 (r, k) = (if r \<noteq> UACCESS_SUCCESS then (r, k)
                           else copy_to_user write_out (Some (le32 (of_int write_fd))) 4 k)
             in if r \<noteq> UACCESS_SUCCESS
                then (SYSCALL_EFAULT,
                      snd (process_fd_close (Some i) write_fd (snd (process_fd_close (Some i) read_fd k))))
                else (SYSCALL_SUCCESS, k))"

definition sys_pipe :: "u32 \<Rightarrow> u32 \<Rightarrow> 'd kernel \<Rightarrow> u32 \<times> 'd kernel" where
  "sys_pipe read_out write_out k =
     (case process_get_current k of None \<Rightarrow> (SYSCALL_EINVAL, k)
      | Some i \<Rightarrow>
          let (ok, k) = (if read_out = 0 then (False, k) else is_user_pointer_writable read_out 4 k);
              (ok, k) = (if \<not> ok \<or> write_out = 0 then (False, k) else is_user_pointer_writable write_out 4 k)
          in if \<not> ok then (SYSCALL_EFAULT, k)
             else
               let (r, handles, ps) = pipe_create True (k_pipes k); k = k\<lparr>k_pipes := ps\<rparr> in
               if r \<noteq> 0 then (SYSCALL_EMFILE, k)
               else let (read_handle, write_handle) = the handles
                    in pipe_install i read_out write_out read_handle write_handle k)"

definition sys_kill :: "u32 \<Rightarrow> u32 \<Rightarrow> 'd kernel \<Rightarrow> u32 \<times> 'd kernel" where
  "sys_kill pid signum k =
     (case process_get_by_pid pid k of None \<Rightarrow> (SYSCALL_ESRCH, k)
      | Some t \<Rightarrow>
          if signum = 0 \<or> NSIG \<le> signum then (SYSCALL_EINVAL, k)
          else let (r, k) = process_send_signal (Some t) signum k
               in (if r \<noteq> 0 then SYSCALL_ESRCH else SYSCALL_SUCCESS, k))"

definition sys_sigpending :: "'d kernel \<Rightarrow> u32" where
  "sys_sigpending k =
     (case process_get_current k of None \<Rightarrow> SYSCALL_EINVAL | Some i \<Rightarrow> p_pending_signals (proc k i))"

section \<open>Dispatch\<close>

abbreviation no_switch :: "u32 \<times> 'd kernel \<Rightarrow> 'd sysresult" where
  "no_switch r \<equiv> (fst r, None, snd r)"

definition syscall_handle ::
    "u32 \<Rightarrow> u32 \<Rightarrow> u32 \<Rightarrow> u32 \<Rightarrow> u32 \<Rightarrow> u32 \<Rightarrow> u32 option \<Rightarrow> 'd kernel \<Rightarrow> 'd sysresult" where
  "syscall_handle num arg1 arg2 arg3 caller_cs frame_ptr control k =
     (if num = 0 \<or> SYS_MAX < num then (SYSCALL_ENOSYS, None, k)
      else if num = SYS_PUTS then
        (if \<not> is_ring3 caller_cs then (SYSCALL_EPERM, None, k) else no_switch (sys_puts arg1 k))
      else if num = SYS_GETCHAR then
        (if \<not> is_ring3 caller_cs then (SYSCALL_EPERM, None, k) else no_switch (sys_getchar k))
      else if num = SYS_CLEAR then
        (if \<not> is_ring3 caller_cs then (SYSCALL_EPERM, None, k)
         else (SYSCALL_SUCCESS, None, k\<lparr>k_vga := vga_clear (k_vga k)\<rparr>))
      else if num = SYS_UPTIME then
        (if \<not> is_ring3 caller_cs then (SYSCALL_EPERM, None, k) else (timer_get_ticks k, None, k))
      else if num = SYS_ECHO then
        (if \<not> is_ring3 caller_cs then (SYSCALL_EPERM, None, k) else (arg1, None, k))
      else if num = SYS_OPEN then no_switch (syscall_open arg1 arg2 caller_cs k)
      else if num = SYS_READ then syscall_read arg1 arg2 arg3 caller_cs control k
      else if num = SYS_WRITE then syscall_write arg1 arg2 arg3 caller_cs control k
      else if num = SYS_CLOSE then no_switch (syscall_close arg1 caller_cs k)
      else if num = SYS_STAT then no_switch (syscall_stat arg1 arg2 caller_cs k)
      else if num = SYS_GETPID then
        (if \<not> is_ring3 caller_cs then (SYSCALL_EPERM, None, k) else (sys_getpid k, None, k))
      else if num = SYS_EXIT then
        (if \<not> is_ring3 caller_cs then (SYSCALL_EPERM, None, k) else sys_exit arg1 control k)
      else if num = SYS_WAIT then
        (if \<not> is_ring3 caller_cs then (SYSCALL_EPERM, None, k) else sys_wait arg1 control k)
      else if num = SYS_FORK then
        (if \<not> is_ring3 caller_cs then (SYSCALL_EPERM, None, k) else sys_fork control k)
      else if num = SYS_EXEC then no_switch (syscall_exec arg1 arg2 arg3 caller_cs frame_ptr control k)
      else if num = SYS_BRK then
        (if \<not> is_ring3 caller_cs then (SYSCALL_EPERM, None, k) else no_switch (sys_brk arg1 k))
      else if num = SYS_WAITPID then
        (if \<not> is_ring3 caller_cs then (SYSCALL_EPERM, None, k) else sys_waitpid arg1 arg2 arg3 control k)
      else if num = SYS_PIPE then
        (if \<not> is_ring3 caller_cs then (SYSCALL_EPERM, None, k) else no_switch (sys_pipe arg1 arg2 k))
      else if num = SYS_KILL then
        (if \<not> is_ring3 caller_cs then (SYSCALL_EPERM, None, k) else no_switch (sys_kill arg1 arg2 k))
      else if num = SYS_SIGPENDING then
        (if \<not> is_ring3 caller_cs then (SYSCALL_EPERM, None, k) else (sys_sigpending k, None, k))
      else (SYSCALL_ENOSYS, None, k))"

definition syscall_handler :: "u32 \<Rightarrow> u32 \<Rightarrow> u32 \<Rightarrow> u32 \<Rightarrow> u32 \<Rightarrow> u32 \<Rightarrow> 'd kernel \<Rightarrow> u32 \<times> 'd kernel" where
  "syscall_handler num arg1 arg2 arg3 caller_cs frame_ptr k =
     (let (r, resume, k) = syscall_handle num arg1 arg2 arg3 caller_cs frame_ptr None k in (r, k))"

definition syscall_dispatch :: "u32 \<Rightarrow> 'd kernel \<Rightarrow> (u32 \<times> 'd kernel) option" where
  "syscall_dispatch frame_esp k =
     (if frame_esp = 0 then Some (0, k)
      else
        let k = (case process_get_current k of None \<Rightarrow> k
                 | Some i \<Rightarrow> set_proc i (\<lambda>p. p\<lparr>p_interrupt_frame := True\<rparr>) k);
            (result, resume, k) = syscall_handle (get_field frame_esp EAX k) (get_field frame_esp EBX k)
                (get_field frame_esp ECX k) (get_field frame_esp EDX k) (get_field frame_esp CS k)
                (frame_esp + 4 * field_index EIP) (Some frame_esp) k;
            k = set_field frame_esp EAX result k
        in process_deliver_signals (case resume of None \<Rightarrow> frame_esp | Some esp \<Rightarrow> esp) k)"

section \<open>Interrupts\<close>

definition page_fault_dispatch :: "u32 \<Rightarrow> u32 \<Rightarrow> u32 \<Rightarrow> 'd kernel \<Rightarrow> u32 \<times> 'd kernel" where
  "page_fault_dispatch frame_esp error_code fault_addr k =
     (let panic = (0, k\<lparr>k_serial := exception_handler 14 error_code fault_addr (k_serial k), k_hung := True\<rparr>) in
      if frame_esp \<noteq> 0 \<and> get_field frame_esp CS k AND 0x03 = 0x03 \<and> error_code AND VM_FAULT_USER \<noteq> 0 then
        let cur = scheduler_get_current k;
            (result, m) = vm_handle_page_fault (map_option (proc k) cur) fault_addr error_code (k_mmu k);
            k = k\<lparr>k_mmu := m\<rparr>
        in if result = VM_FAULT_HANDLED then (frame_esp, k)
           else case cur of
             Some i \<Rightarrow>
               let exit_code = (if result = VM_FAULT_GUARD then VM_EXIT_GUARD_PAGE
                                else if result = VM_FAULT_OOM then VM_EXIT_OOM else VM_EXIT_PAGE_FAULT)
               in scheduler_exit_current frame_esp (process_mark_exit (Some i) exit_code k)
           | None \<Rightarrow> panic
      else panic)"

definition timer_interrupt :: "u32 \<Rightarrow> 'd kernel \<Rightarrow> (u32 \<times> 'd kernel) option" where
  "timer_interrupt interrupted_esp k =
     (let (next_esp, k) = scheduler_preempt interrupted_esp (k\<lparr>timer_ticks := timer_ticks k + 1\<rparr>)
      in process_deliver_signals next_esp k)"

definition timer_handler :: "'d kernel \<Rightarrow> 'd kernel" where
  "timer_handler k = k\<lparr>timer_ticks := timer_ticks k + 1\<rparr>"

definition PIT_FREQ :: u32 where "PIT_FREQ = 1193182"

text \<open>\<^verbatim>\<open>timer_init\<close>: the bytes sent to the timer (the command, then the low and the high byte of the
  divisor) and the reset of the tick count. A frequency of zero divides by zero.\<close>

definition timer_init :: "u32 \<Rightarrow> 'd kernel \<Rightarrow> (u8 list \<times> 'd kernel) option" where
  "timer_init freq k =
     (if freq = 0 then None
      else let divisor = PIT_FREQ div freq
           in Some ([0x36, ucast (divisor AND 0xFF), ucast (drop_bit 8 divisor AND 0xFF)], k\<lparr>timer_ticks := 0\<rparr>))"

end
