(* ===== verification/Shell.thy ===== *)
theory Shell
  imports Syscall_Handle
begin

text \<open>
  The command line of the kernel, \<^verbatim>\<open>src/kernel/shell.c\<close>. The endless loop of \<^verbatim>\<open>shell_run\<close> is the step
  \<open>shell_key\<close> for the next character of the keyboard, so a session is a list of characters. A reboot
  stops the machine: it sets \<open>k_hung\<close>.
\<close>

section \<open>State\<close>

definition CMD_BUFFER_SIZE :: nat where "CMD_BUFFER_SIZE = 128"

record 'd shell =
  cmd_buffer :: "u8 list"
  cmd_pos :: nat
  sh_kernel :: "'d kernel"
  sh_mem :: mem_info

definition sh_vga :: "(vga \<Rightarrow> vga) \<Rightarrow> 'd shell \<Rightarrow> 'd shell" where
  "sh_vga f s = s\<lparr>sh_kernel := (sh_kernel s)\<lparr>k_vga := f (k_vga (sh_kernel s))\<rparr>\<rparr>"

abbreviation sh_puts :: "string \<Rightarrow> 'd shell \<Rightarrow> 'd shell" where
  "sh_puts text s \<equiv> sh_vga (vga_puts (str8 text)) s"

abbreviation sh_line :: "string \<Rightarrow> 'd shell \<Rightarrow> 'd shell" where
  "sh_line text s \<equiv> sh_vga (vga_puts (str8 text @ [0x0A])) s"

definition shell_prompt :: "'d shell \<Rightarrow> 'd shell" where
  "shell_prompt s = sh_puts ''> '' s"

definition print_uint32 :: "u32 \<Rightarrow> vga \<Rightarrow> vga" where
  "print_uint32 val v = (if val = 0 then vga_putc 0x30 v else put_digits vga_putc (digit_loop val []) v)"

section \<open>Commands\<close>

definition is_command :: "u8 list \<Rightarrow> string \<Rightarrow> bool" where
  "is_command cmd name \<longleftrightarrow> strcmp (cstr_at cmd) (cstr_at (str8 name)) = Some 0"

definition shell_help :: "'d shell \<Rightarrow> 'd shell" where
  "shell_help s = fold sh_line
     [''Available commands:'', ''  help    - show this message'', ''  clear   - clear screen'',
      ''  echo    - echo text'', ''  uptime  - show system uptime'', ''  mem     - show memory info'',
      ''  version - show OS version'', ''  reboot  - reboot (triple fault)''] s"

definition shell_uptime :: "'d shell \<Rightarrow> 'd shell" where
  "shell_uptime s =
     (let ticks = timer_get_ticks (sh_kernel s); seconds = timer_get_seconds (sh_kernel s);
          s = sh_puts ''Uptime: '' s; s = sh_vga (print_uint32 seconds) s;
          s = sh_puts '' seconds ('' s; s = sh_vga (print_uint32 ticks) s
      in sh_line '' ticks)'' s)"

definition shell_execute :: "u8 list \<Rightarrow> 'd shell \<Rightarrow> 'd shell" where
  "shell_execute cmd s =
     (if cstr_at cmd 0 = 0 then s
      else if is_command cmd ''help'' then shell_help s
      else if is_command cmd ''clear'' then sh_vga vga_clear s
      else if strncmp (cstr_at cmd) (cstr_at (str8 ''echo '')) 5 = 0 then
        let s = sh_vga (vga_puts (drop 5 cmd)) s; s = sh_vga (vga_puts [0x0A]) s;
            k = sh_kernel s
        in s\<lparr>sh_kernel := k\<lparr>k_serial := serial_puts (str8 ''SHELL_ECHO_OK'' @ [0x0A]) (k_serial k)\<rparr>\<rparr>
      else if is_command cmd ''uptime'' then shell_uptime s
      else if is_command cmd ''mem'' then
        let total_kb = total_memory_kb (sh_mem s); s = sh_puts ''Memory: '' s
        in sh_line '' MB total'' (sh_vga (print_uint32 (total_kb div 1024)) s)
      else if is_command cmd ''version'' then
        sh_line ''Built with i686-elf-gcc 13.2.0'' (sh_line ''x86 Bare Metal OS v0.1.0'' s)
      else if is_command cmd ''reboot'' then
        let s = sh_line ''Rebooting system...'' s in s\<lparr>sh_kernel := (sh_kernel s)\<lparr>k_hung := True\<rparr>\<rparr>
      else
        let s = sh_puts ''Unknown command: '' s; s = sh_vga (vga_puts cmd) s; s = sh_vga (vga_puts [0x0A]) s
        in sh_line ''Type 'help' for available commands.'' s)"

section \<open>The loop\<close>

definition shell_init :: "'d shell \<Rightarrow> 'd shell" where
  "shell_init s = s\<lparr>cmd_pos := 0, cmd_buffer := replicate CMD_BUFFER_SIZE 0\<rparr>"

definition shell_key :: "u8 \<Rightarrow> 'd shell \<Rightarrow> 'd shell" where
  "shell_key c s =
     (if c = 0x0A then
        let s = sh_vga (vga_putc 0x0A) s;
            s = s\<lparr>cmd_buffer := (cmd_buffer s)[cmd_pos s := 0]\<rparr>;
            s = shell_execute (cmd_buffer s) s
        in shell_prompt (shell_init s)
      else if c = 0x08 then
        (if 0 < cmd_pos s then
           let s = s\<lparr>cmd_pos := cmd_pos s - 1\<rparr>; s = s\<lparr>cmd_buffer := (cmd_buffer s)[cmd_pos s := 0]\<rparr>
           in sh_vga (vga_putc 0x08) (sh_vga (vga_putc 0x20) (sh_vga (vga_putc 0x08) s))
         else s)
      else if 32 \<le> c \<and> c < 127 then
        (if cmd_pos s < CMD_BUFFER_SIZE - 1 then
           let s = s\<lparr>cmd_buffer := (cmd_buffer s)[cmd_pos s := c], cmd_pos := cmd_pos s + 1\<rparr>
           in sh_vga (vga_putc c) s
         else s)
      else s)"

definition shell_run :: "u8 list \<Rightarrow> 'd shell \<Rightarrow> 'd shell" where
  "shell_run keys s = fold shell_key keys (shell_prompt s)"

section \<open>Line editing\<close>

text \<open>
  The invariant of the line editor: the buffer holds the typed characters, none of them a NUL,
  followed by NULs up to its 128 bytes, and there is always room for the terminator.
\<close>

definition shell_ok :: "'d shell \<Rightarrow> bool" where
  "shell_ok s \<longleftrightarrow> cmd_pos s < CMD_BUFFER_SIZE \<and> vga_inv (k_vga (sh_kernel s)) \<and>
     (\<exists>line. length line = cmd_pos s \<and> 0 \<notin> set line \<and>
       cmd_buffer s = line @ replicate (CMD_BUFFER_SIZE - cmd_pos s) 0)"

definition typed_line :: "'d shell \<Rightarrow> u8 list" where
  "typed_line s = take (cmd_pos s) (cmd_buffer s)"

text \<open>What a key does to the line, with no buffer in it.\<close>

definition edit_line :: "u8 \<Rightarrow> u8 list \<Rightarrow> u8 list" where
  "edit_line c line =
     (if c = 0x0A then []
      else if c = 0x08 then butlast line
      else if 32 \<le> c \<and> c < 127 \<and> length line < 127 then line @ [c] else line)"

text \<open>The output of a command changes the screen, the serial line and \<open>k_hung\<close> only.\<close>

definition same_line :: "'d shell \<Rightarrow> 'd shell \<Rightarrow> bool" where
  "same_line s t \<longleftrightarrow> cmd_buffer t = cmd_buffer s \<and> cmd_pos t = cmd_pos s \<and>
     (vga_inv (k_vga (sh_kernel s)) \<longrightarrow> vga_inv (k_vga (sh_kernel t)))"

lemma same_line_refl [simp]: "same_line s s"
  by (simp add: same_line_def)

lemma same_line_trans: "same_line s t \<Longrightarrow> same_line t u \<Longrightarrow> same_line s u"
  by (simp add: same_line_def)

lemma vga_inv_puts: "vga_inv v \<Longrightarrow> vga_inv (vga_puts cs v)"
  using vga_puts_inv_off_screen by blast

lemma vga_inv_print: "vga_inv v \<Longrightarrow> vga_inv (print_uint32 val v)"
proof -
  have "vga_inv v \<Longrightarrow> vga_inv (fold vga_putc cs v)" for cs
    by (induction cs arbitrary: v) (auto intro: vga_inv_putc)
  then show "vga_inv v \<Longrightarrow> vga_inv (print_uint32 val v)"
    by (simp add: print_uint32_def put_digits_def vga_inv_putc)
qed

lemma same_line_vga: "(\<And>v. vga_inv v \<Longrightarrow> vga_inv (f v)) \<Longrightarrow> same_line s t \<Longrightarrow> same_line s (sh_vga f t)"
  by (simp add: same_line_def sh_vga_def)

lemmas same_line_output = same_line_vga vga_inv_puts vga_inv_print vga_inv_putc vga_inv_clear

lemma same_line_serial: "same_line s t \<Longrightarrow> same_line s (t\<lparr>sh_kernel := (sh_kernel t)\<lparr>k_serial := x\<rparr>\<rparr>)"
  by (simp add: same_line_def)

lemma same_line_hung: "same_line s t \<Longrightarrow> same_line s (t\<lparr>sh_kernel := (sh_kernel t)\<lparr>k_hung := x\<rparr>\<rparr>)"
  by (simp add: same_line_def)

lemma same_line_if: "same_line s t \<Longrightarrow> same_line s u \<Longrightarrow> same_line s (if b then t else u)"
  by simp

lemma same_line_lines: "same_line s t \<Longrightarrow> same_line s (fold sh_line xs t)"
proof (induction xs arbitrary: t)
  case Nil
  then show ?case by simp
next
  case (Cons x xs)
  have "same_line s (sh_line x t)" using Cons.prems by (intro same_line_output)
  then show ?case using Cons.IH by (simp del: vga_puts.simps)
qed

lemma same_line_execute: "same_line s (shell_execute cmd s)"
  unfolding shell_execute_def Let_def shell_help_def shell_uptime_def
  by (intro same_line_if same_line_lines same_line_serial same_line_hung same_line_output same_line_refl)

lemma typed_line_append:
  "cmd_buffer s = line @ zs \<Longrightarrow> length line = cmd_pos s \<Longrightarrow> typed_line s = line"
  by (simp add: typed_line_def)

lemma shell_okE:
  assumes "shell_ok s"
  obtains "length (typed_line s) = cmd_pos s" "cmd_pos s < 128" "0 \<notin> set (typed_line s)"
    "cmd_buffer s = typed_line s @ replicate (128 - cmd_pos s) 0" "vga_inv (k_vga (sh_kernel s))"
  using assms typed_line_append by (fastforce simp: shell_ok_def CMD_BUFFER_SIZE_def)

lemma shell_okI:
  assumes "cmd_buffer s = line @ replicate (128 - length line) 0" "length line = cmd_pos s"
    "cmd_pos s < 128" "0 \<notin> set line" "vga_inv (k_vga (sh_kernel s))"
  shows "shell_ok s \<and> typed_line s = line"
  using assms typed_line_append [of s line] by (auto simp: shell_ok_def CMD_BUFFER_SIZE_def)

lemma shell_key_enter:
  assumes "shell_ok s"
  shows "shell_ok (shell_key 0x0A s) \<and> typed_line (shell_key 0x0A s) = []"
proof -
  let ?s = "sh_vga (vga_putc 0x0A) s"
  let ?t = "?s\<lparr>cmd_buffer := (cmd_buffer ?s)[cmd_pos ?s := 0]\<rparr>"
  let ?u = "shell_prompt (shell_init (shell_execute (cmd_buffer ?t) ?t))"
  have "vga_inv (k_vga (sh_kernel ?t))"
    using assms by (auto elim!: shell_okE simp: sh_vga_def vga_inv_putc)
  then have "vga_inv (k_vga (sh_kernel (shell_execute (cmd_buffer ?t) ?t)))"
    using same_line_execute [of ?t "cmd_buffer ?t"] by (simp add: same_line_def)
  then have "shell_ok ?u \<and> typed_line ?u = []"
    by (intro shell_okI)
      (simp_all add: shell_prompt_def shell_init_def sh_vga_def vga_inv_puts CMD_BUFFER_SIZE_def del: vga_puts.simps)
  moreover have "shell_key 0x0A s = ?u" by (simp add: shell_key_def Let_def)
  ultimately show ?thesis by simp
qed

lemma replicate_snoc_zeros: "i < 128 \<Longrightarrow> replicate (128 - i) (0 :: u8) = 0 # replicate (127 - i) 0"
  by (cases "128 - i") (auto simp: Suc_diff_Suc)

lemma shell_key_erase:
  assumes "shell_ok s"
  shows "shell_ok (shell_key 0x08 s) \<and> typed_line (shell_key 0x08 s) = butlast (typed_line s)"
proof (cases "cmd_pos s")
  case 0
  then show ?thesis using assms by (simp add: shell_key_def typed_line_def)
next
  case (Suc p)
  from assms obtain c line where s: "typed_line s = line @ [c]" "length line = p" "Suc p < 128"
      "0 \<notin> set line" "cmd_buffer s = (line @ [c]) @ replicate (127 - p) 0" "vga_inv (k_vga (sh_kernel s))"
  proof (rule shell_okE)
    assume h: "length (typed_line s) = cmd_pos s" "cmd_pos s < 128" "0 \<notin> set (typed_line s)"
      "cmd_buffer s = typed_line s @ replicate (128 - cmd_pos s) 0" "vga_inv (k_vga (sh_kernel s))"
    obtain line c where t: "typed_line s = line @ [c]"
      using h(1) Suc by (cases "typed_line s" rule: rev_cases) auto
    show thesis using h Suc that [of line c] unfolding t by auto
  qed
  have "(cmd_buffer s)[p := 0] = line @ replicate (128 - p) 0"
    using s by (simp add: list_update_append replicate_snoc_zeros)
  then show ?thesis
    using s Suc unfolding s(1) butlast_snoc
    by (intro shell_okI) (simp_all add: shell_key_def Let_def sh_vga_def vga_inv_putc)
qed

lemma shell_key_print:
  assumes "shell_ok s" and "c \<noteq> 0x0A" and "c \<noteq> 0x08"
  shows "shell_ok (shell_key c s) \<and> typed_line (shell_key c s) = edit_line c (typed_line s)"
proof (cases "32 \<le> c \<and> c < 127 \<and> cmd_pos s < 127")
  case True
  show ?thesis
    using assms(1)
  proof (rule shell_okE)
    assume s: "length (typed_line s) = cmd_pos s" "cmd_pos s < 128" "0 \<notin> set (typed_line s)"
      "cmd_buffer s = typed_line s @ replicate (128 - cmd_pos s) 0" "vga_inv (k_vga (sh_kernel s))"
    have "(cmd_buffer s)[cmd_pos s := c] = (typed_line s @ [c]) @ replicate (127 - cmd_pos s) 0"
      using s(1,2) unfolding s(4) by (simp add: list_update_append replicate_snoc_zeros)
    moreover have "edit_line c (typed_line s) = typed_line s @ [c]"
      using True assms s(1) by (simp add: edit_line_def)
    moreover have "c \<noteq> 0" using True by auto
    ultimately show ?thesis
      using True assms s
      by (intro shell_okI) (simp_all add: shell_key_def Let_def sh_vga_def vga_inv_putc CMD_BUFFER_SIZE_def)
  qed
next
  case False
  then have "shell_key c s = s" using assms by (auto simp: shell_key_def CMD_BUFFER_SIZE_def)
  moreover have "edit_line c (typed_line s) = typed_line s"
    using False assms by (auto simp: edit_line_def elim: shell_okE)
  ultimately show ?thesis using assms by simp
qed

lemma shell_key_refines:
  assumes "shell_ok s"
  shows "shell_ok (shell_key c s) \<and> typed_line (shell_key c s) = edit_line c (typed_line s)"
  using shell_key_enter [OF assms] shell_key_erase [OF assms] shell_key_print [OF assms, of c]
  by (cases "c = 0x0A"; cases "c = 0x08") (auto simp: edit_line_def)

text \<open>C35: Whatever is typed, the command buffer of the shell never overflows: it keeps a NUL after
  the line and the cursor stays on the screen, and the line in it is the one the keys spell, each
  backspace deleting the last character, each Enter starting anew, and characters beyond 127 or
  outside the printable range ignored.
\<close>

theorem shell_line_editing:
  assumes "vga_inv (k_vga (sh_kernel s))"
  shows "shell_ok (shell_run keys (shell_init s)) \<and>
    typed_line (shell_run keys (shell_init s)) = fold edit_line keys []"
proof -
  have "shell_ok t \<Longrightarrow> shell_ok (fold shell_key keys t) \<and>
      typed_line (fold shell_key keys t) = fold edit_line keys (typed_line t)" for t :: "'a shell"
    by (induction keys arbitrary: t) (simp_all add: shell_key_refines)
  moreover have "shell_ok (shell_prompt (shell_init s)) \<and> typed_line (shell_prompt (shell_init s)) = []"
    using assms by (intro shell_okI)
      (simp_all add: shell_prompt_def shell_init_def sh_vga_def vga_inv_puts CMD_BUFFER_SIZE_def del: vga_puts.simps)
  ultimately show ?thesis by (simp add: shell_run_def)
qed

text \<open>A session: a mistyped command, corrected, then Enter and two characters of the next line.\<close>

definition shell_demo :: "ramdisk_data shell" where
  "shell_demo = \<lparr>cmd_buffer = replicate 128 0xFF, cmd_pos = 77, sh_kernel = kernel_demo,
     sh_mem = \<lparr>total_memory_kb = 4096, detected_from_hardware = True\<rparr>\<rparr>"

theorem shell_line_editing_witness:
  "typed_line (shell_run [0x6D, 0x65, 0x08, 0x65, 0x6D, 0x0A, 0x68, 0x69] (shell_init shell_demo)) = [0x68, 0x69]"
  using shell_line_editing [of shell_demo "[0x6D, 0x65, 0x08, 0x65, 0x6D, 0x0A, 0x68, 0x69]"]
  by (simp add: shell_demo_def kernel_demo_def vga_inv_def vga_dims edit_line_def)

end
