(* ===== verification/Ramdisk_Init.thy ===== *)
theory Ramdisk_Init
  imports Ramdisk Paging Console
begin

text \<open>
  Setting up the ramdisk, \<^verbatim>\<open>ramdisk_init\<close> of \<^verbatim>\<open>src/kernel/ramdisk.c\<close>: reserve its frames, map them one
  to one in the active address space, and clear the bytes.
\<close>

record ramdisk_state =
  ramdisk_initialized :: bool
  ramdisk_memory :: ramdisk_data
  rd_mmu :: mmu
  rd_serial :: serial_log

text \<open>The pages of \<^verbatim>\<open>for (addr = RAMDISK_BASE; addr < RAMDISK_END; addr += FRAME_SIZE)\<close>.\<close>

definition ramdisk_pages :: "u32 list" where
  "ramdisk_pages = map (\<lambda>i. RAMDISK_BASE + of_nat i * FRAME_SIZE) [0..<unat RAMDISK_SIZE div unat FRAME_SIZE]"

fun map_disk_pages :: "u32 list \<Rightarrow> mmu \<Rightarrow> int \<times> mmu" where
  "map_disk_pages [] m = (BLKDEV_SUCCESS, m)"
| "map_disk_pages (addr # addrs) m =
     (let m = paging_map_page addr addr (PAGE_PRESENT OR PAGE_WRITABLE) m in
      if \<not> paging_is_mapped addr m then (BLKDEV_ERROR, m) else map_disk_pages addrs m)"

definition ramdisk_map_pages :: "mmu \<Rightarrow> int \<times> mmu" where
  "ramdisk_map_pages m = map_disk_pages ramdisk_pages m"

definition ramdisk_log :: "serial_log \<Rightarrow> serial_log" where
  "ramdisk_log out =
     (let out = serial_puts (str8 ''RAMDISK_INIT_OK'' @ [0x0A]) out;
          out = serial_puts (str8 ''Ramdisk initialized: '') out;
          out = serial_put_uint32 RAMDISK_SECTORS out;
          out = serial_puts (str8 '' sectors ('') out;
          out = serial_put_uint32 (RAMDISK_SIZE div 1024) out
      in serial_puts (str8 '' KB)'' @ [0x0A]) out)"

definition ramdisk_init :: "ramdisk_state \<Rightarrow> int \<times> ramdisk_state" where
  "ramdisk_init s =
     (if ramdisk_initialized s then (BLKDEV_SUCCESS, s)
      else
        let failed = (\<lambda>s. s\<lparr>rd_serial := serial_puts (str8 ''RAMDISK_INIT_FAIL'' @ [0x0A]) (rd_serial s)\<rparr>);
            m = rd_mmu s;
            (ok, fr) = frame_reserve_range RAMDISK_BASE RAMDISK_END (mmu_frames m);
            s = s\<lparr>rd_mmu := m\<lparr>mmu_frames := fr\<rparr>\<rparr>
        in if \<not> ok then (BLKDEV_ERROR, failed s)
           else
             let (status, m) = ramdisk_map_pages (rd_mmu s); s = s\<lparr>rd_mmu := m\<rparr> in
             if status \<noteq> BLKDEV_SUCCESS then (BLKDEV_ERROR, failed s)
             else (BLKDEV_SUCCESS, s\<lparr>ramdisk_memory := (\<lambda>i. if i < unat RAMDISK_SIZE then 0 else ramdisk_memory s i),
                     ramdisk_initialized := True, rd_serial := ramdisk_log (rd_serial s)\<rparr>))"

definition ramdisk_get_device :: "ramdisk_state \<Rightarrow> ramdisk_data block_device option" where
  "ramdisk_get_device s = (if ramdisk_initialized s then Some ramdisk_dev else None)"

end
