(* ===== verification/Address_Space.thy ===== *)
theory Address_Space
  imports Virtual_Memory
begin

text \<open>
  Correctness of \<^verbatim>\<open>paging.c\<close>: what a page directory means is the page walk \<open>walk_entry\<close> of the processor,
  and each operation on a directory is described by its effect on the walks of all addresses. The
  invariant \<open>pgdir_ok\<close> says that the tables of a directory are allocated pages of their own, one for each
  present entry, and that a page a user may reach is also reachable through its directory entry.
\<close>

section \<open>Bits of page table entries\<close>

lemma page_flags_exp:
  "PAGE_PRESENT = 2 ^ 0" "PAGE_WRITABLE = 2 ^ 1" "PAGE_USER = 2 ^ 2" "PAGE_COW = 2 ^ 9"
  by (simp_all add: page_flags)

lemma bit_page_flags:
  "bit PAGE_PRESENT n \<longleftrightarrow> n = 0" "bit PAGE_WRITABLE n \<longleftrightarrow> n = 1" "bit PAGE_USER n \<longleftrightarrow> n = 2"
  "bit PAGE_COW n \<longleftrightarrow> n = 9"
  unfolding page_flags_exp bit_exp_iff possible_bit_word by auto

lemma bit_page_masks:
  "bit (w AND 0xFFF) n \<longleftrightarrow> bit w n \<and> n < 12" "bit (w AND 0xFFFFF000) n \<longleftrightarrow> bit w n \<and> 12 \<le> n" for w :: u32
proof -
  have m: "(0xFFF :: u32) = mask 12" "(0xFFFFF000 :: u32) = NOT (mask 12)"
    by (simp_all add: mask_eq_exp_minus_1)
  show "bit (w AND 0xFFF) n \<longleftrightarrow> bit w n \<and> n < 12" "bit (w AND 0xFFFFF000) n \<longleftrightarrow> bit w n \<and> 12 \<le> n"
    unfolding m by (auto simp: bit_and_iff bit_not_iff bit_mask_iff dest: bit_imp_le_length)
qed

lemma bit_page_mask_ints:
  "bit (0xFFF :: int) n \<longleftrightarrow> n < 12" "bit (0xFFFFF000 :: int) n \<longleftrightarrow> 12 \<le> n \<and> n < 32"
proof -
  have m: "(0xFFF :: int) = mask 12" "(0xFFFFF000 :: int) = push_bit 12 (mask 20)"
    by (simp_all add: mask_eq_exp_minus_1 push_bit_eq_mult)
  show "bit (0xFFF :: int) n \<longleftrightarrow> n < 12" "bit (0xFFFFF000 :: int) n \<longleftrightarrow> 12 \<le> n \<and> n < 32"
    unfolding m by (auto simp: bit_mask_iff bit_push_bit_iff)
qed

lemma u32_eqI: "(\<And>n. n < 32 \<Longrightarrow> bit a n \<longleftrightarrow> bit b n) \<Longrightarrow> a = b" for a b :: u32
  by (simp add: bit_eq_iff)

lemma and_flag_eq_0:
  "(e :: u32) AND PAGE_PRESENT = 0 \<longleftrightarrow> \<not> bit e 0" "e AND PAGE_WRITABLE = 0 \<longleftrightarrow> \<not> bit e 1"
  "e AND PAGE_USER = 0 \<longleftrightarrow> \<not> bit e 2" "e AND PAGE_COW = 0 \<longleftrightarrow> \<not> bit e 9"
  unfolding page_flags_exp and_exp_eq_0_iff_not_bit by simp_all

lemmas entry_bits = bit_and_iff bit_or_iff bit_not_iff bit_page_flags bit_page_mask_ints

lemma and_eq_flags: "(e :: u32) AND f = f \<longleftrightarrow> (\<forall>n. bit f n \<longrightarrow> bit e n)"
  by (auto simp: bit_and_iff intro!: bit_word_eqI dest: arg_cong [where f = "\<lambda>w. bit w _"])

lemma user_page_bits: "user_page e \<longleftrightarrow> bit e 0 \<and> bit e 2"
  by (simp add: user_page_def and_eq_flags entry_bits conj_disj_distribR all_conj_distrib imp_conjR)

lemma bit_page_base: "bit (page_base e) n \<longleftrightarrow> 12 \<le> n \<and> bit e n"
  by (auto simp: page_base_def bit_page_masks)

lemma page_aligned_bits: "page_aligned p \<longleftrightarrow> (\<forall>n<12. \<not> bit p n)"
proof -
  have "page_aligned p \<longleftrightarrow> p AND 0xFFF = 0" by (simp add: page_aligned_def FRAME_SIZE_def)
  also have "\<dots> \<longleftrightarrow> (\<forall>n<12. \<not> bit p n)"
    using bit_page_masks(1) [of p] by (metis bit_0_eq bot_apply bot_bool_def bit_word_eqI)
  finally show ?thesis .
qed

lemma page_base_align_down: "page_base e = align_down e"
proof -
  have "(0xFFFFF000 :: u32) = NOT (FRAME_SIZE - 1)" by (simp add: FRAME_SIZE_def)
  then show ?thesis by (simp only: page_base_def align_down_def)
qed

lemma page_base_aligned [simp]: "page_aligned (page_base e)"
  by (simp add: page_aligned_bits bit_page_base)

lemma page_base_of_aligned: "page_aligned p \<Longrightarrow> page_base p = p"
  by (auto simp: page_aligned_bits bit_eq_iff bit_page_base intro: leI)

lemma page_base_0 [simp]: "page_base 0 = 0"
  by (simp add: page_base_def)

text \<open>An entry is a page-aligned address with flags in its low bits.\<close>

lemma page_base_or: "page_aligned p \<Longrightarrow> (\<And>n. 12 \<le> n \<Longrightarrow> \<not> bit f n) \<Longrightarrow> page_base (p OR f) = p"
  by (rule u32_eqI) (auto simp: bit_page_base bit_or_iff page_aligned_bits intro: leI)

lemma page_base_flags:
  "page_aligned p \<Longrightarrow> page_base (p OR (f AND 0xFFF) OR PAGE_PRESENT) = p"
  "page_aligned p \<Longrightarrow> page_base (p OR PAGE_PRESENT OR PAGE_WRITABLE) = p"
  "page_aligned p \<Longrightarrow> page_base (p OR PAGE_PRESENT OR PAGE_WRITABLE OR (f AND PAGE_USER)) = p"
  "page_base (e OR PAGE_USER) = page_base e" "page_base ((e OR PAGE_WRITABLE) AND NOT PAGE_COW) = page_base e"
proof -
  assume p: "page_aligned p"
  show "page_base (p OR (f AND 0xFFF) OR PAGE_PRESENT) = p" "page_base (p OR PAGE_PRESENT OR PAGE_WRITABLE) = p"
    "page_base (p OR PAGE_PRESENT OR PAGE_WRITABLE OR (f AND PAGE_USER)) = p"
    unfolding or.assoc by (rule page_base_or [OF p]; simp add: entry_bits)+
qed (rule u32_eqI; auto simp: bit_page_base entry_bits)+

section \<open>Indices\<close>

lemma index_bounds [simp]: "dir_index v < 1024" "table_index v < 1024"
  by (simp_all add: dir_index_def table_index_def unat_and_mask [where n = 10, simplified mask_eq_exp_minus_1, simplified])

definition same_page :: "u32 \<Rightarrow> u32 \<Rightarrow> bool" where
  "same_page v w \<longleftrightarrow> dir_index v = dir_index w \<and> table_index v = table_index w"

lemma same_page_iff: "same_page v w \<longleftrightarrow> page_base v = page_base w"
proof -
  have d: "dir_index u = unat u div 4194304 mod 1024" "table_index u = unat u div 4096 mod 1024"
    "unat u div 4194304 mod 1024 = unat u div 4194304" for u
    using u32_unat_lt [of u]
    by (simp_all add: dir_index_def table_index_def drop_bit_eq_div unat_div div_less_iff_less_mult
        unat_and_mask [where n = 10, simplified mask_eq_exp_minus_1, simplified] del: u32_unat_lt)
  have b: "unat (page_base u) = unat u div 4096 * 4096" for u
    by (simp add: page_base_align_down unat_align_down)
  have "unat u div 4096 div 1024 = unat u div 4194304" for u by (simp add: div_mult2_eq [symmetric])
  then have "same_page v w \<longleftrightarrow> unat v div 4096 = unat w div 4096"
    unfolding same_page_def d by (metis d(3) div_mult_mod_eq)
  then show ?thesis using b by (metis mult_right_cancel word_unat_eq_iff zero_neq_numeral)
qed

section \<open>Words of pages\<close>

lemma phys_put_word: "phys (put_word p i w m) q j = (if q = p \<and> j = i then w else phys m q j)"
  by (simp add: put_word_def)

lemma put_word_fields [simp]:
  "mmu_frames (put_word p i w m) = mmu_frames m" "active_page_directory (put_word p i w m) = active_page_directory m"
  "kernel_scratch_table (put_word p i w m) = kernel_scratch_table m" "mmu_fault (put_word p i w m) = mmu_fault m"
  "paging_on (put_word p i w m) = paging_on m"
  by (simp_all add: put_word_def)

lemma fill_loop:
  "phys (for_loop 0 n (\<lambda>i. put_word p i (f i)) m) q j = (if q = p \<and> j < n then f j else phys m q j) \<and>
   mmu_frames (for_loop 0 n (\<lambda>i. put_word p i (f i)) m) = mmu_frames m \<and>
   active_page_directory (for_loop 0 n (\<lambda>i. put_word p i (f i)) m) = active_page_directory m \<and>
   kernel_scratch_table (for_loop 0 n (\<lambda>i. put_word p i (f i)) m) = kernel_scratch_table m \<and>
   mmu_fault (for_loop 0 n (\<lambda>i. put_word p i (f i)) m) = mmu_fault m"
  by (induction n) (auto simp: for_loop_last for_loop_done phys_put_word less_Suc_eq)

definition mmu_refs :: "mmu \<Rightarrow> u32 \<Rightarrow> nat" where
  "mmu_refs m = frame_refs (mmu_frames m)"

definition mmu_ok :: "mmu \<Rightarrow> bool" where
  "mmu_ok m \<longleftrightarrow> frame_ok (mmu_frames m)"

lemma alloc_page_table_spec:
  assumes "mmu_ok m" "allocator_alloc_page_table m = (p, m')"
  shows "mmu_ok m' \<and> active_page_directory m' = active_page_directory m \<and>
    kernel_scratch_table m' = kernel_scratch_table m \<and> mmu_fault m' = mmu_fault m \<and>
    (if p = 0 then phys m' = phys m \<and> mmu_refs m' = mmu_refs m
     else page_aligned p \<and> mmu_refs m p = 0 \<and> mmu_refs m' = (mmu_refs m)(p := 1) \<and>
       p < IDENTITY_MAPPED_LIMIT \<and>
       (\<forall>q j. phys m' q j = (if q = p \<and> j < 1024 then 2 else phys m q j)))"
proof -
  obtain a fr where fr: "frame_alloc_below IDENTITY_MAPPED_LIMIT (mmu_frames m) = (a, fr)" by force
  note sp = frame_alloc_below_spec [OF assms(1) [unfolded mmu_ok_def] fr]
  have "a < IDENTITY_MAPPED_LIMIT" if "unat a div 4096 < frame_bound (mmu_frames m) IDENTITY_MAPPED_LIMIT"
    using that by (simp add: frame_bound_def IDENTITY_MAPPED_LIMIT_def word_less_nat_alt div_less_iff_less_mult)
  then show ?thesis
    using sp fill_loop [of 1024 a "\<lambda>_. 2" "m\<lparr>mmu_frames := fr\<rparr>"] assms(2)
    by (auto simp: allocator_alloc_page_table_def paging_alloc_frame_def fr mmu_ok_def mmu_refs_def split: if_splits)
qed

section \<open>Directories\<close>

definition table_of :: "mmu \<Rightarrow> u32 \<Rightarrow> nat \<Rightarrow> u32 option" where
  "table_of m d i = (if bit (phys m d i) 0 then Some (page_base (phys m d i)) else None)"

definition pgdir_ok :: "mmu \<Rightarrow> u32 \<Rightarrow> bool" where
  "pgdir_ok m d \<longleftrightarrow> page_aligned d \<and> 0 < mmu_refs m d \<and>
     (\<forall>i<1024. \<forall>t. table_of m d i = Some t \<longrightarrow> t \<noteq> d \<and> 0 < mmu_refs m t \<and> bit (phys m d i) 1 \<and>
        (\<forall>j<1024. bit (phys m t j) 0 \<and> bit (phys m t j) 2 \<longrightarrow> bit (phys m d i) 2)) \<and>
     (\<forall>i<1024. \<forall>j<1024. \<forall>t. table_of m d i = Some t \<and> table_of m d j = Some t \<longrightarrow> i = j)"

lemma walk_entry_table:
  "walk_entry d v m = (case table_of m d (dir_index v) of None \<Rightarrow> None
     | Some t \<Rightarrow> if bit (phys m t (table_index v)) 0 then Some (phys m t (table_index v)) else None)"
  by (simp add: walk_entry_def table_of_def and_flag_eq_0 Let_def)

lemma pgdir_okD:
  assumes "pgdir_ok m d" "table_of m d i = Some t" "i < 1024"
  shows "t \<noteq> d" "0 < mmu_refs m t" "bit (phys m d i) 1" "page_aligned t"
    "j < 1024 \<Longrightarrow> bit (phys m t j) 0 \<Longrightarrow> bit (phys m t j) 2 \<Longrightarrow> bit (phys m d i) 2"
    "j < 1024 \<Longrightarrow> table_of m d j = Some t \<Longrightarrow> j = i"
proof -
  show "t \<noteq> d" "0 < mmu_refs m t" "bit (phys m d i) 1"
    "j < 1024 \<Longrightarrow> bit (phys m t j) 0 \<Longrightarrow> bit (phys m t j) 2 \<Longrightarrow> bit (phys m d i) 2"
    using assms unfolding pgdir_ok_def by blast+
  show "page_aligned t" using assms(2) by (auto simp: table_of_def split: if_splits)
  show "j < 1024 \<Longrightarrow> table_of m d j = Some t \<Longrightarrow> j = i"
    using assms unfolding pgdir_ok_def by blast
qed

text \<open>Replacing one entry of one table, as every operation on a mapped page does.\<close>

lemma put_entry:
  assumes "pgdir_ok m d" "table_of m d (dir_index v) = Some t"
    "bit e 0 \<and> bit e 2 \<longrightarrow> bit (phys m d (dir_index v)) 2"
  shows "pgdir_ok (put_word t (table_index v) e m) d \<and>
    table_of (put_word t (table_index v) e m) d = table_of m d \<and>
    walk_entry d v (put_word t (table_index v) e m) = (if bit e 0 then Some e else None) \<and>
    (\<forall>w. \<not> same_page w v \<longrightarrow> walk_entry d w (put_word t (table_index v) e m) = walk_entry d w m)"
proof -
  let ?m = "put_word t (table_index v) e m"
  note t = pgdir_okD [OF assms(1,2) index_bounds(1)]
  have d: "phys ?m d i = phys m d i" for i using t(1) by (auto simp: phys_put_word)
  then have tab: "table_of ?m d = table_of m d" by (simp add: table_of_def fun_eq_iff)
  have "pgdir_ok ?m d"
    unfolding pgdir_ok_def tab d
  proof (intro conjI allI impI)
    fix i u assume i: "i < 1024" "table_of m d i = Some u"
    note u = pgdir_okD [OF assms(1) i(2,1)]
    show "u \<noteq> d" "0 < mmu_refs ?m u" "bit (phys m d i) 1" using u by (simp_all add: mmu_refs_def)
    fix j assume j: "j < 1024" "bit (phys ?m u j) 0 \<and> bit (phys ?m u j) 2"
    show "bit (phys m d i) 2"
    proof (cases "u = t \<and> j = table_index v")
      case True
      then have "i = dir_index v" using t(6) i by auto
      then show ?thesis using assms(3) j(2) True by (simp add: phys_put_word)
    next
      case False
      then show ?thesis using u(5) [OF j(1)] j(2) by (auto simp: phys_put_word)
    qed
  next
    show "page_aligned d" "0 < mmu_refs ?m d" using assms(1) by (simp_all add: pgdir_ok_def mmu_refs_def)
  qed (use assms(1) in \<open>unfold pgdir_ok_def, blast\<close>)
  moreover have "walk_entry d w ?m = walk_entry d w m" if "\<not> same_page w v" for w
  proof (cases "table_of m d (dir_index w)")
    case (Some u)
    have "\<not> (u = t \<and> table_index w = table_index v)"
      using that Some t(6) [OF index_bounds(1)] by (auto simp: same_page_def)
    then show ?thesis by (auto simp: walk_entry_table tab Some phys_put_word)
  qed (simp add: walk_entry_table tab)
  ultimately show ?thesis using assms(2) tab by (simp add: walk_entry_table phys_put_word)
qed

text \<open>Giving a directory entry more rights, or a fresh empty table.\<close>

lemma put_dir_user:
  assumes "pgdir_ok m d" "i < 1024"
  shows "pgdir_ok (put_word d i (phys m d i OR PAGE_USER) m) d \<and>
    table_of (put_word d i (phys m d i OR PAGE_USER) m) d = table_of m d \<and>
    walk_entry d v (put_word d i (phys m d i OR PAGE_USER) m) = walk_entry d v m"
proof -
  let ?m = "put_word d i (phys m d i OR PAGE_USER) m"
  have tab: "table_of ?m d = table_of m d"
    by (auto simp: table_of_def fun_eq_iff phys_put_word page_base_flags entry_bits)
  have ph: "phys ?m t = phys m t" if "t \<noteq> d" for t using that by (simp add: phys_put_word fun_eq_iff)
  have b: "bit (phys ?m d j) n \<longleftrightarrow> bit (phys m d j) n \<or> j = i \<and> n = 2" for j n
    by (auto simp: phys_put_word entry_bits)
  have "pgdir_ok ?m d"
    unfolding pgdir_ok_def tab b
    using pgdir_okD [OF assms(1)] assms(1) ph by (auto simp: pgdir_ok_def mmu_refs_def)
  moreover have "walk_entry d v ?m = walk_entry d v m"
    using pgdir_okD(1) [OF assms(1) _ index_bounds(1)] ph by (auto simp: walk_entry_table tab split: option.splits)
  ultimately show ?thesis using tab by simp
qed

lemma put_dir_table:
  fixes f :: u32
  assumes "pgdir_ok m d" "mmu_ok m" "i < 1024" "table_of m d i = None"
    "allocator_alloc_page_table m = (p, m1)" "p \<noteq> 0"
  defines "m2 \<equiv> put_word d i (p OR PAGE_PRESENT OR PAGE_WRITABLE OR (f AND PAGE_USER)) m1"
  shows "pgdir_ok m2 d \<and> table_of m2 d = (table_of m d)(i := Some p) \<and> walk_entry d v m2 = walk_entry d v m \<and>
    bit (phys m2 d i) 2 = bit f 2"
proof -
  let ?e = "p OR PAGE_PRESENT OR PAGE_WRITABLE OR (f AND PAGE_USER)"
  have al: "page_aligned p" "mmu_refs m p = 0" "mmu_refs m1 = (mmu_refs m)(p := 1)"
      "\<And>q j. phys m1 q j = (if q = p \<and> j < 1024 then 2 else phys m q j)"
    using alloc_page_table_spec [OF assms(2,5)] assms(6) by auto
  have "p \<noteq> d" using assms(1) al(2) by (auto simp: pgdir_ok_def)
  have ph: "phys m2 q j = (if q = d \<and> j = i then ?e else if q = p \<and> j < 1024 then 2 else phys m q j)" for q j
    using al(4) by (simp add: m2_def phys_put_word)
  have e: "page_base ?e = p" "bit ?e 0" "bit ?e 1" "bit ?e 2 = bit f 2"
    using al(1) by (simp_all add: page_base_flags entry_bits page_aligned_bits)
  have tab: "table_of m2 d = (table_of m d)(i := Some p)"
    using \<open>p \<noteq> d\<close> e by (auto simp: table_of_def ph fun_eq_iff)
  have old: "table_of m d j \<noteq> Some p" if "j < 1024" for j
    using pgdir_okD(2) [OF assms(1) _ that] al(2) by fastforce
  have refs: "mmu_refs m2 = (mmu_refs m)(p := 1)" using al(3) by (simp add: m2_def mmu_refs_def)
  have nb: "\<not> bit (2 :: u32) 0" by simp
  have "pgdir_ok m2 d"
    unfolding pgdir_ok_def tab refs
    using pgdir_okD [OF assms(1)] old assms(1) \<open>p \<noteq> d\<close> e nb
    by (auto simp: pgdir_ok_def ph split: if_splits)
  moreover have "walk_entry d v m2 = walk_entry d v m"
    using assms(4) old [OF index_bounds(1)] pgdir_okD(1) [OF assms(1) _ index_bounds(1)] \<open>p \<noteq> d\<close>
    by (auto simp: walk_entry_table tab ph split: option.splits)
  ultimately show ?thesis using tab e by (simp add: ph)
qed

section \<open>Mapping a page\<close>

lemma map_page_spec:
  assumes "pgdir_ok m d" "mmu_ok m" "d = page_base cr3" "cr3 \<noteq> 0" "page_aligned p"
    "paging_map_page_in_directory cr3 v p flags m = (ok, m')"
  shows "pgdir_ok m' d \<and> mmu_ok m' \<and>
    walk_entry d v m' = (if ok then Some (p OR (flags AND 0xFFF) OR PAGE_PRESENT) else walk_entry d v m) \<and>
    (\<forall>w. \<not> same_page w v \<longrightarrow> walk_entry d w m' = walk_entry d w m)"
proof -
  let ?e = "p OR (flags AND 0xFFF) OR PAGE_PRESENT"
  have e: "bit ?e 0" "bit ?e 2 = bit flags 2"
    using assms(5) by (simp_all add: entry_bits page_aligned_bits)
  have p: "p AND (PAGE_SIZE - 1) = 0" "page_base p = p"
    using assms(5) page_base_of_aligned by (simp_all add: page_aligned_def PAGE_SIZE_def FRAME_SIZE_def)
  have last: "?thesis" if "pgdir_ok m1 d" "mmu_ok m1" "table_of m1 d (dir_index v) = Some t"
      "bit flags 2 \<longrightarrow> bit (phys m1 d (dir_index v)) 2" "\<forall>w. walk_entry d w m1 = walk_entry d w m"
      "ok" "m' = put_word t (table_index v) ?e m1" for m1 t
    using put_entry [OF that(1,3), of ?e] that e by (simp add: mmu_ok_def)
  show ?thesis
  proof (cases "table_of m d (dir_index v)")
    case (Some t)
    then have pr: "bit (phys m d (dir_index v)) 0" "page_base (phys m d (dir_index v)) = t"
      by (auto simp: table_of_def split: if_splits)
    show ?thesis
    proof (cases "bit flags 2")
      case True
      let ?m1 = "put_word d (dir_index v) (phys m d (dir_index v) OR PAGE_USER) m"
      have "ok" "m' = put_word t (table_index v) ?e ?m1"
        using assms(3,4,6) p pr True
        by (simp_all add: paging_map_page_in_directory_def Let_def and_flag_eq_0 phys_put_word page_base_flags)
      then show ?thesis
        using put_dir_user [OF assms(1) index_bounds(1)] Some assms(2)
        by (intro last [of ?m1 t]) (simp_all add: phys_put_word entry_bits mmu_ok_def)
    next
      case False
      then have "ok" "m' = put_word t (table_index v) ?e m"
        using assms(3,4,6) p pr
        by (simp_all add: paging_map_page_in_directory_def Let_def and_flag_eq_0)
      then show ?thesis using False Some assms(1,2) by (intro last [of m t]) simp_all
    qed
  next
    case None
    then have pr: "\<not> bit (phys m d (dir_index v)) 0" by (auto simp: table_of_def split: if_splits)
    obtain t m1 where al: "allocator_alloc_page_table m = (t, m1)" by force
    note sp = alloc_page_table_spec [OF assms(2) al]
    show ?thesis
    proof (cases "t = 0")
      case True
      then have "\<not> ok" "m' = m1"
        using assms(3,4,6) p pr al by (simp_all add: paging_map_page_in_directory_def Let_def and_flag_eq_0)
      then show ?thesis
        using sp True assms(1) by (simp add: pgdir_ok_def walk_entry_table table_of_def)
    next
      case False
      let ?m2 = "put_word d (dir_index v) (t OR PAGE_PRESENT OR PAGE_WRITABLE OR (flags AND PAGE_USER)) m1"
      have "page_base (phys ?m2 d (dir_index v)) = t"
        using sp False by (simp add: phys_put_word page_base_flags)
      then have "ok" "m' = put_word t (table_index v) ?e ?m2"
        using assms(3,4,6) p pr al False
        by (simp_all add: paging_map_page_in_directory_def Let_def and_flag_eq_0)
      then show ?thesis
        using put_dir_table [OF assms(1,2) index_bounds(1) None al False, of flags] sp
        by (intro last [of ?m2 t]) (simp_all add: mmu_ok_def)
    qed
  qed
qed

section \<open>Looking a page up, unmapping it, changing its flags\<close>

lemma get_physical_address_walk:
  "cr3 \<noteq> 0 \<Longrightarrow> paging_get_physical_address_in_directory cr3 v m =
     (case walk_entry (page_base cr3) v m of None \<Rightarrow> 0 | Some e \<Rightarrow> page_base e OR (v AND 0xFFF))"
  by (simp add: paging_get_physical_address_in_directory_def walk_entry_def Let_def)

lemma get_page_flags_walk:
  "cr3 \<noteq> 0 \<Longrightarrow> walk_entry (page_base cr3) v m = Some e \<Longrightarrow> paging_get_page_flags_in_directory cr3 v m = e AND 0xFFF"
  by (auto simp: paging_get_page_flags_in_directory_def walk_entry_def Let_def split: if_splits)

lemma unmap_page_spec:
  assumes "pgdir_ok m d" "d = page_base cr3" "cr3 \<noteq> 0" "walk_entry d v m = Some e"
  shows "\<exists>m'. paging_unmap_page_in_directory cr3 v m = (page_base e, m') \<and> pgdir_ok m' d \<and>
    mmu_frames m' = mmu_frames m \<and> walk_entry d v m' = None \<and>
    (\<forall>w. \<not> same_page w v \<longrightarrow> walk_entry d w m' = walk_entry d w m)"
proof -
  obtain t where t: "table_of m d (dir_index v) = Some t" "phys m t (table_index v) = e"
    using assms(4) by (auto simp: walk_entry_table split: option.splits if_splits)
  then have "bit (phys m d (dir_index v)) 0" "page_base (phys m d (dir_index v)) = t"
    by (auto simp: table_of_def split: if_splits)
  then have "paging_unmap_page_in_directory cr3 v m = (page_base e, put_word t (table_index v) PAGE_WRITABLE m)"
    using assms(2,3) t(2) by (simp add: paging_unmap_page_in_directory_def Let_def and_flag_eq_0)
  then show ?thesis
    using put_entry [OF assms(1) t(1), of PAGE_WRITABLE] by (simp add: bit_page_flags)
qed

lemma set_page_flags_spec:
  assumes "pgdir_ok m d" "mmu_ok m" "d = page_base cr3" "cr3 \<noteq> 0" "walk_entry d v m = Some e"
  shows "\<exists>m'. paging_set_page_flags_in_directory cr3 v flags m = (True, m') \<and> pgdir_ok m' d \<and>
    mmu_frames m' = mmu_frames m \<and>
    walk_entry d v m' = Some (page_base e OR (flags AND 0xFFF) OR PAGE_PRESENT) \<and>
    (\<forall>w. \<not> same_page w v \<longrightarrow> walk_entry d w m' = walk_entry d w m)"
proof -
  let ?e = "page_base e OR (flags AND 0xFFF) OR PAGE_PRESENT"
  obtain t where t: "table_of m d (dir_index v) = Some t" "phys m t (table_index v) = e" "bit e 0"
    using assms(5) by (auto simp: walk_entry_table split: option.splits if_splits)
  then have pr: "bit (phys m d (dir_index v)) 0" "page_base (phys m d (dir_index v)) = t"
    by (auto simp: table_of_def split: if_splits)
  have e: "bit ?e 0" "bit ?e 2 = bit flags 2" by (simp_all add: entry_bits bit_page_base)
  have "t \<noteq> d" using pgdir_okD(1) [OF assms(1) t(1) index_bounds(1)] .
  show ?thesis
  proof (cases "bit flags 2")
    case True
    let ?m1 = "put_word d (dir_index v) (phys m d (dir_index v) OR PAGE_USER) m"
    have "put_word d (dir_index v) (phys m d (dir_index v) OR PAGE_USER) (put_word t (table_index v) ?e m)
        = put_word t (table_index v) ?e ?m1"
      using \<open>t \<noteq> d\<close> by (simp add: put_word_def fun_upd_twist)
    then have "paging_set_page_flags_in_directory cr3 v flags m = (True, put_word t (table_index v) ?e ?m1)"
      using assms(3,4) t pr True \<open>t \<noteq> d\<close>
      by (simp add: paging_set_page_flags_in_directory_def Let_def and_flag_eq_0 phys_put_word)
    moreover note u = put_dir_user [OF assms(1) index_bounds(1), of v]
    ultimately show ?thesis
      using put_entry [of ?m1 d v t ?e] t(1) e put_dir_user [OF assms(1) index_bounds(1)]
      by (simp add: phys_put_word entry_bits)
  next
    case False
    then have "paging_set_page_flags_in_directory cr3 v flags m = (True, put_word t (table_index v) ?e m)"
      using assms(3,4) t pr by (simp add: paging_set_page_flags_in_directory_def Let_def and_flag_eq_0)
    then show ?thesis using put_entry [OF assms(1) t(1), of ?e] e False by simp
  qed
qed

end
