(* ===== verification/User_Space.thy ===== *)
theory User_Space
  imports Address_Space
begin

text \<open>
  User memory. The invariant \<open>space_ok\<close> of an address space adds to \<open>pgdir_ok\<close> what keeps user memory apart
  from the tables that describe it: a page a user may reach is an allocated frame that is neither a
  table of the directory nor the scratch table, it has a reference for each page it backs, and a frame
  that two pages share is writable through neither. Resolving a copy-on-write fault gives the page a private writable
  frame with the same contents and leaves every other page as it was.
\<close>

section \<open>Address spaces\<close>

definition user_at :: "mmu \<Rightarrow> u32 \<Rightarrow> u32 \<Rightarrow> u32 \<Rightarrow> bool" where
  "user_at m d v e \<longleftrightarrow> walk_entry d v m = Some e \<and> bit e 2"

definition scratch_ok :: "mmu \<Rightarrow> u32 \<Rightarrow> bool" where
  "scratch_ok m d \<longleftrightarrow> kernel_scratch_table m \<noteq> d \<and>
     (kernel_scratch_table m \<noteq> 0 \<longrightarrow> 0 < mmu_refs m (kernel_scratch_table m)) \<and>
     (\<forall>i<768. table_of m d i \<noteq> Some (kernel_scratch_table m))"

definition frames_apart :: "mmu \<Rightarrow> u32 \<Rightarrow> bool" where
  "frames_apart m d \<longleftrightarrow> (\<forall>v e. user_at m d v e \<longrightarrow> dir_index v < 768 \<and> 0 < mmu_refs m (page_base e) \<and>
     page_base e \<noteq> d \<and> page_base e \<noteq> kernel_scratch_table m \<and> (\<forall>i<1024. table_of m d i \<noteq> Some (page_base e)))"

text \<open>The pages of a space that a frame backs.\<close>

definition pages_of :: "mmu \<Rightarrow> u32 \<Rightarrow> u32 \<Rightarrow> u32 set" where
  "pages_of m d f = {v. page_aligned v \<and> (\<exists>e. user_at m d v e \<and> page_base e = f)}"

definition frames_private :: "mmu \<Rightarrow> u32 \<Rightarrow> bool" where
  "frames_private m d \<longleftrightarrow> (\<forall>f. card (pages_of m d f) \<le> mmu_refs m f) \<and>
     (\<forall>v w e f. user_at m d v e \<and> user_at m d w f \<and> page_base e = page_base f \<and> bit e 1 \<longrightarrow> same_page v w)"

text \<open>The frames a space uses for its own description.\<close>

definition table_frame :: "mmu \<Rightarrow> u32 \<Rightarrow> u32 \<Rightarrow> bool" where
  "table_frame m d q \<longleftrightarrow> q = d \<or> q = kernel_scratch_table m \<or> (\<exists>i<1024. table_of m d i = Some q)"

definition space_ok :: "mmu \<Rightarrow> u32 \<Rightarrow> bool" where
  "space_ok m d \<longleftrightarrow> mmu_ok m \<and> pgdir_ok m d \<and> scratch_ok m d \<and> frames_apart m d \<and> frames_private m d"

lemma user_at_present: "user_at m d v e \<Longrightarrow> bit e 0"
  by (auto simp: user_at_def walk_entry_table split: option.splits if_splits)

lemma walk_same_page: "same_page v w \<Longrightarrow> walk_entry d v m = walk_entry d w m"
  by (simp add: walk_entry_def same_page_def Let_def)

lemma user_at_same_page: "same_page v w \<Longrightarrow> user_at m d v e = user_at m d w e"
  by (simp add: user_at_def walk_same_page)

lemma user_at_functional: "user_at m d v e \<Longrightarrow> user_at m d w f \<Longrightarrow> same_page v w \<Longrightarrow> e = f"
  using user_at_same_page [of v w m d e] by (simp add: user_at_def)

lemma same_page_base [simp]: "same_page (page_base v) v" "same_page v (page_base v)"
  by (simp_all add: same_page_iff page_base_of_aligned)

lemma pages_of_mono:
  assumes "\<And>v e. user_at m' d v e \<Longrightarrow> page_base e = f \<Longrightarrow> user_at m d v e"
  shows "card (pages_of m' d f) \<le> card (pages_of m d f)"
  by (rule card_mono) (use assms in \<open>auto simp: pages_of_def\<close>)

lemma user_page_of:
  assumes "user_at m d v e"
  shows "page_base v \<in> pages_of m d (page_base e)" "0 < card (pages_of m d (page_base e))"
proof -
  show "page_base v \<in> pages_of m d (page_base e)"
    using assms user_at_same_page [OF same_page_base(1)] by (auto simp: pages_of_def)
  then show "0 < card (pages_of m d (page_base e))" by (auto simp: card_gt_0_iff)
qed

lemma pages_of_two:
  assumes "user_at m d v e" "user_at m d w g" "page_base e = f" "page_base g = f" "\<not> same_page v w"
  shows "2 \<le> card (pages_of m d f)"
proof -
  have "{page_base v, page_base w} \<subseteq> pages_of m d f"
    using assms(1-4) user_at_same_page [OF same_page_base(1)] by (auto simp: pages_of_def)
  moreover have "page_base v \<noteq> page_base w" using assms(5) by (simp add: same_page_iff)
  ultimately show ?thesis using card_mono [of "pages_of m d f" "{page_base v, page_base w}"] by simp
qed

lemma space_ok_writable:
  "space_ok m d \<Longrightarrow> user_at m d v e \<Longrightarrow> user_at m d w f \<Longrightarrow> page_base e = page_base f \<Longrightarrow> bit e 1 \<Longrightarrow> same_page v w"
  unfolding space_ok_def frames_private_def by blast

text \<open>Changing the entry of one page: its new frame must be one that nothing else of the space uses.\<close>

lemma space_ok_put_entry:
  assumes ok: "space_ok m d" and t: "table_of m d (dir_index v) = Some t" and v: "dir_index v < 768"
    and user: "bit e 0 \<Longrightarrow> bit e 2 \<Longrightarrow> bit (phys m d (dir_index v)) 2"
    and apart: "bit e 0 \<Longrightarrow> bit e 2 \<Longrightarrow> 0 < mmu_refs m (page_base e) \<and> page_base e \<noteq> d \<and>
      page_base e \<noteq> kernel_scratch_table m \<and> (\<forall>i<1024. table_of m d i \<noteq> Some (page_base e))"
    and priv: "\<And>w f. bit e 0 \<Longrightarrow> bit e 2 \<Longrightarrow> user_at m d w f \<Longrightarrow> \<not> same_page w v \<Longrightarrow> page_base f \<noteq> page_base e"
  shows "space_ok (put_word t (table_index v) e m) d"
proof -
  let ?m = "put_word t (table_index v) e m"
  have "pgdir_ok m d" using ok by (simp add: space_ok_def)
  note put = put_entry [OF this t, of e]
  have p: "pgdir_ok ?m d" "table_of ?m d = table_of m d" "walk_entry d v ?m = (if bit e 0 then Some e else None)"
    "\<And>w. \<not> same_page w v \<Longrightarrow> walk_entry d w ?m = walk_entry d w m"
    using put user by auto
  have refs: "mmu_refs ?m = mmu_refs m" by (simp add: mmu_refs_def)
  have u: "user_at ?m d w f \<longleftrightarrow> (if same_page w v then bit e 0 \<and> bit e 2 \<and> f = e else user_at m d w f)" for w f
    using p(3,4) user_at_same_page [of w v ?m d f] by (auto simp: user_at_def)
  have "frames_apart ?m d"
    unfolding frames_apart_def u p(2) refs using ok apart v
    by (auto simp: space_ok_def frames_apart_def same_page_def)
  moreover have "frames_private ?m d"
    unfolding frames_private_def refs
  proof (intro conjI allI impI)
    fix f
    have old: "card (pages_of m d f) \<le> mmu_refs m f" using ok by (simp add: space_ok_def frames_private_def)
    show "card (pages_of ?m d f) \<le> mmu_refs m f"
    proof (cases "f = page_base e \<and> bit e 0 \<and> bit e 2")
      case True
      have "x = page_base v" if x: "page_aligned x" "user_at ?m d x g" "page_base g = f" for x g
      proof -
        have "same_page x v" using x priv [of x g] True by (auto simp: u split: if_splits)
        then show ?thesis using page_base_of_aligned [OF x(1)] by (simp add: same_page_iff)
      qed
      then have "pages_of ?m d f \<subseteq> {page_base v}" by (auto simp: pages_of_def)
      then have "card (pages_of ?m d f) \<le> 1" using card_mono [of "{page_base v}" "pages_of ?m d f"] by simp
      then show ?thesis using apart True by auto
    next
      case False
      have "card (pages_of ?m d f) \<le> card (pages_of m d f)"
        by (rule pages_of_mono) (use False in \<open>auto simp: u split: if_splits\<close>)
      then show ?thesis using old by simp
    qed
  next
    fix w w' f f'
    assume a: "user_at ?m d w f \<and> user_at ?m d w' f' \<and> page_base f = page_base f' \<and> bit f 1"
    show "same_page w w'"
    proof (cases "same_page w v \<or> same_page w' v")
      case True
      then show ?thesis using a priv [of w f] priv [of w' f'] by (auto simp: u same_page_iff split: if_splits)
    next
      case False
      then show ?thesis using a space_ok_writable [OF ok, of w f w' f'] by (simp add: u)
    qed
  qed
  ultimately show ?thesis
    using ok p(1,2) refs by (simp add: space_ok_def mmu_ok_def scratch_ok_def)
qed

text \<open>Changes outside the tables, and of reference counts.\<close>

lemma space_ok_transfer:
  assumes "space_ok m d" "mmu_ok m'" "kernel_scratch_table m' = kernel_scratch_table m"
    "\<And>q j. j < 1024 \<Longrightarrow> q = d \<or> (\<exists>i<1024. table_of m d i = Some q) \<Longrightarrow> q \<noteq> kernel_scratch_table m \<Longrightarrow> phys m' q j = phys m q j"
    "\<And>j. phys m' (kernel_scratch_table m) j = phys m (kernel_scratch_table m) j \<or>
      \<not> bit (phys m' (kernel_scratch_table m) j) 0"
    "\<And>q. 0 < mmu_refs m q \<Longrightarrow> table_frame m d q \<Longrightarrow> 0 < mmu_refs m' q"
    "\<And>q. card (pages_of m d q) \<le> mmu_refs m' q"
  shows "space_ok m' d \<and> (\<forall>v. dir_index v < 768 \<longrightarrow> walk_entry d v m' = walk_entry d v m)"
proof -
  let ?s = "kernel_scratch_table m"
  have s: "?s \<noteq> d" "\<And>i. i < 768 \<Longrightarrow> table_of m d i \<noteq> Some ?s" using assms(1) by (auto simp: space_ok_def scratch_ok_def)
  have dir: "phys m' d i = phys m d i" if "i < 1024" for i using assms(4) [of i d] that s by auto
  have tab: "table_of m' d i = table_of m d i" if "i < 1024" for i using dir that by (simp add: table_of_def)
  have walk: "walk_entry d v m' = walk_entry d v m" if "table_of m d (dir_index v) \<noteq> Some ?s" for v
  proof (cases "table_of m d (dir_index v)")
    case (Some t)
    then have "phys m' t (table_index v) = phys m t (table_index v)"
      using that assms(4) [OF index_bounds(2), of t] index_bounds(1) by blast
    then show ?thesis using Some tab [OF index_bounds(1)] by (simp add: walk_entry_table)
  qed (use tab [OF index_bounds(1)] in \<open>simp add: walk_entry_table\<close>)
  have u: "user_at m d v e" if "user_at m' d v e" for v e
  proof (cases "table_of m d (dir_index v) = Some ?s")
    case True
    then show ?thesis
      using that assms(5) [of "table_index v"] tab [OF index_bounds(1)] by (auto simp: user_at_def walk_entry_table split: if_splits)
  qed (use that walk in \<open>simp add: user_at_def\<close>)
  have "pgdir_ok m' d"
    unfolding pgdir_ok_def
  proof (intro conjI allI impI)
    fix i t assume i: "i < 1024" "table_of m' d i = Some t"
    have old: "pgdir_ok m d" "table_of m d i = Some t" using assms(1) i tab by (simp_all add: space_ok_def)
    note t = pgdir_okD [OF old i(1)]
    show "t \<noteq> d" "0 < mmu_refs m' t" "bit (phys m' d i) 1"
      using t(1-3) assms(6) [OF t(2)] dir [OF i(1)] old(2) i(1) unfolding table_frame_def by (simp, blast, simp)
    fix j assume j: "j < 1024" "bit (phys m' t j) 0 \<and> bit (phys m' t j) 2"
    then have "phys m' t j = phys m t j" using assms(4) [of j t] assms(5) [of j] old(2) i(1) by blast
    then show "bit (phys m' d i) 2" using t(5) [OF j(1)] j(2) dir i(1) by simp
  next
    show "page_aligned d" "0 < mmu_refs m' d"
      using assms(1) assms(6) [of d] by (simp_all add: space_ok_def pgdir_ok_def table_frame_def)
  next
    fix i j t assume "i < 1024" "j < 1024" "table_of m' d i = Some t \<and> table_of m' d j = Some t"
    then show "i = j" using tab assms(1) pgdir_okD(6) [of m d i t j] by (simp add: space_ok_def)
  qed
  moreover have "scratch_ok m' d"
    using assms(1,3) assms(6) [of ?s] tab by (auto simp: space_ok_def scratch_ok_def table_frame_def)
  moreover have "0 < mmu_refs m' (page_base e)" if "user_at m d v e" for v e
    using user_page_of [OF that] assms(7) [of "page_base e"] by simp
  then have "frames_apart m' d"
    using assms(1,3) tab u unfolding space_ok_def frames_apart_def by (metis (no_types, lifting))
  moreover have "card (pages_of m' d f) \<le> mmu_refs m' f" for f
    using pages_of_mono [of m' d f m] u assms(7) [of f] by fastforce
  then have "frames_private m' d" using assms(1) u unfolding space_ok_def frames_private_def by blast
  ultimately show ?thesis using assms(2) walk s by (simp add: space_ok_def)
qed

lemma walk_entry_frames [simp]: "walk_entry d v (m\<lparr>mmu_frames := fr\<rparr>) = walk_entry d v m"
  by (simp add: walk_entry_def Let_def)

section \<open>Copying a frame\<close>

lemma copy_loop:
  assumes "from \<noteq> to"
  shows "phys (for_loop 0 n (\<lambda>i m. put_word to i (phys m from i) m) m) q j =
      (if q = to \<and> j < n then phys m from j else phys m q j) \<and>
    mmu_frames (for_loop 0 n (\<lambda>i m. put_word to i (phys m from i) m) m) = mmu_frames m \<and>
    active_page_directory (for_loop 0 n (\<lambda>i m. put_word to i (phys m from i) m) m) = active_page_directory m \<and>
    kernel_scratch_table (for_loop 0 n (\<lambda>i m. put_word to i (phys m from i) m) m) = kernel_scratch_table m \<and>
    mmu_fault (for_loop 0 n (\<lambda>i m. put_word to i (phys m from i) m) m) = mmu_fault m"
  using assms by (induction n arbitrary: q j) (auto simp: for_loop_last for_loop_done phys_put_word less_Suc_eq)

lemma copy_physical_page_spec:
  assumes "kernel_scratch_table m \<noteq> 0" "page_aligned src" "page_aligned dst" "src \<noteq> dst"
    "src \<noteq> kernel_scratch_table m" "dst \<noteq> kernel_scratch_table m"
  shows "\<exists>m'. copy_physical_page src dst m = (True, m') \<and> mmu_frames m' = mmu_frames m \<and>
    active_page_directory m' = active_page_directory m \<and> kernel_scratch_table m' = kernel_scratch_table m \<and>
    mmu_fault m' = mmu_fault m \<and>
    (\<forall>q j. phys m' q j = (if q = dst \<and> j < 1024 then phys m src j
       else if q = kernel_scratch_table m \<and> j < 2 then PAGE_WRITABLE else phys m q j))"
proof -
  let ?s = "kernel_scratch_table m"
  let ?m1 = "put_word ?s 1 (dst OR PAGE_PRESENT OR PAGE_WRITABLE) (put_word ?s 0 (src OR PAGE_PRESENT OR PAGE_WRITABLE) m)"
  have al: "src AND (PAGE_SIZE - 1) = 0" "dst AND (PAGE_SIZE - 1) = 0"
    using assms(2,3) by (simp_all add: page_aligned_def PAGE_SIZE_def FRAME_SIZE_def)
  have "page_base (phys ?m1 ?s 0) = src" "page_base (phys ?m1 ?s 1) = dst"
    using assms(2,3) by (simp_all add: phys_put_word page_base_flags)
  then have "copy_physical_page src dst m = (True, put_word ?s 1 PAGE_WRITABLE (put_word ?s 0 PAGE_WRITABLE
      (for_loop 0 1024 (\<lambda>i m. put_word dst i (phys m src i) m) ?m1)))"
    using al assms(1) by (simp add: copy_physical_page_def Let_def)
  then show ?thesis
    using copy_loop [OF assms(4), of 1024 ?m1] assms(5,6)
    by (auto simp: phys_put_word less_2_cases_iff)
qed

section \<open>Copy on write\<close>

lemma space_ok_frames:
  assumes "space_ok m d" "frame_ok fr" "\<And>q. 0 < mmu_refs m q \<Longrightarrow> table_frame m d q \<Longrightarrow> 0 < frame_refs fr q"
    "\<And>q. card (pages_of m d q) \<le> frame_refs fr q"
  shows "space_ok (m\<lparr>mmu_frames := fr\<rparr>) d"
  using space_ok_transfer [OF assms(1), of "m\<lparr>mmu_frames := fr\<rparr>"] assms(2-4)
  by (simp add: mmu_ok_def mmu_refs_def)

lemma space_ok_pages_of: "space_ok m d \<Longrightarrow> card (pages_of m d q) \<le> mmu_refs m q"
  by (simp add: space_ok_def frames_private_def)

lemma cow_entry_bits:
  "bit ((e OR PAGE_WRITABLE) AND NOT PAGE_COW) n \<longleftrightarrow> n < 32 \<and> (bit e n \<or> n = 1) \<and> n \<noteq> 9"
  by (auto simp: entry_bits dest: bit_imp_le_length)

lemma cow_copy_bits:
  assumes "page_aligned p"
  shows "bit (p OR (((e AND 0xFFF) OR PAGE_WRITABLE) AND NOT PAGE_COW)) n \<longleftrightarrow>
      (if n < 12 then (bit e n \<or> n = 1) \<and> n \<noteq> 9 else bit p n)"
    "page_base (p OR (((e AND 0xFFF) OR PAGE_WRITABLE) AND NOT PAGE_COW)) = p"
proof -
  show "bit (p OR (((e AND 0xFFF) OR PAGE_WRITABLE) AND NOT PAGE_COW)) n \<longleftrightarrow>
      (if n < 12 then (bit e n \<or> n = 1) \<and> n \<noteq> 9 else bit p n)"
    using assms by (auto simp: entry_bits page_aligned_bits dest: bit_imp_le_length)
  show "page_base (p OR (((e AND 0xFFF) OR PAGE_WRITABLE) AND NOT PAGE_COW)) = p"
    by (rule page_base_or [OF assms]) (simp add: entry_bits)
qed

text \<open>What a copy-on-write resolution of the page at \<open>v\<close> does to the space.\<close>

definition cow_resolved :: "mmu \<Rightarrow> mmu \<Rightarrow> u32 \<Rightarrow> u32 \<Rightarrow> bool" where
  "cow_resolved m m' d v \<longleftrightarrow> (\<exists>e e'. user_at m d v e \<and> bit e 9 \<and> \<not> bit e 1 \<and>
     user_at m' d v e' \<and> bit e' 1 \<and> \<not> bit e' 9 \<and>
     (\<forall>j<1024. phys m' (page_base e') j = phys m (page_base e) j) \<and>
     (if mmu_refs m (page_base e) = 1 then page_base e' = page_base e \<and> mmu_refs m' = mmu_refs m
      else mmu_refs m (page_base e') = 0 \<and>
        mmu_refs m' = (mmu_refs m)(page_base e' := 1, page_base e := mmu_refs m (page_base e) - 1)))"

text \<open>What any operation on the page at \<open>v\<close> leaves alone: the other pages, and all allocated memory outside
  the table of the page and the scratch table.\<close>

definition others_kept :: "mmu \<Rightarrow> mmu \<Rightarrow> u32 \<Rightarrow> u32 \<Rightarrow> bool" where
  "others_kept m m' d v \<longleftrightarrow>
     (\<forall>w. \<not> same_page w v \<and> dir_index w < 768 \<longrightarrow> walk_entry d w m' = walk_entry d w m) \<and>
     (\<forall>q. 0 < mmu_refs m q \<and> table_of m d (dir_index v) \<noteq> Some q \<and> q \<noteq> kernel_scratch_table m \<longrightarrow> phys m' q = phys m q) \<and>
     (\<forall>j. phys m' (kernel_scratch_table m) j = phys m (kernel_scratch_table m) j \<or>
        \<not> bit (phys m' (kernel_scratch_table m) j) 0) \<and>
     active_page_directory m' = active_page_directory m \<and> kernel_scratch_table m' = kernel_scratch_table m \<and>
     mmu_fault m' = mmu_fault m"

lemma user_at_facts:
  assumes "space_ok m d" "user_at m d v e"
  shows "\<exists>t. table_of m d (dir_index v) = Some t \<and> phys m t (table_index v) = e \<and> t \<noteq> d \<and>
    bit (phys m d (dir_index v)) 2 \<and> t \<noteq> kernel_scratch_table m"
    "dir_index v < 768" "page_base e \<noteq> d" "page_base e \<noteq> kernel_scratch_table m"
    "\<forall>i<1024. table_of m d i \<noteq> Some (page_base e)" "0 < mmu_refs m (page_base e)"
proof -
  have d: "pgdir_ok m d" using assms(1) by (simp add: space_ok_def)
  show ap: "dir_index v < 768" "page_base e \<noteq> d" "page_base e \<noteq> kernel_scratch_table m"
    "\<forall>i<1024. table_of m d i \<noteq> Some (page_base e)" "0 < mmu_refs m (page_base e)"
    using assms unfolding space_ok_def frames_apart_def by blast+
  obtain t where t: "table_of m d (dir_index v) = Some t" "phys m t (table_index v) = e"
    using assms(2) by (auto simp: user_at_def walk_entry_table split: option.splits if_splits)
  have "bit (phys m d (dir_index v)) 2"
    using pgdir_okD(5) [OF d t(1) index_bounds(1) index_bounds(2) [of v]] t(2) assms(2) user_at_present [OF assms(2)]
    by (simp add: user_at_def)
  moreover have "t \<noteq> kernel_scratch_table m" using assms(1) ap(1) t(1) by (auto simp: space_ok_def scratch_ok_def)
  ultimately show "\<exists>t. table_of m d (dir_index v) = Some t \<and> phys m t (table_index v) = e \<and> t \<noteq> d \<and>
    bit (phys m d (dir_index v)) 2 \<and> t \<noteq> kernel_scratch_table m"
    using t pgdir_okD(1) [OF d t(1) index_bounds(1)] by blast
qed

lemma cow_last_reference:
  assumes ok: "space_ok m d" and u: "user_at m d v e" "table_of m d (dir_index v) = Some t"
    "bit e 9" "\<not> bit e 1" and refs: "mmu_refs m (page_base e) = 1"
  defines "m' \<equiv> put_word t (table_index v) ((e OR PAGE_WRITABLE) AND NOT PAGE_COW) m"
  shows "space_ok m' d \<and> cow_resolved m m' d v \<and> others_kept m m' d v"
proof -
  let ?e = "(e OR PAGE_WRITABLE) AND NOT PAGE_COW"
  have d: "pgdir_ok m d" using ok by (simp add: space_ok_def)
  have b: "page_base ?e = page_base e" "bit ?e 0" "bit ?e 2" "bit ?e 1" "\<not> bit ?e 9"
    using u user_at_present [OF u(1)] by (simp_all add: page_base_flags cow_entry_bits user_at_def)
  have dirb: "bit (phys m d (dir_index v)) 2" and ts: "t \<noteq> kernel_scratch_table m"
    using user_at_facts(1) [OF ok u(1)] u(2) by auto
  note ap = user_at_facts(2-) [OF ok u(1)]
  have "page_base f \<noteq> page_base e" if "user_at m d x f" "\<not> same_page x v" for x f
    using pages_of_two [OF that(1) u(1) _ _ that(2)] space_ok_pages_of [OF ok, of "page_base e"] refs by fastforce
  then have "space_ok m' d"
    unfolding m'_def by (intro space_ok_put_entry [OF ok u(2) ap(1)]) (use b dirb ap in auto)
  moreover have put: "walk_entry d v m' = Some ?e" "\<forall>x. \<not> same_page x v \<longrightarrow> walk_entry d x m' = walk_entry d x m"
    using put_entry [OF d u(2), of ?e] b dirb by (simp_all add: m'_def)
  moreover have "page_base e \<noteq> t" using ap(4) u(2) index_bounds(1) by blast
  then have "cow_resolved m m' d v"
    unfolding cow_resolved_def using u put b refs
    by (intro exI [of _ e] exI [of _ ?e]) (auto simp: user_at_def m'_def phys_put_word mmu_refs_def)
  ultimately show ?thesis
    using u(2) ts by (auto simp: others_kept_def m'_def phys_put_word fun_eq_iff)
qed

text \<open>Filling a frame that nothing refers to, as the copy of a page does.\<close>

lemma space_ok_fresh_frame:
  assumes ok: "space_ok m d" and fresh: "mmu_refs m p = 0" "p \<noteq> 0"
    and fr: "frame_ok (mmu_frames m')" "mmu_refs m' = (mmu_refs m)(p := 1)"
    and same: "kernel_scratch_table m' = kernel_scratch_table m"
    and ph: "\<And>q j. q \<noteq> p \<Longrightarrow> phys m' q j = phys m q j \<or> q = kernel_scratch_table m \<and> \<not> bit (phys m' q j) 0"
  shows "space_ok m' d \<and> (\<forall>v. dir_index v < 768 \<longrightarrow> walk_entry d v m' = walk_entry d v m) \<and>
    (\<forall>i<1024. table_of m' d i = table_of m d i)"
proof -
  have used: "q \<noteq> p" if "q = d \<or> (\<exists>i<1024. table_of m d i = Some q)" for q
  proof -
    have d: "pgdir_ok m d" using ok by (simp add: space_ok_def)
    then have "0 < mmu_refs m d" by (simp add: pgdir_ok_def)
    then have "0 < mmu_refs m q" using that pgdir_okD(2) [OF d] by blast
    then show ?thesis using fresh by auto
  qed
  have s: "kernel_scratch_table m \<noteq> p" using ok fresh by (auto simp: space_ok_def scratch_ok_def)
  have card: "card (pages_of m d q) \<le> mmu_refs m' q" for q
    using space_ok_pages_of [OF ok, of q] fresh fr(2) by (cases "q = p") auto
  have "d \<noteq> kernel_scratch_table m" using ok by (auto simp: space_ok_def scratch_ok_def)
  then have "phys m' d i = phys m d i" for i using ph [of d] used [of d] by auto
  then have "table_of m' d i = table_of m d i" for i by (simp add: table_of_def)
  moreover have "space_ok m' d \<and> (\<forall>v. dir_index v < 768 \<longrightarrow> walk_entry d v m' = walk_entry d v m)"
  proof (rule space_ok_transfer [OF ok])
    fix j
    show "phys m' (kernel_scratch_table m) j = phys m (kernel_scratch_table m) j \<or> \<not> bit (phys m' (kernel_scratch_table m) j) 0"
      using ph [OF s] by blast
  qed (use fr same ph used card in \<open>auto simp: mmu_ok_def\<close>)
  ultimately show ?thesis by blast
qed

lemma space_ok_release:
  assumes ok: "space_ok m d" and shared: "1 < mmu_refs m q" "card (pages_of m d q) < mmu_refs m q"
  shows "space_ok (mmu_release q m) d \<and> mmu_refs (mmu_release q m) = (mmu_refs m)(q := mmu_refs m q - 1)"
proof -
  have fok: "frame_ok (mmu_frames m)" using ok by (simp add: space_ok_def mmu_ok_def)
  obtain fr where fr: "frame_release q (mmu_frames m) = (True, fr)" "frame_ok fr"
      "frame_refs fr = (mmu_refs m)(q := mmu_refs m q - 1)"
    using frames.release_shared_frame [OF fok, of q] shared(1) by (auto simp: mmu_refs_def)
  have "space_ok (m\<lparr>mmu_frames := fr\<rparr>) d"
    using space_ok_pages_of [OF ok] shared fr by (intro space_ok_frames [OF ok]) auto
  then show ?thesis using fr by (simp add: mmu_release_def mmu_refs_def)
qed

text \<open>Putting a frame of its own behind a page and giving up the reference to the old one.\<close>

lemma replace_frame:
  assumes ok: "space_ok m d" and u: "user_at m d v e" "table_of m d (dir_index v) = Some t"
    and refs: "1 < mmu_refs m (page_base e)" "0 < mmu_refs m p"
    and e': "page_base e' = p" "bit e' 0" "bit e' 2"
    and p: "p \<noteq> d" "p \<noteq> kernel_scratch_table m" "\<forall>i<1024. table_of m d i \<noteq> Some p"
      "\<And>w f. user_at m d w f \<Longrightarrow> page_base f \<noteq> p"
  defines "m' \<equiv> mmu_release (page_base e) (put_word t (table_index v) e' m)"
  shows "space_ok m' d \<and> mmu_refs m' = (mmu_refs m)(page_base e := mmu_refs m (page_base e) - 1) \<and>
    walk_entry d v m' = Some e' \<and> (\<forall>w. \<not> same_page w v \<longrightarrow> walk_entry d w m' = walk_entry d w m)"
proof -
  let ?m = "put_word t (table_index v) e' m" and ?old = "page_base e"
  have d: "pgdir_ok m d" using ok by (simp add: space_ok_def)
  have dirb: "bit (phys m d (dir_index v)) 2" using user_at_facts(1) [OF ok u(1)] by blast
  have ok1: "space_ok ?m d"
    by (rule space_ok_put_entry [OF ok u(2) user_at_facts(2) [OF ok u(1)]]) (use e' dirb p refs(2) in auto)
  have put: "walk_entry d v ?m = Some e'" "\<And>x. \<not> same_page x v \<Longrightarrow> walk_entry d x ?m = walk_entry d x m"
    using put_entry [OF d u(2), of e'] e' dirb by simp_all
  have "?old \<noteq> p" using p(4) [OF u(1)] .
  have v: "page_base v \<in> pages_of m d ?old" by (rule user_page_of [OF u(1)])
  have "w \<in> pages_of m d ?old - {page_base v}" if "w \<in> pages_of ?m d ?old" for w
  proof -
    obtain f where w: "page_aligned w" "user_at ?m d w f" "page_base f = ?old" using \<open>w \<in> _\<close> by (auto simp: pages_of_def)
    have "\<not> same_page w v"
      using user_at_same_page [of w v ?m d f] w(2,3) put(1) e'(1) \<open>?old \<noteq> p\<close> by (auto simp: user_at_def)
    then have "user_at m d w f" "w \<noteq> page_base v"
      using w(2) put(2) by (auto simp: user_at_def)
    then show ?thesis using w by (auto simp: pages_of_def)
  qed
  then have "pages_of ?m d ?old \<subset> pages_of m d ?old" using v by blast
  then have "card (pages_of ?m d ?old) < card (pages_of m d ?old)" by (intro psubset_card_mono) auto
  also have "\<dots> \<le> mmu_refs m ?old" by (rule space_ok_pages_of [OF ok])
  finally have "space_ok m' d \<and> mmu_refs m' = (mmu_refs ?m)(?old := mmu_refs ?m ?old - 1)"
    unfolding m'_def using refs by (intro space_ok_release ok1) (simp_all add: mmu_refs_def)
  then show ?thesis using put by (simp add: m'_def mmu_release_def mmu_refs_def)
qed

text \<open>The state after the copy of the page to a fresh frame.\<close>

lemma cow_copied:
  assumes ok: "space_ok m d" and u: "user_at m d v e" and refs: "0 < mmu_refs m (page_base e)"
    and al: "frame_alloc (mmu_frames m) = (p, fr)" "p \<noteq> 0"
    and cp: "copy_physical_page (page_base e) p (m\<lparr>mmu_frames := fr\<rparr>) = (True, m2)"
  shows "space_ok m2 d \<and> mmu_refs m p = 0 \<and> page_aligned p \<and> mmu_refs m2 = (mmu_refs m)(p := 1) \<and>
    (\<forall>w. dir_index w < 768 \<longrightarrow> walk_entry d w m2 = walk_entry d w m) \<and>
    (\<forall>i<1024. table_of m2 d i = table_of m d i) \<and> active_page_directory m2 = active_page_directory m \<and>
    kernel_scratch_table m2 = kernel_scratch_table m \<and> mmu_fault m2 = mmu_fault m \<and> p \<noteq> kernel_scratch_table m \<and>
    (\<forall>q j. phys m2 q j = (if q = p \<and> j < 1024 then phys m (page_base e) j
       else if q = kernel_scratch_table m \<and> j < 2 then PAGE_WRITABLE else phys m q j))"
proof -
  let ?s = "kernel_scratch_table m" and ?old = "page_base e"
  have fok: "frame_ok (mmu_frames m)" using ok by (simp add: space_ok_def mmu_ok_def)
  have p: "page_aligned p" "mmu_refs m p = 0" "frame_ok fr" "frame_refs fr = (mmu_refs m)(p := 1)"
    using frames.alloc_some [OF fok al] frames.alloc_inv [OF fok al(1)] by (simp_all add: mmu_refs_def)
  have s0: "?s \<noteq> 0" using cp by (auto simp: copy_physical_page_def split: if_splits)
  then have neq: "?old \<noteq> p" "p \<noteq> ?s" using ok refs p(2) by (auto simp: space_ok_def scratch_ok_def)
  from copy_physical_page_spec [of "m\<lparr>mmu_frames := fr\<rparr>" ?old p] cp s0 neq user_at_facts(4) [OF ok u] p(1)
  have m2: "mmu_frames m2 = fr" "active_page_directory m2 = active_page_directory m" "kernel_scratch_table m2 = ?s"
      "mmu_fault m2 = mmu_fault m"
      "\<And>q j. phys m2 q j = (if q = p \<and> j < 1024 then phys m ?old j else if q = ?s \<and> j < 2 then PAGE_WRITABLE else phys m q j)"
    by auto
  have refs2: "mmu_refs m2 = (mmu_refs m)(p := 1)" using m2(1) p(4) by (simp add: mmu_refs_def)
  have "space_ok m2 d \<and> (\<forall>v. dir_index v < 768 \<longrightarrow> walk_entry d v m2 = walk_entry d v m) \<and>
      (\<forall>i<1024. table_of m2 d i = table_of m d i)"
    by (rule space_ok_fresh_frame [OF ok p(2) al(2)]) (use m2 p refs2 in \<open>auto simp: bit_page_flags\<close>)
  then show ?thesis using m2 p(1,2) refs2 neq(2) by blast
qed

lemma cow_shared:
  assumes ok: "space_ok m d" and u: "user_at m d v e" "table_of m d (dir_index v) = Some t"
    "bit e 9" "\<not> bit e 1" and refs: "1 < mmu_refs m (page_base e)"
    and al: "frame_alloc (mmu_frames m) = (p, fr)" "p \<noteq> 0"
    and cp: "copy_physical_page (page_base e) p (m\<lparr>mmu_frames := fr\<rparr>) = (True, m2)"
  defines "e' \<equiv> p OR (((e AND 0xFFF) OR PAGE_WRITABLE) AND NOT PAGE_COW)"
  defines "m' \<equiv> mmu_release (page_base e) (put_word t (table_index v) e' m2)"
  shows "space_ok m' d \<and> cow_resolved m m' d v \<and> others_kept m m' d v"
proof -
  have "0 < mmu_refs m (page_base e)" using refs by simp
  note c = cow_copied [OF ok u(1) this al cp]
  have ok2: "space_ok m2 d" and p: "mmu_refs m p = 0" "page_aligned p" "p \<noteq> kernel_scratch_table m"
    and refs2: "mmu_refs m2 = (mmu_refs m)(p := 1)"
    and walk2: "\<And>w. dir_index w < 768 \<Longrightarrow> walk_entry d w m2 = walk_entry d w m"
    and tab2: "\<And>i. i < 1024 \<Longrightarrow> table_of m2 d i = table_of m d i"
    and ph2: "\<And>q j. phys m2 q j = (if q = p \<and> j < 1024 then phys m (page_base e) j
       else if q = kernel_scratch_table m \<and> j < 2 then PAGE_WRITABLE else phys m q j)"
    and f2: "active_page_directory m2 = active_page_directory m" "kernel_scratch_table m2 = kernel_scratch_table m"
      "mmu_fault m2 = mmu_fault m"
    using c by blast+
  have b: "page_base e' = p" "bit e' 0" "bit e' 2" "bit e' 1" "\<not> bit e' 9"
    using u user_at_present [OF u(1)] cow_copy_bits [OF p(2)] by (simp_all add: user_at_def e'_def)
  have u2: "user_at m2 d v e" using u(1) walk2 user_at_facts(2) [OF ok u(1)] by (simp add: user_at_def)
  have d: "pgdir_ok m d" using ok by (simp add: space_ok_def)
  have free: "p \<noteq> q" if "0 < mmu_refs m q" for q using that p(1) by auto
  have pd: "p \<noteq> d" "\<forall>i<1024. table_of m2 d i \<noteq> Some p" "page_base e \<noteq> p"
    using free [of d] free [of p] free [of "page_base e"] d pgdir_okD(2) [OF d, of _ p] tab2 refs p(1)
    by (auto simp: pgdir_ok_def)
  have up: "page_base f \<noteq> p" if "user_at m2 d w f" for w f
    using free [of "page_base f"] user_at_facts(6) [OF ok, of w f] user_at_facts(2) [OF ok2 that] that walk2
    by (auto simp: user_at_def)
  have t2: "table_of m2 d (dir_index v) = Some t" using tab2 [OF index_bounds(1)] u(2) by simp
  have r: "space_ok m' d" "mmu_refs m' = (mmu_refs m2)(page_base e := mmu_refs m2 (page_base e) - 1)"
      "walk_entry d v m' = Some e'" "\<And>w. \<not> same_page w v \<Longrightarrow> walk_entry d w m' = walk_entry d w m2"
    using replace_frame [OF ok2 u2 t2 _ _ b(1-3) pd(1) _ pd(2) up] refs refs2 pd(3) p(3) f2(2)
    by (auto simp: m'_def)
  have ph: "phys m' q j = (if q = t \<and> j = table_index v then e' else phys m2 q j)" for q j
    by (simp add: m'_def mmu_release_def phys_put_word)
  have tne: "t \<noteq> p" using free pgdir_okD(2) [OF d u(2) index_bounds(1)] by auto
  have "cow_resolved m m' d v"
    unfolding cow_resolved_def using u b r(2,3) refs refs2 p(1) pd(3) tne
    by (intro exI [of _ e] exI [of _ e']) (auto simp: user_at_def ph ph2)
  moreover have "phys m' q = phys m q" if "0 < mmu_refs m q" "t \<noteq> q" "q \<noteq> kernel_scratch_table m" for q
    using that free by (auto simp: ph ph2 fun_eq_iff)
  moreover have "phys m' (kernel_scratch_table m) j = phys m (kernel_scratch_table m) j \<or>
      \<not> bit (phys m' (kernel_scratch_table m) j) 0" for j
  proof -
    have "t \<noteq> kernel_scratch_table m" using user_at_facts(1) [OF ok u(1)] u(2) by auto
    then show ?thesis using p(3) by (auto simp: ph ph2 bit_page_flags)
  qed
  moreover have "active_page_directory m' = active_page_directory m" "kernel_scratch_table m' = kernel_scratch_table m"
      "mmu_fault m' = mmu_fault m"
    using f2 by (simp_all add: m'_def mmu_release_def)
  ultimately show ?thesis using r(1,4) walk2 u(2) by (simp add: others_kept_def)
qed

lemma others_kept_frames: "others_kept m (m\<lparr>mmu_frames := fr\<rparr>) d v"
  by (simp add: others_kept_def)

lemma resolve_cow_refused:
  assumes "d = page_base cr3" "\<nexists>e. user_at m d v e \<and> bit e 9 \<and> \<not> bit e 1"
  shows "paging_resolve_cow_fault cr3 v m = (False, m)"
  using assms by (auto simp: paging_resolve_cow_fault_def Let_def and_eq_flags entry_bits and_flag_eq_0
      user_at_def walk_entry_table table_of_def split: if_splits)

lemma resolve_cow_unfold:
  assumes ok: "space_ok m d" and d: "d = page_base cr3" "cr3 \<noteq> 0"
    and u: "user_at m d v e" "bit e 9" "\<not> bit e 1" and t: "table_of m d (dir_index v) = Some t"
  shows "paging_resolve_cow_fault cr3 v m =
     (if frame_get_refcount (page_base e) (mmu_frames m) = 1
      then (True, put_word t (table_index v) ((e OR PAGE_WRITABLE) AND NOT PAGE_COW) m)
      else let (p, m1) = mmu_alloc m in
        if p = 0 then (False, m1)
        else let (ok, m2) = copy_physical_page (page_base e) p m1 in
          if \<not> ok then (False, mmu_release p m2)
          else (True, mmu_release (page_base e) (put_word t (table_index v)
                  (p OR (((e AND 0xFFF) OR PAGE_WRITABLE) AND NOT PAGE_COW)) m2)))"
proof -
  have e: "phys m t (table_index v) = e" using user_at_facts(1) [OF ok u(1)] t by auto
  have dt: "bit (phys m d (dir_index v)) 0" "page_base (phys m d (dir_index v)) = t"
    using t by (auto simp: table_of_def split: if_splits)
  have pos: "frame_get_refcount (page_base e) (mmu_frames m) \<noteq> 0"
    using user_at_facts(6) [OF ok u(1)] by (auto simp: mmu_refs_def frame_refs_def)
  have need: "(\<forall>n. bit (PAGE_PRESENT OR PAGE_USER OR PAGE_COW) n \<longrightarrow> bit e n) \<longleftrightarrow> bit e 0 \<and> bit e 2 \<and> bit e 9"
    by (auto simp: entry_bits)
  show ?thesis
    using d(2) u(2,3) pos user_at_present [OF u(1)] u(1) [unfolded user_at_def]
    unfolding paging_resolve_cow_fault_def Let_def d(1) [symmetric] dt(2) e
    by (simp add: and_eq_flags and_flag_eq_0 dt(1) need)
qed

lemma resolve_cow_spec:
  assumes ok: "space_ok m d" and d: "d = page_base cr3" "cr3 \<noteq> 0"
    and r: "paging_resolve_cow_fault cr3 v m = (res, m')"
  shows "space_ok m' d \<and> others_kept m m' d v \<and>
    (if res then cow_resolved m m' d v else phys m' = phys m \<and> mmu_refs m' = mmu_refs m)"
proof (cases "\<exists>e. user_at m d v e \<and> bit e 9 \<and> \<not> bit e 1")
  case False
  then show ?thesis using r ok resolve_cow_refused [OF d(1)] by (simp add: others_kept_def)
next
  case True
  then obtain e t where u: "user_at m d v e" "bit e 9" "\<not> bit e 1" and t: "table_of m d (dir_index v) = Some t"
    using user_at_facts(1) [OF ok] by blast
  let ?old = "page_base e"
  note unf = resolve_cow_unfold [OF ok d u t]
  have refs: "mmu_refs m ?old = unat (frame_get_refcount ?old (mmu_frames m))"
    by (simp add: mmu_refs_def frame_refs_def)
  show ?thesis
  proof (cases "frame_get_refcount ?old (mmu_frames m) = 1")
    case True
    then have "mmu_refs m ?old = 1" using refs by simp
    from cow_last_reference [OF ok u(1) t u(2,3) this] show ?thesis using r unf True by auto
  next
    case False
    then have more: "1 < mmu_refs m ?old"
      using user_at_facts(6) [OF ok u(1)] refs
      by (metis One_nat_def less_one linorder_neqE_nat unat_1 word_unat_eq_iff less_irrefl)
    obtain p fr where al: "frame_alloc (mmu_frames m) = (p, fr)" by force
    then have ma: "mmu_alloc m = (p, m\<lparr>mmu_frames := fr\<rparr>)" by (simp add: mmu_alloc_def)
    have fok: "frame_ok (mmu_frames m)" using ok by (simp add: space_ok_def mmu_ok_def)
    obtain c m2 where cp: "copy_physical_page ?old p (m\<lparr>mmu_frames := fr\<rparr>) = (c, m2)" by force
    consider "p = 0" | "p \<noteq> 0" "\<not> c" | "p \<noteq> 0" "c" by blast
    then show ?thesis
    proof cases
      case 1
      then have "frame_ok fr" "frame_refs fr = mmu_refs m"
        using frames.alloc_inv [OF fok al] frames.alloc_none [OF fok] al by (auto simp: mmu_refs_def)
      then show ?thesis
        using r unf False ma 1 space_ok_frames [OF ok, of fr] space_ok_pages_of [OF ok] others_kept_frames
        by (auto simp: mmu_refs_def)
    next
      case 2
      then have m2: "m2 = m\<lparr>mmu_frames := fr\<rparr>"
        using cp by (auto simp: copy_physical_page_def Let_def split: if_splits)
      obtain fr' where fr': "frame_release p fr = (True, fr')" "frame_ok fr'" "frame_refs fr' = mmu_refs m"
        using frames.alloc_release_cancel [OF fok al 2(1)] by (auto simp: mmu_refs_def)
      then show ?thesis
        using r unf False ma 2 m2 cp space_ok_frames [OF ok, of fr'] space_ok_pages_of [OF ok] others_kept_frames [of m fr' d v]
        by (auto simp: mmu_refs_def mmu_release_def)
    next
      case 3
      from cow_shared [OF ok u(1) t u(2,3) more al 3(1), of m2] show ?thesis
        using r unf False ma 3 cp by auto
    qed
  qed
qed

section \<open>Mapping a frame for the user\<close>

lemma space_ok_same_walks:
  assumes ok: "space_ok m d" and m': "pgdir_ok m' d" "mmu_ok m'" "kernel_scratch_table m' = kernel_scratch_table m"
    and walk: "\<And>v. walk_entry d v m' = walk_entry d v m"
    and tab: "\<And>i t. i < 1024 \<Longrightarrow> table_of m' d i = Some t \<Longrightarrow> table_of m d i = Some t \<or> t \<noteq> 0 \<and> mmu_refs m t = 0"
    and refs: "\<And>q. mmu_refs m q \<le> mmu_refs m' q"
  shows "space_ok m' d"
proof -
  have u: "user_at m' d v e = user_at m d v e" for v e by (simp add: user_at_def walk)
  then have pages: "pages_of m' d f = pages_of m d f" for f by (simp add: pages_of_def)
  have pos: "0 < mmu_refs m' q" if "0 < mmu_refs m q" for q using that refs [of q] by simp
  have "frames_apart m' d"
    unfolding frames_apart_def
  proof (intro allI impI)
    fix v e assume "user_at m' d v e"
    then have "user_at m d v e" by (simp add: u)
    note f = user_at_facts [OF ok this]
    have "\<forall>i<1024. table_of m' d i \<noteq> Some (page_base e)" using f(5,6) tab by fastforce
    then show "dir_index v < 768 \<and> 0 < mmu_refs m' (page_base e) \<and> page_base e \<noteq> d \<and>
        page_base e \<noteq> kernel_scratch_table m' \<and> (\<forall>i<1024. table_of m' d i \<noteq> Some (page_base e))"
      using f(2-4,6) pos m'(3) by simp
  qed
  moreover have "frames_private m' d"
    using ok refs unfolding space_ok_def frames_private_def u pages by (meson le_trans)
  moreover have "scratch_ok m' d"
  proof -
    have s: "kernel_scratch_table m \<noteq> d" "kernel_scratch_table m \<noteq> 0 \<Longrightarrow> 0 < mmu_refs m (kernel_scratch_table m)"
      "\<And>i. i < 768 \<Longrightarrow> table_of m d i \<noteq> Some (kernel_scratch_table m)"
      using ok by (auto simp: space_ok_def scratch_ok_def)
    have "table_of m' d i \<noteq> Some (kernel_scratch_table m)" if "i < 768" for i
      using s(2) s(3) [OF that] tab [of i "kernel_scratch_table m"] that by fastforce
    then show ?thesis using s pos m'(3) by (simp add: scratch_ok_def)
  qed
  ultimately show ?thesis using m' by (simp add: space_ok_def)
qed

text \<open>The first half of \<^verbatim>\<open>paging_map_page_in_directory\<close> provides the table of the page.\<close>

definition ensure_table :: "u32 \<Rightarrow> u32 \<Rightarrow> u32 \<Rightarrow> mmu \<Rightarrow> bool \<times> mmu" where
  "ensure_table directory v flags m =
     (let d = dir_index v in
      if phys m directory d AND PAGE_PRESENT = 0 then
        let (page_table, m) = allocator_alloc_page_table m in
        if page_table = 0 then (False, m)
        else (True, put_word directory d (page_table OR PAGE_PRESENT OR PAGE_WRITABLE OR (flags AND PAGE_USER)) m)
      else if flags AND PAGE_USER \<noteq> 0 then (True, put_word directory d (phys m directory d OR PAGE_USER) m)
      else (True, m))"

lemma map_page_ensure:
  assumes "cr3 \<noteq> 0" "page_aligned p"
  shows "paging_map_page_in_directory cr3 v p flags m =
    (let (ok, m) = ensure_table (page_base cr3) v flags m in
     if \<not> ok then (False, m)
     else (True, put_word (page_base (phys m (page_base cr3) (dir_index v))) (table_index v)
             (p OR (flags AND 0xFFF) OR PAGE_PRESENT) m))"
proof -
  have p: "p AND (PAGE_SIZE - 1) = 0" "page_base p = p"
    using assms(2) page_base_of_aligned by (simp_all add: page_aligned_def PAGE_SIZE_def FRAME_SIZE_def)
  show ?thesis
    unfolding paging_map_page_in_directory_def ensure_table_def Let_def p(2) using p(1) assms(1) by simp
qed

lemma ensure_table_spec:
  assumes ok: "space_ok m d" and e: "ensure_table d v flags m = (res, m')"
  shows "space_ok m' d \<and> (\<forall>w. walk_entry d w m' = walk_entry d w m) \<and>
    kernel_scratch_table m' = kernel_scratch_table m \<and> active_page_directory m' = active_page_directory m \<and>
    mmu_fault m' = mmu_fault m \<and>
    (\<forall>q. 0 < mmu_refs m q \<longrightarrow> mmu_refs m' q = mmu_refs m q \<and> (q \<noteq> d \<longrightarrow> phys m' q = phys m q)) \<and>
    (\<forall>i<1024. \<forall>t. table_of m' d i = Some t \<longrightarrow> table_of m d i = Some t \<or> mmu_refs m t = 0) \<and>
    (res \<longrightarrow> (\<exists>t. table_of m' d (dir_index v) = Some t \<and> (bit flags 2 \<longrightarrow> bit (phys m' d (dir_index v)) 2)))"
proof -
  have d: "pgdir_ok m d" "mmu_ok m" using ok by (simp_all add: space_ok_def)
  show ?thesis
  proof (cases "table_of m d (dir_index v)")
    case (Some t)
    let ?m = "put_word d (dir_index v) (phys m d (dir_index v) OR PAGE_USER) m"
    have pr: "bit (phys m d (dir_index v)) 0" using Some by (auto simp: table_of_def split: if_splits)
    have user: "space_ok ?m d"
      using put_dir_user [OF d(1) index_bounds(1)] d(2)
      by (intro space_ok_same_walks [OF ok]) (auto simp: mmu_ok_def mmu_refs_def)
    have "(res, m') = (if bit flags 2 then (True, ?m) else (True, m))"
      using e pr by (simp add: ensure_table_def and_flag_eq_0 Let_def)
    then show ?thesis
      using user ok put_dir_user [OF d(1) index_bounds(1) [of v]] Some
      by (auto simp: mmu_refs_def phys_put_word entry_bits fun_eq_iff split: if_splits)
  next
    case None
    then have pr: "\<not> bit (phys m d (dir_index v)) 0" by (auto simp: table_of_def split: if_splits)
    obtain t m1 where al: "allocator_alloc_page_table m = (t, m1)" by force
    note sp = alloc_page_table_spec [OF d(2) al]
    show ?thesis
    proof (cases "t = 0")
      case True
      then have m': "\<not> res" "m' = m1" using e pr al by (simp_all add: ensure_table_def and_flag_eq_0 Let_def)
      have "space_ok m1 d"
        using sp True d(1) by (intro space_ok_same_walks [OF ok]) (auto simp: pgdir_ok_def walk_entry_table table_of_def)
      then show ?thesis using sp True m' by (simp add: walk_entry_table table_of_def)
    next
      case False
      let ?m = "put_word d (dir_index v) (t OR PAGE_PRESENT OR PAGE_WRITABLE OR (flags AND PAGE_USER)) m1"
      have m': "res" "m' = ?m" using e pr al False by (simp_all add: ensure_table_def and_flag_eq_0 Let_def)
      note put = put_dir_table [OF d index_bounds(1) None al False, of flags]
      have refs: "mmu_refs ?m = (mmu_refs m)(t := 1)" "mmu_refs m t = 0" using sp False by (simp_all add: mmu_refs_def)
      have "space_ok ?m d"
        using put sp False refs by (intro space_ok_same_walks [OF ok]) (auto simp: mmu_ok_def split: if_splits)
      moreover have "phys ?m q = phys m q" if "0 < mmu_refs m q" "q \<noteq> d" for q
        using that refs(2) sp False by (auto simp: phys_put_word fun_eq_iff)
      ultimately show ?thesis using put sp False refs m' by (auto split: if_splits)
    qed
  qed
qed

lemma space_map_page:
  assumes ok: "space_ok m d" and d: "d = page_base cr3" "cr3 \<noteq> 0" and p: "page_aligned p" "dir_index v < 768"
    "0 < mmu_refs m p" "p \<noteq> d" "p \<noteq> kernel_scratch_table m" "\<forall>i<1024. table_of m d i \<noteq> Some p"
    "\<And>w f. user_at m d w f \<Longrightarrow> page_base f \<noteq> p"
    and r: "paging_map_page_in_directory cr3 v p flags m = (res, m')"
  shows "space_ok m' d \<and> (\<forall>w. \<not> same_page w v \<longrightarrow> walk_entry d w m' = walk_entry d w m) \<and>
    walk_entry d v m' = (if res then Some (p OR (flags AND 0xFFF) OR PAGE_PRESENT) else walk_entry d v m) \<and>
    kernel_scratch_table m' = kernel_scratch_table m \<and> active_page_directory m' = active_page_directory m \<and>
    mmu_fault m' = mmu_fault m \<and>
    (\<forall>q. 0 < mmu_refs m q \<longrightarrow> mmu_refs m' q = mmu_refs m q \<and>
      (q \<noteq> d \<and> table_of m d (dir_index v) \<noteq> Some q \<longrightarrow> phys m' q = phys m q)) \<and>
    (\<forall>i<1024. \<forall>t. table_of m' d i = Some t \<longrightarrow> table_of m d i = Some t \<or> mmu_refs m t = 0)"
proof -
  obtain okt m1 where e: "ensure_table d v flags m = (okt, m1)" by force
  note en = ensure_table_spec [OF ok e]
  have unf: "(res, m') = (if \<not> okt then (False, m1)
      else (True, put_word (page_base (phys m1 d (dir_index v))) (table_index v) (p OR (flags AND 0xFFF) OR PAGE_PRESENT) m1))"
    using map_page_ensure [OF d(2) p(1), of v flags m] r e d(1) by simp
  show ?thesis
  proof (cases okt)
    case False
    then show ?thesis using unf en by auto
  next
    case True
    let ?e = "p OR (flags AND 0xFFF) OR PAGE_PRESENT"
    obtain t where t: "table_of m1 d (dir_index v) = Some t" "bit flags 2 \<longrightarrow> bit (phys m1 d (dir_index v)) 2"
      using en True by blast
    have eb: "page_base ?e = p" "bit ?e 0" "bit ?e 2 = bit flags 2"
      using p(1) by (simp_all add: page_base_flags entry_bits page_aligned_bits)
    have m': "res" "m' = put_word t (table_index v) ?e m1"
      using unf True t(1) by (auto simp: table_of_def split: if_splits)
    have ok1: "space_ok m1 d" and d1: "pgdir_ok m1 d" using en by (simp_all add: space_ok_def)
    have pt: "\<forall>i<1024. table_of m1 d i \<noteq> Some p" using en p(3,6) by fastforce
    have up: "page_base f \<noteq> p" if "user_at m1 d w f" for w f using that en p(7) [of w f] by (simp add: user_at_def)
    have "space_ok m' d"
      unfolding m'(2)
      by (rule space_ok_put_entry [OF ok1 t(1) p(2)]) (use eb t(2) en p pt up in auto)
    moreover have "walk_entry d v m' = Some ?e" "\<forall>w. \<not> same_page w v \<longrightarrow> walk_entry d w m' = walk_entry d w m"
        "table_of m' d = table_of m1 d"
      using put_entry [OF d1 t(1), of ?e] t(2) eb en by (simp_all add: m')
    moreover have "phys m' q = phys m q" if "0 < mmu_refs m q" "q \<noteq> d" "table_of m d (dir_index v) \<noteq> Some q" for q
    proof -
      have "\<forall>i<1024. \<forall>t. table_of m1 d i = Some t \<longrightarrow> table_of m d i = Some t \<or> mmu_refs m t = 0"
        using en by (elim conjE)
      from this [rule_format, OF index_bounds(1) t(1)] have "q \<noteq> t" using that by auto
      then have "phys m' q = phys m1 q" by (simp add: m' phys_put_word fun_eq_iff)
      then show ?thesis using en that by simp
    qed
    ultimately show ?thesis using en m' by (simp add: mmu_refs_def)
  qed
qed

section \<open>An example\<close>

text \<open>A space with one user page, at \<open>0x40000000\<close>.\<close>

definition space_demo :: "u32 \<Rightarrow> mmu" where
  "space_demo e = \<lparr>phys = (\<lambda>q j. if q = 0x300000 \<and> j = 256 then 0x302007 else if q = 0x302000 \<and> j = 0 then e else 0),
     mmu_frames = frame_demo, active_page_directory = 0x300000, kernel_scratch_table = 0x2FF000, paging_on = True,
     mmu_fault = False\<rparr>"

lemma space_demo_refs:
  "mmu_refs (space_demo e) 0x300000 = 1" "mmu_refs (space_demo e) 0x302000 = 1" "mmu_refs (space_demo e) 0x2FF000 = 1"
  "mmu_refs (space_demo e) 0x200000 = 1"
  by (simp_all add: mmu_refs_def space_demo_def frame_refs_eq [OF frame_demo_ok] page_aligned_iff)
    (simp_all add: frame_demo_def)

lemma space_demo_table: "table_of (space_demo e) 0x300000 i = (if i = 256 then Some 0x302000 else None)"
  by (simp add: table_of_def space_demo_def page_base_def)

lemma space_demo_user:
  "user_at (space_demo e) 0x300000 v g \<longleftrightarrow> same_page v 0x40000000 \<and> g = e \<and> bit e 0 \<and> bit e 2"
proof -
  have "same_page v 0x40000000 \<longleftrightarrow> dir_index v = 256 \<and> table_index v = 0"
    by (simp add: same_page_def dir_index_def table_index_def)
  moreover have "phys (space_demo e) 0x302000 j = (if j = 0 then e else 0)" for j by (simp add: space_demo_def)
  ultimately show ?thesis unfolding user_at_def walk_entry_table space_demo_table by (auto split: if_splits)
qed

lemma space_demo_ok:
  assumes "page_base e = 0x200000"
  shows "space_ok (space_demo e) 0x300000"
proof -
  let ?m = "space_demo e"
  have sub: "v = 0x40000000 \<and> f = 0x200000" if "v \<in> pages_of ?m 0x300000 f" for v f
  proof -
    have "page_base (0x40000000 :: u32) = 0x40000000" by (simp add: page_base_def)
    then show ?thesis
      using that assms page_base_of_aligned [of v] by (auto simp: pages_of_def space_demo_user same_page_iff)
  qed
  then have "card (pages_of ?m 0x300000 f) \<le> mmu_refs ?m f" for f
  proof (cases "f = 0x200000")
    case True
    have "pages_of ?m 0x300000 f \<subseteq> {0x40000000}" using sub by blast
    then show ?thesis using card_mono [of "{0x40000000}" "pages_of ?m 0x300000 f"] True space_demo_refs by simp
  next
    case False
    then have "pages_of ?m 0x300000 f = {}" using sub by blast
    then show ?thesis by simp
  qed
  then have "frames_private ?m 0x300000"
    by (auto simp: frames_private_def space_demo_user same_page_def)
  moreover have "frames_apart ?m 0x300000"
    using assms space_demo_refs
    by (auto simp: frames_apart_def space_demo_user space_demo_table same_page_def dir_index_def)
      (simp_all add: space_demo_def)
  moreover have "scratch_ok ?m 0x300000"
    using space_demo_refs by (auto simp: scratch_ok_def space_demo_table) (simp_all add: space_demo_def)
  moreover have "pgdir_ok ?m 0x300000"
    using space_demo_refs by (auto simp: pgdir_ok_def space_demo_table page_aligned_iff) (simp_all add: space_demo_def)
  ultimately show ?thesis by (simp add: space_ok_def mmu_ok_def space_demo_def frame_demo_ok)
qed

section \<open>Properties\<close>

text \<open>C4: Resolving a copy-on-write fault: on success the page is writable and no longer copy-on-write, its frame
  has the contents of the old one and is the old one only when that had a single reference; otherwise it is a
  frame nobody used, and the old frame loses exactly one reference. On failure nothing changes. In either case
  no other page of the space and no allocated memory outside the page's table and the scratch table changes,
  and the space stays well-formed.\<close>

theorem cow_fault_private_copy:
  assumes "space_ok m (page_base cr3)" "cr3 \<noteq> 0" "paging_resolve_cow_fault cr3 v m = (res, m')"
  shows "space_ok m' (page_base cr3) \<and> others_kept m m' (page_base cr3) v \<and>
    (if res then cow_resolved m m' (page_base cr3) v else phys m' = phys m \<and> mmu_refs m' = mmu_refs m)"
  using resolve_cow_spec [OF assms(1) refl assms(2,3)] .

theorem cow_fault_private_copy_witness:
  "\<exists>m'. paging_resolve_cow_fault 0x300000 0x40000123 (space_demo 0x200205) = (True, m') \<and>
     cow_resolved (space_demo 0x200205) m' 0x300000 0x40000123"
proof -
  let ?m = "space_demo 0x200205"
  have b: "page_base (0x300000 :: u32) = 0x300000" "page_base (0x200205 :: u32) = 0x200000" by (simp_all add: page_base_def)
  have "frame_get_refcount 0x200000 frame_demo = 1"
  proof -
    have "unat (frame_get_refcount 0x200000 frame_demo) = unat (1 :: u32)"
      using space_demo_refs(4) [of 0] by (simp add: mmu_refs_def space_demo_def frame_refs_def)
    then show ?thesis by (simp only: word_unat_eq_iff)
  qed
  then have "fst (paging_resolve_cow_fault 0x300000 0x40000123 ?m)"
    by (simp add: paging_resolve_cow_fault_def b space_demo_def dir_index_def table_index_def page_base_def page_flags)
  then obtain m' where m': "paging_resolve_cow_fault 0x300000 0x40000123 ?m = (True, m')"
    by (cases "paging_resolve_cow_fault 0x300000 0x40000123 ?m") simp
  have "space_ok ?m 0x300000" by (rule space_demo_ok) (simp add: b)
  then show ?thesis using m' cow_fault_private_copy [of ?m "0x300000" "0x40000123" True m'] by (simp add: b)
qed

text \<open>C34: Mapping a page: when paging_map_page_in_directory succeeds, the page translates to the given frame with
  the given flags, unmapping returns that frame and leaves the page unmapped, and the translation and flags of
  every other page of the directory are the same before, after and after the unmapping. When it fails no
  translation changes.\<close>

theorem paging_map_round_trip:
  assumes "pgdir_ok m (page_base cr3)" "mmu_ok m" "cr3 \<noteq> 0" "page_aligned p"
    "paging_map_page_in_directory cr3 v p flags m = (res, m')"
  shows "(\<forall>w. res \<and> same_page w v \<or> walk_entry (page_base cr3) w m' = walk_entry (page_base cr3) w m) \<and>
    (res \<longrightarrow> paging_get_physical_address_in_directory cr3 v m' = p OR (v AND 0xFFF) \<and>
      paging_get_page_flags_in_directory cr3 v m' = (flags AND 0xFFF) OR PAGE_PRESENT \<and>
      (\<exists>m''. paging_unmap_page_in_directory cr3 v m' = (p, m'') \<and>
        paging_get_physical_address_in_directory cr3 v m'' = 0 \<and>
        (\<forall>w. same_page w v \<or> walk_entry (page_base cr3) w m'' = walk_entry (page_base cr3) w m)))"
proof -
  let ?d = "page_base cr3" and ?e = "p OR (flags AND 0xFFF) OR PAGE_PRESENT"
  note mp = map_page_spec [OF assms(1,2) refl assms(3,4,5)]
  have e: "page_base ?e = p" by (rule page_base_flags(1) [OF assms(4)])
  have fl: "?e AND 0xFFF = (flags AND 0xFFF) OR PAGE_PRESENT"
    using assms(4) by (intro u32_eqI) (auto simp: entry_bits page_aligned_bits)
  show ?thesis
  proof (cases res)
    case False
    then show ?thesis using mp walk_same_page by (metis (no_types, lifting))
  next
    case True
    then have w: "walk_entry ?d v m' = Some ?e" "pgdir_ok m' ?d" using mp by simp_all
    obtain m'' where u: "paging_unmap_page_in_directory cr3 v m' = (p, m'')" "walk_entry ?d v m'' = None"
        "\<forall>w. \<not> same_page w v \<longrightarrow> walk_entry ?d w m'' = walk_entry ?d w m'"
      using unmap_page_spec [OF w(2) refl assms(3) w(1)] e by auto
    then show ?thesis
      using mp True w(1) e fl assms(3)
      by (auto simp: get_physical_address_walk get_page_flags_walk [OF assms(3) w(1)])
  qed
qed

theorem paging_map_round_trip_witness:
  "\<exists>m'. paging_map_page_in_directory 0x300000 0x40001234 0x201000 7 (space_demo 0x200007) = (True, m') \<and>
     paging_get_physical_address_in_directory 0x300000 0x40001234 m' = 0x201234"
proof -
  let ?m = "space_demo 0x200007"
  have b: "page_base (0x300000 :: u32) = 0x300000" "page_base (0x200007 :: u32) = 0x200000" by (simp_all add: page_base_def)
  have "fst (paging_map_page_in_directory 0x300000 0x40001234 0x201000 7 ?m)"
    by (simp add: paging_map_page_in_directory_def b space_demo_def dir_index_def PAGE_SIZE_def page_flags)
  then obtain m' where m': "paging_map_page_in_directory 0x300000 0x40001234 0x201000 7 ?m = (True, m')"
    by (cases "paging_map_page_in_directory 0x300000 0x40001234 0x201000 7 ?m") simp
  have "space_ok ?m 0x300000" by (rule space_demo_ok) (simp add: b)
  then show ?thesis
    using paging_map_round_trip [of ?m "0x300000" "0x201000" "0x40001234" 7 True m'] m'
    by (simp add: b space_ok_def page_aligned_iff)
qed

end
