(* ===== verification/User_Memory.thy ===== *)
theory User_Memory
  imports User_Space
begin

text \<open>
  User memory as a partial map from addresses to bytes. On a well-formed address space a store of the
  kernel at a user-writable address is an update of that map: page tables, reference counts and all
  other bytes stay as they are, and no fault is taken.
\<close>

section \<open>Bytes\<close>

lemma bit_byte_of: "bit (byte_of w k) n \<longleftrightarrow> n < 8 \<and> bit w (8 * k + n)"
  by (auto simp: byte_of_def bit_ucast_iff bit_drop_bit_eq)

lemma bit_set_byte:
  assumes "n < 32"
  shows "bit (set_byte w k b) n \<longleftrightarrow> (if 8 * k \<le> n \<and> n < 8 * k + 8 then bit b (n - 8 * k) else bit w n)"
proof -
  have "(0xFF :: u32) = mask 8" by (simp add: mask_eq_exp_minus_1)
  then have a: "bit (push_bit (8 * k) (0xFF :: u32)) n \<longleftrightarrow> 8 * k \<le> n \<and> n < 8 * k + 8"
    using assms by (simp only: bit_push_bit_iff bit_mask_iff possible_bit_word) auto
  have b: "bit (push_bit (8 * k) (ucast b :: u32)) n \<longleftrightarrow> 8 * k \<le> n \<and> bit b (n - 8 * k)"
    using assms by (auto simp: bit_push_bit_iff bit_ucast_iff)
  have "\<not> bit b (n - 8 * k)" if "\<not> n < 8 * k + 8" using bit_imp_le_length [of b "n - 8 * k"] that by auto
  then show ?thesis
    unfolding set_byte_def bit_or_iff bit_and_iff bit_not_iff a b using assms by auto
qed

lemma byte_of_set_byte:
  assumes "k < 4" "j < 4"
  shows "byte_of (set_byte w k b) j = (if j = k then b else byte_of w j)"
proof (rule bit_word_eqI)
  fix n assume "n < LENGTH(8)"
  then have n: "n < 8" "8 * j + n < 32" using assms by simp_all
  have "8 * k \<le> 8 * j + n \<and> 8 * j + n < 8 * k + 8 \<longleftrightarrow> j = k" using n(1) by linarith
  then show "bit (byte_of (set_byte w k b) j) n \<longleftrightarrow> bit (if j = k then b else byte_of w j) n"
    using n by (simp add: bit_byte_of bit_set_byte)
qed

section \<open>Addresses in pages\<close>

lemma page_offset_mod: "page_offset v = unat v mod 4096"
  by (simp add: page_offset_def unat_and_page_mask)

lemma same_page_div: "same_page v w \<longleftrightarrow> unat v div 4096 = unat w div 4096"
proof -
  have "unat (page_base u) = unat u div 4096 * 4096" for u by (simp add: page_base_align_down unat_align_down)
  then show ?thesis unfolding same_page_iff by (metis mult_right_cancel word_unat_eq_iff zero_neq_numeral)
qed

lemma same_address: "v = w \<longleftrightarrow> same_page v w \<and> page_offset v = page_offset w"
  by (metis page_offset_mod same_page_div div_mult_mod_eq word_unat_eq_iff)

section \<open>User memory\<close>

definition umem :: "mmu \<Rightarrow> u32 \<Rightarrow> u8 option" where
  "umem m w = (case walk_entry (active_page_directory m) w m of None \<Rightarrow> None
     | Some e \<Rightarrow> if bit e 2 then Some (load_byte w m) else None)"

definition user_writable :: "mmu \<Rightarrow> u32 \<Rightarrow> bool" where
  "user_writable m v \<longleftrightarrow> (\<exists>e. user_at m (active_page_directory m) v e \<and> bit e 1)"

definition active_ok :: "mmu \<Rightarrow> bool" where
  "active_ok m \<longleftrightarrow> space_ok m (active_page_directory m)"

lemma umem_user: "user_at m (active_page_directory m) w e \<Longrightarrow> umem m w = Some (load_byte w m)"
  by (simp add: umem_def user_at_def)

lemma umem_None: "umem m w = None \<longleftrightarrow> (\<nexists>e. user_at m (active_page_directory m) w e)"
  by (auto simp: umem_def user_at_def split: option.splits)

lemma load_byte_user:
  "user_at m (active_page_directory m) w e \<Longrightarrow>
   load_byte w m = byte_of (phys m (page_base e) (page_offset w div 4)) (page_offset w mod 4)"
  by (simp add: load_byte_def frame_at_def user_at_def Let_def)

lemma user_writable_writable:
  assumes "active_ok m" "user_writable m v"
  shows "writable_at v m"
proof -
  obtain e where e: "user_at m (active_page_directory m) v e" "bit e 1" using assms(2) by (auto simp: user_writable_def)
  obtain t where t: "table_of m (active_page_directory m) (dir_index v) = Some t"
    using user_at_facts(1) [OF _ e(1)] assms(1) unfolding active_ok_def by blast
  have "bit (phys m (active_page_directory m) (dir_index v)) 1"
    using pgdir_okD(3) [OF _ t index_bounds(1)] assms(1) by (auto simp: active_ok_def space_ok_def)
  then show ?thesis using e by (simp add: writable_at_def and_flag_eq_0 user_at_def)
qed

lemma is_user_writable_entry:
  assumes sp: "space_ok m n" and act: "active_page_directory m = n" and e: "user_at m n v e"
  shows "paging_is_user_writable v m = bit e 1"
proof -
  obtain t where t: "table_of m n (dir_index v) = Some t" "phys m t (table_index v) = e" "bit (phys m n (dir_index v)) 2"
    using user_at_facts(1) [OF sp e] by blast
  have "bit (phys m n (dir_index v)) 1" using pgdir_okD(3) [OF _ t(1) index_bounds(1)] sp by (simp add: space_ok_def)
  moreover have "bit (phys m n (dir_index v)) 0" "page_base (phys m n (dir_index v)) = t"
    using t(1) by (auto simp: table_of_def split: if_splits)
  moreover have "x AND (PAGE_PRESENT OR PAGE_USER OR PAGE_WRITABLE) = PAGE_PRESENT OR PAGE_USER OR PAGE_WRITABLE \<longleftrightarrow>
      bit x 0 \<and> bit x 2 \<and> bit x 1" for x :: u32
    by (auto simp: and_eq_flags entry_bits)
  ultimately show ?thesis
    using t(2,3) user_at_present [OF e] e
    by (simp add: paging_is_user_writable_def act Let_def user_at_def)
qed

lemma store_byte_spec:
  assumes ok: "active_ok m" and w: "user_writable m v"
  shows "active_ok (store_byte v b m) \<and> umem (store_byte v b m) = (umem m)(v \<mapsto> b) \<and>
    mmu_frames (store_byte v b m) = mmu_frames m \<and> mmu_fault (store_byte v b m) = mmu_fault m \<and>
    active_page_directory (store_byte v b m) = active_page_directory m \<and>
    (\<forall>x. walk_entry (active_page_directory m) x (store_byte v b m) = walk_entry (active_page_directory m) x m)"
proof -
  let ?d = "active_page_directory m"
  obtain e where e: "user_at m ?d v e" "bit e 1" using w by (auto simp: user_writable_def)
  let ?p = "page_base e" and ?i = "page_offset v div 4" and ?k = "page_offset v mod 4"
  define m' where "m' = put_word ?p ?i (set_byte (phys m ?p ?i) ?k b) m"
  have sp: "space_ok m ?d" using ok by (simp add: active_ok_def)
  note f = user_at_facts [OF sp e(1)]
  have st: "store_byte v b m = m'"
    using user_writable_writable [OF ok w] e(1) by (simp add: store_byte_def frame_at_def user_at_def Let_def m'_def)
  have phm: "phys m' q j = (if q = ?p \<and> j = ?i then set_byte (phys m ?p ?i) ?k b else phys m q j)" for q j
    by (simp add: m'_def phys_put_word)
  have ph: "phys m' q j = phys m q j" if "table_frame m ?d q" for q j
    using that f(3-5) by (auto simp: m'_def phys_put_word table_frame_def)
  have "space_ok m' ?d"
    by (rule space_ok_transfer [OF sp, THEN conjunct1])
      (use ph sp space_ok_pages_of [OF sp] in \<open>auto simp: m'_def mmu_ok_def mmu_refs_def space_ok_def table_frame_def\<close>)
  moreover have tab: "table_of m' ?d i = table_of m ?d i" for i using ph by (simp add: table_of_def table_frame_def)
  have walk: "walk_entry ?d x m' = walk_entry ?d x m" for x
  proof (cases "table_of m ?d (dir_index x)")
    case (Some t)
    then have "phys m' t (table_index x) = phys m t (table_index x)"
      using ph [of t] index_bounds(1) [of x] unfolding table_frame_def by blast
    then show ?thesis by (simp add: walk_entry_table tab Some)
  qed (simp add: walk_entry_table tab)
  have act: "active_page_directory m' = ?d" "mmu_frames m' = mmu_frames m" "mmu_fault m' = mmu_fault m"
    by (simp_all add: m'_def)
  have "umem m' x = ((umem m)(v \<mapsto> b)) x" for x
  proof (cases "\<exists>g. user_at m ?d x g")
    case True
    then obtain g where g: "user_at m ?d x g" by blast
    then have g': "user_at m' (active_page_directory m') x g" by (simp add: user_at_def walk act)
    have "load_byte x m' = (if x = v then b else load_byte x m)"
    proof (cases "page_base g = ?p")
      case True
      then have "same_page v x" using space_ok_writable [OF sp e(1) g] e(2) by simp
      then have "x = v \<longleftrightarrow> page_offset x = page_offset v" using same_address [of v x] by auto
      moreover have "g = e" using user_at_functional [OF e(1) g] \<open>same_page v x\<close> by simp
      moreover have "page_offset x = page_offset v \<longleftrightarrow> page_offset x div 4 = ?i \<and> page_offset x mod 4 = ?k"
        by (metis div_mult_mod_eq)
      ultimately show ?thesis
        unfolding load_byte_user [OF g] load_byte_user [OF g'] phm by (simp add: byte_of_set_byte)
    next
      case False
      then have "x \<noteq> v" using user_at_functional [OF e(1) g] by (auto simp: same_page_def)
      then show ?thesis using False unfolding load_byte_user [OF g] load_byte_user [OF g'] phm by simp
    qed
    then show ?thesis by (simp add: umem_user [OF g] umem_user [OF g'])
  next
    case False
    then have "umem m x = None" "x \<noteq> v" using e(1) umem_None [of m x] by auto
    moreover have "umem m' x = None" using False by (simp add: umem_None user_at_def walk act)
    ultimately show ?thesis by simp
  qed
  ultimately show ?thesis unfolding st using act walk by (auto simp: active_ok_def)
qed

lemma unat_diff_1: "w \<noteq> v \<Longrightarrow> unat (w - v) = Suc (unat (w - (v + 1)))" for v w :: u32
  using unat_dec [of "w - v"] unat_gt_0 [of "w - v"] by (simp add: diff_diff_eq2 algebra_simps)

lemma user_writable_cong:
  "active_page_directory m' = active_page_directory m \<Longrightarrow>
   (\<And>x. walk_entry (active_page_directory m) x m' = walk_entry (active_page_directory m) x m) \<Longrightarrow>
   user_writable m' = user_writable m"
  by (simp add: user_writable_def user_at_def fun_eq_iff)

lemma store_bytes_spec:
  assumes "active_ok m" "\<And>i. i < length bs \<Longrightarrow> user_writable m (v + of_nat i)" "length bs \<le> 2 ^ 32"
  shows "active_ok (store_bytes v bs m) \<and>
    umem (store_bytes v bs m) = (\<lambda>w. if unat (w - v) < length bs then Some (bs ! unat (w - v)) else umem m w) \<and>
    mmu_frames (store_bytes v bs m) = mmu_frames m \<and> mmu_fault (store_bytes v bs m) = mmu_fault m \<and>
    active_page_directory (store_bytes v bs m) = active_page_directory m \<and>
    (\<forall>x. walk_entry (active_page_directory m) x (store_bytes v bs m) = walk_entry (active_page_directory m) x m)"
  using assms
proof (induction bs arbitrary: v m)
  case (Cons b bs)
  let ?m = "store_byte v b m"
  have "user_writable m v" using Cons.prems(2) [of 0] by simp
  note st = store_byte_spec [OF Cons.prems(1) this, of b]
  have uw: "user_writable ?m = user_writable m" using st by (intro user_writable_cong) simp_all
  have "user_writable ?m (v + 1 + of_nat i)" if "i < length bs" for i
    using Cons.prems(2) [of "Suc i"] that uw by (simp add: add.assoc)
  from Cons.IH [OF _ this] st Cons.prems(3)
  have ih: "active_ok (store_bytes (v + 1) bs ?m)"
      "umem (store_bytes (v + 1) bs ?m) = (\<lambda>w. if unat (w - (v + 1)) < length bs then Some (bs ! unat (w - (v + 1))) else umem ?m w)"
      "mmu_frames (store_bytes (v + 1) bs ?m) = mmu_frames m" "mmu_fault (store_bytes (v + 1) bs ?m) = mmu_fault m"
      "active_page_directory (store_bytes (v + 1) bs ?m) = active_page_directory m"
      "\<forall>x. walk_entry (active_page_directory m) x (store_bytes (v + 1) bs ?m) = walk_entry (active_page_directory m) x m"
    by simp_all
  have "umem (store_bytes v (b # bs) m) w =
      (if unat (w - v) < length (b # bs) then Some ((b # bs) ! unat (w - v)) else umem m w)" for w
  proof (cases "w = v")
    case True
    have "v - (v + 1) = 0xFFFFFFFF" by simp
    then have "unat (v - (v + 1)) = unat (0xFFFFFFFF :: u32)" by (rule arg_cong)
    also have "\<dots> = 2 ^ 32 - 1" by simp
    finally have "unat (v - (v + 1)) = 2 ^ 32 - 1" .
    then show ?thesis using True Cons.prems(3) st by (simp add: ih(2))
  next
    case False
    then show ?thesis using unat_diff_1 [OF False] st by (simp add: ih(2))
  qed
  then show ?case using ih by auto
qed simp

lemma reader_umem:
  "umem m (v + of_nat i) = Some b \<Longrightarrow> reader_at v m i = b \<and> readable_at (v + of_nat i) m"
  by (auto simp: umem_def reader_at_def readable_at_def split: option.splits if_splits)

lemma load_bytes_umem:
  assumes "\<And>i. i < n \<Longrightarrow> umem m (v + of_nat i) = Some (f i)"
  shows "load_bytes v n m = (map f [0..<n], m)"
  using assms reader_umem by (fastforce simp: load_bytes_def touch_read_def list_all_iff)

end
