(* ===== verification/Uaccess_Spec.thy ===== *)
theory Uaccess_Spec
  imports Uaccess User_Memory
begin

text \<open>
  What \<^verbatim>\<open>vm.c\<close> and \<^verbatim>\<open>uaccess.c\<close> do to user memory. Making a page writable for the kernel (resolving a
  copy-on-write page, or mapping a zero page of the heap) keeps every byte the process could read and
  adds only zero bytes; after the checks of \<^verbatim>\<open>uaccess.c\<close> no access of the kernel faults, and what it
  writes is what a later read returns.
\<close>

section \<open>Making pages writable\<close>

text \<open>The relation between the states before and after: more memory, all of it zero, and more rights.\<close>

definition grows :: "mmu \<Rightarrow> mmu \<Rightarrow> bool" where
  "grows m m' \<longleftrightarrow> active_ok m' \<and> active_page_directory m' = active_page_directory m \<and> mmu_fault m' = mmu_fault m \<and>
     (\<forall>v. user_writable m v \<longrightarrow> user_writable m' v) \<and>
     (\<forall>v. umem m' v = umem m v \<or> umem m v = None \<and> umem m' v = Some 0)"

lemma grows_refl: "active_ok m \<Longrightarrow> grows m m"
  by (simp add: grows_def)

lemma grows_trans: "grows m m1 \<Longrightarrow> grows m1 m2 \<Longrightarrow> grows m m2"
  unfolding grows_def by (metis option.distinct(1))

lemma page_offset_word: "page_offset w div 4 < 1024"
  by (simp add: page_offset_mod div_less_iff_less_mult)

lemma umem_same_frame:
  assumes "user_at m (active_page_directory m) w e" "user_at m' (active_page_directory m') w e'"
    "\<And>j. j < 1024 \<Longrightarrow> phys m' (page_base e') j = phys m (page_base e) j"
  shows "umem m' w = umem m w"
  using assms page_offset_word by (simp add: umem_user load_byte_user)

lemma user_writable_same_page: "same_page v w \<Longrightarrow> user_writable m v = user_writable m w"
  using user_at_same_page by (simp add: user_writable_def)

lemma umem_kept:
  assumes ok: "active_ok m" and act: "active_page_directory m' = active_page_directory m"
    and walk: "walk_entry (active_page_directory m) w m' = walk_entry (active_page_directory m) w m"
    and ph: "\<And>q. 0 < mmu_refs m q \<Longrightarrow> \<not> table_frame m (active_page_directory m) q \<Longrightarrow> phys m' q = phys m q"
  shows "umem m' w = umem m w \<and> user_writable m' w = user_writable m w"
proof -
  let ?d = "active_page_directory m"
  have u: "user_at m' ?d w e = user_at m ?d w e" for e by (simp add: user_at_def walk)
  have "phys m' (page_base e) = phys m (page_base e)" if "user_at m ?d w e" for e
    using user_at_facts [OF _ that] ok ph by (auto simp: active_ok_def table_frame_def)
  then have "umem m' w = umem m w"
    using umem_same_frame [of m w _ m'] u act umem_None [of m w] umem_None [of m' w] by metis
  then show ?thesis using act u by (simp add: user_writable_def)
qed

lemma others_kept_umem:
  assumes ok: "active_ok m" "active_ok m'" and k: "others_kept m m' (active_page_directory m) v" and w: "\<not> same_page w v"
  shows "umem m' w = umem m w \<and> user_writable m' w = user_writable m w"
proof (cases "dir_index w < 768")
  case True
  have "phys m' q = phys m q" if "0 < mmu_refs m q" "\<not> table_frame m (active_page_directory m) q" for q
    using that k index_bounds(1) [of v] by (auto simp: others_kept_def table_frame_def)
  then show ?thesis using umem_kept [OF ok(1), of m' w] k w True by (simp add: others_kept_def)
next
  case False
  then have "\<not> user_at m (active_page_directory m) w e" "\<not> user_at m' (active_page_directory m') w e" for e
    using user_at_facts(2) ok by (auto simp: active_ok_def)
  then show ?thesis using umem_None [of m w] umem_None [of m' w] by (simp add: user_writable_def)
qed

lemma cow_grows:
  assumes ok: "active_ok m" and d: "active_page_directory m = page_base cr3" "cr3 \<noteq> 0"
    and r: "paging_resolve_cow_fault cr3 v m = (res, m')"
  shows "grows m m' \<and> (\<forall>w. umem m' w = umem m w) \<and> (res \<longrightarrow> user_writable m' v)"
proof -
  let ?d = "active_page_directory m"
  note c = resolve_cow_spec [OF ok [unfolded active_ok_def] d r]
  then have act: "active_page_directory m' = ?d" "mmu_fault m' = mmu_fault m" by (auto simp: others_kept_def)
  have ok': "active_ok m'" using c act by (simp add: active_ok_def)
  have main: "umem m' w = umem m w \<and> (user_writable m w \<longrightarrow> user_writable m' w)" for w
  proof (cases "same_page w v")
    case False
    then show ?thesis using others_kept_umem [OF ok ok'] c by blast
  next
    case True
    show ?thesis
    proof (cases res)
      case False
      then have "phys m' = phys m" using c by simp
      then have "walk_entry ?d w m' = walk_entry ?d w m" by (simp add: walk_entry_def Let_def)
      moreover from this have "load_byte w m' = load_byte w m"
        using act \<open>phys m' = phys m\<close> by (simp add: load_byte_def frame_at_def Let_def)
      ultimately show ?thesis using act by (simp add: umem_def user_writable_def user_at_def split: option.splits)
    next
      case True
      then obtain e e' where e: "user_at m ?d v e" "user_at m' ?d v e'" "bit e' 1"
          "\<forall>j<1024. phys m' (page_base e') j = phys m (page_base e) j"
        using c by (auto simp: cow_resolved_def)
      then have "user_at m ?d w e" "user_at m' (active_page_directory m') w e'"
        using user_at_same_page [OF \<open>same_page w v\<close>] act by simp_all
      then show ?thesis using umem_same_frame [of m w e m' e'] e(3,4) by (auto simp: user_writable_def)
    qed
  qed
  moreover have "res \<longrightarrow> user_writable m' v" using c act by (auto simp: cow_resolved_def user_writable_def)
  ultimately show ?thesis using ok' act by (simp add: grows_def)
qed

lemma user_space_index: "page < USER_SPACE_END \<Longrightarrow> dir_index page < 768"
proof -
  assume "page < USER_SPACE_END"
  then have "unat page div 4194304 < 768"
    by (simp add: USER_SPACE_END_def word_less_nat_alt div_less_iff_less_mult)
  moreover have "dir_index page \<le> unat page div 4194304"
    by (simp add: dir_index_def drop_bit_eq_div unat_div unat_and_mask [where n = 10, simplified mask_eq_exp_minus_1, simplified])
  ultimately show ?thesis by simp
qed

text \<open>Taking a frame for a page and, when the page cannot be mapped, giving it back.\<close>

lemma alloc_frame_unused:
  assumes ok: "space_ok m d" and al: "mmu_alloc m = (p, m1)" "p \<noteq> 0"
  shows "space_ok m1 d \<and> phys m1 = phys m \<and> active_page_directory m1 = active_page_directory m \<and>
    kernel_scratch_table m1 = kernel_scratch_table m \<and> mmu_fault m1 = mmu_fault m \<and> page_aligned p \<and>
    mmu_refs m p = 0 \<and> mmu_refs m1 = (mmu_refs m)(p := 1) \<and> p \<noteq> d \<and> p \<noteq> kernel_scratch_table m \<and>
    (\<forall>i<1024. table_of m1 d i \<noteq> Some p) \<and> (\<forall>w f. user_at m1 d w f \<longrightarrow> page_base f \<noteq> p)"
proof -
  obtain fr where fr: "frame_alloc (mmu_frames m) = (p, fr)" "m1 = m\<lparr>mmu_frames := fr\<rparr>"
    using al(1) by (auto simp: mmu_alloc_def Let_def split: prod.splits)
  have fok: "frame_ok (mmu_frames m)" using ok by (simp add: space_ok_def mmu_ok_def)
  have p: "page_aligned p" "mmu_refs m p = 0" "frame_ok fr" "frame_refs fr = (mmu_refs m)(p := 1)"
    using frames.alloc_some [OF fok fr(1) al(2)] frames.alloc_inv [OF fok fr(1)] by (simp_all add: mmu_refs_def)
  have "card (pages_of m d q) \<le> frame_refs fr q" for q
    using space_ok_pages_of [OF ok, of q] p(2,4) by (cases "q = p") simp_all
  then have "space_ok m1 d" unfolding fr(2) using p by (intro space_ok_frames [OF ok]) simp_all
  moreover have free: "q \<noteq> p" if "0 < mmu_refs m q" for q using that p(2) by auto
  have d: "pgdir_ok m d" "scratch_ok m d" using ok by (simp_all add: space_ok_def)
  have "table_of m1 d i \<noteq> Some p" if "i < 1024" for i
    using free pgdir_okD(2) [OF d(1) _ that] fr(2) by (auto simp: table_of_def split: if_splits)
  moreover have "page_base f \<noteq> p" if "user_at m1 d w f" for w f
    using free user_at_facts(6) [OF ok, of w f] that fr(2) by (simp add: user_at_def)
  moreover have "p \<noteq> d" "p \<noteq> kernel_scratch_table m"
    using free d al(2) by (auto simp: pgdir_ok_def scratch_ok_def)
  ultimately show ?thesis using p fr(2) by (simp add: mmu_refs_def)
qed

lemma drop_unused_frame:
  assumes ok: "space_ok m d" and p: "mmu_refs m p = 1" "\<not> table_frame m d p" "\<And>w f. user_at m d w f \<Longrightarrow> page_base f \<noteq> p"
  shows "space_ok (mmu_release p m) d \<and> phys (mmu_release p m) = phys m \<and>
    active_page_directory (mmu_release p m) = active_page_directory m \<and> mmu_fault (mmu_release p m) = mmu_fault m"
proof -
  have fok: "frame_ok (mmu_frames m)" using ok by (simp add: space_ok_def mmu_ok_def)
  obtain r fr where fr: "frame_release p (mmu_frames m) = (r, fr)" by force
  have refs: "frame_refs fr q = (if r \<and> q = p then 0 else mmu_refs m q)" for q
    using frames.release_true [OF fok, of p fr] frames.release_false [OF fok, of p fr] fr p(1)
    by (cases r) (auto simp: mmu_refs_def)
  have "pages_of m d p = {}" using p(3) by (auto simp: pages_of_def)
  then have "space_ok (m\<lparr>mmu_frames := fr\<rparr>) d"
    using space_ok_pages_of [OF ok] p(2) refs frames.release_inv [OF fok fr]
    by (intro space_ok_frames [OF ok]) (auto simp: card_eq_0_iff)
  then show ?thesis using fr by (simp add: mmu_release_def)
qed

lemma alloc_frame_none:
  assumes ok: "space_ok m d" and al: "mmu_alloc m = (0, m1)"
  shows "space_ok m1 d \<and> phys m1 = phys m \<and> active_page_directory m1 = active_page_directory m \<and> mmu_fault m1 = mmu_fault m"
proof -
  obtain fr where fr: "frame_alloc (mmu_frames m) = (0, fr)" "m1 = m\<lparr>mmu_frames := fr\<rparr>"
    using al(1) by (auto simp: mmu_alloc_def Let_def split: prod.splits)
  have fok: "frame_ok (mmu_frames m)" using ok by (simp add: space_ok_def mmu_ok_def)
  then have "frame_ok fr" "frame_refs fr = mmu_refs m"
    using frames.alloc_inv [OF fok fr(1)] frames.alloc_none [OF fok fr(1)] by (simp_all add: mmu_refs_def)
  then show ?thesis using space_ok_frames [OF ok] space_ok_pages_of [OF ok] fr(2) by simp
qed

lemma grows_kept:
  assumes ok: "active_ok m" "active_ok m'" and act: "active_page_directory m' = active_page_directory m" "mmu_fault m' = mmu_fault m"
    and walk: "\<And>w. walk_entry (active_page_directory m) w m' = walk_entry (active_page_directory m) w m"
    and ph: "\<And>q. 0 < mmu_refs m q \<Longrightarrow> \<not> table_frame m (active_page_directory m) q \<Longrightarrow> phys m' q = phys m q"
  shows "grows m m'"
  using umem_kept [OF ok(1) act(1) walk ph] ok(2) act by (simp add: grows_def)

lemma page_range: "page_aligned page \<Longrightarrow> unat (w - page) < 4096 \<longleftrightarrow> same_page w page"
proof -
  assume "page_aligned page"
  then obtain k where k: "unat page = 4096 * k" by (auto simp: page_aligned_iff)
  then have "k < 1048576" using u32_unat_lt [of page] by simp
  then have "unat (w - page) < 4096 \<longleftrightarrow> 4096 * k \<le> unat w \<and> unat w < 4096 * k + 4096"
    using k u32_unat_lt [of w] by (auto simp: unat_sub_if_size word_size word_le_nat_alt simp del: u32_unat_lt)
  also have "\<dots> \<longleftrightarrow> unat w div 4096 = k" by (auto intro!: div_nat_eqI)
  finally have "unat (w - page) < 4096 \<longleftrightarrow> unat w div 4096 = k" .
  then show ?thesis using k by (simp add: same_page_div)
qed

lemma grows_map_zero:
  assumes ok: "active_ok m" and ok2: "active_ok m2" and act: "active_page_directory m2 = active_page_directory m"
      "mmu_fault m2 = mmu_fault m"
    and pg: "page_aligned page" "walk_entry (active_page_directory m) page m = None"
    and e: "user_at m2 (active_page_directory m2) page e" "bit e 1"
    and walk: "\<And>w. \<not> same_page w page \<Longrightarrow> walk_entry (active_page_directory m) w m2 = walk_entry (active_page_directory m) w m"
    and ph: "\<And>q. 0 < mmu_refs m q \<Longrightarrow> \<not> table_frame m (active_page_directory m) q \<Longrightarrow> phys m2 q = phys m q"
  shows "grows m (set_bytes page 0 4096 m2) \<and> user_writable (set_bytes page 0 4096 m2) page"
proof -
  let ?d = "active_page_directory m" and ?m = "set_bytes page 0 4096 m2"
  have uw: "user_writable m2 w" if "same_page w page" for w
    using that e user_writable_same_page by (auto simp: user_writable_def)
  have "user_writable m2 (page + of_nat i)" if "i < 4096" for i
    using that page_range [OF pg(1), of "page + of_nat i"] uw by (simp add: unat_of_nat_small)
  then have st: "active_ok ?m" "umem ?m = (\<lambda>w. if unat (w - page) < 4096 then Some 0 else umem m2 w)"
      "mmu_fault ?m = mmu_fault m" "active_page_directory ?m = ?d"
      "\<And>x. walk_entry ?d x ?m = walk_entry ?d x m2"
    using store_bytes_spec [OF ok2, of "replicate 4096 0" page] act by (auto simp: set_bytes_def)
  have uw': "user_writable ?m = user_writable m2" using st(4,5) act by (intro user_writable_cong) simp_all
  have "\<not> same_page w page \<Longrightarrow> umem m2 w = umem m w \<and> user_writable m2 w = user_writable m w" for w
    using umem_kept [OF ok act(1) walk ph] by blast
  moreover have "umem m w = None" if "same_page w page" for w
    using that pg(2) user_at_same_page [OF that] by (simp add: umem_None user_at_def)
  ultimately have "umem ?m v = umem m v \<or> umem m v = None \<and> umem ?m v = Some 0" "user_writable m v \<longrightarrow> user_writable ?m v" for v
    using page_range [OF pg(1), of v] uw uw' by (cases "same_page v page"; simp add: st(2))+
  then show ?thesis using st uw [of page] uw' by (simp add: grows_def same_page_def)
qed

text \<open>A fresh frame mapped for the user at a page of the active space, or given back when that fails.\<close>

lemma map_fresh_page:
  assumes ok: "active_ok m" and d: "cr3 = active_page_directory m" "cr3 \<noteq> 0" and pg: "page < USER_SPACE_END"
    and al: "mmu_alloc m = (f, m1)" "f \<noteq> 0"
    and mp: "paging_map_page_in_directory cr3 page f flags m1 = (okm, m2)"
  shows "(active_ok m2 \<and> active_page_directory m2 = active_page_directory m \<and> mmu_fault m2 = mmu_fault m) \<and>
    (\<forall>w. \<not> (okm \<and> same_page w page) \<longrightarrow> walk_entry cr3 w m2 = walk_entry cr3 w m) \<and>
    (\<forall>q. 0 < mmu_refs m q \<and> \<not> table_frame m cr3 q \<longrightarrow> phys m2 q = phys m q) \<and>
    (okm \<longrightarrow> walk_entry cr3 page m2 = Some (f OR (flags AND 0xFFF) OR PAGE_PRESENT) \<and> page_aligned f) \<and>
    (\<not> okm \<longrightarrow> active_ok (mmu_release f m2) \<and> phys (mmu_release f m2) = phys m2 \<and>
      active_page_directory (mmu_release f m2) = active_page_directory m \<and> mmu_fault (mmu_release f m2) = mmu_fault m)"
proof -
  let ?d = "active_page_directory m"
  have sp: "space_ok m ?d" using ok by (simp add: active_ok_def)
  have base: "?d = page_base cr3" using sp d(1) page_base_of_aligned by (simp add: space_ok_def pgdir_ok_def)
  note un = alloc_frame_unused [OF sp al]
  have sm: "space_ok m2 ?d \<and> (\<forall>w. \<not> same_page w page \<longrightarrow> walk_entry ?d w m2 = walk_entry ?d w m1) \<and>
      walk_entry ?d page m2 = (if okm then Some (f OR (flags AND 0xFFF) OR PAGE_PRESENT) else walk_entry ?d page m1) \<and>
      kernel_scratch_table m2 = kernel_scratch_table m1 \<and> active_page_directory m2 = active_page_directory m1 \<and>
      mmu_fault m2 = mmu_fault m1 \<and>
      (\<forall>q. 0 < mmu_refs m1 q \<longrightarrow> mmu_refs m2 q = mmu_refs m1 q \<and>
        (q \<noteq> ?d \<and> table_of m1 ?d (dir_index page) \<noteq> Some q \<longrightarrow> phys m2 q = phys m1 q)) \<and>
      (\<forall>i<1024. \<forall>t. table_of m2 ?d i = Some t \<longrightarrow> table_of m1 ?d i = Some t \<or> mmu_refs m1 t = 0)"
    using un by (intro space_map_page [OF _ base d(2) _ user_space_index [OF pg] _ _ _ _ _ mp]) auto
  have act: "active_page_directory m2 = ?d" "mmu_fault m2 = mmu_fault m" and sp2: "space_ok m2 ?d" and pm1: "phys m1 = phys m"
    and refs1: "mmu_refs m1 = (mmu_refs m)(f := 1)" "mmu_refs m f = 0"
    using sm un by simp_all
  have m1: "walk_entry ?d w m1 = walk_entry ?d w m" "table_of m1 ?d i = table_of m ?d i" for w i
    by (simp_all add: walk_entry_def table_of_def Let_def pm1)
  have walk: "walk_entry ?d w m2 = walk_entry ?d w m" if "\<not> (okm \<and> same_page w page)" for w
    using that sm walk_same_page [of w page] by (cases "same_page w page") (simp_all add: m1)
  have ph: "phys m2 q = phys m q" if "0 < mmu_refs m q" "\<not> table_frame m ?d q" for q
  proof -
    have "0 < mmu_refs m1 q" "q \<noteq> ?d" "table_of m1 ?d (dir_index page) \<noteq> Some q"
      using that refs1 index_bounds(1) [of page] by (auto simp: table_frame_def m1)
    then show ?thesis using sm pm1 by simp
  qed
  have "space_ok (mmu_release f m2) ?d \<and> phys (mmu_release f m2) = phys m2 \<and>
      active_page_directory (mmu_release f m2) = active_page_directory m2 \<and> mmu_fault (mmu_release f m2) = mmu_fault m2"
    if "\<not> okm"
  proof (rule drop_unused_frame [OF sp2])
    show "mmu_refs m2 f = 1" using sm refs1 by simp
    show "\<not> table_frame m2 ?d f" using sm un refs1 by (fastforce simp: table_frame_def)
    show "page_base g \<noteq> f" if "user_at m2 ?d w g" for w g
    proof -
      have "user_at m1 ?d w g" using that walk \<open>\<not> okm\<close> m1(1) by (simp add: user_at_def)
      then show ?thesis using un by blast
    qed
  qed
  moreover have "walk_entry ?d page m2 = Some (f OR (flags AND 0xFFF) OR PAGE_PRESENT)" if "okm" using sm that by simp
  ultimately show ?thesis unfolding d(1) using act sp2 walk ph un by (simp add: active_ok_def)
qed

lemma demand_map_grows:
  assumes ok: "active_ok m" and d: "p_cr3 p = active_page_directory m" "p_cr3 p \<noteq> 0"
    and pg: "page_aligned page" "page < USER_SPACE_END" "walk_entry (active_page_directory m) page m = None"
    and r: "demand_map_heap_page p page m = (res, m')"
  shows "grows m m' \<and> (res = VM_FAULT_HANDLED \<longrightarrow> user_writable m' page) \<and> res \<in> {VM_FAULT_HANDLED, VM_FAULT_OOM}"
proof -
  let ?d = "active_page_directory m" and ?fl = "PAGE_PRESENT OR PAGE_WRITABLE OR PAGE_USER"
  have sp: "space_ok m ?d" using ok by (simp add: active_ok_def)
  obtain f m1 where al: "mmu_alloc m = (f, m1)" by force
  obtain okm m2 where mp: "paging_map_page_in_directory (p_cr3 p) page f ?fl m1 = (okm, m2)" by force
  note mf = map_fresh_page [OF ok d pg(2) al _ mp, unfolded d(1)]
  consider "f = 0" | "f \<noteq> 0" "okm" | "f \<noteq> 0" "\<not> okm" by blast
  then show ?thesis
  proof cases
    case 1
    then have r': "res = VM_FAULT_OOM" "m' = m1" using r al by (simp_all add: demand_map_heap_page_def)
    have n: "space_ok m1 ?d" "phys m1 = phys m" "active_page_directory m1 = ?d" "mmu_fault m1 = mmu_fault m"
      using alloc_frame_none [OF sp] al 1 by simp_all
    then have "grows m m1" by (intro grows_kept [OF ok]) (simp_all add: active_ok_def walk_entry_table table_of_def)
    then show ?thesis using r' by simp
  next
    case 2
    note mf2 = mf [OF 2(1)]
    let ?e = "f OR (?fl AND 0xFFF) OR PAGE_PRESENT"
    have "page_aligned f" "walk_entry ?d page m2 = Some ?e" "active_page_directory m2 = ?d" using mf2 2 by simp_all
    then have "user_at m2 (active_page_directory m2) page ?e" "bit ?e 1"
      by (simp_all add: user_at_def entry_bits page_aligned_bits)
    then have "grows m (set_bytes page 0 4096 m2) \<and> user_writable (set_bytes page 0 4096 m2) page"
      using mf2 2 pg(1,3) by (intro grows_map_zero [OF ok]) auto
    moreover have "res = VM_FAULT_HANDLED" "m' = set_bytes page 0 4096 m2"
      using r al mp 2 by (simp_all add: demand_map_heap_page_def VM_PAGE_SIZE_def)
    ultimately show ?thesis by simp
  next
    case 3
    note mf3 = mf [OF 3(1)]
    have "walk_entry ?d w (mmu_release f m2) = walk_entry ?d w m2" for w by (simp add: mmu_release_def)
    then have "grows m (mmu_release f m2)"
      using mf3 3 by (intro grows_kept [OF ok]) simp_all
    moreover have "res = VM_FAULT_OOM" "m' = mmu_release f m2"
      using r al mp 3 by (simp_all add: demand_map_heap_page_def)
    ultimately show ?thesis by simp
  qed
qed

lemma get_flags_bits:
  assumes "cr3 \<noteq> 0"
  shows "bit (paging_get_page_flags_in_directory cr3 v m) n \<longleftrightarrow>
    (\<exists>t. table_of m (page_base cr3) (dir_index v) = Some t \<and> bit (phys m t (table_index v)) n \<and> n < 12)"
  using assms by (auto simp: paging_get_page_flags_in_directory_def Let_def and_flag_eq_0 table_of_def bit_page_masks)

lemma flags_walk:
  assumes "cr3 \<noteq> 0" "bit (paging_get_page_flags_in_directory cr3 v m) 0"
  shows "\<exists>e. walk_entry (page_base cr3) v m = Some e \<and>
    (\<forall>n<12. bit (paging_get_page_flags_in_directory cr3 v m) n = bit e n)"
  using assms(2) by (auto simp: get_flags_bits [OF assms(1)] walk_entry_table)

lemma no_flags_walk:
  "cr3 \<noteq> 0 \<Longrightarrow> \<not> bit (paging_get_page_flags_in_directory cr3 v m) 0 \<Longrightarrow> walk_entry (page_base cr3) v m = None"
  by (auto simp: get_flags_bits walk_entry_table split: option.splits)

lemma and_need:
  "f AND (PAGE_PRESENT OR PAGE_USER) = PAGE_PRESENT OR PAGE_USER \<longleftrightarrow> bit f 0 \<and> bit f 2"
  "f AND (PAGE_PRESENT OR PAGE_USER OR PAGE_WRITABLE) = PAGE_PRESENT OR PAGE_USER OR PAGE_WRITABLE \<longleftrightarrow> bit f 0 \<and> bit f 2 \<and> bit f 1"
  "f AND (PAGE_PRESENT OR PAGE_USER OR PAGE_COW) = PAGE_PRESENT OR PAGE_USER OR PAGE_COW \<longleftrightarrow> bit f 0 \<and> bit f 2 \<and> bit f 9"
  by (auto simp: and_eq_flags entry_bits)

lemma prepare_page_grows:
  assumes ok: "active_ok m" and d: "p_cr3 p = active_page_directory m"
    and r: "vm_prepare_user_write_page (Some p) page m = (res, m')"
  shows "grows m m' \<and> (res = VM_FAULT_HANDLED \<longrightarrow> user_writable m' page)"
proof (cases "p_cr3 p = 0 \<or> page AND (VM_PAGE_SIZE - 1) \<noteq> 0 \<or> page < USER_SPACE_START \<or>
     page \<ge> USER_SPACE_END \<or> is_stack_guard_fault page")
  case True
  then have "vm_prepare_user_write_page (Some p) page m = (VM_FAULT_FATAL, m)"
    by (simp add: vm_prepare_user_write_page_def)
  then show ?thesis using r grows_refl [OF ok] by simp
next
  case False
  let ?d = "active_page_directory m" and ?f = "paging_get_page_flags_in_directory (p_cr3 p) page m"
  have base: "?d = page_base (p_cr3 p)"
    using ok d page_base_of_aligned by (simp add: active_ok_def space_ok_def pgdir_ok_def)
  have pg: "page_aligned page" "page < USER_SPACE_END" "p_cr3 p \<noteq> 0"
    using False by (simp_all add: page_aligned_def FRAME_SIZE_def VM_PAGE_SIZE_def not_le)
  have unf: "vm_prepare_user_write_page (Some p) page m =
     (if bit ?f 0 \<and> bit ?f 2 \<and> bit ?f 1 then (VM_FAULT_HANDLED, m)
      else if bit ?f 0 \<and> bit ?f 2 \<and> bit ?f 9
      then let (ok, m) = paging_resolve_cow_fault (p_cr3 p) page m in (if ok then VM_FAULT_HANDLED else VM_FAULT_OOM, m)
      else if \<not> bit ?f 0 \<and> page \<ge> p_heap_start p \<and> page < p_heap_end p then demand_map_heap_page p page m
      else (VM_FAULT_FATAL, m))"
    using False by (simp add: vm_prepare_user_write_page_def Let_def and_need and_flag_eq_0)
  consider (writable) "bit ?f 0 \<and> bit ?f 2 \<and> bit ?f 1"
    | (cow) "\<not> (bit ?f 0 \<and> bit ?f 2 \<and> bit ?f 1)" "bit ?f 0 \<and> bit ?f 2 \<and> bit ?f 9"
    | (demand) "\<not> bit ?f 0" "page \<ge> p_heap_start p \<and> page < p_heap_end p"
    | (fatal) "(res, m') = (VM_FAULT_FATAL, m)"
    using unf r by (auto split: if_splits)
  then show ?thesis
  proof cases
    case writable
    then have "user_writable m page"
      using flags_walk [OF pg(3), of page m] base by (auto simp: user_writable_def user_at_def)
    then show ?thesis using writable unf r grows_refl [OF ok] by simp
  next
    case cow
    obtain okc m2 where c: "paging_resolve_cow_fault (p_cr3 p) page m = (okc, m2)" by force
    have "(res, m') = (if okc then VM_FAULT_HANDLED else VM_FAULT_OOM, m2)" using r c cow unfolding unf by auto
    then show ?thesis using cow_grows [OF ok base pg(3) c] by auto
  next
    case demand
    then have "demand_map_heap_page p page m = (res, m')" using unf r by simp
    moreover have "walk_entry ?d page m = None" using no_flags_walk [OF pg(3) demand(1)] base by simp
    ultimately show ?thesis using demand_map_grows [OF ok d pg(3,1,2)] by blast
  next
    case fatal
    then show ?thesis using grows_refl [OF ok] by simp
  qed
qed

lemma prepare_pages_grows:
  assumes "active_ok m" "p_cr3 p = active_page_directory m" "prepare_pages p pages m = (res, m')"
  shows "grows m m' \<and> (res = UACCESS_SUCCESS \<longrightarrow> (\<forall>page\<in>set pages. user_writable m' page))"
  using assms
proof (induction pages arbitrary: m)
  case Nil
  then show ?case by (simp add: grows_refl)
next
  case (Cons page pages)
  obtain r m1 where r: "vm_prepare_user_write_page (Some p) page m = (r, m1)" by force
  note g = prepare_page_grows [OF Cons.prems(1,2) r]
  show ?case
  proof (cases "r = VM_FAULT_HANDLED")
    case True
    then have "prepare_pages p pages m1 = (res, m')" using Cons.prems(3) r by simp
    moreover have "active_ok m1" "p_cr3 p = active_page_directory m1" using g Cons.prems(2) by (simp_all add: grows_def)
    ultimately have ih: "grows m1 m' \<and> (res = UACCESS_SUCCESS \<longrightarrow> (\<forall>page\<in>set pages. user_writable m' page))"
      using Cons.IH by blast
    moreover have "user_writable m' page" using g True ih by (auto simp: grows_def)
    ultimately show ?thesis using g grows_trans by auto
  next
    case False
    then have "res \<noteq> UACCESS_SUCCESS" "m' = m1"
      using Cons.prems(3) r by (auto simp: UACCESS_SUCCESS_def UACCESS_ENOMEM_def UACCESS_EFAULT_def split: if_splits)
    then show ?thesis using g by simp
  qed
qed

section \<open>The pages of a range\<close>

lemma range_valid_nowrap:
  assumes "uaccess_range_valid a sz" "0 < sz"
  shows "unat a + unat sz \<le> 0xC0000000" "0x40000000 \<le> unat a"
proof -
  have v: "a \<ge> USER_SPACE_START" "\<not> a + sz < a" "\<not> USER_SPACE_END < a + sz"
    using assms by (auto simp: uaccess_range_valid_def Let_def split: if_splits)
  then have "unat (a + sz) = unat a + unat sz" by (simp add: not_less no_olen_add_nat unat_plus_simple [symmetric] word_le_nat_alt)
  then show "unat a + unat sz \<le> 0xC0000000" "0x40000000 \<le> unat a"
    using v by (simp_all add: word_less_nat_alt word_le_nat_alt USER_SPACE_END_def USER_SPACE_START_def not_less)
qed

lemma unat_page_base: "unat (page_base e) = unat e div 4096 * 4096"
  by (simp add: page_base_align_down unat_align_down)

lemma page_mask: "a AND PAGE_MASK = page_base a"
  by (simp add: PAGE_MASK_def page_base_def)

lemma page_base_number: "page_base w = of_nat (unat w div 4096) * PAGE_SIZE"
proof -
  have "unat w div 4096 * 4096 < 4294967296" using u32_unat_lt [of w] div_times_less_eq_dividend [of "unat w" 4096] by linarith
  then have "unat (of_nat (unat w div 4096) * PAGE_SIZE) = unat w div 4096 * 4096"
    by (simp add: unat_word_ariths unat_of_nat PAGE_SIZE_def)
  then show ?thesis using unat_page_base [of w] word_unat_eq_iff by metis
qed

lemma page_numbers:
  fixes A S :: nat
  assumes "0 < S"
  shows "(\<lambda>i. (A + i) div 4096) ` {..<S} = {A div 4096 .. (A + S - 1) div 4096}"
proof (intro equalityI subsetI)
  fix n assume n: "n \<in> {A div 4096 .. (A + S - 1) div 4096}"
  define i where "i = n * 4096 - A"
  have "n * 4096 \<le> (A + S - 1) div 4096 * 4096" using n by simp
  also have "\<dots> \<le> A + S - 1" by (rule div_times_less_eq_dividend)
  finally have "i < S" using assms by (simp add: i_def)
  moreover have "(A + i) div 4096 = n"
  proof (cases "A div 4096 = n")
    case True
    then have "n * 4096 \<le> A" using div_times_less_eq_dividend by blast
    then show ?thesis using True by (simp add: i_def)
  next
    case False
    then have "A < n * 4096" using n by (simp add: div_less_iff_less_mult [symmetric])
    then show ?thesis by (simp add: i_def)
  qed
  ultimately show "n \<in> (\<lambda>i. (A + i) div 4096) ` {..<S}" by blast
qed (auto intro!: div_le_mono)

lemma range_pages_eq:
  assumes "uaccess_range_valid a sz" "0 < sz"
  shows "set (range_pages a sz) = (\<lambda>i. page_base (a + of_nat i)) ` {..<unat sz}"
proof -
  let ?A = "unat a" and ?S = "unat sz" and ?p = "\<lambda>n. of_nat n * PAGE_SIZE :: u32"
  let ?q = "?A div 4096" and ?l = "(?A + ?S - 1) div 4096"
  have b: "?A + ?S \<le> 0xC0000000" "0 < ?S" using range_valid_nowrap [OF assms] assms(2) by (simp_all add: word_less_nat_alt)
  have addr: "unat (a + of_nat i) = ?A + i" if "i < ?S" for i
    using that b by (simp add: unat_word_ariths unat_of_nat)
  have "a + sz - 1 = a + of_nat (?S - 1)" using b(2) by (simp add: of_nat_diff)
  then have "unat (a + sz - 1) = unat (a + of_nat (?S - 1))" by (rule arg_cong)
  also have "\<dots> = ?A + ?S - 1" using addr [of "?S - 1"] b(2) by simp
  finally have last: "unat (a + sz - 1) = ?A + ?S - 1" .
  have le: "?q \<le> ?l" using b(2) by (intro div_le_mono) simp
  then have "page_base a \<le> page_base (a + sz - 1)" by (simp add: word_le_nat_alt unat_page_base last)
  then have "unat (page_base (a + sz - 1) - page_base a) = ?l * 4096 - ?q * 4096"
    by (simp add: unat_sub unat_page_base last)
  then have "unat ((page_base (a + sz - 1) - page_base a) div PAGE_SIZE) = ?l - ?q"
    by (simp add: PAGE_SIZE_def unat_div diff_mult_distrib [symmetric])
  then have "set (range_pages a sz) = (\<lambda>j. ?p (?q + j)) ` {..?l - ?q}"
    using page_base_number [of a]
    by (simp add: range_pages_def pages_between_def page_mask lessThan_Suc_atMost [symmetric] atLeast0LessThan
        lessThan_Suc algebra_simps)
  also have "\<dots> = ?p ` (\<lambda>j. ?q + j) ` {..?l - ?q}" by (simp only: image_image)
  also have "(\<lambda>j. ?q + j) ` {..?l - ?q} = {?q..?l}" using le by (simp add: atMost_atLeast0)
  also have "\<dots> = (\<lambda>i. (?A + i) div 4096) ` {..<?S}" by (rule page_numbers [OF b(2), symmetric])
  also have "?p ` \<dots> = (\<lambda>i. page_base (a + of_nat i)) ` {..<?S}"
    unfolding image_image by (rule image_cong [OF refl]) (simp add: page_base_number addr)
  finally show ?thesis .
qed

section \<open>Copies\<close>

lemma active_processD:
  assumes "active_process_directory k = Some i" "active_ok (k_mmu k)"
  shows "p_cr3 (proc k i) = active_page_directory (k_mmu k)" "p_cr3 (proc k i) \<noteq> 0"
    "page_base (p_cr3 (proc k i)) = active_page_directory (k_mmu k)"
proof -
  show p: "p_cr3 (proc k i) = active_page_directory (k_mmu k)" "p_cr3 (proc k i) \<noteq> 0"
    using assms(1)
    by (auto simp: active_process_directory_def paging_get_current_directory_def split: option.splits if_splits)
  then show "page_base (p_cr3 (proc k i)) = active_page_directory (k_mmu k)"
    using assms(2) page_base_of_aligned by (simp add: active_ok_def space_ok_def pgdir_ok_def)
qed

lemma active_process_cong:
  "process_table k' = process_table k \<Longrightarrow> current k' = current k \<Longrightarrow>
   active_page_directory (k_mmu k') = active_page_directory (k_mmu k) \<Longrightarrow>
   active_process_directory k' = active_process_directory k"
  by (simp add: active_process_directory_def process_get_current_def scheduler_get_current_def
      paging_get_current_directory_def split: option.splits)

lemma user_flags_umem:
  assumes "cr3 \<noteq> 0" "page_base cr3 = active_page_directory m"
  shows "paging_get_page_flags_in_directory cr3 (page_base v) m AND (PAGE_PRESENT OR PAGE_USER) = PAGE_PRESENT OR PAGE_USER
    \<longleftrightarrow> umem m v \<noteq> None"
proof -
  have "(\<exists>e. user_at m (page_base cr3) (page_base v) e) \<longleftrightarrow> (\<exists>e. user_at m (page_base cr3) v e)"
    using user_at_same_page [OF same_page_base(1)] by simp
  then show ?thesis
    unfolding and_need get_flags_bits [OF assms(1)] umem_None assms(2) [symmetric]
    by (auto simp: user_at_def walk_entry_table split: option.splits if_splits)
qed

lemma readable_exact:
  assumes "active_ok (k_mmu k)" "active_process_directory k = Some i" "0 < sz"
  shows "uaccess_readable a sz k \<longleftrightarrow>
    uaccess_range_valid a sz \<and> (\<forall>j<unat sz. umem (k_mmu k) (a + of_nat j) \<noteq> None)"
proof (cases "uaccess_range_valid a sz")
  case True
  note p = active_processD [OF assms(2,1)]
  have "uaccess_readable a sz k \<longleftrightarrow> (\<forall>page\<in>(\<lambda>j. page_base (a + of_nat j)) ` {..<unat sz}.
      paging_get_page_flags_in_directory (p_cr3 (proc k i)) page (k_mmu k) AND (PAGE_PRESENT OR PAGE_USER)
        = PAGE_PRESENT OR PAGE_USER)"
    using True assms(2,3) range_pages_eq [OF True assms(3)] by (simp add: uaccess_readable_def list_all_iff)
  then show ?thesis using True user_flags_umem [OF p(2,3)] by auto
qed (simp add: uaccess_readable_def)

lemma copy_from_user_umem:
  assumes "active_ok (k_mmu k)" "active_process_directory k = Some i" "0 < sz"
  shows "copy_from_user True a sz k =
    (if uaccess_range_valid a sz \<and> (\<forall>j<unat sz. umem (k_mmu k) (a + of_nat j) \<noteq> None)
     then (UACCESS_SUCCESS, map (\<lambda>j. the (umem (k_mmu k) (a + of_nat j))) [0..<unat sz], k)
     else (UACCESS_EFAULT, [], k))"
proof (cases "uaccess_readable a sz k")
  case True
  then have "load_bytes a (unat sz) (k_mmu k) = (map (\<lambda>j. the (umem (k_mmu k) (a + of_nat j))) [0..<unat sz], k_mmu k)"
    using readable_exact [OF assms, of a] by (intro load_bytes_umem) auto
  then show ?thesis using True readable_exact [OF assms, of a] by (simp add: copy_from_user_def)
next
  case False
  then show ?thesis unfolding readable_exact [OF assms, symmetric] by (simp add: copy_from_user_def)
qed

lemma copy_to_user_umem:
  assumes ok: "active_ok (k_mmu k)" and sz: "length bs = unat sz" "0 < sz"
    and c: "copy_to_user dest (Some bs) sz k = (st, k')"
  shows "active_ok (k_mmu k') \<and> mmu_fault (k_mmu k') = mmu_fault (k_mmu k) \<and>
    (\<forall>v. if st = UACCESS_SUCCESS \<and> unat (v - dest) < unat sz then umem (k_mmu k') v = Some (bs ! unat (v - dest))
      else umem (k_mmu k') v = umem (k_mmu k) v \<or> umem (k_mmu k) v = None \<and> umem (k_mmu k') v = Some 0) \<and>
    active_process_directory k' = active_process_directory k \<and>
    (st = UACCESS_SUCCESS \<longrightarrow> active_process_directory k \<noteq> None \<and> uaccess_range_valid dest sz)"
proof (cases "uaccess_range_valid dest sz \<and> active_process_directory k \<noteq> None")
  case False
  then have "uaccess_prepare_write dest sz k = (UACCESS_EFAULT, k)"
    using sz(2) by (auto simp: uaccess_prepare_write_def)
  then have "(st, k') = (UACCESS_EFAULT, k)"
    using c by (simp add: copy_to_user_def UACCESS_SUCCESS_def UACCESS_EFAULT_def)
  then show ?thesis using ok by (simp add: UACCESS_SUCCESS_def UACCESS_EFAULT_def)
next
  case True
  then obtain i where i: "active_process_directory k = Some i" and v: "uaccess_range_valid dest sz" by auto
  obtain r m where pr: "prepare_pages (proc k i) (range_pages dest sz) (k_mmu k) = (r, m)" by force
  note g = prepare_pages_grows [OF ok active_processD(1) [OF i ok] pr]
  have "(st, k') = (if r \<noteq> UACCESS_SUCCESS then (r, k\<lparr>k_mmu := m\<rparr>)
      else (UACCESS_SUCCESS, k\<lparr>k_mmu := store_bytes dest bs m\<rparr>))"
    using c sz i v pr by (auto simp: copy_to_user_def uaccess_prepare_write_def set_mmu_def split: if_splits)
  then consider (fail) "st \<noteq> UACCESS_SUCCESS" "k' = k\<lparr>k_mmu := m\<rparr>"
    | (stored) "st = UACCESS_SUCCESS" "r = UACCESS_SUCCESS" "k' = k\<lparr>k_mmu := store_bytes dest bs m\<rparr>"
    by (auto split: if_splits)
  then show ?thesis
  proof cases
    case fail
    then show ?thesis using g i active_process_cong [of k' k] by (simp add: grows_def)
  next
    case stored
    have "user_writable m (dest + of_nat j)" if "j < length bs" for j
      using g stored(2) that range_pages_eq [OF v sz(2)] sz(1) user_writable_same_page [OF same_page_base(1)] by auto
    moreover have "length bs \<le> 2 ^ 32" using sz(1) u32_unat_lt [of sz] by (simp del: u32_unat_lt)
    ultimately have st: "active_ok (store_bytes dest bs m)"
        "umem (store_bytes dest bs m) = (\<lambda>w. if unat (w - dest) < length bs then Some (bs ! unat (w - dest)) else umem m w)"
        "mmu_fault (store_bytes dest bs m) = mmu_fault m" "active_page_directory (store_bytes dest bs m) = active_page_directory m"
      using store_bytes_spec [of m bs dest] g by (auto simp: grows_def)
    then show ?thesis using g stored i v sz(1) active_process_cong [of k' k] by (simp add: grows_def)
  qed
qed

section \<open>An example\<close>

text \<open>A running process with one copy-on-write page.\<close>

definition uaccess_demo :: "ramdisk_data kernel" where
  "uaccess_demo = kernel_demo\<lparr>process_table := zero_process\<lparr>p_cr3 := 0x300000, p_state := PROCESS_RUNNING\<rparr> # replicate 15 zero_process,
     current := Some 0, k_mmu := space_demo 0x200205\<rparr>"

lemma uaccess_demo_ok: "active_ok (k_mmu uaccess_demo)" "active_process_directory uaccess_demo = Some 0"
proof -
  have "space_ok (space_demo 0x200205) 0x300000" by (rule space_demo_ok) (simp add: page_base_def)
  then show "active_ok (k_mmu uaccess_demo)" by (simp add: active_ok_def uaccess_demo_def) (simp add: space_demo_def)
  show "active_process_directory uaccess_demo = Some 0"
  proof -
    have "process_get_current uaccess_demo = Some 0"
      by (simp add: process_get_current_def uaccess_demo_def MAX_PROCESSES_def first_index_step)
    then show ?thesis
      by (simp add: active_process_directory_def uaccess_demo_def paging_get_current_directory_def space_demo_def)
  qed
qed

lemma uaccess_demo_mapped: "umem (k_mmu uaccess_demo) 0x40000010 \<noteq> None" "umem (k_mmu uaccess_demo) 0x40001010 = None"
proof -
  have a: "active_page_directory (k_mmu uaccess_demo) = 0x300000" "k_mmu uaccess_demo = space_demo 0x200205"
    by (simp_all add: uaccess_demo_def) (simp add: space_demo_def)
  show "umem (k_mmu uaccess_demo) 0x40000010 \<noteq> None" "umem (k_mmu uaccess_demo) 0x40001010 = None"
    unfolding umem_None a(1) unfolding a(2) space_demo_user
    by (simp_all add: same_page_def dir_index_def table_index_def)
qed

section \<open>Properties\<close>

text \<open>C19: copy_from_user is exact: it succeeds precisely when the whole range lies in user space and every byte of it
  is readable by the process, and then returns those bytes; otherwise it returns EFAULT and nothing. In neither
  case does the kernel fault or change its state.\<close>

theorem copy_from_user_exact:
  assumes "active_ok (k_mmu k)" "active_process_directory k = Some i" "0 < sz"
  shows "copy_from_user True a sz k =
    (if uaccess_range_valid a sz \<and> (\<forall>j<unat sz. umem (k_mmu k) (a + of_nat j) \<noteq> None)
     then (UACCESS_SUCCESS, map (\<lambda>j. the (umem (k_mmu k) (a + of_nat j))) [0..<unat sz], k)
     else (UACCESS_EFAULT, [], k))"
  by (rule copy_from_user_umem [OF assms])

theorem copy_from_user_exact_witness:
  "copy_from_user True 0x40000010 1 uaccess_demo =
     (UACCESS_SUCCESS, [the (umem (k_mmu uaccess_demo) 0x40000010)], uaccess_demo) \<and>
   copy_from_user True 0x40001010 1 uaccess_demo = (UACCESS_EFAULT, [], uaccess_demo)"
proof -
  have "uaccess_range_valid 0x40000010 1" "uaccess_range_valid 0x40001010 1"
    by (simp_all add: uaccess_range_valid_def USER_SPACE_START_def USER_SPACE_END_def)
  then show ?thesis
    using copy_from_user_exact [OF uaccess_demo_ok, of 1 "0x40000010"] copy_from_user_exact [OF uaccess_demo_ok, of 1 "0x40001010"]
      uaccess_demo_mapped by simp
qed

text \<open>C20: copy_to_user: on success a later copy_from_user of the same range returns exactly the bytes written; every
  byte of user memory outside the range keeps its value, except that pages of the heap that were not mapped may
  appear filled with zeros; on failure no byte changes either. The kernel never faults, and the address space
  stays well-formed, whether pages were copied on write, mapped on demand or already writable.\<close>

theorem copy_to_user_round_trip:
  assumes "active_ok (k_mmu k)" "length bs = unat sz" "0 < sz" "copy_to_user dest (Some bs) sz k = (st, k')"
  shows "active_ok (k_mmu k') \<and> mmu_fault (k_mmu k') = mmu_fault (k_mmu k) \<and>
    (st = UACCESS_SUCCESS \<longrightarrow> copy_from_user True dest sz k' = (UACCESS_SUCCESS, bs, k')) \<and>
    (\<forall>v. st = UACCESS_SUCCESS \<and> unat (v - dest) < unat sz \<or> umem (k_mmu k') v = umem (k_mmu k) v \<or>
      umem (k_mmu k) v = None \<and> umem (k_mmu k') v = Some 0)"
proof -
  note c = copy_to_user_umem [OF assms]
  have "copy_from_user True dest sz k' = (UACCESS_SUCCESS, bs, k')" if s: "st = UACCESS_SUCCESS"
  proof -
    obtain i where i: "active_process_directory k' = Some i" using c s by auto
    have v: "uaccess_range_valid dest sz" using c s by blast
    have "umem (k_mmu k') (dest + of_nat j) = Some (bs ! j)" if "j < unat sz" for j
    proof -
      have "unat (of_nat j :: u32) = j" using that u32_unat_lt [of sz] by (intro unat_of_nat_small) (simp del: u32_unat_lt)
      then show ?thesis using c s that by (elim conjE allE [of _ "dest + of_nat j"]) simp
    qed
    then have "map (\<lambda>j. the (umem (k_mmu k') (dest + of_nat j))) [0..<unat sz] = bs" "\<forall>j<unat sz. umem (k_mmu k') (dest + of_nat j) \<noteq> None"
      using assms(2) by (auto intro!: nth_equalityI)
    then show ?thesis using copy_from_user_umem [OF _ i assms(3), of dest] c v by simp
  qed
  then show ?thesis using c by (auto split: if_splits)
qed

theorem copy_to_user_round_trip_witness:
  "\<exists>k'. copy_to_user 0x40000010 (Some [7, 8]) 2 uaccess_demo = (UACCESS_SUCCESS, k') \<and>
     copy_from_user True 0x40000010 2 k' = (UACCESS_SUCCESS, [7, 8], k')"
proof -
  let ?k = uaccess_demo
  have "frame_get_refcount 0x200000 frame_demo = 1"
  proof -
    have "unat (frame_get_refcount 0x200000 frame_demo) = unat (1 :: u32)"
      using space_demo_refs(4) [of 0] by (simp add: mmu_refs_def space_demo_def frame_refs_def)
    then show ?thesis by (simp only: word_unat_eq_iff)
  qed
  then have "fst (vm_prepare_user_write_page (Some (proc ?k 0)) 0x40000000 (k_mmu ?k)) = VM_FAULT_HANDLED"
    by (simp add: vm_prepare_user_write_page_def VM_PAGE_SIZE_def uaccess_demo_def USER_SPACE_START_def USER_SPACE_END_def
        is_stack_guard_fault_def USER_STACK_GUARD_BOTTOM_def USER_STACK_BOTTOM_def USER_STACK_TOP_def USER_STACK_SIZE_def
        paging_get_page_flags_in_directory_def paging_resolve_cow_fault_def
        space_demo_def dir_index_def table_index_def page_base_def page_flags)
  then obtain m1 where "vm_prepare_user_write_page (Some (proc ?k 0)) 0x40000000 (k_mmu ?k) = (VM_FAULT_HANDLED, m1)"
    by (metis prod.collapse)
  moreover have "range_pages 0x40000010 2 = [0x40000000]"
    by (simp add: range_pages_def pages_between_def PAGE_MASK_def PAGE_SIZE_def)
  ultimately have "fst (uaccess_prepare_write 0x40000010 2 ?k) = UACCESS_SUCCESS"
    using uaccess_demo_ok(2)
    by (simp add: uaccess_prepare_write_def uaccess_range_valid_def USER_SPACE_START_def USER_SPACE_END_def)
  then obtain k' where k': "copy_to_user 0x40000010 (Some [7, 8]) 2 ?k = (UACCESS_SUCCESS, k')"
    by (cases "uaccess_prepare_write 0x40000010 2 ?k") (simp add: copy_to_user_def)
  show ?thesis using k' copy_to_user_round_trip [OF uaccess_demo_ok(1) _ _ k'] by simp
qed

end
