(* ===== verification/Fork_Space.thy ===== *)
theory Fork_Space
  imports Uaccess_Spec
begin

text \<open>
  Copying an address space for a forked process, \<^verbatim>\<open>paging_clone_directory\<close>: parent and child see the same bytes,
  on the same frames, with every writable page turned into a copy-on-write page in both, and a page
  that one of them later gets writable is never a page of the other.
\<close>

section \<open>Entries\<close>

definition cow_entry :: "u32 \<Rightarrow> u32" where
  "cow_entry e = (if user_page e \<and> e AND (PAGE_WRITABLE OR PAGE_COW) \<noteq> 0
     then (e AND NOT PAGE_WRITABLE) OR PAGE_COW else e)"

lemma and_two_flags: "e AND (PAGE_WRITABLE OR PAGE_COW) \<noteq> 0 \<longleftrightarrow> bit e 1 \<or> bit e 9"
  by (simp add: bit.conj_disj_distrib or_eq_0_iff and_flag_eq_0)

lemma cow_entry_bit: "bit (cow_entry e) k \<longleftrightarrow>
    (if user_page e then (if k = 1 then False else if k = 9 then bit e 1 \<or> bit e 9 else bit e k) else bit e k)"
  unfolding cow_entry_def and_two_flags
  by (auto simp: entry_bits dest: bit_imp_le_length)

lemma cow_entry_low: "bit (cow_entry e) 0 = bit e 0" "bit (cow_entry e) 2 = bit e 2"
  by (simp_all add: cow_entry_bit)

lemma cow_entry_base [simp]: "page_base (cow_entry e) = page_base e"
  by (rule u32_eqI) (auto simp: bit_page_base cow_entry_bit)

lemma cow_entry_user [simp]: "user_page (cow_entry e) = user_page e"
  by (simp add: user_page_bits cow_entry_bit)

lemma private_table_bits: "private_table i e \<longleftrightarrow> bit e 0 \<and> (i = 0 \<or> bit e 2)"
  by (simp add: private_table_def and_flag_eq_0)

section \<open>Loops\<close>

lemma try_all_append:
  "try_all f (xs @ [x]) s = (let (ok, s) = try_all f xs s in if ok then f x s else (False, s))"
  by (induction xs arbitrary: s) (auto simp: Let_def split: prod.splits)

lemma try_all_Suc:
  assumes "try_all f [0..<Suc k] s = (True, s')"
  obtains s1 where "try_all f [0..<k] s = (True, s1)" "f k s1 = (True, s')"
  using assms try_all_append [of f "[0..<k]" k s] by (auto simp: Let_def split: prod.splits if_splits)

text \<open>What the loops do not touch.\<close>

definition same_regs :: "mmu \<Rightarrow> mmu \<Rightarrow> bool" where
  "same_regs m m' \<longleftrightarrow> active_page_directory m' = active_page_directory m \<and>
     kernel_scratch_table m' = kernel_scratch_table m \<and> mmu_fault m' = mmu_fault m"

lemma same_regs_refl [simp]: "same_regs m m"
  by (simp add: same_regs_def)

lemma same_regs_trans: "same_regs m m1 \<Longrightarrow> same_regs m1 m2 \<Longrightarrow> same_regs m m2"
  by (simp add: same_regs_def)

text \<open>How many of the first \<open>k\<close> entries of a table give the user the frame \<open>q\<close>.\<close>

definition frame_uses :: "mmu \<Rightarrow> u32 \<Rightarrow> nat \<Rightarrow> u32 \<Rightarrow> nat" where
  "frame_uses m s k q = card {j. j < k \<and> user_page (phys m s j) \<and> page_base (phys m s j) = q}"

lemma frame_uses_0 [simp]: "frame_uses m s 0 q = 0"
  by (simp add: frame_uses_def)

lemma frame_uses_Suc [simp]:
  "frame_uses m s (Suc k) q =
     frame_uses m s k q + (if user_page (phys m s k) \<and> page_base (phys m s k) = q then 1 else 0)"
proof -
  have "{j. j < Suc k \<and> user_page (phys m s j) \<and> page_base (phys m s j) = q} =
      (if user_page (phys m s k) \<and> page_base (phys m s k) = q
       then insert k {j. j < k \<and> user_page (phys m s j) \<and> page_base (phys m s j) = q}
       else {j. j < k \<and> user_page (phys m s j) \<and> page_base (phys m s j) = q})"
    by (auto simp: less_Suc_eq)
  then show ?thesis by (simp add: frame_uses_def)
qed

lemma retain_pages:
  assumes "s \<noteq> t" "mmu_ok m" "try_all (retain_page s t) [0..<k] m = (True, m')"
  shows "mmu_ok m' \<and> same_regs m m' \<and>
    (\<forall>q j. phys m' q j = (if q = t \<and> j < k \<and> bit (phys m s j) 0 then phys m s j else phys m q j)) \<and>
    (\<forall>q. mmu_refs m' q = mmu_refs m q + frame_uses m s k q)"
  using assms(3)
proof (induction k arbitrary: m')
  case 0
  then show ?case using assms(2) by simp
next
  case (Suc k)
  obtain m1 where m1: "try_all (retain_page s t) [0..<k] m = (True, m1)" and st: "retain_page s t k m1 = (True, m')"
    using Suc.prems by (rule try_all_Suc)
  note ih = Suc.IH [OF m1]
  let ?e = "phys m s k"
  have e: "phys m1 s k = ?e" using ih assms(1) by simp
  consider "\<not> bit ?e 0" | "bit ?e 0" "\<not> bit ?e 2" | "user_page ?e" by (auto simp: user_page_bits)
  then show ?case
  proof cases
    case 1
    then have "m' = m1" using st e by (simp add: retain_page_def and_flag_eq_0)
    then show ?thesis using ih 1 by (auto simp: user_page_bits less_Suc_eq)
  next
    case 2
    then have "m' = put_word t k ?e m1" using st e by (simp add: retain_page_def and_flag_eq_0)
    then show ?thesis
      using ih 2 by (auto simp: user_page_bits less_Suc_eq phys_put_word same_regs_def mmu_ok_def mmu_refs_def)
  next
    case 3
    then have b: "bit ?e 0" "bit ?e 2" by (simp_all add: user_page_bits)
    obtain fr where fr: "frame_retain (page_base ?e) (mmu_frames m1) = (True, fr)" "m' = put_word t k ?e (m1\<lparr>mmu_frames := fr\<rparr>)"
      using st e b by (auto simp: retain_page_def and_flag_eq_0 mmu_retain_def split: prod.splits if_splits)
    have fok: "frame_ok (mmu_frames m1)" using ih by (simp add: mmu_ok_def)
    have "frame_ok fr" "frame_refs fr = (frame_refs (mmu_frames m1))(page_base ?e := Suc (frame_refs (mmu_frames m1) (page_base ?e)))"
      using frames.retain_inv [OF fok fr(1)] frames.retain_true [OF fok fr(1)] by simp_all
    then show ?thesis
      using ih 3 b fr(2) by (auto simp: less_Suc_eq phys_put_word same_regs_def mmu_ok_def mmu_refs_def)
  qed
qed

lemma commit_pages:
  assumes "s \<noteq> t"
  shows "mmu_frames (for_loop 0 k (commit_page s t) m) = mmu_frames m \<and> same_regs m (for_loop 0 k (commit_page s t) m) \<and>
    (\<forall>q j. phys (for_loop 0 k (commit_page s t) m) q j =
       (if q \<in> {s, t} \<and> j < k \<and> user_page (phys m s j) \<and> phys m s j AND (PAGE_WRITABLE OR PAGE_COW) \<noteq> 0
        then cow_entry (phys m s j) else phys m q j))"
proof (induction k)
  case 0
  then show ?case by (simp add: for_loop_done)
next
  case (Suc k)
  let ?m = "for_loop 0 k (commit_page s t) m"
  have e: "phys ?m s k = phys m s k" using Suc.IH by simp
  have step: "for_loop 0 (Suc k) (commit_page s t) m =
      (if user_page (phys m s k) \<and> phys m s k AND (PAGE_WRITABLE OR PAGE_COW) \<noteq> 0
       then put_word t k (cow_entry (phys m s k)) (put_word s k (cow_entry (phys m s k)) ?m) else ?m)"
    by (simp add: for_loop_last commit_page_def e cow_entry_def Let_def)
  show ?case
    unfolding step using Suc.IH by (auto simp: less_Suc_eq phys_put_word same_regs_def)
qed

text \<open>The tables that a copy \<open>n\<close> of the directory \<open>d\<close> has for itself are apart from those of the source.\<close>

abbreviation own_table :: "mmu \<Rightarrow> u32 \<Rightarrow> nat \<Rightarrow> bool" where
  "own_table m n i \<equiv> private_table i (phys m n i)"

abbreviation table_at :: "mmu \<Rightarrow> u32 \<Rightarrow> nat \<Rightarrow> u32" where
  "table_at m n i \<equiv> page_base (phys m n i)"

definition tables_apart :: "mmu \<Rightarrow> u32 \<Rightarrow> u32 \<Rightarrow> bool" where
  "tables_apart m d n \<longleftrightarrow> (\<forall>i<1024. own_table m n i \<longrightarrow> table_at m n i \<noteq> d \<and> table_at m n i \<noteq> n \<and>
     (\<forall>i'<1024. own_table m n i' \<longrightarrow> table_at m n i \<noteq> table_at m d i' \<and> (table_at m n i = table_at m n i' \<longrightarrow> i = i')))"

lemma tables_apartD:
  assumes "tables_apart m d n" "i < 1024" "own_table m n i"
  shows "table_at m n i \<noteq> d" "table_at m n i \<noteq> n"
    "i' < 1024 \<Longrightarrow> own_table m n i' \<Longrightarrow> table_at m n i \<noteq> table_at m d i'"
    "i' < 1024 \<Longrightarrow> own_table m n i' \<Longrightarrow> table_at m n i = table_at m n i' \<Longrightarrow> i = i'"
  using assms unfolding tables_apart_def by blast+

definition total_uses :: "mmu \<Rightarrow> u32 \<Rightarrow> u32 \<Rightarrow> nat \<Rightarrow> u32 \<Rightarrow> nat" where
  "total_uses m d n k q = (\<Sum>i<k. if own_table m n i then frame_uses m (table_at m d i) 1024 q else 0)"

lemma frame_uses_cong: "(\<And>j. j < k \<Longrightarrow> phys m' s j = phys m s j) \<Longrightarrow> frame_uses m' s k q = frame_uses m s k q"
  unfolding frame_uses_def by (rule arg_cong [where f = card]) auto

lemma retain_tables:
  assumes "tables_apart m d n" "mmu_ok m" "k \<le> 1024" "try_all (retain_table d n) [0..<k] m = (True, m')"
  shows "mmu_ok m' \<and> same_regs m m' \<and>
    (\<forall>i<k. own_table m n i \<longrightarrow> (\<forall>j<1024. phys m' (table_at m n i) j =
       (if bit (phys m (table_at m d i) j) 0 then phys m (table_at m d i) j else phys m (table_at m n i) j))) \<and>
    (\<forall>q. (\<forall>i<k. own_table m n i \<longrightarrow> q \<noteq> table_at m n i) \<longrightarrow> phys m' q = phys m q) \<and>
    (\<forall>q. mmu_refs m' q = mmu_refs m q + total_uses m d n k q)"
  using assms(3,4)
proof (induction k arbitrary: m')
  case 0
  then show ?case using assms(2) by (simp add: total_uses_def)
next
  case (Suc k)
  obtain m1 where m1: "try_all (retain_table d n) [0..<k] m = (True, m1)" and st: "retain_table d n k m1 = (True, m')"
    using Suc.prems(2) by (rule try_all_Suc)
  have k: "k < 1024" using Suc.prems(1) by simp
  note ih = Suc.IH [OF less_imp_le [OF k] m1]
  have kept: "phys m1 q = phys m q" if "\<forall>i<k. own_table m n i \<longrightarrow> q \<noteq> table_at m n i" for q
    using ih that by blast
  have dn: "phys m1 d = phys m d" "phys m1 n = phys m n"
    using kept [of d] kept [of n] tables_apartD(1,2) [OF assms(1)] k by (metis less_trans)+
  show ?case
  proof (cases "own_table m n k")
    case False
    then have "m' = m1" using st dn by (simp add: retain_table_def)
    then show ?thesis using ih False by (auto simp: less_Suc_eq total_uses_def)
  next
    case True
    let ?s = "table_at m d k" and ?t = "table_at m n k"
    have st': "try_all (retain_page ?s ?t) [0..<1024] m1 = (True, m')"
      using st dn True by (simp add: retain_table_def PAGES_PER_TABLE_def)
    have ne: "?s \<noteq> ?t" using tables_apartD(3) [OF assms(1) k True k True] by simp
    have "mmu_ok m1" using ih by blast
    note r = retain_pages [OF ne this st']
    have far: "?t \<noteq> table_at m n i" "?s \<noteq> table_at m n i" if "i < k" "own_table m n i" for i
      using tables_apartD(4) [OF assms(1) _ that(2) k True] tables_apartD(3) [OF assms(1) _ that(2) k True] that(1) k by fastforce+
    have s1: "phys m1 ?s = phys m ?s" and t1: "phys m1 ?t = phys m ?t"
      by (rule kept, use far in blast)+
    have fu: "frame_uses m1 ?s 1024 q = frame_uses m ?s 1024 q" for q by (rule frame_uses_cong) (simp add: s1)
    have other: "phys m' q = phys m1 q" if "q \<noteq> ?t" for q using r that by (simp add: fun_eq_iff)
    have "phys m' (table_at m n i) j = (if bit (phys m (table_at m d i) j) 0 then phys m (table_at m d i) j else phys m (table_at m n i) j)"
      if "i < Suc k" "own_table m n i" "j < 1024" for i j
    proof (cases "i = k")
      case True
      then show ?thesis using r that s1 t1 by simp
    next
      case False
      then have i: "i < k" using that(1) by simp
      then have "table_at m n i \<noteq> ?t" using tables_apartD(4) [OF assms(1) _ that(2) k True] k by auto
      then show ?thesis using other ih i that by simp
    qed
    moreover have "phys m' q = phys m q" if "\<forall>i<Suc k. own_table m n i \<longrightarrow> q \<noteq> table_at m n i" for q
      using that True other [of q] kept [of q] by simp
    moreover have "mmu_refs m' q = mmu_refs m q + total_uses m d n (Suc k) q" for q
      using r ih fu True by (simp add: total_uses_def)
    moreover have "mmu_ok m'" "same_regs m m'" using r ih same_regs_trans by blast+
    ultimately show ?thesis by blast
  qed
qed

lemma commit_tables:
  fixes m :: mmu
  assumes "tables_apart m d n" "k \<le> 1024"
    and src: "\<And>i i'. i < 1024 \<Longrightarrow> i' < 1024 \<Longrightarrow> own_table m n i \<Longrightarrow> own_table m n i' \<Longrightarrow> table_at m d i = table_at m d i' \<Longrightarrow> i = i'"
    and dir: "\<And>i. i < 1024 \<Longrightarrow> own_table m n i \<Longrightarrow> table_at m d i \<noteq> d \<and> table_at m d i \<noteq> n"
    and copy: "\<And>i j. i < 1024 \<Longrightarrow> own_table m n i \<Longrightarrow> j < 1024 \<Longrightarrow> bit (phys m (table_at m d i) j) 0 \<Longrightarrow>
      phys m (table_at m n i) j = phys m (table_at m d i) j"
  defines "m' \<equiv> for_loop 0 k (commit_table d n) m"
  shows "mmu_frames m' = mmu_frames m \<and> same_regs m m' \<and>
    (\<forall>i<k. own_table m n i \<longrightarrow> (\<forall>j<1024. phys m' (table_at m d i) j = cow_entry (phys m (table_at m d i) j) \<and>
       phys m' (table_at m n i) j = (if bit (phys m (table_at m d i) j) 0 then cow_entry (phys m (table_at m d i) j)
         else phys m (table_at m n i) j))) \<and>
    (\<forall>q. (\<forall>i<k. own_table m n i \<longrightarrow> q \<noteq> table_at m n i \<and> q \<noteq> table_at m d i) \<longrightarrow> phys m' q = phys m q)"
  using assms(2) unfolding m'_def
proof (induction k)
  case 0
  then show ?case by (simp add: for_loop_done)
next
  case (Suc k)
  let ?m1 = "for_loop 0 k (commit_table d n) m"
  have k: "k < 1024" using Suc.prems by simp
  note ih = Suc.IH [OF less_imp_le [OF k]]
  have kept: "phys ?m1 q = phys m q" if "\<forall>i<k. own_table m n i \<longrightarrow> q \<noteq> table_at m n i \<and> q \<noteq> table_at m d i" for q
    using ih that by blast
  have dn: "phys ?m1 d = phys m d" "phys ?m1 n = phys m n"
    using kept [of d] kept [of n] tables_apartD(1,2) [OF assms(1)] dir k by (metis less_trans)+
  show ?case
  proof (cases "own_table m n k")
    case False
    then have "for_loop 0 (Suc k) (commit_table d n) m = ?m1" using dn by (simp add: for_loop_last commit_table_def)
    then show ?thesis using ih False by (auto simp: less_Suc_eq)
  next
    case True
    let ?s = "table_at m d k" and ?t = "table_at m n k"
    have m': "for_loop 0 (Suc k) (commit_table d n) m = for_loop 0 1024 (commit_page ?s ?t) ?m1"
      using dn True by (simp add: for_loop_last commit_table_def PAGES_PER_TABLE_def)
    have ne: "?s \<noteq> ?t" using tables_apartD(3) [OF assms(1) k True k True] by simp
    note c = commit_pages [OF ne, of 1024 ?m1, folded m']
    let ?m' = "for_loop 0 (Suc k) (commit_table d n) m"
    have far: "table_at m n i \<noteq> ?t" "table_at m n i \<noteq> ?s" "table_at m d i \<noteq> ?t" "table_at m d i \<noteq> ?s"
      if "i < k" "own_table m n i" for i
      using tables_apartD(4) [OF assms(1) _ that(2) k True] tables_apartD(3) [OF assms(1) _ that(2) k True]
        tables_apartD(3) [OF assms(1) k True _ that(2)] src [of i k] that k True by fastforce+
    have s1: "phys ?m1 ?s = phys m ?s" "phys ?m1 ?t = phys m ?t" by (rule kept, use far in metis)+
    have other: "phys ?m' q = phys ?m1 q" if "q \<noteq> ?s" "q \<noteq> ?t" for q using c that by (simp add: fun_eq_iff)
    have "phys ?m' (table_at m d i) j = cow_entry (phys m (table_at m d i) j) \<and>
        phys ?m' (table_at m n i) j = (if bit (phys m (table_at m d i) j) 0 then cow_entry (phys m (table_at m d i) j)
          else phys m (table_at m n i) j)"
      if "i < Suc k" "own_table m n i" "j < 1024" for i j
    proof (cases "i = k")
      case True
      then show ?thesis using c that s1 copy [OF k, of j] \<open>own_table m n k\<close>
        by (auto simp: cow_entry_def user_page_bits)
    next
      case False
      then have "i < k" using that(1) by simp
      then show ?thesis using other far [of i] ih that by simp
    qed
    moreover have "phys ?m' q = phys m q" if "\<forall>i<Suc k. own_table m n i \<longrightarrow> q \<noteq> table_at m n i \<and> q \<noteq> table_at m d i" for q
      using that True other [of q] kept [of q] by simp
    moreover have "mmu_frames ?m' = mmu_frames m" "same_regs m ?m'" using c ih same_regs_trans by auto
    ultimately show ?thesis by blast
  qed
qed

section \<open>The new tables\<close>

lemma page_base_with_flags: "page_aligned p \<Longrightarrow> page_base (p OR (e AND 0xFFF)) = p"
  by (rule page_base_or) (auto simp: entry_bits)

lemma bit_with_flags: "page_aligned p \<Longrightarrow> b < 12 \<Longrightarrow> bit (p OR (e AND 0xFFF)) b = bit e b"
  by (simp add: entry_bits page_aligned_bits)

text \<open>The table that the copy gets for entry \<open>i\<close>: fresh, and still empty.\<close>

definition fresh_table :: "mmu \<Rightarrow> mmu \<Rightarrow> u32 \<Rightarrow> u32 \<Rightarrow> nat \<Rightarrow> bool" where
  "fresh_table m m' d n i \<longleftrightarrow> (let t = table_at m' n i in page_aligned t \<and> mmu_refs m t = 0 \<and> mmu_refs m' t = 1 \<and>
     phys m' n i = t OR (phys m d i AND 0xFFF) \<and> (\<forall>j<1024. phys m' t j = 2))"

lemma fresh_table_own: "fresh_table m m' d n i \<Longrightarrow> own_table m' n i \<longleftrightarrow> own_table m d i"
proof -
  assume f: "fresh_table m m' d n i"
  have "bit (phys m' n i) b = bit (phys m d i) b" if "b < 12" for b
    using bit_with_flags [OF _ that, of "table_at m' n i" "phys m d i"] f by (metis fresh_table_def)
  then show ?thesis by (simp add: private_table_bits)
qed

lemma clone_tables:
  assumes "mmu_ok m" "0 < mmu_refs m n" "0 < mmu_refs m d" "d \<noteq> n" "\<And>i. i < 1024 \<Longrightarrow> phys m n i = 2"
    "k \<le> 1024" "try_all (clone_table d n) [0..<k] m = (True, m')"
  shows "(mmu_ok m' \<and> same_regs m m') \<and>
    (\<forall>q. 0 < mmu_refs m q \<longrightarrow> mmu_refs m' q = mmu_refs m q \<and> (q \<noteq> n \<longrightarrow> phys m' q = phys m q)) \<and>
    (\<forall>i. k \<le> i \<and> i < 1024 \<longrightarrow> phys m' n i = 2) \<and>
    (\<forall>i<k. if own_table m d i then fresh_table m m' d n i else phys m' n i = (if bit (phys m d i) 0 then phys m d i else 2)) \<and>
    (\<forall>i i'. i < k \<and> i' < k \<and> own_table m d i \<and> own_table m d i' \<and> table_at m' n i = table_at m' n i' \<longrightarrow> i = i')"
  using assms(6,7)
proof (induction k arbitrary: m')
  case 0
  then show ?case using assms(1,5) by simp
next
  case (Suc k)
  obtain m1 where m1: "try_all (clone_table d n) [0..<k] m = (True, m1)" and st: "clone_table d n k m1 = (True, m')"
    using Suc.prems(2) by (rule try_all_Suc)
  have k: "k < 1024" using Suc.prems(1) by simp
  note ih = Suc.IH [OF less_imp_le [OF k] m1]
  have ok: "mmu_ok m1" "same_regs m m1" using ih by blast+
  have kept: "mmu_refs m1 q = mmu_refs m q" "q \<noteq> n \<Longrightarrow> phys m1 q = phys m q" if "0 < mmu_refs m q" for q
    using ih that by blast+
  have tail: "phys m1 n i = 2" if "k \<le> i" "i < 1024" for i using ih that by blast
  have tabs: "if own_table m d i then fresh_table m m1 d n i else phys m1 n i = (if bit (phys m d i) 0 then phys m d i else 2)"
    if "i < k" for i using ih that by blast
  have inj: "i = i'" if "i < k" "i' < k" "own_table m d i" "own_table m d i'" "table_at m1 n i = table_at m1 n i'" for i i'
    using ih that by blast
  let ?e = "phys m d k"
  have e: "phys m1 d k = ?e" using kept(2) assms(3,4) by simp
  show ?case
  proof (cases "own_table m d k")
    case False
    have m': "m' = (if bit ?e 0 then put_word n k ?e m1 else m1)"
      using st e False by (auto simp: clone_table_def private_table_def and_flag_eq_0)
    have ph: "phys m' q = phys m1 q" if "q \<noteq> n" for q using that by (simp add: m' phys_put_word fun_eq_iff)
    have pn: "phys m' n i = (if i = k then if bit ?e 0 then ?e else 2 else phys m1 n i)" for i
      using tail [of k] k by (simp add: m' phys_put_word)
    have fr: "mmu_refs m' = mmu_refs m1" "mmu_ok m' = mmu_ok m1" "same_regs m1 m'"
      by (simp_all add: m' mmu_refs_def mmu_ok_def same_regs_def)
    have "fresh_table m m' d n i" if "i < k" "own_table m d i" for i
    proof -
      have f: "fresh_table m m1 d n i" using tabs that by simp
      then have "table_at m1 n i \<noteq> n" using assms(2) by (auto simp: fresh_table_def Let_def)
      then show ?thesis using f that pn [of i] ph by (simp add: fresh_table_def Let_def fr(1))
    qed
    then have "if own_table m d i then fresh_table m m' d n i else phys m' n i = (if bit (phys m d i) 0 then phys m d i else 2)"
      if "i < Suc k" for i using that tabs [of i] pn [of i] False by (cases "i = k") simp_all
    moreover have "phys m' n i = 2" if "Suc k \<le> i" "i < 1024" for i using that tail [of i] pn [of i] by simp
    moreover have "i = i'" if "i < Suc k" "i' < Suc k" "own_table m d i" "own_table m d i'" "table_at m' n i = table_at m' n i'" for i i'
      using that inj [of i i'] False pn by (simp add: less_Suc_eq split: if_splits)
    moreover have "mmu_refs m' q = mmu_refs m q \<and> (q \<noteq> n \<longrightarrow> phys m' q = phys m q)" if "0 < mmu_refs m q" for q
      using kept that ph fr(1) by simp
    ultimately show ?thesis using ok fr(2,3) same_regs_trans by blast
  next
    case True
    obtain p m2 where al: "allocator_alloc_page_table m1 = (p, m2)" by force
    note a = alloc_page_table_spec [OF ok(1) al]
    have pd: "bit ?e 0" "\<not> (k \<noteq> 0 \<and> ?e AND PAGE_USER = 0)"
      using True by (simp_all add: private_table_def and_flag_eq_0)
    have p: "p \<noteq> 0" and m': "m' = put_word n k (page_base p OR (phys m2 d k AND 0xFFF)) m2"
      using st e al pd by (auto simp: clone_table_def and_flag_eq_0 Let_def split: if_splits)
    have al': "page_aligned p" "mmu_refs m1 p = 0" "mmu_refs m2 = (mmu_refs m1)(p := 1)" "mmu_ok m2"
        "\<And>q j. phys m2 q j = (if q = p \<and> j < 1024 then 2 else phys m1 q j)" "same_regs m1 m2"
      using a p by (simp_all add: same_regs_def)
    have np: "n \<noteq> p" "d \<noteq> p" "mmu_refs m p = 0" using kept(1) [of n] kept(1) [of d] kept(1) [of p] assms(2,3) al'(2) by auto
    have "phys m2 d k = ?e" using al'(5) np(2) e by simp
    then have m': "m' = put_word n k (p OR (?e AND 0xFFF)) m2" using m' page_base_of_aligned [OF al'(1)] by simp
    have ph: "phys m' q j = (if q = n \<and> j = k then p OR (?e AND 0xFFF) else if q = p \<and> j < 1024 then 2 else phys m1 q j)" for q j
      by (simp add: m' phys_put_word al'(5))
    have fr: "mmu_refs m' = (mmu_refs m1)(p := 1)" "mmu_ok m'" "same_regs m1 m'"
      using al' by (simp_all add: m' mmu_refs_def mmu_ok_def same_regs_def)
    have tk: "table_at m' n k = p" using page_base_with_flags [OF al'(1)] by (simp add: ph)
    have old: "table_at m1 n i \<noteq> p \<and> table_at m1 n i \<noteq> n \<and> table_at m' n i = table_at m1 n i" if "i < k" "own_table m d i" for i
    proof -
      have "mmu_refs m1 (table_at m1 n i) = 1" "mmu_refs m (table_at m1 n i) = 0"
        using tabs [OF that(1)] that(2) by (simp_all add: fresh_table_def Let_def)
      then show ?thesis using al'(2) assms(2) that np(1) by (auto simp: ph)
    qed
    have "fresh_table m m' d n i" if "i < Suc k" "own_table m d i" for i
    proof (cases "i = k")
      case True
      then show ?thesis using tk np al'(1) fr(1) by (simp add: fresh_table_def Let_def ph)
    next
      case False
      then have i: "i < k" using that(1) by simp
      have f: "fresh_table m m1 d n i" using tabs [OF i] that(2) by simp
      have "phys m' n i = phys m1 n i" using i np(1) by (simp add: ph)
      then show ?thesis using f old [OF i that(2)] fr(1) by (simp add: fresh_table_def Let_def ph)
    qed
    moreover have "phys m' n i = (if bit (phys m d i) 0 then phys m d i else 2)" if "i < Suc k" "\<not> own_table m d i" for i
      using that tabs [of i] True np(1) by (cases "i = k") (simp_all add: ph)
    moreover have "phys m' n i = 2" if "Suc k \<le> i" "i < 1024" for i using that tail [of i] np(1) by (simp add: ph)
    moreover have "i = i'" if "i < Suc k" "i' < Suc k" "own_table m d i" "own_table m d i'" "table_at m' n i = table_at m' n i'" for i i'
    proof (cases "i = k \<or> i' = k")
      case True
      then show ?thesis using that tk old [of i] old [of i'] by (auto simp: less_Suc_eq)
    next
      case False
      then have "i < k" "i' < k" using that(1,2) by simp_all
      then show ?thesis using that(3-5) old inj [of i i'] by simp
    qed
    moreover have "mmu_refs m' q = mmu_refs m q \<and> (q \<noteq> n \<longrightarrow> phys m' q = phys m q)" if "0 < mmu_refs m q" for q
      using kept [OF that] that np(3) by (auto simp: fr(1) ph fun_eq_iff)
    ultimately show ?thesis using ok fr(2,3) same_regs_trans by simp
  qed
qed

section \<open>The copied space\<close>

text \<open>
  The state after a successful copy of the directory \<open>d\<close> to the new directory \<open>n\<close>, word by word: kernel tables are
  shared, every other table has a fresh counterpart with the same entries, user entries are copy-on-write in both, and
  each use of a frame is counted once more.
\<close>

definition cloned :: "mmu \<Rightarrow> mmu \<Rightarrow> u32 \<Rightarrow> u32 \<Rightarrow> bool" where
  "cloned m m' d n \<longleftrightarrow> (mmu_ok m' \<and> same_regs m m' \<and> page_aligned n \<and> mmu_refs m n = 0 \<and> 0 < mmu_refs m' n) \<and>
     (\<forall>q. 0 < mmu_refs m q \<and> (\<forall>i<1024. own_table m d i \<longrightarrow> q \<noteq> table_at m d i) \<longrightarrow> phys m' q = phys m q) \<and>
     (\<forall>i<1024. own_table m d i \<longrightarrow> (\<forall>j<1024. phys m' (table_at m d i) j = cow_entry (phys m (table_at m d i) j))) \<and>
     (\<forall>i<1024. if own_table m d i
        then page_aligned (table_at m' n i) \<and> mmu_refs m (table_at m' n i) = 0 \<and> 0 < mmu_refs m' (table_at m' n i) \<and>
          table_at m' n i \<noteq> n \<and> (\<forall>b<12. bit (phys m' n i) b = bit (phys m d i) b) \<and>
          (\<forall>j<1024. phys m' (table_at m' n i) j =
             (if bit (phys m (table_at m d i) j) 0 then cow_entry (phys m (table_at m d i) j) else 2))
        else phys m' n i = (if bit (phys m d i) 0 then phys m d i else 2)) \<and>
     (\<forall>i i'. i < 1024 \<and> i' < 1024 \<and> own_table m d i \<and> own_table m d i' \<and> table_at m' n i = table_at m' n i' \<longrightarrow> i = i') \<and>
     (\<forall>q. 0 < mmu_refs m q \<longrightarrow> mmu_refs m' q = mmu_refs m q + total_uses m d d 1024 q)"

lemma table_of_at: "table_of m d i = Some t \<longleftrightarrow> bit (phys m d i) 0 \<and> t = table_at m d i"
  by (auto simp: table_of_def)

lemma own_table_facts:
  assumes "space_ok m d" "i < 1024" "own_table m d i"
  shows "table_of m d i = Some (table_at m d i)" "0 < mmu_refs m (table_at m d i)" "table_at m d i \<noteq> d"
    "i' < 1024 \<Longrightarrow> own_table m d i' \<Longrightarrow> table_at m d i = table_at m d i' \<Longrightarrow> i = i'"
proof -
  have pd: "pgdir_ok m d" using assms(1) by (simp add: space_ok_def)
  show t: "table_of m d i = Some (table_at m d i)" using assms(3) by (simp add: table_of_at private_table_bits)
  show "0 < mmu_refs m (table_at m d i)" "table_at m d i \<noteq> d"
    using pgdir_okD(1,2) [OF pd t assms(2)] by simp_all
  show "i = i'" if "i' < 1024" "own_table m d i'" "table_at m d i = table_at m d i'"
    using pgdir_okD(6) [OF pd t assms(2) that(1)] that(2,3) by (simp add: table_of_at private_table_bits)
qed

text \<open>The state after the first phase: the directory and its empty tables are there.\<close>

definition copy_begun :: "mmu \<Rightarrow> mmu \<Rightarrow> u32 \<Rightarrow> u32 \<Rightarrow> bool" where
  "copy_begun m m' d n \<longleftrightarrow> (mmu_ok m' \<and> same_regs m m' \<and> page_aligned n \<and> mmu_refs m n = 0 \<and> mmu_refs m' n = 1) \<and>
     (\<forall>q. 0 < mmu_refs m q \<longrightarrow> mmu_refs m' q = mmu_refs m q \<and> phys m' q = phys m q) \<and>
     (\<forall>i<1024. if own_table m d i then fresh_table m m' d n i \<and> table_at m' n i \<noteq> n
        else phys m' n i = (if bit (phys m d i) 0 then phys m d i else 2)) \<and>
     (\<forall>i i'. i < 1024 \<and> i' < 1024 \<and> own_table m d i \<and> own_table m d i' \<and> table_at m' n i = table_at m' n i' \<longrightarrow> i = i')"

lemma clone_begins:
  assumes sp: "space_ok m d" and al: "allocator_alloc_page_table m = (n, m0)" "n \<noteq> 0"
    and c: "try_all (clone_table d n) [0..<1024] m0 = (True, m1)"
  shows "copy_begun m m1 d n"
proof -
  have mok: "mmu_ok m" and dref: "0 < mmu_refs m d" using sp by (simp_all add: space_ok_def pgdir_ok_def)
  have a: "mmu_ok m0" "same_regs m m0" "page_aligned n" "mmu_refs m n = 0" "mmu_refs m0 = (mmu_refs m)(n := 1)"
      "\<And>q j. phys m0 q j = (if q = n \<and> j < 1024 then 2 else phys m q j)"
    using alloc_page_table_spec [OF mok al(1)] al(2) by (simp_all add: same_regs_def)
  have dn: "d \<noteq> n" using dref a(4) by auto
  have p0: "phys m0 q = phys m q" if "q \<noteq> n" for q using that by (simp add: a(6) fun_eq_iff)
  have "(mmu_ok m1 \<and> same_regs m0 m1) \<and>
    (\<forall>q. 0 < mmu_refs m0 q \<longrightarrow> mmu_refs m1 q = mmu_refs m0 q \<and> (q \<noteq> n \<longrightarrow> phys m1 q = phys m0 q)) \<and>
    (\<forall>i. 1024 \<le> i \<and> i < 1024 \<longrightarrow> phys m1 n i = 2) \<and>
    (\<forall>i<1024. if own_table m0 d i then fresh_table m0 m1 d n i else phys m1 n i = (if bit (phys m0 d i) 0 then phys m0 d i else 2)) \<and>
    (\<forall>i i'. i < 1024 \<and> i' < 1024 \<and> own_table m0 d i \<and> own_table m0 d i' \<and> table_at m1 n i = table_at m1 n i' \<longrightarrow> i = i')"
    using a dn dref c by (intro clone_tables) simp_all
  then have p1: "mmu_ok m1" "same_regs m0 m1" "\<And>q. 0 < mmu_refs m0 q \<Longrightarrow> mmu_refs m1 q = mmu_refs m0 q"
      "\<And>q. 0 < mmu_refs m0 q \<Longrightarrow> q \<noteq> n \<Longrightarrow> phys m1 q = phys m q"
      "\<And>i. i < 1024 \<Longrightarrow> own_table m d i \<Longrightarrow> fresh_table m0 m1 d n i"
      "\<And>i. i < 1024 \<Longrightarrow> \<not> own_table m d i \<Longrightarrow> phys m1 n i = (if bit (phys m d i) 0 then phys m d i else 2)"
      "\<And>i i'. i < 1024 \<Longrightarrow> i' < 1024 \<Longrightarrow> own_table m d i \<Longrightarrow> own_table m d i' \<Longrightarrow> table_at m1 n i = table_at m1 n i' \<Longrightarrow> i = i'"
    using p0 p0 [OF dn] by (simp_all (no_asm_simp))
  have "fresh_table m m1 d n i \<and> table_at m1 n i \<noteq> n" if "i < 1024" "own_table m d i" for i
  proof -
    have f: "fresh_table m0 m1 d n i" using p1(5) that by blast
    then have z: "mmu_refs m0 (table_at m1 n i) = 0" by (simp add: fresh_table_def Let_def)
    then have "table_at m1 n i \<noteq> n" using a(5) by auto
    then show ?thesis using f z a(5) p0 [OF dn] by (simp add: fresh_table_def Let_def)
  qed
  moreover have "mmu_refs m1 q = mmu_refs m q \<and> phys m1 q = phys m q" if "0 < mmu_refs m q" for q
  proof -
    have "q \<noteq> n" "0 < mmu_refs m0 q" using that a(4,5) by auto
    then show ?thesis using p1(3,4) [of q] a(5) by simp
  qed
  moreover have "mmu_refs m1 n = 1" using p1(3) [of n] a(5) by simp
  ultimately show ?thesis
    unfolding copy_begun_def using a(2-4) p1(1,2,6,7) same_regs_trans by simp
qed

lemma copy_begun_tables:
  assumes sp: "space_ok m d" and b: "copy_begun m m1 d n"
  shows "phys m1 d = phys m d" "d \<noteq> n" "tables_apart m1 d n"
    "i < 1024 \<Longrightarrow> own_table m1 n i = own_table m d i"
    "i < 1024 \<Longrightarrow> own_table m d i \<Longrightarrow> fresh_table m m1 d n i \<and> table_at m1 n i \<noteq> n"
    "i < 1024 \<Longrightarrow> own_table m d i \<Longrightarrow> phys m1 (table_at m d i) = phys m (table_at m d i) \<and> table_at m d i \<noteq> n"
    "i < 1024 \<Longrightarrow> own_table m d i \<Longrightarrow> 0 < mmu_refs m q \<Longrightarrow> q \<noteq> table_at m1 n i"
proof -
  have dref: "0 < mmu_refs m d" using sp by (simp add: space_ok_def pgdir_ok_def)
  have keep: "phys m1 q = phys m q" if "0 < mmu_refs m q" for q using b that unfolding copy_begun_def by blast
  have n0: "mmu_refs m n = 0" using b unfolding copy_begun_def by blast
  show d: "phys m1 d = phys m d" "d \<noteq> n" using keep [OF dref] dref n0 by auto
  show f: "fresh_table m m1 d n i \<and> table_at m1 n i \<noteq> n" if "i < 1024" "own_table m d i" for i
    using b that unfolding copy_begun_def by presburger
  show s: "phys m1 (table_at m d i) = phys m (table_at m d i) \<and> table_at m d i \<noteq> n" if "i < 1024" "own_table m d i" for i
    using own_table_facts(2) [OF sp that] keep [of "table_at m d i"] n0 by auto
  show q: "q \<noteq> table_at m1 n i" if "i < 1024" "own_table m d i" "0 < mmu_refs m q" for i q
    using f [OF that(1,2)] that(3) by (auto simp: fresh_table_def Let_def)
  show own: "own_table m1 n i = own_table m d i" if "i < 1024" for i
  proof (cases "own_table m d i")
    case True
    then show ?thesis using fresh_table_own f [OF that] by blast
  next
    case False
    then have "phys m1 n i = (if bit (phys m d i) 0 then phys m d i else 2)" using b that unfolding copy_begun_def by presburger
    then show ?thesis using False by (auto simp: private_table_bits)
  qed
  have inj: "i = i'" if "i < 1024" "i' < 1024" "own_table m d i" "own_table m d i'" "table_at m1 n i = table_at m1 n i'" for i i'
    using b that unfolding copy_begun_def by blast
  have far: "table_at m1 n i \<noteq> d" "i' < 1024 \<Longrightarrow> own_table m d i' \<Longrightarrow> table_at m1 n i \<noteq> table_at m d i'"
    if "i < 1024" "own_table m d i" for i i'
    using q [OF that dref] q [OF that own_table_facts(2) [OF sp]] by metis+
  show "tables_apart m1 d n"
    unfolding tables_apart_def using f far inj by (simp add: own d(1))
qed

lemma copy_begun_uses:
  assumes sp: "space_ok m d" and b: "copy_begun m m1 d n"
  shows "total_uses m1 d n 1024 q = total_uses m d d 1024 q"
  unfolding total_uses_def
proof (rule sum.cong [OF refl])
  fix i :: nat assume "i \<in> {..<1024}"
  then have i: "i < 1024" by simp
  have "frame_uses m1 (table_at m d i) 1024 q = frame_uses m (table_at m d i) 1024 q" if "own_table m d i"
    using copy_begun_tables(6) [OF sp b i that] by (intro frame_uses_cong) simp
  then show "(if own_table m1 n i then frame_uses m1 (table_at m1 d i) 1024 q else 0) =
      (if own_table m d i then frame_uses m (table_at m d i) 1024 q else 0)"
    using copy_begun_tables(1,4) [OF sp b] i by simp
qed

text \<open>The second phase fills the tables; the third protects the entries of both spaces.\<close>

lemma clone_fills:
  assumes sp: "space_ok m d" and b: "copy_begun m m1 d n" and r: "try_all (retain_table d n) [0..<1024] m1 = (True, m2)"
  shows "mmu_ok m2 \<and> same_regs m m2 \<and> phys m2 d = phys m d \<and> phys m2 n = phys m1 n \<and> tables_apart m2 d n \<and>
    (\<forall>q. mmu_refs m2 q = mmu_refs m1 q + total_uses m d d 1024 q) \<and>
    (\<forall>q. 0 < mmu_refs m q \<longrightarrow> phys m2 q = phys m q) \<and>
    (\<forall>i<1024. own_table m d i \<longrightarrow> (\<forall>j<1024. phys m2 (table_at m1 n i) j =
       (if bit (phys m (table_at m d i) j) 0 then phys m (table_at m d i) j else 2)))"
proof -
  note t = copy_begun_tables [OF sp b]
  have ok: "mmu_ok m1" "same_regs m m1" using b unfolding copy_begun_def by blast+
  note r2 = retain_tables [OF t(3) ok(1) order_refl r]
  have keep2: "phys m2 q = phys m1 q" if "\<And>i. i < 1024 \<Longrightarrow> own_table m d i \<Longrightarrow> q \<noteq> table_at m1 n i" for q
    using r2 that t(4) by blast
  have n2: "phys m2 n = phys m1 n" using keep2 [of n] t(5) by metis
  have k: "phys m2 q = phys m q" if "0 < mmu_refs m q" for q
    using keep2 [of q] t(7) [OF _ _ that] b that unfolding copy_begun_def by metis
  have d2: "phys m2 d = phys m d" using k sp by (simp add: space_ok_def pgdir_ok_def)
  have "phys m2 (table_at m1 n i) j = (if bit (phys m (table_at m d i) j) 0 then phys m (table_at m d i) j else 2)"
    if "i < 1024" "own_table m d i" "j < 1024" for i j
  proof -
    have "phys m1 (table_at m1 n i) j = 2" using t(5) [OF that(1,2)] that(3) by (simp add: fresh_table_def Let_def)
    then show ?thesis using r2 that t(1,4) t(6) [OF that(1,2)] by simp
  qed
  moreover have "tables_apart m2 d n" using t(3) unfolding tables_apart_def by (simp add: d2 n2 t(1))
  moreover have "mmu_ok m2" "same_regs m m2" using r2 ok same_regs_trans by blast+
  moreover have "mmu_refs m2 q = mmu_refs m1 q + total_uses m d d 1024 q" for q
    using r2 copy_begun_uses [OF sp b] by simp
  ultimately show ?thesis using n2 k d2 by blast
qed

lemma clone_protects:
  assumes sp: "space_ok m d" and b: "copy_begun m m1 d n" and r: "try_all (retain_table d n) [0..<1024] m1 = (True, m2)"
  defines "m' \<equiv> for_loop 0 1024 (commit_table d n) m2"
  shows "mmu_frames m' = mmu_frames m2 \<and> same_regs m2 m' \<and> phys m' n = phys m1 n \<and>
    (\<forall>i<1024. own_table m d i \<longrightarrow> (\<forall>j<1024. phys m' (table_at m d i) j = cow_entry (phys m (table_at m d i) j) \<and>
       phys m' (table_at m1 n i) j = (if bit (phys m (table_at m d i) j) 0 then cow_entry (phys m (table_at m d i) j) else 2))) \<and>
    (\<forall>q. 0 < mmu_refs m q \<and> (\<forall>i<1024. own_table m d i \<longrightarrow> q \<noteq> table_at m d i) \<longrightarrow> phys m' q = phys m q)"
proof -
  note t = copy_begun_tables [OF sp b]
  note f = clone_fills [OF sp b r]
  have d2: "phys m2 d = phys m d" "phys m2 n = phys m1 n" and apart2: "tables_apart m2 d n" using f by blast+
  have own2: "own_table m2 n i = own_table m d i" if "i < 1024" for i using t(4) [OF that] d2 by simp
  have src: "phys m2 (table_at m d i) = phys m (table_at m d i)" if "i < 1024" "own_table m d i" for i
    using f own_table_facts(2) [OF sp that] by blast
  have new: "phys m2 (table_at m1 n i) j = (if bit (phys m (table_at m d i) j) 0 then phys m (table_at m d i) j else 2)"
    if "i < 1024" "own_table m d i" "j < 1024" for i j using f that by blast
  have c: "mmu_frames m' = mmu_frames m2 \<and> same_regs m2 m' \<and>
    (\<forall>i<1024. own_table m2 n i \<longrightarrow> (\<forall>j<1024. phys m' (table_at m2 d i) j = cow_entry (phys m2 (table_at m2 d i) j) \<and>
       phys m' (table_at m2 n i) j = (if bit (phys m2 (table_at m2 d i) j) 0 then cow_entry (phys m2 (table_at m2 d i) j)
         else phys m2 (table_at m2 n i) j))) \<and>
    (\<forall>q. (\<forall>i<1024. own_table m2 n i \<longrightarrow> q \<noteq> table_at m2 n i \<and> q \<noteq> table_at m2 d i) \<longrightarrow> phys m' q = phys m2 q)"
    unfolding m'_def
  proof (rule commit_tables [OF apart2 order_refl])
    fix i i' :: nat assume "i < 1024" "i' < 1024" "own_table m2 n i" "own_table m2 n i'" "table_at m2 d i = table_at m2 d i'"
    then show "i = i'" using own_table_facts(4) [OF sp] own2 d2 by simp
  next
    fix i :: nat assume "i < 1024" "own_table m2 n i"
    then show "table_at m2 d i \<noteq> d \<and> table_at m2 d i \<noteq> n" using own_table_facts(3) [OF sp] t(6) own2 d2 by simp
  next
    fix i j :: nat assume "i < 1024" "own_table m2 n i" "j < 1024" "bit (phys m2 (table_at m2 d i) j) 0"
    then show "phys m2 (table_at m2 n i) j = phys m2 (table_at m2 d i) j" using new src own2 d2 by simp
  qed
  have keep: "phys m' q = phys m2 q" if "\<And>i. i < 1024 \<Longrightarrow> own_table m d i \<Longrightarrow> q \<noteq> table_at m1 n i \<and> q \<noteq> table_at m d i" for q
    using c that own2 d2 by simp
  have "phys m' n = phys m1 n" using keep [of n] t(5,6) d2(2) by metis
  moreover have "phys m' q = phys m q" if "0 < mmu_refs m q" "\<forall>i<1024. own_table m d i \<longrightarrow> q \<noteq> table_at m d i" for q
    using keep [of q] t(7) [OF _ _ that(1)] that f by metis
  moreover have "phys m' (table_at m d i) j = cow_entry (phys m (table_at m d i) j)"
      "phys m' (table_at m1 n i) j = (if bit (phys m (table_at m d i) j) 0 then cow_entry (phys m (table_at m d i) j) else 2)"
    if "i < 1024" "own_table m d i" "j < 1024" for i j
    using c that own2 d2 src [OF that(1,2)] new [OF that] by simp_all
  ultimately show ?thesis using c by blast
qed

lemma clone_directory_cloned:
  assumes sp: "space_ok m d" and d: "d = page_base cr3" and r: "paging_clone_directory cr3 m = (n, m')" "n \<noteq> 0"
  shows "cloned m m' d n"
proof -
  obtain n0 m0 where al: "allocator_alloc_page_table m = (n0, m0)" by force
  obtain ok1 m1 where c1: "try_all (clone_table d n0) [0..<1024] m0 = (ok1, m1)" by force
  obtain ok2 m2 where c2: "try_all (retain_table d n0) [0..<1024] m1 = (ok2, m2)" by force
  have n: "n0 = n" "ok1 = True" "ok2 = True" "m' = for_loop 0 1024 (commit_table d n) m2"
    using r al c1 c2 by (auto simp: paging_clone_directory_def Let_def d [symmetric] TABLES_PER_DIR_def split: if_splits)
  have b: "copy_begun m m1 d n" using clone_begins [OF sp] al c1 r(2) n by simp
  note f = clone_fills [OF sp b c2 [unfolded n]]
  note p = clone_protects [OF sp b c2 [unfolded n], folded n(4)]
  have pn: "phys m' n = phys m1 n" using p by blast
  have refs: "mmu_refs m' q = mmu_refs m1 q + total_uses m d d 1024 q" for q using f p by (simp add: mmu_refs_def)
  have regs: "mmu_ok m'" "same_regs m m'"
  proof -
    have "mmu_ok m2" "mmu_frames m' = mmu_frames m2" "same_regs m m2" "same_regs m2 m'" using f p by blast+
    then show "mmu_ok m'" "same_regs m m'" using same_regs_trans by (simp_all add: mmu_ok_def)
  qed
  have dir: "page_aligned n" "mmu_refs m n = 0" "mmu_refs m1 n = 1"
      "\<And>q. 0 < mmu_refs m q \<Longrightarrow> mmu_refs m1 q = mmu_refs m q"
      "\<And>i. i < 1024 \<Longrightarrow> \<not> own_table m d i \<Longrightarrow> phys m1 n i = (if bit (phys m d i) 0 then phys m d i else 2)"
      "\<And>i i'. i < 1024 \<Longrightarrow> i' < 1024 \<Longrightarrow> own_table m d i \<Longrightarrow> own_table m d i' \<Longrightarrow> table_at m1 n i = table_at m1 n i' \<Longrightarrow> i = i'"
    using b unfolding copy_begun_def by presburger+
  have tab: "page_aligned (table_at m' n i) \<and> mmu_refs m (table_at m' n i) = 0 \<and> 0 < mmu_refs m' (table_at m' n i) \<and>
      table_at m' n i \<noteq> n \<and> (\<forall>b<12. bit (phys m' n i) b = bit (phys m d i) b)" if "i < 1024" "own_table m d i" for i
  proof -
    have fr: "fresh_table m m1 d n i" "table_at m1 n i \<noteq> n" using copy_begun_tables(5) [OF sp b that] by blast+
    then have "page_aligned (table_at m1 n i)" "phys m1 n i = table_at m1 n i OR (phys m d i AND 0xFFF)"
      unfolding fresh_table_def Let_def by blast+
    then have "bit (phys m1 n i) b = bit (phys m d i) b" if "b < 12" for b using bit_with_flags that by metis
    then show ?thesis using fr refs pn by (simp add: fresh_table_def Let_def)
  qed
  have tables: "\<forall>i<1024. if own_table m d i
        then page_aligned (table_at m' n i) \<and> mmu_refs m (table_at m' n i) = 0 \<and> 0 < mmu_refs m' (table_at m' n i) \<and>
          table_at m' n i \<noteq> n \<and> (\<forall>b<12. bit (phys m' n i) b = bit (phys m d i) b) \<and>
          (\<forall>j<1024. phys m' (table_at m' n i) j =
             (if bit (phys m (table_at m d i) j) 0 then cow_entry (phys m (table_at m d i) j) else 2))
        else phys m' n i = (if bit (phys m d i) 0 then phys m d i else 2)"
    using tab p dir(5) pn by simp
  have "mmu_refs m' q = mmu_refs m q + total_uses m d d 1024 q" if "0 < mmu_refs m q" for q
    using refs dir(4) [OF that] by simp
  moreover have "0 < mmu_refs m' n" using refs dir(3) by simp
  ultimately show ?thesis
    unfolding cloned_def using regs dir(1,2,6) tables p pn by simp
qed

section \<open>Two address spaces\<close>

lemma clonedD:
  assumes "cloned m m' d n"
  shows "mmu_ok m'" "same_regs m m'" "page_aligned n" "mmu_refs m n = 0" "0 < mmu_refs m' n"
    "0 < mmu_refs m q \<Longrightarrow> \<forall>i<1024. own_table m d i \<longrightarrow> q \<noteq> table_at m d i \<Longrightarrow> phys m' q = phys m q"
    "i < 1024 \<Longrightarrow> own_table m d i \<Longrightarrow> j < 1024 \<Longrightarrow> phys m' (table_at m d i) j = cow_entry (phys m (table_at m d i) j)"
    "i < 1024 \<Longrightarrow> own_table m d i \<Longrightarrow> page_aligned (table_at m' n i) \<and> mmu_refs m (table_at m' n i) = 0 \<and>
       0 < mmu_refs m' (table_at m' n i) \<and> table_at m' n i \<noteq> n"
    "i < 1024 \<Longrightarrow> own_table m d i \<Longrightarrow> b < 12 \<Longrightarrow> bit (phys m' n i) b = bit (phys m d i) b"
    "i < 1024 \<Longrightarrow> own_table m d i \<Longrightarrow> j < 1024 \<Longrightarrow> phys m' (table_at m' n i) j =
       (if bit (phys m (table_at m d i) j) 0 then cow_entry (phys m (table_at m d i) j) else 2)"
    "i < 1024 \<Longrightarrow> \<not> own_table m d i \<Longrightarrow> phys m' n i = (if bit (phys m d i) 0 then phys m d i else 2)"
    "i < 1024 \<Longrightarrow> i' < 1024 \<Longrightarrow> own_table m d i \<Longrightarrow> own_table m d i' \<Longrightarrow> table_at m' n i = table_at m' n i' \<Longrightarrow> i = i'"
    "0 < mmu_refs m q \<Longrightarrow> mmu_refs m' q = mmu_refs m q + total_uses m d d 1024 q"
  using assms unfolding cloned_def by presburger+

lemma cloned_parent_dir:
  assumes sp: "space_ok m d" and c: "cloned m m' d n"
  shows "phys m' d = phys m d" "d \<noteq> n"
proof -
  have "0 < mmu_refs m d" using sp by (simp add: space_ok_def pgdir_ok_def)
  then show "phys m' d = phys m d" "d \<noteq> n"
    using clonedD(6) [OF c, of d] clonedD(4) [OF c] own_table_facts(3) [OF sp] by (metis, auto)
qed

lemma cloned_kernel_table:
  assumes sp: "space_ok m d" and c: "cloned m m' d n" and i: "i < 1024" "bit (phys m d i) 0" "\<not> own_table m d i"
  shows "phys m' (table_at m d i) = phys m (table_at m d i)" "0 < mmu_refs m (table_at m d i)"
    "j < 1024 \<Longrightarrow> \<not> user_page (phys m (table_at m d i) j)"
proof -
  have pd: "pgdir_ok m d" using sp by (simp add: space_ok_def)
  have t: "table_of m d i = Some (table_at m d i)" using i(2) by (simp add: table_of_at)
  show r: "0 < mmu_refs m (table_at m d i)" using pgdir_okD(2) [OF pd t i(1)] .
  have "table_at m d i \<noteq> table_at m d i'" if "i' < 1024" "own_table m d i'" for i'
    using pgdir_okD(6) [OF pd t i(1) that(1)] that(2) i(3) by (auto simp: table_of_at private_table_bits)
  then show "phys m' (table_at m d i) = phys m (table_at m d i)" using clonedD(6) [OF c r] by blast
  show "\<not> user_page (phys m (table_at m d i) j)" if "j < 1024"
    using pgdir_okD(5) [OF pd t i(1) that] i by (auto simp: user_page_bits private_table_bits)
qed

lemma cloned_walk:
  assumes sp: "space_ok m d" and c: "cloned m m' d n"
  shows "walk_entry d v m' = map_option cow_entry (walk_entry d v m)"
    "walk_entry n v m' = map_option cow_entry (walk_entry d v m)"
proof -
  let ?i = "dir_index v" and ?j = "table_index v"
  let ?e = "phys m (table_at m d ?i) ?j"
  note d = cloned_parent_dir [OF sp c]
  have old: "walk_entry d v m = (if bit (phys m d ?i) 0 \<and> bit ?e 0 then Some ?e else None)"
    by (simp add: walk_entry_table table_of_def)
  have two: "\<not> bit (2 :: u32) 0" by simp
  have "walk_entry d v m' = map_option cow_entry (walk_entry d v m) \<and>
      walk_entry n v m' = map_option cow_entry (walk_entry d v m)"
  proof (cases "own_table m d ?i")
    case True
    then have b: "bit (phys m d ?i) 0" by (simp add: private_table_bits)
    moreover have "bit (phys m' n ?i) 0" using b clonedD(9) [OF c index_bounds(1) True, of 0] by simp
    ultimately show ?thesis
      using clonedD(7) [OF c index_bounds(1) True index_bounds(2)] clonedD(10) [OF c index_bounds(1) True index_bounds(2)] two
      by (simp add: old walk_entry_table table_of_def d(1) cow_entry_bit)
  next
    case False
    note n = clonedD(11) [OF c index_bounds(1) False]
    show ?thesis
    proof (cases "bit (phys m d ?i) 0")
      case True
      note k = cloned_kernel_table [OF sp c index_bounds(1) True False]
      have "cow_entry ?e = ?e" using k(3) [OF index_bounds(2)] by (simp add: cow_entry_def)
      then show ?thesis using n True k(1) by (simp add: old walk_entry_table table_of_def d(1))
    next
      case f: False
      then show ?thesis using n two by (simp add: old walk_entry_table table_of_def d(1))
    qed
  qed
  then show "walk_entry d v m' = map_option cow_entry (walk_entry d v m)"
    "walk_entry n v m' = map_option cow_entry (walk_entry d v m)" by simp_all
qed

lemma cloned_user_at:
  assumes sp: "space_ok m d" and c: "cloned m m' d n" and x: "x \<in> {d, n}"
  shows "user_at m' x v e' \<longleftrightarrow> (\<exists>e. user_at m d v e \<and> e' = cow_entry e)" "pages_of m' x q = pages_of m d q"
proof -
  have w: "walk_entry x v m' = map_option cow_entry (walk_entry d v m)" for v using x cloned_walk [OF sp c] by auto
  have b: "bit (cow_entry e) 2 = bit e 2" for e by (simp add: cow_entry_bit)
  have u: "user_at m' x v e' \<longleftrightarrow> (\<exists>e. user_at m d v e \<and> e' = cow_entry e)" for v e'
    by (auto simp: user_at_def w b)
  then show "user_at m' x v e' \<longleftrightarrow> (\<exists>e. user_at m d v e \<and> e' = cow_entry e)" .
  show "pages_of m' x q = pages_of m d q" by (auto simp: pages_of_def u)
qed

lemma user_page_of_walk: "user_at m d v e \<Longrightarrow> user_page e"
  using user_at_present by (simp add: user_page_bits user_at_def)

text \<open>Every page of the space was counted.\<close>

lemma pages_counted:
  assumes sp: "space_ok m d"
  shows "card (pages_of m d q) \<le> total_uses m d d 1024 q"
proof -
  let ?J = "\<lambda>i. {j. j < 1024 \<and> user_page (phys m (table_at m d i) j) \<and> page_base (phys m (table_at m d i) j) = q}"
  let ?I = "{i. i < 1024 \<and> own_table m d i}"
  let ?f = "\<lambda>v. (dir_index v, table_index v)"
  have inj: "inj_on ?f (pages_of m d q)"
  proof (rule inj_onI)
    fix v w assume "v \<in> pages_of m d q" "w \<in> pages_of m d q" "?f v = ?f w"
    then have "page_base v = v" "page_base w = w" "same_page v w"
      by (auto simp: pages_of_def page_base_of_aligned same_page_def)
    then show "v = w" by (simp add: same_page_iff)
  qed
  have sub: "?f ` pages_of m d q \<subseteq> (SIGMA i:?I. ?J i)"
  proof
    fix x assume "x \<in> ?f ` pages_of m d q"
    then obtain v e where v: "x = ?f v" "user_at m d v e" "page_base e = q" by (auto simp: pages_of_def)
    obtain t where t: "table_of m d (dir_index v) = Some t" "phys m t (table_index v) = e" "bit (phys m d (dir_index v)) 2"
      using user_at_facts(1) [OF sp v(2)] by blast
    then have "own_table m d (dir_index v)" "t = table_at m d (dir_index v)" by (auto simp: table_of_at private_table_bits)
    then show "x \<in> (SIGMA i:?I. ?J i)" using v t(2) index_bounds [of v] user_page_of_walk [OF v(2)] by simp
  qed
  have fin: "finite (?J i)" for i by simp
  have "card (pages_of m d q) = card (?f ` pages_of m d q)" by (simp add: card_image [OF inj])
  also have "\<dots> \<le> card (SIGMA i:?I. ?J i)" by (rule card_mono [OF _ sub]) (simp add: fin)
  also have "\<dots> = (\<Sum>i\<in>?I. card (?J i))" by (rule card_SigmaI) simp_all
  also have "\<dots> = (\<Sum>i<1024. if own_table m d i then frame_uses m (table_at m d i) 1024 q else 0)"
    by (simp add: frame_uses_def sum.inter_filter [symmetric] lessThan_def conj_commute)
  finally show ?thesis by (simp add: total_uses_def)
qed

lemma cloned_refs:
  assumes sp: "space_ok m d" and c: "cloned m m' d n"
  shows "mmu_refs m q \<le> mmu_refs m' q" "2 * card (pages_of m d q) \<le> mmu_refs m' q"
proof -
  have "mmu_refs m' q = mmu_refs m q + total_uses m d d 1024 q" if "0 < mmu_refs m q" using clonedD(13) [OF c that] .
  moreover have "card (pages_of m d q) \<le> mmu_refs m q" using space_ok_pages_of [OF sp] .
  ultimately show "mmu_refs m q \<le> mmu_refs m' q" "2 * card (pages_of m d q) \<le> mmu_refs m' q"
    using pages_counted [OF sp, of q] by (cases "mmu_refs m q"; simp)+
qed

lemma cloned_frames_private:
  assumes sp: "space_ok m d" and c: "cloned m m' d n" and x: "x \<in> {d, n}"
  shows "frames_private m' x"
proof -
  have "\<not> bit e' 1" if "user_at m' x v e'" for v e'
    using that user_page_of_walk by (auto simp: cloned_user_at(1) [OF sp c x] cow_entry_bit)
  then show ?thesis
    unfolding frames_private_def cloned_user_at(2) [OF sp c x]
    using space_ok_pages_of [OF sp] cloned_refs(1) [OF sp c] le_trans by blast
qed

lemma cloned_parent:
  assumes sp: "space_ok m d" and c: "cloned m m' d n"
  shows "space_ok m' d"
proof -
  have pd: "pgdir_ok m d" using sp by (simp add: space_ok_def)
  note d = cloned_parent_dir [OF sp c]
  have scr: "kernel_scratch_table m' = kernel_scratch_table m" using clonedD(2) [OF c] by (simp add: same_regs_def)
  have tab: "table_of m' d i = table_of m d i" for i by (simp add: table_of_def d(1))
  have pos: "0 < mmu_refs m' q" if "0 < mmu_refs m q" for q using cloned_refs(1) [OF sp c, of q] that by simp
  have ent: "bit (phys m t j) 0 \<and> bit (phys m t j) 2" if "i < 1024" "table_of m d i = Some t" "j < 1024"
      "bit (phys m' t j) 0 \<and> bit (phys m' t j) 2" for i j t
  proof (cases "own_table m d i")
    case True
    then show ?thesis using that clonedD(7) [OF c that(1) True that(3)] by (simp add: table_of_at cow_entry_low)
  next
    case False
    then show ?thesis using that cloned_kernel_table(1) [OF sp c that(1) _ False] by (auto simp: table_of_at)
  qed
  have "pgdir_ok m' d"
    unfolding pgdir_ok_def tab d(1)
  proof (intro conjI allI impI)
    show "page_aligned d" "0 < mmu_refs m' d" using pd pos by (simp_all add: pgdir_ok_def)
    fix i t assume i: "i < 1024" "table_of m d i = Some t"
    note t = pgdir_okD [OF pd i(2,1)]
    show "t \<noteq> d" "0 < mmu_refs m' t" "bit (phys m d i) 1" using t pos by blast+
    show "bit (phys m d i) 2" if "j < 1024" "bit (phys m' t j) 0 \<and> bit (phys m' t j) 2" for j
      using ent [OF i that] t(5) [OF that(1)] by blast
  next
    fix i j t assume "i < 1024" "j < 1024" "table_of m d i = Some t \<and> table_of m d j = Some t"
    then show "i = j" using pgdir_okD(6) [OF pd, of i t j] by blast
  qed
  moreover have "scratch_ok m' d" using sp pos by (simp add: space_ok_def scratch_ok_def scr tab)
  moreover have "frames_apart m' d"
    unfolding frames_apart_def scr tab
  proof (intro allI impI)
    fix v e' assume "user_at m' d v e'"
    then obtain e where e: "user_at m d v e" "page_base e' = page_base e" using cloned_user_at(1) [OF sp c, of d] by auto
    show "dir_index v < 768 \<and> 0 < mmu_refs m' (page_base e') \<and> page_base e' \<noteq> d \<and>
        page_base e' \<noteq> kernel_scratch_table m \<and> (\<forall>i<1024. table_of m d i \<noteq> Some (page_base e'))"
      unfolding e(2) using user_at_facts(2-) [OF sp e(1)] pos by blast
  qed
  ultimately show ?thesis
    using clonedD(1) [OF c] cloned_frames_private [OF sp c] by (simp add: space_ok_def)
qed

lemma cloned_child_table:
  assumes sp: "space_ok m d" and c: "cloned m m' d n" and i: "i < 1024" "table_of m' n i = Some t"
  shows "if own_table m d i then t = table_at m' n i \<and> mmu_refs m t = 0 \<and> 0 < mmu_refs m' t \<and> t \<noteq> n
    else bit (phys m d i) 0 \<and> t = table_at m d i \<and> 0 < mmu_refs m t \<and> phys m' n i = phys m d i"
proof (cases "own_table m d i")
  case True
  then show ?thesis using clonedD(8) [OF c i(1)] i(2) by (simp add: table_of_at)
next
  case False
  note n = clonedD(11) [OF c i(1) False]
  have "bit (phys m' n i) 0" "t = table_at m' n i" using i(2) by (simp_all add: table_of_at)
  then have "bit (phys m d i) 0" "phys m' n i = phys m d i" using n by (auto split: if_splits)
  then show ?thesis using False cloned_kernel_table(2) [OF sp c i(1)] \<open>t = table_at m' n i\<close> by simp
qed

lemma cloned_child_dir:
  assumes sp: "space_ok m d" and c: "cloned m m' d n"
  shows "pgdir_ok m' n"
  unfolding pgdir_ok_def
proof (intro conjI allI impI)
  have pd: "pgdir_ok m d" using sp by (simp add: space_ok_def)
  show "page_aligned n" "0 < mmu_refs m' n" using clonedD(3,5) [OF c] by simp_all
  fix i t assume i: "i < 1024" "table_of m' n i = Some t"
  note ct = cloned_child_table [OF sp c i]
  have bits: "bit (phys m' n i) b = bit (phys m d i) b" if "b < 12" for b
    using clonedD(9) [OF c i(1) _ that] ct by (auto split: if_splits)
  have s: "table_of m d i = Some (table_at m d i)"
    using bits [of 0] i(2) by (simp add: table_of_at)
  show "t \<noteq> n" "0 < mmu_refs m' t"
    using ct clonedD(4) [OF c] cloned_refs(1) [OF sp c, of t] by (auto split: if_splits)
  show "bit (phys m' n i) 1" using bits pgdir_okD(3) [OF pd s i(1)] by simp
  fix j assume j: "j < 1024" "bit (phys m' t j) 0 \<and> bit (phys m' t j) 2"
  have "bit (phys m (table_at m d i) j) 0 \<and> bit (phys m (table_at m d i) j) 2"
  proof (cases "own_table m d i")
    case True
    then show ?thesis using ct j clonedD(10) [OF c i(1) True j(1)] by (auto simp: cow_entry_low split: if_splits)
  next
    case False
    then show ?thesis using ct j cloned_kernel_table(1) [OF sp c i(1) _ False] by auto
  qed
  then show "bit (phys m' n i) 2" using bits pgdir_okD(5) [OF pd s i(1) j(1)] by simp
next
  have pd: "pgdir_ok m d" using sp by (simp add: space_ok_def)
  fix i j t assume ij: "i < 1024" "j < 1024" "table_of m' n i = Some t \<and> table_of m' n j = Some t"
  have a: "table_of m' n i = Some t" "table_of m' n j = Some t" using ij(3) by simp_all
  note ct = cloned_child_table [OF sp c ij(1) a(1)] cloned_child_table [OF sp c ij(2) a(2)]
  show "i = j"
  proof (cases "own_table m d i")
    case True
    then have "own_table m d j" using ct by (auto split: if_splits)
    then show ?thesis using True ct clonedD(12) [OF c ij(1,2)] by simp
  next
    case False
    then have "\<not> own_table m d j" using ct by (auto split: if_splits)
    then show ?thesis using False ct pgdir_okD(6) [OF pd _ ij(1,2)] by (simp add: table_of_at)
  qed
qed

lemma cloned_child:
  assumes sp: "space_ok m d" and c: "cloned m m' d n" and s: "kernel_scratch_table m \<noteq> 0"
  shows "space_ok m' n"
proof -
  have scr: "kernel_scratch_table m' = kernel_scratch_table m" using clonedD(2) [OF c] by (simp add: same_regs_def)
  have sref: "0 < mmu_refs m (kernel_scratch_table m)" using sp s by (simp add: space_ok_def scratch_ok_def)
  have pos: "0 < mmu_refs m' q" if "0 < mmu_refs m q" for q using cloned_refs(1) [OF sp c, of q] that by simp
  have "table_of m' n i \<noteq> Some (kernel_scratch_table m)" if "i < 768" for i
  proof
    assume t: "table_of m' n i = Some (kernel_scratch_table m)"
    have i: "i < 1024" using that by simp
    have "table_of m d i = Some (kernel_scratch_table m)"
      using cloned_child_table [OF sp c i t] sref by (auto simp: table_of_at split: if_splits)
    then show False using sp that by (simp add: space_ok_def scratch_ok_def)
  qed
  then have "scratch_ok m' n"
    using sref clonedD(4) [OF c] pos by (auto simp: scratch_ok_def scr)
  moreover have "frames_apart m' n"
    unfolding frames_apart_def scr
  proof (intro allI impI)
    fix v e' assume "user_at m' n v e'"
    then obtain e where e: "user_at m d v e" "page_base e' = page_base e" using cloned_user_at(1) [OF sp c, of n] by auto
    note u = user_at_facts(2-) [OF sp e(1)]
    have "table_of m' n i \<noteq> Some (page_base e)" if "i < 1024" for i
      using cloned_child_table [OF sp c that, of "page_base e"] u(4,5) that by (auto simp: table_of_at split: if_splits)
    then show "dir_index v < 768 \<and> 0 < mmu_refs m' (page_base e') \<and> page_base e' \<noteq> n \<and>
        page_base e' \<noteq> kernel_scratch_table m \<and> (\<forall>i<1024. table_of m' n i \<noteq> Some (page_base e'))"
      unfolding e(2) using u pos clonedD(4) [OF c] by auto
  qed
  ultimately show ?thesis
    using clonedD(1) [OF c] cloned_frames_private [OF sp c] cloned_child_dir [OF sp c] by (simp add: space_ok_def)
qed

end
