(* ===== verification/Fork_Isolation.thy ===== *)
theory Fork_Isolation
  imports Fork_Space
begin

text \<open>
  Parent and child after a fork. Both address spaces read the memory the parent had; they share its frames,
  each counted for both and writable through neither. From then on a store of one process, which the processor
  may first have to turn into a copy-on-write fault for \<^verbatim>\<open>vm.c\<close>, changes that byte of its own memory and
  nothing of the other's.
\<close>

section \<open>The memory of a space\<close>

definition view :: "mmu \<Rightarrow> u32 \<Rightarrow> u32 \<Rightarrow> u8 option" where
  "view m d = umem (m\<lparr>active_page_directory := d\<rparr>)"

lemma walk_entry_active [simp]: "walk_entry d v (m\<lparr>active_page_directory := x\<rparr>) = walk_entry d v m"
  by (simp add: walk_entry_def Let_def)

lemma user_at_active [simp]: "user_at (m\<lparr>active_page_directory := x\<rparr>) d v e = user_at m d v e"
  by (simp add: user_at_def)

lemma mmu_refs_active [simp]: "mmu_refs (m\<lparr>active_page_directory := x\<rparr>) = mmu_refs m"
  by (simp add: mmu_refs_def)

lemma table_of_active [simp]: "table_of (m\<lparr>active_page_directory := x\<rparr>) d i = table_of m d i"
  by (simp add: table_of_def)

lemma space_ok_active [simp]: "space_ok (m\<lparr>active_page_directory := x\<rparr>) d = space_ok m d"
  by (simp add: space_ok_def mmu_ok_def pgdir_ok_def scratch_ok_def frames_apart_def frames_private_def pages_of_def)

lemma view_user:
  "user_at m d w e \<Longrightarrow> view m d w = Some (byte_of (phys m (page_base e) (page_offset w div 4)) (page_offset w mod 4))"
  using umem_user [of "m\<lparr>active_page_directory := d\<rparr>" w e] load_byte_user [of "m\<lparr>active_page_directory := d\<rparr>" w e]
  by (simp add: view_def)

lemma view_None: "view m d w = None \<longleftrightarrow> (\<nexists>e. user_at m d w e)"
  by (simp add: view_def umem_None)

lemma view_active [simp]: "view (m\<lparr>active_page_directory := x\<rparr>) d = view m d"
  by (simp add: view_def)

lemma view_own: "active_page_directory m = d \<Longrightarrow> view m d = umem m"
  by (auto simp: view_def)

lemma view_cong:
  assumes "\<And>e'. user_at m' x w e' \<Longrightarrow> \<exists>e. user_at m d w e \<and> (\<forall>j<1024. phys m' (page_base e') j = phys m (page_base e) j)"
    "\<And>e. user_at m d w e \<Longrightarrow> \<exists>e'. user_at m' x w e'"
  shows "view m' x w = view m d w"
proof (cases "\<exists>e'. user_at m' x w e'")
  case True
  then obtain e e' where "user_at m' x w e'" "user_at m d w e" "\<forall>j<1024. phys m' (page_base e') j = phys m (page_base e) j"
    using assms(1) by blast
  then show ?thesis using page_offset_word by (simp add: view_user)
next
  case False
  then show ?thesis using assms(2) view_None [of m' x w] view_None [of m d w] by auto
qed

section \<open>Two spaces that share frames\<close>

text \<open>What one side may change is nothing the other side depends on.\<close>

definition harmless :: "mmu \<Rightarrow> u32 \<Rightarrow> u32 \<Rightarrow> bool" where
  "harmless m y x \<longleftrightarrow>
     (\<forall>i<768. \<forall>t. table_of m y i = Some t \<and> bit (phys m y i) 2 \<longrightarrow> \<not> table_frame m x t) \<and>
     (\<forall>v e. user_at m y v e \<longrightarrow> \<not> table_frame m x (page_base e)) \<and>
     (\<forall>v w e g. user_at m y v e \<and> user_at m x w g \<and> page_base e = page_base g \<longrightarrow> \<not> bit e 1)"

definition twins :: "mmu \<Rightarrow> u32 \<Rightarrow> u32 \<Rightarrow> bool" where
  "twins m d n \<longleftrightarrow> space_ok m d \<and> space_ok m n \<and> d \<noteq> n \<and> harmless m d n \<and> harmless m n d \<and>
     (\<forall>q. card (pages_of m d q) + card (pages_of m n q) \<le> mmu_refs m q)"

text \<open>The pages a process may write, at once or after a copy.\<close>

definition can_write :: "mmu \<Rightarrow> u32 \<Rightarrow> u32 \<Rightarrow> bool" where
  "can_write m d v \<longleftrightarrow> (\<exists>e. user_at m d v e \<and> (bit e 1 \<or> bit e 9))"

text \<open>A step made through the space at \<open>n\<close>.\<close>

definition step_kept :: "mmu \<Rightarrow> mmu \<Rightarrow> u32 \<Rightarrow> u32 \<Rightarrow> bool" where
  "step_kept m m' d n \<longleftrightarrow> twins m' d n \<and> view m' d = view m d \<and> mmu_fault m' = mmu_fault m \<and>
     kernel_scratch_table m' = kernel_scratch_table m \<and> active_page_directory m' = active_page_directory m \<and>
     (\<forall>w. can_write m d w \<longrightarrow> can_write m' d w) \<and> (\<forall>w. can_write m n w \<longrightarrow> can_write m' n w)"

lemma step_kept_trans: "step_kept m m1 d n \<Longrightarrow> step_kept m1 m2 d n \<Longrightarrow> step_kept m m2 d n"
  by (simp add: step_kept_def)

lemma twins_sym: "twins m d n \<Longrightarrow> twins m n d"
  by (auto simp: twins_def add.commute)

lemma twins_active [simp]: "twins (m\<lparr>active_page_directory := x\<rparr>) d n = twins m d n"
  by (simp add: twins_def harmless_def table_frame_def pages_of_def)

lemma cloned_twins:
  assumes sp: "space_ok m d" and c: "cloned m m' d n" and s: "kernel_scratch_table m \<noteq> 0"
  shows "twins m' d n"
proof -
  have pd: "pgdir_ok m d" using sp by (simp add: space_ok_def)
  note okd = cloned_parent [OF sp c] and okn = cloned_child [OF sp c s]
  note d = cloned_parent_dir [OF sp c]
  have scr: "kernel_scratch_table m' = kernel_scratch_table m" using clonedD(2) [OF c] by (simp add: same_regs_def)
  have sref: "0 < mmu_refs m (kernel_scratch_table m)" using sp s by (simp add: space_ok_def scratch_ok_def)
  have tab: "table_of m' d i = table_of m d i" for i by (simp add: table_of_def d(1))
  have live: "0 < mmu_refs m q" if "table_frame m' d q" for q
    using that sref pd pgdir_okD(2) [OF pd] by (auto simp: table_frame_def tab scr pgdir_ok_def)
  have user: "user_at m' d v e = user_at m' n v e" for v e by (simp add: cloned_user_at(1) [OF sp c])
  have ro: "\<not> bit e 1" if "user_at m' d v e" for v e
    using that user_page_of_walk by (auto simp: cloned_user_at(1) [OF sp c] cow_entry_bit)
  have "\<not> table_frame m' n t" if i: "i < 768" "table_of m' d i = Some t" "bit (phys m' d i) 2" for i t
  proof
    assume tf: "table_frame m' n t"
    have i': "i < 1024" using i(1) by simp
    have t: "table_of m d i = Some t" "own_table m d i" "t = table_at m d i"
      using i(2,3) by (auto simp: tab d(1) table_of_at private_table_bits)
    have "t \<noteq> kernel_scratch_table m" using sp i(1) t(1) by (auto simp: space_ok_def scratch_ok_def)
    moreover have pos: "0 < mmu_refs m t" using pgdir_okD(2) [OF pd t(1) i'] .
    then have "t \<noteq> n" using clonedD(4) [OF c] by auto
    ultimately obtain j where j: "j < 1024" "table_of m' n j = Some t" using tf by (auto simp: table_frame_def scr)
    then have "\<not> own_table m d j" "bit (phys m d j) 0" "t = table_at m d j"
      using cloned_child_table [OF sp c j] pos by (auto split: if_splits)
    then show False using pgdir_okD(6) [OF pd t(1) i' j(1)] t(2) by (simp add: table_of_at)
  qed
  then have "harmless m' d n"
    using user_at_facts(3-5) [OF okn] ro unfolding harmless_def user table_frame_def by blast
  moreover have "\<not> table_frame m' d t" if i: "i < 768" "table_of m' n i = Some t" "bit (phys m' n i) 2" for i t
  proof -
    have i': "i < 1024" using i(1) by simp
    have "own_table m d i"
      using cloned_child_table [OF sp c i' i(2)] i(3) by (auto simp: private_table_bits split: if_splits)
    then have "mmu_refs m t = 0" using cloned_child_table [OF sp c i' i(2)] by (metis (full_types))
    then show ?thesis using live by fastforce
  qed
  then have "harmless m' n d"
    using user_at_facts(3-5) [OF okd] ro unfolding harmless_def user [symmetric] table_frame_def by blast
  moreover have "card (pages_of m' d q) + card (pages_of m' n q) \<le> mmu_refs m' q" for q
    using cloned_refs(2) [OF sp c, of q] by (simp add: cloned_user_at(2) [OF sp c])
  ultimately show ?thesis using okd okn d(2) by (simp add: twins_def)
qed

lemma cloned_view:
  assumes sp: "space_ok m d" and c: "cloned m m' d n" and x: "x \<in> {d, n}"
  shows "view m' x = view m d"
proof
  fix w
  show "view m' x w = view m d w"
  proof (rule view_cong)
    fix e' assume "user_at m' x w e'"
    then obtain e where e: "user_at m d w e" "e' = cow_entry e" using cloned_user_at(1) [OF sp c x] by blast
    have "page_base e \<noteq> table_at m d i" if "i < 1024" "own_table m d i" for i
      using user_at_facts(5) [OF sp e(1)] own_table_facts(1) [OF sp that] that(1) by auto
    then have "phys m' (page_base e) = phys m (page_base e)"
      using clonedD(6) [OF c user_at_facts(6) [OF sp e(1)]] by blast
    then show "\<exists>e. user_at m d w e \<and> (\<forall>j<1024. phys m' (page_base e') j = phys m (page_base e) j)"
      using e by auto
  qed (use cloned_user_at(1) [OF sp c x] in blast)
qed

section \<open>A change made through one space\<close>

lemma other_space:
  assumes sp: "space_ok m d" and m': "mmu_ok m'" "kernel_scratch_table m' = kernel_scratch_table m"
    and ph: "\<And>q. 0 < mmu_refs m q \<Longrightarrow> q \<noteq> kernel_scratch_table m \<Longrightarrow>
      table_frame m d q \<or> (\<exists>v e. user_at m d v e \<and> q = page_base e) \<Longrightarrow> phys m' q = phys m q"
    and scr: "\<And>j. phys m' (kernel_scratch_table m) j = phys m (kernel_scratch_table m) j \<or>
      \<not> bit (phys m' (kernel_scratch_table m) j) 0"
    and refs: "\<And>q. 0 < mmu_refs m q \<Longrightarrow> 0 < mmu_refs m' q" "\<And>q. card (pages_of m d q) \<le> mmu_refs m' q"
  shows "space_ok m' d \<and> phys m' d = phys m d \<and> (\<forall>w g. user_at m' d w g = user_at m d w g) \<and> view m' d = view m d"
proof -
  have pd: "pgdir_ok m d" "scratch_ok m d" using sp by (simp_all add: space_ok_def)
  have live: "0 < mmu_refs m q" if "q = d \<or> (\<exists>i<1024. table_of m d i = Some q)" for q
    using that pd(1) pgdir_okD(2) [OF pd(1)] by (auto simp: pgdir_ok_def)
  have tabs: "phys m' q = phys m q" if "q = d \<or> (\<exists>i<1024. table_of m d i = Some q)" "q \<noteq> kernel_scratch_table m" for q
    using that ph [OF live] by (auto simp: table_frame_def)
  have tr: "space_ok m' d \<and> (\<forall>v. dir_index v < 768 \<longrightarrow> walk_entry d v m' = walk_entry d v m)"
    using space_ok_transfer [OF sp m' _ scr] tabs refs by simp
  then have okd: "space_ok m' d" ..
  have u: "user_at m' d w g = user_at m d w g" for w g
    using tr user_at_facts(2) [OF sp, of w g] user_at_facts(2) [OF okd, of w g] by (auto simp: user_at_def)
  have "phys m' d = phys m d" using tabs [of d] pd(2) by (auto simp: scratch_ok_def)
  moreover have "view m' d w = view m d w" for w
  proof (rule view_cong)
    fix e assume "user_at m' d w e"
    then have e: "user_at m d w e" by (simp add: u)
    then have "phys m' (page_base e) = phys m (page_base e)"
      using ph user_at_facts(4,6) [OF sp e] by blast
    then show "\<exists>e'. user_at m d w e' \<and> (\<forall>j<1024. phys m' (page_base e) j = phys m (page_base e') j)" using e by auto
  qed (auto simp: u)
  ultimately show ?thesis using okd u by blast
qed

lemma twins_change:
  assumes tw: "twins m d n" and ok: "space_ok m' d" "space_ok m' n" and scr: "kernel_scratch_table m' = kernel_scratch_table m"
    and dir: "phys m' d = phys m d" "phys m' n = phys m n" and ud: "\<And>w g. user_at m' d w g = user_at m d w g"
    and un: "\<And>w g. user_at m' n w g = (if same_page w v then g = e' else user_at m n w g)"
    and fresh: "\<And>w g. user_at m d w g \<Longrightarrow> page_base g \<noteq> page_base e'" and nt: "\<not> table_frame m d (page_base e')"
    and refs: "\<And>q. card (pages_of m d q) + card (pages_of m' n q) \<le> mmu_refs m' q"
  shows "twins m' d n"
proof -
  have tf: "table_frame m' x q = table_frame m x q" if "x \<in> {d, n}" for x q
    using that dir by (auto simp: table_frame_def table_of_def scr)
  have to: "table_of m' x i = table_of m x i" if "x \<in> {d, n}" for x i using that dir by (auto simp: table_of_def)
  have h: "harmless m d n" "harmless m n d" using tw by (simp_all add: twins_def)
  have "harmless m' d n"
    using h(1) fresh unfolding harmless_def ud un by (simp add: tf to dir) metis
  moreover have "harmless m' n d"
    using h(2) fresh nt unfolding harmless_def ud un by (simp add: tf to dir) metis
  moreover have "pages_of m' d q = pages_of m d q" for q by (simp add: pages_of_def ud)
  ultimately show ?thesis using tw ok refs by (simp add: twins_def)
qed

lemma harmlessD:
  assumes "harmless m y x"
  shows "i < 768 \<Longrightarrow> table_of m y i = Some t \<Longrightarrow> bit (phys m y i) 2 \<Longrightarrow> \<not> table_frame m x t"
    "user_at m y v e \<Longrightarrow> \<not> table_frame m x (page_base e)"
    "user_at m y v e \<Longrightarrow> user_at m x w g \<Longrightarrow> page_base e = page_base g \<Longrightarrow> \<not> bit e 1"
  using assms unfolding harmless_def by blast+

section \<open>A store in a writable page\<close>

lemma twins_store:
  assumes tw: "twins m d n" and act: "active_page_directory m = n" and e: "user_at m n v e" "bit e 1"
  shows "step_kept m (store_byte v b m) d n \<and> view (store_byte v b m) n = (view m n)(v \<mapsto> b)"
proof -
  let ?m = "store_byte v b m"
  have sp: "space_ok m d" "space_ok m n" and h: "harmless m d n" "harmless m n d" using tw by (simp_all add: twins_def)
  have aok: "active_ok m" "user_writable m v" using sp(2) act e by (auto simp: active_ok_def user_writable_def)
  note st = store_byte_spec [OF aok, of b]
  have store: "?m = put_word (page_base e) (page_offset v div 4)
      (set_byte (phys m (page_base e) (page_offset v div 4)) (page_offset v mod 4) b) m"
    using user_writable_writable [OF aok] e(1) act by (simp add: store_byte_def frame_at_def user_at_def Let_def)
  have ph: "phys ?m q = phys m q" if "q \<noteq> page_base e" for q using that by (simp add: store phys_put_word fun_eq_iff)
  have same: "kernel_scratch_table ?m = kernel_scratch_table m" "mmu_refs ?m = mmu_refs m" "mmu_ok ?m"
    using sp(1) by (simp_all add: store mmu_refs_def mmu_ok_def space_ok_def)
  have far: "q \<noteq> page_base e" if "table_frame m d q \<or> (\<exists>v g. user_at m d v g \<and> q = page_base g)" for q
    using that harmlessD(2,3) [OF h(2) e(1)] e(2) by auto
  have scr: "page_base e \<noteq> kernel_scratch_table m" using user_at_facts(4) [OF sp(2) e(1)] .
  have ot: "space_ok ?m d \<and> phys ?m d = phys m d \<and> (\<forall>w g. user_at ?m d w g = user_at m d w g) \<and> view ?m d = view m d"
    using ph [OF far] ph [OF scr [symmetric]] same space_ok_pages_of [OF sp(1)] by (intro other_space [OF sp(1)]) simp_all
  have un: "user_at ?m n w g = user_at m n w g" for w g using st act by (simp add: user_at_def)
  have "twins ?m d n"
  proof (rule twins_change [OF tw, where v = v and e' = e])
    show "user_at ?m n w g = (if same_page w v then g = e else user_at m n w g)" for w g
      unfolding un using e(1) user_at_same_page [of w v m n g] by (auto simp: user_at_def)
    show "space_ok ?m n" using st act by (auto simp: active_ok_def)
    show "phys ?m n = phys m n" using ph user_at_facts(3) [OF sp(2) e(1)] by metis
    show "card (pages_of m d q) + card (pages_of ?m n q) \<le> mmu_refs ?m q" for q
      using tw by (simp add: twins_def pages_of_def un same)
  qed (use ot same far in auto)
  moreover have "view ?m n = (view m n)(v \<mapsto> b)" using st view_own act by metis
  ultimately show ?thesis using ot st un same by (simp add: step_kept_def can_write_def)
qed

section \<open>A copy-on-write fault\<close>

lemma twins_same:
  assumes tw: "twins m d n" and m': "phys m' = phys m" "mmu_refs m' = mmu_refs m"
    "kernel_scratch_table m' = kernel_scratch_table m" "mmu_ok m'"
  shows "twins m' d n" "view m' x = view m x"
proof -
  have w: "walk_entry y v m' = walk_entry y v m" for y v by (simp add: walk_entry_def m'(1) Let_def)
  have u: "user_at m' y v e = user_at m y v e" for y v e by (simp add: user_at_def w)
  have t: "table_of m' y i = table_of m y i" for y i by (simp add: table_of_def m'(1))
  have p: "pages_of m' y q = pages_of m y q" for y q by (simp add: pages_of_def u)
  have "space_ok m' y" if "space_ok m y" for y
    using that m'(4) unfolding space_ok_def pgdir_ok_def scratch_ok_def frames_apart_def frames_private_def u t p m'(1-3) by blast
  then show "twins m' d n" using tw unfolding twins_def harmless_def table_frame_def u t p m'(1-3) by blast
  show "view m' x = view m x" by (rule ext, rule view_cong) (auto simp: u m'(1))
qed

lemma pages_moved:
  assumes e: "user_at m n v e" and un: "\<And>w g. user_at m' n w g = (if same_page w v then g = e' else user_at m n w g)"
  shows "card (pages_of m' n q) + (if q = page_base e then 1 else 0) \<le>
    card (pages_of m n q) + (if q = page_base e' then 1 else 0)"
proof -
  let ?b = "page_base v"
  have sub: "pages_of m' n q \<subseteq> (pages_of m n q - {?b}) \<union> (if q = page_base e' then {?b} else {})"
  proof
    fix x assume "x \<in> pages_of m' n q"
    then obtain g where g: "page_aligned x" "user_at m' n x g" "page_base g = q" by (auto simp: pages_of_def)
    have "same_page x v \<longleftrightarrow> x = ?b" using page_base_of_aligned [OF g(1)] by (simp add: same_page_iff)
    then show "x \<in> (pages_of m n q - {?b}) \<union> (if q = page_base e' then {?b} else {})"
      using g un [of x g] by (auto simp: pages_of_def)
  qed
  have "card (pages_of m' n q) \<le> card (pages_of m n q - {?b}) + (if q = page_base e' then 1 else 0)"
    using card_mono [OF _ sub] card_Un_le [of "pages_of m n q - {?b}" "if q = page_base e' then {?b} else {}"]
    by (cases "q = page_base e'") simp_all
  moreover have "card (pages_of m n q - {?b}) + (if q = page_base e then 1 else 0) \<le> card (pages_of m n q)"
  proof (cases "q = page_base e")
    case True
    then show ?thesis using user_page_of [OF e] by simp
  qed (simp add: card_mono)
  ultimately show ?thesis by simp
qed

lemma cow_moves:
  assumes sp: "space_ok m n" and ok: "space_ok m' n" and k: "others_kept m m' n v" and e': "user_at m' n v e'"
  shows "user_at m' n w g = (if same_page w v then g = e' else user_at m n w g)"
proof (cases "same_page w v")
  case True
  then show ?thesis using e' user_at_same_page [OF True, of m' n] by (auto simp: user_at_def)
next
  case False
  then show ?thesis
    using k user_at_facts(2) [OF sp, of w g] user_at_facts(2) [OF ok, of w g]
    by (auto simp: others_kept_def user_at_def)
qed

text \<open>The frame the page ends in is used by the page alone, and the counts cover both spaces.\<close>

lemma cow_counts:
  assumes tw: "twins m d n" and ok: "space_ok m' n" and k: "others_kept m m' n v" and e: "user_at m n v e"
    and e': "user_at m' n v e'"
    and refs: "if mmu_refs m (page_base e) = 1 then page_base e' = page_base e \<and> mmu_refs m' = mmu_refs m
      else mmu_refs m (page_base e') = 0 \<and>
        mmu_refs m' = (mmu_refs m)(page_base e' := 1, page_base e := mmu_refs m (page_base e) - 1)"
  shows "card (pages_of m d q) + card (pages_of m' n q) \<le> mmu_refs m' q" "card (pages_of m d (page_base e')) = 0"
    "0 < mmu_refs m q \<Longrightarrow> 0 < mmu_refs m' q" "\<not> table_frame m d (page_base e')"
proof -
  have sp: "space_ok m d" "space_ok m n" and h: "harmless m n d" using tw by (simp_all add: twins_def)
  have sum: "card (pages_of m d q) + card (pages_of m n q) \<le> mmu_refs m q" for q using tw by (simp add: twins_def)
  have one: "0 < card (pages_of m n (page_base e))" using user_page_of(2) [OF e] .
  note mv = pages_moved [OF e cow_moves [OF sp(2) ok k e']]
  show "card (pages_of m d q) + card (pages_of m' n q) \<le> mmu_refs m' q"
    using refs sum [of q] one mv [of q] by (auto split: if_splits)
  show "card (pages_of m d (page_base e')) = 0"
    using refs sum [of "page_base e"] sum [of "page_base e'"] one
    by (cases "mmu_refs m (page_base e) = 1") (simp_all del: card_0_eq card_eq_0_iff)
  show "0 < mmu_refs m q \<Longrightarrow> 0 < mmu_refs m' q"
    using refs sum [of "page_base e"] one by (auto split: if_splits)
  have "page_base e' \<noteq> kernel_scratch_table m"
    using user_at_facts(4) [OF ok e'] k by (simp add: others_kept_def)
  then have "0 < mmu_refs m (page_base e')" if "table_frame m d (page_base e')"
    using that sp(1) unfolding table_frame_def space_ok_def pgdir_ok_def by blast
  then show "\<not> table_frame m d (page_base e')"
    using refs harmlessD(2) [OF h e] by (auto split: if_splits)
qed

lemma twins_cow:
  assumes tw: "twins m d n" and act: "active_page_directory m = n" "n \<noteq> 0"
    and r: "paging_resolve_cow_fault n v m = (res, m')"
  shows "step_kept m m' d n \<and> view m' n = view m n \<and> (res \<longrightarrow> (\<exists>e'. user_at m' n v e' \<and> bit e' 1))"
proof -
  have sp: "space_ok m d" "space_ok m n" and h: "harmless m d n" "harmless m n d" using tw by (simp_all add: twins_def)
  have n: "n = page_base n" using sp(2) page_base_of_aligned by (simp add: space_ok_def pgdir_ok_def)
  note c = resolve_cow_spec [OF sp(2) n act(2) r]
  have ok: "space_ok m' n" and k: "others_kept m m' n v" using c by blast+
  have k': "active_page_directory m' = n" "kernel_scratch_table m' = kernel_scratch_table m" "mmu_fault m' = mmu_fault m" "mmu_ok m'"
    using k ok act by (simp_all add: others_kept_def space_ok_def)
  show ?thesis
  proof (cases res)
    case False
    then have "phys m' = phys m" "mmu_refs m' = mmu_refs m" using c by simp_all
    moreover from this(1) have "user_at m' x w g = user_at m x w g" for x w g by (simp add: user_at_def walk_entry_def Let_def)
    ultimately show ?thesis using False twins_same [OF tw] k' act by (simp add: step_kept_def can_write_def)
  next
    case True
    then obtain e e' where e: "user_at m n v e" "user_at m' n v e'" "bit e' 1"
      and refs: "if mmu_refs m (page_base e) = 1 then page_base e' = page_base e \<and> mmu_refs m' = mmu_refs m
        else mmu_refs m (page_base e') = 0 \<and>
          mmu_refs m' = (mmu_refs m)(page_base e' := 1, page_base e := mmu_refs m (page_base e) - 1)"
      using c by (auto simp: cow_resolved_def)
    note cnt = cow_counts [OF tw ok k e(1,2) refs]
    obtain t where t: "table_of m n (dir_index v) = Some t" "bit (phys m n (dir_index v)) 2"
      using user_at_facts(1) [OF sp(2) e(1)] by blast
    have tn: "table_frame m n t" using t(1) index_bounds(1) by (auto simp: table_frame_def)
    have td: "\<not> table_frame m d t" using harmlessD(1) [OF h(2) user_at_facts(2) [OF sp(2) e(1)] t] .
    have ph: "phys m' q = phys m q" if "0 < mmu_refs m q" "q \<noteq> t" "q \<noteq> kernel_scratch_table m" for q
      using k that t(1) by (simp add: others_kept_def)
    have "q \<noteq> t" if "table_frame m d q \<or> (\<exists>v e. user_at m d v e \<and> q = page_base e)" for q
      using that td tn harmlessD(2) [OF h(1)] by blast
    then have ot: "space_ok m' d \<and> phys m' d = phys m d \<and> (\<forall>w g. user_at m' d w g = user_at m d w g) \<and> view m' d = view m d"
      using k' ph cnt(3) add_leD1 [OF cnt(1)] k by (intro other_space [OF sp(1)]) (simp_all add: others_kept_def)
    have "twins m' d n"
    proof (rule twins_change [OF tw, where v = v and e' = e'])
      show "phys m' n = phys m n"
        using ph [of n] pgdir_okD(1) [OF _ t(1) index_bounds(1)] sp(2) by (auto simp: space_ok_def pgdir_ok_def scratch_ok_def)
      show "page_base g \<noteq> page_base e'" if "user_at m d w g" for w g using user_page_of(2) [OF that] cnt(2) by auto
    qed (use ot ok k' cnt cow_moves [OF sp(2) ok k e(2)] in auto)
    moreover have "view m' n = view m n"
      using cow_grows [of m n v res m'] sp(2) act n r view_own [OF act(1)] view_own [OF k'(1)]
      by (simp add: active_ok_def fun_eq_iff)
    moreover have "can_write m' d w = can_write m d w" for w using ot by (simp add: can_write_def)
    moreover have "can_write m' n w" if "can_write m n w" for w
      using that cow_moves [OF sp(2) ok k e(2), of w] e(3) by (auto simp: can_write_def)
    ultimately show ?thesis using ot k' act e(2,3) by (simp add: step_kept_def) blast
  qed
qed

lemma resolve_cow_fails:
  assumes sp: "space_ok m n" and n: "n \<noteq> 0" "kernel_scratch_table m \<noteq> 0"
    and e: "user_at m n v e" "bit e 9" "\<not> bit e 1" and r: "paging_resolve_cow_fault n v m = (False, m')"
  shows "fst (frame_alloc (mmu_frames m)) = 0"
proof (rule ccontr)
  assume c: "fst (frame_alloc (mmu_frames m)) \<noteq> 0"
  obtain p fr where "frame_alloc (mmu_frames m) = (p, fr)" by force
  then obtain m1 where al: "mmu_alloc m = (p, m1)" "p \<noteq> 0" using c by (simp add: mmu_alloc_def)
  have base: "n = page_base n" using sp page_base_of_aligned by (simp add: space_ok_def pgdir_ok_def)
  obtain t where t: "table_of m n (dir_index v) = Some t" using user_at_facts(1) [OF sp e(1)] by blast
  note un = alloc_frame_unused [OF sp al(1,2)]
  have "p \<noteq> page_base e" using un user_at_facts(6) [OF sp e(1)] by auto
  then obtain m2 where "copy_physical_page (page_base e) p m1 = (True, m2)"
    using copy_physical_page_spec [of m1 "page_base e" p] un n(2) user_at_facts(4) [OF sp e(1)] by auto
  then show False
    using r al(1,2) resolve_cow_unfold [OF sp base n(1) e t] by (simp split: if_splits)
qed

section \<open>A store instruction of a process\<close>

text \<open>The processor stores the byte when the page is writable; otherwise it raises a page fault, and repeats
  the instruction once \<^verbatim>\<open>vm.c\<close> has handled it.\<close>

definition user_store :: "process \<Rightarrow> u32 \<Rightarrow> u8 \<Rightarrow> mmu \<Rightarrow> bool \<times> mmu" where
  "user_store p v b m =
     (let m = paging_switch_directory (p_cr3 p) m in
      if paging_is_user_writable v m then (True, store_byte v b m)
      else
        let (r, m) = vm_handle_page_fault (Some p) v (VM_FAULT_PRESENT OR VM_FAULT_WRITE OR VM_FAULT_USER) m
        in if r = VM_FAULT_HANDLED then (True, store_byte v b m) else (False, m))"

lemma handle_write_fault:
  assumes "p_cr3 p \<noteq> 0" "vm_handle_page_fault (Some p) v (VM_FAULT_PRESENT OR VM_FAULT_WRITE OR VM_FAULT_USER) m = (r, m')"
  shows "paging_resolve_cow_fault (p_cr3 p) (page_base v) m = (r = VM_FAULT_HANDLED, m')"
proof -
  have mask: "NOT (VM_PAGE_SIZE - 1) = 0xFFFFF000" by (simp add: VM_PAGE_SIZE_def)
  have "page_align_down v = page_base v" unfolding page_align_down_def page_base_def mask ..
  then show ?thesis
    using assms by (auto simp: vm_handle_page_fault_def VM_FAULT_PRESENT_def VM_FAULT_WRITE_def VM_FAULT_USER_def Let_def
        split: prod.splits if_splits)
qed


lemma switch_directory:
  assumes "space_ok m n" "n \<noteq> 0"
  shows "paging_switch_directory n m = m\<lparr>active_page_directory := n\<rparr>"
  using assms page_base_of_aligned [of n] by (simp add: paging_switch_directory_def space_ok_def pgdir_ok_def)

lemma user_store_spec:
  assumes tw: "twins m d n" and n: "p_cr3 p = n" "n \<noteq> 0" "kernel_scratch_table m \<noteq> 0" and v: "can_write m n v"
    and r: "user_store p v b m = (ok, m')"
  shows "if ok then step_kept (m\<lparr>active_page_directory := n\<rparr>) m' d n \<and> view m' n = (view m n)(v \<mapsto> b)
    else fst (frame_alloc (mmu_frames m)) = 0"
proof -
  define m0 where "m0 = m\<lparr>active_page_directory := n\<rparr>"
  have m0: "twins m0 d n" "active_page_directory m0 = n" "view m0 n = view m n" using tw by (simp_all add: m0_def)
  have sp: "space_ok m n" "space_ok m0 n" using tw m0(1) by (simp_all add: twins_def)
  obtain e where e: "user_at m0 n v e" "bit e 1 \<or> bit e 9" using v by (auto simp: can_write_def m0_def)
  note w = is_user_writable_entry [OF sp(2) m0(2) e(1)]
  note unf = r [unfolded user_store_def n(1) switch_directory [OF sp(1) n(2)] m0_def [symmetric] Let_def w]
  show ?thesis
  proof (cases "bit e 1")
    case True
    then show ?thesis using unf twins_store [OF m0(1,2) e(1) True, of b] m0(3) by (auto simp: m0_def [symmetric])
  next
    case False
    obtain f m1 where f: "vm_handle_page_fault (Some p) v (VM_FAULT_PRESENT OR VM_FAULT_WRITE OR VM_FAULT_USER) m0 = (f, m1)"
      by force
    have c: "paging_resolve_cow_fault n (page_base v) m0 = (f = VM_FAULT_HANDLED, m1)"
      using handle_write_fault [OF _ f] n(1,2) by simp
    have e': "user_at m0 n (page_base v) e" using e(1) user_at_same_page [OF same_page_base(1), of m0 n v] by simp
    note st = twins_cow [OF m0(1,2) n(2) c]
    show ?thesis
    proof (cases "f = VM_FAULT_HANDLED")
      case True
      then obtain g where g: "user_at m1 n v g" "bit g 1"
        using st user_at_same_page [OF same_page_base(1), of m1 n v] by auto
      have m1: "twins m1 d n" "active_page_directory m1 = n" using st m0(2) by (simp_all add: step_kept_def)
      have "step_kept m0 m' d n" "view m' n = (view m n)(v \<mapsto> b)" "ok"
        using unf \<open>\<not> bit e 1\<close> f True st twins_store [OF m1 g, of b] step_kept_trans m0(3) by auto
      then show ?thesis by (simp add: m0_def)
    next
      case oom: False
      then have "fst (frame_alloc (mmu_frames m0)) = 0"
        using resolve_cow_fails [OF sp(2) n(2) _ e' _ False] c e(2) False n(3) by (simp add: m0_def)
      then show ?thesis using unf False f oom by (simp add: m0_def)
    qed
  qed
qed

section \<open>Parent and child\<close>

text \<open>Stores of both processes, in the order in which they run, up to the first one that finds no memory
  for its copy: the stores left, and the state.\<close>

fun run_stores :: "process \<Rightarrow> process \<Rightarrow> (bool \<times> u32 \<times> u8) list \<Rightarrow> mmu \<Rightarrow> (bool \<times> u32 \<times> u8) list \<times> mmu" where
  "run_stores p q [] m = ([], m)"
| "run_stores p q ((child, v, b) # ws) m =
     (case user_store (if child then q else p) v b m of (ok, m') \<Rightarrow>
        if ok then run_stores p q ws m' else ((child, v, b) # ws, m))"

text \<open>What the stores of one of the two do to a memory nobody else can reach.\<close>

definition own_stores :: "bool \<Rightarrow> (bool \<times> u32 \<times> u8) list \<Rightarrow> (u32 \<Rightarrow> u8 option) \<Rightarrow> u32 \<Rightarrow> u8 option" where
  "own_stores child ws f = fold (\<lambda>(c, v, b) g. if c = child then g(v \<mapsto> b) else g) ws f"

lemma own_stores_simps [simp]:
  "own_stores child [] f = f"
  "own_stores child ((c, v, b) # ws) f = own_stores child ws (if c = child then f(v \<mapsto> b) else f)"
  by (simp_all add: own_stores_def)

lemma run_stores_isolated:
  assumes "twins m (p_cr3 p) (p_cr3 q)" "p_cr3 p \<noteq> 0" "p_cr3 q \<noteq> 0" "kernel_scratch_table m \<noteq> 0"
    "\<forall>(c, v, b)\<in>set ws. can_write m (p_cr3 p) v \<and> can_write m (p_cr3 q) v"
    "run_stores p q ws m = (rest, m')"
  shows "\<exists>ran. ws = ran @ rest \<and> view m' (p_cr3 p) = own_stores False ran (view m (p_cr3 p)) \<and>
    view m' (p_cr3 q) = own_stores True ran (view m (p_cr3 q)) \<and> twins m' (p_cr3 p) (p_cr3 q) \<and>
    mmu_fault m' = mmu_fault m \<and> (rest = [] \<or> fst (frame_alloc (mmu_frames m')) = 0)"
  using assms
proof (induction ws arbitrary: m)
  case (Cons x ws)
  obtain c v b where x: "x = (c, v, b)" using prod_cases3 by blast
  let ?me = "if c then q else p" and ?other = "if c then p else q"
  obtain ok m1 where s: "user_store ?me v b m = (ok, m1)" by force
  have tw: "twins m (p_cr3 ?other) (p_cr3 ?me)" using Cons.prems(1) twins_sym by auto
  have st: "if ok then step_kept (m\<lparr>active_page_directory := p_cr3 ?me\<rparr>) m1 (p_cr3 ?other) (p_cr3 ?me) \<and>
      view m1 (p_cr3 ?me) = (view m (p_cr3 ?me))(v \<mapsto> b) else fst (frame_alloc (mmu_frames m)) = 0"
    by (rule user_store_spec [OF tw refl _ _ _ s]) (use Cons.prems(2-5) x in auto)
  show ?case
  proof (cases ok)
    case False
    then show ?thesis using Cons.prems(1,6) s st x by auto
  next
    case True
    have k: "step_kept (m\<lparr>active_page_directory := p_cr3 ?me\<rparr>) m1 (p_cr3 ?other) (p_cr3 ?me)"
        "view m1 (p_cr3 ?me) = (view m (p_cr3 ?me))(v \<mapsto> b)" using st True by simp_all
    have cw: "can_write m1 (p_cr3 r) w" if "can_write m (p_cr3 r) w" "r \<in> {p, q}" for r w
      using that k(1) by (auto simp: step_kept_def can_write_def split: if_splits)
    have tw1: "twins m1 (p_cr3 p) (p_cr3 q)"
      using k(1) twins_sym by (auto simp: step_kept_def split: if_splits)
    have scr: "kernel_scratch_table m1 \<noteq> 0" "mmu_fault m1 = mmu_fault m" using k(1) Cons.prems(4) by (simp_all add: step_kept_def)
    have run: "run_stores p q ws m1 = (rest, m')" using Cons.prems(6) s True x by simp
    have "\<forall>(c, v, b)\<in>set ws. can_write m1 (p_cr3 p) v \<and> can_write m1 (p_cr3 q) v"
      using Cons.prems(5) cw by auto
    from Cons.IH [OF tw1 Cons.prems(2,3) scr(1) this run] obtain ran where ran: "ws = ran @ rest" "view m' (p_cr3 p) = own_stores False ran (view m1 (p_cr3 p))"
        "view m' (p_cr3 q) = own_stores True ran (view m1 (p_cr3 q))" "twins m' (p_cr3 p) (p_cr3 q)"
        "mmu_fault m' = mmu_fault m" "rest = [] \<or> fst (frame_alloc (mmu_frames m')) = 0"
      unfolding scr(2) by blast
    moreover have "view m1 (p_cr3 p) = (if c then view m (p_cr3 p) else (view m (p_cr3 p))(v \<mapsto> b))"
        "view m1 (p_cr3 q) = (if c then (view m (p_cr3 q))(v \<mapsto> b) else view m (p_cr3 q))"
      using k by (auto simp: step_kept_def)
    ultimately show ?thesis by (intro exI [of _ "x # ran"]) (simp add: x)
  qed
qed simp


lemma fork_runs_isolated:
  assumes sp: "space_ok m (p_cr3 p)" and c: "paging_clone_directory (p_cr3 p) m = (p_cr3 q, m1)" "p_cr3 q \<noteq> 0"
    and w: "\<forall>(c, v, b)\<in>set ws. can_write m (p_cr3 p) v" and r: "run_stores p q ws m1 = (rest, m')"
  shows "\<exists>ran. ws = ran @ rest \<and> view m' (p_cr3 p) = own_stores False ran (view m (p_cr3 p)) \<and>
    view m' (p_cr3 q) = own_stores True ran (view m (p_cr3 p)) \<and> twins m' (p_cr3 p) (p_cr3 q) \<and>
    mmu_fault m' = mmu_fault m \<and> (rest = [] \<or> fst (frame_alloc (mmu_frames m')) = 0)"
proof -
  let ?d = "p_cr3 p" and ?n = "p_cr3 q"
  have base: "?d = page_base ?d" using sp page_base_of_aligned by (simp add: space_ok_def pgdir_ok_def)
  have nz: "?d \<noteq> 0" "kernel_scratch_table m \<noteq> 0" using c by (auto simp: paging_clone_directory_def Let_def)
  note cl = clone_directory_cloned [OF sp base c]
  have regs: "kernel_scratch_table m1 = kernel_scratch_table m" "mmu_fault m1 = mmu_fault m"
    using clonedD(2) [OF cl] by (simp_all add: same_regs_def)
  have "can_write m1 x v" if cw: "can_write m ?d v" and x: "x \<in> {?d, ?n}" for x v
  proof -
    obtain e where e: "user_at m ?d v e" "bit e 1 \<or> bit e 9" using cw by (auto simp: can_write_def)
    then have "bit (cow_entry e) 9" using user_page_of_walk [OF e(1)] by (simp add: cow_entry_bit)
    then show ?thesis using e(1) cloned_user_at(1) [OF sp cl x] by (auto simp: can_write_def)
  qed
  then have "\<forall>(c, v, b)\<in>set ws. can_write m1 ?d v \<and> can_write m1 ?n v" using w by auto
  from run_stores_isolated [OF cloned_twins [OF sp cl nz(2)] nz(1) c(2) _ this r] show ?thesis
    unfolding regs using nz(2) cloned_view [OF sp cl] by simp
qed

end
