(* ===== verification/Fork_Success.thy ===== *)
theory Fork_Success
  imports Fork_Isolation
begin

text \<open>
  When the copy of an address space succeeds: with the failure hook of the self tests off, one free frame below
  4 MiB for the directory and one for each table of its own, and no reference count that would pass 65535, the
  two phases of \<^verbatim>\<open>paging_clone_directory\<close> reach their end.
\<close>

section \<open>Frames\<close>

definition free_below :: "u32 \<Rightarrow> frame_state \<Rightarrow> nat set" where
  "free_below limit s = {f. 768 \<le> f \<and> f < frame_bound s limit \<and> \<not> bitmap_test s f}"

lemma finite_free_below [simp]: "finite (free_below limit s)"
  by (simp add: free_below_def)

lemma frame_alloc_below_free:
  assumes ok: "frame_ok s" "frame_fail_after s < 0" and free: "free_below limit s \<noteq> {}"
    and al: "frame_alloc_below limit s = (a, s')"
  shows "a \<noteq> 0 \<and> frame_fail_after s' < 0 \<and> card (free_below limit s) \<le> Suc (card (free_below limit s'))"
proof -
  have "frame_initialized s" "frame_fail_after s \<noteq> 0" using ok by (simp_all add: frame_ok_def)
  then show ?thesis
  proof (cases rule: frame_alloc_below_cases [where limit = limit])
    case (found f s1)
    have "f < unat (total_frames s)" using found(4) frame_bound_le [of s limit] by simp
    then have f: "f < 131072" using ok(1) by (simp add: frame_ok_def frame_inv_def)
    have "free_below limit s \<subseteq> insert f (free_below limit s')"
      using found(1,2) al by (auto simp: free_below_def frame_bound_def frame_take_def bitmap_set_def bitmap_test_def bit_test_set)
    moreover have "card (insert f (free_below limit s')) \<le> Suc (card (free_below limit s'))"
      by (simp add: card_insert_if)
    ultimately have "card (free_below limit s) \<le> Suc (card (free_below limit s'))"
      using card_mono [of "insert f (free_below limit s')" "free_below limit s"] by simp
    moreover have "a \<noteq> 0" using found(1) al frame_addr_facts [OF found(3) f] by auto
    ultimately show ?thesis using found(1,2) al ok(2) by (auto simp: frame_take_def bitmap_set_def)
  next
    case (full s1)
    then show ?thesis using free by (auto simp: free_below_def)
  qed
qed

lemma frame_retain_succeeds:
  assumes ok: "frame_ok s" and a: "0 < frame_refs s a" "frame_refs s a < 65535"
  shows "fst (frame_retain a s)"
proof -
  have r: "page_aligned a" "unat a div 4096 < unat (total_frames s)" "frame_refs s a = unat (frame_refcounts s (unat a div 4096))"
    using a(1) frame_refs_eq [OF ok, of a] by (simp_all split: if_splits)
  have c: "frame_refcounts s (unat a div 4096) \<noteq> 0" "frame_refcounts s (unat a div 4096) \<noteq> 0xFFFF"
    using a r(3) by auto
  then have "bitmap_test s (unat a div 4096)" using ok frame_inv_count r(2) by (auto simp: frame_ok_def)
  then show ?thesis using ok r c by (simp add: frame_retain_def Let_def unat_div_page frame_ok_def page_aligned_def)
qed

section \<open>The first phase\<close>

abbreviation low_free :: "mmu \<Rightarrow> nat set" where
  "low_free m \<equiv> free_below IDENTITY_MAPPED_LIMIT (mmu_frames m)"

lemma alloc_page_table_free:
  assumes "mmu_ok m" "frame_fail_after (mmu_frames m) < 0" "low_free m \<noteq> {}" "allocator_alloc_page_table m = (p, m')"
  shows "p \<noteq> 0 \<and> frame_fail_after (mmu_frames m') < 0 \<and> card (low_free m) \<le> Suc (card (low_free m'))"
proof -
  obtain a fr where al: "frame_alloc_below IDENTITY_MAPPED_LIMIT (mmu_frames m) = (a, fr)" by force
  have "mmu_frames (for_loop 0 k (\<lambda>i. put_word a i 2) (m\<lparr>mmu_frames := fr\<rparr>)) = fr" for k
    by (induction k) (simp_all add: for_loop_done for_loop_last)
  then show ?thesis
    using frame_alloc_below_free [OF _ assms(2,3) al] assms(1,4) al
    by (auto simp: allocator_alloc_page_table_def paging_alloc_frame_def mmu_ok_def split: if_splits)
qed

text \<open>The address whose indices are the given ones.\<close>

lemma index_exists:
  assumes "i < 1024" "j < 1024"
  shows "\<exists>v. dir_index v = i \<and> table_index v = j"
proof -
  define n where "n = i * 4194304 + j * 4096"
  let ?v = "of_nat n :: u32"
  have u: "unat ?v = n" using assms by (intro unat_of_nat_small) (simp add: n_def)
  have "dir_index ?v = unat ?v div 4194304 mod 1024" "table_index ?v = unat ?v div 4096 mod 1024"
    by (simp_all add: dir_index_def table_index_def drop_bit_eq_div unat_div
        unat_and_mask [where n = 10, simplified mask_eq_exp_minus_1, simplified])
  moreover have "n div 4096 = i * 1024 + j" "n div 4194304 = i" using assms unfolding n_def by linarith+
  ultimately show ?thesis using u assms by (intro exI [of _ ?v]) simp
qed

lemma own_entry:
  assumes sp: "space_ok m d" and i: "i < 1024" "own_table m d i" and j: "j < 1024" "user_page (phys m (table_at m d i) j)"
  shows "0 < mmu_refs m (page_base (phys m (table_at m d i) j))"
    "0 < total_uses m d d 1024 (page_base (phys m (table_at m d i) j))"
proof -
  let ?e = "phys m (table_at m d i) j"
  obtain v where v: "dir_index v = i" "table_index v = j" using index_exists [OF i(1) j(1)] by blast
  have "user_at m d v ?e"
    using own_table_facts(1) [OF sp i] j(2) v by (simp add: user_at_def walk_entry_table user_page_bits)
  then show "0 < mmu_refs m (page_base ?e)" "0 < total_uses m d d 1024 (page_base ?e)"
    using user_at_facts(6) [OF sp] user_page_of(2) pages_counted [OF sp, of "page_base ?e"] by (blast, fastforce)
qed

text \<open>No reference count passes 65535 when every use of a frame is counted once more.\<close>

definition counts_fit :: "mmu \<Rightarrow> u32 \<Rightarrow> bool" where
  "counts_fit m d \<longleftrightarrow> (\<forall>q. mmu_refs m q + total_uses m d d 1024 q \<le> 65535)"

lemma clone_table_succeeds:
  assumes sp: "space_ok m d" and fit: "counts_fit m d" and k: "k < 1024"
    and m1: "mmu_ok m1" "frame_fail_after (mmu_frames m1) < 0" "own_table m d k \<Longrightarrow> low_free m1 \<noteq> {}" "phys m1 d = phys m d" "d \<noteq> n"
      "\<And>q. 0 < mmu_refs m q \<Longrightarrow> mmu_refs m1 q = mmu_refs m q \<and> (q \<noteq> n \<longrightarrow> phys m1 q = phys m q)" "mmu_refs m n = 0"
  shows "\<exists>m2. clone_table d n k m1 = (True, m2) \<and> frame_fail_after (mmu_frames m2) < 0 \<and>
    card (low_free m1) \<le> card (low_free m2) + (if own_table m d k then 1 else 0)"
proof (cases "own_table m d k")
  case False
  then show ?thesis using m1(2,4) by (auto simp: clone_table_def private_table_def Let_def)
next
  case True
  let ?s = "table_at m d k"
  obtain p m2 where al: "allocator_alloc_page_table m1 = (p, m2)" by force
  note a = alloc_page_table_spec [OF m1(1) al] and f = alloc_page_table_free [OF m1(1,2) m1(3) [OF True] al]
  have src: "0 < mmu_refs m ?s" using own_table_facts(2) [OF sp k True] .
  have sn: "?s \<noteq> n" using src m1(7) by auto
  then have ps: "phys m1 ?s = phys m ?s" using m1(6) [OF src] by blast
  have live: "mmu_refs m2 q = mmu_refs m q" "q \<noteq> p" if "0 < mmu_refs m q" for q using a f m1(6) [OF that] that by auto
  let ?m3 = "put_word n k (page_base p OR (phys m2 d k AND 0xFFF)) m2"
  have "phys ?m3 ?s j = phys m ?s j" if "j < 1024" for j
    using a f sn ps live(2) [OF src] by (simp add: phys_put_word)
  then have "shareable ?m3 (phys ?m3 ?s j)" if j: "j < 1024" for j
  proof -
    let ?q = "page_base (phys m ?s j)"
    have "mmu_refs m2 ?q \<noteq> 0 \<and> mmu_refs m2 ?q \<noteq> 65535" if "user_page (phys m ?s j)"
      using own_entry [OF sp k True j that] live(1) [of ?q] fit [unfolded counts_fit_def, rule_format, of ?q] by simp
    then show ?thesis
      using \<open>\<And>j. j < 1024 \<Longrightarrow> phys ?m3 ?s j = phys m ?s j\<close> [OF j]
      by (auto simp: shareable_def Let_def mmu_refs_def frame_refs_def)
  qed
  moreover have "table_at m1 d k = ?s" "bit (phys m1 d k) 0" "\<not> (k \<noteq> 0 \<and> phys m1 d k AND PAGE_USER = 0)"
    using m1(4) True by (simp_all add: private_table_def and_flag_eq_0)
  ultimately have "clone_table d n k m1 = (True, ?m3)"
    using al f by (auto simp: clone_table_def and_flag_eq_0 Let_def PAGES_PER_TABLE_def)
  then show ?thesis using f True by simp
qed

lemma clone_tables_succeed:
  assumes sp: "space_ok m d" and fit: "counts_fit m d" and al: "allocator_alloc_page_table m = (n, m0)" "n \<noteq> 0"
    and free: "frame_fail_after (mmu_frames m0) < 0" "card {i. i < 1024 \<and> own_table m d i} \<le> card (low_free m0)"
    and k: "k \<le> 1024"
  shows "\<exists>m1. try_all (clone_table d n) [0..<k] m0 = (True, m1) \<and> frame_fail_after (mmu_frames m1) < 0 \<and>
    card (low_free m0) \<le> card (low_free m1) + card {i. i < k \<and> own_table m d i}"
  using k
proof (induction k)
  case 0
  then show ?case using free(1) by simp
next
  case (Suc k)
  then obtain m1 where m1: "try_all (clone_table d n) [0..<k] m0 = (True, m1)" "frame_fail_after (mmu_frames m1) < 0"
      "card (low_free m0) \<le> card (low_free m1) + card {i. i < k \<and> own_table m d i}" by auto
  have k: "k < 1024" using Suc.prems by simp
  have mok: "mmu_ok m" and dref: "0 < mmu_refs m d" using sp by (simp_all add: space_ok_def pgdir_ok_def)
  have a: "mmu_ok m0" "mmu_refs m n = 0" "mmu_refs m0 = (mmu_refs m)(n := 1)"
      "\<And>q j. phys m0 q j = (if q = n \<and> j < 1024 then 2 else phys m q j)"
    using alloc_page_table_spec [OF mok al(1)] al(2) by simp_all
  have dn: "d \<noteq> n" using a(2) dref by auto
  have n0: "0 < mmu_refs m0 n" and d0: "0 < mmu_refs m0 d" using a(3) dref dn by simp_all
  have ct: "mmu_ok m1" "\<And>q. 0 < mmu_refs m0 q \<Longrightarrow> mmu_refs m1 q = mmu_refs m0 q \<and> (q \<noteq> n \<longrightarrow> phys m1 q = phys m0 q)"
    using clone_tables [OF a(1) n0 d0 dn _ less_imp_le [OF k] m1(1)] a(4) by (simp, presburger)
  have old: "mmu_refs m1 q = mmu_refs m q \<and> (q \<noteq> n \<longrightarrow> phys m1 q = phys m q)" if "0 < mmu_refs m q" for q
    using ct(2) [of q] that a by (auto simp: fun_eq_iff split: if_splits)
  have pd: "phys m1 d = phys m d" using old [OF dref] dn by blast
  have ins: "{i. i < Suc k \<and> own_table m d i} = (if own_table m d k then insert k {i. i < k \<and> own_table m d i} else {i. i < k \<and> own_table m d i})"
    by (auto simp: less_Suc_eq)
  have "low_free m1 \<noteq> {}" if "own_table m d k"
  proof -
    have "card {i. i < Suc k \<and> own_table m d i} \<le> card {i. i < 1024 \<and> own_table m d i}"
      using k by (intro card_mono) auto
    then have "card {i. i < k \<and> own_table m d i} < card (low_free m0)" using free(2) that ins by simp
    then show ?thesis using m1(3) by auto
  qed
  from clone_table_succeeds [OF sp fit k ct(1) m1(2) this pd dn old a(2)]
  obtain m2 where m2: "clone_table d n k m1 = (True, m2)" "frame_fail_after (mmu_frames m2) < 0"
      "card (low_free m1) \<le> card (low_free m2) + (if own_table m d k then 1 else 0)" by blast
  then have "try_all (clone_table d n) [0..<Suc k] m0 = (True, m2)" using m1(1) by (simp add: try_all_append)
  moreover have "card {i. i < Suc k \<and> own_table m d i} = card {i. i < k \<and> own_table m d i} + (if own_table m d k then 1 else 0)"
    by (simp add: ins)
  ultimately show ?case using m1(3) m2(2,3) by (intro exI [of _ m2]) simp
qed

section \<open>The second phase\<close>

lemma retain_pages_succeed:
  assumes "s \<noteq> t" "mmu_ok m" "k \<le> 1024"
    and fit: "\<And>j. j < k \<Longrightarrow> user_page (phys m s j) \<Longrightarrow> 0 < mmu_refs m (page_base (phys m s j)) \<and>
      mmu_refs m (page_base (phys m s j)) + frame_uses m s k (page_base (phys m s j)) \<le> 65535"
  shows "\<exists>m'. try_all (retain_page s t) [0..<k] m = (True, m')"
  using assms(3) fit
proof (induction k)
  case (Suc k)
  have le: "frame_uses m s k q \<le> frame_uses m s (Suc k) q" for q by simp
  have "0 < mmu_refs m (page_base (phys m s j)) \<and>
      mmu_refs m (page_base (phys m s j)) + frame_uses m s k (page_base (phys m s j)) \<le> 65535"
    if "j < k" "user_page (phys m s j)" for j
    using Suc.prems(2) [of j] that le [of "page_base (phys m s j)"] by simp
  then obtain m1 where m1: "try_all (retain_page s t) [0..<k] m = (True, m1)" using Suc.IH Suc.prems(1) by auto
  note r = retain_pages [OF assms(1,2) m1]
  let ?e = "phys m s k"
  have e: "phys m1 s k = ?e" using r assms(1) by simp
  have "fst (retain_page s t k m1)"
  proof (cases "user_page ?e")
    case True
    have "0 < mmu_refs m1 (page_base ?e)" "mmu_refs m1 (page_base ?e) < 65535"
      using r Suc.prems(2) [of k] True by auto
    then have "fst (frame_retain (page_base ?e) (mmu_frames m1))"
      using frame_retain_succeeds r by (simp add: mmu_refs_def mmu_ok_def)
    then show ?thesis by (auto simp: retain_page_def e mmu_retain_def Let_def split: prod.splits)
  next
    case False
    then show ?thesis by (auto simp: retain_page_def e user_page_bits and_flag_eq_0 Let_def)
  qed
  then obtain m2 where "retain_page s t k m1 = (True, m2)" by (cases "retain_page s t k m1") simp
  then show ?case using m1 by (simp add: try_all_append)
qed simp

lemma frame_uses_total:
  assumes "i < k" "own_table m n i"
  shows "frame_uses m (table_at m d i) 1024 q + total_uses m d n i q \<le> total_uses m d n k q"
proof -
  have "total_uses m d n (Suc i) q \<le> total_uses m d n k q"
    unfolding total_uses_def by (rule sum_mono2) (use assms(1) in auto)
  then show ?thesis using assms(2) by (simp add: total_uses_def)
qed

lemma retain_tables_succeed:
  assumes sp: "space_ok m d" and fit: "counts_fit m d" and b: "copy_begun m m1 d n" and k: "k \<le> 1024"
  shows "\<exists>m2. try_all (retain_table d n) [0..<k] m1 = (True, m2)"
  using k
proof (induction k)
  case (Suc k)
  then obtain m2 where m2: "try_all (retain_table d n) [0..<k] m1 = (True, m2)" by auto
  have k: "k < 1024" using Suc.prems by simp
  note t = copy_begun_tables [OF sp b]
  have ok: "mmu_ok m1" using b unfolding copy_begun_def by blast
  note r = retain_tables [OF t(3) ok less_imp_le [OF k] m2]
  have keep: "phys m2 q = phys m1 q" if "\<forall>i<k. own_table m1 n i \<longrightarrow> q \<noteq> table_at m1 n i" for q using r that by blast
  have near: "table_at m1 n i \<noteq> d" "table_at m1 n i \<noteq> n" if "i < k" "own_table m1 n i" for i
    using tables_apartD(1,2) [OF t(3) _ that(2)] that(1) k by simp_all
  have dn: "phys m2 d = phys m1 d" "phys m2 n = phys m1 n" using keep [of d] keep [of n] near by metis+
  have "fst (retain_table d n k m2)"
  proof (cases "own_table m1 n k")
    case False
    then show ?thesis by (simp add: retain_table_def dn)
  next
    case True
    let ?s = "table_at m d k" and ?t = "table_at m1 n k"
    have own: "own_table m d k" using True t(4) [OF k] by simp
    have sd: "table_at m1 d k = ?s" by (simp add: t(1))
    have ne: "?s \<noteq> ?t" using tables_apartD(3) [OF t(3) k True k True] sd by simp
    have "?s \<noteq> table_at m1 n i" if "i < k" "own_table m1 n i" for i
      using tables_apartD(3) [OF t(3) _ that(2) k True] that(1) k sd by auto
    then have src: "phys m2 ?s = phys m ?s" using keep t(6) [OF k own] by metis
    have uses: "frame_uses m2 ?s 1024 q = frame_uses m1 (table_at m1 d k) 1024 q" for q
      unfolding sd by (rule frame_uses_cong) (simp add: src t(6) [OF k own])
    have "0 < mmu_refs m2 q \<and> mmu_refs m2 q + frame_uses m2 ?s 1024 q \<le> 65535"
      if j: "j < 1024" "user_page (phys m ?s j)" "q = page_base (phys m ?s j)" for j q
    proof -
      have q: "0 < mmu_refs m q" using own_entry(1) [OF sp k own j(1,2)] j(3) by simp
      then have "mmu_refs m1 q = mmu_refs m q" using b unfolding copy_begun_def by blast
      then have "mmu_refs m2 q = mmu_refs m q + total_uses m1 d n k q" using r by simp
      then show ?thesis
        using q uses [of q] frame_uses_total [OF k True, of d q] copy_begun_uses [OF sp b, of q]
          fit [unfolded counts_fit_def, rule_format, of q] by simp
    qed
    then have "\<exists>m'. try_all (retain_page ?s ?t) [0..<1024] m2 = (True, m')"
      using r src by (intro retain_pages_succeed [OF ne]) simp_all
    then show ?thesis using True by (auto simp: retain_table_def dn t(1) PAGES_PER_TABLE_def)
  qed
  then obtain m3 where "retain_table d n k m2 = (True, m3)" by (cases "retain_table d n k m2") simp
  then show ?case using m2 by (simp add: try_all_append)
qed simp

text \<open>What a copy needs.\<close>

definition clone_fits :: "mmu \<Rightarrow> u32 \<Rightarrow> bool" where
  "clone_fits m d \<longleftrightarrow> frame_fail_after (mmu_frames m) < 0 \<and> counts_fit m d \<and>
     card {i. i < 1024 \<and> own_table m d i} < card (low_free m)"

lemma clone_directory_succeeds:
  assumes sp: "space_ok m d" and d: "d \<noteq> 0" "kernel_scratch_table m \<noteq> 0" and c: "clone_fits m d"
  shows "\<exists>n m'. n \<noteq> 0 \<and> paging_clone_directory d m = (n, m')"
proof -
  have fit: "counts_fit m d" and free: "frame_fail_after (mmu_frames m) < 0" "card {i. i < 1024 \<and> own_table m d i} < card (low_free m)"
    using c by (simp_all add: clone_fits_def)
  have mok: "mmu_ok m" using sp by (simp add: space_ok_def)
  have base: "page_base d = d" using sp page_base_of_aligned by (simp add: space_ok_def pgdir_ok_def)
  obtain n m0 where al: "allocator_alloc_page_table m = (n, m0)" by force
  have "low_free m \<noteq> {}" using free(2) by auto
  note a = alloc_page_table_free [OF mok free(1) this al]
  have a': "n \<noteq> 0" "frame_fail_after (mmu_frames m0) < 0" "card {i. i < 1024 \<and> own_table m d i} \<le> card (low_free m0)"
    using a free(2) by simp_all
  obtain m1 where m1: "try_all (clone_table d n) [0..<1024] m0 = (True, m1)"
    using clone_tables_succeed [OF sp fit al a' order_refl] by blast
  obtain m2 where "try_all (retain_table d n) [0..<1024] m1 = (True, m2)"
    using retain_tables_succeed [OF sp fit clone_begins [OF sp al a'(1) m1] order_refl] by blast
  then show ?thesis
    using d al a'(1) m1 by (simp add: paging_clone_directory_def base Let_def TABLES_PER_DIR_def)
qed

section \<open>An example\<close>

text \<open>A process with one writable page, and six free frames.\<close>

definition fork_demo :: mmu where
  "fork_demo = (space_demo 0x200007)\<lparr>mmu_frames := frame_demo\<lparr>total_frames := 776\<rparr>\<rparr>"

lemma fork_demo_bits: "f < 776 \<Longrightarrow> bitmap_test (frame_demo\<lparr>total_frames := 776\<rparr>) f \<longleftrightarrow> f < 769 \<or> f = 770"
proof -
  assume f: "f < 776"
  show ?thesis
  proof (cases "f < 768")
    case True
    then have "f div 8 < 96" by simp
    then show ?thesis using True by (simp add: bitmap_test_def frame_demo_def bit_test_all_ones)
  next
    case False
    then consider "f = 768" | "f = 769" | "f = 770" | "f = 771" | "f = 772" | "f = 773" | "f = 774" | "f = 775"
      using f by fastforce
    then show ?thesis by cases (simp_all add: bitmap_test_def frame_demo_def bit_test_def)
  qed
qed

lemma fork_demo_frames_ok: "frame_ok (frame_demo\<lparr>total_frames := 776\<rparr>)"
proof -
  let ?s = "frame_demo\<lparr>total_frames := 776\<rparr>"
  have "allocated ?s = {..<769} \<union> {770}" using fork_demo_bits by (auto simp: allocated_def)
  moreover have "bitmap_test ?s f \<longleftrightarrow> frame_refcounts ?s f \<noteq> 0" if "f < 776" for f
    using fork_demo_bits [OF that] that by (auto simp: frame_demo_def)
  ultimately show ?thesis by (auto simp: frame_ok_def frame_inv_def low_reserved_def frame_demo_def)
qed

lemma fork_demo_refs: "frame_refs (frame_demo\<lparr>total_frames := 776\<rparr>) q = frame_refs frame_demo q"
proof -
  have "frame_refcounts frame_demo f = 0" if "771 \<le> f" for f using that by (simp add: frame_demo_def)
  then show ?thesis
    unfolding frame_refs_eq [OF frame_demo_ok] frame_refs_eq [OF fork_demo_frames_ok] by (auto simp: frame_demo_def)
qed

lemma fork_demo_ok: "space_ok fork_demo 0x300000"
proof -
  have sp: "space_ok (space_demo 0x200007) 0x300000" by (rule space_demo_ok) (simp add: page_base_def)
  have "mmu_refs (space_demo 0x200007) q = frame_refs frame_demo q" for q by (simp add: mmu_refs_def space_demo_def)
  then show ?thesis
    unfolding fork_demo_def
    using space_ok_pages_of [OF sp] by (intro space_ok_frames [OF sp fork_demo_frames_ok]) (simp_all add: fork_demo_refs)
qed

lemma fork_demo_own: "own_table fork_demo 0x300000 i \<longleftrightarrow> i = 256"
  by (simp add: fork_demo_def space_demo_def private_table_def PAGE_PRESENT_def PAGE_USER_def)

lemma fork_demo_fits: "clone_fits fork_demo 0x300000"
proof -
  have fr: "mmu_frames fork_demo = frame_demo\<lparr>total_frames := 776\<rparr>" by (simp add: fork_demo_def)
  have "frame_uses fork_demo t 1024 q \<le> 1024" for t q
    unfolding frame_uses_def by (rule order_trans [OF card_mono [of "{..<1024}"]]) auto
  then have "total_uses fork_demo 0x300000 0x300000 1024 q \<le> 1024" for q
    unfolding total_uses_def fork_demo_own by (simp add: sum.delta)
  moreover have "frame_refs frame_demo q \<le> 1" for q
    unfolding frame_refs_eq [OF frame_demo_ok] by (simp add: frame_demo_def)
  ultimately have bnd: "frame_refs frame_demo q + total_uses fork_demo 0x300000 0x300000 1024 q \<le> 1 + 1024" for q
    by (meson add_mono)
  have "counts_fit fork_demo 0x300000"
    unfolding counts_fit_def mmu_refs_def fr fork_demo_refs by (rule allI, rule order_trans [OF bnd]) simp
  moreover have "{769, 771} \<subseteq> low_free fork_demo"
    unfolding fr free_below_def by (auto simp: fork_demo_bits frame_bound_def IDENTITY_MAPPED_LIMIT_def)
  then have "2 \<le> card (low_free fork_demo)" using card_mono [of "low_free fork_demo" "{769, 771}"] by simp
  moreover have "{i. i < 1024 \<and> own_table fork_demo 0x300000 i} = {256}" unfolding fork_demo_own by auto
  ultimately show ?thesis by (simp add: clone_fits_def fr) (simp add: frame_demo_def)
qed

section \<open>Properties\<close>

text \<open>C1: A process forks. With a free frame for the directory and each table of its own, and reference counts
  that fit, paging_clone_directory succeeds. After it, however the stores of parent and child to writable pages
  interleave, each going through the copy-on-write fault of vm.c where its page is shared, the parent reads its
  old memory with its own stores and the child reads the memory of the parent at the fork with the stores of the child:
  none is lost and none is seen by the other. The stores stop only when no frame is free for a copy, and
  both address spaces stay well-formed.\<close>

theorem fork_isolation:
  assumes "space_ok m (p_cr3 p)" "p_cr3 p \<noteq> 0" "kernel_scratch_table m \<noteq> 0" "\<forall>(c, v, b)\<in>set ws. can_write m (p_cr3 p) v"
    "paging_clone_directory (p_cr3 p) m = (n, m1)" "run_stores p (q\<lparr>p_cr3 := n\<rparr>) ws m1 = (rest, m')"
  shows "(clone_fits m (p_cr3 p) \<longrightarrow> n \<noteq> 0) \<and>
    (n \<noteq> 0 \<longrightarrow> space_ok m' (p_cr3 p) \<and> space_ok m' n \<and> mmu_fault m' = mmu_fault m \<and>
      (\<exists>ran. ws = ran @ rest \<and> view m' (p_cr3 p) = own_stores False ran (view m (p_cr3 p)) \<and>
        view m' n = own_stores True ran (view m (p_cr3 p))) \<and>
      (rest = [] \<or> fst (frame_alloc (mmu_frames m')) = 0))"
proof (intro conjI impI)
  show "n \<noteq> 0" if "clone_fits m (p_cr3 p)" using clone_directory_succeeds [OF assms(1-3) that] assms(5) by auto
next
  assume n: "n \<noteq> 0"
  have "\<exists>ran. ws = ran @ rest \<and> view m' (p_cr3 p) = own_stores False ran (view m (p_cr3 p)) \<and>
      view m' n = own_stores True ran (view m (p_cr3 p)) \<and> twins m' (p_cr3 p) n \<and>
      mmu_fault m' = mmu_fault m \<and> (rest = [] \<or> fst (frame_alloc (mmu_frames m')) = 0)"
    using fork_runs_isolated [OF assms(1), of "q\<lparr>p_cr3 := n\<rparr>" m1 ws rest m'] assms(4-6) n by simp
  then show "space_ok m' (p_cr3 p)" "space_ok m' n" "mmu_fault m' = mmu_fault m"
      "\<exists>ran. ws = ran @ rest \<and> view m' (p_cr3 p) = own_stores False ran (view m (p_cr3 p)) \<and>
        view m' n = own_stores True ran (view m (p_cr3 p))"
      "rest = [] \<or> fst (frame_alloc (mmu_frames m')) = 0"
    unfolding twins_def by blast+
qed

theorem fork_isolation_witness:
  "\<exists>n m1 rest m' ran. paging_clone_directory 0x300000 fork_demo = (n, m1) \<and> n \<noteq> 0 \<and>
     run_stores (zero_process\<lparr>p_cr3 := 0x300000\<rparr>) (zero_process\<lparr>p_cr3 := n\<rparr>)
       [(True, 0x40000000, 42), (False, 0x40000001, 7)] m1 = (rest, m') \<and>
     ran @ rest = [(True, 0x40000000, 42), (False, 0x40000001, 7)] \<and>
     view m' 0x300000 = own_stores False ran (view fork_demo 0x300000) \<and>
     view m' n = own_stores True ran (view fork_demo 0x300000)"
proof -
  let ?p = "zero_process\<lparr>p_cr3 := 0x300000\<rparr>" and ?ws = "[(True, 0x40000000, 42), (False, 0x40000001, 7)] :: (bool \<times> u32 \<times> u8) list"
  obtain n m1 where c: "paging_clone_directory 0x300000 fork_demo = (n, m1)" by force
  obtain rest m' where r: "run_stores ?p (zero_process\<lparr>p_cr3 := n\<rparr>) ?ws m1 = (rest, m')" by force
  have s: "kernel_scratch_table fork_demo \<noteq> 0" by (simp add: fork_demo_def space_demo_def)
  have u: "user_at fork_demo 0x300000 v g = user_at (space_demo 0x200007) 0x300000 v g" for v g
    by (simp add: fork_demo_def user_at_def)
  have "can_write fork_demo 0x300000 0x40000000" "can_write fork_demo 0x300000 0x40000001"
    unfolding can_write_def u space_demo_user by (simp_all add: same_page_def dir_index_def table_index_def)
  then have w: "\<forall>(c, v, b)\<in>set ?ws. can_write fork_demo (p_cr3 ?p) v" by simp
  show ?thesis
    using fork_isolation [of fork_demo ?p ?ws n m1 zero_process rest m'] fork_demo_ok fork_demo_fits s w c r
    by (simp add: eq_commute [of "_ @ _"])
qed

end
