(* ===== verification/Frame_Supply.thy ===== *)
theory Frame_Supply
  imports Fork_Success
begin

text \<open>
  How many frames an operation takes from the supply below 4 MiB. The allocator hands out the lowest free frame, so an
  allocation with any limit takes at most one of these, and mapping a page takes at most one more, for its page table. With the
  failure hook of the self tests off, an allocation succeeds while the supply lasts.
\<close>

lemma frame_alloc_low:
  assumes ok: "frame_ok s" "frame_fail_after s < 0" and free: "free_below IDENTITY_MAPPED_LIMIT s \<noteq> {}"
    and al: "frame_alloc s = (a, s')"
  shows "a \<noteq> 0 \<and> frame_fail_after s' < 0 \<and>
    card (free_below IDENTITY_MAPPED_LIMIT s) \<le> Suc (card (free_below IDENTITY_MAPPED_LIMIT s'))"
proof -
  let ?limit = "total_frames s * FRAME_SIZE"
  have init: "frame_initialized s" "frame_fail_after s \<noteq> 0" using ok by (simp_all add: frame_ok_def)
  have total: "unat (total_frames s) \<le> 131072" using ok(1) by (simp add: frame_ok_def frame_inv_def)
  then have "unat ?limit = unat (total_frames s) * 4096" using unat_frame_addr [of "unat (total_frames s)"] by simp
  then have bound: "frame_bound s ?limit = unat (total_frames s)" by (simp add: frame_bound_def)
  show ?thesis
    using init
  proof (cases rule: frame_alloc_below_cases [where limit = ?limit])
    case (found f s1)
    have f: "f < 131072" using found(4) bound total by simp
    have r: "a = of_nat f * FRAME_SIZE" "s' = frame_take f s1" using found(1) al by (simp_all add: frame_alloc_def)
    have "free_below IDENTITY_MAPPED_LIMIT s \<subseteq> insert f (free_below IDENTITY_MAPPED_LIMIT s')"
      using found(2) r(2) by (auto simp: free_below_def frame_bound_def frame_take_def bitmap_set_def bitmap_test_def bit_test_set)
    then have "card (free_below IDENTITY_MAPPED_LIMIT s) \<le> card (insert f (free_below IDENTITY_MAPPED_LIMIT s'))"
      by (intro card_mono) simp_all
    also have "\<dots> \<le> Suc (card (free_below IDENTITY_MAPPED_LIMIT s'))" by (simp add: card_insert_if)
    finally have "card (free_below IDENTITY_MAPPED_LIMIT s) \<le> Suc (card (free_below IDENTITY_MAPPED_LIMIT s'))" .
    moreover have "a \<noteq> 0" unfolding r(1) using frame_addr_facts [OF found(3) f] by auto
    ultimately show ?thesis using found(2) r(2) ok(2) by (auto simp: frame_take_def bitmap_set_def)
  next
    case (full s1)
    then have "bitmap_test s f" if "768 \<le> f" "f < unat (total_frames s)" for f using that bound by simp
    then show ?thesis using free frame_bound_le [of s IDENTITY_MAPPED_LIMIT] by (fastforce simp: free_below_def)
  qed
qed

lemma mmu_alloc_low:
  assumes "mmu_ok m" "frame_fail_after (mmu_frames m) < 0" "low_free m \<noteq> {}" "mmu_alloc m = (a, m')"
  shows "a \<noteq> 0 \<and> page_aligned a \<and> mmu_ok m' \<and> frame_fail_after (mmu_frames m') < 0 \<and>
    card (low_free m) \<le> Suc (card (low_free m'))"
proof -
  obtain s where s: "frame_alloc (mmu_frames m) = (a, s)" "m' = m\<lparr>mmu_frames := s\<rparr>"
    using assms(4) by (auto simp: mmu_alloc_def split: prod.splits)
  have ok: "frame_ok (mmu_frames m)" using assms(1) by (simp add: mmu_ok_def)
  note low = frame_alloc_low [OF ok assms(2,3) s(1)]
  have "frame_ok s \<and> page_aligned a"
    using frames.alloc_inv [OF ok s(1)] frames.alloc_some [OF ok s(1)] low by simp
  then show ?thesis using low s(2) by (simp add: mmu_ok_def)
qed

lemma map_page_low:
  assumes ok: "mmu_ok m" "frame_fail_after (mmu_frames m) < 0" "low_free m \<noteq> {}" and d: "cr3 \<noteq> 0" "page_aligned p"
    and mp: "paging_map_page_in_directory cr3 v p flags m = (b, m')"
  shows "b \<and> frame_fail_after (mmu_frames m') < 0 \<and> card (low_free m) \<le> Suc (card (low_free m'))"
proof -
  obtain t m1 where t: "allocator_alloc_page_table m = (t, m1)" by force
  show ?thesis
    using mp [unfolded map_page_ensure [OF d] ensure_table_def] alloc_page_table_free [OF ok t] t ok(2)
    by (auto simp: Let_def split: if_splits)
qed

text \<open>Writing to memory through the page tables takes no frame.\<close>

lemma store_bytes_frames [simp]: "mmu_frames (store_bytes v bs m) = mmu_frames m"
  by (induction bs arbitrary: v m) (simp_all add: store_byte_def Let_def)

lemma set_flags_frames [simp]: "mmu_frames (snd (paging_set_page_flags_in_directory d v fl m)) = mmu_frames m"
  by (simp add: paging_set_page_flags_in_directory_def Let_def)

end
