(* ===== verification/Elf_Spec.thy ===== *)
theory Elf_Spec
  imports Elf Uaccess_Spec Frame_Supply
begin

text \<open>
  What the program loader guarantees. The first pass over the program headers accepts only segments that lie
  in the load window of user space and in the file, on pairwise disjoint pages and small enough together. The second
  pass then puts exactly their bytes into user memory, zeroes the rest of each segment, makes the pages of a segment
  writable only if its header says so, and leaves all other user memory alone.
\<close>

section \<open>Pages of a segment\<close>

definition seg_fits :: "u32 \<Rightarrow> u32 \<Rightarrow> bool" where
  "seg_fits vaddr memsz \<longleftrightarrow> 0 < unat memsz \<and> unat memsz \<le> 65536 \<and> 0x40000000 \<le> unat vaddr \<and>
     unat vaddr + unat memsz \<le> 0x90000000"

definition seg_first :: "u32 \<Rightarrow> nat" where
  "seg_first vaddr = unat vaddr div 4096"

definition seg_last :: "u32 \<Rightarrow> u32 \<Rightarrow> nat" where
  "seg_last vaddr memsz = (unat vaddr + unat memsz - 1) div 4096"

lemma elf_align_down_base: "elf_align_down v = page_base v"
  by (simp add: elf_align_down_def page_base_align_down align_down_def)

lemma unat_elf_align_up:
  assumes "0 < x" "unat x \<le> 0x90000000"
  shows "unat (elf_align_up x) = (unat x - 1) div 4096 * 4096 + 4096"
proof -
  have "unat (x + FRAME_SIZE - 1) = unat x + 4095"
    using assms(2) by (simp add: FRAME_SIZE_def unat_word_ariths)
  then have "unat (elf_align_up x) = (unat x + 4095) div 4096 * 4096"
    using unat_align_down [of "x + FRAME_SIZE - 1"] by (simp only: elf_align_up_def align_down_def)
  moreover have "unat x + 4095 = (unat x - 1) + 4096" using assms(1) by (simp add: word_less_nat_alt)
  moreover have "(n + 4096) div 4096 * 4096 = n div 4096 * 4096 + 4096" for n :: nat
    by (metis add_mult_distrib div_add_self2 mult_1 zero_neq_numeral)
  ultimately show ?thesis by presburger
qed

lemma seg_end:
  assumes "seg_fits vaddr memsz"
  shows "unat (vaddr + memsz) = unat vaddr + unat memsz" "0 < vaddr + memsz"
proof -
  show s: "unat (vaddr + memsz) = unat vaddr + unat memsz"
    using assms by (simp add: seg_fits_def unat_word_ariths)
  show "0 < vaddr + memsz" using s assms by (simp add: seg_fits_def word_less_nat_alt)
qed

lemma seg_bounds:
  assumes "seg_fits vaddr memsz"
  shows "unat (elf_align_down vaddr) = seg_first vaddr * 4096"
    "unat (elf_align_up (vaddr + memsz)) = seg_last vaddr memsz * 4096 + 4096"
    "seg_first vaddr \<le> seg_last vaddr memsz" "seg_last vaddr memsz < 0x90000"
    "seg_last vaddr memsz \<le> seg_first vaddr + 16"
proof -
  show "unat (elf_align_down vaddr) = seg_first vaddr * 4096"
    by (simp add: elf_align_down_base unat_page_base seg_first_def)
  show "unat (elf_align_up (vaddr + memsz)) = seg_last vaddr memsz * 4096 + 4096"
    using assms seg_end [OF assms] by (subst unat_elf_align_up) (simp_all add: seg_last_def seg_fits_def)
  have f: "0 < unat memsz" "unat memsz \<le> 65536" "unat vaddr + unat memsz \<le> 0x90000000"
    using assms by (simp_all add: seg_fits_def)
  show "seg_first vaddr \<le> seg_last vaddr memsz"
    unfolding seg_first_def seg_last_def using f by (intro div_le_mono) simp
  show "seg_last vaddr memsz < 0x90000"
    using f by (simp add: seg_last_def div_less_iff_less_mult)
  have "seg_last vaddr memsz \<le> (unat vaddr + 16 * 4096) div 4096"
    unfolding seg_last_def using f by (intro div_le_mono) simp
  then show "seg_last vaddr memsz \<le> seg_first vaddr + 16" by (simp add: seg_first_def)
qed

lemma of_nat_page: "n < 0x90000 \<Longrightarrow> unat (of_nat n * FRAME_SIZE :: u32) = n * 4096"
  by (simp add: FRAME_SIZE_def unat_word_ariths unat_of_nat)

lemma segment_pages_eq:
  assumes "seg_fits vaddr memsz"
  shows "segment_pages vaddr memsz =
    map (\<lambda>n. of_nat n * FRAME_SIZE) [seg_first vaddr..<Suc (seg_last vaddr memsz)]"
proof -
  note b = seg_bounds [OF assms]
  have s: "elf_align_down vaddr = of_nat (seg_first vaddr) * FRAME_SIZE"
    by (simp add: elf_align_down_base page_base_number seg_first_def PAGE_SIZE_def FRAME_SIZE_def)
  have "(unat (elf_align_up (vaddr + memsz)) - unat (elf_align_down vaddr)) div unat FRAME_SIZE
      = Suc (seg_last vaddr memsz) - seg_first vaddr"
  proof -
    have "seg_last vaddr memsz * 4096 + 4096 - seg_first vaddr * 4096 = (Suc (seg_last vaddr memsz) - seg_first vaddr) * 4096"
      by (simp add: algebra_simps)
    then show ?thesis by (simp add: b(1,2) FRAME_SIZE_def)
  qed
  then show ?thesis
    by (intro nth_equalityI) (simp_all add: segment_pages_def Let_def s algebra_simps del: upt_Suc)
qed

lemma page_number_iff: "n < 0x90000 \<Longrightarrow> page_base w = of_nat n * FRAME_SIZE \<longleftrightarrow> unat w div 4096 = n"
  using of_nat_page [of n] unat_page_base [of w] by (auto simp: word_unat_eq_iff)

lemma in_segment_pages:
  assumes "seg_fits vaddr memsz"
  shows "page_base w \<in> set (segment_pages vaddr memsz) \<longleftrightarrow>
    seg_first vaddr \<le> unat w div 4096 \<and> unat w div 4096 \<le> seg_last vaddr memsz"
proof -
  have "page_base w \<in> set (segment_pages vaddr memsz) \<longleftrightarrow>
      (\<exists>n. seg_first vaddr \<le> n \<and> n \<le> seg_last vaddr memsz \<and> page_base w = of_nat n * FRAME_SIZE)"
    by (auto simp: segment_pages_eq [OF assms] less_Suc_eq_le simp del: upt_Suc)
  also have "\<dots> \<longleftrightarrow> (\<exists>n. seg_first vaddr \<le> n \<and> n \<le> seg_last vaddr memsz \<and> unat w div 4096 = n)"
    using seg_bounds(4) [OF assms] page_number_iff [of _ w] by (intro ex_cong1) (simp cong: conj_cong)
  finally show ?thesis by simp
qed

lemma segment_pages_aligned:
  assumes "seg_fits vaddr memsz" "page \<in> set (segment_pages vaddr memsz)"
  shows "page_aligned page" "page < USER_SPACE_END" "page_base page = page"
proof -
  obtain n where n: "page = of_nat n * FRAME_SIZE" "n < 0x90000"
    using assms seg_bounds(4) [OF assms(1)] by (auto simp: segment_pages_eq)
  then have u: "unat page = n * 4096" using of_nat_page by simp
  then show "page_aligned page" "page < USER_SPACE_END"
    using n(2) by (simp_all add: page_aligned_iff USER_SPACE_END_def word_less_nat_alt)
  then show "page_base page = page" by (simp add: page_base_of_aligned)
qed

lemma segment_pages_distinct:
  assumes "seg_fits vaddr memsz"
  shows "distinct (segment_pages vaddr memsz)" "length (segment_pages vaddr memsz) \<le> 17"
proof -
  note b = seg_bounds [OF assms]
  have "inj_on (\<lambda>n. of_nat n * FRAME_SIZE :: u32) {seg_first vaddr..<Suc (seg_last vaddr memsz)}"
    by (rule inj_on_inverseI [where g = "\<lambda>p. unat p div 4096"]) (use b(4) of_nat_page in simp)
  then show "distinct (segment_pages vaddr memsz)" unfolding segment_pages_eq [OF assms]
    by (simp only: distinct_map set_upt distinct_upt simp_thms)
  show "length (segment_pages vaddr memsz) \<le> 17" using b(5) by (simp add: segment_pages_eq [OF assms] del: upt_Suc)
qed

lemma segment_covers:
  assumes "seg_fits vaddr memsz" "i < unat memsz"
  shows "unat (vaddr + of_nat i) = unat vaddr + i" "page_base (vaddr + of_nat i) \<in> set (segment_pages vaddr memsz)"
proof -
  have f: "unat memsz \<le> 65536" "unat vaddr + unat memsz \<le> 0x90000000" using assms(1) by (simp_all add: seg_fits_def)
  show u: "unat (vaddr + of_nat i) = unat vaddr + i"
    using f assms(2) by (simp add: unat_word_ariths unat_of_nat)
  show "page_base (vaddr + of_nat i) \<in> set (segment_pages vaddr memsz)"
    unfolding in_segment_pages [OF assms(1)] u seg_first_def seg_last_def
    using assms(2) by (auto intro!: div_le_mono)
qed

section \<open>Mapping the pages\<close>

text \<open>What an operation on the pages \<open>P\<close> of the active space leaves alone.\<close>

definition space_kept :: "u32 set \<Rightarrow> mmu \<Rightarrow> mmu \<Rightarrow> bool" where
  "space_kept P m m' \<longleftrightarrow> active_ok m' \<and> active_page_directory m' = active_page_directory m \<and>
     mmu_fault m' = mmu_fault m \<and>
     (\<forall>w. page_base w \<notin> P \<longrightarrow> walk_entry (active_page_directory m) w m' = walk_entry (active_page_directory m) w m \<and>
        umem m' w = umem m w)"

lemma space_kept_refl: "active_ok m \<Longrightarrow> space_kept P m m"
  by (simp add: space_kept_def)

lemma space_kept_trans: "space_kept P m m1 \<Longrightarrow> space_kept Q m1 m2 \<Longrightarrow> space_kept (P \<union> Q) m m2"
  by (simp add: space_kept_def)

lemma space_kept_mono: "space_kept P m m' \<Longrightarrow> P \<subseteq> Q \<Longrightarrow> space_kept Q m m'"
  by (auto simp: space_kept_def)

lemma space_kept_writable:
  "space_kept P m m' \<Longrightarrow> page_base w \<notin> P \<Longrightarrow> user_writable m' w = user_writable m w"
  by (simp add: space_kept_def user_writable_def user_at_def)

lemma is_user_writable_active:
  assumes "active_ok m" "user_writable m v"
  shows "paging_is_user_writable v m"
  using assms is_user_writable_entry [OF _ refl] by (auto simp: active_ok_def user_writable_def)

lemma is_mapped_walk: "paging_is_mapped v m \<longleftrightarrow> walk_entry (active_page_directory m) v m \<noteq> None"
  by (simp add: paging_is_mapped_def walk_entry_def Let_def)

text \<open>One page of a segment: a fresh frame, mapped writable.\<close>

lemma map_one_page:
  assumes ok: "active_ok m" "active_page_directory m \<noteq> 0" and pg: "page_aligned page" "page < USER_SPACE_END"
    and al: "mmu_alloc m = (f, m1)" "f \<noteq> 0"
    and mp: "paging_map_page_in_directory (active_page_directory m) page f (PAGE_PRESENT OR PAGE_WRITABLE OR PAGE_USER) m1 = (True, m2)"
  shows "space_kept {page} m m2 \<and> (\<forall>w. page_base w = page \<longrightarrow> user_writable m2 w)"
proof -
  let ?d = "active_page_directory m" and ?fl = "PAGE_PRESENT OR PAGE_WRITABLE OR PAGE_USER"
  note mf = map_fresh_page [OF ok(1) refl ok(2) pg(2) al mp]
  have sp: "same_page w page \<longleftrightarrow> page_base w = page" for w
    using page_base_of_aligned [OF pg(1)] by (simp add: same_page_iff)
  have act: "active_page_directory m2 = ?d" using mf by blast
  have "umem m2 w = umem m w" if "page_base w \<noteq> page" for w
    using umem_kept [OF ok(1) act, of w] mf that sp by blast
  then have "space_kept {page} m m2" using mf sp by (simp add: space_kept_def)
  moreover have "user_writable m2 w" if "page_base w = page" for w
  proof -
    have "walk_entry ?d w m2 = Some (f OR (?fl AND 0xFFF) OR PAGE_PRESENT)" "page_aligned f"
      using mf that sp [of w] walk_same_page [of w page] by simp_all
    then show ?thesis using act by (simp add: user_writable_def user_at_def entry_bits page_aligned_bits)
  qed
  ultimately show ?thesis by blast
qed

lemma map_pages_spec:
  assumes "active_ok m" "active_page_directory m \<noteq> 0" "\<forall>page\<in>set pages. page_aligned page \<and> page < USER_SPACE_END"
    "distinct pages" "map_pages pages mapped m = (st, m')"
  shows "(st = ELF_SUCCESS \<longrightarrow> space_kept (set pages) m m' \<and> (\<forall>w. page_base w \<in> set pages \<longrightarrow> user_writable m' w)) \<and>
    (st = ELF_EINVAL \<longrightarrow> (\<exists>page\<in>set pages. walk_entry (active_page_directory m) page m \<noteq> None)) \<and>
    st \<in> {ELF_SUCCESS, ELF_EINVAL, ELF_ENOSPC}"
  using assms
proof (induction pages arbitrary: m mapped)
  case Nil
  then show ?case by (simp add: space_kept_refl ELF_SUCCESS_def ELF_EINVAL_def)
next
  case (Cons page pages)
  let ?d = "active_page_directory m"
  have pg: "page_aligned page" "page < USER_SPACE_END" using Cons.prems(3) by simp_all
  obtain f m1 where al: "mmu_alloc m = (f, m1)" by force
  have act1: "active_page_directory m1 = ?d" using al by (auto simp: mmu_alloc_def Let_def split: prod.splits)
  obtain okm m2 where mp: "paging_map_page_in_directory ?d page f (PAGE_PRESENT OR PAGE_WRITABLE OR PAGE_USER) m1 = (okm, m2)"
    by force
  show ?case
  proof (cases "walk_entry ?d page m \<noteq> None \<or> f = 0 \<or> \<not> okm")
    case True
    then show ?thesis
      using Cons.prems(5) al mp act1
      by (auto simp: is_mapped_walk paging_get_current_directory_def ELF_SUCCESS_def ELF_EINVAL_def ELF_ENOSPC_def
          split: if_splits)
  next
    case False
    then have one: "space_kept {page} m m2" "\<And>w. page_base w = page \<Longrightarrow> user_writable m2 w"
      using map_one_page [OF Cons.prems(1,2) pg al] mp by auto
    then have m2: "active_ok m2" "active_page_directory m2 = ?d" by (simp_all add: space_kept_def)
    have "user_writable m2 page" using one(2) pg(1) page_base_of_aligned by simp
    then have rest: "map_pages pages (mapped @ [(page, f)]) m2 = (st, m')"
      using Cons.prems(5) False al mp act1 is_user_writable_active [OF m2(1)]
      by (simp add: is_mapped_walk paging_get_current_directory_def)
    have ih: "(st = ELF_SUCCESS \<longrightarrow> space_kept (set pages) m2 m' \<and> (\<forall>w. page_base w \<in> set pages \<longrightarrow> user_writable m' w)) \<and>
        (st = ELF_EINVAL \<longrightarrow> (\<exists>page\<in>set pages. walk_entry ?d page m2 \<noteq> None)) \<and>
        st \<in> {ELF_SUCCESS, ELF_EINVAL, ELF_ENOSPC}"
      using Cons.IH [OF m2(1) _ _ _ rest] Cons.prems(2-4) m2(2) by simp
    have "walk_entry ?d q m2 = walk_entry ?d q m" if "q \<in> set pages" for q
    proof -
      have "page_base q = q" using that Cons.prems(3) page_base_of_aligned by simp
      then have "page_base q \<notin> {page}" using that Cons.prems(4) by auto
      then show ?thesis using one(1) unfolding space_kept_def by blast
    qed
    moreover have "space_kept (set (page # pages)) m m'" if "st = ELF_SUCCESS"
      using ih that space_kept_trans [OF one(1)] by simp
    moreover have "user_writable m' w" if "st = ELF_SUCCESS" "page_base w \<in> set (page # pages)" for w
    proof (cases "page_base w \<in> set pages")
      case True
      then show ?thesis using ih that by blast
    next
      case False
      moreover have "space_kept (set pages) m2 m'" using ih that by blast
      ultimately show ?thesis using that(2) one(2) [of w] space_kept_writable by auto
    qed
    ultimately show ?thesis using ih by auto
  qed
qed

text \<open>With two frames for each page, one of them for a page table, it does not stop for want of a frame.\<close>

lemma map_pages_supplied:
  assumes "active_ok m" "active_page_directory m \<noteq> 0" "\<forall>page\<in>set pages. page_aligned page \<and> page < USER_SPACE_END"
    "map_pages pages mapped m = (st, m')"
    "frame_fail_after (mmu_frames m) < 0" "2 * length pages \<le> card (low_free m)"
  shows "st \<noteq> ELF_ENOSPC \<and> (st = ELF_SUCCESS \<longrightarrow> frame_fail_after (mmu_frames m') < 0 \<and>
    card (low_free m) \<le> card (low_free m') + 2 * length pages)"
  using assms
proof (induction pages arbitrary: m mapped)
  case Nil
  then show ?case by (simp add: ELF_SUCCESS_def ELF_ENOSPC_def)
next
  case (Cons page pages)
  let ?d = "active_page_directory m"
  have pg: "page_aligned page" "page < USER_SPACE_END" using Cons.prems(3) by simp_all
  have mok: "mmu_ok m" using Cons.prems(1) by (simp add: active_ok_def space_ok_def)
  obtain f m1 where al: "mmu_alloc m = (f, m1)" by force
  have act1: "active_page_directory m1 = ?d" using al by (auto simp: mmu_alloc_def Let_def split: prod.splits)
  obtain okm m2 where mp: "paging_map_page_in_directory ?d page f (PAGE_PRESENT OR PAGE_WRITABLE OR PAGE_USER) m1 = (okm, m2)"
    by force
  have "low_free m \<noteq> {}" using Cons.prems(6) by auto
  note a = mmu_alloc_low [OF mok Cons.prems(5) this al]
  then have "low_free m1 \<noteq> {}" using Cons.prems(6) by auto
  with a have b: "okm \<and> frame_fail_after (mmu_frames m2) < 0 \<and> card (low_free m1) \<le> Suc (card (low_free m2))"
    using map_page_low [OF _ _ _ Cons.prems(2) _ mp] by blast
  show ?case
  proof (cases "paging_is_mapped page m")
    case True
    then show ?thesis using Cons.prems(4) by (auto simp: ELF_SUCCESS_def ELF_EINVAL_def ELF_ENOSPC_def)
  next
    case False
    have one: "space_kept {page} m m2" "\<And>w. page_base w = page \<Longrightarrow> user_writable m2 w"
      using map_one_page [OF Cons.prems(1,2) pg al] mp a b by auto
    then have m2: "active_ok m2" "active_page_directory m2 = ?d" by (simp_all add: space_kept_def)
    have "user_writable m2 page" using one(2) pg(1) page_base_of_aligned by simp
    then have rest: "map_pages pages (mapped @ [(page, f)]) m2 = (st, m')"
      using Cons.prems(4) False al mp a b act1 is_user_writable_active [OF m2(1)]
      by (simp add: paging_get_current_directory_def)
    have "2 * length pages \<le> card (low_free m2)" using a b Cons.prems(6) by simp
    then show ?thesis using Cons.IH [OF m2(1) _ _ rest] m2(2) Cons.prems(2,3) a b by auto
  qed
qed

section \<open>Protecting the pages\<close>

lemma or_user_bit: "bit e 2 \<Longrightarrow> e OR PAGE_USER = e"
  by (rule bit_word_eqI) (auto simp: entry_bits)

lemma protect_page:
  assumes ok: "active_ok m" "active_page_directory m \<noteq> 0" and w: "user_writable m page" and fl: "bit flags 2"
  shows "\<exists>m'. paging_set_page_flags_in_directory (active_page_directory m) page flags m = (True, m') \<and>
    active_ok m' \<and> active_page_directory m' = active_page_directory m \<and> mmu_fault m' = mmu_fault m \<and> umem m' = umem m \<and>
    (\<forall>w. \<not> same_page w page \<longrightarrow> walk_entry (active_page_directory m) w m' = walk_entry (active_page_directory m) w m) \<and>
    (\<forall>w. same_page w page \<longrightarrow> user_writable m' w = bit flags 1)"
proof -
  let ?d = "active_page_directory m"
  have sp: "space_ok m ?d" using ok(1) by (simp add: active_ok_def)
  have base: "page_base ?d = ?d" using sp page_base_of_aligned by (simp add: space_ok_def pgdir_ok_def)
  obtain e where e: "user_at m ?d page e" "bit e 1" using w by (auto simp: user_writable_def)
  note f = user_at_facts [OF sp e(1)]
  obtain t where t: "table_of m ?d (dir_index page) = Some t" "phys m t (table_index page) = e"
      "bit (phys m ?d (dir_index page)) 2" "t \<noteq> ?d"
    using f(1) by blast
  have pr: "bit (phys m ?d (dir_index page)) 0" "page_base (phys m ?d (dir_index page)) = t" "bit e 0"
    using t(1) user_at_present [OF e(1)] by (auto simp: table_of_def split: if_splits)
  let ?e = "page_base e OR (flags AND 0xFFF) OR PAGE_PRESENT"
  let ?m = "put_word t (table_index page) ?e m"
  have eb: "bit ?e 0" "bit ?e 2" "bit ?e 1 = bit flags 1" "page_base ?e = page_base e"
    using fl by (auto simp: entry_bits bit_page_base intro!: bit_word_eqI)
  have same: "put_word ?d (dir_index page) (phys m ?d (dir_index page)) ?m = ?m"
    using t(4) by (simp add: put_word_def fun_upd_twist)
  have set: "paging_set_page_flags_in_directory ?d page flags m = (True, ?m)"
    using ok(2) base t pr fl same or_user_bit [OF t(3)]
    by (simp add: paging_set_page_flags_in_directory_def Let_def and_flag_eq_0 phys_put_word)
  have "space_ok ?m ?d"
    using f t(3) eb(4) space_ok_writable [OF sp e(1) _ _ e(2)]
    by (intro space_ok_put_entry [OF sp t(1) f(2)]) (auto simp: same_page_def)
  then have ok': "active_ok ?m" by (simp add: active_ok_def)
  have pe: "walk_entry ?d page ?m = Some ?e" "\<And>w. \<not> same_page w page \<Longrightarrow> walk_entry ?d w ?m = walk_entry ?d w m"
    using put_entry [OF _ t(1), of ?e] sp eb(1,2) t(3) by (simp_all add: space_ok_def)
  have u: "user_at ?m ?d w g \<longleftrightarrow> (if same_page w page then g = ?e else user_at m ?d w g)" for w g
    using pe walk_same_page [of w page] eb(2) by (auto simp: user_at_def)
  have "umem ?m w = umem m w" for w
  proof (cases "\<exists>g. user_at m ?d w g")
    case True
    then obtain g where g: "user_at m ?d w g" by blast
    have "page_base g \<noteq> t" using user_at_facts(5) [OF sp g] t(1) index_bounds(1) [of page] by auto
    moreover have "\<exists>g'. user_at ?m ?d w g' \<and> page_base g' = page_base g"
    proof (cases "same_page w page")
      case True
      then have "g = e" using user_at_functional [OF e(1) g] by (simp add: same_page_def)
      then show ?thesis using True u eb(4) by auto
    qed (use g u in auto)
    then obtain g' where g': "user_at ?m ?d w g'" "page_base g' = page_base g" by blast
    then show ?thesis
      using \<open>page_base g \<noteq> t\<close> by (intro umem_same_frame [OF g]) (auto simp: phys_put_word)
  next
    case False
    moreover have "\<nexists>g. user_at ?m ?d w g"
      using False u e(1) user_at_same_page [of w page m ?d e] by (auto split: if_splits)
    ultimately show ?thesis using umem_None [of m w] umem_None [of ?m w] by simp
  qed
  moreover have "user_writable ?m w = bit flags 1" if "same_page w page" for w
    using that u eb(3) by (simp add: user_writable_def)
  ultimately show ?thesis using set ok' pe(2) by (intro exI [of _ ?m]) (simp add: fun_eq_iff)
qed

lemma protect_pages_spec:
  assumes "active_ok m" "active_page_directory m \<noteq> 0" "distinct pages" "bit flags 2"
    "\<forall>page\<in>set pages. page_base page = page \<and> user_writable m page"
  shows "\<exists>m'. protect_pages pages flags m = (ELF_SUCCESS, m') \<and> space_kept (set pages) m m' \<and> umem m' = umem m \<and>
    (\<forall>w. page_base w \<in> set pages \<longrightarrow> user_writable m' w = bit flags 1)"
  using assms
proof (induction pages arbitrary: m)
  case Nil
  then show ?case by (simp add: space_kept_refl)
next
  case (Cons page pages)
  let ?d = "active_page_directory m"
  have pg: "page_base page = page" "user_writable m page" using Cons.prems(5) by simp_all
  have sp: "same_page w page \<longleftrightarrow> page_base w = page" for w using pg(1) by (simp add: same_page_iff)
  obtain m1 where m1: "paging_set_page_flags_in_directory ?d page flags m = (True, m1)" "active_ok m1"
      "active_page_directory m1 = ?d" "mmu_fault m1 = mmu_fault m" "umem m1 = umem m"
      "\<And>w. page_base w \<noteq> page \<Longrightarrow> walk_entry ?d w m1 = walk_entry ?d w m"
      "\<And>w. page_base w = page \<Longrightarrow> user_writable m1 w = bit flags 1"
    using protect_page [OF Cons.prems(1,2) pg(2) Cons.prems(4)] unfolding sp by blast
  have k1: "space_kept {page} m m1" using m1 by (simp add: space_kept_def)
  have "user_writable m1 q" if "q \<in> set pages" for q
    using that Cons.prems(3,5) space_kept_writable [OF k1, of q] by auto
  then obtain m' where m': "protect_pages pages flags m1 = (ELF_SUCCESS, m')" "space_kept (set pages) m1 m'" "umem m' = umem m1"
      "\<And>w. page_base w \<in> set pages \<Longrightarrow> user_writable m' w = bit flags 1"
    using Cons.IH [OF m1(2)] m1(3) Cons.prems(2-5) by auto
  have "user_writable m' w = bit flags 1" if "page_base w \<in> set (page # pages)" for w
    using that m'(4) [of w] m1(7) [of w] space_kept_writable [OF m'(2), of w] by (cases "page_base w \<in> set pages") auto
  moreover have "space_kept (set (page # pages)) m m'" using space_kept_trans [OF k1 m'(2)] by simp
  ultimately show ?case
    using m1(1,5) m'(1,3) by (intro exI [of _ m']) (simp add: paging_get_current_directory_def)
qed

section \<open>Loading the segments\<close>

abbreviation is_load :: "elf32_program_header \<Rightarrow> bool" where
  "is_load ph \<equiv> ph_type ph = ELF_PT_LOAD"

abbreviation ph_pages :: "elf32_program_header \<Rightarrow> u32 set" where
  "ph_pages ph \<equiv> set (segment_pages (ph_vaddr ph) (ph_memsz ph))"

definition seg_valid :: "nat \<Rightarrow> elf32_program_header \<Rightarrow> bool" where
  "seg_valid file_size ph \<longleftrightarrow> (is_load ph \<longrightarrow> seg_fits (ph_vaddr ph) (ph_memsz ph) \<and>
     unat (ph_filesz ph) \<le> unat (ph_memsz ph) \<and> unat (ph_offset ph) + unat (ph_filesz ph) \<le> file_size)"

definition seg_apart :: "elf32_program_header \<Rightarrow> elf32_program_header \<Rightarrow> bool" where
  "seg_apart p q \<longleftrightarrow> (is_load p \<and> is_load q \<longrightarrow> ph_pages p \<inter> ph_pages q = {})"

text \<open>The byte that a segment has at offset \<open>i\<close>: from the file, or zero beyond it.\<close>

definition seg_byte :: "u8 list \<Rightarrow> elf32_program_header \<Rightarrow> nat \<Rightarrow> u8" where
  "seg_byte buf ph i = (if i < unat (ph_filesz ph) then buf ! (unat (ph_offset ph) + i) else 0)"

definition seg_loaded :: "u8 list \<Rightarrow> elf32_program_header \<Rightarrow> mmu \<Rightarrow> bool" where
  "seg_loaded buf ph m \<longleftrightarrow>
     (\<forall>i < unat (ph_memsz ph). umem m (ph_vaddr ph + of_nat i) = Some (seg_byte buf ph i)) \<and>
     (\<forall>w. page_base w \<in> ph_pages ph \<longrightarrow> user_writable m w = (ph_flags ph AND ELF_PF_W \<noteq> 0))"

text \<open>Filling a mapped segment: zeros everywhere, then the bytes of the file over them.\<close>

lemma fill_segment:
  assumes ok: "active_ok m" and v: "seg_fits vaddr memsz" and n: "length bs \<le> unat memsz"
    and uw: "\<And>w. page_base w \<in> set (segment_pages vaddr memsz) \<Longrightarrow> user_writable m w"
  defines "m' \<equiv> store_bytes vaddr bs (set_bytes vaddr 0 (unat memsz) m)"
  shows "space_kept (set (segment_pages vaddr memsz)) m m' \<and> user_writable m' = user_writable m \<and>
    (\<forall>i<unat memsz. umem m' (vaddr + of_nat i) = Some (if i < length bs then bs ! i else 0))"
proof -
  let ?d = "active_page_directory m" and ?m = "set_bytes vaddr 0 (unat memsz) m"
  have small: "unat memsz \<le> 2 ^ 32" using v by (simp add: seg_fits_def)
  have z: "active_ok ?m" "umem ?m = (\<lambda>w. if unat (w - vaddr) < unat memsz then Some 0 else umem m w)"
      "mmu_fault ?m = mmu_fault m" "active_page_directory ?m = ?d" "\<And>x. walk_entry ?d x ?m = walk_entry ?d x m"
    using store_bytes_spec [OF ok, of "replicate (unat memsz) 0" vaddr] uw segment_covers(2) [OF v] small
    by (auto simp: set_bytes_def)
  have uz: "user_writable ?m = user_writable m" using z(4,5) by (intro user_writable_cong) simp_all
  then have s: "active_ok m'" "umem m' = (\<lambda>w. if unat (w - vaddr) < length bs then Some (bs ! unat (w - vaddr)) else umem ?m w)"
      "mmu_fault m' = mmu_fault m" "active_page_directory m' = ?d" "\<And>x. walk_entry ?d x m' = walk_entry ?d x m"
    unfolding m'_def using store_bytes_spec [OF z(1), of bs vaddr] uw segment_covers(2) [OF v] small n z(3-5) by auto
  have off: "unat memsz \<le> unat (w - vaddr)" if "page_base w \<notin> set (segment_pages vaddr memsz)" for w
    using that segment_covers(2) [OF v, of "unat (w - vaddr)"] by (cases "unat (w - vaddr) < unat memsz") auto
  have "umem m' w = umem m w" if "page_base w \<notin> set (segment_pages vaddr memsz)" for w
    using off [OF that] n by (simp add: s(2) z(2))
  then have "space_kept (set (segment_pages vaddr memsz)) m m'" using s by (simp add: space_kept_def)
  moreover have "user_writable m' = user_writable m" using s(4,5) by (intro user_writable_cong) simp_all
  moreover have "umem m' (vaddr + of_nat i) = Some (if i < length bs then bs ! i else 0)" if "i < unat memsz" for i
  proof -
    have "unat (of_nat i :: u32) = i" using that small by (intro unat_of_nat_small) simp
    then show ?thesis using that by (simp add: s(2) z(2))
  qed
  ultimately show ?thesis by blast
qed

lemma load_one_segment:
  assumes ok: "active_ok m" "active_page_directory m \<noteq> 0" and ph: "is_load ph" "seg_valid (length buf) ph"
    and mp: "map_segment_pages (ph_vaddr ph) (ph_memsz ph) m = (ELF_SUCCESS, m1)"
  defines "m2 \<equiv> store_bytes (ph_vaddr ph) (take (unat (ph_filesz ph)) (drop (unat (ph_offset ph)) buf))
    (set_bytes (ph_vaddr ph) 0 (unat (ph_memsz ph)) m1)"
  shows "\<exists>m3. protect_segment_pages (ph_vaddr ph) (ph_memsz ph) (ph_flags ph) m2 = (ELF_SUCCESS, m3) \<and>
    space_kept (ph_pages ph) m m3 \<and> seg_loaded buf ph m3"
proof -
  let ?v = "ph_vaddr ph" and ?n = "ph_memsz ph" and ?P = "ph_pages ph"
  let ?bs = "take (unat (ph_filesz ph)) (drop (unat (ph_offset ph)) buf)"
  let ?fl = "if ph_flags ph AND ELF_PF_W \<noteq> 0 then PAGE_PRESENT OR PAGE_USER OR PAGE_WRITABLE else PAGE_PRESENT OR PAGE_USER"
  have fit: "seg_fits ?v ?n" "unat (ph_filesz ph) \<le> unat ?n" "unat (ph_offset ph) + unat (ph_filesz ph) \<le> length buf"
    using ph by (simp_all add: seg_valid_def)
  have len: "length ?bs = unat (ph_filesz ph)" using fit(3) by simp
  have "space_kept ?P m m1" and uw: "\<And>w. page_base w \<in> ?P \<Longrightarrow> user_writable m1 w"
    using map_pages_spec [OF ok, of "segment_pages ?v ?n" "[]" ELF_SUCCESS m1] mp segment_pages_aligned [OF fit(1)]
      segment_pages_distinct(1) [OF fit(1)]
    by (auto simp: map_segment_pages_def)
  then have m1: "active_ok m1" "space_kept ?P m m1" by (simp_all add: space_kept_def)
  have fill: "space_kept ?P m1 m2" "user_writable m2 = user_writable m1"
      "\<forall>i<unat ?n. umem m2 (?v + of_nat i) = Some (if i < unat (ph_filesz ph) then ?bs ! i else 0)"
    using fill_segment [OF m1(1) fit(1), of ?bs, unfolded len, OF fit(2) uw, folded m2_def] by blast+
  have k2: "space_kept ?P m m2" using space_kept_trans [OF m1(2) fill(1)] by simp
  have m2: "active_ok m2" "active_page_directory m2 \<noteq> 0" using k2 ok(2) by (simp_all add: space_kept_def)
  have pages: "\<forall>page\<in>?P. page_base page = page \<and> user_writable m2 page"
    using uw segment_pages_aligned(3) [OF fit(1)] fill(2) by simp
  have fl: "bit ?fl 2" "bit ?fl 1 = (ph_flags ph AND ELF_PF_W \<noteq> 0)" by (simp_all add: entry_bits)
  obtain m3 where m3: "protect_pages (segment_pages ?v ?n) ?fl m2 = (ELF_SUCCESS, m3)" "space_kept ?P m2 m3" "umem m3 = umem m2"
      "\<And>w. page_base w \<in> ?P \<Longrightarrow> user_writable m3 w = bit ?fl 1"
    using protect_pages_spec [OF m2 segment_pages_distinct(1) [OF fit(1)] fl(1) pages] by blast
  have "umem m3 (?v + of_nat i) = Some (seg_byte buf ph i)" if "i < unat ?n" for i
    using fill(3) that fit(3) len by (simp add: m3(3) seg_byte_def)
  then have "seg_loaded buf ph m3" using m3(4) fl(2) by (simp add: seg_loaded_def)
  moreover have "space_kept ?P m m3" using space_kept_trans [OF k2 m3(2)] by simp
  ultimately show ?thesis
    using m3(1) by (intro exI [of _ m3]) (simp add: protect_segment_pages_def Let_def or.assoc split: if_splits)
qed

lemma seg_loaded_kept:
  assumes "seg_loaded buf ph m" "space_kept Q m m'" "ph_pages ph \<inter> Q = {}" "seg_fits (ph_vaddr ph) (ph_memsz ph)"
  shows "seg_loaded buf ph m'"
proof -
  have q: "page_base w \<notin> Q" if "page_base w \<in> ph_pages ph" for w using that assms(3) by blast
  have "umem m' w = umem m w \<and> user_writable m' w = user_writable m w" if "page_base w \<in> ph_pages ph" for w
    using q [OF that] assms(2) space_kept_writable [OF assms(2)] by (simp add: space_kept_def)
  then show ?thesis using assms(1) segment_covers(2) [OF assms(4)] by (simp add: seg_loaded_def)
qed

definition load_pages :: "elf32_program_header list \<Rightarrow> u32 set" where
  "load_pages phs = (\<Union>ph\<in>{ph \<in> set phs. is_load ph}. ph_pages ph)"

lemma load_pages_Cons:
  "load_pages (ph # phs) = (if is_load ph then ph_pages ph else {}) \<union> load_pages phs"
  by (auto simp: load_pages_def)

lemma load_pages_aligned:
  "\<forall>ph\<in>set phs. seg_valid n ph \<Longrightarrow> page \<in> load_pages phs \<Longrightarrow> page_base page = page"
  by (auto simp: load_pages_def seg_valid_def segment_pages_aligned(3))

lemma load_segments_spec:
  assumes "active_ok m" "active_page_directory m \<noteq> 0" "\<forall>ph\<in>set phs. seg_valid (length buf) ph"
    "sorted_wrt seg_apart phs" "load_segments phs buf n m = (st, n', m')"
  shows "(st = ELF_SUCCESS \<longrightarrow> space_kept (load_pages phs) m m' \<and> (\<forall>ph\<in>set phs. is_load ph \<longrightarrow> seg_loaded buf ph m') \<and>
      n' = n + (\<Sum>ph\<leftarrow>filter is_load phs. ph_filesz ph)) \<and>
    (st = ELF_EINVAL \<longrightarrow> (\<exists>page\<in>load_pages phs. walk_entry (active_page_directory m) page m \<noteq> None)) \<and>
    st \<in> {ELF_SUCCESS, ELF_EINVAL, ELF_ENOSPC}"
  using assms
proof (induction phs arbitrary: m n)
  case Nil
  then show ?case by (simp add: space_kept_refl load_pages_def ELF_SUCCESS_def ELF_EINVAL_def)
next
  case (Cons ph phs)
  let ?d = "active_page_directory m" and ?P = "ph_pages ph"
  show ?case
  proof (cases "is_load ph")
    case False
    then show ?thesis using Cons.IH [OF Cons.prems(1,2), of n] Cons.prems(3-5) by (simp add: load_pages_Cons)
  next
    case True
    have valid: "seg_valid (length buf) ph" and fit: "seg_fits (ph_vaddr ph) (ph_memsz ph)"
      using Cons.prems(3) True by (simp_all add: seg_valid_def)
    have apart: "?P \<inter> load_pages phs = {}"
      using Cons.prems(4) True by (auto simp: load_pages_def seg_apart_def)
    obtain s1 m1 where mp: "map_segment_pages (ph_vaddr ph) (ph_memsz ph) m = (s1, m1)" by force
    show ?thesis
    proof (cases "s1 = ELF_SUCCESS")
      case False
      have "(s1 = ELF_EINVAL \<longrightarrow> (\<exists>page\<in>?P. walk_entry ?d page m \<noteq> None)) \<and> s1 \<in> {ELF_SUCCESS, ELF_EINVAL, ELF_ENOSPC}"
        using map_pages_spec [OF Cons.prems(1,2), of "segment_pages (ph_vaddr ph) (ph_memsz ph)" "[]" s1 m1] mp
          segment_pages_aligned [OF fit] segment_pages_distinct(1) [OF fit]
        by (auto simp: map_segment_pages_def)
      moreover have "st = s1" using Cons.prems(5) mp False True by simp
      ultimately show ?thesis using False True by (auto simp: load_pages_Cons)
    next
      case s1: True
      obtain m3 where m3: "protect_segment_pages (ph_vaddr ph) (ph_memsz ph) (ph_flags ph)
          (store_bytes (ph_vaddr ph) (take (unat (ph_filesz ph)) (drop (unat (ph_offset ph)) buf))
            (set_bytes (ph_vaddr ph) 0 (unat (ph_memsz ph)) m1)) = (ELF_SUCCESS, m3)"
          "space_kept ?P m m3" "seg_loaded buf ph m3"
        using load_one_segment [OF Cons.prems(1,2) True valid] mp s1 by blast
      have k: "active_ok m3" "active_page_directory m3 = ?d" using m3(2) by (simp_all add: space_kept_def)
      have rest: "load_segments phs buf (n + ph_filesz ph) m3 = (st, n', m')"
        using Cons.prems(5) mp s1 True m3(1) by simp
      note ih = Cons.IH [OF k(1) _ _ _ rest, unfolded k(2), OF Cons.prems(2)]
      have ih: "(st = ELF_SUCCESS \<longrightarrow> space_kept (load_pages phs) m3 m' \<and> (\<forall>ph\<in>set phs. is_load ph \<longrightarrow> seg_loaded buf ph m') \<and>
            n' = n + ph_filesz ph + (\<Sum>ph\<leftarrow>filter is_load phs. ph_filesz ph)) \<and>
          (st = ELF_EINVAL \<longrightarrow> (\<exists>page\<in>load_pages phs. walk_entry ?d page m3 \<noteq> None)) \<and>
          st \<in> {ELF_SUCCESS, ELF_EINVAL, ELF_ENOSPC}"
        using ih Cons.prems(3,4) by simp
      have "walk_entry ?d page m3 = walk_entry ?d page m" if "page \<in> load_pages phs" for page
      proof -
        have "page_base page = page" using that Cons.prems(3) load_pages_aligned [of phs "length buf"] by simp
        then show ?thesis using that apart m3(2) by (auto simp: space_kept_def)
      qed
      moreover have "space_kept (?P \<union> load_pages phs) m m' \<and> seg_loaded buf ph m'" if "st = ELF_SUCCESS"
        using ih that space_kept_trans [OF m3(2)] seg_loaded_kept [OF m3(3) _ apart fit] by blast
      ultimately show ?thesis using ih True by (auto simp: load_pages_Cons add.assoc)
    qed
  qed
qed

lemma protect_pages_frames: "protect_pages pages flags m = (st, m') \<Longrightarrow> mmu_frames m' = mmu_frames m"
proof (induction pages arbitrary: m)
  case (Cons page pages)
  obtain b m1 where m1: "paging_set_page_flags_in_directory (paging_get_current_directory m) page flags m = (b, m1)" by force
  then have "mmu_frames m1 = mmu_frames m" using set_flags_frames by (metis snd_conv)
  then show ?case using Cons m1 by (cases b) auto
qed simp

lemma card_load_pages:
  assumes "is_load ph" "seg_fits (ph_vaddr ph) (ph_memsz ph)" "ph_pages ph \<inter> load_pages phs = {}"
  shows "card (load_pages (ph # phs)) = length (segment_pages (ph_vaddr ph) (ph_memsz ph)) + card (load_pages phs)"
proof -
  have "finite (load_pages phs)" by (simp add: load_pages_def)
  then show ?thesis
    using assms segment_pages_distinct(1) [OF assms(2)] by (simp add: load_pages_Cons card_Un_disjoint distinct_card)
qed

lemma load_segments_supplied:
  assumes "active_ok m" "active_page_directory m \<noteq> 0" "\<forall>ph\<in>set phs. seg_valid (length buf) ph"
    "sorted_wrt seg_apart phs" "load_segments phs buf n m = (st, n', m')"
    "frame_fail_after (mmu_frames m) < 0" "2 * card (load_pages phs) \<le> card (low_free m)"
  shows "st \<noteq> ELF_ENOSPC"
  using assms
proof (induction phs arbitrary: m n)
  case Nil
  then show ?case by (simp add: ELF_SUCCESS_def ELF_ENOSPC_def)
next
  case (Cons ph phs)
  show ?case
  proof (cases "is_load ph")
    case False
    then show ?thesis using Cons.IH [OF Cons.prems(1,2), of n] Cons.prems(3-7) by (simp add: load_pages_Cons)
  next
    case True
    have valid: "seg_valid (length buf) ph" and fit: "seg_fits (ph_vaddr ph) (ph_memsz ph)"
      using Cons.prems(3) True by (simp_all add: seg_valid_def)
    have "ph_pages ph \<inter> load_pages phs = {}" using Cons.prems(4) True by (auto simp: load_pages_def seg_apart_def)
    note pages = card_load_pages [OF True fit this]
    obtain s1 m1 where mp: "map_segment_pages (ph_vaddr ph) (ph_memsz ph) m = (s1, m1)" by force
    have supplied: "s1 \<noteq> ELF_ENOSPC \<and> (s1 = ELF_SUCCESS \<longrightarrow> frame_fail_after (mmu_frames m1) < 0 \<and>
        card (low_free m) \<le> card (low_free m1) + 2 * length (segment_pages (ph_vaddr ph) (ph_memsz ph)))"
      using map_pages_supplied [OF Cons.prems(1,2) _ _ Cons.prems(6), of "segment_pages (ph_vaddr ph) (ph_memsz ph)" "[]" s1 m1]
        mp segment_pages_aligned [OF fit] Cons.prems(7) pages by (auto simp: map_segment_pages_def)
    show ?thesis
    proof (cases "s1 = ELF_SUCCESS")
      case False
      then show ?thesis using Cons.prems(5) mp True supplied by simp
    next
      case s1: True
      let ?m2 = "store_bytes (ph_vaddr ph) (take (unat (ph_filesz ph)) (drop (unat (ph_offset ph)) buf))
        (set_bytes (ph_vaddr ph) 0 (unat (ph_memsz ph)) m1)"
      obtain m3 where m3: "protect_segment_pages (ph_vaddr ph) (ph_memsz ph) (ph_flags ph) ?m2 = (ELF_SUCCESS, m3)"
          "space_kept (ph_pages ph) m m3"
        using load_one_segment [OF Cons.prems(1,2) True valid] mp s1 by blast
      have fr: "mmu_frames m3 = mmu_frames m1"
        using m3(1) protect_pages_frames [of _ _ ?m2 ELF_SUCCESS m3]
        by (simp add: protect_segment_pages_def Let_def set_bytes_def)
      have "active_ok m3" "active_page_directory m3 \<noteq> 0" using m3(2) Cons.prems(2) by (simp_all add: space_kept_def)
      moreover have "load_segments phs buf (n + ph_filesz ph) m3 = (st, n', m')" using Cons.prems(5) mp s1 True m3(1) by simp
      ultimately show ?thesis
        using Cons.IH [of m3 "n + ph_filesz ph"] Cons.prems(3,4,7) supplied s1 pages by (simp add: fr)
    qed
  qed
qed

section \<open>The first pass\<close>

lemma add_overflowsD: "\<not> add_overflows a b \<Longrightarrow> unat (a + b) = unat a + unat b"
  by (simp add: add_overflows_def not_less no_olen_add_nat unat_plus_simple [symmetric] word_le_nat_alt)

lemma validate_segment_valid:
  assumes "validate_segment ph file_size = ELF_SUCCESS"
  shows "seg_valid (unat file_size) ph"
proof (cases "is_load ph")
  case True
  then have v: "ph_memsz ph \<noteq> 0" "ph_filesz ph \<le> ph_memsz ph" "ph_memsz ph \<le> ELF_MAX_LOAD_MEMORY_SIZE"
      "range_inside_file (ph_offset ph) (ph_filesz ph) file_size" "range_inside_user_space (ph_vaddr ph) (ph_memsz ph)"
    using assms by (auto simp: validate_segment_def ELF_SUCCESS_def ELF_EINVAL_def not_less split: if_splits)
  have "unat (ph_offset ph) + unat (ph_filesz ph) \<le> unat file_size"
    using v(4) add_overflowsD [of "ph_offset ph" "ph_filesz ph"]
    by (auto simp: range_inside_file_def word_le_nat_alt split: if_splits)
  moreover have "0x40000000 \<le> unat (ph_vaddr ph)" "unat (ph_vaddr ph) + unat (ph_memsz ph) \<le> 0x90000000"
    using v(5) add_overflowsD [of "ph_vaddr ph" "ph_memsz ph"]
    by (auto simp: range_inside_user_space_def ELF_USER_LOAD_MIN_def ELF_USER_LOAD_MAX_def word_le_nat_alt
        word_less_nat_alt not_less split: if_splits)
  moreover have "0 < unat (ph_memsz ph)" "unat (ph_memsz ph) \<le> 65536" "unat (ph_filesz ph) \<le> unat (ph_memsz ph)"
    using v(1-3) by (simp_all add: unat_gt_0 word_le_nat_alt ELF_MAX_LOAD_MEMORY_SIZE_def)
  ultimately show ?thesis by (simp add: seg_valid_def seg_fits_def)
qed (simp add: seg_valid_def)

definition page_range_of :: "elf32_program_header \<Rightarrow> u32 \<times> u32" where
  "page_range_of ph = (elf_align_down (ph_vaddr ph), elf_align_up (ph_vaddr ph + ph_memsz ph))"

lemma ranges_apart:
  assumes "seg_fits (ph_vaddr p) (ph_memsz p)" "seg_fits (ph_vaddr q) (ph_memsz q)"
    "\<not> ranges_overlap (fst (page_range_of q)) (snd (page_range_of q)) (fst (page_range_of p)) (snd (page_range_of p))"
  shows "ph_pages p \<inter> ph_pages q = {}"
proof -
  note b = seg_bounds [OF assms(1)] seg_bounds [OF assms(2)]
  have "seg_last (ph_vaddr p) (ph_memsz p) < seg_first (ph_vaddr q) \<or> seg_last (ph_vaddr q) (ph_memsz q) < seg_first (ph_vaddr p)"
    using assms(3) b by (auto simp: ranges_overlap_def page_range_of_def word_less_nat_alt not_less)
  moreover have "False" if "page \<in> ph_pages p" "page \<in> ph_pages q"
      "seg_last (ph_vaddr p) (ph_memsz p) < seg_first (ph_vaddr q) \<or> seg_last (ph_vaddr q) (ph_memsz q) < seg_first (ph_vaddr p)" for page
  proof -
    have "page_base page = page" using segment_pages_aligned(3) [OF assms(1) that(1)] .
    then show False
      using that in_segment_pages [OF assms(1), of page] in_segment_pages [OF assms(2), of page] by auto
  qed
  ultimately show ?thesis by blast
qed

abbreviation load_memory :: "elf32_program_header list \<Rightarrow> nat" where
  "load_memory phs \<equiv> (\<Sum>ph\<leftarrow>filter is_load phs. unat (ph_memsz ph))"

lemma check_segments_valid:
  assumes "check_segments phs file_size pl = (ELF_SUCCESS, pl')" "unat (lp_memory pl) \<le> 65536"
    "\<forall>r\<in>set (lp_ranges pl). \<exists>p. is_load p \<and> seg_fits (ph_vaddr p) (ph_memsz p) \<and> r = page_range_of p"
  shows "(\<forall>ph\<in>set phs. seg_valid (unat file_size) ph) \<and> sorted_wrt seg_apart phs \<and>
    (\<forall>p q. page_range_of p \<in> set (lp_ranges pl) \<and> is_load p \<and> q \<in> set phs \<and> seg_fits (ph_vaddr p) (ph_memsz p) \<longrightarrow> seg_apart p q) \<and>
    unat (lp_memory pl') = unat (lp_memory pl) + load_memory phs \<and> unat (lp_memory pl') \<le> 65536 \<and>
    lp_ranges pl' = lp_ranges pl @ map page_range_of (filter is_load phs) \<and>
    lp_start pl' \<le> lp_start pl \<and> lp_end pl \<le> lp_end pl' \<and>
    (\<forall>ph\<in>set phs. is_load ph \<longrightarrow> lp_start pl' \<le> ph_vaddr ph \<and> ph_vaddr ph + ph_memsz ph \<le> lp_end pl')"
  using assms
proof (induction phs arbitrary: pl)
  case Nil
  then show ?case by simp
next
  case (Cons ph phs)
  have vs: "validate_segment ph file_size = ELF_SUCCESS"
    using Cons.prems(1) by (auto simp: Let_def split: if_splits)
  note valid = validate_segment_valid [OF vs]
  show ?case
  proof (cases "is_load ph")
    case False
    then have "seg_apart p ph" "seg_apart ph q" for p q by (simp_all add: seg_apart_def)
    then show ?thesis
      using Cons.IH [of pl] Cons.prems vs valid False by (auto simp: Let_def)
  next
    case True
    define pl1 where "pl1 = \<lparr>lp_ranges = lp_ranges pl @ [page_range_of ph], lp_memory = lp_memory pl + ph_memsz ph,
       lp_start = (if ph_vaddr ph < lp_start pl then ph_vaddr ph else lp_start pl),
       lp_end = (if lp_end pl < ph_vaddr ph + ph_memsz ph then ph_vaddr ph + ph_memsz ph else lp_end pl)\<rparr>"
    have fit: "seg_fits (ph_vaddr ph) (ph_memsz ph)" using valid True by (simp add: seg_valid_def)
    have nov: "\<not> list_ex (\<lambda>(s, e). ranges_overlap (elf_align_down (ph_vaddr ph)) (elf_align_up (ph_vaddr ph + ph_memsz ph)) s e) (lp_ranges pl)"
      and mem: "\<not> ELF_MAX_LOAD_MEMORY_SIZE - lp_memory pl < ph_memsz ph"
      and rest: "check_segments phs file_size pl1 = (ELF_SUCCESS, pl')"
      using Cons.prems(1) vs True
      by (auto simp: Let_def ELF_SUCCESS_def ELF_EINVAL_def pl1_def page_range_of_def split: if_splits)
    have "unat (ELF_MAX_LOAD_MEMORY_SIZE - lp_memory pl) = 65536 - unat (lp_memory pl)"
      using Cons.prems(2) by (simp add: ELF_MAX_LOAD_MEMORY_SIZE_def unat_sub_no_wrap word_le_nat_alt)
    then have room: "unat (lp_memory pl) + unat (ph_memsz ph) \<le> 65536"
      using mem Cons.prems(2) by (simp add: word_less_nat_alt)
    then have mem1: "unat (lp_memory pl1) = unat (lp_memory pl) + unat (ph_memsz ph)"
      by (simp add: pl1_def unat_word_ariths)
    have apart: "seg_apart p ph" if "page_range_of p \<in> set (lp_ranges pl)" "seg_fits (ph_vaddr p) (ph_memsz p)" for p
      using that nov ranges_apart [OF that(2) fit]
      by (force simp: seg_apart_def list_ex_iff page_range_of_def)
    have ranges1: "\<forall>r\<in>set (lp_ranges pl1). \<exists>p. is_load p \<and> seg_fits (ph_vaddr p) (ph_memsz p) \<and> r = page_range_of p"
      using Cons.prems(3) True fit by (auto simp: pl1_def)
    have ih: "(\<forall>ph\<in>set phs. seg_valid (unat file_size) ph)" "sorted_wrt seg_apart phs"
      "\<forall>p q. page_range_of p \<in> set (lp_ranges pl1) \<and> is_load p \<and> q \<in> set phs \<and> seg_fits (ph_vaddr p) (ph_memsz p) \<longrightarrow> seg_apart p q"
      "unat (lp_memory pl') = unat (lp_memory pl1) + load_memory phs" "unat (lp_memory pl') \<le> 65536"
      "lp_ranges pl' = lp_ranges pl1 @ map page_range_of (filter is_load phs)"
      "lp_start pl' \<le> lp_start pl1" "lp_end pl1 \<le> lp_end pl'"
      "\<forall>ph\<in>set phs. is_load ph \<longrightarrow> lp_start pl' \<le> ph_vaddr ph \<and> ph_vaddr ph + ph_memsz ph \<le> lp_end pl'"
      using Cons.IH [OF rest _ ranges1] mem1 room by simp_all
    have "lp_start pl1 \<le> lp_start pl" "lp_start pl1 \<le> ph_vaddr ph" "lp_end pl \<le> lp_end pl1"
        "ph_vaddr ph + ph_memsz ph \<le> lp_end pl1"
      by (auto simp: pl1_def not_less)
    then have "lp_start pl' \<le> lp_start pl" "lp_start pl' \<le> ph_vaddr ph" "lp_end pl \<le> lp_end pl'"
        "ph_vaddr ph + ph_memsz ph \<le> lp_end pl'"
      using ih(7,8) order_trans by blast+
    moreover have "seg_apart ph q" if "q \<in> set phs" for q using ih(3) that True fit by (simp add: pl1_def)
    moreover have "seg_apart p q" if "page_range_of p \<in> set (lp_ranges pl)" "is_load p" "q \<in> set (ph # phs)"
        "seg_fits (ph_vaddr p) (ph_memsz p)" for p q
      using that apart ih(3) by (auto simp: pl1_def)
    ultimately show ?thesis using ih mem1 True valid by (simp add: pl1_def)
  qed
qed

section \<open>Properties\<close>

abbreviation empty_plan :: load_plan where
  "empty_plan \<equiv> \<lparr>lp_ranges = [], lp_memory = 0, lp_start = 0xFFFFFFFF, lp_end = 0\<rparr>"

text \<open>C11: The first pass of the loader is sound. When it accepts the program headers of a file, every loadable segment
  is non-empty and lies in the load window from 1 GiB to 2.25 GiB, its bytes lie inside the file and inside the
  segment, it covers at most 17 pages (the size of the loader's arrays of pages), no page belongs to two segments,
  all segments together take at most 64 KiB, and the load range recorded for the entry point check covers them.
  No sum of addresses or sizes wraps around.
\<close>

theorem elf_segments_checked:
  assumes "check_segments phs file_size empty_plan = (ELF_SUCCESS, pl)"
  shows "(\<forall>ph\<in>set phs. is_load ph \<longrightarrow>
      0 < unat (ph_memsz ph) \<and> 0x40000000 \<le> unat (ph_vaddr ph) \<and>
      unat (ph_vaddr ph) + unat (ph_memsz ph) \<le> 0x90000000 \<and> unat (ph_filesz ph) \<le> unat (ph_memsz ph) \<and>
      unat (ph_offset ph) + unat (ph_filesz ph) \<le> unat file_size \<and>
      length (segment_pages (ph_vaddr ph) (ph_memsz ph)) \<le> 17 \<and>
      unat (lp_start pl) \<le> unat (ph_vaddr ph) \<and> unat (ph_vaddr ph) + unat (ph_memsz ph) \<le> unat (lp_end pl)) \<and>
    (\<forall>i j. i < j \<and> j < length phs \<and> is_load (phs ! i) \<and> is_load (phs ! j) \<longrightarrow> ph_pages (phs ! i) \<inter> ph_pages (phs ! j) = {}) \<and>
    load_memory phs \<le> 65536 \<and> length (lp_ranges pl) = length (filter is_load phs)"
proof -
  note c = check_segments_valid [OF assms, simplified]
  have valid: "seg_valid (unat file_size) ph" if "ph \<in> set phs" for ph using c that by blast
  have seg: "seg_fits (ph_vaddr ph) (ph_memsz ph)" "unat (ph_filesz ph) \<le> unat (ph_memsz ph)"
      "unat (ph_offset ph) + unat (ph_filesz ph) \<le> unat file_size" if "ph \<in> set phs" "is_load ph" for ph
    using valid [OF that(1)] that(2) by (simp_all add: seg_valid_def)
  have "unat (lp_start pl) \<le> unat (ph_vaddr ph) \<and> unat (ph_vaddr ph) + unat (ph_memsz ph) \<le> unat (lp_end pl)"
    if "ph \<in> set phs" "is_load ph" for ph
  proof -
    have "lp_start pl \<le> ph_vaddr ph" "ph_vaddr ph + ph_memsz ph \<le> lp_end pl" using c that by blast+
    then show ?thesis using seg_end(1) [OF seg(1) [OF that]] by (simp add: word_le_nat_alt)
  qed
  moreover have "seg_apart (phs ! i) (phs ! j)" if "i < j" "j < length phs" for i j
    using c that by (simp add: sorted_wrt_iff_nth_less)
  moreover have "load_memory phs \<le> 65536" "length (lp_ranges pl) = length (filter is_load phs)"
    using c by simp_all
  ultimately show ?thesis
    using seg segment_pages_distinct(2) by (simp add: seg_apart_def seg_fits_def)
qed

text \<open>A program of two segments: four bytes of code at 1 GiB + 4 KiB, and eight bytes of data, half of them in the
  file, on the next page.\<close>

definition demo_headers :: "elf32_program_header list" where
  "demo_headers =
     [\<lparr>ph_type = 1, ph_offset = 0, ph_vaddr = 0x40001000, ph_paddr = 0, ph_filesz = 4, ph_memsz = 4, ph_flags = 5, ph_align = 0\<rparr>,
      \<lparr>ph_type = 1, ph_offset = 4, ph_vaddr = 0x40002010, ph_paddr = 0, ph_filesz = 4, ph_memsz = 8, ph_flags = 6, ph_align = 4\<rparr>]"

lemma demo_headers_checked:
  "check_segments demo_headers 8 empty_plan =
     (ELF_SUCCESS, \<lparr>lp_ranges = [(0x40001000, 0x40002000), (0x40002000, 0x40003000)], lp_memory = 12,
       lp_start = 0x40001000, lp_end = 0x40002018\<rparr>)"
  by (simp add: demo_headers_def validate_segment_def ELF_SUCCESS_def ELF_EINVAL_def ELF_PT_LOAD_def
      ELF_MAX_LOAD_MEMORY_SIZE_def range_inside_file_def add_overflows_def range_inside_user_space_def
      ELF_USER_LOAD_MIN_def ELF_USER_LOAD_MAX_def power_of_two_or_zero_def elf_align_down_def elf_align_up_def
      FRAME_SIZE_def ranges_overlap_def)

theorem elf_segments_checked_witness:
  "load_memory demo_headers \<le> 65536 \<and> ph_pages (demo_headers ! 0) \<inter> ph_pages (demo_headers ! 1) = {}"
proof -
  have "length demo_headers = 2" "is_load (demo_headers ! 0)" "is_load (demo_headers ! 1)"
    by (simp_all add: demo_headers_def ELF_PT_LOAD_def)
  then show ?thesis using elf_segments_checked [OF demo_headers_checked] by (elim conjE allE [of _ 0] allE [of _ 1]) simp
qed

text \<open>The second pass on headers that the first pass accepted.\<close>

lemma loaded_image:
  assumes "active_ok m" "active_page_directory m \<noteq> 0"
    and "check_segments phs (of_nat (length buf)) empty_plan = (ELF_SUCCESS, pl)" "length buf < 2 ^ 32"
    and "load_segments phs buf 0 m = (st, n, m')"
  shows "(st = ELF_SUCCESS \<longrightarrow> active_ok m' \<and> mmu_fault m' = mmu_fault m \<and>
      (\<forall>ph\<in>set phs. is_load ph \<longrightarrow>
        (\<forall>i<unat (ph_memsz ph). umem m' (ph_vaddr ph + of_nat i) =
           Some (if i < unat (ph_filesz ph) then buf ! (unat (ph_offset ph) + i) else 0)) \<and>
        (\<forall>w. page_base w \<in> ph_pages ph \<longrightarrow> user_writable m' w = (ph_flags ph AND ELF_PF_W \<noteq> 0))) \<and>
      (\<forall>w. page_base w \<notin> load_pages phs \<longrightarrow> umem m' w = umem m w \<and> user_writable m' w = user_writable m w) \<and>
      n = (\<Sum>ph\<leftarrow>filter is_load phs. ph_filesz ph)) \<and>
    (st = ELF_EINVAL \<longrightarrow> (\<exists>page\<in>load_pages phs. paging_is_mapped page m)) \<and>
    (st = ELF_ENOSPC \<longrightarrow> 0 \<le> frame_fail_after (mmu_frames m) \<or> card (low_free m) < 2 * card (load_pages phs)) \<and>
    st \<in> {ELF_SUCCESS, ELF_EINVAL, ELF_ENOSPC}"
proof -
  note c = check_segments_valid [OF assms(3), simplified]
  have "unat (of_nat (length buf) :: u32) = length buf" using assms(4) by (intro unat_of_nat_small) simp
  then have valid: "\<forall>ph\<in>set phs. seg_valid (length buf) ph" "sorted_wrt seg_apart phs" using c by simp_all
  note l = load_segments_spec [OF assms(1,2) valid assms(5)]
  have "0 \<le> frame_fail_after (mmu_frames m) \<or> card (low_free m) < 2 * card (load_pages phs)" if "st = ELF_ENOSPC"
    using load_segments_supplied [OF assms(1,2) valid assms(5)] that by linarith
  moreover have "space_kept (load_pages phs) m m'" if "st = ELF_SUCCESS" using l that by blast
  ultimately show ?thesis
    using l space_kept_writable [of "load_pages phs" m m']
    by (auto simp: is_mapped_walk space_kept_def seg_loaded_def seg_byte_def)
qed

text \<open>C12: The second pass of the loader, run on headers the first pass accepted and a well-formed active address space,
  either succeeds, or reports an invalid file because a page of a segment was mapped already, or reports a lack of memory although
  fewer than two frames for each page (one for the page, at most one for its table) are free below 4 MiB or the failure hook of the self tests is set:
  with that many frames, and no page mapped, it succeeds. On success user
  memory holds at each address of a segment the byte of the file, or zero beyond the segment's bytes in the file; the
  pages of a segment are writable for the program exactly if the header has the write flag; user memory outside
  the pages of the segments is as before; the address space is well-formed and the kernel has not faulted; and the
  number of bytes loaded is the sum of the segments' sizes in the file.
\<close>

theorem elf_load_image:
  assumes "active_ok m" "active_page_directory m \<noteq> 0"
    and "check_segments phs (of_nat (length buf)) empty_plan = (ELF_SUCCESS, pl)" "length buf < 2 ^ 32"
    and "load_segments phs buf 0 m = (st, n, m')"
  shows "(st = ELF_SUCCESS \<longrightarrow> active_ok m' \<and> mmu_fault m' = mmu_fault m \<and>
      (\<forall>ph\<in>set phs. is_load ph \<longrightarrow>
        (\<forall>i<unat (ph_memsz ph). umem m' (ph_vaddr ph + of_nat i) =
           Some (if i < unat (ph_filesz ph) then buf ! (unat (ph_offset ph) + i) else 0)) \<and>
        (\<forall>w. page_base w \<in> ph_pages ph \<longrightarrow> user_writable m' w = (ph_flags ph AND ELF_PF_W \<noteq> 0))) \<and>
      (\<forall>w. page_base w \<notin> load_pages phs \<longrightarrow> umem m' w = umem m w \<and> user_writable m' w = user_writable m w) \<and>
      n = (\<Sum>ph\<leftarrow>filter is_load phs. ph_filesz ph)) \<and>
    (st = ELF_EINVAL \<longrightarrow> (\<exists>page\<in>load_pages phs. paging_is_mapped page m)) \<and>
    (st = ELF_ENOSPC \<longrightarrow> 0 \<le> frame_fail_after (mmu_frames m) \<or> card (low_free m) < 2 * card (load_pages phs)) \<and>
    st \<in> {ELF_SUCCESS, ELF_EINVAL, ELF_ENOSPC}"
  by (rule loaded_image [OF assms])

lemma demo_segment_mapped:
  "\<exists>m. map_segment_pages 0x40002010 8 (space_demo 0x200205) = (ELF_SUCCESS, m)"
proof -
  have pages: "segment_pages 0x40002010 8 = [0x40002000]"
    by (simp add: segment_pages_def elf_align_down_def elf_align_up_def FRAME_SIZE_def)
  show ?thesis
    by (simp add: map_segment_pages_def pages paging_is_mapped_def mmu_alloc_def space_demo_def frame_demo_alloc
        paging_map_page_in_directory_def paging_get_current_directory_def paging_is_user_writable_def
        dir_index_def table_index_def page_base_def page_flags PAGE_SIZE_def put_word_def)
qed

text \<open>The data segment of the example alone, of which half the bytes come from the file.\<close>

theorem elf_load_image_witness:
  "\<exists>n m'. load_segments [demo_headers ! 1] [1, 2, 3, 4, 5, 6, 7, 8] 0 (space_demo 0x200205) = (ELF_SUCCESS, n, m') \<and>
     umem m' 0x40002010 = Some 5 \<and> umem m' 0x40002014 = Some 0 \<and> user_writable m' 0x40002010 \<and> n = 4"
proof -
  let ?m = "space_demo 0x200205" and ?buf = "[1, 2, 3, 4, 5, 6, 7, 8] :: u8 list"
  define ph where "ph = demo_headers ! 1"
  have ok: "active_ok ?m" "active_page_directory ?m \<noteq> 0"
    using uaccess_demo_ok(1) by (simp_all add: uaccess_demo_def) (simp add: space_demo_def)
  have p: "is_load ph" "ph_vaddr ph = 0x40002010" "ph_memsz ph = 8" "ph_filesz ph = 4" "ph_offset ph = 4" "ph_flags ph = 6"
    by (simp_all add: ph_def demo_headers_def ELF_PT_LOAD_def)
  have valid: "seg_valid (length ?buf) ph" using p by (simp add: seg_valid_def seg_fits_def)
  obtain m1 where m1: "map_segment_pages (ph_vaddr ph) (ph_memsz ph) ?m = (ELF_SUCCESS, m1)"
    using demo_segment_mapped unfolding p(2,3) by blast
  obtain n m' where l: "load_segments [ph] ?buf 0 ?m = (ELF_SUCCESS, n, m')"
    using load_one_segment [OF ok p(1) valid m1] m1 p(1) by auto
  obtain pl where c: "check_segments [ph] (of_nat (length ?buf)) empty_plan = (ELF_SUCCESS, pl)"
    by (simp add: ph_def demo_headers_def validate_segment_def ELF_SUCCESS_def ELF_EINVAL_def ELF_PT_LOAD_def
        ELF_MAX_LOAD_MEMORY_SIZE_def range_inside_file_def add_overflows_def range_inside_user_space_def
        ELF_USER_LOAD_MIN_def ELF_USER_LOAD_MAX_def power_of_two_or_zero_def)
  note img = elf_load_image [OF ok c _ l]
  have bytes: "umem m' (ph_vaddr ph + of_nat i) = Some (if i < unat (ph_filesz ph) then ?buf ! (unat (ph_offset ph) + i) else 0)"
    if "i < unat (ph_memsz ph)" for i
    using img p(1) that by (simp del: nth_Cons_numeral)
  have "umem m' 0x40002010 = Some 5" "umem m' 0x40002014 = Some 0"
    using bytes [of 0] bytes [of 4] p by simp_all
  moreover have "n = 4" "\<forall>w. page_base w \<in> ph_pages ph \<longrightarrow> user_writable m' w"
    using img p by (simp_all add: ELF_PF_W_def)
  moreover have "page_base 0x40002010 \<in> ph_pages ph"
    using segment_covers(2) [of "ph_vaddr ph" "ph_memsz ph" 0] valid p by (simp add: seg_valid_def)
  ultimately show ?thesis using l unfolding ph_def by (intro exI [of _ n] exI [of _ m']) simp
qed

end
