(* ===== verification/Boot.thy ===== *)
theory Boot
  imports Shell Ramdisk_Init Fork_Success Elf_Spec
begin

text \<open>
  The start of the kernel, \<^verbatim>\<open>kernel_main\<close> of \<^verbatim>\<open>src/kernel/kernel.c\<close> without the self tests: the devices, the memory, the
  disk with its file system, the descriptor tables, the shell. What the kernel finds when it starts (the memory map of the boot
  loader, the CMOS, the addresses fixed by the linker) is an argument; the static variables are those of the modules.
\<close>

section \<open>State\<close>

record boot_env =
  env_handoff :: e820_handoff
  env_cmos :: "u8 \<Rightarrow> u8"
  env_kernel_end :: u32
  env_stub :: "nat \<Rightarrow> u32"
  env_tss :: u32
  env_kb_status :: u8

record machine =
  mc_shell :: "ramdisk_data shell"
  mc_gdt :: "gdt_entry list"
  mc_idt :: "idt_entry list"
  mc_e820 :: e820_state
  mc_disk_ready :: bool
  mc_ports :: "(u16 \<times> u8) list"

abbreviation mc_kernel :: "machine \<Rightarrow> ramdisk_data kernel" where
  "mc_kernel mc \<equiv> sh_kernel (mc_shell mc)"

definition on_kernel :: "(ramdisk_data kernel \<Rightarrow> ramdisk_data kernel) \<Rightarrow> machine \<Rightarrow> machine" where
  "on_kernel f mc = mc\<lparr>mc_shell := (mc_shell mc)\<lparr>sh_kernel := f (mc_kernel mc)\<rparr>\<rparr>"

definition put_ports :: "(u16 \<times> u8) list \<Rightarrow> machine \<Rightarrow> machine" where
  "put_ports ws mc = mc\<lparr>mc_ports := mc_ports mc @ ws\<rparr>"

definition log_line :: "string \<Rightarrow> machine \<Rightarrow> machine" where
  "log_line text = on_kernel (\<lambda>k. k\<lparr>k_serial := serial_puts (str8 text @ [0x0A]) (k_serial k)\<rparr>)"

definition show_line :: "string \<Rightarrow> machine \<Rightarrow> machine" where
  "show_line text = on_kernel (\<lambda>k. k\<lparr>k_vga := vga_puts (str8 text @ [0x0A]) (k_vga k)\<rparr>)"

section \<open>The start\<close>

definition boot_devices :: "boot_env \<Rightarrow> machine \<Rightarrow> machine" where
  "boot_devices env mc =
     (let mc = log_line ''KERNEL_INIT_OK'' (put_ports serial_init mc);
          mc = on_kernel (\<lambda>k. k\<lparr>k_vga := vga_init (k_vga k)\<rparr>) mc;
          mc = show_line ''Kernel initialized successfully!'' mc;
          mc = mc\<lparr>mc_gdt := gdt_init (mc_gdt mc)\<rparr>;
          mc = put_ports pic_remap (mc\<lparr>mc_idt := idt_init (env_stub env) (mc_idt mc)\<rparr>);
          mc = (case timer_init 100 (mc_kernel mc) of
                  Some (bytes, k) \<Rightarrow> put_ports (zip [0x43, 0x40, 0x40] bytes) (on_kernel (\<lambda>_. k) mc)
                | None \<Rightarrow> mc);
          (writes, kb) = keyboard_init (env_kb_status env) (k_keyboard (mc_kernel mc))
      in put_ports writes (on_kernel (\<lambda>k. k\<lparr>k_keyboard := kb\<rparr>) mc))"

text \<open>The page frames that the self tests use at fixed addresses are set aside in every build.\<close>

definition reserved_ranges :: "(u32 \<times> u32) list" where
  "reserved_ranges = [(0x00900000, 0x00901000), (0x00910000, 0x00911000), (0x00930000, 0x00931000),
     (0x00940000, 0x00942000), (0x00950000, 0x00951000), (0x00960000, 0x00961000)]"

definition boot_frames :: "boot_env \<Rightarrow> e820_state \<Rightarrow> frame_state \<Rightarrow> frame_state" where
  "boot_frames env e fr =
     fold (\<lambda>(a, b) fr. snd (frame_reserve_range a b fr)) reserved_ranges
       (frame_init e (memory_init e (env_cmos env)) (env_kernel_end env) fr)"

definition boot_memory :: "boot_env \<Rightarrow> machine \<Rightarrow> machine" where
  "boot_memory env mc =
     (let e = e820_init (env_handoff env) (mc_e820 mc);
          mc = mc\<lparr>mc_e820 := e, mc_shell := (mc_shell mc)\<lparr>sh_mem := memory_init e (env_cmos env)\<rparr>\<rparr>;
          mc = on_kernel (set_mmu (\<lambda>m. m\<lparr>mmu_frames := boot_frames env e (mmu_frames m)\<rparr>)) mc;
          mc = on_kernel (set_mmu paging_init) mc
      in on_kernel (\<lambda>k. k\<lparr>k_heap := allocator_init (k_heap k)\<rparr>) mc)"

definition disk_state :: "machine \<Rightarrow> ramdisk_state" where
  "disk_state mc = \<lparr>ramdisk_initialized = mc_disk_ready mc, ramdisk_memory = fs_disk (vfs_fs (k_vfs (mc_kernel mc))),
     rd_mmu = k_mmu (mc_kernel mc), rd_serial = k_serial (mc_kernel mc)\<rparr>"

definition put_disk_state :: "ramdisk_state \<Rightarrow> machine \<Rightarrow> machine" where
  "put_disk_state s mc =
     on_kernel (\<lambda>k. k\<lparr>k_mmu := rd_mmu s, k_serial := rd_serial s,
         k_vfs := (k_vfs k)\<lparr>vfs_fs := (vfs_fs (k_vfs k))\<lparr>fs_disk := ramdisk_memory s\<rparr>\<rparr>\<rparr>)
       (mc\<lparr>mc_disk_ready := ramdisk_initialized s\<rparr>)"

definition boot_disk :: "machine \<Rightarrow> bool \<times> machine" where
  "boot_disk mc =
     (let (status, s) = ramdisk_init (disk_state mc) in (status = BLKDEV_SUCCESS, put_disk_state s mc))"

definition boot_files :: "machine \<Rightarrow> bool \<times> machine" where
  "boot_files mc =
     (let put = (\<lambda>v. on_kernel (\<lambda>k. k\<lparr>k_vfs := v\<rparr>) mc);
          (status, v) = vfs_init (ramdisk_get_device (disk_state mc)) (k_vfs (mc_kernel mc))
      in if status \<noteq> VFS_SUCCESS then (False, put v)
         else
           let (status, v) = vfs_format v in
           if status \<noteq> VFS_SUCCESS then (False, put v)
           else let (status, v) = vfs_mount v in (status = VFS_SUCCESS, put v))"

definition boot_tables :: "boot_env \<Rightarrow> machine \<Rightarrow> machine" where
  "boot_tables env mc =
     (let (tss, gdt) = tss_init (env_tss env) (mc_gdt mc);
          mc = on_kernel (\<lambda>k. k\<lparr>k_tss := tss\<rparr>) (mc\<lparr>mc_gdt := gdt\<rparr>)
      in mc\<lparr>mc_idt := syscall_init (env_stub env) (mc_idt mc)\<rparr>)"

definition boot_shell :: "machine \<Rightarrow> machine" where
  "boot_shell mc =
     (let mc = log_line ''SHELL_READY'' (mc\<lparr>mc_shell := shell_init (mc_shell mc)\<rparr>)
      in show_line ''Shell ready. Type 'help' for commands.'' mc)"

definition boot_fatal :: "string \<Rightarrow> machine \<Rightarrow> machine" where
  "boot_fatal text mc = on_kernel (\<lambda>k. k\<lparr>k_hung := True\<rparr>) (log_line text mc)"

definition kernel_main :: "boot_env \<Rightarrow> u8 list \<Rightarrow> machine \<Rightarrow> machine" where
  "kernel_main env keys mc =
     (let mc = boot_memory env (boot_devices env mc); (ok, mc) = boot_disk mc in
      if \<not> ok then boot_fatal ''RAMDISK_INIT_FATAL'' mc
      else
        let (ok, mc) = boot_files mc in
        if \<not> ok then boot_fatal ''VFS_INIT_FATAL'' mc
        else
          let mc = boot_shell (boot_tables env mc)
          in mc\<lparr>mc_shell := shell_run keys (mc_shell mc)\<rparr>)"

section \<open>Physical memory\<close>

lemma mark_allocated_other:
  assumes "f < unat a div 4096"
  shows "bitmap_test (mark_allocated a b s) f = bitmap_test s f"
proof -
  have "unat (align_down a div FRAME_SIZE) = unat a div 4096" by (simp add: unat_div_page unat_align_down)
  then show ?thesis
    unfolding mark_allocated_def Let_def
    by (intro for_loop_invariant [where P = "\<lambda>t. bitmap_test t f = bitmap_test s f"])
      (use assms in \<open>auto simp: mark_allocated_step_def frame_bits Let_def\<close>)
qed

lemma mark_fail_after [simp]:
  "frame_fail_after (mark_allocated a b s) = frame_fail_after s" "frame_fail_after (mark_free a b s) = frame_fail_after s"
  unfolding mark_allocated_def mark_free_def Let_def
  by (rule for_loop_same, simp add: mark_allocated_step_def mark_free_step_def frame_bits Let_def)+

lemma frame_init_fail_after: "frame_fail_after (frame_init e mi kernel_end s) = -1"
proof -
  have "frame_fail_after (frame_init_free e t) = frame_fail_after t" for t
    unfolding frame_init_free_def Let_def by (auto intro!: for_loop_same)
  then show ?thesis by (simp add: frame_init_def Let_def frame_reserve_fixed_def frame_reset_def)
qed

text \<open>What a reservation above 4 MiB leaves alone.\<close>

definition low_same :: "frame_state \<Rightarrow> frame_state \<Rightarrow> bool" where
  "low_same s s' \<longleftrightarrow> total_frames s' = total_frames s \<and> frame_fail_after s' = frame_fail_after s \<and>
     (\<forall>f<1024. bitmap_test s' f = bitmap_test s f)"

lemma reserve_range_low:
  assumes "frame_ok s" "0x400000 \<le> a" "frame_reserve_range a b s = (r, s')"
  shows "frame_ok s' \<and> low_same s s'"
proof -
  have "1024 \<le> unat a div 4096" using assms(2) by (simp add: word_le_nat_alt less_eq_div_iff_mult_less_eq)
  moreover have "total_frames (mark_allocated a c s) = total_frames s" for c
    using assms(1) mark_allocated_inv by (simp add: frame_ok_def)
  ultimately show ?thesis
    using assms(3) frame_reserve_range_ok [OF assms(1,3)]
    by (auto simp: frame_reserve_range_def low_same_def mark_allocated_other Let_def split: if_splits)
qed

lemma reserve_ranges_low:
  assumes "frame_ok s" "\<forall>(a, b)\<in>set rs. 0x400000 \<le> a"
  shows "frame_ok (fold (\<lambda>(a, b) fr. snd (frame_reserve_range a b fr)) rs s) \<and>
    low_same s (fold (\<lambda>(a, b) fr. snd (frame_reserve_range a b fr)) rs s)"
  using assms
proof (induction rs arbitrary: s)
  case (Cons r rs)
  obtain a b where r: "r = (a, b)" by force
  obtain ok s1 where s1: "frame_reserve_range a b s = (ok, s1)" by force
  have "frame_ok s1 \<and> low_same s s1" using reserve_range_low [OF Cons.prems(1) _ s1] Cons.prems(2) r by simp
  then show ?case using Cons.IH [of s1] Cons.prems(2) r s1 by (simp add: low_same_def)
qed (simp add: low_same_def)

lemma boot_frames_ok:
  "frame_ok (boot_frames env e fr) \<and> low_same (frame_init e (memory_init e (env_cmos env)) (env_kernel_end env) fr) (boot_frames env e fr)"
  unfolding boot_frames_def
  by (rule reserve_ranges_low) (simp_all add: frame_init_frame_ok reserved_ranges_def)

lemma low_same_free: "low_same s s' \<Longrightarrow> free_below IDENTITY_MAPPED_LIMIT s' = free_below IDENTITY_MAPPED_LIMIT s"
  by (auto simp: low_same_def free_below_def frame_bound_def IDENTITY_MAPPED_LIMIT_def)

text \<open>The low frames have references, and so has the disk after its reservation.\<close>

lemma low_frame_refs:
  assumes "frame_ok s" "3584 \<le> unat (total_frames s)" "page_aligned a" "unat a < 0x300000"
  shows "0 < frame_refs s a"
proof -
  have "unat a div 4096 < 768" using assms(4) by (simp add: div_less_iff_less_mult)
  then have "frame_refcounts s (unat a div 4096) \<noteq> 0" using assms(1,2) by (simp add: frame_ok_def low_reserved_def)
  then show ?thesis
    using assms \<open>unat a div 4096 < 768\<close> by (simp add: frame_refs_eq [OF assms(1)] unat_gt_0)
qed

lemma disk_frames_reserved:
  assumes "frame_ok s" "3584 \<le> unat (total_frames s)"
  shows "\<exists>s'. frame_reserve_range RAMDISK_BASE RAMDISK_END s = (True, s') \<and> frame_ok s' \<and> low_same s s' \<and>
    (\<forall>a. 0 < frame_refs s a \<longrightarrow> 0 < frame_refs s' a) \<and>
    (\<forall>a. page_aligned a \<and> RAMDISK_BASE \<le> a \<and> a < RAMDISK_END \<longrightarrow> 0 < frame_refs s' a)"
proof -
  let ?s = "mark_allocated RAMDISK_BASE RAMDISK_END s"
  have inv: "frame_inv s" "frame_initialized s" "unat (total_frames s) \<le> 131072"
    using assms(1) by (simp_all add: frame_ok_def frame_inv_def)
  have "unat (total_frames s * FRAME_SIZE) = unat (total_frames s) * 4096"
    using unat_frame_addr [OF inv(3)] by simp
  then have "\<not> total_frames s * FRAME_SIZE \<le> RAMDISK_BASE" "\<not> total_frames s * FRAME_SIZE < RAMDISK_END"
    using assms(2) by (simp_all add: word_le_nat_alt word_less_nat_alt ramdisk_consts)
  then have r: "frame_reserve_range RAMDISK_BASE RAMDISK_END s = (True, ?s)"
    using inv(2) by (simp add: frame_reserve_range_def Let_def ramdisk_consts)
  have low: "frame_ok ?s \<and> low_same s ?s" by (rule reserve_range_low [OF assms(1) _ r]) (simp add: ramdisk_consts)
  have tot: "total_frames ?s = total_frames s" using low by (simp add: low_same_def)
  have ok: "frame_ok ?s" using low ..
  have mono: "0 < frame_refs ?s a" if "0 < frame_refs s a" for a
    using that mark_allocated_refs_mono [of s "unat a div 4096"]
    by (auto simp: frame_refs_eq [OF assms(1)] frame_refs_eq [OF ok] tot unat_gt_0 split: if_splits)
  have "0 < frame_refs ?s a" if a: "page_aligned a" "RAMDISK_BASE \<le> a" "a < RAMDISK_END" for a
  proof -
    have f: "3072 \<le> unat a div 4096" "unat a div 4096 < 3584"
      using a(2,3) by (simp_all add: word_le_nat_alt word_less_nat_alt ramdisk_consts less_eq_div_iff_mult_less_eq div_less_iff_less_mult)
    have "unat (align_down RAMDISK_BASE div FRAME_SIZE) = 3072" "unat (align_up RAMDISK_END div FRAME_SIZE) = 3584"
      by (simp_all add: unat_div_page align_up_align_down unat_align_down ramdisk_consts)
    then have "frame_refcounts ?s (unat a div 4096) \<noteq> 0"
      unfolding mark_allocated_def Let_def using f assms(2)
      by (intro for_loop_mark_refs) (auto simp: word_less_nat_alt)
    then show ?thesis using a(1) f assms(2) by (simp add: frame_refs_eq [OF ok] tot unat_gt_0)
  qed
  then show ?thesis using r low mono by blast
qed

section \<open>The address space of the kernel\<close>

text \<open>No page of the kernel's directory belongs to the user, and the first 4 MiB are mapped one to one.\<close>

definition kernel_space :: "mmu \<Rightarrow> bool" where
  "kernel_space m \<longleftrightarrow> space_ok m PAGE_DIRECTORY_PHYSICAL \<and> active_page_directory m = PAGE_DIRECTORY_PHYSICAL \<and>
     kernel_scratch_table m \<noteq> 0 \<and> frame_fail_after (mmu_frames m) < 0 \<and>
     (\<forall>v e. \<not> user_at m PAGE_DIRECTORY_PHYSICAL v e) \<and>
     (\<forall>v. dir_index v = 0 \<longrightarrow> walk_entry PAGE_DIRECTORY_PHYSICAL v m = Some (page_base v OR PAGE_PRESENT OR PAGE_WRITABLE))"

lemma space_ok_no_user:
  assumes "mmu_ok m" "pgdir_ok m d" "scratch_ok m d" "\<And>v e. \<not> user_at m d v e"
  shows "space_ok m d"
  using assms by (simp add: space_ok_def frames_apart_def frames_private_def pages_of_def)

lemma page_number_base: "dir_index v = 0 \<Longrightarrow> of_nat (table_index v) * PAGE_SIZE = page_base v"
proof -
  assume "dir_index v = 0"
  moreover have "dir_index v = unat v div 4194304" "table_index v = unat v div 4096 mod 1024"
    using u32_unat_lt [of v]
    by (simp_all add: dir_index_def table_index_def drop_bit_eq_div unat_div div_less_iff_less_mult
        unat_and_mask [where n = 10, simplified mask_eq_exp_minus_1, simplified] del: u32_unat_lt)
  moreover have "unat v div 4194304 = unat v div 4096 div 1024" by (simp add: div_mult2_eq [symmetric])
  ultimately have "table_index v = unat v div 4096" by (simp add: div_eq_0_iff)
  then show ?thesis by (simp add: page_base_number)
qed

text \<open>The directory and its first table, before the scratch table.\<close>

lemma boot_directory:
  assumes ok: "mmu_ok m" "3584 \<le> unat (total_frames (mmu_frames m))"
  defines "d \<equiv> PAGE_DIRECTORY_PHYSICAL" and "t \<equiv> FIRST_PAGE_TABLE_PHYSICAL"
  defines "m1 \<equiv> put_word d 0 (t OR PAGE_PRESENT OR PAGE_WRITABLE)
    (identity_table t (for_loop 0 1024 (\<lambda>i. put_word d i 0x02) m))"
  shows "pgdir_ok m1 d \<and> mmu_frames m1 = mmu_frames m \<and> mmu_fault m1 = mmu_fault m \<and>
    table_of m1 d = (\<lambda>i. if i = 0 then Some t else if i < 1024 then None else table_of m d i) \<and>
    (\<forall>v. dir_index v = 0 \<longrightarrow> walk_entry d v m1 = Some (page_base v OR PAGE_PRESENT OR PAGE_WRITABLE)) \<and>
    (\<forall>v e. \<not> user_at m1 d v e)"
proof -
  have dt: "d \<noteq> t" "page_aligned d" "page_aligned t"
    by (simp_all add: d_def t_def PAGE_DIRECTORY_PHYSICAL_def FIRST_PAGE_TABLE_PHYSICAL_def page_aligned_iff)
  have ph: "phys m1 q j = (if q = d \<and> j = 0 then t OR PAGE_PRESENT OR PAGE_WRITABLE
      else if q = t \<and> j < 1024 then of_nat j * PAGE_SIZE OR PAGE_PRESENT OR PAGE_WRITABLE
      else if q = d \<and> j < 1024 then 2 else phys m q j)" for q j
    using fill_loop [of 1024 d "\<lambda>_. 2" m] fill_loop [of 1024 t] by (simp add: m1_def identity_table_def phys_put_word)
  have fr: "mmu_frames m1 = mmu_frames m" "mmu_fault m1 = mmu_fault m"
    using fill_loop [of 1024 d "\<lambda>_. 2" m] fill_loop [of 1024 t] by (simp_all add: m1_def identity_table_def)
  have tb: "page_base (t OR PAGE_PRESENT OR PAGE_WRITABLE) = t" "bit (t OR PAGE_PRESENT OR PAGE_WRITABLE) 0"
      "bit (t OR PAGE_PRESENT OR PAGE_WRITABLE) 1"
    using dt(3) by (simp_all add: page_base_flags entry_bits)
  have tab: "table_of m1 d i = (if i = 0 then Some t else if i < 1024 then None else table_of m d i)" for i
    using tb dt(1) by (simp add: table_of_def ph)
  have two: "\<not> bit (of_nat j * PAGE_SIZE OR PAGE_PRESENT OR PAGE_WRITABLE) 2" for j
  proof -
    have "page_aligned (of_nat j * PAGE_SIZE)"
      by (simp add: page_aligned_iff PAGE_SIZE_def unat_word_ariths mod_mod_cancel)
    then show ?thesis by (simp add: entry_bits page_aligned_bits)
  qed
  have refs: "0 < mmu_refs m1 d" "0 < mmu_refs m1 t"
    using ok low_frame_refs [OF _ ok(2)] dt(2,3)
    by (simp_all add: mmu_refs_def fr mmu_ok_def d_def t_def PAGE_DIRECTORY_PHYSICAL_def FIRST_PAGE_TABLE_PHYSICAL_def)
  have walk: "walk_entry d v m1 = (if dir_index v = 0 then Some (page_base v OR PAGE_PRESENT OR PAGE_WRITABLE) else None)" for v
    using dt(1) by (simp add: walk_entry_table tab ph page_number_base entry_bits)
  have nu: "\<not> user_at m1 d v e" for v e
    using two [of "table_index v"] page_number_base [of v] by (auto simp: user_at_def walk split: if_splits)
  have "pgdir_ok m1 d"
    using dt(1,2) refs tb(3) two by (auto simp: pgdir_ok_def tab ph split: if_splits)
  then show ?thesis using fr tab walk nu by (auto simp: fun_eq_iff)
qed

lemma alloc_page_table_total:
  "allocator_alloc_page_table m = (p, m') \<Longrightarrow> total_frames (mmu_frames m') = total_frames (mmu_frames m)"
proof -
  assume al: "allocator_alloc_page_table m = (p, m')"
  obtain a fr where fr: "frame_alloc_below IDENTITY_MAPPED_LIMIT (mmu_frames m) = (a, fr)" by force
  have "total_frames fr = total_frames (mmu_frames m)"
    using fr by (auto simp: frame_alloc_below_def frame_take_def bitmap_set_def Let_def split: if_splits option.splits)
  then show ?thesis
    using al fr fill_loop [of 1024 a "\<lambda>_. 2"] by (auto simp: allocator_alloc_page_table_def paging_alloc_frame_def split: if_splits)
qed

lemma paging_init_spec:
  assumes ok: "mmu_ok m" "3584 \<le> unat (total_frames (mmu_frames m))" "frame_fail_after (mmu_frames m) < 0"
    and free: "2 \<le> card (low_free m)"
  shows "kernel_space (paging_init m) \<and> mmu_fault (paging_init m) = mmu_fault m \<and>
    total_frames (mmu_frames (paging_init m)) = total_frames (mmu_frames m) \<and> low_free (paging_init m) \<noteq> {} \<and>
    unat (kernel_scratch_table (paging_init m)) < 0x400000 \<and>
    (\<forall>i<1024. \<forall>t. table_of (paging_init m) PAGE_DIRECTORY_PHYSICAL i = Some t \<longrightarrow> unat t < 0x400000)"
proof -
  let ?d = PAGE_DIRECTORY_PHYSICAL and ?t = FIRST_PAGE_TABLE_PHYSICAL
  define m1 where "m1 = put_word ?d 0 (?t OR PAGE_PRESENT OR PAGE_WRITABLE)
    (identity_table ?t (for_loop 0 1024 (\<lambda>i. put_word ?d i 0x02) m))"
  note bd = boot_directory [OF ok(1,2), folded m1_def]
  have m1: "mmu_ok m1" "frame_fail_after (mmu_frames m1) < 0" "low_free m1 \<noteq> {}" "pgdir_ok m1 ?d" "table_of m1 ?d 1023 = None"
    using bd ok free by (auto simp: mmu_ok_def)
  obtain s m2 where al: "allocator_alloc_page_table m1 = (s, m2)" by force
  note f = alloc_page_table_free [OF m1(1-3) al] and a = alloc_page_table_spec [OF m1(1) al]
  have s: "s \<noteq> 0" using f ..
  define m3 where "m3 = put_word ?d 1023 (s OR PAGE_PRESENT OR PAGE_WRITABLE OR (0 AND PAGE_USER)) m2"
  have i: "(1023 :: nat) < 1024" by simp
  note pd = put_dir_table [OF m1(4,1) i m1(5) al s, where f = 0, folded m3_def]
  let ?m = "paging_init m"
  have eq: "?m = m3\<lparr>kernel_scratch_table := s, active_page_directory := ?d, paging_on := True\<rparr>"
    unfolding paging_init_def Let_def m1_def [symmetric] al using s
    by (simp add: m3_def SCRATCH_DIRECTORY_INDEX_def put_word_def)
  have same: "phys ?m = phys m3" "mmu_frames ?m = mmu_frames m2" "mmu_fault ?m = mmu_fault m" "kernel_scratch_table ?m = s"
      "active_page_directory ?m = ?d"
    using a bd by (simp_all add: eq m3_def)
  have w3: "walk_entry ?d v ?m = walk_entry ?d v m3" for v by (simp add: walk_entry_def same Let_def)
  have t3: "table_of ?m ?d i = table_of m3 ?d i" for i by (simp add: table_of_def same)
  have w: "walk_entry ?d v ?m = walk_entry ?d v m1" for v using pd w3 by simp
  have t: "table_of ?m ?d = (table_of m1 ?d)(1023 := Some s)" using pd t3 by (simp add: fun_eq_iff)
  have r: "mmu_refs ?m = mmu_refs m3" by (simp add: mmu_refs_def same m3_def)
  have nu: "\<not> user_at ?m ?d v e" for v e using bd by (simp add: user_at_def w)
  have "pgdir_ok ?m ?d" using pd unfolding pgdir_ok_def t3 same r by blast
  moreover have "scratch_ok ?m ?d"
  proof -
    have "table_of m1 ?d 0 = Some ?t" using bd by simp
    then have "0 < mmu_refs m1 ?t" "0 < mmu_refs m1 ?d"
      using pgdir_okD(2) [OF m1(4)] m1(4) by (simp, simp add: pgdir_ok_def)
    moreover have "mmu_refs m1 s = 0" "mmu_refs m3 s = 1" using a s by (simp_all add: m3_def mmu_refs_def)
    ultimately have "s \<noteq> ?t" "s \<noteq> ?d" "0 < mmu_refs m3 s" by auto
    then show ?thesis using bd by (simp add: scratch_ok_def same t r)
  qed
  moreover have "mmu_ok ?m" using a by (simp add: mmu_ok_def same)
  ultimately have "space_ok ?m ?d" using nu by (intro space_ok_no_user) auto
  moreover have "low_free ?m \<noteq> {}" using f free bd by (auto simp: same)
  moreover have "unat s < 0x400000" using a s by (simp add: IDENTITY_MAPPED_LIMIT_def word_less_nat_alt)
  moreover have "total_frames (mmu_frames m2) = total_frames (mmu_frames m)"
    using alloc_page_table_total [OF al] bd by simp
  ultimately show ?thesis
    using nu w bd f s t by (simp add: kernel_space_def same) (simp add: FIRST_PAGE_TABLE_PHYSICAL_def)
qed

section \<open>The disk\<close>

abbreviation KERNEL_PAGE :: u32 where
  "KERNEL_PAGE \<equiv> PAGE_PRESENT OR PAGE_WRITABLE"

definition disk_page :: "mmu \<Rightarrow> u32 \<Rightarrow> bool" where
  "disk_page m a \<longleftrightarrow> page_aligned a \<and> dir_index a = 3 \<and> 0 < mmu_refs m a \<and> a \<noteq> PAGE_DIRECTORY_PHYSICAL \<and>
     a \<noteq> kernel_scratch_table m \<and> (\<forall>i<1024. table_of m PAGE_DIRECTORY_PHYSICAL i \<noteq> Some a)"

lemma ensure_table_succeeds:
  assumes "mmu_ok m" "frame_fail_after (mmu_frames m) < 0" "table_of m d (dir_index v) \<noteq> None \<or> low_free m \<noteq> {}"
    "ensure_table d v flags m = (ok, m')"
  shows "ok \<and> frame_fail_after (mmu_frames m') < 0"
proof (cases "table_of m d (dir_index v)")
  case None
  then have "\<not> bit (phys m d (dir_index v)) 0" by (auto simp: table_of_def split: if_splits)
  then show ?thesis
    using alloc_page_table_free [OF assms(1,2)] assms(3,4) None
    by (auto simp: ensure_table_def and_flag_eq_0 Let_def split: prod.splits if_splits)
next
  case (Some t)
  then have "bit (phys m d (dir_index v)) 0" by (auto simp: table_of_def split: if_splits)
  then show ?thesis using assms(2,4) by (auto simp: ensure_table_def and_flag_eq_0 Let_def split: if_splits)
qed

lemma kernel_entry: "page_aligned a \<Longrightarrow> a OR (KERNEL_PAGE AND 0xFFF) OR PAGE_PRESENT = a OR KERNEL_PAGE"
  by (rule u32_eqI) (auto simp: entry_bits)

lemma map_disk_page:
  assumes ks: "kernel_space m" and a: "disk_page m a" and t: "table_of m PAGE_DIRECTORY_PHYSICAL 3 \<noteq> None \<or> low_free m \<noteq> {}"
  defines "m' \<equiv> paging_map_page a a KERNEL_PAGE m"
  shows "kernel_space m' \<and> mmu_fault m' = mmu_fault m \<and> walk_entry PAGE_DIRECTORY_PHYSICAL a m' = Some (a OR KERNEL_PAGE) \<and>
    (\<forall>w. \<not> same_page w a \<longrightarrow> walk_entry PAGE_DIRECTORY_PHYSICAL w m' = walk_entry PAGE_DIRECTORY_PHYSICAL w m) \<and>
    (\<forall>b. disk_page m b \<longrightarrow> disk_page m' b)"
proof -
  let ?d = PAGE_DIRECTORY_PHYSICAL
  have base: "page_base ?d = ?d" "?d \<noteq> 0" by (simp_all add: PAGE_DIRECTORY_PHYSICAL_def page_base_def)
  have sp: "space_ok m ?d" "active_page_directory m = ?d" "frame_fail_after (mmu_frames m) < 0" "\<And>v e. \<not> user_at m ?d v e"
    using ks by (simp_all add: kernel_space_def)
  have p: "page_aligned a" "dir_index a = 3" "0 < mmu_refs m a" "a \<noteq> ?d" "a \<noteq> kernel_scratch_table m"
      "\<forall>i<1024. table_of m ?d i \<noteq> Some a" using a by (simp_all add: disk_page_def)
  obtain ok m1 where e: "ensure_table ?d a KERNEL_PAGE m = (ok, m1)" by force
  have en: "ok" "frame_fail_after (mmu_frames m1) < 0"
    using ensure_table_succeeds [OF _ sp(3) _ e] sp(1) t p(2) by (simp_all add: space_ok_def)
  have r: "paging_map_page_in_directory ?d a a KERNEL_PAGE m = (True, m')"
    using map_page_ensure [OF base(2) p(1), of a KERNEL_PAGE m] e en base(1) by (simp add: m'_def paging_map_page_def sp(2))
  have dir: "dir_index a < 768" using p(2) by simp
  have mp: "space_ok m' ?d" "\<And>w. \<not> same_page w a \<Longrightarrow> walk_entry ?d w m' = walk_entry ?d w m"
      "walk_entry ?d a m' = Some (a OR KERNEL_PAGE)" "kernel_scratch_table m' = kernel_scratch_table m"
      "active_page_directory m' = ?d" "mmu_fault m' = mmu_fault m" "\<And>q. 0 < mmu_refs m q \<Longrightarrow> mmu_refs m' q = mmu_refs m q"
      "\<And>i t. i < 1024 \<Longrightarrow> table_of m' ?d i = Some t \<Longrightarrow> table_of m ?d i = Some t \<or> mmu_refs m t = 0"
    using space_map_page [OF sp(1) base(1) [symmetric] base(2) p(1) dir p(3-6) _ r] sp(2,4) kernel_entry [OF p(1)]
    by simp_all
  have "\<not> bit (a OR KERNEL_PAGE) 2" using p(1) by (simp add: entry_bits page_aligned_bits)
  then have nu: "\<not> user_at m' ?d v e" for v e
    using mp(2,3) sp(4) [of v e] walk_same_page [of v a] by (cases "same_page v a") (auto simp: user_at_def)
  have "frame_fail_after (mmu_frames m') < 0"
    using map_page_ensure [OF base(2) p(1), of a KERNEL_PAGE m] r e en base(1) by auto
  moreover have "\<not> same_page v a" if "dir_index v = 0" for v using that p(2) by (simp add: same_page_def)
  ultimately have "kernel_space m'" using ks mp nu by (simp add: kernel_space_def)
  moreover have "disk_page m' b" if "disk_page m b" for b
    using that mp(4) mp(7) [of b] mp(8) [of _ b] by (auto simp: disk_page_def)
  ultimately show ?thesis using mp by blast
qed

lemma map_disk_pages_spec:
  assumes "kernel_space m" "\<forall>a\<in>set pages. disk_page m a" "table_of m PAGE_DIRECTORY_PHYSICAL 3 \<noteq> None \<or> low_free m \<noteq> {}"
  shows "\<exists>m'. map_disk_pages pages m = (BLKDEV_SUCCESS, m') \<and> kernel_space m' \<and> mmu_fault m' = mmu_fault m \<and>
    (\<forall>a\<in>set pages. walk_entry PAGE_DIRECTORY_PHYSICAL a m' = Some (a OR KERNEL_PAGE)) \<and>
    (\<forall>w. (\<forall>a\<in>set pages. \<not> same_page w a) \<longrightarrow> walk_entry PAGE_DIRECTORY_PHYSICAL w m' = walk_entry PAGE_DIRECTORY_PHYSICAL w m)"
  using assms
proof (induction pages arbitrary: m)
  case (Cons a pages)
  let ?d = PAGE_DIRECTORY_PHYSICAL and ?m = "paging_map_page a a KERNEL_PAGE m"
  have a: "disk_page m a" using Cons.prems(2) by simp
  note mp = map_disk_page [OF Cons.prems(1) a Cons.prems(3)]
  have w: "walk_entry ?d a ?m = Some (a OR KERNEL_PAGE)" using mp by blast
  have ks: "kernel_space ?m" and pages: "\<forall>a\<in>set pages. disk_page ?m a" using mp Cons.prems(2) by auto
  have "active_page_directory ?m = ?d" using ks by (simp add: kernel_space_def)
  then have mapped: "paging_is_mapped a ?m" using w by (simp add: is_mapped_walk)
  have "dir_index a = 3" using a by (simp add: disk_page_def)
  then have "table_of ?m ?d 3 \<noteq> None" using w by (auto simp: walk_entry_table split: option.splits)
  then obtain m' where m': "map_disk_pages pages ?m = (BLKDEV_SUCCESS, m')" "kernel_space m'" "mmu_fault m' = mmu_fault ?m"
      "\<forall>a\<in>set pages. walk_entry ?d a m' = Some (a OR KERNEL_PAGE)"
      "\<forall>w. (\<forall>a\<in>set pages. \<not> same_page w a) \<longrightarrow> walk_entry ?d w m' = walk_entry ?d w ?m"
    using Cons.IH [OF ks pages] by blast
  have al: "page_base b = b" if "b \<in> set (a # pages)" for b
    using that Cons.prems(2) page_base_of_aligned unfolding disk_page_def by blast
  have "walk_entry ?d a m' = Some (a OR KERNEL_PAGE)"
  proof (cases "\<exists>b\<in>set pages. same_page a b")
    case True
    then obtain b where b: "b \<in> set pages" "same_page a b" by blast
    have "page_base b = b" "page_base a = a" using al b(1) by simp_all
    then have "b = a" using b(2) unfolding same_page_iff by metis
    then show ?thesis using m'(4) b(1) by blast
  next
    case False
    then show ?thesis using m'(5) [rule_format, of a] w by simp
  qed
  then show ?case using m' mp mapped by (simp add: Let_def)
qed simp

lemma ramdisk_pages_iff: "a \<in> set ramdisk_pages \<longleftrightarrow> page_aligned a \<and> RAMDISK_BASE \<le> a \<and> a < RAMDISK_END"
proof -
  have u: "unat (RAMDISK_BASE + of_nat i * FRAME_SIZE) = 0xC00000 + i * 4096" if "i < 512" for i
    using that by (simp add: unat_word_ariths unat_of_nat ramdisk_consts FRAME_SIZE_def)
  have "a \<in> set ramdisk_pages \<longleftrightarrow> (\<exists>i<512. a = RAMDISK_BASE + of_nat i * FRAME_SIZE)"
    by (auto simp: ramdisk_pages_def ramdisk_consts FRAME_SIZE_def)
  also have "\<dots> \<longleftrightarrow> (\<exists>i<512. unat a = 0xC00000 + i * 4096)" using u by (metis word_unat_eq_iff)
  also have "\<dots> \<longleftrightarrow> unat a mod 4096 = 0 \<and> 0xC00000 \<le> unat a \<and> unat a < 0xE00000"
  proof
    assume a: "unat a mod 4096 = 0 \<and> 0xC00000 \<le> unat a \<and> unat a < 0xE00000"
    then show "\<exists>i<512. unat a = 0xC00000 + i * 4096" by (intro exI [of _ "unat a div 4096 - 3072"]) auto
  qed auto
  finally show ?thesis by (simp add: page_aligned_iff word_le_nat_alt word_less_nat_alt ramdisk_consts)
qed

lemma ramdisk_init_spec:
  assumes s: "\<not> ramdisk_initialized s" and ks: "kernel_space (rd_mmu s)" and free: "low_free (rd_mmu s) \<noteq> {}"
    and tot: "3584 \<le> unat (total_frames (mmu_frames (rd_mmu s)))"
    and scr: "unat (kernel_scratch_table (rd_mmu s)) < 0x400000"
    and tab: "\<forall>i<1024. \<forall>t. table_of (rd_mmu s) PAGE_DIRECTORY_PHYSICAL i = Some t \<longrightarrow> unat t < 0x400000"
  shows "\<exists>s'. ramdisk_init s = (BLKDEV_SUCCESS, s') \<and> ramdisk_initialized s' \<and> kernel_space (rd_mmu s') \<and>
    mmu_fault (rd_mmu s') = mmu_fault (rd_mmu s) \<and>
    (\<forall>v. RAMDISK_BASE \<le> v \<and> v < RAMDISK_END \<longrightarrow>
      walk_entry PAGE_DIRECTORY_PHYSICAL v (rd_mmu s') = Some (page_base v OR KERNEL_PAGE))"
proof -
  let ?d = PAGE_DIRECTORY_PHYSICAL and ?m = "rd_mmu s"
  have sp: "space_ok ?m ?d" and nu: "\<And>v e. \<not> user_at ?m ?d v e" using ks by (simp_all add: kernel_space_def)
  have fok: "frame_ok (mmu_frames ?m)" using sp by (simp add: space_ok_def mmu_ok_def)
  obtain fr where fr: "frame_reserve_range RAMDISK_BASE RAMDISK_END (mmu_frames ?m) = (True, fr)" "frame_ok fr" "low_same (mmu_frames ?m) fr"
      "\<And>a. 0 < mmu_refs ?m a \<Longrightarrow> 0 < frame_refs fr a"
      "\<And>a. page_aligned a \<Longrightarrow> RAMDISK_BASE \<le> a \<Longrightarrow> a < RAMDISK_END \<Longrightarrow> 0 < frame_refs fr a"
    using disk_frames_reserved [OF fok tot] by (auto simp: mmu_refs_def)
  let ?m1 = "?m\<lparr>mmu_frames := fr\<rparr>"
  have t1: "table_of ?m1 ?d i = table_of ?m ?d i" for i by (simp add: table_of_def)
  have "card (pages_of ?m ?d q) \<le> frame_refs fr q" for q using nu by (simp add: pages_of_def)
  then have "space_ok ?m1 ?d" using fr(4) by (intro space_ok_frames [OF sp fr(2)])
  moreover have "frame_fail_after fr < 0" "low_free ?m1 = low_free ?m"
    using fr(3) ks low_same_free [OF fr(3)] by (simp_all add: low_same_def kernel_space_def)
  ultimately have ks1: "kernel_space ?m1" using ks by (simp add: kernel_space_def user_at_def)
  have high: "0xC00000 \<le> unat a" if "RAMDISK_BASE \<le> a" for a using that by (simp add: word_le_nat_alt ramdisk_consts)
  have disk: "disk_page ?m1 a" if a: "a \<in> set ramdisk_pages" for a
  proof -
    have r: "page_aligned a" "RAMDISK_BASE \<le> a" "a < RAMDISK_END" using a by (simp_all add: ramdisk_pages_iff)
    have scr: "kernel_scratch_table ?m \<noteq> a" using scr high [OF r(2)] by auto
    have "unat a div 4194304 = 3" using high [OF r(2)] r(3) by (simp add: word_less_nat_alt ramdisk_consts)
    then have "dir_index a = 3"
      by (simp add: dir_index_def drop_bit_eq_div unat_div unat_and_mask [where n = 10, simplified mask_eq_exp_minus_1, simplified])
    moreover have "table_of ?m1 ?d i \<noteq> Some a" if "i < 1024" for i using tab that high [OF r(2)] by (auto simp: t1)
    ultimately show ?thesis
      using r fr(5) high [OF r(2)] scr by (auto simp: disk_page_def mmu_refs_def PAGE_DIRECTORY_PHYSICAL_def)
  qed
  then obtain m2 where m2: "ramdisk_map_pages ?m1 = (BLKDEV_SUCCESS, m2)" "kernel_space m2" "mmu_fault m2 = mmu_fault ?m"
      "\<forall>a\<in>set ramdisk_pages. walk_entry ?d a m2 = Some (a OR KERNEL_PAGE)"
    using map_disk_pages_spec [OF ks1, of ramdisk_pages] free \<open>low_free ?m1 = low_free ?m\<close> unfolding ramdisk_map_pages_def by auto
  have "walk_entry ?d v m2 = Some (page_base v OR KERNEL_PAGE)" if v: "RAMDISK_BASE \<le> v" "v < RAMDISK_END" for v
  proof -
    have "RAMDISK_BASE \<le> page_base v" "page_base v < RAMDISK_END"
      using v by (simp_all add: word_le_nat_alt word_less_nat_alt unat_page_base ramdisk_consts)
    then have "page_base v \<in> set ramdisk_pages" by (simp add: ramdisk_pages_iff page_base_aligned)
    then show ?thesis using m2(4) walk_same_page [OF same_page_base(2) [of v], of ?d m2] by simp
  qed
  then show ?thesis using s fr(1) m2(1-3) by (auto simp: ramdisk_init_def Let_def)
qed

section \<open>The file system\<close>

lemma vfs_start:
  fixes v :: "ramdisk_data vfs"
  shows "\<exists>v1 v2 v3. vfs_init (Some ramdisk_dev) v = (VFS_SUCCESS, v1) \<and> vfs_format v1 = (VFS_SUCCESS, v2) \<and>
    vfs_mount v2 = (VFS_SUCCESS, v3) \<and> vfs_ok v3 \<and> vfs_mounted v3 \<and> ramfiles (vfs_fs v3) = Map.empty \<and>
    (\<forall>f\<in>set (vfs_open_files v3). \<not> of_used f)"
proof -
  let ?v1 = "vfs_clear_open_files (v\<lparr>vfs_root_dev := Some ramdisk_dev, vfs_mounted := False\<rparr>)"
  let ?v2 = "(vfs_clear_open_files ?v1)\<lparr>vfs_mounted := False\<rparr>"
  obtain s2 where s2: "simplefs_format (Some ramdisk_dev) (vfs_fs ?v2) = (VFS_SUCCESS, s2)" "ramfs_inv s2" "ramfiles s2 = Map.empty"
    using rdisk.fs_format_ok [of "vfs_fs ?v2"] by blast
  obtain s3 where s3: "simplefs_mount (Some ramdisk_dev) s2 = (VFS_SUCCESS, s3)" "ramfs_inv s3" "ramfiles s3 = Map.empty"
    using rdisk.fs_mount_ok [OF s2(2) refl] s2(3) by metis
  have "vfs_init (Some ramdisk_dev) v = (VFS_SUCCESS, ?v1)" by (simp add: vfs_init_def ramdisk_dev_def)
  moreover have "vfs_format ?v1 = (VFS_SUCCESS, ?v2\<lparr>vfs_fs := s2\<rparr>)"
    using s2(1) by (simp add: vfs_format_def vfs_clear_open_files_def)
  moreover have "vfs_mount (?v2\<lparr>vfs_fs := s2\<rparr>) = (VFS_SUCCESS, ?v2\<lparr>vfs_fs := s3, vfs_mounted := True\<rparr>)"
    using s3(1) by (simp add: vfs_mount_def vfs_clear_open_files_def)
  ultimately show ?thesis
    using s3(2,3) by (auto simp: vfs_ok_def vfs_table_ok_def vfs_clear_open_files_def file_ok_def zero_file_def VFS_MAX_OPEN_FILES_def)
qed

section \<open>What the start leaves\<close>

lemma machine_steps [simp]:
  "mc_kernel (on_kernel f mc) = f (mc_kernel mc)" "mc_gdt (on_kernel f mc) = mc_gdt mc" "mc_idt (on_kernel f mc) = mc_idt mc"
  "mc_e820 (on_kernel f mc) = mc_e820 mc" "mc_disk_ready (on_kernel f mc) = mc_disk_ready mc"
  "mc_shell (put_ports ws mc) = mc_shell mc" "mc_gdt (put_ports ws mc) = mc_gdt mc" "mc_idt (put_ports ws mc) = mc_idt mc"
  "mc_e820 (put_ports ws mc) = mc_e820 mc" "mc_disk_ready (put_ports ws mc) = mc_disk_ready mc"
  by (simp_all add: on_kernel_def put_ports_def)

lemma boot_devices_fields:
  "mc_e820 (boot_devices env mc) = mc_e820 mc" "mc_disk_ready (boot_devices env mc) = mc_disk_ready mc"
  "mc_gdt (boot_devices env mc) = gdt_init (mc_gdt mc)" "mc_idt (boot_devices env mc) = idt_init (env_stub env) (mc_idt mc)"
  "k_mmu (mc_kernel (boot_devices env mc)) = k_mmu (mc_kernel mc)"
  "k_hung (mc_kernel (boot_devices env mc)) = k_hung (mc_kernel mc)"
  "vga_inv (k_vga (mc_kernel (boot_devices env mc)))" "kb_inv (k_keyboard (mc_kernel (boot_devices env mc)))"
  "kb_count (k_keyboard (mc_kernel (boot_devices env mc))) = 0"
  by (simp_all add: boot_devices_def timer_init_def keyboard_init_def log_line_def show_line_def Let_def vga_inv_puts vga_init_def
      vga_inv_clear kb_inv_def kb_count_def del: vga_puts.simps serial_puts.simps)

text \<open>At least 14 MiB, and two free frames between 3 and 4 MiB: one for the scratch table, one for the page table of the disk.\<close>

definition memory_suffices :: "boot_env \<Rightarrow> machine \<Rightarrow> bool" where
  "memory_suffices env mc \<longleftrightarrow>
     (let e = e820_init (env_handoff env) (mc_e820 mc);
          fr = frame_init e (memory_init e (env_cmos env)) (env_kernel_end env) (mmu_frames (k_mmu (mc_kernel mc)))
      in 3584 \<le> unat (total_frames fr) \<and> 2 \<le> card (free_below IDENTITY_MAPPED_LIMIT fr))"

lemma boot_memory_fields:
  "mc_disk_ready (boot_memory env mc) = mc_disk_ready mc" "mc_gdt (boot_memory env mc) = mc_gdt mc"
  "mc_idt (boot_memory env mc) = mc_idt mc" "k_hung (mc_kernel (boot_memory env mc)) = k_hung (mc_kernel mc)"
  "k_vga (mc_kernel (boot_memory env mc)) = k_vga (mc_kernel mc)"
  "k_keyboard (mc_kernel (boot_memory env mc)) = k_keyboard (mc_kernel mc)"
  "k_heap (mc_kernel (boot_memory env mc)) = allocator_init (k_heap (mc_kernel mc))"
  "k_mmu (mc_kernel (boot_memory env mc)) = paging_init ((k_mmu (mc_kernel mc))\<lparr>mmu_frames :=
     boot_frames env (e820_init (env_handoff env) (mc_e820 mc)) (mmu_frames (k_mmu (mc_kernel mc)))\<rparr>)"
  by (simp_all add: boot_memory_def Let_def on_kernel_def set_mmu_def)

lemma boot_memory_spec:
  assumes "memory_suffices env mc"
  defines "m \<equiv> k_mmu (mc_kernel (boot_memory env mc))"
  shows "kernel_space m" "mmu_fault m = mmu_fault (k_mmu (mc_kernel mc))" "3584 \<le> unat (total_frames (mmu_frames m))"
    "low_free m \<noteq> {}" "unat (kernel_scratch_table m) < 0x400000"
    "\<forall>i<1024. \<forall>t. table_of m PAGE_DIRECTORY_PHYSICAL i = Some t \<longrightarrow> unat t < 0x400000"
proof -
  let ?e = "e820_init (env_handoff env) (mc_e820 mc)" and ?fr = "mmu_frames (k_mmu (mc_kernel mc))"
  let ?init = "frame_init ?e (memory_init ?e (env_cmos env)) (env_kernel_end env) ?fr"
  let ?m = "(k_mmu (mc_kernel mc))\<lparr>mmu_frames := boot_frames env ?e ?fr\<rparr>"
  have ok: "frame_ok (boot_frames env ?e ?fr)" and low: "low_same ?init (boot_frames env ?e ?fr)" using boot_frames_ok by blast+
  have m: "mmu_ok ?m" "3584 \<le> unat (total_frames (mmu_frames ?m))" "frame_fail_after (mmu_frames ?m) < 0" "2 \<le> card (low_free ?m)"
    using ok low low_same_free [OF low] assms(1) frame_init_fail_after
    by (simp_all add: mmu_ok_def low_same_def memory_suffices_def Let_def)
  note p = paging_init_spec [OF m, folded boot_memory_fields(8), folded m_def]
  show "kernel_space m" "mmu_fault m = mmu_fault (k_mmu (mc_kernel mc))" "3584 \<le> unat (total_frames (mmu_frames m))"
    "low_free m \<noteq> {}" "unat (kernel_scratch_table m) < 0x400000" using p m(2) by simp_all
  show "\<forall>i<1024. \<forall>t. table_of m PAGE_DIRECTORY_PHYSICAL i = Some t \<longrightarrow> unat t < 0x400000" using p by blast
qed

lemma boot_disk_spec:
  assumes "\<not> mc_disk_ready mc" "kernel_space (k_mmu (mc_kernel mc))" "low_free (k_mmu (mc_kernel mc)) \<noteq> {}"
    "3584 \<le> unat (total_frames (mmu_frames (k_mmu (mc_kernel mc))))" "unat (kernel_scratch_table (k_mmu (mc_kernel mc))) < 0x400000"
    "\<forall>i<1024. \<forall>t. table_of (k_mmu (mc_kernel mc)) PAGE_DIRECTORY_PHYSICAL i = Some t \<longrightarrow> unat t < 0x400000"
  shows "\<exists>s. boot_disk mc = (True, put_disk_state s mc) \<and> ramdisk_initialized s \<and> kernel_space (rd_mmu s) \<and>
    mmu_fault (rd_mmu s) = mmu_fault (k_mmu (mc_kernel mc)) \<and>
    (\<forall>v. RAMDISK_BASE \<le> v \<and> v < RAMDISK_END \<longrightarrow>
      walk_entry PAGE_DIRECTORY_PHYSICAL v (rd_mmu s) = Some (page_base v OR KERNEL_PAGE))"
  using ramdisk_init_spec [of "disk_state mc"] assms by (auto simp: boot_disk_def disk_state_def)

lemma put_disk_fields:
  "mc_gdt (put_disk_state s mc) = mc_gdt mc" "mc_idt (put_disk_state s mc) = mc_idt mc"
  "mc_disk_ready (put_disk_state s mc) = ramdisk_initialized s" "k_mmu (mc_kernel (put_disk_state s mc)) = rd_mmu s"
  "k_hung (mc_kernel (put_disk_state s mc)) = k_hung (mc_kernel mc)" "k_vga (mc_kernel (put_disk_state s mc)) = k_vga (mc_kernel mc)"
  "k_keyboard (mc_kernel (put_disk_state s mc)) = k_keyboard (mc_kernel mc)" "k_heap (mc_kernel (put_disk_state s mc)) = k_heap (mc_kernel mc)"
  by (simp_all add: put_disk_state_def on_kernel_def)

lemma boot_files_spec:
  assumes "mc_disk_ready mc"
  shows "\<exists>v. boot_files mc = (True, on_kernel (\<lambda>k. k\<lparr>k_vfs := v\<rparr>) mc) \<and> vfs_ok v \<and> vfs_mounted v \<and> ramfiles (vfs_fs v) = Map.empty \<and>
    (\<forall>f\<in>set (vfs_open_files v). \<not> of_used f)"
proof -
  have "ramdisk_get_device (disk_state mc) = Some ramdisk_dev" using assms by (simp add: ramdisk_get_device_def disk_state_def)
  then show ?thesis using vfs_start [of "k_vfs (mc_kernel mc)"] by (auto simp: boot_files_def Let_def)
qed

lemma boot_shell_spec:
  assumes "vga_inv (k_vga (mc_kernel mc))"
  defines "mc' \<equiv> (boot_shell mc)\<lparr>mc_shell := shell_run [] (mc_shell (boot_shell mc))\<rparr>"
  shows "shell_ok (mc_shell mc')" "mc_gdt mc' = mc_gdt mc" "mc_idt mc' = mc_idt mc" "k_hung (mc_kernel mc') = k_hung (mc_kernel mc)"
    "k_mmu (mc_kernel mc') = k_mmu (mc_kernel mc)" "k_heap (mc_kernel mc') = k_heap (mc_kernel mc)"
    "k_vfs (mc_kernel mc') = k_vfs (mc_kernel mc)" "k_keyboard (mc_kernel mc') = k_keyboard (mc_kernel mc)"
  using assms
  by (simp_all add: mc'_def boot_shell_def log_line_def show_line_def on_kernel_def shell_run_def shell_prompt_def shell_init_def sh_vga_def
      shell_ok_def vga_inv_puts CMD_BUFFER_SIZE_def Let_def del: vga_puts.simps serial_puts.simps)

section \<open>An example\<close>

text \<open>A machine with 32 MiB of memory, reported by the CMOS only.\<close>

definition env_demo :: boot_env where
  "env_demo = \<lparr>env_handoff = \<lparr>h_magic = 0, h_count = 0, h_entries = (\<lambda>_. \<lparr>e_base = 0, e_length = 0, e_type = 0, e_attributes = 0\<rparr>)\<rparr>,
     env_cmos = (\<lambda>r. if r = 0x35 then 1 else 0), env_kernel_end = 0x20000, env_stub = (\<lambda>n. 0x1000), env_tss = 0x5000, env_kb_status = 0\<rparr>"

definition machine_demo :: machine where
  "machine_demo = \<lparr>mc_shell = shell_demo, mc_gdt = replicate 6 zero_gdt_entry,
     mc_idt = replicate 256 \<lparr>base_lo = 0, idt_sel = 0, always0 = 0, idt_flags = 0, base_hi = 0\<rparr>,
     mc_e820 = \<lparr>map_count = 0, map_entries = (\<lambda>_. \<lparr>e_base = 0, e_length = 0, e_type = 0, e_attributes = 0\<rparr>),
       e820_initialized = False, e820_available = False\<rparr>, mc_disk_ready = False, mc_ports = []\<rparr>"

lemma for_loop_mark_free:
  "a \<le> f \<Longrightarrow> f < b \<Longrightarrow> \<not> bitmap_test (for_loop a b mark_free_step s) f"
proof (induction b)
  case (Suc b)
  then show ?case
    by (cases "f = b") (auto simp: for_loop_last mark_free_step_def frame_bits Let_def)
qed simp

lemma mark_allocated_below:
  assumes "unat (align_up b div FRAME_SIZE) \<le> f"
  shows "bitmap_test (mark_allocated a b s) f = bitmap_test s f"
  unfolding mark_allocated_def Let_def
  by (rule for_loop_invariant [where P = "\<lambda>t. bitmap_test t f = bitmap_test s f"])
    (use assms in \<open>auto simp: mark_allocated_step_def frame_bits Let_def word_less_nat_alt split: if_splits\<close>)

lemma frame_init_cmos:
  assumes "map_count e = 0" "\<not> e820_is_available e" "total_memory_kb mi = 32768"
  shows "frame_init e mi kernel_end s =
    (frame_reserve_fixed kernel_end (mark_free 0 0x2000000 (frame_reset 8192 s)))\<lparr>frame_initialized := True\<rparr>"
proof -
  have "highest_memory_from_e820 e = 0" using assms(1) by (simp add: highest_memory_from_e820_def for_loop_done)
  moreover have "total_frames (frame_reset 8192 s) = 8192" by (simp add: frame_reset_def)
  ultimately show ?thesis
    using assms(2,3) by (simp add: frame_init_def frame_init_free_def MAX_TRACKED_MEMORY_def MAX_FRAMES_def FRAME_SIZE_def)
qed

lemma cmos_frames:
  fixes s :: frame_state
  defines "t \<equiv> (frame_reserve_fixed 0x20000 (mark_free 0 0x2000000 (frame_reset 8192 s)))\<lparr>frame_initialized := True\<rparr>"
  shows "3584 \<le> unat (total_frames t)" "{768, 769} \<subseteq> free_below IDENTITY_MAPPED_LIMIT t"
proof -
  let ?s = "mark_free 0 0x2000000 (frame_reset 8192 s)"
  have inv: "frame_inv (frame_reset 8192 s)" by (rule frame_reset_inv) (simp add: MAX_FRAMES_def MAX_TRACKED_MEMORY_def FRAME_SIZE_def)
  have tot: "total_frames ?s = 8192" "frame_inv ?s" using mark_free_inv [OF inv] by (simp_all add: frame_reset_def)
  then have t: "total_frames t = 8192" by (simp add: t_def frame_reserve_fixed_def Let_def mark_allocated_inv)
  have "unat (align_up 0x300000 div FRAME_SIZE) = 768" "unat (align_up 0x81000 div FRAME_SIZE) = 129"
      "unat (align_up 0x102000 div FRAME_SIZE) = 258" "unat (align_up (align_up 0x20000) div FRAME_SIZE) = 32"
    by (simp_all add: unat_div_page align_up_align_down unat_align_down) (simp add: align_down_def FRAME_SIZE_def)
  moreover have "bitmap_test (x\<lparr>frame_initialized := True\<rparr>) f = bitmap_test x f" for x f by (simp add: bitmap_test_def)
  ultimately have "bitmap_test t f = bitmap_test ?s f" if "768 \<le> f" for f
    using that by (simp add: t_def frame_reserve_fixed_def Let_def RESERVED_LOW_END_def mark_allocated_below)
  moreover have "\<not> bitmap_test ?s f" if "f < 8192" for f
    unfolding mark_free_def Let_def
    by (rule for_loop_mark_free)
      (use that in \<open>simp_all add: unat_div_page align_up_align_down unat_align_down frame_reset_def\<close>)
  ultimately show "3584 \<le> unat (total_frames t)" "{768, 769} \<subseteq> free_below IDENTITY_MAPPED_LIMIT t"
    using t by (simp_all add: free_below_def frame_bound_def IDENTITY_MAPPED_LIMIT_def)
qed

lemma memory_demo: "memory_suffices env_demo machine_demo"
proof -
  let ?e = "e820_init (env_handoff env_demo) (mc_e820 machine_demo)"
  let ?mi = "memory_init ?e (env_cmos env_demo)"
  let ?fr = "frame_init ?e ?mi (env_kernel_end env_demo) (mmu_frames (k_mmu (mc_kernel machine_demo)))"
  have e: "map_count ?e = 0" "\<not> e820_is_available ?e"
    by (simp_all add: e820_init_def env_demo_def E820_MAGIC_def e820_is_available_def Let_def)
  have mi: "total_memory_kb ?mi = 32768"
    using e by (simp add: memory_init_def Let_def env_demo_def e820_get_total_usable_memory_def)
  have "3584 \<le> unat (total_frames ?fr)" "{768, 769} \<subseteq> free_below IDENTITY_MAPPED_LIMIT ?fr"
    unfolding frame_init_cmos [OF e mi] using cmos_frames by (simp_all add: env_demo_def)
  then show ?thesis
    using card_mono [of "free_below IDENTITY_MAPPED_LIMIT ?fr" "{768, 769}"] by (simp add: memory_suffices_def Let_def)
qed

section \<open>Properties\<close>

text \<open>C6: The kernel starts. On a machine with at least 14 MiB and two free frames between 3 and 4 MiB, whatever else its
  memory map, its CMOS and the memory hold at power on, kernel_main reaches the prompt of the shell
  without a kernel fault. There the frame allocator, the heap, the page directory of the kernel and the shell satisfy their
  invariants; no page of the kernel is open to the user, the first 4 MiB and the disk are mapped one to one; a file system without files is
  mounted and no file is open; no key is pending; the task state segment is found at its address, and the only
  gate user code can call is the system call gate.\<close>

theorem kernel_boots:
  assumes "length (mc_gdt mc) = 6" "length (mc_idt mc) = IDT_ENTRIES" "\<not> mc_disk_ready mc" "\<not> k_hung (mc_kernel mc)"
    "memory_suffices env mc"
  shows "let mc' = kernel_main env [] mc; k = mc_kernel mc' in
    \<not> k_hung k \<and> mmu_fault (k_mmu k) = mmu_fault (k_mmu (mc_kernel mc)) \<and> kernel_space (k_mmu k) \<and>
    (\<forall>v. RAMDISK_BASE \<le> v \<and> v < RAMDISK_END \<longrightarrow>
      walk_entry PAGE_DIRECTORY_PHYSICAL v (k_mmu k) = Some (page_base v OR PAGE_PRESENT OR PAGE_WRITABLE)) \<and>
    heap_inv (k_heap k) [HEAP_START] \<and> shell_ok (mc_shell mc') \<and> kb_inv (k_keyboard k) \<and> kb_count (k_keyboard k) = 0 \<and>
    vfs_ok (k_vfs k) \<and> vfs_mounted (k_vfs k) \<and> ramfiles (vfs_fs (k_vfs k)) = Map.empty \<and>
    (\<forall>f\<in>set (vfs_open_files (k_vfs k)). \<not> of_used f) \<and>
    gdt_base (mc_gdt mc' ! 5) = env_tss env \<and>
    (\<forall>v<IDT_ENTRIES. idt_callable 3 (mc_idt mc' ! v) \<longleftrightarrow> v = 0x80)"
proof -
  let ?m0 = "boot_devices env mc"
  let ?m1 = "boot_memory env ?m0"
  have suff: "memory_suffices env ?m0" using assms(5) by (simp add: memory_suffices_def boot_devices_fields)
  note mem = boot_memory_spec [OF suff]
  obtain s where s: "boot_disk ?m1 = (True, put_disk_state s ?m1)" "ramdisk_initialized s" "kernel_space (rd_mmu s)"
      "mmu_fault (rd_mmu s) = mmu_fault (k_mmu (mc_kernel mc))"
      "\<forall>v. RAMDISK_BASE \<le> v \<and> v < RAMDISK_END \<longrightarrow>
        walk_entry PAGE_DIRECTORY_PHYSICAL v (rd_mmu s) = Some (page_base v OR PAGE_PRESENT OR PAGE_WRITABLE)"
    using boot_disk_spec [OF _ mem(1,4,3,5,6)] assms(3) mem(2) by (auto simp: boot_memory_fields(1) boot_devices_fields)
  let ?m2 = "put_disk_state s ?m1"
  obtain v where v: "boot_files ?m2 = (True, on_kernel (\<lambda>k. k\<lparr>k_vfs := v\<rparr>) ?m2)" "vfs_ok v" "vfs_mounted v"
      "ramfiles (vfs_fs v) = Map.empty" "\<forall>f\<in>set (vfs_open_files v). \<not> of_used f"
    using boot_files_spec [of ?m2] s(2) by (auto simp: put_disk_fields)
  let ?m3 = "boot_tables env (on_kernel (\<lambda>k. k\<lparr>k_vfs := v\<rparr>) ?m2)"
  have main: "kernel_main env [] mc = (boot_shell ?m3)\<lparr>mc_shell := shell_run [] (mc_shell (boot_shell ?m3))\<rparr>"
    using s(1) v(1) by (simp add: kernel_main_def Let_def)
  have m3: "mc_gdt ?m3 = snd (tss_init (env_tss env) (gdt_init (mc_gdt mc)))"
      "mc_idt ?m3 = syscall_init (env_stub env) (idt_init (env_stub env) (mc_idt mc))"
      "vga_inv (k_vga (mc_kernel ?m3))" "k_mmu (mc_kernel ?m3) = rd_mmu s" "k_vfs (mc_kernel ?m3) = v"
      "k_heap (mc_kernel ?m3) = allocator_init (k_heap (mc_kernel ?m0))" "k_hung (mc_kernel ?m3) = k_hung (mc_kernel mc)"
      "k_keyboard (mc_kernel ?m3) = k_keyboard (mc_kernel ?m0)"
    by (simp_all add: boot_tables_def tss_init_def Let_def put_disk_fields boot_memory_fields(1-7) boot_devices_fields)
  note sh = boot_shell_spec [OF m3(3), folded main]
  have "5 < length (gdt_init (mc_gdt mc))" using assms(1) by (simp add: gdt_init_def gdt_set_gate_def Let_def)
  then have "gdt_base (mc_gdt ?m3 ! 5) = env_tss env" using gate_decodes(1) by (simp add: m3(1) tss_init_def)
  moreover have "idt_callable 3 (mc_idt ?m3 ! i) \<longleftrightarrow> i = 0x80" if "i < IDT_ENTRIES" for i
    using boot_gates [OF assms(2) that, of "env_stub env"] by (simp add: m3(2) Let_def)
  ultimately show ?thesis
    using s(3-5) v(2-5) assms(4) allocator_init_inv boot_devices_fields(8,9) sh by (simp add: Let_def m3)
qed

theorem kernel_boots_witness:
  "\<not> k_hung (mc_kernel (kernel_main env_demo [] machine_demo)) \<and>
   kernel_space (k_mmu (mc_kernel (kernel_main env_demo [] machine_demo)))"
  using kernel_boots [of machine_demo env_demo] memory_demo
  by (simp add: machine_demo_def IDT_ENTRIES_def shell_demo_def kernel_demo_def Let_def)

end
