(* ===== verification/Ready_Queue.thy ===== *)
theory Ready_Queue
  imports Scheduler
begin

text \<open>
  The ready queue of \<^verbatim>\<open>scheduler.c\<close> as a list. The code threads the queue through the \<^verbatim>\<open>next\<close> fields of
  the process table; here a well-formed chain of links is related to the list of its processes, and
  each queue operation is shown to act on that list: \<^verbatim>\<open>enqueue\<close> appends, \<^verbatim>\<open>dequeue_best\<close> takes out the
  first process of maximal dynamic priority, \<^verbatim>\<open>scheduler_remove\<close> deletes. None of the loops runs into a
  cycle, and no field other than \<^verbatim>\<open>next\<close> changes behind the back of the list operation.
\<close>

section \<open>Chains of links\<close>

fun lseg :: "process list \<Rightarrow> nat option \<Rightarrow> nat list \<Rightarrow> nat option \<Rightarrow> bool" where
  "lseg t h [] e = (h = e)"
| "lseg t h (p # ps) e = (h = Some p \<and> p < length t \<and> lseg t (p_next (t ! p)) ps e)"

lemma lseg_append: "lseg t h (ps @ qs) e \<longleftrightarrow> (\<exists>m. lseg t h ps m \<and> lseg t m qs e)"
  by (induction ps arbitrary: h) auto

lemma lseg_cong:
  assumes "length t' = length t" "\<And>p. p \<in> set ps \<Longrightarrow> p_next (t' ! p) = p_next (t ! p)"
  shows "lseg t' h ps e = lseg t h ps e"
  using assms(2) by (induction ps arbitrary: h) (simp_all add: assms(1))

lemma lseg_update [simp]: "i \<notin> set ps \<Longrightarrow> lseg (t[i := x]) h ps e = lseg t h ps e"
  by (rule lseg_cong) (simp, metis nth_list_update_neq)

lemma lseg_bound: "lseg t h ps e \<Longrightarrow> p \<in> set ps \<Longrightarrow> p < length t"
  by (induction ps arbitrary: h) auto

lemma lseg_walk: "lseg t h ps None \<Longrightarrow> length ps \<le> n \<Longrightarrow> walk n t h = Some ps"
proof (induction ps arbitrary: h n)
  case (Cons p ps)
  then obtain m where "n = Suc m" by (cases n) auto
  with Cons show ?case by simp
qed simp

definition queue_is :: "'d kernel \<Rightarrow> nat list \<Rightarrow> bool" where
  "queue_is k qs \<longleftrightarrow> length (process_table k) = MAX_PROCESSES \<and> distinct qs \<and>
     lseg (process_table k) (ready_queue k) qs None"

lemma queue_is_length:
  assumes "queue_is k qs"
  shows "length qs \<le> MAX_PROCESSES"
proof -
  have "set qs \<subseteq> {..<MAX_PROCESSES}"
    using assms by (auto simp: queue_is_def dest: lseg_bound)
  then have "card (set qs) \<le> MAX_PROCESSES"
    using card_mono [of "{..<MAX_PROCESSES}" "set qs"] by simp
  then show ?thesis
    using assms distinct_card [of qs] by (simp add: queue_is_def)
qed

lemma queue_is_queue: "queue_is k qs \<Longrightarrow> queue k = Some qs"
  using queue_is_length by (auto simp: queue_def queue_is_def intro: lseg_walk)

lemma with_queue_is: "queue_is k qs \<Longrightarrow> with_queue f x k = f qs k"
  by (simp add: with_queue_def queue_is_queue)

lemma queue_is_empty_iff: "queue_is k qs \<Longrightarrow> ready_queue k = None \<longleftrightarrow> qs = []"
  by (cases qs) (auto simp: queue_is_def)

lemma queue_is_bound: "queue_is k qs \<Longrightarrow> p \<in> set qs \<Longrightarrow> p < MAX_PROCESSES"
  by (metis lseg_bound queue_is_def)

lemma queue_is_set_proc:
  assumes "queue_is k qs" "\<And>p. p_next (f p) = p_next p"
  shows "queue_is (set_proc i f k) qs"
proof -
  have "p_next ((process_table k)[i := f (proc k i)] ! p) = p_next (proc k p)" if "p \<in> set qs" for p
    using that queue_is_bound [OF assms(1)] assms by (cases "i = p") (simp_all add: queue_is_def)
  then have "lseg (process_table (set_proc i f k)) (ready_queue k) qs None
             = lseg (process_table k) (ready_queue k) qs None"
    by (intro lseg_cong) simp_all
  then show ?thesis using assms(1) by (simp add: queue_is_def)
qed

lemma walk_lseg: "walk n t h = Some ps \<Longrightarrow> \<forall>p\<in>set ps. p < length t \<Longrightarrow> lseg t h ps None"
  by (induction n t h arbitrary: ps rule: walk.induct) auto

lemma queue_is_iff:
  "queue_is k qs \<longleftrightarrow> queue k = Some qs \<and> distinct qs \<and> (\<forall>p\<in>set qs. p < MAX_PROCESSES) \<and>
     length (process_table k) = MAX_PROCESSES"
proof
  assume q: "queue_is k qs"
  show "queue k = Some qs \<and> distinct qs \<and> (\<forall>p\<in>set qs. p < MAX_PROCESSES) \<and>
      length (process_table k) = MAX_PROCESSES"
    using q queue_is_queue [OF q] queue_is_bound [OF q] by (auto simp: queue_is_def)
qed (auto simp: queue_is_def queue_def intro: walk_lseg)

section \<open>The state without its links\<close>

definition unlink :: "process \<Rightarrow> process" where "unlink p = p\<lparr>p_next := None\<rparr>"

definition unlinked :: "'d kernel \<Rightarrow> 'd kernel" where
  "unlinked k = k\<lparr>process_table := map unlink (process_table k), ready_queue := None\<rparr>"

lemma unlink_fields [simp]:
  "p_state (unlink p) = p_state p" "p_dynamic_priority (unlink p) = p_dynamic_priority p"
  "p_priority (unlink p) = p_priority p" "p_cr3 (unlink p) = p_cr3 p"
  "p_kernel_stack (unlink p) = p_kernel_stack p" "p_run_count (unlink p) = p_run_count p"
  "p_interrupt_frame (unlink p) = p_interrupt_frame p" "p_esp (unlink p) = p_esp p"
  by (simp_all add: unlink_def)

lemma unlink_next [simp]: "unlink (p\<lparr>p_next := x\<rparr>) = unlink p"
  by (simp add: unlink_def)

lemma unlinked_fields [simp]:
  "process_table (unlinked k) = map unlink (process_table k)" "current (unlinked k) = current k"
  "k_hung (unlinked k) = k_hung k" "schedule_count (unlinked k) = schedule_count k"
  "k_mmu (unlinked k) = k_mmu k" "k_tss (unlinked k) = k_tss k"
  by (simp_all add: unlinked_def)

lemma unlinked_set_proc:
  assumes "\<And>p. f (unlink p) = unlink (f p)"
  shows "unlinked (set_proc i f k) = set_proc i f (unlinked k)"
proof (cases "i < length (process_table k)")
  case True
  then show ?thesis
    by (simp add: unlinked_def set_proc_def map_update assms)
qed (simp add: unlinked_def set_proc_def list_update_beyond)

lemma unlinked_set_next [simp]: "unlinked (set_proc i (p_next_update (\<lambda>_. x)) k) = unlinked k"
proof (cases "i < length (process_table k)")
  case True
  then show ?thesis
    by (simp add: unlinked_def set_proc_def map_update list_update_same_conv)
qed (simp add: unlinked_def set_proc_def list_update_beyond)

lemma unlinked_ready_queue [simp]: "unlinked (k\<lparr>ready_queue := x\<rparr>) = unlinked k"
  by (simp add: unlinked_def)

section \<open>Queue operations\<close>

definition fill_priority :: "process \<Rightarrow> process" where
  "fill_priority p = (if p_dynamic_priority p = 0 then p\<lparr>p_dynamic_priority := base_priority p\<rparr> else p)"

lemma fill_priority_unlink: "fill_priority (unlink p) = unlink (fill_priority p)"
  by (simp add: fill_priority_def unlink_def base_priority_def)

lemma set_proc_set_proc: "set_proc i f (set_proc i g k) = set_proc i (\<lambda>p. f (g p)) k"
  by (cases "i < length (process_table k)") (simp_all add: set_proc_def list_update_beyond)

lemma enqueue_unfold:
  assumes "i < length (process_table k)"
  shows "enqueue i k =
     (let k = set_proc i fill_priority (set_proc i (\<lambda>p. p\<lparr>p_next := None\<rparr>) k)
      in if ready_queue k = None then k\<lparr>ready_queue := Some i\<rparr>
         else snd (with_queue (\<lambda>ps k. ((), set_proc (last ps) (\<lambda>p. p\<lparr>p_next := Some i\<rparr>) k)) () k))"
proof -
  have "(if p_dynamic_priority (proc k' i) = 0
         then set_proc i (\<lambda>p. p\<lparr>p_dynamic_priority := base_priority p\<rparr>) k' else k')
        = set_proc i fill_priority k'" for k' :: "'a kernel"
    by (simp add: fill_priority_def set_proc_def)
  then show ?thesis by (simp add: enqueue_def Let_def)
qed

lemma enqueue_queue_is:
  assumes "queue_is k qs" "i < MAX_PROCESSES" "i \<notin> set qs"
  shows "queue_is (enqueue i k) (qs @ [i]) \<and>
         unlinked (enqueue i k) = set_proc i fill_priority (unlinked k)"
proof -
  let ?k = "set_proc i fill_priority (set_proc i (\<lambda>p. p\<lparr>p_next := None\<rparr>) k)"
  have len: "length (process_table k) = MAX_PROCESSES" using assms(1) by (simp add: queue_is_def)
  have next_i: "p_next (proc ?k i) = None"
    using assms(2) len by (simp add: fill_priority_def)
  have q: "queue_is ?k qs"
    using assms by (simp add: queue_is_def)
  have u: "unlinked ?k = set_proc i fill_priority (unlinked k)"
    by (simp add: unlinked_set_proc fill_priority_unlink)
  show ?thesis
  proof (cases qs rule: rev_cases)
    case Nil
    with q have "ready_queue ?k = None" by (simp add: queue_is_def)
    then have "enqueue i k = ?k\<lparr>ready_queue := Some i\<rparr>"
      using assms(2) len by (simp add: enqueue_unfold)
    with Nil u next_i assms(2) len show ?thesis by (simp add: queue_is_def)
  next
    case (snoc rs l)
    with q obtain y where "ready_queue k = Some y" using queue_is_empty_iff [OF q] by auto
    then have e: "enqueue i k = set_proc l (\<lambda>p. p\<lparr>p_next := Some i\<rparr>) ?k"
      using assms(2) len by (simp add: enqueue_unfold Let_def with_queue_is [OF q] snoc)
    have "lseg (process_table ?k) (ready_queue ?k) rs (Some l)" "l < MAX_PROCESSES" "l \<noteq> i"
      using q snoc assms(3) len by (auto simp: queue_is_def lseg_append)
    moreover have "distinct (rs @ [l, i])" using q snoc assms(3) by (auto simp: queue_is_def)
    ultimately have "queue_is (enqueue i k) (qs @ [i])"
      unfolding e snoc using next_i len assms(2)
      by (simp add: queue_is_def lseg_append)
    then show ?thesis using u by (simp add: e)
  qed
qed

text \<open>
  The reference for the choice of \<^verbatim>\<open>find_best_ready\<close>: among the processes of the queue with the highest
  dynamic priority, the one that has waited longest.
\<close>

definition first_best :: "process list \<Rightarrow> nat list \<Rightarrow> nat" where
  "first_best t qs =
     hd (filter (\<lambda>p. \<forall>q\<in>set qs. p_dynamic_priority (t ! q) \<le> p_dynamic_priority (t ! p)) qs)"

lemma first_best_eqI:
  assumes "qs = xs @ b # ys" "\<forall>x\<in>set xs. p_dynamic_priority (t ! x) < p_dynamic_priority (t ! b)"
    "\<forall>y\<in>set ys. p_dynamic_priority (t ! y) \<le> p_dynamic_priority (t ! b)"
  shows "first_best t qs = b"
proof -
  have "filter (\<lambda>p. \<forall>q\<in>set qs. p_dynamic_priority (t ! q) \<le> p_dynamic_priority (t ! p)) xs = []"
    using assms by (auto simp: filter_empty_conv not_le)
  then show ?thesis using assms by (auto simp: first_best_def)
qed

lemma best_of_split:
  "\<exists>xs ys. b # ps = xs @ best_of t b ps # ys \<and>
     (\<forall>x\<in>set xs. p_dynamic_priority (t ! x) < p_dynamic_priority (t ! best_of t b ps)) \<and>
     (\<forall>y\<in>set ys. p_dynamic_priority (t ! y) \<le> p_dynamic_priority (t ! best_of t b ps))"
proof (induction ps arbitrary: b)
  case Nil
  show ?case by (rule exI [of _ "[]"]) simp
next
  case (Cons p ps)
  let ?x = "if p_dynamic_priority (t ! b) < p_dynamic_priority (t ! p) then p else b"
  let ?r = "best_of t ?x ps"
  obtain xs ys where s: "?x # ps = xs @ ?r # ys"
      "\<forall>x\<in>set xs. p_dynamic_priority (t ! x) < p_dynamic_priority (t ! ?r)"
      "\<forall>y\<in>set ys. p_dynamic_priority (t ! y) \<le> p_dynamic_priority (t ! ?r)"
    using Cons.IH [of ?x] by blast
  have r: "best_of t b (p # ps) = ?r" by simp
  show ?case
  proof (cases "p_dynamic_priority (t ! b) < p_dynamic_priority (t ! p)")
    case True
    have "p_dynamic_priority (t ! p) \<le> p_dynamic_priority (t ! ?r)"
      using s True by (cases xs) (auto intro: less_imp_le)
    then show ?thesis unfolding r using s True
      by (intro exI [of _ "b # xs"] exI [of _ ys]) auto
  next
    case False
    show ?thesis
    proof (cases xs)
      case Nil
      with s False show ?thesis unfolding r
        by (intro exI [of _ "[]"] exI [of _ "p # ys"]) auto
    next
      case (Cons x xs')
      with s False show ?thesis unfolding r
        by (intro exI [of _ "b # p # xs'"] exI [of _ ys]) auto
    qed
  qed
qed

lemma best_of_first_best: "best_of t b ps = first_best t (b # ps)"
  using best_of_split [of b ps t] first_best_eqI [of "b # ps"] by metis

lemma first_best_split:
  assumes "qs \<noteq> []"
  shows "\<exists>xs ys. qs = xs @ first_best t qs # ys \<and>
     (\<forall>x\<in>set xs. p_dynamic_priority (t ! x) < p_dynamic_priority (t ! first_best t qs)) \<and>
     (\<forall>y\<in>set ys. p_dynamic_priority (t ! y) \<le> p_dynamic_priority (t ! first_best t qs))"
  using best_of_split [of "hd qs" "tl qs" t] assms best_of_first_best [of t "hd qs" "tl qs"] by simp

lemma first_best_in: "qs \<noteq> [] \<Longrightarrow> first_best t qs \<in> set qs"
  using first_best_split [of qs t] by (metis in_set_conv_decomp)

lemma find_best_ready_is:
  assumes "queue_is k qs"
  shows "find_best_ready k = (if qs = [] then None else Some (first_best (process_table k) qs), k)"
proof (cases qs)
  case Nil
  then show ?thesis using assms queue_is_empty_iff [OF assms] by (simp add: find_best_ready_def with_queue_is)
next
  case (Cons p ps)
  then have "ready_queue k = Some p" using assms by (simp add: queue_is_def)
  then show ?thesis using assms Cons
    by (simp add: find_best_ready_def with_queue_is best_of_first_best [symmetric])
qed

text \<open>Both \<^verbatim>\<open>dequeue_best\<close> and \<^verbatim>\<open>scheduler_remove\<close> take one process out of the chain.\<close>

definition cut_out :: "nat option \<Rightarrow> nat \<Rightarrow> 'd kernel \<Rightarrow> 'd kernel" where
  "cut_out prev b k =
     set_proc b (\<lambda>p. p\<lparr>p_next := None\<rparr>)
       (case prev of Some q \<Rightarrow> set_proc q (\<lambda>p. p\<lparr>p_next := p_next (proc k b)\<rparr>) k
        | None \<Rightarrow> k\<lparr>ready_queue := p_next (proc k b)\<rparr>)"

definition last_opt :: "'a list \<Rightarrow> 'a option" where
  "last_opt xs = (if xs = [] then None else Some (last xs))"

lemma cut_out_queue_is:
  assumes "queue_is k (xs @ b # ys)"
  shows "queue_is (cut_out (last_opt xs) b k) (xs @ ys) \<and> unlinked (cut_out (last_opt xs) b k) = unlinked k"
proof (cases xs rule: rev_cases)
  case Nil
  with assms show ?thesis by (auto simp: queue_is_def cut_out_def last_opt_def)
next
  case (snoc rs l)
  then have "lseg (process_table k) (ready_queue k) rs (Some l)" "p_next (proc k l) = Some b"
      "l < MAX_PROCESSES" "b < MAX_PROCESSES" "lseg (process_table k) (p_next (proc k b)) ys None"
      "distinct (rs @ l # b # ys)" "length (process_table k) = MAX_PROCESSES"
    using assms by (auto simp: queue_is_def lseg_append)
  then show ?thesis
    by (simp add: queue_is_def cut_out_def last_opt_def snoc lseg_append)
qed

lemma lseg_find:
  "lseg t h (xs @ l # b # ys) None \<Longrightarrow> distinct (xs @ l # b # ys) \<Longrightarrow>
   find (\<lambda>p. p_next (t ! p) = Some b) (xs @ l # b # ys) = Some l"
proof (induction xs arbitrary: h)
  case (Cons x xs)
  then show ?case by (cases xs) auto
qed simp

lemma dequeue_best_cut_out:
  assumes "queue_is k (xs @ b # ys)" "b = first_best (process_table k) (xs @ b # ys)"
  shows "dequeue_best k = (Some b, cut_out (last_opt xs) b k)"
proof -
  have f: "find_best_ready k = (Some b, k)"
    using find_best_ready_is [OF assms(1)] assms(2) by simp
  show ?thesis
  proof (cases xs rule: rev_cases)
    case Nil
    then have "ready_queue k = Some b" using assms(1) by (simp add: queue_is_def)
    then show ?thesis by (simp add: dequeue_best_def f cut_out_def last_opt_def Nil)
  next
    case (snoc rs l)
    have "ready_queue k \<noteq> Some b"
      using assms(1) snoc by (cases rs) (auto simp: queue_is_def)
    moreover have "find (\<lambda>p. p_next (proc k p) = Some b) (rs @ l # b # ys) = Some l"
      using assms(1) lseg_find [of "process_table k" "ready_queue k" rs l b ys]
      by (simp add: queue_is_def snoc)
    ultimately show ?thesis
      using assms(1) by (simp add: dequeue_best_def f cut_out_def last_opt_def snoc with_queue_is Let_def)
  qed
qed

lemma dequeue_best_none: "queue_is k [] \<Longrightarrow> dequeue_best k = (None, k)"
  by (simp add: dequeue_best_def find_best_ready_is)

lemma dequeue_best_is:
  assumes "queue_is k qs" "qs \<noteq> []"
  shows "fst (dequeue_best k) = Some (first_best (process_table k) qs) \<and>
         queue_is (snd (dequeue_best k)) (remove1 (first_best (process_table k) qs) qs) \<and>
         unlinked (snd (dequeue_best k)) = unlinked k"
proof -
  let ?b = "first_best (process_table k) qs"
  obtain xs ys where qs: "qs = xs @ ?b # ys"
    using first_best_split [OF assms(2)] by blast
  moreover have "?b \<notin> set xs" using assms(1) qs by (metis distinct_append in_set_conv_decomp not_distinct_conv_prefix queue_is_def)
  ultimately have "remove1 ?b qs = xs @ ys" by (metis remove1_append remove1.simps(2))
  then show ?thesis
    using dequeue_best_cut_out [of k xs ?b ys] cut_out_queue_is [of k xs ?b ys] assms(1) qs by simp
qed

lemma remove_from_is:
  assumes "queue_is k (xs @ qs)" "lseg (process_table k) h qs None" "length qs \<le> n" "i \<notin> set xs"
  shows "remove_from n (last_opt xs) h i k =
         (case takeWhile (\<lambda>p. p \<noteq> i) qs of ps \<Rightarrow> if i \<in> set qs then cut_out (last_opt (xs @ ps)) i k else k)"
  using assms
proof (induction qs arbitrary: xs h n)
  case (Cons q qs)
  then obtain m where m: "n = Suc m" by (cases n) auto
  have h: "h = Some q" using Cons.prems by simp
  show ?case
  proof (cases "q = i")
    case True
    then show ?thesis using m h by (simp add: cut_out_def Let_def)
  next
    case False
    have "remove_from m (last_opt (xs @ [q])) (p_next (proc k q)) i k =
         (if i \<in> set qs then cut_out (last_opt ((xs @ [q]) @ takeWhile (\<lambda>p. p \<noteq> i) qs)) i k else k)"
      using Cons.IH [of "xs @ [q]" "p_next (proc k q)" m] Cons.prems m h False by simp
    then show ?thesis using m h False by (simp add: last_opt_def)
  qed
qed simp

lemma scheduler_remove_is:
  assumes "queue_is k qs"
  shows "queue_is (scheduler_remove (Some i) k) (remove1 i qs) \<and>
         unlinked (scheduler_remove (Some i) k) = unlinked k"
proof -
  have "length qs \<le> MAX_PROCESSES"
    by (rule queue_is_length [OF assms])
  then have r: "scheduler_remove (Some i) k =
      (if i \<in> set qs then cut_out (last_opt (takeWhile (\<lambda>p. p \<noteq> i) qs)) i k else k)"
    using remove_from_is [of k "[]" qs "ready_queue k" MAX_PROCESSES i] assms
    by (simp add: scheduler_remove_def queue_is_def last_opt_def)
  show ?thesis
  proof (cases "i \<in> set qs")
    case True
    then obtain xs ys where "qs = xs @ i # ys" "i \<notin> set xs" by (metis split_list_first)
    moreover from this have "takeWhile (\<lambda>p. p \<noteq> i) qs = xs" by (auto simp: takeWhile_append)
    ultimately show ?thesis using r True cut_out_queue_is [of k xs i ys] assms
      by (simp add: remove1_append)
  qed (use r assms in \<open>simp add: remove1_idem\<close>)
qed

end
