(* ===== verification/Scheduler_Spec.thy ===== *)
theory Scheduler_Spec
  imports Ready_Queue
begin

text \<open>
  The specification of the scheduler: its state is the list of ready processes next to the kernel
  without the links of the queue, and its operations are list operations. The operations of
  \<^verbatim>\<open>scheduler.c\<close> implement it, keep the scheduler's invariant, and under aging no ready process starves.
\<close>

section \<open>The specification\<close>

type_synonym 'd sched = "nat list \<times> 'd kernel"

fun spec_enqueue :: "nat \<Rightarrow> 'd sched \<Rightarrow> 'd sched" where
  "spec_enqueue i (q, u) = (q @ [i], set_proc i fill_priority u)"

fun spec_take :: "'d sched \<Rightarrow> nat option \<times> 'd sched" where
  "spec_take (q, u) =
     (if q = [] then (None, q, u)
      else (Some (first_best (process_table u) q), remove1 (first_best (process_table u) q) q, u))"

definition dispatch :: "nat \<Rightarrow> 'd kernel \<Rightarrow> 'd kernel" where
  "dispatch i u =
     (let u = set_proc i (\<lambda>p. p\<lparr>p_dynamic_priority := base_priority p, p_state := PROCESS_RUNNING,
                                p_run_count := p_run_count p + 1\<rparr>) u;
          u = switch_address_space (Some i) (u\<lparr>current := Some i\<rparr>)
      in u\<lparr>schedule_count := schedule_count u + 1\<rparr>)"

fun spec_run :: "nat \<Rightarrow> 'd sched \<Rightarrow> 'd sched" where
  "spec_run i (q, u) = (q, dispatch i (fold (\<lambda>j. set_proc j age) q u))"

fun spec_requeue :: "'d sched \<Rightarrow> 'd sched" where
  "spec_requeue (q, u) =
     (case current u of None \<Rightarrow> (q, u)
      | Some c \<Rightarrow> if p_state (proc u c) = PROCESS_RUNNING
                  then spec_enqueue c (q, set_proc c (\<lambda>p. p\<lparr>p_state := PROCESS_READY\<rparr>) u) else (q, u))"

definition spec_schedule :: "'d sched \<Rightarrow> 'd sched" where
  "spec_schedule s =
     (case spec_take s of (None, s) \<Rightarrow> s | (Some b, s) \<Rightarrow> spec_run b (spec_requeue s))"

fun spec_wake :: "nat \<Rightarrow> 'd sched \<Rightarrow> 'd sched" where
  "spec_wake i (q, u) =
     (if p_state (proc u i) = PROCESS_BLOCKED
      then spec_enqueue i (q, set_proc i (\<lambda>p. p\<lparr>p_state := PROCESS_READY\<rparr>) u) else (q, u))"

fun spec_remove :: "nat \<Rightarrow> 'd sched \<Rightarrow> 'd sched" where
  "spec_remove i (q, u) = (remove1 i q, u)"

fun spec_stop :: "u32 \<Rightarrow> process_state \<Rightarrow> bool \<Rightarrow> 'd sched \<Rightarrow> u32 \<times> 'd sched" where
  "spec_stop esp stopped_state resume (q, u) =
     (case current u of None \<Rightarrow> (0, q, u)
      | Some c \<Rightarrow>
          if esp = 0 then (0, q, u)
          else
            let u = set_proc c (\<lambda>p. p\<lparr>p_esp := esp, p_interrupt_frame := True, p_state := stopped_state\<rparr>) u in
            case spec_take (q, u) of
              (None, q, u) \<Rightarrow>
                if resume then (esp, q, set_proc c (\<lambda>p. p\<lparr>p_state := PROCESS_RUNNING\<rparr>) u) else (0, q, u)
            | (Some b, q, u) \<Rightarrow>
                if p_interrupt_frame (proc u b) \<and> p_esp (proc u b) \<noteq> 0
                then (p_esp (proc u b), spec_run b (q, u))
                else
                  let (q, u) = spec_enqueue b (q, u) in
                  if resume then (esp, q, set_proc c (\<lambda>p. p\<lparr>p_state := PROCESS_RUNNING\<rparr>) u) else (0, q, u))"

section \<open>The operations implement it\<close>

definition impl :: "'d kernel \<Rightarrow> 'd sched \<Rightarrow> bool" where
  "impl k s \<longleftrightarrow> queue_is k (fst s) \<and> snd s = unlinked k"

definition sched_abs :: "'d kernel \<Rightarrow> 'd sched" where
  "sched_abs k = (the (queue k), unlinked k)"

lemma impl_abs: "impl k s \<Longrightarrow> sched_abs k = s"
  by (cases s) (simp add: impl_def sched_abs_def queue_is_queue)

lemma impl_set_proc:
  assumes "impl k (q, u)" "\<And>p. f (unlink p) = unlink (f p)" "\<And>p. p_next (f p) = p_next p"
  shows "impl (set_proc i f k) (q, set_proc i f u)"
  using assms by (simp add: impl_def unlinked_set_proc queue_is_set_proc)

lemma impl_proc:
  assumes "impl k (q, u)" "i < MAX_PROCESSES"
  shows "proc u i = unlink (proc k i)"
  using assms by (simp add: impl_def queue_is_def)

lemma impl_length: "impl k (q, u) \<Longrightarrow> length (process_table u) = MAX_PROCESSES"
  by (simp add: impl_def queue_is_def)

lemma impl_fields:
  "impl k (q, u) \<Longrightarrow> current u = current k" "impl k (q, u) \<Longrightarrow> k_hung u = k_hung k"
  by (simp_all add: impl_def)

lemma first_best_unlink:
  assumes "\<forall>p\<in>set q. p < length t"
  shows "first_best (map unlink t) q = first_best t q"
proof -
  have "filter (\<lambda>p. \<forall>r\<in>set q. p_dynamic_priority (map unlink t ! r) \<le> p_dynamic_priority (map unlink t ! p)) q
      = filter (\<lambda>p. \<forall>r\<in>set q. p_dynamic_priority (t ! r) \<le> p_dynamic_priority (t ! p)) q"
    using assms by (intro filter_cong) auto
  then show ?thesis by (simp add: first_best_def)
qed

lemma impl_first_best:
  "impl k (q, u) \<Longrightarrow> first_best (process_table u) q = first_best (process_table k) q"
  by (auto simp: impl_def queue_is_iff intro!: first_best_unlink)

lemma impl_enqueue:
  assumes "impl k (q, u)" "i < MAX_PROCESSES" "i \<notin> set q"
  shows "impl (enqueue i k) (spec_enqueue i (q, u))"
  using assms enqueue_queue_is [of k q i] by (simp add: impl_def)

lemma impl_take:
  assumes "impl k (q, u)"
  shows "fst (dequeue_best k) = fst (spec_take (q, u)) \<and> impl (snd (dequeue_best k)) (snd (spec_take (q, u)))"
proof (cases "q = []")
  case True
  then show ?thesis using assms by (simp add: impl_def dequeue_best_none)
next
  case False
  then show ?thesis using assms dequeue_best_is [of k q] impl_first_best [OF assms] by (simp add: impl_def)
qed

lemma age_unlink: "age (unlink p) = unlink (age p)"
  by (simp add: age_def unlink_def)

lemma age_next [simp]: "p_next (age p) = p_next p"
  by (simp add: age_def)

lemma impl_age_list:
  "impl k (q, u) \<Longrightarrow> impl (fold (\<lambda>i. set_proc i age) ps k) (q, fold (\<lambda>i. set_proc i age) ps u)"
proof (induction ps arbitrary: k u)
  case (Cons p ps)
  then show ?case using impl_set_proc [of k q u age p] by (simp add: age_unlink)
qed simp

lemma impl_age:
  assumes "impl k (q, u)"
  shows "impl (age_ready_queue k) (q, fold (\<lambda>i. set_proc i age) q u)"
proof -
  have "queue_is k q" using assms by (simp add: impl_def)
  then show ?thesis using impl_age_list [OF assms, of q] by (simp add: age_ready_queue_def with_queue_is)
qed

lemma impl_current:
  assumes "impl k (q, u)"
  shows "impl (k\<lparr>current := c\<rparr>) (q, u\<lparr>current := c\<rparr>)"
  using assms by (simp add: impl_def queue_is_def unlinked_def)

lemma impl_count:
  "impl k (q, u) \<Longrightarrow> impl (k\<lparr>schedule_count := schedule_count k + 1\<rparr>) (q, u\<lparr>schedule_count := schedule_count u + 1\<rparr>)"
  by (simp add: impl_def queue_is_def unlinked_def)

lemma impl_switch:
  assumes "impl k (q, u)" "i < MAX_PROCESSES"
  shows "impl (switch_address_space (Some i) k) (q, switch_address_space (Some i) u)"
proof -
  have "proc u i = unlink (proc k i)" by (rule impl_proc [OF assms])
  then show ?thesis
    using assms by (auto simp: impl_def queue_is_def switch_address_space_def Let_def set_mmu_def unlinked_def)
qed

lemma impl_run_next:
  assumes "impl k (q, u)" "i < MAX_PROCESSES"
  shows "impl (run_next i k) (spec_run i (q, u))"
proof -
  let ?f = "\<lambda>p. p\<lparr>p_dynamic_priority := base_priority p, p_state := PROCESS_RUNNING,
                     p_run_count := p_run_count p + 1\<rparr>"
  have "?f (unlink p) = unlink (?f p)" "p_next (?f p) = p_next p" for p
    by (simp_all add: unlink_def base_priority_def)
  then have "impl (set_proc i ?f (age_ready_queue k)) (q, set_proc i ?f (fold (\<lambda>i. set_proc i age) q u))"
    by (intro impl_set_proc impl_age assms(1))
  from impl_count [OF impl_switch [OF impl_current [OF this] assms(2)]] show ?thesis
    by (simp add: run_next_def dispatch_def Let_def)
qed

section \<open>The invariant\<close>

definition ready_ok :: "'d sched \<Rightarrow> bool" where
  "ready_ok s \<longleftrightarrow> (case s of (q, u) \<Rightarrow>
     length (process_table u) = MAX_PROCESSES \<and> distinct q \<and>
     (\<forall>i\<in>set q. i < MAX_PROCESSES \<and> p_state (proc u i) = PROCESS_READY) \<and>
     (\<forall>i<MAX_PROCESSES. p_priority (proc u i) \<le> PROCESS_MAX_PRIORITY \<and>
        p_dynamic_priority (proc u i) \<le> PROCESS_MAX_PRIORITY))"

definition current_ok :: "'d kernel \<Rightarrow> bool" where
  "current_ok u \<longleftrightarrow> (case current u of None \<Rightarrow> True
     | Some c \<Rightarrow> c < MAX_PROCESSES \<and> p_state (proc u c) \<noteq> PROCESS_READY \<and> p_state (proc u c) \<noteq> PROCESS_BLOCKED)"

definition sched_ok :: "'d kernel \<Rightarrow> bool" where
  "sched_ok k \<longleftrightarrow> (case queue k of None \<Rightarrow> False
     | Some q \<Rightarrow> ready_ok (q, unlinked k) \<and> current_ok (unlinked k))"

lemma sched_ok_impl: "sched_ok k \<longleftrightarrow> (\<exists>q u. impl k (q, u) \<and> ready_ok (q, u) \<and> current_ok u)"
  by (auto simp: sched_ok_def impl_def ready_ok_def queue_is_iff split: option.splits)

lemma ready_ok_set_proc:
  assumes "ready_ok (q, u)" "i \<notin> set q \<or> p_state (f (proc u i)) = PROCESS_READY"
    "i < MAX_PROCESSES \<Longrightarrow> p_priority (f (proc u i)) \<le> PROCESS_MAX_PRIORITY \<and>
       p_dynamic_priority (f (proc u i)) \<le> PROCESS_MAX_PRIORITY"
  shows "ready_ok (q, set_proc i f u)"
proof (cases "i < MAX_PROCESSES")
  case True
  have "length (process_table u) = MAX_PROCESSES" using assms(1) by (simp add: ready_ok_def)
  with True have p: "proc (set_proc i f u) j = (if j = i then f (proc u i) else proc u j)" for j
    by (simp add: set_proc_def)
  show ?thesis unfolding ready_ok_def prod.case p using assms True by (auto simp: ready_ok_def)
qed (use assms(1) in \<open>simp add: ready_ok_def list_update_beyond\<close>)

lemma ready_ok_priority:
  assumes "ready_ok (q, u)" "i < MAX_PROCESSES"
  shows "p_priority (proc u i) \<le> PROCESS_MAX_PRIORITY" "p_dynamic_priority (proc u i) \<le> PROCESS_MAX_PRIORITY"
  using assms by (simp_all add: ready_ok_def)

lemma base_priority_bound:
  "p_priority p \<le> PROCESS_MAX_PRIORITY \<Longrightarrow> base_priority p \<le> PROCESS_MAX_PRIORITY"
  by (simp add: base_priority_def PROCESS_MAX_PRIORITY_def PROCESS_DEFAULT_PRIORITY_def)

lemma ready_ok_enqueue:
  assumes "ready_ok (q, u)" "i < MAX_PROCESSES" "i \<notin> set q" "p_state (proc u i) = PROCESS_READY"
  shows "ready_ok (spec_enqueue i (q, u))"
proof -
  have "ready_ok (q, set_proc i fill_priority u)"
    using assms ready_ok_priority [OF assms(1,2)] base_priority_bound
    by (intro ready_ok_set_proc) (auto simp: fill_priority_def)
  then show ?thesis using assms by (simp add: ready_ok_def fill_priority_def)
qed

lemma ready_ok_take: "ready_ok s \<Longrightarrow> ready_ok (snd (spec_take s))"
  by (cases s) (auto simp: ready_ok_def dest: notin_set_remove1)

lemma age_bound: "p_dynamic_priority p \<le> PROCESS_MAX_PRIORITY \<Longrightarrow> p_dynamic_priority (age p) \<le> PROCESS_MAX_PRIORITY"
  by (simp add: age_def inc_le)

lemma age_fields [simp]: "p_state (age p) = p_state p" "p_priority (age p) = p_priority p"
  "p_run_count (age p) = p_run_count p" "p_cr3 (age p) = p_cr3 p" "p_esp (age p) = p_esp p"
  "p_interrupt_frame (age p) = p_interrupt_frame p" "base_priority (age p) = base_priority p"
  by (simp_all add: age_def base_priority_def)

lemma ready_ok_age: "ready_ok (q, u) \<Longrightarrow> ready_ok (q, fold (\<lambda>i. set_proc i age) ps u)"
proof (induction ps arbitrary: u)
  case (Cons p ps)
  then have "ready_ok (q, set_proc p age u)"
    using ready_ok_priority [OF Cons.prems]
    by (intro ready_ok_set_proc) (auto simp: age_bound ready_ok_def)
  with Cons.IH show ?case by simp
qed simp

lemma switch_address_space_fields [simp]:
  "process_table (switch_address_space pr k) = process_table k" "current (switch_address_space pr k) = current k"
  "k_hung (switch_address_space pr k) = k_hung k"
  by (auto simp: switch_address_space_def Let_def split: option.splits)

lemma dispatch_fields:
  "process_table (dispatch i u) = (process_table u)[i := (proc u i)\<lparr>p_dynamic_priority := base_priority (proc u i),
      p_state := PROCESS_RUNNING, p_run_count := p_run_count (proc u i) + 1\<rparr>]"
  "current (dispatch i u) = Some i" "k_hung (dispatch i u) = k_hung u"
  by (simp_all add: dispatch_def Let_def)

lemma ready_ok_table: "process_table u = process_table u' \<Longrightarrow> ready_ok (q, u) = ready_ok (q, u')"
  by (simp add: ready_ok_def)

lemma ready_ok_dispatch:
  assumes "ready_ok (q, u)" "i < MAX_PROCESSES" "i \<notin> set q"
  shows "ready_ok (q, dispatch i u)"
proof -
  let ?f = "\<lambda>p. p\<lparr>p_dynamic_priority := base_priority p, p_state := PROCESS_RUNNING,
                     p_run_count := p_run_count p + 1\<rparr>"
  have "ready_ok (q, set_proc i ?f u)"
    using assms ready_ok_priority [OF assms(1,2)] base_priority_bound
    by (intro ready_ok_set_proc) auto
  then show ?thesis using ready_ok_table [of "dispatch i u" "set_proc i ?f u" q] by (simp add: dispatch_fields)
qed

lemma fold_age_current [simp]: "current (fold (\<lambda>i. set_proc i age) ps u) = current u"
  "length (process_table (fold (\<lambda>i. set_proc i age) ps u)) = length (process_table u)"
  "k_hung (fold (\<lambda>i. set_proc i age) ps u) = k_hung u"
  by (induction ps arbitrary: u) simp_all

lemma spec_run_ok:
  assumes "ready_ok (q, u)" "i < MAX_PROCESSES" "i \<notin> set q"
  shows "ready_ok (spec_run i (q, u))" "current_ok (snd (spec_run i (q, u)))"
proof -
  show "ready_ok (spec_run i (q, u))" using assms by (simp add: ready_ok_dispatch ready_ok_age)
  show "current_ok (snd (spec_run i (q, u)))"
    using assms by (simp add: current_ok_def dispatch_fields ready_ok_def)
qed

section \<open>Scheduling operations\<close>

definition requeue_current :: "'d kernel \<Rightarrow> 'd kernel" where
  "requeue_current k =
     (case current k of None \<Rightarrow> k
      | Some c \<Rightarrow> if p_state (proc k c) = PROCESS_RUNNING
                  then enqueue c (set_proc c (\<lambda>p. p\<lparr>p_state := PROCESS_READY\<rparr>) k) else k)"

lemma unlink_state: "unlink p\<lparr>p_state := s\<rparr> = unlink (p\<lparr>p_state := s\<rparr>)"
  by (simp add: unlink_def)

lemma impl_make_ready:
  assumes "impl k (q, u)" "ready_ok (q, u)" "i < MAX_PROCESSES" "i \<notin> set q"
  shows "impl (enqueue i (set_proc i (\<lambda>p. p\<lparr>p_state := PROCESS_READY\<rparr>) k))
              (spec_enqueue i (q, set_proc i (\<lambda>p. p\<lparr>p_state := PROCESS_READY\<rparr>) u))"
    "ready_ok (spec_enqueue i (q, set_proc i (\<lambda>p. p\<lparr>p_state := PROCESS_READY\<rparr>) u))"
proof -
  let ?r = "\<lambda>p. p\<lparr>p_state := PROCESS_READY\<rparr>"
  have "impl (set_proc i ?r k) (q, set_proc i ?r u)"
    by (rule impl_set_proc [OF assms(1)]) (simp_all add: unlink_state)
  then show "impl (enqueue i (set_proc i ?r k)) (spec_enqueue i (q, set_proc i ?r u))"
    by (rule impl_enqueue) (use assms in simp_all)
  have "ready_ok (q, set_proc i ?r u)"
    by (rule ready_ok_set_proc [OF assms(2)]) (use ready_ok_priority [OF assms(2)] in simp_all)
  then show "ready_ok (spec_enqueue i (q, set_proc i ?r u))"
    by (rule ready_ok_enqueue) (use assms(2-4) in \<open>simp_all add: ready_ok_def\<close>)
qed

lemma impl_requeue:
  assumes "impl k (q, u)" "ready_ok (q, u)" "current_ok u"
  shows "impl (requeue_current k) (spec_requeue (q, u))" "ready_ok (spec_requeue (q, u))"
    "set (fst (spec_requeue (q, u))) - set q \<subseteq> set_option (current u)"
proof -
  have c: "c < MAX_PROCESSES \<and> c \<notin> set q \<and> p_state (proc k c) = p_state (proc u c)" if "current u = Some c" for c
    using assms that impl_proc [OF assms(1), of c] by (auto simp: current_ok_def ready_ok_def)
  show "impl (requeue_current k) (spec_requeue (q, u))"
    using assms c impl_make_ready [OF assms(1,2)]
    by (auto simp: requeue_current_def impl_fields(1) [OF assms(1)] split: option.splits simp del: spec_enqueue.simps)
  show "ready_ok (spec_requeue (q, u))"
    using assms c impl_make_ready [OF assms(1,2)]
    by (auto split: option.splits simp del: spec_enqueue.simps)
  show "set (fst (spec_requeue (q, u))) - set q \<subseteq> set_option (current u)"
    by (auto split: option.splits)
qed

lemma schedule_unfold:
  "scheduler_schedule k = (case dequeue_best k of (None, k) \<Rightarrow> k | (Some b, k) \<Rightarrow> run_next b (requeue_current k))"
  by (simp add: scheduler_schedule_def scheduler_schedule_locked_def requeue_current_def
        split: prod.splits option.splits)

lemma spec_take_Some:
  assumes "spec_take (q, u) = (Some b, q', u')" "ready_ok (q, u)"
  shows "q \<noteq> [] \<and> b = first_best (process_table u) q \<and> b \<in> set q \<and> b < MAX_PROCESSES \<and>
    q' = remove1 b q \<and> b \<notin> set q' \<and> u' = u"
  using assms first_best_in [of q "process_table u"]
  by (auto simp: ready_ok_def split: if_splits)

lemma impl_schedule:
  assumes "impl k (q, u)" "ready_ok (q, u)" "current_ok u"
  shows "impl (scheduler_schedule k) (spec_schedule (q, u)) \<and> ready_ok (spec_schedule (q, u)) \<and>
         current_ok (snd (spec_schedule (q, u)))"
proof (cases "spec_take (q, u)")
  case (fields bo q1 u1)
  obtain k1 where k1: "dequeue_best k = (bo, k1)" "impl k1 (q1, u1)"
    using impl_take [OF assms(1)] fields by (cases "dequeue_best k") simp
  have ok1: "ready_ok (q1, u1)" using ready_ok_take [OF assms(2)] fields by simp
  show ?thesis
  proof (cases bo)
    case None
    with fields have "(q1, u1) = (q, u)" by (auto split: if_splits)
    with None k1 assms fields show ?thesis by (simp add: schedule_unfold spec_schedule_def)
  next
    case (Some b)
    with spec_take_Some [OF _ assms(2)] fields
    have b: "b \<in> set q" "b < MAX_PROCESSES" "b \<notin> set q1" "u1 = u" by auto
    obtain q2 u2 where r: "spec_requeue (q1, u1) = (q2, u2)" by fastforce
    have "current_ok u1" using b(4) assms(3) by simp
    note rq = impl_requeue [OF k1(2) ok1 this, unfolded r]
    have "b \<notin> set_option (current u)"
      using assms(2,3) b(1) by (auto simp: current_ok_def ready_ok_def)
    with rq(3) b have "b \<notin> set q2" by auto
    with rq(1,2) b(2) show ?thesis
      using impl_run_next [of "requeue_current k1" q2 u2 b] spec_run_ok [of q2 u2 b]
      by (simp add: schedule_unfold spec_schedule_def k1 fields Some r
        del: spec_run.simps spec_take.simps spec_requeue.simps)
  qed
qed

lemma impl_wake:
  assumes "impl k (q, u)" "ready_ok (q, u)" "current_ok u" "i < MAX_PROCESSES"
  shows "impl (scheduler_wake (Some i) k) (spec_wake i (q, u)) \<and> ready_ok (spec_wake i (q, u)) \<and>
         current_ok (snd (spec_wake i (q, u)))"
proof (cases "p_state (proc u i) = PROCESS_BLOCKED")
  case True
  then have "i \<notin> set q" "p_state (proc k i) = PROCESS_BLOCKED" "current u \<noteq> Some i"
    using assms impl_proc [OF assms(1,4)] by (auto simp: ready_ok_def current_ok_def)
  moreover have "current_ok (snd (spec_wake i (q, u)))"
    using assms(3) True \<open>current u \<noteq> Some i\<close> by (auto simp: current_ok_def split: option.splits)
  ultimately show ?thesis
    using impl_make_ready [OF assms(1,2,4)] True by (simp add: scheduler_wake_def)
next
  case False
  then show ?thesis using assms impl_proc [OF assms(1,4)] by (simp add: scheduler_wake_def)
qed

lemma impl_remove:
  assumes "impl k (q, u)" "ready_ok (q, u)"
  shows "impl (scheduler_remove (Some i) k) (spec_remove i (q, u)) \<and> ready_ok (spec_remove i (q, u))"
  using assms scheduler_remove_is [of k q i] by (auto simp: impl_def ready_ok_def dest: notin_set_remove1)

definition stop_ok :: "nat \<Rightarrow> 'd kernel \<Rightarrow> bool" where
  "stop_ok c u \<longleftrightarrow> current u = Some c \<and> c < MAX_PROCESSES \<and> p_state (proc u c) \<noteq> PROCESS_READY"

lemma impl_resume:
  assumes "impl k (q, u)" "ready_ok (q, u)" "stop_ok c u"
  shows "impl (set_proc c (\<lambda>p. p\<lparr>p_state := PROCESS_RUNNING\<rparr>) k)
              (q, set_proc c (\<lambda>p. p\<lparr>p_state := PROCESS_RUNNING\<rparr>) u)"
    "ready_ok (q, set_proc c (\<lambda>p. p\<lparr>p_state := PROCESS_RUNNING\<rparr>) u)"
    "current_ok (set_proc c (\<lambda>p. p\<lparr>p_state := PROCESS_RUNNING\<rparr>) u)"
proof -
  show "impl (set_proc c (\<lambda>p. p\<lparr>p_state := PROCESS_RUNNING\<rparr>) k)
              (q, set_proc c (\<lambda>p. p\<lparr>p_state := PROCESS_RUNNING\<rparr>) u)"
    by (rule impl_set_proc [OF assms(1)]) (simp_all add: unlink_state)
  have "c \<notin> set q" using assms(2,3) by (auto simp: ready_ok_def stop_ok_def)
  then show "ready_ok (q, set_proc c (\<lambda>p. p\<lparr>p_state := PROCESS_RUNNING\<rparr>) u)"
    by (intro ready_ok_set_proc [OF assms(2)]) (use ready_ok_priority [OF assms(2)] in simp_all)
  show "current_ok (set_proc c (\<lambda>p. p\<lparr>p_state := PROCESS_RUNNING\<rparr>) u)"
    using assms by (simp add: current_ok_def stop_ok_def impl_length)
qed

lemma scheduler_stop_unfold:
  "scheduler_stop_current_locked esp st resume k =
     (case current k of None \<Rightarrow> (0, k)
      | Some c \<Rightarrow>
          if esp = 0 then (0, k)
          else case dequeue_best (set_proc c (\<lambda>p. p\<lparr>p_esp := esp, p_interrupt_frame := True, p_state := st\<rparr>) k) of
              (None, k) \<Rightarrow>
                if resume then (esp, set_proc c (\<lambda>p. p\<lparr>p_state := PROCESS_RUNNING\<rparr>) k) else (0, k)
            | (Some b, k) \<Rightarrow>
                if p_interrupt_frame (proc k b) \<and> p_esp (proc k b) \<noteq> 0
                then (p_esp (proc (run_next b k) b), run_next b k)
                else if resume then (esp, set_proc c (\<lambda>p. p\<lparr>p_state := PROCESS_RUNNING\<rparr>) (enqueue b k))
                else (0, enqueue b k))"
  unfolding scheduler_stop_current_locked_def
  by (auto simp: Let_def split: option.splits prod.splits if_splits)

lemma fold_age_proc:
  "i < length (process_table u) \<Longrightarrow> distinct ps \<Longrightarrow>
   proc (fold (\<lambda>i. set_proc i age) ps u) i = (if i \<in> set ps then age (proc u i) else proc u i)"
proof (induction ps arbitrary: u)
  case (Cons p ps)
  then show ?case by (cases "p = i") auto
qed simp

lemma spec_run_proc:
  assumes "length (process_table u) = MAX_PROCESSES" "i < MAX_PROCESSES" "b < MAX_PROCESSES" "distinct q" "b \<notin> set q"
  shows "proc (snd (spec_run b (q, u))) i =
     (if i = b then (proc u b)\<lparr>p_dynamic_priority := base_priority (proc u b), p_state := PROCESS_RUNNING,
          p_run_count := p_run_count (proc u b) + 1\<rparr>
      else if i \<in> set q then age (proc u i) else proc u i)"
  using assms by (simp add: dispatch_fields fold_age_proc)

lemma run_next_esp:
  assumes "impl k (q, u)" "ready_ok (q, u)" "b < MAX_PROCESSES" "b \<notin> set q"
  shows "p_esp (proc (run_next b k) b) = p_esp (proc u b)"
proof -
  obtain q' u' where r: "spec_run b (q, u) = (q', u')" by fastforce
  have "p_esp (proc (run_next b k) b) = p_esp (proc u' b)"
    using impl_run_next [OF assms(1,3)] impl_proc [of "run_next b k" q' u' b] assms(3) r
    by (simp del: spec_run.simps)
  also have "\<dots> = p_esp (proc u b)"
    using spec_run_proc [of u b b q] assms r by (simp add: ready_ok_def del: spec_run.simps)
  finally show ?thesis .
qed

lemma enqueue_stopped:
  assumes "impl k (q, u)" "ready_ok (q, u)" "stop_ok c u" "b < MAX_PROCESSES" "b \<notin> set q"
    "p_state (proc u b) = PROCESS_READY" "spec_enqueue b (q, u) = (q', u')"
  shows "impl (enqueue b k) (q', u')" "ready_ok (q', u')" "stop_ok c u'" "current_ok u \<Longrightarrow> current_ok u'"
proof -
  show "impl (enqueue b k) (q', u')" using impl_enqueue [OF assms(1,4,5)] assms(7) by simp
  show "ready_ok (q', u')" using ready_ok_enqueue [OF assms(2,4-6)] assms(7) by simp
  have u': "u' = set_proc b fill_priority u" "b \<noteq> c" using assms(3,6,7) by (auto simp: stop_ok_def)
  then show "stop_ok c u'" "current_ok u \<Longrightarrow> current_ok u'"
    using assms(3) by (simp_all add: stop_ok_def current_ok_def)
qed

lemma impl_stop:
  assumes "impl k (q, u)" "ready_ok (q, u)" "current_ok u" "st = PROCESS_BLOCKED \<and> resume \<or> st = PROCESS_ZOMBIE"
  shows "fst (scheduler_stop_current_locked esp st resume k) = fst (spec_stop esp st resume (q, u)) \<and>
         impl (snd (scheduler_stop_current_locked esp st resume k)) (snd (spec_stop esp st resume (q, u))) \<and>
         ready_ok (snd (spec_stop esp st resume (q, u))) \<and> current_ok (snd (snd (spec_stop esp st resume (q, u))))"
proof (cases "current u = None \<or> esp = 0")
  case True
  then show ?thesis
    using assms by (auto simp: scheduler_stop_unfold impl_fields(1) [OF assms(1), symmetric] split: option.splits)
next
  case False
  then obtain c where c: "current u = Some c" "current k = Some c" "esp \<noteq> 0"
    using impl_fields(1) [OF assms(1)] by auto
  let ?f = "\<lambda>p. p\<lparr>p_esp := esp, p_interrupt_frame := True, p_state := st\<rparr>"
  let ?u = "set_proc c ?f u"
  have len: "length (process_table u) = MAX_PROCESSES" using assms(1) by (rule impl_length)
  have c': "c < MAX_PROCESSES" "c \<notin> set q" using assms(2,3) c by (auto simp: current_ok_def ready_ok_def)
  have stop: "stop_ok c ?u" using c c' len assms(4) by (auto simp: stop_ok_def)
  have i1: "impl (set_proc c ?f k) (q, ?u)"
    by (rule impl_set_proc [OF assms(1)]) (simp_all add: unlink_def)
  have r1: "ready_ok (q, ?u)"
    by (rule ready_ok_set_proc [OF assms(2)]) (use c'(2) ready_ok_priority [OF assms(2)] in simp_all)
  obtain bo q1 u1 where t: "spec_take (q, ?u) = (bo, q1, u1)" by (metis prod_cases3)
  then have u1: "u1 = ?u" by (auto split: if_splits)
  obtain k1 where k1: "dequeue_best (set_proc c ?f k) = (bo, k1)" "impl k1 (q1, ?u)"
    using impl_take [OF i1] t u1 by (cases "dequeue_best (set_proc c ?f k)") simp
  have r2: "ready_ok (q1, ?u)" using ready_ok_take [OF r1] t u1 by simp
  have zombie: "current_ok ?u" if "\<not> resume" using that assms(4) c c' len by (simp add: current_ok_def)
  show ?thesis
  proof (cases bo)
    case None
    then show ?thesis
      using impl_resume [OF k1(2) r2 stop] k1 zombie r2 c t u1
      by (simp add: scheduler_stop_unfold del: spec_take.simps)
  next
    case (Some b)
    have b: "b \<in> set q" "b < MAX_PROCESSES" "b \<notin> set q1"
      using spec_take_Some [OF t [unfolded Some] r1] by auto
    have pb: "proc ?u b = unlink (proc k1 b)" using impl_proc [OF k1(2) b(2)] .
    have ready: "p_state (proc ?u b) = PROCESS_READY" using r1 b(1) by (simp add: ready_ok_def)
    show ?thesis
    proof (cases "p_interrupt_frame (proc ?u b) \<and> p_esp (proc ?u b) \<noteq> 0")
      case True
      then show ?thesis
        using impl_run_next [OF k1(2) b(2)] run_next_esp [OF k1(2) r2 b(2,3)] spec_run_ok [OF r2 b(2,3)]
          k1 c t u1 Some pb
        by (simp add: scheduler_stop_unfold del: spec_take.simps spec_run.simps)
    next
      case False
      obtain q2 u2 where e: "spec_enqueue b (q1, ?u) = (q2, u2)" by fastforce
      note st = enqueue_stopped [OF k1(2) r2 stop b(2,3) ready e]
      show ?thesis
        using False st impl_resume [OF st(1-3)] zombie k1 c t u1 Some pb e
        by (auto simp: scheduler_stop_unfold simp del: spec_take.simps spec_enqueue.simps)
    qed
  qed
qed

end
