(* ===== verification/Fairness.thy ===== *)
theory Fairness
  imports Scheduler_Spec
begin

text \<open>
  Aging and fairness. A locale states what fairness needs of a queue with priorities: each step takes
  the first process of maximal priority, raises the priority of those that stay by one up to a bound,
  and lets new processes in only at the end; between the steps the environment may let processes in
  at the end or take others out. Then the distance of a waiting process to the front of the highest
  priority falls with every step, so it is taken within a bounded number of steps.
\<close>

section \<open>Queues with aging\<close>

locale aging_queue =
  fixes ok :: "'s \<Rightarrow> bool" and ready :: "'s \<Rightarrow> nat list" and prio :: "'s \<Rightarrow> nat \<Rightarrow> nat"
    and step :: "'s \<Rightarrow> 's" and running :: "'s \<Rightarrow> nat option"
    and env :: "nat \<Rightarrow> 's \<Rightarrow> 's \<Rightarrow> bool" and bound :: nat
  assumes ok_step: "ok s \<Longrightarrow> ok (step s)"
    and prio_bound: "ok s \<Longrightarrow> i \<in> set (ready s) \<Longrightarrow> prio s i \<le> bound"
    and step_takes: "ok s \<Longrightarrow> ready s \<noteq> [] \<Longrightarrow> \<exists>xs b ys new. ready s = xs @ b # ys \<and>
       (\<forall>x\<in>set xs. prio s x < prio s b) \<and> (\<forall>y\<in>set ys. prio s y \<le> prio s b) \<and>
       running (step s) = Some b \<and> ready (step s) = xs @ ys @ new \<and>
       (\<forall>i\<in>set xs \<union> set ys. prio (step s) i = min bound (prio s i + 1))"
    and env_keeps: "ok s \<Longrightarrow> i \<in> set (ready s) \<Longrightarrow> env i s s' \<Longrightarrow> ok s' \<and> i \<in> set (ready s') \<and>
       prio s' i = prio s i \<and>
       length (takeWhile (\<lambda>j. j \<noteq> i) (ready s')) \<le> length (takeWhile (\<lambda>j. j \<noteq> i) (ready s))"
begin

definition distance :: "nat \<Rightarrow> 's \<Rightarrow> nat" where
  "distance i s = (bound - prio s i) + length (takeWhile (\<lambda>j. j \<noteq> i) (ready s))"

lemma step_progress:
  assumes "ok s" "i \<in> set (ready s)" "running (step s) \<noteq> Some i"
  shows "i \<in> set (ready (step s)) \<and> distance i (step s) < distance i s"
proof -
  have "ready s \<noteq> []" using assms(2) by auto
  then obtain xs b ys new where st: "ready s = xs @ b # ys"
      "\<forall>x\<in>set xs. prio s x < prio s b" "\<forall>y\<in>set ys. prio s y \<le> prio s b"
      "running (step s) = Some b" "ready (step s) = xs @ ys @ new"
      "\<forall>i\<in>set xs \<union> set ys. prio (step s) i = min bound (prio s i + 1)"
    using step_takes [OF assms(1)] by blast
  have "b \<noteq> i" using assms(3) st(4) by auto
  then have i: "i \<in> set xs \<union> set ys" using assms(2) st(1) by auto
  have le: "prio s i \<le> bound" "prio s b \<le> bound" using prio_bound assms(1,2) st(1) by auto
  show ?thesis
  proof (cases "i \<in> set xs")
    case True
    then have "prio s i < bound" using st(2) le by fastforce
    then show ?thesis using True st i by (auto simp: distance_def)
  next
    case False
    then have "takeWhile (\<lambda>j. j \<noteq> i) (ready s) = xs @ b # takeWhile (\<lambda>j. j \<noteq> i) ys"
      "takeWhile (\<lambda>j. j \<noteq> i) (ready (step s)) = xs @ takeWhile (\<lambda>j. j \<noteq> i) ys"
      using st(1,5) i \<open>b \<noteq> i\<close> by (auto simp: takeWhile_append)
    then show ?thesis using st i le by (auto simp: distance_def)
  qed
qed

lemma served:
  assumes "\<And>n. \<exists>s. env i (f n) s \<and> f (Suc n) = step s" "ok (f m)" "i \<in> set (ready (f m))"
  shows "\<exists>n\<le>distance i (f m). running (f (Suc (m + n))) = Some i"
  using assms(2,3)
proof (induction "distance i (f m)" arbitrary: m rule: less_induct)
  case less
  obtain s where s: "env i (f m) s" "f (Suc m) = step s" using assms(1) by blast
  note e = env_keeps [OF less.prems s(1)]
  then have d: "distance i s \<le> distance i (f m)" by (simp add: distance_def)
  show ?case
  proof (cases "running (step s) = Some i")
    case True
    then show ?thesis using s(2) by (intro exI [of _ 0]) simp
  next
    case False
    then have p: "i \<in> set (ready (f (Suc m)))" "distance i (f (Suc m)) < distance i (f m)" "ok (f (Suc m))"
      using step_progress [of s i] ok_step e d s(2) by auto
    with less.hyps [OF p(2,3,1)] obtain n where "n \<le> distance i (f (Suc m))" "running (f (Suc (Suc m + n))) = Some i"
      by blast
    then show ?thesis using p(2) by (intro exI [of _ "Suc n"]) auto
  qed
qed

end

section \<open>The scheduler is fair\<close>

definition ready_list :: "'d kernel \<Rightarrow> nat list" where
  "ready_list k = the (queue k)"

text \<open>
  What may happen between two calls of \<^verbatim>\<open>scheduler_schedule\<close> while process \<open>i\<close> waits: blocked processes
  wake up and other processes leave the queue.
\<close>

inductive sched_env :: "nat \<Rightarrow> 'd kernel \<Rightarrow> 'd kernel \<Rightarrow> bool" for i :: nat where
  env_refl: "sched_env i k k"
| env_wake: "sched_env i k k' \<Longrightarrow> j < MAX_PROCESSES \<Longrightarrow> sched_env i k (scheduler_wake (Some j) k')"
| env_remove: "sched_env i k k' \<Longrightarrow> j \<noteq> i \<Longrightarrow> sched_env i k (scheduler_remove (Some j) k')"

definition priority_of :: "'d kernel \<Rightarrow> nat \<Rightarrow> nat" where
  "priority_of k i = unat (p_dynamic_priority (proc k i))"

lemma impl_ready_list: "impl k (q, u) \<Longrightarrow> ready_list k = q"
  using queue_is_queue [of k q] by (simp add: impl_def ready_list_def)

lemma impl_priority_of:
  "impl k (q, u) \<Longrightarrow> i < MAX_PROCESSES \<Longrightarrow> priority_of k i = unat (p_dynamic_priority (proc u i))"
  by (simp add: priority_of_def impl_proc)

lemma sched_okE:
  assumes "sched_ok k"
  shows "impl k (ready_list k, unlinked k)" "ready_ok (ready_list k, unlinked k)" "current_ok (unlinked k)"
proof -
  obtain q u where "impl k (q, u)" "ready_ok (q, u)" "current_ok u" using assms sched_ok_impl by blast
  moreover from this have "q = ready_list k" "u = unlinked k"
    by (simp_all add: impl_ready_list) (simp add: impl_def)
  ultimately show "impl k (ready_list k, unlinked k)" "ready_ok (ready_list k, unlinked k)" "current_ok (unlinked k)"
    by simp_all
qed

lemma sched_ok_schedule: "sched_ok k \<Longrightarrow> sched_ok (scheduler_schedule k)"
  using impl_schedule [OF sched_okE] sched_ok_impl by (metis prod.collapse)

lemma age_priority:
  assumes "p_dynamic_priority p \<le> PROCESS_MAX_PRIORITY"
  shows "unat (p_dynamic_priority (age p)) = min 16 (unat (p_dynamic_priority p) + 1)"
proof (cases "p_dynamic_priority p < PROCESS_MAX_PRIORITY")
  case True
  then have "unat (p_dynamic_priority p) < 16" by (simp add: PROCESS_MAX_PRIORITY_def word_less_nat_alt)
  then show ?thesis using True by (simp add: age_def unat_word_ariths)
next
  case False
  then have "p_dynamic_priority p = 16" using assms by (simp add: PROCESS_MAX_PRIORITY_def)
  then show ?thesis by (simp add: age_def PROCESS_MAX_PRIORITY_def)
qed

lemma spec_requeue_split:
  assumes "spec_requeue (q, u) = (q2, u2)"
  shows "\<exists>new. q2 = q @ new \<and> set new \<subseteq> set_option (current u) \<and>
    length (process_table u2) = length (process_table u) \<and>
    (\<forall>i. current u \<noteq> Some i \<longrightarrow> proc u2 i = proc u i)"
  using assms by (auto split: option.splits if_splits)

lemma spec_schedule_takes:
  assumes ok: "ready_ok (xs @ b # ys, u)" "current_ok u" and b: "first_best (process_table u) (xs @ b # ys) = b"
  shows "\<exists>new u'. spec_schedule (xs @ b # ys, u) = (xs @ ys @ new, u') \<and> current u' = Some b \<and>
    (\<forall>i\<in>set xs \<union> set ys. proc u' i = age (proc u i))"
proof -
  have dist: "distinct (xs @ b # ys)" and len: "length (process_table u) = MAX_PROCESSES"
    and bnd: "\<forall>i\<in>set xs \<union> set ys \<union> {b}. i < MAX_PROCESSES \<and> p_state (proc u i) = PROCESS_READY"
    using ok(1) by (auto simp: ready_ok_def)
  have cur: "\<forall>i\<in>set xs \<union> set ys \<union> {b}. current u \<noteq> Some i"
    using bnd ok(2) by (auto simp: current_ok_def)
  have t: "spec_take (xs @ b # ys, u) = (Some b, xs @ ys, u)"
    using b dist by (simp add: remove1_append)
  obtain q2 u2 where r: "spec_requeue (xs @ ys, u) = (q2, u2)" by fastforce
  then obtain new where new: "q2 = xs @ ys @ new" "set new \<subseteq> set_option (current u)"
      "length (process_table u2) = MAX_PROCESSES" "\<forall>i. current u \<noteq> Some i \<longrightarrow> proc u2 i = proc u i"
    using spec_requeue_split [OF r] len by auto
  have c: "c \<notin> set xs \<union> set ys \<union> {b}" if "c \<in> set new" for c
    using cur new(2) that by fastforce
  have "distinct q2" "b \<notin> set q2"
    using dist new c r by (auto split: option.splits if_splits)
  moreover have "spec_schedule (xs @ b # ys, u) = spec_run b (q2, u2)"
    by (simp add: spec_schedule_def t r del: spec_take.simps spec_run.simps spec_requeue.simps)
  moreover have "proc (snd (spec_run b (q2, u2))) i = age (proc u i)" if "i \<in> set xs \<union> set ys" for i
    using that bnd dist new cur spec_run_proc [OF new(3) _ _ calculation(1,2), of i] by auto
  ultimately show ?thesis using new(1) by (auto simp: dispatch_fields)
qed

lemma schedule_takes:
  assumes "sched_ok k" "ready_list k \<noteq> []"
  shows "\<exists>xs b ys new. ready_list k = xs @ b # ys \<and>
     (\<forall>x\<in>set xs. priority_of k x < priority_of k b) \<and> (\<forall>y\<in>set ys. priority_of k y \<le> priority_of k b) \<and>
     current (scheduler_schedule k) = Some b \<and> ready_list (scheduler_schedule k) = xs @ ys @ new \<and>
     (\<forall>i\<in>set xs \<union> set ys. priority_of (scheduler_schedule k) i = min 16 (priority_of k i + 1))"
proof -
  obtain q u where q: "ready_list k = q" "unlinked k = u" by blast
  note ok = sched_okE [OF assms(1), unfolded q]
  obtain xs b ys where s: "q = xs @ b # ys" "b = first_best (process_table u) q"
      "\<forall>x\<in>set xs. p_dynamic_priority (proc u x) < p_dynamic_priority (proc u b)"
      "\<forall>y\<in>set ys. p_dynamic_priority (proc u y) \<le> p_dynamic_priority (proc u b)"
    using first_best_split [of q "process_table u"] assms(2) q by metis
  have bnd: "i < MAX_PROCESSES" if "i \<in> set xs \<union> set ys \<union> {b}" for i
    using that ok(2) s(1) by (auto simp: ready_ok_def)
  obtain new u' where n: "spec_schedule (q, u) = (xs @ ys @ new, u')" "current u' = Some b"
      "\<forall>i\<in>set xs \<union> set ys. proc u' i = age (proc u i)"
    using spec_schedule_takes ok(2,3) s(1,2) by metis
  have i: "impl (scheduler_schedule k) (xs @ ys @ new, u')" using impl_schedule [OF ok] n(1) by simp
  have pk: "priority_of k j = unat (p_dynamic_priority (proc u j))" if "j \<in> set xs \<union> set ys \<union> {b}" for j
    using impl_priority_of [OF ok(1)] bnd [OF that] .
  have "priority_of (scheduler_schedule k) j = min 16 (priority_of k j + 1)" if "j \<in> set xs \<union> set ys" for j
    using impl_priority_of [OF i] pk [of j] that bnd [of j] n(3) age_priority ready_ok_priority(2) [OF ok(2)] by simp
  moreover have "current (scheduler_schedule k) = Some b" using n(2) impl_fields(1) [OF i] by simp
  ultimately show ?thesis
    using q s(1,3,4) pk impl_ready_list [OF i]
    by (intro exI [of _ xs] exI [of _ b] exI [of _ ys] exI [of _ new]) (simp add: word_less_nat_alt word_le_nat_alt)
qed

lemma sched_ok_wake:
  assumes "sched_ok k" "j < MAX_PROCESSES"
  shows "sched_ok (scheduler_wake (Some j) k) \<and> (\<exists>new. ready_list (scheduler_wake (Some j) k) = ready_list k @ new) \<and>
    (\<forall>i\<in>set (ready_list k). priority_of (scheduler_wake (Some j) k) i = priority_of k i)"
proof -
  obtain q u where q: "ready_list k = q" "unlinked k = u" by blast
  note ok = sched_okE [OF assms(1), unfolded q]
  obtain q' u' where w: "spec_wake j (q, u) = (q', u')" by fastforce
  have i: "impl (scheduler_wake (Some j) k) (q', u')" "ready_ok (q', u')" "current_ok u'"
    using impl_wake [OF ok assms(2)] w by simp_all
  have "priority_of (scheduler_wake (Some j) k) i = priority_of k i" if "i \<in> set q" for i
  proof -
    have "i < MAX_PROCESSES" "p_state (proc u i) = PROCESS_READY" using ok(2) that by (auto simp: ready_ok_def)
    moreover from this have "proc u' i = proc u i" using w by (cases "i = j") (auto split: if_splits)
    ultimately show ?thesis using impl_priority_of [OF i(1)] impl_priority_of [OF ok(1)] by simp
  qed
  moreover have "\<exists>new. q' = q @ new" using w by (auto split: if_splits)
  ultimately show ?thesis using i q impl_ready_list [OF i(1)] sched_ok_impl by blast
qed

lemma sched_ok_remove:
  assumes "sched_ok k"
  shows "sched_ok (scheduler_remove (Some j) k) \<and> ready_list (scheduler_remove (Some j) k) = remove1 j (ready_list k) \<and>
    (\<forall>i<MAX_PROCESSES. priority_of (scheduler_remove (Some j) k) i = priority_of k i)"
proof -
  note ok = sched_okE [OF assms]
  have i: "impl (scheduler_remove (Some j) k) (remove1 j (ready_list k), unlinked k)"
    "ready_ok (remove1 j (ready_list k), unlinked k)"
    using impl_remove [OF ok(1,2), of j] by simp_all
  then show ?thesis
    using ok impl_ready_list [OF i(1)] impl_priority_of [OF i(1)] impl_priority_of [OF ok(1)] sched_ok_impl by metis
qed

lemma takeWhile_remove1:
  "j \<noteq> i \<Longrightarrow> length (takeWhile (\<lambda>p. p \<noteq> i) (remove1 j q)) \<le> length (takeWhile (\<lambda>p. p \<noteq> i) q)"
  by (induction q) auto

lemma takeWhile_shorter: "i \<in> set q \<Longrightarrow> length (takeWhile (\<lambda>p. p \<noteq> i) q) < length q"
  by (induction q) auto

lemma sched_env_keeps:
  assumes "sched_ok k" "i \<in> set (ready_list k)" "sched_env i k k'"
  shows "sched_ok k' \<and> i \<in> set (ready_list k') \<and> priority_of k' i = priority_of k i \<and>
    length (takeWhile (\<lambda>j. j \<noteq> i) (ready_list k')) \<le> length (takeWhile (\<lambda>j. j \<noteq> i) (ready_list k))"
  using assms(3,1,2)
proof (induction rule: sched_env.induct)
  case (env_wake k1 k2 j)
  then have k2: "sched_ok k2" "i \<in> set (ready_list k2)" by simp_all
  obtain new where "ready_list (scheduler_wake (Some j) k2) = ready_list k2 @ new"
    using sched_ok_wake [OF k2(1) env_wake.hyps(2)] by blast
  then show ?case using sched_ok_wake [OF k2(1) env_wake.hyps(2)] env_wake k2 by (auto simp: takeWhile_append)
next
  case (env_remove k1 k2 j)
  then have k2: "sched_ok k2" "i \<in> set (ready_list k2)" by simp_all
  moreover have "i < MAX_PROCESSES" using k2 sched_okE(2) [OF k2(1)] by (auto simp: ready_ok_def)
  ultimately show ?case
    using sched_ok_remove [OF k2(1), of j] env_remove takeWhile_remove1 [of j i "ready_list k2"] by auto
qed simp

interpretation sched_queue: aging_queue sched_ok ready_list priority_of scheduler_schedule current sched_env 16
proof
  show "sched_ok s \<Longrightarrow> sched_ok (scheduler_schedule s)" for s :: "'a kernel" by (rule sched_ok_schedule)
  show "priority_of s i \<le> 16" if "sched_ok s" "i \<in> set (ready_list s)" for s :: "'a kernel" and i
    using ready_ok_priority(2) [OF sched_okE(2) [OF that(1)], of i] sched_okE(2) [OF that(1)] that(2)
      impl_priority_of [OF sched_okE(1) [OF that(1)], of i]
    by (auto simp: ready_ok_def PROCESS_MAX_PRIORITY_def word_le_nat_alt)
qed (rule schedule_takes sched_env_keeps; assumption)+

section \<open>The other operations\<close>

lemma spec_k_hung:
  "k_hung (snd (spec_schedule (q, u))) = k_hung u" "k_hung (snd (spec_wake i (q, u))) = k_hung u"
  "k_hung (snd (snd (spec_stop esp st resume (q, u)))) = k_hung u"
  by (auto simp: spec_schedule_def dispatch_fields Let_def split: option.splits if_splits)

lemma sched_ok_impl_step:
  assumes "impl k (q, u)" "impl k' s" "ready_ok s" "current_ok (snd s)" "k_hung (snd s) = k_hung u"
  shows "sched_ok k' \<and> k_hung k' = k_hung k"
  using assms by (cases s) (auto simp: sched_ok_impl impl_fields(2))

lemma schedule_ok: "sched_ok k \<Longrightarrow> sched_ok (scheduler_schedule k) \<and> k_hung (scheduler_schedule k) = k_hung k"
  using impl_schedule [OF sched_okE] sched_ok_impl_step [OF sched_okE(1)] spec_k_hung(1) by blast

lemma stop_ok_step:
  assumes "sched_ok k" "st = PROCESS_BLOCKED \<and> resume \<or> st = PROCESS_ZOMBIE"
  shows "sched_ok (snd (scheduler_stop_current_locked esp st resume k)) \<and>
    k_hung (snd (scheduler_stop_current_locked esp st resume k)) = k_hung k"
  using impl_stop [OF sched_okE [OF assms(1)] assms(2), of esp]
  by (intro sched_ok_impl_step [OF sched_okE(1) [OF assms(1)],
        where s = "snd (spec_stop esp st resume (ready_list k, unlinked k))"]) (simp_all only: spec_k_hung)

lemma sched_ok_set_proc:
  assumes "sched_ok k" "\<And>p. f (unlink p) = unlink (f p)" "\<And>p. p_next (f p) = p_next p"
    "\<And>p. p_state (f p) = p_state p"
    "\<And>p. p_priority p \<le> 16 \<Longrightarrow> p_dynamic_priority p \<le> 16 \<Longrightarrow> p_priority (f p) \<le> 16 \<and> p_dynamic_priority (f p) \<le> 16"
  shows "sched_ok (set_proc i f k)"
proof -
  obtain q u where ok: "impl k (q, u)" "ready_ok (q, u)" "current_ok u" using assms(1) sched_ok_impl by blast
  have "ready_ok (q, set_proc i f u)"
    using ready_ok_priority [OF ok(2)] assms(4,5) ok(2)
    by (intro ready_ok_set_proc) (auto simp: PROCESS_MAX_PRIORITY_def ready_ok_def)
  moreover have "current_ok (set_proc i f u)"
    using ok(3) impl_length [OF ok(1)] by (auto simp: current_ok_def nth_list_update_if assms(4) split: option.splits)
  ultimately show ?thesis using impl_set_proc [OF ok(1) assms(2,3)] sched_ok_impl by blast
qed

lemma preempt_ok:
  assumes "sched_ok k"
  shows "sched_ok (snd (scheduler_preempt esp k)) \<and> k_hung (snd (scheduler_preempt esp k)) = k_hung k"
proof -
  define k1 where "k1 = (case current k of None \<Rightarrow> k | Some c \<Rightarrow> set_proc c (\<lambda>p. p\<lparr>p_esp := esp\<rparr>) k)"
  have "sched_ok (set_proc c (\<lambda>p. p\<lparr>p_esp := esp\<rparr>) k)" for c
    by (rule sched_ok_set_proc [OF assms]) (simp_all add: unlink_def)
  then have k1: "sched_ok k1" "k_hung k1 = k_hung k" using assms by (auto simp: k1_def split: option.splits)
  have "queue_is k1 (ready_list k1)" using sched_okE(1) [OF k1(1)] by (simp add: impl_def)
  then have f: "snd (find_best_ready k1) = k1" by (simp add: find_best_ready_is)
  have "snd (scheduler_preempt esp k) \<in> {k, k1, scheduler_schedule k1}"
    unfolding scheduler_preempt_def k1_def [symmetric] scheduler_schedule_def using f
    by (auto simp: Let_def split: prod.splits option.splits)
  then show ?thesis using assms k1 schedule_ok [OF k1(1)] by auto
qed

lemma add_ok:
  assumes "sched_ok k" "i < MAX_PROCESSES" "i \<notin> set (ready_list k)" "p_state (proc k i) = PROCESS_READY"
  shows "sched_ok (scheduler_add (Some i) k) \<and> k_hung (scheduler_add (Some i) k) = k_hung k"
proof -
  note ok = sched_okE [OF assms(1)]
  have "current k \<noteq> Some i" using ok(1,3) assms(2,4) impl_length [OF ok(1)] by (auto simp: current_ok_def)
  then have "current_ok (snd (spec_enqueue i (ready_list k, unlinked k)))"
    using ok(3) by (auto simp: current_ok_def split: option.splits)
  moreover have "p_state (proc (unlinked k) i) = PROCESS_READY"
    using assms(2,4) impl_length [OF ok(1)] by simp
  ultimately show ?thesis
    using impl_enqueue [OF ok(1) assms(2,3)] ready_ok_enqueue [OF ok(2) assms(2,3)]
    unfolding scheduler_add_def option.case
    by (intro sched_ok_impl_step [OF ok(1), where s = "spec_enqueue i (ready_list k, unlinked k)"]) simp_all
qed

lemma set_priority_ok:
  assumes "sched_ok k"
  shows "sched_ok (scheduler_set_priority (Some i) n k)"
proof -
  have "sched_ok (set_proc i (\<lambda>p. p\<lparr>p_priority := m, p_dynamic_priority := m\<rparr>) k)" if "m \<le> 16" for m
    by (rule sched_ok_set_proc [OF assms]) (use that in \<open>simp_all add: unlink_def\<close>)
  then show ?thesis
    by (simp add: scheduler_set_priority_def Let_def PROCESS_MAX_PRIORITY_def PROCESS_DEFAULT_PRIORITY_def not_less)
qed

section \<open>An example\<close>

text \<open>Process 0 runs, 1 and 2 are ready, 3 is blocked.\<close>

definition sched_demo :: "ramdisk_data kernel" where
  "sched_demo = kernel_demo\<lparr>process_table :=
     [zero_process\<lparr>p_state := PROCESS_RUNNING, p_interrupt_frame := True, p_esp := 64\<rparr>,
      zero_process\<lparr>p_state := PROCESS_READY, p_next := Some 2, p_dynamic_priority := 3, p_interrupt_frame := True, p_esp := 128\<rparr>,
      zero_process\<lparr>p_state := PROCESS_READY, p_dynamic_priority := 1, p_interrupt_frame := True, p_esp := 192\<rparr>,
      zero_process\<lparr>p_state := PROCESS_BLOCKED\<rparr>] @ replicate 12 zero_process,
     ready_queue := Some 1, current := Some 0\<rparr>"

lemma sched_demo_queue: "queue sched_demo = Some [1, 2]"
  by (simp add: queue_def sched_demo_def MAX_PROCESSES_def eval_nat_numeral zero_process_def)

lemma sched_demo_ok: "sched_ok sched_demo"
proof -
  have l: "length (process_table sched_demo) = 16" by (simp add: sched_demo_def)
  have "\<forall>p\<in>set (process_table sched_demo). p_priority p \<le> 16 \<and> p_dynamic_priority p \<le> 16"
    by (simp add: sched_demo_def zero_process_def)
  then have "\<forall>i<16. p_priority (process_table (unlinked sched_demo) ! i) \<le> 16 \<and>
      p_dynamic_priority (process_table (unlinked sched_demo) ! i) \<le> 16"
    using l by simp
  moreover have "p_state (proc sched_demo 1) = PROCESS_READY" "p_state (proc sched_demo 2) = PROCESS_READY"
    by (simp_all add: sched_demo_def)
  moreover have "current_ok (unlinked sched_demo)"
    by (simp add: current_ok_def sched_demo_def MAX_PROCESSES_def)
  ultimately show ?thesis
    using l by (simp add: sched_ok_def sched_demo_queue ready_ok_def MAX_PROCESSES_def PROCESS_MAX_PRIORITY_def)
qed

section \<open>Properties of the scheduler\<close>

text \<open>C3: No ready process starves: however many blocked processes wake up and other processes leave the queue
  between the calls, a process in the ready queue is running after at most 32 calls of scheduler_schedule.\<close>

theorem no_starvation:
  assumes "sched_ok (f 0)" "i \<in> set (ready_list (f 0))"
    "\<And>n. \<exists>k. sched_env i (f n) k \<and> f (Suc n) = scheduler_schedule k"
  shows "\<exists>n\<le>32. current (f n) = Some i"
proof -
  obtain q u where q: "impl (f 0) (q, u)" "ready_list (f 0) = q"
    using sched_okE [OF assms(1)] by blast
  have "length q \<le> 16" using queue_is_length [of "f 0" q] q by (simp add: impl_def MAX_PROCESSES_def)
  moreover have "length (takeWhile (\<lambda>j. j \<noteq> i) q) < length q"
    using assms(2) q(2) takeWhile_shorter by simp
  ultimately have "sched_queue.distance i (f 0) \<le> 31"
    using q(2) by (simp add: sched_queue.distance_def)
  moreover obtain n where "n \<le> sched_queue.distance i (f 0)" "current (f (Suc (0 + n))) = Some i"
    using sched_queue.served [OF assms(3,1,2)] by blast
  ultimately show ?thesis by (intro exI [of _ "Suc n"]) simp
qed

theorem no_starvation_witness: "\<exists>n\<le>32. current ((scheduler_schedule ^^ n) sched_demo) = Some 2"
proof -
  have r: "ready_list sched_demo = [1, 2]" by (simp add: ready_list_def sched_demo_queue)
  show ?thesis
    by (rule no_starvation [where f = "\<lambda>n. (scheduler_schedule ^^ n) sched_demo"])
      (auto simp: r sched_demo_ok intro: env_refl)
qed

text \<open>C23: The scheduler implements its list specification: on a well-formed kernel scheduler_schedule, scheduler_wake,
  scheduler_remove, scheduler_block_current and scheduler_exit_current have, on the ready list and on every field of
  the kernel other than the links, exactly the effect of the list operations.\<close>

theorem scheduler_refines_spec:
  assumes "sched_ok k"
  shows "sched_abs (scheduler_schedule k) = spec_schedule (sched_abs k) \<and>
    (i < MAX_PROCESSES \<longrightarrow> sched_abs (scheduler_wake (Some i) k) = spec_wake i (sched_abs k)) \<and>
    sched_abs (scheduler_remove (Some i) k) = spec_remove i (sched_abs k) \<and>
    map_prod id sched_abs (scheduler_block_current esp k) = spec_stop esp PROCESS_BLOCKED True (sched_abs k) \<and>
    map_prod id sched_abs (scheduler_exit_current esp k) = spec_stop esp PROCESS_ZOMBIE False (sched_abs k)"
proof (intro conjI impI)
  note ok = sched_okE [OF assms]
  have a: "sched_abs k = (ready_list k, unlinked k)" by (rule impl_abs [OF ok(1)])
  show "sched_abs (scheduler_schedule k) = spec_schedule (sched_abs k)"
    unfolding a using impl_schedule [OF ok] by (intro impl_abs) simp
  show "sched_abs (scheduler_wake (Some i) k) = spec_wake i (sched_abs k)" if "i < MAX_PROCESSES"
    unfolding a using impl_wake [OF ok that] by (intro impl_abs) simp
  show "sched_abs (scheduler_remove (Some i) k) = spec_remove i (sched_abs k)"
    unfolding a using impl_remove [OF ok(1,2)] by (intro impl_abs) simp
  show "map_prod id sched_abs (scheduler_block_current esp k) = spec_stop esp PROCESS_BLOCKED True (sched_abs k)"
    unfolding a scheduler_block_current_def using impl_stop [OF ok, of PROCESS_BLOCKED True esp] impl_abs
    by (metis map_prod_simp prod.collapse id_apply)
  show "map_prod id sched_abs (scheduler_exit_current esp k) = spec_stop esp PROCESS_ZOMBIE False (sched_abs k)"
    unfolding a scheduler_exit_current_def using impl_stop [OF ok, of PROCESS_ZOMBIE False esp] impl_abs
    by (metis map_prod_simp prod.collapse id_apply)
qed

theorem scheduler_refines_spec_witness:
  "sched_abs (scheduler_schedule sched_demo) = spec_schedule (sched_abs sched_demo) \<and>
   sched_abs (scheduler_wake (Some 3) sched_demo) = spec_wake 3 (sched_abs sched_demo)"
  using scheduler_refines_spec [OF sched_demo_ok, of 3] by (simp only: MAX_PROCESSES_def)

lemma sched_ok_same_table:
  assumes "sched_ok k" "process_table k' = process_table k" "ready_queue k' = ready_queue k \<or> ready_queue k' = None"
    "current k' = current k \<or> current k' = None"
  shows "sched_ok k'"
proof -
  obtain q where q: "queue k = Some q" "ready_ok (q, unlinked k)" "current_ok (unlinked k)"
    using assms(1) by (auto simp: sched_ok_def split: option.splits)
  have t: "process_table (unlinked k') = process_table (unlinked k)" using assms(2) by (simp only: unlinked_fields)
  from ready_ok_table [OF this] have r: "ready_ok (p, unlinked k') = ready_ok (p, unlinked k)" for p by blast
  have c: "current_ok (unlinked k')" 
    using q(3) assms(4) by (auto simp only: current_ok_def unlinked_fields(2) t option.case)
  have e: "ready_ok ([], unlinked k)" using q(2) by (simp del: unlinked_fields add: ready_ok_def)
  show ?thesis
  proof (cases "ready_queue k' = None")
    case True
    then show ?thesis using r e c by (auto simp only: sched_ok_def queue_def walk.simps option.case)
  next
    case False
    then have "ready_queue k' = ready_queue k" using assms(3) False by (elim disjE) simp_all
    then have "queue k' = queue k" using assms(2) by (simp add: queue_def)
    then show ?thesis using r q(1,2) c by (auto simp only: sched_ok_def option.case)
  qed
qed

lemma init_ok: "sched_ok k \<Longrightarrow> sched_ok (scheduler_init k) \<and> k_hung (scheduler_init k) = k_hung k"
  using sched_ok_same_table [of k "scheduler_init k"] by (simp add: scheduler_init_def)

lemma set_current_ok:
  assumes "sched_ok k" "pr = None \<or> (\<exists>i<MAX_PROCESSES. i \<notin> set (ready_list k) \<and> pr = Some i)"
  shows "sched_ok (scheduler_set_current pr k) \<and> k_hung (scheduler_set_current pr k) = k_hung k"
proof (cases pr)
  case None
  then show ?thesis
    using sched_ok_same_table [OF assms(1), of "k\<lparr>current := None\<rparr>"] by (simp add: scheduler_set_current_def)
next
  case (Some i)
  then have i: "i < MAX_PROCESSES" "i \<notin> set (ready_list k)" using assms(2) by auto
  note ok = sched_okE [OF assms(1)]
  let ?f = "\<lambda>p. p\<lparr>p_state := PROCESS_RUNNING\<rparr>"
  let ?u = "set_proc i ?f ((unlinked k)\<lparr>current := Some i\<rparr>)"
  have c: "impl (k\<lparr>current := Some i\<rparr>) (ready_list k, (unlinked k)\<lparr>current := Some i\<rparr>)" by (rule impl_current [OF ok(1)])
  have "impl (set_proc i ?f (k\<lparr>current := Some i\<rparr>)) (ready_list k, ?u)"
    by (rule impl_set_proc [OF c]) (simp_all add: unlink_def)
  then have run: "impl (scheduler_set_current pr k) (ready_list k, switch_address_space (Some i) ?u)"
    using impl_switch [OF _ i(1)] by (simp add: Some scheduler_set_current_def)
  have len: "length (process_table (unlinked k)) = MAX_PROCESSES" by (rule impl_length [OF ok(1)])
  have "ready_ok (ready_list k, (unlinked k)\<lparr>current := Some i\<rparr>)" 
    using ok(2) ready_ok_table [of "(unlinked k)\<lparr>current := Some i\<rparr>" "unlinked k" "ready_list k"] by simp
  then have "ready_ok (ready_list k, ?u)" using ready_ok_priority [OF ok(2)] i(2) by (intro ready_ok_set_proc) simp_all
  moreover have "current_ok (switch_address_space (Some i) ?u)" using i(1) len by (simp add: current_ok_def)
  ultimately show ?thesis
    using ready_ok_table [of "switch_address_space (Some i) ?u" ?u "ready_list k"] by (intro sched_ok_impl_step [OF ok(1) run]) simp_all
qed

lemma preemption_ok: "sched_ok k \<Longrightarrow> sched_ok (scheduler_set_preemption_enabled b k) \<and> k_hung (scheduler_set_preemption_enabled b k) = k_hung k"
  using sched_ok_same_table [of k "scheduler_set_preemption_enabled b k"]
  by (simp add: scheduler_set_preemption_enabled_def)

lemma yield_ok: "sched_ok k \<Longrightarrow> sched_ok (snd (yield k)) \<and> k_hung (snd (yield k)) = k_hung k"
  using schedule_ok [of k] by (auto simp: yield_def Let_def split: option.splits)

text \<open>C24: The scheduler's invariant is kept by every function of scheduler.h that changes the state, and none of its loops over the ready
  queue runs forever: the flag that records a loop without end stays as it was. Two functions rely on their caller, for they do not look at the queue: scheduler_add must be given a
  process that is ready and not queued, and scheduler_set_current one that is not queued. A second scheduler_add of the same process would make the list cyclic.\<close>

theorem scheduler_loops_end:
  assumes "sched_ok k"
    "op \<in> {scheduler_init, scheduler_schedule, snd \<circ> yield, snd \<circ> scheduler_preempt esp, snd \<circ> scheduler_block_current esp,
        snd \<circ> scheduler_exit_current esp, scheduler_remove (Some i), scheduler_set_priority (Some i) n,
        scheduler_set_preemption_enabled b, scheduler_set_current None} \<or>
     i < MAX_PROCESSES \<and> op = scheduler_wake (Some i) \<or>
     i < MAX_PROCESSES \<and> i \<notin> set (ready_list k) \<and> op = scheduler_set_current (Some i) \<or>
     i < MAX_PROCESSES \<and> i \<notin> set (ready_list k) \<and> p_state (proc k i) = PROCESS_READY \<and> op = scheduler_add (Some i)"
  shows "sched_ok (op k) \<and> k_hung (op k) = k_hung k"
proof -
  note ok = sched_okE [OF assms(1)]
  have w: "sched_ok (scheduler_wake (Some i) k) \<and> k_hung (scheduler_wake (Some i) k) = k_hung k" if "i < MAX_PROCESSES"
    using impl_wake [OF ok that]
    by (intro sched_ok_impl_step [OF ok(1), where s = "spec_wake i (ready_list k, unlinked k)"])
      (simp_all only: spec_k_hung)
  have "sched_ok (scheduler_remove (Some i) k) \<and> k_hung (scheduler_remove (Some i) k) = k_hung k"
    using impl_remove [OF ok(1,2), of i] ok(3)
    by (intro sched_ok_impl_step [OF ok(1), where s = "spec_remove i (ready_list k, unlinked k)"]) simp_all
  moreover have "k_hung (scheduler_set_priority (Some i) n k) = k_hung k"
    by (simp add: scheduler_set_priority_def Let_def)
  ultimately show ?thesis
    using assms w schedule_ok [OF assms(1)] preempt_ok [OF assms(1)] stop_ok_step [OF assms(1)]
      add_ok [OF assms(1)] set_priority_ok [OF assms(1)] init_ok [OF assms(1)] yield_ok [OF assms(1)]
      preemption_ok [OF assms(1)] set_current_ok [OF assms(1)]
    by (auto simp: scheduler_block_current_def scheduler_exit_current_def)
qed

theorem scheduler_loops_end_witness:
  "sched_ok ((snd \<circ> scheduler_preempt 4096) sched_demo) \<and>
   k_hung ((snd \<circ> scheduler_preempt 4096) sched_demo) = k_hung sched_demo"
  by (rule scheduler_loops_end [OF sched_demo_ok, where esp = 4096 and i = 0 and n = 0 and b = True]) blast

end
