(* ===== verification/Syscall_Spec.thy ===== *)
theory Syscall_Spec
  imports Syscall_Handle Uaccess_Spec
begin

text \<open>
  The entry of the system calls: which callers are refused, and what \<^verbatim>\<open>SYS_PUTS\<close> prints. The string of \<^verbatim>\<open>SYS_PUTS\<close>
  is read byte by byte from user memory; the lemmas relate the scan to the bytes the process can read.
\<close>

section \<open>The scan of a user string\<close>

lemma pointer_valid_exact:
  assumes "active_ok (k_mmu k)" "active_process_directory k = Some i"
  shows "is_user_pointer_valid a 1 k \<longleftrightarrow> uaccess_range_valid a 1 \<and> umem (k_mmu k) a \<noteq> None"
  using readable_exact [OF assms, of 1 a] by (simp add: is_user_pointer_valid_def)

lemma umem_load_byte: "umem m a \<noteq> None \<Longrightarrow> umem m a = Some (load_byte a m)"
  by (auto simp: umem_def split: option.splits if_splits)

text \<open>\<open>s\<close> is the string at \<open>str\<close>: its characters and the NUL after them are readable bytes of user space.\<close>

definition user_string_at :: "u32 \<Rightarrow> u8 list \<Rightarrow> 'd kernel \<Rightarrow> bool" where
  "user_string_at str s k \<longleftrightarrow> 0 \<notin> set s \<and>
     (\<forall>i \<le> length s. uaccess_range_valid (str + of_nat i) 1 \<and> umem (k_mmu k) (str + of_nat i) = Some ((s @ [0]) ! i))"

lemma all_le_Suc: "(\<forall>i \<le> Suc n. P i) \<longleftrightarrow> P 0 \<and> (\<forall>i \<le> n. P (Suc i))"
  by (metis Suc_le_mono le0 not0_implies_Suc)

lemma user_string_at_Nil:
  "user_string_at str [] k \<longleftrightarrow> uaccess_range_valid str 1 \<and> umem (k_mmu k) str = Some 0"
  by (simp add: user_string_at_def)

lemma user_string_at_Cons:
  "user_string_at str (c # s) k \<longleftrightarrow> c \<noteq> 0 \<and> uaccess_range_valid str 1 \<and> umem (k_mmu k) str = Some c \<and> user_string_at (str + 1) s k"
  by (simp add: user_string_at_def all_le_Suc add.assoc) blast

lemma puts_scan_exact:
  assumes "active_ok (k_mmu k)" "active_process_directory k = Some i"
  shows "puts_scan n str k = Some s \<longleftrightarrow> user_string_at str s k \<and> length s < n"
proof (induction n arbitrary: str s)
  case 0
  then show ?case by simp
next
  case (Suc n)
  note v = pointer_valid_exact [OF assms, of str]
  show ?case
  proof (cases "is_user_pointer_valid str 1 k")
    case False
    then show ?thesis using v by (cases s) (auto simp: user_string_at_Nil user_string_at_Cons)
  next
    case True
    then have "umem (k_mmu k) str = Some (load_byte str (k_mmu k))" "uaccess_range_valid str 1"
      using v umem_load_byte by blast+
    then show ?thesis using True Suc.IH
      by (cases s) (auto simp: user_string_at_Nil user_string_at_Cons Let_def)
  qed
qed

section \<open>Properties\<close>

text \<open>C37: A system call with an unknown number fails with ENOSYS, and one from kernel mode (ring 0) is refused, whatever
  its number and arguments; in both cases no part of the kernel state changes and no other process is resumed.
\<close>

theorem syscall_refused_without_effect:
  "(num = 0 \<or> SYS_MAX < num \<longrightarrow> syscall_handle num arg1 arg2 arg3 caller_cs frame_ptr control k = (SYSCALL_ENOSYS, None, k)) \<and>
   (\<not> is_ring3 caller_cs \<longrightarrow>
      syscall_handle num arg1 arg2 arg3 caller_cs frame_ptr control k \<in> {(SYSCALL_ENOSYS, None, k), (SYSCALL_EPERM, None, k)})"
  by (simp add: syscall_handle_def syscall_open_def syscall_read_def syscall_write_def syscall_close_def
      syscall_stat_def syscall_exec_def)

theorem syscall_refused_without_effect_witness:
  "syscall_handle 0 1 2 3 0x1B 0 None kernel_demo = (SYSCALL_ENOSYS, None, kernel_demo) \<and>
   syscall_handle SYS_FORK 1 2 3 0x08 0 (Some 0x90000) kernel_demo \<in>
     {(SYSCALL_ENOSYS, None, kernel_demo), (SYSCALL_EPERM, None, kernel_demo)}"
  using syscall_refused_without_effect [of 0 1 2 3 "0x1B" 0 None kernel_demo]
    syscall_refused_without_effect [of SYS_FORK 1 2 3 "0x08" 0 "Some 0x90000" kernel_demo]
  by (simp add: is_ring3_def)

text \<open>C36: SYS_PUTS prints exactly the NUL-terminated string at its argument when the whole string, with its NUL, is
  readable user memory and shorter than 4096 characters; otherwise it fails with EFAULT. Nothing but the screen
  changes, and nothing at all on failure.
\<close>

theorem sys_puts_exact:
  assumes "active_ok (k_mmu k)" "active_process_directory k = Some i"
  shows "(\<forall>s. user_string_at str s k \<and> length s < 4096 \<longrightarrow> sys_puts str k = (SYSCALL_SUCCESS, k\<lparr>k_vga := vga_puts s (k_vga k)\<rparr>)) \<and>
    ((\<nexists>s. user_string_at str s k \<and> length s < 4096) \<longrightarrow> sys_puts str k = (SYSCALL_EFAULT, k))"
proof -
  note scan = puts_scan_exact [OF assms, of 4096 str]
  have "is_user_pointer_valid str 1 k" if "user_string_at str s k" for s
    using that pointer_valid_exact [OF assms, of str] by (cases s) (auto simp: user_string_at_Nil user_string_at_Cons)
  moreover have "puts_scan 4096 str k = None" if "\<nexists>s. user_string_at str s k \<and> length s < 4096"
    using that scan by (cases "puts_scan 4096 str k") auto
  moreover have "puts_scan 4096 str k = Some s" if "user_string_at str s k" "length s < 4096" for s
    using that scan by blast
  ultimately show ?thesis by (auto simp: sys_puts_def)
qed

lemma uaccess_demo_zero: "umem (k_mmu uaccess_demo) 0x40000010 = Some 0"
proof -
  have "umem (k_mmu uaccess_demo) 0x40000010 = Some (load_byte 0x40000010 (k_mmu uaccess_demo))"
    using uaccess_demo_mapped(1) umem_load_byte by blast
  then show ?thesis
    by (simp add: uaccess_demo_def space_demo_def load_byte_def frame_at_def walk_entry_def dir_index_def table_index_def
        page_base_def page_flags page_offset_def byte_of_def)
qed

theorem sys_puts_exact_witness:
  "sys_puts 0x40000010 uaccess_demo = (SYSCALL_SUCCESS, uaccess_demo\<lparr>k_vga := vga_puts [] (k_vga uaccess_demo)\<rparr>) \<and>
   sys_puts 0x40001010 uaccess_demo = (SYSCALL_EFAULT, uaccess_demo)"
proof -
  have "user_string_at 0x40000010 [] uaccess_demo"
    using uaccess_demo_zero
    by (simp add: user_string_at_Nil uaccess_range_valid_def USER_SPACE_START_def USER_SPACE_END_def)
  moreover have "\<not> user_string_at 0x40001010 s uaccess_demo" for s
    using uaccess_demo_mapped(2) by (cases s) (simp_all add: user_string_at_Nil user_string_at_Cons)
  ultimately show ?thesis
    using sys_puts_exact [OF uaccess_demo_ok, of "0x40000010"] sys_puts_exact [OF uaccess_demo_ok, of "0x40001010"]
    by (auto simp del: vga_puts.simps)
qed

end
