(* ===== verification/Fd_Balance.thy ===== *)
theory Fd_Balance
  imports Process Elf
begin

text \<open>
  Descriptors and reference counts. Every process has a table of descriptors, each naming an open file
  or one end of a pipe; the file and pipe tables count their references. This theory relates the two: a
  state is \<open>balanced\<close> when each count is the number of descriptors that name the handle, over all
  processes, plus what the running operation holds. The relation \<open>quiet\<close> collects what every operation
  that leaves descriptors alone keeps: the scheduler, paging, signals, waiting.
\<close>

section \<open>Slots of the process table\<close>

definition slot_ok :: "nat option \<Rightarrow> bool" where
  "slot_ok x \<longleftrightarrow> (case x of None \<Rightarrow> True | Some i \<Rightarrow> i < 16)"

definition alive :: "nat \<Rightarrow> 'd kernel \<Rightarrow> bool" where
  "alive i k \<longleftrightarrow> i < 16 \<and> p_state (proc k i) \<noteq> PROCESS_DEAD"

definition slots_ok :: "'d kernel \<Rightarrow> bool" where
  "slots_ok k \<longleftrightarrow> length (process_table k) = 16 \<and> slot_ok (ready_queue k) \<and>
     slot_ok (current k) \<and>
     (\<forall>i < 16. slot_ok (p_next (proc k i)))"

lemma slot_ok_simps [simp]: "slot_ok None" "slot_ok (Some i) \<longleftrightarrow> i < 16"
  by (simp_all add: slot_ok_def)

definition tables_ok :: "'d kernel \<Rightarrow> bool" where
  "tables_ok k \<longleftrightarrow> slots_ok k \<and> vfs_table_ok (k_vfs k) \<and> pipes_ok (k_pipes k)"

text \<open>\<open>quiet a k\<close>: the tables of \<open>k\<close> are in order and its descriptors and counts are those of \<open>a\<close>.\<close>

definition quiet :: "'d kernel \<Rightarrow> 'd kernel \<Rightarrow> bool" where
  "quiet a k \<longleftrightarrow> tables_ok k \<and> map p_fds (process_table k) = map p_fds (process_table a) \<and>
     (\<forall>i. alive i a \<longrightarrow> alive i k) \<and> vfs_refs (k_vfs k) = vfs_refs (k_vfs a) \<and>
     pipe_refs (k_pipes k, ()) = pipe_refs (k_pipes a, ())"

named_theorems quiet_intros \<open>operations that leave descriptors alone\<close>

lemma quiet_refl [quiet_intros]: "tables_ok k \<Longrightarrow> quiet k k"
  by (simp add: quiet_def)

lemma quiet_trans: "quiet a b \<Longrightarrow> quiet b c \<Longrightarrow> quiet a c"
  by (auto simp: quiet_def)

lemma quiet_slots: "quiet a k \<Longrightarrow> slots_ok k"
  by (simp add: quiet_def tables_ok_def)

lemma quiet_length: "quiet a k \<Longrightarrow> length (process_table k) = 16"
  by (simp add: quiet_def tables_ok_def slots_ok_def)

lemma quiet_alive: "quiet a k \<Longrightarrow> alive i a \<Longrightarrow> alive i k"
  by (simp add: quiet_def)

lemma quiet_current: "quiet a k \<Longrightarrow> current k = Some i \<Longrightarrow> i < 16"
  by (auto simp: quiet_def tables_ok_def slots_ok_def)

text \<open>A change of fields that the relation does not look at.\<close>

lemma quiet_fields:
  assumes "quiet a k" and "process_table k' = process_table k" and "ready_queue k' = ready_queue k"
    and "current k' = current k" and "k_vfs k' = k_vfs k" and "k_pipes k' = k_pipes k"
  shows "quiet a k'"
  using assms by (simp add: quiet_def tables_ok_def slots_ok_def alive_def)

lemma quiet_updates [quiet_intros]:
  assumes "quiet a k"
  shows "quiet a (set_mmu f k)" "quiet a (set_field fr fi w k)" "quiet a (k\<lparr>k_mmu := m\<rparr>)" "quiet a (k\<lparr>kstack := st\<rparr>)"
    "quiet a (k\<lparr>k_hung := b\<rparr>)" "quiet a (k\<lparr>k_tss := t\<rparr>)" "quiet a (k\<lparr>schedule_count := n\<rparr>)"
    "quiet a (k\<lparr>timer_ticks := n\<rparr>)" "quiet a (k\<lparr>next_pid := n\<rparr>)" "quiet a (k\<lparr>process_count := n\<rparr>)"
    "quiet a (k\<lparr>k_serial := s\<rparr>)" "quiet a (k\<lparr>k_vga := v\<rparr>)" "quiet a (k\<lparr>k_heap := h\<rparr>)"
    "quiet a (k\<lparr>k_keyboard := kb\<rparr>)" "quiet a (k\<lparr>stack_free_bitmap := bm\<rparr>)"
  using assms by (auto intro: quiet_fields simp: set_field_def)

text \<open>A change of one process that leaves its descriptors alone and does not remove it.\<close>

definition mild :: "(process \<Rightarrow> process) \<Rightarrow> bool" where
  "mild f \<longleftrightarrow> (\<forall>p. p_fds (f p) = p_fds p \<and> (p_state (f p) = PROCESS_DEAD \<longrightarrow> p_state p = PROCESS_DEAD) \<and>
     (slot_ok (p_next p) \<longrightarrow> slot_ok (p_next (f p))))"

lemma quiet_set_proc_at:
  assumes "quiet a k" and "p_fds (f (proc k i)) = p_fds (proc k i)"
    and "p_state (f (proc k i)) = PROCESS_DEAD \<Longrightarrow> p_state (proc k i) = PROCESS_DEAD"
    and "i < 16 \<Longrightarrow> slot_ok (p_next (f (proc k i)))"
  shows "quiet a (set_proc i f k)"
proof -
  have len: "length (process_table k) = 16" using assms(1) by (rule quiet_length)
  have "map p_fds (process_table (set_proc i f k)) = map p_fds (process_table k)"
    using assms(2) by (simp add: map_update) (metis list_update_id map_update)
  moreover have al: "alive j (set_proc i f k)" if "alive j k" for j
    using that assms(3) len by (cases "j = i") (auto simp: alive_def)
  moreover have "slot_ok (p_next (proc (set_proc i f k) j))" if "j < 16" for j
    using that assms(1,4) len by (cases "j = i") (auto simp: quiet_def tables_ok_def slots_ok_def)
  then have "slots_ok (set_proc i f k)" using assms(1) al by (simp add: quiet_def tables_ok_def slots_ok_def)
  ultimately show ?thesis using assms(1) by (simp add: quiet_def tables_ok_def)
qed

lemma quiet_set_proc [quiet_intros]:
  assumes "quiet a k" and "mild f"
  shows "quiet a (set_proc i f k)"
  using assms by (intro quiet_set_proc_at) (auto simp: mild_def quiet_def tables_ok_def slots_ok_def)

lemma for_loop_quiet:
  assumes "quiet a k" and "\<And>i t. i < n \<Longrightarrow> quiet a t \<Longrightarrow> quiet a (body i t)"
  shows "quiet a (for_loop 0 n body k)"
  by (rule for_loop_invariant) (auto intro: assms)

section \<open>The scheduler\<close>

lemma walk_slots:
  assumes "\<forall>i < 16. slot_ok (p_next (t ! i))" and "slot_ok h" and "walk n t h = Some ps"
  shows "\<forall>p \<in> set ps. p < 16"
  using assms(2,3)
proof (induction n arbitrary: h ps)
  case 0
  then show ?case by (cases h) auto
next
  case (Suc n)
  show ?case
  proof (cases h)
    case (Some p)
    then show ?thesis using Suc.IH [of "p_next (t ! p)"] Suc.prems assms(1) by auto
  qed (use Suc.prems in simp)
qed

lemma quiet_queue: "quiet a k \<Longrightarrow> queue k = Some ps \<Longrightarrow> \<forall>p \<in> set ps. p < 16"
  unfolding queue_def by (rule walk_slots) (auto simp: quiet_def tables_ok_def slots_ok_def)

lemma quiet_ready_queue: "quiet a k \<Longrightarrow> slot_ok x \<Longrightarrow> quiet a (k\<lparr>ready_queue := x\<rparr>)"
  by (simp add: quiet_def tables_ok_def slots_ok_def alive_def)

lemma quiet_next: "quiet a k \<Longrightarrow> i < 16 \<Longrightarrow> slot_ok (p_next (proc k i))"
  by (simp add: quiet_def tables_ok_def slots_ok_def)

lemma quiet_set_next: "quiet a k \<Longrightarrow> slot_ok x \<Longrightarrow> quiet a (set_proc i (\<lambda>p. p\<lparr>p_next := x\<rparr>) k)"
  by (rule quiet_set_proc_at) auto

lemma quiet_clear_next: "quiet a k \<Longrightarrow> quiet a (set_proc i (\<lambda>p. p\<lparr>p_next := None\<rparr>) k)"
  by (simp add: quiet_set_next)

lemma quiet_enqueue:
  assumes "quiet a k" and "i < 16"
  shows "quiet a (enqueue i k)"
proof -
  let ?k = "set_proc i (\<lambda>p. p\<lparr>p_next := None\<rparr>) k"
  let ?k2 = "if p_dynamic_priority (proc ?k i) = 0
    then set_proc i (\<lambda>p. p\<lparr>p_dynamic_priority := base_priority p\<rparr>) ?k else ?k"
  have "quiet a ?k" using assms(1) by (rule quiet_clear_next)
  then have q: "quiet a ?k2" by (simp add: quiet_set_proc mild_def del: set_proc_fields)
  have "quiet a (snd (with_queue (\<lambda>ps k. ((), set_proc (last ps) (\<lambda>p. p\<lparr>p_next := Some i\<rparr>) k)) () ?k2))"
    unfolding with_queue_def using quiet_set_next [OF q, of "Some i"] quiet_updates(5) [OF q] assms(2)
    by (auto split: option.split)
  then show ?thesis
    unfolding enqueue_def Let_def using quiet_ready_queue [OF q, of "Some i"] assms(2) by auto
qed

lemma best_of_in: "best_of t b ps \<in> set (b # ps)"
  by (induction t b ps rule: best_of.induct) auto

lemma quiet_find_best:
  assumes "quiet a k" and "find_best_ready k = (best, k')"
  shows "quiet a k' \<and> slot_ok best"
proof (cases "queue k")
  case None
  then show ?thesis using assms quiet_updates(5) by (auto simp: find_best_ready_def with_queue_def)
next
  case (Some ps)
  have "slot_ok (ready_queue k)" using assms(1) by (simp add: quiet_def tables_ok_def slots_ok_def)
  then show ?thesis
    using assms Some quiet_queue [OF assms(1) Some] best_of_in [of "process_table k" "the (ready_queue k)" ps]
    by (cases "ready_queue k") (auto simp: find_best_ready_def with_queue_def)
qed

lemma quiet_dequeue:
  assumes "quiet a k" and "dequeue_best k = (nx, k')"
  shows "quiet a k' \<and> slot_ok nx"
proof -
  obtain best k1 where f: "find_best_ready k = (best, k1)" by force
  have q: "quiet a k1" "slot_ok best" using quiet_find_best [OF assms(1) f] by auto
  show ?thesis
  proof (cases best)
    case (Some b)
    let ?cut = "\<lambda>ps k. ((), case find (\<lambda>p. p_next (proc k p) = Some b) ps of None \<Rightarrow> k
      | Some prev \<Rightarrow> set_proc prev (\<lambda>p. p\<lparr>p_next := p_next (proc k b)\<rparr>) k)"
    have nb: "slot_ok (p_next (proc k1 b))" using quiet_next [OF q(1)] q(2) Some by simp
    have "quiet a (snd (with_queue ?cut () k1))"
      unfolding with_queue_def using quiet_set_next [OF q(1) nb] quiet_updates(5) [OF q(1)] q(1)
      by (auto split: option.split)
    then have "quiet a (if ready_queue k1 = Some b then k1\<lparr>ready_queue := p_next (proc k1 b)\<rparr>
        else snd (with_queue ?cut () k1))"
      using quiet_ready_queue [OF q(1) nb] by simp
    then show ?thesis
      using assms(2) f Some q(2) by (auto simp: dequeue_best_def Let_def intro!: quiet_set_next)
  qed (use assms(2) f q in \<open>auto simp: dequeue_best_def\<close>)
qed

lemma quiet_age_queue: "quiet a k \<Longrightarrow> quiet a (age_ready_queue k)"
proof -
  assume q: "quiet a k"
  have "quiet a t \<Longrightarrow> quiet a (fold (\<lambda>i. set_proc i age) ps t)" for ps and t :: "'a kernel"
    by (induction ps arbitrary: t) (simp_all add: quiet_set_proc mild_def age_def)
  then show ?thesis using q quiet_updates(5) by (auto simp: age_ready_queue_def with_queue_def split: option.split)
qed

lemma quiet_switch: "quiet a k \<Longrightarrow> quiet a (switch_address_space pr k)"
  by (cases pr) (simp_all add: switch_address_space_def Let_def quiet_updates)

lemma quiet_set_current: "quiet a k \<Longrightarrow> i < 16 \<Longrightarrow> quiet a (k\<lparr>current := Some i\<rparr>)"
  by (simp add: quiet_def tables_ok_def slots_ok_def alive_def)

lemma quiet_run_next:
  assumes "quiet a k" and "i < 16"
  shows "quiet a (run_next i k)"
proof -
  let ?k = "set_proc i (\<lambda>p. p\<lparr>p_dynamic_priority := base_priority p, p_state := PROCESS_RUNNING,
    p_run_count := p_run_count p + 1\<rparr>) (age_ready_queue k)"
  have q: "quiet a ?k" using quiet_age_queue [OF assms(1)] by (simp add: quiet_set_proc mild_def)
  have "quiet a (?k\<lparr>current := Some i\<rparr>)" using q assms(2) by (rule quiet_set_current)
  then show ?thesis unfolding run_next_def Let_def by (intro quiet_updates(7) quiet_switch)
qed

lemma quiet_schedule [quiet_intros]:
  assumes "quiet a k"
  shows "quiet a (scheduler_schedule_locked k)"
proof -
  obtain nx k1 where d: "dequeue_best k = (nx, k1)" by force
  have q: "quiet a k1" "slot_ok nx" using quiet_dequeue [OF assms d] by auto
  have r: "quiet a (enqueue c (set_proc c (\<lambda>p. p\<lparr>p_state := PROCESS_READY\<rparr>) k1))" if "current k1 = Some c" for c
    using quiet_current [OF q(1) that] q(1) by (intro quiet_enqueue quiet_set_proc) (auto simp: mild_def)
  then show ?thesis
    using d q r by (auto simp: scheduler_schedule_locked_def Let_def intro!: quiet_run_next split: option.split)
qed

lemma quiet_preempt [quiet_intros]:
  assumes "quiet a k"
  shows "quiet a (snd (scheduler_preempt esp k))"
proof -
  define k1 where "k1 = (case current k of None \<Rightarrow> k | Some c \<Rightarrow> set_proc c (\<lambda>p. p\<lparr>p_esp := esp\<rparr>) k)"
  have q: "quiet a k1" unfolding k1_def using assms by (auto simp: quiet_set_proc mild_def split: option.split)
  obtain best k2 where f: "find_best_ready k1 = (best, k2)" by force
  have "quiet a k2" using quiet_find_best [OF q f] by simp
  then show ?thesis
    using assms f quiet_schedule [of a k2]
    by (auto simp: scheduler_preempt_def k1_def [symmetric] Let_def split: option.split)
qed

lemma quiet_stop [quiet_intros]:
  assumes "quiet a k" and "st \<noteq> PROCESS_DEAD"
  shows "quiet a (snd (scheduler_stop_current_locked esp st res k))"
proof (cases "current k = None \<or> esp = 0")
  case True
  then show ?thesis using assms(1) by (auto simp: scheduler_stop_current_locked_def split: option.split)
next
  case False
  then obtain c where c: "current k = Some c" "esp \<noteq> 0" by auto
  let ?k = "set_proc c (\<lambda>p. p\<lparr>p_esp := esp, p_interrupt_frame := True, p_state := st\<rparr>) k"
  have "quiet a ?k" using assms by (auto simp: quiet_set_proc mild_def)
  moreover obtain nx k1 where d: "dequeue_best ?k = (nx, k1)" by force
  ultimately have q: "quiet a k1" "slot_ok nx" using quiet_dequeue by blast+
  have e: "quiet a (case nx of None \<Rightarrow> k1 | Some i \<Rightarrow> enqueue i k1)"
    using q by (auto simp: quiet_enqueue split: option.split)
  have "quiet a (set_proc c (\<lambda>p. p\<lparr>p_state := PROCESS_RUNNING\<rparr>) (case nx of None \<Rightarrow> k1 | Some i \<Rightarrow> enqueue i k1))"
    using e by (auto simp: quiet_set_proc mild_def)
  then show ?thesis
    using c d q e by (auto simp: scheduler_stop_current_locked_def Let_def split: option.split intro: quiet_run_next)
qed

lemma quiet_remove_from:
  assumes "quiet a k" and "slot_ok item"
  shows "quiet a (remove_from n prev item i k)"
  using assms(2)
proof (induction n arbitrary: prev item)
  case 0
  then show ?case using assms(1) by (cases item) (simp_all add: quiet_updates)
next
  case (Suc n)
  show ?case
  proof (cases item)
    case (Some j)
    then have nx: "slot_ok (p_next (proc k j))" using quiet_next [OF assms(1)] Suc.prems by simp
    show ?thesis
      using Some Suc.IH [OF nx] quiet_ready_queue [OF assms(1) nx] quiet_set_next [OF assms(1) nx]
      by (auto simp: Let_def intro!: quiet_clear_next split: option.split)
  qed (use assms(1) in simp)
qed

lemma quiet_remove [quiet_intros]: "quiet a k \<Longrightarrow> quiet a (scheduler_remove pr k)"
  using quiet_remove_from [of a k "ready_queue k"]
  by (auto simp: scheduler_remove_def quiet_def tables_ok_def slots_ok_def split: option.split)

lemma quiet_wake: "quiet a k \<Longrightarrow> slot_ok pr \<Longrightarrow> quiet a (scheduler_wake pr k)"
  by (auto simp: scheduler_wake_def mild_def intro!: quiet_enqueue quiet_set_proc split: option.split)

section \<open>Counting descriptors\<close>

definition fd_names :: "bool \<Rightarrow> int \<Rightarrow> process_fd \<Rightarrow> bool" where
  "fd_names b h f \<longleftrightarrow> fd_kind f \<noteq> PROCESS_FD_NONE \<and> pipe_kind (fd_kind f) = b \<and> fd_handle f = h"

definition held :: "process_fd list list \<Rightarrow> bool \<Rightarrow> int \<Rightarrow> nat" where
  "held T b h = (\<Sum>fds\<leftarrow>T. length (filter (fd_names b h) fds))"

definition no_fds :: "process_fd list \<Rightarrow> bool" where
  "no_fds fds \<longleftrightarrow> (\<forall>f \<in> set fds. fd_kind f = PROCESS_FD_NONE)"

abbreviation fd_tables :: "'d kernel \<Rightarrow> process_fd list list" where
  "fd_tables k \<equiv> map p_fds (process_table k)"

text \<open>The count the kernel keeps of a handle: of a file (\<open>False\<close>) or of a pipe end (\<open>True\<close>).\<close>

definition counted :: "'d kernel \<Rightarrow> bool \<Rightarrow> int \<Rightarrow> nat" where
  "counted k b h = (if b then pipe_refs (k_pipes k, ()) h else vfs_refs (k_vfs k) h)"

definition balanced :: "(bool \<Rightarrow> int \<Rightarrow> nat) \<Rightarrow> 'd kernel \<Rightarrow> bool" where
  "balanced ex k \<longleftrightarrow> slots_ok k \<and> vfs_table_ok (k_vfs k) \<and> pipes_ok (k_pipes k) \<and>
     (\<forall>i < 16. length (p_fds (proc k i)) = 16 \<and> (\<not> alive i k \<longrightarrow> no_fds (p_fds (proc k i)))) \<and>
     (\<forall>b h. counted k b h = held (fd_tables k) b h + ex b h)"

definition plus_one :: "(bool \<Rightarrow> int \<Rightarrow> nat) \<Rightarrow> bool \<Rightarrow> int \<Rightarrow> bool \<Rightarrow> int \<Rightarrow> nat" where
  "plus_one ex b h = (\<lambda>b' h'. ex b' h' + of_bool (b' = b \<and> h' = h))"

definition keeps_alive :: "'d kernel \<Rightarrow> 'd kernel \<Rightarrow> bool" where
  "keeps_alive k k' \<longleftrightarrow> (\<forall>i. alive i k \<longrightarrow> alive i k')"

lemma keeps_alive_refl [simp]: "keeps_alive k k"
  by (simp add: keeps_alive_def)

lemma keeps_alive_trans: "keeps_alive k k' \<Longrightarrow> keeps_alive k' k'' \<Longrightarrow> keeps_alive k k''"
  by (simp add: keeps_alive_def)

lemma quiet_keeps_alive: "quiet k k' \<Longrightarrow> keeps_alive k k'"
  by (simp add: keeps_alive_def quiet_def)

lemma balanced_slots: "balanced ex k \<Longrightarrow> slots_ok k"
  by (simp add: balanced_def)

lemma balanced_tables: "balanced ex k \<Longrightarrow> tables_ok k"
  by (simp add: balanced_def tables_ok_def)

lemma balanced_count: "balanced ex k \<Longrightarrow> counted k b h = held (fd_tables k) b h + ex b h"
  by (simp add: balanced_def)

lemma balanced_quiet:
  assumes "balanced ex a" and "quiet a k"
  shows "balanced ex k"
proof -
  have fds: "p_fds (proc k i) = p_fds (proc a i)" if "i < 16" for i
  proof -
    have "fd_tables k ! i = fd_tables a ! i" using assms(2) by (simp add: quiet_def)
    then show ?thesis
      using that quiet_length [OF assms(2)] assms(1) by (simp add: balanced_def slots_ok_def)
  qed
  have "\<not> alive i a" if "\<not> alive i k" for i using that assms(2) by (auto simp: quiet_def)
  moreover have "pipe_refs (k_pipes k, ()) = pipe_refs (k_pipes a, ())" "vfs_refs (k_vfs k) = vfs_refs (k_vfs a)"
    using assms by (auto simp: balanced_def quiet_def)
  then have "counted k = counted a" by (simp add: fun_eq_iff counted_def)
  ultimately show ?thesis using assms fds by (simp add: balanced_def quiet_def tables_ok_def)
qed

lemma length_filter_update:
  "j < length xs \<Longrightarrow> length (filter P (xs[j := x])) + of_bool (P (xs ! j)) = length (filter P xs) + of_bool (P x)"
proof (induction xs arbitrary: j)
  case (Cons y ys)
  then show ?case by (cases j) auto
qed simp

lemma sum_list_update_nat:
  "i < length xs \<Longrightarrow> sum_list (xs[i := x]) + xs ! i = sum_list xs + (x :: nat)"
  by (induction xs arbitrary: i) (auto split: nat.split)

lemma held_update:
  assumes "i < length T" and "j < length (T ! i)"
  shows "held (T[i := (T ! i)[j := f]]) b h + of_bool (fd_names b h (T ! i ! j)) =
    held T b h + of_bool (fd_names b h f)"
proof -
  let ?n = "\<lambda>fds. length (filter (fd_names b h) fds)"
  have "held (T[i := (T ! i)[j := f]]) b h + ?n (T ! i) = held T b h + ?n ((T ! i)[j := f])"
    using sum_list_update_nat [of i "map ?n T" "?n ((T ! i)[j := f])"] assms(1) by (simp add: held_def map_update)
  then show ?thesis using length_filter_update [OF assms(2), of "fd_names b h" f] by linarith
qed

lemma held_pos:
  assumes "i < length T" and "j < length (T ! i)" and "fd_names b h (T ! i ! j)"
  shows "0 < held T b h"
  using held_update [OF assms(1,2), of empty_fd b h] assms(3) by (simp add: fd_names_def empty_fd_def split: if_splits)

section \<open>Storing a descriptor\<close>

definition put_fd :: "nat \<Rightarrow> nat \<Rightarrow> process_fd \<Rightarrow> 'd kernel \<Rightarrow> 'd kernel" where
  "put_fd i fd f k = set_proc i (\<lambda>p. p\<lparr>p_fds := (p_fds p)[fd := f]\<rparr>) k"

lemma put_fd_slots:
  assumes "slots_ok k"
  shows "slots_ok (put_fd i fd f k)" "alive j (put_fd i fd f k) = alive j k"
proof -
  have "proc (put_fd i fd f k) j = (if j = i \<and> i < 16 then (proc k i)\<lparr>p_fds := (p_fds (proc k i))[fd := f]\<rparr> else proc k j)"
    for j
    using assms by (cases "i < 16") (auto simp: put_fd_def slots_ok_def list_update_beyond)
  then show "alive j (put_fd i fd f k) = alive j k" "slots_ok (put_fd i fd f k)"
    using assms by (auto simp: alive_def slots_ok_def put_fd_def)
qed

lemma put_fd_proc:
  "slots_ok k \<Longrightarrow> i < 16 \<Longrightarrow> p_fds (proc (put_fd i fd f k) j) =
     (if j = i then (p_fds (proc k i))[fd := f] else p_fds (proc k j))"
  by (simp add: put_fd_def slots_ok_def)

lemma balanced_put_fd:
  assumes "balanced ex k" and "i < 16" and "fd < 16" and "fd_kind f \<noteq> PROCESS_FD_NONE \<Longrightarrow> alive i k"
    and "\<And>b h. ex b h + of_bool (fd_names b h (p_fds (proc k i) ! fd)) = ex' b h + of_bool (fd_names b h f)"
  shows "balanced ex' (put_fd i fd f k)"
proof -
  let ?k = "put_fd i fd f k"
  have ok: "slots_ok k" "length (process_table k) = 16" using assms(1) by (auto simp: balanced_def slots_ok_def)
  have T: "fd_tables ?k = (fd_tables k)[i := (fd_tables k ! i)[fd := f]]"
    using ok(2) assms(2) by (simp add: put_fd_def map_update)
  have c: "counted ?k = counted k" by (simp add: fun_eq_iff counted_def put_fd_def)
  have "counted ?k b h = held (fd_tables ?k) b h + ex' b h" for b h
    using held_update [of i "fd_tables k" fd f b h] assms(1-3) assms(5) [of b h] ok(2) unfolding T c
    by (simp add: balanced_def)
  moreover have "no_fds (p_fds (proc ?k j))" if "j < 16" "\<not> alive j ?k" for j
  proof (cases "j = i")
    case True
    then have "fd_kind f = PROCESS_FD_NONE" "no_fds (p_fds (proc k i))"
      using that assms(1,2,4) put_fd_slots(2) [OF ok(1)] by (auto simp: balanced_def)
    then show ?thesis
      using True put_fd_proc [OF ok(1) assms(2)]
      by (auto simp: no_fds_def dest: set_update_subset_insert [THEN subsetD])
  qed (use that assms(1,2) put_fd_slots(2) [OF ok(1)] put_fd_proc [OF ok(1) assms(2)] in \<open>auto simp: balanced_def\<close>)
  ultimately show ?thesis
    using assms(1,2) put_fd_slots(1) [OF ok(1)] put_fd_proc [OF ok(1) assms(2)]
    by (simp add: balanced_def put_fd_def)
qed

section \<open>Releasing and retaining a handle\<close>

lemma pipe_refs_any: "pipe_refs (ps, pr) = pipe_refs (ps, ())"
  by (rule ext) (simp add: pipe_refs_def split: option.split)

lemma pipe_close_wakes:
  assumes "pipe_close wake h (ps, k) = (r, ps', k')"
  shows "k' = k \<or> (\<exists>index reason. k' = wake index reason k)"
  using assms by (auto simp: pipe_close_def Let_def split: option.splits if_splits)

lemma quiet_wake_pipe [quiet_intros]: "quiet a k \<Longrightarrow> quiet a (process_wake_pipe_waiter index reason k)"
  by (auto simp: process_wake_pipe_waiter_def MAX_PROCESSES_def first_index_Some_iff
      intro!: quiet_wake split: option.split)

lemma enqueue_pipes [simp]: "k_pipes (enqueue i k) = k_pipes k"
  by (auto simp: enqueue_def with_queue_def Let_def split: option.split)

lemma wake_pipes [simp]: "k_pipes (process_wake_pipe_waiter index reason k) = k_pipes k"
  by (simp add: process_wake_pipe_waiter_def scheduler_wake_def split: option.split)

text \<open>A new file or pipe table with given counts.\<close>

lemma balanced_new_vfs:
  assumes "balanced ex k" and "vfs_table_ok v"
    and "\<And>h. vfs_refs v h + ex False h = vfs_refs (k_vfs k) h + ex' False h" and "ex' True = ex True"
  shows "balanced ex' (k\<lparr>k_vfs := v\<rparr>)"
proof -
  have "counted (k\<lparr>k_vfs := v\<rparr>) b h = held (fd_tables k) b h + ex' b h" for b h
    using balanced_count [OF assms(1), of b h] assms(3) [of h] assms(4) by (cases b) (simp_all add: counted_def)
  then show ?thesis using assms(1,2) by (simp add: balanced_def slots_ok_def alive_def)
qed

lemma balanced_new_pipes:
  assumes "balanced ex k" and "pipes_ok ps"
    and "\<And>h. pipe_refs (ps, ()) h + ex True h = pipe_refs (k_pipes k, ()) h + ex' True h" and "ex' False = ex False"
  shows "balanced ex' (k\<lparr>k_pipes := ps\<rparr>)"
proof -
  have "counted (k\<lparr>k_pipes := ps\<rparr>) b h = held (fd_tables k) b h + ex' b h" for b h
    using balanced_count [OF assms(1), of b h] assms(3) [of h] assms(4) by (cases b) (simp_all add: counted_def)
  then show ?thesis using assms(1,2) by (simp add: balanced_def slots_ok_def alive_def)
qed

lemma balanced_k_vfs_close:
  assumes "balanced (plus_one ex False h) k"
  shows "\<exists>k'. k_vfs_close h k = (0, k') \<and> balanced ex k' \<and> keeps_alive k k' \<and> fd_tables k' = fd_tables k"
proof -
  have ok: "vfs_table_ok (k_vfs k)" and "counted k False h = held (fd_tables k) False h + ex False h + 1"
    using assms by (simp_all add: balanced_def plus_one_def)
  then have "0 < vfs_refs (k_vfs k) h" by (simp add: counted_def)
  then obtain v where v: "vfs_close h (k_vfs k) = (0, v)" "vfs_table_ok v"
      "vfs_refs v = (vfs_refs (k_vfs k))(h := vfs_refs (k_vfs k) h - 1)"
    using vfs_files.close_referenced [OF ok] by blast
  then have "balanced ex (k\<lparr>k_vfs := v\<rparr>)"
    using \<open>0 < vfs_refs (k_vfs k) h\<close> by (intro balanced_new_vfs [OF assms]) (auto simp: plus_one_def)
  then show ?thesis using v by (auto simp: k_vfs_close_def keeps_alive_def alive_def)
qed

lemma balanced_k_pipe_close:
  assumes "balanced (plus_one ex True h) k"
  shows "\<exists>k'. k_pipe_close h k = (0, k') \<and> balanced ex k' \<and> keeps_alive k k' \<and> fd_tables k' = fd_tables k"
proof -
  let ?R = "pipe_refs (k_pipes k, ())"
  have ok: "pipes_ok (fst (k_pipes k, k))" and "counted k True h = held (fd_tables k) True h + ex True h + 1"
    using assms by (simp_all add: balanced_def plus_one_def)
  then have pos: "0 < ?R h" by (simp add: counted_def)
  then have "0 < pipe_refs (k_pipes k, k) h" by (simp add: pipe_refs_any [of _ k])
  then obtain ps k1 where c: "pipe_close process_wake_pipe_waiter h (k_pipes k, k) = (0, ps, k1)" "pipes_ok ps"
      "pipe_refs (ps, k1) = (pipe_refs (k_pipes k, k))(h := pipe_refs (k_pipes k, k) h - 1)"
    using pipe_ends.close_referenced [OF ok] by force
  have q: "quiet k k1"
    using pipe_close_wakes [OF c(1)] balanced_tables [OF assms] by (auto intro: quiet_intros)
  have "k_pipes k1 = k_pipes k"
    using pipe_close_wakes [OF c(1)] wake_pipes by auto
  moreover have "pipe_refs (ps, ()) = ?R(h := ?R h - 1)" using c(3) by (simp add: pipe_refs_any [of _ k] pipe_refs_any [of _ k1])
  ultimately have "balanced ex (k1\<lparr>k_pipes := ps\<rparr>)"
    using pos c(2) by (intro balanced_new_pipes [OF balanced_quiet [OF assms q]]) (auto simp: plus_one_def)
  then show ?thesis
    using c quiet_keeps_alive [OF q] q by (auto simp: k_pipe_close_def keeps_alive_def alive_def quiet_def)
qed

section \<open>Installing and closing a descriptor\<close>

lemma balanced_install:
  assumes "balanced (plus_one ex (pipe_kind kind) h) k" and "alive i k"
    and "process_fd_install_typed (Some i) kind h fl k = (fd, k')"
  shows "fd < 0 \<and> k' = k \<or>
    0 \<le> fd \<and> fd < 16 \<and> balanced ex k' \<and> keeps_alive k k' \<and>
      p_fds (proc k' i) ! nat fd = \<lparr>fd_kind = kind, fd_handle = h, fd_flags = fl\<rparr>"
proof (cases "kind = PROCESS_FD_NONE \<or> h < 0 \<or> fl AND NOT PROCESS_FD_CLOEXEC \<noteq> 0")
  case False
  let ?f = "\<lparr>fd_kind = kind, fd_handle = h, fd_flags = fl\<rparr>"
  have i: "i < 16" "slots_ok k" "length (p_fds (proc k i)) = 16"
    using assms(1,2) by (auto simp: alive_def balanced_def)
  show ?thesis
  proof (cases "first_index (\<lambda>fd. fd_kind (p_fds (proc k i) ! fd) = PROCESS_FD_NONE) 0 PROCESS_MAX_FDS")
    case (Some n)
    then have n: "n < 16" "fd_kind (p_fds (proc k i) ! n) = PROCESS_FD_NONE"
      by (auto simp: first_index_Some_iff PROCESS_MAX_FDS_def)
    have k': "fd = int n" "k' = put_fd i n ?f k" using assms(3) False Some by (auto simp: process_fd_install_typed_def put_fd_def)
    have "balanced ex k'"
      unfolding k' using n i assms(1,2) False
      by (intro balanced_put_fd [OF assms(1)]) (auto simp: fd_names_def plus_one_def)
    moreover have "keeps_alive k k'" unfolding k' by (simp add: keeps_alive_def put_fd_slots(2) [OF i(2)])
    moreover have "p_fds (proc k' i) ! n = ?f" unfolding k' using n i put_fd_proc [OF i(2,1)] by simp
    ultimately show ?thesis using n k'(1) by simp
  qed (use assms(3) False in \<open>auto simp: process_fd_install_typed_def vfs_errors\<close>)
qed (use assms(3) in \<open>auto simp: process_fd_install_typed_def vfs_errors\<close>)

lemma balanced_handle:
  assumes "balanced ex k" and "0 < held (fd_tables k) b h"
  shows "0 \<le> h"
  using balanced_count [OF assms(1), of b h] assms(2)
  by (cases b) (auto simp: counted_def vfs_refs_def vfs_fd_valid_def pipe_refs_def pipe_handle_index_def pipe_consts
      split: option.splits if_splits)

lemma balanced_release:
  assumes "balanced (plus_one ex b h) k"
  shows "\<exists>k'. (if b then k_pipe_close h k else k_vfs_close h k) = (0, k') \<and> balanced ex k' \<and> keeps_alive k k' \<and>
    fd_tables k' = fd_tables k"
  using balanced_k_pipe_close [of ex h k] balanced_k_vfs_close [of ex h k] assms by (cases b) auto

lemma balanced_fd_close_at:
  assumes "balanced ex k" and "i < 16" and "n < 16" and "fd_kind (p_fds (proc k i) ! n) \<noteq> PROCESS_FD_NONE"
  defines "k' \<equiv> snd (process_fd_close (Some i) (int n) k)"
  shows "balanced ex k' \<and> keeps_alive k k' \<and> fd_tables k' = (fd_tables k)[i := (p_fds (proc k i))[n := empty_fd]]"
proof -
  let ?f = "p_fds (proc k i) ! n" and ?k = "put_fd i n empty_fd k"
  have len: "length (process_table k) = 16" "length (p_fds (proc k i)) = 16"
    using assms(1,2) by (auto simp: balanced_def slots_ok_def)
  have "0 < held (fd_tables k) (pipe_kind (fd_kind ?f)) (fd_handle ?f)"
    using assms(2-4) len by (intro held_pos [of i _ n]) (auto simp: fd_names_def)
  then have "0 \<le> fd_handle ?f" using balanced_handle [OF assms(1)] by blast
  then have get: "process_fd_get (Some i) (int n) k = Some (fd_kind ?f, fd_handle ?f)"
    using assms(3,4) by (simp add: process_fd_get_def PROCESS_MAX_FDS_def Let_def)
  have "balanced (plus_one ex (pipe_kind (fd_kind ?f)) (fd_handle ?f)) ?k"
    using assms(2-4) by (intro balanced_put_fd [OF assms(1)]) (auto simp: fd_names_def plus_one_def empty_fd_def)
  then obtain k1 where k1: "(if pipe_kind (fd_kind ?f) then k_pipe_close (fd_handle ?f) ?k else k_vfs_close (fd_handle ?f) ?k) = (0, k1)"
      "balanced ex k1" "keeps_alive ?k k1" "fd_tables k1 = fd_tables ?k"
    using balanced_release by blast
  have "k' = k1" using get k1(1) by (auto simp: k'_def process_fd_close_def put_fd_def split: if_splits)
  then show ?thesis
    using k1 assms(2) len put_fd_slots(2) [OF balanced_slots [OF assms(1)]]
    by (simp add: keeps_alive_def) (simp add: put_fd_def map_update)
qed

lemma balanced_fd_close:
  assumes "balanced ex k" and "slot_ok pr"
  shows "balanced ex (snd (process_fd_close pr fd k)) \<and> keeps_alive k (snd (process_fd_close pr fd k))"
proof (cases "process_fd_get pr fd k")
  case (Some x)
  then obtain i where "pr = Some i" "0 \<le> fd" "nat fd < 16" "i < 16" "fd_kind (p_fds (proc k i) ! nat fd) \<noteq> PROCESS_FD_NONE"
    using assms(2) by (auto simp: process_fd_get_def Let_def PROCESS_MAX_FDS_def split: option.splits if_splits)
  then show ?thesis using balanced_fd_close_at [OF assms(1), of i "nat fd"] by simp
qed (use assms in \<open>simp add: process_fd_close_def\<close>)

lemma balanced_close_on_exec:
  assumes "balanced ex k" and "i < 16"
  shows "balanced ex (process_fd_close_on_exec (Some i) k) \<and> keeps_alive k (process_fd_close_on_exec (Some i) k)"
proof -
  have "balanced ex (snd (process_fd_close (Some i) fd t)) \<and> keeps_alive k (snd (process_fd_close (Some i) fd t))"
    if "balanced ex t \<and> keeps_alive k t" for fd and t :: "'a kernel"
    using balanced_fd_close [of ex t "Some i" fd] that assms(2) keeps_alive_trans by auto
  then show ?thesis
    unfolding process_fd_close_on_exec_def Let_def option.case using assms(1)
    by (intro for_loop_invariant [where P = "\<lambda>t. balanced ex t \<and> keeps_alive k t"]) auto
qed

lemma balanced_close_all:
  assumes "balanced ex k" and "i < 16"
  defines "k' \<equiv> process_fd_close_all (Some i) k"
  shows "balanced ex k' \<and> keeps_alive k k' \<and> no_fds (p_fds (proc k' i)) \<and> (\<forall>j. j \<noteq> i \<longrightarrow> fd_tables k' ! j = fd_tables k ! j)"
proof -
  define body where "body = (\<lambda>fd k. if fd_kind (p_fds (proc k i) ! fd) \<noteq> PROCESS_FD_NONE
    then snd (process_fd_close (Some i) (int fd) k) else (k :: 'a kernel))"
  have "n \<le> 16 \<Longrightarrow> balanced ex (for_loop 0 n body k) \<and> keeps_alive k (for_loop 0 n body k) \<and>
      (\<forall>j < n. fd_kind (fd_tables (for_loop 0 n body k) ! i ! j) = PROCESS_FD_NONE) \<and>
      (\<forall>j. j \<noteq> i \<longrightarrow> fd_tables (for_loop 0 n body k) ! j = fd_tables k ! j)" for n
  proof (induction n)
    case 0
    then show ?case using assms(1) by (simp add: for_loop_done)
  next
    case (Suc n)
    define t where "t = for_loop 0 n body k"
    have IH: "balanced ex t" "keeps_alive k t" "\<forall>j < n. fd_kind (fd_tables t ! i ! j) = PROCESS_FD_NONE"
        "\<forall>j. j \<noteq> i \<longrightarrow> fd_tables t ! j = fd_tables k ! j"
      using Suc unfolding t_def by simp_all
    have len: "length (process_table t) = 16" "length (p_fds (proc t i)) = 16"
      using IH(1) assms(2) by (auto simp: balanced_def slots_ok_def)
    have "balanced ex (body n t)" "keeps_alive t (body n t)"
        "fd_tables (body n t) = (fd_tables t)[i := (p_fds (proc t i))[n := empty_fd]] \<or>
         body n t = t \<and> fd_kind (p_fds (proc t i) ! n) = PROCESS_FD_NONE"
      using balanced_fd_close_at [OF IH(1) assms(2), of n] Suc.prems IH(1) by (auto simp: body_def)
    then show ?case
      using IH keeps_alive_trans [OF IH(2)] assms(2) len Suc.prems
      by (auto simp: for_loop_last t_def [symmetric] less_Suc_eq empty_fd_def)
  qed
  moreover have "k' = for_loop 0 16 body k"
    by (simp add: k'_def process_fd_close_all_def body_def PROCESS_MAX_FDS_def)
  ultimately have res: "balanced ex k'" "keeps_alive k k'" "\<forall>j < 16. fd_kind (fd_tables k' ! i ! j) = PROCESS_FD_NONE"
      "\<forall>j. j \<noteq> i \<longrightarrow> fd_tables k' ! j = fd_tables k ! j"
    by simp_all
  then have "length (process_table k') = 16" "length (p_fds (proc k' i)) = 16"
    using assms(2) by (auto simp: balanced_def slots_ok_def)
  then have "no_fds (p_fds (proc k' i))" using res(3) assms(2) by (auto simp: no_fds_def in_set_conv_nth)
  then show ?thesis using res by blast
qed

end
