(* ===== verification/Fd_Lifecycle.thy ===== *)
theory Fd_Lifecycle
  imports Fd_Balance
begin

text \<open>
  The descriptors in the life of a process: a fork gives the child a reference to every handle of the parent,
  an exit and the destruction of a process return all of them, and loading a program returns the one it takes.
\<close>

section \<open>Inheriting descriptors\<close>

lemma balanced_retain:
  assumes "balanced ex k" and "(if b then k_pipe_retain h k else k_vfs_retain h k) = (r, k')"
  shows "process_table k' = process_table k \<and> keeps_alive k k' \<and>
    (if r = 0 then balanced (plus_one ex b h) k' else k' = k)"
proof (cases b)
  case True
  obtain ps where ps: "pipe_retain h (k_pipes k) = (r, ps)" "k' = k\<lparr>k_pipes := ps\<rparr>"
    using assms(2) True by (auto simp: k_pipe_retain_def split: prod.splits)
  have ok: "pipes_ok (fst (k_pipes k, ()))" using assms(1) by (simp add: balanced_def)
  have ret: "pipe_retain_on h (k_pipes k, ()) = (r, (ps, ()))" using ps by (simp add: pipe_retain_on_def)
  show ?thesis
  proof (cases "r = 0")
    case r: True
    have "pipes_ok ps" "pipe_refs (ps, ()) = (pipe_refs (k_pipes k, ()))(h := Suc (pipe_refs (k_pipes k, ()) h))"
      using pipe_ends.retain_ok [OF ok ret [unfolded r]] by auto
    then have "balanced (plus_one ex b h) k'"
      unfolding ps using True by (intro balanced_new_pipes [OF assms(1)]) (auto simp: plus_one_def)
    then show ?thesis using ps r by (simp add: keeps_alive_def alive_def)
  qed (use pipe_ends.retain_fail [OF ok ret] ps in simp)
next
  case False
  obtain v where v: "vfs_retain h (k_vfs k) = (r, v)" "k' = k\<lparr>k_vfs := v\<rparr>"
    using assms(2) False by (auto simp: k_vfs_retain_def split: prod.splits)
  have ok: "vfs_table_ok (k_vfs k)" using assms(1) by (simp add: balanced_def)
  show ?thesis
  proof (cases "r = 0")
    case r: True
    have "vfs_table_ok v" "vfs_refs v = (vfs_refs (k_vfs k))(h := Suc (vfs_refs (k_vfs k) h))"
      using vfs_files.retain_ok [OF ok v(1) [unfolded r]] by auto
    then have "balanced (plus_one ex b h) k'"
      unfolding v using False by (intro balanced_new_vfs [OF assms(1)]) (auto simp: plus_one_def)
    then show ?thesis using v r by (simp add: keeps_alive_def alive_def)
  qed (use vfs_files.retain_fail [OF ok v(1)] v in simp)
qed

lemma balanced_inherit_fd:
  assumes "balanced ex k" and "alive c k" and "pa < 16" and "n < 16"
    and "fd_kind (p_fds (proc k c) ! n) = PROCESS_FD_NONE" and "inherit_fd c pa n k = (r, k')"
  shows "balanced ex k' \<and> keeps_alive k k' \<and> (\<forall>j. j \<noteq> n \<longrightarrow> p_fds (proc k' c) ! j = p_fds (proc k c) ! j)"
proof (cases "fd_kind (p_fds (proc k pa) ! n) = PROCESS_FD_NONE")
  case False
  let ?f = "p_fds (proc k pa) ! n"
  let ?b = "pipe_kind (fd_kind ?f)" and ?h = "fd_handle ?f"
  obtain st k1 where k1: "(if ?b then k_pipe_retain ?h k else k_vfs_retain ?h k) = (st, k1)" by force
  have ret: "process_table k1 = process_table k" "keeps_alive k k1"
      "if st = 0 then balanced (plus_one ex ?b ?h) k1 else k1 = k"
    using balanced_retain [OF assms(1) k1] by auto
  have k': "k' = (if st = 0 then put_fd c n ?f k1 else k1)"
    using assms(6) False k1 ret(1)
    by (auto simp: inherit_fd_def Let_def put_fd_def pipe_consts vfs_errors split: if_splits prod.splits)
  show ?thesis
  proof (cases "st = 0")
    case True
    then have b: "balanced (plus_one ex ?b ?h) k1" using ret(3) by simp
    have c: "c < 16" "alive c k1" using assms(2) ret(2) by (auto simp: alive_def keeps_alive_def)
    have "balanced ex (put_fd c n ?f k1)"
      using c assms(4,5) ret(1) False by (intro balanced_put_fd [OF b]) (auto simp: fd_names_def plus_one_def)
    moreover have "keeps_alive k (put_fd c n ?f k1)"
      using ret(2) put_fd_slots(2) [OF balanced_slots [OF b]] by (simp add: keeps_alive_def)
    ultimately show ?thesis
      using True k' ret(1) put_fd_proc [OF balanced_slots [OF b] c(1)] by simp
  qed (use k' ret assms(1) in simp)
qed (use assms in \<open>simp add: inherit_fd_def Let_def\<close>)

lemma balanced_inherit_all:
  assumes "balanced ex k" and "alive c k" and "pa < 16" and "m \<le> 16"
    and "\<forall>j. n \<le> j \<and> j < m \<longrightarrow> fd_kind (p_fds (proc k c) ! j) = PROCESS_FD_NONE"
    and "try_all (inherit_fd c pa) [n..<m] k = (r, k')"
  shows "balanced ex k' \<and> keeps_alive k k'"
  using assms
proof (induction "m - n" arbitrary: n k)
  case 0
  then show ?case by simp
next
  case (Suc d)
  then have n: "n < m" "[n..<m] = n # [Suc n..<m]" by (simp_all add: upt_rec)
  obtain ok k1 where k1: "inherit_fd c pa n k = (ok, k1)" by force
  have "n < 16" "fd_kind (p_fds (proc k c) ! n) = PROCESS_FD_NONE" using Suc.prems(4,5) n(1) by auto
  then have st: "balanced ex k1" "keeps_alive k k1" "\<forall>j. j \<noteq> n \<longrightarrow> p_fds (proc k1 c) ! j = p_fds (proc k c) ! j"
    using balanced_inherit_fd [OF Suc.prems(1-3) _ _ k1] by auto
  show ?case
  proof (cases ok)
    case True
    then have "try_all (inherit_fd c pa) [Suc n..<m] k1 = (r, k')" using Suc.prems(6) n k1 by simp
    moreover have "\<forall>j. Suc n \<le> j \<and> j < m \<longrightarrow> fd_kind (p_fds (proc k1 c) ! j) = PROCESS_FD_NONE"
      using st(3) Suc.prems(5) by auto
    moreover have "d = m - Suc n" using Suc.hyps(2) by simp
    moreover have "alive c k1" using st(2) Suc.prems(2) by (simp add: keeps_alive_def)
    ultimately have "balanced ex k' \<and> keeps_alive k1 k'"
      using Suc.hyps(1) [OF _ st(1) _ Suc.prems(3,4)] by blast
    then show ?thesis using st(2) keeps_alive_trans by blast
  qed (use Suc.prems(6) n k1 st in simp)
qed

lemma balanced_inherit:
  assumes "balanced ex k" and "alive c k" and "pa < 16" and "no_fds (p_fds (proc k c))"
    and "process_fd_inherit (Some c) (Some pa) k = (st, k')"
  shows "balanced ex k' \<and> keeps_alive k k' \<and> (st \<noteq> VFS_SUCCESS \<longrightarrow> no_fds (p_fds (proc k' c)))"
proof -
  have c: "c < 16" "length (p_fds (proc k c)) = 16" using assms(1,2) by (auto simp: alive_def balanced_def)
  obtain r k1 where k1: "try_all (inherit_fd c pa) [0..<16] k = (r, k1)" by force
  have "balanced ex k1 \<and> keeps_alive k k1"
    using assms(4) c by (intro balanced_inherit_all [OF assms(1-3) _ _ k1]) (auto simp: no_fds_def)
  then show ?thesis
    using assms(5) k1 balanced_close_all [of ex k1 c] c keeps_alive_trans [of k k1]
    by (auto simp: process_fd_inherit_def PROCESS_MAX_FDS_def vfs_errors split: if_splits)
qed

section \<open>Replacing a process\<close>

lemma held_replace:
  assumes "i < length T" and "no_fds (T ! i)" and "no_fds fds"
  shows "held (T[i := fds]) b h = held T b h"
proof -
  have zero: "filter (fd_names b h) xs = []" if "no_fds xs" for xs
    using that by (auto simp: no_fds_def fd_names_def filter_empty_conv)
  show ?thesis
    using sum_list_update_nat [of i "map (\<lambda>fds. length (filter (fd_names b h) fds)) T" 0] assms(1)
      zero [OF assms(2)] zero [OF assms(3)]
    by (simp add: held_def map_update)
qed

lemma balanced_replace:
  assumes "balanced ex k" and "i < 16" and "no_fds (p_fds (proc k i))"
    and "no_fds (p_fds (f (proc k i)))" and "length (p_fds (f (proc k i))) = 16" and "slot_ok (p_next (f (proc k i)))"
  shows "balanced ex (set_proc i f k) \<and> (\<forall>j. j \<noteq> i \<longrightarrow> alive j (set_proc i f k) = alive j k)"
proof -
  let ?k = "set_proc i f k"
  have len: "length (process_table k) = 16" using assms(1) by (simp add: balanced_def slots_ok_def)
  have pr: "proc ?k j = (if j = i then f (proc k i) else proc k j)" for j using assms(2) len by simp
  have al: "alive j ?k = alive j k" if "j \<noteq> i" for j using that by (simp add: alive_def)
  have "slots_ok ?k"
    using assms(1,2,6) al by (auto simp: balanced_def slots_ok_def alive_def nth_list_update)
  moreover have "counted ?k b h = held (fd_tables ?k) b h + ex b h" for b h
    using balanced_count [OF assms(1), of b h] held_replace [of i "fd_tables k" "p_fds (f (proc k i))" b h] assms(2-4) len
    by (cases b) (simp_all add: counted_def map_update)
  moreover have "\<forall>j < 16. length (p_fds (proc ?k j)) = 16 \<and> (\<not> alive j ?k \<longrightarrow> no_fds (p_fds (proc ?k j)))"
    using assms(1,4,5) al unfolding pr by (auto simp: balanced_def)
  ultimately show ?thesis using assms(1) al by (simp add: balanced_def)
qed

lemma fd_table_init_empty:
  assumes "length (p_fds p) = 16"
  shows "no_fds (p_fds (process_fd_table_init p)) \<and> length (p_fds (process_fd_table_init p)) = 16"
proof -
  have "length (for_loop 0 n (\<lambda>i fds. fds[i := empty_fd]) fds) = length fds \<and>
      (\<forall>j < n. j < length fds \<longrightarrow> for_loop 0 n (\<lambda>i fds. fds[i := empty_fd]) fds ! j = empty_fd)" for n and fds :: "process_fd list"
    by (induction n) (auto simp: for_loop_done for_loop_last nth_list_update less_Suc_eq)
  from this [of 16 "p_fds p"] show ?thesis
    using assms by (auto simp: process_fd_table_init_def PROCESS_MAX_FDS_def no_fds_def in_set_conv_nth empty_fd_def)
qed

lemma fd_table_init_fields [simp]:
  "p_state (process_fd_table_init p) = p_state p" "p_next (process_fd_table_init p) = p_next p"
  by (simp_all add: process_fd_table_init_def)

lemma zero_process_fds [simp]: "no_fds (p_fds zero_process)" "length (p_fds zero_process) = 16"
    "p_next zero_process = None" "p_state zero_process = PROCESS_DEAD"
  by (simp_all add: zero_process_def no_fds_def zero_fd_def)

section \<open>Destruction\<close>

lemma quiet_free_stack [quiet_intros]: "quiet a k \<Longrightarrow> quiet a (free_stack s k)"
  by (simp add: free_stack_def Let_def quiet_updates)

lemma clear_fields_fds:
  "length (p_fds p) = 16 \<Longrightarrow> no_fds (p_fds (clear_fields p)) \<and> length (p_fds (clear_fields p)) = 16 \<and> p_next (clear_fields p) = None"
  by (simp add: clear_fields_def Let_def fd_table_init_empty process_signal_init_def process_clear_test_markers_def)

lemma balanced_destroy:
  assumes "balanced ex k" and "i < 16"
  shows "balanced ex (process_destroy (Some i) k)"
proof (cases "p_state (proc k i) = PROCESS_DEAD")
  case False
  let ?k1 = "process_fd_close_all (Some i) k"
  have c: "balanced ex ?k1" "no_fds (p_fds (proc ?k1 i))"
    using balanced_close_all [OF assms(1,2)] by auto
  let ?k2 = "free_stack (p_kernel_stack (proc (set_mmu (paging_destroy_address_space (p_cr3 (proc ?k1 i))) ?k1) i))
    (set_mmu (paging_destroy_address_space (p_cr3 (proc ?k1 i))) ?k1)"
  have "quiet ?k1 ?k2" using balanced_tables [OF c(1)] by (intro quiet_intros)
  then have b2: "balanced ex ?k2" using balanced_quiet [OF c(1)] by blast
  have f2: "process_table ?k2 = process_table ?k1" by (simp add: free_stack_def Let_def)
  have "length (p_fds (proc ?k2 i)) = 16" using b2 assms(2) by (simp add: balanced_def)
  then have r: "balanced ex (set_proc i clear_fields ?k2)"
    using balanced_replace [OF b2 assms(2), of clear_fields] clear_fields_fds [of "proc ?k2 i"] c(2) f2 by auto
  have "quiet (set_proc i clear_fields ?k2) (process_destroy (Some i) k)"
    using False balanced_tables [OF r] unfolding process_destroy_def Let_def by (auto intro: quiet_intros)
  then show ?thesis using balanced_quiet [OF r] by blast
qed (use assms in \<open>simp add: process_destroy_def\<close>)

section \<open>Fork\<close>

lemma quiet_fds: "quiet a k \<Longrightarrow> i < 16 \<Longrightarrow> p_fds (proc k i) = p_fds (proc a i)"
  using quiet_length [of a k] nth_map [of i "process_table k" p_fds] nth_map [of i "process_table a" p_fds]
    map_eq_imp_length_eq [of p_fds "process_table k" p_fds "process_table a"]
  by (simp add: quiet_def)

lemma quiet_allocate_stack [quiet_intros]: "quiet a k \<Longrightarrow> quiet a (snd (allocate_stack s k))"
  by (simp add: allocate_stack_def quiet_updates split: option.split)

lemma quiet_copy_frame [quiet_intros]: "quiet a k \<Longrightarrow> quiet a (copy_frame d s k)"
  by (simp add: copy_frame_def quiet_updates)

lemma balanced_drop_child:
  assumes "balanced ex k" and "c < 16" and "no_fds (p_fds (proc k c))"
  shows "balanced ex (set_proc c (\<lambda>_. zero_process) k) \<and> (\<forall>j. j \<noteq> c \<longrightarrow> alive j (set_proc c (\<lambda>_. zero_process) k) = alive j k)"
  using assms by (intro balanced_replace) auto

lemma balanced_fork_finish:
  assumes "balanced ex k" and "c < 16" and "no_fds (p_fds (proc k c))" and "pa < 16"
    and "fork_finish c pa fr stack cr3 k = (r, k')"
  shows "balanced ex k' \<and> (\<forall>j. j \<noteq> c \<longrightarrow> alive j k \<longrightarrow> alive j k') \<and> (r = None \<or> r = Some c)"
proof -
  define cf where "cf = stack + KERNEL_STACK_SIZE - 4 * of_nat FRAME_WORDS"
  define k1 where "k1 = (let k = set_field cf EAX 0 (copy_frame cf fr k) in
    set_field cf EFLAGS (get_field cf EFLAGS k OR 0x200) k)"
  define g where "g = (\<lambda>p. process_signal_init (p\<lparr>
                p_pid := next_pid k1, p_esp := cf, p_ebp := get_field cf EBP k1,
                p_eip := get_field cf EIP k1, p_cr3 := cr3,
                p_interrupt_frame := True, p_priority := p_priority (proc k1 pa),
                p_dynamic_priority := p_priority (proc k1 pa), p_run_count := 0,
                p_test_marker_permissions := p_test_marker_permissions (proc k1 pa),
                p_state := PROCESS_READY, p_user_stack := get_field cf USER_ESP k1,
                p_parent_pid := p_pid (proc k1 pa), p_block_reason := BLOCK_NONE, p_blocked_fd := -1,
                p_heap_start := p_heap_start (proc k1 pa), p_heap_end := p_heap_end (proc k1 pa), p_next := None\<rparr>))"
  define k2 where "k2 = set_proc c g (k1\<lparr>next_pid := next_pid k1 + 1\<rparr>)"
  obtain st k3 where k3: "process_fd_inherit (Some c) (Some pa) k2 = (st, k3)" by force
  have q1: "quiet k k1" unfolding k1_def Let_def using balanced_tables [OF assms(1)] by (intro quiet_intros)
  have q2: "quiet k k2" unfolding k2_def using q1 by (intro quiet_intros) (auto simp: g_def mild_def process_signal_init_def)
  have b2: "balanced ex k2" using balanced_quiet [OF assms(1) q2] .
  have "alive c k2" using quiet_length [OF q1] assms(2) by (simp add: k2_def alive_def g_def process_signal_init_def)
  moreover have "no_fds (p_fds (proc k2 c))" using quiet_fds [OF q2 assms(2)] assms(3) by simp
  ultimately have b3: "balanced ex k3" "keeps_alive k2 k3" "st \<noteq> VFS_SUCCESS \<longrightarrow> no_fds (p_fds (proc k3 c))"
    using balanced_inherit [OF b2 _ assms(4) _ k3] by auto
  have al: "alive j k3" if "alive j k" for j using that quiet_alive [OF q2] b3(2) by (simp add: keeps_alive_def)
  let ?d = "free_stack (p_kernel_stack (proc (set_mmu (paging_destroy_address_space cr3) k3) c)) (set_mmu (paging_destroy_address_space cr3) k3)"
  have qd: "quiet k3 ?d" "quiet k3 ((set_proc pa (\<lambda>p. p\<lparr>p_interrupt_frame := True\<rparr>) k3)\<lparr>process_count := n\<rparr>)" for n
    using balanced_tables [OF b3(1)] by (auto intro!: quiet_intros simp: mild_def)
  have res: "(r, k') = (if st \<noteq> VFS_SUCCESS then (None, set_proc c (\<lambda>_. zero_process) ?d)
      else (Some c, (set_proc pa (\<lambda>p. p\<lparr>p_interrupt_frame := True\<rparr>) k3)\<lparr>process_count := process_count (set_proc pa (\<lambda>p. p\<lparr>p_interrupt_frame := True\<rparr>) k3) + 1\<rparr>))"
    using assms(5) k3 unfolding fork_finish_def Let_def cf_def [symmetric]
    by (simp add: k1_def [unfolded Let_def, symmetric] g_def [symmetric] k2_def [symmetric] del: set_mmu_fields set_proc_fields)
  show ?thesis
  proof (cases "st = VFS_SUCCESS")
    case True
    then show ?thesis using res balanced_quiet [OF b3(1) qd(2)] al quiet_alive [OF qd(2)] by auto
  next
    case False
    have "no_fds (p_fds (proc ?d c))" using quiet_fds [OF qd(1) assms(2)] b3(3) False by simp
    then show ?thesis
      using res False balanced_drop_child [OF balanced_quiet [OF b3(1) qd(1)] assms(2)] al quiet_alive [OF qd(1)] by auto
  qed
qed

definition parent_refused :: "u32 \<Rightarrow> nat \<Rightarrow> 'd kernel \<Rightarrow> bool" where
  "parent_refused fr pa k \<longleftrightarrow> fr = 0 \<or> get_field fr CS k AND 0x03 \<noteq> 0x03 \<or> p_cr3 (proc k pa) = 0 \<or>
     process_count k \<ge> of_nat MAX_PROCESSES"

lemma balanced_new_child:
  assumes "balanced ex k" and "c < 16" and "\<not> alive c k"
  defines "k0 \<equiv> set_proc c (\<lambda>_. process_fd_table_init zero_process) k"
  shows "balanced ex k0 \<and> (\<forall>j. j \<noteq> c \<longrightarrow> alive j k0 = alive j k) \<and> no_fds (p_fds (proc k0 c))"
proof -
  have "no_fds (p_fds (proc k c))" "length (process_table k) = 16"
    using assms(1-3) by (simp_all add: balanced_def slots_ok_def)
  then show ?thesis
    unfolding k0_def using balanced_replace [OF assms(1,2), of "\<lambda>_. process_fd_table_init zero_process"] assms(2)
      fd_table_init_empty [of zero_process] by auto
qed

lemma balanced_fork:
  assumes "balanced ex k" and "pa < 16" and "process_fork (Some pa) fr k = (r, k')"
  shows "balanced ex k' \<and> keeps_alive k k' \<and> slot_ok r"
proof (cases "parent_refused fr pa k \<or> free_slot k = None")
  case True
  then have "(r, k') = (None, k)" using assms(3) by (auto simp: process_fork_def parent_refused_def split: if_splits)
  then show ?thesis using assms(1) by simp
next
  case False
  then obtain c where c: "free_slot k = Some c" "c < 16" "\<not> alive c k"
    by (auto simp: free_slot_def first_index_Some_iff MAX_PROCESSES_def alive_def)
  let ?k0 = "set_proc c (\<lambda>_. process_fd_table_init zero_process) k"
  have b0: "balanced ex ?k0" "\<forall>j. j \<noteq> c \<longrightarrow> alive j ?k0 = alive j k" and n0: "no_fds (p_fds (proc ?k0 c))"
    using balanced_new_child [OF assms(1) c(2,3)] by auto
  obtain stack k1 where k1: "allocate_stack KERNEL_STACK_SIZE ?k0 = (stack, k1)" by force
  let ?k2 = "set_proc c (\<lambda>p. p\<lparr>p_kernel_stack := stack\<rparr>) k1"
  obtain cr3 m where m: "paging_clone_directory (p_cr3 (proc ?k2 pa)) (k_mmu ?k2) = (cr3, m)" by force
  let ?k3 = "?k2\<lparr>k_mmu := m\<rparr>"
  have "quiet ?k0 k1" using quiet_allocate_stack [OF quiet_refl [OF balanced_tables [OF b0(1)]], of KERNEL_STACK_SIZE] k1 by simp
  then have q2: "quiet ?k0 ?k2" by (rule quiet_set_proc) (simp add: mild_def)
  then have q3: "quiet ?k0 ?k3" by (rule quiet_updates)
  have q4: "quiet ?k0 (free_stack (p_kernel_stack (proc ?k3 c)) ?k3)" using q3 by (rule quiet_free_stack)
  have al: "keeps_alive k t" if "\<forall>j. j \<noteq> c \<longrightarrow> alive j k \<longrightarrow> alive j t" for t
    using that c(3) by (auto simp: keeps_alive_def)
  have res: "(r, k') = (if stack = 0 then (None, ?k2)
      else if cr3 = 0 then (None, set_proc c (\<lambda>_. zero_process) (free_stack (p_kernel_stack (proc ?k3 c)) ?k3))
      else fork_finish c pa fr stack cr3 ?k3)"
    using assms(3) False c(1)
    by (cases "stack = 0"; cases "cr3 = 0")
      (simp_all add: process_fork_def parent_refused_def Let_def k1 m del: set_proc_fields)
  consider "stack = 0" | "stack \<noteq> 0" "cr3 = 0" | "stack \<noteq> 0" "cr3 \<noteq> 0" by blast
  then show ?thesis
  proof cases
    case 1
    then show ?thesis
      using res balanced_quiet [OF b0(1) q2] b0(2) quiet_alive [OF q2] by (auto intro!: al)
  next
    case 2
    have "no_fds (p_fds (proc (free_stack (p_kernel_stack (proc ?k3 c)) ?k3) c))" using quiet_fds [OF q4 c(2)] n0 by simp
    then have "balanced ex k'" "\<forall>j. j \<noteq> c \<longrightarrow> alive j k' = alive j (free_stack (p_kernel_stack (proc ?k3 c)) ?k3)"
      using balanced_drop_child [OF balanced_quiet [OF b0(1) q4] c(2)] res 2 by auto
    then show ?thesis using res 2 b0(2) quiet_alive [OF q4] by (auto intro!: al)
  next
    case 3
    have "no_fds (p_fds (proc ?k3 c))" using quiet_fds [OF q3 c(2)] n0 by simp
    moreover have "fork_finish c pa fr stack cr3 ?k3 = (r, k')" using res 3 by simp
    ultimately have "balanced ex k'" "\<forall>j. j \<noteq> c \<longrightarrow> alive j ?k3 \<longrightarrow> alive j k'" "r = None \<or> r = Some c"
      using balanced_fork_finish [OF balanced_quiet [OF b0(1) q3] c(2) _ assms(2)] by auto
    then show ?thesis using b0(2) quiet_alive [OF q3] c(2) by (auto intro!: al)
  qed
qed

section \<open>Exit\<close>

lemma quiet_orphan [quiet_intros]: "quiet a k \<Longrightarrow> quiet a (orphan pid i k)"
  by (simp add: orphan_def mild_def quiet_set_proc)

lemma quiet_send_signal [quiet_intros]: "quiet a k \<Longrightarrow> quiet a (snd (process_send_signal pr s k))"
  by (simp add: process_send_signal_def mild_def quiet_set_proc split: option.split)

lemma get_by_pid_slot: "process_get_by_pid pid k = Some i \<Longrightarrow> i < 16"
  by (auto simp: process_get_by_pid_def first_index_Some_iff MAX_PROCESSES_def split: if_splits)

lemma quiet_announce_exit:
  assumes "quiet a k"
  shows "quiet a (announce_exit i k)"
proof -
  define k1 where "k1 = set_proc i (\<lambda>p. p\<lparr>p_state := PROCESS_ZOMBIE, p_block_reason := BLOCK_NONE\<rparr>) k"
  define k2 where "k2 = for_loop 0 MAX_PROCESSES (\<lambda>j k. orphan (p_pid (proc k i)) j k) k1"
  have "quiet a k1" unfolding k1_def using assms by (intro quiet_set_proc) (simp_all add: mild_def)
  then have q2: "quiet a k2" unfolding k2_def by (intro for_loop_quiet) (auto intro: quiet_intros)
  have w: "quiet a (set_proc i (\<lambda>p. p\<lparr>p_waited := True\<rparr>) t)" if "quiet a t" for t
    using that by (intro quiet_set_proc) (simp_all add: mild_def)
  have s: "quiet a (snd (process_send_signal (Some pa) SIGCHLD k2))" for pa using q2 by (intro quiet_intros)
  have u: "quiet a (set_proc pa (\<lambda>p. p\<lparr>p_wait_result_status := f p, p_wait_completion_pending := True,
      p_waiting_for_child := False, p_block_reason := BLOCK_NONE\<rparr>) t)" if "quiet a t" for pa f t
    using that by (intro quiet_set_proc) (simp_all add: mild_def)
  show ?thesis
    unfolding announce_exit_def Let_def k1_def [symmetric] k2_def [symmetric]
    by (auto intro!: w u s q2 quiet_wake quiet_updates(2) dest: get_by_pid_slot split: option.split)
qed

lemma mark_exit_unfold:
  "process_mark_exit (Some i) code k =
     (if p_state (proc k i) = PROCESS_DEAD \<or> p_state (proc k i) = PROCESS_ZOMBIE then k
      else announce_exit i (process_fd_close_all (Some i)
             (set_proc i (\<lambda>p. p\<lparr>p_exit_code := (if code AND 0x80000000 \<noteq> 0 then code else code AND 0xFF), p_exited := True\<rparr>)
               (scheduler_remove (Some i) k))))"
  by (simp add: process_mark_exit_def)

lemma balanced_mark_exit:
  assumes "balanced ex k" and "i < 16"
  shows "balanced ex (process_mark_exit (Some i) code k) \<and> keeps_alive k (process_mark_exit (Some i) code k)"
proof -
  let ?k = "set_proc i (\<lambda>p. p\<lparr>p_exit_code := (if code AND 0x80000000 \<noteq> 0 then code else code AND 0xFF), p_exited := True\<rparr>)
    (scheduler_remove (Some i) k)"
  have q: "quiet k ?k" using balanced_tables [OF assms(1)] by (intro quiet_intros) (simp_all add: mild_def)
  have c: "balanced ex (process_fd_close_all (Some i) ?k)" "keeps_alive ?k (process_fd_close_all (Some i) ?k)"
    using balanced_close_all [OF balanced_quiet [OF assms(1) q] assms(2)] by auto
  have "quiet (process_fd_close_all (Some i) ?k) (announce_exit i (process_fd_close_all (Some i) ?k))"
    using balanced_tables [OF c(1)] by (intro quiet_announce_exit quiet_refl)
  then show ?thesis
    using assms(1) balanced_quiet [OF c(1)] keeps_alive_trans [OF keeps_alive_trans [OF quiet_keeps_alive [OF q] c(2)] quiet_keeps_alive]
    unfolding mark_exit_unfold by auto
qed

section \<open>Reading and writing\<close>

lemma pipe_refs_same_ends:
  assumes "pipes_ok ps" and "pipe_ok p" and "i < 8" and "readers p = readers (ps ! i)" and "writers p = writers (ps ! i)"
  shows "pipes_ok (ps[i := p]) \<and> pipe_refs (ps[i := p], ()) = pipe_refs (ps, ())"
proof -
  have ok: "pipes_ok (ps[i := p])" using assms(1,2) by (rule pipes_ok_update)
  have "pipe_refs (ps[i := p], ()) h = pipe_refs (ps, ()) h" for h
    using pipe_refs_eq [of "(ps[i := p], ())" h] pipe_refs_eq [of "(ps, ())" h] ok assms
    by (cases "handle_slot h = i") (auto simp: end_count_def pipes_ok_def)
  then show ?thesis using ok by (simp add: fun_eq_iff)
qed

lemma pipe_read_keeps:
  assumes "pipes_ok ps" and "pipe_read wake h ok n (ps, k) = (r, out, ps', k')"
  shows "pipes_ok ps' \<and> pipe_refs (ps', ()) = pipe_refs (ps, ()) \<and> (k' = k \<or> (\<exists>i reason. k' = wake i reason k))"
proof (cases "ps' = ps")
  case False
  then obtain i where i: "pipe_handle_index h ps = Some i" "ok \<or> n = 0" "pipe_handle_is_read h" "0 < n"
    using assms(2) by (auto simp: pipe_read_def Let_def word_neq_0_conv split: option.splits if_splits)
  obtain out' pos where c: "pipe_copy_out (unat (read_size n (ps ! i))) (ps ! i) = (out', pos)" by force
  let ?p = "(ps ! i)\<lparr>read_pos := pos, pipe_count := pipe_count (ps ! i) - read_size n (ps ! i)\<rparr>"
  have i8: "i < 8" "pipe_ok (ps ! i)" using pipe_handle_index_lt [OF i(1)] pipes_ok_nth [OF assms(1)] by auto
  have "unat (read_size n (ps ! i)) \<le> unat (pipe_count (ps ! i))"
    by (simp add: unat_read_size pipe_contents_def)
  then have "pipe_ok ?p" using pipe_read_ok [OF i8(2) _ c] by blast
  moreover have "ps' = ps[i := ?p]" "k' = wake i BLOCK_PIPE_WRITE k"
    using assms(2) False i c pipe_read_cases [OF i(1,3,4), of wake k]
    by (auto simp: Let_def split: if_splits)
  ultimately show ?thesis using pipe_refs_same_ends [OF assms(1) _ i8(1), of ?p] by auto
qed (use assms in \<open>auto simp: pipe_read_def Let_def split: option.splits if_splits prod.splits\<close>)

lemma pipe_write_keeps:
  assumes "pipes_ok ps" and "pipe_write wake h src n (ps, k) = (r, ps', k')"
  shows "pipes_ok ps' \<and> pipe_refs (ps', ()) = pipe_refs (ps, ()) \<and> (k' = k \<or> (\<exists>i reason. k' = wake i reason k))"
proof (cases "ps' = ps")
  case False
  then obtain i s where i: "pipe_handle_index h ps = Some i" "src = Some s" "\<not> pipe_handle_is_read h" "0 < n"
    using assms(2) by (auto simp: pipe_write_def Let_def word_neq_0_conv split: option.splits if_splits)
  obtain buf pos where c: "pipe_copy_in (unat (write_size n (ps ! i))) s (ps ! i) = (buf, pos)" by force
  let ?p = "(ps ! i)\<lparr>pipe_buffer := buf, write_pos := pos, pipe_count := pipe_count (ps ! i) + write_size n (ps ! i)\<rparr>"
  have i8: "i < 8" "pipe_ok (ps ! i)" using pipe_handle_index_lt [OF i(1)] pipes_ok_nth [OF assms(1)] by auto
  have "unat (pipe_count (ps ! i)) + unat (write_size n (ps ! i)) \<le> 4096"
    using i8(2) unat_write_size [OF i8(2), of n] by (auto simp: pipe_contents_def pipe_ok_def)
  then have "pipe_ok ?p" using pipe_write_ok [OF i8(2) _ c] by blast
  moreover have "ps' = ps[i := ?p]" "k' = wake i BLOCK_PIPE_READ k"
    using assms(2) False i c pipe_write_cases [OF assms(1) i(1,3,4), of wake s k]
    by (auto simp: Let_def split: if_splits)
  ultimately show ?thesis using pipe_refs_same_ends [OF assms(1) _ i8(1), of ?p] by auto
qed (use assms in \<open>auto simp: pipe_write_def Let_def split: option.splits if_splits prod.splits\<close>)

text \<open>New tables with the same counts.\<close>

lemma quiet_new_pipes:
  assumes "quiet a k" and "pipes_ok ps" and "pipe_refs (ps, ()) = pipe_refs (k_pipes k, ())"
  shows "quiet a (k\<lparr>k_pipes := ps\<rparr>)"
  using assms by (simp add: quiet_def tables_ok_def slots_ok_def alive_def)

lemma quiet_new_vfs:
  assumes "quiet a k" and "vfs_table_ok v" and "vfs_refs v = vfs_refs (k_vfs k)"
  shows "quiet a (k\<lparr>k_vfs := v\<rparr>)"
  using assms by (simp add: quiet_def tables_ok_def slots_ok_def alive_def)

lemma quiet_pipes_ok: "quiet a k \<Longrightarrow> pipes_ok (k_pipes k)"
  by (simp add: quiet_def tables_ok_def)

lemma quiet_woken:
  assumes "quiet a k" and "k' = k \<or> (\<exists>i reason. k' = process_wake_pipe_waiter i reason k)"
  shows "quiet a k' \<and> k_pipes k' = k_pipes k"
  using assms by (auto intro: quiet_intros)

lemma quiet_k_pipe_read [quiet_intros]:
  assumes "quiet a k"
  shows "quiet a (snd (k_pipe_read h buf n k))"
proof -
  obtain r d ps k1 where pr: "pipe_read process_wake_pipe_waiter h (buf \<noteq> 0) n (k_pipes k, k) = (r, d, ps, k1)"
    by (metis prod.collapse)
  have "quiet a (k1\<lparr>k_pipes := ps\<rparr>)"
    using pipe_read_keeps [OF quiet_pipes_ok [OF assms] pr] quiet_woken [OF assms, of k1] by (intro quiet_new_pipes) auto
  then show ?thesis using pr by (simp add: k_pipe_read_def quiet_updates)
qed

lemma quiet_k_pipe_write [quiet_intros]:
  assumes "quiet a k"
  shows "quiet a (snd (k_pipe_write h buf n k))"
proof -
  define src where "src = (if buf = 0 then None else Some (reader_at buf (k_mmu k)))"
  obtain r ps k1 where pr: "pipe_write process_wake_pipe_waiter h src n (k_pipes k, k) = (r, ps, k1)"
    by (metis prod.collapse)
  have "quiet a (k1\<lparr>k_pipes := ps\<rparr>)"
    using pipe_write_keeps [OF quiet_pipes_ok [OF assms] pr] quiet_woken [OF assms, of k1] by (intro quiet_new_pipes) auto
  then show ?thesis using pr by (simp add: k_pipe_write_def src_def [symmetric] quiet_updates)
qed

section \<open>Completing a context switch\<close>

lemma quiet_prepare_write [quiet_intros]: "quiet a k \<Longrightarrow> quiet a (snd (uaccess_prepare_write p n k))"
  by (simp add: uaccess_prepare_write_def split_beta quiet_updates split: option.split)

lemma quiet_copy_to_user [quiet_intros]: "quiet a k \<Longrightarrow> quiet a (snd (copy_to_user p d n k))"
  by (simp add: copy_to_user_def Let_def split_beta quiet_updates quiet_prepare_write)

lemma quiet_copy_from_user [quiet_intros]: "quiet a k \<Longrightarrow> quiet a (snd (snd (copy_from_user ok p n k)))"
  by (simp add: copy_from_user_def split_beta quiet_updates)

lemma quiet_complete_pipe_io [quiet_intros]: "quiet a k \<Longrightarrow> quiet a (process_complete_pipe_io pr k)"
  by (auto simp: process_complete_pipe_io_def Let_def split_beta mild_def intro!: quiet_intros split: option.split)

lemma quiet_complete_wait [quiet_intros]: "quiet a k \<Longrightarrow> quiet a (complete_wait i k)"
  by (auto simp: complete_wait_def Let_def split_beta mild_def intro!: quiet_intros split: option.split)

lemma balanced_complete_switch:
  assumes "balanced ex k"
  shows "balanced ex (process_complete_context_switch k)"
proof -
  let ?k = "case process_get_current k of None \<Rightarrow> k
    | Some i \<Rightarrow> process_complete_pipe_io (process_get_current k) (complete_wait i k)"
  have "quiet k ?k" using balanced_tables [OF assms] by (auto intro!: quiet_intros split: option.split)
  then have "balanced ex ?k" using assms balanced_quiet by blast
  then have "balanced ex (for_loop 0 16 (reap (process_get_current k)) ?k)"
    by (rule for_loop_invariant) (simp add: reap_def Let_def balanced_destroy)
  then show ?thesis by (simp add: process_complete_context_switch_def Let_def MAX_PROCESSES_def)
qed

section \<open>Signals\<close>

lemma get_current_alive: "process_get_current k = Some i \<Longrightarrow> alive i k \<and> i < 16"
  by (auto simp: process_get_current_def first_index_Some_iff MAX_PROCESSES_def alive_def)

lemma balanced_deliver_kill:
  assumes "balanced ex k" and "i < 16"
  shows "balanced ex (snd (deliver_kill i s esp k))"
proof -
  let ?k = "set_proc i (\<lambda>p. p\<lparr>p_pending_signals := p_pending_signals p AND NOT (signal_bit s), p_killed_by_signal := s\<rparr>) k"
  have "quiet k ?k" using balanced_tables [OF assms(1)] by (intro quiet_intros) (simp_all add: mild_def)
  then have b: "balanced ex (process_mark_exit (Some i) 0 ?k)"
    using balanced_mark_exit [OF balanced_quiet [OF assms(1)] assms(2)] by blast
  have "quiet (process_mark_exit (Some i) 0 ?k) (snd (deliver_kill i s esp k))"
    unfolding deliver_kill_def Let_def scheduler_exit_current_def using balanced_tables [OF b]
    by (intro quiet_intros) simp_all
  then show ?thesis using balanced_quiet [OF b] by blast
qed

lemma balanced_deliver_signals:
  assumes "process_deliver_signals esp k = Some r" and "balanced ex k"
  shows "balanced ex (snd r)"
proof -
  have "balanced ex k \<longrightarrow> balanced ex (snd r)"
  proof (rule process_deliver_signals.raw_induct [where P = "\<lambda>_ k r. balanced ex k \<longrightarrow> balanced ex (snd r)", OF _ assms(1)], rule impI)
    fix deliver esp r and k :: "'a kernel"
    assume IH: "\<And>esp k r. deliver esp k = Some r \<Longrightarrow> balanced ex k \<longrightarrow> balanced ex (snd r)"
      and b: "balanced ex k"
      and step: "(case process_get_current k of None \<Rightarrow> Some (esp, k)
      | Some i \<Rightarrow>
          if p_state (proc k i) \<noteq> PROCESS_RUNNING then Some (esp, k)
          else if esp = 0 \<or> get_field esp CS k AND 3 \<noteq> 3 then Some (esp, k)
          else if p_pending_signals (proc k i) AND signal_bit SIGKILL \<noteq> 0 then
            let (esp, k) = deliver_kill i SIGKILL esp k in deliver esp k
          else if p_pending_signals (proc k i) AND signal_bit SIGTERM \<noteq> 0 then
            let (esp, k) = deliver_kill i SIGTERM esp k in deliver esp k
          else if p_pending_signals (proc k i) AND signal_bit SIGCHLD \<noteq> 0 then
            deliver esp
              (set_proc i (\<lambda>p. p\<lparr>p_pending_signals := p_pending_signals p AND NOT (signal_bit SIGCHLD)\<rparr>) k)
          else Some (esp, k)) = Some r"
    show "balanced ex (snd r)"
    proof (cases "process_get_current k")
      case (Some i)
      have i: "i < 16" using get_current_alive [OF Some] by simp
      have c: "balanced ex (set_proc i (\<lambda>p. p\<lparr>p_pending_signals := p_pending_signals p AND NOT (signal_bit SIGCHLD)\<rparr>) k)"
        using balanced_tables [OF b] by (intro balanced_quiet [OF b] quiet_intros) (simp_all add: mild_def)
      have "balanced ex (snd r)" if "deliver x y = Some r" "balanced ex y" for x y using IH that by blast
      then show ?thesis
        using step Some b c balanced_deliver_kill [OF b i]
        by (auto simp: split_beta Let_def split: if_splits)
    qed (use step b in auto)
  qed
  then show ?thesis using assms(2) by blast
qed

end
