(* ===== verification/Fd_Calls.thy ===== *)
theory Fd_Calls
  imports Fd_Lifecycle Syscall_Handle
begin

text \<open>
  Every system call keeps descriptors and reference counts in balance: what the file system, the program loader and the
  calls of \<^verbatim>\<open>syscall.c\<close> do to the counts, up to the whole of \<^verbatim>\<open>syscall_handle\<close>.
\<close>

section \<open>Open files\<close>

text \<open>A failing operation of the file system returns a negative status, whatever the device does.\<close>

lemma normalize_loop_status: "fst (normalize_loop name n out) \<le> 0"
  by (induction name n out rule: normalize_loop.induct) (simp add: normalize_loop.simps vfs_errors)

lemma normalize_path_status: "fst (simplefs_normalize_path path) \<le> 0"
  by (simp add: simplefs_normalize_path_def split_beta Let_def normalize_loop_status vfs_errors split: option.split)

lemma read_entry_status: "fst (simplefs_read_entry i s) \<le> 0"
  by (simp add: simplefs_read_entry_def split_beta Let_def vfs_errors)

lemma write_entry_status: "fst (simplefs_write_entry i e s) \<le> 0"
  by (simp add: simplefs_write_entry_def split_beta Let_def vfs_errors)

lemma find_entry_status: "fst (simplefs_find_entry name s) \<le> 0"
proof -
  have "fst (find_entry_in is name s) \<le> 0" for "is"
    by (induction "is")
      (simp_all add: split_beta Let_def vfs_errors read_entry_status [unfolded vfs_errors])
  then show ?thesis by (simp add: simplefs_find_entry_def)
qed

lemma find_free_status: "fst (simplefs_find_free_entry s) \<le> 0"
proof -
  have "fst (find_free_in is s) \<le> 0" for "is"
    by (induction "is")
      (simp_all add: split_beta Let_def vfs_errors read_entry_status [unfolded vfs_errors])
  then show ?thesis by (simp add: simplefs_find_free_entry_def)
qed

lemma simplefs_open_status: "fst (simplefs_open path flags s) \<le> 0"
  by (simp add: simplefs_open_def split_beta Let_def vfs_errors normalize_path_status find_entry_status find_free_status
      write_entry_status)

lemma copy_path_status: "fst (vfs_copy_path path) \<le> 0"
proof -
  have "fst (copy_path_loop p i out) \<le> 0" for p i out
    by (induction p i out rule: copy_path_loop.induct) (simp add: copy_path_loop.simps vfs_errors)
  then show ?thesis by (simp add: vfs_copy_path_def vfs_errors split: option.split)
qed

lemma vfs_open_cases:
  assumes "vfs_open path flags v = (fd, v')"
  obtains "fd < 0" "vfs_open_files v' = vfs_open_files v"
  | n p where "fd = int n" "n < 16" "\<not> of_used (vfs_open_files v ! n)"
      "vfs_open_files v' = (vfs_open_files v)[n := \<lparr>of_used = True, of_refs = 1, of_path = p, of_flags = flags, of_offset = 0\<rparr>]"
proof -
  let ?st = "fst (vfs_copy_path path)" and ?p = "snd (vfs_copy_path path)"
  let ?o = "simplefs_open (Some (cstr_at ?p)) flags (vfs_fs v)"
  have st: "?st \<le> 0" "fst ?o \<le> 0" by (rule copy_path_status simplefs_open_status)+
  show ?thesis
  proof (cases "\<not> vfs_mounted v \<or> \<not> vfs_flags_valid flags \<or> ?st \<noteq> 0 \<or> vfs_alloc_fd v < 0 \<or> fst ?o \<noteq> 0")
    case True
    then have "fd < 0" "vfs_open_files v' = vfs_open_files v"
      using assms st by (auto simp: vfs_open_def Let_def split_beta vfs_errors split: if_splits)
    then show ?thesis by (rule that(1))
  next
    case False
    show ?thesis
    proof (cases rule: alloc_fd_cases [of v])
      case (1 n)
      then show ?thesis using assms False that(2) [of n] by (auto simp: vfs_open_def Let_def split_beta vfs_errors)
    qed (use False in \<open>simp add: vfs_errors\<close>)
  qed
qed

text \<open>The counts depend on the table of open files only.\<close>

lemma vfs_refs_table:
  assumes "vfs_open_files v' = vfs_open_files v"
  shows "vfs_refs v' = vfs_refs v" "vfs_table_ok v' = vfs_table_ok v"
  using assms by (auto simp: vfs_refs_def vfs_fd_valid_def vfs_table_ok_def fun_eq_iff)

lemma vfs_open_refs:
  assumes "vfs_table_ok v" and "vfs_open path flags v = (fd, v')"
  shows "vfs_table_ok v' \<and> (if fd < 0 then vfs_refs v' = vfs_refs v
    else vfs_refs v fd = 0 \<and> vfs_refs v' = (vfs_refs v)(fd := 1))"
  using assms(2)
proof (cases rule: vfs_open_cases)
  case 1
  then show ?thesis using assms(1) vfs_refs_table [of v' v] by simp
next
  case (2 n p)
  let ?f = "\<lparr>of_used = True, of_refs = 1, of_path = p, of_flags = flags, of_offset = 0\<rparr>"
  let ?v = "v\<lparr>vfs_open_files := (vfs_open_files v)[n := ?f]\<rparr>"
  have eq: "vfs_refs v' = vfs_refs ?v" "vfs_table_ok v' = vfs_table_ok ?v" using 2(4) by (intro vfs_refs_table; simp)+
  have ok: "vfs_table_ok ?v" using assms(1) by (rule vfs_table_update) (simp add: file_ok_def)
  have "vfs_refs ?v h = ((vfs_refs v)(fd := 1)) h" for h
    using vfs_refs_eq [OF ok, of h] vfs_refs_eq [OF assms(1), of h] assms(1) 2(1,2)
    by (auto simp: vfs_table_ok_def nth_list_update nat_eq_iff)
  then have "vfs_refs ?v = (vfs_refs v)(fd := 1)" by blast
  then show ?thesis using ok eq 2(1-3) by (simp add: vfs_refs_def vfs_fd_valid_def)
qed

lemma advance_offset_refs:
  assumes "vfs_table_ok v"
  shows "vfs_table_ok (advance_offset fd st v) \<and> vfs_refs (advance_offset fd st v) = vfs_refs v"
proof -
  let ?f = "vfs_open_files v ! nat fd"
  let ?g = "?f\<lparr>of_offset := of_offset ?f + of_int st\<rparr>"
  let ?v = "v\<lparr>vfs_open_files := (vfs_open_files v)[nat fd := ?g]\<rparr>"
  have len: "length (vfs_open_files v) = 16" using assms by (simp add: vfs_table_ok_def)
  have nth: "of_used (vfs_open_files ?v ! j) = of_used (vfs_open_files v ! j)"
      "of_refs (vfs_open_files ?v ! j) = of_refs (vfs_open_files v ! j)" if "j < 16" for j
    using that len by (cases "j = nat fd"; simp)+
  have "vfs_table_ok ?v" using assms nth len by (auto simp: vfs_table_ok_def file_ok_def all_set_conv_all_nth)
  moreover have "vfs_refs ?v h = vfs_refs v h" for h
    using vfs_refs_eq [OF assms, of h] vfs_refs_eq [OF \<open>vfs_table_ok ?v\<close>, of h] nth(2) [of "nat h"]
    by (auto simp: nat_less_iff)
  ultimately show ?thesis using assms by (simp add: advance_offset_def Let_def fun_eq_iff)
qed

lemma vfs_read_refs:
  "vfs_table_ok v \<Longrightarrow> vfs_table_ok (snd (snd (vfs_read fd ok n v))) \<and> vfs_refs (snd (snd (vfs_read fd ok n v))) = vfs_refs v"
  by (simp add: vfs_read_def Let_def split_beta advance_offset_refs)

lemma vfs_write_refs:
  assumes "vfs_table_ok v"
  shows "vfs_table_ok (snd (vfs_write fd src n v)) \<and> vfs_refs (snd (vfs_write fd src n v)) = vfs_refs v"
proof -
  have "vfs_table_ok (v\<lparr>vfs_fs := s\<rparr>)" "vfs_refs (v\<lparr>vfs_fs := s\<rparr>) = vfs_refs v" for s
    using assms vfs_refs_table [of "v\<lparr>vfs_fs := s\<rparr>" v] by simp_all
  then show ?thesis using assms by (simp add: vfs_write_def Let_def split_beta advance_offset_refs)
qed

section \<open>Loading a program\<close>

lemma read_file_loop_refs:
  assumes "vfs_table_ok v" and "0 < vfs_refs v fd"
  shows "vfs_table_ok (snd (snd (read_file_loop fd sz n buf v))) \<and>
    vfs_refs (snd (snd (read_file_loop fd sz n buf v))) = (vfs_refs v)(fd := vfs_refs v fd - 1)"
  using assms
proof (induction fd sz n buf v rule: read_file_loop.induct)
  case (1 fd sz n buf v)
  obtain c d v1 where r: "vfs_read fd True (of_nat (sz - n)) v = (c, d, v1)" by (metis prod.collapse)
  have v1: "vfs_table_ok v1" "vfs_refs v1 = vfs_refs v" using vfs_read_refs [OF 1(2), of fd True "of_nat (sz - n)"] r by auto
  have cl: "vfs_table_ok (snd (vfs_close fd t)) \<and> vfs_refs (snd (vfs_close fd t)) = (vfs_refs v)(fd := vfs_refs v fd - 1)"
    if "vfs_table_ok t" "vfs_refs t = vfs_refs v" for t :: "'a vfs"
    using vfs_files.close_referenced [OF that(1), of fd] that(2) 1(3) by auto
  show ?case
  proof (cases "n < sz \<and> 0 < c")
    case True
    then show ?thesis
      using 1(1) [OF _ r [symmetric] refl] v1 1(3) r by (simp add: read_file_loop.simps [of fd sz n])
  next
    case False
    then show ?thesis
      using cl [OF v1] cl [OF 1(2)] r by (auto simp: read_file_loop.simps [of fd sz n] split_beta)
  qed
qed

lemma read_file_refs:
  assumes "vfs_table_ok v"
  shows "vfs_table_ok (snd (snd (read_file_into_buffer path v))) \<and>
    vfs_refs (snd (snd (read_file_into_buffer path v))) = vfs_refs v"
proof -
  obtain fd v1 where o: "vfs_open path VFS_O_RDONLY v = (fd, v1)" by force
  note op = vfs_open_refs [OF assms(1) o]
  have "vfs_table_ok (snd (snd (read_file_loop fd n 0 [] v1))) \<and>
      vfs_refs (snd (snd (read_file_loop fd n 0 [] v1))) = vfs_refs v" if "\<not> fd < 0" for n
    using read_file_loop_refs [of v1 fd n 0 "[]"] op that by (auto simp: fun_eq_iff)
  then show ?thesis
    unfolding read_file_into_buffer_def Let_def using assms(1) o op
    by (auto simp: split_beta)
qed

lemma quiet_elf_load [quiet_intros]:
  assumes "quiet a k"
  shows "quiet a (snd (snd (elf_load_from_vfs path ok k)))"
proof -
  obtain st buf v where r: "read_file_into_buffer path (k_vfs k) = (st, buf, v)" by (metis prod.collapse)
  have "vfs_table_ok (k_vfs k)" using assms by (simp add: quiet_def tables_ok_def)
  then have "quiet a (k\<lparr>k_vfs := v\<rparr>)"
    using read_file_refs [of "k_vfs k" path] r assms by (intro quiet_new_vfs) auto
  then show ?thesis using assms r by (simp add: elf_load_from_vfs_def Let_def split_beta quiet_updates)
qed

lemma quiet_elf_load_into [quiet_intros]: "quiet a k \<Longrightarrow> quiet a (snd (snd (elf_load_from_vfs_into d path ok k)))"
  by (auto simp: elf_load_from_vfs_into_def Let_def split_beta intro!: quiet_intros)

lemma quiet_user_string [quiet_intros]: "quiet a k \<Longrightarrow> quiet a (snd (snd (syscall_copy_user_string p n k)))"
proof -
  have "quiet a k \<Longrightarrow> quiet a (snd (snd (copy_string_loop m src d k)))" for m src d and k :: "'a kernel"
    by (induction m arbitrary: src d k) (simp_all add: split_beta Let_def quiet_copy_from_user)
  then show "quiet a k \<Longrightarrow> quiet a (snd (snd (syscall_copy_user_string p n k)))"
    by (simp add: syscall_copy_user_string_def copy_string_from_user_def split_beta Let_def)
qed

lemma quiet_copy_vector [quiet_intros]: "quiet a k \<Longrightarrow> quiet a (snd (snd (exec_copy_vector ev p env k)))"
proof -
  have str: "quiet a k \<Longrightarrow> quiet a (snd (snd (exec_copy_string m p ev k)))" for m p ev and k :: "'a kernel"
    by (induction m arbitrary: p ev k) (simp_all add: split_beta Let_def quiet_copy_from_user)
  have "quiet a k \<Longrightarrow> quiet a (snd (snd (exec_copy_slots is p env ev k)))" for "is" p env ev and k :: "'a kernel"
    by (induction "is" arbitrary: p env ev k)
      (simp_all add: split_beta Let_def quiet_copy_from_user str)
  then show "quiet a k \<Longrightarrow> quiet a (snd (snd (exec_copy_vector ev p env k)))"
    by (simp add: exec_copy_vector_def Let_def)
qed

lemma quiet_exec_build [quiet_intros]: "quiet a k \<Longrightarrow> quiet a (snd (exec_build ev path k))"
  by (auto simp: exec_build_def Let_def split_beta intro!: quiet_intros split: option.split)

lemma quiet_exec_free [quiet_intros]: "quiet a k \<Longrightarrow> quiet a (exec_free v k)"
  by (simp add: exec_free_def quiet_updates)

lemma quiet_exec_frame [quiet_intros]: "quiet a k \<Longrightarrow> quiet a (exec_set_frame c f e sp k)"
  by (simp add: exec_set_frame_def quiet_updates)

section \<open>System calls\<close>

named_theorems balanced_intros \<open>operations that keep descriptors and counts in balance\<close>

lemma quiet_user_writable [quiet_intros]: "quiet a k \<Longrightarrow> quiet a (snd (is_user_pointer_writable p n k))"
  by (simp add: is_user_pointer_writable_def split_beta Let_def quiet_prepare_write)

lemma quiet_k_vfs_read [quiet_intros]:
  assumes "quiet a k"
  shows "quiet a (snd (k_vfs_read h buf n k))"
proof -
  have "vfs_table_ok (k_vfs k)" using assms by (simp add: quiet_def tables_ok_def)
  then have "quiet a (k\<lparr>k_vfs := snd (snd (vfs_read h (buf \<noteq> 0) n (k_vfs k)))\<rparr>)"
    using vfs_read_refs assms by (intro quiet_new_vfs) auto
  then show ?thesis by (simp add: k_vfs_read_def split_beta Let_def quiet_updates)
qed

lemma quiet_k_vfs_write [quiet_intros]:
  assumes "quiet a k"
  shows "quiet a (snd (k_vfs_write h buf n k))"
proof -
  have "vfs_table_ok (k_vfs k)" using assms by (simp add: quiet_def tables_ok_def)
  then have "quiet a (k\<lparr>k_vfs := snd (vfs_write h src n (k_vfs k))\<rparr>)" for src
    using vfs_write_refs assms by (intro quiet_new_vfs) auto
  then show ?thesis by (simp add: k_vfs_write_def split_beta Let_def quiet_updates)
qed

lemma quiet_block_current [quiet_intros]: "quiet a k \<Longrightarrow> quiet a (snd (scheduler_block_current esp k))"
  by (simp add: scheduler_block_current_def quiet_stop)

lemma quiet_exit_current [quiet_intros]: "quiet a k \<Longrightarrow> quiet a (snd (scheduler_exit_current esp k))"
  by (simp add: scheduler_exit_current_def quiet_stop)

lemma quiet_waiting [quiet_intros]:
  "quiet a k \<Longrightarrow> quiet a (process_begin_waitpid pr st t k)" "quiet a k \<Longrightarrow> quiet a (process_begin_wait pr st k)"
  "quiet a k \<Longrightarrow> quiet a (process_cancel_wait pr k)" "quiet a k \<Longrightarrow> quiet a (process_begin_pipe_wait pr re fd buf n k)"
  by (simp_all add: process_begin_wait_def process_begin_waitpid_def process_cancel_wait_def process_begin_pipe_wait_def
      quiet_set_proc mild_def split: option.split)

lemma quiet_block_on_pipe [quiet_intros]: "quiet a k \<Longrightarrow> quiet a (snd (snd (block_on_pipe i re fd buf n c k)))"
  by (auto simp: block_on_pipe_def split_beta Let_def mild_def intro!: quiet_intros)

lemma quiet_block_for_child [quiet_intros]: "quiet a k \<Longrightarrow> quiet a (snd (snd (block_for_child i c k)))"
  by (auto simp: block_for_child_def split_beta Let_def intro!: quiet_intros)

lemma quiet_calls [quiet_intros]:
  "quiet a k \<Longrightarrow> quiet a (snd (snd (syscall_read fd buf n cs c k)))"
  "quiet a k \<Longrightarrow> quiet a (snd (snd (syscall_write fd buf n cs c k)))"
  "quiet a k \<Longrightarrow> quiet a (snd (syscall_stat p st cs k))"
  "quiet a k \<Longrightarrow> quiet a (snd (sys_puts p k))" "quiet a k \<Longrightarrow> quiet a (snd (sys_getchar k))"
  "quiet a k \<Longrightarrow> quiet a (snd (sys_kill pid s k))"
  by (auto simp: syscall_read_def syscall_write_def syscall_stat_def sys_puts_def sys_getchar_def sys_kill_def
      split_beta Let_def intro!: quiet_intros split: option.split)

lemma quiet_brk [quiet_intros]: "quiet a k \<Longrightarrow> quiet a (snd (sys_brk n k))"
  by (auto simp: sys_brk_def Let_def mild_def intro!: quiet_intros split: option.split)

lemma balanced_stays:
  assumes "balanced ex k" and "tables_ok k \<Longrightarrow> quiet k k'"
  shows "balanced ex k'"
  using assms balanced_quiet balanced_tables by blast

lemma balanced_exec [balanced_intros]:
  assumes "balanced ex k"
  shows "balanced ex (snd (syscall_exec p av ev cs fr c k))"
proof -
  have commit: "balanced ex (exec_commit i cr3 e sp t)" if "balanced ex t" "i < 16" for i cr3 e sp and t :: "'a kernel"
  proof -
    have "balanced ex (process_fd_close_on_exec (Some i) t)" using balanced_close_on_exec [OF that] by blast
    then show ?thesis unfolding exec_commit_def Let_def
      by (rule balanced_stays) (auto intro: quiet_set_proc quiet_refl simp: mild_def)
  qed
  define st where "st = (if \<not> is_user_pointer_valid p 1 k then (VFS_EINVAL, [], k)
    else syscall_copy_user_string p (of_nat VFS_MAX_PATH) k)"
  have b1: "balanced ex (snd (snd st))"
    unfolding st_def using assms by (auto intro: balanced_stays quiet_intros)
  show ?thesis
  proof (cases "\<not> is_ring3 cs \<or> fr = 0 \<or> process_get_current k = None \<or> fst st \<noteq> VFS_SUCCESS \<or>
      kmalloc EXEC_VECTORS_SIZE (k_heap (snd (snd st))) = None")
    case True
    have "balanced ex ((snd (snd st))\<lparr>k_hung := True\<rparr>)" using b1 by (auto intro: balanced_stays quiet_intros)
    then show ?thesis
      unfolding syscall_exec_def st_def [symmetric] using True assms b1
      by (auto simp: split_beta split: option.split)
  next
    case False
    then obtain i vec h where i: "process_get_current k = Some i" "kmalloc EXEC_VECTORS_SIZE (k_heap (snd (snd st))) = Some (vec, h)"
      by auto
    let ?k2 = "(snd (snd st))\<lparr>k_heap := h\<rparr>"
    let ?r3 = "exec_copy_vector zero_vectors av False ?k2"
    let ?k3 = "snd (snd ?r3)"
    let ?r4 = "exec_copy_vector (fst (snd ?r3)) ev True ?k3"
    let ?k4 = "snd (snd ?r4)"
    obtain res k5 where k5: "exec_build (fst (snd ?r4)) (fst (snd st)) ?k4 = (res, k5)" by force
    have b2: "balanced ex ?k2" using b1 by (auto intro: balanced_stays quiet_intros)
    then have b3: "balanced ex ?k3" by (auto intro: balanced_stays quiet_intros)
    then have b4: "balanced ex ?k4" by (auto intro: balanced_stays quiet_intros)
    then have b5: "balanced ex k5" using k5 quiet_exec_build [OF quiet_refl, of ?k4] balanced_stays [OF b4, of k5] by (metis snd_conv)
    have free: "balanced ex (exec_free vec t)" if "balanced ex t" for t :: "'a kernel"
      using that by (auto intro: balanced_stays quiet_intros)
    have "balanced ex (k5\<lparr>k_serial := x\<rparr>)" for x using b5 by (auto intro: balanced_stays quiet_intros)
    then have com: "balanced ex (exec_commit i cr3 e sp (k5\<lparr>k_serial := x\<rparr>))" for cr3 e sp x
      using commit get_current_alive [OF i(1)] by blast
    have "balanced ex (exec_set_frame c fr e sp (set_mmu f (exec_free vec (exec_commit i cr3 e sp (k5\<lparr>k_serial := x\<rparr>)))))"
      for cr3 e sp x f
      by (rule balanced_stays [OF com [of cr3 e sp x]]) (intro quiet_intros)
    then show ?thesis
      unfolding syscall_exec_def st_def [symmetric] using False i b2 free b3 b4 b5 k5
      by (auto simp: split_beta Let_def split: sum.split)
  qed
qed

lemma balanced_open [balanced_intros]:
  assumes "balanced ex k"
  shows "balanced ex (snd (syscall_open p flags cs k))"
proof -
  let ?s = "syscall_copy_user_string p (of_nat VFS_MAX_PATH) k"
  let ?k1 = "snd (snd ?s)"
  have q: "quiet k ?k1" using balanced_tables [OF assms] by (intro quiet_intros)
  have b1: "balanced ex ?k1" using balanced_quiet [OF assms q] .
  then have v1: "vfs_table_ok (k_vfs ?k1)" by (simp add: balanced_def)
  obtain h v where o: "vfs_open (Some (cstr_at (fst (snd ?s)))) (vfs_flags_of flags) (k_vfs ?k1) = (h, v)" by force
  note op = vfs_open_refs [OF v1 o]
  show ?thesis
  proof (cases "\<not> is_ring3 cs \<or> flags AND NOT (SYS_O_RDWR OR SYS_O_CREAT OR SYS_O_TRUNC OR SYS_O_CLOEXEC) \<noteq> 0 \<or>
      process_get_current k = None \<or> fst ?s \<noteq> VFS_SUCCESS \<or> h < 0")
    case True
    have "balanced ex (?k1\<lparr>k_vfs := v\<rparr>)" if "h < 0" using op that by (intro balanced_new_vfs [OF b1]) auto
    then show ?thesis
      using True assms b1 o by (auto simp: syscall_open_def split_beta Let_def split: option.split)
  next
    case False
    then obtain i where i: "process_get_current k = Some i" by auto
    let ?k2 = "?k1\<lparr>k_vfs := v\<rparr>" and ?fl = "if flags AND SYS_O_CLOEXEC \<noteq> 0 then PROCESS_FD_CLOEXEC else 0"
    have b2: "balanced (plus_one ex False h) ?k2"
      using op False by (intro balanced_new_vfs [OF b1]) (auto simp: plus_one_def)
    have "alive i ?k2" using quiet_alive [OF q] get_current_alive [OF i] by (simp add: alive_def)
    moreover obtain fd k3 where k3: "process_fd_install_typed (Some i) PROCESS_FD_VFS h ?fl ?k2 = (fd, k3)" by force
    ultimately have "fd < 0 \<and> k3 = ?k2 \<or> 0 \<le> fd \<and> balanced ex k3"
      using balanced_install [of ex PROCESS_FD_VFS h ?k2 i ?fl] b2 by (auto simp: pipe_kind_def)
    moreover have "balanced ex (snd (k_vfs_close h ?k2))" using balanced_k_vfs_close [OF b2] by auto
    ultimately show ?thesis
      using False i o k3 by (auto simp: syscall_open_def split_beta Let_def process_fd_install_def)
  qed
qed

lemma balanced_close [balanced_intros]:
  assumes "balanced ex k"
  shows "balanced ex (snd (syscall_close fd cs k))"
proof -
  have "slot_ok (process_get_current k)" using get_current_alive [of k] by (cases "process_get_current k") auto
  then show ?thesis
    using assms balanced_fd_close [OF assms] by (simp add: syscall_close_def split_beta Let_def)
qed

lemma balanced_sys_exit [balanced_intros]:
  assumes "balanced ex k"
  shows "balanced ex (snd (snd (sys_exit code c k)))"
proof (cases "process_get_current k")
  case (Some i)
  have b: "balanced ex (process_mark_exit (Some i) code k)"
    using balanced_mark_exit [OF assms, of i] get_current_alive [OF Some] by blast
  then have "balanced ex (snd (scheduler_exit_current esp (process_mark_exit (Some i) code k)))" for esp
    by (rule balanced_stays) (intro quiet_intros)
  then show ?thesis using Some assms by (simp add: sys_exit_def split_beta Let_def)
qed (use assms in \<open>simp add: sys_exit_def\<close>)

lemma balanced_reap_child:
  assumes "balanced ex k" and "child < 16"
  shows "balanced ex (snd (snd (reap_child child k)))"
proof -
  have "balanced ex (set_proc child (\<lambda>p. p\<lparr>p_waited := True\<rparr>) k)"
    using assms(1) by (rule balanced_stays) (auto intro: quiet_set_proc quiet_refl simp: mild_def)
  then show ?thesis using balanced_destroy assms(2) by (simp add: reap_child_def Let_def)
qed

lemma exited_child_slot: "process_find_exited_child_by_pid pid t k = Some c \<Longrightarrow> c < 16"
  by (auto simp: process_find_exited_child_by_pid_def first_index_Some_iff MAX_PROCESSES_def split: if_splits)

lemma balanced_sys_wait [balanced_intros]:
  assumes "balanced ex k"
  shows "balanced ex (snd (snd (sys_wait st c k)))"
proof (cases "process_get_current k")
  case (Some i)
  obtain ok k1 where r: "(if st \<noteq> 0 then is_user_pointer_writable st 4 k else (True, k)) = (ok, k1)" by force
  have "k1 = snd (if st \<noteq> 0 then is_user_pointer_writable st 4 k else (True, k))" using r by simp
  then have b: "balanced ex k1" using assms by (auto intro: balanced_stays quiet_intros)
  have m: "balanced ex (set_mmu f k1)" for f using b by (rule balanced_stays) (intro quiet_intros)
  have w: "balanced ex (snd (snd (block_for_child i c (process_begin_wait (Some i) st k1))))"
    using b by (rule balanced_stays) (intro quiet_intros)
  have "balanced ex (snd (snd (reap_child ch t)))"
    if "process_find_exited_child pid k1 = Some ch" "balanced ex t" for ch pid t
    using that balanced_reap_child exited_child_slot unfolding process_find_exited_child_def by blast
  then show ?thesis
    unfolding sys_wait_def Some option.case r using b m w
    by (auto simp: Let_def split: option.split)
qed (use assms in \<open>simp add: sys_wait_def\<close>)

lemma balanced_sys_waitpid [balanced_intros]:
  assumes "balanced ex k"
  shows "balanced ex (snd (snd (sys_waitpid t st opt c k)))"
proof (cases "process_get_current k")
  case (Some i)
  obtain ok k1 where r: "(if st \<noteq> 0 then is_user_pointer_writable st 4 k else (True, k)) = (ok, k1)" by force
  have "k1 = snd (if st \<noteq> 0 then is_user_pointer_writable st 4 k else (True, k))" using r by simp
  then have b: "balanced ex k1" using assms by (auto intro: balanced_stays quiet_intros)
  have u: "balanced ex (snd (copy_to_user st d 4 k1))" for d using b by (rule balanced_stays) (intro quiet_intros)
  have "quiet k1 (process_begin_waitpid (Some i) st t k1)" using balanced_tables [OF b] by (intro quiet_intros)
  then have "quiet k1 (set_proc i (\<lambda>p. p\<lparr>p_wait_is_waitpid := True\<rparr>) (process_begin_waitpid (Some i) st t k1))"
    by (rule quiet_set_proc) (simp add: mild_def)
  then have w: "balanced ex (snd (snd (block_for_child i c (set_proc i (\<lambda>p. p\<lparr>p_wait_is_waitpid := True\<rparr>)
      (process_begin_waitpid (Some i) st t k1)))))"
    using balanced_quiet [OF b] quiet_block_for_child by blast
  have "balanced ex (snd (snd (reap_child ch t')))"
    if "process_find_exited_child_by_pid pid t k1 = Some ch" "balanced ex t'" for ch pid t'
    using that balanced_reap_child exited_child_slot by blast
  then show ?thesis
    unfolding sys_waitpid_def Some option.case r using assms b u w
    by (auto simp: split_beta Let_def split: option.split)
qed (use assms in \<open>simp add: sys_waitpid_def\<close>)

lemma balanced_sys_fork [balanced_intros]:
  assumes "balanced ex k"
  shows "balanced ex (snd (snd (sys_fork c k)))"
proof (cases "process_get_current k")
  case (Some i)
  obtain r k1 where f: "process_fork (Some i) (the c) k = (r, k1)" by force
  have b: "balanced ex k1" "slot_ok r" using balanced_fork [OF assms _ f] get_current_alive [OF Some] by auto
  have "balanced ex (scheduler_add r k1)" using b(1)
    by (rule balanced_stays) (use b(2) in \<open>auto simp: scheduler_add_def intro: quiet_enqueue quiet_refl split: option.split\<close>)
  then show ?thesis using Some assms f b by (auto simp: sys_fork_def split_beta Let_def split: option.split)
qed (use assms in \<open>simp add: sys_fork_def\<close>)

text \<open>A new pipe: both its ends have one reference, which the call holds until the descriptors are installed.\<close>

lemma pipe_create_refs:
  assumes "pipes_ok ps" and "pipe_create True ps = (0, Some (rh, wh), ps')"
  shows "pipes_ok ps' \<and> pipe_refs (ps', ()) h = pipe_refs (ps, ()) h + of_bool (h = rh) + of_bool (h = wh)"
proof -
  let ?p = "zero_pipe\<lparr>pipe_used := True, readers := 1, writers := 1\<rparr>"
  obtain i where i: "i < 8" "\<not> pipe_used (ps ! i)" "rh = 256 + int i * 2" "wh = 257 + int i * 2" "ps' = ps[i := ?p]"
    using assms(2) by (auto simp: pipe_create_def pipe_consts first_index_Some_iff split: option.splits)
  have len: "length ps = 8" using assms(1) by (simp add: pipes_ok_def)
  have zero: "readers (ps ! i) = 0" "writers (ps ! i) = 0"
    using pipes_ok_nth [OF assms(1) i(1)] i(2) by (auto simp: pipe_ok_def)
  have ok: "pipes_ok ps'" unfolding i(5) by (rule pipes_ok_update [OF assms(1)]) (simp add: pipe_ok_def zero_pipe_def)
  have ends: "handle_slot rh = i" "handle_slot wh = i" "pipe_handle_is_read rh" "\<not> pipe_handle_is_read wh"
    using i(3,4) by (auto simp: handle_slot_def pipe_handle_is_read_def pipe_consts)
  have refs: "pipe_refs (ps', ()) h = (if 256 \<le> h \<and> handle_slot h < 8 then end_count (ps' ! handle_slot h) h else 0)"
      "pipe_refs (ps, ()) h = (if 256 \<le> h \<and> handle_slot h < 8 then end_count (ps ! handle_slot h) h else 0)"
    using pipe_refs_eq [of "(ps', ())" h] pipe_refs_eq [of "(ps, ())" h] ok assms(1) by simp_all
  show ?thesis
  proof (cases "256 \<le> h \<and> handle_slot h = i")
    case True
    then have "h = rh \<longleftrightarrow> pipe_handle_is_read h" "h = wh \<longleftrightarrow> \<not> pipe_handle_is_read h"
      using same_slot_same_end [of h rh] same_slot_same_end [of h wh] ends i(3,4) by auto
    then show ?thesis using True ok refs i(1,5) len zero by (auto simp: end_count_def)
  next
    case False
    then have "h \<noteq> rh" "h \<noteq> wh" using ends i(3,4) by auto
    then show ?thesis using False ok refs i(5) by auto
  qed
qed

lemma balanced_pipe_create:
  assumes "balanced ex k" and "pipe_create True (k_pipes k) = (0, Some (rh, wh), ps)"
  shows "balanced (plus_one (plus_one ex True wh) True rh) (k\<lparr>k_pipes := ps\<rparr>)"
proof -
  have "pipes_ok (k_pipes k)" using assms(1) by (simp add: balanced_def)
  note refs = pipe_create_refs [OF this assms(2)]
  show ?thesis using refs by (intro balanced_new_pipes [OF assms(1)]) (auto simp: plus_one_def)
qed

lemma balanced_pipe_install:
  assumes "balanced (plus_one (plus_one ex True wh) True rh) k" and "alive i k"
  shows "balanced ex (snd (pipe_install i ro wo rh wh k))"
proof -
  have kinds: "pipe_kind PROCESS_FD_PIPE_READ" "pipe_kind PROCESS_FD_PIPE_WRITE" by (simp_all add: pipe_kind_def)
  obtain rfd k1 where k1: "process_fd_install_typed (Some i) PROCESS_FD_PIPE_READ rh 0 k = (rfd, k1)" by force
  have i1: "rfd < 0 \<and> k1 = k \<or> 0 \<le> rfd \<and> balanced (plus_one ex True wh) k1 \<and> keeps_alive k k1"
    using balanced_install [of "plus_one ex True wh" PROCESS_FD_PIPE_READ rh k i 0 rfd k1] assms k1 kinds by auto
  show ?thesis
  proof (cases "rfd < 0")
    case True
    have "balanced ex (snd (k_pipe_close wh (snd (k_pipe_close rh k))))"
      using balanced_k_pipe_close [OF assms(1)] balanced_k_pipe_close [of ex wh] by force
    then show ?thesis using True i1 k1 by (simp add: pipe_install_def)
  next
    case False
    then have b1: "balanced (plus_one ex True wh) k1" "alive i k1" using i1 assms(2) by (auto simp: keeps_alive_def)
    have i: "i < 16" using assms(2) by (simp add: alive_def)
    obtain wfd k2 where k2: "process_fd_install_typed (Some i) PROCESS_FD_PIPE_WRITE wh 0 k1 = (wfd, k2)" by force
    have i2: "wfd < 0 \<and> k2 = k1 \<or> 0 \<le> wfd \<and> balanced ex k2"
      using balanced_install [of ex PROCESS_FD_PIPE_WRITE wh k1 i 0 wfd k2] b1 k2 kinds by auto
    show ?thesis
    proof (cases "wfd < 0")
      case True
      have "balanced (plus_one ex True wh) (snd (process_fd_close (Some i) rfd k1))"
        using balanced_fd_close [OF b1(1), of "Some i"] i by simp
      then have "balanced ex (snd (k_pipe_close wh (snd (process_fd_close (Some i) rfd k1))))"
        using balanced_k_pipe_close by force
      then show ?thesis using True False i2 k1 k2 by (simp add: pipe_install_def)
    next
      case w: False
      obtain r3 k3 where k3: "copy_to_user ro (Some (le32 (of_int rfd))) 4 k2 = (r3, k3)" by force
      obtain r4 k4 where k4: "(if r3 \<noteq> UACCESS_SUCCESS then (r3, k3) else copy_to_user wo (Some (le32 (of_int wfd))) 4 k3) = (r4, k4)"
        by force
      have b2: "balanced ex k2" using i2 w by simp
      have "k3 = snd (copy_to_user ro (Some (le32 (of_int rfd))) 4 k2)" using k3 by simp
      then have b3: "balanced ex k3" using b2 by (auto intro: balanced_stays quiet_intros)
      have "k4 = k3 \<or> k4 = snd (copy_to_user wo (Some (le32 (of_int wfd))) 4 k3)" using k4 by (auto split: if_splits)
      then have b4: "balanced ex k4" using b3 by (auto intro: balanced_stays quiet_intros)
      have "balanced ex (snd (process_fd_close (Some i) wfd (snd (process_fd_close (Some i) rfd k4))))"
        using balanced_fd_close [OF conjunct1 [OF balanced_fd_close [OF b4, of "Some i" rfd]], of "Some i" wfd] i by simp
      then show ?thesis unfolding pipe_install_def k1 Let_def prod.case k2 k3 k4 using False w b4 by simp
    qed
  qed
qed

lemma balanced_sys_pipe [balanced_intros]:
  assumes "balanced ex k"
  shows "balanced ex (snd (sys_pipe ro wo k))"
proof (cases "process_get_current k")
  case (Some i)
  obtain ok1 k1 where k1: "(if ro = 0 then (False, k) else is_user_pointer_writable ro 4 k) = (ok1, k1)" by force
  obtain ok k2 where k2: "(if \<not> ok1 \<or> wo = 0 then (False, k1) else is_user_pointer_writable wo 4 k1) = (ok, k2)" by force
  have "k1 = k \<or> k1 = snd (is_user_pointer_writable ro 4 k)" "k2 = k1 \<or> k2 = snd (is_user_pointer_writable wo 4 k1)"
    using k1 k2 by (auto split: if_splits)
  then have q: "quiet k k2" using balanced_tables [OF assms] by (auto intro: quiet_intros)
  have b2: "balanced ex k2" using balanced_quiet [OF assms q] .
  obtain r hs ps where c: "pipe_create True (k_pipes k2) = (r, hs, ps)" by (metis prod.collapse)
  have fail: "ps = k_pipes k2" if "r \<noteq> 0" using c that by (auto simp: pipe_create_def pipe_consts split: option.splits)
  have "balanced ex (snd (pipe_install i ro wo rh wh (k2\<lparr>k_pipes := ps\<rparr>)))" if "r = 0" "hs = Some (rh, wh)" for rh wh
    using balanced_pipe_install [OF balanced_pipe_create [OF b2]] c that quiet_alive [OF q] get_current_alive [OF Some]
    by (simp add: alive_def)
  moreover have "\<exists>rh wh. hs = Some (rh, wh)" if "r = 0" using c that by (auto simp: pipe_create_def pipe_consts split: option.splits)
  moreover have "sys_pipe ro wo k = (if \<not> ok then (SYSCALL_EFAULT, k2)
      else if r \<noteq> 0 then (SYSCALL_EMFILE, k2\<lparr>k_pipes := ps\<rparr>)
      else pipe_install i ro wo (fst (the hs)) (snd (the hs)) (k2\<lparr>k_pipes := ps\<rparr>))"
    unfolding sys_pipe_def Some option.case k1 Let_def prod.case k2 c by (simp add: split_beta)
  ultimately show ?thesis using b2 fail by (cases "r = 0") auto
qed (use assms in \<open>simp add: sys_pipe_def\<close>)

lemma balanced_calls [balanced_intros]:
  assumes "balanced ex k"
  shows "balanced ex (snd (snd (syscall_read fd buf n cs c k)))" "balanced ex (snd (snd (syscall_write fd buf n cs c k)))"
    "balanced ex (snd (syscall_stat p st cs k))" "balanced ex (snd (sys_puts p k))" "balanced ex (snd (sys_getchar k))"
    "balanced ex (snd (sys_kill pid s k))" "balanced ex (snd (sys_brk a k))" "balanced ex (k\<lparr>k_vga := v\<rparr>)"
  by (rule balanced_stays [OF assms], intro quiet_intros, assumption)+

lemma balanced_syscall [balanced_intros]:
  assumes "balanced ex k"
  shows "balanced ex (snd (snd (syscall_handle num a1 a2 a3 cs fr c k)))"
  by (simp add: syscall_handle_def assms balanced_intros [OF assms])

end
