(* ===== verification/Kernel_Steps.thy ===== *)
theory Kernel_Steps
  imports Fd_Calls
begin

text \<open>
  The entries into the kernel as a step relation: system calls, page faults, timer interrupts, the completion of a
  context switch and the creation of processes. Every step keeps the descriptors of all processes and the reference counts of files and
  pipes in balance, so in every state the kernel reaches no descriptor dangles and no open file or pipe end is lost.
\<close>

section \<open>Entries into the kernel\<close>

lemma balanced_dispatch:
  assumes "balanced ex k" and "syscall_dispatch esp k = Some (esp', k')"
  shows "balanced ex k'"
proof (cases "esp = 0")
  case False
  define k1 where "k1 = (case process_get_current k of None \<Rightarrow> k
    | Some i \<Rightarrow> set_proc i (\<lambda>p. p\<lparr>p_interrupt_frame := True\<rparr>) k)"
  have "quiet k k1" unfolding k1_def using balanced_tables [OF assms(1)]
    by (auto intro: quiet_refl quiet_set_proc simp: mild_def split: option.split)
  then have b1: "balanced ex k1" by (rule balanced_quiet [OF assms(1)])
  obtain r re k2 where k2: "syscall_handle (get_field esp EAX k1) (get_field esp EBX k1) (get_field esp ECX k1)
      (get_field esp EDX k1) (get_field esp CS k1) (esp + 4 * field_index EIP) (Some esp) k1 = (r, re, k2)"
    by (metis prod.collapse)
  then have "balanced ex k2" using balanced_syscall [OF b1] by (metis snd_conv)
  then have "balanced ex (set_field esp EAX r k2)" by (rule balanced_stays) (intro quiet_intros)
  moreover have "process_deliver_signals (case re of None \<Rightarrow> esp | Some e \<Rightarrow> e) (set_field esp EAX r k2) = Some (esp', k')"
    using assms(2) False k2 unfolding syscall_dispatch_def k1_def [symmetric] Let_def by simp
  ultimately show ?thesis using balanced_deliver_signals by fastforce
qed (use assms in \<open>simp add: syscall_dispatch_def\<close>)

lemma balanced_page_fault:
  assumes "balanced ex k"
  shows "balanced ex (snd (page_fault_dispatch esp err addr k))"
proof -
  obtain res m where m: "vm_handle_page_fault (map_option (proc k) (scheduler_get_current k)) addr err (k_mmu k) = (res, m)"
    by force
  have b: "balanced ex (k\<lparr>k_mmu := m\<rparr>)" using assms by (rule balanced_stays) (intro quiet_intros)
  have p: "balanced ex (k\<lparr>k_serial := x, k_hung := True\<rparr>)" for x
    using assms by (rule balanced_stays) (intro quiet_intros)
  have "balanced ex (snd (scheduler_exit_current esp (process_mark_exit (Some i) code (k\<lparr>k_mmu := m\<rparr>))))"
    if "scheduler_get_current k = Some i" for i code
  proof -
    have "i < 16" using that balanced_slots [OF assms] by (auto simp: scheduler_get_current_def slots_ok_def)
    then have "balanced ex (process_mark_exit (Some i) code (k\<lparr>k_mmu := m\<rparr>))" using balanced_mark_exit [OF b] by blast
    then show ?thesis by (rule balanced_stays) (intro quiet_intros)
  qed
  then show ?thesis
    unfolding page_fault_dispatch_def Let_def m prod.case using b p by (auto split: option.split)
qed

lemma balanced_timer:
  assumes "balanced ex k" and "timer_interrupt esp k = Some (esp', k')"
  shows "balanced ex k'"
proof -
  let ?k = "k\<lparr>timer_ticks := timer_ticks k + 1\<rparr>"
  have "balanced ex (snd (scheduler_preempt esp ?k))" using assms(1) by (rule balanced_stays) (intro quiet_intros)
  then show ?thesis
    using assms(2) balanced_deliver_signals by (fastforce simp: timer_interrupt_def split_beta Let_def)
qed

lemma init_fields_fds:
  assumes "length (p_fds p) = 16"
  shows "no_fds (p_fds (init_fields pid d b p)) \<and> length (p_fds (init_fields pid d b p)) = 16 \<and>
    p_next (init_fields pid d b p) = p_next p"
  using assms by (simp add: init_fields_def Let_def fd_table_init_empty process_signal_init_def process_clear_test_markers_def)

lemma balanced_create:
  assumes "balanced ex k" and "create_with b ws e k = (r, k')"
  shows "balanced ex k' \<and> slot_ok r"
proof (cases "process_count k \<ge> of_nat MAX_PROCESSES \<or> free_slot k = None")
  case True
  then show ?thesis using assms by (auto simp: create_with_def split: if_splits)
next
  case False
  then obtain c where c: "free_slot k = Some c" "c < 16" "\<not> alive c k"
    by (auto simp: free_slot_def first_index_Some_iff MAX_PROCESSES_def alive_def)
  define k0 where "k0 = k\<lparr>next_pid := next_pid k + 1\<rparr>"
  define f where "f = init_fields (next_pid k) (paging_get_current_directory (k_mmu k)) b"
  have b0: "balanced ex k0" unfolding k0_def using assms(1) by (rule balanced_stays) (intro quiet_intros)
  have p: "length (p_fds (proc k0 c)) = 16" "no_fds (p_fds (proc k0 c))" "slot_ok (p_next (proc k0 c))"
    using b0 c by (auto simp: balanced_def slots_ok_def k0_def alive_def)
  let ?k1 = "set_proc c f k0"
  have b1: "balanced ex ?k1" using balanced_replace [OF b0 c(2) p(2)] init_fields_fds [OF p(1)] p(3) by (simp add: f_def)
  obtain stack k2 where k2: "allocate_stack KERNEL_STACK_SIZE ?k1 = (stack, k2)" by force
  have q2: "quiet ?k1 k2" using quiet_allocate_stack [OF quiet_refl [OF balanced_tables [OF b1]], of KERNEL_STACK_SIZE] k2 by simp
  let ?k3 = "set_proc c (\<lambda>p. p\<lparr>p_kernel_stack := stack\<rparr>) k2"
  have q3: "quiet ?k1 ?k3" using q2 by (rule quiet_set_proc) (simp add: mild_def)
  have b3: "balanced ex ?k3" using balanced_quiet [OF b1 q3] .
  have "length (process_table k0) = 16" using b0 by (simp add: balanced_def slots_ok_def)
  then have "no_fds (p_fds (proc ?k3 c))" "length (p_fds (proc ?k3 c)) = 16"
    using quiet_fds [OF q3 c(2)] init_fields_fds [OF p(1)] c(2) by (simp_all add: f_def)
  moreover have "slot_ok (p_next (proc ?k3 c))" using quiet_next [OF q3 c(2)] .
  ultimately have dead: "balanced ex (set_proc c (\<lambda>p. p\<lparr>p_state := PROCESS_DEAD, p_pid := 0\<rparr>) ?k3)"
    using balanced_replace [OF b3 c(2), of "\<lambda>p. p\<lparr>p_state := PROCESS_DEAD, p_pid := 0\<rparr>"] by simp
  have "quiet ?k1 ((set_proc c (\<lambda>p. p\<lparr>p_esp := a, p_ebp := 0, p_eip := e\<rparr>) (?k3\<lparr>kstack := mem\<rparr>))\<lparr>process_count := n\<rparr>)" for a mem n
    using q3 by (auto intro!: quiet_intros simp: mild_def)
  then have live: "balanced ex ((set_proc c (\<lambda>p. p\<lparr>p_esp := a, p_ebp := 0, p_eip := e\<rparr>) (?k3\<lparr>kstack := mem\<rparr>))\<lparr>process_count := n\<rparr>)"
    for a mem n
    using balanced_quiet [OF b1] by blast
  show ?thesis
    using assms(2) False live dead k2 c(2) unfolding create_with_def c(1) option.case k0_def [symmetric] f_def [symmetric]
    by (auto simp: split_beta Let_def split: if_splits)
qed

section \<open>Runs of the kernel\<close>

text \<open>
  One step is one entry into the kernel and what it does before it leaves: a system call through the interrupt gate or the
  direct handler, a page fault, a timer interrupt, the completion of a context switch, the creation of a kernel process that is
  added to the ready queue, or a yield.
\<close>

inductive kernel_step :: "'d kernel \<Rightarrow> 'd kernel \<Rightarrow> bool" where
  call: "syscall_dispatch esp k = Some (esp', k') \<Longrightarrow> kernel_step k k'"
| handler: "syscall_handler num a1 a2 a3 cs frame k = (r, k') \<Longrightarrow> kernel_step k k'"
| fault: "page_fault_dispatch esp error_code addr k = (esp', k') \<Longrightarrow> kernel_step k k'"
| tick: "timer_interrupt esp k = Some (esp', k') \<Longrightarrow> kernel_step k k'"
| switched: "kernel_step k (process_complete_context_switch k)"
| create: "process_create entry user k = (r, k') \<Longrightarrow> kernel_step k (scheduler_add r k')"
| create_preemptive: "process_create_preemptive entry k = (r, k') \<Longrightarrow> kernel_step k (scheduler_add r k')"
| yield: "yield k = (switch, k') \<Longrightarrow> kernel_step k k'"

inductive_cases kernel_stepE: "kernel_step k k'"

lemma balanced_start_process:
  assumes "balanced ex k" and "create_with b ws e k = (r, k')"
  shows "balanced ex (scheduler_add r k')"
proof -
  have c: "balanced ex k'" "slot_ok r" using balanced_create [OF assms] by auto
  show ?thesis
    using c(1) by (rule balanced_stays)
      (use c(2) in \<open>auto simp: scheduler_add_def intro: quiet_enqueue quiet_refl split: option.split\<close>)
qed

lemma balanced_yield:
  assumes "balanced ex k"
  shows "balanced ex (snd (yield k))"
proof -
  have "balanced ex (scheduler_schedule k)"
    unfolding scheduler_schedule_def using assms by (rule balanced_stays) (intro quiet_intros)
  then show ?thesis using assms by (auto simp: yield_def Let_def split: option.split)
qed

lemma balanced_step:
  assumes "kernel_step k k'" and "balanced ex k"
  shows "balanced ex k'"
  using assms
proof cases
  case (handler num a1 a2 a3 cs frame r)
  then show ?thesis
    using balanced_syscall [OF assms(2), of num a1 a2 a3 cs frame None] by (auto simp: syscall_handler_def split: prod.splits)
next
  case (fault esp error_code addr esp')
  then show ?thesis using balanced_page_fault [OF assms(2), of esp error_code addr] by simp
next
  case (yield switch)
  then show ?thesis using balanced_yield [OF assms(2)] by simp
qed (use assms(2) in \<open>auto simp: process_create_def process_create_preemptive_def
    intro: balanced_dispatch balanced_timer balanced_complete_switch balanced_start_process\<close>)

lemma balanced_run: "kernel_step\<^sup>*\<^sup>* k k' \<Longrightarrow> balanced ex k \<Longrightarrow> balanced ex k'"
  by (induction rule: rtranclp_induct) (auto intro: balanced_step)

text \<open>The tables as the initialisations leave them.\<close>

definition kernel_start :: "'d kernel \<Rightarrow> 'd kernel" where
  "kernel_start k = scheduler_init (process_init (k\<lparr>k_vfs := vfs_clear_open_files (k_vfs k), k_pipes := pipe_init\<rparr>))"

lemma balanced_kernel_start: "balanced (\<lambda>_ _. 0) (kernel_start k)"
proof -
  let ?k = "kernel_start k"
  have v: "vfs_table_ok (k_vfs ?k)" "vfs_refs (k_vfs ?k) h = 0" for h
    by (auto simp: kernel_start_def scheduler_init_def process_init_def vfs_clear_open_files_def vfs_table_ok_def file_ok_def
        zero_file_def vfs_refs_def vfs_fd_valid_def VFS_MAX_OPEN_FILES_def)
  have p: "pipes_ok (k_pipes ?k)" "pipe_refs (k_pipes ?k, ()) h = 0" for h
    using pipe_ok_zero
    by (auto simp: kernel_start_def scheduler_init_def process_init_def pipe_init_def pipes_ok_def MAX_PIPES_def
        pipe_refs_def pipe_handle_index_def zero_pipe_def Let_def nat_less_iff split: option.splits if_splits)
  have t: "process_table ?k = replicate 16 zero_process" "ready_queue ?k = None" "current ?k = None"
    by (simp_all add: kernel_start_def scheduler_init_def process_init_def MAX_PROCESSES_def)
  have "held (fd_tables ?k) b h = 0" for b h
    by (simp add: t held_def sum_list_replicate fd_names_def zero_process_def zero_fd_def)
  then show ?thesis
    using v p t by (simp add: balanced_def slots_ok_def alive_def counted_def)
qed

lemma held_card:
  assumes "balanced ex k"
  shows "held (fd_tables k) b h = card {(i, fd). i < 16 \<and> fd < 16 \<and> fd_names b h (p_fds (proc k i) ! fd)}"
proof -
  have len: "length (process_table k) = 16" "\<And>i. i < 16 \<Longrightarrow> length (p_fds (proc k i)) = 16"
    using assms by (auto simp: balanced_def slots_ok_def)
  have "held (fd_tables k) b h = (\<Sum>i<16. length (filter (fd_names b h) (p_fds (proc k i))))"
    using len(1) by (simp add: held_def sum_list_sum_nth atLeast0LessThan)
  also have "\<dots> = (\<Sum>i<16. card {fd. fd < 16 \<and> fd_names b h (p_fds (proc k i) ! fd)})"
    using len(2) by (intro sum.cong) (auto simp: length_filter_conv_card)
  also have "\<dots> = card (SIGMA i:{..<16}. {fd. fd < 16 \<and> fd_names b h (p_fds (proc k i) ! fd)})" by (simp add: card_SigmaI)
  also have "(SIGMA i:{..<16}. {fd. fd < 16 \<and> fd_names b h (p_fds (proc k i) ! fd)}) =
      {(i, fd). i < 16 \<and> fd < 16 \<and> fd_names b h (p_fds (proc k i) ! fd)}" by auto
  finally show ?thesis .
qed

text \<open>What the running program sees: the descriptors that a lookup finds.\<close>

definition holders :: "bool \<Rightarrow> int \<Rightarrow> 'd kernel \<Rightarrow> (nat \<times> int) set" where
  "holders b h k = {(i, fd). i < MAX_PROCESSES \<and> (\<exists>kind. pipe_kind kind = b \<and> process_fd_get (Some i) fd k = Some (kind, h))}"

lemma holders_card:
  assumes "balanced ex k"
  shows "finite (holders b h k) \<and> card (holders b h k) = held (fd_tables k) b h"
proof -
  let ?S = "{(i, fd). i < 16 \<and> fd < 16 \<and> fd_names b h (p_fds (proc k i) ! fd)}"
  have len: "length (process_table k) = 16" "\<And>i. i < 16 \<Longrightarrow> length (p_fds (proc k i)) = 16"
    using assms by (auto simp: balanced_def slots_ok_def)
  have nonneg: "0 \<le> h" if "i < 16" "fd < 16" "fd_names b h (p_fds (proc k i) ! fd)" for i fd
    using held_pos [of i "fd_tables k" fd b h] that len balanced_handle [OF assms] by simp
  have get: "(\<exists>kind. pipe_kind kind = b \<and> process_fd_get (Some i) fd k = Some (kind, h)) \<longleftrightarrow>
      0 \<le> fd \<and> fd < 16 \<and> fd_names b h (p_fds (proc k i) ! nat fd)" if "i < 16" for i fd
    using nonneg [of i "nat fd"] that
    by (cases b) (auto simp: process_fd_get_def Let_def fd_names_def PROCESS_MAX_FDS_def nat_less_iff)
  have "(i, fd) \<in> holders b h k \<longleftrightarrow> (i, fd) \<in> (\<lambda>(i, fd). (i, int fd)) ` ?S" for i fd
  proof (cases "0 \<le> fd")
    case True
    then obtain n where "fd = int n" using nonneg_int_cases by blast
    then show ?thesis using get [of i fd] by (auto simp: holders_def MAX_PROCESSES_def image_iff)
  qed (use get [of i fd] in \<open>auto simp: holders_def MAX_PROCESSES_def image_iff\<close>)
  then have "holders b h k = (\<lambda>(i, fd). (i, int fd)) ` ?S" by (intro set_eqI) auto
  moreover have "inj_on (\<lambda>(i, fd). (i, int fd)) ?S" by (auto simp: inj_on_def)
  moreover have "finite ?S" by (rule finite_subset [of _ "{..<16} \<times> {..<16}"]) auto
  ultimately show ?thesis using held_card [OF assms] by (simp add: card_image)
qed

section \<open>Properties\<close>

text \<open>C2: No descriptor dangles and nothing is leaked. From the start of the kernel, after any sequence of system calls
  (fork, exec, exit, wait, kill, open, close, pipe, read, write and the rest), page faults, timer interrupts, context switches and creations
  of kernel processes: the reference count of every file handle and of every pipe end is the number of descriptors, over all processes,
  through which a lookup finds it. So a descriptor always names an open file or a pipe in use, and what is open is held by some process.\<close>

theorem descriptors_counted:
  assumes "kernel_step\<^sup>*\<^sup>* (kernel_start k0) k"
  shows "vfs_refs (k_vfs k) h = card (holders False h k) \<and> pipe_refs (k_pipes k, ()) h = card (holders True h k) \<and>
    (\<forall>i<MAX_PROCESSES. \<forall>fd kind. process_fd_get (Some i) fd k = Some (kind, h) \<longrightarrow>
      p_state (proc k i) \<noteq> PROCESS_DEAD \<and>
      (if pipe_kind kind then pipe_handle_index h (k_pipes k) \<noteq> None else vfs_fd_valid h (k_vfs k))) \<and>
    (vfs_fd_valid h (k_vfs k) \<longrightarrow> (\<exists>i<MAX_PROCESSES. \<exists>fd. process_fd_get (Some i) fd k = Some (PROCESS_FD_VFS, h)))"
proof -
  have b: "balanced (\<lambda>_ _. 0) k" using balanced_run [OF assms balanced_kernel_start] .
  have count: "counted k b h = card (holders b h k)" "finite (holders b h k)" for b
    using balanced_count [OF b] holders_card [OF b] by simp_all
  have used: "0 < counted k (pipe_kind kind) h \<and> p_state (proc k i) \<noteq> PROCESS_DEAD"
    if "i < MAX_PROCESSES" "process_fd_get (Some i) fd k = Some (kind, h)" for i fd kind
  proof -
    have "(i, fd) \<in> holders (pipe_kind kind) h k" using that by (auto simp: holders_def)
    then have "0 < counted k (pipe_kind kind) h" using count by (auto simp: card_gt_0_iff)
    moreover have "\<not> no_fds (p_fds (proc k i))"
    proof -
      have "fd_kind (p_fds (proc k i) ! nat fd) \<noteq> PROCESS_FD_NONE" "nat fd < 16"
        using that(2) by (auto simp: process_fd_get_def Let_def PROCESS_MAX_FDS_def split: if_splits)
      moreover have "length (p_fds (proc k i)) = 16" using b that(1) by (simp add: balanced_def MAX_PROCESSES_def)
      ultimately show ?thesis by (metis no_fds_def nth_mem)
    qed
    moreover have "p_state (proc k i) = PROCESS_DEAD \<Longrightarrow> no_fds (p_fds (proc k i))"
      using b that(1) by (simp add: balanced_def alive_def MAX_PROCESSES_def)
    ultimately show ?thesis by blast
  qed
  have "\<exists>i<MAX_PROCESSES. \<exists>fd. process_fd_get (Some i) fd k = Some (PROCESS_FD_VFS, h)" if "vfs_fd_valid h (k_vfs k)"
  proof -
    have "vfs_refs (k_vfs k) h \<noteq> 0"
    proof -
      have "vfs_table_ok (k_vfs k)" "nat h < 16" using b that by (auto simp: balanced_def vfs_fd_valid_def VFS_MAX_OPEN_FILES_def)
      then have "file_ok (vfs_open_files (k_vfs k) ! nat h)" using vfs_table_nth by blast
      then show ?thesis using that by (simp add: vfs_refs_def file_ok_def vfs_fd_valid_def unat_eq_0)
    qed
    then have "holders False h k \<noteq> {}" using count [of False] by (auto simp: counted_def)
    then obtain i fd kind where g: "i < MAX_PROCESSES" "\<not> pipe_kind kind" "process_fd_get (Some i) fd k = Some (kind, h)"
      by (auto simp: holders_def)
    then have "kind = PROCESS_FD_VFS"
      by (cases kind) (auto simp: pipe_kind_def process_fd_get_def Let_def split: if_splits)
    then show ?thesis using g by blast
  qed
  moreover have "if c then pipe_handle_index h (k_pipes k) \<noteq> None else vfs_fd_valid h (k_vfs k)" if "0 < counted k c h" for c
    using that by (cases c) (auto simp: counted_def pipe_refs_def vfs_refs_def split: option.splits if_splits)
  then have "p_state (proc k i) \<noteq> PROCESS_DEAD \<and>
      (if pipe_kind kind then pipe_handle_index h (k_pipes k) \<noteq> None else vfs_fd_valid h (k_vfs k))"
    if "i < MAX_PROCESSES" "process_fd_get (Some i) fd k = Some (kind, h)" for i fd kind
    using used [OF that] by blast
  moreover have "vfs_refs (k_vfs k) h = card (holders False h k)" "pipe_refs (k_pipes k, ()) h = card (holders True h k)"
    using count(1) [of False] count(1) [of True] by (simp_all add: counted_def)
  ultimately show ?thesis by blast
qed

text \<open>The first process is created.\<close>

definition run_demo :: "ramdisk_data kernel" where
  "run_demo = (let (r, k) = process_create_preemptive 0x8000 (kernel_start (kernel_demo\<lparr>stack_pool := 0x100000\<rparr>))
     in scheduler_add r k)"

lemma run_demo_reached: "kernel_step\<^sup>*\<^sup>* (kernel_start (kernel_demo\<lparr>stack_pool := 0x100000\<rparr>)) run_demo"
proof -
  obtain r k where c: "process_create_preemptive 0x8000 (kernel_start (kernel_demo\<lparr>stack_pool := 0x100000\<rparr>)) = (r, k)" by force
  have "kernel_step (kernel_start (kernel_demo\<lparr>stack_pool := 0x100000\<rparr>)) run_demo"
    unfolding run_demo_def c Let_def prod.case using c by (rule kernel_step.create_preemptive)
  then show ?thesis by (rule r_into_rtranclp)
qed

theorem descriptors_counted_witness:
  "vfs_refs (k_vfs run_demo) 3 = card (holders False 3 run_demo)"
  using descriptors_counted [OF run_demo_reached, of 3] by blast

end
