(* ===== verification/Kernel_Files.thy ===== *)
theory Kernel_Files
  imports Kernel_Steps
begin

text \<open>
  The file system under the whole kernel. The kernel is a client of \<^verbatim>\<open>vfs.c\<close>: it opens, reads, writes, retains and closes, and it writes
  at most the size of the user space at once, because \<^verbatim>\<open>SYS_WRITE\<close> checks the buffer before. The contract is the locale
  \<open>file_client\<close>: what these five operations keep, every entry into the kernel keeps. Its instance is the consistency of SimpleFS together
  with positions inside the disk, so no system call reaches the sizes whose number of sectors wraps around.
\<close>

section \<open>Operations that do not touch the file system\<close>

lemma vfs_of_memory [simp]:
  "k_vfs (set_field fr f w k) = k_vfs k" "k_vfs (copy_frame d s k) = k_vfs k"
  "k_vfs (snd (allocate_stack sz k)) = k_vfs k" "k_vfs (free_stack st k) = k_vfs k"
  "k_vfs (switch_address_space pr k) = k_vfs k"
  by (simp_all add: set_field_def copy_frame_def allocate_stack_def free_stack_def switch_address_space_def Let_def split: option.split)

lemma vfs_of_queue [simp]:
  "k_vfs (enqueue i k) = k_vfs k" "k_vfs (snd (find_best_ready k)) = k_vfs k" "k_vfs (age_ready_queue k) = k_vfs k"
proof -
  show "k_vfs (enqueue i k) = k_vfs k"
    by (simp add: enqueue_def with_queue_def Let_def split: option.split)
  show "k_vfs (snd (find_best_ready k)) = k_vfs k"
    by (simp add: find_best_ready_def with_queue_def split: option.split)
  have "k_vfs (fold (\<lambda>i. set_proc i age) ps k) = k_vfs k" for ps
    by (induction ps arbitrary: k) simp_all
  then show "k_vfs (age_ready_queue k) = k_vfs k"
    by (simp add: age_ready_queue_def with_queue_def split: option.split)
qed

lemma vfs_of_dequeue [simp]: "k_vfs (snd (dequeue_best k)) = k_vfs k"
  using vfs_of_queue(2) [of k]
  by (auto simp: dequeue_best_def with_queue_def split_beta Let_def split: option.split)

lemma vfs_of_run_next [simp]: "k_vfs (run_next i k) = k_vfs k"
  by (simp add: run_next_def Let_def)

lemma vfs_of_schedule [simp]: "k_vfs (scheduler_schedule_locked k) = k_vfs k" "k_vfs (scheduler_schedule k) = k_vfs k"
proof -
  show "k_vfs (scheduler_schedule_locked k) = k_vfs k"
    using vfs_of_dequeue [of k] by (auto simp: scheduler_schedule_locked_def split_beta Let_def split: option.split)
  then show "k_vfs (scheduler_schedule k) = k_vfs k" by (simp add: scheduler_schedule_def)
qed

lemma vfs_of_preempt [simp]: "k_vfs (snd (scheduler_preempt esp k)) = k_vfs k"
  by (auto simp: scheduler_preempt_def split_beta Let_def split: option.split)

lemma vfs_of_stop [simp]:
  "k_vfs (snd (scheduler_stop_current_locked esp st re k)) = k_vfs k"
  "k_vfs (snd (scheduler_block_current esp k)) = k_vfs k" "k_vfs (snd (scheduler_exit_current esp k)) = k_vfs k"
proof -
  show stop: "k_vfs (snd (scheduler_stop_current_locked esp st re k)) = k_vfs k" for st re
    by (auto simp: scheduler_stop_current_locked_def split_beta Let_def split: option.split)
  show "k_vfs (snd (scheduler_block_current esp k)) = k_vfs k" "k_vfs (snd (scheduler_exit_current esp k)) = k_vfs k"
    by (simp_all only: scheduler_block_current_def scheduler_exit_current_def stop)
qed

lemma vfs_of_remove [simp]: "k_vfs (scheduler_remove pr k) = k_vfs k"
proof -
  have "k_vfs (remove_from n prev item i k) = k_vfs k" for n prev item i and k :: "'a kernel"
    by (induction n prev item i k rule: remove_from.induct) (simp_all add: Let_def split: option.split)
  then show ?thesis by (simp add: scheduler_remove_def split: option.split)
qed

lemma vfs_of_wake [simp]:
  "k_vfs (scheduler_wake pr k) = k_vfs k" "k_vfs (process_wake_pipe_waiter i r k) = k_vfs k" "k_vfs (scheduler_add pr k) = k_vfs k"
  by (simp_all add: scheduler_wake_def process_wake_pipe_waiter_def scheduler_add_def split: option.split)

lemma vfs_of_pipes [simp]:
  "k_vfs (snd (k_pipe_close h k)) = k_vfs k" "k_vfs (snd (k_pipe_retain h k)) = k_vfs k"
  "k_vfs (snd (k_pipe_read h b n k)) = k_vfs k" "k_vfs (snd (k_pipe_write h b n k)) = k_vfs k"
proof -
  note wake = vfs_of_wake(2)
  show "k_vfs (snd (k_pipe_close h k)) = k_vfs k"
    by (auto simp: k_pipe_close_def pipe_close_def Let_def split: option.split)
  show "k_vfs (snd (k_pipe_retain h k)) = k_vfs k" by (simp add: k_pipe_retain_def split_beta)
  show "k_vfs (snd (k_pipe_read h b n k)) = k_vfs k"
    by (auto simp: k_pipe_read_def pipe_read_def Let_def split: option.split prod.split)
  show "k_vfs (snd (k_pipe_write h b n k)) = k_vfs k"
    by (auto simp: k_pipe_write_def pipe_write_def Let_def split: option.split prod.split)
qed

lemma vfs_of_user [simp]:
  "k_vfs (snd (uaccess_prepare_write p n k)) = k_vfs k" "k_vfs (snd (copy_to_user p d n k)) = k_vfs k"
  "k_vfs (snd (snd (copy_from_user ok p n k))) = k_vfs k" "k_vfs (snd (is_user_pointer_writable p n k)) = k_vfs k"
proof -
  show prepare: "k_vfs (snd (uaccess_prepare_write p n k)) = k_vfs k" for p n
    by (simp add: uaccess_prepare_write_def split_beta split: option.split)
  show "k_vfs (snd (copy_to_user p d n k)) = k_vfs k" by (simp add: copy_to_user_def Let_def split_beta prepare)
  show "k_vfs (snd (snd (copy_from_user ok p n k))) = k_vfs k" by (simp add: copy_from_user_def split_beta)
  show "k_vfs (snd (is_user_pointer_writable p n k)) = k_vfs k" by (simp add: is_user_pointer_writable_def split_beta prepare)
qed

lemma vfs_of_strings [simp]:
  "k_vfs (snd (snd (syscall_copy_user_string p n k))) = k_vfs k" "k_vfs (snd (snd (exec_copy_vector ev p env k))) = k_vfs k"
proof -
  have "k_vfs (snd (snd (copy_string_loop m s d k))) = k_vfs k" for m s d and k :: "'a kernel"
    by (induction m arbitrary: s d k) (simp_all add: split_beta Let_def)
  then show "k_vfs (snd (snd (syscall_copy_user_string p n k))) = k_vfs k"
    by (simp add: syscall_copy_user_string_def copy_string_from_user_def split_beta Let_def)
  have str: "k_vfs (snd (snd (exec_copy_string m p ev k))) = k_vfs k" for m p ev and k :: "'a kernel"
    by (induction m arbitrary: p ev k) (simp_all add: split_beta Let_def)
  have "k_vfs (snd (snd (exec_copy_slots is p env ev k))) = k_vfs k" for "is" p env ev and k :: "'a kernel"
    by (induction "is" arbitrary: p env ev k) (simp_all add: split_beta Let_def str)
  then show "k_vfs (snd (snd (exec_copy_vector ev p env k))) = k_vfs k" by (simp add: exec_copy_vector_def Let_def)
qed

lemma vfs_of_processes [simp]:
  "k_vfs (snd (process_fd_install_typed pr kd h fl k)) = k_vfs k" "k_vfs (snd (process_send_signal pr s k)) = k_vfs k"
  "k_vfs (orphan pid i k) = k_vfs k" "k_vfs (process_begin_waitpid pr st t k) = k_vfs k" "k_vfs (process_cancel_wait pr k) = k_vfs k"
  "k_vfs (process_begin_pipe_wait pr re fd b n k) = k_vfs k" "k_vfs (exec_free v k) = k_vfs k"
  by (simp_all add: process_fd_install_typed_def process_send_signal_def orphan_def process_begin_waitpid_def
      process_cancel_wait_def process_begin_pipe_wait_def exec_free_def split: option.split)

lemma vfs_of_announce [simp]: "k_vfs (announce_exit i k) = k_vfs k"
proof -
  have loop: "k_vfs (for_loop 0 n (\<lambda>j k. orphan (p_pid (proc k i)) j k) k) = k_vfs k" for n and k :: "'a kernel"
    by (rule for_loop_invariant [where P = "\<lambda>s. k_vfs s = k_vfs k"]) simp_all
  show ?thesis by (simp add: announce_exit_def Let_def loop split: option.split)
qed

lemma vfs_of_completion [simp]:
  "k_vfs (process_complete_pipe_io pr k) = k_vfs k" "k_vfs (complete_wait i k) = k_vfs k"
  by (auto simp: process_complete_pipe_io_def complete_wait_def Let_def split_beta split: option.split)

lemma vfs_of_blocking [simp]:
  "k_vfs (snd (snd (block_on_pipe i re fd b n c k))) = k_vfs k" "k_vfs (snd (snd (block_for_child i c k))) = k_vfs k"
  by (simp_all add: block_on_pipe_def block_for_child_def split_beta Let_def)

lemma vfs_of_frame [simp]: "k_vfs (exec_set_frame c f e sp k) = k_vfs k"
  by (simp add: exec_set_frame_def)

section \<open>The kernel as a client of the file system\<close>

text \<open>The longest write a system call makes: the user space is 2 GiB.\<close>

lemma readable_size:
  assumes "uaccess_readable a n k"
  shows "unat n \<le> 2 ^ 31"
proof (cases "n = 0")
  case False
  then have r: "USER_SPACE_START \<le> a" "a \<le> a + n" "a + n \<le> USER_SPACE_END"
    using assms by (auto simp: uaccess_readable_def uaccess_range_valid_def Let_def not_less split: if_splits)
  then have "unat (a + n) = unat a + unat n"
    by (metis linorder_not_le no_olen_add_nat unat_add_lem word_le_def)
  then show ?thesis using r by (simp add: word_le_nat_alt USER_SPACE_START_def USER_SPACE_END_def)
qed simp

locale file_client =
  fixes ok :: "'d vfs \<Rightarrow> bool"
  assumes keeps_open: "ok v \<Longrightarrow> ok (snd (vfs_open path flags v))"
    and keeps_read: "ok v \<Longrightarrow> ok (snd (snd (vfs_read fd buf n v)))"
    and keeps_write: "ok v \<Longrightarrow> unat n \<le> 2 ^ 31 \<Longrightarrow> ok (snd (vfs_write fd src n v))"
    and keeps_close: "ok v \<Longrightarrow> ok (snd (vfs_close fd v))"
    and keeps_retain: "ok v \<Longrightarrow> ok (snd (vfs_retain fd v))"
begin

lemma fd_close: "ok (k_vfs k) \<Longrightarrow> ok (k_vfs (snd (process_fd_close pr fd k)))"
  by (auto simp: process_fd_close_def k_vfs_close_def split_beta Let_def keeps_close split: option.split)

lemma close_all: "ok (k_vfs k) \<Longrightarrow> ok (k_vfs (process_fd_close_all pr k))"
  by (auto simp: process_fd_close_all_def fd_close intro!: for_loop_invariant [where P = "\<lambda>k. ok (k_vfs k)"] split: option.split)

lemma close_on_exec: "ok (k_vfs k) \<Longrightarrow> ok (k_vfs (process_fd_close_on_exec pr k))"
  by (auto simp: process_fd_close_on_exec_def Let_def fd_close intro!: for_loop_invariant [where P = "\<lambda>k. ok (k_vfs k)"]
      split: option.split)

lemma inherit:
  assumes "ok (k_vfs k)"
  shows "ok (k_vfs (snd (process_fd_inherit c p k)))"
proof -
  have one: "ok (k_vfs (snd (inherit_fd i j fd k)))" if "ok (k_vfs k)" for i j fd and k :: "'d kernel"
    using that by (auto simp: inherit_fd_def k_vfs_retain_def split_beta Let_def keeps_retain)
  have "ok (k_vfs (snd (try_all (inherit_fd i j) fds k)))" if "ok (k_vfs k)" for i j fds and k :: "'d kernel"
    using that by (induction fds arbitrary: k) (simp_all add: split_beta Let_def one)
  then show ?thesis
    using assms by (auto simp: process_fd_inherit_def split_beta Let_def close_all split: option.split)
qed

lemma destroy: "ok (k_vfs k) \<Longrightarrow> ok (k_vfs (process_destroy pr k))"
  by (auto simp: process_destroy_def Let_def close_all split: option.split)

lemma mark_exit: "ok (k_vfs k) \<Longrightarrow> ok (k_vfs (process_mark_exit pr c k))"
  by (auto simp: process_mark_exit_def Let_def close_all split: option.split)

lemma fork: "ok (k_vfs k) \<Longrightarrow> ok (k_vfs (snd (process_fork pr fr k)))"
  by (auto simp: process_fork_def fork_finish_def split_beta Let_def inherit split: option.split)

lemma new_process: "ok (k_vfs k) \<Longrightarrow> ok (k_vfs (snd (create_with b ws e k)))"
  by (auto simp: create_with_def split_beta Let_def split: option.split)

lemma complete_switch: "ok (k_vfs k) \<Longrightarrow> ok (k_vfs (process_complete_context_switch k))"
  by (auto simp: process_complete_context_switch_def reap_def Let_def destroy
      intro!: for_loop_invariant [where P = "\<lambda>k. ok (k_vfs k)"] split: option.split)

lemma read_file_loop: "ok v \<Longrightarrow> ok (snd (snd (read_file_loop fd sz n buf v)))"
proof (induction fd sz n buf v rule: read_file_loop.induct)
  case (1 fd sz n buf v)
  obtain c d v1 where r: "vfs_read fd True (of_nat (sz - n)) v = (c, d, v1)" by (metis prod.collapse)
  then have "ok v1" using keeps_read [OF 1(2), of fd True "of_nat (sz - n)"] by simp
  then show ?case
    using 1(1) [OF _ r [symmetric]] 1(2) r by (subst read_file_loop.simps) (auto simp: split_beta Let_def keeps_close)
qed

lemma read_into_buffer: "ok v \<Longrightarrow> ok (snd (snd (read_file_into_buffer path v)))"
  by (auto simp: read_file_into_buffer_def split_beta Let_def keeps_open read_file_loop)

lemma load: "ok (k_vfs k) \<Longrightarrow> ok (k_vfs (snd (snd (elf_load_from_vfs_into d p b k))))"
  by (simp add: elf_load_from_vfs_into_def elf_load_from_vfs_def split_beta Let_def read_into_buffer)

lemma exec: "ok (k_vfs k) \<Longrightarrow> ok (k_vfs (snd (syscall_exec p av ev cs fr c k)))"
proof -
  assume ok: "ok (k_vfs k)"
  have build: "ok (k_vfs (snd (exec_build v path k)))" if "ok (k_vfs k)" for v path and k :: "'d kernel"
    using that load by (auto simp: exec_build_def Let_def split_beta split: option.split)
  have commit: "ok (k_vfs (exec_commit i cr3 e sp k))" if "ok (k_vfs k)" for i cr3 e sp and k :: "'d kernel"
    using that by (simp add: exec_commit_def Let_def close_on_exec)
  show ?thesis
    using ok build commit by (auto simp: syscall_exec_def split_beta Let_def split: option.split sum.split)
qed

lemma keeps_write_nothing: "ok v \<Longrightarrow> \<not> 0 < n \<Longrightarrow> ok (snd (vfs_write fd src n v))"
  using keeps_write [of v 0 fd src] word_neq_0_conv [of n] by auto

lemma files:
  "ok (k_vfs k) \<Longrightarrow> ok (k_vfs (snd (syscall_open p fl cs k)))"
  "ok (k_vfs k) \<Longrightarrow> ok (k_vfs (snd (snd (syscall_read fd b n cs c k))))"
  "ok (k_vfs k) \<Longrightarrow> ok (k_vfs (snd (snd (syscall_write fd b n cs c k))))"
  "ok (k_vfs k) \<Longrightarrow> ok (k_vfs (snd (syscall_close fd cs k)))"
  "ok (k_vfs k) \<Longrightarrow> ok (k_vfs (snd (syscall_stat p st cs k)))"
  by (auto simp: syscall_open_def syscall_read_def syscall_write_def syscall_close_def syscall_stat_def k_vfs_read_def
      k_vfs_write_def k_vfs_close_def process_fd_install_def split_beta Let_def keeps_open keeps_read keeps_write keeps_write_nothing keeps_close fd_close
      dest: readable_size split: option.split)

lemma waiting:
  "ok (k_vfs k) \<Longrightarrow> ok (k_vfs (snd (snd (sys_exit code c k))))"
  "ok (k_vfs k) \<Longrightarrow> ok (k_vfs (snd (snd (sys_wait st c k))))"
  "ok (k_vfs k) \<Longrightarrow> ok (k_vfs (snd (snd (sys_waitpid t st opt c k))))"
  "ok (k_vfs k) \<Longrightarrow> ok (k_vfs (snd (snd (sys_fork c k))))"
  by (auto simp: sys_exit_def sys_wait_def sys_waitpid_def sys_fork_def reap_child_def process_begin_wait_def split_beta Let_def
      destroy mark_exit fork split: option.split)

lemma pipes: "ok (k_vfs k) \<Longrightarrow> ok (k_vfs (snd (sys_pipe r w k)))"
  by (auto simp: sys_pipe_def pipe_install_def split_beta Let_def fd_close split: option.split)

lemma others:
  "k_vfs (snd (sys_puts p k)) = k_vfs k" "k_vfs (snd (sys_getchar k)) = k_vfs k" "k_vfs (snd (sys_kill pid sg k)) = k_vfs k"
  "k_vfs (snd (sys_brk n k)) = k_vfs k"
  by (auto simp: sys_puts_def sys_getchar_def sys_kill_def sys_brk_def split_beta Let_def split: option.split)

lemma handle: "ok (k_vfs k) \<Longrightarrow> ok (k_vfs (snd (snd (syscall_handle num a1 a2 a3 cs fr c k))))"
  unfolding syscall_handle_def by (simp add: others waiting pipes files exec)

lemma deliver:
  assumes "process_deliver_signals esp k = Some r" and "ok (k_vfs k)"
  shows "ok (k_vfs (snd r))"
proof -
  have kill: "ok (k_vfs (snd (deliver_kill i s esp k)))" if "ok (k_vfs k)" for i s esp and k :: "'d kernel"
    using that by (simp add: deliver_kill_def Let_def mark_exit)
  have "ok (k_vfs k) \<longrightarrow> ok (k_vfs (snd r))"
    by (rule process_deliver_signals.raw_induct [where P = "\<lambda>_ k r. ok (k_vfs k) \<longrightarrow> ok (k_vfs (snd r))", OF _ assms(1)])
      (auto simp: split_beta Let_def kill split: option.splits if_splits)
  then show ?thesis using assms(2) by blast
qed

lemma dispatch: "syscall_dispatch esp k = Some (esp', k') \<Longrightarrow> ok (k_vfs k) \<Longrightarrow> ok (k_vfs k')"
  by (auto simp: syscall_dispatch_def split_beta Let_def handle dest!: deliver split: if_splits option.splits)

lemma page_fault: "ok (k_vfs k) \<Longrightarrow> ok (k_vfs (snd (page_fault_dispatch esp err addr k)))"
  by (auto simp: page_fault_dispatch_def split_beta Let_def mark_exit split: option.split)

lemma timer: "timer_interrupt esp k = Some (esp', k') \<Longrightarrow> ok (k_vfs k) \<Longrightarrow> ok (k_vfs k')"
  by (auto simp: timer_interrupt_def split_beta Let_def dest!: deliver)

lemma step:
  assumes "kernel_step k k'" and "ok (k_vfs k)"
  shows "ok (k_vfs k')"
  using assms(1)
proof cases
  case (handler num a1 a2 a3 cs frame r)
  then show ?thesis using handle [OF assms(2), of num a1 a2 a3 cs frame None] by (auto simp: syscall_handler_def split: prod.splits)
next
  case (fault esp error_code addr esp')
  then show ?thesis using page_fault [OF assms(2), of esp error_code addr] by simp
next
  case (create entry user r k1)
  then show ?thesis using new_process [OF assms(2)] unfolding process_create_def by (metis snd_conv vfs_of_wake(3))
next
  case (create_preemptive entry r k1)
  then show ?thesis using new_process [OF assms(2)] unfolding process_create_preemptive_def by (metis snd_conv vfs_of_wake(3))
next
  case (yield switch)
  then show ?thesis using assms(2) by (auto simp: yield_def Let_def split: if_splits option.splits)
qed (use assms(2) in \<open>auto intro: dispatch timer complete_switch\<close>)

end

section \<open>SimpleFS under the kernel\<close>

text \<open>The positions of open files stay inside the disk of 2 MiB.\<close>

definition files_ok :: "ramdisk_data vfs \<Rightarrow> bool" where
  "files_ok v \<longleftrightarrow> vfs_ok v \<and> vfs_root_dev v = Some ramdisk_dev \<and> (\<forall>f\<in>set (vfs_open_files v). unat (of_offset f) \<le> 2 ^ 21)"

lemma file_size:
  assumes "ramfs_inv s" and "ramfiles s n = Some c"
  shows "length c \<le> 2 ^ 21"
proof -
  obtain i where i: "i < 32" "de_used (ent (ramdisk_sector (fs_disk s)) i) \<noteq> 0"
    "c = content (ramdisk_sector (fs_disk s)) (ent (ramdisk_sector (fs_disk s)) i)"
    using assms(2) by (auto simp: files_def slot_of_def first_index_Some_iff split: option.splits if_splits)
  have "entry_ok (unat (sector_count ramdisk_dev)) (ent (ramdisk_sector (fs_disk s)) i)"
    using rdisk.fs_invD(8) [OF assms(1)] i(1) by blast
  moreover have "unat (sector_count ramdisk_dev) = 4096" by (simp add: ramdisk_dev_def ramdisk_consts)
  ultimately show ?thesis using i entry_ok_size
    by (cases "de_alloc (ent (ramdisk_sector (fs_disk s)) i) = 0") (fastforce simp: entry_ok_def)+
qed

lemma read_past:
  assumes "ramfs_inv s" and "simplefs_read path off ok n s = (r, data)" and "0 < r"
  shows "unat off + nat r \<le> 2 ^ 21"
proof -
  obtain st m where p: "simplefs_normalize_path path = (st, m)" by force
  show ?thesis
  proof (cases "st = VFS_SUCCESS \<and> ok")
    case True
    then obtain q where q: "path = Some q" "is_cstring q (0x2F # m)" "valid_name m"
      using normalize_path_cases [OF p] by (auto simp: vfs_errors)
    obtain c where c: "ramfiles s m = Some c" "r = int (length (take (unat n) (drop (unat off) c)))"
      using rdisk.fs_read_ok [OF assms(1) q(2,3), of off n] assms(2,3) q(1) True
      by (auto simp: vfs_errors split: option.splits)
    then have "unat off < length c" "nat r \<le> length c - unat off" using assms(3) by auto
    then show ?thesis using file_size [OF assms(1) c(1)] by linarith
  next
    case False
    then have "r \<le> 0"
      using assms(2) p normalize_path_status [of path] find_entry_status [of m s]
      by (auto simp: simplefs_read_def vfs_errors word_neq_0_conv split: if_splits prod.splits)
    then show ?thesis using assms(3) by simp
  qed
qed

lemma write_past:
  assumes "ramfs_inv s" and "simplefs_write path off src n s = (r, s')" and "0 < r" and "unat off + unat n + 511 < 2 ^ 32"
  shows "unat off + nat r \<le> 2 ^ 21"
proof -
  obtain st m where p: "simplefs_normalize_path path = (st, m)" by force
  show ?thesis
  proof (cases "st = VFS_SUCCESS \<and> src \<noteq> None \<and> n \<noteq> 0")
    case True
    then obtain q d where q: "path = Some q" "is_cstring q (0x2F # m)" "valid_name m" "src = Some d"
      using normalize_path_cases [OF p] by (auto simp: vfs_errors)
    have n: "0 < unat n" using True by (simp add: unat_gt_0)
    show ?thesis
    proof (cases "ramfiles s m")
      case None
      have nowrap: "\<not> n + off < off"
      proof -
        have "unat (off + n) = unat off + unat n" using assms(4) by (subst unat_add_no_wrap) auto
        then show ?thesis by (simp add: word_less_nat_alt add.commute)
      qed
      have "fst (simplefs_write (Some q) off src n s) = VFS_ENOENT"
        by (rule ramfs_write_missing(2) [OF assms(1) q(2,3) None]) (use True nowrap in \<open>simp_all add: add.commute\<close>)
      then have "r \<le> 0" using assms(2) q(1) by (simp add: vfs_errors)
      then show ?thesis using assms(3) by simp
    next
      case (Some c)
      then have r: "r = int (unat n)" "ramfs_inv s'" "ramfiles s' m = Some (patch c (unat off) d (unat n))"
        using rdisk.fs_write_ok [OF assms(1) q(2,3) Some n assms(4), of d r s'] assms(2,3) q by (auto simp: vfs_errors)
      have "unat off + unat n \<le> length (patch c (unat off) d (unat n))" by (simp add: patch_def)
      then show ?thesis using file_size [OF r(2,3)] r(1) by simp
    qed
  next
    case False
    then have "r \<le> 0"
      using assms(2) p normalize_path_status [of path]
      by (auto simp: simplefs_write_def vfs_errors word_neq_0_conv split: if_splits prod.splits)
    then show ?thesis using assms(3) by simp
  qed
qed

lemma files_ok_update:
  assumes "files_ok v" and "file_ok f" and "unat (of_offset f) \<le> 2 ^ 21"
  shows "files_ok (v\<lparr>vfs_open_files := (vfs_open_files v)[i := f]\<rparr>)"
proof -
  have "g \<in> insert f (set (vfs_open_files v))" if "g \<in> set ((vfs_open_files v)[i := f])" for g
    using that set_update_subset_insert by fast
  then show ?thesis
    using assms vfs_table_update [of v f i] by (auto simp: files_ok_def vfs_ok_def)
qed

lemma files_ok_nth:
  assumes "files_ok v" and "vfs_fd_valid fd v"
  shows "file_ok (vfs_open_files v ! nat fd)" and "unat (of_offset (vfs_open_files v ! nat fd)) \<le> 2 ^ 21"
proof -
  have "nat fd < 16" using assms(2) by (auto simp: vfs_fd_valid_def VFS_MAX_OPEN_FILES_def)
  moreover have "vfs_table_ok v" using assms(1) by (simp add: files_ok_def vfs_ok_def)
  ultimately show "file_ok (vfs_open_files v ! nat fd)" "unat (of_offset (vfs_open_files v ! nat fd)) \<le> 2 ^ 21"
    using vfs_table_nth assms(1) by (auto simp: files_ok_def vfs_table_ok_def)
qed

lemma files_ok_move:
  assumes "files_ok v" and "vfs_fd_valid fd v" and "0 < r \<Longrightarrow> unat (of_offset (vfs_open_files v ! nat fd)) + nat r \<le> 2 ^ 21"
  shows "files_ok (advance_offset fd r v)"
proof (cases "0 < r")
  case True
  let ?f = "vfs_open_files v ! nat fd"
  have r: "(of_int r :: u32) = of_nat (nat r)" "nat r < 2 ^ 32" using True assms(3) by simp_all
  have "unat (of_int r :: u32) = nat r" unfolding r(1) using r(2) by (simp add: unat_of_nat_small)
  then have "unat (of_offset ?f + of_int r) \<le> 2 ^ 21" using assms(3) [OF True] by (subst unat_add_no_wrap) auto
  moreover have "file_ok (?f\<lparr>of_offset := of_offset ?f + of_int r\<rparr>)"
    using files_ok_nth(1) [OF assms(1,2)] by (simp add: file_ok_def)
  ultimately show ?thesis
    using files_ok_update [OF assms(1), of "?f\<lparr>of_offset := of_offset ?f + of_int r\<rparr>" "nat fd"] True
    by (simp add: advance_offset_def Let_def)
qed (use assms in \<open>simp add: advance_offset_def\<close>)

lemma files_ok_fs: "files_ok v \<Longrightarrow> ramfs_inv s \<Longrightarrow> files_ok (v\<lparr>vfs_fs := s\<rparr>)"
  by (simp add: files_ok_def vfs_ok_def vfs_table_ok_def)

lemma files_ok_inv: "files_ok v \<Longrightarrow> ramfs_inv (vfs_fs v)"
  by (simp add: files_ok_def vfs_ok_def)

interpretation files_client: file_client files_ok
proof unfold_locales
  fix v :: "ramdisk_data vfs" and path flags fd buf src and n :: u32
  assume ok: "files_ok v"
  note inv = files_ok_inv [OF ok]
  let ?f = "vfs_open_files v ! nat fd"
  show "files_ok (snd (vfs_open path flags v))"
  proof -
    let ?st = "vfs_copy_path path"
    obtain st info s' where s': "simplefs_open (Some (cstr_at (snd ?st))) flags (vfs_fs v) = (st, info, s')"
      using prod_cases3 by blast
    have "files_ok (v\<lparr>vfs_fs := s'\<rparr>)" using files_ok_fs [OF ok] ramfs_open_inv [OF inv s'] by blast
    moreover from files_ok_update [OF this]
    have "files_ok (v\<lparr>vfs_fs := s', vfs_open_files := (vfs_open_files v)[i :=
        \<lparr>of_used = True, of_refs = 1, of_path = p, of_flags = flags, of_offset = 0\<rparr>]\<rparr>)" for i p
      by (simp add: file_ok_def)
    ultimately show ?thesis using ok s' by (auto simp: vfs_open_def split_beta Let_def)
  qed
  show "files_ok (snd (snd (vfs_read fd buf n v)))"
  proof (cases "vfs_fd_valid fd v")
    case True
    obtain r d where r: "simplefs_read (Some (cstr_at (of_path ?f))) (of_offset ?f) buf n (vfs_fs v) = (r, d)" by force
    have "files_ok (advance_offset fd r v)"
      using files_ok_move [OF ok True] read_past [OF inv r] by blast
    then show ?thesis using ok unfolding vfs_read_def Let_def r prod.case by simp
  qed (use ok in \<open>simp add: vfs_read_def\<close>)
  show "files_ok (snd (vfs_write fd src n v))" if n: "unat n \<le> 2 ^ 31"
  proof (cases "vfs_fd_valid fd v")
    case True
    obtain r s' where r: "simplefs_write (Some (cstr_at (of_path ?f))) (of_offset ?f) src n (vfs_fs v) = (r, s')" by force
    have small: "unat (of_offset ?f) + unat n + 511 < 2 ^ 32" using files_ok_nth(2) [OF ok True] n by simp
    have "files_ok (v\<lparr>vfs_fs := s'\<rparr>)" using files_ok_fs [OF ok] ramfs_write_inv [OF inv r small] by blast
    then have "files_ok (advance_offset fd r (v\<lparr>vfs_fs := s'\<rparr>))"
      by (rule files_ok_move) (use True write_past [OF inv r _ small] in \<open>simp_all add: vfs_fd_valid_def\<close>)
    then show ?thesis using ok unfolding vfs_write_def Let_def r prod.case by simp
  qed (use ok in \<open>simp add: vfs_write_def\<close>)
  have zero: "file_ok zero_file" "of_offset zero_file = 0" by (simp_all add: file_ok_def zero_file_def)
  show "files_ok (snd (vfs_close fd v))"
  proof (cases "vfs_fd_valid fd v")
    case True
    have "file_ok (?f\<lparr>of_refs := of_refs ?f - 1\<rparr>)" if "1 < of_refs ?f"
    proof -
      have "of_refs ?f - 1 \<noteq> 0" using that by auto
      then show ?thesis using files_ok_nth(1) [OF ok True] that by (auto simp: file_ok_def)
    qed
    then show ?thesis
      using files_ok_update [OF ok, of "?f\<lparr>of_refs := of_refs ?f - 1\<rparr>" "nat fd"] files_ok_update [OF ok zero(1), of "nat fd"]
        files_ok_nth(2) [OF ok True] True zero(2) by (simp add: vfs_close_def Let_def)
  qed (use ok in \<open>simp add: vfs_close_def\<close>)
  show "files_ok (snd (vfs_retain fd v))"
  proof (cases "vfs_fd_valid fd v \<and> of_refs ?f \<noteq> 0xFFFFFFFF")
    case True
    have "file_ok (?f\<lparr>of_refs := of_refs ?f + 1\<rparr>)"
      using files_ok_nth(1) [OF ok] True u32_inc(2) [of "of_refs ?f"] by (auto simp: file_ok_def vfs_fd_valid_def)
    then show ?thesis
      using files_ok_update [OF ok, of "?f\<lparr>of_refs := of_refs ?f + 1\<rparr>" "nat fd"] files_ok_nth(2) [OF ok] True
      by (simp add: vfs_retain_def Let_def)
  qed (use ok in \<open>auto simp: vfs_retain_def\<close>)
qed

section \<open>Properties\<close>

text \<open>Besides the entries into the kernel, the disk may be formatted and mounted again at any time.\<close>

inductive files_step :: "ramdisk_data kernel \<Rightarrow> ramdisk_data kernel \<Rightarrow> bool" where
  enter: "kernel_step k k' \<Longrightarrow> files_step k k'"
| reformat: "vfs_format (k_vfs k) = (st, v) \<Longrightarrow> files_step k (k\<lparr>k_vfs := v\<rparr>)"
| remount: "vfs_mount (k_vfs k) = (st, v) \<Longrightarrow> files_step k (k\<lparr>k_vfs := v\<rparr>)"

lemma files_ok_format:
  assumes "files_ok v" and "vfs_format v = (st, v')"
  shows "files_ok v'"
proof -
  obtain s' where s': "simplefs_format (Some ramdisk_dev) (vfs_fs v) = (VFS_SUCCESS, s')" "ramfs_inv s'"
    using rdisk.fs_format_ok by blast
  have "v' = (vfs_clear_open_files v)\<lparr>vfs_mounted := False, vfs_fs := s'\<rparr>"
    using assms s' by (simp add: vfs_format_def files_ok_def vfs_clear_open_files_def)
  then show ?thesis
    using assms(1) s'(2) by (auto simp: files_ok_def vfs_ok_def vfs_table_ok_def vfs_clear_open_files_def file_ok_def
        zero_file_def VFS_MAX_OPEN_FILES_def)
qed

lemma files_ok_mount:
  assumes "files_ok v" and "vfs_mount v = (st, v')"
  shows "files_ok v'"
proof -
  obtain s' where s': "simplefs_mount (Some ramdisk_dev) (vfs_fs v) = (VFS_SUCCESS, s')" "ramfs_inv s'"
    using rdisk.fs_mount_ok [OF files_ok_inv [OF assms(1)] refl] by blast
  have "v' = v\<lparr>vfs_fs := s', vfs_mounted := True\<rparr>"
    using assms s'(1) by (simp add: vfs_mount_def files_ok_def)
  then show ?thesis using assms(1) s'(2) by (simp add: files_ok_def vfs_ok_def vfs_table_ok_def)
qed

lemma files_ok_step: "files_step k k' \<Longrightarrow> files_ok (k_vfs k) \<Longrightarrow> files_ok (k_vfs k')"
  by (induction rule: files_step.induct) (auto intro: files_client.step files_ok_format files_ok_mount)

lemma files_ok_init:
  assumes "vfs_init (Some ramdisk_dev) v0 = (st1, v1)" and "vfs_format v1 = (st2, v2)"
  shows "files_ok v2"
proof -
  let ?v1 = "vfs_clear_open_files (v0\<lparr>vfs_root_dev := Some ramdisk_dev, vfs_mounted := False\<rparr>)"
  have v1: "v1 = ?v1" using assms(1) by (simp add: vfs_init_def ramdisk_dev_def)
  obtain s' where s': "simplefs_format (Some ramdisk_dev) (vfs_fs ?v1) = (VFS_SUCCESS, s')" "ramfs_inv s'"
    using rdisk.fs_format_ok by blast
  have "v2 = (vfs_clear_open_files ?v1)\<lparr>vfs_mounted := False, vfs_fs := s'\<rparr>"
    using assms(2) v1 s' by (simp add: vfs_format_def vfs_clear_open_files_def)
  then show ?thesis
    using s'(2) by (auto simp: files_ok_def vfs_ok_def vfs_table_ok_def vfs_clear_open_files_def file_ok_def
        zero_file_def VFS_MAX_OPEN_FILES_def)
qed

text \<open>C9: The file system of the running kernel never becomes inconsistent. Once the file system layer has been set up on the ramdisk and the disk
  formatted, whatever state the rest of the kernel is in, no sequence of system calls (with any numbers, arguments and callers), page faults, timer interrupts,
  context switches, creations of processes, yields, reformats and remounts leads to a state in which a directory entry is malformed or
  two entries have the same name, the runs of two files share a sector, the bitmap differs from the metadata and the allocated sectors,
  or the superblock on disk differs from the one in memory. Every position of an open file stays within 2 MiB, so a write of a system call,
  at most 2 GiB long, never reaches the ends near 2^32 at which the number of sectors wraps.\<close>

theorem files_stay_consistent:
  assumes "vfs_init (Some ramdisk_dev) v0 = (st1, v1)" and "vfs_format v1 = (st2, v2)"
    and "files_step\<^sup>*\<^sup>* (k0\<lparr>k_vfs := v2\<rparr>) k"
  shows "ramfs_inv (vfs_fs (k_vfs k)) \<and> (\<forall>n c. ramfiles (vfs_fs (k_vfs k)) n = Some c \<longrightarrow> length c \<le> 2 ^ 21) \<and>
    (\<forall>f\<in>set (vfs_open_files (k_vfs k)). \<forall>buf len. unat (of_offset f) \<le> 2 ^ 21 \<and>
      (uaccess_readable buf len k \<longrightarrow> unat (of_offset f) + unat len < 2 ^ 32 - 511))"
proof -
  have "files_ok (k_vfs k)"
    using assms(3) files_ok_init [OF assms(1,2)] by (induction rule: rtranclp_induct) (auto intro: files_ok_step)
  then show ?thesis
    using files_ok_inv file_size readable_size [of _ _ k] by (fastforce simp: files_ok_def)
qed

text \<open>The kernel of the examples with a fresh disk, and any system call on it.\<close>

definition fresh_files :: "ramdisk_data kernel" where
  "fresh_files = kernel_demo\<lparr>k_vfs := snd (vfs_format (snd (vfs_init (Some ramdisk_dev) vfs_demo)))\<rparr>"

theorem files_stay_consistent_witness:
  "\<forall>num a1 a2 a3 cs frame. ramfs_inv (vfs_fs (k_vfs (snd (syscall_handler num a1 a2 a3 cs frame fresh_files))))"
proof (intro allI)
  fix num a1 a2 a3 cs frame
  obtain r k where k: "syscall_handler num a1 a2 a3 cs frame fresh_files = (r, k)" by force
  obtain st1 v1 where v1: "vfs_init (Some ramdisk_dev) vfs_demo = (st1, v1)" by force
  obtain st2 v2 where v2: "vfs_format v1 = (st2, v2)" by force
  have "files_step\<^sup>*\<^sup>* (kernel_demo\<lparr>k_vfs := v2\<rparr>) k"
    using k v1 v2 by (intro r_into_rtranclp enter kernel_step.handler) (simp add: fresh_files_def)
  from files_stay_consistent [OF v1 v2 this]
  show "ramfs_inv (vfs_fs (k_vfs (snd (syscall_handler num a1 a2 a3 cs frame fresh_files))))" using k by simp
qed

end
