(* ===== verification/Process_Spec.thy ===== *)
theory Process_Spec
  imports Fd_Lifecycle Syscall_Handle
begin

text \<open>
  The protocol between a process and its parent: an exit reaches the parent, at once when it waits and
  otherwise when it asks, and the child is collected exactly once.
\<close>

section \<open>What closing descriptors leaves alone\<close>

text \<open>All of a process but its descriptors, its place in the ready queue and its state.\<close>

definition job :: "process \<Rightarrow> process" where
  "job p = p\<lparr>p_fds := [], p_next := None, p_dynamic_priority := 0, p_state := PROCESS_DEAD\<rparr>"

definition pipe_waiter :: "process \<Rightarrow> bool" where
  "pipe_waiter p \<longleftrightarrow> p_state p = PROCESS_BLOCKED \<and> (p_block_reason p = BLOCK_PIPE_READ \<or> p_block_reason p = BLOCK_PIPE_WRITE)"

definition same_jobs :: "'d kernel \<Rightarrow> 'd kernel \<Rightarrow> bool" where
  "same_jobs k k' \<longleftrightarrow> length (process_table k') = length (process_table k) \<and> kstack k' = kstack k \<and>
     (\<forall>j < length (process_table k). job (proc k' j) = job (proc k j) \<and>
        (p_state (proc k' j) = p_state (proc k j) \<or> pipe_waiter (proc k j) \<and> p_state (proc k' j) = PROCESS_READY))"

lemma job_keeps:
  "p_pid (job p) = p_pid p" "p_esp (job p) = p_esp p" "p_parent_pid (job p) = p_parent_pid p"
  "p_exit_code (job p) = p_exit_code p" "p_exited (job p) = p_exited p" "p_waited (job p) = p_waited p"
  "p_waiting_for_child (job p) = p_waiting_for_child p" "p_wait_target_pid (job p) = p_wait_target_pid p"
  "p_wait_is_waitpid (job p) = p_wait_is_waitpid p" "p_pending_signals (job p) = p_pending_signals p"
  "p_killed_by_signal (job p) = p_killed_by_signal p" "p_block_reason (job p) = p_block_reason p" "p_wait_completion_pending (job p) = p_wait_completion_pending p"
  "p_wait_result_status (job p) = p_wait_result_status p"
  by (simp_all add: job_def)

lemma job_fields:
  assumes "job q = job p"
  shows "p_pid q = p_pid p" "p_esp q = p_esp p" "p_parent_pid q = p_parent_pid p" "p_exit_code q = p_exit_code p"
    "p_exited q = p_exited p" "p_waited q = p_waited p" "p_waiting_for_child q = p_waiting_for_child p"
    "p_wait_target_pid q = p_wait_target_pid p" "p_wait_is_waitpid q = p_wait_is_waitpid p"
    "p_pending_signals q = p_pending_signals p" "p_killed_by_signal q = p_killed_by_signal p"
    "p_block_reason q = p_block_reason p" "p_wait_completion_pending q = p_wait_completion_pending p"
    "p_wait_result_status q = p_wait_result_status p"
  by (metis assms job_keeps)+

lemma same_jobs_refl [simp]: "same_jobs k k"
  by (simp add: same_jobs_def)

lemma same_jobs_trans: "same_jobs a b \<Longrightarrow> same_jobs b c \<Longrightarrow> same_jobs a c"
proof -
  assume ab: "same_jobs a b" and bc: "same_jobs b c"
  have "job (proc c j) = job (proc a j) \<and>
      (p_state (proc c j) = p_state (proc a j) \<or> pipe_waiter (proc a j) \<and> p_state (proc c j) = PROCESS_READY)"
    if j: "j < length (process_table a)" for j
  proof -
    have "job (proc b j) = job (proc a j)" "job (proc c j) = job (proc b j)"
        "p_state (proc b j) = p_state (proc a j) \<or> pipe_waiter (proc a j) \<and> p_state (proc b j) = PROCESS_READY"
        "p_state (proc c j) = p_state (proc b j) \<or> pipe_waiter (proc b j) \<and> p_state (proc c j) = PROCESS_READY"
      using ab bc j by (simp_all add: same_jobs_def)
    then show ?thesis using job_fields(12) [of "proc b j" "proc a j"] by (auto simp: pipe_waiter_def)
  qed
  then show "same_jobs a c" using ab bc by (simp add: same_jobs_def)
qed

lemma same_jobs_set_proc_at:
  assumes "job (f (proc k i)) = job (proc k i)"
    and "p_state (f (proc k i)) = p_state (proc k i) \<or> pipe_waiter (proc k i) \<and> p_state (f (proc k i)) = PROCESS_READY"
  shows "same_jobs k (set_proc i f k)"
proof -
  have "job (proc (set_proc i f k) j) = job (proc k j) \<and> (p_state (proc (set_proc i f k) j) = p_state (proc k j) \<or>
      pipe_waiter (proc k j) \<and> p_state (proc (set_proc i f k) j) = PROCESS_READY)"
    if "j < length (process_table k)" for j
    using that assms by (cases "j = i") simp_all
  then show ?thesis by (simp add: same_jobs_def)
qed

lemma same_jobs_set_proc:
  "(\<And>p. job (f p) = job p \<and> p_state (f p) = p_state p) \<Longrightarrow> same_jobs k (set_proc i f k)"
  by (rule same_jobs_set_proc_at) simp_all

lemma same_jobs_fields:
  "process_table k' = process_table k \<Longrightarrow> kstack k' = kstack k \<Longrightarrow> same_jobs k k'"
  by (simp add: same_jobs_def)

lemma same_jobs_enqueue: "same_jobs k (enqueue i k)"
proof -
  have nx: "same_jobs t (set_proc j (\<lambda>p. p\<lparr>p_next := x\<rparr>) t)" for t :: "'a kernel" and j x
    by (rule same_jobs_set_proc) (simp add: job_def)
  have dp: "same_jobs t (set_proc j (\<lambda>p. p\<lparr>p_dynamic_priority := base_priority p\<rparr>) t)" for t :: "'a kernel" and j
    by (rule same_jobs_set_proc) (simp add: job_def)
  let ?k = "set_proc i (\<lambda>p. p\<lparr>p_next := None\<rparr>) k"
  let ?k2 = "if p_dynamic_priority (proc ?k i) = 0 then set_proc i (\<lambda>p. p\<lparr>p_dynamic_priority := base_priority p\<rparr>) ?k else ?k"
  have k2: "same_jobs k ?k2" using nx same_jobs_trans [OF nx dp] by simp
  have "same_jobs ?k2 (if ready_queue ?k2 = None then ?k2\<lparr>ready_queue := Some i\<rparr>
      else snd (with_queue (\<lambda>ps k. ((), set_proc (last ps) (\<lambda>p. p\<lparr>p_next := Some i\<rparr>) k)) () ?k2))"
    using nx [of ?k2] by (auto simp: with_queue_def same_jobs_fields simp del: set_proc_fields split: option.split)
  then show ?thesis unfolding enqueue_def Let_def using same_jobs_trans [OF k2] by blast
qed

lemma same_jobs_wake_pipe:
  assumes "reason = BLOCK_PIPE_READ \<or> reason = BLOCK_PIPE_WRITE"
  shows "same_jobs k (process_wake_pipe_waiter index reason k)"
proof -
  have "same_jobs k (scheduler_wake (Some i) k)" if "p_state (proc k i) = PROCESS_BLOCKED" "p_block_reason (proc k i) = reason" for i
  proof -
    have "same_jobs k (set_proc i (\<lambda>p. p\<lparr>p_state := PROCESS_READY\<rparr>) k)"
      using that assms by (intro same_jobs_set_proc_at) (auto simp: job_def pipe_waiter_def)
    then show ?thesis using that same_jobs_trans [OF _ same_jobs_enqueue] by (simp add: scheduler_wake_def)
  qed
  then show ?thesis
    by (auto simp: process_wake_pipe_waiter_def first_index_Some_iff split: option.split)
qed

lemma same_jobs_fd_close: "same_jobs k (snd (process_fd_close pr fd k))"
proof -
  have p: "same_jobs t (snd (k_pipe_close h t))" for h and t :: "'a kernel"
  proof (cases "pipe_close process_wake_pipe_waiter h (k_pipes t, t)")
    case (fields r ps t')
    then have "t' = t \<or> (\<exists>i reason. t' = process_wake_pipe_waiter i reason t \<and> (reason = BLOCK_PIPE_READ \<or> reason = BLOCK_PIPE_WRITE))"
      by (auto simp: pipe_close_def Let_def split: option.splits if_splits)
    then have "same_jobs t t'" using same_jobs_wake_pipe by auto
    then have "same_jobs t (t'\<lparr>k_pipes := ps\<rparr>)" by (rule same_jobs_trans) (simp add: same_jobs_fields)
    then show ?thesis using fields by (simp add: k_pipe_close_def)
  qed
  have f: "same_jobs t (set_proc i (\<lambda>p. p\<lparr>p_fds := (p_fds p)[n := empty_fd]\<rparr>) t)" for i n and t :: "'a kernel"
    by (rule same_jobs_set_proc) (simp add: job_def)
  have v: "same_jobs t (snd (k_vfs_close h t))" for h and t :: "'a kernel"
    by (rule same_jobs_fields) (simp_all add: k_vfs_close_def split_beta)
  show ?thesis
    using same_jobs_trans [OF f p] same_jobs_trans [OF f v]
    by (auto simp: process_fd_close_def Let_def split_beta split: option.split)
qed

lemma same_jobs_close_all: "same_jobs k (process_fd_close_all pr k)"
proof (cases pr)
  case (Some i)
  have "same_jobs k (if b then snd (process_fd_close (Some i) fd t) else t)" if "same_jobs k t" for b fd and t :: "'a kernel"
    using that same_jobs_trans [OF that same_jobs_fd_close] by simp
  then show ?thesis
    unfolding process_fd_close_all_def Some option.case
    by (intro for_loop_invariant [where P = "same_jobs k"]) auto
qed (simp add: process_fd_close_all_def)

lemma same_jobs_remove: "same_jobs k (scheduler_remove pr k)"
proof -
  have nx: "same_jobs t (set_proc j (\<lambda>p. p\<lparr>p_next := x\<rparr>) t)" for t :: "'a kernel" and j x
    by (rule same_jobs_set_proc) (simp add: job_def)
  have "same_jobs t (remove_from n prev item i t)" for n prev item i and t :: "'a kernel"
  proof (induction n prev item i t rule: remove_from.induct)
    case (3 n prev item i t)
    have "same_jobs t (case prev of Some q \<Rightarrow> set_proc q (\<lambda>p. p\<lparr>p_next := p_next (proc t item)\<rparr>) t
        | None \<Rightarrow> t\<lparr>ready_queue := p_next (proc t item)\<rparr>)"
      using nx by (auto simp: same_jobs_fields simp del: set_proc_fields split: option.split)
    then show ?case using 3 same_jobs_trans [OF _ nx] by (auto simp: Let_def)
  qed (simp_all add: same_jobs_def)
  then show ?thesis by (simp add: scheduler_remove_def split: option.split)
qed

section \<open>The exit of a process\<close>

definition adopt :: "process \<Rightarrow> process" where
  "adopt p = p\<lparr>p_parent_pid := 0, p_waited := p_waited p \<or> p_state p = PROCESS_ZOMBIE\<rparr>"

lemma adopt_fields [simp]:
  "p_pid (adopt p) = p_pid p" "p_state (adopt p) = p_state p" "p_esp (adopt p) = p_esp p" "p_parent_pid (adopt p) = 0"
  "p_waiting_for_child (adopt p) = p_waiting_for_child p" "p_wait_target_pid (adopt p) = p_wait_target_pid p"
  "p_wait_is_waitpid (adopt p) = p_wait_is_waitpid p" "p_pending_signals (adopt p) = p_pending_signals p"
  by (simp_all add: adopt_def)

definition orphaned :: "u32 \<Rightarrow> process \<Rightarrow> process" where
  "orphaned pid p = (if p_state p \<noteq> PROCESS_DEAD \<and> p_parent_pid p = pid then adopt p else p)"

lemma orphan_loop:
  assumes "n \<le> length (process_table k)"
  shows "length (process_table (for_loop 0 n (\<lambda>j k. orphan pid j k) k)) = length (process_table k) \<and>
    kstack (for_loop 0 n (\<lambda>j k. orphan pid j k) k) = kstack k \<and>
    (\<forall>j. proc (for_loop 0 n (\<lambda>j k. orphan pid j k) k) j = (if j < n then orphaned pid (proc k j) else proc k j))"
  using assms
proof (induction n)
  case 0
  then show ?case by (simp add: for_loop_done)
next
  case (Suc n)
  define t where "t = for_loop 0 n (\<lambda>j k. orphan pid j k) k"
  have IH: "length (process_table t) = length (process_table k)" "kstack t = kstack k"
      "\<And>j. proc t j = (if j < n then orphaned pid (proc k j) else proc k j)" using Suc by (simp_all add: t_def)
  have tn: "proc t n = proc k n" by (simp add: IH(3))
  have "proc (orphan pid n t) j = (if j = n then orphaned pid (proc k n) else proc t j)" for j
    using IH(1) Suc.prems tn by (cases "j = n") (simp_all add: orphan_def orphaned_def adopt_def)
  moreover have "length (process_table (orphan pid n t)) = length (process_table k)" "kstack (orphan pid n t) = kstack k"
    using IH by (simp_all add: orphan_def)
  moreover have "for_loop 0 (Suc n) (\<lambda>j k. orphan pid j k) k = orphan pid n t" by (simp add: for_loop_last t_def)
  ultimately show ?case using IH(3) by (simp add: less_Suc_eq)
qed

text \<open>The loop reads the pid of the exited process from the table each time; it stays the same.\<close>

lemma orphan_loop_pid:
  assumes "n \<le> length (process_table k)"
  shows "for_loop 0 n (\<lambda>j k. orphan (p_pid (proc k i)) j k) k = for_loop 0 n (\<lambda>j t. orphan (p_pid (proc k i)) j t) k"
  using assms
proof (induction n)
  case (Suc n)
  have "p_pid (proc (for_loop 0 n (\<lambda>j t. orphan (p_pid (proc k i)) j t) k) i) = p_pid (proc k i)"
    using orphan_loop [of n k "p_pid (proc k i)"] Suc.prems by (simp add: orphaned_def)
  then show ?case using Suc by (simp add: for_loop_last)
qed (simp add: for_loop_done)

definition waits_for :: "process \<Rightarrow> u32 \<Rightarrow> bool" where
  "waits_for p pid \<longleftrightarrow> p_state p = PROCESS_BLOCKED \<and> p_waiting_for_child p \<and>
     (p_wait_target_pid p = -1 \<or> p_wait_target_pid p = pid)"

definition only_pid :: "nat \<Rightarrow> 'd kernel \<Rightarrow> bool" where
  "only_pid i k \<longleftrightarrow> p_pid (proc k i) \<noteq> 0 \<and>
     (\<forall>j < MAX_PROCESSES. j \<noteq> i \<and> p_state (proc k j) \<noteq> PROCESS_DEAD \<longrightarrow> p_pid (proc k j) \<noteq> p_pid (proc k i))"

lemma only_pid_transfer:
  assumes "only_pid i k" and "i < 16"
    and "\<And>j. j < 16 \<Longrightarrow> p_pid (proc t j) = p_pid (proc k j) \<and> (p_state (proc k j) = PROCESS_DEAD \<longrightarrow> p_state (proc t j) = PROCESS_DEAD)"
  shows "only_pid i t"
proof -
  have "p_pid (proc t j) \<noteq> p_pid (proc t i)" if "j < 16" "j \<noteq> i" "p_state (proc t j) \<noteq> PROCESS_DEAD" for j
    using assms(1) that assms(3) [OF that(1)] assms(3) [OF assms(2)] unfolding only_pid_def MAX_PROCESSES_def by metis
  then show ?thesis using assms(1) assms(3) [OF assms(2)] by (simp add: only_pid_def MAX_PROCESSES_def)
qed

lemma get_by_only_pid:
  "only_pid i k \<Longrightarrow> i < MAX_PROCESSES \<Longrightarrow> p_state (proc k i) \<noteq> PROCESS_DEAD \<Longrightarrow> process_get_by_pid (p_pid (proc k i)) k = Some i"
  by (auto simp: process_get_by_pid_def first_index_Some_iff only_pid_def intro: less_trans)

text \<open>\<open>announce_exit\<close> up to the wake-up of the parent, for a parent that can be told.\<close>

definition told_parent :: "u32 \<Rightarrow> process \<Rightarrow> process" where
  "told_parent pid p = (let p = orphaned pid p in p\<lparr>p_pending_signals := p_pending_signals p OR signal_bit SIGCHLD\<rparr>)"

definition given_status :: "u32 \<Rightarrow> u32 \<Rightarrow> process \<Rightarrow> process" where
  "given_status status code p = p\<lparr>p_wait_result_status := (if p_wait_is_waitpid p then status else code),
     p_wait_completion_pending := True, p_waiting_for_child := False, p_block_reason := BLOCK_NONE\<rparr>"

definition exited :: "process \<Rightarrow> process" where
  "exited p = p\<lparr>p_state := PROCESS_ZOMBIE, p_block_reason := BLOCK_NONE\<rparr>"

lemma exited_fields [simp]:
  "p_pid (exited p) = p_pid p" "p_state (exited p) = PROCESS_ZOMBIE" "p_parent_pid (exited p) = p_parent_pid p"
  "p_exit_code (exited p) = p_exit_code p" "exit_status (exited p) = exit_status p" "p_waited (exited p) = p_waited p"
  "p_exited (exited p) = p_exited p" "p_fds (exited p) = p_fds p" "p_killed_by_signal (exited p) = p_killed_by_signal p"
  by (simp_all add: exited_def exit_status_def)

lemma told_parent_fields [simp]:
  "p_pid (told_parent pid p) = p_pid p" "p_state (told_parent pid p) = p_state p" "p_esp (told_parent pid p) = p_esp p"
  "p_waiting_for_child (told_parent pid p) = p_waiting_for_child p" "p_wait_target_pid (told_parent pid p) = p_wait_target_pid p"
  "p_wait_is_waitpid (told_parent pid p) = p_wait_is_waitpid p"
  "p_pending_signals (told_parent pid p) = p_pending_signals p OR signal_bit SIGCHLD"
  by (simp_all add: told_parent_def orphaned_def Let_def)

lemma given_status_fields [simp]:
  "p_pid (given_status st c p) = p_pid p" "p_state (given_status st c p) = p_state p" "p_esp (given_status st c p) = p_esp p"
  "p_pending_signals (given_status st c p) = p_pending_signals p" "p_parent_pid (given_status st c p) = p_parent_pid p"
  "p_wait_completion_pending (given_status st c p)" "\<not> p_waiting_for_child (given_status st c p)"
  "p_wait_result_status (given_status st c p) = (if p_wait_is_waitpid p then st else c)"
  by (simp_all add: given_status_def)

lemma announce_exit_told:
  assumes "length (process_table k) = 16" and "i < 16" and "pa < 16" and "i \<noteq> pa"
    and "p_state (proc k i) \<noteq> PROCESS_DEAD" and "p_state (proc k pa) \<noteq> PROCESS_DEAD" "p_state (proc k pa) \<noteq> PROCESS_ZOMBIE"
    and "p_parent_pid (proc k i) = p_pid (proc k pa)" and "only_pid pa k"
  shows "\<exists>t. length (process_table t) = 16 \<and> kstack t = kstack k \<and>
    (\<forall>j < 16. proc t j = (if j = i then exited (proc k i) else if j = pa then told_parent (p_pid (proc k i)) (proc k pa)
       else orphaned (p_pid (proc k i)) (proc k j))) \<and>
    announce_exit i k =
      (if waits_for (proc k pa) (p_pid (proc k i)) then
         let t = set_proc pa (given_status (exit_status (proc k i)) (p_exit_code (proc k i))) t;
             t = (if p_esp (proc t pa) \<noteq> 0 then set_field (p_esp (proc t pa)) EAX (p_pid (proc t i)) t else t)
         in scheduler_wake (Some pa) (set_proc i (\<lambda>p. p\<lparr>p_waited := True\<rparr>) t)
       else t)"
proof -
  define pid where "pid = p_pid (proc k i)"
  define k1 where "k1 = set_proc i exited k"
  define k2 where "k2 = for_loop 0 MAX_PROCESSES (\<lambda>j k. orphan pid j k) k1"
  define t where "t = set_proc pa (\<lambda>p. p\<lparr>p_pending_signals := p_pending_signals p OR signal_bit SIGCHLD\<rparr>) k2"
  have len1: "length (process_table k1) = 16" and pid1: "p_pid (proc k1 i) = pid" using assms(1,2) by (simp_all add: k1_def pid_def)
  note loop = orphan_loop [of 16 k1 pid, folded MAX_PROCESSES_def, folded k2_def]
  have same: "for_loop 0 MAX_PROCESSES (\<lambda>j k. orphan (p_pid (proc k i)) j k) k1 = k2"
    using orphan_loop_pid [of MAX_PROCESSES k1 i] len1 by (simp add: k2_def pid1 MAX_PROCESSES_def)
  have k2: "length (process_table k2) = 16" "kstack k2 = kstack k" "\<And>j. j < 16 \<Longrightarrow> proc k2 j = orphaned pid (proc k1 j)"
    using loop len1 by (simp_all add: MAX_PROCESSES_def) (simp add: k1_def)
  have "p_pid (proc k pa) \<noteq> pid" using assms(2,4,5,9) by (auto simp: only_pid_def pid_def MAX_PROCESSES_def)
  then have i2: "proc k2 i = exited (proc k i)" using k2(3) assms(1,2,8) by (simp add: k1_def orphaned_def)
  have pa2: "proc k2 pa = orphaned pid (proc k pa)" using k2(3) assms(1,3,4) by (simp add: k1_def)
  have j2: "proc k2 j = orphaned pid (proc k j)" if "j < 16" "j \<noteq> i" for j using k2(3) assms(1) that by (simp add: k1_def)
  have keep: "p_pid (proc k2 j) = p_pid (proc k j) \<and> (p_state (proc k2 j) = PROCESS_DEAD \<longleftrightarrow> p_state (proc k j) = PROCESS_DEAD)"
    if "j < 16" for j
    using that i2 j2 [of j] assms(5) by (cases "j = i") (simp_all add: orphaned_def)
  have "only_pid pa k2" using assms(3,9) keep by (simp add: only_pid_def MAX_PROCESSES_def)
  then have get: "process_get_by_pid (p_parent_pid (proc k2 i)) k2 = Some pa"
    using get_by_only_pid [of pa k2] i2 keep [OF assms(3)] assms(3,6,8) by (simp add: MAX_PROCESSES_def)
  have t: "snd (process_send_signal (Some pa) SIGCHLD k2) = t"
    using pa2 assms(6,7) by (simp add: process_send_signal_def t_def orphaned_def)
  have tp: "proc t j = (if j = i then exited (proc k i) else if j = pa then told_parent pid (proc k pa) else orphaned pid (proc k j))"
    if "j < 16" for j
    using that i2 pa2 j2 k2(1) assms(3,4) by (simp add: t_def told_parent_def Let_def)
  have step: "(\<lambda>p. p\<lparr>p_state := PROCESS_ZOMBIE, p_block_reason := BLOCK_NONE\<rparr>) = exited"
    "(\<lambda>p. p\<lparr>p_wait_result_status := (if p_wait_is_waitpid p then st else p_exit_code (proc t i)),
       p_wait_completion_pending := True, p_waiting_for_child := False, p_block_reason := BLOCK_NONE\<rparr>) = given_status st (p_exit_code (proc t i))"
    for st by (simp_all add: fun_eq_iff exited_def given_status_def)
  have cond: "(p_state (proc t pa) = PROCESS_BLOCKED \<and> p_waiting_for_child (proc t pa) \<and>
      (p_wait_target_pid (proc t pa) = -1 \<or> p_wait_target_pid (proc t pa) = p_pid (proc t i))) = waits_for (proc k pa) pid"
    using tp assms(2-4) by (simp add: waits_for_def pid_def)
  have st: "p_state (proc k2 pa) \<noteq> PROCESS_ZOMBIE" using pa2 assms(7) by (simp add: orphaned_def)
  have "announce_exit i k =
      (if waits_for (proc k pa) pid then
         let t = set_proc pa (given_status (exit_status (proc k i)) (p_exit_code (proc k i))) t;
             t = (if p_esp (proc t pa) \<noteq> 0 then set_field (p_esp (proc t pa)) EAX (p_pid (proc t i)) t else t)
         in scheduler_wake (Some pa) (set_proc i (\<lambda>p. p\<lparr>p_waited := True\<rparr>) t)
       else t)"
    unfolding announce_exit_def Let_def step(1) k1_def [symmetric] same get option.case t step(2) cond
    using st tp assms(1-4) by (simp add: k1_def)
  moreover have "length (process_table t) = 16" "kstack t = kstack k" using k2 by (simp_all add: t_def)
  ultimately show ?thesis using tp unfolding pid_def by blast
qed

text \<open>The wake-up adds nothing but the place in the queue.\<close>

lemma wake_told:
  assumes "length (process_table t) = 16" and "pa < 16" and "p_state (proc t pa) = PROCESS_BLOCKED" and "j < 16"
  defines "k' \<equiv> scheduler_wake (Some pa) t"
  shows "job (proc k' j) = job (proc t j) \<and> (\<not> pipe_waiter (proc t j) \<longrightarrow> j \<noteq> pa \<longrightarrow> p_state (proc k' j) = p_state (proc t j)) \<and>
    p_state (proc k' pa) = PROCESS_READY \<and> kstack k' = kstack t"
proof -
  let ?t = "set_proc pa (\<lambda>p. p\<lparr>p_state := PROCESS_READY\<rparr>) t"
  have k': "k' = enqueue pa ?t" using assms(3) by (simp add: k'_def scheduler_wake_def)
  have pr: "proc ?t j = (if j = pa then (proc t pa)\<lparr>p_state := PROCESS_READY\<rparr> else proc t j)" for j
    using assms(1,2) by simp
  have "job (proc ?t j) = job (proc t j)" using pr by (simp add: job_def)
  then show ?thesis
    using same_jobs_enqueue [of ?t pa] assms(1,2,4) unfolding k' same_jobs_def pr
    by (auto simp: pipe_waiter_def)
qed

lemma wake_given:
  assumes "length (process_table t) = 16" and "i < 16" "pa < 16" "i \<noteq> pa"
    and "p_state (proc t i) = PROCESS_ZOMBIE" and "p_state (proc t pa) = PROCESS_BLOCKED"
    and "k' = (let t = set_proc pa (given_status status code) t;
         t = (if p_esp (proc t pa) \<noteq> 0 then set_field (p_esp (proc t pa)) EAX (p_pid (proc t i)) t else t)
       in scheduler_wake (Some pa) (set_proc i (\<lambda>p. p\<lparr>p_waited := True\<rparr>) t))"
  shows "job (proc k' i) = job ((proc t i)\<lparr>p_waited := True\<rparr>)"
    and "job (proc k' pa) = job (given_status status code (proc t pa))"
    and "\<And>j. j < 16 \<Longrightarrow> j \<noteq> i \<Longrightarrow> j \<noteq> pa \<Longrightarrow> job (proc k' j) = job (proc t j)"
    and "p_state (proc k' i) = PROCESS_ZOMBIE" and "p_state (proc k' pa) = PROCESS_READY"
    and "p_esp (proc t pa) \<noteq> 0 \<Longrightarrow> get_field (p_esp (proc t pa)) EAX k' = p_pid (proc t i)"
proof -
  define u where "u = set_proc pa (given_status status code) t"
  define v where "v = (if p_esp (proc u pa) \<noteq> 0 then set_field (p_esp (proc u pa)) EAX (p_pid (proc u i)) u else u)"
  define x where "x = set_proc i (\<lambda>p. p\<lparr>p_waited := True\<rparr>) v"
  have k'x: "k' = scheduler_wake (Some pa) x" by (simp add: assms(7) u_def v_def x_def Let_def)
  have u: "length (process_table u) = 16" "proc u j = (if j = pa then given_status status code (proc t pa) else proc t j)" for j
    using assms(1,3) by (simp_all add: u_def)
  have v: "process_table v = process_table u" "proc v j = proc u j" for j by (simp_all add: v_def set_field_def)
  have x: "length (process_table x) = 16" "kstack x = kstack v" "proc x j = (if j = i then (proc t i)\<lparr>p_waited := True\<rparr> else proc u j)" for j
    using u v assms(2,4) by (simp_all add: x_def)
  have bl: "p_state (proc x pa) = PROCESS_BLOCKED" using x(3) u(2) assms(4,6) by simp
  note wk = wake_told [OF x(1) assms(3) bl, folded k'x]
  show "job (proc k' i) = job ((proc t i)\<lparr>p_waited := True\<rparr>)" using wk [OF assms(2)] x(3) by simp
  show "job (proc k' pa) = job (given_status status code (proc t pa))" using wk [OF assms(3)] x(3) u(2) assms(4) by simp
  show "job (proc k' j) = job (proc t j)" if "j < 16" "j \<noteq> i" "j \<noteq> pa" for j using wk [OF that(1)] x(3) u(2) that by simp
  show "p_state (proc k' i) = PROCESS_ZOMBIE" "p_state (proc k' pa) = PROCESS_READY"
    using wk [OF assms(2)] x(3) assms(4,5) by (auto simp: pipe_waiter_def)
  show "get_field (p_esp (proc t pa)) EAX k' = p_pid (proc t i)" if "p_esp (proc t pa) \<noteq> 0"
    using that wk [OF assms(2)] x(2) u(2) assms(4) by (simp add: v_def get_field_def set_field_def)
qed

lemma exit_code_status:
  "W_EXITCODE (if code AND 0x80000000 \<noteq> 0 then code else code AND 0xFF) sg = W_EXITCODE code sg"
  by (simp add: W_EXITCODE_def and.assoc)

text \<open>The state when \<open>announce_exit\<close> starts.\<close>

lemma closed_for_exit:
  fixes k :: "'d kernel" and code :: u32
  assumes "length (process_table k) = 16" and "i < 16"
  defines "c \<equiv> if code AND 0x80000000 \<noteq> 0 then code else code AND 0xFF"
  defines "kc \<equiv> process_fd_close_all (Some i) (set_proc i (\<lambda>p. p\<lparr>p_exit_code := c, p_exited := True\<rparr>) (scheduler_remove (Some i) k))"
  shows "length (process_table kc) = 16" "kstack kc = kstack k"
    "\<And>j. j < 16 \<Longrightarrow> job (proc kc j) = job (if j = i then (proc k i)\<lparr>p_exit_code := c, p_exited := True\<rparr> else proc k j)"
    "\<And>j. j < 16 \<Longrightarrow> p_state (proc kc j) = p_state (proc k j) \<or> pipe_waiter (proc k j) \<and> p_state (proc kc j) = PROCESS_READY"
proof -
  let ?r = "scheduler_remove (Some i) k"
  let ?s = "set_proc i (\<lambda>p. p\<lparr>p_exit_code := c, p_exited := True\<rparr>) ?r"
  have r: "same_jobs k ?r" by (rule same_jobs_remove)
  have c: "same_jobs ?s kc" unfolding kc_def by (rule same_jobs_close_all)
  show "length (process_table kc) = 16" "kstack kc = kstack k" using r c assms(1) by (simp_all add: same_jobs_def)
  have s: "proc ?s j = (if j = i then (proc ?r i)\<lparr>p_exit_code := c, p_exited := True\<rparr> else proc ?r j)" for j
    using r assms(1,2) by (simp add: same_jobs_def)
  have upd: "job (p\<lparr>p_exit_code := c, p_exited := True\<rparr>) = (job p)\<lparr>p_exit_code := c, p_exited := True\<rparr>" for p by (simp add: job_def)
  fix j :: nat assume j: "j < 16"
  have jr: "job (proc ?r j) = job (proc k j)" "p_state (proc ?r j) = p_state (proc k j) \<or> pipe_waiter (proc k j) \<and> p_state (proc ?r j) = PROCESS_READY"
    using r j assms(1) by (simp_all add: same_jobs_def)
  have jc: "job (proc kc j) = job (proc ?s j)" "p_state (proc kc j) = p_state (proc ?s j) \<or> pipe_waiter (proc ?s j) \<and> p_state (proc kc j) = PROCESS_READY"
    using c j r assms(1) by (simp_all add: same_jobs_def)
  show "job (proc kc j) = job (if j = i then (proc k i)\<lparr>p_exit_code := c, p_exited := True\<rparr> else proc k j)"
    using jc(1) jr(1) unfolding s by (cases "j = i") (simp_all add: upd)
  have "p_state (proc ?s j) = p_state (proc ?r j)" "pipe_waiter (proc ?s j) = pipe_waiter (proc ?r j)" unfolding s by (auto simp: pipe_waiter_def)
  then show "p_state (proc kc j) = p_state (proc k j) \<or> pipe_waiter (proc k j) \<and> p_state (proc kc j) = PROCESS_READY"
    using jc(2) jr(2) job_fields(12) [OF jr(1)] by (auto simp: pipe_waiter_def)
qed

text \<open>A process and the parent that will be told of its exit.\<close>

definition parent_of :: "nat \<Rightarrow> nat \<Rightarrow> 'd kernel \<Rightarrow> bool" where
  "parent_of pa i k \<longleftrightarrow> length (process_table k) = 16 \<and> i < 16 \<and> pa < 16 \<and> i \<noteq> pa \<and>
     p_state (proc k i) \<notin> {PROCESS_DEAD, PROCESS_ZOMBIE} \<and> p_state (proc k pa) \<notin> {PROCESS_DEAD, PROCESS_ZOMBIE} \<and>
     p_parent_pid (proc k i) = p_pid (proc k pa) \<and> only_pid pa k \<and> only_pid i k \<and> p_pid (proc k i) \<noteq> -1 \<and>
     (p_waiting_for_child (proc k pa) \<longrightarrow> p_block_reason (proc k pa) = BLOCK_WAIT_CHILD)"

definition end_status :: "process \<Rightarrow> u32 \<Rightarrow> u32" where
  "end_status p code = (if p_killed_by_signal p \<noteq> 0 then W_EXITCODE 0 (p_killed_by_signal p) else W_EXITCODE code 0)"

definition kept_code :: "u32 \<Rightarrow> u32" where
  "kept_code code = (if code AND 0x80000000 \<noteq> 0 then code else code AND 0xFF)"

lemma exited_child_found:
  assumes "length (process_table k) = 16" and "c < 16" and "only_pid c k" and "p_state (proc k c) = PROCESS_ZOMBIE"
    and "p_exited (proc k c)" and "\<not> p_waited (proc k c)" and "p_parent_pid (proc k c) = pid" and "pid \<noteq> 0"
    and "p_pid (proc k c) \<noteq> -1"
  shows "process_find_exited_child_by_pid pid (p_pid (proc k c)) k = Some c"
  using assms
  by (auto simp: process_find_exited_child_by_pid_def first_index_Some_iff only_pid_def MAX_PROCESSES_def Let_def)

lemma mark_exit_at:
  fixes k :: "'d kernel" and code :: u32
  assumes "parent_of pa i k"
  defines "c \<equiv> if code AND 0x80000000 \<noteq> 0 then code else code AND 0xFF"
    and "w \<equiv> waits_for (proc k pa) (p_pid (proc k i))"
    and "k' \<equiv> process_mark_exit (Some i) code k"
  shows "\<exists>(kc :: 'd kernel) t. length (process_table t) = 16 \<and> kstack t = kstack k \<and>
    (\<forall>j < 16. proc t j = (if j = i then exited (proc kc i) else if j = pa then told_parent (p_pid (proc k i)) (proc kc pa)
       else orphaned (p_pid (proc k i)) (proc kc j))) \<and>
    (\<forall>j < 16. job (proc kc j) = job (if j = i then (proc k i)\<lparr>p_exit_code := c, p_exited := True\<rparr> else proc k j)) \<and>
    (\<forall>j < 16. p_state (proc kc j) = p_state (proc k j) \<or> pipe_waiter (proc k j) \<and> p_state (proc kc j) = PROCESS_READY) \<and>
    k' = (if w then
         let t = set_proc pa (given_status (end_status (proc k i) code) c) t;
             t = (if p_esp (proc t pa) \<noteq> 0 then set_field (p_esp (proc t pa)) EAX (p_pid (proc t i)) t else t)
         in scheduler_wake (Some pa) (set_proc i (\<lambda>p. p\<lparr>p_waited := True\<rparr>) t)
       else t)"
proof -
  define kc where "kc = process_fd_close_all (Some i) (set_proc i (\<lambda>p. p\<lparr>p_exit_code := c, p_exited := True\<rparr>) (scheduler_remove (Some i) k))"
  note P = assms(1) [unfolded parent_of_def]
  note cl = closed_for_exit [where k = k and i = i and code = code, folded c_def, folded kc_def]
  have jobs: "job (proc kc j) = job (if j = i then (proc k i)\<lparr>p_exit_code := c, p_exited := True\<rparr> else proc k j)"
      "p_state (proc kc j) = p_state (proc k j) \<or> pipe_waiter (proc k j) \<and> p_state (proc kc j) = PROCESS_READY" if "j < 16" for j
    using cl P that by auto
  have len: "length (process_table kc) = 16" "kstack kc = kstack k" using cl P by auto
  have fields: "p_pid (proc kc j) = p_pid (proc k j)" "p_parent_pid (proc kc j) = p_parent_pid (proc k j)" if "j < 16" for j
    using job_fields(1,3) [OF jobs(1) [OF that]] by auto
  have dead: "p_state (proc kc j) = PROCESS_DEAD \<longleftrightarrow> p_state (proc k j) = PROCESS_DEAD" if "j < 16" for j
    using jobs(2) [OF that] by (auto simp: pipe_waiter_def)
  have i_ok: "p_state (proc kc i) \<noteq> PROCESS_DEAD" "p_state (proc kc pa) \<noteq> PROCESS_DEAD" "p_state (proc kc pa) \<noteq> PROCESS_ZOMBIE"
    using dead P jobs(2) [of pa] by auto
  have only: "only_pid pa kc" using P fields dead by (simp add: only_pid_def MAX_PROCESSES_def)
  have w: "waits_for (proc kc pa) (p_pid (proc k i)) = w"
    using P fields jobs(2) [of pa] job_fields(7,8) [OF jobs(1), of pa] by (auto simp: w_def waits_for_def pipe_waiter_def)
  have es: "exit_status (proc kc i) = end_status (proc k i) code" "p_exit_code (proc kc i) = c"
    using P job_fields(4,11) [OF jobs(1), of i] exit_code_status [of code 0] by (simp_all add: exit_status_def end_status_def c_def)
  have k': "k' = announce_exit i kc" using P unfolding k'_def mark_exit_unfold kc_def c_def by simp
  have i16: "i < 16" "pa < 16" "i \<noteq> pa" and par: "p_parent_pid (proc kc i) = p_pid (proc kc pa)" using P fields by simp_all
  obtain t where t: "length (process_table t) = 16" "kstack t = kstack k"
      "\<forall>j < 16. proc t j = (if j = i then exited (proc kc i) else if j = pa then told_parent (p_pid (proc k i)) (proc kc pa)
         else orphaned (p_pid (proc k i)) (proc kc j))"
      "k' = (if w then
         let t = set_proc pa (given_status (end_status (proc k i) code) c) t;
             t = (if p_esp (proc t pa) \<noteq> 0 then set_field (p_esp (proc t pa)) EAX (p_pid (proc t i)) t else t)
         in scheduler_wake (Some pa) (set_proc i (\<lambda>p. p\<lparr>p_waited := True\<rparr>) t)
       else t)"
    using announce_exit_told [OF len(1) i16 i_ok par only, unfolded w es fields(1) [OF i16(1)] len(2), folded k'] by blast
  show ?thesis by (rule exI [of _ kc], rule exI [of _ t]) (use t jobs in blast)
qed

text \<open>C21: An exit reaches the parent. When process_mark_exit ends a process whose parent lives, the process becomes a
  zombie with the wait status of its exit code, or of the signal that killed it, its own children lose their parent, and SIGCHLD
  is pending for the parent. A parent that is blocked in wait or waitpid for this child becomes ready, with the pid of the child as the result
  in its saved frame and the status recorded for it; otherwise a later wait by the parent finds the child.\<close>

theorem exit_reaches_parent:
  fixes k :: "'d kernel" and code :: u32
  assumes "parent_of pa i k"
  defines "k' \<equiv> process_mark_exit (Some i) code k"
  shows "p_state (proc k' i) = PROCESS_ZOMBIE \<and> exit_status (proc k' i) = end_status (proc k i) code \<and>
    p_pending_signals (proc k' pa) = p_pending_signals (proc k pa) OR signal_bit SIGCHLD \<and>
    (\<forall>j<16. j \<noteq> i \<and> j \<noteq> pa \<and> p_state (proc k j) \<noteq> PROCESS_DEAD \<and> p_parent_pid (proc k j) = p_pid (proc k i) \<longrightarrow>
       p_parent_pid (proc k' j) = 0) \<and>
    (if waits_for (proc k pa) (p_pid (proc k i)) then
       p_state (proc k' pa) = PROCESS_READY \<and> p_wait_completion_pending (proc k' pa) \<and> \<not> p_waiting_for_child (proc k' pa) \<and>
       p_wait_result_status (proc k' pa) = (if p_wait_is_waitpid (proc k pa) then end_status (proc k i) code else kept_code code) \<and>
       (p_esp (proc k pa) \<noteq> 0 \<longrightarrow> get_field (p_esp (proc k pa)) EAX k' = p_pid (proc k i)) \<and>
       p_waited (proc k' i)
     else p_waited (proc k i) \<or>
       process_find_exited_child_by_pid (p_pid (proc k pa)) (p_pid (proc k i)) k' = Some i)"
proof -
  note P = assms(1) [unfolded parent_of_def]
  let ?pid = "p_pid (proc k i)" and ?w = "waits_for (proc k pa) (p_pid (proc k i))"
  let ?c = "if code AND 0x80000000 \<noteq> 0 then code else code AND 0xFF"
  obtain kc :: "'d kernel" and t where t: "length (process_table t) = 16" "kstack t = kstack k"
      "\<And>j. j < 16 \<Longrightarrow> proc t j = (if j = i then exited (proc kc i) else if j = pa then told_parent ?pid (proc kc pa)
         else orphaned ?pid (proc kc j))"
      "\<And>j. j < 16 \<Longrightarrow> job (proc kc j) = job (if j = i then (proc k i)\<lparr>p_exit_code := ?c, p_exited := True\<rparr> else proc k j)"
      "\<And>j. j < 16 \<Longrightarrow> p_state (proc kc j) = p_state (proc k j) \<or> pipe_waiter (proc k j) \<and> p_state (proc kc j) = PROCESS_READY"
    and k': "k' = (if ?w then
         let t = set_proc pa (given_status (end_status (proc k i) code) ?c) t;
             t = (if p_esp (proc t pa) \<noteq> 0 then set_field (p_esp (proc t pa)) EAX (p_pid (proc t i)) t else t)
         in scheduler_wake (Some pa) (set_proc i (\<lambda>p. p\<lparr>p_waited := True\<rparr>) t)
       else t)"
    using mark_exit_at [OF assms(1), of code] unfolding k'_def by blast
  have i16: "i < 16" "pa < 16" "i \<noteq> pa" "pa \<noteq> i" using P by auto
  note ji = job_fields [OF t(4) [OF i16(1)], simplified] and jp = job_fields [OF t(4) [OF i16(2)], simplified i16 if_False]
  have ti: "p_state (proc t i) = PROCESS_ZOMBIE" "p_pid (proc t i) = ?pid" "p_parent_pid (proc t i) = p_pid (proc k pa)"
      "exit_status (proc t i) = end_status (proc k i) code" "p_exited (proc t i)" "p_waited (proc t i) = p_waited (proc k i)"
    using t(3) [OF i16(1)] ji P exit_code_status [of code 0] by (simp_all add: exit_status_def end_status_def)
  have tpa: "p_pending_signals (proc t pa) = p_pending_signals (proc k pa) OR signal_bit SIGCHLD"
      "p_esp (proc t pa) = p_esp (proc k pa)" "p_state (proc t pa) = p_state (proc kc pa)"
      "p_wait_is_waitpid (proc t pa) = p_wait_is_waitpid (proc k pa)"
    using t(3) [OF i16(2)] i16 jp by simp_all
  have dead: "p_state (proc kc j) \<noteq> PROCESS_DEAD" if "j < 16" "p_state (proc k j) \<noteq> PROCESS_DEAD" for j
    using t(5) [OF that(1)] that(2) by auto
  have orph: "p_parent_pid (proc t j) = 0"
    if "j < 16" "j \<noteq> i" "j \<noteq> pa" "p_state (proc k j) \<noteq> PROCESS_DEAD" "p_parent_pid (proc k j) = ?pid" for j
    using t(3) [OF that(1)] that dead [OF that(1,4)] job_fields(3) [OF t(4) [OF that(1)]] by (simp add: orphaned_def)
  have blocked: "p_state (proc t pa) = PROCESS_BLOCKED" if ?w
    using tpa(3) t(5) [OF i16(2)] that P by (auto simp: waits_for_def pipe_waiter_def)
  show ?thesis
  proof (cases ?w)
    case True
    note wk = wake_given [OF t(1) i16(1-3) ti(1) blocked [OF True] k' [unfolded if_P [OF True]]]
    have "exit_status (proc k' i) = exit_status (proc t i)" "p_waited (proc k' i)"
      using job_fields(4,6,11) [OF wk(1)] by (simp_all add: exit_status_def)
    moreover have "p_pending_signals (proc k' pa) = p_pending_signals (proc k pa) OR signal_bit SIGCHLD"
        "p_wait_completion_pending (proc k' pa)" "\<not> p_waiting_for_child (proc k' pa)"
        "p_wait_result_status (proc k' pa) = (if p_wait_is_waitpid (proc k pa) then end_status (proc k i) code else kept_code code)"
      using job_fields(7,10,13,14) [OF wk(2)] tpa by (simp_all add: kept_code_def)
    moreover have "p_parent_pid (proc k' j) = 0"
      if "j < 16" "j \<noteq> i" "j \<noteq> pa" "p_state (proc k j) \<noteq> PROCESS_DEAD" "p_parent_pid (proc k j) = ?pid" for j
      using job_fields(3) [OF wk(3) [OF that(1-3)]] orph [OF that] by simp
    moreover note wk(4,5) wk(6) [unfolded tpa(2) ti(2)]
    ultimately show ?thesis using True ti(4) by simp
  next
    case False
    then have k't: "k' = t" using k' by simp
    have "p_pid (proc t j) = p_pid (proc k j) \<and> (p_state (proc k j) = PROCESS_DEAD \<longrightarrow> p_state (proc t j) = PROCESS_DEAD)" if "j < 16" for j
      using t(3) [OF that] t(5) [OF that] job_fields(1) [OF t(4) [OF that]] P
      by (cases "j = i"; cases "j = pa") (auto simp: orphaned_def pipe_waiter_def)
    then have only: "only_pid i t" using P by (blast intro: only_pid_transfer)
    have pids: "p_pid (proc k pa) \<noteq> 0" "p_pid (proc t i) \<noteq> -1" using P unfolding ti(2) only_pid_def by blast+
    have "process_find_exited_child_by_pid (p_pid (proc k pa)) ?pid t = Some i" if "\<not> p_waited (proc k i)"
      using exited_child_found [OF t(1) i16(1) only ti(1,5) that [folded ti(6)] ti(3) pids] unfolding ti(2) .
    then have "p_waited (proc k i) \<or> process_find_exited_child_by_pid (p_pid (proc k pa)) ?pid k' = Some i" using k't by blast
    then show ?thesis unfolding if_not_P [OF False] using ti(1,4) tpa(1) orph unfolding k't by blast
  qed
qed

section \<open>The parent collects its child\<close>

text \<open>Checking and writing user memory changes the address space only.\<close>

lemma prepare_write_mmu: "snd (uaccess_prepare_write p n k) = k\<lparr>k_mmu := k_mmu (snd (uaccess_prepare_write p n k))\<rparr>"
  by (simp add: uaccess_prepare_write_def split_beta split: option.split)

lemma pointer_writable_mmu:
  assumes "is_user_pointer_writable p n k = (ok, k')"
  obtains m where "k' = k\<lparr>k_mmu := m\<rparr>"
proof -
  have "k' = snd (uaccess_prepare_write p n k)" using assms by (auto simp: is_user_pointer_writable_def split_beta)
  then show thesis using prepare_write_mmu [of p n k] that by metis
qed

lemma copy_to_user_mmu:
  assumes "copy_to_user p d n k = (r, k')"
  obtains m where "k' = k\<lparr>k_mmu := m\<rparr>"
proof -
  obtain st k1 where u: "uaccess_prepare_write p n k = (st, k1)" by force
  then obtain m where k1: "k1 = k\<lparr>k_mmu := m\<rparr>" using prepare_write_mmu [of p n k] by (metis snd_conv)
  consider "k' = k" | "k' = k1" | f where "k' = set_mmu f k1"
    using assms unfolding copy_to_user_def u Let_def prod.case by (metis prod.inject)
  then show thesis
  proof cases
    case 1
    then show ?thesis using that [of "k_mmu k"] by simp
  next
    case 2
    then show ?thesis using that k1 by blast
  next
    case (3 f)
    then show ?thesis using that [of "f m"] k1 by (simp add: set_mmu_def)
  qed
qed

text \<open>Destruction clears the slot and leaves the work of the others.\<close>

lemma destroy_at:
  assumes "length (process_table k) = 16" and "c < 16" and "p_state (proc k c) \<noteq> PROCESS_DEAD"
  defines "k' \<equiv> process_destroy (Some c) k"
  shows "length (process_table k') = 16" and "p_state (proc k' c) = PROCESS_DEAD" and "p_pid (proc k' c) = 0"
    and "\<And>j. j < 16 \<Longrightarrow> j \<noteq> c \<Longrightarrow> job (proc k' j) = job (proc k j) \<and>
      (p_state (proc k' j) = p_state (proc k j) \<or> pipe_waiter (proc k j) \<and> p_state (proc k' j) = PROCESS_READY)"
proof -
  let ?k1 = "process_fd_close_all (Some c) k"
  let ?k2 = "free_stack (p_kernel_stack (proc (set_mmu (paging_destroy_address_space (p_cr3 (proc ?k1 c))) ?k1) c))
    (set_mmu (paging_destroy_address_space (p_cr3 (proc ?k1 c))) ?k1)"
  have t: "process_table k' = process_table (set_proc c clear_fields ?k2)"
    using assms(3) by (simp add: k'_def process_destroy_def Let_def)
  have t2: "process_table ?k2 = process_table ?k1" by (simp add: free_stack_def Let_def)
  have c: "same_jobs k ?k1" by (rule same_jobs_close_all)
  then have len: "length (process_table ?k2) = 16" using t2 assms(1) by (simp add: same_jobs_def)
  show "length (process_table k') = 16" using t len by simp
  have at: "proc k' j = (if j = c then clear_fields (proc ?k1 c) else proc ?k1 j)" for j
    using t t2 len assms(2) by simp
  show "p_state (proc k' c) = PROCESS_DEAD" "p_pid (proc k' c) = 0"
    unfolding at by (simp_all add: clear_fields_def Let_def process_signal_init_def process_clear_test_markers_def process_fd_table_init_def)
  show "job (proc k' j) = job (proc k j) \<and>
      (p_state (proc k' j) = p_state (proc k j) \<or> pipe_waiter (proc k j) \<and> p_state (proc k' j) = PROCESS_READY)"
    if "j < 16" "j \<noteq> c" for j
    using c that assms(1) unfolding at by (simp add: same_jobs_def)
qed

definition collectable :: "nat \<Rightarrow> nat \<Rightarrow> 'd kernel \<Rightarrow> bool" where
  "collectable c i k \<longleftrightarrow> length (process_table k) = 16 \<and> process_get_current k = Some i \<and> c < 16 \<and> only_pid c k \<and>
     p_pid (proc k c) \<noteq> -1 \<and> p_state (proc k c) = PROCESS_ZOMBIE \<and> p_exited (proc k c) \<and> \<not> p_waited (proc k c) \<and>
     p_parent_pid (proc k c) = p_pid (proc k i) \<and> p_pid (proc k i) \<noteq> 0"

lemma collectable_mmu: "collectable c i (k\<lparr>k_mmu := m\<rparr>) = collectable c i k"
  by (simp add: collectable_def only_pid_def process_get_current_def)

lemma collectable_found: "collectable c i k \<Longrightarrow> process_find_exited_child_by_pid (p_pid (proc k i)) (p_pid (proc k c)) k = Some c"
  unfolding collectable_def by (blast intro: exited_child_found)

lemma get_current_cong:
  "(\<And>j. j < 16 \<Longrightarrow> (p_state (proc k' j) = PROCESS_RUNNING) = (p_state (proc k j) = PROCESS_RUNNING)) \<Longrightarrow>
    process_get_current k = Some i \<Longrightarrow> process_get_current k' = Some i"
  by (auto simp: process_get_current_def first_index_Some_iff MAX_PROCESSES_def)

lemma reaped:
  assumes "collectable c i k"
  obtains k' where "reap_child c k = (p_pid (proc k c), None, k')" and "p_state (proc k' c) = PROCESS_DEAD"
    and "\<And>j. j < 16 \<Longrightarrow> j \<noteq> c \<Longrightarrow> job (proc k' j) = job (proc k j)"
    and "process_get_current k' = Some i" and "process_get_by_pid (p_pid (proc k c)) k' = None"
    and "process_find_exited_child_by_pid (p_pid (proc k i)) (p_pid (proc k c)) k' = None"
proof -
  note C = assms [unfolded collectable_def]
  let ?w = "set_proc c (\<lambda>p. p\<lparr>p_waited := True\<rparr>) k"
  define k' where "k' = process_destroy (Some c) ?w"
  have w: "length (process_table ?w) = 16" "proc ?w j = (if j = c then (proc k c)\<lparr>p_waited := True\<rparr> else proc k j)" for j
    using C by simp_all
  have d: "p_state (proc k' c) = PROCESS_DEAD" "p_pid (proc k' c) = 0"
      "\<And>j. j < 16 \<Longrightarrow> j \<noteq> c \<Longrightarrow> job (proc k' j) = job (proc k j) \<and>
        (p_state (proc k' j) = p_state (proc k j) \<or> pipe_waiter (proc k j) \<and> p_state (proc k' j) = PROCESS_READY)"
    using destroy_at [OF w(1), of c] C w(2) unfolding k'_def by simp_all
  have pid: "p_pid (proc k' j) = p_pid (proc k j)" if "j < 16" "j \<noteq> c" for j using d(3) [OF that] job_fields(1) by blast
  have r: "reap_child c k = (p_pid (proc k c), None, k')" using C by (simp add: reap_child_def k'_def Let_def)
  have "(p_state (proc k' j) = PROCESS_RUNNING) = (p_state (proc k j) = PROCESS_RUNNING)" if "j < 16" for j
    using d(1) d(3) [OF that] C by (cases "j = c") (auto simp: pipe_waiter_def)
  then have cur: "process_get_current k' = Some i" using C by (blast intro: get_current_cong)
  have gone: "\<not> (p_pid (proc k' j) = p_pid (proc k c) \<and> p_state (proc k' j) \<noteq> PROCESS_DEAD)" if "j < 16" for j
  proof (cases "j = c")
    case False
    then have "p_state (proc k j) = PROCESS_DEAD \<longrightarrow> p_state (proc k' j) = PROCESS_DEAD"
      using d(3) [OF that False] by (auto simp: pipe_waiter_def)
    then show ?thesis using pid [OF that False] that False C by (auto simp: only_pid_def MAX_PROCESSES_def)
  qed (simp add: d(1))
  have "process_get_by_pid (p_pid (proc k c)) k' = None" using gone by (simp add: process_get_by_pid_def first_index_None_iff MAX_PROCESSES_def)
  moreover have "process_find_exited_child_by_pid (p_pid (proc k i)) (p_pid (proc k c)) k' = None"
    using gone C by (auto simp: process_find_exited_child_by_pid_def first_index_None_iff MAX_PROCESSES_def Let_def)
  ultimately show thesis using that [OF r d(1) _ cur] d(3) by blast
qed

lemma waitpid_found:
  assumes "collectable c i k" and "options AND NOT WNOHANG = 0"
    and "sys_waitpid (p_pid (proc k c)) status_ptr options control k = (r, resume, k')"
  obtains m where "r = SYSCALL_EFAULT" "resume = None" "k' = k\<lparr>k_mmu := m\<rparr>" "status_ptr \<noteq> 0"
  | m where "(r, resume, k') = reap_child c (k\<lparr>k_mmu := m\<rparr>)"
      "status_ptr = 0 \<or> (\<exists>m0. copy_to_user status_ptr (Some (le32 (exit_status (proc k c)))) 4 (k\<lparr>k_mmu := m0\<rparr>) =
         (UACCESS_SUCCESS, k\<lparr>k_mmu := m\<rparr>))"
proof (cases "status_ptr = 0")
  case True
  then have "(r, resume, k') = reap_child c (k\<lparr>k_mmu := k_mmu k\<rparr>)"
    using assms collectable_found [OF assms(1)] by (simp add: sys_waitpid_def collectable_def)
  then show ?thesis using that(2) True by blast
next
  case False
  obtain ok k1 where w: "is_user_pointer_writable status_ptr 4 k = (ok, k1)" by force
  then obtain m1 where k1: "k1 = k\<lparr>k_mmu := m1\<rparr>" by (rule pointer_writable_mmu)
  obtain st k2 where u: "copy_to_user status_ptr (Some (le32 (exit_status (proc k c)))) 4 k1 = (st, k2)" by force
  then obtain m2 where k2: "k2 = k\<lparr>k_mmu := m2\<rparr>" using k1 by (auto elim: copy_to_user_mmu)
  have "process_find_exited_child_by_pid (p_pid (proc k i)) (p_pid (proc k c)) k1 = Some c"
    using collectable_found [of c i k1] assms(1) unfolding k1 collectable_mmu by simp
  then have "(r, resume, k') = (if \<not> ok then (SYSCALL_EFAULT, None, k1)
      else if st \<noteq> UACCESS_SUCCESS then (SYSCALL_EFAULT, None, k2) else reap_child c k2)"
    using assms(1,2) assms(3) [symmetric] w u False by (simp add: sys_waitpid_def collectable_def k1)
  then consider "r = SYSCALL_EFAULT" "resume = None" "k' = k1" | "r = SYSCALL_EFAULT" "resume = None" "k' = k2"
    | "(r, resume, k') = reap_child c k2" "st = UACCESS_SUCCESS"
    by (metis prod.inject)
  then show ?thesis
  proof cases
    case 1
    then show ?thesis using that(1) [of m1] False k1 by blast
  next
    case 2
    then show ?thesis using that(1) [of m2] False k2 by blast
  next
    case 3
    then show ?thesis using that(2) [of m2] u unfolding k1 k2 by blast
  qed
qed

text \<open>C22: A child is collected exactly once. When waitpid is called for an exited child that nobody collected, either the status cannot be
  written, and the process table stays as it is, so that the child can be collected later, or its status was written where the caller asked,
  the call returns its process id, its slot is free, every other process keeps its work and the caller still runs;
  a second waitpid for the same process id reports that there is no such child.\<close>

theorem waitpid_collects:
  assumes "collectable c i k" and "options AND NOT WNOHANG = 0"
    and "sys_waitpid (p_pid (proc k c)) status_ptr options control k = (r, resume, k')"
  shows "resume = None \<and>
    (r = SYSCALL_EFAULT \<and> status_ptr \<noteq> 0 \<and> process_table k' = process_table k \<and> collectable c i k' \<or>
     r = p_pid (proc k c) \<and> p_state (proc k' c) = PROCESS_DEAD \<and>
     (status_ptr = 0 \<or> (\<exists>m m'. copy_to_user status_ptr (Some (le32 (exit_status (proc k c)))) 4 (k\<lparr>k_mmu := m\<rparr>) =
       (UACCESS_SUCCESS, k\<lparr>k_mmu := m'\<rparr>))) \<and>
     (\<forall>j<16. j \<noteq> c \<longrightarrow> job (proc k' j) = job (proc k j)) \<and> process_get_current k' = Some i \<and>
     sys_waitpid (p_pid (proc k c)) 0 options control k' = (SYSCALL_ECHILD, None, k'))"
  using waitpid_found [OF assms]
proof cases
  case (1 m)
  then show ?thesis using assms(1) by (simp add: collectable_mmu)
next
  case (2 m)
  have "collectable c i (k\<lparr>k_mmu := m\<rparr>)" using assms(1) by (simp add: collectable_mmu)
  then obtain k'' where k'': "reap_child c (k\<lparr>k_mmu := m\<rparr>) = (p_pid (proc k c), None, k'')" "p_state (proc k'' c) = PROCESS_DEAD"
      "\<And>j. j < 16 \<Longrightarrow> j \<noteq> c \<Longrightarrow> job (proc k'' j) = job (proc k j)" "process_get_current k'' = Some i"
      "process_get_by_pid (p_pid (proc k c)) k'' = None"
      "process_find_exited_child_by_pid (p_pid (proc k i)) (p_pid (proc k c)) k'' = None"
    by (rule reaped) simp
  have e: "r = p_pid (proc k c)" "resume = None" "k' = k''" using 2(1) k''(1) by simp_all
  have i: "i < 16" "i \<noteq> c" "p_pid (proc k c) \<noteq> -1"
    using assms(1) by (auto simp: collectable_def process_get_current_def first_index_Some_iff MAX_PROCESSES_def)
  then have "p_pid (proc k'' i) = p_pid (proc k i)" using k''(3) job_fields(1) by blast
  then have "sys_waitpid (p_pid (proc k c)) 0 options control k'' = (SYSCALL_ECHILD, None, k'')"
    using k''(4-6) assms(2) i(3) by (simp add: sys_waitpid_def)
  then show ?thesis using e 2(2) k''(2-4) by blast
qed

text \<open>A parent that waits for its child, which runs.\<close>

definition exit_demo :: "ramdisk_data kernel" where
  "exit_demo = kernel_demo\<lparr>process_table :=
     zero_process\<lparr>p_state := PROCESS_BLOCKED, p_pid := 1, p_waiting_for_child := True, p_wait_target_pid := 2, p_wait_is_waitpid := True,
       p_block_reason := BLOCK_WAIT_CHILD, p_esp := 0x9000\<rparr> #
     zero_process\<lparr>p_state := PROCESS_RUNNING, p_pid := 2, p_parent_pid := 1\<rparr> # replicate 14 zero_process\<rparr>"

lemma exit_demo_proc:
  "j < 16 \<Longrightarrow> proc exit_demo j = (if j = 0 then zero_process\<lparr>p_state := PROCESS_BLOCKED, p_pid := 1, p_waiting_for_child := True,
      p_wait_target_pid := 2, p_wait_is_waitpid := True, p_block_reason := BLOCK_WAIT_CHILD, p_esp := 0x9000\<rparr>
    else if j = 1 then zero_process\<lparr>p_state := PROCESS_RUNNING, p_pid := 2, p_parent_pid := 1\<rparr> else zero_process)"
  by (auto simp: exit_demo_def nth_Cons split: nat.split)

theorem exit_reaches_parent_witness:
  "p_state (proc (process_mark_exit (Some 1) 7 exit_demo) 0) = PROCESS_READY \<and>
   get_field 0x9000 EAX (process_mark_exit (Some 1) 7 exit_demo) = 2 \<and>
   p_wait_result_status (proc (process_mark_exit (Some 1) 7 exit_demo) 0) = 0x700"
proof -
  have p: "p_state zero_process = PROCESS_DEAD" "p_killed_by_signal zero_process = 0" by (simp_all add: zero_process_def)
  have "parent_of 0 1 exit_demo" using exit_demo_proc [of 0] exit_demo_proc [of 1]
    by (simp add: parent_of_def only_pid_def exit_demo_proc MAX_PROCESSES_def p) (simp add: exit_demo_def)
  moreover have "waits_for (proc exit_demo 0) (p_pid (proc exit_demo 1))" by (simp add: waits_for_def exit_demo_proc)
  moreover have "end_status (proc exit_demo 1) 7 = 0x700" by (simp add: end_status_def exit_demo_proc p W_EXITCODE_def)
  ultimately show ?thesis using exit_reaches_parent [of 0 1 exit_demo 7] by (simp add: exit_demo_proc)
qed

text \<open>A running parent whose child has exited.\<close>

definition collect_demo :: "ramdisk_data kernel" where
  "collect_demo = kernel_demo\<lparr>process_table := zero_process\<lparr>p_state := PROCESS_RUNNING, p_pid := 1\<rparr> #
     zero_process\<lparr>p_state := PROCESS_ZOMBIE, p_pid := 2, p_parent_pid := 1, p_exited := True\<rparr> # replicate 14 zero_process\<rparr>"

lemma collect_demo_proc:
  "j < 16 \<Longrightarrow> proc collect_demo j = (if j = 0 then zero_process\<lparr>p_state := PROCESS_RUNNING, p_pid := 1\<rparr>
    else if j = 1 then zero_process\<lparr>p_state := PROCESS_ZOMBIE, p_pid := 2, p_parent_pid := 1, p_exited := True\<rparr> else zero_process)"
  by (auto simp: collect_demo_def nth_Cons split: nat.split)

theorem waitpid_collects_witness:
  "fst (sys_waitpid 2 0 0 None collect_demo) = 2 \<and>
   fst (sys_waitpid 2 0 0 None (snd (snd (sys_waitpid 2 0 0 None collect_demo)))) = SYSCALL_ECHILD"
proof -
  have p: "p_state zero_process = PROCESS_DEAD" "\<not> p_waited zero_process" by (simp_all add: zero_process_def)
  have pid: "p_pid (proc collect_demo 1) = 2" by (simp add: collect_demo_proc)
  have "collectable 1 0 collect_demo" using collect_demo_proc [of 0] collect_demo_proc [of 1]
    by (simp add: collectable_def only_pid_def collect_demo_proc MAX_PROCESSES_def p process_get_current_def first_index_Some_iff)
      (simp add: collect_demo_def)
  moreover obtain r re k' where w: "sys_waitpid 2 0 0 None collect_demo = (r, re, k')" by (cases "sys_waitpid 2 0 0 None collect_demo")
  ultimately show ?thesis using waitpid_collects [of 1 0 collect_demo 0 0 None r re k'] unfolding pid by simp
qed

end
