(* ===== verification/Elf_Valid.thy ===== *)
theory Elf_Valid
  imports Elf_Spec
begin

text \<open>
  Which files the program loader accepts, said without the loader: the bytes of the identification and of the header, and
  inequalities between natural numbers for the program headers. The checks of \<^verbatim>\<open>validate_header\<close>, of
  \<^verbatim>\<open>validate_segment\<close>, of the first pass and of the entry point together accept exactly these files.
\<close>

section \<open>The specification\<close>

text \<open>A segment: its place in the file and in the load window, and its alignment.\<close>

definition segment_ok :: "nat \<Rightarrow> elf32_program_header \<Rightarrow> bool" where
  "segment_ok n ph \<longleftrightarrow>
     0 < unat (ph_memsz ph) \<and> unat (ph_memsz ph) \<le> 65536 \<and> unat (ph_filesz ph) \<le> unat (ph_memsz ph) \<and>
     unat (ph_offset ph) + unat (ph_filesz ph) \<le> n \<and>
     0x40000000 \<le> unat (ph_vaddr ph) \<and> unat (ph_vaddr ph) + unat (ph_memsz ph) \<le> 0x90000000 \<and>
     (ph_align ph = 0 \<or> (\<exists>k. unat (ph_align ph) = 2 ^ k) \<and>
        unat (ph_vaddr ph) mod unat (ph_align ph) = unat (ph_offset ph) mod unat (ph_align ph))"

text \<open>The pages of two segments, by their numbers, are apart.\<close>

definition pages_apart :: "elf32_program_header \<Rightarrow> elf32_program_header \<Rightarrow> bool" where
  "pages_apart p q \<longleftrightarrow>
     (unat (ph_vaddr p) + unat (ph_memsz p) - 1) div 4096 < unat (ph_vaddr q) div 4096 \<or>
     (unat (ph_vaddr q) + unat (ph_memsz q) - 1) div 4096 < unat (ph_vaddr p) div 4096"

definition elf_valid :: "u8 list \<Rightarrow> bool" where
  "elf_valid bs \<longleftrightarrow> 52 \<le> length bs \<and>
     take 7 bs = [0x7F, 0x45, 0x4C, 0x46, 1, 1, 1] \<and> take 2 (drop 16 bs) = [2, 0] \<and> take 2 (drop 18 bs) = [3, 0] \<and>
     take 4 (drop 20 bs) = [1, 0, 0, 0] \<and> take 2 (drop 40 bs) = [52, 0] \<and> take 2 (drop 42 bs) = [32, 0] \<and>
     (let h = header_of_bytes bs; count = unat (eh_phnum h); entry = unat (eh_entry h);
          segs = filter is_load (program_headers bs h)
      in 1 \<le> count \<and> count \<le> 8 \<and> unat (eh_phoff h) + 32 * count \<le> length bs \<and>
         (\<forall>ph\<in>set segs. segment_ok (length bs) ph) \<and> sorted_wrt pages_apart segs \<and>
         (\<Sum>ph\<leftarrow>segs. unat (ph_memsz ph)) \<le> 65536 \<and>
         (\<exists>ph\<in>set segs. unat (ph_vaddr ph) \<le> entry) \<and> (\<exists>ph\<in>set segs. entry < unat (ph_vaddr ph) + unat (ph_memsz ph)))"

section \<open>Segments\<close>

lemma power_of_two_nat: "0 < (n :: nat) \<Longrightarrow> n AND (n - 1) = 0 \<longleftrightarrow> (\<exists>k. n = 2 ^ k)"
proof (induction n rule: less_induct)
  case (less n)
  show ?case
  proof (cases "even n")
    case True
    then obtain m where m: "n = 2 * m" "0 < m" using less.prems by (auto elim!: evenE)
    have "n - 1 = Suc (2 * (m - 1))" using m by simp
    then have "n AND (n - 1) = 2 * (m AND (m - 1))" unfolding m(1) by (simp add: and_rec [of "2 * m"])
    moreover have "(\<exists>k. 2 * m = 2 ^ k) \<longleftrightarrow> (\<exists>k. m = 2 ^ k)"
    proof
      assume "\<exists>k. 2 * m = 2 ^ k"
      then obtain k where k: "2 * m = 2 ^ k" by blast
      then have "k \<noteq> 0" by (cases k) auto
      then have "m = 2 ^ (k - 1)" using k by (cases k) auto
      then show "\<exists>k. m = 2 ^ k" by blast
    next
      assume "\<exists>k. m = 2 ^ k"
      then show "\<exists>k. 2 * m = 2 ^ k" by (metis power_Suc)
    qed
    ultimately show ?thesis using less.IH [of m] m by simp
  next
    case False
    then obtain m where m: "n = Suc (2 * m)" by (auto elim!: oddE)
    have "n AND (n - 1) = 2 * m" unfolding m by (simp add: and_rec [of "Suc (2 * m)"])
    moreover have "(\<exists>k. n = 2 ^ k) \<longleftrightarrow> n = 1"
    proof
      assume "\<exists>k. n = 2 ^ k"
      then obtain k where k: "n = 2 ^ k" by blast
      then show "n = 1" using False by (cases k) auto
    qed (auto intro: exI [of _ 0])
    ultimately show ?thesis using m by simp
  qed
qed

lemma power_of_two_word:
  fixes a :: u32
  shows "power_of_two_or_zero a \<longleftrightarrow> a = 0 \<or> (\<exists>k. unat a = 2 ^ k)"
proof (cases "a = 0")
  case False
  then have pos: "0 < unat a" by (simp add: unat_gt_0)
  have "unat (a - 1) = unat a - 1" using False by (simp add: unat_dec)
  then have "unat (a AND (a - 1)) = unat a AND (unat a - 1)" by (simp add: unsigned_and_eq)
  then have "a AND (a - 1) = 0 \<longleftrightarrow> unat a AND (unat a - 1) = 0" by (metis unat_eq_0)
  then show ?thesis using False power_of_two_nat [OF pos] by (simp add: power_of_two_or_zero_def)
qed (simp add: power_of_two_or_zero_def)

lemma same_residue:
  fixes a v w :: u32
  assumes "unat a = 2 ^ k"
  shows "v AND (a - 1) = w AND (a - 1) \<longleftrightarrow> unat v mod unat a = unat w mod unat a"
proof -
  have "(of_nat (unat a) :: u32) = of_nat (2 ^ k)" by (simp only: assms)
  then have "a = 2 ^ k" by simp
  then have "a - 1 = mask k" by (simp add: mask_eq_exp_minus_1)
  then have "unat (x AND (a - 1)) = unat x mod unat a" for x :: u32 by (simp add: unat_and_mask assms)
  then show ?thesis by (metis word_unat_eq_iff)
qed

lemma add_overflows_iff: "add_overflows a b \<longleftrightarrow> 2 ^ 32 \<le> unat a + unat b"
proof (cases "2 ^ 32 \<le> unat a + unat b")
  case True
  then have "unat (a + b) = unat a + unat b - 2 ^ 32" by (simp add: unat_plus_if')
  moreover have "unat b < 2 ^ 32" by simp
  ultimately show ?thesis using True unfolding add_overflows_def word_less_nat_alt by linarith
next
  case False
  then have "unat (a + b) = unat a + unat b" by (subst unat_add_no_wrap) auto
  then show ?thesis using False by (simp add: add_overflows_def word_less_nat_alt)
qed

lemma range_inside_file_iff: "range_inside_file off sz n \<longleftrightarrow> unat off + unat sz \<le> unat n"
proof (cases "2 ^ 32 \<le> unat off + unat sz")
  case True
  moreover have "unat n < 2 ^ 32" by simp
  ultimately have "\<not> unat off + unat sz \<le> unat n" by linarith
  then show ?thesis using True by (simp add: range_inside_file_def add_overflows_iff)
next
  case False
  then have "unat (off + sz) = unat off + unat sz" by (subst unat_add_no_wrap) auto
  then show ?thesis using False by (simp add: range_inside_file_def add_overflows_iff word_le_nat_alt)
qed

lemma range_inside_user_space_iff:
  "range_inside_user_space start sz \<longleftrightarrow> 0 < unat sz \<and> 0x40000000 \<le> unat start \<and> unat start + unat sz \<le> 0x90000000"
proof (cases "2 ^ 32 \<le> unat start + unat sz")
  case True
  then show ?thesis unfolding range_inside_user_space_def add_overflows_iff by simp
next
  case False
  then have "unat (start + sz) = unat start + unat sz" by (subst unat_add_no_wrap) auto
  then show ?thesis
    using False by (auto simp: range_inside_user_space_def add_overflows_iff word_le_nat_alt word_less_nat_alt
        ELF_USER_LOAD_MIN_def ELF_USER_LOAD_MAX_def unat_gt_0)
qed

lemma validate_segment_iff:
  assumes "is_load ph" and "unat file_size = n"
  shows "validate_segment ph file_size = ELF_SUCCESS \<longleftrightarrow> segment_ok n ph"
proof -
  let ?a = "ph_align ph"
  have "(power_of_two_or_zero ?a \<and> \<not> (1 < ?a \<and> ph_vaddr ph AND (?a - 1) \<noteq> ph_offset ph AND (?a - 1))) \<longleftrightarrow>
      (?a = 0 \<or> (\<exists>k. unat ?a = 2 ^ k) \<and> unat (ph_vaddr ph) mod unat ?a = unat (ph_offset ph) mod unat ?a)"
  proof (cases "\<exists>k. unat ?a = 2 ^ k")
    case True
    then obtain k where k: "unat ?a = 2 ^ k" by blast
    then have "?a \<noteq> 0" by auto
    moreover have "unat (ph_vaddr ph) mod unat ?a = unat (ph_offset ph) mod unat ?a" if "\<not> 1 < ?a"
      using that \<open>?a \<noteq> 0\<close> by (simp add: word_less_nat_alt unat_eq_0 [symmetric] not_less le_Suc_eq)
    ultimately show ?thesis using same_residue [OF k] True by (auto simp: power_of_two_word)
  qed (auto simp: power_of_two_word)
  then show ?thesis
    using assms
    by (auto simp: validate_segment_def segment_ok_def range_inside_file_iff range_inside_user_space_iff ELF_SUCCESS_def ELF_EINVAL_def
        ELF_MAX_LOAD_MEMORY_SIZE_def word_less_nat_alt not_less unat_gt_0)
qed

section \<open>The first pass\<close>

lemma segment_fits: "segment_ok n ph \<Longrightarrow> seg_fits (ph_vaddr ph) (ph_memsz ph)"
  by (simp add: segment_ok_def seg_fits_def)

lemma pages_apart_ranges:
  assumes "seg_fits (ph_vaddr p) (ph_memsz p)" "seg_fits (ph_vaddr q) (ph_memsz q)"
  shows "pages_apart p q \<longleftrightarrow>
    \<not> ranges_overlap (fst (page_range_of q)) (snd (page_range_of q)) (fst (page_range_of p)) (snd (page_range_of p))"
  using seg_bounds(1,2) [OF assms(1)] seg_bounds(1,2) [OF assms(2)]
  by (auto simp: pages_apart_def ranges_overlap_def page_range_of_def word_less_nat_alt not_less seg_first_def seg_last_def)

abbreviation plan_of :: "load_plan \<Rightarrow> elf32_program_header \<Rightarrow> load_plan" where
  "plan_of pl ph \<equiv> \<lparr>lp_ranges = lp_ranges pl @ [page_range_of ph], lp_memory = lp_memory pl + ph_memsz ph,
     lp_start = (if ph_vaddr ph < lp_start pl then ph_vaddr ph else lp_start pl),
     lp_end = (if lp_end pl < ph_vaddr ph + ph_memsz ph then ph_vaddr ph + ph_memsz ph else lp_end pl)\<rparr>"

text \<open>The pass accepts exactly valid segments on pages apart from each other and from those before, with room for all of them.\<close>

lemma check_segments_iff:
  assumes "unat file_size = n" "unat (lp_memory pl) \<le> 65536" "lp_ranges pl = map page_range_of ps"
    "\<forall>p\<in>set ps. seg_fits (ph_vaddr p) (ph_memsz p)"
  shows "fst (check_segments phs file_size pl) = ELF_SUCCESS \<longleftrightarrow>
    (\<forall>ph\<in>set (filter is_load phs). segment_ok n ph) \<and> sorted_wrt pages_apart (filter is_load phs) \<and>
    (\<forall>p\<in>set ps. \<forall>q\<in>set (filter is_load phs). pages_apart p q) \<and>
    unat (lp_memory pl) + (\<Sum>ph\<leftarrow>filter is_load phs. unat (ph_memsz ph)) \<le> 65536"
  using assms
proof (induction phs arbitrary: pl ps)
  case Nil
  then show ?case by simp
next
  case (Cons ph phs)
  show ?case
  proof (cases "is_load ph")
    case False
    then have "validate_segment ph file_size = ELF_SUCCESS" by (simp add: validate_segment_def)
    then show ?thesis using False Cons.IH [OF Cons.prems] by (simp add: ELF_SUCCESS_def)
  next
    case True
    note valid = validate_segment_iff [OF True Cons.prems(1)]
    show ?thesis
    proof (cases "segment_ok n ph")
      case False
      then have "validate_segment ph file_size \<noteq> ELF_SUCCESS" using valid by blast
      then show ?thesis using False True by (simp add: Let_def)
    next
      case ok: True
      note fit = segment_fits [OF ok]
      let ?P = "list_ex (\<lambda>(s, e). ranges_overlap (elf_align_down (ph_vaddr ph)) (elf_align_up (ph_vaddr ph + ph_memsz ph)) s e) (lp_ranges pl)"
      have apart: "\<not> ?P \<longleftrightarrow> (\<forall>p\<in>set ps. pages_apart p ph)"
      proof -
        have "?P \<longleftrightarrow> (\<exists>p\<in>set ps. ranges_overlap (fst (page_range_of ph)) (snd (page_range_of ph)) (fst (page_range_of p)) (snd (page_range_of p)))"
          by (simp add: Cons.prems(3) list_ex_iff page_range_of_def)
        also have "\<dots> \<longleftrightarrow> (\<exists>p\<in>set ps. \<not> pages_apart p ph)"
          using pages_apart_ranges [OF _ fit] Cons.prems(4) by blast
        finally show ?thesis by blast
      qed
      have "unat (ELF_MAX_LOAD_MEMORY_SIZE - lp_memory pl) = 65536 - unat (lp_memory pl)"
        using Cons.prems(2) by (simp add: ELF_MAX_LOAD_MEMORY_SIZE_def unat_sub_no_wrap word_le_nat_alt)
      then have room: "\<not> ELF_MAX_LOAD_MEMORY_SIZE - lp_memory pl < ph_memsz ph \<longleftrightarrow> unat (lp_memory pl) + unat (ph_memsz ph) \<le> 65536"
        using Cons.prems(2) by (auto simp: word_less_nat_alt)
      have step: "fst (check_segments (ph # phs) file_size pl) = ELF_SUCCESS \<longleftrightarrow>
          (\<forall>p\<in>set ps. pages_apart p ph) \<and> unat (lp_memory pl) + unat (ph_memsz ph) \<le> 65536 \<and>
          fst (check_segments phs file_size (plan_of pl ph)) = ELF_SUCCESS"
      proof -
        have v: "validate_segment ph file_size = ELF_SUCCESS" using valid ok by blast
        have "check_segments (ph # phs) file_size pl =
            (if ?P then (ELF_EINVAL, pl) else if ELF_MAX_LOAD_MEMORY_SIZE - lp_memory pl < ph_memsz ph then (ELF_EINVAL, pl)
             else check_segments phs file_size (plan_of pl ph))"
          using True by (simp add: v Let_def page_range_of_def)
        then show ?thesis unfolding apart [symmetric] room [symmetric] by (simp add: ELF_SUCCESS_def ELF_EINVAL_def)
      qed
      show ?thesis
      proof (cases "unat (lp_memory pl) + unat (ph_memsz ph) \<le> 65536")
        case small: True
        then have m: "unat (lp_memory pl + ph_memsz ph) = unat (lp_memory pl) + unat (ph_memsz ph)"
          by (simp add: unat_word_ariths)
        have ih: "fst (check_segments phs file_size (plan_of pl ph)) = ELF_SUCCESS \<longleftrightarrow>
            (\<forall>ph\<in>set (filter is_load phs). segment_ok n ph) \<and> sorted_wrt pages_apart (filter is_load phs) \<and>
            (\<forall>p\<in>set (ps @ [ph]). \<forall>q\<in>set (filter is_load phs). pages_apart p q) \<and>
            unat (lp_memory pl) + unat (ph_memsz ph) + (\<Sum>ph\<leftarrow>filter is_load phs. unat (ph_memsz ph)) \<le> 65536"
          using Cons.IH [of "plan_of pl ph" "ps @ [ph]"] Cons.prems small fit by (simp add: m)
        show ?thesis unfolding step ih using True ok small by auto
      next
        case False
        then show ?thesis unfolding step using True by simp
      qed
    qed
  qed
qed

text \<open>The load range is the hull of the segments.\<close>

lemma check_segments_range:
  assumes "check_segments phs file_size pl = (ELF_SUCCESS, pl')" "unat file_size = n"
    and "\<forall>ph\<in>set (filter is_load phs). segment_ok n ph"
  shows "(e < lp_start pl' \<longleftrightarrow> e < lp_start pl \<and> (\<forall>ph\<in>set (filter is_load phs). unat e < unat (ph_vaddr ph))) \<and>
    (lp_end pl' \<le> e \<longleftrightarrow> lp_end pl \<le> e \<and> (\<forall>ph\<in>set (filter is_load phs). unat (ph_vaddr ph) + unat (ph_memsz ph) \<le> unat e)) \<and>
    lp_ranges pl' = lp_ranges pl @ map page_range_of (filter is_load phs)"
  using assms
proof (induction phs arbitrary: pl)
  case Nil
  then show ?case by simp
next
  case (Cons ph phs)
  show ?case
  proof (cases "is_load ph")
    case False
    then have "check_segments phs file_size pl = (ELF_SUCCESS, pl')" using Cons.prems(1) by (auto simp: Let_def split: if_splits)
    then show ?thesis using Cons.IH [of pl] Cons.prems(2,3) False by simp
  next
    case True
    have rest: "check_segments phs file_size (plan_of pl ph) = (ELF_SUCCESS, pl')"
      using Cons.prems(1) True by (auto simp: Let_def page_range_of_def ELF_SUCCESS_def ELF_EINVAL_def split: if_splits)
    have "unat (ph_vaddr ph + ph_memsz ph) = unat (ph_vaddr ph) + unat (ph_memsz ph)"
      using seg_end(1) [OF segment_fits, of n ph] Cons.prems(3) True by simp
    then have "ph_vaddr ph + ph_memsz ph \<le> e \<longleftrightarrow> unat (ph_vaddr ph) + unat (ph_memsz ph) \<le> unat e"
      by (simp add: word_le_nat_alt)
    moreover have "e < ph_vaddr ph \<longleftrightarrow> unat e < unat (ph_vaddr ph)" by (simp add: word_less_nat_alt)
    ultimately show ?thesis using Cons.IH [OF rest Cons.prems(2)] Cons.prems(3) True by auto
  qed
qed

section \<open>The header\<close>

lemma le16_bytes:
  assumes "2 \<le> length bs"
  shows "of_le16 bs = w \<longleftrightarrow> take 2 bs = le16 w"
proof
  assume w: "of_le16 bs = w"
  have "ucast (of_le16 bs) = bs ! 0" "ucast (drop_bit 8 (of_le16 bs)) = bs ! 1"
    by (rule bit_word_eqI; auto simp: of_le16_def bit_or_iff bit_push_bit_iff bit_ucast_iff bit_drop_bit_eq dest: bit_imp_le_length)+
  moreover have "take 2 bs = [bs ! 0, bs ! 1]" using assms by (intro nth_equalityI) (auto simp: less_Suc_eq numeral_2_eq_2)
  ultimately show "take 2 bs = le16 w" by (simp add: le16_def w [symmetric])
next
  assume "take 2 bs = le16 w"
  then have "bs = le16 w @ drop 2 bs" by (metis append_take_drop_id)
  then show "of_le16 bs = w" by (metis of_le16_le16)
qed

lemma le32_bytes:
  assumes "4 \<le> length bs"
  shows "of_le32 bs = w \<longleftrightarrow> take 4 bs = le32 w"
proof
  assume w: "of_le32 bs = w"
  have "ucast (of_le32 bs) = bs ! 0" "ucast (drop_bit 8 (of_le32 bs)) = bs ! 1" "ucast (drop_bit 16 (of_le32 bs)) = bs ! 2"
    "ucast (drop_bit 24 (of_le32 bs)) = bs ! 3"
    by (rule bit_word_eqI; auto simp: of_le32_def bit_or_iff bit_push_bit_iff bit_ucast_iff bit_drop_bit_eq dest: bit_imp_le_length)+
  moreover have "take 4 bs = [bs ! 0, bs ! 1, bs ! 2, bs ! 3]"
    using assms by (intro nth_equalityI) (auto simp: less_Suc_eq numeral_eq_Suc)
  ultimately show "take 4 bs = le32 w" by (simp add: le32_def w [symmetric])
next
  assume "take 4 bs = le32 w"
  then have "bs = le32 w @ drop 4 bs" by (metis append_take_drop_id)
  then show "of_le32 bs = w" by (metis of_le32_le32)
qed

lemma validate_header_iff:
  assumes "unat file_size = length bs"
  shows "validate_header (header_of_bytes bs) file_size = ELF_SUCCESS \<longleftrightarrow> 52 \<le> length bs \<and>
     take 7 bs = [0x7F, 0x45, 0x4C, 0x46, 1, 1, 1] \<and> take 2 (drop 16 bs) = [2, 0] \<and> take 2 (drop 18 bs) = [3, 0] \<and>
     take 4 (drop 20 bs) = [1, 0, 0, 0] \<and> take 2 (drop 40 bs) = [52, 0] \<and> take 2 (drop 42 bs) = [32, 0] \<and>
     1 \<le> unat (eh_phnum (header_of_bytes bs)) \<and> unat (eh_phnum (header_of_bytes bs)) \<le> 8 \<and>
     unat (eh_phoff (header_of_bytes bs)) + 32 * unat (eh_phnum (header_of_bytes bs)) \<le> length bs"
proof (cases "52 \<le> length bs")
  case True
  let ?h = "header_of_bytes bs"
  have size: "\<not> file_size < 52" using True assms by (simp add: word_less_nat_alt)
  have ident: "take 7 bs = [0x7F, 0x45, 0x4C, 0x46, 1, 1, 1] \<longleftrightarrow> eh_ident ?h ! 0 = 0x7F \<and> eh_ident ?h ! 1 = 0x45 \<and>
      eh_ident ?h ! 2 = 0x4C \<and> eh_ident ?h ! 3 = 0x46 \<and> eh_ident ?h ! 4 = 1 \<and> eh_ident ?h ! 5 = 1 \<and> eh_ident ?h ! 6 = 1"
  proof -
    have "take 7 bs = [bs ! 0, bs ! 1, bs ! 2, bs ! 3, bs ! 4, bs ! 5, bs ! 6]"
      using True by (intro nth_equalityI) (auto simp: less_Suc_eq numeral_eq_Suc)
    then show ?thesis by (simp add: header_of_bytes_def)
  qed
  have fields: "eh_type ?h = 2 \<longleftrightarrow> take 2 (drop 16 bs) = [2, 0]" "eh_machine ?h = 3 \<longleftrightarrow> take 2 (drop 18 bs) = [3, 0]"
    "eh_version ?h = 1 \<longleftrightarrow> take 4 (drop 20 bs) = [1, 0, 0, 0]" "eh_ehsize ?h = 52 \<longleftrightarrow> take 2 (drop 40 bs) = [52, 0]"
    "eh_phentsize ?h = 32 \<longleftrightarrow> take 2 (drop 42 bs) = [32, 0]"
    using True by (simp_all add: header_of_bytes_def le16_bytes le32_bytes le16_def le32_def)
  have count: "\<not> (eh_phnum ?h = 0 \<or> ELF_MAX_SEGMENTS < eh_phnum ?h) \<longleftrightarrow> 1 \<le> unat (eh_phnum ?h) \<and> unat (eh_phnum ?h) \<le> 8"
    by (auto simp: ELF_MAX_SEGMENTS_def word_less_nat_alt not_less unat_gt_0 Suc_le_eq)
  have "unat (ucast (eh_phnum ?h) * 32 :: u32) = 32 * unat (eh_phnum ?h)" if "unat (eh_phnum ?h) \<le> 8"
    using that by (simp add: unat_word_ariths unsigned_ucast_eq take_bit_eq_mod)
  then have table: "range_inside_file (eh_phoff ?h) (ucast (eh_phnum ?h) * 32) file_size \<longleftrightarrow>
      unat (eh_phoff ?h) + 32 * unat (eh_phnum ?h) \<le> length bs" if "unat (eh_phnum ?h) \<le> 8"
    using that by (simp add: range_inside_file_iff assms)
  show ?thesis
  proof (cases "unat (eh_phnum ?h) \<le> 8")
    case few: True
    have "\<not> (eh_phnum ?h = 0 \<or> ELF_MAX_SEGMENTS < eh_phnum ?h) \<longleftrightarrow> 1 \<le> unat (eh_phnum ?h)" using count few by blast
    then show ?thesis
      unfolding validate_header_def ident fields [symmetric] table [OF few, symmetric]
      using True size few by (auto simp: ELF_SUCCESS_def ELF_EINVAL_def)
  next
    case False
    then have "eh_phnum ?h = 0 \<or> ELF_MAX_SEGMENTS < eh_phnum ?h" using count by blast
    then show ?thesis unfolding validate_header_def using False by (auto simp: ELF_SUCCESS_def ELF_EINVAL_def)
  qed
next
  case False
  then have "file_size < 52" using assms by (simp add: word_less_nat_alt)
  then show ?thesis using False by (simp add: validate_header_def ELF_SUCCESS_def ELF_EINVAL_def)
qed

section \<open>All checks\<close>

text \<open>What the loader checks before it touches memory, in the order of the code.\<close>

definition checks_pass :: "u8 list \<Rightarrow> bool" where
  "checks_pass buf \<longleftrightarrow>
     (let header = header_of_bytes buf; file_size = of_nat (length buf);
          (status, pl) = check_segments (program_headers buf header) file_size empty_plan
      in validate_header header file_size = ELF_SUCCESS \<and> status = ELF_SUCCESS \<and>
         \<not> (lp_ranges pl = [] \<or> eh_entry header < lp_start pl \<or> lp_end pl \<le> eh_entry header))"

lemma checks_pass_iff:
  assumes "length bs < 2 ^ 32"
  shows "checks_pass bs \<longleftrightarrow> elf_valid bs"
proof -
  let ?h = "header_of_bytes bs" and ?n = "of_nat (length bs) :: u32"
  define phs where "phs = program_headers bs ?h"
  have n: "unat ?n = length bs" using assms by (intro unat_of_nat_small) simp
  obtain st pl where c: "check_segments phs ?n empty_plan = (st, pl)" by force
  have first: "st = ELF_SUCCESS \<longleftrightarrow> (\<forall>ph\<in>set (filter is_load phs). segment_ok (length bs) ph) \<and>
      sorted_wrt pages_apart (filter is_load phs) \<and> (\<Sum>ph\<leftarrow>filter is_load phs. unat (ph_memsz ph)) \<le> 65536"
    using check_segments_iff [OF n, of empty_plan "[]" phs] c by simp
  have range: "(lp_ranges pl = [] \<or> eh_entry ?h < lp_start pl \<or> lp_end pl \<le> eh_entry ?h) \<longleftrightarrow>
      \<not> ((\<exists>ph\<in>set (filter is_load phs). unat (ph_vaddr ph) \<le> unat (eh_entry ?h)) \<and>
         (\<exists>ph\<in>set (filter is_load phs). unat (eh_entry ?h) < unat (ph_vaddr ph) + unat (ph_memsz ph)))" if st: "st = ELF_SUCCESS"
  proof -
    have ok: "\<forall>ph\<in>set (filter is_load phs). segment_ok (length bs) ph" using first st by blast
    note r = check_segments_range [OF c [unfolded st] n ok, of "eh_entry ?h"]
    have small: "eh_entry ?h < 0xFFFFFFFF" if "ph \<in> set (filter is_load phs)" "unat (eh_entry ?h) < unat (ph_vaddr ph)" for ph
    proof -
      have "unat (ph_vaddr ph) < 0x90000000" using ok that(1) by (fastforce simp: segment_ok_def)
      then show ?thesis using that(2) by (simp add: word_less_nat_alt)
    qed
    show ?thesis
    proof (cases "filter is_load phs")
      case Nil
      then show ?thesis using r by simp
    next
      case (Cons ph segs)
      then have "eh_entry ?h < lp_start pl \<longleftrightarrow> (\<forall>ph\<in>set (filter is_load phs). unat (eh_entry ?h) < unat (ph_vaddr ph))"
        using r small [of ph] by auto
      moreover have "lp_ranges pl \<noteq> []" using r Cons by simp
      moreover have "lp_end pl \<le> eh_entry ?h \<longleftrightarrow>
          (\<forall>ph\<in>set (filter is_load phs). unat (ph_vaddr ph) + unat (ph_memsz ph) \<le> unat (eh_entry ?h))" using r by simp
      ultimately show ?thesis by (auto simp only: not_less not_le) (metis not_less)+
    qed
  qed
  show ?thesis
    unfolding checks_pass_def elf_valid_def Let_def phs_def [symmetric] c prod.case validate_header_iff [OF n]
    using first range by blast
qed

end
