(* ===== verification/Load_File.thy ===== *)
theory Load_File
  imports Elf_Valid
begin

text \<open>
  The loader from the path to the memory of the program: \<^verbatim>\<open>elf_load_from_vfs\<close> reads a whole file through the virtual file system, checks
  it and loads it. The specifications of the files, of the open files and of the two passes of the loader meet here.
\<close>

section \<open>Reading a whole file\<close>

context block_dev
begin

lemma fs_stat_ok:
  assumes inv: "fs_inv dev sectors dinv s" and path: "is_cstring p (0x2F # n)" and n: "valid_name n"
  shows "case files sectors s n of None \<Rightarrow> simplefs_stat (Some p) True s = (VFS_ENOENT, None)
     | Some c \<Rightarrow> \<exists>info. simplefs_stat (Some p) True s = (VFS_SUCCESS, Some info) \<and> unat (fi_size info) = length c"
proof -
  let ?D = "sectors (fs_disk s)"
  note I = fs_invD [OF inv]
  have np: "simplefs_normalize_path (Some p) = (VFS_SUCCESS, n)" using normalize_path_ok [OF path n] .
  note fe = find_entry_ok [OF I(1,2,5,8) n]
  show ?thesis using np fe I(3) n
    by (cases "slot_of (ent ?D) n") (auto simp: simplefs_stat_def files_def vfs_errors info_of_def)
qed

end

lemma vfs_close_at:
  assumes "vfs_ok v" and "fd_at fd n off fl v"
  obtains v' where "vfs_close fd v = (VFS_SUCCESS, v')" and "vfs_ok v'" and "vfs_fs v' = vfs_fs v"
    and "vfs_mounted v' = vfs_mounted v" and "vfs_refs v' = (vfs_refs v)(fd := vfs_refs v fd - 1)"
proof -
  obtain r v' where c: "vfs_close fd v = (r, v')" by force
  have valid: "vfs_fd_valid fd v" using assms(2) by (simp add: fd_at_def)
  have s: "r = VFS_SUCCESS" "vfs_fs v' = vfs_fs v" "vfs_mounted v' = vfs_mounted v"
    using c valid by (auto simp: vfs_close_def Let_def split: if_splits)
  have t: "vfs_table_ok v" using assms(1) by (simp add: vfs_ok_def)
  have "vfs_table_ok v'" "vfs_refs v' = (vfs_refs v)(fd := vfs_refs v fd - 1)"
    using vfs_files.close_ok [OF t, of fd v'] c s(1) by (simp_all add: vfs_errors)
  then show thesis using that [of v'] c s assms(1) by (simp add: vfs_ok_def)
qed

lemma read_file_loop_ok:
  assumes "vfs_ok v" and "fd_at fd n off VFS_O_RDONLY v" and "ramfiles (vfs_fs v) n = Some c"
    and "off \<le> length c" and "vfs_refs v fd = 1"
  shows "\<exists>v'. read_file_loop fd (length c) off (take off c) v = (ELF_SUCCESS, c, v') \<and> vfs_ok v' \<and>
    vfs_fs v' = vfs_fs v \<and> vfs_refs v' = (vfs_refs v)(fd := 0)"
proof (cases "off < length c")
  case False
  obtain v' where "vfs_close fd v = (VFS_SUCCESS, v')" "vfs_ok v'" "vfs_fs v' = vfs_fs v"
      "vfs_refs v' = (vfs_refs v)(fd := vfs_refs v fd - 1)"
    using vfs_close_at [OF assms(1,2)] by metis
  then show ?thesis using False assms(4,5) by (subst read_file_loop.simps) simp
next
  case True
  obtain r d v1 where rd: "vfs_read fd True (of_nat (length c - off)) v = (r, d, v1)" using prod_cases3 by blast
  have inv: "ramfs_inv (vfs_fs v)" using assms(1) by (simp add: vfs_ok_def)
  have "length c < 2 ^ 32" using ramfile_length [OF inv assms(3)] .
  then have cnt: "unat (of_nat (length c - off) :: u32) = length c - off" by (intro unat_of_nat_small) simp
  have at: "r = int (length d)" "d = drop off c" "vfs_ok v1" "vfs_fs v1 = vfs_fs v" "fd_at fd n (off + length d) VFS_O_RDONLY v1"
    using vfs_read_at [OF assms(1,2) _ assms(3) rd] unfolding cnt by (auto simp: VFS_O_RDONLY_def)
  have "vfs_refs v1 = vfs_refs v"
  proof -
    have "vfs_table_ok v" using assms(1) by (simp add: vfs_ok_def)
    moreover have "int off + r < 2 ^ 32" using ramfile_length [OF inv assms(3)] True at(1,2) by simp
    moreover have "v1 = advance_offset fd r v"
      using rd assms(2) by (auto simp: vfs_read_def fd_at_def Let_def VFS_O_RDONLY_def split: prod.splits)
    ultimately show ?thesis using advance_offset_at [OF _ assms(2)] at(1) by simp
  qed
  moreover obtain v' where "vfs_close fd v1 = (VFS_SUCCESS, v')" "vfs_ok v'" "vfs_fs v' = vfs_fs v1"
      "vfs_refs v' = (vfs_refs v1)(fd := vfs_refs v1 fd - 1)"
    using vfs_close_at [OF at(3,5)] by metis
  ultimately have "read_file_loop fd (length c) (length c) c v1 = (ELF_SUCCESS, c, v')" "vfs_ok v'" "vfs_fs v' = vfs_fs v"
      "vfs_refs v' = (vfs_refs v)(fd := 0)"
    using assms(5) at(4) by (simp_all add: read_file_loop.simps [of fd "length c" "length c"])
  moreover have "0 < r" "off + nat r = length c" "take off c @ d = c" using at(1,2) True by simp_all
  then have "read_file_loop fd (length c) off (take off c) v = read_file_loop fd (length c) (length c) c v1"
    using True rd by (subst read_file_loop.simps) simp
  ultimately show ?thesis by auto
qed

text \<open>What \<^verbatim>\<open>read_file_into_buffer\<close> makes of a path with a valid name.\<close>

lemma read_file_ok:
  assumes ok: "vfs_ok v" and mounted: "vfs_mounted v" and p: "is_cstring p (0x2F # n)" and n: "valid_name n"
    and res: "read_file_into_buffer (Some p) v = (st, buf, v')"
  shows "vfs_ok v' \<and> ramfiles (vfs_fs v') = ramfiles (vfs_fs v) \<and> vfs_refs v' = vfs_refs v \<and>
    (case ramfiles (vfs_fs v) n of None \<Rightarrow> st = ELF_ENOENT
     | Some c \<Rightarrow> if length c = 0 \<or> 8192 < length c then st = ELF_EINVAL
         else if \<forall>i < 16. of_used (vfs_open_files v ! i) then st = ELF_EIO else st = ELF_SUCCESS \<and> buf = c)"
proof -
  have inv: "ramfs_inv (vfs_fs v)" using ok by (simp add: vfs_ok_def)
  note stat = rdisk.fs_stat_ok [OF inv p n]
  show ?thesis
  proof (cases "ramfiles (vfs_fs v) n")
    case None
    then show ?thesis using stat res ok mounted
      by (auto simp: read_file_into_buffer_def vfs_stat_def)
  next
    case (Some c)
    then obtain info where info: "simplefs_stat (Some p) True (vfs_fs v) = (VFS_SUCCESS, Some info)" "unat (fi_size info) = length c"
      using stat by auto
    have sz: "fi_size info = 0 \<longleftrightarrow> length c = 0" "ELF_MAX_IMAGE_SIZE < fi_size info \<longleftrightarrow> 8192 < length c"
      using info(2) by (simp_all add: unat_eq_0 [symmetric] word_less_nat_alt ELF_MAX_IMAGE_SIZE_def)
    obtain fd v1 where opn: "vfs_open (Some p) VFS_O_RDONLY v = (fd, v1)" by force
    have fl: "vfs_flags_valid VFS_O_RDONLY" by (simp add: vfs_flags_valid_def Let_def VFS_O_RDONLY_def VFS_O_WRONLY_def VFS_O_RDWR_def VFS_O_CREAT_def VFS_O_TRUNC_def)
    define full where "full \<longleftrightarrow> (\<forall>i < 16. of_used (vfs_open_files v ! i))"
    note vo = vfs_open_ok [OF ok mounted fl p n opn, folded full_def]
    have o: "if full then fd = VFS_EMFILE \<and> v1 = v
      else 0 \<le> fd \<and> \<not> of_used (vfs_open_files v ! nat fd) \<and> vfs_ok v1 \<and> fd_at fd n 0 VFS_O_RDONLY v1 \<and> vfs_refs v1 = (vfs_refs v)(fd := 1) \<and>
        ramfiles (vfs_fs v1) = ramfiles (vfs_fs v)"
    proof (cases full)
      case False
      then show ?thesis using vo Some by (simp add: VFS_O_RDONLY_def VFS_O_CREAT_def VFS_O_TRUNC_def)
    qed (use vo in simp)
    show ?thesis
    proof (cases "length c = 0 \<or> 8192 < length c \<or> full")
      case True
      have "st = (if length c = 0 \<or> 8192 < length c then ELF_EINVAL else ELF_EIO) \<and> v' = v"
        using res True info sz mounted opn o by (auto simp: read_file_into_buffer_def vfs_stat_def vfs_errors VFS_EMFILE_def)
      then show ?thesis using Some True ok by (auto simp: full_def)
    next
      case False
      then have o': "0 \<le> fd" "\<not> of_used (vfs_open_files v ! nat fd)" "vfs_ok v1" "fd_at fd n 0 VFS_O_RDONLY v1"
          "vfs_refs v1 = (vfs_refs v)(fd := 1)" "ramfiles (vfs_fs v1) = ramfiles (vfs_fs v)" using o by (auto split: if_splits)
      obtain v2 where l: "read_file_loop fd (length c) 0 (take 0 c) v1 = (ELF_SUCCESS, c, v2)" "vfs_ok v2" "vfs_fs v2 = vfs_fs v1"
          "vfs_refs v2 = (vfs_refs v1)(fd := 0)"
        using read_file_loop_ok [OF o'(3,4), of c] Some o'(5,6) by auto
      have "(st, buf, v') = (ELF_SUCCESS, c, v2)"
        using res False info sz mounted opn o'(1) l(1) by (simp add: read_file_into_buffer_def vfs_stat_def vfs_errors)
      moreover have "vfs_refs v fd = 0" using o'(2) by (simp add: vfs_refs_def vfs_fd_valid_def)
      then have "(vfs_refs v1)(fd := 0) = vfs_refs v" using o'(5) by (auto simp: fun_eq_iff)
      ultimately show ?thesis using l o'(6) Some False by (auto simp: full_def)
    qed
  qed
qed

section \<open>From the path to the memory\<close>

text \<open>\<open>k\<close> and \<open>k'\<close> differ in the open files and the memory only, and agree on files and references.\<close>

definition files_kept :: "ramdisk_data kernel \<Rightarrow> ramdisk_data kernel \<Rightarrow> bool" where
  "files_kept k k' \<longleftrightarrow> vfs_ok (k_vfs k') \<and> ramfiles (vfs_fs (k_vfs k')) = ramfiles (vfs_fs (k_vfs k)) \<and>
     vfs_refs (k_vfs k') = vfs_refs (k_vfs k) \<and> k' = k\<lparr>k_vfs := k_vfs k', k_mmu := k_mmu k'\<rparr>"

text \<open>The memory of \<open>m'\<close> is that of \<open>m\<close> with the program in the file \<open>bs\<close> loaded.\<close>

definition image_loaded :: "u8 list \<Rightarrow> mmu \<Rightarrow> mmu \<Rightarrow> bool" where
  "image_loaded bs m m' \<longleftrightarrow> (let phs = program_headers bs (header_of_bytes bs) in
     active_ok m' \<and> mmu_fault m' = mmu_fault m \<and>
     (\<forall>ph\<in>set phs. is_load ph \<longrightarrow>
        (\<forall>i<unat (ph_memsz ph). umem m' (ph_vaddr ph + of_nat i) =
           Some (if i < unat (ph_filesz ph) then bs ! (unat (ph_offset ph) + i) else 0)) \<and>
        (\<forall>w. page_base w \<in> ph_pages ph \<longrightarrow> user_writable m' w = (ph_flags ph AND ELF_PF_W \<noteq> 0))) \<and>
     (\<forall>w. page_base w \<notin> load_pages phs \<longrightarrow> umem m' w = umem m w \<and> user_writable m' w = user_writable m w))"

text \<open>The loader after the file has been read.\<close>

definition load_bytes_of :: "u8 list \<Rightarrow> mmu \<Rightarrow> int \<times> elf_load_info \<times> mmu" where
  "load_bytes_of buf m =
     (let header = header_of_bytes buf; file_size = of_nat (length buf); phs = program_headers buf header;
          (status, pl) = check_segments phs file_size empty_plan; (status2, n, m2) = load_segments phs buf 0 m
      in if validate_header header file_size \<noteq> ELF_SUCCESS then (validate_header header file_size, zero_load_info, m)
         else if status \<noteq> ELF_SUCCESS then (status, zero_load_info, m)
         else if lp_ranges pl = [] \<or> eh_entry header < lp_start pl \<or> lp_end pl \<le> eh_entry header then (ELF_EINVAL, zero_load_info, m)
         else if status2 \<noteq> ELF_SUCCESS then (status2, zero_load_info, m2)
         else (ELF_SUCCESS, \<lparr>li_entry = eh_entry header, li_load_start = lp_start pl, li_load_end = lp_end pl,
            li_loaded_bytes = n, li_segment_count = of_nat (length (lp_ranges pl))\<rparr>, m2))"

lemma elf_load_unfold:
  assumes "read_file_into_buffer p (k_vfs k) = (st, buf, v)"
  shows "elf_load_from_vfs p True k =
    (if st \<noteq> ELF_SUCCESS then (st, zero_load_info, k\<lparr>k_vfs := v\<rparr>)
     else let (r, info, m) = load_bytes_of buf (k_mmu k) in (r, info, k\<lparr>k_vfs := v, k_mmu := m\<rparr>))"
proof -
  have "k\<lparr>k_vfs := v, k_mmu := k_mmu k\<rparr> = k\<lparr>k_vfs := v\<rparr>" by simp
  then show ?thesis
    using assms by (simp add: elf_load_from_vfs_def load_bytes_of_def Let_def split_beta)
qed

lemma header_status: "validate_header h n \<in> {ELF_SUCCESS, ELF_EINVAL}"
  by (simp add: validate_header_def)

lemma segment_status: "validate_segment ph n \<in> {ELF_SUCCESS, ELF_EINVAL}"
  by (simp add: validate_segment_def)

lemma check_status: "fst (check_segments phs n pl) \<in> {ELF_SUCCESS, ELF_EINVAL}"
proof (induction phs n pl rule: check_segments.induct)
  case (2 ph phs n pl)
  then show ?case using segment_status [of ph n] by (auto simp: Let_def)
qed simp

lemma load_bytes_of_ok:
  assumes "active_ok m" and "active_page_directory m \<noteq> 0" and "length buf < 2 ^ 32" and "load_bytes_of buf m = (st, info, m')"
  defines "header \<equiv> header_of_bytes buf"
  shows "st \<in> {ELF_SUCCESS, ELF_EINVAL, ELF_ENOSPC} \<and> (\<not> elf_valid buf \<longrightarrow> st = ELF_EINVAL \<and> m' = m) \<and>
    (st = ELF_SUCCESS \<longrightarrow> image_loaded buf m m' \<and> li_entry info = eh_entry header \<and>
       li_load_start info \<le> eh_entry header \<and> eh_entry header < li_load_end info) \<and>
    (elf_valid buf \<and> st = ELF_EINVAL \<longrightarrow> (\<exists>page\<in>load_pages (program_headers buf header). paging_is_mapped page m)) \<and>
    (st = ELF_ENOSPC \<longrightarrow> 0 \<le> frame_fail_after (mmu_frames m) \<or>
       card (low_free m) < 2 * card (load_pages (program_headers buf header)))"
proof -
  define phs where "phs = program_headers buf header"
  obtain cs pl where c: "check_segments phs (of_nat (length buf)) empty_plan = (cs, pl)" by force
  obtain ls n m2 where l: "load_segments phs buf 0 m = (ls, n, m2)" using prod_cases3 by blast
  have cs: "cs \<in> {ELF_SUCCESS, ELF_EINVAL}" using check_status [of phs "of_nat (length buf)" empty_plan] c by simp
  have vh: "validate_header header (of_nat (length buf)) \<in> {ELF_SUCCESS, ELF_EINVAL}" by (rule header_status)
  have pass: "elf_valid buf \<longleftrightarrow> validate_header header (of_nat (length buf)) = ELF_SUCCESS \<and> cs = ELF_SUCCESS \<and>
      \<not> (lp_ranges pl = [] \<or> eh_entry header < lp_start pl \<or> lp_end pl \<le> eh_entry header)"
    unfolding checks_pass_iff [OF assms(3), symmetric] checks_pass_def Let_def header_def [symmetric] phs_def [symmetric] c prod.case ..
  have r: "(st, info, m') = (if validate_header header (of_nat (length buf)) \<noteq> ELF_SUCCESS
       then (validate_header header (of_nat (length buf)), zero_load_info, m)
     else if cs \<noteq> ELF_SUCCESS then (cs, zero_load_info, m)
     else if lp_ranges pl = [] \<or> eh_entry header < lp_start pl \<or> lp_end pl \<le> eh_entry header then (ELF_EINVAL, zero_load_info, m)
     else if ls \<noteq> ELF_SUCCESS then (ls, zero_load_info, m2)
     else (ELF_SUCCESS, \<lparr>li_entry = eh_entry header, li_load_start = lp_start pl, li_load_end = lp_end pl,
        li_loaded_bytes = n, li_segment_count = of_nat (length (lp_ranges pl))\<rparr>, m2))"
    unfolding assms(4) [symmetric] load_bytes_of_def Let_def header_def [symmetric] phs_def [symmetric] c l prod.case ..
  have ne: "ELF_EINVAL \<noteq> ELF_SUCCESS" "ELF_ENOSPC \<noteq> ELF_SUCCESS" "ELF_ENOSPC \<noteq> ELF_EINVAL"
    by (simp_all add: ELF_EINVAL_def ELF_SUCCESS_def ELF_ENOSPC_def)
  show ?thesis
  proof (cases "elf_valid buf")
    case True
    note p = True [unfolded pass]
    note img = loaded_image [OF assms(1,2) c [unfolded conjunct1 [OF conjunct2 [OF p]]] assms(3) l]
    have "image_loaded buf m m2" if "ls = ELF_SUCCESS"
      using img that unfolding image_loaded_def Let_def phs_def header_def by blast
    then show ?thesis using r p True img ne by (auto simp: phs_def split: if_splits)
  next
    case False
    then have "st = ELF_EINVAL \<and> m' = m" using r vh cs unfolding pass by (auto split: if_splits)
    then show ?thesis using False ne by simp
  qed
qed

text \<open>Loading a program from its path.\<close>

lemma loaded_from_path:
  assumes "vfs_ok (k_vfs k)" and "vfs_mounted (k_vfs k)" and "active_ok (k_mmu k)" and "active_page_directory (k_mmu k) \<noteq> 0"
    and "is_cstring p (0x2F # n)" and "valid_name n" and "elf_load_from_vfs (Some p) True k = (st, info, k')"
  shows "files_kept k k' \<and>
    (case ramfiles (vfs_fs (k_vfs k)) n of
       None \<Rightarrow> st = ELF_ENOENT \<and> k_mmu k' = k_mmu k
     | Some bs \<Rightarrow>
         if bs = [] \<or> 8192 < length bs then st = ELF_EINVAL \<and> k_mmu k' = k_mmu k
         else if \<forall>i<16. of_used (vfs_open_files (k_vfs k) ! i) then st = ELF_EIO \<and> k_mmu k' = k_mmu k
         else if \<not> elf_valid bs then st = ELF_EINVAL \<and> k_mmu k' = k_mmu k
         else st = ELF_SUCCESS \<and> image_loaded bs (k_mmu k) (k_mmu k') \<and> li_entry info = eh_entry (header_of_bytes bs) \<and>
              li_load_start info \<le> li_entry info \<and> li_entry info < li_load_end info
           \<or> st = ELF_EINVAL \<and> (\<exists>page\<in>load_pages (program_headers bs (header_of_bytes bs)). paging_is_mapped page (k_mmu k))
           \<or> st = ELF_ENOSPC \<and> (0 \<le> frame_fail_after (mmu_frames (k_mmu k)) \<or>
               card (low_free (k_mmu k)) < 2 * card (load_pages (program_headers bs (header_of_bytes bs)))))"
proof -
  obtain rs buf v where rd: "read_file_into_buffer (Some p) (k_vfs k) = (rs, buf, v)" using prod_cases3 by blast
  note f = read_file_ok [OF assms(1,2,5,6) rd]
  obtain ls li m where l: "load_bytes_of buf (k_mmu k) = (ls, li, m)" using prod_cases3 by blast
  have k': "(st, info, k') = (if rs \<noteq> ELF_SUCCESS then (rs, zero_load_info, k\<lparr>k_vfs := v\<rparr>) else (ls, li, k\<lparr>k_vfs := v, k_mmu := m\<rparr>))"
    using elf_load_unfold [OF rd] assms(7) l by (simp add: Let_def)
  have kept: "files_kept k k'"
    using k' f by (auto simp: files_kept_def split: if_splits)
  have ne: "ELF_ENOENT \<noteq> ELF_SUCCESS" "ELF_EINVAL \<noteq> ELF_SUCCESS" "ELF_EIO \<noteq> ELF_SUCCESS"
    by (simp_all add: ELF_ENOENT_def ELF_EINVAL_def ELF_SUCCESS_def ELF_EIO_def)
  show ?thesis
  proof (cases "ramfiles (vfs_fs (k_vfs k)) n")
    case None
    then show ?thesis using f k' ne kept by auto
  next
    case (Some bs)
    define full where "full \<longleftrightarrow> (\<forall>i<16. of_used (vfs_open_files (k_vfs k) ! i))"
    have f': "if bs = [] \<or> 8192 < length bs then rs = ELF_EINVAL else if full then rs = ELF_EIO else rs = ELF_SUCCESS \<and> buf = bs"
      using f unfolding Some full_def [symmetric] by simp
    show ?thesis
    proof (cases "bs = [] \<or> 8192 < length bs \<or> full")
      case True
      then have "st = (if bs = [] \<or> 8192 < length bs then ELF_EINVAL else ELF_EIO) \<and> k_mmu k' = k_mmu k"
        using f' k' ne by (auto split: if_splits)
      moreover have full if "\<not> (bs = [] \<or> 8192 < length bs)" using True that by blast
      ultimately show ?thesis unfolding Some option.case full_def [symmetric] using kept
        by (cases "bs = [] \<or> 8192 < length bs") (simp_all only: if_True if_False simp_thms)
    next
      case False
      then have b: "rs = ELF_SUCCESS" "buf = bs" using f' by simp_all
      then have "length buf < 2 ^ 32" using False by simp
      from load_bytes_of_ok [OF assms(3,4) this l]
      show ?thesis unfolding Some option.case full_def [symmetric] using False k' b kept by auto
    qed
  qed
qed

end
