(* ===== verification/Test_Calls.thy ===== *)
theory Test_Calls
  imports Syscall_Handle
begin

text \<open>
  The calls of \<^verbatim>\<open>src/kernel/syscall.c\<close> that exist in self-test builds only. Which of them a build has is fixed by
  the \<^verbatim>\<open>ENABLE_\<close> macros it is compiled with, here the record \<open>build\<close>. A user program of a self test reports what it has seen through
  \<^verbatim>\<open>SYS_TEST_MARKER\<close>: the kernel prints a line for a marker that it has granted to the process, once for each grant.
\<close>

section \<open>Builds, numbers and markers\<close>

record build =
  enable_syscall_abi :: bool
  enable_usermode :: bool
  enable_syscall_negative :: bool
  enable_syscall_file :: bool
  enable_process_syscall :: bool
  enable_process_lifecycle :: bool
  enable_redteam :: bool
  enable_exec_args :: bool
  enable_vm :: bool
  enable_ipc :: bool

definition has_markers :: "build \<Rightarrow> bool" where
  "has_markers b \<longleftrightarrow> enable_syscall_negative b \<or> enable_syscall_file b \<or> enable_process_syscall b \<or>
     enable_process_lifecycle b \<or> enable_redteam b \<or> enable_exec_args b \<or> enable_vm b \<or> enable_ipc b"

definition SYS_TEST_ABI :: u32 where "SYS_TEST_ABI = 6"
definition SYS_USERMODE_TEST :: u32 where "SYS_USERMODE_TEST = 7"
definition SYS_TEST_MARKER :: u32 where "SYS_TEST_MARKER = 8"

definition SYSCALL_MARK_INVALID_NUM :: u32 where "SYSCALL_MARK_INVALID_NUM = 1"
definition SYSCALL_MARK_ZERO_NUM :: u32 where "SYSCALL_MARK_ZERO_NUM = 2"
definition SYSCALL_MARK_BAD_POINTER :: u32 where "SYSCALL_MARK_BAD_POINTER = 3"
definition SYSCALL_MARK_UNMAPPED_POINTER :: u32 where "SYSCALL_MARK_UNMAPPED_POINTER = 4"
definition SYSCALL_MARK_RING3_OK :: u32 where "SYSCALL_MARK_RING3_OK = 5"
definition SYSCALL_MARK_DONE :: u32 where "SYSCALL_MARK_DONE = 6"
definition SYSCALL_MARK_FILE_OPEN :: u32 where "SYSCALL_MARK_FILE_OPEN = 7"
definition SYSCALL_MARK_FILE_WRITE :: u32 where "SYSCALL_MARK_FILE_WRITE = 8"
definition SYSCALL_MARK_FILE_READ :: u32 where "SYSCALL_MARK_FILE_READ = 9"
definition SYSCALL_MARK_FILE_STAT :: u32 where "SYSCALL_MARK_FILE_STAT = 10"
definition SYSCALL_MARK_FILE_NEGATIVE :: u32 where "SYSCALL_MARK_FILE_NEGATIVE = 11"
definition SYSCALL_MARK_FILE_DONE :: u32 where "SYSCALL_MARK_FILE_DONE = 12"
definition SYSCALL_MARK_FILE_OPEN_FAIL :: u32 where "SYSCALL_MARK_FILE_OPEN_FAIL = 13"
definition SYSCALL_MARK_FILE_WRITE_FAIL :: u32 where "SYSCALL_MARK_FILE_WRITE_FAIL = 14"
definition SYSCALL_MARK_FILE_READ_FAIL :: u32 where "SYSCALL_MARK_FILE_READ_FAIL = 15"
definition SYSCALL_MARK_FILE_STAT_FAIL :: u32 where "SYSCALL_MARK_FILE_STAT_FAIL = 16"
definition SYSCALL_MARK_FILE_NEG_FAIL :: u32 where "SYSCALL_MARK_FILE_NEG_FAIL = 17"
definition SYSCALL_MARK_PROCESS_GETPID :: u32 where "SYSCALL_MARK_PROCESS_GETPID = 18"
definition SYSCALL_MARK_PROCESS_BRK_QUERY :: u32 where "SYSCALL_MARK_PROCESS_BRK_QUERY = 19"
definition SYSCALL_MARK_PROCESS_BRK_GROW :: u32 where "SYSCALL_MARK_PROCESS_BRK_GROW = 20"
definition SYSCALL_MARK_PROCESS_BRK_RW :: u32 where "SYSCALL_MARK_PROCESS_BRK_RW = 21"
definition SYSCALL_MARK_PROCESS_BRK_SHRINK :: u32 where "SYSCALL_MARK_PROCESS_BRK_SHRINK = 22"
definition SYSCALL_MARK_PROCESS_WAIT_NEG :: u32 where "SYSCALL_MARK_PROCESS_WAIT_NEG = 23"
definition SYSCALL_MARK_PROCESS_EXEC_ENTERED :: u32 where "SYSCALL_MARK_PROCESS_EXEC_ENTERED = 24"
definition SYSCALL_MARK_PROCESS_DONE :: u32 where "SYSCALL_MARK_PROCESS_DONE = 25"
definition SYSCALL_MARK_PROCESS_FAIL :: u32 where "SYSCALL_MARK_PROCESS_FAIL = 26"
definition SYSCALL_MARK_RED_MARKER_BLOCKED :: u32 where "SYSCALL_MARK_RED_MARKER_BLOCKED = 27"
definition SYSCALL_MARK_RED_EXEC_BLOCKED :: u32 where "SYSCALL_MARK_RED_EXEC_BLOCKED = 28"
definition SYSCALL_MARK_RED_DEFENSES_DONE :: u32 where "SYSCALL_MARK_RED_DEFENSES_DONE = 29"
definition SYSCALL_MARK_RED_FAIL :: u32 where "SYSCALL_MARK_RED_FAIL = 30"
definition SYSCALL_MARK_RED_EXEC_FD_BLOCKED :: u32 where "SYSCALL_MARK_RED_EXEC_FD_BLOCKED = 31"
definition SYSCALL_MARK_RED_ELF_OVERLAP_BLOCKED :: u32 where "SYSCALL_MARK_RED_ELF_OVERLAP_BLOCKED = 32"
definition SYSCALL_MARK_RED_EXEC_FAILURE_CLEANUP_BLOCKED :: u32 where "SYSCALL_MARK_RED_EXEC_FAILURE_CLEANUP_BLOCKED = 33"
definition SYSCALL_MARK_RED_PROCESS_DESTROY_CLEANUP_BLOCKED :: u32 where "SYSCALL_MARK_RED_PROCESS_DESTROY_CLEANUP_BLOCKED = 34"
definition SYSCALL_MARK_RED_SYSCALL_PRIV_BLOCKED :: u32 where "SYSCALL_MARK_RED_SYSCALL_PRIV_BLOCKED = 35"
definition SYSCALL_MARK_LIFECYCLE_FORK_PARENT :: u32 where "SYSCALL_MARK_LIFECYCLE_FORK_PARENT = 36"
definition SYSCALL_MARK_LIFECYCLE_FORK_CHILD :: u32 where "SYSCALL_MARK_LIFECYCLE_FORK_CHILD = 37"
definition SYSCALL_MARK_LIFECYCLE_WAIT_REAP :: u32 where "SYSCALL_MARK_LIFECYCLE_WAIT_REAP = 38"
definition SYSCALL_MARK_LIFECYCLE_ISOLATION :: u32 where "SYSCALL_MARK_LIFECYCLE_ISOLATION = 39"
definition SYSCALL_MARK_LIFECYCLE_EXEC_REPLACED :: u32 where "SYSCALL_MARK_LIFECYCLE_EXEC_REPLACED = 40"
definition SYSCALL_MARK_LIFECYCLE_DONE :: u32 where "SYSCALL_MARK_LIFECYCLE_DONE = 41"
definition SYSCALL_MARK_LIFECYCLE_FAIL :: u32 where "SYSCALL_MARK_LIFECYCLE_FAIL = 42"
definition SYSCALL_MARK_RED_MARKER_REPLAY_BLOCKED :: u32 where "SYSCALL_MARK_RED_MARKER_REPLAY_BLOCKED = 43"
definition SYSCALL_MARK_EXEC_ARGS_NEGATIVE :: u32 where "SYSCALL_MARK_EXEC_ARGS_NEGATIVE = 44"
definition SYSCALL_MARK_EXEC_ARGS_LAYOUT :: u32 where "SYSCALL_MARK_EXEC_ARGS_LAYOUT = 45"
definition SYSCALL_MARK_EXEC_ARGS_CONTENT :: u32 where "SYSCALL_MARK_EXEC_ARGS_CONTENT = 46"
definition SYSCALL_MARK_EXEC_ARGS_DONE :: u32 where "SYSCALL_MARK_EXEC_ARGS_DONE = 47"
definition SYSCALL_MARK_EXEC_ARGS_FAIL :: u32 where "SYSCALL_MARK_EXEC_ARGS_FAIL = 48"
definition SYSCALL_MARK_VM_DEMAND_ZERO :: u32 where "SYSCALL_MARK_VM_DEMAND_ZERO = 49"
definition SYSCALL_MARK_VM_COW_SHARED :: u32 where "SYSCALL_MARK_VM_COW_SHARED = 50"
definition SYSCALL_MARK_VM_COW_SPLIT :: u32 where "SYSCALL_MARK_VM_COW_SPLIT = 51"
definition SYSCALL_MARK_VM_COW_ISOLATION :: u32 where "SYSCALL_MARK_VM_COW_ISOLATION = 52"
definition SYSCALL_MARK_VM_FRAME_ACCOUNTING :: u32 where "SYSCALL_MARK_VM_FRAME_ACCOUNTING = 53"
definition SYSCALL_MARK_VM_GUARD_TERMINATION :: u32 where "SYSCALL_MARK_VM_GUARD_TERMINATION = 54"
definition SYSCALL_MARK_VM_DONE :: u32 where "SYSCALL_MARK_VM_DONE = 55"
definition SYSCALL_MARK_VM_FAIL :: u32 where "SYSCALL_MARK_VM_FAIL = 56"
definition SYSCALL_MARK_WAITPID_WNOHANG :: u32 where "SYSCALL_MARK_WAITPID_WNOHANG = 57"
definition SYSCALL_MARK_WAITPID_SPECIFIC :: u32 where "SYSCALL_MARK_WAITPID_SPECIFIC = 58"
definition SYSCALL_MARK_WAITPID_STATUS :: u32 where "SYSCALL_MARK_WAITPID_STATUS = 59"
definition SYSCALL_MARK_WAITPID_NEGATIVE :: u32 where "SYSCALL_MARK_WAITPID_NEGATIVE = 60"
definition SYSCALL_MARK_WAITPID_DONE :: u32 where "SYSCALL_MARK_WAITPID_DONE = 61"
definition SYSCALL_MARK_WAITPID_FAIL :: u32 where "SYSCALL_MARK_WAITPID_FAIL = 62"
definition SYSCALL_MARK_SIGNAL_KILL :: u32 where "SYSCALL_MARK_SIGNAL_KILL = 63"
definition SYSCALL_MARK_SIGNAL_IGN :: u32 where "SYSCALL_MARK_SIGNAL_IGN = 64"
definition SYSCALL_MARK_PIPE_CREATE :: u32 where "SYSCALL_MARK_PIPE_CREATE = 65"
definition SYSCALL_MARK_PIPE_IO :: u32 where "SYSCALL_MARK_PIPE_IO = 66"
definition SYSCALL_MARK_PIPE_EOF :: u32 where "SYSCALL_MARK_PIPE_EOF = 67"
definition SYSCALL_MARK_IPC_DONE :: u32 where "SYSCALL_MARK_IPC_DONE = 68"
definition SYSCALL_MARK_IPC_FAIL :: u32 where "SYSCALL_MARK_IPC_FAIL = 69"

text \<open>The lines that a marker prints, by the part of the switch that handles it.\<close>

definition common_marks :: "(u32 \<times> string) list" where
  "common_marks =
    [(SYSCALL_MARK_INVALID_NUM, ''SYSCALL_INVALID_NUM_OK''),
     (SYSCALL_MARK_ZERO_NUM, ''SYSCALL_ZERO_NUM_OK''),
     (SYSCALL_MARK_BAD_POINTER, ''SYSCALL_BAD_POINTER_OK''),
     (SYSCALL_MARK_UNMAPPED_POINTER, ''SYSCALL_UNMAPPED_POINTER_OK''),
     (SYSCALL_MARK_RING3_OK, ''SYSCALL_RING3_OK''),
     (SYSCALL_MARK_DONE, ''SYSCALL_NEGATIVE_OK''),
     (SYSCALL_MARK_FILE_OPEN, ''SYSCALL_FILE_OPEN_OK''),
     (SYSCALL_MARK_FILE_WRITE, ''SYSCALL_FILE_WRITE_OK''),
     (SYSCALL_MARK_FILE_READ, ''SYSCALL_FILE_READ_OK''),
     (SYSCALL_MARK_FILE_STAT, ''SYSCALL_FILE_STAT_OK''),
     (SYSCALL_MARK_FILE_NEGATIVE, ''SYSCALL_FILE_NEGATIVE_OK''),
     (SYSCALL_MARK_FILE_DONE, ''SYSCALL_FILE_OK''),
     (SYSCALL_MARK_FILE_OPEN_FAIL, ''SYSCALL_FILE_OPEN_FAIL''),
     (SYSCALL_MARK_FILE_WRITE_FAIL, ''SYSCALL_FILE_WRITE_FAIL''),
     (SYSCALL_MARK_FILE_READ_FAIL, ''SYSCALL_FILE_READ_FAIL''),
     (SYSCALL_MARK_FILE_STAT_FAIL, ''SYSCALL_FILE_STAT_FAIL''),
     (SYSCALL_MARK_FILE_NEG_FAIL, ''SYSCALL_FILE_NEGATIVE_FAIL''),
     (SYSCALL_MARK_PROCESS_GETPID, ''PROCESS_GETPID_OK''),
     (SYSCALL_MARK_PROCESS_BRK_QUERY, ''PROCESS_BRK_QUERY_OK''),
     (SYSCALL_MARK_PROCESS_BRK_GROW, ''PROCESS_BRK_GROW_OK''),
     (SYSCALL_MARK_PROCESS_BRK_RW, ''PROCESS_BRK_RW_OK''),
     (SYSCALL_MARK_PROCESS_BRK_SHRINK, ''PROCESS_BRK_SHRINK_OK''),
     (SYSCALL_MARK_PROCESS_WAIT_NEG, ''PROCESS_WAIT_NEGATIVE_OK''),
     (SYSCALL_MARK_PROCESS_EXEC_ENTERED, ''PROCESS_EXEC_ENTERED_OK''),
     (SYSCALL_MARK_PROCESS_DONE, ''PROCESS_OK''),
     (SYSCALL_MARK_PROCESS_FAIL, ''PROCESS_FAIL'')]"

definition lifecycle_marks :: "(u32 \<times> string) list" where
  "lifecycle_marks =
    [(SYSCALL_MARK_LIFECYCLE_FORK_PARENT, ''LIFECYCLE_FORK_PARENT_OK''),
     (SYSCALL_MARK_LIFECYCLE_FORK_CHILD, ''LIFECYCLE_FORK_CHILD_OK''),
     (SYSCALL_MARK_LIFECYCLE_WAIT_REAP, ''LIFECYCLE_WAIT_REAP_OK''),
     (SYSCALL_MARK_LIFECYCLE_ISOLATION, ''LIFECYCLE_FORK_ISOLATION_OK''),
     (SYSCALL_MARK_LIFECYCLE_EXEC_REPLACED, ''LIFECYCLE_EXEC_REPLACEMENT_OK''),
     (SYSCALL_MARK_LIFECYCLE_DONE, ''LIFECYCLE_OK''),
     (SYSCALL_MARK_LIFECYCLE_FAIL, ''LIFECYCLE_FAIL'')]"

definition vm_marks :: "(u32 \<times> string) list" where
  "vm_marks =
    [(SYSCALL_MARK_VM_DEMAND_ZERO, ''VM_DEMAND_ZERO_OK''),
     (SYSCALL_MARK_VM_COW_SHARED, ''VM_COW_SHARED_OK''),
     (SYSCALL_MARK_VM_COW_SPLIT, ''VM_COW_SPLIT_OK''),
     (SYSCALL_MARK_VM_COW_ISOLATION, ''VM_COW_ISOLATION_OK''),
     (SYSCALL_MARK_VM_FRAME_ACCOUNTING, ''VM_FRAME_ACCOUNTING_OK''),
     (SYSCALL_MARK_VM_GUARD_TERMINATION, ''VM_GUARD_TERMINATION_OK''),
     (SYSCALL_MARK_VM_DONE, ''VM_OK''),
     (SYSCALL_MARK_VM_FAIL, ''VM_FAIL'')]"

definition exec_args_marks :: "(u32 \<times> string) list" where
  "exec_args_marks =
    [(SYSCALL_MARK_EXEC_ARGS_NEGATIVE, ''EXEC_ARGS_NEGATIVE_OK''),
     (SYSCALL_MARK_EXEC_ARGS_LAYOUT, ''EXEC_ARGS_LAYOUT_OK''),
     (SYSCALL_MARK_EXEC_ARGS_CONTENT, ''EXEC_ARGS_CONTENT_OK''),
     (SYSCALL_MARK_EXEC_ARGS_DONE, ''EXEC_ARGS_OK''),
     (SYSCALL_MARK_EXEC_ARGS_FAIL, ''EXEC_ARGS_FAIL'')]"

definition redteam_marks :: "(u32 \<times> string) list" where
  "redteam_marks =
    [(SYSCALL_MARK_RED_MARKER_BLOCKED, ''RED_MARKER_FORGERY_BLOCKED''),
     (SYSCALL_MARK_RED_MARKER_REPLAY_BLOCKED, ''RED_MARKER_REPLAY_BLOCKED''),
     (SYSCALL_MARK_RED_EXEC_BLOCKED, ''RED_EXEC_RESIDUAL_MAPPING_BLOCKED''),
     (SYSCALL_MARK_RED_EXEC_FD_BLOCKED, ''RED_EXEC_FD_LEAK_BLOCKED''),
     (SYSCALL_MARK_RED_ELF_OVERLAP_BLOCKED, ''RED_ELF_OVERLAP_BLOCKED''),
     (SYSCALL_MARK_RED_EXEC_FAILURE_CLEANUP_BLOCKED, ''RED_EXEC_FAILURE_CLEANUP_BLOCKED''),
     (SYSCALL_MARK_RED_PROCESS_DESTROY_CLEANUP_BLOCKED, ''RED_PROCESS_DESTROY_CLEANUP_BLOCKED''),
     (SYSCALL_MARK_RED_SYSCALL_PRIV_BLOCKED, ''RED_SYSCALL_PRIVILEGE_BLOCKED''),
     (SYSCALL_MARK_RED_DEFENSES_DONE, ''RED_DEFENSES_OK''),
     (SYSCALL_MARK_RED_FAIL, ''RED_TEAM_FAIL'')]"

definition ipc_marks :: "(u32 \<times> string) list" where
  "ipc_marks =
    [(SYSCALL_MARK_WAITPID_WNOHANG, ''WAITPID_WNOHANG_OK''),
     (SYSCALL_MARK_WAITPID_SPECIFIC, ''WAITPID_SPECIFIC_OK''),
     (SYSCALL_MARK_WAITPID_STATUS, ''WAITPID_STATUS_OK''),
     (SYSCALL_MARK_WAITPID_NEGATIVE, ''WAITPID_NEGATIVE_OK''),
     (SYSCALL_MARK_SIGNAL_KILL, ''SIGNAL_KILL_OK''),
     (SYSCALL_MARK_SIGNAL_IGN, ''SIGNAL_IGN_OK''),
     (SYSCALL_MARK_PIPE_CREATE, ''PIPE_CREATE_OK''),
     (SYSCALL_MARK_PIPE_IO, ''PIPE_IO_OK''),
     (SYSCALL_MARK_PIPE_EOF, ''PIPE_EOF_OK''),
     (SYSCALL_MARK_IPC_DONE, ''IPC_OK''),
     (SYSCALL_MARK_IPC_FAIL, ''IPC_FAIL'')]"
text \<open>\<^verbatim>\<open>switch (arg1)\<close>: the line of a marker in this build.\<close>

definition marker_line :: "build \<Rightarrow> u32 \<Rightarrow> string option" where
  "marker_line b marker = map_of (common_marks @
      (if enable_process_lifecycle b then lifecycle_marks else []) @ (if enable_vm b then vm_marks else []) @
      (if enable_exec_args b then exec_args_marks else []) @ (if enable_redteam b then redteam_marks else []) @
      (if enable_ipc b then ipc_marks else [])) marker"

section \<open>The calls\<close>

text \<open>The kernel with the static variable \<^verbatim>\<open>vm_test_free_after_demand\<close>.\<close>

record 'd tested =
  t_kernel :: "'d kernel"
  t_vm_free :: u32

definition put_line :: "string \<Rightarrow> 'd kernel \<Rightarrow> 'd kernel" where
  "put_line text k = k\<lparr>k_serial := serial_puts (str8 text @ [0x0A]) (k_serial k)\<rparr>"

definition sys_test_abi :: "u32 \<Rightarrow> u32 \<Rightarrow> u32 \<Rightarrow> u32 \<Rightarrow> 'd kernel \<Rightarrow> u32 \<times> 'd kernel" where
  "sys_test_abi arg1 arg2 arg3 caller_cs k =
     (if is_ring3 caller_cs then (SYSCALL_EPERM, k)
      else
        let out = serial_puts (str8 ''SYSCALL_ABI_OK:'') (k_serial k);
            out = (if arg1 = 0x11111111 \<and> arg2 = 0x22222222 \<and> arg3 = 0x33333333
                   then serial_puts (str8 ''ARGS_OK'') out else serial_puts (str8 ''ARGS_FAIL'') out)
        in (0xDEADBEEF, k\<lparr>k_serial := serial_puts [0x0A] out\<rparr>))"

definition sys_usermode_test :: "u32 \<Rightarrow> u32 \<Rightarrow> 'd kernel \<Rightarrow> u32 \<times> 'd kernel" where
  "sys_usermode_test arg1 caller_cs k =
     (if is_ring3 caller_cs \<and> arg1 = 0xCAFEBABE then (0xC001C0DE, put_line ''USERMODE_RING3_OK'' k)
      else (SYSCALL_EPERM, put_line ''USERMODE_RING3_FAIL'' k))"

text \<open>\<^verbatim>\<open>*(volatile uint32_t *)PROCESS_HEAP_START != value\<close>: a load in the current address space.\<close>

definition heap_word_is :: "u32 \<Rightarrow> 'd kernel \<Rightarrow> bool \<times> 'd kernel" where
  "heap_word_is v k =
     (let (bytes, m) = load_bytes PROCESS_HEAP_START 4 (k_mmu k) in (of_le32 bytes = v, k\<lparr>k_mmu := m\<rparr>))"

text \<open>What the markers of the virtual memory test and \<^verbatim>\<open>LIFECYCLE_WAIT_REAP\<close> check before they print.\<close>

definition vm_mark_check :: "u32 \<Rightarrow> nat \<Rightarrow> u32 \<Rightarrow> 'd kernel \<Rightarrow> bool \<times> 'd kernel" where
  "vm_mark_check marker cur vm_free k =
     (let m = k_mmu k;
          phys = paging_get_physical_address PROCESS_HEAP_START m AND 0xFFFFF000;
          flags = paging_get_page_flags_in_directory (p_cr3 (proc k cur)) PROCESS_HEAP_START m;
          refs = frame_get_refcount phys (mmu_frames m)
      in if marker = SYSCALL_MARK_VM_DEMAND_ZERO then
           (if phys = 0 \<or> flags AND PAGE_WRITABLE = 0 \<or> flags AND PAGE_USER = 0 \<or> refs \<noteq> 1 then (False, k)
            else heap_word_is 0 k)
         else if marker = SYSCALL_MARK_VM_COW_SHARED then
           (if phys = 0 \<or> flags AND PAGE_COW = 0 \<or> flags AND PAGE_WRITABLE \<noteq> 0 \<or> refs \<noteq> 2 then (False, k)
            else heap_word_is 0x13579BDF k)
         else if marker = SYSCALL_MARK_VM_COW_SPLIT then
           (if phys = 0 \<or> flags AND PAGE_WRITABLE = 0 \<or> flags AND PAGE_COW \<noteq> 0 \<or> refs \<noteq> 1 then (False, k)
            else heap_word_is 0x2468ACE0 k)
         else if marker = SYSCALL_MARK_VM_COW_ISOLATION then
           (if phys = 0 \<or> refs \<noteq> 1 then (False, k) else heap_word_is 0x13579BDF k)
         else if marker = SYSCALL_MARK_VM_FRAME_ACCOUNTING \<or> marker = SYSCALL_MARK_VM_GUARD_TERMINATION then
           (process_get_count k = 1 \<and> frame_get_free_count (mmu_frames m) = vm_free, k)
         else (True, k))"

definition mark_check :: "u32 \<Rightarrow> nat \<Rightarrow> u32 \<Rightarrow> 'd kernel \<Rightarrow> bool \<times> 'd kernel" where
  "mark_check marker cur vm_free k =
     (if marker = SYSCALL_MARK_LIFECYCLE_WAIT_REAP then (process_get_count k = 1, k)
      else vm_mark_check marker cur vm_free k)"

definition sys_test_marker :: "build \<Rightarrow> u32 \<Rightarrow> u32 \<Rightarrow> 'd tested \<Rightarrow> u32 \<times> 'd tested" where
  "sys_test_marker b arg1 caller_cs s =
     (let current = process_get_current (t_kernel s) in
      if \<not> is_ring3 caller_cs then (SYSCALL_EPERM, s)
      else
        let (ok, k) = process_consume_test_marker current arg1 (t_kernel s); s = s\<lparr>t_kernel := k\<rparr> in
        if \<not> ok then (SYSCALL_EPERM, s)
        else case marker_line b arg1 of
          None \<Rightarrow> (SYSCALL_EINVAL, s)
        | Some text \<Rightarrow>
            let (ok, k) = mark_check arg1 (the current) (t_vm_free s) (t_kernel s); s = s\<lparr>t_kernel := k\<rparr> in
            if \<not> ok then (SYSCALL_EINVAL, s)
            else
              let s = (if arg1 = SYSCALL_MARK_VM_DEMAND_ZERO
                       then s\<lparr>t_vm_free := frame_get_free_count (mmu_frames (k_mmu (t_kernel s)))\<rparr> else s)
              in (SYSCALL_SUCCESS, s\<lparr>t_kernel := put_line text (t_kernel s)\<rparr>))"

text \<open>The dispatcher of a build: the test calls it has, then the calls of every build.\<close>

definition syscall_handle_in :: "build \<Rightarrow> u32 \<Rightarrow> u32 \<Rightarrow> u32 \<Rightarrow> u32 \<Rightarrow> u32 \<Rightarrow> u32 \<Rightarrow> u32 option \<Rightarrow> 'd tested \<Rightarrow>
    u32 \<times> u32 option \<times> 'd tested" where
  "syscall_handle_in b num arg1 arg2 arg3 caller_cs frame_ptr control s =
     (if num = SYS_TEST_ABI \<and> (enable_syscall_abi b \<or> enable_redteam b) then
        (let (r, k) = sys_test_abi arg1 arg2 arg3 caller_cs (t_kernel s) in (r, None, s\<lparr>t_kernel := k\<rparr>))
      else if num = SYS_USERMODE_TEST \<and> enable_usermode b then
        (let (r, k) = sys_usermode_test arg1 caller_cs (t_kernel s) in (r, None, s\<lparr>t_kernel := k\<rparr>))
      else if num = SYS_TEST_MARKER \<and> has_markers b then
        (let (r, s) = sys_test_marker b arg1 caller_cs s in (r, None, s))
      else
        let (r, resume, k) = syscall_handle num arg1 arg2 arg3 caller_cs frame_ptr control (t_kernel s)
        in (r, resume, s\<lparr>t_kernel := k\<rparr>))"

section \<open>A grant is used once\<close>

definition granted :: "nat \<Rightarrow> u32 \<Rightarrow> 'd kernel \<Rightarrow> bool" where
  "granted i marker k \<longleftrightarrow> marker_valid marker \<and>
     bit (p_test_marker_permissions (proc k i) ! marker_word marker) (unat ((marker - 1) mod 64))"

text \<open>The state after the process \<open>i\<close> has used its grant for \<open>marker\<close>.\<close>

definition grant_used :: "nat \<Rightarrow> u32 \<Rightarrow> 'd kernel \<Rightarrow> 'd kernel" where
  "grant_used i marker k = set_proc i (\<lambda>p. p\<lparr>p_test_marker_permissions :=
     (let perms = p_test_marker_permissions p; w = marker_word marker in perms[w := perms ! w AND NOT (marker_bit marker)])\<rparr>) k"

lemma marker_bit_zero_iff: "x AND marker_bit m = 0 \<longleftrightarrow> \<not> bit x (unat ((m - 1) mod 64))"
  by (simp add: marker_bit_def bit_iff_and_push_bit_not_eq_0)

lemma consume_granted:
  "process_consume_test_marker (Some i) m k = (if granted i m k then (True, grant_used i m k) else (False, k))"
  by (simp add: process_consume_test_marker_def granted_def grant_used_def marker_bit_zero_iff Let_def)

lemma marker_place:
  assumes "marker_valid m" and "marker_valid m'" and "marker_word m = marker_word m'" and "(m - 1) mod 64 = (m' - 1) mod 64"
  shows "m = m'"
proof -
  have "unat (m - 1) div 64 = unat (m' - 1) div 64" "unat (m - 1) mod 64 = unat (m' - 1) mod 64"
    using assms(3) arg_cong [OF assms(4), of unat] by (simp_all add: marker_word_def unat_div unat_mod)
  then have "unat (m - 1) = unat (m' - 1)" by (metis div_mult_mod_eq)
  then have "m - 1 = m' - 1" by (simp add: word_unat_eq_iff)
  then show ?thesis by (metis diff_add_cancel)
qed

lemma marker_word_small: "marker_valid m \<Longrightarrow> marker_word m < 2"
proof -
  assume "marker_valid m"
  then have "m \<noteq> 0" "m \<le> 128" by (simp_all add: marker_valid_def PROCESS_TEST_MARKER_WORDS_def not_less)
  then have "unat (m - 1) < 128" by (simp add: word_le_nat_alt unat_minus_one)
  then show ?thesis by (simp add: marker_word_def unat_div)
qed

lemma granted_after:
  assumes "i < length (process_table k)" and "length (p_test_marker_permissions (proc k i)) = 2" and "granted i m k"
  shows "granted i m' (grant_used i m k) \<longleftrightarrow> granted i m' k \<and> m' \<noteq> m"
proof (cases "marker_valid m'")
  case True
  have v: "marker_valid m" using assms(3) by (simp add: granted_def)
  let ?n = "\<lambda>m. unat ((m - 1) mod (64 :: u32))"
  have n: "?n x < 64" for x by (simp add: unat_mod)
  have b: "bit (x AND NOT (marker_bit m)) (?n m') \<longleftrightarrow> bit x (?n m') \<and> ?n m' \<noteq> ?n m" for x :: u64
    using n [of m'] by (auto simp: marker_bit_def bit_and_iff bit_not_iff bit_exp_iff)
  show ?thesis
    using True v assms(1,2) marker_word_small [OF v] marker_place [OF True v] b word_unat_eq_iff [of "(m' - 1) mod 64" "(m - 1) mod 64"]
    by (cases "marker_word m' = marker_word m") (auto simp: granted_def grant_used_def Let_def)
qed (simp add: granted_def)

lemma heap_word_is_keeps [simp]:
  "process_table (snd (heap_word_is v k)) = process_table k" "k_serial (snd (heap_word_is v k)) = k_serial k"
  by (simp_all add: heap_word_is_def load_bytes_def)

lemma mark_check_keeps [simp]:
  "process_table (snd (mark_check m i n k)) = process_table k" "k_serial (snd (mark_check m i n k)) = k_serial k"
  by (simp_all add: mark_check_def vm_mark_check_def Let_def)

lemma grant_used_keeps [simp]:
  "k_serial (grant_used i m k) = k_serial k" "length (process_table (grant_used i m k)) = length (process_table k)"
  by (simp_all add: grant_used_def)

text \<open>What a marker call does for a process that is running.\<close>

lemma marker_refused:
  assumes "process_get_current (t_kernel s) = Some i" and "\<not> (is_ring3 cs \<and> granted i m (t_kernel s))"
  shows "sys_test_marker b m cs s = (SYSCALL_EPERM, s)"
  using assms by (simp add: sys_test_marker_def consume_granted Let_def)

lemma marker_accepted:
  assumes "process_get_current (t_kernel s) = Some i" and "is_ring3 cs" and "granted i m (t_kernel s)"
    and "sys_test_marker b m cs s = (r, s')"
  shows "process_table (t_kernel s') = process_table (grant_used i m (t_kernel s))"
    and "r = SYSCALL_EINVAL \<and> k_serial (t_kernel s') = k_serial (t_kernel s) \<or>
      r = SYSCALL_SUCCESS \<and> (\<exists>text. marker_line b m = Some text \<and>
        k_serial (t_kernel s') = serial_puts (str8 text @ [0x0A]) (k_serial (t_kernel s)))"
  using assms by (auto simp: sys_test_marker_def consume_granted Let_def split_beta put_line_def split: option.splits if_splits)

lemma granted_table: "process_table k' = process_table k \<Longrightarrow> granted i m k' = granted i m k"
  by (simp add: granted_def)

lemma current_table: "process_table k' = process_table k \<Longrightarrow> process_get_current k' = process_get_current k"
  by (simp add: process_get_current_def)

lemma current_grant_used:
  "i < length (process_table k) \<Longrightarrow> process_get_current (grant_used i m k) = process_get_current k"
proof -
  assume "i < length (process_table k)"
  then have "p_state (proc (grant_used i m k) j) = p_state (proc k j)" for j by (cases "j = i") (simp_all add: grant_used_def)
  then show ?thesis by (simp add: process_get_current_def)
qed

text \<open>C16: A test marker cannot be forged or replayed. A marker call prints the line of the marker only for a process in user mode to which the kernel
  granted this marker; the call uses the grant up and no other, so that the same call again is refused, from whatever privilege level.
  A call without a grant or from kernel mode is refused and changes nothing at all.\<close>

theorem marker_used_once:
  assumes "process_get_current (t_kernel s) = Some i" and "i < length (process_table (t_kernel s))"
    and "length (p_test_marker_permissions (proc (t_kernel s) i)) = 2" and "sys_test_marker b m cs s = (r, s')"
  shows "if is_ring3 cs \<and> granted i m (t_kernel s) then
      (r = SYSCALL_EINVAL \<and> k_serial (t_kernel s') = k_serial (t_kernel s) \<or>
       r = SYSCALL_SUCCESS \<and> (\<exists>text. marker_line b m = Some text \<and>
         k_serial (t_kernel s') = serial_puts (str8 text @ [0x0A]) (k_serial (t_kernel s)))) \<and>
      (\<forall>m'. granted i m' (t_kernel s') \<longleftrightarrow> granted i m' (t_kernel s) \<and> m' \<noteq> m) \<and>
      (\<forall>j. j \<noteq> i \<longrightarrow> proc (t_kernel s') j = proc (t_kernel s) j) \<and>
      (\<forall>cs'. sys_test_marker b m cs' s' = (SYSCALL_EPERM, s'))
    else r = SYSCALL_EPERM \<and> s' = s"
proof (cases "is_ring3 cs \<and> granted i m (t_kernel s)")
  case True
  note a = marker_accepted [OF assms(1) conjunct1 [OF True] conjunct2 [OF True] assms(4)]
  have g: "granted i m' (t_kernel s') \<longleftrightarrow> granted i m' (t_kernel s) \<and> m' \<noteq> m" for m'
    using granted_after [OF assms(2,3) conjunct2 [OF True]] granted_table [OF a(1)] by blast
  have "process_get_current (t_kernel s') = Some i"
    using current_table [OF a(1)] current_grant_used [OF assms(2)] assms(1) by simp
  then have "sys_test_marker b m cs' s' = (SYSCALL_EPERM, s')" for cs' using g by (intro marker_refused) auto
  moreover have "proc (t_kernel s') j = proc (t_kernel s) j" if "j \<noteq> i" for j
    using a(1) that by (simp add: grant_used_def)
  ultimately show ?thesis using True a(2) g by simp
qed (use marker_refused [OF assms(1)] assms(4) in auto)

text \<open>A process that holds the grants of the markers 1 and 65.\<close>

definition marker_demo :: "ramdisk_data tested" where
  "marker_demo = \<lparr>t_kernel = kernel_demo\<lparr>process_table :=
      zero_process\<lparr>p_state := PROCESS_RUNNING, p_pid := 1, p_test_marker_permissions := [1, 1]\<rparr> # replicate 15 zero_process\<rparr>, t_vm_free = 0\<rparr>"

theorem marker_used_once_witness:
  "\<exists>r s'. sys_test_marker (build.make False False True False False False False False False False) 1 0x1B marker_demo = (r, s') \<and>
     \<not> granted 0 1 (t_kernel s') \<and> granted 0 65 (t_kernel s') \<and>
     sys_test_marker (build.make False False True False False False False False False False) 1 0x1B s' = (SYSCALL_EPERM, s')"
proof -
  have c: "process_get_current (t_kernel marker_demo) = Some 0"
    by (simp add: process_get_current_def marker_demo_def first_index_Some_iff MAX_PROCESSES_def)
  have "granted 0 1 (t_kernel marker_demo)" "granted 0 65 (t_kernel marker_demo)"
    by (simp_all add: granted_def marker_demo_def marker_valid_def marker_word_def PROCESS_TEST_MARKER_WORDS_def)
  moreover have "is_ring3 0x1B" by (simp add: is_ring3_def)
  moreover obtain r s' where "sys_test_marker (build.make False False True False False False False False False False) 1 0x1B marker_demo = (r, s')"
    by fastforce
  ultimately show ?thesis using marker_used_once [OF c] by (simp add: marker_demo_def)
qed

end
