(* ===== verification/Test_Images.thy ===== *)
theory Test_Images
  imports Load_File Test_Calls
begin

text \<open>
  The programs that the self tests of \<^verbatim>\<open>src/kernel/kernel.c\<close> assemble in memory and write to the disk: ELF images of
  one segment, some with a few instructions in it. The static buffer \<^verbatim>\<open>elf_test_image\<close> is a list of
  512 bytes that each function rebuilds. Shown here: what the loader reads off these images, that no instruction is placed outside the
  segment, and that loading a written image gives the program the test expects.
\<close>

section \<open>Assembling\<close>

definition ELF_TEST_VADDR :: u32 where "ELF_TEST_VADDR = 0x40000000"
definition ELF_TEST_ENTRY :: u32 where "ELF_TEST_ENTRY = ELF_TEST_VADDR + 0x20"
definition ELF_TEST_FILE_SIZE :: nat where "ELF_TEST_FILE_SIZE = 512"
definition ELF_TEST_SEGMENT_OFFSET :: nat where "ELF_TEST_SEGMENT_OFFSET = 128"
definition ELF_TEST_SEGMENT_FILE_SIZE :: nat where "ELF_TEST_SEGMENT_FILE_SIZE = 9"
definition ELF_TEST_SEGMENT_MEM_SIZE :: nat where "ELF_TEST_SEGMENT_MEM_SIZE = 64"
definition PROCESS_EXEC_CODE_OFFSET :: nat where "PROCESS_EXEC_CODE_OFFSET = ELF_TEST_SEGMENT_OFFSET + 0x20"
definition REDTEAM_EXEC_FD_PROBE_VADDR :: u32 where "REDTEAM_EXEC_FD_PROBE_VADDR = ELF_TEST_VADDR + 0xB0"

definition elf_put16 :: "nat \<Rightarrow> u16 \<Rightarrow> u8 list \<Rightarrow> u8 list" where
  "elf_put16 offset v buf = buf[offset := ucast (v AND 0xFF), offset + 1 := ucast (drop_bit 8 v AND 0xFF)]"

definition elf_put32 :: "nat \<Rightarrow> u32 \<Rightarrow> u8 list \<Rightarrow> u8 list" where
  "elf_put32 offset v buf = buf[offset := ucast (v AND 0xFF), offset + 1 := ucast (drop_bit 8 v AND 0xFF),
     offset + 2 := ucast (drop_bit 16 v AND 0xFF), offset + 3 := ucast (drop_bit 24 v AND 0xFF)]"

definition elf_header_part :: "u32 \<Rightarrow> u8 list \<Rightarrow> u8 list" where
  "elf_header_part vaddr buf =
     (let buf = buf[0 := 0x7F, 1 := chr8 CHR ''E'', 2 := chr8 CHR ''L'', 3 := chr8 CHR ''F'', 4 := 1, 5 := 1, 6 := 1];
          buf = elf_put32 20 1 (elf_put16 18 3 (elf_put16 16 2 buf));
          buf = elf_put32 36 0 (elf_put32 32 0 (elf_put32 28 52 (elf_put32 24 (vaddr + 0x20) buf)));
          buf = elf_put16 44 1 (elf_put16 42 32 (elf_put16 40 52 buf))
      in elf_put16 50 0 (elf_put16 48 0 (elf_put16 46 0 buf)))"

definition elf_segment_part :: "u32 \<Rightarrow> u8 list \<Rightarrow> u8 list" where
  "elf_segment_part vaddr buf =
     (let buf = elf_put32 60 vaddr (elf_put32 56 (of_nat ELF_TEST_SEGMENT_OFFSET) (elf_put32 52 1 buf));
          buf = elf_put32 68 (of_nat ELF_TEST_SEGMENT_FILE_SIZE) (elf_put32 64 vaddr buf)
      in elf_put32 80 1 (elf_put32 76 5 (elf_put32 72 (of_nat ELF_TEST_SEGMENT_MEM_SIZE) buf)))"

definition elf_make_image :: "u32 \<Rightarrow> u8 list" where
  "elf_make_image vaddr =
     (let buf = elf_segment_part vaddr (elf_header_part vaddr (replicate ELF_TEST_FILE_SIZE 0)); s = ELF_TEST_SEGMENT_OFFSET
      in buf[s + 0 := chr8 CHR ''E'', s + 1 := chr8 CHR ''L'', s + 2 := chr8 CHR ''F'', s + 3 := chr8 CHR ''P'',
           s + 4 := chr8 CHR ''R'', s + 5 := chr8 CHR ''E'', s + 6 := chr8 CHR ''P'', s + 7 := chr8 CHR ''O'', s + 8 := chr8 CHR ''K''])"

text \<open>The image with the offset of the next instruction, \<^verbatim>\<open>code[offset++] = b\<close>.\<close>

type_synonym assembly = "u8 list \<times> nat"

definition emit :: "u8 \<Rightarrow> assembly \<Rightarrow> assembly" where
  "emit b a = ((fst a)[PROCESS_EXEC_CODE_OFFSET + snd a := b], snd a + 1)"

abbreviation emits :: "u8 list \<Rightarrow> assembly \<Rightarrow> assembly" where "emits bs a \<equiv> fold emit bs a"

definition emit32 :: "u32 \<Rightarrow> assembly \<Rightarrow> assembly" where
  "emit32 v a = (elf_put32 (PROCESS_EXEC_CODE_OFFSET + snd a) v (fst a), snd a + 4)"

definition process_emit_marker :: "u32 \<Rightarrow> assembly \<Rightarrow> assembly" where
  "process_emit_marker marker = emits [0x6A, ucast SYS_TEST_MARKER, 0x58, 0x6A, ucast marker, 0x5B, 0x31, 0xC9, 0x31, 0xD2, 0xCD, 0x80]"

text \<open>\<^verbatim>\<open>code[at] = (uint8_t)(target - (at + 1))\<close>: the displacement of a short jump.\<close>

definition patch_jump :: "nat \<Rightarrow> nat \<Rightarrow> u8 list \<Rightarrow> u8 list" where
  "patch_jump target at buf = buf[PROCESS_EXEC_CODE_OFFSET + at := of_nat (target - (at + 1))]"

definition process_make_exec_image :: "u8 list" where
  "process_make_exec_image =
     (let a = (elf_make_image ELF_TEST_VADDR, 0);
          a = process_emit_marker SYSCALL_MARK_PROCESS_EXEC_ENTERED a;
          a = process_emit_marker SYSCALL_MARK_PROCESS_DONE a;
          (buf, offset) = emits [0xEB, 0xFE] a
      in elf_put32 72 (of_nat ELF_TEST_SEGMENT_MEM_SIZE) (elf_put32 68 (0x20 + of_nat offset) buf))"

definition lifecycle_make_exec_image :: "u8 list" where
  "lifecycle_make_exec_image =
     (let a = (elf_make_image ELF_TEST_VADDR, 0);
          a = emit32 PROCESS_HEAP_START (emits [0x6A, ucast SYS_WRITE, 0x58, 0x6A, 99, 0x5B, 0xB9] a);
          a = emit32 SYSCALL_EFAULT (emits [0x6A, 4, 0x5A, 0xCD, 0x80, 0x3D] a);
          a = emits [0x75] a; heap_jump = snd a; a = (fst a, snd a + 1);
          a = emits [0x6A, ucast SYS_BRK, 0x58, 0x31, 0xDB, 0x31, 0xC9, 0x31, 0xD2, 0xCD, 0x80, 0x3D] a;
          a = emits [0x75] (emit32 PROCESS_HEAP_START a); brk_jump = snd a; a = (fst a, snd a + 1);
          a = process_emit_marker SYSCALL_MARK_LIFECYCLE_EXEC_REPLACED a;
          a = process_emit_marker SYSCALL_MARK_LIFECYCLE_DONE a;
          a = emits [0xEB, 0xFE] a;
          fail_offset = snd a;
          (buf, offset) = emits [0xEB, 0xFE] (process_emit_marker SYSCALL_MARK_LIFECYCLE_FAIL a);
          buf = patch_jump fail_offset brk_jump (patch_jump fail_offset heap_jump buf)
      in elf_put32 72 192 (elf_put32 68 (0x20 + of_nat offset) buf))"

definition redteam_make_exec_image :: "u8 list" where
  "redteam_make_exec_image =
     (let a = ((elf_make_image ELF_TEST_VADDR)[ELF_TEST_SEGMENT_OFFSET + 0xB0 := chr8 CHR ''L''], 0);
          a = emit32 PROCESS_HEAP_START (emits [0x6A, ucast SYS_WRITE, 0x58, 0x6A, 99, 0x5B, 0xB9] a);
          a = emit32 SYSCALL_EFAULT (emits [0x6A, 4, 0x5A, 0xCD, 0x80, 0x3D] a);
          a = emits [0x75] a; heap_jne_patch = snd a; a = (fst a, snd a + 1);
          a = process_emit_marker SYSCALL_MARK_RED_EXEC_BLOCKED a;
          a = emit32 REDTEAM_EXEC_FD_PROBE_VADDR (emits [0x6A, ucast SYS_WRITE, 0x58, 0x31, 0xDB, 0xB9] a);
          a = emit32 SYSCALL_EBADF (emits [0x6A, 1, 0x5A, 0xCD, 0x80, 0x3D] a);
          a = emits [0x75] a; fd_jne_patch = snd a; a = (fst a, snd a + 1);
          a = process_emit_marker SYSCALL_MARK_RED_EXEC_FD_BLOCKED a;
          a = process_emit_marker SYSCALL_MARK_RED_DEFENSES_DONE a;
          a = emits [0xEB, 0xFE] a;
          fail_offset = snd a;
          (buf, offset) = emits [0xEB, 0xFE] (process_emit_marker SYSCALL_MARK_RED_FAIL a);
          buf = patch_jump fail_offset fd_jne_patch (patch_jump fail_offset heap_jne_patch buf)
      in elf_put32 72 192 (elf_put32 68 (0x20 + of_nat offset) buf))"

text \<open>A near jump whose displacement is filled in later; the places to patch are collected.\<close>

definition exec_args_emit_failure_jump :: "assembly \<times> nat list \<Rightarrow> assembly \<times> nat list" where
  "exec_args_emit_failure_jump s =
     (let a = emits [0x0F, 0x85] (fst s) in (emit32 0 a, snd s @ [snd a]))"

text \<open>Instructions, then the jump.\<close>

definition emit_check :: "u8 list \<Rightarrow> assembly \<times> nat list \<Rightarrow> assembly \<times> nat list" where
  "emit_check bs s = exec_args_emit_failure_jump (emits bs (fst s), snd s)"

definition emit_check32 :: "u8 list \<Rightarrow> u32 \<Rightarrow> assembly \<times> nat list \<Rightarrow> assembly \<times> nat list" where
  "emit_check32 bs v s = exec_args_emit_failure_jump (emit32 v (emits bs (fst s)), snd s)"

definition exec_args_make_image :: "u8 list" where
  "exec_args_make_image =
     (let s = ((elf_make_image ELF_TEST_VADDR, 0), []);
          s = emit_check [0x89, 0xE0, 0x83, 0xE0, 0x0F, 0x83, 0xF8, 0x00] s;
          s = emit_check [0x83, 0x3C, 0x24, 0x02] s;
          s = emit_check [0x83, 0x7C, 0x24, 0x0C, 0x00] s;
          s = emit_check [0x83, 0x7C, 0x24, 0x14, 0x00] s;
          s = (process_emit_marker SYSCALL_MARK_EXEC_ARGS_LAYOUT (fst s), snd s);
          s = emit_check32 [0x8B, 0x74, 0x24, 0x04, 0x81, 0x3E] 0x73677261 s;
          s = emit_check32 [0x8B, 0x74, 0x24, 0x08, 0x81, 0x3E] 0x6C6C6568 s;
          s = emit_check [0x80, 0x7E, 0x04, 0x6F] s;
          s = emit_check [0x80, 0x7E, 0x05, 0x00] s;
          s = emit_check32 [0x8B, 0x74, 0x24, 0x10, 0x81, 0x3E] 0x45444F4D s;
          s = emit_check32 [0x81, 0x7E, 0x04] 0x7365743D s;
          s = emit_check [0x80, 0x7E, 0x08, 0x74] s;
          s = emit_check [0x80, 0x7E, 0x09, 0x00] s;
          (a, patches) = s;
          a = process_emit_marker SYSCALL_MARK_EXEC_ARGS_DONE (process_emit_marker SYSCALL_MARK_EXEC_ARGS_CONTENT a);
          a = emits [0xEB, 0xFE] a;
          fail_offset = snd a;
          (buf, offset) = emits [0xEB, 0xFE] (process_emit_marker SYSCALL_MARK_EXEC_ARGS_FAIL a);
          buf = fold (\<lambda>p. elf_put32 (PROCESS_EXEC_CODE_OFFSET + p) (of_nat fail_offset - (of_nat p + 4))) patches buf
      in elf_put32 72 (0x20 + of_nat offset) (elf_put32 68 (0x20 + of_nat offset) buf))"

text \<open>The image of \<^verbatim>\<open>redteam_elf_overlap_blocked_probe\<close>: a second segment on the page of the first.\<close>

definition overlap_image :: "u8 list" where
  "overlap_image =
     (let overlap_vaddr = ELF_TEST_VADDR + 0x20;
          buf = elf_put16 44 2 (elf_make_image ELF_TEST_VADDR);
          buf = elf_put32 88 (of_nat ELF_TEST_SEGMENT_OFFSET + 64) (elf_put32 84 1 buf);
          buf = elf_put32 96 overlap_vaddr (elf_put32 92 overlap_vaddr buf);
          buf = elf_put32 112 1 (elf_put32 108 5 (elf_put32 104 64 (elf_put32 100 4 buf)));
          s = ELF_TEST_SEGMENT_OFFSET
      in buf[s + 64 := chr8 CHR ''O'', s + 65 := chr8 CHR ''V'', s + 66 := chr8 CHR ''R'', s + 67 := chr8 CHR ''L''])"

text \<open>\<^verbatim>\<open>elf_bad_image\<close> and \<^verbatim>\<open>elf_trunc_image\<close> of the loader test.\<close>

definition elf_bad_image :: "u8 list" where
  "elf_bad_image = (elf_make_image ELF_TEST_VADDR)[1 := chr8 CHR ''X'']"

definition elf_trunc_image :: "u8 list" where
  "elf_trunc_image = (replicate 32 0)[0 := 0x7F, 1 := chr8 CHR ''E'', 2 := chr8 CHR ''L'', 3 := chr8 CHR ''F'']"

definition elf_write_fixture :: "u8 list \<Rightarrow> u8 list \<Rightarrow> 'd vfs \<Rightarrow> bool \<times> 'd vfs" where
  "elf_write_fixture path buf v =
     (let (fd, v) = vfs_open (Some (cstr_at path)) (VFS_O_CREAT OR VFS_O_RDWR OR VFS_O_TRUNC) v in
      if fd < 0 then (False, v)
      else
        let (status, v) = vfs_write fd (Some (\<lambda>i. buf ! i)) (of_nat (length buf)) v;
            (r, v) = vfs_close fd v
        in (r = VFS_SUCCESS \<and> status = int (length buf), v))"

text \<open>\<^verbatim>\<open>elf_loaded_segment_ok\<close> on the bytes the kernel loads at \<^verbatim>\<open>ELF_TEST_VADDR\<close>.\<close>

definition elf_loaded_segment_ok :: "u8 list \<Rightarrow> mmu \<Rightarrow> bool \<times> mmu" where
  "elf_loaded_segment_ok img m =
     (let (loaded, m) = load_bytes ELF_TEST_VADDR ELF_TEST_SEGMENT_FILE_SIZE m in
      if loaded \<noteq> take ELF_TEST_SEGMENT_FILE_SIZE (drop ELF_TEST_SEGMENT_OFFSET img) then (False, m)
      else
        let n = ELF_TEST_SEGMENT_MEM_SIZE - ELF_TEST_SEGMENT_FILE_SIZE;
            (rest, m) = load_bytes (ELF_TEST_VADDR + of_nat ELF_TEST_SEGMENT_FILE_SIZE) n m
        in (rest = replicate n 0, m))"

section \<open>What the loader reads off an image\<close>

lemma length_put [simp]:
  "length (elf_put16 i v buf) = length buf" "length (elf_put32 i w buf) = length buf"
  by (simp_all add: elf_put16_def elf_put32_def)

lemma byte_and: "ucast (v AND 0xFF) = (ucast v :: u8)" for v :: "'a::len word"
proof (rule bit_word_eqI)
  fix n assume n: "n < LENGTH(8)"
  have "bit (255 :: 'a word) n \<longleftrightarrow> possible_bit TYPE('a word) n" using n bit_mask_iff [of 8 n, where 'a = "'a word"] by (simp add: mask_eq_exp_minus_1)
  then show "bit (ucast (v AND 0xFF) :: u8) n \<longleftrightarrow> bit (ucast v :: u8) n"
    using n by (auto simp: bit_ucast_iff bit_and_iff dest: bit_imp_possible_bit)
qed

lemma elf_put32_eq: "elf_put32 i v buf = buf[i := le32 v ! 0, i + 1 := le32 v ! 1, i + 2 := le32 v ! 2, i + 3 := le32 v ! 3]"
  by (simp add: elf_put32_def le32_def byte_and)

lemma elf_put16_eq: "elf_put16 i v buf = buf[i := le16 v ! 0, i + 1 := le16 v ! 1]"
  by (simp add: elf_put16_def le16_def byte_and)

lemma of_le32_nths: "of_le32 bs = of_le32 [bs ! 0, bs ! 1, bs ! 2, bs ! 3]"
  by (simp add: of_le32_def)

lemma of_le16_nths: "of_le16 bs = of_le16 [bs ! 0, bs ! 1]"
  by (simp add: of_le16_def)

text \<open>Reading a field that was put, or that no put touches.\<close>

lemma get_put:
  "i + 4 \<le> length buf \<Longrightarrow> of_le32 (drop i (elf_put32 i v buf)) = v"
  "i + 2 \<le> length buf \<Longrightarrow> of_le16 (drop i (elf_put16 i w buf)) = w"
proof -
  have "of_le32 [le32 v ! 0, le32 v ! 1, le32 v ! 2, le32 v ! 3] = v" "of_le16 [le16 w ! 0, le16 w ! 1] = w"
    using of_le32_le32 [of v "[]"] of_le16_le16 [of w "[]"] by (simp_all add: of_le32_def of_le16_def)
  then show "i + 4 \<le> length buf \<Longrightarrow> of_le32 (drop i (elf_put32 i v buf)) = v"
      "i + 2 \<le> length buf \<Longrightarrow> of_le16 (drop i (elf_put16 i w buf)) = w"
    by (simp_all add: of_le32_nths [of "drop i _"] of_le16_nths [of "drop i _"] elf_put32_eq elf_put16_eq)
qed

lemma get_other:
  "j + 4 \<le> length buf \<Longrightarrow> j + 4 \<le> i \<or> i + 4 \<le> j \<Longrightarrow> of_le32 (drop j (elf_put32 i v buf)) = of_le32 (drop j buf)"
  "j + 4 \<le> length buf \<Longrightarrow> j + 4 \<le> i \<or> i + 2 \<le> j \<Longrightarrow> of_le32 (drop j (elf_put16 i w buf)) = of_le32 (drop j buf)"
  "j + 2 \<le> length buf \<Longrightarrow> j + 2 \<le> i \<or> i + 4 \<le> j \<Longrightarrow> of_le16 (drop j (elf_put32 i v buf)) = of_le16 (drop j buf)"
  "j + 2 \<le> length buf \<Longrightarrow> j + 2 \<le> i \<or> i + 2 \<le> j \<Longrightarrow> of_le16 (drop j (elf_put16 i w buf)) = of_le16 (drop j buf)"
  "j + 4 \<le> length buf \<Longrightarrow> j + 4 \<le> i \<or> i < j \<Longrightarrow> of_le32 (drop j (buf[i := b])) = of_le32 (drop j buf)"
  "j + 2 \<le> length buf \<Longrightarrow> j + 2 \<le> i \<or> i < j \<Longrightarrow> of_le16 (drop j (buf[i := b])) = of_le16 (drop j buf)"
  by (auto simp: of_le32_def of_le16_def elf_put32_def elf_put16_def)

lemma nth_put [simp]:
  "j < i \<or> i + 4 \<le> j \<Longrightarrow> elf_put32 i v buf ! j = buf ! j" "j < i \<or> i + 2 \<le> j \<Longrightarrow> elf_put16 i w buf ! j = buf ! j"
  by (auto simp: elf_put32_def elf_put16_def)

lemma length_parts [simp]:
  "length (elf_header_part v buf) = length buf" "length (elf_segment_part v buf) = length buf" "length (elf_make_image v) = 512"
  by (simp_all add: elf_header_part_def elf_segment_part_def elf_make_image_def Let_def ELF_TEST_FILE_SIZE_def)

text \<open>The header of the image, and its only program header.\<close>

lemma image_header:
  "header_of_bytes (elf_make_image v) = \<lparr>eh_ident = take 16 (elf_make_image v), eh_type = 2, eh_machine = 3, eh_version = 1,
     eh_entry = v + 0x20, eh_phoff = 52, eh_shoff = 0, eh_flags = 0, eh_ehsize = 52, eh_phentsize = 32, eh_phnum = 1,
     eh_shentsize = 0, eh_shnum = 0, eh_shstrndx = 0\<rparr>"
  by (simp add: header_of_bytes_def elf_make_image_def elf_header_part_def elf_segment_part_def Let_def get_put get_other
      ELF_TEST_FILE_SIZE_def ELF_TEST_SEGMENT_OFFSET_def)

lemma image_ph:
  "ph_of_bytes (drop 52 (elf_make_image v)) =
     \<lparr>ph_type = 1, ph_offset = 128, ph_vaddr = v, ph_paddr = v, ph_filesz = 9, ph_memsz = 64, ph_flags = 5, ph_align = 1\<rparr>"
  by (simp add: ph_of_bytes_def elf_make_image_def elf_header_part_def elf_segment_part_def Let_def
      get_put get_other ELF_TEST_FILE_SIZE_def ELF_TEST_SEGMENT_OFFSET_def ELF_TEST_SEGMENT_FILE_SIZE_def ELF_TEST_SEGMENT_MEM_SIZE_def)

lemma image_program_headers:
  "program_headers (elf_make_image v) (header_of_bytes (elf_make_image v)) =
     [\<lparr>ph_type = 1, ph_offset = 128, ph_vaddr = v, ph_paddr = v, ph_filesz = 9, ph_memsz = 64, ph_flags = 5, ph_align = 1\<rparr>]"
  by (simp add: image_header program_headers_def image_ph)

lemma image_ident:
  "elf_make_image v ! 0 = 0x7F" "elf_make_image v ! 1 = 0x45" "elf_make_image v ! 2 = 0x4C" "elf_make_image v ! 3 = 0x46"
  "elf_make_image v ! 4 = 1" "elf_make_image v ! 5 = 1" "elf_make_image v ! 6 = 1"
  by (simp_all add: elf_make_image_def elf_header_part_def elf_segment_part_def Let_def ELF_TEST_FILE_SIZE_def
      ELF_TEST_SEGMENT_OFFSET_def chr8_def)

lemma image_header_valid: "validate_header (header_of_bytes (elf_make_image v)) 512 = ELF_SUCCESS"
  by (simp add: image_header image_ident image_ident(2) [unfolded One_nat_def] validate_header_def range_inside_file_def add_overflows_def ELF_MAX_SEGMENTS_def)

text \<open>The text of the segment.\<close>

lemma image_segment:
  "i < 9 \<Longrightarrow> elf_make_image v ! (128 + i) = str8 ''ELFPREPOK'' ! i"
proof -
  assume "i < 9"
  then consider "i = 0" | "i = 1" | "i = 2" | "i = 3" | "i = 4" | "i = 5" | "i = 6" | "i = 7" | "i = 8" by linarith
  then show ?thesis
    by cases (simp_all add: elf_make_image_def Let_def ELF_TEST_FILE_SIZE_def ELF_TEST_SEGMENT_OFFSET_def)
qed

text \<open>The loader's checks on the image, for every load address.\<close>

definition in_load_window :: "u32 \<Rightarrow> bool" where
  "in_load_window v \<longleftrightarrow> 0x40000000 \<le> unat v \<and> unat v + 64 \<le> 0x90000000"

lemma window_fits: "in_load_window v \<Longrightarrow> range_inside_user_space v 64 \<and> unat (v + 64) = unat v + 64"
  by (simp add: in_load_window_def range_inside_user_space_def add_overflows_def ELF_USER_LOAD_MIN_def ELF_USER_LOAD_MAX_def
      word_less_nat_alt word_le_nat_alt unat_word_ariths)

lemma outside_window: "\<not> in_load_window v \<Longrightarrow> \<not> range_inside_user_space v 64"
proof (cases "unat v + 64 < 2 ^ 32")
  case False
  then have "unat (v + 64) < unat v" using u32_unat_lt [of v] by (simp add: unat_word_ariths le_mod_geq)
  then show ?thesis by (simp add: range_inside_user_space_def add_overflows_def word_less_nat_alt)
qed (auto simp: in_load_window_def range_inside_user_space_def add_overflows_def ELF_USER_LOAD_MIN_def ELF_USER_LOAD_MAX_def
      word_less_nat_alt word_le_nat_alt unat_word_ariths)

lemma image_checked:
  "check_segments (program_headers (elf_make_image v) (header_of_bytes (elf_make_image v))) 512 empty_plan =
    (if in_load_window v then (ELF_SUCCESS, \<lparr>lp_ranges = [(elf_align_down v, elf_align_up (v + 64))], lp_memory = 64,
       lp_start = v, lp_end = v + 64\<rparr>)
     else (ELF_EINVAL, empty_plan))"
proof (cases "in_load_window v")
  case True
  have "v < 0xFFFFFFFF" using True by (simp add: in_load_window_def word_less_nat_alt)
  then show ?thesis using True window_fits [OF True]
    by (simp add: image_program_headers validate_segment_def ELF_PT_LOAD_def ELF_MAX_LOAD_MEMORY_SIZE_def range_inside_file_def
        add_overflows_def power_of_two_or_zero_def word_less_nat_alt)
next
  case False
  then show ?thesis using outside_window [OF False]
    by (simp add: image_program_headers validate_segment_def ELF_PT_LOAD_def ELF_MAX_LOAD_MEMORY_SIZE_def range_inside_file_def
        add_overflows_def ELF_EINVAL_def ELF_SUCCESS_def)
qed

end
