(* ===== verification/Disk_Room.thy ===== *)
theory Disk_Room
  imports VFS
begin

text \<open>
  When the disk has room: the capacity of \<^verbatim>\<open>SimpleFS\<close> on the ramdisk (4096 sectors, of which 5 hold the superblock and the directory; 32 directory entries),
  as far as a few small files are concerned. With fewer than 32 files that leave enough sectors, opening a new file and writing to it
  cannot run out of space: if \<open>u\<close> sectors are in use, one of \<open>u + 1\<close> disjoint runs is free.
\<close>

lemma used_entry_file:
  assumes "ramfs_inv s" and "i < 32" and "de_used (ent (ramdisk_sector (fs_disk s)) i) \<noteq> 0"
  obtains n where "valid_name n" and "de_name (ent (ramdisk_sector (fs_disk s)) i) = pad_name n"
    and "ramfiles s n = Some (content (ramdisk_sector (fs_disk s)) (ent (ramdisk_sector (fs_disk s)) i))"
proof -
  have "entry_ok (unat (sector_count ramdisk_dev)) (ent (ramdisk_sector (fs_disk s)) i)"
    using rdisk.fs_invD(8) [OF assms(1)] assms(2) by blast
  then obtain n where n: "valid_name n" "de_name (ent (ramdisk_sector (fs_disk s)) i) = pad_name n"
    using assms(3) by (auto simp: entry_ok_def)
  let ?E = "ent (ramdisk_sector (fs_disk s))"
  have "slot_of ?E n \<noteq> None"
    unfolding slot_of_def first_index_None_iff using n(2) assms(2,3) by (auto intro: exI [of _ i])
  then obtain j where "slot_of ?E n = Some j" by blast
  then have "slot_of ?E n = Some i"
    using rdisk.slot_unique [OF assms(1), of n j] n(2) assms(2,3) by auto
  then show thesis using that n by (simp add: files_def)
qed

lemma free_entry:
  assumes "ramfs_inv s" and "finite (dom (ramfiles s))" and "card (dom (ramfiles s)) < 32"
  shows "\<exists>i<32. de_used (ent (ramdisk_sector (fs_disk s)) i) = 0"
proof (rule ccontr)
  let ?E = "ent (ramdisk_sector (fs_disk s))"
  assume full: "\<not> ?thesis"
  then have "\<forall>i\<in>{..<32}. \<exists>n. n \<in> dom (ramfiles s) \<and> de_name (?E i) = pad_name n"
    using used_entry_file [OF assms(1)] by (metis domI lessThan_iff)
  then obtain f where f: "\<forall>i\<in>{..<32}. f i \<in> dom (ramfiles s) \<and> de_name (?E i) = pad_name (f i)" by metis
  have "inj_on f {..<32}"
  proof (rule inj_onI)
    fix i j :: nat assume ij: "i \<in> {..<32}" "j \<in> {..<32}" "f i = f j"
    then have "de_name (?E i) = de_name (?E j)" using f by metis
    then show "i = j" using assms(1) ij full unfolding fs_inv_def dir_ok_def Let_def by (metis lessThan_iff)
  qed
  then have "32 \<le> card (dom (ramfiles s))" using card_inj_on_le [of f "{..<32}" "dom (ramfiles s)"] f assms(2) by auto
  then show False using assms(3) by simp
qed

text \<open>The sectors of a content, and file maps with at most \<open>k\<close> files on at most \<open>u\<close> sectors.\<close>

definition sectors_of :: "u8 list \<Rightarrow> nat" where
  "sectors_of c = (length c + 511) div 512"

definition small_files :: "nat \<Rightarrow> nat \<Rightarrow> (u8 list \<rightharpoonup> u8 list) \<Rightarrow> bool" where
  "small_files k u fs \<longleftrightarrow> finite (dom fs) \<and> card (dom fs) \<le> k \<and> (\<Sum>n\<in>dom fs. sectors_of (the (fs n))) \<le> u"

lemma small_files_empty: "small_files 0 0 Map.empty"
  by (simp add: small_files_def)

lemma small_files_upd:
  assumes "small_files k u fs"
  shows "small_files (Suc k) (u + sectors_of c) (fs(n \<mapsto> c))"
    and "n \<in> dom fs \<Longrightarrow> small_files k (u + sectors_of c) (fs(n \<mapsto> c))"
proof -
  have fin: "finite (dom fs)" using assms by (simp add: small_files_def)
  let ?g = "\<lambda>m. sectors_of (the ((fs(n \<mapsto> c)) m))"
  have "(\<Sum>m\<in>insert n (dom fs). ?g m) = sectors_of c + (\<Sum>m\<in>dom fs - {n}. ?g m)"
    using fin by (simp add: sum.insert_remove)
  also have "(\<Sum>m\<in>dom fs - {n}. ?g m) = (\<Sum>m\<in>dom fs - {n}. sectors_of (the (fs m)))" by (rule sum.cong) auto
  also have "\<dots> \<le> (\<Sum>m\<in>dom fs. sectors_of (the (fs m)))" using fin by (intro sum_mono2) auto
  finally have "(\<Sum>m\<in>insert n (dom fs). ?g m) \<le> u + sectors_of c" using assms by (simp add: small_files_def)
  then show "small_files (Suc k) (u + sectors_of c) (fs(n \<mapsto> c))"
      "n \<in> dom fs \<Longrightarrow> small_files k (u + sectors_of c) (fs(n \<mapsto> c))"
    using assms by (auto simp: small_files_def card_insert_if insert_absorb)
qed

lemma small_files_remove: "small_files k u fs \<Longrightarrow> small_files k u (fs(n := None))"
proof -
  assume small: "small_files k u fs"
  then have fin: "finite (dom fs)" by (simp add: small_files_def)
  have "(\<Sum>m\<in>dom fs - {n}. sectors_of (the ((fs(n := None)) m))) = (\<Sum>m\<in>dom fs - {n}. sectors_of (the (fs m)))"
    by (rule sum.cong) auto
  also have "\<dots> \<le> (\<Sum>m\<in>dom fs. sectors_of (the (fs m)))" using fin by (intro sum_mono2) auto
  moreover have "card (dom fs - {n}) \<le> card (dom fs)" using fin by (intro card_mono) auto
  ultimately show ?thesis using small fin by (simp add: small_files_def)
qed

lemma used_sectors:
  assumes "ramfs_inv s" and "small_files k u (ramfiles s)"
  shows "card (\<Union>i<32. run_of (ent (ramdisk_sector (fs_disk s)) i)) \<le> u"
proof -
  let ?E = "ent (ramdisk_sector (fs_disk s))" and ?F = "ramfiles s"
  let ?I = "{i. i < 32 \<and> de_used (?E i) \<noteq> 0}"
  define P where "P i n \<longleftrightarrow> de_name (?E i) = pad_name n \<and> ?F n = Some (content (ramdisk_sector (fs_disk s)) (?E i))" for i n
  have "\<exists>n. P i n" if "i \<in> ?I" for i
  proof -
    from that have "i < 32" "de_used (?E i) \<noteq> 0" by simp_all
    from used_entry_file [OF assms(1) this] show ?thesis unfolding P_def by blast
  qed
  then have P: "P i (SOME n. P i n)" if "i \<in> ?I" for i using that by (auto intro: someI)
  define f where "f i = (SOME n. P i n)" for i
  have f: "de_name (?E i) = pad_name (f i)" "?F (f i) = Some (content (ramdisk_sector (fs_disk s)) (?E i))" if "i \<in> ?I" for i
    using P [OF that] unfolding f_def [symmetric] unfolding P_def by blast+
  have inj: "inj_on f ?I"
  proof (rule inj_onI)
    fix i j assume ij: "i \<in> ?I" "j \<in> ?I" "f i = f j"
    then have "de_name (?E i) = de_name (?E j)" using f(1) [of i] f(1) [of j] by simp
    then show "i = j" using assms(1) ij(1,2) unfolding fs_inv_def dir_ok_def Let_def by (metis (mono_tags, lifting) mem_Collect_eq)
  qed
  have one: "card (run_of (?E i)) = sectors_of (the (?F (f i)))" if "i \<in> ?I" for i
  proof -
    have "entry_ok (unat (sector_count ramdisk_dev)) (?E i)" using rdisk.fs_invD(8) [OF assms(1)] that by blast
    then have "unat (de_alloc (?E i)) = (unat (de_size (?E i)) + 511) div 512" using that by (auto simp: entry_ok_def)
    then show ?thesis using that f by (simp add: run_of_def sectors_of_def content_def)
  qed
  have "card (\<Union>i<32. run_of (?E i)) \<le> (\<Sum>i<32. card (run_of (?E i)))" by (rule card_UN_le) simp
  also have "\<dots> = (\<Sum>i\<in>?I. card (run_of (?E i)))"
    by (rule sum.mono_neutral_cong_right) (auto simp: run_of_def)
  also have "\<dots> = (\<Sum>i\<in>?I. sectors_of (the (?F (f i))))" by (rule sum.cong) (simp_all only: one)
  also have "\<dots> = (\<Sum>n\<in>f ` ?I. sectors_of (the (?F n)))" using inj by (simp add: sum.reindex)
  also have "\<dots> \<le> (\<Sum>n\<in>dom ?F. sectors_of (the (?F n)))"
    using assms(2) f by (intro sum_mono2) (auto simp: small_files_def)
  finally show ?thesis using assms(2) by (simp add: small_files_def)
qed

text \<open>Of \<open>u + 1\<close> disjoint runs, one avoids the \<open>u\<close> sectors in use.\<close>

lemma free_run:
  assumes "ramfs_inv s" and "small_files k u (ramfiles s)" and "0 < r" and "5 + (u + 1) * r \<le> 4096"
  shows "\<exists>j. 5 \<le> j \<and> j + r \<le> unat (sector_count ramdisk_dev) \<and> run_free j r s"
proof (rule ccontr)
  assume none: "\<not> ?thesis"
  let ?W = "\<Union>i<32. run_of (ent (ramdisk_sector (fs_disk s)) i)"
  have N: "unat (sector_count ramdisk_dev) = 4096" by (simp add: ramdisk_dev_def RAMDISK_SECTORS_def RAMDISK_SIZE_def SECTOR_SIZE_def)
  have "\<exists>w. w \<in> ?W \<and> (w - 5) div r = i" if "i \<le> u" for i
  proof -
    have "Suc i * r \<le> (u + 1) * r" using that by (intro mult_le_mono1) simp
    then have "i * r + r \<le> (u + 1) * r" by simp
    then have fits: "5 + i * r + r \<le> 4096" using assms(4) by linarith
    then have "\<not> run_free (5 + i * r) r s" using none N by auto
    then obtain w where w: "5 + i * r \<le> w" "w < 5 + i * r + r" "bit_test (fs_sector_used s) w"
      by (auto simp: run_free_def simplefs_sector_is_used_def)
    then have "w < 4096" "\<not> w < 5" using fits by simp_all
    then have "w \<in> ?W" using w(3) rdisk.fs_invD(10) [OF assms(1)] N by (auto simp: map_ok_def)
    moreover have "(w - 5) div r = i"
      using w(1,2) by (intro div_nat_eqI) (simp_all add: algebra_simps)
    ultimately show ?thesis by blast
  qed
  then obtain h where h: "\<forall>i\<in>{..u}. h i \<in> ?W \<and> (h i - 5) div r = i" by (metis atMost_iff)
  have "inj_on h {..u}" using h by (metis inj_onI)
  moreover have "finite ?W" by (auto simp: run_of_def)
  ultimately have "card {..u} \<le> card ?W" using h by (intro card_inj_on_le) auto
  then show False using used_sectors [OF assms(1,2)] by simp
qed

text \<open>So writing a short file from its start succeeds.\<close>

lemma vfs_write_small:
  assumes "vfs_ok v" and "fd_at fd n 0 fl v" and "fl AND VFS_O_WRONLY \<noteq> 0" and "ramfiles (vfs_fs v) n = Some c"
    and "0 < unat count" "unat count \<le> 65536"
    and small: "small_files k u (ramfiles (vfs_fs v))" "5 + (u + 1) * ((unat count + 511) div 512) \<le> 4096"
    and w: "vfs_write fd (Some src) count v = (r, v')"
  shows "r = int (unat count) \<and> vfs_ok v' \<and> fd_at fd n (unat count) fl v' \<and> vfs_refs v' = vfs_refs v \<and>
    ramfiles (vfs_fs v') = (ramfiles (vfs_fs v))(n \<mapsto> patch c 0 src (unat count))"
proof -
  have inv: "ramfs_inv (vfs_fs v)" using assms(1) by (simp add: vfs_ok_def)
  have "r \<noteq> VFS_ENOSPC"
  proof
    assume full: "r = VFS_ENOSPC"
    let ?f = "vfs_open_files v ! nat fd"
    have f: "vfs_fd_valid fd v" "unat (of_offset ?f) = 0" "of_flags ?f = fl" "valid_name n"
      using assms(2) by (auto simp: fd_at_def Let_def)
    obtain s' where "simplefs_write (Some (cstr_at (of_path ?f))) (of_offset ?f) (Some src) count (vfs_fs v) = (r, s')"
      using w f assms(3) by (auto simp: vfs_write_def Let_def split: prod.splits)
    note rdisk.fs_write_ok [OF inv fd_at_path [OF assms(2)] f(4) assms(4,5) _ this]
    moreover have "r \<noteq> int (unat count)" using full VFS_ENOSPC_def of_nat_0_le_iff [of "unat count"] by linarith
    moreover have "0 < (unat count + 511) div 512" using assms(5) by simp
    ultimately show False using free_run [OF inv small(1) _ small(2)] f(2) assms(6) by auto
  qed
  then show ?thesis using vfs_write_at [OF assms(1-5) _ w] assms(6) by auto
qed

end
