(* ===== verification/Selftest_Base.thy ===== *)
theory Selftest_Base
  imports Disk_Room Test_Calls
begin

text \<open>
  What the self tests of \<^verbatim>\<open>src/kernel/kernel.c\<close> share: conditions evaluated for their effects, the lines that they print, and the file system they start
  from: freshly formatted and mounted, no file open.
\<close>

section \<open>Conditions and lines\<close>

text \<open>\<^verbatim>\<open>a && b\<close>, where \<open>b\<close> has effects.\<close>

definition and_also :: "bool \<times> 's \<Rightarrow> ('s \<Rightarrow> bool \<times> 's) \<Rightarrow> bool \<times> 's" where
  "and_also s f = (if fst s then f (snd s) else s)"

definition succeeds :: "('s \<Rightarrow> int \<times> 's) \<Rightarrow> 's \<Rightarrow> bool \<times> 's" where
  "succeeds f s = (let (r, s) = f s in (r = VFS_SUCCESS, s))"

definition line_if :: "bool \<Rightarrow> string \<Rightarrow> 'd kernel \<Rightarrow> 'd kernel" where
  "line_if b text k = (if b then put_line text k else k)"

text \<open>The lines of a test that passes.\<close>

definition put_lines :: "string list \<Rightarrow> serial_log \<Rightarrow> serial_log" where
  "put_lines ts out = fold (\<lambda>t. serial_puts (str8 t @ [0x0A])) ts out"

lemma put_line_fields [simp]:
  "k_serial (put_line t k) = put_lines [t] (k_serial k)" "k_vfs (put_line t k) = k_vfs k" "k_mmu (put_line t k) = k_mmu k"
  by (simp_all add: put_line_def put_lines_def)

lemma put_lines_append: "put_lines us (put_lines ts out) = put_lines (ts @ us) out"
  by (simp add: put_lines_def)

section \<open>A fresh file system\<close>

text \<open>A mounted file system with no open file.\<close>

definition idle_files :: "ramdisk_data vfs \<Rightarrow> bool" where
  "idle_files v \<longleftrightarrow> vfs_ok v \<and> vfs_mounted v \<and> vfs_refs v = (\<lambda>_. 0)"

lemma idle_slot: "idle_files v \<Longrightarrow> \<not> (\<forall>i < 16. of_used (vfs_open_files v ! i))"
proof
  assume idle: "idle_files v" and used: "\<forall>i < 16. of_used (vfs_open_files v ! i)"
  have "vfs_refs v 0 = 0" "vfs_table_ok v" using idle by (simp_all add: idle_files_def vfs_ok_def)
  then have "of_refs (vfs_open_files v ! 0) = 0" "file_ok (vfs_open_files v ! 0)"
    using vfs_refs_eq [of v 0] vfs_table_nth [of v 0] by (simp_all add: unat_eq_0)
  then show False using used by (auto simp: file_ok_def)
qed

lemma mounted_kept:
  "vfs_mounted (snd (vfs_open p fl v)) = vfs_mounted v"
  "vfs_mounted (snd (snd (vfs_read fd b c v))) = vfs_mounted v" "vfs_mounted (snd (vfs_write fd src c v)) = vfs_mounted v"
  "vfs_mounted (snd (vfs_close fd v)) = vfs_mounted v"
proof -
  have a: "vfs_mounted (advance_offset fd st w) = vfs_mounted w" for st and w :: "'a vfs"
    by (simp add: advance_offset_def Let_def)
  show "vfs_mounted (snd (vfs_open p fl v)) = vfs_mounted v"
    by (simp add: vfs_open_def Let_def split_beta)
  show "vfs_mounted (snd (snd (vfs_read fd b c v))) = vfs_mounted v" "vfs_mounted (snd (vfs_write fd src c v)) = vfs_mounted v"
      "vfs_mounted (snd (vfs_close fd v)) = vfs_mounted v"
    by (simp_all add: vfs_read_def vfs_write_def vfs_close_def Let_def split_beta a)
qed

lemma format_mount:
  fixes v :: "ramdisk_data vfs"
  assumes "vfs_root_dev v = Some ramdisk_dev"
  obtains v' where "and_also (succeeds vfs_format v) (succeeds vfs_mount) = (True, v')" and "idle_files v'"
    and "ramfiles (vfs_fs v') = Map.empty"
proof -
  let ?v = "(vfs_clear_open_files v)\<lparr>vfs_mounted := False\<rparr>"
  obtain s2 where s2: "simplefs_format (Some ramdisk_dev) (vfs_fs ?v) = (VFS_SUCCESS, s2)" "ramfs_inv s2" "ramfiles s2 = Map.empty"
    using rdisk.fs_format_ok [of "vfs_fs ?v"] by blast
  obtain s3 where s3: "simplefs_mount (Some ramdisk_dev) s2 = (VFS_SUCCESS, s3)" "ramfs_inv s3" "ramfiles s3 = Map.empty"
    using rdisk.fs_mount_ok [OF s2(2) refl] s2(3) by metis
  let ?v3 = "?v\<lparr>vfs_fs := s3, vfs_mounted := True\<rparr>"
  have "vfs_format v = (VFS_SUCCESS, ?v\<lparr>vfs_fs := s2\<rparr>)"
    using s2(1) assms by (simp add: vfs_format_def vfs_clear_open_files_def)
  moreover have "vfs_mount (?v\<lparr>vfs_fs := s2\<rparr>) = (VFS_SUCCESS, ?v3)"
    using s3(1) assms by (simp add: vfs_mount_def vfs_clear_open_files_def)
  ultimately have "and_also (succeeds vfs_format v) (succeeds vfs_mount) = (True, ?v3)"
    by (simp add: and_also_def succeeds_def)
  moreover have t: "vfs_table_ok ?v3"
    by (auto simp: vfs_table_ok_def vfs_clear_open_files_def file_ok_def zero_file_def VFS_MAX_OPEN_FILES_def)
  have "vfs_refs ?v3 fd = 0" for fd
    using vfs_refs_eq [OF t, of fd] by (simp add: vfs_clear_open_files_def zero_file_def VFS_MAX_OPEN_FILES_def nat_less_iff)
  then have "idle_files ?v3" using t s3(2) by (simp add: idle_files_def vfs_ok_def fun_eq_iff)
  ultimately show thesis using that s3(3) by simp
qed

lemma patch_new: "patch [] 0 (\<lambda>i. buf ! i) (length buf) = buf"
  by (rule nth_equalityI) (simp_all add: patch_def)

lemma close_counted:
  assumes "vfs_ok v" and "0 < vfs_refs v fd"
  obtains v' where "vfs_close fd v = (VFS_SUCCESS, v')" and "vfs_ok v'" and "vfs_fs v' = vfs_fs v" and "vfs_mounted v' = vfs_mounted v"
    and "vfs_refs v' = (vfs_refs v)(fd := vfs_refs v fd - 1)"
proof -
  have t: "vfs_table_ok v" using assms(1) by (simp add: vfs_ok_def)
  obtain v' where c: "vfs_close fd v = (0, v')" "vfs_table_ok v'" "vfs_refs v' = (vfs_refs v)(fd := vfs_refs v fd - 1)"
    using vfs_files.close_referenced [OF t assms(2)] by blast
  have "vfs_fs v' = vfs_fs v" "vfs_mounted v' = vfs_mounted v"
    using c(1) by (auto simp: vfs_close_def Let_def split: if_splits)
  then show thesis using that [of v'] c assms(1) by (simp add: vfs_ok_def vfs_errors)
qed

text \<open>Writing a whole new file, from the open to the close.\<close>

lemma file_written:
  assumes idle: "idle_files v" and n: "valid_name n" and len: "0 < length buf" "length buf \<le> 65536"
    and small: "small_files k u ((ramfiles (vfs_fs v))(n := None))" "k < 32" "5 + (u + 1) * sectors_of buf \<le> 4096"
  obtains fd v1 v2 v3 where "vfs_open (Some (cstr_at (0x2F # n))) (VFS_O_CREAT OR VFS_O_RDWR OR VFS_O_TRUNC) v = (fd, v1)" "0 \<le> fd"
    and "vfs_write fd (Some (\<lambda>i. buf ! i)) (of_nat (length buf)) v1 = (int (length buf), v2)" and "vfs_close fd v2 = (VFS_SUCCESS, v3)"
    and "idle_files v3" and "ramfiles (vfs_fs v3) = (ramfiles (vfs_fs v))(n \<mapsto> buf)"
proof -
  let ?fl = "VFS_O_CREAT OR VFS_O_RDWR OR VFS_O_TRUNC" and ?src = "\<lambda>i. buf ! i"
  have v: "vfs_ok v" "vfs_mounted v" "vfs_refs v = (\<lambda>_. 0)" "ramfs_inv (vfs_fs v)" using idle by (simp_all add: idle_files_def vfs_ok_def)
  have fl: "vfs_flags_valid ?fl" "?fl AND VFS_O_TRUNC \<noteq> 0" "?fl AND VFS_O_WRONLY \<noteq> 0" "?fl AND VFS_O_CREAT \<noteq> 0"
    by (simp_all add: vfs_flags_valid_def Let_def VFS_O_RDONLY_def VFS_O_WRONLY_def VFS_O_RDWR_def VFS_O_CREAT_def VFS_O_TRUNC_def)
  have p: "is_cstring (cstr_at (0x2F # n)) (0x2F # n)" using n by (intro is_cstring_cstr_at) (auto simp: valid_name_def)
  obtain fd v1 where o: "vfs_open (Some (cstr_at (0x2F # n))) ?fl v = (fd, v1)" by force
  obtain st v2 where wr: "vfs_write fd (Some ?src) (of_nat (length buf)) v1 = (st, v2)" by force
  have room: "\<not> (ramfiles (vfs_fs v) n = None \<and> (\<forall>i < 32. de_used (ent (ramdisk_sector (fs_disk (vfs_fs v))) i) \<noteq> 0))"
  proof
    assume full: "ramfiles (vfs_fs v) n = None \<and> (\<forall>i < 32. de_used (ent (ramdisk_sector (fs_disk (vfs_fs v))) i) \<noteq> 0)"
    then have "(ramfiles (vfs_fs v))(n := None) = ramfiles (vfs_fs v)" by auto
    then show False using free_entry [OF v(4)] small full by (auto simp: small_files_def)
  qed
  have o1: "0 \<le> fd" "vfs_ok v1" "fd_at fd n 0 ?fl v1" "vfs_refs v1 = (vfs_refs v)(fd := 1)"
      "ramfiles (vfs_fs v1) = (ramfiles (vfs_fs v))(n \<mapsto> [])"
    using vfs_open_ok [OF v(1,2) fl(1) p n o] idle_slot [OF idle] room fl by (simp_all split: if_splits)
  have cnt: "unat (of_nat (length buf) :: u32) = length buf" using len(2) by (intro unat_of_nat_small) simp
  have "small_files (Suc k) (u + sectors_of []) (ramfiles (vfs_fs v1))"
    using small_files_upd(1) [OF small(1), of "[]" n] unfolding o1(5) by simp
  then have "small_files (Suc k) u (ramfiles (vfs_fs v1))" by (simp add: sectors_of_def)
  from vfs_write_small [OF o1(2,3) fl(3) _ _ _ this _ wr, of "[]"]
  have w2: "st = int (length buf)" "vfs_ok v2" "fd_at fd n (length buf) ?fl v2" "vfs_refs v2 = vfs_refs v1"
      "ramfiles (vfs_fs v2) = (ramfiles (vfs_fs v1))(n \<mapsto> patch [] 0 ?src (length buf))"
    using o1(5) len small(3) unfolding cnt sectors_of_def by simp_all
  obtain v3 where c: "vfs_close fd v2 = (VFS_SUCCESS, v3)" "vfs_ok v3" "vfs_fs v3 = vfs_fs v2"
      "vfs_mounted v3 = vfs_mounted v2" "vfs_refs v3 = (vfs_refs v2)(fd := vfs_refs v2 fd - 1)"
    using close_counted [OF w2(2), of fd] w2(4) o1(4) by (metis fun_upd_same zero_less_one)
  have "vfs_mounted v2" using v(2) mounted_kept(1) [of _ ?fl v] mounted_kept(3) [of fd _ _ v1] o wr by (metis snd_conv)
  then have "idle_files v3" "ramfiles (vfs_fs v3) = (ramfiles (vfs_fs v))(n \<mapsto> buf)"
    using c w2 o1 v(3) patch_new [of buf] by (auto simp: idle_files_def fun_eq_iff)
  then show thesis using that o o1(1) wr w2(1) c(1) by simp
qed

text \<open>Opening a file that exists, and reading from it.\<close>

lemma name_cstring: "valid_name n \<Longrightarrow> is_cstring (cstr_at (0x2F # n)) (0x2F # n)"
  by (intro is_cstring_cstr_at) (auto simp: valid_name_def)

lemma rdonly_flags: "vfs_flags_valid VFS_O_RDONLY" "VFS_O_RDONLY AND VFS_O_RDONLY \<noteq> 0" "VFS_O_RDONLY AND VFS_O_WRONLY = 0"
  "VFS_O_RDONLY AND VFS_O_CREAT = 0" "VFS_O_RDONLY AND VFS_O_TRUNC = 0"
  by (simp_all add: vfs_flags_valid_def Let_def VFS_O_RDONLY_def VFS_O_WRONLY_def VFS_O_RDWR_def VFS_O_CREAT_def VFS_O_TRUNC_def)

lemma file_opened:
  assumes "vfs_ok v" "vfs_mounted v" and n: "valid_name n" and c: "ramfiles (vfs_fs v) n = Some c"
    and free: "\<not> (\<forall>i < 16. of_used (vfs_open_files v ! i))"
  obtains fd v' where "vfs_open (Some (cstr_at (0x2F # n))) VFS_O_RDONLY v = (fd, v')" and "0 \<le> fd"
    and "\<not> of_used (vfs_open_files v ! nat fd)" and "\<forall>i < nat fd. of_used (vfs_open_files v ! i)"
    and "vfs_ok v'" and "vfs_mounted v'" and "fd_at fd n 0 VFS_O_RDONLY v'" and "vfs_refs v' = (vfs_refs v)(fd := 1)"
    and "ramfiles (vfs_fs v') = ramfiles (vfs_fs v)"
proof -
  obtain fd v' where o: "vfs_open (Some (cstr_at (0x2F # n))) VFS_O_RDONLY v = (fd, v')" by force
  moreover have "vfs_mounted v'" using assms(2) mounted_kept(1) [of _ VFS_O_RDONLY v] o by (metis snd_conv)
  moreover have "\<not> (ramfiles (vfs_fs v) n = None \<and> VFS_O_RDONLY AND VFS_O_CREAT = 0)"
      "\<not> (ramfiles (vfs_fs v) n = None \<and> (\<forall>i<32. de_used (ent (ramdisk_sector (fs_disk (vfs_fs v))) i) \<noteq> 0))"
      "\<not> (ramfiles (vfs_fs v) n = None \<or> VFS_O_RDONLY AND VFS_O_TRUNC \<noteq> 0)"
    using c rdonly_flags by simp_all
  note opened = vfs_open_ok [OF assms(1,2) rdonly_flags(1) name_cstring [OF n] n o, unfolded if_not_P [OF free] if_not_P [OF this(1)]
      if_not_P [OF this(2)] if_not_P [OF this(3)]]
  ultimately show thesis by (intro that [OF o]) (use opened in blast)+
qed

lemma vfs_reading:
  assumes ok: "vfs_ok v" "vfs_mounted v" and at: "fd_at fd n off VFS_O_RDONLY v" and c: "ramfiles (vfs_fs v) n = Some c"
  obtains d v' where "vfs_read fd True count v = (int (length d), d, v')" and "d = take (unat count) (drop off c)"
    and "vfs_ok v'" and "vfs_mounted v'" and "vfs_fs v' = vfs_fs v" and "fd_at fd n (off + length d) VFS_O_RDONLY v'" and "vfs_refs v' = vfs_refs v"
proof -
  obtain r d v' where rd: "vfs_read fd True count v = (r, d, v')" using prod_cases3 by blast
  note at' = vfs_read_at [OF ok(1) at rdonly_flags(2) c rd]
  have v': "v' = advance_offset fd r v"
    using rd at by (auto simp: vfs_read_def fd_at_def Let_def VFS_O_RDONLY_def split: prod.splits)
  have t: "vfs_table_ok v" "ramfs_inv (vfs_fs v)" using ok(1) by (simp_all add: vfs_ok_def)
  have "off < 2 ^ 32" using at u32_unat_lt [of "of_offset (vfs_open_files v ! nat fd)"] by (auto simp: fd_at_def Let_def)
  then have "int off + int (length d) < 2 ^ 32" using at' ramfile_length [OF t(2) c] by auto
  then have "vfs_refs v' = vfs_refs v" using advance_offset_at [OF t(1) at, of r] at' v' by simp
  moreover have "vfs_mounted v'" using ok(2) mounted_kept(2) [of fd True count v] rd by simp
  moreover have "vfs_read fd True count v = (int (length d), d, v')" using rd at' by blast
  ultimately show thesis using at' by (intro that [of d v']) blast+
qed

text \<open>A descriptor in use is one with a reference.\<close>

lemma used_refs: "vfs_table_ok v \<Longrightarrow> i < 16 \<Longrightarrow> of_used (vfs_open_files v ! i) \<longleftrightarrow> 0 < vfs_refs v (int i)"
  using vfs_table_nth [of v i] vfs_refs_eq [of v "int i"] by (auto simp: file_ok_def unat_gt_0)

lemma is_cstring_unique: "is_cstring s xs \<Longrightarrow> is_cstring s ys \<Longrightarrow> xs = ys"
proof (induction xs arbitrary: s ys)
  case Nil
  then show ?case by (cases ys) (auto dest: is_cstring_hd simp: is_cstring_Nil)
next
  case (Cons x xs)
  then show ?case by (cases ys) (auto dest: is_cstring_hd is_cstring_shift simp: is_cstring_Nil)
qed

text \<open>A path that is not a slash and a valid name is refused without effect.\<close>

lemma open_refused:
  assumes "vfs_mounted v" and "vfs_flags_valid fl" and free: "\<not> (\<forall>i < 16. of_used (vfs_open_files v ! i))" and "fs_mounted (vfs_fs v)"
    and p: "0 \<notin> set p" "length p \<le> 63" "\<not> (\<exists>n. p = 0x2F # n \<and> valid_name n)"
  shows "vfs_open (Some (cstr_at p)) fl v = (VFS_EINVAL, v)"
proof -
  have cs: "is_cstring (cstr_at p) p" using p(1) by (intro is_cstring_cstr_at) auto
  have copy: "vfs_copy_path (Some (cstr_at p)) = (VFS_SUCCESS, p)"
    using copy_path_loop_ok [of "cstr_at p" 0 p "[]"] cs p(2) by (simp add: vfs_copy_path_def VFS_MAX_PATH_def)
  obtain st m where nm: "simplefs_normalize_path (Some (cstr_at p)) = (st, m)" by force
  have "is_cstring (cstr_at p) q \<Longrightarrow> q = p" for q using is_cstring_unique [OF cs] by blast
  then have st: "st = VFS_EINVAL" using simplefs_normalize_path_spec [OF nm] p(3) by blast
  then have "simplefs_open (Some (cstr_at p)) fl (vfs_fs v) = (VFS_EINVAL, None, vfs_fs v)"
    using nm assms(4) by (simp add: simplefs_open_def vfs_errors)
  moreover obtain fd where "vfs_alloc_fd v = int fd" using free by (cases v rule: alloc_fd_cases) auto
  ultimately show ?thesis using assms(1,2) copy by (simp add: vfs_open_def vfs_errors)
qed

end
