(* ===== verification/Selftest_Elf.thy ===== *)
theory Selftest_Elf
  imports Test_Images Selftest_Base
begin

text \<open>
  The loader test of \<^verbatim>\<open>kernel_main\<close> in \<^verbatim>\<open>src/kernel/kernel.c\<close> (the build with \<^verbatim>\<open>ENABLE_ELF_LOADER_SELFTEST\<close>): it writes four program files to a fresh disk,
  loads the good one, compares memory with the file, and checks that the bad ones are refused. The test passes on every well-formed kernel
  whose disk and memory have room for it.
\<close>

section \<open>The test\<close>

definition elf_fixtures :: "'d vfs \<Rightarrow> bool \<times> 'd vfs" where
  "elf_fixtures v =
     (let s = and_also (succeeds vfs_format v) (succeeds vfs_mount);
          s = and_also s (elf_write_fixture (str8 ''/init.elf'') (elf_make_image ELF_TEST_VADDR));
          s = and_also s (elf_write_fixture (str8 ''/bad.elf'') elf_bad_image);
          s = and_also s (elf_write_fixture (str8 ''/trunc.elf'') elf_trunc_image)
      in and_also s (elf_write_fixture (str8 ''/kerneladdr.elf'') (elf_make_image 0x00100000)))"

text \<open>\<^verbatim>\<open>elf_load_from_vfs(path, &info) == status\<close>\<close>

definition load_returns :: "int \<Rightarrow> u8 list \<Rightarrow> 'd kernel \<Rightarrow> bool \<times> 'd kernel" where
  "load_returns status path k = (let (r, info, k) = elf_load_from_vfs (Some (cstr_at path)) True k in (r = status, k))"

definition elf_negative :: "'d kernel \<Rightarrow> bool \<times> 'd kernel" where
  "elf_negative k =
     and_also (and_also (and_also (load_returns ELF_EINVAL (str8 ''/bad.elf'') k) (load_returns ELF_EINVAL (str8 ''/trunc.elf'')))
       (load_returns ELF_EINVAL (str8 ''/kerneladdr.elf''))) (load_returns ELF_ENOENT (str8 ''/missing.elf''))"

definition test_info :: elf_load_info where
  "test_info = \<lparr>li_entry = ELF_TEST_ENTRY, li_load_start = ELF_TEST_VADDR,
     li_load_end = ELF_TEST_VADDR + of_nat ELF_TEST_SEGMENT_MEM_SIZE, li_loaded_bytes = of_nat ELF_TEST_SEGMENT_FILE_SIZE, li_segment_count = 1\<rparr>"

text \<open>The load of the good program: its status, whether the metadata and the segment are as expected, and the state.\<close>

definition elf_test_load :: "bool \<Rightarrow> 'd kernel \<Rightarrow> int \<times> bool \<times> bool \<times> 'd kernel" where
  "elf_test_load files_ok k =
     (let (status, info, k) = (if files_ok then elf_load_from_vfs (Some (cstr_at (str8 ''/init.elf''))) True k
                               else (ELF_EIO, zero_load_info, k));
          load_ok = (status = ELF_SUCCESS);
          k = line_if load_ok ''ELF_LOAD_OK'' k;
          metadata_ok = (load_ok \<and> info = test_info);
          k = line_if metadata_ok ''ELF_METADATA_OK'' k;
          (segment_ok, m) = (if metadata_ok then elf_loaded_segment_ok (elf_make_image ELF_TEST_VADDR) (k_mmu k) else (False, k_mmu k));
          k = line_if segment_ok ''ELF_BSS_OK'' (line_if segment_ok ''ELF_SEGMENT_OK'' (k\<lparr>k_mmu := m\<rparr>))
      in (status, metadata_ok, segment_ok, k))"

definition elf_selftest :: "'d kernel \<Rightarrow> bool \<times> 'd kernel" where
  "elf_selftest k =
     (let k = put_line ''ELF_TEST'' k;
          (files_ok, v) = elf_fixtures (k_vfs k);
          (status, metadata_ok, segment_ok, k) = elf_test_load files_ok (line_if files_ok ''ELF_VFS_WRITE_OK'' (k\<lparr>k_vfs := v\<rparr>));
          (negative_ok, k) = elf_negative k;
          k = line_if negative_ok ''ELF_NEGATIVE_OK'' k;
          ok = (files_ok \<and> status = ELF_SUCCESS \<and> metadata_ok \<and> segment_ok \<and> negative_ok)
      in (ok, if ok then put_line ''ELF_PREP_OK'' k else put_line ''ELF_FAIL'' k))"

section \<open>Writing the files\<close>

lemma elf_write_fixture_ok:
  assumes "idle_files v" and "valid_name n" and "0 < length buf" "length buf \<le> 65536"
    and "small_files k u (ramfiles (vfs_fs v))" "k < 32" "5 + (u + 1) * sectors_of buf \<le> 4096"
  obtains v' where "elf_write_fixture (0x2F # n) buf v = (True, v')" and "idle_files v'"
    and "ramfiles (vfs_fs v') = (ramfiles (vfs_fs v))(n \<mapsto> buf)"
proof -
  obtain fd v1 v2 v3 where "vfs_open (Some (cstr_at (0x2F # n))) (VFS_O_CREAT OR VFS_O_RDWR OR VFS_O_TRUNC) v = (fd, v1)" "0 \<le> fd"
      "vfs_write fd (Some (\<lambda>i. buf ! i)) (of_nat (length buf)) v1 = (int (length buf), v2)" "vfs_close fd v2 = (VFS_SUCCESS, v3)"
      "idle_files v3" "ramfiles (vfs_fs v3) = (ramfiles (vfs_fs v))(n \<mapsto> buf)"
    by (rule file_written [OF assms(1-4) small_files_remove [OF assms(5)] assms(6,7)])
  then show thesis using that [of v3] by (simp add: elf_write_fixture_def)
qed

section \<open>Loading them\<close>

lemma read_file_mounted: "vfs_mounted (snd (snd (read_file_into_buffer p v))) = vfs_mounted v"
proof -
  have l: "vfs_mounted (snd (snd (read_file_loop fd sz n buf v))) = vfs_mounted v" for fd sz n buf and v :: "'a vfs"
  proof (induction "sz - n" arbitrary: n buf v rule: less_induct)
    case less
    obtain count data v1 where rd: "vfs_read fd True (of_nat (sz - n)) v = (count, data, v1)" using prod_cases3 by blast
    then have v1: "vfs_mounted v1 = vfs_mounted v" using mounted_kept(2) [of fd True "of_nat (sz - n)" v] by simp
    have "vfs_mounted (snd (snd (read_file_loop fd sz (n + nat count) (buf @ data) v1))) = vfs_mounted v1" if "n < sz" "0 < count"
      using that by (intro less) simp
    then show ?case using rd v1
      by (subst read_file_loop.simps) (simp add: split_beta mounted_kept del: of_nat_diff)
  qed
  show ?thesis by (auto simp: read_file_into_buffer_def Let_def split_beta l mounted_kept)
qed

lemma load_file:
  assumes idle: "idle_files (k_vfs k)" and n: "valid_name n" and c: "ramfiles (vfs_fs (k_vfs k)) n = Some bs"
    and len: "0 < length bs" "length bs \<le> 8192"
  obtains v where "elf_load_from_vfs (Some (cstr_at (0x2F # n))) True k =
      (let (r, info, m) = load_bytes_of bs (k_mmu k) in (r, info, k\<lparr>k_vfs := v, k_mmu := m\<rparr>))"
    and "idle_files v" and "ramfiles (vfs_fs v) = ramfiles (vfs_fs (k_vfs k))"
proof -
  have v: "vfs_ok (k_vfs k)" "vfs_mounted (k_vfs k)" "vfs_refs (k_vfs k) = (\<lambda>_. 0)" using idle by (simp_all add: idle_files_def)
  have p: "is_cstring (cstr_at (0x2F # n)) (0x2F # n)" using n by (intro is_cstring_cstr_at) (auto simp: valid_name_def)
  obtain st buf w where rd: "read_file_into_buffer (Some (cstr_at (0x2F # n))) (k_vfs k) = (st, buf, w)" using prod_cases3 by blast
  have "st = ELF_SUCCESS \<and> buf = bs \<and> vfs_ok w \<and> ramfiles (vfs_fs w) = ramfiles (vfs_fs (k_vfs k)) \<and> vfs_refs w = (\<lambda>_. 0)"
    using read_file_ok [OF v(1,2) p n rd] c len idle_slot [OF idle] v(3) by auto
  moreover have "vfs_mounted w" using read_file_mounted [of _ "k_vfs k"] rd v(2) by (metis snd_conv)
  ultimately show thesis using that [of w] elf_load_unfold [OF rd] by (simp add: idle_files_def)
qed

lemma load_missing:
  assumes idle: "idle_files (k_vfs k)" and n: "valid_name n" and c: "ramfiles (vfs_fs (k_vfs k)) n = None"
  obtains v where "elf_load_from_vfs (Some (cstr_at (0x2F # n))) True k = (ELF_ENOENT, zero_load_info, k\<lparr>k_vfs := v\<rparr>)"
proof -
  have v: "vfs_ok (k_vfs k)" "vfs_mounted (k_vfs k)" using idle by (simp_all add: idle_files_def)
  have p: "is_cstring (cstr_at (0x2F # n)) (0x2F # n)" using n by (intro is_cstring_cstr_at) (auto simp: valid_name_def)
  obtain st buf w where rd: "read_file_into_buffer (Some (cstr_at (0x2F # n))) (k_vfs k) = (st, buf, w)" using prod_cases3 by blast
  have "st = ELF_ENOENT" using read_file_ok [OF v p n rd] c by simp
  moreover have "ELF_ENOENT \<noteq> ELF_SUCCESS" by (simp add: ELF_ENOENT_def ELF_SUCCESS_def)
  ultimately show thesis using that [of w] elf_load_unfold [OF rd] by simp
qed

lemma refused_bytes:
  "validate_header (header_of_bytes bs) (of_nat (length bs)) = ELF_EINVAL \<Longrightarrow> load_bytes_of bs m = (ELF_EINVAL, zero_load_info, m)"
  "validate_header (header_of_bytes bs) (of_nat (length bs)) = ELF_SUCCESS \<Longrightarrow>
     fst (check_segments (program_headers bs (header_of_bytes bs)) (of_nat (length bs)) empty_plan) = ELF_EINVAL \<Longrightarrow>
     load_bytes_of bs m = (ELF_EINVAL, zero_load_info, m)"
  by (simp_all add: load_bytes_of_def Let_def split_beta ELF_EINVAL_def ELF_SUCCESS_def)

lemma bad_images_refused:
  "load_bytes_of elf_bad_image m = (ELF_EINVAL, zero_load_info, m)"
  "load_bytes_of elf_trunc_image m = (ELF_EINVAL, zero_load_info, m)"
  "load_bytes_of (elf_make_image 0x00100000) m = (ELF_EINVAL, zero_load_info, m)"
proof -
  have "eh_ident (header_of_bytes elf_bad_image) ! 1 \<noteq> 0x45" by (simp add: header_of_bytes_def elf_bad_image_def chr8_def)
  then show "load_bytes_of elf_bad_image m = (ELF_EINVAL, zero_load_info, m)"
    by (intro refused_bytes) (simp add: validate_header_def)
  show "load_bytes_of elf_trunc_image m = (ELF_EINVAL, zero_load_info, m)"
    by (intro refused_bytes) (simp add: validate_header_def elf_trunc_image_def)
  have "\<not> in_load_window 0x00100000" by (simp add: in_load_window_def)
  then show "load_bytes_of (elf_make_image 0x00100000) m = (ELF_EINVAL, zero_load_info, m)"
    by (intro refused_bytes) (simp_all add: image_header_valid image_checked)
qed

lemma image_loaded_byte:
  "image_loaded bs m m' \<Longrightarrow> ph \<in> set (program_headers bs (header_of_bytes bs)) \<Longrightarrow> is_load ph \<Longrightarrow> i < unat (ph_memsz ph) \<Longrightarrow>
     umem m' (ph_vaddr ph + of_nat i) = Some (if i < unat (ph_filesz ph) then bs ! (unat (ph_offset ph) + i) else 0)"
  unfolding image_loaded_def Let_def by blast

text \<open>Loading the good image: the metadata and the bytes, given a page for them.\<close>

lemma good_image_loaded:
  assumes m: "active_ok m" "active_page_directory m \<noteq> 0" and room: "fst (map_segment_pages ELF_TEST_VADDR 64 m) = ELF_SUCCESS"
    and l: "load_bytes_of (elf_make_image ELF_TEST_VADDR) m = (st, info, m')"
  shows "st = ELF_SUCCESS \<and> info = test_info \<and> elf_loaded_segment_ok (elf_make_image ELF_TEST_VADDR) m' = (True, m')"
proof -
  let ?img = "elf_make_image ELF_TEST_VADDR"
  have w: "in_load_window ELF_TEST_VADDR" by (simp add: in_load_window_def ELF_TEST_VADDR_def)
  obtain ls n m2 where sg: "load_segments (program_headers ?img (header_of_bytes ?img)) ?img 0 m = (ls, n, m2)" using prod_cases3 by blast
  have ck: "check_segments (program_headers ?img (header_of_bytes ?img)) (of_nat (length ?img)) empty_plan =
      (ELF_SUCCESS, \<lparr>lp_ranges = [(elf_align_down ELF_TEST_VADDR, elf_align_up (ELF_TEST_VADDR + 64))], lp_memory = 64,
       lp_start = ELF_TEST_VADDR, lp_end = ELF_TEST_VADDR + 64\<rparr>)"
    using image_checked [of ELF_TEST_VADDR] w by simp
  have r: "(st, info, m') = (if ls \<noteq> ELF_SUCCESS then (ls, zero_load_info, m2)
      else (ELF_SUCCESS, \<lparr>li_entry = ELF_TEST_VADDR + 0x20, li_load_start = ELF_TEST_VADDR, li_load_end = ELF_TEST_VADDR + 64,
         li_loaded_bytes = n, li_segment_count = 1\<rparr>, m2))"
    using l ck sg image_header_valid [of ELF_TEST_VADDR]
    by (simp add: load_bytes_of_def Let_def image_header ELF_TEST_VADDR_def split: if_splits)
  note img = loaded_image [OF m ck _ sg]
  let ?ph = "\<lparr>ph_type = 1, ph_offset = 128, ph_vaddr = ELF_TEST_VADDR, ph_paddr = ELF_TEST_VADDR, ph_filesz = 9, ph_memsz = 64,
    ph_flags = 5, ph_align = 1\<rparr>"
  obtain m1 where m1: "map_segment_pages (ph_vaddr ?ph) (ph_memsz ?ph) m = (ELF_SUCCESS, m1)"
    using room by (cases "map_segment_pages ELF_TEST_VADDR 64 m") simp
  have valid: "is_load ?ph" "seg_valid (length ?img) ?ph" by (simp_all add: seg_valid_def seg_fits_def ELF_TEST_VADDR_def ELF_PT_LOAD_def)
  have ls: "ls = ELF_SUCCESS"
    using load_one_segment [OF m valid m1] m1 sg unfolding image_program_headers by (auto simp: ELF_PT_LOAD_def)
  have il: "image_loaded ?img m m2" using load_bytes_of_ok [OF m _ l] r ls by simp
  have ph: "?ph \<in> set (program_headers ?img (header_of_bytes ?img))" "is_load ?ph" by (simp_all add: image_program_headers ELF_PT_LOAD_def)
  have b: "umem m2 (ELF_TEST_VADDR + of_nat i) = Some (if i < 9 then ?img ! (128 + i) else 0)" if "i < 64" for i
    using image_loaded_byte [OF il ph, of i] that by simp
  have l1: "load_bytes ELF_TEST_VADDR 9 m2 = (map (\<lambda>i. ?img ! (128 + i)) [0..<9], m2)"
    by (rule load_bytes_umem) (simp add: b)
  have l2: "load_bytes (ELF_TEST_VADDR + of_nat 9) 55 m2 = (map (\<lambda>i. 0) [0..<55], m2)"
  proof (rule load_bytes_umem)
    fix i :: nat assume "i < 55"
    then show "umem m2 (ELF_TEST_VADDR + of_nat 9 + of_nat i) = Some 0" using b [of "9 + i"] by (simp add: add.assoc)
  qed
  have "map (\<lambda>i. ?img ! (128 + i)) [0..<9] = take 9 (drop 128 ?img)" by (rule nth_equalityI) simp_all
  then have "elf_loaded_segment_ok ?img m2 = (True, m2)"
    using l1 l2 by (simp add: elf_loaded_segment_ok_def ELF_TEST_SEGMENT_FILE_SIZE_def ELF_TEST_SEGMENT_MEM_SIZE_def
        ELF_TEST_SEGMENT_OFFSET_def map_replicate_const)
  moreover have "n = 9" using img ls by (simp add: image_program_headers ELF_PT_LOAD_def)
  ultimately show ?thesis
    using r ls by (simp add: test_info_def ELF_TEST_ENTRY_def ELF_TEST_SEGMENT_FILE_SIZE_def ELF_TEST_SEGMENT_MEM_SIZE_def)
qed

section \<open>The verdict\<close>

definition test_names :: "u8 list list" where
  "test_names = [str8 ''init.elf'', str8 ''bad.elf'', str8 ''trunc.elf'', str8 ''kerneladdr.elf'', str8 ''missing.elf'']"

lemma test_paths:
  "str8 ''/init.elf'' = 0x2F # str8 ''init.elf''" "str8 ''/bad.elf'' = 0x2F # str8 ''bad.elf''"
  "str8 ''/trunc.elf'' = 0x2F # str8 ''trunc.elf''" "str8 ''/kerneladdr.elf'' = 0x2F # str8 ''kerneladdr.elf''"
  "str8 ''/missing.elf'' = 0x2F # str8 ''missing.elf''"
  by (simp_all add: chr8_def)

lemma test_names_ok: "\<forall>n\<in>set test_names. valid_name n" "distinct test_names"
  by (simp_all add: test_names_def valid_name_def chr8_def)

lemma fixture_lengths: "length elf_bad_image = 512" "length elf_trunc_image = 32"
  by (simp_all add: elf_bad_image_def elf_trunc_image_def)

abbreviation test_files :: "u8 list \<rightharpoonup> u8 list" where
  "test_files \<equiv> [str8 ''init.elf'' \<mapsto> elf_make_image ELF_TEST_VADDR, str8 ''bad.elf'' \<mapsto> elf_bad_image,
     str8 ''trunc.elf'' \<mapsto> elf_trunc_image, str8 ''kerneladdr.elf'' \<mapsto> elf_make_image 0x00100000]"

lemma elf_fixtures_ok:
  assumes "vfs_root_dev v = Some ramdisk_dev"
  obtains v' where "elf_fixtures v = (True, v')" and "idle_files v'" and "ramfiles (vfs_fs v') = test_files"
proof -
  obtain v0 where v0: "and_also (succeeds vfs_format v) (succeeds vfs_mount) = (True, v0)" "idle_files v0" "ramfiles (vfs_fs v0) = Map.empty"
    using format_mount [OF assms(1)] .
  have names: "valid_name (str8 ''init.elf'')" "valid_name (str8 ''bad.elf'')" "valid_name (str8 ''trunc.elf'')" "valid_name (str8 ''kerneladdr.elf'')"
    using test_names_ok(1) unfolding test_names_def by auto
  have len: "0 < length (elf_make_image x)" "length (elf_make_image x) \<le> 65536" "0 < length elf_bad_image" "length elf_bad_image \<le> 65536"
    "0 < length elf_trunc_image" "length elf_trunc_image \<le> 65536" for x using fixture_lengths by simp_all
  have sec: "sectors_of (elf_make_image x) = 1" "sectors_of elf_bad_image = 1" "sectors_of elf_trunc_image = 1" for x
    using fixture_lengths by (simp_all add: sectors_of_def)
  have s0: "small_files 0 0 (ramfiles (vfs_fs v0))" unfolding v0(3) by (rule small_files_empty)
  obtain v1 where v1: "elf_write_fixture (0x2F # str8 ''init.elf'') (elf_make_image ELF_TEST_VADDR) v0 = (True, v1)" "idle_files v1"
      "ramfiles (vfs_fs v1) = [str8 ''init.elf'' \<mapsto> elf_make_image ELF_TEST_VADDR]"
    by (rule elf_write_fixture_ok [OF v0(2) names(1) len(1,2) s0, of ELF_TEST_VADDR]) (simp_all add: v0(3) sec)
  have s1: "small_files 1 1 (ramfiles (vfs_fs v1))"
    using small_files_upd(1) [OF s0, of "elf_make_image ELF_TEST_VADDR" "str8 ''init.elf''"] unfolding v0(3) v1(3) sec by simp
  obtain v2 where v2: "elf_write_fixture (0x2F # str8 ''bad.elf'') elf_bad_image v1 = (True, v2)" "idle_files v2"
      "ramfiles (vfs_fs v2) = [str8 ''init.elf'' \<mapsto> elf_make_image ELF_TEST_VADDR, str8 ''bad.elf'' \<mapsto> elf_bad_image]"
    by (rule elf_write_fixture_ok [OF v1(2) names(2) len(3,4) s1]) (simp_all add: v1(3) sec)
  have s2: "small_files 2 2 (ramfiles (vfs_fs v2))"
    using small_files_upd(1) [OF s1, of elf_bad_image "str8 ''bad.elf''"] unfolding v1(3) v2(3) sec by (simp add: numeral_2_eq_2)
  obtain v3 where v3: "elf_write_fixture (0x2F # str8 ''trunc.elf'') elf_trunc_image v2 = (True, v3)" "idle_files v3"
      "ramfiles (vfs_fs v3) = [str8 ''init.elf'' \<mapsto> elf_make_image ELF_TEST_VADDR, str8 ''bad.elf'' \<mapsto> elf_bad_image,
        str8 ''trunc.elf'' \<mapsto> elf_trunc_image]"
    by (rule elf_write_fixture_ok [OF v2(2) names(3) len(5,6) s2]) (simp_all add: v2(3) sec)
  have s3: "small_files 3 3 (ramfiles (vfs_fs v3))"
    using small_files_upd(1) [OF s2, of elf_trunc_image "str8 ''trunc.elf''"] unfolding v2(3) v3(3) sec by (simp add: numeral_3_eq_3)
  obtain v4 where v4: "elf_write_fixture (0x2F # str8 ''kerneladdr.elf'') (elf_make_image 0x00100000) v3 = (True, v4)" "idle_files v4"
      "ramfiles (vfs_fs v4) = test_files"
    by (rule elf_write_fixture_ok [OF v3(2) names(4) len(1,2) s3, of "0x00100000"]) (simp_all add: v3(3) sec)
  have "elf_fixtures v = (True, v4)"
    unfolding elf_fixtures_def Let_def v0(1) test_paths using v1(1) v2(1) v3(1) v4(1) by (simp add: and_also_def)
  then show thesis using that v4(2,3) by blast
qed

lemma load_refused:
  assumes "idle_files (k_vfs k)" and "valid_name n" and "ramfiles (vfs_fs (k_vfs k)) n = Some bs"
    and "0 < length bs" "length bs \<le> 8192" and "load_bytes_of bs (k_mmu k) = (ELF_EINVAL, zero_load_info, k_mmu k)"
  shows "\<exists>v. load_returns ELF_EINVAL (0x2F # n) k = (True, k\<lparr>k_vfs := v\<rparr>) \<and> idle_files v \<and> ramfiles (vfs_fs v) = ramfiles (vfs_fs (k_vfs k))"
proof -
  obtain v where v: "elf_load_from_vfs (Some (cstr_at (0x2F # n))) True k =
      (let (r, info, m) = load_bytes_of bs (k_mmu k) in (r, info, k\<lparr>k_vfs := v, k_mmu := m\<rparr>))"
      "idle_files v" "ramfiles (vfs_fs v) = ramfiles (vfs_fs (k_vfs k))"
    using load_file [OF assms(1-5)] .
  have "k\<lparr>k_vfs := v, k_mmu := k_mmu k\<rparr> = k\<lparr>k_vfs := v\<rparr>" by simp
  then have "load_returns ELF_EINVAL (0x2F # n) k = (True, k\<lparr>k_vfs := v\<rparr>)" using v(1) assms(6) by (simp add: load_returns_def)
  then show ?thesis using v(2,3) by blast
qed

lemma test_files_at:
  "test_files (str8 ''init.elf'') = Some (elf_make_image ELF_TEST_VADDR)" "test_files (str8 ''bad.elf'') = Some elf_bad_image"
  "test_files (str8 ''trunc.elf'') = Some elf_trunc_image" "test_files (str8 ''kerneladdr.elf'') = Some (elf_make_image 0x00100000)"
  "test_files (str8 ''missing.elf'') = None"
  by (simp_all add: chr8_def)

lemma elf_negative_passes:
  assumes "idle_files (k_vfs k)" and "ramfiles (vfs_fs (k_vfs k)) = test_files"
  shows "\<exists>v. elf_negative k = (True, k\<lparr>k_vfs := v\<rparr>)"
proof -
  have n: "valid_name (str8 ''bad.elf'')" "valid_name (str8 ''trunc.elf'')" "valid_name (str8 ''kerneladdr.elf'')" "valid_name (str8 ''missing.elf'')"
    using test_names_ok(1) unfolding test_names_def by auto
  obtain v1 where v1: "load_returns ELF_EINVAL (0x2F # str8 ''bad.elf'') k = (True, k\<lparr>k_vfs := v1\<rparr>)" "idle_files v1"
      "ramfiles (vfs_fs v1) = test_files"
    using load_refused [OF assms(1) n(1), of elf_bad_image] assms(2) test_files_at(2) bad_images_refused(1) fixture_lengths by force
  obtain v2 where v2: "load_returns ELF_EINVAL (0x2F # str8 ''trunc.elf'') (k\<lparr>k_vfs := v1\<rparr>) = (True, k\<lparr>k_vfs := v2\<rparr>)" "idle_files v2"
      "ramfiles (vfs_fs v2) = test_files"
    using load_refused [of "k\<lparr>k_vfs := v1\<rparr>", OF _ n(2), of elf_trunc_image] v1 test_files_at(3) bad_images_refused(2) fixture_lengths by force
  obtain v3 where v3: "load_returns ELF_EINVAL (0x2F # str8 ''kerneladdr.elf'') (k\<lparr>k_vfs := v2\<rparr>) = (True, k\<lparr>k_vfs := v3\<rparr>)" "idle_files v3"
      "ramfiles (vfs_fs v3) = test_files"
    using load_refused [of "k\<lparr>k_vfs := v2\<rparr>", OF _ n(3), of "elf_make_image 0x00100000"] v2 test_files_at(4) bad_images_refused(3) by force
  obtain v4 where "elf_load_from_vfs (Some (cstr_at (0x2F # str8 ''missing.elf''))) True (k\<lparr>k_vfs := v3\<rparr>) = (ELF_ENOENT, zero_load_info, k\<lparr>k_vfs := v4\<rparr>)"
    using load_missing [of "k\<lparr>k_vfs := v3\<rparr>", OF _ n(4)] v3 test_files_at(5) by force
  then have "load_returns ELF_ENOENT (0x2F # str8 ''missing.elf'') (k\<lparr>k_vfs := v3\<rparr>) = (True, k\<lparr>k_vfs := v4\<rparr>)"
    by (simp add: load_returns_def)
  then have "elf_negative k = (True, k\<lparr>k_vfs := v4\<rparr>)"
    unfolding elf_negative_def test_paths using v1(1) v2(1) v3(1) by (simp add: and_also_def)
  then show ?thesis by blast
qed

lemma elf_test_load_passes:
  assumes "idle_files (k_vfs k)" and "ramfiles (vfs_fs (k_vfs k)) = test_files" and "active_ok (k_mmu k)" and "active_page_directory (k_mmu k) \<noteq> 0"
    and "fst (map_segment_pages ELF_TEST_VADDR 64 (k_mmu k)) = ELF_SUCCESS" and "elf_test_load True k = (st, md, sg, k')"
  shows "st = ELF_SUCCESS \<and> md \<and> sg \<and> idle_files (k_vfs k') \<and> ramfiles (vfs_fs (k_vfs k')) = test_files \<and>
    k_serial k' = put_lines [''ELF_LOAD_OK'', ''ELF_METADATA_OK'', ''ELF_SEGMENT_OK'', ''ELF_BSS_OK''] (k_serial k)"
proof -
  have nm: "valid_name (str8 ''init.elf'')" using test_names_ok(1) unfolding test_names_def by auto
  obtain w where w: "elf_load_from_vfs (Some (cstr_at (0x2F # str8 ''init.elf''))) True k =
      (let (r, info, m) = load_bytes_of (elf_make_image ELF_TEST_VADDR) (k_mmu k) in (r, info, k\<lparr>k_vfs := w, k_mmu := m\<rparr>))"
      "idle_files w" "ramfiles (vfs_fs w) = test_files"
    using load_file [OF assms(1) nm, of "elf_make_image ELF_TEST_VADDR"] assms(2) test_files_at(1) by force
  obtain st1 info m where l: "load_bytes_of (elf_make_image ELF_TEST_VADDR) (k_mmu k) = (st1, info, m)" using prod_cases3 by blast
  have L: "elf_load_from_vfs (Some (cstr_at (str8 ''/init.elf''))) True k = (st1, info, k\<lparr>k_vfs := w, k_mmu := m\<rparr>)"
    unfolding test_paths using w(1) l by simp
  have "st1 = ELF_SUCCESS" "info = test_info" "elf_loaded_segment_ok (elf_make_image ELF_TEST_VADDR) m = (True, m)"
    using good_image_loaded [OF assms(3-5) l] by simp_all
  then have "(st, md, sg, k') = (ELF_SUCCESS, True, True, put_line ''ELF_BSS_OK'' (put_line ''ELF_SEGMENT_OK''
      ((put_line ''ELF_METADATA_OK'' (put_line ''ELF_LOAD_OK'' (k\<lparr>k_vfs := w, k_mmu := m\<rparr>)))\<lparr>k_mmu := m\<rparr>)))"
    using assms(6) unfolding elf_test_load_def L if_True Let_def prod.case by (simp add: line_if_def)
  then show ?thesis using w(2,3) by (simp add: put_lines_append)
qed

text \<open>C14: The loader test passes. From a well-formed address space in which its page can be mapped, with the ramdisk attached, the test
  prints its eight success lines and no failure line: the four files fit on the freshly formatted disk, the good program loads
  with the metadata and the bytes that were written, and the program with a wrong magic number, the truncated one, the one that asks for
  a kernel address and the missing one are refused with the error codes the test expects.\<close>

theorem elf_selftest_passes:
  assumes "vfs_root_dev (k_vfs k) = Some ramdisk_dev" and "active_ok (k_mmu k)" and "active_page_directory (k_mmu k) \<noteq> 0"
    and "fst (map_segment_pages ELF_TEST_VADDR 64 (k_mmu k)) = ELF_SUCCESS" and "elf_selftest k = (ok, k')"
  shows "ok \<and> k_serial k' = put_lines [''ELF_TEST'', ''ELF_VFS_WRITE_OK'', ''ELF_LOAD_OK'', ''ELF_METADATA_OK'', ''ELF_SEGMENT_OK'', ''ELF_BSS_OK'',
    ''ELF_NEGATIVE_OK'', ''ELF_PREP_OK''] (k_serial k)"
proof -
  define fo where "fo = True"
  obtain v where f: "elf_fixtures (k_vfs k) = (fo, v)" and v: "idle_files v" "ramfiles (vfs_fs v) = test_files"
    unfolding fo_def by (rule elf_fixtures_ok [OF assms(1)])
  define k0 where "k0 = (put_line ''ELF_TEST'' k)\<lparr>k_vfs := v\<rparr>"
  obtain s1 md sg k2 where t: "elf_test_load fo (line_if fo ''ELF_VFS_WRITE_OK'' k0) = (s1, md, sg, k2)" using prod_cases4 by blast
  obtain neg k3 where n: "elf_negative k2 = (neg, k3)" by force
  have e: "elf_selftest k = (let k = line_if neg ''ELF_NEGATIVE_OK'' k3; ok = (fo \<and> s1 = ELF_SUCCESS \<and> md \<and> sg \<and> neg)
      in (ok, if ok then put_line ''ELF_PREP_OK'' k else put_line ''ELF_FAIL'' k))"
  proof -
    have "k_vfs (put_line ''ELF_TEST'' k) = k_vfs k" by (simp add: put_line_def)
    then show ?thesis unfolding elf_selftest_def Let_def by (simp only: f t n prod.case k0_def [symmetric])
  qed
  have fo: fo by (simp add: fo_def)
  let ?k1 = "line_if fo ''ELF_VFS_WRITE_OK'' k0"
  have k1: "k_vfs ?k1 = v" "k_mmu ?k1 = k_mmu k" "k_serial ?k1 = put_lines [''ELF_TEST'', ''ELF_VFS_WRITE_OK''] (k_serial k)"
    using fo by (simp_all add: k0_def line_if_def put_lines_append)
  have g: "s1 = ELF_SUCCESS" "md" "sg" "idle_files (k_vfs k2)" "ramfiles (vfs_fs (k_vfs k2)) = test_files"
      "k_serial k2 = put_lines [''ELF_LOAD_OK'', ''ELF_METADATA_OK'', ''ELF_SEGMENT_OK'', ''ELF_BSS_OK''] (k_serial ?k1)"
    using elf_test_load_passes [of ?k1 s1 md sg k2] k1(1,2) assms(2-4) t fo v by auto
  obtain u where "elf_negative k2 = (True, k2\<lparr>k_vfs := u\<rparr>)" using elf_negative_passes [OF g(4,5)] by blast
  then have ng: "neg" "k3 = k2\<lparr>k_vfs := u\<rparr>" using n by simp_all
  have "(ok, k') = (True, put_line ''ELF_PREP_OK'' (put_line ''ELF_NEGATIVE_OK'' k3))"
    using assms(5) fo g(1-3) ng(1) unfolding e Let_def by (simp add: line_if_def)
  then show ?thesis using ng(2) g(6) k1(3) by (simp add: put_lines_append)
qed

text \<open>The demonstration kernel, with nothing mapped at the address of the program.\<close>

definition load_demo :: "ramdisk_data kernel" where
  "load_demo = uaccess_demo\<lparr>k_mmu := space_demo 0x200000\<rparr>"

lemma load_demo_ok:
  "active_ok (k_mmu load_demo)" "active_page_directory (k_mmu load_demo) \<noteq> 0" "k_vfs load_demo = vfs_demo"
proof -
  have "space_ok (space_demo 0x200000) 0x300000" by (rule space_demo_ok) (simp add: page_base_def)
  then show "active_ok (k_mmu load_demo)" by (simp add: active_ok_def load_demo_def) (simp add: space_demo_def)
  show "active_page_directory (k_mmu load_demo) \<noteq> 0" by (simp add: load_demo_def space_demo_def)
  show "k_vfs load_demo = vfs_demo" by (simp add: load_demo_def uaccess_demo_def kernel_demo_def)
qed

lemma load_demo_mapped: "fst (map_segment_pages ELF_TEST_VADDR 64 (k_mmu load_demo)) = ELF_SUCCESS"
proof -
  have pages: "segment_pages 0x40000000 64 = [0x40000000]"
    by (simp add: segment_pages_def elf_align_down_def elf_align_up_def FRAME_SIZE_def)
  show ?thesis
    by (simp add: load_demo_def ELF_TEST_VADDR_def map_segment_pages_def pages paging_is_mapped_def mmu_alloc_def space_demo_def frame_demo_alloc
        paging_map_page_in_directory_def paging_get_current_directory_def paging_is_user_writable_def
        dir_index_def table_index_def page_base_def page_flags PAGE_SIZE_def put_word_def)
qed

theorem elf_selftest_passes_witness: "fst (elf_selftest load_demo)"
proof -
  have "vfs_root_dev (k_vfs load_demo) = Some ramdisk_dev" by (simp add: load_demo_ok vfs_demo_def)
  from elf_selftest_passes [OF this load_demo_ok(1,2) load_demo_mapped prod.collapse [symmetric]] show ?thesis ..
qed

section \<open>A program file\<close>

text \<open>C13: Loading a program from its path. A missing file is reported as missing. An empty file, one of more than 8192 bytes, and one that is not a valid
  program (wrong magic bytes, class, type, machine, version or header sizes, a bad number or table of program headers, a segment outside
  the file or the load window, misaligned, on a page of another one, more than 64 KiB in all, or an entry point outside the segments) is refused
  as invalid, and with all 16 slots of open files in use the loader reports an I/O error; in these cases memory is unchanged. A valid program is loaded:
  user memory holds exactly the program of the file (every segment's bytes, then zeroes, with the
  write permission of its header) and is unchanged elsewhere, and the entry point reported is that of the header and lies in the range
  loaded; unless a page of it was in use already, or memory is short (fewer than two frames for each page free below 4 MiB, or the failure hook of the self tests set).
  In every case all files, and the reference counts of
  all open files, are as before, and nothing but the open files and the memory has changed.\<close>

theorem elf_load_from_file:
  assumes "vfs_ok (k_vfs k)" and "vfs_mounted (k_vfs k)" and "active_ok (k_mmu k)" and "active_page_directory (k_mmu k) \<noteq> 0"
    and "is_cstring p (0x2F # n)" and "valid_name n" and "elf_load_from_vfs (Some p) True k = (st, info, k')"
  shows "files_kept k k' \<and>
    (case ramfiles (vfs_fs (k_vfs k)) n of
       None \<Rightarrow> st = ELF_ENOENT \<and> k_mmu k' = k_mmu k
     | Some bs \<Rightarrow>
         if bs = [] \<or> 8192 < length bs then st = ELF_EINVAL \<and> k_mmu k' = k_mmu k
         else if \<forall>i<16. of_used (vfs_open_files (k_vfs k) ! i) then st = ELF_EIO \<and> k_mmu k' = k_mmu k
         else if \<not> elf_valid bs then st = ELF_EINVAL \<and> k_mmu k' = k_mmu k
         else st = ELF_SUCCESS \<and> image_loaded bs (k_mmu k) (k_mmu k') \<and> li_entry info = eh_entry (header_of_bytes bs) \<and>
              li_load_start info \<le> li_entry info \<and> li_entry info < li_load_end info
           \<or> st = ELF_EINVAL \<and> (\<exists>page\<in>load_pages (program_headers bs (header_of_bytes bs)). paging_is_mapped page (k_mmu k))
           \<or> st = ELF_ENOSPC \<and> (0 \<le> frame_fail_after (mmu_frames (k_mmu k)) \<or>
               card (low_free (k_mmu k)) < 2 * card (load_pages (program_headers bs (header_of_bytes bs)))))"
  by (rule loaded_from_path [OF assms])

text \<open>On the disk of the self test the good image is loaded and the one with the wrong magic bytes refused.\<close>

theorem elf_load_from_file_witness:
  "\<exists>v. ramfiles (vfs_fs v) (str8 ''init.elf'') = Some (elf_make_image ELF_TEST_VADDR) \<and>
     (\<exists>info k'. elf_load_from_vfs (Some (cstr_at (str8 ''/init.elf''))) True (load_demo\<lparr>k_vfs := v\<rparr>) = (ELF_SUCCESS, info, k') \<and>
       image_loaded (elf_make_image ELF_TEST_VADDR) (k_mmu load_demo) (k_mmu k') \<and> li_entry info = ELF_TEST_ENTRY) \<and>
     ramfiles (vfs_fs v) (str8 ''bad.elf'') = Some elf_bad_image \<and> \<not> elf_valid elf_bad_image \<and>
     fst (elf_load_from_vfs (Some (cstr_at (str8 ''/bad.elf''))) True (load_demo\<lparr>k_vfs := v\<rparr>)) = ELF_EINVAL"
proof -
  have "vfs_root_dev vfs_demo = Some ramdisk_dev" by (simp add: vfs_demo_def)
  then obtain v where v: "idle_files v" "ramfiles (vfs_fs v) = test_files" using elf_fixtures_ok by metis
  let ?k = "load_demo\<lparr>k_vfs := v\<rparr>" and ?img = "elf_make_image ELF_TEST_VADDR" and ?p = "cstr_at (0x2F # str8 ''init.elf'')"
    and ?q = "cstr_at (0x2F # str8 ''bad.elf'')"
  have n: "valid_name (str8 ''init.elf'')" "valid_name (str8 ''bad.elf'')" using test_names_ok(1) unfolding test_names_def by auto
  then have p: "is_cstring ?p (0x2F # str8 ''init.elf'')" "is_cstring ?q (0x2F # str8 ''bad.elf'')"
    by (intro is_cstring_cstr_at; auto simp: valid_name_def)+
  have k: "vfs_ok (k_vfs ?k)" "vfs_mounted (k_vfs ?k)" "active_ok (k_mmu ?k)" "active_page_directory (k_mmu ?k) \<noteq> 0"
    using v(1) load_demo_ok(1,2) by (simp_all add: idle_files_def)
  obtain w where w: "elf_load_from_vfs (Some ?p) True ?k = (let (r, info, m) = load_bytes_of ?img (k_mmu ?k) in (r, info, ?k\<lparr>k_vfs := w, k_mmu := m\<rparr>))"
    using load_file [of ?k, OF _ n(1), of ?img] v test_files_at(1) by force
  obtain r info m where r: "load_bytes_of ?img (k_mmu ?k) = (r, info, m)" using prod_cases3 by blast
  have s: "r = ELF_SUCCESS" "info = test_info"
    using good_image_loaded [OF load_demo_ok(1,2) load_demo_mapped, of r info m] r by simp_all
  have l: "elf_load_from_vfs (Some ?p) True ?k = (ELF_SUCCESS, test_info, ?k\<lparr>k_vfs := w, k_mmu := m\<rparr>)"
    using w r s by simp
  have st: "ELF_SUCCESS \<noteq> ELF_EINVAL" "ELF_SUCCESS \<noteq> ELF_EIO" "ELF_SUCCESS \<noteq> ELF_ENOSPC"
    by (simp_all add: ELF_SUCCESS_def ELF_EINVAL_def ELF_EIO_def ELF_ENOSPC_def)
  have at: "ramfiles (vfs_fs (k_vfs ?k)) (str8 ''init.elf'') = Some ?img" "ramfiles (vfs_fs (k_vfs ?k)) (str8 ''bad.elf'') = Some elf_bad_image"
    using v(2) test_files_at(1,2) by simp_all
  have img: "image_loaded ?img (k_mmu ?k) m"
    using elf_load_from_file [OF k p(1) n(1) l] unfolding at(1) option.case using st by (auto split: if_splits)
  have bad: "\<not> elf_valid elf_bad_image"
  proof
    assume "elf_valid elf_bad_image"
    then have "take 7 elf_bad_image = [0x7F, 0x45, 0x4C, 0x46, 1, 1, 1]" and "52 \<le> length elf_bad_image" by (simp_all add: elf_valid_def)
    then have "take 7 elf_bad_image ! 1 = 0x45" and "1 < length elf_bad_image" by simp_all
    then have "elf_bad_image ! 1 = 0x45" by simp
    then show False using \<open>1 < length elf_bad_image\<close> unfolding elf_bad_image_def by (simp add: chr8_def)
  qed
  obtain e i2 k2 where e: "elf_load_from_vfs (Some ?q) True ?k = (e, i2, k2)" using prod_cases3 by blast
  have "\<not> (\<forall>i<16. of_used (vfs_open_files (k_vfs ?k) ! i))" using idle_slot [OF v(1)] by simp
  then have "e = ELF_EINVAL"
    using elf_load_from_file [OF k p(2) n(2) e] bad unfolding at(2) option.case by (auto split: if_splits)
  moreover have "li_entry test_info = ELF_TEST_ENTRY" by (simp add: test_info_def)
  ultimately show ?thesis
    unfolding test_paths using l e at img bad
    by (intro exI [of _ v] conjI exI [of _ test_info] exI [of _ "?k\<lparr>k_vfs := w, k_mmu := m\<rparr>"]) simp_all
qed

end
