(* ===== verification/Selftest_VFS.thy ===== *)
theory Selftest_VFS
  imports Selftest_Base Load_File
begin

text \<open>
  The file system tests of \<^verbatim>\<open>src/kernel/kernel.c\<close>: the block of \<^verbatim>\<open>kernel_main\<close> in the build with \<^verbatim>\<open>ENABLE_VFS_SELFTEST\<close>, and two probes
  of the attack tests, one on the namespace and one that fills the disk over and over. Each is the sequence of calls of the code, and each passes on every
  kernel with the ramdisk attached.
\<close>

section \<open>The tests\<close>

definition vfs_message :: "u8 list" where
  "vfs_message = str8 ''hello from vfs''"

text \<open>\<^verbatim>\<open>sizeof(vfs_write_buf)\<close> and the pattern in it.\<close>

definition vfs_big_len :: nat where "vfs_big_len = 512 * 2 + 37"

definition vfs_pattern :: "u8 list" where
  "vfs_pattern = map (\<lambda>i. of_nat (i * 7 + 3) AND 0xFF) [0..<vfs_big_len]"

text \<open>\<^verbatim>\<open>go ? vfs_open(path, flags) : VFS_EIO\<close>\<close>

definition open_if :: "bool \<Rightarrow> u8 list \<Rightarrow> u32 \<Rightarrow> 'd vfs \<Rightarrow> int \<times> 'd vfs" where
  "open_if go path flags v = (if go then vfs_open (Some (cstr_at path)) flags v else (VFS_EIO, v))"

definition closes :: "int \<Rightarrow> 'd vfs \<Rightarrow> bool \<times> 'd vfs" where
  "closes fd v = (if 0 \<le> fd then succeeds (vfs_close fd) v else (False, v))"

text \<open>Create, write and close; what is left open after a failure is closed. The results say whether the file was created and whether it was written.\<close>

definition write_file :: "bool \<Rightarrow> u8 list \<Rightarrow> u8 list \<Rightarrow> 'd vfs \<Rightarrow> (bool \<times> bool) \<times> 'd vfs" where
  "write_file go path buf v =
     (let (fd, v) = open_if go path (VFS_O_CREAT OR VFS_O_RDWR OR VFS_O_TRUNC) v;
          create_ok = (0 \<le> fd);
          (status, v) = (if create_ok then vfs_write fd (Some (\<lambda>i. buf ! i)) (of_nat (length buf)) v else (VFS_EIO, v));
          (write_ok, v) = (if create_ok \<and> status = int (length buf) then closes fd v else (False, v));
          v = (if \<not> write_ok \<and> create_ok then snd (vfs_close fd v) else v)
      in ((create_ok, write_ok), v))"

text \<open>\<^verbatim>\<open>fd >= 0 ? vfs_read(fd, vfs_read_buf + at, n) : VFS_EIO\<close>, with the buffer.\<close>

definition read_at :: "int \<Rightarrow> nat \<Rightarrow> nat \<Rightarrow> u8 list \<times> 'd vfs \<Rightarrow> int \<times> u8 list \<times> 'd vfs" where
  "read_at fd at n s =
     (if 0 \<le> fd then let (count, data, v) = vfs_read fd True (of_nat n) (snd s) in (count, blit (fst s) at data, v)
      else (VFS_EIO, s))"

definition vfs_read_test :: "bool \<Rightarrow> 'd vfs \<Rightarrow> bool \<times> 'd vfs" where
  "vfs_read_test write_ok v =
     (let n = length vfs_message;
          (fd, v) = open_if write_ok (str8 ''/hello.txt'') VFS_O_RDONLY v;
          (read_count, s) = read_at fd 0 n (replicate vfs_big_len 0, v);
          (eof_count, s) = read_at fd n 1 s;
          (close_ok, v) = closes fd (snd s)
      in (read_count = int n \<and> eof_count = 0 \<and> close_ok \<and> take n (fst s) = vfs_message, v))"

definition vfs_offset_test :: "bool \<Rightarrow> 'd vfs \<Rightarrow> bool \<times> 'd vfs" where
  "vfs_offset_test big_write_ok v =
     (let (fd, v) = open_if big_write_ok (str8 ''/big.bin'') VFS_O_RDONLY v;
          (first_read, s) = read_at fd 0 17 (replicate vfs_big_len 0, v);
          (second_read, s) = read_at fd 17 (vfs_big_len - 17) s;
          (big_eof, s) = read_at fd 0 1 s;
          (close_ok, v) = closes fd (snd s)
      in (first_read = 17 \<and> second_read = int (vfs_big_len - 17) \<and> big_eof = 0 \<and> close_ok \<and> take vfs_big_len (fst s) = vfs_pattern, v))"

definition vfs_stat_test :: "'d vfs \<Rightarrow> bool" where
  "vfs_stat_test v =
     (case vfs_stat (Some (cstr_at (str8 ''/big.bin''))) True v of
        (status, Some info) \<Rightarrow> status = VFS_SUCCESS \<and> fi_size info = of_nat vfs_big_len \<and> 3 \<le> fi_alloc info
      | (status, None) \<Rightarrow> False)"

definition vfs_permission_test :: "'d vfs \<Rightarrow> bool \<times> 'd vfs" where
  "vfs_permission_test v =
     (let (fd, v) = vfs_open (Some (cstr_at (str8 ''/hello.txt''))) VFS_O_RDONLY v in
      if fd < 0 then (False, v)
      else
        let (status, v) = vfs_write fd (Some (\<lambda>i. vfs_message ! i)) 1 v in
        if status \<noteq> VFS_EBADF then (False, v) else closes fd v)"

primrec open_many :: "nat \<Rightarrow> u8 list \<Rightarrow> 'd vfs \<Rightarrow> int list \<times> 'd vfs" where
  "open_many 0 path v = ([], v)"
| "open_many (Suc n) path v =
     (let (fd, v) = vfs_open (Some (cstr_at path)) VFS_O_RDONLY v; (fds, v) = open_many n path v in (fd # fds, v))"

definition close_many :: "int list \<Rightarrow> 'd vfs \<Rightarrow> 'd vfs" where
  "close_many fds v = fold (\<lambda>fd v. if 0 \<le> fd then snd (vfs_close fd v) else v) fds v"

definition vfs_emfile_test :: "'d vfs \<Rightarrow> bool \<times> 'd vfs" where
  "vfs_emfile_test v =
     (let (fds, v) = open_many VFS_MAX_OPEN_FILES (str8 ''/hello.txt'') v;
          (fd, v) = vfs_open (Some (cstr_at (str8 ''/hello.txt''))) VFS_O_RDONLY v
      in ((\<forall>fd\<in>set fds. 0 \<le> fd) \<and> fd = VFS_EMFILE, close_many fds v))"

text \<open>\<^verbatim>\<open>vfs_open(path, flags) == status\<close>\<close>

definition open_returns :: "int \<Rightarrow> u8 list \<Rightarrow> u32 \<Rightarrow> 'd vfs \<Rightarrow> bool \<times> 'd vfs" where
  "open_returns status path flags v = (let (fd, v) = vfs_open (Some (cstr_at path)) flags v in (fd = status, v))"

text \<open>The negative tests, one verdict each: permission, too many files, missing file, nested path, long name, bad flags, bad descriptor.\<close>

definition vfs_negative_tests :: "'d vfs \<Rightarrow> bool list \<times> 'd vfs" where
  "vfs_negative_tests v =
     (let (permission_ok, v) = vfs_permission_test v;
          (emfile_ok, v) = vfs_emfile_test v;
          (missing_ok, v) = open_returns VFS_ENOENT (str8 ''/missing.txt'') VFS_O_RDONLY v;
          (nested_ok, v) = open_returns VFS_EINVAL (str8 ''/nested/path.txt'') (VFS_O_CREAT OR VFS_O_RDWR) v;
          (long_name_ok, v) = open_returns VFS_EINVAL (str8 ''/abcdefghijklmnopqrstuvwxyzabcdef'') (VFS_O_CREAT OR VFS_O_RDWR) v;
          (bad_flags_ok, v) = open_returns VFS_EINVAL (str8 ''/bad.txt'') VFS_O_CREAT v;
          (status, _, v) = vfs_read (-1) True 1 v
      in ([permission_ok, emfile_ok, missing_ok, nested_ok, long_name_ok, bad_flags_ok, status = VFS_EBADF], v))"

definition vfs_negative_lines :: "string list" where
  "vfs_negative_lines = [''VFS_NEG_PERMISSION_FAIL'', ''VFS_NEG_EMFILE_FAIL'', ''VFS_NEG_MISSING_FAIL'', ''VFS_NEG_NESTED_FAIL'',
     ''VFS_NEG_LONG_NAME_FAIL'', ''VFS_NEG_BAD_FLAGS_FAIL'', ''VFS_NEG_BAD_FD_FAIL'']"

text \<open>The positive tests with their lines: whether all of them passed.\<close>

definition with_vfs :: "('d vfs \<Rightarrow> 'a \<times> 'd vfs) \<Rightarrow> 'd kernel \<Rightarrow> 'a \<times> 'd kernel" where
  "with_vfs f k = (let (r, v) = f (k_vfs k) in (r, k\<lparr>k_vfs := v\<rparr>))"

definition vfs_start_tests :: "'d block_device option \<Rightarrow> 'd kernel \<Rightarrow> bool \<times> 'd kernel" where
  "vfs_start_tests dev k =
     (let k = put_line ''VFS_TEST'' k;
          (format_ok, k) = with_vfs (\<lambda>v. and_also (succeeds (vfs_init dev) v) (succeeds vfs_format)) k;
          k = line_if format_ok ''VFS_FORMAT_OK'' k;
          (mount_ok, k) = with_vfs (\<lambda>v. and_also (format_ok, v) (succeeds vfs_mount)) k
      in (mount_ok, line_if mount_ok ''VFS_MOUNT_OK'' k))"

definition vfs_file_tests :: "bool \<Rightarrow> 'd kernel \<Rightarrow> bool \<times> 'd kernel" where
  "vfs_file_tests mount_ok k =
     (let ((create_ok, write_ok), k) = with_vfs (write_file mount_ok (str8 ''/hello.txt'') vfs_message) k;
          k = line_if write_ok ''VFS_WRITE_OK'' (line_if create_ok ''VFS_CREATE_OK'' k);
          (read_ok, k) = with_vfs (vfs_read_test write_ok) k;
          k = line_if read_ok ''VFS_READ_OK'' k;
          ((_, big_write_ok), k) = with_vfs (write_file read_ok (str8 ''/big.bin'') vfs_pattern) k;
          (offset_ok, k) = with_vfs (vfs_offset_test big_write_ok) k;
          k = line_if offset_ok ''VFS_OFFSET_OK'' k;
          stat_ok = vfs_stat_test (k_vfs k)
      in (create_ok \<and> write_ok \<and> read_ok \<and> offset_ok \<and> stat_ok, line_if stat_ok ''VFS_STAT_OK'' k))"

definition vfs_selftest :: "'d block_device option \<Rightarrow> 'd kernel \<Rightarrow> bool \<times> 'd kernel" where
  "vfs_selftest dev k =
     (let (mount_ok, k) = vfs_start_tests dev k;
          (file_ok, k) = vfs_file_tests mount_ok k;
          (oks, k) = with_vfs vfs_negative_tests k;
          k = fold (\<lambda>(ok, l). line_if (\<not> ok) l) (zip oks vfs_negative_lines) k;
          negative_ok = (\<forall>ok\<in>set oks. ok);
          k = line_if negative_ok ''VFS_NEGATIVE_OK'' k;
          ok = (mount_ok \<and> file_ok \<and> negative_ok)
      in (ok, if ok then put_line ''VFS_OK'' k else put_line ''VFS_FAIL'' k))"

section \<open>The probes of the attack tests\<close>

definition stat_returns :: "int \<Rightarrow> u8 list \<Rightarrow> 'd vfs \<Rightarrow> bool \<times> 'd vfs" where
  "stat_returns status path v = (fst (vfs_stat (Some (cstr_at path)) True v) = status, v)"

definition redteam_vfs_namespace_blocked_probe :: "'d vfs \<Rightarrow> bool \<times> 'd vfs" where
  "redteam_vfs_namespace_blocked_probe v =
     (let fl = VFS_O_CREAT OR VFS_O_RDWR;
          s = open_returns VFS_EINVAL (str8 ''relative'') fl v;
          s = and_also s (open_returns VFS_EINVAL (str8 ''/dir/file'') fl);
          s = and_also s (open_returns VFS_EINVAL (str8 ''/.'') fl);
          s = and_also s (open_returns VFS_EINVAL (str8 ''/..'') fl);
          s = and_also s (stat_returns VFS_EINVAL (str8 ''relative''))
      in and_also s (stat_returns VFS_EINVAL (str8 ''/dir/file'')))"

definition REDTEAM_DOS_WRITE_SIZE :: nat where "REDTEAM_DOS_WRITE_SIZE = 512 * 32"

definition redteam_dos_buf :: "u8 list" where
  "redteam_dos_buf = map (\<lambda>i. of_nat i AND 0xFF) [0..<REDTEAM_DOS_WRITE_SIZE]"

primrec dos_rounds :: "nat \<Rightarrow> 'd vfs \<Rightarrow> bool \<times> 'd vfs" where
  "dos_rounds 0 v = (True, v)"
| "dos_rounds (Suc n) v =
     (let (fd, v) = vfs_open (Some (cstr_at (str8 ''/red-dos''))) (VFS_O_CREAT OR VFS_O_RDWR OR VFS_O_TRUNC) v in
      if fd < 0 then (False, v)
      else
        let (status, v) = vfs_write fd (Some (\<lambda>i. redteam_dos_buf ! i)) (of_nat REDTEAM_DOS_WRITE_SIZE) v;
            v = snd (vfs_close fd v)
        in if status \<noteq> int REDTEAM_DOS_WRITE_SIZE then (False, v) else dos_rounds n v)"

definition redteam_simplefs_dos_blocked_probe :: "'d vfs \<Rightarrow> bool \<times> 'd vfs" where
  "redteam_simplefs_dos_blocked_probe v =
     (let (ok, v) = dos_rounds 256 v in
      if \<not> ok then (False, v)
      else case vfs_stat (Some (cstr_at (str8 ''/red-dos''))) True v of
        (status, Some info) \<Rightarrow> (status = VFS_SUCCESS \<and> fi_size info = of_nat REDTEAM_DOS_WRITE_SIZE \<and>
           fi_alloc info = of_nat (REDTEAM_DOS_WRITE_SIZE div 512), v)
      | (status, None) \<Rightarrow> (False, v))"

section \<open>The stages pass\<close>

lemma paths:
  "str8 ''/hello.txt'' = 0x2F # str8 ''hello.txt''" "str8 ''/big.bin'' = 0x2F # str8 ''big.bin''" "str8 ''/missing.txt'' = 0x2F # str8 ''missing.txt''"
  "str8 ''/red-dos'' = 0x2F # str8 ''red-dos''"
  by (simp_all add: chr8_def)

lemma names_ok:
  "valid_name (str8 ''hello.txt'')" "valid_name (str8 ''big.bin'')" "valid_name (str8 ''missing.txt'')" "valid_name (str8 ''red-dos'')"
  by (simp_all add: valid_name_def chr8_def)

lemma buffer_lengths: "length vfs_message = 14" "length vfs_pattern = 1061" "vfs_big_len = 1061"
  by (simp_all add: vfs_message_def vfs_pattern_def vfs_big_len_def)

lemma start_passes:
  obtains v w where "vfs_start_tests (Some ramdisk_dev) k =
      (True, put_line ''VFS_MOUNT_OK'' ((put_line ''VFS_FORMAT_OK'' ((put_line ''VFS_TEST'' k)\<lparr>k_vfs := w\<rparr>))\<lparr>k_vfs := v\<rparr>))"
    and "idle_files v" and "ramfiles (vfs_fs v) = Map.empty"
proof -
  let ?v = "vfs_clear_open_files ((k_vfs k)\<lparr>vfs_root_dev := Some ramdisk_dev, vfs_mounted := False\<rparr>)"
  have i: "vfs_init (Some ramdisk_dev) (k_vfs k) = (VFS_SUCCESS, ?v)" by (simp add: vfs_init_def ramdisk_dev_def)
  have "vfs_root_dev ?v = Some ramdisk_dev" by (simp add: vfs_clear_open_files_def)
  then obtain v where v: "and_also (succeeds vfs_format ?v) (succeeds vfs_mount) = (True, v)" "idle_files v" "ramfiles (vfs_fs v) = Map.empty"
    using format_mount by blast
  then obtain w where w: "succeeds vfs_format ?v = (True, w)" "succeeds vfs_mount w = (True, v)"
    by (cases "succeeds vfs_format ?v") (auto simp: and_also_def split: if_splits)
  have f: "and_also (succeeds (vfs_init (Some ramdisk_dev)) (k_vfs k)) (succeeds vfs_format) = (True, w)"
    using i w(1) by (simp add: and_also_def succeeds_def)
  have "with_vfs (\<lambda>v. and_also (succeeds (vfs_init (Some ramdisk_dev)) v) (succeeds vfs_format)) (put_line ''VFS_TEST'' k) =
      (True, (put_line ''VFS_TEST'' k)\<lparr>k_vfs := w\<rparr>)"
    unfolding with_vfs_def put_line_fields f by simp
  then show thesis using that [OF _ v(2,3), of w] w(2)
    unfolding vfs_start_tests_def Let_def by (simp add: with_vfs_def line_if_def and_also_def)
qed

lemma file_test_written:
  assumes "idle_files v" and "valid_name n" and "0 < length buf" "length buf \<le> 65536"
    and "small_files k u (ramfiles (vfs_fs v))" "k < 32" "5 + (u + 1) * sectors_of buf \<le> 4096"
  obtains v' where "write_file True (0x2F # n) buf v = ((True, True), v')" and "idle_files v'"
    and "ramfiles (vfs_fs v') = (ramfiles (vfs_fs v))(n \<mapsto> buf)"
proof -
  obtain fd v1 v2 v3 where "vfs_open (Some (cstr_at (0x2F # n))) (VFS_O_CREAT OR VFS_O_RDWR OR VFS_O_TRUNC) v = (fd, v1)" "0 \<le> fd"
      "vfs_write fd (Some (\<lambda>i. buf ! i)) (of_nat (length buf)) v1 = (int (length buf), v2)" "vfs_close fd v2 = (VFS_SUCCESS, v3)"
      "idle_files v3" "ramfiles (vfs_fs v3) = (ramfiles (vfs_fs v))(n \<mapsto> buf)"
    by (rule file_written [OF assms(1-4) small_files_remove [OF assms(5)] assms(6,7)])
  then show thesis using that [of v3] by (simp add: write_file_def open_if_def closes_def succeeds_def)
qed

lemma idle_opened:
  assumes "idle_files v" and "valid_name n" and "ramfiles (vfs_fs v) n = Some c"
  obtains fd v' where "vfs_open (Some (cstr_at (0x2F # n))) VFS_O_RDONLY v = (fd, v')" and "0 \<le> fd" and "vfs_ok v'" and "vfs_mounted v'"
    and "fd_at fd n 0 VFS_O_RDONLY v'" and "vfs_refs v' = (\<lambda>_. 0)(fd := 1)" and "ramfiles (vfs_fs v') = ramfiles (vfs_fs v)"
proof -
  have v: "vfs_ok v" "vfs_mounted v" "vfs_refs v = (\<lambda>_. 0)" using assms(1) by (simp_all add: idle_files_def)
  obtain fd v' where "vfs_open (Some (cstr_at (0x2F # n))) VFS_O_RDONLY v = (fd, v')" "0 \<le> fd" "vfs_ok v'" "vfs_mounted v'"
      "fd_at fd n 0 VFS_O_RDONLY v'" "vfs_refs v' = (vfs_refs v)(fd := 1)" "ramfiles (vfs_fs v') = ramfiles (vfs_fs v)"
    by (rule file_opened [OF v(1,2) assms(2,3) idle_slot [OF assms(1)]])
  then show thesis using that v(3) by simp
qed

lemma idle_closed:
  assumes "vfs_ok v" and "vfs_mounted v" and "vfs_refs v = (\<lambda>_. 0)(fd := 1)" and "0 \<le> fd"
  obtains v' where "closes fd v = (True, v')" and "vfs_close fd v = (VFS_SUCCESS, v')" and "idle_files v'" and "vfs_fs v' = vfs_fs v"
proof -
  have "0 < vfs_refs v fd" using assms(3) by simp
  then obtain v' where "vfs_close fd v = (VFS_SUCCESS, v')" "vfs_ok v'" "vfs_fs v' = vfs_fs v" "vfs_mounted v' = vfs_mounted v"
      "vfs_refs v' = (vfs_refs v)(fd := vfs_refs v fd - 1)"
    using close_counted [OF assms(1)] by blast
  then show thesis using that [of v'] assms by (simp add: closes_def succeeds_def idle_files_def fun_eq_iff)
qed

text \<open>One read into the buffer.\<close>

lemma read_at_ok:
  assumes "vfs_ok v" "vfs_mounted v" and "fd_at fd n off VFS_O_RDONLY v" and "ramfiles (vfs_fs v) n = Some c" and "m < 2 ^ 32"
  obtains v' where "read_at fd at m (buf, v) = (int (length (take m (drop off c))), blit buf at (take m (drop off c)), v')"
    and "vfs_ok v'" and "vfs_mounted v'" and "vfs_fs v' = vfs_fs v" and "fd_at fd n (off + length (take m (drop off c))) VFS_O_RDONLY v'"
    and "vfs_refs v' = vfs_refs v"
proof -
  have m: "unat (of_nat m :: u32) = m" using assms(5) by (intro unat_of_nat_small) simp
  obtain d v' where r: "vfs_read fd True (of_nat m) v = (int (length d), d, v')" "d = take (unat (of_nat m :: u32)) (drop off c)"
      "vfs_ok v'" "vfs_mounted v'" "vfs_fs v' = vfs_fs v" "fd_at fd n (off + length d) VFS_O_RDONLY v'" "vfs_refs v' = vfs_refs v"
    by (rule vfs_reading [OF assms(1-4), of "of_nat m"])
  have "0 \<le> fd" using fd_at_range [OF assms(3)] by simp
  then have "read_at fd at m (buf, v) = (int (length d), blit buf at d, v')" using r(1) by (simp add: read_at_def)
  then show thesis using r unfolding r(2) m by (intro that) assumption+
qed

lemma read_test_passes:
  assumes "idle_files v" and "ramfiles (vfs_fs v) (str8 ''hello.txt'') = Some vfs_message"
  obtains v' where "vfs_read_test True v = (True, v')" and "idle_files v'" and "ramfiles (vfs_fs v') = ramfiles (vfs_fs v)"
proof -
  obtain fd v1 where o: "vfs_open (Some (cstr_at (0x2F # str8 ''hello.txt''))) VFS_O_RDONLY v = (fd, v1)" "0 \<le> fd" "vfs_ok v1" "vfs_mounted v1"
      "fd_at fd (str8 ''hello.txt'') 0 VFS_O_RDONLY v1" "vfs_refs v1 = (\<lambda>_. 0)(fd := 1)" "ramfiles (vfs_fs v1) = ramfiles (vfs_fs v)"
    by (rule idle_opened [OF assms(1) names_ok(1) assms(2)])
  have c: "ramfiles (vfs_fs v1) (str8 ''hello.txt'') = Some vfs_message" using o(7) assms(2) by simp
  let ?B = "replicate vfs_big_len 0 :: u8 list" and ?d = "take 14 (drop 0 vfs_message)" and ?e = "take 1 (drop (0 + length (take 14 (drop 0 vfs_message))) vfs_message)"
  have d: "?d = vfs_message" "?e = []" "take 14 (blit (blit ?B 0 vfs_message) 14 []) = vfs_message"
    by (simp_all add: buffer_lengths blit_def)
  have lt: "(14 :: nat) < 2 ^ 32" "(1 :: nat) < 2 ^ 32" by simp_all
  obtain v2 where r1: "read_at fd 0 14 (?B, v1) = (int (length ?d), blit ?B 0 ?d, v2)" "vfs_ok v2" "vfs_mounted v2" "vfs_fs v2 = vfs_fs v1"
      "fd_at fd (str8 ''hello.txt'') (0 + length ?d) VFS_O_RDONLY v2" "vfs_refs v2 = vfs_refs v1"
    by (rule read_at_ok [OF o(3-5) c lt(1)])
  obtain v3 where r2: "read_at fd 14 1 (blit ?B 0 ?d, v2) = (int (length ?e), blit (blit ?B 0 ?d) 14 ?e, v3)" "vfs_ok v3" "vfs_mounted v3"
      "vfs_fs v3 = vfs_fs v2" "vfs_refs v3 = vfs_refs v2"
    by (rule read_at_ok [OF r1(2,3,5) _ lt(2)]) (simp_all only: r1(4) c)
  obtain v4 where cl: "closes fd v3 = (True, v4)" "idle_files v4" "vfs_fs v4 = vfs_fs v3"
    using idle_closed [OF r2(2,3) _ o(2)] r2(5) r1(6) o(6) by metis
  have "vfs_read_test True v = (True, v4)"
    unfolding vfs_read_test_def Let_def paths open_if_def buffer_lengths(1) if_True o(1) prod.case r1(1) r2(1) snd_conv fst_conv cl(1)
    by (simp only: d buffer_lengths(1)) (simp add: buffer_lengths blit_def)
  then show thesis using that cl(2,3) r2(4) r1(4) o(7) by simp
qed

lemma offset_test_passes:
  assumes "idle_files v" and "ramfiles (vfs_fs v) (str8 ''big.bin'') = Some vfs_pattern"
  obtains v' where "vfs_offset_test True v = (True, v')" and "idle_files v'" and "ramfiles (vfs_fs v') = ramfiles (vfs_fs v)"
proof -
  obtain fd v1 where o: "vfs_open (Some (cstr_at (0x2F # str8 ''big.bin''))) VFS_O_RDONLY v = (fd, v1)" "0 \<le> fd" "vfs_ok v1" "vfs_mounted v1"
      "fd_at fd (str8 ''big.bin'') 0 VFS_O_RDONLY v1" "vfs_refs v1 = (\<lambda>_. 0)(fd := 1)" "ramfiles (vfs_fs v1) = ramfiles (vfs_fs v)"
    by (rule idle_opened [OF assms(1) names_ok(2) assms(2)])
  have c: "ramfiles (vfs_fs v1) (str8 ''big.bin'') = Some vfs_pattern" using o(7) assms(2) by simp
  let ?B = "replicate vfs_big_len 0 :: u8 list" and ?d1 = "take 17 (drop 0 vfs_pattern)"
  let ?d2 = "take 1044 (drop (0 + length ?d1) vfs_pattern)" and ?e = "take 1 (drop (0 + length ?d1 + length (take 1044 (drop (0 + length ?d1) vfs_pattern))) vfs_pattern)"
  have d: "length ?d1 = 17" "length ?d2 = 1044" "?e = []" "take 1061 (blit (blit (blit ?B 0 ?d1) 17 ?d2) 0 []) = vfs_pattern"
    by (simp_all add: buffer_lengths blit_def)
  have lt: "(17 :: nat) < 2 ^ 32" "(1044 :: nat) < 2 ^ 32" "(1 :: nat) < 2 ^ 32" by simp_all
  obtain v2 where r1: "read_at fd 0 17 (?B, v1) = (int (length ?d1), blit ?B 0 ?d1, v2)" "vfs_ok v2" "vfs_mounted v2" "vfs_fs v2 = vfs_fs v1"
      "fd_at fd (str8 ''big.bin'') (0 + length ?d1) VFS_O_RDONLY v2" "vfs_refs v2 = vfs_refs v1"
    by (rule read_at_ok [OF o(3-5) c lt(1)])
  obtain v3 where r2: "read_at fd 17 1044 (blit ?B 0 ?d1, v2) = (int (length ?d2), blit (blit ?B 0 ?d1) 17 ?d2, v3)" "vfs_ok v3" "vfs_mounted v3"
      "vfs_fs v3 = vfs_fs v2" "fd_at fd (str8 ''big.bin'') (0 + length ?d1 + length ?d2) VFS_O_RDONLY v3" "vfs_refs v3 = vfs_refs v2"
    by (rule read_at_ok [OF r1(2,3,5) _ lt(2)]) (simp_all only: r1(4) c)
  obtain v4 where r3: "read_at fd 0 1 (blit (blit ?B 0 ?d1) 17 ?d2, v3) = (int (length ?e), blit (blit (blit ?B 0 ?d1) 17 ?d2) 0 ?e, v4)"
      "vfs_ok v4" "vfs_mounted v4" "vfs_fs v4 = vfs_fs v3" "vfs_refs v4 = vfs_refs v3"
    by (rule read_at_ok [OF r2(2,3,5) _ lt(3)]) (simp_all only: r2(4) r1(4) c)
  obtain v5 where cl: "closes fd v4 = (True, v5)" "idle_files v5" "vfs_fs v5 = vfs_fs v4"
    using idle_closed [OF r3(2,3) _ o(2)] r3(5) r2(6) r1(6) o(6) by metis
  have b: "vfs_big_len - 17 = 1044" by (simp add: vfs_big_len_def)
  have "vfs_offset_test True v = (True, v5)"
    unfolding vfs_offset_test_def Let_def paths open_if_def b if_True o(1) prod.case r1(1) r2(1) r3(1) snd_conv fst_conv cl(1)
    using d by (simp only: buffer_lengths(3) list.size of_nat_numeral of_nat_0 simp_thms) simp
  then show thesis using that cl(2,3) r3(4) r2(4) r1(4) o(7) by simp
qed

context block_dev
begin

lemma fs_stat_alloc:
  assumes inv: "fs_inv dev sectors dinv s" and path: "is_cstring p (0x2F # n)" and n: "valid_name n" and c: "files sectors s n = Some c"
  shows "\<exists>info. simplefs_stat (Some p) True s = (VFS_SUCCESS, Some info) \<and> unat (fi_size info) = length c \<and>
    unat (fi_alloc info) = (length c + 511) div 512"
proof -
  let ?D = "sectors (fs_disk s)"
  note I = fs_invD [OF inv]
  obtain i where i: "slot_of (ent ?D) n = Some i" "c = content ?D (ent ?D i)" using c by (auto simp: files_def split: if_splits)
  note f = slot_facts [OF i(1)]
  have "unat (de_alloc (ent ?D i)) = (unat (de_size (ent ?D i)) + 511) div 512" using I(8) f(1,2) by (auto simp: entry_ok_def)
  then show ?thesis
    using normalize_path_ok [OF path n] find_entry_ok [OF I(1,2,5,8) n] I(3) i
    by (auto simp: simplefs_stat_def vfs_errors info_of_def content_def)
qed

end

lemma file_stat:
  assumes "idle_files v" and "valid_name n" and "ramfiles (vfs_fs v) n = Some c"
  obtains info where "vfs_stat (Some (cstr_at (0x2F # n))) True v = (VFS_SUCCESS, Some info)" and "fi_size info = of_nat (length c)"
    and "fi_alloc info = of_nat (sectors_of c)"
proof -
  have v: "ramfs_inv (vfs_fs v)" "vfs_mounted v" using assms(1) by (simp_all add: idle_files_def vfs_ok_def)
  obtain info where "simplefs_stat (Some (cstr_at (0x2F # n))) True (vfs_fs v) = (VFS_SUCCESS, Some info)" "unat (fi_size info) = length c"
      "unat (fi_alloc info) = sectors_of c"
    using rdisk.fs_stat_alloc [OF v(1) name_cstring [OF assms(2)] assms(2,3)] by (auto simp: sectors_of_def)
  moreover have "fi_size info = of_nat (unat (fi_size info))" "fi_alloc info = of_nat (unat (fi_alloc info))" by simp_all
  ultimately show thesis using that [of info] v(2) by (metis vfs_stat_def)
qed

lemma stat_test_passes:
  assumes "idle_files v" and "ramfiles (vfs_fs v) (str8 ''big.bin'') = Some vfs_pattern"
  shows "vfs_stat_test v"
proof -
  obtain info where "vfs_stat (Some (cstr_at (0x2F # str8 ''big.bin''))) True v = (VFS_SUCCESS, Some info)" "fi_size info = of_nat (length vfs_pattern)"
      "fi_alloc info = of_nat (sectors_of vfs_pattern)"
    by (rule file_stat [OF assms(1) names_ok(2) assms(2)])
  then show ?thesis unfolding vfs_stat_test_def paths by (simp add: buffer_lengths sectors_of_def)
qed

lemma permission_test_passes:
  assumes "idle_files v" and "ramfiles (vfs_fs v) (str8 ''hello.txt'') = Some vfs_message"
  obtains v' where "vfs_permission_test v = (True, v')" and "idle_files v'" and "ramfiles (vfs_fs v') = ramfiles (vfs_fs v)"
proof -
  obtain fd v1 where o: "vfs_open (Some (cstr_at (0x2F # str8 ''hello.txt''))) VFS_O_RDONLY v = (fd, v1)" "0 \<le> fd" "vfs_ok v1" "vfs_mounted v1"
      "fd_at fd (str8 ''hello.txt'') 0 VFS_O_RDONLY v1" "vfs_refs v1 = (\<lambda>_. 0)(fd := 1)" "ramfiles (vfs_fs v1) = ramfiles (vfs_fs v)"
    by (rule idle_opened [OF assms(1) names_ok(1) assms(2)])
  have w: "vfs_write fd (Some (\<lambda>i. vfs_message ! i)) 1 v1 = (VFS_EBADF, v1)"
    using o(5) rdonly_flags(3) by (simp add: vfs_write_def fd_at_def Let_def)
  obtain v2 where cl: "closes fd v1 = (True, v2)" "idle_files v2" "vfs_fs v2 = vfs_fs v1"
    by (rule idle_closed [OF o(3,4,6,2)])
  have "vfs_permission_test v = (True, v2)"
    unfolding vfs_permission_test_def paths o(1) Let_def prod.case w using o(2) cl(1) by simp
  then show thesis using that cl(2,3) o(7) by simp
qed

text \<open>The open descriptors are the first ones.\<close>

definition first_refs :: "nat \<Rightarrow> nat \<Rightarrow> int \<Rightarrow> nat" where
  "first_refs i j fd = (if int i \<le> fd \<and> fd < int j then 1 else 0)"

lemma open_many_passes:
  assumes "vfs_ok v" and "vfs_mounted v" and "valid_name n" and "ramfiles (vfs_fs v) n = Some c"
    and "vfs_refs v = first_refs 0 i" and "i + m \<le> 16"
  shows "\<exists>v'. open_many m (0x2F # n) v = (map int [i..<i + m], v') \<and> vfs_ok v' \<and> vfs_mounted v' \<and>
    vfs_refs v' = first_refs 0 (i + m) \<and> ramfiles (vfs_fs v') = ramfiles (vfs_fs v)"
  using assms
proof (induction m arbitrary: i v)
  case 0
  then show ?case by simp
next
  case (Suc m)
  have t: "vfs_table_ok v" using Suc.prems(1) by (simp add: vfs_ok_def)
  have used: "of_used (vfs_open_files v ! j) \<longleftrightarrow> j < i" if "j < 16" for j
    using used_refs [OF t that] Suc.prems(5) by (simp add: first_refs_def)
  have free: "\<not> (\<forall>j < 16. of_used (vfs_open_files v ! j))" using used [of i] Suc.prems(6) by (auto intro!: exI [of _ i])
  obtain fd v1 where o: "vfs_open (Some (cstr_at (0x2F # n))) VFS_O_RDONLY v = (fd, v1)" "0 \<le> fd"
      "\<not> of_used (vfs_open_files v ! nat fd)" "\<forall>j < nat fd. of_used (vfs_open_files v ! j)" "vfs_ok v1" "vfs_mounted v1"
      "fd_at fd n 0 VFS_O_RDONLY v1" "vfs_refs v1 = (vfs_refs v)(fd := 1)" "ramfiles (vfs_fs v1) = ramfiles (vfs_fs v)"
    by (rule file_opened [OF Suc.prems(1-4) free])
  have "nat fd < 16" using fd_at_range [OF o(7)] by (simp add: nat_less_iff)
  then have "nat fd = i"
    using used [of "nat fd"] used [of i] o(3,4) Suc.prems(6) by (cases "i < nat fd") auto
  then have fd: "fd = int i" using o(2) by simp
  have "vfs_refs v1 = first_refs 0 (Suc i)" using o(8) Suc.prems(5) fd by (auto simp: first_refs_def fun_eq_iff)
  then obtain v' where "open_many m (0x2F # n) v1 = (map int [Suc i..<Suc i + m], v')" "vfs_ok v'" "vfs_mounted v'"
      "vfs_refs v' = first_refs 0 (Suc i + m)" "ramfiles (vfs_fs v') = ramfiles (vfs_fs v1)"
    using Suc.IH [of v1 "Suc i"] Suc.prems o by auto
  moreover have "[i..<i + Suc m] = i # [Suc i..<Suc i + m]" by (simp add: upt_conv_Cons del: upt_Suc)
  ultimately show ?case using o(1,9) fd by (auto simp del: upt_Suc)
qed

lemma close_many_passes:
  assumes "vfs_ok v" and "vfs_mounted v" and "vfs_refs v = first_refs i 16" and "i \<le> 16"
  shows "idle_files (close_many (map int [i..<16]) v) \<and> vfs_fs (close_many (map int [i..<16]) v) = vfs_fs v"
  using assms
proof (induction "16 - i" arbitrary: i v)
  case 0
  then show ?case by (simp add: close_many_def idle_files_def first_refs_def fun_eq_iff)
next
  case (Suc m)
  then have i: "i < 16" by simp
  have "0 < vfs_refs v (int i)" using Suc.prems(3) i by (simp add: first_refs_def)
  then obtain v1 where v1: "vfs_close (int i) v = (VFS_SUCCESS, v1)" "vfs_ok v1" "vfs_fs v1 = vfs_fs v" "vfs_mounted v1 = vfs_mounted v"
      "vfs_refs v1 = (vfs_refs v)(int i := vfs_refs v (int i) - 1)"
    using close_counted [OF Suc.prems(1)] by blast
  have "vfs_refs v1 = first_refs (Suc i) 16" using v1(5) Suc.prems(3) by (auto simp: first_refs_def fun_eq_iff)
  then have "idle_files (close_many (map int [Suc i..<16]) v1) \<and> vfs_fs (close_many (map int [Suc i..<16]) v1) = vfs_fs v1"
    using Suc.hyps v1 Suc.prems i by (intro Suc.hyps(1)) auto
  moreover have "[i..<16] = i # [Suc i..<16]" using i by (rule upt_conv_Cons)
  ultimately show ?case using v1(1,3) by (simp add: close_many_def)
qed

lemma emfile_test_passes:
  assumes "idle_files v" and "ramfiles (vfs_fs v) (str8 ''hello.txt'') = Some vfs_message"
  obtains v' where "vfs_emfile_test v = (True, v')" and "idle_files v'" and "ramfiles (vfs_fs v') = ramfiles (vfs_fs v)"
proof -
  have v: "vfs_ok v" "vfs_mounted v" "vfs_refs v = first_refs 0 0"
    using assms(1) by (simp_all add: idle_files_def first_refs_def fun_eq_iff)
  obtain v1 where v1: "open_many 16 (0x2F # str8 ''hello.txt'') v = (map int [0..<16], v1)" "vfs_ok v1" "vfs_mounted v1"
      "vfs_refs v1 = first_refs 0 16" "ramfiles (vfs_fs v1) = ramfiles (vfs_fs v)"
    using open_many_passes [OF v(1,2) names_ok(1) assms(2) v(3), of 16] by (simp only: add_0 order_refl) blast
  have "vfs_table_ok v1" using v1(2) by (simp add: vfs_ok_def)
  then have "\<forall>i < 16. of_used (vfs_open_files v1 ! i)" using used_refs [of v1] v1(4) by (simp add: first_refs_def)
  moreover obtain fd w where o: "vfs_open (Some (cstr_at (0x2F # str8 ''hello.txt''))) VFS_O_RDONLY v1 = (fd, w)" by force
  ultimately have "fd = VFS_EMFILE \<and> w = v1"
    using vfs_open_ok [OF v1(2,3) rdonly_flags(1) name_cstring [OF names_ok(1)] names_ok(1) o] by (simp only: if_P)
  then have f: "vfs_open (Some (cstr_at (0x2F # str8 ''hello.txt''))) VFS_O_RDONLY v1 = (VFS_EMFILE, v1)" using o by simp
  have "vfs_emfile_test v = ((\<forall>fd\<in>set (map int [0..<16]). 0 \<le> fd) \<and> VFS_EMFILE = VFS_EMFILE, close_many (map int [0..<16]) v1)"
    unfolding vfs_emfile_test_def VFS_MAX_OPEN_FILES_def paths v1(1) Let_def prod.case f ..
  then show thesis using that close_many_passes [OF v1(2,3,4)] v1(5) by simp
qed

lemma create_flags: "vfs_flags_valid (VFS_O_CREAT OR VFS_O_RDWR)" "\<not> vfs_flags_valid VFS_O_CREAT"
  by (simp_all add: vfs_flags_valid_def Let_def VFS_O_RDONLY_def VFS_O_WRONLY_def VFS_O_RDWR_def VFS_O_CREAT_def VFS_O_TRUNC_def)

definition bad_path :: "u8 list \<Rightarrow> bool" where
  "bad_path p \<longleftrightarrow> 0 \<notin> set p \<and> length p \<le> 63 \<and> (case p of [] \<Rightarrow> True | c # n \<Rightarrow> c \<noteq> 0x2F \<or> \<not> valid_name n)"

lemma bad_paths:
  "bad_path (str8 ''/nested/path.txt'')" "bad_path (str8 ''/abcdefghijklmnopqrstuvwxyzabcdef'')" "bad_path (str8 ''relative'')"
  "bad_path (str8 ''/dir/file'')" "bad_path (str8 ''/.'')" "bad_path (str8 ''/..'')"
  by (simp_all add: bad_path_def valid_name_def chr8_def)

lemma refused_path:
  assumes "idle_files v" and "bad_path p"
  shows "open_returns VFS_EINVAL p (VFS_O_CREAT OR VFS_O_RDWR) v = (True, v)"
proof -
  have v: "vfs_mounted v" "fs_mounted (vfs_fs v)" using assms(1) rdisk.fs_invD(3) [of "vfs_fs v"] by (simp_all add: idle_files_def vfs_ok_def)
  have "0 \<notin> set p" "length p \<le> 63" "\<not> (\<exists>n. p = 0x2F # n \<and> valid_name n)" using assms(2) by (auto simp: bad_path_def)
  from open_refused [OF v(1) create_flags(1) idle_slot [OF assms(1)] v(2) this] show ?thesis by (simp add: open_returns_def)
qed

lemma negative_tests_pass:
  assumes "idle_files v" and "ramfiles (vfs_fs v) (str8 ''hello.txt'') = Some vfs_message" and "ramfiles (vfs_fs v) (str8 ''missing.txt'') = None"
  obtains v' where "vfs_negative_tests v = ([True, True, True, True, True, True, True], v')"
proof -
  obtain v1 where v1: "vfs_permission_test v = (True, v1)" "idle_files v1" "ramfiles (vfs_fs v1) = ramfiles (vfs_fs v)"
    using permission_test_passes [OF assms(1,2)] .
  obtain v2 where v2: "vfs_emfile_test v1 = (True, v2)" "idle_files v2" "ramfiles (vfs_fs v2) = ramfiles (vfs_fs v1)"
    by (rule emfile_test_passes [OF v1(2)]) (simp_all only: v1(3) assms(2))
  have ok2: "vfs_ok v2" "vfs_mounted v2" using v2(2) by (simp_all add: idle_files_def)
  obtain fd w where o: "vfs_open (Some (cstr_at (0x2F # str8 ''missing.txt''))) VFS_O_RDONLY v2 = (fd, w)" by force
  have none: "ramfiles (vfs_fs v2) (str8 ''missing.txt'') = None \<and> VFS_O_RDONLY AND VFS_O_CREAT = 0"
    using v1(3) v2(3) assms(3) rdonly_flags(4) by simp
  note vfs_open_ok [OF ok2 rdonly_flags(1) name_cstring [OF names_ok(3)] names_ok(3) o, unfolded if_not_P [OF idle_slot [OF v2(2)]] if_P [OF none]]
  then have missing: "open_returns VFS_ENOENT (0x2F # str8 ''missing.txt'') VFS_O_RDONLY v2 = (True, v2)"
    unfolding open_returns_def o Let_def prod.case by blast
  have nested: "open_returns VFS_EINVAL (str8 ''/nested/path.txt'') (VFS_O_CREAT OR VFS_O_RDWR) v2 = (True, v2)"
      "open_returns VFS_EINVAL (str8 ''/abcdefghijklmnopqrstuvwxyzabcdef'') (VFS_O_CREAT OR VFS_O_RDWR) v2 = (True, v2)"
    by (rule refused_path [OF v2(2) bad_paths(1)], rule refused_path [OF v2(2) bad_paths(2)])
  have flags: "open_returns VFS_EINVAL (str8 ''/bad.txt'') VFS_O_CREAT v2 = (True, v2)"
    using ok2(2) create_flags(2) by (simp add: open_returns_def vfs_open_def)
  have fd: "vfs_read (-1) True 1 v2 = (VFS_EBADF, [], v2)" by (simp add: vfs_read_def vfs_fd_valid_def)
  have "vfs_negative_tests v = ([True, True, True, True, True, True, VFS_EBADF = VFS_EBADF], v2)"
    unfolding vfs_negative_tests_def Let_def v1(1) prod.case v2(1) paths missing nested flags fd ..
  then show thesis using that by simp
qed

section \<open>The verdict\<close>

lemma file_tests_pass:
  assumes "idle_files (k_vfs k)" and "ramfiles (vfs_fs (k_vfs k)) = Map.empty"
  obtains k' where "vfs_file_tests True k = (True, k')" and "idle_files (k_vfs k')"
    and "ramfiles (vfs_fs (k_vfs k')) = [str8 ''hello.txt'' \<mapsto> vfs_message, str8 ''big.bin'' \<mapsto> vfs_pattern]"
    and "k_serial k' = put_lines [''VFS_CREATE_OK'', ''VFS_WRITE_OK'', ''VFS_READ_OK'', ''VFS_OFFSET_OK'', ''VFS_STAT_OK''] (k_serial k)"
proof -
  let ?F = "[str8 ''hello.txt'' \<mapsto> vfs_message]" and ?F2 = "[str8 ''hello.txt'' \<mapsto> vfs_message, str8 ''big.bin'' \<mapsto> vfs_pattern]"
  have sec: "sectors_of vfs_message = 1" "sectors_of vfs_pattern = 3" by (simp_all add: sectors_of_def buffer_lengths)
  have s0: "small_files 0 0 (ramfiles (vfs_fs (k_vfs k)))" unfolding assms(2) by (rule small_files_empty)
  have "0 < length vfs_message" "length vfs_message \<le> 65536" by (simp_all add: buffer_lengths)
  then obtain v1 where v1: "write_file True (0x2F # str8 ''hello.txt'') vfs_message (k_vfs k) = ((True, True), v1)" "idle_files v1"
      "ramfiles (vfs_fs v1) = (ramfiles (vfs_fs (k_vfs k)))(str8 ''hello.txt'' \<mapsto> vfs_message)"
    by (rule file_test_written [OF assms(1) names_ok(1) _ _ s0]) (simp_all add: sec)
  have f1: "ramfiles (vfs_fs v1) = ?F" using v1(3) assms(2) by simp
  obtain v2 where v2: "vfs_read_test True v1 = (True, v2)" "idle_files v2" "ramfiles (vfs_fs v2) = ramfiles (vfs_fs v1)"
    by (rule read_test_passes [OF v1(2)]) (simp_all add: f1)
  have s1: "small_files 1 1 (ramfiles (vfs_fs v2))"
    using small_files_upd(1) [OF small_files_empty, of vfs_message "str8 ''hello.txt''"] unfolding v2(3) f1 sec by simp
  have "0 < length vfs_pattern" "length vfs_pattern \<le> 65536" by (simp_all add: buffer_lengths)
  then obtain v3 where v3: "write_file True (0x2F # str8 ''big.bin'') vfs_pattern v2 = ((True, True), v3)" "idle_files v3"
      "ramfiles (vfs_fs v3) = (ramfiles (vfs_fs v2))(str8 ''big.bin'' \<mapsto> vfs_pattern)"
    by (rule file_test_written [OF v2(2) names_ok(2) _ _ s1]) (simp_all add: sec)
  have f3: "ramfiles (vfs_fs v3) = ?F2" using v3(3) v2(3) f1 by simp
  obtain v4 where v4: "vfs_offset_test True v3 = (True, v4)" "idle_files v4" "ramfiles (vfs_fs v4) = ramfiles (vfs_fs v3)"
    by (rule offset_test_passes [OF v3(2)]) (simp_all add: f3)
  have st: "vfs_stat_test v4" by (rule stat_test_passes [OF v4(2)]) (simp add: v4(3) f3)
  let ?k1 = "put_line ''VFS_WRITE_OK'' (put_line ''VFS_CREATE_OK'' (k\<lparr>k_vfs := v1\<rparr>))"
  let ?k2 = "put_line ''VFS_READ_OK'' (?k1\<lparr>k_vfs := v2\<rparr>)"
  let ?k4 = "put_line ''VFS_OFFSET_OK'' ((?k2\<lparr>k_vfs := v3\<rparr>)\<lparr>k_vfs := v4\<rparr>)"
  have w: "with_vfs (write_file True (str8 ''/hello.txt'') vfs_message) k = ((True, True), k\<lparr>k_vfs := v1\<rparr>)"
      "with_vfs (vfs_read_test True) ?k1 = (True, ?k1\<lparr>k_vfs := v2\<rparr>)"
      "with_vfs (write_file True (str8 ''/big.bin'') vfs_pattern) ?k2 = ((True, True), ?k2\<lparr>k_vfs := v3\<rparr>)"
      "with_vfs (vfs_offset_test True) (?k2\<lparr>k_vfs := v3\<rparr>) = (True, (?k2\<lparr>k_vfs := v3\<rparr>)\<lparr>k_vfs := v4\<rparr>)"
      "vfs_stat_test (k_vfs ?k4)"
    unfolding with_vfs_def paths put_line_fields using v1(1) v2(1) v3(1) v4(1) st by simp_all
  have "vfs_file_tests True k = (True, put_line ''VFS_STAT_OK'' ?k4)"
    unfolding vfs_file_tests_def Let_def w(1) prod.case line_if_def if_True w(2-4)
    by (simp only: w(5) if_True simp_thms)
  then show thesis using that [of "put_line ''VFS_STAT_OK'' ?k4"] v4 f3 by (simp add: put_lines_append)
qed

lemma no_negative_lines: "fold (\<lambda>(ok, l). line_if (\<not> ok) l) (zip [True, True, True, True, True, True, True] vfs_negative_lines) k = k"
  by (simp add: vfs_negative_lines_def line_if_def)

text \<open>C15: The file system test passes on every kernel with the ramdisk: it prints its eight success lines and no failure line. What it writes to a
  fresh disk it reads back, in one read, in several, and up to the end of the file; the size and the sectors reported are those of the
  bytes written; a descriptor opened for reading cannot write; with sixteen files open a further open fails, and
  all can be closed; a missing file, a nested path, a name of 32 characters, invalid flags and a negative descriptor are refused with
  the error code of each.\<close>

theorem vfs_selftest_passes:
  "\<exists>k'. vfs_selftest (Some ramdisk_dev) k = (True, k') \<and>
     k_serial k' = put_lines [''VFS_TEST'', ''VFS_FORMAT_OK'', ''VFS_MOUNT_OK'', ''VFS_CREATE_OK'', ''VFS_WRITE_OK'', ''VFS_READ_OK'', ''VFS_OFFSET_OK'',
       ''VFS_STAT_OK'', ''VFS_NEGATIVE_OK'', ''VFS_OK''] (k_serial k)"
proof -
  obtain v w where start: "vfs_start_tests (Some ramdisk_dev) k =
      (True, put_line ''VFS_MOUNT_OK'' ((put_line ''VFS_FORMAT_OK'' ((put_line ''VFS_TEST'' k)\<lparr>k_vfs := w\<rparr>))\<lparr>k_vfs := v\<rparr>))"
      "idle_files v" "ramfiles (vfs_fs v) = Map.empty"
    by (rule start_passes)
  define k1 where "k1 = put_line ''VFS_MOUNT_OK'' ((put_line ''VFS_FORMAT_OK'' ((put_line ''VFS_TEST'' k)\<lparr>k_vfs := w\<rparr>))\<lparr>k_vfs := v\<rparr>)"
  have k1: "idle_files (k_vfs k1)" "ramfiles (vfs_fs (k_vfs k1)) = Map.empty"
      "k_serial k1 = put_lines [''VFS_TEST'', ''VFS_FORMAT_OK'', ''VFS_MOUNT_OK''] (k_serial k)"
    using start(2,3) by (simp_all add: k1_def put_lines_append)
  obtain k2 where k2: "vfs_file_tests True k1 = (True, k2)" "idle_files (k_vfs k2)"
      "ramfiles (vfs_fs (k_vfs k2)) = [str8 ''hello.txt'' \<mapsto> vfs_message, str8 ''big.bin'' \<mapsto> vfs_pattern]"
      "k_serial k2 = put_lines [''VFS_CREATE_OK'', ''VFS_WRITE_OK'', ''VFS_READ_OK'', ''VFS_OFFSET_OK'', ''VFS_STAT_OK''] (k_serial k1)"
    by (rule file_tests_pass [OF k1(1,2)])
  obtain u where "vfs_negative_tests (k_vfs k2) = ([True, True, True, True, True, True, True], u)"
    by (rule negative_tests_pass [OF k2(2)]) (simp_all add: k2(3) chr8_def)
  then have n: "with_vfs vfs_negative_tests k2 = ([True, True, True, True, True, True, True], k2\<lparr>k_vfs := u\<rparr>)"
    by (simp add: with_vfs_def)
  have "vfs_selftest (Some ramdisk_dev) k = (True, put_line ''VFS_OK'' (put_line ''VFS_NEGATIVE_OK'' (k2\<lparr>k_vfs := u\<rparr>)))"
    unfolding vfs_selftest_def start(1) k1_def [symmetric] Let_def prod.case k2(1) n no_negative_lines by (simp add: line_if_def)
  then show ?thesis using k2(4) k1(3) by (simp add: put_lines_append)
qed

text \<open>The probes: no path outside the flat namespace is accepted, and a file can be rewritten for ever without using up the disk.\<close>

lemma stat_refused:
  assumes "idle_files v" and "bad_path p"
  shows "stat_returns VFS_EINVAL p v = (True, v)"
proof -
  have v: "vfs_mounted v" "fs_mounted (vfs_fs v)" using assms(1) rdisk.fs_invD(3) [of "vfs_fs v"] by (simp_all add: idle_files_def vfs_ok_def)
  obtain st m where nm: "simplefs_normalize_path (Some (cstr_at p)) = (st, m)" by force
  have cs: "is_cstring (cstr_at p) p" using assms(2) by (intro is_cstring_cstr_at) (simp add: bad_path_def)
  have "\<not> (\<exists>m. is_cstring (cstr_at p) (0x2F # m) \<and> valid_name m)"
  proof
    assume "\<exists>m. is_cstring (cstr_at p) (0x2F # m) \<and> valid_name m"
    then obtain m where m: "is_cstring (cstr_at p) (0x2F # m)" "valid_name m" by blast
    have "p = 0x2F # m" using is_cstring_unique [OF cs m(1)] .
    then show False using m(2) assms(2) by (simp add: bad_path_def)
  qed
  then have "st = VFS_EINVAL" using simplefs_normalize_path_spec [OF nm] by blast
  then show ?thesis using nm v by (simp add: stat_returns_def vfs_stat_def simplefs_stat_def vfs_errors)
qed

lemma namespace_probe_passes: "idle_files v \<Longrightarrow> redteam_vfs_namespace_blocked_probe v = (True, v)"
  unfolding redteam_vfs_namespace_blocked_probe_def Let_def
  by (simp only: refused_path [OF _ bad_paths(3)] refused_path [OF _ bad_paths(4)] refused_path [OF _ bad_paths(5)]
      refused_path [OF _ bad_paths(6)] stat_refused [OF _ bad_paths(3)] stat_refused [OF _ bad_paths(4)] and_also_def fst_conv snd_conv if_True)

lemma dos_lengths: "length redteam_dos_buf = 16384" "REDTEAM_DOS_WRITE_SIZE = 16384" "sectors_of redteam_dos_buf = 32"
proof -
  show s: "REDTEAM_DOS_WRITE_SIZE = 16384" by (simp add: REDTEAM_DOS_WRITE_SIZE_def)
  show "length redteam_dos_buf = 16384" by (simp add: redteam_dos_buf_def s)
  then show "sectors_of redteam_dos_buf = 32" by (simp add: sectors_of_def)
qed

lemma dos_rounds_pass:
  assumes "idle_files v" and "small_files k u ((ramfiles (vfs_fs v))(str8 ''red-dos'' := None))" and "k < 32" and "u \<le> 126"
  shows "\<exists>v'. dos_rounds m v = (True, v') \<and> idle_files v' \<and>
    ramfiles (vfs_fs v') = (if m = 0 then ramfiles (vfs_fs v) else (ramfiles (vfs_fs v))(str8 ''red-dos'' \<mapsto> redteam_dos_buf))"
  using assms(1,2)
proof (induction m arbitrary: v)
  case 0
  then show ?case by simp
next
  case (Suc m)
  let ?n = "str8 ''red-dos''"
  have l: "0 < length redteam_dos_buf" "length redteam_dos_buf \<le> 65536" "5 + (u + 1) * sectors_of redteam_dos_buf \<le> 4096"
    using assms(4) by (simp_all add: dos_lengths)
  obtain fd v1 v2 v3 where w: "vfs_open (Some (cstr_at (0x2F # ?n))) (VFS_O_CREAT OR VFS_O_RDWR OR VFS_O_TRUNC) v = (fd, v1)" "0 \<le> fd"
      "vfs_write fd (Some (\<lambda>i. redteam_dos_buf ! i)) (of_nat (length redteam_dos_buf)) v1 = (int (length redteam_dos_buf), v2)"
      "vfs_close fd v2 = (VFS_SUCCESS, v3)" "idle_files v3" "ramfiles (vfs_fs v3) = (ramfiles (vfs_fs v))(?n \<mapsto> redteam_dos_buf)"
    by (rule file_written [OF Suc.prems(1) names_ok(4) l(1,2) Suc.prems(2) assms(3) l(3)])
  have "small_files k u ((ramfiles (vfs_fs v3))(?n := None))" using Suc.prems(2) by (simp only: w(6) fun_upd_upd)
  then obtain v' where v': "dos_rounds m v3 = (True, v')" "idle_files v'"
      "ramfiles (vfs_fs v') = (if m = 0 then ramfiles (vfs_fs v3) else (ramfiles (vfs_fs v3))(?n \<mapsto> redteam_dos_buf))"
    using Suc.IH [OF w(5)] by blast
  have "dos_rounds (Suc m) v = (True, v')"
    using w(2-4) v'(1) unfolding dos_rounds.simps Let_def paths w(1) dos_lengths by simp
  moreover have "ramfiles (vfs_fs v') = (ramfiles (vfs_fs v))(?n \<mapsto> redteam_dos_buf)"
    unfolding v'(3) w(6) by (simp only: fun_upd_upd if_cancel)
  ultimately show ?case using v'(2) by (simp only: nat.distinct if_False) blast
qed

lemma dos_probe_passes:
  assumes "idle_files v" and "small_files k u ((ramfiles (vfs_fs v))(str8 ''red-dos'' := None))" and "k < 32" and "u \<le> 126"
  shows "fst (redteam_simplefs_dos_blocked_probe v)"
proof -
  obtain v' where v': "dos_rounds 256 v = (True, v')" "idle_files v'" "ramfiles (vfs_fs v') = (ramfiles (vfs_fs v))(str8 ''red-dos'' \<mapsto> redteam_dos_buf)"
    using dos_rounds_pass [OF assms, of 256] by auto
  have "ramfiles (vfs_fs v') (str8 ''red-dos'') = Some redteam_dos_buf" unfolding v'(3) by simp
  then obtain info where i: "vfs_stat (Some (cstr_at (0x2F # str8 ''red-dos''))) True v' = (VFS_SUCCESS, Some info)"
      "fi_size info = of_nat (length redteam_dos_buf)" "fi_alloc info = of_nat (sectors_of redteam_dos_buf)"
    by (rule file_stat [OF v'(2) names_ok(4)])
  show ?thesis unfolding redteam_simplefs_dos_blocked_probe_def v'(1) Let_def prod.case paths i(1) using i(2,3) by (simp add: dos_lengths)
qed

end
