(* ===== verification/Selftest_Memory.thy ===== *)
theory Selftest_Memory
  imports Selftest_Base Elf
begin

text \<open>
  The self tests of \<^verbatim>\<open>kernel_main\<close> in \<^verbatim>\<open>src/kernel/kernel.c\<close> that exercise the memory map, the frame allocator, the ramdisk and the
  kernel heap, and the block that checks that a default build has no test calls. On a well-formed allocator the frame test passes and leaves no trace; the ramdisk
  test passes on every disk, and the last one in every build without test markers. The heap test is modelled without a verdict.
\<close>

section \<open>Memory size and memory map\<close>

definition put_log :: "(serial_log \<Rightarrow> serial_log) \<Rightarrow> 'd kernel \<Rightarrow> 'd kernel" where
  "put_log f k = k\<lparr>k_serial := f (k_serial k)\<rparr>"

definition memory_selftest :: "mem_info \<Rightarrow> 'd kernel \<Rightarrow> 'd kernel" where
  "memory_selftest mi k =
     (let total_kb = total_memory_kb mi;
          k = put_log (serial_puts (str8 ''MEMORY_TOTAL_KB:'')) (put_line ''MEMORY_TEST'' k);
          k = put_log (serial_puts [0x0A]) (put_log (serial_put_uint32 total_kb) k)
      in if detected_from_hardware mi \<and> 16 * 1024 \<le> total_kb then put_line ''MEMORY_DETECT_OK'' k
         else put_line ''MEMORY_DETECT_FAIL'' k)"

section \<open>Frames\<close>

text \<open>The verdicts of the allocation, of the release and of the reuse of a frame.\<close>

definition frame_alloc_test :: "frame_state \<Rightarrow> bool \<times> bool \<times> bool \<times> frame_state" where
  "frame_alloc_test s =
     (let free_before = frame_get_free_count s;
          (frame1, s) = frame_alloc s;
          (frame2, s) = frame_alloc s;
          alloc_ok = (frame1 \<noteq> 0 \<and> frame2 \<noteq> 0 \<and> frame1 \<noteq> frame2 \<and> frame_is_allocated frame1 s \<and> frame_is_allocated frame2 s \<and>
                      frame_get_free_count s + 2 = free_before);
          s = frame_free frame1 s;
          free_ok = (frame_get_free_count s + 1 = free_before);
          (frame3, s) = frame_alloc s;
          reuse_ok = (frame3 = frame1)
      in (alloc_ok, free_ok, reuse_ok, frame_free frame3 (frame_free frame2 s)))"

text \<open>\<^verbatim>\<open>while (low_count < 320)\<close>, with \<open>n\<close> rounds left.\<close>

primrec take_low :: "nat \<Rightarrow> u32 list \<Rightarrow> frame_state \<Rightarrow> u32 list \<times> frame_state" where
  "take_low 0 low_frames s = (low_frames, s)"
| "take_low (Suc n) low_frames s =
     (let (frame, s) = frame_alloc_below 0x00400000 s in
      if frame = 0 then (low_frames, s) else take_low n (low_frames @ [frame]) s)"

definition frame_exhaust_test :: "frame_state \<Rightarrow> bool \<times> frame_state" where
  "frame_exhaust_test s =
     (let (low_frames, s) = take_low 320 [] s;
          (ok, s) = (if 32 < length low_frames then (let (frame, s) = frame_alloc_below 0x00400000 s in (frame = 0, s)) else (False, s))
      in (ok, fold frame_free (rev low_frames) s))"

definition with_frames :: "(frame_state \<Rightarrow> 'a \<times> frame_state) \<Rightarrow> 'd kernel \<Rightarrow> 'a \<times> 'd kernel" where
  "with_frames f k = (let (r, s) = f (mmu_frames (k_mmu k)) in (r, k\<lparr>k_mmu := (k_mmu k)\<lparr>mmu_frames := s\<rparr>\<rparr>))"

definition e820_selftest :: "e820_state \<Rightarrow> 'd kernel \<Rightarrow> bool \<times> 'd kernel" where
  "e820_selftest e k =
     (let k = put_log (e820_print_map e) (put_line ''E820_TEST'' k);
          detected = (0 < map_count e);
          k = put_line (if detected then ''E820_DETECT_OK'' else ''E820_DETECT_FAIL'') k;
          usable = (16 * 1024 * 1024 \<le> e820_get_total_usable_memory e);
          k = put_line (if usable then ''E820_USABLE_MEMORY_OK'' else ''E820_USABLE_MEMORY_FAIL'') k;
          total = total_frames (mmu_frames (k_mmu k));
          free_before = frame_get_free_count (mmu_frames (k_mmu k));
          ((alloc_ok, free_ok, reuse_ok), k) = with_frames (\<lambda>s. let (a, f, r, s) = frame_alloc_test s in ((a, f, r), s)) k;
          k = line_if reuse_ok ''FRAME_REUSE_OK'' (line_if free_ok ''FRAME_FREE_OK'' (line_if alloc_ok ''FRAME_ALLOC_OK'' k));
          (exhaust_ok, k) = with_frames frame_exhaust_test k;
          k = line_if exhaust_ok ''FRAME_EXHAUST_OK'' k;
          ok = (detected \<and> usable \<and> 0 < total \<and> alloc_ok \<and> free_ok \<and> reuse_ok \<and> exhaust_ok \<and>
                frame_get_free_count (mmu_frames (k_mmu k)) = free_before)
      in (ok, if ok then put_line ''E820_OK'' (put_line ''E820_FRAME_OK'' k) else put_line ''E820_FRAME_FAIL'' k))"

section \<open>The ramdisk\<close>

definition ramdisk_pattern :: "nat \<Rightarrow> (nat \<Rightarrow> u8) \<Rightarrow> u8 list" where
  "ramdisk_pattern n f = map f [0..<n]"

definition ramdisk_device_test :: "'d block_device \<Rightarrow> bool" where
  "ramdisk_device_test dev \<longleftrightarrow> sector_size dev = SECTOR_SIZE \<and> 128 \<le> sector_count dev \<and> read_sector dev \<noteq> None \<and>
     write_sector dev \<noteq> None \<and> read_sectors dev \<noteq> None \<and> write_sectors dev \<noteq> None"

definition ramdisk_basic_test :: "'d block_device \<Rightarrow> 'd \<Rightarrow> bool \<times> 'd" where
  "ramdisk_basic_test dev d =
     (let buf = ramdisk_pattern 512 (\<lambda>i. of_nat i AND 0xFF);
          (status, d) = the (write_sector dev) 0 (Some buf) d
      in if status \<noteq> BLKDEV_SUCCESS then (False, d)
         else let (status, data) = the (read_sector dev) True 0 d in (status = BLKDEV_SUCCESS \<and> data = buf, d))"

definition ramdisk_multi_test :: "'d block_device \<Rightarrow> 'd \<Rightarrow> bool \<times> 'd" where
  "ramdisk_multi_test dev d =
     (let buf = ramdisk_pattern (512 * 4) (\<lambda>i. of_nat (i div 512) + 0x40);
          (status, d) = the (write_sectors dev) 100 4 (Some buf) d
      in if status \<noteq> BLKDEV_SUCCESS then (False, d)
         else let (status, data) = the (read_sectors dev) True 100 4 d in (status = BLKDEV_SUCCESS \<and> data = buf, d))"

definition ramdisk_bounds_test :: "'d block_device \<Rightarrow> 'd \<Rightarrow> bool \<times> 'd" where
  "ramdisk_bounds_test dev d =
     (if fst (the (read_sector dev) True (sector_count dev) d) \<noteq> BLKDEV_EINVAL then (False, d)
      else
        let (status, d) = the (write_sectors dev) (sector_count dev - 1) 2 (Some (ramdisk_pattern (512 * 4) (\<lambda>i. of_nat (i div 512) + 0x40))) d in
        if status \<noteq> BLKDEV_EINVAL then (False, d)
        else (fst (the (read_sectors dev) True 0xFFFFFFFF 2 d) = BLKDEV_EINVAL, d))"

text \<open>The device of \<^verbatim>\<open>ramdisk_get_device()\<close>, or none.\<close>

definition with_disk :: "('d \<Rightarrow> bool \<times> 'd) \<Rightarrow> bool \<Rightarrow> 'd kernel \<Rightarrow> bool \<times> 'd kernel" where
  "with_disk f go k =
     (if go then let v = k_vfs k; (ok, d) = f (fs_disk (vfs_fs v)) in (ok, k\<lparr>k_vfs := v\<lparr>vfs_fs := (vfs_fs v)\<lparr>fs_disk := d\<rparr>\<rparr>\<rparr>) else (False, k))"

definition ramdisk_selftest :: "'d block_device option \<Rightarrow> 'd kernel \<Rightarrow> bool \<times> 'd kernel" where
  "ramdisk_selftest dev k =
     (let k = put_line ''RAMDISK_TEST'' k;
          init_ok = (case dev of None \<Rightarrow> False | Some dev \<Rightarrow> ramdisk_device_test dev);
          k = line_if init_ok ''RAMDISK_DEVICE_OK'' k;
          (basic_ok, k) = with_disk (ramdisk_basic_test (the dev)) init_ok k;
          k = line_if basic_ok ''RAMDISK_BASIC_OK'' k;
          (multi_ok, k) = with_disk (ramdisk_multi_test (the dev)) init_ok k;
          k = line_if multi_ok ''RAMDISK_MULTI_OK'' k;
          (bounds_ok, k) = with_disk (ramdisk_bounds_test (the dev)) init_ok k;
          k = line_if bounds_ok ''RAMDISK_BOUNDS_OK'' k;
          ok = (basic_ok \<and> multi_ok \<and> bounds_ok)
      in (ok, put_line (if ok then ''RAMDISK_OK'' else ''RAMDISK_FAIL'') k))"

section \<open>The heap\<close>

text \<open>\<^verbatim>\<open>while (count < 300)\<close>, with \<open>n\<close> rounds left.\<close>

primrec take_blocks :: "nat \<Rightarrow> u32 list \<Rightarrow> heap_state \<Rightarrow> (u32 list \<times> heap_state) option" where
  "take_blocks 0 allocs h = Some (allocs, h)"
| "take_blocks (Suc n) allocs h =
     (case kmalloc 4096 h of None \<Rightarrow> None
      | Some (ptr, h) \<Rightarrow> if ptr = 0 then Some (allocs, h) else take_blocks n (allocs @ [ptr]) h)"

text \<open>Two blocks, of which the first is freed and used again: the pointers, the bytes in use and the heap.\<close>

definition heap_reuse :: "heap_state \<Rightarrow> (u32 \<times> u32 \<times> u32 \<times> u32 \<times> heap_state) option" where
  "heap_reuse h =
     (case kmalloc 24 h of None \<Rightarrow> None | Some (a, h) \<Rightarrow>
      case kmalloc 80 h of None \<Rightarrow> None | Some (b, h) \<Rightarrow>
      case kmalloc 16 (kfree a h) of None \<Rightarrow> None | Some (c, h2) \<Rightarrow>
      Some (a, b, allocator_get_used_bytes h, c, kfree c (kfree b h2)))"

definition heap_exhaust :: "heap_state \<Rightarrow> (bool \<times> heap_state) option" where
  "heap_exhaust h =
     (case take_blocks 300 [] h of None \<Rightarrow> None
      | Some (allocs, h) \<Rightarrow>
          if \<not> 100 < length allocs then Some (False, fold kfree (rev allocs) h)
          else case kmalloc 4096 h of None \<Rightarrow> None
          | Some (ptr, h) \<Rightarrow> Some (ptr = 0, fold kfree (rev allocs) h))"

definition allocator_selftest :: "'d kernel \<Rightarrow> (bool \<times> 'd kernel) option" where
  "allocator_selftest k =
     (case allocator_get_free_bytes (k_heap k) of None \<Rightarrow> None | Some free_before \<Rightarrow>
      case heap_reuse (k_heap k) of None \<Rightarrow> None | Some (a, b, used, c, h) \<Rightarrow>
      case allocator_get_free_bytes h of None \<Rightarrow> None | Some free_after \<Rightarrow>
      case heap_exhaust h of None \<Rightarrow> None | Some (exhaust_ok, h2) \<Rightarrow>
      case allocator_get_free_bytes h2 of None \<Rightarrow> None | Some free_end \<Rightarrow>
        let alloc_ok = (a \<noteq> 0 \<and> b \<noteq> 0 \<and> a AND 0x0F = 0 \<and> b AND 0x0F = 0 \<and> 0 < used);
            k = line_if alloc_ok ''ALLOCATOR_ALLOC_OK'' (put_line ''ALLOCATOR_TEST'' (k\<lparr>k_heap := h2\<rparr>));
            reuse_ok = (c = a);
            free_ok = (free_after = free_before);
            k = line_if free_ok ''ALLOCATOR_FREE_OK'' (line_if reuse_ok ''ALLOCATOR_REUSE_OK'' k);
            k = line_if exhaust_ok ''ALLOCATOR_EXHAUST_OK'' k;
            ok = (alloc_ok \<and> reuse_ok \<and> free_ok \<and> exhaust_ok \<and> free_end = free_before)
        in Some (ok, put_line (if ok then ''ALLOCATOR_OK'' else ''ALLOCATOR_FAIL'') k))"

section \<open>The surface of the test calls\<close>

text \<open>\<^verbatim>\<open>ENABLE_MARKER_SURFACE_SELFTEST\<close>: with no other macro a test call must be unknown. The kernel halts afterwards.\<close>

definition marker_surface_selftest :: "build \<Rightarrow> 'd tested \<Rightarrow> bool \<times> 'd tested" where
  "marker_surface_selftest b s =
     (let s = s\<lparr>t_kernel := put_line ''MARKER_SURFACE_TEST'' (t_kernel s)\<rparr>;
          (result, _, s) = syscall_handle_in b SYS_TEST_MARKER SYSCALL_MARK_INVALID_NUM 0 0 0x1B 0 None s;
          ok = (result = SYSCALL_ENOSYS)
      in (ok, s\<lparr>t_kernel := put_line (if ok then ''MARKER_SURFACE_ENOSYS_OK'' else ''MARKER_SURFACE_FAIL'') (t_kernel s)\<rparr>))"

section \<open>The frame tests on a well-formed allocator\<close>

text \<open>
  Taking a frame and freeing it gives back the very state of before, so a test that frees what it took in the opposite order leaves no trace.
\<close>

lemma bit_array_eqI:
  assumes "\<And>m. bit_test a m = bit_test b m"
  shows "a = b"
proof (rule ext, rule bit_eqI)
  fix i j
  assume "possible_bit TYPE(u8) j"
  then have "j < 8" by (simp add: possible_bit_def)
  then show "bit (a i) j = bit (b i) j"
    using assms [of "8 * i + j"] by (simp add: bit_test_iff)
qed

definition is_free :: "frame_state \<Rightarrow> nat \<Rightarrow> bool" where
  "is_free s f \<longleftrightarrow> 768 \<le> f \<and> f < unat (total_frames s) \<and> \<not> bitmap_test s f"

lemma is_free_take: "is_free (frame_take f s) g \<longleftrightarrow> is_free s g \<and> g \<noteq> f"
  by (auto simp: is_free_def frame_take_def frame_bits)

lemma frame_take_fields [simp]:
  "frame_fail_after (frame_take f s) = frame_fail_after s" "total_frames (frame_take f s) = total_frames s"
  "used_frames (frame_take f s) = used_frames s + 1" "frame_initialized (frame_take f s) = frame_initialized s"
  by (simp_all add: frame_take_def frame_bits)

lemma is_free_ok:
  assumes "frame_ok s" and "is_free s f"
  shows "frame_ok (frame_take f s)" and "f < 131072" and "unat (used_frames s) < unat (total_frames s)"
    and "frame_refcounts s f = 0"
proof -
  have inv: "frame_inv s" using assms(1) by (simp add: frame_ok_def)
  show "frame_ok (frame_take f s)" using assms frame_take_ok by (simp add: is_free_def)
  show "f < 131072" using assms(2) inv by (simp add: is_free_def frame_inv_def)
  show "frame_refcounts s f = 0" using assms(2) inv frame_inv_count [of s f] by (simp add: is_free_def)
  have "allocated s \<subset> {..<unat (total_frames s)}" using assms(2) by (auto simp: allocated_def is_free_def)
  from psubset_card_mono [OF _ this] inv show "unat (used_frames s) < unat (total_frames s)"
    by (simp add: frame_inv_def)
qed

lemma frame_take_commute: "f \<noteq> g \<Longrightarrow> frame_take f (frame_take g s) = frame_take g (frame_take f s)"
proof -
  assume "f \<noteq> g"
  moreover have "bit_set (bit_set (frame_bitmap s) g) f = bit_set (bit_set (frame_bitmap s) f) g"
    by (rule bit_array_eqI) (auto simp: bitmap_simps)
  ultimately show ?thesis by (simp add: frame_take_def bitmap_set_def fun_upd_twist)
qed

lemma frame_free_take:
  assumes ok: "frame_ok s" and free: "is_free s f"
  shows "frame_free (of_nat f * FRAME_SIZE) (frame_take f s) = s"
proof -
  note facts = is_free_ok [OF ok free]
  have f: "768 \<le> f" "f < unat (total_frames s)" "\<not> bitmap_test s f" using free by (simp_all add: is_free_def)
  note addr = frame_addr_facts [OF f(1) facts(2)]
  have high: "\<not> of_nat f * FRAME_SIZE < RESERVED_LOW_END"
    using f(1) unat_frame_addr [of f] facts(2) by (simp add: word_less_nat_alt RESERVED_LOW_END_def)
  have pos: "0 < used_frames s + 1"
    using facts(3) unat_add_no_wrap [of "used_frames s" 1] ok
    by (simp add: word_less_nat_alt frame_ok_def frame_inv_def)
  have bits: "bit_clear (bit_set (frame_bitmap s) f) f = frame_bitmap s"
    using f(3) by (intro bit_array_eqI) (auto simp: bitmap_simps bitmap_test_def)
  have refs: "(frame_refcounts s)(f := 0) = frame_refcounts s" using facts(4) by (simp add: fun_upd_idem)
  have "frame_release (of_nat f * FRAME_SIZE) (frame_take f s) = (True, s)"
    using f(2) addr high pos ok bits refs facts(4)
    by (simp add: frame_release_def Let_def unat_div_page page_aligned_def frame_ok_def frame_take_def frame_bits)
  then show ?thesis by (simp add: frame_free_def)
qed

lemma window_alloc_lowest:
  assumes ok: "frame_ok s" and hook: "frame_fail_after s = -1"
  shows "frame_alloc_below limit s =
    (case first_index (is_free s) 768 (frame_bound s limit) of
       Some f \<Rightarrow> (of_nat f * FRAME_SIZE, frame_take f s) | None \<Rightarrow> (0, s))"
proof (cases "limit = 0")
  case True
  then show ?thesis by (simp add: frame_alloc_below_def frame_bound_def first_index_empty)
next
  case False
  have "first_index (\<lambda>f. \<not> bitmap_test s f) 768 (frame_bound s limit) = first_index (is_free s) 768 (frame_bound s limit)"
    unfolding first_index_def using frame_bound_le [of s limit]
    by (intro find_cong) (auto simp: is_free_def)
  then show ?thesis
    using False ok hook
    by (simp add: frame_alloc_below_def Let_def reserved_start frame_bound_eq frame_ok_def)
qed

text \<open>The loop of the exhaustion test takes the free frames below the limit in order and frees them in the opposite order.\<close>

lemma take_low_spec:
  assumes "frame_ok s" and "frame_fail_after s = -1" and "take_low n low s = (frames, t)"
  shows "frame_ok t \<and> frame_fail_after t = -1 \<and> (\<exists>new. frames = low @ new \<and> fold frame_free (rev new) t = s \<and>
    (let free = {f. is_free s f \<and> f < 1024} in
       length new = min n (card free) \<and> (card free < n \<longrightarrow> {f. is_free t f \<and> f < 1024} = {})))"
  using assms
proof (induction n arbitrary: low s)
  case 0
  then show ?case by (auto intro!: exI [of _ "[]"])
next
  case (Suc n)
  let ?free = "\<lambda>s. {f. is_free s f \<and> f < 1024}"
  have bound: "frame_bound s 0x00400000 = min 1024 (unat (total_frames s))" by (simp add: frame_bound_def)
  show ?case
  proof (cases "first_index (is_free s) 768 (frame_bound s 0x00400000)")
    case None
    then have "?free s = {}" by (auto simp: first_index_None_iff bound is_free_def)
    moreover have "frames = low" "t = s"
      using Suc.prems None by (simp_all add: window_alloc_lowest)
    ultimately show ?thesis
      using Suc.prems(1,2) by (intro conjI exI [of _ "[]"]) (simp_all add: Let_def del: Collect_empty_eq)
  next
    case (Some f)
    then have f: "is_free s f" "f < 1024" by (auto simp: first_index_Some_iff bound)
    note facts = is_free_ok [OF Suc.prems(1) f(1)]
    have "768 \<le> f" using f(1) by (simp add: is_free_def)
    have rest: "take_low n (low @ [of_nat f * FRAME_SIZE]) (frame_take f s) = (frames, t)"
      using Suc.prems Some frame_addr_facts(2) [OF \<open>768 \<le> f\<close> facts(2)] by (simp add: window_alloc_lowest)
    have "?free (frame_take f s) = ?free s - {f}" by (auto simp: is_free_take)
    moreover have "card (?free s) = Suc (card (?free s - {f}))"
      using f by (intro card.remove) auto
    ultimately have card: "card (?free s) = Suc (card (?free (frame_take f s)))" by simp
    have hook: "frame_fail_after (frame_take f s) = -1" using Suc.prems(2) by simp
    obtain new where new:
      "frame_ok t" "frame_fail_after t = -1" "frames = (low @ [of_nat f * FRAME_SIZE]) @ new"
      "fold frame_free (rev new) t = frame_take f s" "length new = min n (card (?free (frame_take f s)))"
      "card (?free (frame_take f s)) < n \<longrightarrow> ?free t = {}"
      using Suc.IH [OF facts(1) hook rest] unfolding Let_def by blast
    have undo: "fold frame_free (rev (of_nat f * FRAME_SIZE # new)) t = s"
      using new(4) frame_free_take [OF Suc.prems(1) f(1)] by simp
    have len: "length (of_nat f * FRAME_SIZE # new) = min (Suc n) (card (?free s))" using new(5) unfolding card by simp
    have last: "card (?free s) < Suc n \<longrightarrow> ?free t = {}" using new(6) unfolding card Suc_less_eq .
    have "frames = low @ of_nat f * FRAME_SIZE # new" using new(3) by simp
    with new(1,2) undo len last show ?thesis unfolding Let_def by blast
  qed
qed

lemma frame_exhaust_test_result:
  assumes ok: "frame_ok s" and hook: "frame_fail_after s = -1"
  shows "frame_exhaust_test s = (32 < card {f. is_free s f \<and> f < 1024}, s)"
proof -
  let ?free = "\<lambda>s. {f. is_free s f \<and> f < 1024}"
  obtain frames t where run: "take_low 320 [] s = (frames, t)" by force
  have "card (?free s) \<le> card {768..<1024 :: nat}" by (intro card_mono) (auto simp: is_free_def)
  then have few: "card (?free s) \<le> 256" by simp
  with take_low_spec [OF ok hook run] have t: "frame_ok t" "frame_fail_after t = -1" "fold frame_free (rev frames) t = s"
    "length frames = card (?free s)" "?free t = {}"
    by (auto simp: Let_def)
  have "first_index (is_free t) 768 (frame_bound t 0x00400000) = None"
    using t(5) by (auto simp: first_index_None_iff frame_bound_def)
  then have "frame_alloc_below 0x00400000 t = (0, t)" using t by (simp add: window_alloc_lowest)
  then show ?thesis using run t by (simp add: frame_exhaust_test_def)
qed

lemma frame_alloc_first:
  assumes ok: "frame_ok s" and hook: "frame_fail_after s = -1"
    and free: "is_free s f" and least: "\<And>g. g < f \<Longrightarrow> \<not> is_free s g"
  shows "frame_alloc s = (of_nat f * FRAME_SIZE, frame_take f s)"
proof -
  have "unat (total_frames s) \<le> 131072" using ok by (simp add: frame_ok_def frame_inv_def)
  then have "frame_bound s (total_frames s * FRAME_SIZE) = unat (total_frames s)"
    using unat_frame_addr [of "unat (total_frames s)"] by (simp add: frame_bound_def)
  then have "first_index (is_free s) 768 (frame_bound s (total_frames s * FRAME_SIZE)) = Some f"
    using free least by (auto simp: first_index_Some_iff is_free_def)
  then show ?thesis by (simp add: frame_alloc_def window_alloc_lowest [OF ok hook])
qed

lemma frame_taken_allocated:
  assumes "is_free s f" and "f < 131072"
  shows "frame_is_allocated (of_nat f * FRAME_SIZE) (frame_take f s)"
    and "is_free s g \<Longrightarrow> frame_is_allocated (of_nat f * FRAME_SIZE) (frame_take g (frame_take f s))"
  using assms unat_frame_addr [of f]
  by (auto simp: frame_is_allocated_def Let_def unat_div_page frame_take_def frame_bits is_free_def)

lemma free_count_take:
  assumes "frame_ok s" and "is_free s f"
  shows "frame_get_free_count s = frame_get_free_count (frame_take f s) + 1"
proof -
  have "used_frames s < total_frames s" using is_free_ok(3) [OF assms] by (simp add: word_less_nat_alt)
  then have "\<not> total_frames s < used_frames s" "\<not> total_frames s < used_frames s + 1"
    by (auto simp: not_less inc_le)
  then show ?thesis by (simp add: frame_get_free_count_def)
qed

lemma frame_alloc_test_passes:
  assumes ok: "frame_ok s" and hook: "frame_fail_after s = -1"
    and free: "is_free s f" "is_free s g" "f < g" and least: "\<And>h. h < g \<Longrightarrow> is_free s h \<Longrightarrow> h = f"
  shows "frame_alloc_test s = (True, True, True, s)"
proof -
  let ?a = "of_nat f * FRAME_SIZE" and ?b = "of_nat g * FRAME_SIZE"
  let ?t = "frame_take f s" and ?u = "frame_take g s"
  note f = is_free_ok [OF ok free(1)] and g = is_free_ok [OF ok free(2)]
  have in_t: "is_free ?t g" and in_u: "is_free ?u f" using free by (simp_all add: is_free_take)
  note in_t_ok = is_free_ok(1) [OF f(1) in_t]
  have low: "768 \<le> f" "768 \<le> g" using free by (simp_all add: is_free_def)
  note addr = frame_addr_facts [OF low(1) f(2)] frame_addr_facts [OF low(2) g(2)]
  have first: "\<not> is_free s h" if "h < f" for h
    using least [of h] that free(3) by auto
  have 1: "frame_alloc s = (?a, ?t)" using ok hook free(1) by (rule frame_alloc_first) (rule first)
  have 2: "frame_alloc ?t = (?b, frame_take g ?t)"
    using f(1) _ in_t by (rule frame_alloc_first) (use hook least in \<open>auto simp: is_free_take\<close>)
  have swap: "frame_take g ?t = frame_take f ?u" using free(3) by (intro frame_take_commute) simp
  have 3: "frame_free ?a (frame_take g ?t) = ?u" unfolding swap by (rule frame_free_take [OF g(1) in_u])
  have 4: "frame_alloc ?u = (?a, frame_take f ?u)"
    using g(1) _ in_u by (rule frame_alloc_first) (use hook first in \<open>auto simp: is_free_take\<close>)
  have 5: "frame_free ?b (frame_take f ?u) = ?t" unfolding swap [symmetric] by (rule frame_free_take [OF f(1) in_t])
  have 6: "frame_free ?a ?t = s" by (rule frame_free_take [OF ok free(1)])
  have differ: "?a \<noteq> ?b" using addr(3,6) free(3) by auto
  have held: "frame_is_allocated ?a (frame_take g ?t)" "frame_is_allocated ?b (frame_take g ?t)"
    using frame_taken_allocated [OF free(1) f(2)] frame_taken_allocated(1) [OF in_t g(2)] free(2) by auto
  have counts: "frame_get_free_count s = frame_get_free_count ?u + 1" "frame_get_free_count s = frame_get_free_count ?t + 1"
    "frame_get_free_count ?t = frame_get_free_count (frame_take g ?t) + 1"
    using free_count_take [OF ok free(1)] free_count_take [OF ok free(2)] free_count_take [OF f(1) in_t] by simp_all
  have two: "frame_get_free_count (frame_take g ?t) + 2 = frame_get_free_count s" using counts by simp
  show ?thesis
    unfolding frame_alloc_test_def Let_def 1 2 prod.case 3 4 5 6
    using addr(2,5) differ held two counts(1) by simp
qed

text \<open>
  The frames come lowest first, a freed frame is the next one handed out, the window below four mebibytes can be used up and is
  given back complete.
\<close>

lemma frame_selftest_passes:
  assumes "frame_ok s" and "frame_fail_after s = -1" and "32 < card {f. is_free s f \<and> f < 1024}"
  shows "frame_alloc_test s = (True, True, True, s) \<and> frame_exhaust_test s = (True, s)"
proof -
  let ?free = "{f. is_free s f \<and> f < 1024}"
  have fin: "finite ?free" by simp
  define f where "f = Min ?free"
  have "?free \<noteq> {}" using assms(3) by (metis card.empty not_less_zero)
  then have f: "is_free s f" "\<And>h. is_free s h \<Longrightarrow> h < 1024 \<Longrightarrow> f \<le> h" "f < 1024"
    using Min_in [OF fin] Min_le [OF fin] by (auto simp: f_def)
  have "card (?free - {f}) \<noteq> 0" using assms(3) f by (subst card_Diff_singleton) auto
  then have rest: "?free - {f} \<noteq> {}" by (metis card.empty)
  define g where "g = Min (?free - {f})"
  have fin2: "finite (?free - {f})" by simp
  have g: "is_free s g" "g \<noteq> f" "\<And>h. is_free s h \<Longrightarrow> h < 1024 \<Longrightarrow> h \<noteq> f \<Longrightarrow> g \<le> h" "g < 1024"
    using Min_in [OF fin2 rest] Min_le [OF fin2] by (auto simp: g_def)
  have "f < g" using f(2) [OF g(1,4)] g(2) by simp
  moreover have "h = f" if "h < g" "is_free s h" for h using g(3) [OF that(2)] that(1) g(4) by fastforce
  ultimately show ?thesis
    using frame_alloc_test_passes [OF assms(1,2) f(1) g(1)] frame_exhaust_test_result [OF assms(1,2)] assms(3) by simp
qed

text \<open>The whole block.\<close>

lemma with_frames_same:
  assumes "f (mmu_frames (k_mmu k)) = (r, mmu_frames (k_mmu k))"
  shows "with_frames f k = (r, k)"
  using assms by (simp add: with_frames_def)

lemma put_log_simps:
  "k_mmu (put_log f k) = k_mmu k" "put_log f (put_log g k) = put_log (\<lambda>out. f (g out)) k"
  "put_line t k = put_log (put_lines [t]) k"
  by (simp_all add: put_log_def put_line_def put_lines_def)

text \<open>With a memory map of at least 16 MiB, no armed allocation failure and at least 33 free frames between three and
  four mebibytes, the E820 self test of kernel_main passes all of its checks, prints exactly its eight lines of success after the
  map, and leaves the whole kernel, the frame allocator included, exactly as it found it apart from the serial log.\<close>

lemma e820_selftest_passes:
  assumes frames: "frame_ok (mmu_frames (k_mmu k))" "frame_fail_after (mmu_frames (k_mmu k)) = -1"
      "32 < card {f. is_free (mmu_frames (k_mmu k)) f \<and> f < 1024}"
    and map: "0 < map_count e" "16 * 1024 * 1024 \<le> e820_get_total_usable_memory e"
  shows "e820_selftest e k = (True, put_log (\<lambda>out. put_lines [''E820_DETECT_OK'', ''E820_USABLE_MEMORY_OK'', ''FRAME_ALLOC_OK'',
    ''FRAME_FREE_OK'', ''FRAME_REUSE_OK'', ''FRAME_EXHAUST_OK'', ''E820_FRAME_OK'', ''E820_OK''] (e820_print_map e (put_lines [''E820_TEST''] out))) k)"
proof -
  let ?s = "mmu_frames (k_mmu k)"
  have tests: "frame_alloc_test ?s = (True, True, True, ?s)" "frame_exhaust_test ?s = (True, ?s)"
    using frame_selftest_passes [OF frames] by simp_all
  have "{f. is_free ?s f \<and> f < 1024} \<noteq> {}" using frames(3) by (metis card.empty not_less_zero)
  then have total: "0 < total_frames ?s" by (auto simp: is_free_def word_less_nat_alt)
  have alloc: "with_frames (\<lambda>s. case frame_alloc_test s of (a, f, r, s) \<Rightarrow> ((a, f, r), s)) k' = ((True, True, True), k')"
    and exhaust: "with_frames frame_exhaust_test k' = (True, k')" if "mmu_frames (k_mmu k') = ?s" for k' :: "'d kernel"
    by (rule with_frames_same, simp add: that tests)+
  show ?thesis
    by (simp add: e820_selftest_def Let_def map(1) map(2) [simplified] total alloc exhaust line_if_def put_log_simps put_lines_append del: put_line_fields)
qed

text \<open>A machine with four mebibytes of memory, of which the last one is free, and a map of 64 MiB.\<close>

definition frame_wide :: frame_state where
  "frame_wide = \<lparr>frame_bitmap = (\<lambda>i. if i < 96 then 0xFF else 0), frame_refcounts = (\<lambda>i. if i < 768 then 1 else 0),
     total_frames = 1024, used_frames = 768, frame_initialized = True, frame_fail_after = -1\<rparr>"

definition wide_map :: e820_state where
  "wide_map = \<lparr>map_count = 1, map_entries = (\<lambda>_. \<lparr>e_base = 0, e_length = 0x4000000, e_type = E820_USABLE, e_attributes = 0\<rparr>),
     e820_initialized = True, e820_available = True\<rparr>"

definition wide_demo :: "ramdisk_data kernel" where
  "wide_demo = kernel_demo\<lparr>k_mmu := mmu_demo\<lparr>mmu_frames := frame_wide\<rparr>\<rparr>"

lemma frame_wide_bits: "bitmap_test frame_wide f \<longleftrightarrow> f < 768"
proof -
  have "f div 8 < 96 \<longleftrightarrow> f < 768" by (simp add: div_less_iff_less_mult)
  then show ?thesis
    by (cases "f < 768") (simp_all add: bitmap_test_def frame_wide_def bit_test_all_ones bit_test_zero)
qed

lemma frame_wide_ok: "frame_ok frame_wide" "{f. is_free frame_wide f \<and> f < 1024} = {768..<1024}"
proof -
  have n: "unat (total_frames frame_wide) = 1024" by (simp add: frame_wide_def)
  have "allocated frame_wide = {..<768}" unfolding allocated_def frame_wide_bits n by auto
  then have "unat (used_frames frame_wide) = card (allocated frame_wide)" by (simp add: frame_wide_def)
  moreover have "frame_refcounts frame_wide f \<noteq> 0 \<longleftrightarrow> f < 768" for f by (simp add: frame_wide_def)
  moreover have "frame_initialized frame_wide" by (simp add: frame_wide_def)
  ultimately show "frame_ok frame_wide"
    by (simp add: frame_ok_def frame_inv_def low_reserved_def frame_wide_bits n)
  show "{f. is_free frame_wide f \<and> f < 1024} = {768..<1024}"
    unfolding is_free_def frame_wide_bits n by auto
qed

lemma e820_selftest_demo: "fst (e820_selftest wide_map wide_demo)"
proof -
  have frames: "mmu_frames (k_mmu wide_demo) = frame_wide" by (simp add: wide_demo_def)
  have hook: "frame_fail_after frame_wide = -1" by (simp add: frame_wide_def)
  have map: "0 < map_count wide_map" "16 * 1024 * 1024 \<le> e820_get_total_usable_memory wide_map"
    by (simp_all add: wide_map_def e820_get_total_usable_memory_def loop_simps E820_USABLE_def)
  show ?thesis
    by (subst e820_selftest_passes) (simp_all add: frames frame_wide_ok hook map(1) map(2) [simplified] del: Collect_empty_eq)
qed

section \<open>The ramdisk test passes\<close>

lemma ramdisk_pattern_length [simp]: "length (ramdisk_pattern n f) = n"
  by (simp add: ramdisk_pattern_def)

lemma ramdisk_read_back:
  assumes "length buf = unat n" and "unat off + unat n < 4294967296"
  shows "ramdisk_bytes off n (ramdisk_store off n buf d) = buf"
  using assms by (auto simp: ramdisk_bytes_def ramdisk_store_def intro!: nth_equalityI)

lemma ramdisk_tests_pass:
  "ramdisk_device_test ramdisk_dev"
  "\<exists>d'. ramdisk_basic_test ramdisk_dev d = (True, d')"
  "\<exists>d'. ramdisk_multi_test ramdisk_dev d = (True, d')"
  "ramdisk_bounds_test ramdisk_dev d = (True, d)"
proof -
  note dev = ramdisk_dev_def block_device.simps option.sel
  have valid: "ramdisk_range_valid 0 1" "ramdisk_range_valid 100 4" by (simp_all add: ramdisk_range_valid_iff)
  have invalid: "\<not> ramdisk_range_valid RAMDISK_SECTORS 1" "\<not> ramdisk_range_valid (RAMDISK_SECTORS - 1) 2"
    "\<not> ramdisk_range_valid 0xFFFFFFFF 2"
    by (simp_all add: ramdisk_range_valid_iff ramdisk_consts)
  show "ramdisk_device_test ramdisk_dev"
    by (simp add: ramdisk_device_test_def ramdisk_dev_def ramdisk_consts)
  show "\<exists>d'. ramdisk_basic_test ramdisk_dev d = (True, d')"
    unfolding ramdisk_basic_test_def Let_def dev
    using ramdisk_read_back [of "ramdisk_pattern 512 (\<lambda>i. of_nat i AND 0xFF)" SECTOR_SIZE "0 * SECTOR_SIZE" d] valid
    by (simp add: ramdisk_write_sector_def ramdisk_read_sector_def unat_SECTOR_SIZE)
  show "\<exists>d'. ramdisk_multi_test ramdisk_dev d = (True, d')"
    unfolding ramdisk_multi_test_def Let_def dev
    using ramdisk_read_back [of "ramdisk_pattern (512 * 4) (\<lambda>i. of_nat (i div 512) + 0x40)" "4 * SECTOR_SIZE" "100 * SECTOR_SIZE" d] valid
    by (simp add: ramdisk_write_sectors_def ramdisk_read_sectors_def SECTOR_SIZE_def)
  show "ramdisk_bounds_test ramdisk_dev d = (True, d)"
    unfolding ramdisk_bounds_test_def Let_def dev
    using invalid by (simp add: ramdisk_write_sectors_def ramdisk_read_sectors_def ramdisk_read_sector_def)
qed

lemma ramdisk_selftest_passes: "fst (ramdisk_selftest (Some ramdisk_dev) k)"
proof -
  have basic: "\<exists>k'. with_disk (ramdisk_basic_test ramdisk_dev) True k = (True, k')"
    and multi: "\<exists>k'. with_disk (ramdisk_multi_test ramdisk_dev) True k = (True, k')"
    and bounds: "\<exists>k'. with_disk (ramdisk_bounds_test ramdisk_dev) True k = (True, k')" for k
    using ramdisk_tests_pass(2-4) [of "fs_disk (vfs_fs (k_vfs k))"] by (auto simp: with_disk_def Let_def)
  obtain k1 where 1: "with_disk (ramdisk_basic_test ramdisk_dev) True (line_if True ''RAMDISK_DEVICE_OK'' (put_line ''RAMDISK_TEST'' k)) = (True, k1)"
    using basic by blast
  obtain k2 where 2: "with_disk (ramdisk_multi_test ramdisk_dev) True (line_if True ''RAMDISK_BASIC_OK'' k1) = (True, k2)"
    using multi by blast
  obtain k3 where 3: "with_disk (ramdisk_bounds_test ramdisk_dev) True (line_if True ''RAMDISK_MULTI_OK'' k2) = (True, k3)"
    using bounds by blast
  show ?thesis
    by (simp add: ramdisk_selftest_def Let_def ramdisk_tests_pass(1) 1 2 3 split del: if_split)
qed

section \<open>A build without markers has no test call\<close>

lemmas syscall_numbers = SYS_PUTS_def SYS_GETCHAR_def SYS_CLEAR_def SYS_UPTIME_def SYS_ECHO_def SYS_OPEN_def SYS_READ_def SYS_WRITE_def SYS_CLOSE_def SYS_STAT_def SYS_GETPID_def
  SYS_EXIT_def SYS_WAIT_def SYS_FORK_def SYS_EXEC_def SYS_BRK_def SYS_WAITPID_def SYS_KILL_def SYS_SIGPENDING_def SYS_PIPE_def SYS_MAX_def

lemma marker_surface_passes:
  assumes "\<not> has_markers b"
  shows "marker_surface_selftest b s = (True, s\<lparr>t_kernel := put_log (put_lines [''MARKER_SURFACE_TEST'', ''MARKER_SURFACE_ENOSYS_OK'']) (t_kernel s)\<rparr>)"
proof -
  have "syscall_handle SYS_TEST_MARKER x y z cs fp None k = (SYSCALL_ENOSYS, None, k)" for x y z cs fp and k :: "'a kernel"
    by (simp add: syscall_handle_def SYS_TEST_MARKER_def syscall_numbers)
  then show ?thesis
    using assms
    by (simp add: marker_surface_selftest_def syscall_handle_in_def Let_def SYS_TEST_MARKER_def SYS_TEST_ABI_def
        SYS_USERMODE_TEST_def put_log_simps put_lines_append)
qed

end
