(* ===== verification/Selftest_VM.thy ===== *)
theory Selftest_VM
  imports Selftest_Base
begin

text \<open>
  The virtual memory tests of \<^verbatim>\<open>src/kernel/kernel.c\<close>: \<^verbatim>\<open>vm_kernel_rollback_selftests\<close> and the probes of the attack tests on copy-on-write
  aliasing, reference counts, the stack guard and the undoing of failed faults. Failures are injected through the hook of the frame allocator.
\<close>

section \<open>Conditions\<close>

text \<open>\<^verbatim>\<open>a && b\<close>, where \<open>b\<close> only looks at the state.\<close>

definition and_check :: "bool \<times> 's \<Rightarrow> ('s \<Rightarrow> bool) \<Rightarrow> bool \<times> 's" where
  "and_check r P = (fst r \<and> P (snd r), snd r)"

definition fails :: "('s \<Rightarrow> bool \<times> 's) \<Rightarrow> 's \<Rightarrow> bool \<times> 's" where
  "fails f s = (let (r, s) = f s in (\<not> r, s))"

definition if_nonzero :: "u32 \<Rightarrow> (u32 \<Rightarrow> 's \<Rightarrow> 's) \<Rightarrow> 's \<Rightarrow> 's" where
  "if_nonzero a f s = (if a = 0 then s else f a s)"

definition mmu_free_count :: "mmu \<Rightarrow> u32" where "mmu_free_count m = frame_get_free_count (mmu_frames m)"

definition mmu_fail_after :: "int \<Rightarrow> mmu \<Rightarrow> mmu" where
  "mmu_fail_after n m = m\<lparr>mmu_frames := frame_test_fail_after n (mmu_frames m)\<rparr>"

definition mmu_refcount :: "u32 \<Rightarrow> mmu \<Rightarrow> u32" where "mmu_refcount a m = frame_get_refcount a (mmu_frames m)"

definition USER_RW :: u32 where "USER_RW = PAGE_PRESENT OR PAGE_WRITABLE OR PAGE_USER"

section \<open>Reference counts\<close>

text \<open>\<^verbatim>\<open>while (frame_get_refcount(phys) > 0)\<close>: the count is a 16-bit number and falls in every round, so 65536 rounds are enough.\<close>

primrec drain :: "nat \<Rightarrow> u32 \<Rightarrow> frame_state \<Rightarrow> frame_state" where
  "drain 0 phys_addr s = s"
| "drain (Suc n) phys_addr s =
     (if 0 < frame_get_refcount phys_addr s
      then let (ok, s) = frame_release phys_addr s in if ok then drain n phys_addr s else s
      else s)"

definition vm_test_frame_refcounts :: "frame_state \<Rightarrow> bool \<times> frame_state" where
  "vm_test_frame_refcounts s =
     (let free_before = frame_get_free_count s;
          (phys_addr, s) = frame_alloc s;
          r = (phys_addr \<noteq> 0 \<and> frame_get_refcount phys_addr s = 1, s);
          r = and_check (and_also r (frame_retain phys_addr)) (\<lambda>s. frame_get_refcount phys_addr s = 2);
          r = and_check (and_also r (frame_release phys_addr)) (\<lambda>s. frame_get_refcount phys_addr s = 1);
          r = and_check (and_also r (frame_release phys_addr)) (\<lambda>s. \<not> frame_is_allocated phys_addr s);
          (ok, s) = and_also r (fails (frame_release phys_addr))
      in if ok then (frame_get_free_count s = free_before, s)
         else (False, if phys_addr \<noteq> 0 \<and> frame_is_allocated phys_addr s then drain 65536 phys_addr s else s))"

definition redteam_vm_refcount_underflow_blocked_probe :: "frame_state \<Rightarrow> bool \<times> frame_state" where
  "redteam_vm_refcount_underflow_blocked_probe s =
     (let free_before = frame_get_free_count s;
          (phys_addr, s) = frame_alloc s;
          r = and_also (phys_addr \<noteq> 0, s) (frame_release phys_addr);
          (ok, s) = and_check (and_also r (fails (frame_release phys_addr))) (\<lambda>s. \<not> frame_is_allocated phys_addr s)
      in if ok then (frame_get_free_count s = free_before, s)
         else (False, if phys_addr \<noteq> 0 \<and> frame_is_allocated phys_addr s then snd (frame_release phys_addr s) else s))"

section \<open>Undoing a failed copy\<close>

definition VM_TEST_DATA_VA :: u32 where "VM_TEST_DATA_VA = PROCESS_HEAP_START"

text \<open>The start of the two copy tests: a directory with one writable user page, the cleanup when it cannot be made.\<close>

definition vm_test_parent :: "mmu \<Rightarrow> bool \<times> u32 \<times> u32 \<times> mmu" where
  "vm_test_parent m =
     (let (parent_cr3, m) = paging_create_address_space m;
          (phys_addr, m) = mmu_alloc m;
          (ok, m) = and_also (parent_cr3 \<noteq> 0 \<and> phys_addr \<noteq> 0, m) (paging_map_page_in_directory parent_cr3 VM_TEST_DATA_VA phys_addr USER_RW)
      in if ok then (True, parent_cr3, phys_addr, m)
         else (False, parent_cr3, phys_addr, if_nonzero parent_cr3 paging_destroy_address_space (if_nonzero phys_addr mmu_release m)))"

definition vm_test_clone_rollback :: "mmu \<Rightarrow> bool \<times> mmu" where
  "vm_test_clone_rollback m =
     (let (made, parent_cr3, phys_addr, m) = vm_test_parent m in
      if \<not> made then (False, m)
      else
        let flags_before = paging_get_page_flags_in_directory parent_cr3 VM_TEST_DATA_VA m;
            free_before = mmu_free_count m;
            (child_cr3, m) = paging_clone_directory parent_cr3 (mmu_fail_after 1 m);
            m = mmu_fail_after (-1) m;
            ok = (child_cr3 = 0 \<and> paging_get_physical_address_in_directory parent_cr3 VM_TEST_DATA_VA m = phys_addr \<and>
                  paging_get_page_flags_in_directory parent_cr3 VM_TEST_DATA_VA m = flags_before \<and>
                  mmu_refcount phys_addr m = 1 \<and> mmu_free_count m = free_before)
        in (ok, paging_destroy_address_space parent_cr3 (if_nonzero child_cr3 paging_destroy_address_space m)))"

definition vm_test_cow_oom_rollback :: "mmu \<Rightarrow> bool \<times> mmu" where
  "vm_test_cow_oom_rollback m =
     (let (made, parent_cr3, phys_addr, m) = vm_test_parent m in
      if \<not> made then (False, m)
      else
        let (child_cr3, m) = paging_clone_directory parent_cr3 m in
        if child_cr3 = 0 then (False, paging_destroy_address_space parent_cr3 m)
        else
          let flags_before = paging_get_page_flags_in_directory child_cr3 VM_TEST_DATA_VA m;
              free_before = mmu_free_count m;
              (result, m) = paging_resolve_cow_fault child_cr3 VM_TEST_DATA_VA (mmu_fail_after 0 m);
              m = mmu_fail_after (-1) m;
              ok = (\<not> result \<and> flags_before AND PAGE_COW \<noteq> 0 \<and> flags_before AND PAGE_WRITABLE = 0 \<and>
                    paging_get_page_flags_in_directory child_cr3 VM_TEST_DATA_VA m = flags_before \<and>
                    paging_get_physical_address_in_directory child_cr3 VM_TEST_DATA_VA m = phys_addr \<and>
                    mmu_refcount phys_addr m = 2 \<and> mmu_free_count m = free_before)
          in (ok, paging_destroy_address_space parent_cr3 (paging_destroy_address_space child_cr3 m)))"

section \<open>Undoing a failed demand fault\<close>

text \<open>\<^verbatim>\<open>memset(&proc, 0, sizeof(proc))\<close>, with a directory and a heap.\<close>

definition test_process :: "u32 \<Rightarrow> u32 \<Rightarrow> process" where
  "test_process cr3 heap_end' = zero_process\<lparr>p_cr3 := cr3, p_heap_start := PROCESS_HEAP_START, p_heap_end := heap_end'\<rparr>"

text \<open>The fault on the first heap page without a free frame.\<close>

definition demand_oom :: "u32 \<Rightarrow> mmu \<Rightarrow> bool \<times> mmu" where
  "demand_oom proc_cr3 m =
     (let p = test_process proc_cr3 (PROCESS_HEAP_START + VM_PAGE_SIZE);
          m = paging_switch_directory proc_cr3 m;
          free_before = mmu_free_count m;
          (result, m) = vm_handle_page_fault (Some p) PROCESS_HEAP_START (VM_FAULT_WRITE OR VM_FAULT_USER) (mmu_fail_after 0 m);
          ok = (result = VM_FAULT_OOM \<and> \<not> paging_is_mapped PROCESS_HEAP_START m \<and> mmu_free_count m = free_before)
      in (ok, mmu_fail_after (-1) m))"

definition vm_test_demand_oom_rollback :: "mmu \<Rightarrow> bool \<times> mmu" where
  "vm_test_demand_oom_rollback m =
     (let kernel_cr3 = paging_get_current_directory m;
          (proc_cr3, m) = paging_create_address_space m
      in if proc_cr3 = 0 then (False, m)
         else let (ok, m) = demand_oom proc_cr3 m
              in (ok, paging_destroy_address_space proc_cr3 (paging_switch_directory kernel_cr3 m)))"

definition with_mmu :: "(mmu \<Rightarrow> 'a \<times> mmu) \<Rightarrow> 'd kernel \<Rightarrow> 'a \<times> 'd kernel" where
  "with_mmu f k = (let (r, m) = f (k_mmu k) in (r, k\<lparr>k_mmu := m\<rparr>))"

definition vm_kernel_rollback_selftests :: "'d kernel \<Rightarrow> bool \<times> 'd kernel" where
  "vm_kernel_rollback_selftests k =
     (let (refcount_ok, k) = with_mmu (\<lambda>m. let (ok, s) = vm_test_frame_refcounts (mmu_frames m) in (ok, m\<lparr>mmu_frames := s\<rparr>)) k;
          (clone_ok, k) = with_mmu vm_test_clone_rollback k;
          (cow_oom_ok, k) = with_mmu vm_test_cow_oom_rollback k;
          (demand_oom_ok, k) = with_mmu vm_test_demand_oom_rollback k;
          k = line_if clone_ok ''VM_CLONE_ROLLBACK_OK'' k;
          k = line_if cow_oom_ok ''VM_COW_OOM_ROLLBACK_OK'' k;
          k = line_if demand_oom_ok ''VM_DEMAND_OOM_ROLLBACK_OK'' k
      in (refcount_ok \<and> clone_ok \<and> cow_oom_ok \<and> demand_oom_ok, k))"

section \<open>The probes of the attack tests\<close>

definition REDTEAM_VM_DATA_VA :: u32 where "REDTEAM_VM_DATA_VA = 0x92000000"

definition load_word :: "u32 \<Rightarrow> mmu \<Rightarrow> u32 \<times> mmu" where
  "load_word virtual_addr m = (let (bytes, m) = load_bytes virtual_addr 4 m in (of_le32 bytes, m))"

text \<open>Parent and child share a page; the child writes to its copy. The result carries the directory of the child for the cleanup.\<close>

definition cow_alias_write :: "u32 \<Rightarrow> u32 \<Rightarrow> mmu \<Rightarrow> bool \<times> u32 \<times> mmu" where
  "cow_alias_write parent_cr3 phys_addr m =
     (let m = store_word REDTEAM_VM_DATA_VA 0x11112222 (paging_switch_directory parent_cr3 m);
          (child_cr3, m) = paging_clone_directory parent_cr3 m
      in if child_cr3 = 0 \<or> paging_get_page_flags_in_directory parent_cr3 REDTEAM_VM_DATA_VA m AND PAGE_COW = 0 \<or> mmu_refcount phys_addr m \<noteq> 2
         then (False, child_cr3, m)
         else
           let (ok, m) = paging_resolve_cow_fault child_cr3 REDTEAM_VM_DATA_VA (paging_switch_directory child_cr3 m) in
           if \<not> ok then (False, child_cr3, m)
           else
             let m = paging_switch_directory parent_cr3 (store_word REDTEAM_VM_DATA_VA 0x33334444 m);
                 (word, m) = load_word REDTEAM_VM_DATA_VA m;
                 page = paging_get_physical_address_in_directory parent_cr3 REDTEAM_VM_DATA_VA m
             in (word = 0x11112222 \<and> page \<noteq> paging_get_physical_address_in_directory child_cr3 REDTEAM_VM_DATA_VA m \<and>
                 mmu_refcount (page AND 0xFFFFF000) m = 1, child_cr3, m))"

definition redteam_vm_cow_alias_blocked_probe :: "mmu \<Rightarrow> bool \<times> mmu" where
  "redteam_vm_cow_alias_blocked_probe m =
     (let kernel_cr3 = paging_get_current_directory m;
          (parent_cr3, m) = paging_create_address_space m;
          (phys_addr, m) = mmu_alloc m;
          (made, m) = and_also (parent_cr3 \<noteq> 0 \<and> phys_addr \<noteq> 0, m) (paging_map_page_in_directory parent_cr3 REDTEAM_VM_DATA_VA phys_addr USER_RW);
          (ok, child_cr3, m) = (if made then cow_alias_write parent_cr3 phys_addr m else (False, 0, m));
          m = if_nonzero child_cr3 paging_destroy_address_space (paging_switch_directory kernel_cr3 m)
      in (ok, if parent_cr3 \<noteq> 0 then paging_destroy_address_space parent_cr3 m else if_nonzero phys_addr mmu_release m))"

definition redteam_vm_guard_bypass_blocked_probe :: "mmu \<Rightarrow> bool \<times> mmu" where
  "redteam_vm_guard_bypass_blocked_probe m =
     (if paging_is_mapped USER_STACK_GUARD_BOTTOM m then (False, m)
      else
        let p = test_process (paging_get_current_directory m) PROCESS_HEAP_START;
            (result, m) = vm_handle_page_fault (Some p) USER_STACK_GUARD_BOTTOM (VM_FAULT_WRITE OR VM_FAULT_USER) m
        in (result = VM_FAULT_GUARD \<and> \<not> paging_is_mapped USER_STACK_GUARD_BOTTOM m, m))"

text \<open>The two halves of \<^verbatim>\<open>redteam_vm_fault_rollback_blocked_probe\<close>: the verdict on the copy, and whether parent and child were destroyed; the
  verdict on the demand fault, with the directory to destroy.\<close>

definition rollback_cow :: "u32 \<Rightarrow> u32 \<Rightarrow> mmu \<Rightarrow> bool \<times> bool \<times> mmu" where
  "rollback_cow parent_cr3 phys_addr m =
     (let (child_cr3, m) = paging_clone_directory parent_cr3 m in
      if child_cr3 = 0 then (False, False, m)
      else
        let flags_before = paging_get_page_flags_in_directory child_cr3 REDTEAM_VM_DATA_VA m;
            free_before = mmu_free_count m;
            (result, m) = paging_resolve_cow_fault child_cr3 REDTEAM_VM_DATA_VA (mmu_fail_after 0 m);
            ok = (\<not> result \<and> paging_get_page_flags_in_directory child_cr3 REDTEAM_VM_DATA_VA m = flags_before \<and>
                  paging_get_physical_address_in_directory child_cr3 REDTEAM_VM_DATA_VA m = phys_addr \<and>
                  mmu_refcount phys_addr m = 2 \<and> mmu_free_count m = free_before);
            m = mmu_fail_after (-1) m
        in (ok, True, paging_destroy_address_space parent_cr3 (paging_destroy_address_space child_cr3 m)))"

definition rollback_demand :: "mmu \<Rightarrow> bool \<times> u32 \<times> mmu" where
  "rollback_demand m =
     (let (demand_cr3, m) = paging_create_address_space m in
      if demand_cr3 = 0 then (False, 0, m)
      else let (ok, m) = demand_oom demand_cr3 m in (ok, demand_cr3, m))"

definition redteam_vm_fault_rollback_blocked_probe :: "mmu \<Rightarrow> bool \<times> mmu" where
  "redteam_vm_fault_rollback_blocked_probe m =
     (let kernel_cr3 = paging_get_current_directory m;
          (parent_cr3, m) = paging_create_address_space m;
          (phys_addr, m) = mmu_alloc m;
          (made, m) = and_also (parent_cr3 \<noteq> 0 \<and> phys_addr \<noteq> 0, m) (paging_map_page_in_directory parent_cr3 REDTEAM_VM_DATA_VA phys_addr USER_RW);
          (cow_ok, gone, m) = (if made then rollback_cow parent_cr3 phys_addr m else (False, False, m));
          (demand_ok, demand_cr3, m) = (if gone then rollback_demand m else (False, 0, m));
          m = paging_switch_directory kernel_cr3 (mmu_fail_after (-1) m);
          m = (if parent_cr3 \<noteq> 0 \<and> \<not> gone then paging_destroy_address_space parent_cr3 m
               else if phys_addr \<noteq> 0 \<and> frame_is_allocated phys_addr (mmu_frames m) \<and> mmu_refcount phys_addr m = 1 then mmu_release phys_addr m
               else m)
      in (cow_ok \<and> demand_ok, if_nonzero demand_cr3 paging_destroy_address_space m))"

end
