(* ===== verification/Space_Lifecycle.thy ===== *)
theory Space_Lifecycle
  imports Fork_Success
begin

text \<open>
  The life of an address space, \<^verbatim>\<open>src/kernel/paging.c\<close>: a new space has the mappings of the kernel and no user memory; a destroyed space gives back
  one reference for every page, table and directory that it holds, and nothing else. So neither a process that is created and destroyed nor a
  fork whose child exits loses or frees a frame.
\<close>

section \<open>Taking and giving back\<close>

lemma alloc_page_table_high:
  assumes "mmu_ok m" and "allocator_alloc_page_table m = (p, m')" and "p \<noteq> 0"
  shows "RESERVED_LOW_END \<le> p"
proof -
  obtain a fr where fr: "frame_alloc_below IDENTITY_MAPPED_LIMIT (mmu_frames m) = (a, fr)" by force
  then show ?thesis
    using frame_alloc_below_spec [OF assms(1) [unfolded mmu_ok_def] fr] assms(2,3)
    by (auto simp: allocator_alloc_page_table_def paging_alloc_frame_def split: if_splits)
qed

lemma mmu_free_spec:
  assumes "mmu_ok m" and "0 < mmu_refs m a" and "RESERVED_LOW_END \<le> a"
  shows "mmu_ok (mmu_free a m)" "mmu_refs (mmu_free a m) = (mmu_refs m)(a := mmu_refs m a - 1)"
proof -
  have "1 < frame_refs (mmu_frames m) a \<or> \<not> a < RESERVED_LOW_END \<and> frame_refs (mmu_frames m) a = 1"
    using assms(2,3) by (auto simp: mmu_refs_def)
  then obtain s where "frame_release a (mmu_frames m) = (True, s)" "frame_ok s"
      "frame_refs s = (frame_refs (mmu_frames m))(a := frame_refs (mmu_frames m) a - 1)"
    using frames.release_shared_frame [of "mmu_frames m" a] assms(1) by (auto simp: mmu_ok_def)
  then show "mmu_ok (mmu_free a m)" "mmu_refs (mmu_free a m) = (mmu_refs m)(a := mmu_refs m a - 1)"
    by (simp_all add: mmu_free_def frame_free_def mmu_ok_def mmu_refs_def)
qed

lemma mmu_free_fields [simp]:
  "phys (mmu_free a m) = phys m" "active_page_directory (mmu_free a m) = active_page_directory m"
  "kernel_scratch_table (mmu_free a m) = kernel_scratch_table m" "mmu_fault (mmu_free a m) = mmu_fault m"
  by (simp_all add: mmu_free_def)

section \<open>A new space\<close>

text \<open>The state after \<^verbatim>\<open>paging_create_address_space\<close> has made the directory \<open>d\<close> with the low table \<open>l\<close>, word by word.\<close>

definition space_made :: "mmu \<Rightarrow> mmu \<Rightarrow> u32 \<Rightarrow> u32 \<Rightarrow> bool" where
  "space_made m m' d l \<longleftrightarrow> (mmu_ok m' \<and> same_regs m m' \<and> page_aligned d \<and> page_aligned l \<and> d \<noteq> l \<and> d \<noteq> 0 \<and> l \<noteq> 0) \<and>
     (RESERVED_LOW_END \<le> d \<and> RESERVED_LOW_END \<le> l \<and> mmu_refs m d = 0 \<and> mmu_refs m l = 0) \<and>
     mmu_refs m' = (mmu_refs m)(d := 1, l := 1) \<and> (\<forall>q. q \<noteq> d \<and> q \<noteq> l \<longrightarrow> phys m' q = phys m q) \<and>
     (\<forall>j<1024. phys m' l j = (of_nat j * PAGE_SIZE OR PAGE_PRESENT OR PAGE_WRITABLE)) \<and>
     (\<forall>i<1024. phys m' d i = (let e = phys m (active_page_directory m) i in
        if i = 0 then l OR PAGE_PRESENT OR PAGE_WRITABLE else if bit e 0 \<and> \<not> bit e 2 then e else 2))"

lemma clear_user: "\<not> bit e 2 \<Longrightarrow> e AND NOT PAGE_USER = e" for e :: u32
  by (rule u32_eqI) (auto simp: entry_bits)

lemma share_loop:
  assumes "d \<noteq> active_page_directory m" and "1 \<le> k"
  shows "mmu_frames (for_loop 1 k (share_supervisor d) m) = mmu_frames m \<and> same_regs m (for_loop 1 k (share_supervisor d) m) \<and>
    (\<forall>q j. phys (for_loop 1 k (share_supervisor d) m) q j = (let e = phys m (active_page_directory m) j in
       if q = d \<and> 1 \<le> j \<and> j < k \<and> bit e 0 \<and> \<not> bit e 2 then e else phys m q j))"
  using assms(2)
proof (induction k rule: nat_induct_at_least)
  case base
  then show ?case by (auto simp: for_loop_done Let_def)
next
  case (Suc k)
  let ?m = "for_loop 1 k (share_supervisor d) m"
  let ?e = "phys m (active_page_directory m) k"
  have a: "active_page_directory ?m = active_page_directory m" using Suc.IH by (simp add: same_regs_def)
  then have e: "phys ?m (active_page_directory ?m) k = ?e" using Suc.IH assms(1) by (simp add: Let_def)
  have "for_loop 1 (Suc k) (share_supervisor d) m = (if bit ?e 0 \<and> \<not> bit ?e 2 then put_word d k ?e ?m else ?m)"
    unfolding for_loop_last [OF Suc.hyps] share_supervisor_def [of d k] Let_def e by (auto simp: and_flag_eq_0 clear_user)
  then show ?case
    using Suc.IH Suc.hyps by (auto simp: phys_put_word same_regs_def less_Suc_eq Let_def)
qed

lemma create_address_space_made:
  assumes ok: "mmu_ok m" and act: "0 < mmu_refs m (active_page_directory m)"
    and r: "paging_create_address_space m = (d, m')"
  shows "if d = 0 then mmu_ok m' \<and> same_regs m m' \<and> mmu_refs m' = mmu_refs m \<and> (\<forall>q. 0 < mmu_refs m q \<longrightarrow> phys m' q = phys m q)
    else \<exists>l. space_made m m' d l"
proof -
  obtain p m1 where p: "allocator_alloc_page_table m = (p, m1)" by force
  note sp = alloc_page_table_spec [OF ok p]
  show ?thesis
  proof (cases "p = 0")
    case True
    then have "d = 0" "m' = m1" using r by (simp_all add: paging_create_address_space_def p)
    then show ?thesis using sp True by (simp add: same_regs_def)
  next
    case p0: False
    have m1: "mmu_ok m1" "mmu_refs m1 = (mmu_refs m)(p := 1)" "mmu_refs m p = 0" using sp p0 by simp_all
    have ph1: "phys m1 q j = (if q = p \<and> j < 1024 then 2 else phys m q j)" for q j using sp p0 by simp
    obtain l m2 where l: "allocator_alloc_page_table m1 = (l, m2)" by force
    note sl = alloc_page_table_spec [OF m1(1) l]
    show ?thesis
    proof (cases "l = 0")
      case True
      then have d: "d = 0" "m' = mmu_free p m2" using r p0 by (simp_all add: paging_create_address_space_def p l)
      have m2: "mmu_ok m2" "mmu_refs m2 = (mmu_refs m)(p := 1)" "phys m2 = phys m1" using sl True m1(2) by simp_all
      have "0 < mmu_refs m2 p" "RESERVED_LOW_END \<le> p" using m2(2) alloc_page_table_high [OF ok p p0] by simp_all
      note fr = mmu_free_spec [OF m2(1) this]
      have "mmu_refs m' = mmu_refs m" using fr(2) d(2) m2(2) m1(3) by (simp add: fun_eq_iff)
      moreover have "phys m' q = phys m q" if "0 < mmu_refs m q" for q
        using that m1(3) by (auto simp: d(2) m2(3) ph1 fun_eq_iff)
      ultimately show ?thesis using d fr(1) sp sl p0 True by (simp add: same_regs_def)
    next
      case l0: False
      have l1: "mmu_refs m1 l = 0" using sl l0 by simp
      then have lp: "l \<noteq> p" using m1(2) by auto
      then have lref: "mmu_refs m l = 0" using l1 m1(2) by simp
      have ne: "l \<noteq> p" "l \<noteq> active_page_directory m" "p \<noteq> active_page_directory m"
        using lp lref m1(3) act by auto
      let ?m3 = "put_word p 0 (l OR PAGE_PRESENT OR PAGE_WRITABLE) (identity_table l m2)"
      have d: "d = p" "m' = for_loop 1 1024 (share_supervisor p) ?m3"
        using r p0 l0 by (auto simp: paging_create_address_space_def p l Let_def)
      note id = fill_loop [of 1024 l "\<lambda>i. of_nat i * PAGE_SIZE OR PAGE_PRESENT OR PAGE_WRITABLE" m2, folded identity_table_def]
      have act3: "active_page_directory ?m3 = active_page_directory m" using id sl sp by simp
      have ph3: "phys ?m3 q j = (if q = p \<and> j = 0 then l OR PAGE_PRESENT OR PAGE_WRITABLE
          else if q = l \<and> j < 1024 then of_nat j * PAGE_SIZE OR PAGE_PRESENT OR PAGE_WRITABLE
          else if q = p \<and> j < 1024 then 2 else phys m q j)" for q j
        using id sl l0 by (simp add: phys_put_word ph1)
      have "p \<noteq> active_page_directory ?m3" using ne(3) act3 by simp
      moreover have a3: "phys ?m3 (active_page_directory ?m3) = phys m (active_page_directory m)"
        unfolding act3 using ne(2,3) by (simp add: fun_eq_iff ph3)
      ultimately have sh: "mmu_frames m' = mmu_frames ?m3" "same_regs ?m3 m'"
          "\<And>q j. phys m' q j = (let e = phys m (active_page_directory m) j in
             if q = p \<and> 1 \<le> j \<and> j < 1024 \<and> bit e 0 \<and> \<not> bit e 2 then e else phys ?m3 q j)"
        using share_loop [of p ?m3 1024, unfolded a3] unfolding d(2) [symmetric] by simp_all
      have ph: "phys m' q j = (let e = phys m (active_page_directory m) j in
          if q = p \<and> 1 \<le> j \<and> j < 1024 \<and> bit e 0 \<and> \<not> bit e 2 then e else phys ?m3 q j)" for q j
        by (rule sh(3))
      have fr: "mmu_frames m' = mmu_frames m2" using sh(1) id by simp
      have regs: "same_regs m m'" using sh(2) id sl sp by (simp add: same_regs_def)
      have "space_made m m' p l"
        unfolding space_made_def
      proof (intro conjI allI impI)
        show "mmu_ok m'" using fr sl by (simp add: mmu_ok_def)
        show "mmu_refs m' = (mmu_refs m)(p := 1, l := 1)" using fr sl l0 m1(2) by (simp add: mmu_refs_def)
        show "RESERVED_LOW_END \<le> p" "RESERVED_LOW_END \<le> l"
          using alloc_page_table_high [OF ok p p0] alloc_page_table_high [OF m1(1) l l0] by simp_all
        show "phys m' q = phys m q" if "q \<noteq> p \<and> q \<noteq> l" for q using that by (simp add: fun_eq_iff ph ph3 Let_def)
        show "phys m' l j = (of_nat j * PAGE_SIZE OR PAGE_PRESENT OR PAGE_WRITABLE)" if "j < 1024" for j
          using that ne(1) by (simp add: ph ph3 Let_def)
        show "phys m' p i = (let e = phys m (active_page_directory m) i in
            if i = 0 then l OR PAGE_PRESENT OR PAGE_WRITABLE else if bit e 0 \<and> \<not> bit e 2 then e else 2)" if "i < 1024" for i
          using that ne(1) by (simp add: ph ph3 Let_def)
      qed (use regs sp sl p0 l0 ne m1(3) lref in auto)
      then show ?thesis using d(1) p0 by auto
    qed
  qed
qed

lemma space_madeD:
  assumes "space_made m m' d l"
  shows "mmu_ok m'" "same_regs m m'" "page_aligned d" "page_aligned l" "d \<noteq> l" "d \<noteq> 0" "l \<noteq> 0"
    "RESERVED_LOW_END \<le> d" "RESERVED_LOW_END \<le> l" "mmu_refs m d = 0" "mmu_refs m l = 0" "mmu_refs m' = (mmu_refs m)(d := 1, l := 1)"
    "q \<noteq> d \<Longrightarrow> q \<noteq> l \<Longrightarrow> phys m' q = phys m q"
    "j < 1024 \<Longrightarrow> phys m' l j = (of_nat j * PAGE_SIZE OR PAGE_PRESENT OR PAGE_WRITABLE)"
    "phys m' d 0 = l OR PAGE_PRESENT OR PAGE_WRITABLE"
    "i < 1024 \<Longrightarrow> i \<noteq> 0 \<Longrightarrow> phys m' d i = (let e = phys m (active_page_directory m) i in if bit e 0 \<and> \<not> bit e 2 then e else 2)"
  using assms unfolding space_made_def Let_def by (blast+, auto)

lemma made_tables:
  assumes mk: "space_made m m' d l" and i: "i < 1024"
  defines "e \<equiv> phys m (active_page_directory m) i"
  shows "table_of m' d i = (if i = 0 then Some l else if bit e 0 \<and> \<not> bit e 2 then table_of m (active_page_directory m) i else None)"
    "\<not> bit (phys m' d i) 2" "bit (phys m' d i) 1 \<longleftrightarrow> i = 0 \<or> \<not> bit e 0 \<or> bit e 2 \<or> bit e 1"
proof -
  have two: "\<not> bit (2 :: u32) 0" "\<not> bit (2 :: u32) 2" "bit (2 :: u32) 1" by (simp_all add: bit_numeral_rec)
  have low: "page_base (l OR PAGE_PRESENT OR PAGE_WRITABLE) = l" "bit (l OR PAGE_PRESENT OR PAGE_WRITABLE) 0"
    "\<not> bit (l OR PAGE_PRESENT OR PAGE_WRITABLE) 2" "bit (l OR PAGE_PRESENT OR PAGE_WRITABLE) 1"
    using space_madeD(4) [OF mk] by (simp_all add: page_base_flags entry_bits page_aligned_bits)
  note d0 = space_madeD(15) [OF mk] and di = space_madeD(16) [OF mk i, folded e_def, unfolded Let_def]
  show "table_of m' d i = (if i = 0 then Some l else if bit e 0 \<and> \<not> bit e 2 then table_of m (active_page_directory m) i else None)"
    using d0 di low two by (auto simp: table_of_def e_def)
  show "\<not> bit (phys m' d i) 2" "bit (phys m' d i) 1 \<longleftrightarrow> i = 0 \<or> \<not> bit e 0 \<or> bit e 2 \<or> bit e 1"
    using d0 di low two by (cases "i = 0"; auto)+
qed

lemma identity_bits: "j < 1024 \<Longrightarrow> \<not> bit (of_nat j * PAGE_SIZE OR PAGE_PRESENT OR PAGE_WRITABLE) 2"
proof -
  have "(of_nat j :: u32) * PAGE_SIZE = push_bit 12 (of_nat j)" by (simp add: PAGE_SIZE_def push_bit_eq_mult)
  then show ?thesis by (simp add: entry_bits bit_push_bit_iff)
qed

lemma made_no_user:
  assumes ok: "space_ok m (active_page_directory m)" and mk: "space_made m m' d l"
  shows "\<not> user_at m' d v e"
proof
  assume u: "user_at m' d v e"
  let ?i = "dir_index v" and ?j = "table_index v" and ?a = "active_page_directory m"
  obtain t where t: "table_of m' d ?i = Some t" "phys m' t ?j = e" "bit e 2" "bit e 0"
    using u user_at_present [OF u] by (auto simp: user_at_def walk_entry_table split: option.splits if_splits)
  show False
  proof (cases "?i = 0")
    case True
    then have "t = l" using t(1) made_tables(1) [OF mk, of 0] by simp
    then show False using t(2,3) space_madeD(14) [OF mk index_bounds(2) [of v]] identity_bits [OF index_bounds(2) [of v]] by simp
  next
    case False
    then have a: "table_of m ?a ?i = Some t" "\<not> bit (phys m ?a ?i) 2"
      using t(1) made_tables(1) [OF mk index_bounds(1)] by (auto split: if_splits)
    have pd: "pgdir_ok m ?a" using ok by (simp add: space_ok_def)
    note at = pgdir_okD [OF pd a(1) index_bounds(1)]
    have "t \<noteq> d" "t \<noteq> l" using at(2) space_madeD(10,11) [OF mk] by auto
    then have "phys m t ?j = e" using space_madeD(13) [OF mk] t(2) by simp
    then show False using at(5) [OF index_bounds(2)] t(3,4) a(2) by blast
  qed
qed

lemma made_space_ok:
  assumes ok: "space_ok m (active_page_directory m)" and mk: "space_made m m' d l"
  shows "space_ok m' d"
proof -
  let ?a = "active_page_directory m"
  have pd: "pgdir_ok m ?a" and sc: "scratch_ok m ?a" using ok by (simp_all add: space_ok_def)
  note no_user = made_no_user [OF ok mk]
  note refs = space_madeD(12) [OF mk]
  have scr: "kernel_scratch_table m' = kernel_scratch_table m" using space_madeD(2) [OF mk] by (simp add: same_regs_def)
  have shared: "table_of m ?a i = Some t \<and> t \<noteq> d \<and> t \<noteq> l \<and> 0 < mmu_refs m t \<and> \<not> bit (phys m ?a i) 2"
    if "i < 1024" "i \<noteq> 0" "table_of m' d i = Some t" for i t
  proof -
    have a: "table_of m ?a i = Some t" "\<not> bit (phys m ?a i) 2"
      using that made_tables(1) [OF mk that(1)] by (auto split: if_splits)
    then show ?thesis using pgdir_okD(2) [OF pd a(1) that(1)] space_madeD(10,11) [OF mk] by auto
  qed
  have low: "t = l" if "table_of m' d 0 = Some t" for t using that made_tables(1) [OF mk, of 0] by simp
  have "pgdir_ok m' d"
    unfolding pgdir_ok_def
  proof (intro conjI allI impI)
    show "page_aligned d" "0 < mmu_refs m' d" using space_madeD(3) [OF mk] refs by simp_all
    fix i t assume i: "i < 1024" "table_of m' d i = Some t"
    show "t \<noteq> d" "0 < mmu_refs m' t"
      using shared [OF i(1) _ i(2)] low i(2) space_madeD(5) [OF mk] refs by (cases "i = 0"; simp)+
    show "bit (phys m' d i) 1"
      using made_tables(3) [OF mk i(1)] shared [OF i(1) _ i(2)] pgdir_okD(3) [OF pd _ i(1)] by (cases "i = 0") auto
    show "bit (phys m' d i) 2" if j: "j < 1024" "bit (phys m' t j) 0 \<and> bit (phys m' t j) 2" for j
    proof -
      obtain v where v: "dir_index v = i" "table_index v = j" using index_exists [OF i(1) j(1)] by blast
      then have "user_at m' d v (phys m' t j)" using i(2) j(2) by (simp add: user_at_def walk_entry_table)
      then show ?thesis using no_user by blast
    qed
  next
    fix i j t assume ij: "i < 1024" "j < 1024" "table_of m' d i = Some t \<and> table_of m' d j = Some t"
    show "i = j"
      using shared [OF ij(1), of t] shared [OF ij(2), of t] low [of t] ij pgdir_okD(6) [OF pd _ ij(1,2)]
      by (cases "i = 0"; cases "j = 0"; simp)
  qed
  moreover have "scratch_ok m' d"
    unfolding scratch_ok_def scr
  proof (intro conjI allI impI)
    have s: "kernel_scratch_table m \<noteq> 0 \<Longrightarrow> 0 < mmu_refs m (kernel_scratch_table m)"
      "\<And>i. i < 768 \<Longrightarrow> table_of m ?a i \<noteq> Some (kernel_scratch_table m)"
      using sc by (auto simp: scratch_ok_def)
    have ne: "kernel_scratch_table m \<noteq> d" "kernel_scratch_table m \<noteq> l"
      using s(1) space_madeD(6,7,10,11) [OF mk] by auto
    then show "kernel_scratch_table m \<noteq> d" by simp
    show "0 < mmu_refs m' (kernel_scratch_table m)" if "kernel_scratch_table m \<noteq> 0" using s(1) [OF that] ne by (simp add: refs)
    show "table_of m' d i \<noteq> Some (kernel_scratch_table m)" if "i < 768" for i
    proof
      assume t: "table_of m' d i = Some (kernel_scratch_table m)"
      then show False using shared [OF _ _ t] s(2) [OF that] low ne(2) that by (cases "i = 0") auto
    qed
  qed
  moreover have "pages_of m' d q = {}" for q using no_user by (simp add: pages_of_def)
  ultimately show ?thesis
    using no_user space_madeD(1) [OF mk] by (simp add: space_ok_def frames_apart_def frames_private_def)
qed

lemma made_other_space:
  assumes sp: "space_ok m s" and mk: "space_made m m' d l"
  shows "space_ok m' s \<and> view m' s = view m s"
proof -
  note refs = space_madeD(12) [OF mk] and fresh = space_madeD(10,11) [OF mk]
  have live: "phys m' q = phys m q" if "0 < mmu_refs m q" for q
  proof -
    have "q \<noteq> d" "q \<noteq> l" using that fresh by auto
    then show ?thesis by (rule space_madeD(13) [OF mk])
  qed
  have scr: "kernel_scratch_table m' = kernel_scratch_table m" using space_madeD(2) [OF mk] by (simp add: same_regs_def)
  have "phys m' (kernel_scratch_table m) = phys m (kernel_scratch_table m)"
  proof (cases "kernel_scratch_table m = 0")
    case True
    then show ?thesis using space_madeD(6,7,13) [OF mk] by simp
  next
    case False
    then show ?thesis using sp live by (simp add: space_ok_def scratch_ok_def)
  qed
  then have s: "\<And>j. phys m' (kernel_scratch_table m) j = phys m (kernel_scratch_table m) j \<or> \<not> bit (phys m' (kernel_scratch_table m) j) 0"
    by simp
  have mono: "mmu_refs m q \<le> mmu_refs m' q" for q using fresh by (simp add: refs)
  have pos: "\<And>q. 0 < mmu_refs m q \<Longrightarrow> 0 < mmu_refs m' q" using mono less_le_trans by blast
  have pages: "\<And>q. card (pages_of m s q) \<le> mmu_refs m' q" using mono space_ok_pages_of [OF sp] le_trans by blast
  have "space_ok m' s \<and> phys m' s = phys m s \<and> (\<forall>w g. user_at m' s w g = user_at m s w g) \<and> view m' s = view m s"
    by (rule other_space [OF sp space_madeD(1) [OF mk] scr live s pos pages])
  then show ?thesis by blast
qed

section \<open>A destroyed space\<close>

text \<open>The references that a space holds: one for each page that a frame backs, one for each table of its own and for the directory.\<close>

definition described_by :: "mmu \<Rightarrow> u32 \<Rightarrow> u32 \<Rightarrow> bool" where
  "described_by m d q \<longleftrightarrow> q = d \<or> (\<exists>i<1024. own_table m d i \<and> q = table_at m d i)"

definition held :: "mmu \<Rightarrow> u32 \<Rightarrow> u32 \<Rightarrow> nat" where
  "held m d q = card (pages_of m d q) + (if described_by m d q then 1 else 0)"

text \<open>Nothing of the space lies in the memory below 3 MiB, which is never freed.\<close>

definition above_reserved :: "mmu \<Rightarrow> u32 \<Rightarrow> bool" where
  "above_reserved m d \<longleftrightarrow> RESERVED_LOW_END \<le> d \<and> (\<forall>i<1024. own_table m d i \<longrightarrow> RESERVED_LOW_END \<le> table_at m d i) \<and>
     (\<forall>v e. user_at m d v e \<longrightarrow> RESERVED_LOW_END \<le> page_base e)"

lemma pages_total:
  assumes sp: "space_ok m d"
  shows "total_uses m d d 1024 q = card (pages_of m d q)"
proof (rule antisym)
  let ?J = "\<lambda>i. {j. j < 1024 \<and> user_page (phys m (table_at m d i) j) \<and> page_base (phys m (table_at m d i) j) = q}"
  let ?I = "{i. i < 1024 \<and> own_table m d i}"
  let ?f = "\<lambda>v. (dir_index v, table_index v)"
  have sub: "(SIGMA i:?I. ?J i) \<subseteq> ?f ` pages_of m d q"
  proof
    fix x assume "x \<in> (SIGMA i:?I. ?J i)"
    then obtain i j where x: "x = (i, j)" "i < 1024" "own_table m d i" "j < 1024" "user_page (phys m (table_at m d i) j)"
        "page_base (phys m (table_at m d i) j) = q"
      by blast
    obtain v where v: "dir_index v = i" "table_index v = j" using index_exists [OF x(2,4)] by blast
    have s: "same_page (page_base v) v" by simp
    have "user_at m d v (phys m (table_at m d i) j)"
      using own_table_facts(1) [OF sp x(2,3)] x(5) v by (simp add: user_at_def walk_entry_table user_page_bits)
    then have "page_base v \<in> pages_of m d q" using user_page_of(1) x(6) by blast
    moreover have "?f (page_base v) = x" using s v x(1) by (simp add: same_page_def)
    ultimately show "x \<in> ?f ` pages_of m d q" by blast
  qed
  have fin: "finite (pages_of m d q)" by simp
  have "card (SIGMA i:?I. ?J i) \<le> card (pages_of m d q)"
    by (rule order_trans [OF card_mono [OF finite_imageI [OF fin] sub] card_image_le [OF fin]])
  moreover have "card (SIGMA i:?I. ?J i) = (\<Sum>i\<in>?I. card (?J i))" by (rule card_SigmaI) simp_all
  ultimately show "total_uses m d d 1024 q \<le> card (pages_of m d q)"
    by (simp add: total_uses_def frame_uses_def sum.inter_filter [symmetric] lessThan_def conj_commute)
  show "card (pages_of m d q) \<le> total_uses m d d 1024 q" by (rule pages_counted [OF sp])
qed

lemma destroy_pages:
  assumes "mmu_ok m" and "k \<le> 1024" and "\<And>q. frame_uses m t 1024 q \<le> mmu_refs m q"
    and "\<And>j. j < 1024 \<Longrightarrow> user_page (phys m t j) \<Longrightarrow> RESERVED_LOW_END \<le> page_base (phys m t j)"
  shows "mmu_ok (for_loop 0 k (destroy_page t) m) \<and> same_regs m (for_loop 0 k (destroy_page t) m) \<and>
    (\<forall>q. mmu_refs (for_loop 0 k (destroy_page t) m) q + frame_uses m t k q = mmu_refs m q) \<and>
    (\<forall>q j. q \<noteq> t \<or> k \<le> j \<longrightarrow> phys (for_loop 0 k (destroy_page t) m) q j = phys m q j)"
  using assms(2)
proof (induction k)
  case 0
  then show ?case using assms(1) by (simp add: for_loop_done)
next
  case (Suc k)
  let ?m = "for_loop 0 k (destroy_page t) m" and ?e = "phys m t k"
  have k: "k < 1024" using Suc.prems by simp
  note ih = Suc.IH [OF less_imp_le [OF k]]
  have e: "phys ?m t k = ?e" using ih by simp
  have step: "for_loop 0 (Suc k) (destroy_page t) m = (if user_page ?e then put_word t k 2 (mmu_free (page_base ?e) ?m) else ?m)"
    by (simp add: for_loop_last destroy_page_def e Let_def)
  show ?case
  proof (cases "user_page ?e")
    case False
    then show ?thesis unfolding step using ih by auto
  next
    case True
    have "frame_uses m t (Suc k) (page_base ?e) \<le> frame_uses m t 1024 (page_base ?e)"
      unfolding frame_uses_def using k by (intro card_mono) auto
    then have "frame_uses m t k (page_base ?e) < mmu_refs m (page_base ?e)"
      using assms(3) [of "page_base ?e"] True by simp
    then have live: "0 < mmu_refs ?m (page_base ?e)" using ih by (metis add_0 less_irrefl neq0_conv)
    have ok: "mmu_ok ?m" using ih by blast
    note fr = mmu_free_spec [OF ok live assms(4) [OF k True]]
    let ?m1 = "put_word t k 2 (mmu_free (page_base ?e) ?m)"
    have refs: "mmu_refs ?m1 q + frame_uses m t (Suc k) q = mmu_refs m q" for q
    proof -
      have "mmu_refs ?m1 q = (if q = page_base ?e then mmu_refs ?m q - 1 else mmu_refs ?m q)"
        using fr(2) by (simp add: mmu_refs_def)
      moreover have "mmu_refs ?m q + frame_uses m t k q = mmu_refs m q" using ih by blast
      ultimately show ?thesis using live True by auto
    qed
    have "mmu_ok ?m1" using fr(1) by (simp add: mmu_ok_def)
    moreover have "same_regs m ?m1" using ih by (simp add: same_regs_def)
    moreover have "phys ?m1 q j = phys m q j" if "q \<noteq> t \<or> Suc k \<le> j" for q j using ih that by (auto simp: phys_put_word)
    ultimately show ?thesis unfolding step using True refs by simp
  qed
qed

text \<open>What the first \<open>k\<close> entries of the directory hold.\<close>

definition entry_held :: "mmu \<Rightarrow> u32 \<Rightarrow> nat \<Rightarrow> u32 \<Rightarrow> nat" where
  "entry_held m d i q = (if own_table m d i then frame_uses m (table_at m d i) 1024 q + (if q = table_at m d i then 1 else 0) else 0)"

definition tables_held :: "mmu \<Rightarrow> u32 \<Rightarrow> nat \<Rightarrow> u32 \<Rightarrow> nat" where
  "tables_held m d k q = (\<Sum>i<k. entry_held m d i q)"

lemma tables_held_Suc: "tables_held m d (Suc k) q = tables_held m d k q + entry_held m d k q"
  by (simp add: tables_held_def)

lemma tables_held_mono: "k \<le> k' \<Longrightarrow> tables_held m d k q \<le> tables_held m d k' q"
  unfolding tables_held_def by (rule sum_mono2) auto

lemma tables_held_all:
  assumes sp: "space_ok m d"
  shows "tables_held m d 1024 q + (if q = d then 1 else 0) = held m d q"
proof -
  let ?own = "\<lambda>i. i < 1024 \<and> own_table m d i \<and> q = table_at m d i"
  have count: "(\<Sum>i<1024. if own_table m d i then (if q = table_at m d i then 1 else 0 :: nat) else 0) = (if \<exists>i. ?own i then 1 else 0)"
  proof (cases "\<exists>i. ?own i")
    case True
    then obtain i where i: "i < 1024" "own_table m d i" "q = table_at m d i" by blast
    have "(if own_table m d j then (if q = table_at m d j then 1 else 0 :: nat) else 0) = (if j = i then 1 else 0)" if "j < 1024" for j
      using own_table_facts(4) [OF sp i(1,2) that] i by auto
    then have "(\<Sum>j<1024. if own_table m d j then (if q = table_at m d j then 1 else 0 :: nat) else 0) = (\<Sum>j<1024. if j = i then 1 else 0)"
      by (intro sum.cong) simp_all
    also have "\<dots> = 1" using i(1) by (simp add: sum.delta)
    finally show ?thesis using True by simp
  next
    case False
    then have "(\<Sum>j<1024. if own_table m d j then (if q = table_at m d j then 1 else 0 :: nat) else 0) = 0" by (intro sum.neutral) auto
    then show ?thesis using False by simp
  qed
  have "tables_held m d 1024 q = total_uses m d d 1024 q + (\<Sum>i<1024. if own_table m d i then (if q = table_at m d i then 1 else 0) else 0)"
    unfolding tables_held_def entry_held_def total_uses_def sum.distrib [symmetric] by (rule sum.cong) auto
  then have "tables_held m d 1024 q = card (pages_of m d q) + (if \<exists>i. ?own i then 1 else 0)"
    unfolding count pages_total [OF sp] .
  moreover have "\<not> ?own i" if "q = d" for i using own_table_facts(3) [OF sp] that by blast
  ultimately show ?thesis by (auto simp: held_def described_by_def)
qed

lemma held_counted:
  assumes sp: "space_ok m d"
  shows "held m d q \<le> mmu_refs m q"
proof (cases "described_by m d q")
  case True
  have pd: "pgdir_ok m d" using sp by (simp add: space_ok_def)
  have live: "0 < mmu_refs m q"
    using True pd own_table_facts(2) [OF sp] by (auto simp: described_by_def pgdir_ok_def)
  have "page_base e \<noteq> q" if "user_at m d v e" for v e
    using True user_at_facts(3,5) [OF sp that] own_table_facts(1) [OF sp] by (auto simp: described_by_def)
  then have "pages_of m d q = {}" by (auto simp: pages_of_def)
  then show ?thesis using live True by (simp add: held_def)
next
  case False
  then show ?thesis using space_ok_pages_of [OF sp] by (simp add: held_def)
qed

text \<open>
  The loops that give a directory back differ in the tables they skip and in what they expect in them. All release the pages of each table of the
  directory and then the table; \<open>gives_back\<close> says that there is a reference for each.
\<close>

definition gives_back :: "mmu \<Rightarrow> u32 \<Rightarrow> bool" where
  "gives_back m d \<longleftrightarrow> (mmu_ok m \<and> RESERVED_LOW_END \<le> d) \<and>
     (\<forall>q. tables_held m d 1024 q + (if q = d then 1 else 0) \<le> mmu_refs m q) \<and>
     (\<forall>i<1024. own_table m d i \<longrightarrow> RESERVED_LOW_END \<le> table_at m d i \<and> table_at m d i \<noteq> d \<and>
        (\<forall>i'<1024. own_table m d i' \<and> table_at m d i' = table_at m d i \<longrightarrow> i' = i) \<and>
        (\<forall>j<1024. user_page (phys m (table_at m d i) j) \<longrightarrow> RESERVED_LOW_END \<le> page_base (phys m (table_at m d i) j)))"

lemma gives_backD:
  assumes "gives_back m d"
  shows "mmu_ok m" "RESERVED_LOW_END \<le> d" "tables_held m d 1024 q + (if q = d then 1 else 0) \<le> mmu_refs m q"
    "i < 1024 \<Longrightarrow> own_table m d i \<Longrightarrow> RESERVED_LOW_END \<le> table_at m d i \<and> table_at m d i \<noteq> d"
    "i < 1024 \<Longrightarrow> own_table m d i \<Longrightarrow> i' < 1024 \<Longrightarrow> own_table m d i' \<Longrightarrow> table_at m d i' = table_at m d i \<Longrightarrow> i' = i"
    "i < 1024 \<Longrightarrow> own_table m d i \<Longrightarrow> j < 1024 \<Longrightarrow> user_page (phys m (table_at m d i) j) \<Longrightarrow>
       RESERVED_LOW_END \<le> page_base (phys m (table_at m d i) j)"
  using assms unfolding gives_back_def by blast+

definition free_table :: "mmu \<Rightarrow> u32 \<Rightarrow> nat \<Rightarrow> mmu \<Rightarrow> mmu" where
  "free_table m d k m1 = (if own_table m d k
     then put_word d k 2 (mmu_free (table_at m d k) (for_loop 0 1024 (destroy_page (table_at m d k)) m1)) else m1)"

definition releases :: "mmu \<Rightarrow> u32 \<Rightarrow> (nat \<Rightarrow> mmu \<Rightarrow> mmu) \<Rightarrow> bool" where
  "releases m d rel \<longleftrightarrow> (\<forall>k<1024. \<forall>m1. phys m1 d k = phys m d k \<longrightarrow>
     (if own_table m d k then phys m1 (table_at m d k) = phys m (table_at m d k) \<longrightarrow> rel k m1 = free_table m d k m1 else rel k m1 = m1))"

lemma release_tables:
  assumes gb: "gives_back m d" and "k \<le> 1024"
    and rel: "releases m d rel"
  shows "mmu_ok (for_loop 0 k rel m) \<and> same_regs m (for_loop 0 k rel m) \<and>
    (\<forall>q. mmu_refs (for_loop 0 k rel m) q + tables_held m d k q = mmu_refs m q) \<and>
    (\<forall>q. q \<noteq> d \<and> (\<forall>i<k. own_table m d i \<longrightarrow> q \<noteq> table_at m d i) \<longrightarrow> phys (for_loop 0 k rel m) q = phys m q) \<and>
    (\<forall>i. k \<le> i \<and> i < 1024 \<longrightarrow> phys (for_loop 0 k rel m) d i = phys m d i)"
  using assms(2)
proof (induction k)
  case 0
  then show ?case using gives_backD(1) [OF gb] by (simp add: for_loop_done tables_held_def)
next
  case (Suc k)
  let ?m = "for_loop 0 k rel m" and ?t = "table_at m d k"
  have k: "k < 1024" using Suc.prems by simp
  note ih = Suc.IH [OF less_imp_le [OF k]]
  have ok: "mmu_ok ?m" and regs: "same_regs m ?m" using ih by blast+
  have refs: "mmu_refs ?m q + tables_held m d k q = mmu_refs m q" for q using ih by blast
  have old: "phys ?m q = phys m q" if "q \<noteq> d" "\<And>i. i < k \<Longrightarrow> own_table m d i \<Longrightarrow> q \<noteq> table_at m d i" for q using ih that by blast
  have dir: "phys ?m d i = phys m d i" if "k \<le> i" "i < 1024" for i using ih that by blast
  have e: "phys ?m d k = phys m d k" using dir [OF order_refl k] .
  show ?case
  proof (cases "own_table m d k")
    case False
    then have "for_loop 0 (Suc k) rel m = ?m" using rel k e by (simp add: for_loop_last releases_def)
    then show ?thesis using ih False by (auto simp: tables_held_Suc entry_held_def less_Suc_eq)
  next
    case True
    have high: "RESERVED_LOW_END \<le> ?t" and td: "?t \<noteq> d" using gives_backD(4) [OF gb k True] by simp_all
    have "?t \<noteq> table_at m d i" if "i < k" "own_table m d i" for i
      using gives_backD(5) [OF gb k True _ that(2)] that(1) k by auto
    then have pt: "phys ?m ?t = phys m ?t" by (intro old [OF td]) auto
    have step: "for_loop 0 (Suc k) rel m = put_word d k 2 (mmu_free ?t (for_loop 0 1024 (destroy_page ?t) ?m))"
      using rel k e True pt by (simp add: for_loop_last releases_def free_table_def)
    have uses: "frame_uses ?m ?t 1024 q = frame_uses m ?t 1024 q" for q by (rule frame_uses_cong) (simp add: pt)
    have bound: "frame_uses m ?t 1024 q + (if q = ?t then 1 else 0) \<le> mmu_refs ?m q" for q
    proof -
      have "tables_held m d (Suc k) q \<le> tables_held m d 1024 q" by (rule tables_held_mono) (use k in simp)
      also have "\<dots> \<le> mmu_refs m q" using gives_backD(3) [OF gb, of q] by simp
      finally show ?thesis using refs [of q] True by (simp add: tables_held_Suc entry_held_def)
    qed
    have "RESERVED_LOW_END \<le> page_base (phys ?m ?t j)" if "j < 1024" "user_page (phys ?m ?t j)" for j
      using gives_backD(6) [OF gb k True that(1)] that(2) pt by simp
    moreover have "frame_uses ?m ?t 1024 q \<le> mmu_refs ?m q" for q using bound [of q] by (simp add: uses)
    ultimately have pages: "mmu_ok (for_loop 0 1024 (destroy_page ?t) ?m)" "same_regs ?m (for_loop 0 1024 (destroy_page ?t) ?m)"
        "\<And>q. mmu_refs (for_loop 0 1024 (destroy_page ?t) ?m) q + frame_uses m ?t 1024 q = mmu_refs ?m q"
        "\<And>q j. q \<noteq> ?t \<Longrightarrow> phys (for_loop 0 1024 (destroy_page ?t) ?m) q j = phys ?m q j"
      using destroy_pages [OF ok order_refl, of ?t] by (simp_all add: uses)
    let ?p = "for_loop 0 1024 (destroy_page ?t) ?m" and ?m' = "for_loop 0 (Suc k) rel m"
    have "0 < mmu_refs ?p ?t" using bound [of ?t] pages(3) [of ?t] by simp
    note fr = mmu_free_spec [OF pages(1) this high]
    have "mmu_refs ?m' q = (if q = ?t then mmu_refs ?p q - 1 else mmu_refs ?p q)" for q
      unfolding step using fr(2) by (simp add: mmu_refs_def)
    then have "mmu_refs ?m' q + tables_held m d (Suc k) q = mmu_refs m q" for q
      using refs [of q] pages(3) [of q] bound [of q] True by (auto simp: tables_held_Suc entry_held_def)
    moreover have "mmu_ok ?m'" unfolding step using fr(1) by (simp add: mmu_ok_def)
    moreover have "same_regs m ?m'" unfolding step using regs pages(2) by (simp add: same_regs_def)
    moreover have "phys ?m' q = phys m q" if "q \<noteq> d" "\<forall>i<Suc k. own_table m d i \<longrightarrow> q \<noteq> table_at m d i" for q
    proof -
      have "q \<noteq> ?t" using that(2) True by simp
      then have "phys ?m' q = phys ?m q" unfolding step using pages(4) that(1) by (simp add: fun_eq_iff phys_put_word)
      then show ?thesis using old that by simp
    qed
    moreover have "phys ?m' d i = phys m d i" if "Suc k \<le> i" "i < 1024" for i
      unfolding step using pages(4) td dir that by (simp add: phys_put_word)
    ultimately show ?thesis by blast
  qed
qed

text \<open>The directory itself is given back last.\<close>

lemma release_directory:
  assumes gb: "gives_back m d"
    and rel: "releases m d rel"
  defines "m' \<equiv> mmu_free d (for_loop 0 1024 rel m)"
  shows "mmu_ok m'" "same_regs m m'" "mmu_refs m' q + tables_held m d 1024 q + (if q = d then 1 else 0) = mmu_refs m q"
    "\<not> described_by m d q \<Longrightarrow> phys m' q = phys m q"
proof -
  let ?m = "for_loop 0 1024 rel m"
  have t: "mmu_ok ?m" "same_regs m ?m" "\<And>q. mmu_refs ?m q + tables_held m d 1024 q = mmu_refs m q"
      "\<And>q. q \<noteq> d \<Longrightarrow> \<forall>i<1024. own_table m d i \<longrightarrow> q \<noteq> table_at m d i \<Longrightarrow> phys ?m q = phys m q"
    using release_tables [OF gb order_refl rel] by blast+
  have "0 < mmu_refs ?m d" using t(3) [of d] gives_backD(3) [OF gb, of d] by simp
  then have fr: "mmu_ok m'" "mmu_refs m' = (mmu_refs ?m)(d := mmu_refs ?m d - 1)" "0 < mmu_refs ?m d"
    using mmu_free_spec [OF t(1) _ gives_backD(2) [OF gb]] by (simp_all add: m'_def)
  show "mmu_ok m'" by (rule fr(1))
  show "same_regs m m'" using t(2) by (simp add: m'_def same_regs_def)
  show "mmu_refs m' q + tables_held m d 1024 q + (if q = d then 1 else 0) = mmu_refs m q" using t(3) [of q] fr(2,3) by auto
  show "phys m' q = phys m q" if "\<not> described_by m d q" using t(4) that by (simp add: m'_def described_by_def)
qed

lemma space_gives_back:
  assumes sp: "space_ok m d" and above: "above_reserved m d"
  shows "gives_back m d"
proof -
  have "RESERVED_LOW_END \<le> page_base (phys m (table_at m d i) j)"
    if i: "i < 1024" "own_table m d i" and j: "j < 1024" "user_page (phys m (table_at m d i) j)" for i j
  proof -
    obtain v where v: "dir_index v = i" "table_index v = j" using index_exists [OF i(1) j(1)] by blast
    have "user_at m d v (phys m (table_at m d i) j)"
      using own_table_facts(1) [OF sp i] j(2) v by (simp add: user_at_def walk_entry_table user_page_bits)
    then show ?thesis using above by (auto simp: above_reserved_def)
  qed
  moreover have "table_at m d i \<noteq> d" if "i < 1024" "own_table m d i" for i using own_table_facts(3) [OF sp that] .
  moreover have "i' = i" if "i < 1024" "own_table m d i" "i' < 1024" "own_table m d i'" "table_at m d i' = table_at m d i" for i i'
    using own_table_facts(4) [OF sp that(3,4,1,2,5)] .
  ultimately show ?thesis
    using sp above held_counted [OF sp] tables_held_all [OF sp] by (simp add: gives_back_def space_ok_def above_reserved_def)
qed

lemma destroy_space:
  assumes sp: "space_ok m d" and above: "above_reserved m d" and act: "d \<noteq> active_page_directory m"
  defines "m' \<equiv> paging_destroy_address_space d m"
  shows "mmu_ok m'" "same_regs m m'" "mmu_refs m' q + held m d q = mmu_refs m q"
    "\<not> described_by m d q \<Longrightarrow> phys m' q = phys m q"
proof -
  note gb = space_gives_back [OF sp above]
  have base: "page_base d = d" using sp page_base_of_aligned by (simp add: space_ok_def pgdir_ok_def)
  have "d \<noteq> 0" "d \<noteq> PAGE_DIRECTORY_PHYSICAL"
    using gives_backD(2) [OF gb] by (auto simp: RESERVED_LOW_END_def PAGE_DIRECTORY_PHYSICAL_def)
  then have m': "m' = mmu_free d (for_loop 0 1024 (destroy_table d) m)"
    using act by (simp add: m'_def paging_destroy_address_space_def base)
  have "destroy_table d k m1 = free_table m d k m1"
    if "k < 1024" "phys m1 d k = phys m d k" "own_table m d k" for k m1
  proof -
    have "table_at m d k \<noteq> FIRST_PAGE_TABLE_PHYSICAL"
      using gives_backD(4) [OF gb that(1,3)] by (auto simp: RESERVED_LOW_END_def FIRST_PAGE_TABLE_PHYSICAL_def)
    then show ?thesis using that by (auto simp: destroy_table_def free_table_def private_table_def Let_def)
  qed
  moreover have "destroy_table d k m1 = m1" if "phys m1 d k = phys m d k" "\<not> own_table m d k" for k m1
    using that by (auto simp: destroy_table_def private_table_def Let_def)
  ultimately have "releases m d (destroy_table d)" by (simp add: releases_def)
  note rd = release_directory [OF gb this, folded m']
  show "mmu_ok m'" by (rule rd(1))
  show "same_regs m m'" by (rule rd(2))
  show "mmu_refs m' q + held m d q = mmu_refs m q" unfolding tables_held_all [OF sp, symmetric] add.assoc [symmetric] by (rule rd(3))
  show "phys m' q = phys m q" if "\<not> described_by m d q" by (rule rd(4) [OF that])
qed

section \<open>The other spaces\<close>

text \<open>What a space \<open>d\<close> must leave to a space \<open>s\<close>: it does not use the frames that describe \<open>s\<close>, its own tables are no memory of \<open>s\<close>, and
  each has its own references to the pages they share.\<close>

definition independent :: "mmu \<Rightarrow> u32 \<Rightarrow> u32 \<Rightarrow> bool" where
  "independent m d s \<longleftrightarrow> (\<forall>q. described_by m d q \<longrightarrow> \<not> table_frame m s q \<and> (\<forall>v e. user_at m s v e \<longrightarrow> page_base e \<noteq> q)) \<and>
     (\<forall>v e. user_at m d v e \<longrightarrow> \<not> table_frame m s (page_base e)) \<and>
     (\<forall>q. card (pages_of m d q) + card (pages_of m s q) \<le> mmu_refs m q)"

lemma destroy_leaves_others:
  assumes sp: "space_ok m d" and above: "above_reserved m d" and act: "d \<noteq> active_page_directory m"
    and s: "space_ok m s" "independent m d s"
  defines "m' \<equiv> paging_destroy_address_space d m"
  shows "space_ok m' s \<and> view m' s = view m s"
proof -
  note ds = destroy_space [OF sp above act, folded m'_def]
  have scr: "kernel_scratch_table m' = kernel_scratch_table m" using ds(2) by (simp add: same_regs_def)
  have ind: "\<not> described_by m d q" if "table_frame m s q \<or> (\<exists>v e. user_at m s v e \<and> page_base e = q)" for q
    using s(2) that unfolding independent_def by blast
  have nopage: "pages_of m d q = {}" if "table_frame m s q" for q
    using s(2) that by (auto simp: independent_def pages_of_def)
  have kept: "phys m' q = phys m q" if "table_frame m s q \<or> (\<exists>v e. user_at m s v e \<and> page_base e = q)" for q
    using ds(4) [OF ind [OF that]] .
  have refs: "mmu_refs m' q + held m d q = mmu_refs m q" for q by (rule ds(3))
  have tf: "0 < mmu_refs m' q" if "0 < mmu_refs m q" "table_frame m s q" for q
    using refs [of q] that(1) ind [of q] nopage [OF that(2)] that(2) by (simp add: held_def)
  have pages: "card (pages_of m s q) \<le> mmu_refs m' q" for q
  proof (cases "pages_of m s q = {}")
    case False
    then have "\<not> described_by m d q" using ind by (auto simp: pages_of_def)
    moreover have "card (pages_of m d q) + card (pages_of m s q) \<le> mmu_refs m q" using s(2) by (simp add: independent_def)
    ultimately show ?thesis using refs [of q] by (simp add: held_def)
  qed simp
  have tr: "space_ok m' s \<and> (\<forall>v. dir_index v < 768 \<longrightarrow> walk_entry s v m' = walk_entry s v m)"
  proof (rule space_ok_transfer [OF s(1) ds(1) scr _ _ tf pages])
    fix q j assume "q = s \<or> (\<exists>i<1024. table_of m s i = Some q)"
    then have "table_frame m s q" by (auto simp: table_frame_def)
    then show "phys m' q j = phys m q j" using kept by simp
  next
    have "table_frame m s (kernel_scratch_table m)" by (simp add: table_frame_def)
    then show "phys m' (kernel_scratch_table m) j = phys m (kernel_scratch_table m) j \<or> \<not> bit (phys m' (kernel_scratch_table m) j) 0" for j
      using kept by simp
  qed
  then have okd: "space_ok m' s" ..
  have u: "user_at m' s w g = user_at m s w g" for w g
    using tr user_at_facts(2) [OF s(1), of w g] user_at_facts(2) [OF okd, of w g] by (auto simp: user_at_def)
  have "view m' s w = view m s w" for w
  proof (rule view_cong)
    fix e assume "user_at m' s w e"
    then have e: "user_at m s w e" by (simp add: u)
    then have "phys m' (page_base e) = phys m (page_base e)" by (intro kept) blast
    then show "\<exists>e'. user_at m s w e' \<and> (\<forall>j<1024. phys m' (page_base e) j = phys m (page_base e') j)" using e by auto
  qed (auto simp: u)
  then show ?thesis using okd by auto
qed

section \<open>Creating and destroying\<close>

lemma made_held:
  assumes ok: "space_ok m (active_page_directory m)" and mk: "space_made m m' d l"
  shows "held m' d q = (if q = d \<or> q = l then 1 else 0)" "above_reserved m' d" "d \<noteq> active_page_directory m'"
proof -
  have own: "own_table m' d i \<longleftrightarrow> i = 0" if "i < 1024" for i
    using made_tables(1,2) [OF mk that] by (auto simp: private_table_bits table_of_def split: if_splits)
  have l: "table_at m' d 0 = l" using made_tables(1) [OF mk, of 0] by (auto simp: table_of_def split: if_splits)
  have "(\<exists>i<1024. own_table m' d i \<and> q = table_at m' d i) \<longleftrightarrow> q = l" for q
    using own [of 0] own l by (intro iffI) (auto intro: exI [of _ 0])
  then have "described_by m' d q \<longleftrightarrow> q = d \<or> q = l" for q by (simp add: described_by_def)
  then show "held m' d q = (if q = d \<or> q = l then 1 else 0)" using made_no_user [OF ok mk] by (simp add: held_def pages_of_def)
  show "above_reserved m' d" using own l space_madeD(8,9) [OF mk] made_no_user [OF ok mk] by (auto simp: above_reserved_def)
  have "0 < mmu_refs m (active_page_directory m)" using ok by (simp add: space_ok_def pgdir_ok_def)
  then show "d \<noteq> active_page_directory m'" using space_madeD(2,10) [OF mk] by (auto simp: same_regs_def)
qed

lemma made_destroyed:
  assumes ok: "space_ok m (active_page_directory m)" and mk: "space_made m m' d l"
  shows "mmu_refs (paging_destroy_address_space d m') = mmu_refs m"
    "0 < mmu_refs m q \<Longrightarrow> phys (paging_destroy_address_space d m') q = phys m q"
proof -
  note h = made_held [OF ok mk]
  note ds = destroy_space [OF made_space_ok [OF ok mk] h(2,3)]
  show "mmu_refs (paging_destroy_address_space d m') = mmu_refs m"
  proof
    fix q
    show "mmu_refs (paging_destroy_address_space d m') q = mmu_refs m q"
      using ds(3) [of q] h(1) [of q] space_madeD(5,10-12) [OF mk] by (auto split: if_splits)
  qed
  assume q: "0 < mmu_refs m q"
  then have ne: "q \<noteq> d" "q \<noteq> l" using space_madeD(10,11) [OF mk] by auto
  then have "\<not> described_by m' d q" using h(1) [of q] by (auto simp: held_def split: if_splits)
  then show "phys (paging_destroy_address_space d m') q = phys m q" using ds(4) space_madeD(13) [OF mk ne] by simp
qed

lemma made_identity:
  assumes mk: "space_made m m' d l" and v: "v < IDENTITY_MAPPED_LIMIT"
  shows "walk_entry d v m' = Some (page_base v OR PAGE_PRESENT OR PAGE_WRITABLE)"
proof -
  have "v AND mask 22 = v" using v by (intro less_mask_eq) (simp add: IDENTITY_MAPPED_LIMIT_def)
  then have high: "\<not> bit v k" if "22 \<le> k" for k using that by (metis bit_and_iff bit_mask_iff not_le)
  have m: "(0x3FF :: u32) = mask 10" by (simp add: mask_eq_exp_minus_1)
  have "drop_bit 22 v AND 0x3FF = 0" unfolding m by (rule u32_eqI) (simp add: bit_simps high)
  then have dir: "dir_index v = 0" by (simp only: dir_index_def unat_0)
  have "(of_nat (table_index v) :: u32) * PAGE_SIZE = push_bit 12 (drop_bit 12 v AND mask 10)"
    by (simp add: PAGE_SIZE_def push_bit_eq_mult table_index_def m)
  also have "\<dots> = page_base v"
  proof (rule u32_eqI)
    fix k show "bit (push_bit 12 (drop_bit 12 v AND mask 10)) k = bit (page_base v) k" if "k < 32"
      using high [of k] that by (cases "22 \<le> k") (auto simp: bit_simps bit_page_base)
  qed
  finally have base: "(of_nat (table_index v) :: u32) * PAGE_SIZE = page_base v" .
  have "table_of m' d (dir_index v) = Some l" using made_tables(1) [OF mk, of 0] dir by simp
  then show ?thesis
    using space_madeD(14) [OF mk index_bounds(2), of v] by (simp add: walk_entry_table base entry_bits)
qed

text \<open>Nothing that a space can see has changed when the counts and the frames in use are the old ones.\<close>

lemma space_unchanged:
  assumes sp: "space_ok m s" and scr: "kernel_scratch_table m \<noteq> 0" and m': "mmu_ok m'" "same_regs m m'" "mmu_refs m' = mmu_refs m"
    and ph: "\<And>q. 0 < mmu_refs m q \<Longrightarrow> phys m' q = phys m q"
  shows "space_ok m' s \<and> view m' s = view m s"
proof -
  have k: "kernel_scratch_table m' = kernel_scratch_table m" using m'(2) by (simp add: same_regs_def)
  have t: "phys m' (kernel_scratch_table m) j = phys m (kernel_scratch_table m) j \<or> \<not> bit (phys m' (kernel_scratch_table m) j) 0" for j
    using ph [of "kernel_scratch_table m"] sp scr by (simp add: space_ok_def scratch_ok_def)
  have "space_ok m' s \<and> phys m' s = phys m s \<and> (\<forall>w g. user_at m' s w g = user_at m s w g) \<and> view m' s = view m s"
    by (rule other_space [OF sp m'(1) k ph t]) (simp_all add: m'(3) space_ok_pages_of [OF sp])
  then show ?thesis by blast
qed

lemma made_undone:
  assumes ok: "space_ok m (active_page_directory m)" and mk: "space_made m m' d l"
  defines "m'' \<equiv> paging_destroy_address_space d m'"
  shows "mmu_ok m''" "same_regs m m''"
proof -
  note h = made_held [OF ok mk]
  note ds = destroy_space [OF made_space_ok [OF ok mk] h(2,3), folded m''_def]
  show "mmu_ok m''" by (rule ds(1))
  show "same_regs m m''" by (rule same_regs_trans [OF space_madeD(2) [OF mk] ds(2)])
qed

section \<open>An example\<close>

text \<open>A process with one writable page at \<open>0x40000000\<close>, in the frame at \<open>0x303000\<close>, and five free frames.\<close>

definition copy_frames :: frame_state where
  "copy_frames = \<lparr>frame_bitmap = (\<lambda>i. if i < 96 then 0xFF else 0x0D),
     frame_refcounts = (\<lambda>i. if i < 768 \<or> i = 768 \<or> i = 770 \<or> i = 771 then 1 else 0),
     total_frames = 776, used_frames = 771, frame_initialized = True, frame_fail_after = -1\<rparr>"

definition copy_demo :: mmu where
  "copy_demo = (space_demo 0x303007)\<lparr>mmu_frames := copy_frames\<rparr>"

lemma copy_frames_bits: "f < 776 \<Longrightarrow> bitmap_test copy_frames f \<longleftrightarrow> f < 769 \<or> f = 770 \<or> f = 771"
proof -
  assume f: "f < 776"
  show ?thesis
  proof (cases "f < 768")
    case True
    then have "f div 8 < 96" by simp
    then show ?thesis using True by (simp add: bitmap_test_def copy_frames_def bit_test_all_ones)
  next
    case False
    then consider "f = 768" | "f = 769" | "f = 770" | "f = 771" | "f = 772" | "f = 773" | "f = 774" | "f = 775"
      using f by fastforce
    then show ?thesis by cases (simp_all add: bitmap_test_def copy_frames_def bit_test_def)
  qed
qed

lemma copy_frames_ok: "frame_ok copy_frames"
proof -
  have "allocated copy_frames = {..<769} \<union> {770, 771}" using copy_frames_bits by (auto simp: allocated_def copy_frames_def)
  moreover have "bitmap_test copy_frames f \<longleftrightarrow> frame_refcounts copy_frames f \<noteq> 0" if "f < 776" for f
    using copy_frames_bits [OF that] that by (auto simp: copy_frames_def)
  ultimately show ?thesis by (auto simp: frame_ok_def frame_inv_def low_reserved_def) (simp_all add: copy_frames_def)
qed

lemma copy_demo_refs:
  "mmu_refs copy_demo 0x300000 = 1" "mmu_refs copy_demo 0x302000 = 1" "mmu_refs copy_demo 0x2FF000 = 1"
  "mmu_refs copy_demo 0x303000 = 1" "mmu_refs copy_demo q \<le> 1"
  by (simp_all add: mmu_refs_def copy_demo_def frame_refs_eq [OF copy_frames_ok] page_aligned_iff) (simp_all add: copy_frames_def)

lemma copy_demo_table: "table_of copy_demo 0x300000 i = (if i = 256 then Some 0x302000 else None)"
proof -
  have "table_of copy_demo 0x300000 i = table_of (space_demo 0x303007) 0x300000 i" by (simp add: copy_demo_def table_of_def)
  then show ?thesis by (simp only: space_demo_table)
qed

lemma copy_demo_user: "user_at copy_demo 0x300000 v g \<longleftrightarrow> same_page v 0x40000000 \<and> g = 0x303007"
proof -
  have "bit (0x303007 :: u32) 0" "bit (0x303007 :: u32) 2" by (simp_all add: bit_numeral_rec)
  moreover have "user_at copy_demo 0x300000 v g = user_at (space_demo 0x303007) 0x300000 v g"
    by (simp add: copy_demo_def user_at_def walk_entry_table table_of_def)
  ultimately show ?thesis by (auto simp: space_demo_user)
qed

lemma copy_demo_ok: "space_ok copy_demo 0x300000"
proof -
  have base: "page_base (0x40000000 :: u32) = 0x40000000" "page_base (0x303007 :: u32) = 0x303000" by (simp_all add: page_base_def)
  have sub: "v = 0x40000000 \<and> f = 0x303000" if "v \<in> pages_of copy_demo 0x300000 f" for v f
    using that base page_base_of_aligned [of v] by (auto simp: pages_of_def copy_demo_user same_page_iff)
  have "card (pages_of copy_demo 0x300000 f) \<le> mmu_refs copy_demo f" for f
  proof (cases "f = 0x303000")
    case True
    have "pages_of copy_demo 0x300000 f \<subseteq> {0x40000000}" using sub by blast
    then show ?thesis using card_mono [of "{0x40000000}" "pages_of copy_demo 0x300000 f"] True copy_demo_refs by simp
  next
    case False
    then have "pages_of copy_demo 0x300000 f = {}" using sub by blast
    then show ?thesis by simp
  qed
  then have "frames_private copy_demo 0x300000" by (auto simp: frames_private_def copy_demo_user same_page_def)
  moreover have k: "kernel_scratch_table copy_demo = 0x2FF000" by (simp add: copy_demo_def space_demo_def)
  have "frames_apart copy_demo 0x300000"
    using base copy_demo_refs by (auto simp: frames_apart_def copy_demo_user copy_demo_table k same_page_def dir_index_def)
  moreover have "scratch_ok copy_demo 0x300000" using copy_demo_refs by (auto simp: scratch_ok_def copy_demo_table k)
  moreover have "pgdir_ok copy_demo 0x300000"
    using copy_demo_refs by (auto simp: pgdir_ok_def copy_demo_table page_aligned_iff) (simp_all add: copy_demo_def space_demo_def)
  moreover have "mmu_frames copy_demo = copy_frames" by (simp add: copy_demo_def)
  ultimately show ?thesis by (simp add: space_ok_def mmu_ok_def copy_frames_ok)
qed

lemma copy_demo_free: "{769, 772, 773} \<subseteq> low_free copy_demo"
  unfolding copy_demo_def free_below_def by (auto simp: copy_frames_bits) (simp_all add: frame_bound_def IDENTITY_MAPPED_LIMIT_def copy_frames_def)

lemma create_succeeds:
  assumes ok: "mmu_ok m" "frame_fail_after (mmu_frames m) < 0" "2 \<le> card (low_free m)"
    and r: "paging_create_address_space m = (d, m')"
  shows "d \<noteq> 0"
proof -
  obtain p m1 where p: "allocator_alloc_page_table m = (p, m1)" by force
  have "low_free m \<noteq> {}" using ok(3) by auto
  note a = alloc_page_table_free [OF ok(1,2) this p]
  have "low_free m1 \<noteq> {}" using a ok(3) by auto
  moreover have "mmu_ok m1" using alloc_page_table_spec [OF ok(1) p] by simp
  moreover obtain l m2 where l: "allocator_alloc_page_table m1 = (l, m2)" by force
  ultimately have "l \<noteq> 0" using alloc_page_table_free [of m1 l m2] a by simp
  then show ?thesis using r a p l by (auto simp: paging_create_address_space_def Let_def)
qed

section \<open>Properties\<close>

text \<open>C7: paging_create_address_space, called in a well-formed active space. When it succeeds, the new space is well-formed, has no user memory,
  maps the first 4 MiB to themselves for the kernel only and shares the other kernel tables of the active space, and
  paging_destroy_address_space then gives back every frame: each reference count is the one of before. When it fails the counts are those of before.
  In all three states every other well-formed address space is well-formed with the same memory.\<close>

theorem address_space_lifecycle:
  assumes "space_ok m (active_page_directory m)" "kernel_scratch_table m \<noteq> 0" "paging_create_address_space m = (d, m')"
  shows "(d \<noteq> 0 \<longrightarrow> space_ok m' d \<and> view m' d = (\<lambda>_. None) \<and>
      (\<forall>v<IDENTITY_MAPPED_LIMIT. walk_entry d v m' = Some (page_base v OR PAGE_PRESENT OR PAGE_WRITABLE)) \<and>
      (\<forall>i e. 0 < i \<and> i < 1024 \<and> e = phys m (active_page_directory m) i \<and> bit e 0 \<and> \<not> bit e 2 \<longrightarrow> phys m' d i = e) \<and>
      mmu_refs (paging_destroy_address_space d m') = mmu_refs m) \<and>
    (d = 0 \<longrightarrow> mmu_refs m' = mmu_refs m) \<and>
    (\<forall>s. space_ok m s \<longrightarrow> space_ok m' s \<and> view m' s = view m s \<and>
      (d \<noteq> 0 \<longrightarrow> space_ok (paging_destroy_address_space d m') s \<and> view (paging_destroy_address_space d m') s = view m s))"
proof (cases "d = 0")
  case True
  have "mmu_ok m" "0 < mmu_refs m (active_page_directory m)" using assms(1) by (simp_all add: space_ok_def pgdir_ok_def)
  then have "mmu_ok m'" "same_regs m m'" "mmu_refs m' = mmu_refs m" "\<And>q. 0 < mmu_refs m q \<Longrightarrow> phys m' q = phys m q"
    using create_address_space_made [OF _ _ assms(3)] True by simp_all
  then show ?thesis using space_unchanged [OF _ assms(2)] True by simp
next
  case False
  have "mmu_ok m" "0 < mmu_refs m (active_page_directory m)" using assms(1) by (simp_all add: space_ok_def pgdir_ok_def)
  then obtain l where mk: "space_made m m' d l" using create_address_space_made [OF _ _ assms(3)] False by auto
  note undone = space_unchanged [OF _ assms(2) made_undone [OF assms(1) mk] made_destroyed(1) [OF assms(1) mk] made_destroyed(2) [OF assms(1) mk]]
  have "view m' d = (\<lambda>_. None)" using made_no_user [OF assms(1) mk] by (simp add: fun_eq_iff view_None)
  moreover have "phys m' d i = phys m (active_page_directory m) i"
    if "0 < i" "i < 1024" "bit (phys m (active_page_directory m) i) 0" "\<not> bit (phys m (active_page_directory m) i) 2" for i
    using space_madeD(16) [OF mk that(2)] that by (simp add: Let_def)
  ultimately show ?thesis
    using made_space_ok [OF assms(1) mk] made_identity [OF mk] made_other_space [OF _ mk] made_destroyed(1) [OF assms(1) mk] undone False
    by simp
qed

theorem address_space_lifecycle_witness:
  "\<exists>d m'. paging_create_address_space copy_demo = (d, m') \<and> d \<noteq> 0 \<and> space_ok m' d \<and> view m' d = (\<lambda>_. None) \<and>
     view m' 0x300000 = view copy_demo 0x300000 \<and> mmu_refs (paging_destroy_address_space d m') = mmu_refs copy_demo"
proof -
  obtain d m' where r: "paging_create_address_space copy_demo = (d, m')" by force
  have a: "active_page_directory copy_demo = 0x300000" "kernel_scratch_table copy_demo \<noteq> 0" "frame_fail_after (mmu_frames copy_demo) < 0"
    by (simp_all add: copy_demo_def space_demo_def copy_frames_def)
  have "2 \<le> card (low_free copy_demo)" using card_mono [OF _ copy_demo_free] by simp
  then have "d \<noteq> 0" using create_succeeds [OF _ a(3) _ r] copy_demo_ok by (simp add: space_ok_def)
  then show ?thesis using address_space_lifecycle [of copy_demo d m'] a copy_demo_ok r by simp
qed

end
