(* ===== verification/Fork_Balance.thy ===== *)
theory Fork_Balance
  imports Space_Lifecycle
begin

text \<open>
  The reference counts of \<^verbatim>\<open>paging_clone_directory\<close>, \<^verbatim>\<open>src/kernel/paging.c\<close>, on all of its paths. One invariant holds after every step of its
  first two phases, successful or not: every frame has one reference more for each page, table and directory that the unfinished copy names. So the two functions that undo
  a copy restore the counts of before, and a finished copy has taken exactly what it holds.
\<close>

section \<open>Loops and sums\<close>

lemma try_all_invariant:
  assumes "P 0 s" and "\<And>k s ok s'. k < n \<Longrightarrow> P k s \<Longrightarrow> f k s = (ok, s') \<Longrightarrow> if ok then P (Suc k) s' else R s'"
    and "try_all f [0..<n] s = (ok, s')"
  shows "if ok then P n s' else R s'"
  using assms(2,3)
proof (induction n arbitrary: ok s')
  case 0
  then show ?case using assms(1) by simp
next
  case (Suc n)
  obtain ok1 s1 where s1: "try_all f [0..<n] s = (ok1, s1)" by force
  have ih: "if ok1 then P n s1 else R s1" by (rule Suc.IH [OF _ s1], rule Suc.prems(1)) simp_all
  show ?case
  proof (cases ok1)
    case True
    then have "f n s1 = (ok, s')" using Suc.prems(2) s1 by (simp add: try_all_append)
    then show ?thesis using Suc.prems(1) [of n s1] ih True by simp
  next
    case False
    then show ?thesis using Suc.prems(2) s1 ih by (simp add: try_all_append)
  qed
qed

lemma sum_update:
  fixes f g :: "nat \<Rightarrow> nat"
  assumes "k < n" and "\<And>i. i < n \<Longrightarrow> i \<noteq> k \<Longrightarrow> f i = g i"
  shows "(\<Sum>i<n. f i) + g k = (\<Sum>i<n. g i) + f k"
proof -
  have "(\<Sum>i\<in>{..<n} - {k}. f i) = (\<Sum>i\<in>{..<n} - {k}. g i)" by (rule sum.cong) (use assms in auto)
  then show ?thesis using assms(1) by (simp add: sum.remove [of "{..<n}" k])
qed

lemma frame_uses_sum: "frame_uses m t k q = (\<Sum>j<k. if user_page (phys m t j) \<and> page_base (phys m t j) = q then 1 else 0)"
  by (induction k) simp_all

lemma two_bits: "\<not> bit (2 :: u32) 0" "\<not> user_page 2" "\<not> private_table i 2"
  by (simp_all add: user_page_bits private_table_bits)

lemma frame_uses_blank: "(\<And>j. j < k \<Longrightarrow> phys m t j = 2) \<Longrightarrow> frame_uses m t k q = 0"
  unfolding frame_uses_sum by (rule sum.neutral) (simp add: two_bits)

section \<open>The unfinished copy\<close>

definition clone_inv :: "mmu \<Rightarrow> mmu \<Rightarrow> u32 \<Rightarrow> u32 \<Rightarrow> bool" where
  "clone_inv m m' d n \<longleftrightarrow> (mmu_ok m' \<and> same_regs m m' \<and> mmu_refs m n = 0 \<and> RESERVED_LOW_END \<le> n) \<and>
     (\<forall>q. 0 < mmu_refs m q \<longrightarrow> phys m' q = phys m q) \<and>
     (\<forall>q. mmu_refs m' q = mmu_refs m q + tables_held m' n 1024 q + (if q = n then 1 else 0)) \<and>
     (\<forall>i<1024. own_table m' n i \<longrightarrow> own_table m d i \<and> mmu_refs m (table_at m' n i) = 0 \<and> RESERVED_LOW_END \<le> table_at m' n i \<and>
        table_at m' n i \<noteq> n \<and> (\<forall>i'<1024. own_table m' n i' \<and> table_at m' n i' = table_at m' n i \<longrightarrow> i' = i) \<and>
        (\<forall>j<1024. user_page (phys m' (table_at m' n i) j) \<longrightarrow> (\<exists>v. user_at m d v (phys m' (table_at m' n i) j))))"

lemma clone_invD:
  assumes "clone_inv m m' d n"
  shows "mmu_ok m'" "same_regs m m'" "mmu_refs m n = 0" "RESERVED_LOW_END \<le> n"
    "0 < mmu_refs m q \<Longrightarrow> phys m' q = phys m q"
    "mmu_refs m' q = mmu_refs m q + tables_held m' n 1024 q + (if q = n then 1 else 0)"
    "i < 1024 \<Longrightarrow> own_table m' n i \<Longrightarrow> own_table m d i \<and> mmu_refs m (table_at m' n i) = 0 \<and> RESERVED_LOW_END \<le> table_at m' n i \<and> table_at m' n i \<noteq> n"
    "i < 1024 \<Longrightarrow> own_table m' n i \<Longrightarrow> i' < 1024 \<Longrightarrow> own_table m' n i' \<Longrightarrow> table_at m' n i' = table_at m' n i \<Longrightarrow> i' = i"
    "i < 1024 \<Longrightarrow> own_table m' n i \<Longrightarrow> j < 1024 \<Longrightarrow> user_page (phys m' (table_at m' n i) j) \<Longrightarrow> \<exists>v. user_at m d v (phys m' (table_at m' n i) j)"
  using assms unfolding clone_inv_def by blast+

text \<open>The tables of the copy from the entry \<open>k\<close> on are still empty.\<close>

definition blank_from :: "mmu \<Rightarrow> u32 \<Rightarrow> nat \<Rightarrow> bool" where
  "blank_from m n k \<longleftrightarrow> (\<forall>i<1024. k \<le> i \<and> own_table m n i \<longrightarrow> (\<forall>j<1024. phys m (table_at m n i) j = 2))"

lemma own_table_held: "i < 1024 \<Longrightarrow> own_table m n i \<Longrightarrow> 0 < tables_held m n 1024 (table_at m n i)"
  unfolding tables_held_def by (rule order_less_le_trans [of _ "entry_held m n i (table_at m n i)"]) (simp add: entry_held_def, rule member_le_sum, simp_all)

text \<open>One step of the first phase.\<close>

lemma clone_table_step:
  assumes inv: "clone_inv m m1 d n" and sp: "space_ok m d" and k: "k < 1024" and empty: "phys m1 n k = 2" and blank: "blank_from m1 n 0"
    and st: "clone_table d n k m1 = (ok, m2)"
  shows "clone_inv m m2 d n \<and> blank_from m2 n 0 \<and> (\<forall>i. i \<noteq> k \<longrightarrow> phys m2 n i = phys m1 n i)"
proof -
  let ?e = "phys m d k"
  have dl: "0 < mmu_refs m d" using sp by (simp add: space_ok_def pgdir_ok_def)
  have e: "phys m1 d k = ?e" using clone_invD(5) [OF inv dl] by simp
  have nl: "q \<noteq> n" if "0 < mmu_refs m q" for q using that clone_invD(3) [OF inv] by auto
  have notk: "\<not> own_table m1 n k" using empty two_bits by simp
  show ?thesis
  proof (cases "private_table k ?e")
    case False
    have m2: "m2 = (if bit ?e 0 then put_word n k ?e m1 else m1)"
      using st e False by (auto simp: clone_table_def private_table_def and_flag_eq_0)
    have pn: "phys m2 n i = (if i = k \<and> bit ?e 0 then ?e else phys m1 n i)" for i by (simp add: m2 phys_put_word)
    have ph: "phys m2 q = phys m1 q" if "q \<noteq> n" for q using that by (simp add: m2 phys_put_word fun_eq_iff)
    have own: "own_table m2 n i \<longleftrightarrow> own_table m1 n i" for i using pn [of i] False notk by auto
    have at: "table_at m2 n i = table_at m1 n i \<and> phys m2 (table_at m1 n i) = phys m1 (table_at m1 n i)" if "i < 1024" "own_table m1 n i" for i
      using that pn [of i] notk ph clone_invD(7) [OF inv that] by auto
    have "entry_held m2 n i q = entry_held m1 n i q" if "i < 1024" for i q
    proof (cases "own_table m1 n i")
      case True
      then show ?thesis using at [OF that True] own frame_uses_cong [of 1024 m2 "table_at m1 n i" m1 q] by (simp add: entry_held_def)
    qed (simp add: entry_held_def own)
    then have held: "tables_held m2 n 1024 q = tables_held m1 n 1024 q" for q unfolding tables_held_def by (intro sum.cong) simp_all
    have same: "mmu_ok m2" "same_regs m m2" "mmu_refs m2 = mmu_refs m1"
      using clone_invD(1,2) [OF inv] by (simp_all add: m2 mmu_ok_def same_regs_def mmu_refs_def)
    have "clone_inv m m2 d n"
      unfolding clone_inv_def held own
      using inv same at ph nl unfolding clone_inv_def by auto
    moreover have "blank_from m2 n 0" using blank at by (simp add: blank_from_def own)
    ultimately show ?thesis using pn by simp
  next
    case True
    obtain p mA where al: "allocator_alloc_page_table m1 = (p, mA)" by force
    note a = alloc_page_table_spec [OF clone_invD(1) [OF inv] al]
    have b: "bit ?e 0" "\<not> (k \<noteq> 0 \<and> ?e AND PAGE_USER = 0)" using True by (simp_all add: private_table_def and_flag_eq_0)
    show ?thesis
    proof (cases "p = 0")
      case True
      then have "m2 = mA" using st e b al by (auto simp: clone_table_def and_flag_eq_0 Let_def split: if_splits)
      then have m2: "phys m2 = phys m1" "mmu_refs m2 = mmu_refs m1" "mmu_ok m2" "same_regs m1 m2"
        using a True by (simp_all add: same_regs_def)
      then have same: "tables_held m2 n 1024 q = tables_held m1 n 1024 q" for q
        unfolding tables_held_def entry_held_def frame_uses_def by (simp only:)
      then show ?thesis
        using inv blank m2 same_regs_trans [of m m1 m2] unfolding clone_inv_def blank_from_def same by simp
    next
      case p0: False
      have al': "page_aligned p" "mmu_refs m1 p = 0" "mmu_refs mA = (mmu_refs m1)(p := 1)" "mmu_ok mA"
          "\<And>q j. phys mA q j = (if q = p \<and> j < 1024 then 2 else phys m1 q j)" "same_regs m1 mA"
        using a p0 by (simp_all add: same_regs_def)
      have fresh: "mmu_refs m p = 0" "tables_held m1 n 1024 p = 0" "p \<noteq> n"
        using clone_invD(6) [OF inv, of p] al'(2) by (auto split: if_splits)
      have pd: "p \<noteq> d" using fresh(1) dl by auto
      have pt: "p \<noteq> table_at m1 n i" if "i < 1024" "own_table m1 n i" for i using own_table_held [OF that] fresh(2) by auto
      let ?w = "p OR (?e AND 0xFFF)"
      have m2: "m2 = put_word n k ?w mA"
        using st e b al p0 pd al'(5) page_base_of_aligned [OF al'(1)] by (auto simp: clone_table_def and_flag_eq_0 Let_def split: if_splits)
      have ph: "phys m2 q j = (if q = n \<and> j = k then ?w else if q = p \<and> j < 1024 then 2 else phys m1 q j)" for q j
        by (simp add: m2 phys_put_word al'(5))
      have w: "page_base ?w = p" "private_table k ?w"
        using page_base_with_flags [OF al'(1)] bit_with_flags [OF al'(1), of _ ?e] True by (simp_all add: private_table_bits)
      have pn: "phys m2 n i = (if i = k then ?w else phys m1 n i)" for i using fresh(3) by (simp add: ph)
      have at: "table_at m2 n i = table_at m1 n i \<and> table_at m1 n i \<noteq> p \<and> table_at m1 n i \<noteq> n \<and>
          (\<forall>j. phys m2 (table_at m1 n i) j = phys m1 (table_at m1 n i) j)" if "i < 1024" "own_table m1 n i" "i \<noteq> k" for i
        using that pn [of i] pt [OF that(1,2)] clone_invD(7) [OF inv that(1,2)] by (auto simp: ph)
      have own: "own_table m2 n i \<longleftrightarrow> i = k \<or> own_table m1 n i" for i using pn [of i] w(2) by auto
      have bk: "phys m2 p j = 2" if "j < 1024" for j using that fresh(3) by (simp add: ph)
      have tk: "table_at m2 n k = p" using pn [of k] w(1) by simp
      have "entry_held m2 n i q = entry_held m1 n i q" if "i < 1024" "i \<noteq> k" for i q
      proof (cases "own_table m1 n i")
        case True
        then show ?thesis
          using at [OF that(1) True that(2)] own frame_uses_cong [of 1024 m2 "table_at m1 n i" m1 q] by (simp add: entry_held_def)
      qed (use that in \<open>simp add: entry_held_def own\<close>)
      then have A: "tables_held m2 n 1024 q + entry_held m1 n k q = tables_held m1 n 1024 q + entry_held m2 n k q" for q
        unfolding tables_held_def using k by (intro sum_update) simp_all
      have B: "entry_held m1 n k q = 0" for q using notk by (simp add: entry_held_def)
      have C: "entry_held m2 n k q = (if q = p then 1 else 0)" for q
        using own [of k] tk frame_uses_blank [of 1024 m2 p] bk by (simp add: entry_held_def)
      have held: "tables_held m2 n 1024 q = tables_held m1 n 1024 q + (if q = p then 1 else 0)" for q
        using A [of q] unfolding B C add_0_right .
      have refs: "mmu_refs m2 = (mmu_refs m1)(p := 1)" using al'(3) by (simp add: m2 mmu_refs_def)
      have blank2: "blank_from m2 n 0"
        using blank bk at tk by (auto simp: blank_from_def own split: if_splits) (metis)
      have high: "RESERVED_LOW_END \<le> p" by (rule alloc_page_table_high [OF clone_invD(1) [OF inv] al p0])
      have "clone_inv m m2 d n"
        unfolding clone_inv_def
      proof (intro conjI allI impI)
        show "mmu_ok m2" "same_regs m m2"
          using al'(4,6) same_regs_trans [OF clone_invD(2) [OF inv] al'(6)] by (simp_all add: m2 mmu_ok_def same_regs_def)
        show "mmu_refs m n = 0" "RESERVED_LOW_END \<le> n" using clone_invD(3,4) [OF inv] by simp_all
        show "phys m2 q = phys m q" if "0 < mmu_refs m q" for q
          using that nl [OF that] fresh(1) clone_invD(5) [OF inv that] by (auto simp: ph fun_eq_iff)
        show "mmu_refs m2 q = mmu_refs m q + tables_held m2 n 1024 q + (if q = n then 1 else 0)" for q
          using clone_invD(6) [OF inv, of q] fresh by (simp add: refs held)
        fix i assume i: "i < 1024" "own_table m2 n i"
        have base: "own_table m d i \<and> mmu_refs m (table_at m2 n i) = 0 \<and> RESERVED_LOW_END \<le> table_at m2 n i \<and> table_at m2 n i \<noteq> n"
        proof (cases "i = k")
          case True
          then show ?thesis using tk fresh(1,3) high \<open>private_table k ?e\<close> by simp
        next
          case False
          then have o: "own_table m1 n i" using i(2) own by simp
          then show ?thesis using clone_invD(7) [OF inv i(1) o] at [OF i(1) o False] by simp
        qed
        then show "own_table m d i" "mmu_refs m (table_at m2 n i) = 0" "RESERVED_LOW_END \<le> table_at m2 n i" "table_at m2 n i \<noteq> n"
          by blast+
        show "i' = i" if i': "i' < 1024" "own_table m2 n i' \<and> table_at m2 n i' = table_at m2 n i" for i'
        proof (cases "i = k \<or> i' = k")
          case True
          then show ?thesis using tk at [OF i(1)] at [OF i'(1)] i(2) i'(2) own by metis
        next
          case False
          then have "own_table m1 n i" "own_table m1 n i'" using i(2) i'(2) own by simp_all
          then show ?thesis using clone_invD(8) [OF inv i(1) _ i'(1)] at [OF i(1)] at [OF i'(1)] i'(2) False by simp
        qed
        show "\<exists>v. user_at m d v (phys m2 (table_at m2 n i) j)" if "j < 1024" "user_page (phys m2 (table_at m2 n i) j)" for j
          using that blank2 i two_bits by (simp add: blank_from_def)
      qed
      then show ?thesis using blank2 pn by simp
    qed
  qed
qed

text \<open>One step of the second phase.\<close>

lemma retain_page_step:
  assumes inv: "clone_inv m m1 d n" and sp: "space_ok m d" and i: "i < 1024" "own_table m1 n i" and j: "j < 1024"
  defines "t \<equiv> table_at m1 n i"
  assumes empty: "phys m1 t j = 2" and st: "retain_page (table_at m d i) t j m1 = (ok, m2)"
  shows "clone_inv m m2 d n \<and> phys m2 n = phys m1 n \<and> (\<forall>q j'. q \<noteq> t \<or> j' \<noteq> j \<longrightarrow> phys m2 q j' = phys m1 q j')"
proof -
  let ?s = "table_at m d i"
  let ?e = "phys m ?s j"
  have t: "own_table m d i" "mmu_refs m t = 0" "RESERVED_LOW_END \<le> t" "t \<noteq> n" using clone_invD(7) [OF inv i] by (simp_all add: t_def)
  note s = own_table_facts [OF sp i(1) t(1)]
  have e: "phys m1 ?s j = ?e" using clone_invD(5) [OF inv s(2)] by simp
  consider (same) "m2 = m1"
    | (kernel) "m2 = put_word t j ?e m1" "\<not> user_page ?e"
    | (user) fr where "user_page ?e" "frame_retain (page_base ?e) (mmu_frames m1) = (True, fr)" "m2 = put_word t j ?e (m1\<lparr>mmu_frames := fr\<rparr>)"
  proof (cases "bit ?e 0")
    case False
    then show ?thesis using st e that(1) by (simp add: retain_page_def and_flag_eq_0)
  next
    case p: True
    show ?thesis
    proof (cases "bit ?e 2")
      case False
      then show ?thesis using st e p that(2) by (simp add: retain_page_def and_flag_eq_0 user_page_bits)
    next
      case True
      obtain r fr where fr: "frame_retain (page_base ?e) (mmu_frames m1) = (r, fr)" by force
      show ?thesis
      proof (cases r)
        case r: True
        then show ?thesis using st e p True fr by (intro that(3) [of fr]) (simp_all add: retain_page_def and_flag_eq_0 mmu_retain_def user_page_bits)
      next
        case r: False
        have "frame_ok (mmu_frames m1)" using clone_invD(1) [OF inv] by (simp add: mmu_ok_def)
        then have "fr = mmu_frames m1" using frames.retain_false [of "mmu_frames m1" "page_base ?e" fr] fr r by simp
        then show ?thesis using st e p True fr r that(1) by (simp add: retain_page_def and_flag_eq_0 mmu_retain_def)
      qed
    qed
  qed
  then show ?thesis
  proof cases
    case same
    then show ?thesis using inv by simp
  next
    case kernel
    have ph: "phys m2 q j' = (if q = t \<and> j' = j then ?e else phys m1 q j')" for q j' by (simp add: kernel phys_put_word)
    have "frame_uses m2 q 1024 x = frame_uses m1 q 1024 x" for q x
      unfolding frame_uses_sum ph by (rule sum.cong) (use kernel(2) empty two_bits in auto)
    moreover have pn: "phys m2 n = phys m1 n" using t(4) by (simp add: fun_eq_iff ph)
    ultimately have held: "tables_held m2 n 1024 q = tables_held m1 n 1024 q" for q
      unfolding tables_held_def entry_held_def by (simp only:)
    have "\<exists>v. user_at m d v (phys m2 (table_at m1 n i') j')"
      if "i' < 1024" "own_table m1 n i'" "j' < 1024" "user_page (phys m2 (table_at m1 n i') j')" for i' j'
      using that clone_invD(9) [OF inv that(1-3)] kernel(2) by (auto simp: ph split: if_splits)
    moreover have "phys m2 q = phys m q" if "0 < mmu_refs m q" for q
      using that t(2) clone_invD(5) [OF inv that] by (auto simp: fun_eq_iff ph)
    moreover have "mmu_ok m2" "same_regs m m2" "mmu_refs m2 = mmu_refs m1"
      using clone_invD(1,2) [OF inv] by (simp_all add: kernel mmu_ok_def same_regs_def mmu_refs_def)
    ultimately have "clone_inv m m2 d n"
      using inv unfolding clone_inv_def held pn by simp
    then show ?thesis using pn by (auto simp: ph)
  next
    case user
    have fok: "frame_ok (mmu_frames m1)" using clone_invD(1) [OF inv] by (simp add: mmu_ok_def)
    have fr: "frame_ok fr" "frame_refs fr = (frame_refs (mmu_frames m1))(page_base ?e := Suc (frame_refs (mmu_frames m1) (page_base ?e)))"
      using frames.retain_inv [OF fok user(2)] frames.retain_true [OF fok user(2)] by simp_all
    have ph: "phys m2 q j' = (if q = t \<and> j' = j then ?e else phys m1 q j')" for q j' by (simp add: user phys_put_word)
    have other: "frame_uses m2 q 1024 x = frame_uses m1 q 1024 x" if "q \<noteq> t" for q x
      using that by (intro frame_uses_cong) (simp add: ph)
    have here: "frame_uses m2 t 1024 x = frame_uses m1 t 1024 x + (if x = page_base ?e then 1 else 0)" for x
    proof -
      let ?f = "\<lambda>m j'. if user_page (phys m t j') \<and> page_base (phys m t j') = x then 1 else 0 :: nat"
      have "(\<Sum>j'<1024. ?f m2 j') + ?f m1 j = (\<Sum>j'<1024. ?f m1 j') + ?f m2 j" by (rule sum_update [OF j]) (simp add: ph)
      then show ?thesis unfolding frame_uses_sum using user(1) empty two_bits by (auto simp: ph)
    qed
    have pn: "phys m2 n = phys m1 n" using t(4) by (simp add: fun_eq_iff ph)
    have one: "entry_held m2 n i' x = entry_held m1 n i' x" if "i' < 1024" "i' \<noteq> i" for i' x
    proof (cases "own_table m1 n i'")
      case True
      then have "table_at m1 n i' \<noteq> t" using clone_invD(8) [OF inv i that(1) True] that(2) by (auto simp: t_def)
      then show ?thesis unfolding entry_held_def pn using other by simp
    qed (simp add: entry_held_def pn)
    have held: "tables_held m2 n 1024 x = tables_held m1 n 1024 x + (if x = page_base ?e then 1 else 0)" for x
    proof -
      have "tables_held m2 n 1024 x + entry_held m1 n i x = tables_held m1 n 1024 x + entry_held m2 n i x"
        unfolding tables_held_def using i(1) one by (intro sum_update) simp_all
      moreover have "entry_held m2 n i x = entry_held m1 n i x + (if x = page_base ?e then 1 else 0)"
        using i(2) here unfolding entry_held_def pn t_def [symmetric] by simp
      ultimately show ?thesis by simp
    qed
    have refs: "mmu_refs m2 x = mmu_refs m1 x + (if x = page_base ?e then 1 else 0)" for x using fr(2) by (simp add: user mmu_refs_def)
    obtain v where v: "dir_index v = i" "table_index v = j" using index_exists [OF i(1) j] by blast
    have u: "user_at m d v ?e" using s(1) user(1) v by (simp add: user_at_def walk_entry_table user_page_bits)
    have "\<exists>v. user_at m d v (phys m2 (table_at m1 n i') j')"
      if "i' < 1024" "own_table m1 n i'" "j' < 1024" "user_page (phys m2 (table_at m1 n i') j')" for i' j'
      using that clone_invD(9) [OF inv that(1-3)] u by (auto simp: ph split: if_splits)
    moreover have "phys m2 q = phys m q" if "0 < mmu_refs m q" for q
      using that t(2) clone_invD(5) [OF inv that] by (auto simp: fun_eq_iff ph)
    moreover have "mmu_ok m2" "same_regs m m2"
      using clone_invD(2) [OF inv] fr(1) by (simp_all add: user mmu_ok_def same_regs_def)
    moreover have "mmu_refs m2 q = mmu_refs m q + tables_held m2 n 1024 q + (if q = n then 1 else 0)" for q
      using clone_invD(6) [OF inv, of q] by (simp add: refs held)
    ultimately have "clone_inv m m2 d n"
      using inv unfolding clone_inv_def pn by simp
    then show ?thesis using pn by (auto simp: ph)
  qed
qed

lemma retain_table_step:
  assumes inv: "clone_inv m m1 d n" and sp: "space_ok m d" and i: "i < 1024" and blank: "blank_from m1 n i"
    and st: "retain_table d n i m1 = (ok, m2)"
  shows "clone_inv m m2 d n \<and> phys m2 n = phys m1 n \<and> blank_from m2 n (Suc i)"
proof (cases "own_table m1 n i")
  case False
  then have "m2 = m1" using st by (simp add: retain_table_def)
  then show ?thesis using inv blank by (simp add: blank_from_def)
next
  case True
  let ?t = "table_at m1 n i"
  have dl: "0 < mmu_refs m d" using sp by (simp add: space_ok_def pgdir_ok_def)
  then have "phys m1 d i = phys m d i" using clone_invD(5) [OF inv] by simp
  then have run: "try_all (retain_page (table_at m d i) ?t) [0..<1024] m1 = (ok, m2)"
    using st True by (simp add: retain_table_def PAGES_PER_TABLE_def)
  define P where "P k s \<longleftrightarrow> clone_inv m s d n \<and> phys s n = phys m1 n \<and>
    (\<forall>j. k \<le> j \<and> j < 1024 \<longrightarrow> phys s ?t j = 2) \<and> (\<forall>q. q \<noteq> ?t \<longrightarrow> phys s q = phys m1 q)" for k s
  have "if ok then P 1024 m2 else (\<exists>k. P k m2)"
  proof (rule try_all_invariant [where P = P and R = "\<lambda>s. \<exists>k. P k s", OF _ _ run])
    show "P 0 m1" using inv blank i True by (simp add: P_def blank_from_def)
    fix k s b s' assume k: "k < 1024" and P: "P k s" and f: "retain_page (table_at m d i) ?t k s = (b, s')"
    have s: "clone_inv m s d n" "phys s n = phys m1 n" "\<And>j. k \<le> j \<Longrightarrow> j < 1024 \<Longrightarrow> phys s ?t j = 2" "\<And>q. q \<noteq> ?t \<Longrightarrow> phys s q = phys m1 q"
      using P by (simp_all add: P_def)
    have step: "clone_inv m s' d n \<and> phys s' n = phys s n \<and> (\<forall>q j'. q \<noteq> ?t \<or> j' \<noteq> k \<longrightarrow> phys s' q j' = phys s q j')"
      using retain_page_step [OF s(1) sp i _ k, of b s'] True s(2,3) k f by simp
    then have "P (Suc k) s'" using s by (auto simp: P_def fun_eq_iff)
    then show "if b then P (Suc k) s' else \<exists>k. P k s'" by auto
  qed
  then obtain k where "P k m2" by (auto split: if_splits)
  then have m2: "clone_inv m m2 d n" "phys m2 n = phys m1 n" "\<And>q. q \<noteq> ?t \<Longrightarrow> phys m2 q = phys m1 q" by (simp_all add: P_def)
  have "blank_from m2 n (Suc i)"
    unfolding blank_from_def m2(2)
  proof (intro allI impI)
    fix i' j :: nat assume i': "i' < 1024" "Suc i \<le> i' \<and> own_table m1 n i'" "j < 1024"
    then have "table_at m1 n i' \<noteq> ?t" using clone_invD(8) [OF inv i True, of i'] by auto
    then show "phys m2 (table_at m1 n i') j = 2" using m2(3) blank i' by (simp add: blank_from_def)
  qed
  then show ?thesis using m2 by blast
qed

section \<open>Undoing a copy\<close>

lemma clone_gives_back:
  assumes inv: "clone_inv m m' d n" and above: "above_reserved m d"
  shows "gives_back m' n"
  unfolding gives_back_def
proof (intro conjI allI impI)
  fix i assume i: "i < 1024" "own_table m' n i"
  show "RESERVED_LOW_END \<le> page_base (phys m' (table_at m' n i) j)" if "j < 1024" "user_page (phys m' (table_at m' n i) j)" for j
    using clone_invD(9) [OF inv i that] above by (auto simp: above_reserved_def)
qed (use clone_invD(1,4,6,7,8) [OF inv] in auto)

lemma copy_undone:
  assumes inv: "clone_inv m m' d n" and above: "above_reserved m d" and rel: "releases m' n rel"
  defines "m'' \<equiv> mmu_free n (for_loop 0 1024 rel m')"
  shows "mmu_ok m''" "same_regs m m''" "mmu_refs m'' = mmu_refs m" "0 < mmu_refs m q \<Longrightarrow> phys m'' q = phys m q"
proof -
  note rd = release_directory [OF clone_gives_back [OF inv above] rel, folded m''_def]
  show "mmu_ok m''" by (rule rd(1))
  show "same_regs m m''" by (rule same_regs_trans [OF clone_invD(2) [OF inv] rd(2)])
  show "mmu_refs m'' = mmu_refs m"
  proof
    fix q
    have "mmu_refs m'' q + tables_held m' n 1024 q + (if q = n then 1 else 0) = mmu_refs m' q" by (rule rd(3))
    then show "mmu_refs m'' q = mmu_refs m q" using clone_invD(6) [OF inv, of q] by simp
  qed
  assume q: "0 < mmu_refs m q"
  then have "\<not> described_by m' n q" using clone_invD(3,7) [OF inv] by (auto simp: described_by_def)
  then show "phys m'' q = phys m q" using rd(4) clone_invD(5) [OF inv q] by simp
qed

lemma release_is_free: "mmu_release a m = mmu_free a m" for m :: mmu
  by (simp add: mmu_release_def mmu_free_def frame_free_def)

lemma unref_is_destroy: "unref_page t j m = destroy_page t j m" for m :: mmu
  by (simp add: unref_page_def destroy_page_def release_is_free PAGE_WRITABLE_def Let_def)

lemma releases_unref: "releases m n (unref_table n)"
proof -
  have "for_loop 0 1024 (unref_page t) s = for_loop 0 1024 (destroy_page t) s" for t and s :: mmu
    by (rule arg_cong [where f = "\<lambda>f. for_loop 0 1024 f s"]) (simp add: fun_eq_iff unref_is_destroy)
  then show ?thesis
    by (simp add: releases_def unref_table_def free_table_def Let_def release_is_free PAGES_PER_TABLE_def PAGE_WRITABLE_def)
qed

lemma releases_skeleton:
  assumes "blank_from m n 0"
  shows "releases m n (skeleton_table n)"
  unfolding releases_def
proof (intro allI impI)
  fix k :: nat and m1 :: mmu assume k: "k < 1024" and e: "phys m1 n k = phys m n k"
  have "skeleton_table n k m1 = free_table m n k m1" if own: "own_table m n k" and t: "phys m1 (table_at m n k) = phys m (table_at m n k)"
  proof -
    have "for_loop 0 1024 (destroy_page (table_at m n k)) m1 = m1"
    proof (rule for_loop_invariant [where P = "\<lambda>s. s = m1"])
      fix j s assume "j < (1024 :: nat)" "s = m1"
      then show "destroy_page (table_at m n k) j s = m1"
        using assms k own t two_bits by (simp add: destroy_page_def blank_from_def)
    qed simp
    then show ?thesis using own e by (simp add: skeleton_table_def free_table_def Let_def release_is_free PAGE_WRITABLE_def)
  qed
  moreover have "skeleton_table n k m1 = m1" if "\<not> own_table m n k" using that e by (simp add: skeleton_table_def)
  ultimately show "if own_table m n k then phys m1 (table_at m n k) = phys m (table_at m n k) \<longrightarrow> skeleton_table n k m1 = free_table m n k m1
      else skeleton_table n k m1 = m1" by simp
qed

section \<open>The two phases\<close>

lemma clone_starts:
  assumes sp: "space_ok m d" and al: "allocator_alloc_page_table m = (n, m0)" "n \<noteq> 0"
  shows "clone_inv m m0 d n" "blank_from m0 n 0" "i < 1024 \<Longrightarrow> phys m0 n i = 2"
proof -
  have ok: "mmu_ok m" using sp by (simp add: space_ok_def)
  have a: "mmu_ok m0" "same_regs m m0" "mmu_refs m n = 0" "mmu_refs m0 = (mmu_refs m)(n := 1)"
      "\<And>q j. phys m0 q j = (if q = n \<and> j < 1024 then 2 else phys m q j)"
    using alloc_page_table_spec [OF ok al(1)] al(2) by (simp_all add: same_regs_def)
  show two: "i < 1024 \<Longrightarrow> phys m0 n i = 2" for i by (simp add: a(5))
  then have own: "\<not> own_table m0 n i" if "i < 1024" for i using that two_bits by simp
  then show "blank_from m0 n 0" by (simp add: blank_from_def)
  have held: "tables_held m0 n 1024 q = 0" for q unfolding tables_held_def by (rule sum.neutral) (simp add: own entry_held_def)
  have "phys m0 q = phys m q" if "0 < mmu_refs m q" for q using that a(3) by (auto simp: a(5) fun_eq_iff)
  then show "clone_inv m m0 d n"
    using a own alloc_page_table_high [OF ok al] by (simp add: clone_inv_def held)
qed

lemma clone_first_phase:
  assumes sp: "space_ok m d" and al: "allocator_alloc_page_table m = (n, m0)" "n \<noteq> 0"
    and run: "try_all (clone_table d n) [0..<1024] m0 = (ok, m1)"
  shows "clone_inv m m1 d n \<and> blank_from m1 n 0"
proof -
  define P where "P k s \<longleftrightarrow> clone_inv m s d n \<and> blank_from s n 0 \<and> (\<forall>i. k \<le> i \<and> i < 1024 \<longrightarrow> phys s n i = 2)" for k s
  have "if ok then P 1024 m1 else (\<exists>k. P k m1)"
  proof (rule try_all_invariant [where P = P and R = "\<lambda>s. \<exists>k. P k s", OF _ _ run])
    show "P 0 m0" using clone_starts [OF sp al] by (simp add: P_def)
    fix k s b s' assume k: "k < 1024" and P: "P k s" and f: "clone_table d n k s = (b, s')"
    have s: "clone_inv m s d n" "blank_from s n 0" "\<And>i. k \<le> i \<Longrightarrow> i < 1024 \<Longrightarrow> phys s n i = 2" using P by (simp_all add: P_def)
    have "P (Suc k) s'" using clone_table_step [OF s(1) sp k s(3) [OF order_refl k] s(2) f] s(3) by (simp add: P_def)
    then show "if b then P (Suc k) s' else \<exists>k. P k s'" by auto
  qed
  then show ?thesis by (auto simp: P_def split: if_splits)
qed

lemma clone_second_phase:
  assumes sp: "space_ok m d" and start: "clone_inv m m1 d n" "blank_from m1 n 0"
    and run: "try_all (retain_table d n) [0..<1024] m1 = (ok, m2)"
  shows "clone_inv m m2 d n"
proof -
  define P where "P k s \<longleftrightarrow> clone_inv m s d n \<and> blank_from s n k" for k s
  have "if ok then P 1024 m2 else (\<exists>k. P k m2)"
  proof (rule try_all_invariant [where P = P and R = "\<lambda>s. \<exists>k. P k s", OF _ _ run])
    show "P 0 m1" using start by (simp add: P_def)
    fix k s b s' assume k: "k < 1024" and P: "P k s" and f: "retain_table d n k s = (b, s')"
    have "P (Suc k) s'" using retain_table_step [OF _ sp k _ f] P by (simp add: P_def)
    then show "if b then P (Suc k) s' else \<exists>k. P k s'" by auto
  qed
  then show ?thesis by (auto simp: P_def split: if_splits)
qed

section \<open>A copy takes what it holds\<close>

lemma clone_failed:
  assumes sp: "space_ok m d" and d: "d = page_base cr3" and above: "above_reserved m d"
    and r: "paging_clone_directory cr3 m = (0, m')"
  shows "mmu_ok m' \<and> same_regs m m' \<and> mmu_refs m' = mmu_refs m \<and> (\<forall>q. 0 < mmu_refs m q \<longrightarrow> phys m' q = phys m q)"
proof (cases "cr3 = 0 \<or> kernel_scratch_table m = 0")
  case True
  then show ?thesis using r sp by (auto simp: paging_clone_directory_def space_ok_def)
next
  case False
  have ok: "mmu_ok m" using sp by (simp add: space_ok_def)
  obtain n m0 where al: "allocator_alloc_page_table m = (n, m0)" by force
  show ?thesis
  proof (cases "n = 0")
    case True
    then have "m' = m0" using r al False by (auto simp: paging_clone_directory_def)
    then show ?thesis using alloc_page_table_spec [OF ok al] True by (simp add: same_regs_def)
  next
    case n: False
    obtain ok1 m1 where c1: "try_all (clone_table d n) [0..<1024] m0 = (ok1, m1)" by force
    note first = clone_first_phase [OF sp al n c1]
    show ?thesis
    proof (cases ok1)
      case False
      then have "m' = mmu_free n (for_loop 0 1024 (skeleton_table n) m1)"
        using r al c1 n \<open>\<not> (cr3 = 0 \<or> kernel_scratch_table m = 0)\<close>
        by (auto simp: paging_clone_directory_def Let_def d [symmetric] TABLES_PER_DIR_def paging_destroy_clone_skeleton_def release_is_free)
      then show ?thesis using copy_undone [OF _ above releases_skeleton] first by blast
    next
      case True
      obtain ok2 m2 where c2: "try_all (retain_table d n) [0..<1024] m1 = (ok2, m2)" by force
      have "clone_inv m m2 d n" using clone_second_phase [OF sp _ _ c2] first by blast
      moreover have "m' = mmu_free n (for_loop 0 1024 (unref_table n) m2)"
        using r al c1 c2 n True \<open>\<not> (cr3 = 0 \<or> kernel_scratch_table m = 0)\<close>
        by (auto simp: paging_clone_directory_def Let_def d [symmetric] TABLES_PER_DIR_def paging_destroy_clone_with_refs_def release_is_free split: if_splits)
      ultimately show ?thesis using copy_undone [OF _ above releases_unref] by blast
    qed
  qed
qed

lemma clone_takes:
  assumes sp: "space_ok m d" and d: "d = page_base cr3" and above: "above_reserved m d" and scr: "kernel_scratch_table m \<noteq> 0"
    and r: "paging_clone_directory cr3 m = (n, m')" "n \<noteq> 0"
  shows "mmu_refs m' q = mmu_refs m q + held m' n q" "above_reserved m' n"
proof -
  have c: "cloned m m' d n" by (rule clone_directory_cloned [OF sp d r])
  obtain n0 m0 where al: "allocator_alloc_page_table m = (n0, m0)" by force
  obtain ok1 m1 where c1: "try_all (clone_table d n0) [0..<1024] m0 = (ok1, m1)" by force
  obtain ok2 m2 where c2: "try_all (retain_table d n0) [0..<1024] m1 = (ok2, m2)" by force
  have n: "n0 = n" "ok1 = True" "ok2 = True" "m' = for_loop 0 1024 (commit_table d n) m2"
    using r al c1 c2 by (auto simp: paging_clone_directory_def Let_def d [symmetric] TABLES_PER_DIR_def split: if_splits)
  note run = al [unfolded n] c1 [unfolded n] c2 [unfolded n]
  have inv: "clone_inv m m2 d n"
    using clone_second_phase [OF sp _ _ run(3)] clone_first_phase [OF sp run(1) r(2) run(2)] by blast
  have b: "copy_begun m m1 d n" by (rule clone_begins [OF sp run(1) r(2) run(2)])
  note f = clone_fills [OF sp b run(3)] and p = clone_protects [OF sp b run(3), folded n(4)]
  have dir: "phys m' n = phys m2 n" "phys m1 n = phys m2 n" and fr: "mmu_frames m' = mmu_frames m2" using f p by simp_all
  have own: "own_table m2 n i \<longleftrightarrow> own_table m d i" if "i < 1024" for i
    using copy_begun_tables(4) [OF sp b that] by (simp only: dir(2))
  have "frame_uses m' (table_at m2 n i) 1024 q = frame_uses m2 (table_at m2 n i) 1024 q" if i: "i < 1024" "own_table m2 n i" for i q
  proof -
    have o: "own_table m d i" using i own by simp
    have "phys m2 (table_at m2 n i) j = (if bit (phys m (table_at m d i) j) 0 then phys m (table_at m d i) j else 2)"
        "phys m' (table_at m2 n i) j = (if bit (phys m (table_at m d i) j) 0 then cow_entry (phys m (table_at m d i) j) else 2)"
      if "j < 1024" for j using f p i(1) o that unfolding dir(2) by blast+
    then show ?thesis unfolding frame_uses_sum by (intro sum.cong) simp_all
  qed
  then have "entry_held m' n i q = entry_held m2 n i q" if "i < 1024" for i q using that by (simp add: entry_held_def dir(1))
  then have "tables_held m' n 1024 q = tables_held m2 n 1024 q" for q unfolding tables_held_def by (intro sum.cong) simp_all
  moreover have "mmu_refs m' q = mmu_refs m2 q" by (simp add: mmu_refs_def fr)
  ultimately show "mmu_refs m' q = mmu_refs m q + held m' n q"
    using clone_invD(6) [OF inv, of q] tables_held_all [OF cloned_child [OF sp c scr], of q] by simp
  have "RESERVED_LOW_END \<le> page_base e" if "user_at m' n v e" for v e
    using that above by (auto simp: cloned_user_at(1) [OF sp c] above_reserved_def)
  then show "above_reserved m' n" using clone_invD(4,7) [OF inv] by (simp add: above_reserved_def dir(1))
qed

text \<open>The frames that describe the copy were free.\<close>

lemma copy_described:
  assumes c: "cloned m m' d n" and q: "described_by m' n q"
  shows "mmu_refs m q = 0"
proof -
  have own: "own_table m' n i \<longleftrightarrow> own_table m d i" if "i < 1024" for i
  proof (cases "own_table m d i")
    case True
    then show ?thesis using clonedD(9) [OF c that True, of 0] clonedD(9) [OF c that True, of 2] by (simp add: private_table_bits)
  next
    case False
    then show ?thesis using clonedD(11) [OF c that False] by (auto simp: two_bits)
  qed
  then show ?thesis using q clonedD(4,8) [OF c] by (auto simp: described_by_def)
qed

lemma copy_independent:
  assumes sp: "space_ok m d" and c: "cloned m m' d n" and scr: "kernel_scratch_table m \<noteq> 0"
  shows "independent m' n d"
proof -
  have okd: "space_ok m' d" and tw: "twins m' d n" using cloned_parent [OF sp c] cloned_twins [OF sp c scr] by simp_all
  have pd: "pgdir_ok m d" using sp by (simp add: space_ok_def)
  have "kernel_scratch_table m' = kernel_scratch_table m" using clonedD(2) [OF c] by (simp add: same_regs_def)
  moreover have tab: "table_of m' d i = table_of m d i" for i by (simp add: table_of_def cloned_parent_dir(1) [OF sp c])
  ultimately have tf: "0 < mmu_refs m q" if "table_frame m' d q" for q
    using that scr sp pd pgdir_okD(2) [OF pd] by (auto simp: table_frame_def space_ok_def scratch_ok_def pgdir_ok_def)
  have live: "0 < mmu_refs m (page_base e)" if "user_at m' d v e" for v e
    using that user_at_facts(6) [OF sp] by (auto simp: cloned_user_at(1) [OF sp c])
  have "\<not> table_frame m' d (page_base e)" if "user_at m' n v e" for v e
    using that tw unfolding twins_def harmless_def by blast
  moreover have "\<not> table_frame m' d q \<and> (\<forall>v e. user_at m' d v e \<longrightarrow> page_base e \<noteq> q)" if "described_by m' n q" for q
    using copy_described [OF c that] tf [of q] live by fastforce
  moreover have "card (pages_of m' n q) + card (pages_of m' d q) \<le> mmu_refs m' q" for q
    using tw by (simp add: twins_def add.commute)
  ultimately show ?thesis unfolding independent_def by blast
qed

lemma copy_destroyed:
  assumes sp: "space_ok m d" and d: "d = page_base cr3" and above: "above_reserved m d" and scr: "kernel_scratch_table m \<noteq> 0"
    and act: "0 < mmu_refs m (active_page_directory m)" and r: "paging_clone_directory cr3 m = (n, m')" "n \<noteq> 0"
  defines "m'' \<equiv> paging_destroy_address_space n m'"
  shows "mmu_refs m'' = mmu_refs m \<and> space_ok m'' d \<and> view m'' d = view m d"
proof -
  have c: "cloned m m' d n" by (rule clone_directory_cloned [OF sp d r])
  note takes = clone_takes [OF sp d above scr r]
  have child: "space_ok m' n" by (rule cloned_child [OF sp c scr])
  have "active_page_directory m' = active_page_directory m" using clonedD(2) [OF c] by (simp add: same_regs_def)
  then have na: "n \<noteq> active_page_directory m'" using act clonedD(4) [OF c] by auto
  note ds = destroy_space [OF child takes(2) na, folded m''_def]
  have "mmu_refs m'' q = mmu_refs m q" for q using ds(3) [of q] takes(1) [of q] by simp
  moreover have "space_ok m'' d \<and> view m'' d = view m' d"
    unfolding m''_def by (rule destroy_leaves_others [OF child takes(2) na cloned_parent [OF sp c] copy_independent [OF sp c scr]])
  ultimately show ?thesis using cloned_view [OF sp c] by (simp add: fun_eq_iff)
qed

section \<open>Properties\<close>

lemma copy_demo_own: "own_table copy_demo 0x300000 i \<longleftrightarrow> i = 256"
  by (simp add: copy_demo_def space_demo_def private_table_def PAGE_PRESENT_def PAGE_USER_def)

lemma copy_demo_above: "above_reserved copy_demo 0x300000"
proof -
  have "table_at copy_demo 0x300000 256 = 0x302000" using copy_demo_table [of 256] by (auto simp: table_of_def split: if_splits)
  then show ?thesis by (auto simp: above_reserved_def copy_demo_own copy_demo_user RESERVED_LOW_END_def page_base_def)
qed

lemma copy_demo_fits: "clone_fits copy_demo 0x300000"
proof -
  have "frame_uses copy_demo t 1024 q \<le> 1024" for t q
    unfolding frame_uses_def by (rule order_trans [OF card_mono [of "{..<1024}"]]) auto
  then have "total_uses copy_demo 0x300000 0x300000 1024 q \<le> 1024" for q
    unfolding total_uses_def copy_demo_own by (simp add: sum.delta)
  then have "mmu_refs copy_demo q + total_uses copy_demo 0x300000 0x300000 1024 q \<le> 1 + 1024" for q
    using copy_demo_refs(5) by (rule add_mono [rotated])
  then have "counts_fit copy_demo 0x300000" unfolding counts_fit_def by (intro allI) (rule order_trans, assumption, simp)
  moreover have "3 \<le> card (low_free copy_demo)" using card_mono [OF _ copy_demo_free] by simp
  moreover have "{i. i < 1024 \<and> own_table copy_demo 0x300000 i} = {256}" unfolding copy_demo_own by auto
  ultimately show ?thesis by (simp add: clone_fits_def) (simp add: copy_demo_def copy_frames_def)
qed

text \<open>C5: The counts of a fork. A failed paging_clone_directory, wherever it stops, has undone all its work: every reference count, and the memory of the parent, is
  as before. A successful one has taken one reference for each page, table and directory that the child holds and no other, so that
  when the child is destroyed with paging_destroy_address_space all counts are those of before the fork, and the parent is well-formed with its old memory.\<close>

theorem fork_balance:
  assumes "space_ok m d" "above_reserved m d" "kernel_scratch_table m \<noteq> 0" "0 < mmu_refs m (active_page_directory m)"
    "paging_clone_directory d m = (n, m')"
  shows "(n = 0 \<longrightarrow> mmu_refs m' = mmu_refs m \<and> space_ok m' d \<and> view m' d = view m d) \<and>
    (n \<noteq> 0 \<longrightarrow> (\<forall>q. mmu_refs m' q = mmu_refs m q + held m' n q) \<and>
      (let m'' = paging_destroy_address_space n m' in mmu_refs m'' = mmu_refs m \<and> space_ok m'' d \<and> view m'' d = view m d))"
proof -
  have d: "d = page_base d" using assms(1) page_base_of_aligned by (simp add: space_ok_def pgdir_ok_def)
  show ?thesis
  proof (cases "n = 0")
    case True
    then have "mmu_ok m'" "same_regs m m'" "mmu_refs m' = mmu_refs m" "\<And>q. 0 < mmu_refs m q \<Longrightarrow> phys m' q = phys m q"
      using clone_failed [OF assms(1) d assms(2)] assms(5) by simp_all
    then show ?thesis using space_unchanged [OF assms(1,3)] True by simp
  next
    case False
    then show ?thesis
      using clone_takes(1) [OF assms(1) d assms(2,3,5)] copy_destroyed [OF assms(1) d assms(2-5)] by (simp add: Let_def)
  qed
qed

theorem fork_balance_witness:
  "\<exists>n m'. paging_clone_directory 0x300000 copy_demo = (n, m') \<and> n \<noteq> 0 \<and> (\<forall>q. mmu_refs m' q = mmu_refs copy_demo q + held m' n q) \<and>
     mmu_refs (paging_destroy_address_space n m') = mmu_refs copy_demo \<and>
     view (paging_destroy_address_space n m') 0x300000 = view copy_demo 0x300000"
proof -
  have a: "kernel_scratch_table copy_demo \<noteq> 0" "active_page_directory copy_demo = 0x300000" by (simp_all add: copy_demo_def space_demo_def)
  obtain n m' where r: "n \<noteq> 0" "paging_clone_directory 0x300000 copy_demo = (n, m')"
    using clone_directory_succeeds [OF copy_demo_ok _ a(1) copy_demo_fits] by auto
  then show ?thesis
    using fork_balance [of copy_demo "0x300000" n m'] copy_demo_ok copy_demo_above a copy_demo_refs(1) by (simp add: Let_def)
qed

end
