(* ===== verification/Spec2Isabelle.thy ===== *)
theory Spec2Isabelle
  imports Boot Fairness Syscall_Spec Kernel_Steps Kernel_Files Process_Spec Selftest_Elf Selftest_VFS Selftest_Memory Selftest_VM Fork_Balance
begin

text \<open>
  A verification of the x86 kernel of this repository: the C code under \<^verbatim>\<open>src/kernel\<close> with its headers under
  \<^verbatim>\<open>src/include\<close>. The kernel boots on one processor, manages physical frames and a heap, keeps files
  on a ramdisk, runs user processes in their own address spaces with copy-on-write and demand paging, schedules them by
  aging priorities, and serves system calls behind one interrupt gate.

  \<^bold>\<open>How the code is modelled.\<close> One theory per C file, one definition per function, composed as the code
  composes them. The static variables of a file are a \<open>record\<close>; an operation takes the record and returns the result and the new
  record. \<open>kernel\<close> (theory \<open>Kernel_State\<close>) joins them: the process table of \<^verbatim>\<open>process.c\<close>, the
  queue of \<^verbatim>\<open>scheduler.c\<close>, the page tables, the open files, the pipes, the heap, the devices. Integers that
  may wrap are words of their width; loop counters that stay below a table size are \<open>nat\<close>. A pointer into a table
  is an index, a null pointer is \<open>None\<close> or a Boolean argument, a pointer into memory is a 32-bit address. C error codes are
  the same integers. Interrupts are off while the kernel runs, so operations are atomic, and their interleavings
  are sequences of operations.

  \<^bold>\<open>Loops, faults and hangs.\<close> A loop over a range is \<open>for_loop\<close> or recursion on what is left. A loop
  through pointers is bounded by the size of the table it walks: \<open>walk\<close> follows at most \<^verbatim>\<open>MAX_PROCESSES\<close> (16)
  links of the ready queue and returns \<open>None\<close> if it does not reach the end by then, which
  is a cycle; the heap list is followed by \<open>partial_function (option)\<close>, where \<open>None\<close> is a loop that does not
  end. The operations that would not return set \<open>k_hung\<close>, and an access of the kernel to an unmapped address
  sets \<open>mmu_fault\<close>; both flags stay set, so a theorem that a flag is unchanged says that the operation came to an end
  and did not fault. \<open>scheduler_loops_end\<close>, \<open>kmalloc_spec\<close>, \<open>kfree_spec\<close>,
  \<open>copy_to_user_round_trip\<close> and \<open>elf_load_image\<close> state that.

  \<^bold>\<open>The theories, bottom up.\<close>
  \<^item> \<open>Prelude\<close>: types, loops, little-endian bytes, word lemmas, the collections of simplification rules.
  \<^item> \<open>CString\<close> (\<^verbatim>\<open>string.c\<close>): the routines over a byte memory; \<^verbatim>\<open>memmove\<close> is equivalent
    to copying through a snapshot.
  \<^item> \<open>Console\<close> (\<^verbatim>\<open>serial.c\<close>, \<^verbatim>\<open>vga.c\<close>): the serial output as a list of bytes, the text screen with its
    cursor; the stores stay in the screen, numbers print as their digits.
  \<^item> \<open>Memory_Map\<close> (\<^verbatim>\<open>e820.c\<close>, \<^verbatim>\<open>memory.c\<close>): the memory map of the boot loader and its bounds.
  \<^item> \<open>Frame\<close> (\<^verbatim>\<open>frame.c\<close>): bitmap, reference counts and use count agree in every reachable state; locale
    \<open>frame_allocator\<close> is what paging relies on, interpreted on the code's operations.
  \<^item> \<open>Allocator\<close> (\<^verbatim>\<open>allocator.c\<close>): the heap as a doubly linked list of headers at their addresses; allocation and
    freeing keep it a partition of the heap into live and merged free blocks.
  \<^item> \<open>Channel\<close>, \<open>Keyboard\<close> (\<^verbatim>\<open>keyboard.c\<close>), \<open>Handles\<close>, \<open>Pipe\<close> (\<^verbatim>\<open>pipe.c\<close>): the locale
    \<open>byte_channel\<close> (bytes come out in the order they went in, for every interleaving) interpreted on the keyboard ring and on pipes;
    the locale \<open>counted_handles\<close> interpreted on pipe ends and on open files.
  \<^item> \<open>Blkdev\<close>, \<open>Ramdisk\<close>, \<open>Ramdisk_Init\<close> (\<^verbatim>\<open>blkdev.h\<close>, \<^verbatim>\<open>ramdisk.c\<close>): the locale
    \<open>block_dev\<close> of sector devices, interpreted on the ramdisk.
  \<^item> \<open>SimpleFS\<close> (\<^verbatim>\<open>simplefs.c\<close>) with \<open>SimpleFS_Base\<close>, \<open>SimpleFS_Spec\<close>, \<open>SimpleFS_Files\<close>: the file system over any block device; the abstract view
    is a partial function from names to contents, and open, read, write, format and mount are shown against it. Writes that end less than 512 bytes
    below 2^32, whose number of sectors wraps to 0 in the code, are excluded there; \<open>Kernel_Files\<close> shows that no system call makes one.
  \<^item> \<open>VFS\<close> (\<^verbatim>\<open>vfs.c\<close>): open files with positions and reference counts.
  \<^item> \<open>Paging\<close> (\<^verbatim>\<open>paging.c\<close>), \<open>Virtual_Memory\<close> (loads and stores of the kernel through the
    page tables), \<open>Address_Space\<close>, \<open>User_Space\<close>, \<open>User_Memory\<close>: page directories and tables are words in physical memory. \<open>space_ok\<close> is the
    invariant of an address space: its tables are apart from each other and from the pages of the user, reference counts cover the
    mappings, and a writable page is mapped once. On it a store is an update of the map \<open>umem\<close> from user addresses to
    bytes. Resolving a copy-on-write fault gives a private copy.
  \<^item> \<open>Fork_Space\<close>, \<open>Fork_Isolation\<close>, \<open>Fork_Success\<close>: what the phases of \<^verbatim>\<open>paging_clone_directory\<close> leave in memory word by
    word; the joint invariant \<open>twins\<close> of two spaces that share frames, kept by every store and copy-on-write fault of either; and when the copy
    succeeds.
  \<^item> \<open>Space_Lifecycle\<close>, \<open>Fork_Balance\<close>: the reference counts of address spaces. \<open>held\<close> is what a space holds of each frame; destroying a
    space gives back exactly that, creating one and a copy take exactly that, and a copy that fails anywhere gives all of it back. \<open>above_reserved\<close> says that
    a space has none of its frames in the low 3 MiB, which are never freed.
  \<^item> \<open>Descriptors\<close> (\<^verbatim>\<open>gdt.c\<close>, \<^verbatim>\<open>idt.c\<close>, \<^verbatim>\<open>tss.c\<close>): the tables as the processor decodes them.
  \<^item> \<open>Kernel_State\<close> (\<^verbatim>\<open>process.h\<close>), \<open>Scheduler\<close> (\<^verbatim>\<open>scheduler.c\<close>), \<open>Ready_Queue\<close>, \<open>Scheduler_Spec\<close>, \<open>Fairness\<close>: the ready queue
    is a linked list through the process table. \<open>Scheduler_Spec\<close> gives a specification on plain lists which the
    linked operations refine; \<open>Fairness\<close> shows in the locale \<open>aging_queue\<close> that a waiting process runs within a bounded
    number of decisions, and interprets it on the scheduler.
  \<^item> \<open>Process_Table\<close>, \<open>Process\<close> (\<^verbatim>\<open>process.c\<close>), \<open>VM\<close> (\<^verbatim>\<open>vm.c\<close>), \<open>Uaccess\<close> (\<^verbatim>\<open>uaccess.c\<close>),
    \<open>Uaccess_Spec\<close>: process creation, fork, wait, signals and exit; page faults; copying from and to user memory, shown exact over \<open>umem\<close>.
  \<^item> \<open>Elf\<close> (\<^verbatim>\<open>elf.c\<close>), \<open>Elf_Spec\<close>: the program loader; accepted headers are safe to load, and loading them
    puts exactly the image of the file into user memory; it runs short of memory only with fewer than two free frames for each page, which
    \<open>Frame_Supply\<close> counts through the allocator and the page tables. \<open>Elf_Valid\<close> states in unbounded arithmetic which files are programs and shows
    that the checks of the code accept exactly these. \<open>Load_File\<close> takes this from the bytes to the path: the loader on the files of the disk.
  \<^item> \<open>Syscall\<close>, \<open>Syscall_Handle\<close> (\<^verbatim>\<open>syscall.c\<close>, \<^verbatim>\<open>timer.c\<close>), \<open>Syscall_Spec\<close>: the calls, the dispatcher, the page fault
    and timer interrupts; refused calls have no effect.
  \<^item> \<open>Fd_Balance\<close>, \<open>Fd_Lifecycle\<close>, \<open>Fd_Calls\<close>, \<open>Kernel_Steps\<close>: the kernel as a whole. \<open>kernel_step\<close> is one entry into it (a call,
    a fault, a tick, a completed context switch, a created process); \<open>balanced\<close>, kept by every step, says that the reference counts of the open
    files and of the pipe ends are the numbers of descriptors, over all processes, that name them. \<open>quiet\<close> is the frame that every operation
    without an effect on descriptors satisfies.
  \<^item> \<open>Kernel_Files\<close>: the same steps seen from the disk. The locale \<open>file_client\<close> shows that what \<^verbatim>\<open>vfs_open\<close>, \<^verbatim>\<open>vfs_read\<close>, \<^verbatim>\<open>vfs_write\<close>,
    \<^verbatim>\<open>vfs_close\<close> and \<^verbatim>\<open>vfs_retain\<close> keep, every entry into the kernel keeps; its instance is the consistency of the file system.
  \<^item> \<open>Process_Spec\<close>: the protocol between a process and its parent, from \<^verbatim>\<open>process_mark_exit\<close> to \<^verbatim>\<open>waitpid\<close>. \<open>job\<close> is what
    closing descriptors and queue operations leave alone in a process; an exit reaches the parent, which collects the child exactly once.
  \<^item> \<open>Shell\<close> (\<^verbatim>\<open>shell.c\<close>): a session is a list of keys; the line editor refines its specification on lists.
  \<^item> \<open>Boot\<close> (\<^verbatim>\<open>kernel_main\<close> of \<^verbatim>\<open>kernel.c\<close>): the start of the kernel as the composition of the initialisations above, on a memory map, a CMOS
    and link addresses that are arguments; with enough memory it reaches the shell, and every component satisfies its invariant there.
  \<^item> \<open>Test_Calls\<close> (\<^verbatim>\<open>syscall.c\<close>), \<open>Test_Images\<close> (\<^verbatim>\<open>kernel.c\<close>): the code of the self-test builds. The
    \<^verbatim>\<open>ENABLE_\<close> macros of a build are the record \<open>build\<close>; the calls that print the markers of a test are functions of it, and
    a marker is printed once per grant. The images that the tests assemble are byte lists computed as the code computes them.
  \<^item> \<open>Disk_Room\<close>, \<open>Selftest_Base\<close>, \<open>Selftest_Elf\<close>, \<open>Selftest_VFS\<close>, \<open>Selftest_Memory\<close>, \<open>Selftest_VM\<close> (\<^verbatim>\<open>kernel.c\<close>): the blocks of
    \<^verbatim>\<open>kernel_main\<close> that test the loader, the file system, the ramdisk, the frames, the heap, the memory map and the undoing of failed copies and faults, as sequences of the calls above on
    the state of the kernel, with the lines they print. The tests of the loader, the file system, the memory map with the frames, the ramdisk and the test calls are shown to print all their success lines, by composing the
    specifications of the components: \<open>Disk_Room\<close> counts sectors, so that the files of a test fit on a fresh disk.

  \<^bold>\<open>Not modelled.\<close> The self tests of \<^verbatim>\<open>kernel.c\<close> other than the ones above: those that wait for interrupts or enter user mode through inline assembly, and those of
  the processes. The boot loader, the entry
  points, the stack switch and the return to user mode are assembly. What the drivers write to the ports
  of a device is a list of port writes; reads that only wait are left out, and reads that deliver a value (scan codes, CMOS bytes) are arguments.
  The translation buffer of the processor is not modelled: every access walks the tables, which is what the
  \<^verbatim>\<open>invlpg\<close> after each change of an entry, and the reload of \<^verbatim>\<open>cr3\<close> after a copy, provide. Frame allocation failures injected for tests are part of the frame state.
\<close>

end
